(* ===== verification/Prelude.thy ===== *)
theory Prelude
  imports Main "HOL-Library.List_Lexorder" "HOL-Library.Char_ord" "HOL-Library.Multiset"
begin

text \<open>
  Shared vocabulary of the development.

  A Python function that can raise is a function into \<open>error + 'a\<close>: \<open>Inl\<close> is the
  raised exception, \<open>Inr\<close> the returned value. \<open>rbind\<close> sequences two such
  computations, \<open>ensure\<close> is \<open>if not c: raise e\<close>, \<open>each\<close> a \<open>for\<close> loop of
  checks, \<open>rmap\<close> a list comprehension whose body may raise and \<open>rfold\<close> a loop
  that threads a state.

  Python's \<open>str\<close> is modelled by its UTF-8 bytes (HOL \<open>string\<close>, a list of 8-bit
  characters): \<open>encode("utf-8")\<close> is the identity, the bytewise order is the code
  point order that \<open>sort_keys\<close> and \<open>sorted\<close> use, and \<open>pylen\<close> counts code points
  as \<open>len\<close> does. Strings with lone surrogates have no UTF-8 form and are outside
  the model. Python's \<open>bytes\<close> are the same HOL type.
\<close>

section \<open>Fallible computations\<close>

named_theorems ok_simps
  \<open>when a checker or an operation returns normally, as an equivalence\<close>

definition rbind :: "'e + 'a \<Rightarrow> ('a \<Rightarrow> 'e + 'b) \<Rightarrow> 'e + 'b" where
  "rbind m f = (case m of Inl e \<Rightarrow> Inl e | Inr x \<Rightarrow> f x)"

definition ensure :: "bool \<Rightarrow> 'e \<Rightarrow> 'e + unit" where
  "ensure c e = (if c then Inr () else Inl e)"

primrec each :: "('a \<Rightarrow> 'e + unit) \<Rightarrow> 'a list \<Rightarrow> 'e + unit" where
  "each f [] = Inr ()"
| "each f (x # xs) = rbind (f x) (\<lambda>_. each f xs)"

primrec rmap :: "('a \<Rightarrow> 'e + 'b) \<Rightarrow> 'a list \<Rightarrow> 'e + 'b list" where
  "rmap f [] = Inr []"
| "rmap f (x # xs) = rbind (f x) (\<lambda>y. rbind (rmap f xs) (\<lambda>ys. Inr (y # ys)))"

primrec rfold :: "('a \<Rightarrow> 's \<Rightarrow> 'e + 's) \<Rightarrow> 'a list \<Rightarrow> 's \<Rightarrow> 'e + 's" where
  "rfold f [] s = Inr s"
| "rfold f (x # xs) s = rbind (f x s) (rfold f xs)"

definition map_err :: "('e \<Rightarrow> 'f) \<Rightarrow> 'e + 'a \<Rightarrow> 'f + 'a" where
  "map_err g m = (case m of Inl e \<Rightarrow> Inl (g e) | Inr x \<Rightarrow> Inr x)"

definition is_ok :: "'e + 'a \<Rightarrow> bool" where
  "is_ok m = (case m of Inl _ \<Rightarrow> False | Inr _ \<Rightarrow> True)"

lemma rbind_Inl [simp]: "rbind (Inl e) f = Inl e"
  by (simp add: rbind_def)

lemma rbind_Inr [simp]: "rbind (Inr x) f = f x"
  by (simp add: rbind_def)

lemma rbind_ok [ok_simps]: "rbind m f = Inr y \<longleftrightarrow> (\<exists>x. m = Inr x \<and> f x = Inr y)"
  by (cases m) auto

lemma rbind_err: "rbind m f = Inl e \<longleftrightarrow> m = Inl e \<or> (\<exists>x. m = Inr x \<and> f x = Inl e)"
  by (cases m) auto

lemma rbind_assoc: "rbind (rbind m f) g = rbind m (\<lambda>x. rbind (f x) g)"
  by (cases m) auto

lemma rbind_cong [fundef_cong]:
  "m = m' \<Longrightarrow> (\<And>x. m' = Inr x \<Longrightarrow> f x = g x) \<Longrightarrow> rbind m f = rbind m' g"
  by (cases m') auto

lemma ensure_True [simp]: "ensure True e = Inr ()"
  by (simp add: ensure_def)

lemma ensure_False [simp]: "ensure False e = Inl e"
  by (simp add: ensure_def)

lemma ensure_ok [ok_simps]: "ensure c e = Inr u \<longleftrightarrow> c"
  by (cases c) auto

lemma ensure_err: "ensure c e = Inl d \<longleftrightarrow> \<not> c \<and> d = e"
  by (cases c) auto

lemma each_ok [ok_simps]: "each f xs = Inr u \<longleftrightarrow> (\<forall>x \<in> set xs. f x = Inr ())"
proof (induction xs)
  case (Cons x xs)
  then show ?case by (cases "f x") auto
qed simp

lemma rmap_ok [ok_simps]: "rmap f xs = Inr ys \<longleftrightarrow> list_all2 (\<lambda>x y. f x = Inr y) xs ys"
proof (induction xs arbitrary: ys)
  case (Cons x xs)
  then show ?case by (cases ys) (auto simp: rbind_ok)
qed auto

lemma rmap_length: "rmap f xs = Inr ys \<Longrightarrow> length ys = length xs"
  by (simp add: rmap_ok list_all2_lengthD)

lemma rmap_set:
  assumes "rmap f xs = Inr ys" and "y \<in> set ys"
  shows "\<exists>x \<in> set xs. f x = Inr y"
  using assms unfolding rmap_ok by (auto simp: list_all2_conv_all_nth in_set_conv_nth Bex_def)

lemma rmap_Inr_all: "(\<And>x. x \<in> set xs \<Longrightarrow> f x = Inr (g x)) \<Longrightarrow> rmap f xs = Inr (map g xs)"
  by (induction xs) auto

lemma each_Inr_all: "(\<And>x. x \<in> set xs \<Longrightarrow> f x = Inr ()) \<Longrightarrow> each f xs = Inr ()"
  by (simp add: each_ok)

lemma map_err_ok [ok_simps]: "map_err g m = Inr x \<longleftrightarrow> m = Inr x"
  by (cases m) (auto simp: map_err_def)

lemma map_err_simps [simp]: "map_err g (Inr x) = Inr x" "map_err g (Inl e) = Inl (g e)"
  by (simp_all add: map_err_def)

lemma is_ok_simps [simp]: "is_ok (Inr x) = True" "is_ok (Inl e) = False"
  by (simp_all add: is_ok_def)

lemma is_ok_iff: "is_ok m \<longleftrightarrow> (\<exists>x. m = Inr x)"
  by (cases m) auto

text \<open>A loop keeps an invariant when each of its steps does.\<close>

lemma rfold_invariant:
  assumes "rfold f xs s = Inr t" and "P s"
    and "\<And>x s s'. x \<in> set xs \<Longrightarrow> P s \<Longrightarrow> f x s = Inr s' \<Longrightarrow> P s'"
  shows "P t"
  using assms
proof (induction xs arbitrary: s)
  case (Cons x xs)
  then obtain s' where "f x s = Inr s'" "rfold f xs s' = Inr t"
    by (auto simp: rbind_ok)
  with Cons show ?case by (metis list.set_intros(1,2))
qed simp

lemma rfold_append: "rfold f (xs @ ys) s = rbind (rfold f xs s) (rfold f ys)"
proof (induction xs arbitrary: s)
  case (Cons x xs)
  then have "rfold f (xs @ ys) = (\<lambda>t. rbind (rfold f xs t) (rfold f ys))" by (rule ext)
  then show ?case by (simp add: rbind_assoc)
qed simp

section \<open>Lists and association lists\<close>

lemma map_of_filter_ne: "map_of (filter (\<lambda>kv. fst kv \<noteq> k) kvs) k' = (if k' = k then None else map_of kvs k')"
  by (induction kvs) auto

lemma distinct_fst_sort_key [simp]: "distinct (map fst (sort_key f kvs)) = distinct (map fst kvs)"
proof -
  have "mset (map fst (sort_key f kvs)) = mset (map fst kvs)" by (simp only: mset_map mset_sort)
  then show ?thesis by (rule mset_eq_imp_distinct_iff)
qed

lemma map_of_sort_key: "distinct (map fst kvs) \<Longrightarrow> map_of (sort_key f kvs) = map_of kvs"
  by (rule map_of_inject_set [THEN iffD2]) simp_all

lemma map_of_map_snd: "map_of (map (\<lambda>(k, v). (k, f v)) kvs) k = map_option f (map_of kvs k)"
  by (induction kvs) auto

lemma fst_comp_map_snd [simp]: "fst \<circ> (\<lambda>(k, v). (k, f v)) = fst"
  by (auto simp: fun_eq_iff)

lemma find_Some_iff_ex: "(\<exists>x. find P xs = Some x) \<longleftrightarrow> (\<exists>x \<in> set xs. P x)"
  by (induction xs) auto

lemma find_SomeD: "find P xs = Some x \<Longrightarrow> x \<in> set xs \<and> P x"
  by (induction xs) (auto split: if_splits)

lemma distinct_map_unique:
  "distinct (map f xs) \<Longrightarrow> x \<in> set xs \<Longrightarrow> y \<in> set xs \<Longrightarrow> f x = f y \<Longrightarrow> x = y"
  by (auto simp: distinct_map dest: inj_onD)

section \<open>Text\<close>

text \<open>Bytes that continue a multi-byte UTF-8 sequence; the others start a code point.\<close>

definition byte :: "char \<Rightarrow> nat" where
  "byte c = of_char c"

definition continuation :: "char \<Rightarrow> bool" where
  "continuation c = (128 \<le> byte c \<and> byte c < 192)"

primrec pylen :: "string \<Rightarrow> int" where
  "pylen [] = 0"
| "pylen (c # s) = (if continuation c then 0 else 1) + pylen s"

text \<open>\<open>len\<close> of \<open>bytes\<close>, lists and dictionaries: an integer, as in Python.\<close>

primrec len :: "'a list \<Rightarrow> int" where
  "len [] = 0"
| "len (x # xs) = 1 + len xs"

lemma len_length: "len xs = int (length xs)"
  by (induction xs) auto

lemma byte_less: "byte c < 256"
  unfolding byte_def by simp

lemma pylen_nonneg: "0 \<le> pylen s"
  by (induction s) auto

lemma pylen_le: "pylen s \<le> len s"
  by (induction s) auto

lemma pylen_append [simp]: "pylen (s @ t) = pylen s + pylen t"
  by (induction s) auto

lemma len_append [simp]: "len (s @ t) = len s + len t"
  by (induction s) auto

text \<open>Character classes of the regular expressions (all of them ASCII).\<close>

definition is_digit :: "char \<Rightarrow> bool" where
  "is_digit c = (48 \<le> byte c \<and> byte c \<le> 57)"

definition is_lower :: "char \<Rightarrow> bool" where
  "is_lower c = (97 \<le> byte c \<and> byte c \<le> 122)"

definition is_upper :: "char \<Rightarrow> bool" where
  "is_upper c = (65 \<le> byte c \<and> byte c \<le> 90)"

definition is_hex :: "char \<Rightarrow> bool" where
  "is_hex c = (is_digit c \<or> (97 \<le> byte c \<and> byte c \<le> 102))"

definition is_alnum :: "char \<Rightarrow> bool" where
  "is_alnum c = (is_digit c \<or> is_lower c \<or> is_upper c)"

lemma pylen_ascii: "(\<And>c. c \<in> set s \<Longrightarrow> byte c < 128) \<Longrightarrow> pylen s = len s"
  by (induction s) (auto simp: continuation_def not_le)

lemma is_hex_ascii: "is_hex c \<Longrightarrow> byte c < 128"
  by (auto simp: is_hex_def is_digit_def)

lemma is_alnum_ascii: "is_alnum c \<Longrightarrow> byte c < 128"
  by (auto simp: is_alnum_def is_digit_def is_lower_def is_upper_def)

text \<open>Python's \<open>str.startswith\<close>.\<close>

definition starts_with :: "string \<Rightarrow> string \<Rightarrow> bool" where
  "starts_with p s = (take (length p) s = p)"

lemma starts_with_append [simp]: "starts_with p (p @ s)"
  by (simp add: starts_with_def)

section \<open>Encoders and their strict decoders\<close>

text \<open>
  The wire formats of the program (base64, canonical JSON, identifiers) come as an
  encoder and a decoder that accepts canonical encodings only. Two laws are the
  whole interface: decoding what was encoded gives the value back, and whatever is
  accepted is the encoding of what comes out.
\<close>

locale strict_codec =
  fixes enc :: "'a \<Rightarrow> string" and dec :: "string \<Rightarrow> 'a option" and valid :: "'a \<Rightarrow> bool"
  assumes dec_enc: "valid x \<Longrightarrow> dec (enc x) = Some x"
    and enc_dec: "dec s = Some x \<Longrightarrow> enc x = s \<and> valid x"
begin

lemma dec_iff: "dec s = Some x \<longleftrightarrow> valid x \<and> s = enc x"
  using dec_enc enc_dec by blast

lemma enc_inject: "valid x \<Longrightarrow> valid y \<Longrightarrow> enc x = enc y \<longleftrightarrow> x = y"
  by (metis dec_enc option.inject)

lemma unique_encoding: "dec s = Some x \<Longrightarrow> dec t = Some x \<Longrightarrow> s = t"
  using enc_dec by metis

end

end
