(* ===== verification/Json.thy ===== *)
theory Json
  imports Prelude
begin

text \<open>
  JSON values as Python's \<open>json\<close> module represents them, the dictionary operations
  the program uses on them, Python's equality, and the two \<open>json.dumps\<close> layouts of
  the program: the canonical one (\<open>sort_keys=True, separators=(",", ":")\<close>) and the
  default one. An object is its list of members in insertion order. A float is kept
  as the text that \<open>repr\<close> prints: the program never computes with the floats it
  reads from JSON.
\<close>

section \<open>Values\<close>

datatype json =
    JNull
  | JBool bool
  | JInt int
  | JFloat string
  | JStr string
  | JList "json list"
  | JObj "(string \<times> json) list"

text \<open>\<open>isinstance\<close> and \<open>type(...) is\<close> tests; \<open>bool\<close> is a subclass of \<open>int\<close>.\<close>

primrec is_str :: "json \<Rightarrow> bool" where
  "is_str JNull = False" | "is_str (JBool b) = False" | "is_str (JInt i) = False"
| "is_str (JFloat f) = False" | "is_str (JStr s) = True" | "is_str (JList l) = False"
| "is_str (JObj m) = False"

primrec is_obj :: "json \<Rightarrow> bool" where
  "is_obj JNull = False" | "is_obj (JBool b) = False" | "is_obj (JInt i) = False"
| "is_obj (JFloat f) = False" | "is_obj (JStr s) = False" | "is_obj (JList l) = False"
| "is_obj (JObj m) = True"

primrec members :: "json \<Rightarrow> (string \<times> json) list" where
  "members JNull = []" | "members (JBool b) = []" | "members (JInt i) = []"
| "members (JFloat f) = []" | "members (JStr s) = []" | "members (JList l) = []"
| "members (JObj m) = m"

primrec items :: "json \<Rightarrow> json list" where
  "items JNull = []" | "items (JBool b) = []" | "items (JInt i) = []"
| "items (JFloat f) = []" | "items (JStr s) = []" | "items (JList l) = l"
| "items (JObj m) = []"

primrec text_of :: "json \<Rightarrow> string" where
  "text_of JNull = []" | "text_of (JBool b) = []" | "text_of (JInt i) = []"
| "text_of (JFloat f) = []" | "text_of (JStr s) = s" | "text_of (JList l) = []"
| "text_of (JObj m) = []"

primrec int_of :: "json \<Rightarrow> int" where
  "int_of JNull = 0" | "int_of (JBool b) = 0" | "int_of (JInt i) = i"
| "int_of (JFloat f) = 0" | "int_of (JStr s) = 0" | "int_of (JList l) = 0"
| "int_of (JObj m) = 0"

text \<open>
  \<open>d.get(k)\<close> with the default \<open>None\<close>, and \<open>k in d\<close>. The code subscripts
  \<open>d[k]\<close> only after it has checked the exact set of keys, where the two agree.
\<close>

definition fld :: "json \<Rightarrow> string \<Rightarrow> json" where
  "fld v k = (case map_of (members v) k of None \<Rightarrow> JNull | Some x \<Rightarrow> x)"

definition has_key :: "json \<Rightarrow> string \<Rightarrow> bool" where
  "has_key v k = (k \<in> set (map fst (members v)))"

definition exact_keys :: "string list \<Rightarrow> json \<Rightarrow> bool" where
  "exact_keys ks v = (is_obj v \<and> set (map fst (members v)) = set ks)"

text \<open>\<open>{**d, k: x}\<close>: an existing key keeps its position, a new one is appended.\<close>

definition put :: "string \<Rightarrow> json \<Rightarrow> (string \<times> json) list \<Rightarrow> (string \<times> json) list" where
  "put k x m = (if k \<in> set (map fst m) then map (\<lambda>(k', v). (k', if k' = k then x else v)) m
                else m @ [(k, x)])"

lemma map_of_put: "map_of (put k x m) k' = (if k' = k then Some x else map_of m k')"
proof -
  have u: "map_of (map (\<lambda>(k', v). (k', if k' = k then x else v)) m) k' = (if k' = k then map_option (\<lambda>_. x) (map_of m k) else map_of m k')"
    by (induction m) auto
  show ?thesis
  proof (cases "k \<in> set (map fst m)")
    case True
    then obtain y where "map_of m k = Some y" by (auto dest: weak_map_of_SomeI)
    with True u show ?thesis by (simp add: put_def)
  next
    case False
    then have "map_of m k = None" by (simp add: map_of_eq_None_iff)
    with False show ?thesis by (simp add: put_def map_add_def split: option.split)
  qed
qed

definition without :: "string \<Rightarrow> json \<Rightarrow> json" where
  "without k v = JObj (filter (\<lambda>kv. fst kv \<noteq> k) (members v))"

lemma exact_keys_has: "exact_keys ks v \<Longrightarrow> k \<in> set ks \<Longrightarrow> map_of (members v) k = Some (fld v k)"
  by (cases "map_of (members v) k") (auto simp: exact_keys_def fld_def map_of_eq_None_iff)

lemma exact_keys_only:
  assumes "exact_keys ks v" and "k \<notin> set ks"
  shows "fld v k = JNull"
proof -
  from assms have "map_of (members v) k = None" by (auto simp: exact_keys_def map_of_eq_None_iff)
  then show ?thesis by (simp add: fld_def)
qed

lemma fld_without: "fld (without k v) k' = (if k' = k then JNull else fld v k')"
  by (simp add: fld_def without_def map_of_filter_ne)

text \<open>
  Objects never repeat a key (they are Python dictionaries): the invariant of every
  value that a reader of the program returns.
\<close>

fun wf_json :: "json \<Rightarrow> bool"
  and wf_items :: "json list \<Rightarrow> bool"
  and wf_members :: "(string \<times> json) list \<Rightarrow> bool" where
  "wf_json JNull = True"
| "wf_json (JBool b) = True"
| "wf_json (JInt i) = True"
| "wf_json (JFloat f) = True"
| "wf_json (JStr s) = True"
| "wf_json (JList l) = wf_items l"
| "wf_json (JObj m) = (distinct (map fst m) \<and> wf_members m)"
| "wf_items [] = True"
| "wf_items (x # xs) = (wf_json x \<and> wf_items xs)"
| "wf_members [] = True"
| "wf_members ((k, v) # m) = (wf_json v \<and> wf_members m)"

fun no_float :: "json \<Rightarrow> bool"
  and no_float_items :: "json list \<Rightarrow> bool"
  and no_float_members :: "(string \<times> json) list \<Rightarrow> bool" where
  "no_float JNull = True"
| "no_float (JBool b) = True"
| "no_float (JInt i) = True"
| "no_float (JFloat f) = False"
| "no_float (JStr s) = True"
| "no_float (JList l) = no_float_items l"
| "no_float (JObj m) = no_float_members m"
| "no_float_items [] = True"
| "no_float_items (x # xs) = (no_float x \<and> no_float_items xs)"
| "no_float_members [] = True"
| "no_float_members ((k, v) # m) = (no_float v \<and> no_float_members m)"

lemma wf_items_all: "wf_items xs \<longleftrightarrow> (\<forall>x \<in> set xs. wf_json x)"
  by (induction xs) auto

lemma wf_members_all: "wf_members m \<longleftrightarrow> (\<forall>kv \<in> set m. wf_json (snd kv))"
  by (induction m) auto

lemma no_float_items_all: "no_float_items xs \<longleftrightarrow> (\<forall>x \<in> set xs. no_float x)"
  by (induction xs) auto

lemma no_float_members_all: "no_float_members m \<longleftrightarrow> (\<forall>kv \<in> set m. no_float (snd kv))"
  by (induction m) auto

lemma wf_fld: "wf_json v \<Longrightarrow> wf_json (fld v k)"
  by (cases v) (auto simp: fld_def wf_members_all split: option.split dest!: map_of_SomeD)

lemma no_float_fld: "no_float v \<Longrightarrow> no_float (fld v k)"
  by (cases v) (auto simp: fld_def no_float_members_all split: option.split dest!: map_of_SomeD)

section \<open>Python equality\<close>

text \<open>
  \<open>==\<close> on JSON values: \<open>True == 1\<close> and \<open>False == 0\<close> hold in Python, dictionaries
  are compared without regard to the order of their keys. Floats compare by their
  text (the signed protocols reject floats before any comparison).
\<close>

definition bool_int :: "bool \<Rightarrow> int" where
  "bool_int b = (if b then 1 else 0)"

fun py_eq :: "json \<Rightarrow> json \<Rightarrow> bool"
  and py_eq_items :: "json list \<Rightarrow> json list \<Rightarrow> bool"
  and py_eq_members :: "(string \<times> json) list \<Rightarrow> (string \<times> json) list \<Rightarrow> bool" where
  "py_eq JNull w = (w = JNull)"
| "py_eq (JBool b) w = (case w of JBool c \<Rightarrow> b = c | JInt i \<Rightarrow> i = bool_int b | _ \<Rightarrow> False)"
| "py_eq (JInt i) w = (case w of JInt j \<Rightarrow> i = j | JBool b \<Rightarrow> i = bool_int b | _ \<Rightarrow> False)"
| "py_eq (JFloat f) w = (w = JFloat f)"
| "py_eq (JStr s) w = (w = JStr s)"
| "py_eq (JList l) w = (case w of JList l' \<Rightarrow> py_eq_items l l' | _ \<Rightarrow> False)"
| "py_eq (JObj m) w = (case w of JObj m' \<Rightarrow> length m = length m' \<and> py_eq_members m m' | _ \<Rightarrow> False)"
| "py_eq_items [] ys = (ys = [])"
| "py_eq_items (x # xs) ys = (case ys of [] \<Rightarrow> False | y # ys' \<Rightarrow> py_eq x y \<and> py_eq_items xs ys')"
| "py_eq_members [] m' = True"
| "py_eq_members ((k, v) # m) m' =
     ((case map_of m' k of None \<Rightarrow> False | Some w \<Rightarrow> py_eq v w) \<and> py_eq_members m m')"

lemma py_eq_str [simp]: "py_eq v (JStr s) \<longleftrightarrow> v = JStr s"
  by (cases v) auto

lemma py_eq_null [simp]: "py_eq v JNull \<longleftrightarrow> v = JNull"
  by (cases v) auto

lemma py_eq_int: "py_eq v (JInt i) \<longleftrightarrow> v = JInt i \<or> (\<exists>b. v = JBool b \<and> i = bool_int b)"
  by (cases v) auto

lemma py_eq_int_int [simp]: "py_eq (JInt j) (JInt i) \<longleftrightarrow> j = i"
  by simp

section \<open>Writing\<close>

text \<open>\<open>json.encoder.ESCAPE\<close>: with \<open>ensure_ascii=False\<close> only quotes, backslashes and
  the control characters below 32 are escaped.\<close>

definition hex_digit :: "nat \<Rightarrow> char" where
  "hex_digit n = char_of (if n < 10 then 48 + n else 87 + n)"

definition escape_char :: "char \<Rightarrow> string" where
  "escape_char c =
     (if c = CHR 0x22 then [CHR 0x5C, CHR 0x22]
      else if c = CHR 0x5C then [CHR 0x5C, CHR 0x5C]
      else if byte c = 8 then [CHR 0x5C, CHR ''b'']
      else if byte c = 12 then [CHR 0x5C, CHR ''f'']
      else if byte c = 10 then [CHR 0x5C, CHR ''n'']
      else if byte c = 13 then [CHR 0x5C, CHR ''r'']
      else if byte c = 9 then [CHR 0x5C, CHR ''t'']
      else if byte c < 32 then [CHR 0x5C, CHR ''u'', CHR ''0'', CHR ''0'',
                                hex_digit (byte c div 16), hex_digit (byte c mod 16)]
      else [c])"

definition quote :: "string \<Rightarrow> string" where
  "quote s = CHR 0x22 # concat (map escape_char s) @ [CHR 0x22]"

fun show_nat :: "nat \<Rightarrow> string" where
  "show_nat n = (if n < 10 then [char_of (48 + n)] else show_nat (n div 10) @ [char_of (48 + n mod 10)])"

declare show_nat.simps [simp del]

definition show_int :: "int \<Rightarrow> string" where
  "show_int i = (if i < 0 then CHR ''-'' # show_nat (nat (- i)) else show_nat (nat i))"

text \<open>\<open>dumps sep colon\<close> writes with the given separators; keys in the order they have.\<close>

fun dumps :: "string \<Rightarrow> string \<Rightarrow> json \<Rightarrow> string"
  and dumps_items :: "string \<Rightarrow> string \<Rightarrow> json list \<Rightarrow> string"
  and dumps_members :: "string \<Rightarrow> string \<Rightarrow> (string \<times> json) list \<Rightarrow> string" where
  "dumps sep col JNull = ''null''"
| "dumps sep col (JBool b) = (if b then ''true'' else ''false'')"
| "dumps sep col (JInt i) = show_int i"
| "dumps sep col (JFloat f) = f"
| "dumps sep col (JStr s) = quote s"
| "dumps sep col (JList l) = ''['' @ dumps_items sep col l @ '']''"
| "dumps sep col (JObj m) = ''{'' @ dumps_members sep col m @ ''}''"
| "dumps_items sep col [] = []"
| "dumps_items sep col (x # xs) =
     dumps sep col x @ (if xs = [] then [] else sep @ dumps_items sep col xs)"
| "dumps_members sep col [] = []"
| "dumps_members sep col ((k, v) # m) =
     quote k @ col @ dumps sep col v @ (if m = [] then [] else sep @ dumps_members sep col m)"

text \<open>\<open>sort_keys=True\<close>, at every depth.\<close>

fun sort_members :: "json \<Rightarrow> json"
  and sort_items :: "json list \<Rightarrow> json list"
  and sort_pairs :: "(string \<times> json) list \<Rightarrow> (string \<times> json) list" where
  "sort_members JNull = JNull"
| "sort_members (JBool b) = JBool b"
| "sort_members (JInt i) = JInt i"
| "sort_members (JFloat f) = JFloat f"
| "sort_members (JStr s) = JStr s"
| "sort_members (JList l) = JList (sort_items l)"
| "sort_members (JObj m) = JObj (sort_key fst (sort_pairs m))"
| "sort_items [] = []"
| "sort_items (x # xs) = sort_members x # sort_items xs"
| "sort_pairs [] = []"
| "sort_pairs ((k, v) # m) = (k, sort_members v) # sort_pairs m"

definition canonical_text :: "json \<Rightarrow> string" where
  "canonical_text v = dumps '','' '':'' (sort_members v)"

definition default_text :: "json \<Rightarrow> string" where
  "default_text v = dumps '', '' '': '' v"

lemma sort_items_map: "sort_items xs = map sort_members xs"
  by (induction xs) auto

lemma sort_pairs_map: "sort_pairs m = map (\<lambda>(k, v). (k, sort_members v)) m"
  by (induction m) auto

lemma wf_sort_members:
  "wf_json v \<Longrightarrow> wf_json (sort_members v)" "wf_items xs \<Longrightarrow> wf_items (sort_items xs)"
  "wf_members m \<Longrightarrow> wf_members (sort_pairs m)"
  by (induction v and xs and m rule: wf_json_wf_items_wf_members.induct)
    (auto simp: wf_members_all sort_pairs_map)

lemma no_float_sort_members:
  "no_float v \<Longrightarrow> no_float (sort_members v)" "no_float_items xs \<Longrightarrow> no_float_items (sort_items xs)"
  "no_float_members m \<Longrightarrow> no_float_members (sort_pairs m)"
  by (induction v and xs and m rule: no_float_no_float_items_no_float_members.induct)
    (auto simp: no_float_members_all)

lemma fld_sort_members:
  assumes "wf_json v"
  shows "fld (sort_members v) k = sort_members (fld v k)"
proof (cases v)
  case (JObj m)
  with assms have "distinct (map fst (sort_pairs m))" by (simp add: sort_pairs_map)
  then have "map_of (sort_key fst (sort_pairs m)) = map_of (sort_pairs m)"
    by (rule map_of_sort_key)
  with JObj show ?thesis
    by (simp add: fld_def sort_pairs_map map_of_map_snd split: option.split)
qed (simp_all add: fld_def)

end
