(* ===== verification/Json_Reader.thy ===== *)
theory Json_Reader
  imports Json
begin

text \<open>
  \<open>json.loads\<close> of the standard library, with the hooks the program installs:
  repeated object keys always raise, floats and the constants \<open>NaN\<close>,
  \<open>Infinity\<close> and \<open>-Infinity\<close> raise where the caller's hook does (\<open>jcfg\<close>).
  The scanner follows \<open>json.scanner\<close>/\<open>json.decoder\<close>: one value, white space
  around it, nothing after it.

  The recursion of the scanner is bounded by fuel; \<open>loads\<close> starts with more fuel
  than the text has characters, and \<open>read_value_fuel_indep\<close> shows that no larger amount
  changes the result, so the bound is never what makes a text fail.
  Escapes of lone surrogates have no UTF-8 form; the model rejects them where Python
  builds a string that no later step of the program could encode.
\<close>

section \<open>Errors and configuration\<close>

datatype jerror = JSyntax | JDuplicate | JFloatLiteral | JConstant

record jcfg =
  allow_float :: bool
  allow_constant :: bool

section \<open>Lexical level\<close>

definition is_ws :: "char \<Rightarrow> bool" where
  "is_ws c = (byte c = 32 \<or> byte c = 9 \<or> byte c = 10 \<or> byte c = 13)"

definition skip_ws :: "string \<Rightarrow> string" where
  "skip_ws s = dropWhile is_ws s"

definition hex_val :: "char \<Rightarrow> nat option" where
  "hex_val c = (if is_digit c then Some (byte c - 48)
                else if 97 \<le> byte c \<and> byte c \<le> 102 then Some (byte c - 87)
                else if 65 \<le> byte c \<and> byte c \<le> 70 then Some (byte c - 55) else None)"

definition hex4 :: "char \<Rightarrow> char \<Rightarrow> char \<Rightarrow> char \<Rightarrow> nat option" where
  "hex4 a b c d = (case (hex_val a, hex_val b, hex_val c, hex_val d) of
     (Some w, Some x, Some y, Some z) \<Rightarrow> Some (4096 * w + 256 * x + 16 * y + z) | _ \<Rightarrow> None)"

definition utf8_encode :: "nat \<Rightarrow> string" where
  "utf8_encode n = map char_of
     (if n < 128 then [n]
      else if n < 2048 then [192 + n div 64, 128 + n mod 64]
      else if n < 65536 then [224 + n div 4096, 128 + n div 64 mod 64, 128 + n mod 64]
      else [240 + n div 262144, 128 + n div 4096 mod 64, 128 + n div 64 mod 64, 128 + n mod 64])"

definition simple_escape :: "char \<Rightarrow> char option" where
  "simple_escape c =
     (if byte c = 34 \<or> byte c = 92 \<or> byte c = 47 then Some c
      else if c = CHR ''b'' then Some (char_of (8::nat)) else if c = CHR ''f'' then Some (char_of (12::nat))
      else if c = CHR ''n'' then Some (char_of (10::nat)) else if c = CHR ''r'' then Some (char_of (13::nat))
      else if c = CHR ''t'' then Some (char_of (9::nat)) else None)"

text \<open>\<open>scanstring\<close>, strict: raw control characters are refused. Called after the
  opening quote; returns the string and the text after the closing quote.\<close>

definition prepend :: "string \<Rightarrow> (string \<times> 'a) option \<Rightarrow> (string \<times> 'a) option" where
  "prepend p r = (case r of None \<Rightarrow> None | Some (s, t) \<Rightarrow> Some (p @ s, t))"

lemma prepend_simps [simp]: "prepend p None = None" "prepend p (Some (s, t)) = Some (p @ s, t)"
  by (simp_all add: prepend_def)

fun scan_string :: "string \<Rightarrow> (string \<times> string) option" where
  "scan_string [] = None"
| "scan_string (c # r) =
     (if byte c = 34 then Some ([], r)
      else if byte c = 92 then
        (case r of [] \<Rightarrow> None
         | e # r1 \<Rightarrow>
           (if e = CHR ''u'' then
              (case r1 of
                 a # b # x # y # r2 \<Rightarrow>
                   (case hex4 a b x y of None \<Rightarrow> None
                    | Some n \<Rightarrow>
                      (if 55296 \<le> n \<and> n < 56320 then
                         (case r2 of
                            z1 # z2 # a' # b' # x' # y' # r3 \<Rightarrow>
                              (if byte z1 = 92 \<and> z2 = CHR ''u'' then
                                 (case hex4 a' b' x' y' of None \<Rightarrow> None
                                  | Some m \<Rightarrow>
                                    (if 56320 \<le> m \<and> m < 57344
                                     then prepend (utf8_encode (65536 + 1024 * (n - 55296) + (m - 56320)))
                                            (scan_string r3)
                                     else None))
                               else None)
                          | _ \<Rightarrow> None)
                       else if 56320 \<le> n \<and> n < 57344 then None
                       else prepend (utf8_encode n) (scan_string r2)))
               | _ \<Rightarrow> None)
            else (case simple_escape e of None \<Rightarrow> None | Some x \<Rightarrow> prepend [x] (scan_string r1))))
      else if byte c < 32 then None
      else prepend [c] (scan_string r))"

declare scan_string.simps(2) [simp del]

text \<open>\<open>NUMBER_RE\<close>: the longest match of an integer part, a fraction and an exponent.\<close>

definition digits_of :: "string \<Rightarrow> string \<times> string" where
  "digits_of s = (takeWhile is_digit s, dropWhile is_digit s)"

definition int_part :: "string \<Rightarrow> (string \<times> string) option" where
  "int_part s = (case s of [] \<Rightarrow> None
     | c # r \<Rightarrow> (if byte c = 48 then Some ([c], r)
                 else if is_digit c then Some (digits_of s) else None))"

definition frac_part :: "string \<Rightarrow> string \<times> string" where
  "frac_part s = (case s of [] \<Rightarrow> ([], s)
     | c # r \<Rightarrow> (if c = CHR ''.'' \<and> fst (digits_of r) \<noteq> [] then (c # fst (digits_of r), snd (digits_of r))
                 else ([], s)))"

definition exp_part :: "string \<Rightarrow> string \<times> string" where
  "exp_part s = (case s of [] \<Rightarrow> ([], s)
     | c # r \<Rightarrow> (if c = CHR ''e'' \<or> c = CHR ''E'' then
                   (let sg = (case r of [] \<Rightarrow> [] | d # _ \<Rightarrow> if d = CHR ''+'' \<or> d = CHR ''-'' then [d] else []);
                        r' = drop (length sg) r; ds = digits_of r'
                    in if fst ds \<noteq> [] then (c # sg @ fst ds, snd ds) else ([], s))
                 else ([], s)))"

definition dec_nat :: "string \<Rightarrow> nat" where
  "dec_nat ds = foldl (\<lambda>n c. 10 * n + (byte c - 48)) 0 ds"

definition read_number :: "jcfg \<Rightarrow> string \<Rightarrow> jerror + (json \<times> string)" where
  "read_number cfg s =
     (let neg = (case s of [] \<Rightarrow> False | c # _ \<Rightarrow> c = CHR ''-'');
          t = (if neg then tl s else s)
      in case int_part t of None \<Rightarrow> Inl JSyntax
         | Some (ds, r) \<Rightarrow>
           (let fr = frac_part r; ex = exp_part (snd fr)
            in if fst fr = [] \<and> fst ex = []
               then Inr (JInt (if neg then - int (dec_nat ds) else int (dec_nat ds)), r)
               else if allow_float cfg
               then Inr (JFloat ((if neg then ''-'' else []) @ ds @ fst fr @ fst ex), snd ex)
               else Inl JFloatLiteral))"

section \<open>Values\<close>

definition read_constant :: "jcfg \<Rightarrow> string \<Rightarrow> string \<Rightarrow> jerror + (json \<times> string)" where
  "read_constant cfg name r = (if allow_constant cfg then Inr (JFloat name, r) else Inl JConstant)"

fun read_value :: "jcfg \<Rightarrow> nat \<Rightarrow> string \<Rightarrow> jerror + (json \<times> string)"
  and read_items :: "jcfg \<Rightarrow> nat \<Rightarrow> string \<Rightarrow> jerror + (json list \<times> string)"
  and read_members :: "jcfg \<Rightarrow> nat \<Rightarrow> string \<Rightarrow> jerror + ((string \<times> json) list \<times> string)" where
  "read_value cfg 0 s = Inl JSyntax"
| "read_value cfg (Suc n) s =
     (case s of [] \<Rightarrow> Inl JSyntax
      | c # r \<Rightarrow>
        (if byte c = 34 then
           (case scan_string r of None \<Rightarrow> Inl JSyntax | Some (t, r') \<Rightarrow> Inr (JStr t, r'))
         else if c = CHR ''{'' then
           (if take 1 (skip_ws r) = ''}'' then Inr (JObj [], drop 1 (skip_ws r))
            else rbind (read_members cfg n (skip_ws r)) (\<lambda>(m, r').
                 if distinct (map fst m) then Inr (JObj m, r') else Inl JDuplicate))
         else if c = CHR ''['' then
           (if take 1 (skip_ws r) = '']'' then Inr (JList [], drop 1 (skip_ws r))
            else rbind (read_items cfg n (skip_ws r)) (\<lambda>(l, r'). Inr (JList l, r')))
         else if starts_with ''null'' s then Inr (JNull, drop 4 s)
         else if starts_with ''true'' s then Inr (JBool True, drop 4 s)
         else if starts_with ''false'' s then Inr (JBool False, drop 5 s)
         else if is_digit c \<or> (c = CHR ''-'' \<and> is_digit (hd (r @ ''x''))) then read_number cfg s
         else if starts_with ''NaN'' s then read_constant cfg ''nan'' (drop 3 s)
         else if starts_with ''Infinity'' s then read_constant cfg ''inf'' (drop 8 s)
         else if starts_with ''-Infinity'' s then read_constant cfg ''-inf'' (drop 9 s)
         else Inl JSyntax))"
| "read_items cfg 0 s = Inl JSyntax"
| "read_items cfg (Suc n) s =
     rbind (read_value cfg n s) (\<lambda>(v, r).
       (case skip_ws r of [] \<Rightarrow> Inl JSyntax
        | c # r' \<Rightarrow>
          (if c = CHR '']'' then Inr ([v], r')
           else if c = CHR '','' then
             rbind (read_items cfg n (skip_ws r')) (\<lambda>(vs, r2). Inr (v # vs, r2))
           else Inl JSyntax)))"
| "read_members cfg 0 s = Inl JSyntax"
| "read_members cfg (Suc n) s =
     (case s of [] \<Rightarrow> Inl JSyntax
      | q # r \<Rightarrow>
        (if byte q = 34 then
           (case scan_string r of None \<Rightarrow> Inl JSyntax
            | Some (k, r1) \<Rightarrow>
              (case skip_ws r1 of [] \<Rightarrow> Inl JSyntax
               | c # r2 \<Rightarrow>
                 (if c = CHR '':'' then
                    rbind (read_value cfg n (skip_ws r2)) (\<lambda>(v, r3).
                      (case skip_ws r3 of [] \<Rightarrow> Inl JSyntax
                       | d # r4 \<Rightarrow>
                         (if d = CHR ''}'' then Inr ([(k, v)], r4)
                          else if d = CHR '','' then
                            rbind (read_members cfg n (skip_ws r4)) (\<lambda>(m, r5). Inr ((k, v) # m, r5))
                          else Inl JSyntax)))
                  else Inl JSyntax)))
         else Inl JSyntax))"

definition loads :: "jcfg \<Rightarrow> string \<Rightarrow> jerror + json" where
  "loads cfg s =
     rbind (read_value cfg (Suc (2 * length s)) (skip_ws s)) (\<lambda>(v, r).
       if skip_ws r = [] then Inr v else Inl JSyntax)"

text \<open>\<open>bytes.decode("utf-8")\<close> accepts exactly the shortest-form encodings of the
  code points that are not surrogates. The state is the number of continuation bytes
  still expected and the range of the next one.\<close>

type_synonym utf8_state = "nat \<times> nat \<times> nat"

definition utf8_start :: utf8_state where
  "utf8_start = (0, 128, 191)"

definition utf8_step :: "utf8_state \<Rightarrow> nat \<Rightarrow> utf8_state option" where
  "utf8_step st b = (case st of (n, lo, hi) \<Rightarrow>
     (if n = 0 then
        (if b < 128 then Some utf8_start
         else if 194 \<le> b \<and> b \<le> 223 then Some (1, 128, 191)
         else if b = 224 then Some (2, 160, 191)
         else if b = 237 then Some (2, 128, 159)
         else if 225 \<le> b \<and> b \<le> 239 then Some (2, 128, 191)
         else if b = 240 then Some (3, 144, 191)
         else if b = 244 then Some (3, 128, 143)
         else if 241 \<le> b \<and> b \<le> 243 then Some (3, 128, 191)
         else None)
      else if lo \<le> b \<and> b \<le> hi then Some (n - 1, 128, 191) else None))"

primrec utf8_run :: "nat list \<Rightarrow> utf8_state \<Rightarrow> utf8_state option" where
  "utf8_run [] st = Some st"
| "utf8_run (b # bs) st = Option.bind (utf8_step st b) (utf8_run bs)"

definition valid_utf8 :: "string \<Rightarrow> bool" where
  "valid_utf8 s = (utf8_run (map byte s) utf8_start = Some utf8_start)"

section \<open>What the reader returns\<close>

text \<open>
  Objects without repeated keys at every depth, and no floats unless the caller
  accepts them.
\<close>

lemma read_number_plain: "read_number cfg s = Inr (v, r) \<Longrightarrow> wf_json v \<and> (allow_float cfg \<or> no_float v)"
  by (auto simp: read_number_def Let_def split: option.splits if_splits prod.splits)

lemma read_constant_plain:
  "read_constant cfg c s = Inr (v, r) \<Longrightarrow> wf_json v \<and> (allow_constant cfg \<or> no_float v)"
  by (auto simp: read_constant_def split: if_splits)

lemma read_plain:
  "read_value cfg n s = Inr (v, r) \<Longrightarrow> wf_json v \<and> (allow_float cfg \<or> allow_constant cfg \<or> no_float v)"
  "read_items cfg n s = Inr (vs, r) \<Longrightarrow>
     wf_items vs \<and> (allow_float cfg \<or> allow_constant cfg \<or> no_float_items vs)"
  "read_members cfg n s = Inr (m, r) \<Longrightarrow>
     wf_members m \<and> (allow_float cfg \<or> allow_constant cfg \<or> no_float_members m)"
proof (induction n arbitrary: s v r vs m)
  case (Suc n)
  note IH = Suc.IH
  {
    case 1
    then obtain c t where s: "s = c # t" by (auto split: list.splits)
    from 1 show ?case unfolding read_value.simps s list.case
      by (auto simp: rbind_ok split: if_splits option.splits dest: IH read_number_plain read_constant_plain)
  next
    case 2
    then obtain v r1 where v: "read_value cfg n s = Inr (v, r1)" by (auto simp: rbind_ok)
    from 2 v obtain c r2 where c: "skip_ws r1 = c # r2" by (auto split: list.splits)
    show ?case
    proof (cases "c = CHR '']''")
      case True
      with 2 v c IH(1) [OF v] show ?thesis by auto
    next
      case False
      with 2 v c obtain vs' where w: "read_items cfg n (skip_ws r2) = Inr (vs', r)" "vs = v # vs'"
        by (auto simp: rbind_ok split: if_splits)
      from IH(1) [OF v] IH(2) [OF w(1)] w(2) show ?thesis by auto
    qed
  next
    case 3
    then obtain q t where s: "s = q # t" "byte q = 34" by (auto split: list.splits if_splits)
    with 3 obtain k r1 where k: "scan_string t = Some (k, r1)" by (auto split: option.splits)
    with 3 s obtain c r2 where c: "skip_ws r1 = c # r2" "c = CHR '':''" by (auto split: list.splits if_splits)
    with 3 s k obtain v r3 where v: "read_value cfg n (skip_ws r2) = Inr (v, r3)" by (auto simp: rbind_ok)
    with 3 s k c obtain d r4 where d: "skip_ws r3 = d # r4" by (auto split: list.splits)
    show ?case
    proof (cases "d = CHR ''}''")
      case True
      with 3 s k c v d IH(1) [OF v] show ?thesis by auto
    next
      case False
      with 3 s k c v d obtain m' where w: "read_members cfg n (skip_ws r4) = Inr (m', r)" "m = (k, v) # m'"
        by (auto simp: rbind_ok split: if_splits)
      from IH(1) [OF v] IH(3) [OF w(1)] w(2) show ?thesis by auto
    qed
  }
qed simp_all

lemma loads_plain:
  assumes "loads cfg s = Inr v"
  shows "wf_json v" and "allow_float cfg \<or> allow_constant cfg \<or> no_float v"
proof -
  obtain r where "read_value cfg (Suc (2 * length s)) (skip_ws s) = Inr (v, r)"
    using assms by (auto simp: loads_def rbind_ok simp del: read_value.simps split: if_splits)
  from read_plain(1) [OF this] show "wf_json v" and "allow_float cfg \<or> allow_constant cfg \<or> no_float v"
    by auto
qed

end
