(* ===== verification/Json_Roundtrip.thy ===== *)
theory Json_Roundtrip
  imports Json_Reader
begin

text \<open>
  The reader inverts the writer: \<open>json.loads\<close> of the canonical text of a value gives
  the value back with its members sorted, for every value without floats whose objects
  do not repeat keys. The canonical text is therefore an unambiguous representation.
\<close>

section \<open>The fuel of the scanner is never what stops it\<close>

lemma scan_string_shorter: "scan_string s = Some (t, r) \<Longrightarrow> length r < length s"
proof (induction s arbitrary: t r rule: scan_string.induct)
  case (2 c s)
  then show ?case
    by (fastforce simp: scan_string.simps(2) [of c s] prepend_def
        split: if_splits list.splits option.splits dest: less_SucI)
qed simp

lemma skip_ws_le: "length (skip_ws s) \<le> length s"
  by (simp add: skip_ws_def length_dropWhile_le)

lemma skip_ws_Cons: "skip_ws s = c # r \<Longrightarrow> length r < length s"
  using skip_ws_le [of s] by simp

lemma digits_shorter: "length (snd (digits_of s)) \<le> length s"
  by (simp add: digits_of_def length_dropWhile_le)

lemma int_part_shorter: "int_part s = Some (ds, r) \<Longrightarrow> length r < length s"
  by (auto simp: int_part_def digits_of_def split: list.splits if_splits
      intro: le_less_trans [OF length_dropWhile_le])

lemma frac_part_shorter: "length (snd (frac_part s)) \<le> length s"
  using digits_shorter [of "tl s"] by (auto simp: frac_part_def split: list.split)

lemma exp_part_shorter: "length (snd (exp_part s)) \<le> length s"
  using digits_shorter [of "tl s"] digits_shorter [of "tl (tl s)"]
  by (auto simp: exp_part_def Let_def split: list.split)

lemma read_number_shorter:
  assumes "read_number cfg s = Inr (v, r)"
  shows "length r < length s"
proof -
  let ?t = "if (case s of [] \<Rightarrow> False | c # _ \<Rightarrow> c = CHR ''-'') then tl s else s"
  from assms obtain ds r1 where i: "int_part ?t = Some (ds, r1)"
    by (auto simp: read_number_def Let_def split: option.splits)
  from assms i have "length r \<le> length r1"
    using frac_part_shorter [of r1] exp_part_shorter [of "snd (frac_part r1)"]
    by (auto simp: read_number_def Let_def split: if_splits)
  moreover have "length r1 < length ?t" using i by (rule int_part_shorter)
  moreover have "length ?t \<le> length s" by simp
  ultimately show ?thesis by linarith
qed

lemma read_constant_shorter: "read_constant cfg nm t = Inr (v, r) \<Longrightarrow> r = t"
  by (simp add: read_constant_def split: if_splits)

lemma drop_shorter: "0 < n \<Longrightarrow> s \<noteq> [] \<Longrightarrow> length (drop n s) < length s"
  by (cases s) auto

lemma read_shorter:
  "read_value cfg n s = Inr (v, r) \<Longrightarrow> length r < length s"
  "read_items cfg n s = Inr (vs, r) \<Longrightarrow> length r < length s"
  "read_members cfg n s = Inr (m, r) \<Longrightarrow> length r < length s"
proof (induction cfg n s and cfg n s and cfg n s arbitrary: v r and vs r and m r
    rule: read_value_read_items_read_members.induct)
  case (2 cfg n s)
  show ?case
  proof (cases s)
    case Nil
    with 2(3) show ?thesis by simp
  next
    case (Cons c t)
    have sk: "length (skip_ws t) \<le> length t" by (rule skip_ws_le)
    then have d: "length (drop 1 (skip_ws t)) < length s" using Cons by simp
    have M: "length r' < Suc (length t)"
      if "c = CHR ''{''" "take (Suc 0) (skip_ws t) \<noteq> ''}''" "read_members cfg n (skip_ws t) = Inr (m, r')" for m r'
      using 2(1) [OF Cons _ that(1)] that sk by (fastforce simp: byte_def)
    have I: "length r' < Suc (length t)"
      if "c = CHR ''[''" "take (Suc 0) (skip_ws t) \<noteq> '']''" "read_items cfg n (skip_ws t) = Inr (vs, r')" for vs r'
      using 2(2) [OF Cons _ _ that(1)] that sk by (fastforce simp: byte_def)
    show ?thesis
      using 2(3) Cons sk d drop_shorter [of 4 s] drop_shorter [of 5 s]
        drop_shorter [of 3 s] drop_shorter [of 8 s] drop_shorter [of 9 s]
      by (auto simp: rbind_ok split: if_splits option.splits
          dest: scan_string_shorter read_number_shorter read_constant_shorter M I)
  qed
next
  case (4 cfg n s)
  then obtain v' r1 where v: "read_value cfg n s = Inr (v', r1)"
    and k: "(case skip_ws r1 of [] \<Rightarrow> Inl JSyntax
        | c # r' \<Rightarrow> if c = CHR '']'' then Inr ([v'], r')
           else if c = CHR '','' then rbind (read_items cfg n (skip_ws r')) (\<lambda>(vs, r2). Inr (v' # vs, r2))
           else Inl JSyntax) = Inr (vs, r)"
    by (auto simp: rbind_ok)
  have l: "length r1 < length s" using v by (rule 4(1))
  from k obtain c r' where c: "skip_ws r1 = c # r'" by (auto split: list.splits)
  have l': "length r' < length r1" using c by (rule skip_ws_Cons)
  show ?case
  proof (cases "c = CHR '']''")
    case True
    with k c l l' show ?thesis by simp
  next
    case False
    with k c obtain ws where w: "c = CHR '',''" "read_items cfg n (skip_ws r') = Inr (ws, r)"
      by (auto simp: rbind_ok split: if_splits)
    have "length r < length (skip_ws r')" using 4(2) [OF v _ c False w(1) w(2)] by simp
    with l l' skip_ws_le [of r'] show ?thesis by linarith
  qed
next
  case (6 cfg n s)
  then obtain q t where s: "s = q # t" "byte q = 34" by (auto split: list.splits if_splits)
  with 6(3) obtain k r1 where k: "scan_string t = Some (k, r1)" by (auto split: option.splits)
  with 6(3) s obtain c r2 where c: "skip_ws r1 = c # r2" "c = CHR '':''" by (auto split: list.splits if_splits)
  with 6(3) s k obtain v r3 where v: "read_value cfg n (skip_ws r2) = Inr (v, r3)" by (auto simp: rbind_ok)
  with 6(3) s k c obtain d r4 where d: "skip_ws r3 = d # r4" by (auto split: list.splits)
  have len: "length r1 < length t" "length r2 < length r1" "length r3 < length (skip_ws r2)"
    "length (skip_ws r2) \<le> length r2" "length r4 < length r3" "length (skip_ws r4) \<le> length r4"
    using k c(1) v d 6(1) [OF s(1,2) k refl c(1,2) v] by (auto intro: scan_string_shorter skip_ws_Cons skip_ws_le)
  show ?case
  proof (cases "d = CHR ''}''")
    case True
    with 6(3) s k c v d have "r4 = r" by simp
    with len s show ?thesis by simp
  next
    case False
    with 6(3) s k c v d obtain m' where w: "d = CHR '',''" "read_members cfg n (skip_ws r4) = Inr (m', r)"
      by (auto simp: rbind_ok split: if_splits)
    have "length r < length (skip_ws r4)" using 6(2) [OF s(1,2) k refl c(1,2) v _ d False w(1,2)] by simp
    with len s show ?thesis by simp
  qed
qed simp_all

lemma read_fuel_step:
  "(\<forall>s m. 2 * length s < n \<longrightarrow> n \<le> m \<longrightarrow> read_value cfg m s = read_value cfg n s)
   \<and> (\<forall>s m. 2 * length s + 1 < n \<longrightarrow> n \<le> m \<longrightarrow> read_items cfg m s = read_items cfg n s)
   \<and> (\<forall>s m. 2 * length s + 1 < n \<longrightarrow> n \<le> m \<longrightarrow> read_members cfg m s = read_members cfg n s)"
proof (induction n)
  case (Suc n)
  note V = Suc.IH [THEN conjunct1, rule_format]
  note I = Suc.IH [THEN conjunct2, THEN conjunct1, rule_format]
  note M = Suc.IH [THEN conjunct2, THEN conjunct2, rule_format]
  have "read_value cfg m s = read_value cfg (Suc n) s" if l: "2 * length s < Suc n" and m: "Suc n \<le> m" for s m
  proof (cases s)
    case Nil
    with m show ?thesis by (cases m) simp_all
  next
    case (Cons c t)
    obtain m' where m': "m = Suc m'" "n \<le> m'" using m by (cases m) auto
    have "2 * length (skip_ws t) + 1 < n" using l Cons skip_ws_le [of t] by simp
    with m' have "read_items cfg m' (skip_ws t) = read_items cfg n (skip_ws t)"
      "read_members cfg m' (skip_ws t) = read_members cfg n (skip_ws t)" by (auto intro: I M)
    with Cons m' show ?thesis by simp
  qed
  moreover have "read_items cfg m s = read_items cfg (Suc n) s"
    if l: "2 * length s + 1 < Suc n" and m: "Suc n \<le> m" for s m
  proof -
    obtain m' where m': "m = Suc m'" "n \<le> m'" using m by (cases m) auto
    have v: "read_value cfg m' s = read_value cfg n s" using l m' by (intro V) auto
    have i: "read_items cfg m' (skip_ws r') = read_items cfg n (skip_ws r')"
      if "read_value cfg n s = Inr (v, r)" "skip_ws r = c # r'" for v r c r'
      using read_shorter(1) [OF that(1)] skip_ws_Cons [OF that(2)] skip_ws_le [of r'] l m'
      by (intro I) auto
    show ?thesis unfolding m'(1) read_items.simps v
      by (rule rbind_cong) (auto simp: i split: list.split)
  qed
  moreover have "read_members cfg m s = read_members cfg (Suc n) s"
    if l: "2 * length s + 1 < Suc n" and m: "Suc n \<le> m" for s m
  proof (cases s)
    case Nil
    with m show ?thesis by (cases m) simp_all
  next
    case (Cons q t)
    obtain m' where m': "m = Suc m'" "n \<le> m'" using m by (cases m) auto
    have v: "read_value cfg m' (skip_ws r2) = read_value cfg n (skip_ws r2)"
      if "scan_string t = Some (k, r1)" "skip_ws r1 = c # r2" for k r1 c r2
      using scan_string_shorter [OF that(1)] skip_ws_Cons [OF that(2)] skip_ws_le [of r2] l m' Cons
      by (intro V) auto
    have i: "read_members cfg m' (skip_ws r4) = read_members cfg n (skip_ws r4)"
      if "scan_string t = Some (k, r1)" "skip_ws r1 = c # r2"
        "read_value cfg n (skip_ws r2) = Inr (v, r3)" "skip_ws r3 = d # r4" for k r1 c r2 v r3 d r4
      using scan_string_shorter [OF that(1)] skip_ws_Cons [OF that(2)] skip_ws_le [of r2]
        read_shorter(1) [OF that(3)] skip_ws_Cons [OF that(4)] skip_ws_le [of r4] l m' Cons
      by (intro M) auto
    show ?thesis unfolding m'(1) read_members.simps Cons
      by (auto simp: v i split: list.split option.split intro!: rbind_cong)
  qed
  ultimately show ?case by blast
qed simp

text \<open>Beyond twice the length of the text, fuel makes no difference.\<close>

lemma read_value_fuel_indep:
  "2 * length s < n \<Longrightarrow> 2 * length s < m \<Longrightarrow> read_value cfg n s = read_value cfg m s"
  using read_fuel_step [of "Suc (2 * length s)" cfg] by (metis Suc_leI lessI)

section \<open>Reading back what was written\<close>

lemma byte_char_of [simp]: "n < 256 \<Longrightarrow> byte (char_of n) = n"
  by (simp add: byte_def)

lemma char_of_byte [simp]: "char_of (byte c) = c"
  by (simp add: byte_def)

lemma byte_inject: "byte c = byte d \<longleftrightarrow> c = d"
  by (metis char_of_byte)

lemma byte_eqD: "byte c = n \<Longrightarrow> c = char_of n"
  by auto

lemma char_of_lits: "char_of (34::nat) = CHR 0x22" "char_of (92::nat) = CHR 0x5C"
  by (simp_all add: byte_inject [symmetric] byte_def)

lemma hex_val_hex_digit: "n < 16 \<Longrightarrow> hex_val (hex_digit n) = Some n"
  by (auto simp: hex_val_def hex_digit_def is_digit_def)

lemma hex4_control: "byte c < 32 \<Longrightarrow>
  hex4 (CHR ''0'') (CHR ''0'') (hex_digit (byte c div 16)) (hex_digit (byte c mod 16)) = Some (byte c)"
proof -
  assume c: "byte c < 32"
  have "hex_val (CHR ''0'') = Some 0" by (simp add: hex_val_def is_digit_def byte_def)
  moreover have "hex_val (hex_digit (byte c div 16)) = Some (byte c div 16)"
    using c by (intro hex_val_hex_digit) simp
  moreover have "hex_val (hex_digit (byte c mod 16)) = Some (byte c mod 16)"
    by (intro hex_val_hex_digit) simp
  ultimately show ?thesis by (simp add: hex4_def)
qed

lemma utf8_encode_ascii: "n < 128 \<Longrightarrow> utf8_encode n = [char_of n]"
  by (simp add: utf8_encode_def)

lemma byte_lits [simp]:
  "byte (CHR 0x22) = 34" "byte (CHR 0x5C) = 92" "byte (CHR ''u'') = 117" "byte (CHR ''b'') = 98"
  "byte (CHR ''f'') = 102" "byte (CHR ''n'') = 110" "byte (CHR ''r'') = 114" "byte (CHR ''t'') = 116"
  by (simp_all add: byte_def)

lemma scan_escape: "scan_string (escape_char c @ t) = prepend [c] (scan_string t)"
proof -
  consider "byte c = 34" | "byte c = 92" | "byte c = 8" | "byte c = 12" | "byte c = 10" | "byte c = 13"
    | "byte c = 9" | "byte c < 32" "byte c \<notin> {8, 9, 10, 12, 13}" | "32 \<le> byte c" "byte c \<notin> {34, 92}"
    by fastforce
  then show ?thesis
  proof cases
    case 8
    then have "c \<noteq> CHR 0x22" "c \<noteq> CHR 0x5C" by auto
    with 8 have "escape_char c = [CHR 0x5C, CHR ''u'', CHR ''0'', CHR ''0'',
        hex_digit (byte c div 16), hex_digit (byte c mod 16)]"
      by (simp add: escape_char_def)
    with 8 show ?thesis by (simp add: scan_string.simps(2) hex4_control utf8_encode_ascii)
  next
    case 9
    then have "c \<noteq> CHR 0x22" "c \<noteq> CHR 0x5C" by auto
    with 9 show ?thesis by (simp add: escape_char_def scan_string.simps(2))
  qed (auto simp: escape_char_def scan_string.simps(2) simple_escape_def char_of_lits byte_inject [symmetric]
      dest!: byte_eqD)
qed

lemma scan_quoted: "scan_string (concat (map escape_char s) @ CHR 0x22 # t) = Some (s, t)"
  by (induction s) (simp_all add: scan_escape, simp add: scan_string.simps(2))

lemma digit_char: "n < 10 \<Longrightarrow> is_digit (char_of (48 + n))" "n < 10 \<Longrightarrow> byte (char_of (48 + n)) = 48 + n"
  by (auto simp: is_digit_def)

lemma show_nat_digits: "\<forall>c \<in> set (show_nat n). is_digit c"
proof (induction n rule: show_nat.induct)
  case (1 n)
  then show ?case by (subst show_nat.simps) (auto simp: digit_char)
qed

lemma show_nat_ne: "show_nat n \<noteq> []"
  by (subst show_nat.simps) simp

lemma dec_nat_snoc: "dec_nat (ds @ [c]) = 10 * dec_nat ds + (byte c - 48)"
  by (simp add: dec_nat_def)

lemma dec_nat_show_nat: "dec_nat (show_nat n) = n"
proof (induction n rule: show_nat.induct)
  case (1 n)
  show ?case
  proof (cases "n < 10")
    case True
    then show ?thesis by (subst show_nat.simps) (simp add: dec_nat_def digit_char)
  next
    case False
    with 1 show ?thesis by (subst show_nat.simps) (simp add: dec_nat_snoc digit_char)
  qed
qed

lemma show_nat_head: "byte (hd (show_nat n)) = 48 \<longleftrightarrow> n = 0"
proof (induction n rule: show_nat.induct)
  case (1 n)
  then show ?case
    by (subst show_nat.simps) (auto simp: digit_char hd_append show_nat_ne)
qed

text \<open>What may follow a value in a canonical text: the end, a comma or a closing bracket.\<close>

definition stops :: "string \<Rightarrow> bool" where
  "stops t = (case t of [] \<Rightarrow> True | c # _ \<Rightarrow> c = CHR '','' \<or> c = CHR '']'' \<or> c = CHR ''}'')"

lemma stops_cases: "stops t \<Longrightarrow> t = [] \<or> (\<exists>r. t = CHR '','' # r) \<or> (\<exists>r. t = CHR '']'' # r) \<or> (\<exists>r. t = CHR ''}'' # r)"
  by (auto simp: stops_def split: list.splits)

lemma stops_parts:
  assumes "stops t"
  shows "frac_part t = ([], t)" and "exp_part t = ([], t)"
    and "takeWhile is_digit t = []" and "dropWhile is_digit t = t"
  using stops_cases [OF assms] by (auto simp: frac_part_def exp_part_def is_digit_def byte_def)

lemma int_part_show_nat:
  assumes "stops t"
  shows "int_part (show_nat n @ t) = Some (show_nat n, t)"
proof (cases "n = 0")
  case True
  then have "show_nat n = [CHR ''0'']" by (subst show_nat.simps) (simp add: byte_inject [symmetric] byte_def)
  then show ?thesis by (simp add: int_part_def byte_def)
next
  case False
  obtain c r where c: "show_nat n = c # r" using show_nat_ne by (cases "show_nat n") auto
  have "byte c \<noteq> 48" using show_nat_head [of n] False c by simp
  moreover have "takeWhile is_digit (show_nat n @ t) = show_nat n" "dropWhile is_digit (show_nat n @ t) = t"
    using show_nat_digits [of n] stops_parts(3,4) [OF assms]
    by (simp_all add: takeWhile_append dropWhile_append)
  moreover have "is_digit c" using show_nat_digits [of n] c by simp
  ultimately show ?thesis using c by (simp add: int_part_def digits_of_def)
qed

lemma digit_not_minus: "is_digit c \<Longrightarrow> c \<noteq> CHR ''-''"
  by (auto simp: is_digit_def byte_def)

lemma read_number_show_int:
  assumes "stops t"
  shows "read_number cfg (show_int i @ t) = Inr (JInt i, t)"
proof -
  have h: "hd (show_nat n @ t) \<noteq> CHR ''-''" for n
    using show_nat_digits [of n] show_nat_ne [of n] by (cases "show_nat n") (auto dest: digit_not_minus)
  then have h': "(case show_nat n @ t of [] \<Rightarrow> False | c # _ \<Rightarrow> c = CHR ''-'') = False" for n
    using show_nat_ne [of n] by (auto split: list.split) (metis list.sel(1) append_is_Nil_conv)
  show ?thesis
    by (cases "i < 0")
      (simp_all add: read_number_def show_int_def h' int_part_show_nat [OF assms] stops_parts [OF assms] dec_nat_show_nat)
qed

lemma show_int_head:
  "\<exists>c r. show_int i = c # r \<and> (is_digit c \<or> (c = CHR ''-'' \<and> r \<noteq> [] \<and> is_digit (hd r)))"
proof -
  obtain c r where c: "show_nat (nat \<bar>i\<bar>) = c # r" using show_nat_ne by (cases "show_nat (nat \<bar>i\<bar>)") auto
  with show_nat_digits [of "nat \<bar>i\<bar>"] have "is_digit c" by simp
  with c show ?thesis by (cases "i < 0") (auto simp: show_int_def)
qed

lemma is_digit_byte: "is_digit c \<Longrightarrow> byte c \<ge> 48 \<and> byte c \<le> 57"
  by (simp add: is_digit_def)

lemma read_value_int:
  assumes "stops t"
  shows "read_value cfg (Suc n) (show_int i @ t) = Inr (JInt i, t)"
proof -
  obtain c r where c: "show_int i = c # r" "is_digit c \<or> (c = CHR ''-'' \<and> r \<noteq> [] \<and> is_digit (hd r))"
    using show_int_head by blast
  have ne: "byte c \<noteq> 34" "c \<noteq> CHR ''{''" "c \<noteq> CHR ''[''" "c \<noteq> CHR ''n''" "c \<noteq> CHR ''t''" "c \<noteq> CHR ''f''"
    using c(2) by (auto simp: is_digit_def byte_def)
  have sw: "\<not> starts_with (CHR ''n'' # xs) (c # r @ t)" "\<not> starts_with (CHR ''t'' # xs) (c # r @ t)"
    "\<not> starts_with (CHR ''f'' # xs) (c # r @ t)" for xs
    using ne by (auto simp: starts_with_def)
  have "is_digit c \<or> (c = CHR ''-'' \<and> is_digit (hd (r @ t @ ''x'')))" using c(2) by (cases r) auto
  with ne sw read_number_show_int [OF assms, of cfg i] c(1) show ?thesis by simp
qed

abbreviation compact :: "json \<Rightarrow> string" where
  "compact \<equiv> dumps '','' '':''"

abbreviation compact_items :: "json list \<Rightarrow> string" where
  "compact_items \<equiv> dumps_items '','' '':''"

abbreviation compact_members :: "(string \<times> json) list \<Rightarrow> string" where
  "compact_members \<equiv> dumps_members '','' '':''"

definition opens :: "string \<Rightarrow> bool" where
  "opens s = (case s of [] \<Rightarrow> False | c # _ \<Rightarrow> \<not> is_ws c \<and> c \<noteq> CHR '']'' \<and> c \<noteq> CHR ''}'')"

lemma opens_skip: "opens s \<Longrightarrow> skip_ws (s @ t) = s @ t"
  by (auto simp: opens_def skip_ws_def split: list.splits)

lemma opens_take: "opens s \<Longrightarrow> take (Suc 0) (s @ t) \<noteq> '']''" "opens s \<Longrightarrow> take (Suc 0) (s @ t) \<noteq> ''}''"
  by (auto simp: opens_def split: list.splits)

lemma opens_append: "opens s \<Longrightarrow> opens (s @ t)"
  by (auto simp: opens_def split: list.splits)

lemma opens_int: "opens (show_int i)"
  using show_int_head [of i] by (auto simp: opens_def is_ws_def is_digit_def byte_def)

lemma opens_compact: "no_float v \<Longrightarrow> opens (compact v)"
proof (cases v)
  case (JInt i)
  then show ?thesis by (simp add: opens_int)
qed (auto simp: quote_def opens_def is_ws_def byte_def)

lemma opens_items: "no_float_items xs \<Longrightarrow> xs \<noteq> [] \<Longrightarrow> opens (compact_items xs)"
  by (cases xs) (auto simp: opens_compact intro: opens_append)

lemma opens_members: "m \<noteq> [] \<Longrightarrow> opens (compact_members m)"
  by (cases m) (auto simp: quote_def opens_def is_ws_def)

lemma skip_ws_punct [simp]:
  "skip_ws (CHR '','' # t) = CHR '','' # t" "skip_ws (CHR '']'' # t) = CHR '']'' # t"
  "skip_ws (CHR ''}'' # t) = CHR ''}'' # t" "skip_ws (CHR '':'' # t) = CHR '':'' # t"
  by (simp_all add: skip_ws_def is_ws_def byte_def)

lemma stops_punct [simp]: "stops (CHR '','' # t)" "stops (CHR '']'' # t)" "stops (CHR ''}'' # t)" "stops []"
  by (simp_all add: stops_def)

lemma byte_braces [simp]: "byte (CHR ''{'') = 123" "byte (CHR ''['') = 91"
  by (simp_all add: byte_def)

lemma read_compact:
  "no_float v \<Longrightarrow> wf_json v \<Longrightarrow> stops t \<Longrightarrow> 2 * length (compact v @ t) < n
     \<Longrightarrow> read_value cfg n (compact v @ t) = Inr (v, t)"
  "no_float_items xs \<Longrightarrow> wf_items xs \<Longrightarrow> xs \<noteq> [] \<Longrightarrow> 2 * length (compact_items xs @ CHR '']'' # t) + 1 < n
     \<Longrightarrow> read_items cfg n (compact_items xs @ CHR '']'' # t) = Inr (xs, t)"
  "no_float_members m \<Longrightarrow> wf_members m \<Longrightarrow> m \<noteq> [] \<Longrightarrow> 2 * length (compact_members m @ CHR ''}'' # t) + 1 < n
     \<Longrightarrow> read_members cfg n (compact_members m @ CHR ''}'' # t) = Inr (m, t)"
proof (induction v and xs and m arbitrary: n t and n t and n t
    rule: no_float_no_float_items_no_float_members.induct)
  case 1
  then show ?case by (cases n) (simp_all add: starts_with_def)
next
  case (2 b)
  then show ?case by (cases n) (auto simp: starts_with_def)
next
  case (3 i)
  then show ?case by (cases n) (simp_all del: read_value.simps add: read_value_int)
next
  case (5 s)
  then show ?case by (cases n) (simp_all add: quote_def scan_quoted)
next
  case (6 l)
  obtain k where n: "n = Suc k" using 6(5) by (cases n) auto
  show ?case
  proof (cases "l = []")
    case True
    with n show ?thesis by simp
  next
    case False
    with 6(2) have o: "opens (compact_items l)" by (simp add: opens_items)
    have "read_items cfg k (compact_items l @ CHR '']'' # t) = Inr (l, t)"
      using 6(2-5) n False by (intro 6(1)) auto
    with n opens_skip [OF o] opens_take [OF o] show ?thesis by simp
  qed
next
  case (7 m)
  obtain k where n: "n = Suc k" using 7(5) by (cases n) auto
  show ?case
  proof (cases "m = []")
    case True
    with n show ?thesis by simp
  next
    case False
    then have o: "opens (compact_members m)" by (rule opens_members)
    have "read_members cfg k (compact_members m @ CHR ''}'' # t) = Inr (m, t)"
      using 7(2-5) n False by (intro 7(1)) auto
    with n opens_skip [OF o] opens_take [OF o] 7(3) show ?thesis by simp
  qed
next
  case (9 x xs)
  obtain k where n: "n = Suc k" using 9(6) by (cases n) auto
  show ?case
  proof (cases "xs = []")
    case True
    have "read_value cfg k (compact x @ CHR '']'' # t) = Inr (x, CHR '']'' # t)"
      using 9(3,4,6) n True by (intro 9(1)) auto
    with n True show ?thesis by simp
  next
    case False
    with 9(3) have o: "opens (compact_items xs)" by (simp add: opens_items)
    have "read_value cfg k (compact x @ CHR '','' # compact_items xs @ CHR '']'' # t)
        = Inr (x, CHR '','' # compact_items xs @ CHR '']'' # t)"
      using 9(3,4,6) n False by (intro 9(1)) auto
    moreover have "read_items cfg k (compact_items xs @ CHR '']'' # t) = Inr (xs, t)"
      using 9(3,4,6) n False by (intro 9(2)) auto
    ultimately show ?thesis using n False opens_skip [OF o] by simp
  qed
next
  case (11 k v m)
  obtain n' where n: "n = Suc n'" using 11(6) by (cases n) auto
  have ov: "opens (compact v)" using 11(3) by (simp add: opens_compact)
  show ?case
  proof (cases "m = []")
    case True
    have "read_value cfg n' (compact v @ CHR ''}'' # t) = Inr (v, CHR ''}'' # t)"
      using 11(3,4,6) n True by (intro 11(1)) auto
    with n True opens_skip [OF ov] show ?thesis by (simp add: quote_def scan_quoted)
  next
    case False
    then have o: "opens (compact_members m)" by (rule opens_members)
    have "read_value cfg n' (compact v @ CHR '','' # compact_members m @ CHR ''}'' # t)
        = Inr (v, CHR '','' # compact_members m @ CHR ''}'' # t)"
      using 11(3,4,6) n False by (intro 11(1)) auto
    moreover have "read_members cfg n' (compact_members m @ CHR ''}'' # t) = Inr (m, t)"
      using 11(3,4,6) n False by (intro 11(2)) auto
    ultimately show ?thesis
      using n False opens_skip [OF ov] opens_skip [OF o] by (simp add: quote_def scan_quoted)
  qed
qed simp_all

theorem loads_compact:
  assumes "no_float v" and "wf_json v"
  shows "loads cfg (compact v) = Inr v"
proof -
  have "skip_ws (compact v) = compact v"
    using opens_skip [OF opens_compact [OF assms(1)], of "[]"] by simp
  moreover have "read_value cfg (Suc (2 * length (compact v))) (compact v) = Inr (v, [])"
    using read_compact(1) [OF assms, of "[]"] by (simp del: read_value.simps)
  ultimately show ?thesis by (simp add: loads_def skip_ws_def del: read_value.simps)
qed

corollary loads_canonical:
  "no_float v \<Longrightarrow> wf_json v \<Longrightarrow> loads cfg (canonical_text v) = Inr (sort_members v)"
  unfolding canonical_text_def
  by (rule loads_compact) (simp_all add: no_float_sort_members wf_sort_members)

text \<open>Equal canonical texts come from values that differ in the order of members only.\<close>

corollary canonical_text_inject:
  assumes "no_float v" "wf_json v" "no_float w" "wf_json w" and "canonical_text v = canonical_text w"
  shows "sort_members v = sort_members w"
  using loads_canonical [of v undefined] loads_canonical [of w undefined] assms by simp

end
