(* ===== verification/Encoding.thy ===== *)
theory Encoding
  imports Json_Roundtrip
begin

text \<open>
  The text encodings of the wire formats, from the standard library functions the
  program calls: unpadded URL-safe base64 (\<open>urlsafe_b64encode(...).rstrip(b"=")\<close>
  and \<open>b64decode(..., altchars=b"-_", validate=True)\<close>), canonical version-4 UUIDs
  (\<open>uuid.UUID(v)\<close> with \<open>str(parsed) == v\<close> and \<open>version == 4\<close>, which the library
  reports for the RFC 4122 variant only) and lower-case SHA-256 digests.
\<close>

section \<open>Base64\<close>

fun to_sextets :: "nat list \<Rightarrow> nat list" where
  "to_sextets [] = []"
| "to_sextets [a] = [a div 4, (a mod 4) * 16]"
| "to_sextets [a, b] = [a div 4, (a mod 4) * 16 + b div 16, (b mod 16) * 4]"
| "to_sextets (a # b # c # r) =
     (a div 4) # ((a mod 4) * 16 + b div 16) # ((b mod 16) * 4 + c div 64) # (c mod 64) # to_sextets r"

fun from_sextets :: "nat list \<Rightarrow> nat list option" where
  "from_sextets [] = Some []"
| "from_sextets [w] = None"
| "from_sextets [w, x] = Some [w * 4 + x div 16]"
| "from_sextets [w, x, y] = Some [w * 4 + x div 16, (x mod 16) * 16 + y div 4]"
| "from_sextets (w # x # y # z # r) =
     map_option (\<lambda>bs. (w * 4 + x div 16) # ((x mod 16) * 16 + y div 4) # ((y mod 4) * 64 + z) # bs)
       (from_sextets r)"

definition sextet_char :: "nat \<Rightarrow> char" where
  "sextet_char n = char_of (if n < 26 then 65 + n else if n < 52 then 71 + n
     else if n < 62 then n - 4 else if n = 62 then 45 else 95)"

text \<open>The translation of \<open>altchars\<close> leaves \<open>+\<close> and \<open>/\<close> decodable as well.\<close>

definition char_sextet :: "char \<Rightarrow> nat option" where
  "char_sextet c =
     (if is_upper c then Some (byte c - 65) else if is_lower c then Some (byte c - 71)
      else if is_digit c then Some (byte c + 4)
      else if byte c = 45 \<or> byte c = 43 then Some 62
      else if byte c = 95 \<or> byte c = 47 then Some 63 else None)"

fun sextets :: "string \<Rightarrow> nat list option" where
  "sextets [] = Some []"
| "sextets (c # s) = (case (char_sextet c, sextets s) of (Some n, Some ns) \<Rightarrow> Some (n # ns) | _ \<Rightarrow> None)"

definition b64 :: "string \<Rightarrow> string" where
  "b64 v = map sextet_char (to_sextets (map byte v))"

text \<open>\<open>b64decode(value + "=" * (-len(value) % 4), validate=True)\<close>: data characters, then at
  most two padding characters, in groups of four.\<close>

definition b64decode :: "string \<Rightarrow> string option" where
  "b64decode v =
     (let padded = v @ replicate (nat ((- len v) mod 4)) (CHR ''='');
          data = takeWhile (\<lambda>c. c \<noteq> CHR ''='') padded; pad = dropWhile (\<lambda>c. c \<noteq> CHR ''='') padded
      in if list_all (\<lambda>c. c = CHR ''='') pad \<and> len pad \<le> 2 \<and> len padded mod 4 = 0
         then (case sextets data of None \<Rightarrow> None
               | Some ns \<Rightarrow> map_option (map char_of) (from_sextets ns))
         else None)"

text \<open>The strict decoder of the program: what re-encodes to the same text.\<close>

definition strict_b64decode :: "string \<Rightarrow> string option" where
  "strict_b64decode v = (case b64decode v of None \<Rightarrow> None | Some r \<Rightarrow> if b64 r = v then Some r else None)"

lemma to_sextets_range: "\<forall>a \<in> set bs. a < 256 \<Longrightarrow> \<forall>n \<in> set (to_sextets bs). n < 64"
  by (induction bs rule: to_sextets.induct) auto

lemma from_to_sextets: "\<forall>a \<in> set bs. a < 256 \<Longrightarrow> from_sextets (to_sextets bs) = Some bs"
proof (induction bs rule: to_sextets.induct)
  case (3 a b)
  then show ?case by auto
next
  case (4 a b c r)
  then show ?case by auto
qed auto

lemma sextet_cases: "(n::nat) < 64 \<Longrightarrow> n < 26 \<or> (26 \<le> n \<and> n < 52) \<or> (52 \<le> n \<and> n < 62) \<or> n = 62 \<or> n = 63"
  by arith

lemma char_sextet_char: "n < 64 \<Longrightarrow> char_sextet (sextet_char n) = Some n"
  using sextet_cases [of n]
  by (auto simp: char_sextet_def sextet_char_def is_upper_def is_lower_def is_digit_def)

lemma sextet_char_ne_pad: "n < 64 \<Longrightarrow> sextet_char n \<noteq> CHR ''=''"
  using char_sextet_char [of n] by (auto simp: char_sextet_def is_upper_def is_lower_def is_digit_def byte_def)

lemma sextets_map: "\<forall>n \<in> set ns. n < 64 \<Longrightarrow> sextets (map sextet_char ns) = Some ns"
  by (induction ns) (auto simp: char_sextet_char)

lemma length_to_sextets: "length (to_sextets bs) mod 4 \<noteq> 1"
  by (induction bs rule: to_sextets.induct) auto

lemma pad_length:
  assumes "length xs mod 4 \<noteq> (1::nat)"
  shows "nat ((- len xs) mod 4) \<le> 2" and "(len xs + int (nat ((- len xs) mod 4))) mod 4 = 0"
proof -
  obtain n where n: "len xs = int n" "n mod 4 \<noteq> 1" using assms by (simp add: len_length)
  have "(- int n) mod 4 \<le> 2 \<and> 0 \<le> (- int n) mod 4 \<and> (int n + (- int n) mod 4) mod 4 = 0"
    using n(2) by presburger
  then show "nat ((- len xs) mod 4) \<le> 2" and "(len xs + int (nat ((- len xs) mod 4))) mod 4 = 0"
    by (auto simp: n(1) nat_le_iff)
qed

lemma len_replicate [simp]: "len (replicate n x) = int n"
  by (simp add: len_length)

lemma b64decode_b64: "b64decode (b64 v) = Some v"
proof -
  let ?ns = "to_sextets (map byte v)"
  let ?pad = "replicate (nat ((- len (b64 v)) mod 4)) (CHR ''='')"
  have r: "\<forall>n \<in> set ?ns. n < 64" by (rule to_sextets_range) (simp add: byte_less)
  have ne: "\<forall>c \<in> set (b64 v). c \<noteq> CHR ''=''" using r by (auto simp: b64_def dest: sextet_char_ne_pad)
  have d: "takeWhile (\<lambda>c. c \<noteq> CHR ''='') (b64 v @ ?pad) = b64 v"
    "dropWhile (\<lambda>c. c \<noteq> CHR ''='') (b64 v @ ?pad) = ?pad"
    using ne by (simp_all add: takeWhile_append dropWhile_append)
  have l: "length (b64 v) mod 4 \<noteq> 1" using length_to_sextets by (simp add: b64_def)
  have s: "sextets (b64 v) = Some ?ns" unfolding b64_def using r by (rule sextets_map)
  have f: "from_sextets ?ns = Some (map byte v)" by (rule from_to_sextets) (simp add: byte_less)
  show ?thesis
    using pad_length [OF l] s f unfolding b64decode_def Let_def d
    by (simp add: comp_def nat_le_iff list_all_iff)
qed

interpretation b64: strict_codec b64 strict_b64decode "\<lambda>_. True"
  by unfold_locales (auto simp: strict_b64decode_def b64decode_b64 split: option.splits if_splits)

lemma length_b64: "length (b64 v) = (4 * length v + 2) div 3"
proof -
  have "length (to_sextets bs) = (4 * length bs + 2) div 3" for bs
    by (induction bs rule: to_sextets.induct) auto
  then show ?thesis by (simp add: b64_def)
qed

lemma b64_ascii: "c \<in> set (b64 v) \<Longrightarrow> byte c < 128"
proof -
  assume "c \<in> set (b64 v)"
  then obtain n where n: "n \<in> set (to_sextets (map byte v))" "c = sextet_char n" by (auto simp: b64_def)
  have "n < 64" using to_sextets_range [of "map byte v"] n(1) by (auto simp: byte_less)
  then show ?thesis using sextet_cases [of n] n(2) by (auto simp: sextet_char_def)
qed

lemma pylen_b64: "pylen (b64 v) = int ((4 * length v + 2) div 3)"
  using pylen_ascii [of "b64 v"] by (simp add: b64_ascii len_length length_b64)

section \<open>Identifiers and digests\<close>

fun shape_ok :: "string \<Rightarrow> string \<Rightarrow> bool" where
  "shape_ok [] [] = True"
| "shape_ok (p # ps) (c # cs) =
     ((if p = CHR ''h'' then is_hex c
       else if p = CHR ''v'' then c = CHR ''8'' \<or> c = CHR ''9'' \<or> c = CHR ''a'' \<or> c = CHR ''b''
       else c = p) \<and> shape_ok ps cs)"
| "shape_ok _ _ = False"

definition is_uuid4 :: "string \<Rightarrow> bool" where
  "is_uuid4 s = shape_ok ''hhhhhhhh-hhhh-4hhh-vhhh-hhhhhhhhhhhh'' s"

definition is_sha256 :: "string \<Rightarrow> bool" where
  "is_sha256 s = (len s = 64 \<and> list_all is_hex s)"

lemma shape_ok_length: "shape_ok p s \<Longrightarrow> length s = length p"
  by (induction p s rule: shape_ok.induct) auto

lemma is_uuid4_length: "is_uuid4 s \<Longrightarrow> length s = 36"
  by (auto simp: is_uuid4_def dest: shape_ok_length)

lemma is_uuid4_nonempty: "is_uuid4 s \<Longrightarrow> s \<noteq> []"
  using is_uuid4_length by fastforce

end
