(* ===== verification/Protocol_Core.thy ===== *)
theory Protocol_Core
  imports Encoding
begin

text \<open>
  The record layer of the KK3 project protocol (\<open>project_protocol.py\<close>): the bounded
  walk over a value, canonical bytes and their hash, the strict reader, field checks,
  binary fields, and signed records.

  Third-party cryptography (the \<open>cryptography\<close> package) and \<open>hashlib.sha256\<close> are the
  fields of a \<open>crypto\<close> record that every function takes; random values
  (\<open>secrets.token_bytes\<close>) are arguments of the functions that draw them.
  Error messages are dropped: an exception is its class.
\<close>

section \<open>Exceptions and cryptography\<close>

datatype perr = ValidationError | AuthenticationError | AuthorizationError | ReplayError

record crypto =
  sha256_hex :: "string \<Rightarrow> string"
  ed_public :: "string \<Rightarrow> string"
  ed_sign :: "string \<Rightarrow> string \<Rightarrow> string"
  ed_verify :: "string \<Rightarrow> string \<Rightarrow> string \<Rightarrow> bool"
  x_public :: "string \<Rightarrow> string"
  x_exchange :: "string \<Rightarrow> string \<Rightarrow> string option"
  hkdf32 :: "string \<Rightarrow> string \<Rightarrow> string \<Rightarrow> string"
  aead_encrypt :: "string \<Rightarrow> string \<Rightarrow> string \<Rightarrow> string \<Rightarrow> string"
  aead_decrypt :: "string \<Rightarrow> string \<Rightarrow> string \<Rightarrow> string \<Rightarrow> string option"

text \<open>
  What the packages document. \<open>ed_verify public signature message\<close>,
  \<open>hkdf32 salt info ikm\<close>, \<open>aead_encrypt key nonce data aad\<close> and
  \<open>aead_decrypt key nonce ciphertext aad\<close> take their arguments in this order;
  \<open>None\<close> is \<open>InvalidTag\<close> or \<open>ValueError\<close>.
\<close>

definition crypto_ok :: "crypto \<Rightarrow> bool" where
  "crypto_ok C \<longleftrightarrow>
     (\<forall>m. is_sha256 (sha256_hex C m)) \<and>
     (\<forall>k. length k = 32 \<longrightarrow> length (ed_public C k) = 32 \<and> length (x_public C k) = 32) \<and>
     (\<forall>k m. length (ed_sign C k m) = 64) \<and>
     (\<forall>k m. length k = 32 \<longrightarrow> ed_verify C (ed_public C k) (ed_sign C k m) m) \<and>
     (\<forall>a b. length a = 32 \<longrightarrow> length b = 32 \<longrightarrow>
        x_exchange C a (x_public C b) = x_exchange C b (x_public C a) \<and> x_exchange C a (x_public C b) \<noteq> None) \<and>
     (\<forall>s i k. length (hkdf32 C s i k) = 32) \<and>
     (\<forall>k n d a. aead_decrypt C k n (aead_encrypt C k n d a) a = Some d \<and>
        length (aead_encrypt C k n d a) = length d + 16)"

section \<open>Limits\<close>

abbreviation MAX_RECORD_SIZE :: int where "MAX_RECORD_SIZE \<equiv> 25165824"
abbreviation MAX_PLAINTEXT_SIZE :: int where "MAX_PLAINTEXT_SIZE \<equiv> 16777216"
abbreviation MAX_CREATE_SIZE :: int where "MAX_CREATE_SIZE \<equiv> 1048576"
abbreviation MAX_POLICY_SIZE :: int where "MAX_POLICY_SIZE \<equiv> 262144"
abbreviation MAX_GRANTS :: int where "MAX_GRANTS \<equiv> 512"
abbreviation MAX_EPOCH_PUBLICATIONS :: int where "MAX_EPOCH_PUBLICATIONS \<equiv> 65536"
abbreviation MAX_DEPTH :: int where "MAX_DEPTH \<equiv> 24"
abbreviation MAX_NODES :: int where "MAX_NODES \<equiv> 200000"
abbreviation two63 :: int where "two63 \<equiv> 9223372036854775808"

section \<open>Canonical records\<close>

text \<open>\<open>_walk\<close>: \<open>budget\<close> is the mutable pair of the nodes and the characters left.\<close>

definition walk_enter :: "int \<Rightarrow> int \<times> int \<Rightarrow> perr + (int \<times> int)" where
  "walk_enter depth b =
     (if fst b - 1 < 0 \<or> depth > MAX_DEPTH then Inl ValidationError else Inr (fst b - 1, snd b))"

definition walk_str :: "string \<Rightarrow> int \<times> int \<Rightarrow> perr + (int \<times> int)" where
  "walk_str s b = (if snd b - pylen s < 0 then Inl ValidationError else Inr (fst b, snd b - pylen s))"

fun walk :: "json \<Rightarrow> int \<Rightarrow> int \<times> int \<Rightarrow> perr + (int \<times> int)"
  and walk_items :: "json list \<Rightarrow> int \<Rightarrow> int \<times> int \<Rightarrow> perr + (int \<times> int)"
  and walk_members :: "(string \<times> json) list \<Rightarrow> int \<Rightarrow> int \<times> int \<Rightarrow> perr + (int \<times> int)" where
  "walk JNull d b = walk_enter d b"
| "walk (JBool c) d b = walk_enter d b"
| "walk (JInt i) d b = rbind (walk_enter d b) (\<lambda>b'.
     if - two63 \<le> i \<and> i < two63 then Inr b' else Inl ValidationError)"
| "walk (JFloat f) d b = rbind (walk_enter d b) (\<lambda>_. Inl ValidationError)"
| "walk (JStr s) d b = rbind (walk_enter d b) (walk_str s)"
| "walk (JList l) d b = rbind (walk_enter d b) (\<lambda>b'.
     if len l > MAX_NODES then Inl ValidationError else walk_items l (d + 1) b')"
| "walk (JObj m) d b = rbind (walk_enter d b) (\<lambda>b'.
     if len m > MAX_NODES then Inl ValidationError else walk_members m (d + 1) b')"
| "walk_items [] d b = Inr b"
| "walk_items (x # xs) d b = rbind (walk x d b) (walk_items xs d)"
| "walk_members [] d b = Inr b"
| "walk_members ((k, v) # m) d b =
     rbind (rbind (walk_enter d b) (walk_str k)) (\<lambda>b'. rbind (walk v d b') (walk_members m d))"

definition canonical_bytes :: "int \<Rightarrow> json \<Rightarrow> perr + string" where
  "canonical_bytes maximum v =
     rbind (walk v 0 (MAX_NODES, maximum)) (\<lambda>_.
       let blob = canonical_text v in
       if len blob > maximum then Inl ValidationError else Inr blob)"

definition canonical_hash :: "crypto \<Rightarrow> json \<Rightarrow> perr + string" where
  "canonical_hash C v = rbind (canonical_bytes MAX_RECORD_SIZE v) (\<lambda>b. Inr (sha256_hex C b))"

text \<open>\<open>json.loads\<close> with \<open>parse_float\<close> and \<open>parse_constant\<close> that raise.\<close>

definition strict_cfg :: jcfg where
  "strict_cfg = \<lparr>allow_float = False, allow_constant = False\<rparr>"

definition parse_bytes :: "int \<Rightarrow> string \<Rightarrow> perr + json" where
  "parse_bytes maximum blob =
     (if len blob > maximum \<or> \<not> valid_utf8 blob then Inl ValidationError
      else case loads strict_cfg blob of
             Inl _ \<Rightarrow> Inl ValidationError
           | Inr v \<Rightarrow> rbind (ensure (is_obj v) ValidationError) (\<lambda>_.
                rbind (canonical_bytes maximum v) (\<lambda>b.
                if b = blob then Inr v else Inl ValidationError)))"

text \<open>\<open>parse_record\<close>: a dictionary is copied through its canonical bytes, a string is
  decoded, everything else is refused.\<close>

definition parse_record :: "int \<Rightarrow> json \<Rightarrow> perr + json" where
  "parse_record maximum blob =
     (case blob of
        JObj m \<Rightarrow> rbind (canonical_bytes maximum blob) (parse_bytes maximum)
      | JStr s \<Rightarrow> if pylen s > maximum then Inl ValidationError else parse_bytes maximum s
      | _ \<Rightarrow> Inl ValidationError)"

section \<open>Fields\<close>

definition unb64 :: "json \<Rightarrow> int option \<Rightarrow> int \<Rightarrow> perr + string" where
  "unb64 value want maximum =
     (case value of
        JStr s \<Rightarrow>
          if pylen s > (maximum * 4 + 2) div 3 then Inl ValidationError
          else (case b64decode s of None \<Rightarrow> Inl ValidationError
                | Some r \<Rightarrow> if b64 r \<noteq> s \<or> len r > maximum \<or> (want \<noteq> None \<and> want \<noteq> Some (len r))
                            then Inl ValidationError else Inr r)
      | _ \<Rightarrow> Inl ValidationError)"

definition key32 :: "string \<Rightarrow> perr + string" where
  "key32 v = (if len v \<noteq> 32 then Inl ValidationError else Inr v)"

definition encode_key :: "string \<Rightarrow> perr + string" where
  "encode_key k = rbind (key32 k) (\<lambda>k. Inr (b64 k))"

definition decode_key :: "json \<Rightarrow> perr + string" where
  "decode_key v = unb64 v (Some 32) MAX_RECORD_SIZE"

definition signing_public_key :: "crypto \<Rightarrow> string \<Rightarrow> perr + string" where
  "signing_public_key C k = rbind (key32 k) (\<lambda>k. Inr (ed_public C k))"

definition agreement_public_key :: "crypto \<Rightarrow> string \<Rightarrow> perr + string" where
  "agreement_public_key C k = rbind (key32 k) (\<lambda>k. Inr (x_public C k))"

definition check_fields :: "string list \<Rightarrow> json \<Rightarrow> perr + unit" where
  "check_fields ks v = ensure (exact_keys ks v) ValidationError"

definition check_id :: "json \<Rightarrow> perr + unit" where
  "check_id v = (case v of JStr s \<Rightarrow> ensure (pylen s = 36 \<and> is_uuid4 s) ValidationError
                 | _ \<Rightarrow> Inl ValidationError)"

definition check_uint :: "int \<Rightarrow> json \<Rightarrow> perr + unit" where
  "check_uint minimum v = (case v of JInt i \<Rightarrow> ensure (minimum \<le> i \<and> i < two63) ValidationError
                           | _ \<Rightarrow> Inl ValidationError)"

definition check_hash :: "bool \<Rightarrow> json \<Rightarrow> perr + unit" where
  "check_hash nullable v =
     (if v = JNull \<and> nullable then Inr ()
      else case v of JStr s \<Rightarrow> ensure (is_sha256 s) ValidationError | _ \<Rightarrow> Inl ValidationError)"

section \<open>Signed records\<close>

abbreviation PROFILE :: string where "PROFILE \<equiv> ''KK3-projects-v1''"

definition signature_input :: "string \<Rightarrow> string \<Rightarrow> string" where
  "signature_input kind body = ''keys-keeper/KK3-projects-v1/'' @ ''signature/'' @ kind @ [CHR 0x00] @ body"

definition record_body :: "string \<Rightarrow> json \<Rightarrow> json" where
  "record_body kind payload =
     JObj [(''profile'', JStr PROFILE), (''kind'', JStr kind), (''payload'', payload)]"

definition sign_record :: "crypto \<Rightarrow> string \<Rightarrow> json \<Rightarrow> string \<Rightarrow> perr + json" where
  "sign_record C kind payload private_key =
     rbind (key32 private_key) (\<lambda>k.
     rbind (canonical_bytes MAX_RECORD_SIZE (record_body kind payload)) (\<lambda>b.
     Inr (JObj (members (record_body kind payload)
                @ [(''signature'', JStr (b64 (ed_sign C k (signature_input kind b))))]))))"

definition verify_record :: "crypto \<Rightarrow> int \<Rightarrow> json \<Rightarrow> string \<Rightarrow> string \<Rightarrow> perr + json" where
  "verify_record C maximum record kind public_key =
     rbind (parse_record maximum record) (\<lambda>obj.
     rbind (check_fields [''profile'', ''kind'', ''payload'', ''signature''] obj) (\<lambda>_.
     rbind (ensure (fld obj ''profile'' = JStr PROFILE \<and> fld obj ''kind'' = JStr kind
                    \<and> is_obj (fld obj ''payload'')) ValidationError) (\<lambda>_.
     rbind (unb64 (fld obj ''signature'') (Some 64) MAX_RECORD_SIZE) (\<lambda>signature.
     rbind (key32 public_key) (\<lambda>pk.
     rbind (canonical_bytes MAX_RECORD_SIZE
             (JObj [(''profile'', fld obj ''profile''), (''kind'', fld obj ''kind''),
                    (''payload'', fld obj ''payload'')])) (\<lambda>b.
     if ed_verify C pk signature (signature_input kind b) then Inr (fld obj ''payload'')
     else Inl AuthenticationError))))))"

section \<open>The walk\<close>

text \<open>A reference definition of the walk without a budget: what it counts.\<close>

fun nodes :: "json \<Rightarrow> int" and nodes_items :: "json list \<Rightarrow> int"
  and nodes_members :: "(string \<times> json) list \<Rightarrow> int" where
  "nodes JNull = 1" | "nodes (JBool c) = 1" | "nodes (JInt i) = 1" | "nodes (JFloat f) = 1"
| "nodes (JStr s) = 1" | "nodes (JList l) = 1 + nodes_items l" | "nodes (JObj m) = 1 + nodes_members m"
| "nodes_items [] = 0" | "nodes_items (x # xs) = nodes x + nodes_items xs"
| "nodes_members [] = 0" | "nodes_members ((k, v) # m) = 1 + nodes v + nodes_members m"

fun chars :: "json \<Rightarrow> int" and chars_items :: "json list \<Rightarrow> int"
  and chars_members :: "(string \<times> json) list \<Rightarrow> int" where
  "chars JNull = 0" | "chars (JBool c) = 0" | "chars (JInt i) = 0" | "chars (JFloat f) = 0"
| "chars (JStr s) = pylen s" | "chars (JList l) = chars_items l" | "chars (JObj m) = chars_members m"
| "chars_items [] = 0" | "chars_items (x # xs) = chars x + chars_items xs"
| "chars_members [] = 0" | "chars_members ((k, v) # m) = pylen k + chars v + chars_members m"

fun shape :: "json \<Rightarrow> int \<Rightarrow> bool" and shape_items :: "json list \<Rightarrow> int \<Rightarrow> bool"
  and shape_members :: "(string \<times> json) list \<Rightarrow> int \<Rightarrow> bool" where
  "shape JNull d = (d \<le> MAX_DEPTH)" | "shape (JBool c) d = (d \<le> MAX_DEPTH)"
| "shape (JInt i) d = (d \<le> MAX_DEPTH \<and> - two63 \<le> i \<and> i < two63)"
| "shape (JFloat f) d = False"
| "shape (JStr s) d = (d \<le> MAX_DEPTH)"
| "shape (JList l) d = (d \<le> MAX_DEPTH \<and> len l \<le> MAX_NODES \<and> shape_items l (d + 1))"
| "shape (JObj m) d = (d \<le> MAX_DEPTH \<and> len m \<le> MAX_NODES \<and> shape_members m (d + 1))"
| "shape_items [] d = True" | "shape_items (x # xs) d = (shape x d \<and> shape_items xs d)"
| "shape_members [] d = True"
| "shape_members ((k, v) # m) d = (d \<le> MAX_DEPTH \<and> shape v d \<and> shape_members m d)"

lemma nodes_pos: "0 < nodes v" "0 \<le> nodes_items l" "0 \<le> nodes_members m"
  by (induction v and l and m rule: nodes_nodes_items_nodes_members.induct) auto

lemma chars_nonneg: "0 \<le> chars v" "0 \<le> chars_items l" "0 \<le> chars_members m"
  by (induction v and l and m rule: chars_chars_items_chars_members.induct) (auto simp: pylen_nonneg)

lemma walk_enter_eq: "walk_enter d b = (if 1 \<le> fst b \<and> d \<le> MAX_DEPTH then Inr (fst b - 1, snd b) else Inl ValidationError)"
  by (auto simp: walk_enter_def)

lemma walk_str_eq: "walk_str s b = (if pylen s \<le> snd b then Inr (fst b, snd b - pylen s) else Inl ValidationError)"
  by (auto simp: walk_str_def)

lemma walk_eq:
  "0 \<le> snd b \<Longrightarrow> walk v d b =
     (if shape v d \<and> nodes v \<le> fst b \<and> chars v \<le> snd b then Inr (fst b - nodes v, snd b - chars v)
      else Inl ValidationError)"
  "0 \<le> snd b \<Longrightarrow> 0 \<le> fst b \<Longrightarrow> walk_items l d b =
     (if shape_items l d \<and> nodes_items l \<le> fst b \<and> chars_items l \<le> snd b
      then Inr (fst b - nodes_items l, snd b - chars_items l) else Inl ValidationError)"
  "0 \<le> snd b \<Longrightarrow> 0 \<le> fst b \<Longrightarrow> walk_members m d b =
     (if shape_members m d \<and> nodes_members m \<le> fst b \<and> chars_members m \<le> snd b
      then Inr (fst b - nodes_members m, snd b - chars_members m) else Inl ValidationError)"
proof (induction v d b and l d b and m d b rule: walk_walk_items_walk_members.induct)
  case (6 l d b)
  then show ?case using nodes_pos(2) [of l] by (auto simp: rbind_def walk_enter_eq)
next
  case (7 m d b)
  then show ?case using nodes_pos(3) [of m] by (auto simp: rbind_def walk_enter_eq)
next
  case (9 x xs d b)
  have "0 \<le> nodes_items xs" "0 < nodes x" "0 \<le> chars x" "0 \<le> chars_items xs"
    by (simp_all add: nodes_pos chars_nonneg)
  with 9 show ?case by (auto simp: rbind_def)
next
  case (11 k v m d b)
  have "0 \<le> nodes_members m" "0 < nodes v" "0 \<le> chars v" "0 \<le> chars_members m" "0 \<le> pylen k"
    by (simp_all add: nodes_pos chars_nonneg pylen_nonneg)
  with 11 show ?case by (auto simp: rbind_def walk_enter_eq walk_str_eq)
qed (auto simp: rbind_def walk_enter_eq walk_str_eq nodes_pos)

lemma shape_no_float: "shape v d \<Longrightarrow> no_float v" "shape_items l d \<Longrightarrow> no_float_items l"
  "shape_members m d \<Longrightarrow> no_float_members m"
  by (induction v d and l d and m d rule: shape_shape_items_shape_members.induct) auto

text \<open>\<open>fits maximum v\<close>: the value is within the structural limits and its text within the size.\<close>

definition fits :: "int \<Rightarrow> json \<Rightarrow> bool" where
  "fits maximum v \<longleftrightarrow> shape v 0 \<and> nodes v \<le> MAX_NODES \<and> chars v \<le> maximum
     \<and> len (canonical_text v) \<le> maximum"

lemma canonical_bytes_eq:
  "0 \<le> maximum \<Longrightarrow> canonical_bytes maximum v =
     (if fits maximum v then Inr (canonical_text v) else Inl ValidationError)"
  by (auto simp: canonical_bytes_def walk_eq fits_def Let_def)

lemma fits_no_float: "fits maximum v \<Longrightarrow> no_float v"
  by (auto simp: fits_def intro: shape_no_float)

lemma fits_mono: "fits n v \<Longrightarrow> n \<le> m \<Longrightarrow> fits m v"
  by (auto simp: fits_def)

section \<open>Sorting members changes neither text nor limits\<close>

lemma insort_key_map: "(\<And>x. g (f x) = g x) \<Longrightarrow> insort_key g (f x) (map f xs) = map f (insort_key g x xs)"
  by (induction xs) auto

lemma sort_key_map: "(\<And>x. g (f x) = g x) \<Longrightarrow> sort_key g (map f xs) = map f (sort_key g xs)"
  by (induction xs) (auto simp: insort_key_map)

lemma sort_pairs_sort: "sort_pairs (sort_key fst m) = sort_key fst (sort_pairs m)"
  unfolding sort_pairs_map by (rule sort_key_map [symmetric]) auto

lemma sort_key_idem: "sort_key f (sort_key f xs) = sort_key f xs"
  by (rule sort_key_id_if_sorted) simp

lemma sort_members_idem:
  "sort_members (sort_members v) = sort_members v" "sort_items (sort_items l) = sort_items l"
  "sort_pairs (sort_pairs m) = sort_pairs m"
  by (induction v and l and m rule: sort_members_sort_items_sort_pairs.induct)
    (simp_all add: sort_pairs_sort sort_key_idem)

lemma canonical_text_sort [simp]: "canonical_text (sort_members v) = canonical_text v"
  by (simp add: canonical_text_def sort_members_idem)

lemma sum_members_perm:
  assumes "mset m = mset m'"
  shows "nodes_members m = nodes_members m'" and "chars_members m = chars_members m'"
    and "shape_members m d = shape_members m' d" and "len m = len m'"
proof -
  have n: "nodes_members m = (\<Sum>kv\<in>#mset m. 1 + nodes (snd kv))" for m by (induction m) auto
  have c: "chars_members m = (\<Sum>kv\<in>#mset m. pylen (fst kv) + chars (snd kv))" for m by (induction m) auto
  have s: "shape_members m d = (\<forall>kv\<in>set m. d \<le> MAX_DEPTH \<and> shape (snd kv) d)" for m by (induction m) auto
  from assms show "nodes_members m = nodes_members m'" by (simp only: n)
  from assms show "chars_members m = chars_members m'" by (simp only: c)
  from assms show "shape_members m d = shape_members m' d" by (simp only: s mset_eq_setD [OF assms])
  from assms show "len m = len m'" by (simp only: len_length mset_eq_length [OF assms])
qed

lemma len_sort [simp]: "len (sort_items l) = len l" "len (sort_pairs m) = len m" "len (sort_key f xs) = len xs"
  by (simp_all add: len_length sort_items_map sort_pairs_map)

lemma limits_sort:
  "nodes (sort_members v) = nodes v \<and> chars (sort_members v) = chars v \<and> shape (sort_members v) d = shape v d"
  "nodes_items (sort_items l) = nodes_items l \<and> chars_items (sort_items l) = chars_items l
     \<and> shape_items (sort_items l) d = shape_items l d"
  "nodes_members (sort_pairs m) = nodes_members m \<and> chars_members (sort_pairs m) = chars_members m
     \<and> shape_members (sort_pairs m) d = shape_members m d"
proof (induction v d and l d and m d rule: shape_shape_items_shape_members.induct)
  case (7 m d)
  have "mset (sort_key fst (sort_pairs m)) = mset (sort_pairs m)" by simp
  from sum_members_perm [OF this] 7 show ?case by simp
qed auto

lemma fits_sort [simp]: "fits n (sort_members v) = fits n v"
  by (simp add: fits_def limits_sort)

section \<open>Strings of a value\<close>

text \<open>Every string of a value is a real Python string: valid UTF-8 in the model.\<close>

fun text_json :: "json \<Rightarrow> bool" and text_items :: "json list \<Rightarrow> bool"
  and text_members :: "(string \<times> json) list \<Rightarrow> bool" where
  "text_json JNull = True" | "text_json (JBool c) = True" | "text_json (JInt i) = True"
| "text_json (JFloat f) = valid_utf8 f"
| "text_json (JStr s) = valid_utf8 s" | "text_json (JList l) = text_items l" | "text_json (JObj m) = text_members m"
| "text_items [] = True" | "text_items (x # xs) = (text_json x \<and> text_items xs)"
| "text_members [] = True" | "text_members ((k, v) # m) = (valid_utf8 k \<and> text_json v \<and> text_members m)"

lemma text_items_all: "text_items xs \<longleftrightarrow> (\<forall>x \<in> set xs. text_json x)"
  by (induction xs) auto

lemma text_members_all: "text_members m \<longleftrightarrow> (\<forall>kv \<in> set m. valid_utf8 (fst kv) \<and> text_json (snd kv))"
  by (induction m) auto

lemma text_fld: "text_json v \<Longrightarrow> text_json (fld v k)"
  by (cases v) (auto simp: fld_def text_members_all split: option.split dest!: map_of_SomeD)

lemma text_sort_members:
  "text_json v \<Longrightarrow> text_json (sort_members v)" "text_items l \<Longrightarrow> text_items (sort_items l)"
  "text_members m \<Longrightarrow> text_members (sort_pairs m)"
  by (induction v and l and m rule: text_json_text_items_text_members.induct) (auto simp: text_members_all)

lemma utf8_run_append: "utf8_run (xs @ ys) st = Option.bind (utf8_run xs st) (utf8_run ys)"
proof (induction xs arbitrary: st)
  case (Cons x xs)
  then show ?case by (cases "utf8_step st x") simp_all
qed simp

lemma valid_utf8_append: "valid_utf8 s \<Longrightarrow> valid_utf8 t \<Longrightarrow> valid_utf8 (s @ t)"
  by (simp add: valid_utf8_def utf8_run_append)

lemma valid_utf8_Nil [simp]: "valid_utf8 []"
  by (simp add: valid_utf8_def)

lemma utf8_run_ascii:
  "(\<And>c. c \<in> set s \<Longrightarrow> byte c < 128) \<Longrightarrow> s \<noteq> [] \<Longrightarrow> utf8_run (map byte s) (0, lo, hi) = Some utf8_start"
proof (induction s arbitrary: lo hi)
  case (Cons c s)
  then show ?case by (cases "s = []") (auto simp: utf8_step_def utf8_start_def)
qed simp

lemma valid_utf8_ascii: "(\<And>c. c \<in> set s \<Longrightarrow> byte c < 128) \<Longrightarrow> valid_utf8 s"
  using utf8_run_ascii [of s] by (cases "s = []") (auto simp: valid_utf8_def utf8_start_def)

text \<open>Replacing ASCII characters by ASCII strings keeps a string valid.\<close>

lemma utf8_run_map:
  assumes a: "\<And>c. byte c < 128 \<Longrightarrow> f c \<noteq> [] \<and> (\<forall>d \<in> set (f c). byte d < 128)"
    and b: "\<And>c. 128 \<le> byte c \<Longrightarrow> f c = [c]"
  shows "utf8_run (map byte s) (n, lo, hi) = Some st \<Longrightarrow> 128 \<le> lo \<Longrightarrow>
    utf8_run (map byte (concat (map f s))) (n, lo, hi) = Some st"
proof (induction s arbitrary: n lo hi)
  case (Cons c s)
  from Cons.prems obtain n' lo' hi' where step: "utf8_step (n, lo, hi) (byte c) = Some (n', lo', hi')"
    and run: "utf8_run (map byte s) (n', lo', hi') = Some st" by (auto simp: bind_eq_Some_conv)
  have lo': "128 \<le> lo'" using step by (auto simp: utf8_step_def utf8_start_def split: if_splits)
  show ?case
  proof (cases "byte c < 128")
    case True
    with step Cons.prems(2) have n: "n = 0" "(n', lo', hi') = utf8_start"
      by (auto simp: utf8_step_def split: if_splits)
    have "utf8_run (map byte (f c)) (0, lo, hi) = Some utf8_start"
      using a [OF True] by (intro utf8_run_ascii) auto
    with n Cons.IH [OF run lo'] show ?thesis by (simp add: utf8_run_append)
  next
    case False
    with b have "f c = [c]" by simp
    with step Cons.IH [OF run lo'] show ?thesis by simp
  qed
qed simp

lemma escape_ascii: "byte c < 128 \<Longrightarrow> escape_char c \<noteq> [] \<and> (\<forall>d \<in> set (escape_char c). byte d < 128)"
  by (auto simp: escape_char_def hex_digit_def byte_def)

lemma escape_other: "128 \<le> byte c \<Longrightarrow> escape_char c = [c]"
  by (auto simp: escape_char_def)

lemma valid_utf8_quote: "valid_utf8 s \<Longrightarrow> valid_utf8 (quote s)"
  using utf8_run_map [of escape_char s 0 128 191, OF escape_ascii escape_other]
  by (auto simp: valid_utf8_def quote_def utf8_start_def utf8_run_append utf8_step_def)

lemma show_int_ascii: "valid_utf8 (show_int i)"
proof (rule valid_utf8_ascii)
  fix c assume "c \<in> set (show_int i)"
  then have "c = CHR ''-'' \<or> is_digit c" using show_nat_digits by (auto simp: show_int_def split: if_splits)
  then show "byte c < 128" by (auto simp: is_digit_def byte_def)
qed

lemma valid_utf8_literal [simp]:
  "valid_utf8 ''null''" "valid_utf8 ''true''" "valid_utf8 ''false''" "valid_utf8 '',''" "valid_utf8 '':''"
  "valid_utf8 ''[''" "valid_utf8 '']''" "valid_utf8 ''{''" "valid_utf8 ''}''"
  by (auto simp: valid_utf8_def utf8_step_def utf8_start_def byte_def)

lemma valid_utf8_compact:
  "text_json v \<Longrightarrow> valid_utf8 (compact v)"
  "text_items l \<Longrightarrow> valid_utf8 (compact_items l)"
  "text_members m \<Longrightarrow> valid_utf8 (compact_members m)"
proof (induction v and l and m rule: text_json_text_items_text_members.induct)
  case (6 l)
  then show ?case
    using valid_utf8_append [OF valid_utf8_literal(6) valid_utf8_append [OF _ valid_utf8_literal(7)]] by simp
next
  case (7 m)
  then show ?case
    using valid_utf8_append [OF valid_utf8_literal(8) valid_utf8_append [OF _ valid_utf8_literal(9)]] by simp
next
  case (9 x xs)
  then show ?case
    using valid_utf8_append [OF _ valid_utf8_append [OF valid_utf8_literal(4)]] by (auto intro: valid_utf8_append)
next
  case (11 k v m)
  have c: "valid_utf8 (CHR '','' # s)" if "valid_utf8 s" for s
    using valid_utf8_append [OF valid_utf8_literal(4) that] by simp
  have d: "valid_utf8 (CHR '':'' # s)" if "valid_utf8 s" for s
    using valid_utf8_append [OF valid_utf8_literal(5) that] by simp
  from 11 show ?case by (auto intro!: valid_utf8_append valid_utf8_quote c d)
qed (auto simp: show_int_ascii valid_utf8_quote)

lemma valid_utf8_canonical: "text_json v \<Longrightarrow> valid_utf8 (canonical_text v)"
  by (simp add: canonical_text_def valid_utf8_compact text_sort_members)

section \<open>Records that were read\<close>

text \<open>A value in the form the strict reader returns it: an object, members sorted.\<close>

definition normal :: "json \<Rightarrow> bool" where
  "normal v \<longleftrightarrow> is_obj v \<and> wf_json v \<and> sort_members v = v \<and> valid_utf8 (canonical_text v)"

lemma parse_bytes_iff:
  assumes "0 \<le> maximum"
  shows "parse_bytes maximum b = Inr v \<longleftrightarrow> normal v \<and> fits maximum v \<and> b = canonical_text v"
proof
  assume p: "parse_bytes maximum b = Inr v"
  from p have l: "loads strict_cfg b = Inr v" and o: "is_obj v" "valid_utf8 b" and c: "canonical_bytes maximum v = Inr b"
    by (auto simp: parse_bytes_def rbind_ok ensure_ok split: if_splits sum.splits)
  from c assms have f: "fits maximum v" "b = canonical_text v"
    by (auto simp: canonical_bytes_eq split: if_splits)
  have wf: "wf_json v" using loads_plain(1) [OF l] .
  from l f have "sort_members v = v" using loads_canonical [OF fits_no_float [OF f(1)] wf] by simp
  with o f wf show "normal v \<and> fits maximum v \<and> b = canonical_text v" by (simp add: normal_def)
next
  assume v: "normal v \<and> fits maximum v \<and> b = canonical_text v"
  then have "loads strict_cfg b = Inr v"
    using loads_canonical [of v strict_cfg] fits_no_float by (auto simp: normal_def)
  with v assms show "parse_bytes maximum b = Inr v"
    by (simp add: parse_bytes_def normal_def fits_def canonical_bytes_eq)
qed

definition read_record :: "string \<Rightarrow> json option" where
  "read_record b = (case parse_bytes MAX_RECORD_SIZE b of Inl _ \<Rightarrow> None | Inr v \<Rightarrow> Some v)"

interpretation records: strict_codec canonical_text read_record "\<lambda>v. normal v \<and> fits MAX_RECORD_SIZE v"
  by unfold_locales (auto simp: read_record_def parse_bytes_iff [THEN iffD2] split: sum.splits
      dest: parse_bytes_iff [THEN iffD1, rotated])

lemma parse_record_Inr:
  assumes "0 \<le> maximum" and "parse_record maximum r = Inr v"
  shows "normal v" and "fits maximum v"
  using assms by (auto simp: parse_record_def rbind_ok parse_bytes_iff split: json.splits if_splits)

lemma parse_record_obj:
  assumes "0 \<le> maximum" and "wf_json (JObj m)" and "valid_utf8 (canonical_text (JObj m))"
  shows "parse_record maximum (JObj m) =
    (if fits maximum (JObj m) then Inr (sort_members (JObj m)) else Inl ValidationError)"
proof (cases "fits maximum (JObj m)")
  case True
  let ?v = "sort_members (JObj m)"
  have "wf_json ?v" by (rule wf_sort_members(1)) (rule assms(2))
  with assms True have "normal ?v \<and> fits maximum ?v \<and> canonical_text (JObj m) = canonical_text ?v"
    using fits_sort [of maximum "JObj m"] canonical_text_sort [of "JObj m"] sort_members_idem(1) [of "JObj m"]
    by (simp add: normal_def del: fits_sort canonical_text_sort)
  then have "parse_bytes maximum (canonical_text (JObj m)) = Inr ?v"
    using parse_bytes_iff [OF assms(1)] by blast
  with True assms(1) show ?thesis by (simp add: parse_record_def canonical_bytes_eq)
qed (use assms in \<open>simp add: parse_record_def canonical_bytes_eq\<close>)

text \<open>Reading is idempotent: what was read reads as itself under any larger limit.\<close>

lemma parse_record_normal:
  assumes "0 \<le> maximum" and "normal v" and "fits maximum v"
  shows "parse_record maximum v = Inr v"
proof -
  obtain m where m: "v = JObj m" using assms(2) by (cases v) (auto simp: normal_def)
  with assms have "parse_record maximum v = Inr (sort_members v)"
    using parse_record_obj [of maximum m] by (simp add: normal_def)
  with assms(2) show ?thesis by (simp add: normal_def)
qed

lemma parse_record_idem:
  "0 \<le> n \<Longrightarrow> n \<le> k \<Longrightarrow> parse_record n r = Inr v \<Longrightarrow> parse_record k v = Inr v"
  using parse_record_Inr [of n r v] fits_mono [of n v k] by (simp add: parse_record_normal)

lemma parse_record_mono:
  assumes "0 \<le> n" and "n \<le> k" and "parse_record n r = Inr v"
  shows "parse_record k r = Inr v"
proof (cases r)
  case (JStr s)
  with assms show ?thesis using fits_mono [of n v k]
    by (auto simp: parse_record_def parse_bytes_iff split: if_splits)
next
  case (JObj m)
  with assms show ?thesis using fits_mono [of n v k] fits_mono [of n r k]
    by (auto simp: parse_record_def rbind_ok parse_bytes_iff canonical_bytes_eq split: if_splits)
qed (use assms in \<open>simp_all add: parse_record_def\<close>)

lemma normal_fits_text_inject:
  "normal v \<Longrightarrow> normal w \<Longrightarrow> no_float v \<Longrightarrow> no_float w \<Longrightarrow> canonical_text v = canonical_text w \<Longrightarrow> v = w"
  using canonical_text_inject [of v w] by (simp add: normal_def)

lemma canonical_hash_Inr:
  "canonical_hash C v = Inr h \<longleftrightarrow> fits MAX_RECORD_SIZE v \<and> h = sha256_hex C (canonical_text v)"
  by (auto simp: canonical_hash_def rbind_ok canonical_bytes_eq split: if_splits)

section \<open>Field checks\<close>

lemma check_fields_ok [ok_simps]: "check_fields ks v = Inr u \<longleftrightarrow> exact_keys ks v"
  by (simp add: check_fields_def ensure_ok)

lemma check_id_ok: "check_id v = Inr u \<longleftrightarrow> (\<exists>s. v = JStr s \<and> is_uuid4 s \<and> pylen s = 36)"
  by (cases v) (auto simp: check_id_def ensure_ok)

lemma check_uint_ok: "check_uint k v = Inr u \<longleftrightarrow> (\<exists>i. v = JInt i \<and> k \<le> i \<and> i < two63)"
  by (cases v) (auto simp: check_uint_def ensure_ok)

lemma check_hash_ok:
  "check_hash nullable v = Inr u \<longleftrightarrow> (v = JNull \<and> nullable) \<or> (\<exists>s. v = JStr s \<and> is_sha256 s)"
  by (cases v) (auto simp: check_hash_def ensure_ok)

lemma key32_ok [ok_simps]: "key32 k = Inr r \<longleftrightarrow> length k = 32 \<and> r = k"
  by (auto simp: key32_def len_length)

lemma unb64_ok:
  "unb64 v w maximum = Inr r \<longleftrightarrow> v = JStr (b64 r) \<and> pylen (b64 r) \<le> (maximum * 4 + 2) div 3 \<and> len r \<le> maximum
     \<and> (w = None \<or> w = Some (len r))"
proof (cases v)
  case (JStr s)
  have "unb64 v w maximum = Inr r \<longleftrightarrow> strict_b64decode s = Some r \<and> pylen s \<le> (maximum * 4 + 2) div 3 \<and> len r \<le> maximum
     \<and> (w = None \<or> w = Some (len r))"
    by (auto simp: JStr unb64_def strict_b64decode_def split: option.splits if_splits)
  then show ?thesis using JStr b64.dec_iff by auto
qed (auto simp: unb64_def)

lemma unb64_b64:
  "len r \<le> maximum \<Longrightarrow> w = None \<or> w = Some (len r) \<Longrightarrow> unb64 (JStr (b64 r)) w maximum = Inr r"
  unfolding unb64_ok by (auto simp: pylen_b64 len_length)

lemma decode_key_ok: "decode_key v = Inr r \<longleftrightarrow> v = JStr (b64 r) \<and> length r = 32"
  by (auto simp: decode_key_def unb64_ok pylen_b64 len_length)

lemma encode_decode_key: "encode_key k = Inr s \<longleftrightarrow> length k = 32 \<and> s = b64 k"
  by (auto simp: encode_key_def rbind_ok ok_simps)

interpretation keys: strict_codec b64
  "\<lambda>s. case decode_key (JStr s) of Inl _ \<Rightarrow> None | Inr k \<Rightarrow> Some k" "\<lambda>k. length k = 32"
proof unfold_locales
  fix k :: string assume "length k = 32"
  then have "decode_key (JStr (b64 k)) = Inr k" by (simp add: decode_key_ok)
  then show "(case decode_key (JStr (b64 k)) of Inl _ \<Rightarrow> None | Inr k \<Rightarrow> Some k) = Some k" by simp
qed (auto simp: decode_key_ok split: sum.splits)

section \<open>Signing and verifying\<close>

lemma sort_members_simps_obj: "is_obj (sort_members v) = is_obj v"
  by (cases v) auto

lemma fld_obj: "map_of m k = Some x \<Longrightarrow> fld (JObj m) k = x"
  by (simp add: fld_def)

lemma exact_keys_sort: "exact_keys ks (sort_members v) = exact_keys ks v"
proof (cases v)
  case (JObj m)
  have "fst ` set (sort_key fst (sort_pairs m)) = fst ` set m" by (simp add: sort_pairs_map image_image case_prod_unfold)
  with JObj show ?thesis by (simp add: exact_keys_def)
qed (auto simp: exact_keys_def)

text \<open>The text that is signed does not depend on the order of the payload's members.\<close>

lemma record_body_sort: "canonical_text (record_body kind (sort_members p)) = canonical_text (record_body kind p)"
  by (simp add: record_body_def canonical_text_def sort_members_idem)

lemma verify_record_ok:
  assumes "verify_record C maximum r kind pk = Inr p"
  shows "\<exists>obj sg. parse_record maximum r = Inr obj \<and> p = fld obj ''payload'' \<and> is_obj p
    \<and> exact_keys [''profile'', ''kind'', ''payload'', ''signature''] obj
    \<and> fld obj ''kind'' = JStr kind
    \<and> fld obj ''signature'' = JStr (b64 sg) \<and> length sg = 64 \<and> length pk = 32
    \<and> ed_verify C pk sg (signature_input kind (canonical_text (record_body kind p)))"
  using assms
  by (auto simp: verify_record_def rbind_ok ok_simps ensure_ok unb64_ok canonical_bytes_eq record_body_def len_length
      split: if_splits)

lemma verify_record_payload:
  assumes "0 \<le> maximum" and "verify_record C maximum r kind pk = Inr p"
  shows "is_obj p" and "wf_json p" and "no_float p"
proof -
  obtain obj where o: "parse_record maximum r = Inr obj" "p = fld obj ''payload''" "is_obj p"
    using verify_record_ok [OF assms(2)] by blast
  have "normal obj" "fits maximum obj" using parse_record_Inr [OF assms(1) o(1)] by auto
  with o(2,3) show "is_obj p" and "wf_json p" and "no_float p"
    by (auto simp: normal_def intro: wf_fld no_float_fld fits_no_float)
qed

definition signed :: "crypto \<Rightarrow> string \<Rightarrow> json \<Rightarrow> string \<Rightarrow> json" where
  "signed C kind p k = JObj (members (record_body kind p)
     @ [(''signature'', JStr (b64 (ed_sign C k (signature_input kind (canonical_text (record_body kind p))))))])"

lemma sign_record_ok:
  "sign_record C kind p k = Inr r \<longleftrightarrow>
     length k = 32 \<and> fits MAX_RECORD_SIZE (record_body kind p) \<and> r = signed C kind p k"
  by (auto simp: sign_record_def rbind_ok ok_simps canonical_bytes_eq signed_def split: if_splits)

lemma b64_text: "valid_utf8 (b64 s)"
  by (rule valid_utf8_ascii) (rule b64_ascii)

theorem sign_verify:
  assumes C: "crypto_ok C" and r: "sign_record C kind p k = Inr r" and p: "is_obj p" "wf_json p" "text_json p"
    and kind: "valid_utf8 kind" and f: "0 \<le> maximum" "fits maximum r"
  shows "verify_record C maximum r kind (ed_public C k) = Inr (sort_members p)"
proof -
  from r have k: "length k = 32" and b: "fits MAX_RECORD_SIZE (record_body kind p)" and rd: "r = signed C kind p k"
    by (auto simp: sign_record_ok)
  define sg where "sg = ed_sign C k (signature_input kind (canonical_text (record_body kind p)))"
  have sg: "length sg = 64" "length (ed_public C k) = 32"
    "ed_verify C (ed_public C k) sg (signature_input kind (canonical_text (record_body kind p)))"
    using C k by (simp_all add: crypto_ok_def sg_def)
  have rm: "r = JObj [(''profile'', JStr PROFILE), (''kind'', JStr kind), (''payload'', p), (''signature'', JStr (b64 sg))]"
    by (simp add: rd signed_def record_body_def sg_def)
  have wf: "wf_json r" using p by (simp add: rm)
  have keys: "valid_utf8 ''profile''" "valid_utf8 ''kind''" "valid_utf8 ''payload''" "valid_utf8 ''signature''"
    "valid_utf8 PROFILE"
    by (auto intro!: valid_utf8_ascii simp: byte_def)
  have tx: "text_json r" using p kind by (simp add: rm b64_text keys)
  have pr: "parse_record maximum r = Inr (sort_members r)"
    using parse_record_obj [of maximum "members r"] f wf valid_utf8_canonical [OF tx] rm by simp
  have fl: "fld (sort_members r) k' = sort_members (fld r k')" for k' by (rule fld_sort_members [OF wf])
  have flds: "fld r ''profile'' = JStr PROFILE" "fld r ''kind'' = JStr kind" "fld r ''payload'' = p"
    "fld r ''signature'' = JStr (b64 sg)"
    by (simp_all add: rm fld_def)
  have ek: "exact_keys [''profile'', ''kind'', ''payload'', ''signature''] (sort_members r)"
    by (auto simp: exact_keys_sort) (auto simp: exact_keys_def rm)
  have un: "unb64 (JStr (b64 sg)) (Some 64) MAX_RECORD_SIZE = Inr sg"
    using sg(1) by (intro unb64_b64) (auto simp: len_length)
  have "fits MAX_RECORD_SIZE (sort_members (record_body kind p))" using b by simp
  then have fb: "fits MAX_RECORD_SIZE (record_body kind (sort_members p))"
    using fits_sort [of MAX_RECORD_SIZE "record_body kind p"] fits_sort [of MAX_RECORD_SIZE "record_body kind (sort_members p)"]
    by (simp add: record_body_def sort_members_idem del: fits_sort)
  have cb: "canonical_bytes MAX_RECORD_SIZE (record_body kind (sort_members p)) = Inr (canonical_text (record_body kind p))"
    using fb by (simp add: canonical_bytes_eq record_body_sort)
  show ?thesis unfolding verify_record_def pr
    using p ek un cb sg(2,3) sort_members_simps_obj [of p] unfolding record_body_def
    by (simp add: check_fields_def fl flds key32_def len_length)
qed

end
