(* ===== verification/Policy.thy ===== *)
theory Policy
  imports Protocol_Core
begin

text \<open>
  Policies of the KK3 project protocol (\<open>project_protocol.py\<close>): their validation,
  signing and verification, the authorization of a grant, and the transition from one
  policy to the next. A policy stays the JSON value the code passes around; \<open>wf_policy\<close>
  states what validation establishes.
\<close>

section \<open>Validation\<close>

abbreviation POLICY_FIELDS :: "string list" where
  "POLICY_FIELDS \<equiv> [''scope_id'', ''vault_id'', ''version'', ''epoch'', ''master_public_key'',
     ''inbox_public_key'', ''master_device_id'', ''master_token_hash'', ''grants'',
     ''checkpoint_sequence'', ''checkpoint_hash'', ''parent_policy_hash'']"

abbreviation GRANT_FIELDS :: "string list" where
  "GRANT_FIELDS \<equiv> [''grant_id'', ''generation'', ''device_id'', ''role'', ''signing_public_key'',
     ''agreement_public_key'', ''token_hash'']"

text \<open>The five sets of identities that the loop over the grants has already met.\<close>

record seen_ids =
  devices :: "json list"
  ids :: "json list"
  signing_keys :: "json list"
  agreement_keys :: "json list"
  tokens :: "json list"

definition no_ids :: seen_ids where
  "no_ids = \<lparr>devices = [], ids = [], signing_keys = [], agreement_keys = [], tokens = []\<rparr>"

definition fresh_identity :: "json \<Rightarrow> json list \<Rightarrow> perr + json list" where
  "fresh_identity v seen = (if v \<in> set seen then Inl ValidationError else Inr (v # seen))"

definition fresh_key :: "json \<Rightarrow> json list \<Rightarrow> perr + json list" where
  "fresh_key v seen = rbind (decode_key v) (\<lambda>_. fresh_identity v seen)"

definition check_grant :: "json \<Rightarrow> json \<Rightarrow> seen_ids \<Rightarrow> perr + seen_ids" where
  "check_grant payload grant seen =
     rbind (check_fields GRANT_FIELDS grant) (\<lambda>_.
     rbind (check_id (fld grant ''grant_id'')) (\<lambda>_.
     rbind (check_id (fld grant ''device_id'')) (\<lambda>_.
     rbind (check_uint 1 (fld grant ''generation'')) (\<lambda>_.
     rbind (check_hash False (fld grant ''token_hash'')) (\<lambda>_.
     rbind (ensure (\<not> (fld grant ''device_id'' = fld payload ''master_device_id''
                     \<or> fld grant ''token_hash'' = fld payload ''master_token_hash'')) ValidationError) (\<lambda>_.
     rbind (ensure (fld grant ''role'' = JStr ''reader'' \<or> fld grant ''role'' = JStr ''contributor'')
             ValidationError) (\<lambda>_.
     rbind (fresh_identity (fld grant ''device_id'') (devices seen)) (\<lambda>d.
     rbind (fresh_identity (fld grant ''grant_id'') (ids seen)) (\<lambda>i.
     rbind (fresh_key (fld grant ''signing_public_key'') (signing_keys seen)) (\<lambda>s.
     rbind (fresh_key (fld grant ''agreement_public_key'') (agreement_keys seen)) (\<lambda>a.
     rbind (fresh_identity (fld grant ''token_hash'') (tokens seen)) (\<lambda>t.
     rbind (ensure (\<not> (fld grant ''signing_public_key'' = fld payload ''master_public_key''
                     \<or> fld grant ''agreement_public_key'' = fld payload ''inbox_public_key'')) ValidationError) (\<lambda>_.
     Inr \<lparr>devices = d, ids = i, signing_keys = s, agreement_keys = a, tokens = t\<rparr>)))))))))))))"

definition check_policy :: "json \<Rightarrow> perr + unit" where
  "check_policy payload =
     rbind (check_fields POLICY_FIELDS payload) (\<lambda>_.
     rbind (each (\<lambda>f. check_id (fld payload f)) [''scope_id'', ''vault_id'', ''master_device_id'']) (\<lambda>_.
     rbind (each (\<lambda>f. check_uint 1 (fld payload f)) [''version'', ''epoch'']) (\<lambda>_.
     rbind (check_uint 0 (fld payload ''checkpoint_sequence'')) (\<lambda>_.
     rbind (check_hash True (fld payload ''checkpoint_hash'')) (\<lambda>_.
     rbind (check_hash True (fld payload ''parent_policy_hash'')) (\<lambda>_.
     rbind (ensure ((fld payload ''checkpoint_sequence'' = JInt 0) = (fld payload ''checkpoint_hash'' = JNull))
             ValidationError) (\<lambda>_.
     rbind (ensure ((fld payload ''version'' = JInt 1) = (fld payload ''parent_policy_hash'' = JNull))
             ValidationError) (\<lambda>_.
     rbind (each (\<lambda>f. rbind (decode_key (fld payload f)) (\<lambda>_. Inr ())) [''master_public_key'', ''inbox_public_key'']) (\<lambda>_.
     rbind (check_hash False (fld payload ''master_token_hash'')) (\<lambda>_.
     (case fld payload ''grants'' of
        JList grants \<Rightarrow>
          if len grants > MAX_GRANTS then Inl ValidationError
          else rbind (rfold (check_grant payload) grants no_ids) (\<lambda>_. Inr ())
      | _ \<Rightarrow> Inl ValidationError)))))))))))"

section \<open>Signing, verifying, authorizing\<close>

definition sign_policy :: "crypto \<Rightarrow> json \<Rightarrow> string \<Rightarrow> perr + json" where
  "sign_policy C payload0 master_private_key =
     rbind (parse_record MAX_POLICY_SIZE payload0) (\<lambda>payload.
     rbind (check_policy payload) (\<lambda>_.
     rbind (decode_key (fld payload ''master_public_key'')) (\<lambda>pub.
     rbind (signing_public_key C master_private_key) (\<lambda>mine.
     rbind (ensure (pub = mine) AuthorizationError) (\<lambda>_.
     rbind (sign_record C ''policy'' payload master_private_key) (\<lambda>r.
     rbind (canonical_bytes MAX_POLICY_SIZE r) (\<lambda>_. Inr r)))))))"

text \<open>\<open>expected_scope_id\<close> and \<open>expected_vault_id\<close> are \<open>JNull\<close> when the caller omits them.\<close>

definition verify_policy ::
  "crypto \<Rightarrow> json \<Rightarrow> string \<Rightarrow> json \<Rightarrow> json \<Rightarrow> json \<Rightarrow> json \<Rightarrow> perr + json" where
  "verify_policy C r pin expected_scope_id expected_vault_id minimum_version minimum_epoch =
     rbind (verify_record C MAX_POLICY_SIZE r ''policy'' pin) (\<lambda>payload.
     rbind (check_policy payload) (\<lambda>_.
     rbind (decode_key (fld payload ''master_public_key'')) (\<lambda>pub.
     rbind (key32 pin) (\<lambda>pin'.
     rbind (ensure (pub = pin') AuthorizationError) (\<lambda>_.
     rbind (ensure (\<not> ((expected_scope_id \<noteq> JNull \<and> \<not> py_eq (fld payload ''scope_id'') expected_scope_id)
                     \<or> (expected_vault_id \<noteq> JNull \<and> \<not> py_eq (fld payload ''vault_id'') expected_vault_id)))
             AuthorizationError) (\<lambda>_.
     rbind (check_uint 0 minimum_version) (\<lambda>_.
     rbind (check_uint 0 minimum_epoch) (\<lambda>_.
     rbind (ensure (\<not> (int_of (fld payload ''version'') < int_of minimum_version
                     \<or> int_of (fld payload ''epoch'') < int_of minimum_epoch)) ReplayError) (\<lambda>_.
     Inr payload)))))))))"

abbreviation verify_any_policy :: "crypto \<Rightarrow> json \<Rightarrow> string \<Rightarrow> perr + json" where
  "verify_any_policy C r pin \<equiv> verify_policy C r pin JNull JNull (JInt 0) (JInt 0)"

text \<open>\<open>grant_id\<close> and \<open>generation\<close> are \<open>JNull\<close> when omitted. The loop stops at the first
  grant of the device.\<close>

definition authorize_grant :: "json \<Rightarrow> json \<Rightarrow> string \<Rightarrow> json \<Rightarrow> json \<Rightarrow> perr + json" where
  "authorize_grant policy device_id operation grant_id generation =
     rbind (check_policy policy) (\<lambda>_.
     rbind (check_id device_id) (\<lambda>_.
     rbind (if grant_id = JNull then Inr () else check_id grant_id) (\<lambda>_.
     rbind (if generation = JNull then Inr () else check_uint 1 generation) (\<lambda>_.
     rbind (ensure (operation = ''read'' \<or> operation = ''create'') AuthorizationError) (\<lambda>_.
     (case find (\<lambda>g. fld g ''device_id'' = device_id) (items (fld policy ''grants'')) of
        None \<Rightarrow> Inl AuthorizationError
      | Some g \<Rightarrow>
          if (grant_id \<noteq> JNull \<and> fld g ''grant_id'' \<noteq> grant_id)
             \<or> (generation \<noteq> JNull \<and> fld g ''generation'' \<noteq> generation)
             \<or> (operation = ''create'' \<and> fld g ''role'' \<noteq> JStr ''contributor'')
          then Inl AuthorizationError else Inr g))))))"

section \<open>Transitions\<close>

abbreviation grants_of :: "json \<Rightarrow> json list" where
  "grants_of p \<equiv> items (fld p ''grants'')"

text \<open>\<open>{g["device_id"]: g for g in grants}\<close>\<close>

definition by_device :: "json \<Rightarrow> (string \<times> json) list" where
  "by_device p = map (\<lambda>g. (text_of (fld g ''device_id''), g)) (grants_of p)"

definition check_regrant :: "json \<Rightarrow> json \<Rightarrow> perr + unit" where
  "check_regrant old g =
     rbind (ensure (\<not> (\<exists>h \<in> set (grants_of old).
              fld h ''grant_id'' = fld g ''grant_id'' \<and> fld h ''device_id'' \<noteq> fld g ''device_id''))
             AuthorizationError) (\<lambda>_.
     (case map_of (by_device old) (text_of (fld g ''device_id'')) of
        None \<Rightarrow> Inr ()
      | Some prior \<Rightarrow>
          ensure (py_eq g prior \<or> \<not> (fld g ''grant_id'' = fld prior ''grant_id''
                  \<or> int_of (fld g ''generation'') \<le> int_of (fld prior ''generation''))) AuthorizationError))"

definition validate_policy_transition :: "crypto \<Rightarrow> json \<Rightarrow> json \<Rightarrow> string \<Rightarrow> perr + json" where
  "validate_policy_transition C old_record new_record pin =
     rbind (verify_any_policy C old_record pin) (\<lambda>old.
     rbind (verify_policy C new_record pin (fld old ''scope_id'') (fld old ''vault_id'')
              (JInt (int_of (fld old ''version'') + 1)) (fld old ''epoch'')) (\<lambda>new.
     rbind (parse_record MAX_RECORD_SIZE old_record) (\<lambda>old_obj.
     rbind (canonical_hash C old_obj) (\<lambda>old_hash.
     rbind (ensure (int_of (fld new ''version'') = int_of (fld old ''version'') + 1
                    \<and> fld new ''parent_policy_hash'' = JStr old_hash) ReplayError) (\<lambda>_.
     rbind (ensure (int_of (fld new ''epoch'') = int_of (fld old ''epoch'')
                    \<or> int_of (fld new ''epoch'') = int_of (fld old ''epoch'') + 1) ReplayError) (\<lambda>_.
     rbind (ensure (\<not> (int_of (fld new ''checkpoint_sequence'') < int_of (fld old ''checkpoint_sequence'')
                     \<or> (int_of (fld new ''checkpoint_sequence'') = int_of (fld old ''checkpoint_sequence'')
                        \<and> fld new ''checkpoint_hash'' \<noteq> fld old ''checkpoint_hash''))) ReplayError) (\<lambda>_.
     rbind (ensure (\<not> (\<not> py_eq (JObj (by_device old)) (JObj (by_device new))
                     \<and> int_of (fld new ''epoch'') \<noteq> int_of (fld old ''epoch'') + 1)) AuthorizationError) (\<lambda>_.
     rbind (ensure (\<not> (int_of (fld new ''epoch'') = int_of (fld old ''epoch'')
                     \<and> \<not> (fld new ''checkpoint_sequence'' = fld old ''checkpoint_sequence''
                         \<and> fld new ''checkpoint_hash'' = fld old ''checkpoint_hash''))) ReplayError) (\<lambda>_.
     rbind (each (check_regrant old) (grants_of new)) (\<lambda>_.
     rbind (ensure (fld new ''master_device_id'' = fld old ''master_device_id'') AuthorizationError) (\<lambda>_.
     rbind (ensure (fld new ''inbox_public_key'' = fld old ''inbox_public_key'') AuthorizationError) (\<lambda>_.
     Inr new))))))))))))"

section \<open>What validation establishes\<close>

definition is_id :: "json \<Rightarrow> bool" where
  "is_id v \<longleftrightarrow> (\<exists>s. v = JStr s \<and> is_uuid4 s)"

definition is_hash :: "json \<Rightarrow> bool" where
  "is_hash v \<longleftrightarrow> (\<exists>s. v = JStr s \<and> is_sha256 s)"

definition is_key :: "json \<Rightarrow> bool" where
  "is_key v \<longleftrightarrow> (\<exists>k. v = JStr (b64 k) \<and> length k = 32)"

definition is_uint :: "int \<Rightarrow> json \<Rightarrow> bool" where
  "is_uint m v \<longleftrightarrow> (\<exists>i. v = JInt i \<and> m \<le> i \<and> i < two63)"

text \<open>A grant on its own: typed fields, a known role, nothing shared with the master.\<close>

definition wf_grant :: "json \<Rightarrow> json \<Rightarrow> bool" where
  "wf_grant p g \<longleftrightarrow> exact_keys GRANT_FIELDS g \<and> is_id (fld g ''grant_id'') \<and> is_id (fld g ''device_id'')
     \<and> is_uint 1 (fld g ''generation'') \<and> is_hash (fld g ''token_hash'')
     \<and> is_key (fld g ''signing_public_key'') \<and> is_key (fld g ''agreement_public_key'')
     \<and> (fld g ''role'' = JStr ''reader'' \<or> fld g ''role'' = JStr ''contributor'')
     \<and> fld g ''device_id'' \<noteq> fld p ''master_device_id'' \<and> fld g ''token_hash'' \<noteq> fld p ''master_token_hash''
     \<and> fld g ''signing_public_key'' \<noteq> fld p ''master_public_key''
     \<and> fld g ''agreement_public_key'' \<noteq> fld p ''inbox_public_key''"

definition identity_fields :: "string list" where
  "identity_fields = [''device_id'', ''grant_id'', ''signing_public_key'', ''agreement_public_key'', ''token_hash'']"

text \<open>Every identity belongs to one grant.\<close>

definition wf_policy :: "json \<Rightarrow> bool" where
  "wf_policy p \<longleftrightarrow> exact_keys POLICY_FIELDS p
     \<and> is_id (fld p ''scope_id'') \<and> is_id (fld p ''vault_id'') \<and> is_id (fld p ''master_device_id'')
     \<and> is_uint 1 (fld p ''version'') \<and> is_uint 1 (fld p ''epoch'') \<and> is_uint 0 (fld p ''checkpoint_sequence'')
     \<and> (fld p ''checkpoint_hash'' = JNull \<or> is_hash (fld p ''checkpoint_hash''))
     \<and> (fld p ''parent_policy_hash'' = JNull \<or> is_hash (fld p ''parent_policy_hash''))
     \<and> (fld p ''checkpoint_sequence'' = JInt 0 \<longleftrightarrow> fld p ''checkpoint_hash'' = JNull)
     \<and> (fld p ''version'' = JInt 1 \<longleftrightarrow> fld p ''parent_policy_hash'' = JNull)
     \<and> is_key (fld p ''master_public_key'') \<and> is_key (fld p ''inbox_public_key'')
     \<and> is_hash (fld p ''master_token_hash'')
     \<and> fld p ''grants'' = JList (grants_of p) \<and> len (grants_of p) \<le> MAX_GRANTS
     \<and> (\<forall>g \<in> set (grants_of p). wf_grant p g)
     \<and> (\<forall>f \<in> set identity_fields. distinct (map (\<lambda>g. fld g f) (grants_of p)))"

lemma fresh_identity_ok [ok_simps]: "fresh_identity v seen = Inr s \<longleftrightarrow> v \<notin> set seen \<and> s = v # seen"
  by (auto simp: fresh_identity_def)

lemma shape_ok_ascii:
  "shape_ok p s \<Longrightarrow> \<forall>c \<in> set p. byte c < 128 \<Longrightarrow> \<forall>c \<in> set s. byte c < 128"
proof (induction p s rule: shape_ok.induct)
  case (2 p ps c cs)
  have "byte c < 128" if "c = CHR ''8'' \<or> c = CHR ''9'' \<or> c = CHR ''a'' \<or> c = CHR ''b''"
    using that by (auto simp: byte_def)
  with 2 show ?case by (auto split: if_splits dest: is_hex_ascii)
qed simp_all

lemma is_uuid4_pylen:
  assumes "is_uuid4 s"
  shows "pylen s = 36"
proof -
  have "\<forall>c \<in> set s. byte c < 128"
    using assms unfolding is_uuid4_def by (rule shape_ok_ascii) (simp add: byte_def)
  then have "pylen s = len s" by (intro pylen_ascii) auto
  with is_uuid4_length [OF assms] show ?thesis by (simp add: len_length)
qed

lemma check_is [ok_simps]:
  "check_id v = Inr u \<longleftrightarrow> is_id v" "check_uint m v = Inr u \<longleftrightarrow> is_uint m v"
  "check_hash False v = Inr u \<longleftrightarrow> is_hash v" "check_hash True v = Inr u \<longleftrightarrow> v = JNull \<or> is_hash v"
  "decode_key v = Inr k \<longleftrightarrow> v = JStr (b64 k) \<and> length k = 32"
  by (auto simp: check_id_ok is_id_def check_uint_ok is_uint_def check_hash_ok is_hash_def decode_key_ok is_uuid4_pylen)

lemma is_key_iff: "is_key v \<longleftrightarrow> (\<exists>k. decode_key v = Inr k)"
  by (auto simp: is_key_def decode_key_ok)

lemma decode_key_unit [ok_simps]: "rbind (decode_key v) (\<lambda>_. m) = Inr x \<longleftrightarrow> is_key v \<and> m = Inr x"
  by (auto simp: rbind_ok is_key_iff)

lemma fresh_key_ok [ok_simps]: "fresh_key v seen = Inr s \<longleftrightarrow> is_key v \<and> v \<notin> set seen \<and> s = v # seen"
  by (auto simp: fresh_key_def decode_key_unit fresh_identity_ok)

lemma check_grant_ok:
  "check_grant p g seen = Inr seen' \<longleftrightarrow> wf_grant p g
     \<and> fld g ''device_id'' \<notin> set (devices seen) \<and> fld g ''grant_id'' \<notin> set (ids seen)
     \<and> fld g ''signing_public_key'' \<notin> set (signing_keys seen)
     \<and> fld g ''agreement_public_key'' \<notin> set (agreement_keys seen) \<and> fld g ''token_hash'' \<notin> set (tokens seen)
     \<and> seen' = \<lparr>devices = fld g ''device_id'' # devices seen, ids = fld g ''grant_id'' # ids seen,
         signing_keys = fld g ''signing_public_key'' # signing_keys seen,
         agreement_keys = fld g ''agreement_public_key'' # agreement_keys seen,
         tokens = fld g ''token_hash'' # tokens seen\<rparr>"
  unfolding check_grant_def wf_grant_def
  by (simp add: rbind_ok ensure_ok check_fields_ok check_is(1-4) fresh_identity_ok fresh_key_ok)
    (rule iffI; elim conjE; intro conjI; (assumption | erule sym))

definition all_fresh :: "(json \<Rightarrow> json) \<Rightarrow> json list \<Rightarrow> json list \<Rightarrow> bool" where
  "all_fresh f gs seen \<longleftrightarrow> distinct (map f gs) \<and> (\<forall>g \<in> set gs. f g \<notin> set seen)"

lemma all_fresh_simps [simp]:
  "all_fresh f [] seen" "all_fresh f (g # gs) seen \<longleftrightarrow> f g \<notin> set seen \<and> all_fresh f gs (f g # seen)"
  by (auto simp: all_fresh_def image_iff)

lemma all_fresh_nil: "all_fresh f gs [] \<longleftrightarrow> distinct (map f gs)"
  by (simp add: all_fresh_def)

lemma check_grants_ok:
  "(\<exists>seen'. rfold (check_grant p) gs seen = Inr seen') \<longleftrightarrow>
     (\<forall>g \<in> set gs. wf_grant p g)
     \<and> all_fresh (\<lambda>g. fld g ''device_id'') gs (devices seen)
     \<and> all_fresh (\<lambda>g. fld g ''grant_id'') gs (ids seen)
     \<and> all_fresh (\<lambda>g. fld g ''signing_public_key'') gs (signing_keys seen)
     \<and> all_fresh (\<lambda>g. fld g ''agreement_public_key'') gs (agreement_keys seen)
     \<and> all_fresh (\<lambda>g. fld g ''token_hash'') gs (tokens seen)"
proof (induction gs arbitrary: seen)
  case (Cons g gs)
  show ?case
  proof (cases "check_grant p g seen")
    case (Inl e)
    have "\<not> (\<exists>s. check_grant p g seen = Inr s)" using Inl by simp
    then show ?thesis unfolding check_grant_ok by (simp add: Inl) blast
  next
    case (Inr seen')
    from check_grant_ok [THEN iffD1, OF Inr] Cons [of seen'] show ?thesis by (simp add: Inr)
  qed
qed simp

theorem check_policy_ok [ok_simps]: "check_policy p = Inr u \<longleftrightarrow> wf_policy p"
proof -
  have g: "(case v of JList grants \<Rightarrow> if len grants > MAX_GRANTS then Inl ValidationError
        else rbind (rfold (check_grant p) grants no_ids) (\<lambda>_. Inr ()) | _ \<Rightarrow> Inl ValidationError) = Inr u
     \<longleftrightarrow> v = JList (items v) \<and> len (items v) \<le> MAX_GRANTS \<and> (\<exists>s. rfold (check_grant p) (items v) no_ids = Inr s)" for v u
    by (cases v) (auto simp: rbind_ok)
  have l: "(\<forall>f \<in> set identity_fields. distinct (map (\<lambda>x. fld x f) gs)) \<longleftrightarrow>
      distinct (map (\<lambda>g. fld g ''device_id'') gs) \<and> distinct (map (\<lambda>g. fld g ''grant_id'') gs)
      \<and> distinct (map (\<lambda>g. fld g ''signing_public_key'') gs)
      \<and> distinct (map (\<lambda>g. fld g ''agreement_public_key'') gs) \<and> distinct (map (\<lambda>g. fld g ''token_hash'') gs)" for gs
    by (simp add: identity_fields_def)
  show ?thesis
    unfolding check_policy_def wf_policy_def l
    by (simp add: rbind_ok ensure_ok check_fields_ok check_is(1-4) decode_key_unit g check_grants_ok all_fresh_nil no_ids_def is_key_iff Ball_def)
qed

lemma wf_policyD:
  assumes "wf_policy p"
  shows "exact_keys POLICY_FIELDS p" and "is_id (fld p ''scope_id'')" and "is_id (fld p ''vault_id'')"
    and "is_id (fld p ''master_device_id'')" and "is_uint 1 (fld p ''version'')" and "is_uint 1 (fld p ''epoch'')"
    and "is_uint 0 (fld p ''checkpoint_sequence'')"
    and "fld p ''checkpoint_hash'' = JNull \<or> is_hash (fld p ''checkpoint_hash'')"
    and "fld p ''checkpoint_sequence'' = JInt 0 \<longleftrightarrow> fld p ''checkpoint_hash'' = JNull"
    and "fld p ''version'' = JInt 1 \<longleftrightarrow> fld p ''parent_policy_hash'' = JNull"
    and "is_key (fld p ''master_public_key'')" and "is_key (fld p ''inbox_public_key'')"
    and "is_hash (fld p ''master_token_hash'')"
    and "fld p ''grants'' = JList (grants_of p)" and "len (grants_of p) \<le> MAX_GRANTS"
    and "g \<in> set (grants_of p) \<Longrightarrow> wf_grant p g"
    and "f \<in> set identity_fields \<Longrightarrow> distinct (map (\<lambda>g. fld g f) (grants_of p))"
  using assms by (simp_all only: wf_policy_def)

lemma is_uintD: "is_uint m v \<Longrightarrow> v = JInt (int_of v) \<and> m \<le> int_of v \<and> int_of v < two63"
  by (auto simp: is_uint_def)

lemma wf_policy_fields:
  assumes "wf_policy p"
  shows "fld p ''version'' = JInt (int_of (fld p ''version''))" and "1 \<le> int_of (fld p ''version'')"
    and "int_of (fld p ''version'') < two63"
    and "fld p ''epoch'' = JInt (int_of (fld p ''epoch''))" and "1 \<le> int_of (fld p ''epoch'')"
    and "int_of (fld p ''epoch'') < two63"
    and "fld p ''checkpoint_sequence'' = JInt (int_of (fld p ''checkpoint_sequence''))"
    and "0 \<le> int_of (fld p ''checkpoint_sequence'')"
  using is_uintD [OF wf_policyD(5) [OF assms]] is_uintD [OF wf_policyD(6) [OF assms]]
    is_uintD [OF wf_policyD(7) [OF assms]] by simp_all

lemma wf_policy_strings:
  assumes "wf_policy p"
  shows "fld p ''scope_id'' \<noteq> JNull" and "fld p ''vault_id'' \<noteq> JNull"
    and "py_eq v (fld p ''scope_id'') \<longleftrightarrow> v = fld p ''scope_id''"
    and "py_eq v (fld p ''vault_id'') \<longleftrightarrow> v = fld p ''vault_id''"
  using wf_policyD(2,3) [OF assms] by (auto simp: is_id_def)

section \<open>Verified policies\<close>

text \<open>The value a record holds under a checked signature.\<close>

definition signed_by :: "crypto \<Rightarrow> string \<Rightarrow> string \<Rightarrow> json \<Rightarrow> bool" where
  "signed_by C kind pk p \<longleftrightarrow>
     (\<exists>sg. length sg = 64 \<and> ed_verify C pk sg (signature_input kind (canonical_text (record_body kind p))))"

lemma verify_policy_ok:
  "verify_policy C r pin es ev mv me = Inr p \<longleftrightarrow>
     verify_record C MAX_POLICY_SIZE r ''policy'' pin = Inr p \<and> wf_policy p
     \<and> fld p ''master_public_key'' = JStr (b64 pin) \<and> length pin = 32
     \<and> (es = JNull \<or> py_eq (fld p ''scope_id'') es) \<and> (ev = JNull \<or> py_eq (fld p ''vault_id'') ev)
     \<and> is_uint 0 mv \<and> is_uint 0 me
     \<and> int_of mv \<le> int_of (fld p ''version'') \<and> int_of me \<le> int_of (fld p ''epoch'')"
  unfolding verify_policy_def
  by (auto simp: rbind_ok ok_simps ensure_ok not_less)

lemma verify_any_policy_ok:
  "verify_any_policy C r pin = Inr p \<longleftrightarrow>
     verify_record C MAX_POLICY_SIZE r ''policy'' pin = Inr p \<and> wf_policy p
     \<and> fld p ''master_public_key'' = JStr (b64 pin) \<and> length pin = 32"
  unfolding verify_policy_ok using wf_policy_fields(2,5) by (fastforce simp: is_uint_def)

theorem verify_policy_sound:
  assumes "verify_policy C r pin es ev mv me = Inr p"
  shows "wf_policy p" and "signed_by C ''policy'' pin p" and "fld p ''master_public_key'' = JStr (b64 pin)"
    and "es \<noteq> JNull \<Longrightarrow> py_eq (fld p ''scope_id'') es" and "ev \<noteq> JNull \<Longrightarrow> py_eq (fld p ''vault_id'') ev"
    and "int_of mv \<le> int_of (fld p ''version'')" and "int_of me \<le> int_of (fld p ''epoch'')"
  using assms verify_record_ok [of C MAX_POLICY_SIZE r "''policy''" pin p]
  by (auto simp: verify_policy_ok signed_by_def)

text \<open>A policy the master signs is the policy every holder of the pinned key verifies.\<close>

lemma sign_verify_policy:
  assumes C: "crypto_ok C" and s: "sign_policy C p0 k = Inr r" and p: "parse_record MAX_POLICY_SIZE p0 = Inr p"
    and t: "text_json p"
  shows "verify_any_policy C r (ed_public C k) = Inr p"
proof -
  have n: "normal p" using parse_record_Inr [OF _ p] by simp
  from s p have wf: "wf_policy p" and m: "fld p ''master_public_key'' = JStr (b64 (ed_public C k))"
    and k: "length k = 32" and sr: "sign_record C ''policy'' p k = Inr r"
    and f: "fits MAX_POLICY_SIZE r"
    by (auto simp: sign_policy_def rbind_ok ok_simps ensure_ok signing_public_key_def canonical_bytes_eq
        split: if_splits)
  have pk: "length (ed_public C k) = 32" using C k by (simp add: crypto_ok_def)
  have kind: "valid_utf8 ''policy''" by (rule valid_utf8_ascii) (auto simp: byte_def)
  have "verify_record C MAX_POLICY_SIZE r ''policy'' (ed_public C k) = Inr (sort_members p)"
    using n t f kind by (intro sign_verify [OF C sr]) (auto simp: normal_def)
  with n wf m pk show ?thesis by (simp add: verify_any_policy_ok normal_def)
qed

section \<open>Authorization\<close>

lemma find_unique:
  assumes "distinct (map f xs)" and "find (\<lambda>x. f x = v) xs = Some y"
  shows "y \<in> set xs \<and> f y = v \<and> (\<forall>z \<in> set xs. f z = v \<longrightarrow> z = y)"
  using assms find_SomeD [OF assms(2)] by (auto dest: distinct_map_unique)

lemma find_unique_iff:
  "distinct (map f xs) \<Longrightarrow> find (\<lambda>x. f x = v) xs = Some y \<longleftrightarrow> y \<in> set xs \<and> f y = v"
proof (induction xs)
  case (Cons x xs)
  then show ?case by (auto simp: image_iff)
qed simp

lemma wf_policy_device: "wf_policy p \<Longrightarrow> distinct (map (\<lambda>g. fld g ''device_id'') (grants_of p))"
  by (rule wf_policyD(17)) (auto simp: identity_fields_def)

theorem authorize_grant_ok:
  "authorize_grant p dev op gid gen = Inr g \<longleftrightarrow>
     wf_policy p \<and> is_id dev \<and> (gid = JNull \<or> is_id gid) \<and> (gen = JNull \<or> is_uint 1 gen)
     \<and> (op = ''read'' \<or> op = ''create'') \<and> g \<in> set (grants_of p) \<and> fld g ''device_id'' = dev
     \<and> (gid = JNull \<or> fld g ''grant_id'' = gid) \<and> (gen = JNull \<or> fld g ''generation'' = gen)
     \<and> (op = ''create'' \<longrightarrow> fld g ''role'' = JStr ''contributor'')"
proof (cases "wf_policy p")
  case True
  note d = find_unique_iff [OF wf_policy_device [OF True], of dev]
  show ?thesis
  proof (cases "find (\<lambda>g. fld g ''device_id'' = dev) (grants_of p)")
    case None
    then have "\<not> (\<exists>g. g \<in> set (grants_of p) \<and> fld g ''device_id'' = dev)" by (auto simp: find_None_iff)
    with True None show ?thesis
      by (auto simp: authorize_grant_def rbind_ok ok_simps ensure_ok split: if_splits)
  next
    case (Some h)
    then have h: "(g \<in> set (grants_of p) \<and> fld g ''device_id'' = dev) \<longleftrightarrow> g = h" using d [of g] by auto
    with True Some show ?thesis
      by (auto simp: authorize_grant_def rbind_ok ok_simps ensure_ok split: if_splits)
  qed
qed (auto simp: authorize_grant_def rbind_ok ok_simps)

end
