(* ===== verification/Policy_Chain.thy ===== *)
theory Policy_Chain
  imports Policy
begin

text \<open>
  Transitions between policies (\<open>validate_policy_transition\<close>), one step and along a
  history: versions grow by one, epochs never go back, the checkpoint never regresses,
  recipients change only with the epoch, and a policy determines its predecessor.
\<close>

section \<open>Equality of grants\<close>

definition same_grant :: "json \<Rightarrow> json \<Rightarrow> bool" where
  "same_grant g h \<longleftrightarrow> (\<forall>f \<in> set GRANT_FIELDS. fld g f = fld h f)"

lemma py_eq_members_all:
  "py_eq_members m m' \<longleftrightarrow> (\<forall>(k, v) \<in> set m. \<exists>w. map_of m' k = Some w \<and> py_eq v w)"
  by (induction m) (auto split: option.splits)

lemma py_eq_refl: "wf_json v \<Longrightarrow> py_eq v v" "wf_items l \<Longrightarrow> py_eq_items l l"
  "wf_members m \<Longrightarrow> (\<forall>(k, v) \<in> set m. py_eq v v)"
proof (induction v and l and m rule: wf_json_wf_items_wf_members.induct)
  case (7 m)
  then show ?case by (fastforce simp: py_eq_members_all)
qed auto

lemma py_eq_fld:
  assumes "py_eq (JObj m) (JObj m')" and "map_of m k = Some v"
  shows "py_eq v (fld (JObj m') k)"
proof -
  from assms have "(k, v) \<in> set m" "py_eq_members m m'" by (auto dest: map_of_SomeD)
  then obtain w where "map_of m' k = Some w" "py_eq v w" by (auto simp: py_eq_members_all)
  then show ?thesis by (simp add: fld_def)
qed

lemma py_eq_scalar:
  "is_id v \<or> is_hash v \<or> is_key v \<Longrightarrow> py_eq v w \<longleftrightarrow> w = v"
  by (auto simp: is_id_def is_hash_def is_key_def)

lemma wf_grantD:
  assumes "wf_grant p g"
  shows "exact_keys GRANT_FIELDS g" and "is_id (fld g ''grant_id'')" and "is_id (fld g ''device_id'')"
    and "is_uint 1 (fld g ''generation'')" and "is_hash (fld g ''token_hash'')"
    and "is_key (fld g ''signing_public_key'')" and "is_key (fld g ''agreement_public_key'')"
    and "fld g ''role'' = JStr ''reader'' \<or> fld g ''role'' = JStr ''contributor''"
    and "fld g ''device_id'' \<noteq> fld p ''master_device_id''"
    and "fld g ''token_hash'' \<noteq> fld p ''master_token_hash''"
    and "fld g ''signing_public_key'' \<noteq> fld p ''master_public_key''"
  using assms unfolding wf_grant_def by - (elim conjE; assumption)+

lemma grant_py_eq:
  assumes "wf_grant p g" and "wf_grant q h" and "py_eq g h"
  shows "same_grant g h"
  unfolding same_grant_def
proof
  fix f assume f: "f \<in> set GRANT_FIELDS"
  obtain m m' where m: "g = JObj m" "h = JObj m'"
    using wf_grantD(1) [OF assms(1)] wf_grantD(1) [OF assms(2)] by (cases g; cases h) (simp_all add: exact_keys_def)
  have "map_of m f = Some (fld g f)" using exact_keys_has [OF wf_grantD(1) [OF assms(1)] f] m by simp
  then have e: "py_eq (fld g f) (fld h f)" using py_eq_fld [of m m' f] assms(3) m by simp
  from f consider "is_id (fld g f) \<or> is_hash (fld g f) \<or> is_key (fld g f)" | "f = ''generation''" | "f = ''role''"
    using wf_grantD(2,3,5-7) [OF assms(1)] by (simp del: empty_iff) blast
  then show "fld g f = fld h f"
  proof cases
    case 1
    from e py_eq_scalar [OF this] show ?thesis by simp
  next
    case 2
    show ?thesis
      using e is_uintD [OF wf_grantD(4) [OF assms(1)]] is_uintD [OF wf_grantD(4) [OF assms(2)]] unfolding 2
      by (metis py_eq_int_int)
  next
    case 3
    show ?thesis using e wf_grantD(8) [OF assms(1)] unfolding 3 by fastforce
  qed
qed

lemma same_grant_refl [simp]: "same_grant g g"
  by (simp add: same_grant_def)

lemma same_grant_trans: "same_grant g h \<Longrightarrow> same_grant h k \<Longrightarrow> same_grant g k"
  by (simp add: same_grant_def)

text \<open>The recipients of two policies are the same.\<close>

definition same_recipients :: "json \<Rightarrow> json \<Rightarrow> bool" where
  "same_recipients p q \<longleftrightarrow> length (grants_of p) = length (grants_of q)
     \<and> (\<forall>g \<in> set (grants_of p). \<exists>h \<in> set (grants_of q). same_grant g h)"

lemma same_recipients_refl [simp]: "same_recipients p p"
  by (auto simp: same_recipients_def intro: same_grant_refl)

lemma same_recipients_trans: "same_recipients p q \<Longrightarrow> same_recipients q r \<Longrightarrow> same_recipients p r"
  unfolding same_recipients_def using same_grant_trans by (elim conjE, intro conjI) (simp, blast)

lemma by_device_same:
  assumes wf: "wf_policy p" "wf_policy q" and e: "py_eq (JObj (by_device p)) (JObj (by_device q))"
  shows "same_recipients p q"
proof -
  have "\<exists>h \<in> set (grants_of q). same_grant g h" if g: "g \<in> set (grants_of p)" for g
  proof -
    from g have "(text_of (fld g ''device_id''), g) \<in> set (by_device p)" by (auto simp: by_device_def)
    with e obtain h where h: "map_of (by_device q) (text_of (fld g ''device_id'')) = Some h" "py_eq g h"
      by (auto simp: py_eq_members_all)
    then have hq: "h \<in> set (grants_of q)" by (auto simp: by_device_def dest!: map_of_SomeD)
    have "same_grant g h" using grant_py_eq [OF wf_policyD(16) [OF wf(1) g] wf_policyD(16) [OF wf(2) hq] h(2)] .
    with hq show ?thesis by blast
  qed
  with e show ?thesis by (auto simp: same_recipients_def by_device_def)
qed

section \<open>One transition\<close>

text \<open>What an accepted transition from policy \<open>p\<close> (whose record reads as \<open>r\<close>) to \<open>q\<close> means.\<close>

definition extends :: "crypto \<Rightarrow> json \<Rightarrow> json \<Rightarrow> json \<Rightarrow> bool" where
  "extends C r p q \<longleftrightarrow>
     fld q ''scope_id'' = fld p ''scope_id'' \<and> fld q ''vault_id'' = fld p ''vault_id''
     \<and> fld q ''master_public_key'' = fld p ''master_public_key''
     \<and> fld q ''master_device_id'' = fld p ''master_device_id''
     \<and> fld q ''inbox_public_key'' = fld p ''inbox_public_key''
     \<and> int_of (fld q ''version'') = int_of (fld p ''version'') + 1
     \<and> fld q ''parent_policy_hash'' = JStr (sha256_hex C (canonical_text r))
     \<and> int_of (fld q ''epoch'') \<in> {int_of (fld p ''epoch''), int_of (fld p ''epoch'') + 1}
     \<and> int_of (fld p ''checkpoint_sequence'') \<le> int_of (fld q ''checkpoint_sequence'')
     \<and> (fld q ''epoch'' = fld p ''epoch'' \<longrightarrow> same_recipients p q
           \<and> fld q ''checkpoint_sequence'' = fld p ''checkpoint_sequence''
           \<and> fld q ''checkpoint_hash'' = fld p ''checkpoint_hash'')
     \<and> (fld q ''checkpoint_sequence'' = fld p ''checkpoint_sequence''
           \<longrightarrow> fld q ''checkpoint_hash'' = fld p ''checkpoint_hash'')"

text \<open>A grant of the new policy keeps to the device that held its id, and a device gets
  a different grant only with a fresh id and a later generation.\<close>

definition regrants_fresh :: "json \<Rightarrow> json \<Rightarrow> bool" where
  "regrants_fresh p q \<longleftrightarrow> (\<forall>g \<in> set (grants_of q). \<forall>h \<in> set (grants_of p).
     (fld h ''grant_id'' = fld g ''grant_id'' \<longrightarrow> fld h ''device_id'' = fld g ''device_id'')
     \<and> (fld h ''device_id'' = fld g ''device_id'' \<longrightarrow> same_grant h g
          \<or> (fld h ''grant_id'' \<noteq> fld g ''grant_id''
             \<and> int_of (fld h ''generation'') < int_of (fld g ''generation''))))"

lemma text_of_id: "is_id v \<Longrightarrow> is_id w \<Longrightarrow> text_of v = text_of w \<longleftrightarrow> v = w"
  by (auto simp: is_id_def)

lemma map_of_by_device:
  assumes wf: "wf_policy p" and g: "g \<in> set (grants_of p)"
  shows "map_of (by_device p) (text_of (fld g ''device_id'')) = Some g"
proof -
  have "inj_on text_of ((\<lambda>g. fld g ''device_id'') ` set (grants_of p))"
    using wf_grantD(3) [OF wf_policyD(16) [OF wf]] by (auto simp: inj_on_def text_of_id)
  then have "distinct (map fst (by_device p))"
    using wf_policy_device [OF wf] by (simp add: by_device_def distinct_map comp_inj_on_iff comp_def)
  moreover have "(text_of (fld g ''device_id''), g) \<in> set (by_device p)" using g by (auto simp: by_device_def)
  ultimately show ?thesis by (rule map_of_is_SomeI)
qed

lemma check_regrant_fresh:
  assumes wf: "wf_policy p" and g: "wf_grant q g" and c: "check_regrant p g = Inr u" and h: "h \<in> set (grants_of p)"
  shows "fld h ''grant_id'' = fld g ''grant_id'' \<Longrightarrow> fld h ''device_id'' = fld g ''device_id''"
    and "fld h ''device_id'' = fld g ''device_id'' \<Longrightarrow> same_grant h g
          \<or> (fld h ''grant_id'' \<noteq> fld g ''grant_id'' \<and> int_of (fld h ''generation'') < int_of (fld g ''generation''))"
proof -
  show "fld h ''device_id'' = fld g ''device_id''" if "fld h ''grant_id'' = fld g ''grant_id''"
    using c h that by (auto simp: check_regrant_def rbind_ok ensure_ok)
  assume d: "fld h ''device_id'' = fld g ''device_id''"
  have "map_of (by_device p) (text_of (fld g ''device_id'')) = Some h"
    using map_of_by_device [OF wf h] d by simp
  with c have "py_eq g h \<or> \<not> (fld g ''grant_id'' = fld h ''grant_id''
      \<or> int_of (fld g ''generation'') \<le> int_of (fld h ''generation''))"
    by (auto simp: check_regrant_def rbind_ok ensure_ok)
  then show "same_grant h g
      \<or> (fld h ''grant_id'' \<noteq> fld g ''grant_id'' \<and> int_of (fld h ''generation'') < int_of (fld g ''generation''))"
    using grant_py_eq [OF g wf_policyD(16) [OF wf h]] by (auto simp: same_grant_def)
qed

lemma verify_policy_obj:
  assumes "verify_policy C r pin es ev mv me = Inr p"
  obtains obj where "parse_record MAX_RECORD_SIZE r = Inr obj" and "normal obj" and "fld obj ''payload'' = p"
    and "fits MAX_RECORD_SIZE obj"
proof -
  have "verify_record C MAX_POLICY_SIZE r ''policy'' pin = Inr p" using assms by (simp add: verify_policy_ok)
  then obtain obj where obj: "parse_record MAX_POLICY_SIZE r = Inr obj" "p = fld obj ''payload''"
    using verify_record_ok [of C MAX_POLICY_SIZE r "''policy''" pin p] by blast
  have "parse_record MAX_RECORD_SIZE r = Inr obj" using parse_record_mono [OF _ _ obj(1)] by simp
  moreover have "normal obj" "fits MAX_POLICY_SIZE obj" using parse_record_Inr [OF _ obj(1)] by simp_all
  ultimately show ?thesis using that fits_mono [of MAX_POLICY_SIZE obj MAX_RECORD_SIZE] obj(2) by simp
qed

text \<open>One accepted step: what the new policy keeps of the old one.\<close>

lemma validate_policy_transition_D:
  assumes "validate_policy_transition C old new pin = Inr q"
  shows "\<exists>p r. verify_any_policy C old pin = Inr p \<and> verify_any_policy C new pin = Inr q
    \<and> parse_record MAX_RECORD_SIZE old = Inr r \<and> extends C r p q \<and> regrants_fresh p q"
proof -
  from assms obtain p r where p: "verify_any_policy C old pin = Inr p"
    and q: "verify_policy C new pin (fld p ''scope_id'') (fld p ''vault_id'')
              (JInt (int_of (fld p ''version'') + 1)) (fld p ''epoch'') = Inr q"
    and r: "parse_record MAX_RECORD_SIZE old = Inr r"
    and t: "int_of (fld q ''version'') = int_of (fld p ''version'') + 1"
      "fld q ''parent_policy_hash'' = JStr (sha256_hex C (canonical_text r))"
      "int_of (fld q ''epoch'') = int_of (fld p ''epoch'') \<or> int_of (fld q ''epoch'') = int_of (fld p ''epoch'') + 1"
      "\<not> int_of (fld q ''checkpoint_sequence'') < int_of (fld p ''checkpoint_sequence'')"
      "int_of (fld q ''checkpoint_sequence'') = int_of (fld p ''checkpoint_sequence'')
         \<longrightarrow> fld q ''checkpoint_hash'' = fld p ''checkpoint_hash''"
      "py_eq (JObj (by_device p)) (JObj (by_device q)) \<or> int_of (fld q ''epoch'') = int_of (fld p ''epoch'') + 1"
      "int_of (fld q ''epoch'') = int_of (fld p ''epoch'') \<longrightarrow>
         fld q ''checkpoint_sequence'' = fld p ''checkpoint_sequence'' \<and> fld q ''checkpoint_hash'' = fld p ''checkpoint_hash''"
      "\<forall>g \<in> set (grants_of q). check_regrant p g = Inr ()"
      "fld q ''master_device_id'' = fld p ''master_device_id''" "fld q ''inbox_public_key'' = fld p ''inbox_public_key''"
    unfolding validate_policy_transition_def rbind_ok ensure_ok each_ok canonical_hash_Inr de_Morgan_conj de_Morgan_disj
      not_not imp_conv_disj
    by blast
  have wf: "wf_policy p" "wf_policy q" using p q by (simp_all add: verify_policy_ok)
  have vq: "verify_any_policy C new pin = Inr q" using q unfolding verify_any_policy_ok by (simp add: verify_policy_ok)
  have same: "fld q ''scope_id'' = fld p ''scope_id''" "fld q ''vault_id'' = fld p ''vault_id''"
    "fld q ''master_public_key'' = fld p ''master_public_key''"
    using q p wf_policy_strings [OF wf(1)] by (auto simp: verify_policy_ok)
  have e: "fld q ''epoch'' = fld p ''epoch'' \<longrightarrow> int_of (fld q ''epoch'') = int_of (fld p ''epoch'')" by simp
  have rec: "fld q ''epoch'' = fld p ''epoch'' \<longrightarrow> same_recipients p q"
    using t(6) by_device_same [OF wf] by auto
  have cs: "fld q ''checkpoint_sequence'' = fld p ''checkpoint_sequence'' \<longrightarrow>
      fld q ''checkpoint_hash'' = fld p ''checkpoint_hash''" using t(5) by auto
  have "extends C r p q"
    unfolding extends_def using same t(1-4,7,9,10) e rec cs by auto
  moreover have "regrants_fresh p q"
    unfolding regrants_fresh_def
  proof (intro ballI conjI impI)
    fix g h assume g: "g \<in> set (grants_of q)" and h: "h \<in> set (grants_of p)"
    note c = check_regrant_fresh [OF wf(1) wf_policyD(16) [OF wf(2) g] t(8) [rule_format, OF g] h]
    show "fld h ''device_id'' = fld g ''device_id''" if "fld h ''grant_id'' = fld g ''grant_id''" by (rule c(1) [OF that])
    show "same_grant h g \<or> fld h ''grant_id'' \<noteq> fld g ''grant_id''
        \<and> int_of (fld h ''generation'') < int_of (fld g ''generation'')"
      if "fld h ''device_id'' = fld g ''device_id''" by (rule c(2) [OF that])
  qed
  ultimately show ?thesis using p vq r by blast
qed

section \<open>Histories\<close>

text \<open>A holder of the pinned key follows the master's policies one by one.\<close>

primrec follow :: "crypto \<Rightarrow> string \<Rightarrow> json \<Rightarrow> json list \<Rightarrow> perr + json" where
  "follow C pin r [] = Inr r"
| "follow C pin r (s # ss) = rbind (validate_policy_transition C r s pin) (\<lambda>_. follow C pin s ss)"

text \<open>What a history keeps, however many policies it has.\<close>

definition descends :: "json \<Rightarrow> json \<Rightarrow> nat \<Rightarrow> bool" where
  "descends p q n \<longleftrightarrow>
     fld q ''scope_id'' = fld p ''scope_id'' \<and> fld q ''vault_id'' = fld p ''vault_id''
     \<and> fld q ''master_public_key'' = fld p ''master_public_key''
     \<and> fld q ''master_device_id'' = fld p ''master_device_id''
     \<and> fld q ''inbox_public_key'' = fld p ''inbox_public_key''
     \<and> int_of (fld q ''version'') = int_of (fld p ''version'') + int n
     \<and> int_of (fld p ''epoch'') \<le> int_of (fld q ''epoch'')
     \<and> int_of (fld q ''epoch'') \<le> int_of (fld p ''epoch'') + int n
     \<and> int_of (fld p ''checkpoint_sequence'') \<le> int_of (fld q ''checkpoint_sequence'')
     \<and> (int_of (fld q ''epoch'') = int_of (fld p ''epoch'') \<longrightarrow> same_recipients p q
          \<and> fld q ''checkpoint_hash'' = fld p ''checkpoint_hash'')"

text \<open>
  Each policy names the one before it: it has the next version, and its parent is the hash of the
  record of its predecessor.
\<close>

definition names_predecessor :: "crypto \<Rightarrow> string \<Rightarrow> json \<Rightarrow> json \<Rightarrow> bool" where
  "names_predecessor C pin r s \<longleftrightarrow> (\<exists>p q v. verify_any_policy C r pin = Inr p \<and> verify_any_policy C s pin = Inr q
     \<and> parse_record MAX_RECORD_SIZE r = Inr v \<and> fld q ''parent_policy_hash'' = JStr (sha256_hex C (canonical_text v))
     \<and> int_of (fld q ''version'') = int_of (fld p ''version'') + 1)"

lemma transition_names_predecessor: "validate_policy_transition C r s pin = Inr q \<Longrightarrow> names_predecessor C pin r s"
  using validate_policy_transition_D [of C r s pin q] by (fastforce simp: names_predecessor_def extends_def)

lemma follow_chain:
  "follow C pin r ss = Inr s \<Longrightarrow> successively (names_predecessor C pin) (r # ss) \<and> s = last (r # ss)"
proof (induction ss arbitrary: r)
  case (Cons t ss)
  then obtain q where "validate_policy_transition C r t pin = Inr q" "follow C pin t ss = Inr s" by (auto simp: rbind_ok)
  then show ?case using Cons.IH [of t] transition_names_predecessor by auto
qed simp

lemma descends_refl: "descends p p 0"
  by (simp add: descends_def)

lemma descends_step:
  assumes "descends p q n" and "extends C r o' p" and "wf_policy o'" and "wf_policy p"
  shows "descends o' q (Suc n)"
proof -
  have e: "fld p ''epoch'' = fld o' ''epoch''" if "int_of (fld p ''epoch'') = int_of (fld o' ''epoch'')"
    using wf_policy_fields(4) [OF assms(3)] wf_policy_fields(4) [OF assms(4)] that by metis
  note d = assms(1) [unfolded descends_def] and x = assms(2) [unfolded extends_def]
  have b: "int_of (fld o' ''epoch'') \<le> int_of (fld p ''epoch'')" "int_of (fld p ''epoch'') \<le> int_of (fld o' ''epoch'') + 1"
    using x by (elim conjE, force)+
  have "int_of (fld q ''epoch'') = int_of (fld o' ''epoch'') \<longrightarrow> same_recipients o' q
      \<and> fld q ''checkpoint_hash'' = fld o' ''checkpoint_hash''"
  proof
    assume eq: "int_of (fld q ''epoch'') = int_of (fld o' ''epoch'')"
    with b d have pq: "int_of (fld q ''epoch'') = int_of (fld p ''epoch'')" by linarith
    then have po: "fld p ''epoch'' = fld o' ''epoch''" using eq by (intro e) simp
    have "same_recipients p q" "fld q ''checkpoint_hash'' = fld p ''checkpoint_hash''" using d pq by blast+
    moreover have "same_recipients o' p" "fld p ''checkpoint_hash'' = fld o' ''checkpoint_hash''" using x po by blast+
    ultimately show "same_recipients o' q \<and> fld q ''checkpoint_hash'' = fld o' ''checkpoint_hash''"
      using same_recipients_trans by metis
  qed
  then show ?thesis unfolding descends_def using d x b by (intro conjI) (linarith | simp)+
qed

lemma follow_descends:
  "verify_any_policy C r pin = Inr p \<Longrightarrow> follow C pin r ss = Inr s \<Longrightarrow>
     \<exists>q. verify_any_policy C s pin = Inr q \<and> descends p q (length ss)"
proof (induction ss arbitrary: r p)
  case Nil
  then show ?case by (auto intro: descends_refl)
next
  case (Cons t ss)
  from Cons.prems obtain q where q: "validate_policy_transition C r t pin = Inr q" "follow C pin t ss = Inr s"
    by (auto simp: rbind_ok)
  from validate_policy_transition_D [OF q(1)] Cons.prems(1) obtain r' where
    t: "verify_any_policy C t pin = Inr q" "extends C r' p q" by auto
  from Cons.IH [OF t(1) q(2)] obtain u where u: "verify_any_policy C s pin = Inr u" "descends q u (length ss)" by blast
  have "wf_policy p" "wf_policy q" using Cons.prems(1) t(1) by (simp_all add: verify_policy_ok)
  with descends_step [OF u(2) t(2)] u(1) show ?case by auto
qed

text \<open>
  A policy names its predecessor: when the hash does not collide on the two records, the
  record a policy extends is unique, so two histories that end in the same policy record
  agree backwards.
\<close>

lemma unique_predecessor:
  assumes "validate_policy_transition C r1 s pin = Inr q" and "validate_policy_transition C r2 s pin = Inr q"
    and "parse_record MAX_RECORD_SIZE r1 = Inr o1" and "parse_record MAX_RECORD_SIZE r2 = Inr o2"
    and inj: "sha256_hex C (canonical_text o1) = sha256_hex C (canonical_text o2) \<Longrightarrow> canonical_text o1 = canonical_text o2"
  shows "o1 = o2"
proof -
  have e: "fld q ''parent_policy_hash'' = JStr (sha256_hex C (canonical_text x))"
    if "validate_policy_transition C r s pin = Inr q" and "parse_record MAX_RECORD_SIZE r = Inr x" for r x
  proof -
    from validate_policy_transition_D [OF that(1)] that(2) obtain p where "extends C x p q" by auto
    then show ?thesis unfolding extends_def by (elim conjE)
  qed
  have "canonical_text o1 = canonical_text o2"
    by (rule inj) (use e [OF assms(1,3)] e [OF assms(2,4)] in simp)
  moreover have "normal o1" "normal o2" "no_float o1" "no_float o2"
    using parse_record_Inr [OF _ assms(3)] parse_record_Inr [OF _ assms(4)] by (auto intro: fits_no_float)
  ultimately show ?thesis using normal_fits_text_inject by blast
qed

section \<open>Revocation\<close>

text \<open>A device that a policy does not list is authorized for nothing under it.\<close>

lemma not_listed_not_authorized:
  assumes "\<forall>g \<in> set (grants_of q). fld g ''device_id'' \<noteq> dev"
  shows "authorize_grant q dev op gid gen \<noteq> Inr g"
  using assms by (auto simp: authorize_grant_ok)

text \<open>Removing a recipient is only possible together with a new epoch, hence a new scope key.\<close>

lemma removal_needs_epoch:
  assumes "validate_policy_transition C old new pin = Inr q" and "verify_any_policy C old pin = Inr p"
    and "g \<in> set (grants_of p)" and "\<forall>h \<in> set (grants_of q). fld h ''grant_id'' \<noteq> fld g ''grant_id''"
  shows "int_of (fld q ''epoch'') = int_of (fld p ''epoch'') + 1"
proof (rule ccontr)
  assume ne: "int_of (fld q ''epoch'') \<noteq> int_of (fld p ''epoch'') + 1"
  from validate_policy_transition_D [OF assms(1)] assms(2) obtain r where
    q: "verify_any_policy C new pin = Inr q" and x: "extends C r p q" by auto
  have wf: "wf_policy p" "wf_policy q" using assms(2) q by (simp_all add: verify_policy_ok)
  have "int_of (fld q ''epoch'') = int_of (fld p ''epoch'')" using x ne by (auto simp: extends_def)
  then have "fld q ''epoch'' = fld p ''epoch''"
    using wf_policy_fields(4) [OF wf(1)] wf_policy_fields(4) [OF wf(2)] by metis
  with x have "same_recipients p q" by (simp add: extends_def)
  with assms(3) obtain h where "h \<in> set (grants_of q)" "same_grant g h" unfolding same_recipients_def by blast
  with assms(4) show False by (auto simp: same_grant_def)
qed

end
