(* ===== verification/Project_Records.thy ===== *)
theory Project_Records
  imports Policy_Chain
begin

text \<open>
  The records that live under a policy (\<open>project_protocol.py\<close>): sealed data, snapshots,
  wrapped scope keys, creates of contributors, the master's receipts and revocations.
  What \<open>secrets.token_bytes\<close> and \<open>generate_key\<close> return is an argument of the builders.
\<close>

section \<open>Sealing\<close>

abbreviation KK3_DOMAIN :: string where
  "KK3_DOMAIN \<equiv> ''keys-keeper/KK3-projects-v1/''"

definition policy_context :: "crypto \<Rightarrow> json \<Rightarrow> json \<Rightarrow> perr + (string \<times> json) list" where
  "policy_context C policy_record policy =
     rbind (parse_record MAX_RECORD_SIZE policy_record) (\<lambda>r.
     rbind (canonical_hash C r) (\<lambda>h.
     Inr [(''scope_id'', fld policy ''scope_id''), (''vault_id'', fld policy ''vault_id''),
          (''epoch'', fld policy ''epoch''), (''policy_version'', fld policy ''version''),
          (''policy_hash'', JStr h)]))"

definition check_context :: "crypto \<Rightarrow> json \<Rightarrow> json \<Rightarrow> json \<Rightarrow> perr + unit" where
  "check_context C body policy_record policy =
     rbind (policy_context C policy_record policy) (\<lambda>ctx.
     ensure (\<not> (\<exists>(k, v) \<in> set ctx. \<not> py_eq (fld body k) v)) AuthorizationError)"

definition require_master :: "crypto \<Rightarrow> string \<Rightarrow> string \<Rightarrow> perr + unit" where
  "require_master C private_key pinned_key =
     rbind (signing_public_key C private_key) (\<lambda>mine.
     rbind (key32 pinned_key) (\<lambda>pin. ensure (mine = pin) AuthorizationError))"

definition seal_aad :: "string \<Rightarrow> json \<Rightarrow> perr + string" where
  "seal_aad kind context =
     rbind (canonical_bytes MAX_RECORD_SIZE context) (\<lambda>b. Inr (KK3_DOMAIN @ ''aead/'' @ kind @ [CHR 0x00] @ b))"

definition seal :: "crypto \<Rightarrow> string \<Rightarrow> string \<Rightarrow> string \<Rightarrow> string \<Rightarrow> json \<Rightarrow> perr + (string \<times> json) list" where
  "seal C nonce data key kind context =
     rbind (key32 key) (\<lambda>k.
     rbind (seal_aad kind context) (\<lambda>aad.
     Inr [(''nonce'', JStr (b64 nonce)), (''ciphertext'', JStr (b64 (aead_encrypt C k nonce data aad)))]))"

definition open_sealed :: "crypto \<Rightarrow> json \<Rightarrow> string \<Rightarrow> string \<Rightarrow> json \<Rightarrow> int \<Rightarrow> perr + string" where
  "open_sealed C sealed key kind context maximum =
     rbind (check_fields [''nonce'', ''ciphertext''] sealed) (\<lambda>_.
     rbind (unb64 (fld sealed ''nonce'') (Some 12) MAX_RECORD_SIZE) (\<lambda>nonce.
     rbind (unb64 (fld sealed ''ciphertext'') None (maximum + 16)) (\<lambda>ciphertext.
     rbind (ensure (\<not> len ciphertext < 16) ValidationError) (\<lambda>_.
     rbind (key32 key) (\<lambda>k.
     rbind (seal_aad kind context) (\<lambda>aad.
     (case aead_decrypt C k nonce ciphertext aad of None \<Rightarrow> Inl AuthenticationError | Some d \<Rightarrow> Inr d)))))))"

definition hybrid_key :: "crypto \<Rightarrow> string \<Rightarrow> string \<Rightarrow> string \<Rightarrow> string \<Rightarrow> json \<Rightarrow> string \<Rightarrow> perr + string" where
  "hybrid_key C private_key public_key salt kind context ephemeral =
     rbind (key32 private_key) (\<lambda>a.
     rbind (key32 public_key) (\<lambda>b.
     (case x_exchange C a b of
        None \<Rightarrow> Inl AuthenticationError
      | Some shared \<Rightarrow>
          rbind (canonical_bytes MAX_RECORD_SIZE context) (\<lambda>c.
          Inr (hkdf32 C salt (KK3_DOMAIN @ ''kdf/'' @ kind @ [CHR 0x00] @ ephemeral @ c) shared)))))"

definition hybrid_seal ::
  "crypto \<Rightarrow> string \<Rightarrow> string \<Rightarrow> string \<Rightarrow> string \<Rightarrow> string \<Rightarrow> string \<Rightarrow> json \<Rightarrow> perr + (string \<times> json) list" where
  "hybrid_seal C ephemeral_private salt nonce data public_key kind context =
     rbind (agreement_public_key C ephemeral_private) (\<lambda>ephemeral.
     rbind (hybrid_key C ephemeral_private public_key salt kind context ephemeral) (\<lambda>key.
     rbind (seal C nonce data key kind context) (\<lambda>s.
     Inr ([(''ephemeral_public_key'', JStr (b64 ephemeral)), (''salt'', JStr (b64 salt))] @ s))))"

definition hybrid_open :: "crypto \<Rightarrow> json \<Rightarrow> string \<Rightarrow> string \<Rightarrow> json \<Rightarrow> int \<Rightarrow> perr + string" where
  "hybrid_open C sealed private_key kind context maximum =
     rbind (check_fields [''ephemeral_public_key'', ''salt'', ''nonce'', ''ciphertext''] sealed) (\<lambda>_.
     rbind (unb64 (fld sealed ''ephemeral_public_key'') (Some 32) MAX_RECORD_SIZE) (\<lambda>ephemeral.
     rbind (unb64 (fld sealed ''salt'') (Some 32) MAX_RECORD_SIZE) (\<lambda>salt.
     rbind (hybrid_key C private_key ephemeral salt kind context ephemeral) (\<lambda>key.
     open_sealed C (JObj [(''nonce'', fld sealed ''nonce''), (''ciphertext'', fld sealed ''ciphertext'')])
       key kind context maximum))))"

definition validate_sealed :: "bool \<Rightarrow> int \<Rightarrow> json \<Rightarrow> perr + unit" where
  "validate_sealed hybrid maximum sealed =
     rbind (check_fields ([''nonce'', ''ciphertext''] @ (if hybrid then [''ephemeral_public_key'', ''salt''] else [])) sealed) (\<lambda>_.
     rbind (unb64 (fld sealed ''nonce'') (Some 12) MAX_RECORD_SIZE) (\<lambda>_.
     rbind (unb64 (fld sealed ''ciphertext'') None (maximum + 16)) (\<lambda>c.
     rbind (ensure (\<not> len c < 16) ValidationError) (\<lambda>_.
     if hybrid then
       rbind (unb64 (fld sealed ''ephemeral_public_key'') (Some 32) MAX_RECORD_SIZE) (\<lambda>_.
       rbind (unb64 (fld sealed ''salt'') (Some 32) MAX_RECORD_SIZE) (\<lambda>_. Inr ()))
     else Inr ()))))"

section \<open>Snapshots\<close>

abbreviation CONTEXT_FIELDS :: "string list" where
  "CONTEXT_FIELDS \<equiv> [''scope_id'', ''vault_id'', ''epoch'', ''policy_version'', ''policy_hash'']"

definition verify_snapshot :: "crypto \<Rightarrow> json \<Rightarrow> json \<Rightarrow> string \<Rightarrow> json \<Rightarrow> json \<Rightarrow> perr + json" where
  "verify_snapshot C r policy pinned_key minimum_sequence expected_parent_hash =
     rbind (verify_any_policy C policy pinned_key) (\<lambda>p.
     rbind (verify_record C MAX_RECORD_SIZE r ''snapshot'' pinned_key) (\<lambda>body.
     rbind (check_fields (CONTEXT_FIELDS @ [''sequence'', ''parent_hash'', ''sealed'']) body) (\<lambda>_.
     rbind (check_context C body policy p) (\<lambda>_.
     rbind (check_uint 1 (fld body ''sequence'')) (\<lambda>_.
     rbind (check_uint 0 minimum_sequence) (\<lambda>_.
     rbind (check_hash True (fld body ''parent_hash'')) (\<lambda>_.
     rbind (check_hash True expected_parent_hash) (\<lambda>_.
     rbind (ensure ((fld body ''sequence'' = JInt 1) = (fld body ''parent_hash'' = JNull)) ValidationError) (\<lambda>_.
     rbind (ensure (\<not> int_of (fld body ''sequence'')
                     \<le> max (int_of minimum_sequence) (int_of (fld p ''checkpoint_sequence''))) ReplayError) (\<lambda>_.
     rbind (ensure (\<not> int_of (fld body ''sequence'') - int_of (fld p ''checkpoint_sequence'') > MAX_EPOCH_PUBLICATIONS)
             ReplayError) (\<lambda>_.
     rbind (ensure (\<not> (expected_parent_hash \<noteq> JNull \<and> fld body ''parent_hash'' \<noteq> expected_parent_hash)) ReplayError) (\<lambda>_.
     rbind (ensure (\<not> (int_of (fld body ''sequence'') = int_of (fld p ''checkpoint_sequence'') + 1
                     \<and> fld body ''parent_hash'' \<noteq> fld p ''checkpoint_hash'')) ReplayError) (\<lambda>_.
     rbind (validate_sealed False MAX_PLAINTEXT_SIZE (fld body ''sealed'')) (\<lambda>_.
     Inr body))))))))))))))"

definition build_snapshot ::
  "crypto \<Rightarrow> string \<Rightarrow> json \<Rightarrow> json \<Rightarrow> string \<Rightarrow> string \<Rightarrow> string \<Rightarrow> json \<Rightarrow> json \<Rightarrow> perr + json" where
  "build_snapshot C nonce payload policy pinned_key master_private_key scope_key sequence parent_hash =
     rbind (verify_any_policy C policy pinned_key) (\<lambda>p.
     rbind (require_master C master_private_key pinned_key) (\<lambda>_.
     rbind (check_uint 1 sequence) (\<lambda>_.
     rbind (check_hash True parent_hash) (\<lambda>_.
     rbind (policy_context C policy p) (\<lambda>ctx.
     let context = ctx @ [(''sequence'', sequence), (''parent_hash'', parent_hash)] in
     rbind (parse_record MAX_PLAINTEXT_SIZE payload) (\<lambda>plain.
     rbind (canonical_bytes MAX_PLAINTEXT_SIZE plain) (\<lambda>data.
     rbind (seal C nonce data scope_key ''snapshot'' (JObj context)) (\<lambda>s.
     rbind (sign_record C ''snapshot'' (JObj (context @ [(''sealed'', JObj s)])) master_private_key) (\<lambda>r.
     rbind (verify_snapshot C r policy pinned_key (JInt 0) JNull) (\<lambda>_. Inr r))))))))))"

definition open_snapshot :: "crypto \<Rightarrow> json \<Rightarrow> json \<Rightarrow> string \<Rightarrow> string \<Rightarrow> json \<Rightarrow> json \<Rightarrow> perr + json" where
  "open_snapshot C r policy pinned_key scope_key minimum_sequence expected_parent_hash =
     rbind (verify_snapshot C r policy pinned_key minimum_sequence expected_parent_hash) (\<lambda>body.
     rbind (open_sealed C (fld body ''sealed'') scope_key ''snapshot'' (without ''sealed'' body) MAX_PLAINTEXT_SIZE)
       (parse_bytes MAX_PLAINTEXT_SIZE))"

section \<open>Wrapped scope keys\<close>

definition wrap_context :: "crypto \<Rightarrow> json \<Rightarrow> json \<Rightarrow> perr + (string \<times> json) list" where
  "wrap_context C device_id grant =
     rbind (canonical_hash C grant) (\<lambda>h.
     Inr [(''device_id'', device_id), (''grant_id'', fld grant ''grant_id''),
          (''generation'', fld grant ''generation''),
          (''recipient_public_key'', fld grant ''agreement_public_key''), (''grant_hash'', JStr h)])"

definition wrap_scope_key ::
  "crypto \<Rightarrow> string \<Rightarrow> string \<Rightarrow> string \<Rightarrow> string \<Rightarrow> json \<Rightarrow> string \<Rightarrow> string \<Rightarrow> json \<Rightarrow> perr + json" where
  "wrap_scope_key C ephemeral_private salt nonce scope_key policy pinned_key master_private_key device_id =
     rbind (verify_any_policy C policy pinned_key) (\<lambda>p.
     rbind (require_master C master_private_key pinned_key) (\<lambda>_.
     rbind (authorize_grant p device_id ''read'' JNull JNull) (\<lambda>grant.
     rbind (policy_context C policy p) (\<lambda>ctx.
     rbind (wrap_context C device_id grant) (\<lambda>w.
     rbind (key32 scope_key) (\<lambda>k.
     rbind (decode_key (fld grant ''agreement_public_key'')) (\<lambda>pub.
     rbind (hybrid_seal C ephemeral_private salt nonce k pub ''scope-key-wrap'' (JObj (ctx @ w))) (\<lambda>s.
     sign_record C ''scope-key-wrap'' (JObj (ctx @ w @ [(''sealed'', JObj s)])) master_private_key))))))))"

text \<open>\<open>a or b\<close> on optional strings.\<close>

definition truthy :: "json \<Rightarrow> bool" where
  "truthy v \<longleftrightarrow> v \<noteq> JNull \<and> v \<noteq> JStr [] \<and> v \<noteq> JBool False \<and> v \<noteq> JInt 0 \<and> v \<noteq> JList [] \<and> v \<noteq> JObj []"

definition or_else :: "json \<Rightarrow> json \<Rightarrow> json" where
  "or_else a b = (if truthy a then a else b)"

abbreviation MAX_CONTROL_SIZE :: int where "MAX_CONTROL_SIZE \<equiv> 16384"

definition verify_scope_key_wrap :: "crypto \<Rightarrow> json \<Rightarrow> json \<Rightarrow> string \<Rightarrow> json \<Rightarrow> json \<Rightarrow> perr + json" where
  "verify_scope_key_wrap C r policy pinned_key device_id expected_device_id =
     rbind (verify_any_policy C policy pinned_key) (\<lambda>p.
     rbind (verify_record C MAX_CONTROL_SIZE r ''scope-key-wrap'' pinned_key) (\<lambda>body.
     rbind (ensure (\<not> (device_id \<noteq> JNull \<and> expected_device_id \<noteq> JNull \<and> \<not> py_eq device_id expected_device_id))
             AuthorizationError) (\<lambda>_.
     let dev = or_else expected_device_id (or_else device_id (fld body ''device_id'')) in
     rbind (authorize_grant p dev ''read'' JNull JNull) (\<lambda>grant.
     rbind (check_fields (CONTEXT_FIELDS @ [''device_id'', ''grant_id'', ''generation'', ''recipient_public_key'',
                          ''grant_hash'', ''sealed'']) body) (\<lambda>_.
     rbind (check_context C body policy p) (\<lambda>_.
     rbind (wrap_context C dev grant) (\<lambda>w.
     rbind (ensure (\<not> (\<exists>(k, v) \<in> set w. \<not> py_eq (fld body k) v)) AuthorizationError) (\<lambda>_.
     rbind (validate_sealed True 32 (fld body ''sealed'')) (\<lambda>_.
     Inr body)))))))))"

definition unwrap_scope_key :: "crypto \<Rightarrow> json \<Rightarrow> json \<Rightarrow> string \<Rightarrow> json \<Rightarrow> string \<Rightarrow> perr + string" where
  "unwrap_scope_key C r policy pinned_key device_id device_private_key =
     rbind (verify_scope_key_wrap C r policy pinned_key device_id JNull) (\<lambda>body.
     rbind (agreement_public_key C device_private_key) (\<lambda>mine.
     rbind (decode_key (fld body ''recipient_public_key'')) (\<lambda>pub.
     rbind (ensure (mine = pub) AuthorizationError) (\<lambda>_.
     rbind (hybrid_open C (fld body ''sealed'') device_private_key ''scope-key-wrap'' (without ''sealed'' body) 32)
       key32))))"

section \<open>Creates\<close>

definition validate_create_entry :: "json \<Rightarrow> perr + unit" where
  "validate_create_entry entry =
     rbind (check_fields [''name'', ''type'', ''fields'', ''tags'', ''note'', ''refs''] entry) (\<lambda>_.
     rbind (each (\<lambda>k. ensure (is_str (fld entry k) \<and>
               pylen (text_of (fld entry k)) \<le> (if k = ''note'' then 65536 else 256)) ValidationError)
             [''name'', ''type'', ''note'']) (\<lambda>_.
     rbind (ensure (text_of (fld entry ''name'') \<noteq> [] \<and> text_of (fld entry ''type'') \<noteq> []) ValidationError) (\<lambda>_.
     rbind (ensure (is_obj (fld entry ''fields'') \<and> fld entry ''refs'' = JList (items (fld entry ''refs'')))
             ValidationError) (\<lambda>_.
     ensure (fld entry ''tags'' = JList (items (fld entry ''tags'')) \<and> len (items (fld entry ''tags'')) \<le> 128
             \<and> (\<forall>t \<in> set (items (fld entry ''tags'')). is_str t \<and> pylen (text_of t) \<le> 256)) ValidationError))))"

definition validate_create_payload :: "json \<Rightarrow> perr + json" where
  "validate_create_payload payload0 =
     rbind (parse_record MAX_CREATE_SIZE payload0) (\<lambda>payload.
     rbind (check_fields [''schema_version'', ''entry'', ''secret'', ''passphrase''] payload) (\<lambda>_.
     rbind (ensure (fld payload ''schema_version'' = JInt 1) ValidationError) (\<lambda>_.
     rbind (validate_create_entry (fld payload ''entry'')) (\<lambda>_.
     rbind (each (\<lambda>k. ensure (fld payload k = JNull \<or>
               (is_str (fld payload k) \<and> pylen (text_of (fld payload k)) \<le> 524288)) ValidationError)
             [''secret'', ''passphrase'']) (\<lambda>_.
     Inr payload)))))"

definition build_create ::
  "crypto \<Rightarrow> string \<Rightarrow> string \<Rightarrow> string \<Rightarrow> json \<Rightarrow> json \<Rightarrow> string \<Rightarrow> json \<Rightarrow> string \<Rightarrow> json \<Rightarrow> perr + json" where
  "build_create C ephemeral_private salt nonce payload0 policy pinned_key device_id device_private_key request_id =
     rbind (verify_any_policy C policy pinned_key) (\<lambda>p.
     rbind (authorize_grant p device_id ''create'' JNull JNull) (\<lambda>grant.
     rbind (check_id request_id) (\<lambda>_.
     rbind (signing_public_key C device_private_key) (\<lambda>mine.
     rbind (decode_key (fld grant ''signing_public_key'')) (\<lambda>pub.
     rbind (ensure (mine = pub) AuthorizationError) (\<lambda>_.
     rbind (policy_context C policy p) (\<lambda>ctx.
     let context = ctx @ [(''device_id'', device_id), (''grant_id'', fld grant ''grant_id''),
                          (''generation'', fld grant ''generation''), (''request_id'', request_id),
                          (''operation'', JStr ''create''), (''inbox_public_key'', fld p ''inbox_public_key'')] in
     rbind (validate_create_payload payload0) (\<lambda>payload.
     rbind (canonical_bytes MAX_CREATE_SIZE payload) (\<lambda>data.
     rbind (decode_key (fld p ''inbox_public_key'')) (\<lambda>inbox.
     rbind (hybrid_seal C ephemeral_private salt nonce data inbox ''create'' (JObj context)) (\<lambda>s.
     sign_record C ''create'' (JObj (context @ [(''sealed'', JObj s)])) device_private_key)))))))))))"

abbreviation CREATE_FIELDS :: "string list" where
  "CREATE_FIELDS \<equiv> CONTEXT_FIELDS @ [''device_id'', ''grant_id'', ''generation'', ''request_id'', ''operation'',
     ''inbox_public_key'', ''sealed'']"

text \<open>\<open>current_policy\<close> is \<open>JNull\<close> when the caller omits it.\<close>

definition check_still_active :: "crypto \<Rightarrow> json \<Rightarrow> string \<Rightarrow> json \<Rightarrow> json \<Rightarrow> json \<Rightarrow> perr + unit" where
  "check_still_active C current_policy pinned_key p grant body =
     (if current_policy = JNull then Inr ()
      else rbind (verify_policy C current_policy pinned_key (fld p ''scope_id'') (fld p ''vault_id'')
                    (fld p ''version'') (fld p ''epoch'')) (\<lambda>current.
           rbind (authorize_grant current (fld body ''device_id'') ''create'' (fld body ''grant_id'') (fld body ''generation''))
             (\<lambda>active.
           ensure (py_eq active grant \<and> fld current ''inbox_public_key'' = fld body ''inbox_public_key'') AuthorizationError)))"

definition verify_create :: "crypto \<Rightarrow> json \<Rightarrow> json \<Rightarrow> string \<Rightarrow> json \<Rightarrow> perr + json" where
  "verify_create C r policy pinned_key current_policy =
     rbind (verify_any_policy C policy pinned_key) (\<lambda>p.
     rbind (parse_record (2 * MAX_CREATE_SIZE) r) (\<lambda>obj.
     rbind (ensure (is_obj (fld obj ''payload'')) ValidationError) (\<lambda>_.
     let candidate = fld obj ''payload'' in
     rbind (check_fields CREATE_FIELDS candidate) (\<lambda>_.
     rbind (check_id (fld candidate ''grant_id'')) (\<lambda>_.
     rbind (check_uint 1 (fld candidate ''generation'')) (\<lambda>_.
     rbind (authorize_grant p (fld candidate ''device_id'') ''create'' (fld candidate ''grant_id'')
              (fld candidate ''generation'')) (\<lambda>grant.
     rbind (decode_key (fld grant ''signing_public_key'')) (\<lambda>pub.
     rbind (verify_record C (2 * MAX_CREATE_SIZE) obj ''create'' pub) (\<lambda>body.
     rbind (check_context C body policy p) (\<lambda>_.
     rbind (check_id (fld body ''request_id'')) (\<lambda>_.
     rbind (ensure (fld body ''operation'' = JStr ''create'' \<and> fld body ''inbox_public_key'' = fld p ''inbox_public_key'')
             AuthorizationError) (\<lambda>_.
     rbind (check_still_active C current_policy pinned_key p grant body) (\<lambda>_.
     rbind (validate_sealed True MAX_CREATE_SIZE (fld body ''sealed'')) (\<lambda>_.
     Inr body))))))))))))))"

definition open_create :: "crypto \<Rightarrow> json \<Rightarrow> json \<Rightarrow> string \<Rightarrow> string \<Rightarrow> json \<Rightarrow> perr + json" where
  "open_create C r policy pinned_key inbox_private_key current_policy =
     rbind (verify_create C r policy pinned_key current_policy) (\<lambda>body.
     rbind (agreement_public_key C inbox_private_key) (\<lambda>mine.
     rbind (decode_key (fld body ''inbox_public_key'')) (\<lambda>pub.
     rbind (ensure (mine = pub) AuthorizationError) (\<lambda>_.
     rbind (hybrid_open C (fld body ''sealed'') inbox_private_key ''create'' (without ''sealed'' body) MAX_CREATE_SIZE) (\<lambda>data.
     rbind (parse_bytes MAX_CREATE_SIZE data) validate_create_payload)))))"

section \<open>Receipts\<close>

abbreviation RECEIPT_SOURCE :: "string list" where
  "RECEIPT_SOURCE \<equiv> CONTEXT_FIELDS @ [''device_id'', ''grant_id'', ''generation'', ''request_id'']"

definition submission_hash :: "crypto \<Rightarrow> json \<Rightarrow> perr + string" where
  "submission_hash C submission = rbind (parse_record MAX_RECORD_SIZE submission) (canonical_hash C)"

definition receipt_bound :: "json \<Rightarrow> json \<Rightarrow> bool" where
  "receipt_bound body source = (\<not> (\<exists>k \<in> set RECEIPT_SOURCE. \<not> py_eq (fld body k) (fld source k)))"

definition check_outcome :: "json \<Rightarrow> perr + unit" where
  "check_outcome body =
     rbind (ensure (fld body ''status'' \<in> JStr ` {''accepted'', ''published'', ''conflict'', ''rejected'', ''quarantined''})
             ValidationError) (\<lambda>_.
     rbind (check_uint 0 (fld body ''revision'')) (\<lambda>_.
     if fld body ''status'' = JStr ''accepted'' \<or> fld body ''status'' = JStr ''published'' then
       rbind (check_id (fld body ''canonical_entry_id'')) (\<lambda>_. check_uint 1 (fld body ''revision''))
     else ensure (fld body ''canonical_entry_id'' = JNull \<and> fld body ''revision'' = JInt 0) ValidationError))"

definition verify_receipt :: "crypto \<Rightarrow> json \<Rightarrow> json \<Rightarrow> json \<Rightarrow> string \<Rightarrow> perr + json" where
  "verify_receipt C r submission policy pinned_key =
     rbind (verify_create C submission policy pinned_key JNull) (\<lambda>source.
     rbind (verify_record C MAX_CONTROL_SIZE r ''receipt'' pinned_key) (\<lambda>body.
     rbind (check_fields (RECEIPT_SOURCE @ [''submission_hash'', ''status'', ''canonical_entry_id'', ''revision'']) body) (\<lambda>_.
     rbind (ensure (receipt_bound body source) AuthenticationError) (\<lambda>_.
     rbind (submission_hash C submission) (\<lambda>h.
     rbind (ensure (fld body ''submission_hash'' = JStr h) AuthenticationError) (\<lambda>_.
     rbind (check_outcome body) (\<lambda>_.
     Inr body)))))))"

definition build_receipt ::
  "crypto \<Rightarrow> json \<Rightarrow> json \<Rightarrow> string \<Rightarrow> string \<Rightarrow> json \<Rightarrow> json \<Rightarrow> json \<Rightarrow> perr + json" where
  "build_receipt C submission policy pinned_key master_private_key status canonical_entry_id revision =
     rbind (verify_create C submission policy pinned_key JNull) (\<lambda>body.
     rbind (require_master C master_private_key pinned_key) (\<lambda>_.
     rbind (submission_hash C submission) (\<lambda>h.
     rbind (sign_record C ''receipt''
              (JObj (map (\<lambda>k. (k, fld body k)) RECEIPT_SOURCE
                     @ [(''submission_hash'', JStr h), (''status'', status),
                        (''canonical_entry_id'', canonical_entry_id), (''revision'', revision)]))
              master_private_key) (\<lambda>r.
     rbind (verify_receipt C r submission policy pinned_key) (\<lambda>_. Inr r)))))"

section \<open>Revocations\<close>

definition build_revocation :: "crypto \<Rightarrow> json \<Rightarrow> string \<Rightarrow> string \<Rightarrow> json \<Rightarrow> perr + json" where
  "build_revocation C policy pinned_key master_private_key device_id =
     rbind (verify_any_policy C policy pinned_key) (\<lambda>p.
     rbind (require_master C master_private_key pinned_key) (\<lambda>_.
     rbind (authorize_grant p device_id ''read'' JNull JNull) (\<lambda>grant.
     rbind (policy_context C policy p) (\<lambda>ctx.
     sign_record C ''revocation''
       (JObj (ctx @ [(''device_id'', device_id), (''grant_id'', fld grant ''grant_id''),
                     (''generation'', fld grant ''generation'')])) master_private_key))))"

definition verify_revocation :: "crypto \<Rightarrow> json \<Rightarrow> json \<Rightarrow> string \<Rightarrow> perr + json" where
  "verify_revocation C r policy pinned_key =
     rbind (verify_any_policy C policy pinned_key) (\<lambda>p.
     rbind (verify_record C MAX_CONTROL_SIZE r ''revocation'' pinned_key) (\<lambda>body.
     rbind (check_fields (CONTEXT_FIELDS @ [''device_id'', ''grant_id'', ''generation'']) body) (\<lambda>_.
     rbind (check_context C body policy p) (\<lambda>_.
     rbind (check_id (fld body ''grant_id'')) (\<lambda>_.
     rbind (check_uint 1 (fld body ''generation'')) (\<lambda>_.
     rbind (authorize_grant p (fld body ''device_id'') ''read'' (fld body ''grant_id'') (fld body ''generation'')) (\<lambda>_.
     Inr body)))))))"

end
