(* ===== verification/Records_Proofs.thy ===== *)
theory Records_Proofs
  imports Project_Records
begin

text \<open>
  What the records of a policy guarantee: their verification as equivalences, the binding
  to one policy, and the round trips seal/open, build/open of snapshots, wraps and creates.
\<close>

section \<open>Contexts\<close>

text \<open>The members every record under policy \<open>p\<close> carries; \<open>h\<close> is the hash of the policy record.\<close>

definition context_of :: "json \<Rightarrow> string \<Rightarrow> (string \<times> json) list" where
  "context_of p h = [(''scope_id'', fld p ''scope_id''), (''vault_id'', fld p ''vault_id''),
     (''epoch'', fld p ''epoch''), (''policy_version'', fld p ''version''), (''policy_hash'', JStr h)]"

definition policy_hash_of :: "crypto \<Rightarrow> json \<Rightarrow> string option" where
  "policy_hash_of C r = (case parse_record MAX_RECORD_SIZE r of Inl _ \<Rightarrow> None
     | Inr v \<Rightarrow> Some (sha256_hex C (canonical_text v)))"

lemma policy_context_ok [ok_simps]:
  "policy_context C r p = Inr ctx \<longleftrightarrow> (\<exists>h. policy_hash_of C r = Some h \<and> ctx = context_of p h)"
  using parse_record_Inr(2) [of MAX_RECORD_SIZE r]
  by (auto simp: policy_context_def rbind_ok canonical_hash_Inr policy_hash_of_def context_of_def split: sum.splits)

definition in_context :: "crypto \<Rightarrow> json \<Rightarrow> json \<Rightarrow> json \<Rightarrow> bool" where
  "in_context C body r p \<longleftrightarrow> (\<exists>h. policy_hash_of C r = Some h \<and> fld body ''policy_hash'' = JStr h)
     \<and> fld body ''scope_id'' = fld p ''scope_id'' \<and> fld body ''vault_id'' = fld p ''vault_id''
     \<and> py_eq (fld body ''epoch'') (fld p ''epoch'') \<and> py_eq (fld body ''policy_version'') (fld p ''version'')"

lemma check_context_ok:
  assumes "wf_policy p"
  shows "check_context C body r p = Inr u \<longleftrightarrow> in_context C body r p"
  using wf_policy_strings(3,4) [OF assms]
  by (auto simp: check_context_def rbind_ok policy_context_ok ensure_ok context_of_def in_context_def)

lemma require_master_ok [ok_simps]:
  "require_master C k pin = Inr u \<longleftrightarrow> length k = 32 \<and> length pin = 32 \<and> ed_public C k = pin"
  by (auto simp: require_master_def signing_public_key_def rbind_ok ok_simps ensure_ok)

section \<open>Sealing and opening\<close>

lemma seal_aad_ok: "seal_aad kind c = Inr a \<longleftrightarrow>
    fits MAX_RECORD_SIZE c \<and> a = KK3_DOMAIN @ ''aead/'' @ kind @ [CHR 0x00] @ canonical_text c"
  by (auto simp: seal_aad_def rbind_ok canonical_bytes_eq split: if_splits)

text \<open>What a sealed box holds for a given key, nonce and context.\<close>

definition box_of :: "crypto \<Rightarrow> string \<Rightarrow> string \<Rightarrow> string \<Rightarrow> string \<Rightarrow> json \<Rightarrow> string" where
  "box_of C key nonce data kind c =
     aead_encrypt C key nonce data (KK3_DOMAIN @ ''aead/'' @ kind @ [CHR 0x00] @ canonical_text c)"

lemma seal_ok: "seal C nonce data key kind c = Inr s \<longleftrightarrow> length key = 32 \<and> fits MAX_RECORD_SIZE c
    \<and> s = [(''nonce'', JStr (b64 nonce)), (''ciphertext'', JStr (b64 (box_of C key nonce data kind c)))]"
  by (auto simp: seal_def rbind_ok ok_simps seal_aad_ok box_of_def)

text \<open>
  The context that the reader rebuilds may order its members differently: only its
  canonical text and its limits matter.
\<close>

definition same_context :: "json \<Rightarrow> json \<Rightarrow> bool" where
  "same_context c d \<longleftrightarrow> canonical_text c = canonical_text d \<and> (fits MAX_RECORD_SIZE c \<longleftrightarrow> fits MAX_RECORD_SIZE d)"

lemma same_context_sort [simp]: "same_context c (sort_members c)" "same_context c c"
  by (simp_all add: same_context_def)

lemma open_seal:
  assumes C: "crypto_ok C" and s: "seal C nonce data key kind c = Inr s" and n: "length nonce = 12"
    and d: "len data \<le> maximum" and box: "exact_keys [''nonce'', ''ciphertext''] b"
      "fld b ''nonce'' = fld (JObj s) ''nonce''" "fld b ''ciphertext'' = fld (JObj s) ''ciphertext''"
    and c: "same_context c c'"
  shows "open_sealed C b key kind c' maximum = Inr data"
proof -
  from s have k: "length key = 32" and f: "fits MAX_RECORD_SIZE c'"
    and fl: "fld b ''nonce'' = JStr (b64 nonce)" "fld b ''ciphertext'' = JStr (b64 (box_of C key nonce data kind c))"
    using c box by (auto simp: seal_ok fld_def same_context_def)
  have l: "len (box_of C key nonce data kind c) = len data + 16"
    using C by (simp add: crypto_ok_def box_of_def len_length)
  have u: "unb64 (fld b ''nonce'') (Some 12) MAX_RECORD_SIZE = Inr nonce"
    unfolding fl using n by (intro unb64_b64) (auto simp: len_length)
  have v: "unb64 (fld b ''ciphertext'') None (maximum + 16) = Inr (box_of C key nonce data kind c)"
    unfolding fl using l d by (intro unb64_b64) auto
  have w: "\<not> len (box_of C key nonce data kind c) < 16" using l by (simp add: len_length)
  have a: "seal_aad kind c' = Inr (KK3_DOMAIN @ ''aead/'' @ kind @ [CHR 0x00] @ canonical_text c')"
    using f by (simp add: seal_aad_ok)
  have r: "aead_decrypt C key nonce (box_of C key nonce data kind c)
      (KK3_DOMAIN @ ''aead/'' @ kind @ [CHR 0x00] @ canonical_text c') = Some data"
    using C c unfolding box_of_def same_context_def crypto_ok_def by simp
  show ?thesis unfolding open_sealed_def u v rbind_Inr a
    using box(1) w k r by (simp add: check_fields_def key32_def len_length)
qed

lemma hybrid_key_sym:
  assumes C: "crypto_ok C" and k: "length a = 32" "length b = 32" and c: "same_context c c'"
    and h: "hybrid_key C a (x_public C b) salt kind c e = Inr k"
  shows "hybrid_key C b (x_public C a) salt kind c' e = Inr k"
proof -
  have p: "length (x_public C a) = 32" "length (x_public C b) = 32"
    and x: "x_exchange C a (x_public C b) = x_exchange C b (x_public C a)"
    using C k by (simp_all add: crypto_ok_def)
  show ?thesis
    using h c unfolding hybrid_key_def same_context_def
    by (auto simp: k p x key32_def len_length rbind_ok canonical_bytes_eq split: option.splits if_splits)
qed

lemma open_hybrid_seal:
  assumes C: "crypto_ok C" and s: "hybrid_seal C e salt nonce data (x_public C k) kind c = Inr s"
    and n: "length nonce = 12" "length salt = 32" and k: "length k = 32" and d: "len data \<le> maximum"
    and box: "exact_keys [''ephemeral_public_key'', ''salt'', ''nonce'', ''ciphertext''] b"
      "\<And>f. fld b f = fld (JObj s) f" and c: "same_context c c'"
  shows "hybrid_open C b k kind c' maximum = Inr data"
proof -
  from s obtain key t where e: "length e = 32"
    and hk: "hybrid_key C e (x_public C k) salt kind c (x_public C e) = Inr key"
    and t: "seal C nonce data key kind c = Inr t"
    and sd: "s = (''ephemeral_public_key'', JStr (b64 (x_public C e))) # (''salt'', JStr (b64 salt)) # t"
    by (auto simp: hybrid_seal_def agreement_public_key_def rbind_ok ok_simps)
  have pe: "length (x_public C e) = 32" using C e by (simp add: crypto_ok_def)
  have fl: "fld b ''ephemeral_public_key'' = JStr (b64 (x_public C e))" "fld b ''salt'' = JStr (b64 salt)"
    unfolding box(2) sd by (simp_all add: fld_def)
  have u: "unb64 (fld b ''ephemeral_public_key'') (Some 32) MAX_RECORD_SIZE = Inr (x_public C e)"
    "unb64 (fld b ''salt'') (Some 32) MAX_RECORD_SIZE = Inr salt"
    unfolding fl using pe n by (auto intro!: unb64_b64 simp: len_length)
  note hk' = hybrid_key_sym [OF C e k c hk]
  have o': "open_sealed C (JObj [(''nonce'', fld b ''nonce''), (''ciphertext'', fld b ''ciphertext'')]) key kind c' maximum = Inr data"
  proof (rule open_seal [OF C t n(1) d _ _ _ c])
    show "fld (JObj [(''nonce'', fld b ''nonce''), (''ciphertext'', fld b ''ciphertext'')]) ''nonce'' = fld (JObj t) ''nonce''"
      "fld (JObj [(''nonce'', fld b ''nonce''), (''ciphertext'', fld b ''ciphertext'')]) ''ciphertext'' = fld (JObj t) ''ciphertext''"
      unfolding box(2) sd by (simp_all add: fld_def)
  qed (auto simp: exact_keys_def)
  show ?thesis unfolding hybrid_open_def u rbind_Inr hk' o' using box(1) by (simp add: check_fields_def)
qed

section \<open>Snapshots\<close>

text \<open>
  A box of at most \<open>maximum\<close> bytes of plaintext: a nonce of 12 bytes and a ciphertext with its tag of 16
  bytes; a box for a recipient also has an ephemeral key and a salt of 32 bytes each.
\<close>

definition sealed_ok :: "bool \<Rightarrow> int \<Rightarrow> json \<Rightarrow> bool" where
  "sealed_ok hybrid maximum v \<longleftrightarrow>
     exact_keys ([''nonce'', ''ciphertext''] @ (if hybrid then [''ephemeral_public_key'', ''salt''] else [])) v
     \<and> (\<exists>n. fld v ''nonce'' = JStr (b64 n) \<and> length n = 12)
     \<and> (\<exists>c. fld v ''ciphertext'' = JStr (b64 c) \<and> 16 \<le> len c \<and> len c \<le> maximum + 16)
     \<and> (hybrid \<longrightarrow> (\<forall>k \<in> {''ephemeral_public_key'', ''salt''}. \<exists>x. fld v k = JStr (b64 x) \<and> length x = 32))"

lemma unb64_fixed:
  assumes "0 < n" and "n \<le> 32"
  shows "(\<exists>r. unb64 v (Some n) MAX_RECORD_SIZE = Inr r) \<longleftrightarrow> (\<exists>r. v = JStr (b64 r) \<and> int (length r) = n)"
proof -
  have "pylen (b64 r) \<le> (MAX_RECORD_SIZE * 4 + 2) div 3" if "int (length r) = n" for r
    using assms that by (simp add: pylen_b64)
  then show ?thesis using assms by (auto simp: unb64_ok len_length)
qed

lemma unb64_bounded: "unb64 v None n = Inr r \<longleftrightarrow> v = JStr (b64 r) \<and> len r \<le> n"
  by (auto simp: unb64_ok pylen_b64 len_length)

lemma validate_sealed_ok: "validate_sealed h n v = Inr u \<longleftrightarrow> sealed_ok h n v"
proof -
  have f: "int k = 12 \<longleftrightarrow> k = 12" "int k = 32 \<longleftrightarrow> k = 32" for k :: nat by linarith+
  have "validate_sealed h n v = Inr u \<longleftrightarrow>
     exact_keys ([''nonce'', ''ciphertext''] @ (if h then [''ephemeral_public_key'', ''salt''] else [])) v
     \<and> (\<exists>r. unb64 (fld v ''nonce'') (Some 12) MAX_RECORD_SIZE = Inr r)
     \<and> (\<exists>c. unb64 (fld v ''ciphertext'') None (n + 16) = Inr c \<and> \<not> len c < 16)
     \<and> (h \<longrightarrow> (\<exists>r. unb64 (fld v ''ephemeral_public_key'') (Some 32) MAX_RECORD_SIZE = Inr r)
          \<and> (\<exists>r. unb64 (fld v ''salt'') (Some 32) MAX_RECORD_SIZE = Inr r))"
    unfolding validate_sealed_def by (cases h) (auto simp: rbind_ok check_fields_ok ensure_ok)
  then show ?thesis
    unfolding sealed_ok_def by (simp add: unb64_fixed unb64_bounded f not_less conj_commute conj_left_commute)
qed

text \<open>
  A signed record: an object within the limit, with the four members of every record, whose payload the
  holder of \<open>pk\<close> signed under this profile and kind.
\<close>

definition signed_record :: "crypto \<Rightarrow> int \<Rightarrow> json \<Rightarrow> string \<Rightarrow> string \<Rightarrow> json \<Rightarrow> bool" where
  "signed_record C maximum r kind pk p \<longleftrightarrow> length pk = 32
     \<and> (\<exists>obj sg. parse_record maximum r = Inr obj \<and> exact_keys [''profile'', ''kind'', ''payload'', ''signature''] obj
          \<and> fld obj ''profile'' = JStr PROFILE \<and> fld obj ''kind'' = JStr kind \<and> fld obj ''payload'' = p \<and> is_obj p
          \<and> fld obj ''signature'' = JStr (b64 sg) \<and> length sg = 64 \<and> fits MAX_RECORD_SIZE (record_body kind p)
          \<and> ed_verify C pk sg (signature_input kind (canonical_text (record_body kind p))))"

lemma verify_record_iff: "verify_record C maximum r kind pk = Inr p \<longleftrightarrow> signed_record C maximum r kind pk p"
proof -
  have l: "int k = 64 \<longleftrightarrow> k = 64" "int k = 32 \<longleftrightarrow> k = 32" for k :: nat by linarith+
  have c: "canonical_bytes MAX_RECORD_SIZE v = Inr b \<longleftrightarrow> fits MAX_RECORD_SIZE v \<and> b = canonical_text v" for v b
    by (auto simp: canonical_bytes_eq)
  have u: "unb64 v (Some 64) MAX_RECORD_SIZE = Inr sg \<longleftrightarrow> v = JStr (b64 sg) \<and> length sg = 64" for v sg
    by (auto simp: unb64_ok pylen_b64 len_length)
  show ?thesis
    unfolding signed_record_def verify_record_def
    by (auto simp: rbind_ok ensure_ok check_fields_ok key32_ok c u l record_body_def len_length split: if_splits)
qed

definition signed_policy :: "crypto \<Rightarrow> json \<Rightarrow> string \<Rightarrow> json \<Rightarrow> bool" where
  "signed_policy C r pin p \<longleftrightarrow> signed_record C MAX_POLICY_SIZE r ''policy'' pin p \<and> wf_policy p
     \<and> fld p ''master_public_key'' = JStr (b64 pin)"

lemma verify_any_policy_iff: "verify_any_policy C r pin = Inr p \<longleftrightarrow> signed_policy C r pin p"
  unfolding verify_any_policy_ok verify_record_iff signed_policy_def by (auto simp: signed_record_def)

text \<open>The place of a snapshot in the chain that policy \<open>p\<close> allows after sequence \<open>m\<close>.\<close>

definition chained :: "json \<Rightarrow> json \<Rightarrow> int \<Rightarrow> json \<Rightarrow> bool" where
  "chained p body m parent \<longleftrightarrow>
     is_uint 1 (fld body ''sequence'') \<and> (fld body ''parent_hash'' = JNull \<or> is_hash (fld body ''parent_hash''))
     \<and> (fld body ''sequence'' = JInt 1 \<longleftrightarrow> fld body ''parent_hash'' = JNull)
     \<and> m < int_of (fld body ''sequence'') \<and> int_of (fld p ''checkpoint_sequence'') < int_of (fld body ''sequence'')
     \<and> int_of (fld body ''sequence'') \<le> int_of (fld p ''checkpoint_sequence'') + MAX_EPOCH_PUBLICATIONS
     \<and> (parent \<noteq> JNull \<longrightarrow> fld body ''parent_hash'' = parent)
     \<and> (int_of (fld body ''sequence'') = int_of (fld p ''checkpoint_sequence'') + 1
          \<longrightarrow> fld body ''parent_hash'' = fld p ''checkpoint_hash'')"

lemma verify_snapshot_ok:
  "verify_snapshot C r policy pin ms parent = Inr body \<longleftrightarrow> (\<exists>p. verify_any_policy C policy pin = Inr p
     \<and> verify_record C MAX_RECORD_SIZE r ''snapshot'' pin = Inr body
     \<and> exact_keys (CONTEXT_FIELDS @ [''sequence'', ''parent_hash'', ''sealed'']) body
     \<and> in_context C body policy p \<and> is_uint 0 ms \<and> (parent = JNull \<or> is_hash parent)
     \<and> chained p body (int_of ms) parent \<and> sealed_ok False MAX_PLAINTEXT_SIZE (fld body ''sealed''))"
proof (cases "verify_any_policy C policy pin")
  case (Inr p)
  then have wf: "wf_policy p" by (simp add: verify_policy_ok)
  show ?thesis
  proof (cases "verify_record C MAX_RECORD_SIZE r ''snapshot'' pin")
    case (Inr body')
    show ?thesis
      unfolding verify_snapshot_def chained_def \<open>verify_any_policy C policy pin = Inr p\<close> Inr rbind_Inr
      by (simp only: rbind_ok check_fields_ok check_is(2,4) ensure_ok validate_sealed_ok check_context_ok [OF wf]
          not_le not_less max_less_iff_conj diff_le_eq add.commute [of MAX_EPOCH_PUBLICATIONS] sum.inject simp_thms
          ex_simps de_Morgan_conj not_not imp_conv_disj conj_assoc)
        (rule iffI; (elim conjE; hypsubst; intro conjI; (assumption | rule refl)))
  qed (simp add: verify_snapshot_def Inr)
qed (simp add: verify_snapshot_def)

section \<open>Reading back what was built\<close>

lemma parse_record_built:
  assumes "0 \<le> n" and "wf_json (JObj m)" and "parse_record n (JObj m) = Inr v"
  shows "v = sort_members (JObj m)"
proof -
  from assms(1,3) have f: "fits n (JObj m)" and v: "normal v" "fits n v" "canonical_text v = canonical_text (JObj m)"
    by (auto simp: parse_record_def rbind_ok canonical_bytes_eq parse_bytes_iff split: if_splits)
  have "sort_members v = sort_members (JObj m)"
    using canonical_text_inject [of v "JObj m"] v assms(2) fits_no_float [OF v(2)] fits_no_float [OF f]
    by (simp add: normal_def)
  with v(1) show ?thesis by (simp add: normal_def)
qed

lemma fits_fld_obj: "wf_json v \<Longrightarrow> fld (sort_members v) k = sort_members (fld v k)"
  by (rule fld_sort_members)

lemma verify_signed:
  assumes n: "0 \<le> n" and s: "sign_record C kind p k = Inr r" and wf: "wf_json p"
    and v: "verify_record C n r kind pk = Inr body"
  shows "body = sort_members p"
proof -
  from verify_record_ok [OF v] obtain obj where obj: "parse_record n r = Inr obj" "body = fld obj ''payload''" by blast
  from s have r: "r = JObj [(''profile'', JStr PROFILE), (''kind'', JStr kind), (''payload'', p),
      (''signature'', JStr (b64 (ed_sign C k (signature_input kind (canonical_text (record_body kind p))))))]"
    by (simp add: sign_record_ok signed_def record_body_def)
  have w: "wf_json r" using wf by (simp add: r)
  have "obj = sort_members r" using parse_record_built [OF n _ obj(1) [unfolded r]] w r by simp
  with obj(2) have "body = sort_members (fld r ''payload'')" using fld_sort_members [OF w] by simp
  then show ?thesis by (simp add: r fld_def)
qed

lemma without_append: "k \<notin> fst ` set m \<Longrightarrow> without k (JObj (m @ [(k, v)])) = JObj m"
  unfolding without_def by (auto intro!: filter_True)

lemma without_sorted:
  assumes "k \<notin> fst ` set m"
  shows "same_context (JObj m) (without k (sort_members (JObj (m @ [(k, v)]))))"
proof -
  let ?P = "\<lambda>kv :: string \<times> json. fst kv \<noteq> k"
  have f: "filter ?P (sort_pairs m) = sort_pairs m" using assms by (force simp: sort_pairs_map intro!: filter_True)
  have "without k (sort_members (JObj (m @ [(k, v)]))) = JObj (sort_key fst (filter ?P (sort_pairs (m @ [(k, v)]))))"
    by (simp add: without_def filter_sort)
  also have "\<dots> = sort_members (JObj m)" by (simp add: sort_pairs_map f [unfolded sort_pairs_map])
  finally show ?thesis by (metis same_context_sort(1))
qed

lemma same_context_trans: "same_context a b \<Longrightarrow> same_context b c \<Longrightarrow> same_context a c"
  by (simp add: same_context_def)

lemma wf_scalar:
  "is_id v \<Longrightarrow> wf_json v" "is_hash v \<Longrightarrow> wf_json v" "is_key v \<Longrightarrow> wf_json v" "is_uint m v \<Longrightarrow> wf_json v"
  by (auto simp: is_id_def is_hash_def is_key_def is_uint_def)

lemma sort_scalar:
  "is_id v \<Longrightarrow> sort_members v = v" "is_hash v \<Longrightarrow> sort_members v = v" "is_key v \<Longrightarrow> sort_members v = v"
  "is_uint m v \<Longrightarrow> sort_members v = v"
  by (auto simp: is_id_def is_hash_def is_key_def is_uint_def)

lemma wf_context_of:
  assumes "wf_policy p"
  shows "wf_members (context_of p h)" and "fst ` set (context_of p h) = set CONTEXT_FIELDS"
    and "distinct (map fst (context_of p h))"
  using wf_policyD(2,3,5,6) [OF assms] by (auto simp: context_of_def intro: wf_scalar)

lemma wf_context_more:
  assumes "wf_policy p" and "distinct (map fst xs)" and "wf_members xs" and "fst ` set xs \<inter> set CONTEXT_FIELDS = {}"
  shows "wf_json (JObj (context_of p h @ xs))"
proof -
  have "fst ` set xs \<inter> fst ` set (context_of p h) = {}" using wf_context_of(2) [OF assms(1), of h] assms(4) by simp
  moreover have "wf_members (context_of p h @ xs)"
    using wf_context_of(1) [OF assms(1), of h] assms(3) unfolding wf_members_all by auto
  ultimately show ?thesis
    using wf_context_of(3) [OF assms(1), of h] assms(2) by (simp only: wf_json.simps map_append distinct_append set_map) auto
qed

text \<open>A signed record of members \<open>m\<close> and a sealed box, as its reader gets it.\<close>

lemma sealed_record_body:
  assumes n: "0 \<le> n" and s: "sign_record C kind (JObj (m @ [(''sealed'', JObj s)])) k = Inr r"
    and wf: "wf_json (JObj (m @ [(''sealed'', JObj s)]))" and v: "verify_record C n r kind pk = Inr body"
  shows "fld body ''sealed'' = sort_members (JObj s)" and "same_context (JObj m) (without ''sealed'' body)"
    and "f \<noteq> ''sealed'' \<Longrightarrow> fld body f = sort_members (fld (JObj m) f)"
    and "exact_keys ks body \<longleftrightarrow> exact_keys ks (JObj (m @ [(''sealed'', JObj s)]))"
proof -
  note bd = verify_signed [OF n s wf v]
  have new: "''sealed'' \<notin> fst ` set m" using wf by auto
  then have mo: "map_of m ''sealed'' = None" by (simp add: map_of_eq_None_iff)
  show "fld body ''sealed'' = sort_members (JObj s)"
    unfolding bd fld_sort_members [OF wf] by (simp add: fld_def map_add_def mo)
  show "same_context (JObj m) (without ''sealed'' body)" unfolding bd by (rule without_sorted [OF new])
  show "fld body f = sort_members (fld (JObj m) f)" if "f \<noteq> ''sealed''"
    unfolding bd fld_sort_members [OF wf] using that by (cases "map_of m f") (simp_all add: fld_def map_add_def)
  show "exact_keys ks body \<longleftrightarrow> exact_keys ks (JObj (m @ [(''sealed'', JObj s)]))" unfolding bd by (rule exact_keys_sort)
qed

section \<open>Round trip of snapshots\<close>

lemma build_snapshot_D:
  assumes "build_snapshot C nonce payload policy pin mk key seq parent = Inr r"
  obtains p h plain s where "verify_any_policy C policy pin = Inr p" and "policy_hash_of C policy = Some h"
    and "is_uint 1 seq" and "parent = JNull \<or> is_hash parent"
    and "parse_record MAX_PLAINTEXT_SIZE payload = Inr plain"
    and "seal C nonce (canonical_text plain) key ''snapshot''
           (JObj (context_of p h @ [(''sequence'', seq), (''parent_hash'', parent)])) = Inr s"
    and "sign_record C ''snapshot''
           (JObj (context_of p h @ [(''sequence'', seq), (''parent_hash'', parent)] @ [(''sealed'', JObj s)])) mk = Inr r"
    and "is_ok (verify_snapshot C r policy pin (JInt 0) JNull)"
proof -
  from assms obtain p h plain data s where x: "verify_any_policy C policy pin = Inr p" "policy_hash_of C policy = Some h"
    "is_uint 1 seq" "parent = JNull \<or> is_hash parent" "parse_record MAX_PLAINTEXT_SIZE payload = Inr plain"
    "canonical_bytes MAX_PLAINTEXT_SIZE plain = Inr data"
    "seal C nonce data key ''snapshot'' (JObj (context_of p h @ [(''sequence'', seq), (''parent_hash'', parent)])) = Inr s"
    "sign_record C ''snapshot'' (JObj ((context_of p h @ [(''sequence'', seq), (''parent_hash'', parent)]) @ [(''sealed'', JObj s)])) mk = Inr r"
    "is_ok (verify_snapshot C r policy pin (JInt 0) JNull)"
    unfolding build_snapshot_def rbind_ok check_is policy_context_ok Let_def is_ok_iff by blast
  moreover have "data = canonical_text plain" using x(6) by (simp add: canonical_bytes_eq split: if_splits)
  ultimately show ?thesis using that by simp
qed

theorem open_build_snapshot:
  assumes C: "crypto_ok C" and n: "length nonce = 12"
    and b: "build_snapshot C nonce payload policy pin mk key seq parent = Inr r"
    and pl: "parse_record MAX_PLAINTEXT_SIZE payload = Inr plain"
  shows "open_snapshot C r policy pin key (JInt 0) JNull = Inr plain"
proof -
  from b obtain p h s where p: "verify_any_policy C policy pin = Inr p"
    and sq: "is_uint 1 seq" "parent = JNull \<or> is_hash parent"
    and s: "seal C nonce (canonical_text plain) key ''snapshot''
           (JObj (context_of p h @ [(''sequence'', seq), (''parent_hash'', parent)])) = Inr s"
    and r: "sign_record C ''snapshot''
           (JObj (context_of p h @ [(''sequence'', seq), (''parent_hash'', parent)] @ [(''sealed'', JObj s)])) mk = Inr r"
    and v: "is_ok (verify_snapshot C r policy pin (JInt 0) JNull)"
    by (rule build_snapshot_D) (use pl in simp)
  define m where "m = context_of p h @ [(''sequence'', seq), (''parent_hash'', parent)]"
  have wf: "wf_policy p" using p by (simp add: verify_policy_ok)
  have sd: "s = [(''nonce'', JStr (b64 nonce)),
      (''ciphertext'', JStr (b64 (box_of C key nonce (canonical_text plain) ''snapshot'' (JObj m))))]"
    using s by (simp add: seal_ok m_def)
  have wm: "wf_json (JObj (m @ [(''sealed'', JObj s)]))"
    unfolding m_def append_assoc using sq by (intro wf_context_more [OF wf]) (auto simp: sd wf_scalar)
  have r': "sign_record C ''snapshot'' (JObj (m @ [(''sealed'', JObj s)])) mk = Inr r" using r by (simp add: m_def)
  from v obtain body where body: "verify_snapshot C r policy pin (JInt 0) JNull = Inr body" by (auto simp: is_ok_iff)
  then have vr: "verify_record C MAX_RECORD_SIZE r ''snapshot'' pin = Inr body" by (auto simp: verify_snapshot_ok)
  note sb = sealed_record_body [OF _ r' wm vr]
  have ws: "wf_json (JObj s)" by (simp add: sd)
  have "normal plain" "fits MAX_PLAINTEXT_SIZE plain" using parse_record_Inr [OF _ pl] by simp_all
  then have d: "len (canonical_text plain) \<le> MAX_PLAINTEXT_SIZE"
    and pb: "parse_bytes MAX_PLAINTEXT_SIZE (canonical_text plain) = Inr plain"
    by (simp_all add: fits_def parse_bytes_iff [THEN iffD2])
  have "open_sealed C (fld body ''sealed'') key ''snapshot'' (without ''sealed'' body) MAX_PLAINTEXT_SIZE
      = Inr (canonical_text plain)"
  proof (rule open_seal [OF C s n d])
    show "exact_keys [''nonce'', ''ciphertext''] (fld body ''sealed'')" unfolding sb(1) [OF zero_le_numeral] exact_keys_sort by (simp add: sd exact_keys_def)
    show "fld (fld body ''sealed'') ''nonce'' = fld (JObj s) ''nonce''"
      "fld (fld body ''sealed'') ''ciphertext'' = fld (JObj s) ''ciphertext''"
      unfolding sb(1) [OF zero_le_numeral] fld_sort_members [OF ws] by (simp_all add: sd fld_def)
    show "same_context (JObj (context_of p h @ [(''sequence'', seq), (''parent_hash'', parent)])) (without ''sealed'' body)"
      using sb(2) by (simp add: m_def)
  qed
  then show ?thesis using body pb by (simp add: open_snapshot_def)
qed

end
