(* ===== verification/Record_Sizes.thy ===== *)
theory Record_Sizes
  imports Records_Proofs
begin

text \<open>
  Sizes of the records the program builds: a bound on the canonical text that does not
  depend on the order of members, and from it that every signed record of scalar members
  and a sealed box fits the limit its reader imposes.
\<close>

section \<open>A bound on canonical text\<close>

fun width :: "json \<Rightarrow> int" and width_items :: "json list \<Rightarrow> int"
  and width_members :: "(string \<times> json) list \<Rightarrow> int" where
  "width JNull = 4" | "width (JBool b) = 5" | "width (JInt i) = len (show_int i)" | "width (JFloat f) = len f"
| "width (JStr s) = len (quote s)" | "width (JList l) = 2 + width_items l" | "width (JObj m) = 2 + width_members m"
| "width_items [] = 0" | "width_items (x # xs) = 1 + width x + width_items xs"
| "width_members [] = 0" | "width_members ((k, v) # m) = 2 + len (quote k) + width v + width_members m"

lemma len_nonneg: "0 \<le> len xs"
  by (simp add: len_length)

lemma width_nonneg: "0 \<le> width v" "0 \<le> width_items l" "0 \<le> width_members m"
  by (induction v and l and m rule: width_width_items_width_members.induct) (auto simp: len_nonneg)

lemma len_compact: "len (compact v) \<le> width v" "len (compact_items l) \<le> width_items l"
  "len (compact_members m) \<le> width_members m"
  by (induction v and l and m rule: width_width_items_width_members.induct) (auto simp: width_nonneg)

lemma width_members_perm: "mset m = mset m' \<Longrightarrow> width_members m = width_members m'"
proof -
  have "width_members m = (\<Sum>kv\<in>#mset m. 2 + len (quote (fst kv)) + width (snd kv))" for m by (induction m) auto
  then show "mset m = mset m' \<Longrightarrow> width_members m = width_members m'" by simp
qed

lemma width_sort: "width (sort_members v) = width v" "width_items (sort_items l) = width_items l"
  "width_members (sort_pairs m) = width_members m"
proof (induction v and l and m rule: width_width_items_width_members.induct)
  case (7 m)
  then show ?case using width_members_perm [of "sort_key fst (sort_pairs m)" "sort_pairs m"] by simp
qed auto

lemma len_canonical: "len (canonical_text v) \<le> width v"
  using len_compact(1) [of "sort_members v"] by (simp add: canonical_text_def width_sort)

lemma len_escape: "len s \<le> len (concat (map escape_char s))"
  by (induction s) (auto simp: escape_char_def)

lemma chars_width: "chars v \<le> width v" "chars_items l \<le> width_items l" "chars_members m \<le> width_members m"
proof -
  have q: "pylen s \<le> len (quote s)" for s
    using pylen_le [of s] len_escape [of s] by (simp add: quote_def)
  show "chars v \<le> width v" "chars_items l \<le> width_items l" "chars_members m \<le> width_members m"
  proof (induction v and l and m rule: width_width_items_width_members.induct)
    case (11 k v m)
    then show ?case using q [of k] by simp
  qed (auto simp: len_nonneg intro: q)
qed

lemma fitsI: "shape v 0 \<Longrightarrow> nodes v \<le> MAX_NODES \<Longrightarrow> width v \<le> n \<Longrightarrow> fits n v"
  using len_canonical [of v] chars_width(1) [of v] by (simp add: fits_def)

lemma members_append [simp]:
  "width_members (a @ b) = width_members a + width_members b"
  "nodes_members (a @ b) = nodes_members a + nodes_members b"
  "shape_members (a @ b) d \<longleftrightarrow> shape_members a d \<and> shape_members b d"
  "text_members (a @ b) \<longleftrightarrow> text_members a \<and> text_members b"
  "wf_members (a @ b) \<longleftrightarrow> wf_members a \<and> wf_members b"
  by (induction a) auto

section \<open>Scalars\<close>

text \<open>Characters that the writer does not escape.\<close>

definition plain :: "string \<Rightarrow> bool" where
  "plain s \<longleftrightarrow> (\<forall>c \<in> set s. 32 \<le> byte c \<and> byte c < 128 \<and> byte c \<noteq> 34 \<and> byte c \<noteq> 92)"

lemma escape_plain: "32 \<le> byte c \<Longrightarrow> byte c \<noteq> 34 \<Longrightarrow> byte c \<noteq> 92 \<Longrightarrow> escape_char c = [c]"
  by (auto simp: escape_char_def byte_def)

lemma len_quote_plain: "plain s \<Longrightarrow> len (quote s) = len s + 2"
proof -
  assume "plain s"
  then have "concat (map escape_char s) = s"
    by (induction s) (auto simp: plain_def escape_plain)
  then show ?thesis by (simp add: quote_def)
qed

lemma plain_text: "plain s \<Longrightarrow> valid_utf8 s"
  by (rule valid_utf8_ascii) (auto simp: plain_def)

text \<open>A scalar that is written in at most \<open>w\<close> bytes.\<close>

definition leaf :: "int \<Rightarrow> json \<Rightarrow> bool" where
  "leaf w v \<longleftrightarrow> text_json v \<and> wf_json v \<and> nodes v = 1 \<and> (\<forall>d \<le> MAX_DEPTH. shape v d) \<and> width v \<le> w
     \<and> sort_members v = v"

lemma leaf_mono: "leaf w v \<Longrightarrow> w \<le> w' \<Longrightarrow> leaf w' v"
  by (auto simp: leaf_def)

lemma leaf_str: "plain s \<Longrightarrow> len s + 2 \<le> w \<Longrightarrow> leaf w (JStr s)"
  by (simp add: leaf_def len_quote_plain plain_text)

lemma leaf_null [simp]: "4 \<le> w \<Longrightarrow> leaf w JNull"
  by (simp add: leaf_def)

lemma plain_hex: "(\<forall>c \<in> set s. is_hex c) \<Longrightarrow> plain s"
  by (force simp: plain_def is_hex_def is_digit_def)

abbreviation plain_char :: "char \<Rightarrow> bool" where
  "plain_char c \<equiv> 32 \<le> byte c \<and> byte c < 128 \<and> byte c \<noteq> 34 \<and> byte c \<noteq> 92"

lemma plain_char_shape:
  assumes "if p = CHR ''h'' then is_hex c
       else if p = CHR ''v'' then c = CHR ''8'' \<or> c = CHR ''9'' \<or> c = CHR ''a'' \<or> c = CHR ''b''
       else c = p" and "plain_char p"
  shows "plain_char c"
proof -
  show ?thesis
  proof (cases "is_hex c \<or> c = p")
    case True
    with assms(2) show ?thesis by (auto simp: is_hex_def is_digit_def)
  next
    case False
    with assms(1) have "c \<in> {CHR ''8'', CHR ''9'', CHR ''a'', CHR ''b''}" by (metis insert_iff)
    then show ?thesis by (auto simp: byte_def)
  qed
qed

lemma shape_ok_plain: "shape_ok p s \<Longrightarrow> plain p \<Longrightarrow> plain s"
proof (induction p s rule: shape_ok.induct)
  case (2 p ps c cs)
  have p: "plain_char p" "plain ps" using "2.prems"(2) by (simp_all add: plain_def)
  note a = "2.prems"(1) [unfolded shape_ok.simps]
  have c: "plain_char c" by (rule plain_char_shape [OF conjunct1 [OF a] p(1)])
  have "plain cs" by (rule "2.IH" [OF conjunct2 [OF a] p(2)])
  with c show ?case by (simp add: plain_def)
qed simp_all

lemma plain_b64: "plain (b64 s)"
proof -
  have "plain_char (sextet_char n)" if "n < 64" for n
    using sextet_cases [OF that] by (auto simp: sextet_char_def byte_def)
  moreover have "n < 64" if "n \<in> set (to_sextets (map byte s))" for n
    using to_sextets_range [of "map byte s"] that by (auto simp: byte_less)
  ultimately show ?thesis by (auto simp: plain_def b64_def)
qed

lemma show_nat_length: "n < 10 ^ Suc k \<Longrightarrow> length (show_nat n) \<le> Suc k"
proof (induction k arbitrary: n)
  case (Suc k)
  then have "n div 10 < 10 ^ Suc k" by (simp add: less_mult_imp_div_less mult.commute)
  from Suc.IH [OF this] show ?case by (simp add: show_nat.simps [of n])
qed (simp add: show_nat.simps)

lemma leaf_id: "is_id v \<Longrightarrow> leaf 66 v"
proof -
  assume "is_id v"
  then obtain s where s: "v = JStr s" "is_uuid4 s" by (auto simp: is_id_def)
  have "plain s" using s(2) unfolding is_uuid4_def by (rule shape_ok_plain) (simp add: plain_def byte_def)
  then show ?thesis using s is_uuid4_length [OF s(2)] by (simp add: leaf_str len_length)
qed

lemma leaf_hash: "is_hash v \<Longrightarrow> leaf 66 v"
  by (auto simp: is_hash_def is_sha256_def list_all_iff intro!: leaf_str plain_hex)

lemma leaf_b64: "(4 * int (length s) + 2) div 3 + 2 \<le> w \<Longrightarrow> leaf w (JStr (b64 s))"
  by (rule leaf_str) (simp_all add: plain_b64 len_length length_b64 zdiv_int)

lemma leaf_key: "is_key v \<Longrightarrow> leaf 66 v"
  by (auto simp: is_key_def intro!: leaf_b64)

lemma leaf_uint: "is_uint m v \<Longrightarrow> 0 \<le> m \<Longrightarrow> leaf 66 v"
proof -
  assume u: "is_uint m v" "0 \<le> m"
  then obtain i where i: "v = JInt i" "0 \<le> i" "i < two63" by (auto simp: is_uint_def)
  then have "nat i < 10 ^ Suc 18" by simp
  from show_nat_length [OF this] i show ?thesis by (simp add: leaf_def show_int_def len_length)
qed

lemmas leaf_scalar = leaf_id leaf_hash leaf_key leaf_uint

section \<open>Records of scalars\<close>

text \<open>Members with short plain names and scalar values.\<close>

definition leaves :: "int \<Rightarrow> (string \<times> json) list \<Rightarrow> bool" where
  "leaves w m \<longleftrightarrow> (\<forall>(k, v) \<in> set m. plain k \<and> len k \<le> 30 \<and> leaf w v)"

lemma leaves_simps [simp]:
  "leaves w []" "leaves w ((k, v) # m) \<longleftrightarrow> plain k \<and> len k \<le> 30 \<and> leaf w v \<and> leaves w m"
  "leaves w (m @ m') \<longleftrightarrow> leaves w m \<and> leaves w m'"
  by (auto simp: leaves_def)

lemma leaves_bounds:
  assumes "leaves w m"
  shows "width_members m \<le> len m * (w + 34)" and "nodes_members m = 2 * len m" and "text_members m"
    and "wf_members m" and "d \<le> MAX_DEPTH \<Longrightarrow> shape_members m d"
  using assms by (induction m) (auto simp: leaf_def len_quote_plain plain_text algebra_simps)

lemma fits_mono_record: "fits n v \<Longrightarrow> n \<le> MAX_RECORD_SIZE \<Longrightarrow> fits MAX_RECORD_SIZE v"
  by (rule fits_mono)

text \<open>A signed record of at most 24 scalars and a sealed box of at most four members.\<close>

lemma signed_fits:
  assumes C: "crypto_ok C" and m: "leaves 66 m" "len m \<le> 24" and s: "leaves w s" "len s \<le> 4" "width_members s \<le> B"
    and kind: "plain kind" "len kind \<le> 30" and n: "B + 3000 \<le> n"
  shows "fits n (signed C kind (JObj (m @ [(''sealed'', JObj s)])) k)"
    and "fits n (record_body kind (JObj (m @ [(''sealed'', JObj s)])))"
    and "text_json (JObj (m @ [(''sealed'', JObj s)]))"
proof -
  have p: "plain ''profile''" "plain ''kind''" "plain ''payload''" "plain ''signature''" "plain ''sealed''" "plain PROFILE"
    by (simp_all add: plain_def byte_def)
  have sg: "len (quote (b64 (ed_sign C k x))) = 88" for x
  proof -
    have "length (ed_sign C k x) = 64" using C by (simp add: crypto_ok_def)
    with len_quote_plain [OF plain_b64, of "ed_sign C k x"] show ?thesis by (simp add: len_length length_b64)
  qed
  have q: "len (quote kind) \<le> 32" using kind by (simp add: len_quote_plain)
  have W: "width_members m \<le> 2400" using leaves_bounds(1) [OF m(1)] m(2) by simp
  have wp: "width (JObj (m @ [(''sealed'', JObj s)])) \<le> B + 2414"
    using W s(3) by (simp add: len_quote_plain p)
  have np: "nodes (JObj (m @ [(''sealed'', JObj s)])) \<le> 60"
    using leaves_bounds(2) [OF m(1)] leaves_bounds(2) [OF s(1)] m(2) s(2) by simp
  have sp: "shape (JObj (m @ [(''sealed'', JObj s)])) 1"
    using leaves_bounds(5) [OF m(1)] leaves_bounds(5) [OF s(1)] m(2) s(2) by simp
  define P where "P = JObj (m @ [(''sealed'', JObj s)])"
  note wp = wp [folded P_def] and np = np [folded P_def] and sp = sp [folded P_def]
  have w1: "width (signed C kind P k) \<le> n" "width (record_body kind P) \<le> n"
    using wp q n sg by (simp_all add: signed_def record_body_def len_quote_plain p)
  show "fits n (signed C kind (JObj (m @ [(''sealed'', JObj s)])) k)"
    unfolding P_def [symmetric] using np sp w1 by (intro fitsI) (simp_all add: signed_def record_body_def)
  show "fits n (record_body kind (JObj (m @ [(''sealed'', JObj s)])))"
    unfolding P_def [symmetric] using np sp w1 by (intro fitsI) (simp_all add: record_body_def)
  show "text_json (JObj (m @ [(''sealed'', JObj s)]))"
    using leaves_bounds(3) [OF m(1)] leaves_bounds(3) [OF s(1)] by (simp add: plain_text p)
qed

lemma leaves_fits:
  assumes "leaves w m" and "len m \<le> 24" and "24 * (w + 34) + 2 \<le> n" and "0 \<le> w"
  shows "fits n (JObj m)"
proof -
  have "width_members m \<le> len m * (w + 34)" by (rule leaves_bounds(1) [OF assms(1)])
  also have "\<dots> \<le> 24 * (w + 34)" using assms(2,4) by (intro mult_right_mono) simp_all
  finally show ?thesis
    using assms leaves_bounds(2,5) [OF assms(1)] by (intro fitsI) simp_all
qed

text \<open>Its reader, who knows the signer's public key, gets the payload back.\<close>

lemma verify_sealed_record:
  assumes C: "crypto_ok C" and m: "leaves 66 m" "len m \<le> 24" and s: "leaves w s" "len s \<le> 4" "width_members s \<le> B"
    and kind: "plain kind" "len kind \<le> 30" and n: "B + 3000 \<le> n" "n \<le> MAX_RECORD_SIZE"
    and d: "distinct (map fst (m @ [(''sealed'', JObj s)]))" "distinct (map fst s)"
    and r: "sign_record C kind (JObj (m @ [(''sealed'', JObj s)])) k = Inr r"
  shows "verify_record C n r kind (ed_public C k) = Inr (sort_members (JObj (m @ [(''sealed'', JObj s)])))"
    and "wf_json (JObj (m @ [(''sealed'', JObj s)]))"
proof -
  note f = signed_fits [OF C m s kind n(1)]
  show wf: "wf_json (JObj (m @ [(''sealed'', JObj s)]))"
    using leaves_bounds(4) [OF m(1)] leaves_bounds(4) [OF s(1)] d by simp
  have rd: "r = signed C kind (JObj (m @ [(''sealed'', JObj s)])) k" using r by (simp add: sign_record_ok)
  show "verify_record C n r kind (ed_public C k) = Inr (sort_members (JObj (m @ [(''sealed'', JObj s)])))"
    by (rule sign_verify [OF C r _ wf f(3) plain_text [OF kind(1)]]) (use n width_nonneg(3) [of s] s f(1) rd in simp_all)
qed

section \<open>Boxes\<close>

lemma hybrid_seal_leaves:
  assumes C: "crypto_ok C" and s: "hybrid_seal C e salt nonce data pk kind c = Inr s"
    and n: "length nonce = 12" "length salt = 32" and d: "len data \<le> maximum"
    and w: "(4 * (maximum + 16) + 2) div 3 + 2 \<le> w" "66 \<le> w"
  shows "leaves w s" and "width_members s \<le> w + 400" and "len s = 4" and "distinct (map fst s)"
    and "exact_keys [''ephemeral_public_key'', ''salt'', ''nonce'', ''ciphertext''] (JObj s)"
    and "sealed_ok True maximum (JObj s)" and "sort_members (fld (JObj s) f) = fld (JObj s) f"
proof -
  from s obtain key where e: "length e = 32" and
    sd: "s = [(''ephemeral_public_key'', JStr (b64 (x_public C e))), (''salt'', JStr (b64 salt)), (''nonce'', JStr (b64 nonce)),
        (''ciphertext'', JStr (b64 (box_of C key nonce data kind c)))]"
    by (auto simp: hybrid_seal_def agreement_public_key_def rbind_ok ok_simps seal_ok)
  have pe: "length (x_public C e) = 32" using C e by (simp add: crypto_ok_def)
  have l: "length (box_of C key nonce data kind c) = length data + 16" using C by (simp add: crypto_ok_def box_of_def)
  have dl: "int (length data) \<le> maximum" using d by (simp add: len_length)
  have "plain ''ephemeral_public_key''" "plain ''salt''" "plain ''nonce''" "plain ''ciphertext''"
    by (simp_all add: plain_def byte_def)
  then show "leaves w s" unfolding sd using w pe n l dl by (auto intro!: leaf_b64)
  have q: "len (quote (b64 x)) = (4 * int (length x) + 2) div 3 + 2" for x
    using len_quote_plain [OF plain_b64, of x] by (simp add: len_length length_b64 zdiv_int)
  show "width_members s \<le> w + 400"
    using w pe n l dl \<open>plain ''ephemeral_public_key''\<close> \<open>plain ''salt''\<close> \<open>plain ''nonce''\<close> \<open>plain ''ciphertext''\<close>
    by (simp add: sd len_quote_plain q)
  show "len s = 4" "distinct (map fst s)" "exact_keys [''ephemeral_public_key'', ''salt'', ''nonce'', ''ciphertext''] (JObj s)"
    by (auto simp: sd exact_keys_def)
  show "sort_members (fld (JObj s) f) = fld (JObj s) f" by (auto simp: sd fld_def split: option.split if_splits)
  have fl: "fld (JObj s) ''nonce'' = JStr (b64 nonce)" "fld (JObj s) ''salt'' = JStr (b64 salt)"
    "fld (JObj s) ''ephemeral_public_key'' = JStr (b64 (x_public C e))"
    "fld (JObj s) ''ciphertext'' = JStr (b64 (box_of C key nonce data kind c))"
    by (simp_all add: sd fld_def)
  have "exact_keys ([''nonce'', ''ciphertext''] @ [''ephemeral_public_key'', ''salt'']) (JObj s)"
    by (auto simp: sd exact_keys_def)
  then show "sealed_ok True maximum (JObj s)"
    unfolding sealed_ok_def using n pe l dl by (auto simp: fl len_length)
qed

end
