(* ===== verification/Record_Roundtrips.thy ===== *)
theory Record_Roundtrips
  imports Record_Sizes
begin

text \<open>
  End to end: a scope key wrapped for a device is what that device unwraps, a create of a
  contributor is what the master's inbox opens.
\<close>

section \<open>Building blocks\<close>

lemma context_leaves:
  assumes "wf_policy p" and "is_sha256 h"
  shows "leaves 66 (context_of p h)"
proof -
  have "leaf 66 (JStr h)" using leaf_hash [of "JStr h"] assms(2) by (simp add: is_hash_def)
  moreover have "plain ''scope_id''" "plain ''vault_id''" "plain ''epoch''" "plain ''policy_version''" "plain ''policy_hash''"
    by (simp_all add: plain_def byte_def)
  ultimately show ?thesis
    using wf_policyD(2,3,5,6) [OF assms(1)] leaf_id leaf_uint [of 1]
    by (simp add: context_of_def)
qed

lemma policy_hash_sha: "crypto_ok C \<Longrightarrow> policy_hash_of C r = Some h \<Longrightarrow> is_sha256 h"
  by (auto simp: policy_hash_of_def crypto_ok_def split: sum.splits)

lemma authorized_grant:
  assumes "authorize_grant p dev op gid gen = Inr g"
  shows "wf_policy p" and "wf_grant p g" and "is_id dev" and "fld g ''device_id'' = dev"
    and "op = ''create'' \<Longrightarrow> fld g ''role'' = JStr ''contributor''"
    and "g \<in> set (grants_of p)"
  using assms wf_policyD(16) [of p g] by (simp_all add: authorize_grant_ok)

lemma in_context_built:
  assumes "wf_policy p" and "policy_hash_of C r = Some h"
    and "\<And>f. f \<in> set CONTEXT_FIELDS \<Longrightarrow> fld body f = sort_members (fld (JObj (context_of p h @ xs)) f)"
  shows "in_context C body r p"
proof -
  note w = wf_policyD(2,3,5,6) [OF assms(1)]
  have l: "fld (JObj (context_of p h @ xs)) ''scope_id'' = fld p ''scope_id''"
    "fld (JObj (context_of p h @ xs)) ''vault_id'' = fld p ''vault_id''"
    "fld (JObj (context_of p h @ xs)) ''epoch'' = fld p ''epoch''"
    "fld (JObj (context_of p h @ xs)) ''policy_version'' = fld p ''version''"
    "fld (JObj (context_of p h @ xs)) ''policy_hash'' = JStr h"
    by (simp_all add: context_of_def fld_def)
  have f: "fld body ''scope_id'' = fld p ''scope_id''" "fld body ''vault_id'' = fld p ''vault_id''"
    "fld body ''epoch'' = fld p ''epoch''" "fld body ''policy_version'' = fld p ''version''"
    "fld body ''policy_hash'' = JStr h"
    using assms(3) [of "''scope_id''"] assms(3) [of "''vault_id''"] assms(3) [of "''epoch''"]
      assms(3) [of "''policy_version''"] assms(3) [of "''policy_hash''"] w by (simp_all add: l sort_scalar)
  have "py_eq (fld p ''epoch'') (fld p ''epoch'')" "py_eq (fld p ''version'') (fld p ''version'')"
    using is_uintD [OF w(3)] is_uintD [OF w(4)] by (metis py_eq_int_int)+
  with assms(2) show ?thesis by (simp add: in_context_def f)
qed

lemma wrap_context_ok: "wrap_context C dev g = Inr w \<longleftrightarrow> fits MAX_RECORD_SIZE g
    \<and> w = [(''device_id'', dev), (''grant_id'', fld g ''grant_id''), (''generation'', fld g ''generation''),
           (''recipient_public_key'', fld g ''agreement_public_key''),
           (''grant_hash'', JStr (sha256_hex C (canonical_text g)))]"
  by (auto simp: wrap_context_def rbind_ok canonical_hash_Inr)

lemma literal_names:
  "plain ''device_id''" "plain ''grant_id''" "plain ''generation''" "plain ''recipient_public_key''" "plain ''grant_hash''"
  "plain ''request_id''" "plain ''operation''" "plain ''inbox_public_key''" "plain ''create''" "plain ''scope-key-wrap''"
  "plain ''submission_hash''" "plain ''status''" "plain ''canonical_entry_id''" "plain ''revision''" "plain ''revocation''"
  by (simp_all add: plain_def byte_def)

lemma wrap_leaves:
  assumes C: "crypto_ok C" and a: "authorize_grant p dev op gid gen = Inr g" and w: "wrap_context C dev g = Inr w"
  shows "leaves 66 w" and "len w = 5" and "distinct (map fst w)"
    and "fst ` set w \<inter> set CONTEXT_FIELDS = {}" and "''sealed'' \<notin> fst ` set w"
proof -
  note g = wf_grantD [OF authorized_grant(2) [OF a]]
  have "is_hash (JStr (sha256_hex C (canonical_text g)))" using C by (simp add: crypto_ok_def is_hash_def)
  then show "leaves 66 w"
    using g(2,4,7) authorized_grant(3) [OF a] w leaf_uint [of 1]
    by (simp add: wrap_context_ok literal_names leaf_id leaf_key leaf_hash)
qed (use w in \<open>simp_all add: wrap_context_ok\<close>)

section \<open>A sealed record from its builder to its reader\<close>

lemma sealed_exchange:
  assumes C: "crypto_ok C" and n: "length nonce = 12" "length salt = 32" and wf: "wf_policy p"
    and h: "policy_hash_of C policy = Some h"
    and w: "leaves 66 w" "len w \<le> 12" "distinct (map fst w)" "fst ` set w \<inter> set CONTEXT_FIELDS = {}" "''sealed'' \<notin> fst ` set w"
    and s: "hybrid_seal C e salt nonce data (x_public C k) kind (JObj (context_of p h @ w)) = Inr s"
    and k: "length k = 32" and d: "len data \<le> maximum" and kind: "plain kind" "len kind \<le> 30"
    and W: "(4 * (maximum + 16) + 2) div 3 + 2 \<le> W" "66 \<le> W" "W + 3400 \<le> limit" "limit \<le> MAX_RECORD_SIZE"
    and r: "sign_record C kind (JObj (context_of p h @ w @ [(''sealed'', JObj s)])) mk = Inr r"
  obtains body where "verify_record C limit r kind (ed_public C mk) = Inr body" and "in_context C body policy p"
    and "\<And>f x. (f, x) \<in> set w \<Longrightarrow> fld body f = x" and "sealed_ok True maximum (fld body ''sealed'')"
    and "hybrid_open C (fld body ''sealed'') k kind (without ''sealed'' body) maximum = Inr data"
    and "\<And>ks. exact_keys ks body \<longleftrightarrow> set CONTEXT_FIELDS \<union> fst ` set w \<union> {''sealed''} = set ks"
proof -
  define m where "m = context_of p h @ w"
  have r': "sign_record C kind (JObj (m @ [(''sealed'', JObj s)])) mk = Inr r" using r by (simp add: m_def)
  have m: "leaves 66 m" "len m \<le> 24"
    using context_leaves [OF wf policy_hash_sha [OF C h]] w(1,2) by (simp_all add: m_def context_of_def)
  note sl = hybrid_seal_leaves [OF C s n d W(1,2)]
  note cx = wf_context_of [OF wf, of h]
  have dm: "distinct (map fst (m @ [(''sealed'', JObj s)]))" "distinct (map fst s)"
    using cx(2,3) w(3-5) sl(4) by (auto simp: m_def)
  have s4: "len s \<le> 4" using sl(3) by simp
  have W': "W + 400 + 3000 \<le> limit" using W(3) by simp
  note vr = verify_sealed_record [OF C m sl(1) s4 sl(2) kind W' W(4) dm r']
  have wj: "wf_json (JObj (m @ [(''sealed'', JObj s)]))" by (rule vr(2))
  define body where "body = sort_members (JObj (m @ [(''sealed'', JObj s)]))"
  note vr = vr(1) [folded body_def]
  have l0: "0 \<le> limit" using W(2,3) by simp
  note sb = sealed_record_body [OF l0 r' wj vr]
  have fb: "fld body f = sort_members (fld (JObj (context_of p h @ w)) f)" if "f \<noteq> ''sealed''" for f
    using sb(3) [OF that] by (simp add: m_def)
  have ctx: "in_context C body policy p" by (rule in_context_built [OF wf h]) (rule fb, auto)
  have fw: "fld body f = x" if "(f, x) \<in> set w" for f x
  proof -
    have f: "f \<noteq> ''sealed''" "f \<notin> fst ` set (context_of p h)"
      using imageI [OF that, of fst] w(4,5) unfolding cx(2) by (simp_all only: fst_conv) blast+
    moreover have "leaf 66 x" using that w(1) by (auto simp: leaves_def)
    moreover have "map_of w f = Some x" using that w(3) by simp
    moreover have "map_of (context_of p h) f = None" using f(2) by (simp add: map_of_eq_None_iff)
    ultimately show ?thesis using fb [of f] by (simp add: fld_def map_add_def leaf_def)
  qed
  have ws: "wf_json (JObj s)" using leaves_bounds(4) [OF sl(1)] sl(4) by simp
  have fs: "fld (fld body ''sealed'') f = fld (JObj s) f" for f
    unfolding sb(1) fld_sort_members [OF ws] by (rule sl(7))
  have xs: "exact_keys ks (fld body ''sealed'') = exact_keys ks (JObj s)" for ks unfolding sb(1) by (rule exact_keys_sort)
  have sok: "sealed_ok True maximum (fld body ''sealed'')"
    using sl(6) unfolding sealed_ok_def xs fs .
  have op: "hybrid_open C (fld body ''sealed'') k kind (without ''sealed'' body) maximum = Inr data"
    by (rule open_hybrid_seal [OF C s n k d _ fs]) (use sl(5) sb(2) in \<open>simp_all add: xs m_def\<close>)
  have ek: "exact_keys ks body \<longleftrightarrow> set CONTEXT_FIELDS \<union> fst ` set w \<union> {''sealed''} = set ks" for ks
    unfolding sb(4) unfolding m_def exact_keys_def using cx(2) by (simp add: image_Un Un_assoc Un_left_commute Un_commute)
  show ?thesis by (rule that [OF vr ctx fw sok op ek])
qed

section \<open>Scope keys\<close>

theorem unwrap_wrap_scope_key:
  assumes C: "crypto_ok C" and n: "length nonce = 12" "length salt = 32"
    and b: "wrap_scope_key C eph salt nonce scope_key policy pin mk dev = Inr r"
    and v: "verify_any_policy C policy pin = Inr p" and a: "authorize_grant p dev ''read'' JNull JNull = Inr g"
    and k: "length dk = 32" "fld g ''agreement_public_key'' = JStr (b64 (x_public C dk))"
  shows "unwrap_scope_key C r policy pin dev dk = Inr scope_key"
proof -
  have wf: "wf_policy p" using v by (simp add: verify_policy_ok)
  have pk: "length (x_public C dk) = 32" using C k by (simp add: crypto_ok_def)
  have dec: "decode_key (fld g ''agreement_public_key'') = Inr (x_public C dk)" using k pk by (simp add: decode_key_ok)
  from b v a dec obtain h w s where h: "policy_hash_of C policy = Some h" and w: "wrap_context C dev g = Inr w"
    and mk: "length mk = 32" "ed_public C mk = pin" and sk: "length scope_key = 32"
    and s: "hybrid_seal C eph salt nonce scope_key (x_public C dk) ''scope-key-wrap'' (JObj (context_of p h @ w)) = Inr s"
    and r: "sign_record C ''scope-key-wrap'' (JObj (context_of p h @ w @ [(''sealed'', JObj s)])) mk = Inr r"
    by (auto simp: wrap_scope_key_def rbind_ok policy_context_ok require_master_ok key32_ok)
  note wl = wrap_leaves [OF C a w]
  have l: "len scope_key \<le> 32" "len w \<le> 12" using sk wl(2) by (simp_all add: len_length)
  obtain body where vr: "verify_record C MAX_CONTROL_SIZE r ''scope-key-wrap'' pin = Inr body"
    and ctx: "in_context C body policy p" and fw: "\<And>f x. (f, x) \<in> set w \<Longrightarrow> fld body f = x"
    and sok: "sealed_ok True 32 (fld body ''sealed'')"
    and op: "hybrid_open C (fld body ''sealed'') dk ''scope-key-wrap'' (without ''sealed'' body) 32 = Inr scope_key"
    and ek: "\<And>ks. exact_keys ks body \<longleftrightarrow> set CONTEXT_FIELDS \<union> fst ` set w \<union> {''sealed''} = set ks"
    by (rule sealed_exchange [OF C n wf h wl(1) l(2) wl(3-5) s k(1) l(1) _ _ _ _ _ _ r, of 66 MAX_CONTROL_SIZE])
      (simp_all add: literal_names mk(2))
  have fd: "fld body ''device_id'' = dev" "fld body ''recipient_public_key'' = fld g ''agreement_public_key''"
    using w by (auto intro!: fw simp: wrap_context_ok)
  have did: "is_id dev" using authorized_grant(3) [OF a] .
  then have tr: "or_else JNull (or_else dev (fld body ''device_id'')) = dev" "dev \<noteq> JNull"
    using is_uuid4_nonempty by (auto simp: or_else_def truthy_def is_id_def)
  have ek': "exact_keys (CONTEXT_FIELDS @ [''device_id'', ''grant_id'', ''generation'', ''recipient_public_key'',
      ''grant_hash'', ''sealed'']) body"
    unfolding ek using w by (simp add: wrap_context_ok insert_commute)
  have bound: "\<not> (\<exists>(f, x) \<in> set w. \<not> py_eq (fld body f) x)"
    using wl(1) by (auto simp: leaves_def leaf_def fw intro!: py_eq_refl(1))
  have cc: "check_context C body policy p = Inr ()" "validate_sealed True 32 (fld body ''sealed'') = Inr ()"
    using ctx sok by (simp_all add: check_context_ok [OF wf] validate_sealed_ok)
  have vb: "verify_scope_key_wrap C r policy pin dev JNull = Inr body"
    unfolding verify_scope_key_wrap_def v vr rbind_Inr tr Let_def a w cc
    using tr(2) ek' bound by (simp add: check_fields_def)
  show ?thesis
    unfolding unwrap_scope_key_def vb rbind_Inr fd op agreement_public_key_def
    using k pk sk dec by (simp add: key32_def len_length)
qed

section \<open>Creates\<close>

definition create_context :: "json \<Rightarrow> json \<Rightarrow> json \<Rightarrow> json \<Rightarrow> (string \<times> json) list" where
  "create_context p dev g rid = [(''device_id'', dev), (''grant_id'', fld g ''grant_id''),
     (''generation'', fld g ''generation''), (''request_id'', rid), (''operation'', JStr ''create''),
     (''inbox_public_key'', fld p ''inbox_public_key'')]"

lemma create_leaves:
  assumes a: "authorize_grant p dev op gid gen = Inr g" and rid: "is_id rid"
  shows "leaves 66 (create_context p dev g rid)" and "distinct (map fst (create_context p dev g rid))"
    and "fst ` set (create_context p dev g rid) \<inter> set CONTEXT_FIELDS = {}"
    and "''sealed'' \<notin> fst ` set (create_context p dev g rid)" and "len (create_context p dev g rid) \<le> 12"
proof -
  note g = wf_grantD [OF authorized_grant(2) [OF a]]
  have "leaf 66 (JStr ''create'')" by (rule leaf_str) (simp_all add: literal_names)
  then show "leaves 66 (create_context p dev g rid)"
    using g(2,4) rid authorized_grant(3) [OF a] wf_policyD(12) [OF authorized_grant(1) [OF a]] leaf_uint [of 1]
    by (simp add: create_context_def literal_names leaf_id leaf_key leaf_hash)
qed (simp_all add: create_context_def)

lemma verify_record_parsed:
  "0 \<le> n \<Longrightarrow> parse_record n r = Inr obj \<Longrightarrow> verify_record C n obj kind pk = verify_record C n r kind pk"
  by (simp add: verify_record_def parse_record_idem)

theorem open_build_create:
  assumes C: "crypto_ok C" and n: "length nonce = 12" "length salt = 32"
    and b: "build_create C eph salt nonce payload policy pin dev dk rid = Inr r"
    and v: "verify_any_policy C policy pin = Inr p"
    and k: "length ik = 32" "fld p ''inbox_public_key'' = JStr (b64 (x_public C ik))"
  shows "open_create C r policy pin ik JNull = validate_create_payload payload"
proof -
  have wf: "wf_policy p" using v by (simp add: verify_policy_ok)
  have pk: "length (x_public C ik) = 32" using C k by (simp add: crypto_ok_def)
  have dec: "decode_key (fld p ''inbox_public_key'') = Inr (x_public C ik)" using k pk by (simp add: decode_key_ok)
  from b v dec obtain h g s plain data where h: "policy_hash_of C policy = Some h"
    and a: "authorize_grant p dev ''create'' JNull JNull = Inr g" and rid: "is_id rid"
    and sk: "length dk = 32" "decode_key (fld g ''signing_public_key'') = Inr (ed_public C dk)"
    and pl: "validate_create_payload payload = Inr plain" and data: "canonical_bytes MAX_CREATE_SIZE plain = Inr data"
    and s: "hybrid_seal C eph salt nonce data (x_public C ik) ''create'' (JObj (context_of p h @ create_context p dev g rid)) = Inr s"
    and r: "sign_record C ''create'' (JObj (context_of p h @ create_context p dev g rid @ [(''sealed'', JObj s)])) dk = Inr r"
    by (auto simp: build_create_def rbind_ok policy_context_ok check_is(1) ensure_ok signing_public_key_def key32_ok
        Let_def create_context_def)
  from data have fp: "fits MAX_CREATE_SIZE plain" "data = canonical_text plain"
    by (auto simp: canonical_bytes_eq split: if_splits)
  then have l: "len data \<le> MAX_CREATE_SIZE" by (simp add: fits_def)
  have np: "parse_record MAX_CREATE_SIZE payload = Inr plain"
    using pl by (auto simp: validate_create_payload_def rbind_ok)
  have nplain: "normal plain" using parse_record_Inr(1) [OF _ np] by simp
  note wl = create_leaves [OF a rid]
  obtain body where vr: "verify_record C (2 * MAX_CREATE_SIZE) r ''create'' (ed_public C dk) = Inr body"
    and ctx: "in_context C body policy p"
    and fw: "\<And>f x. (f, x) \<in> set (create_context p dev g rid) \<Longrightarrow> fld body f = x"
    and sok: "sealed_ok True MAX_CREATE_SIZE (fld body ''sealed'')"
    and op: "hybrid_open C (fld body ''sealed'') ik ''create'' (without ''sealed'' body) MAX_CREATE_SIZE = Inr data"
    and ek: "\<And>ks. exact_keys ks body \<longleftrightarrow> set CONTEXT_FIELDS \<union> fst ` set (create_context p dev g rid) \<union> {''sealed''} = set ks"
    by (rule sealed_exchange [OF C n wf h wl(1,5,2-4) s k(1) l _ _ _ _ _ _ r, of 1398130 "2 * MAX_CREATE_SIZE"])
      (simp_all add: literal_names)
  have cd: "create_context p dev g rid = [(''device_id'', dev), (''grant_id'', fld g ''grant_id''),
     (''generation'', fld g ''generation''), (''request_id'', rid), (''operation'', JStr ''create''),
     (''inbox_public_key'', fld p ''inbox_public_key'')]" by (simp add: create_context_def)
  have fd: "fld body ''device_id'' = dev" "fld body ''grant_id'' = fld g ''grant_id''"
    "fld body ''generation'' = fld g ''generation''" "fld body ''request_id'' = rid"
    "fld body ''operation'' = JStr ''create''" "fld body ''inbox_public_key'' = fld p ''inbox_public_key''"
    by (rule fw; simp add: cd)+
  have g: "is_id (fld g ''grant_id'')" "is_uint 1 (fld g ''generation'')"
    using wf_grantD(2,4) [OF authorized_grant(2) [OF a]] .
  have a': "authorize_grant p dev ''create'' (fld g ''grant_id'') (fld g ''generation'') = Inr g"
    using a g by (simp add: authorize_grant_ok)
  from verify_record_ok [OF vr] obtain obj where obj: "parse_record (2 * MAX_CREATE_SIZE) r = Inr obj"
    "fld obj ''payload'' = body" "is_obj body" by auto
  have vo: "verify_record C (2 * MAX_CREATE_SIZE) obj ''create'' (ed_public C dk) = Inr body"
    using verify_record_parsed [OF _ obj(1)] vr by simp
  have ekb: "check_fields CREATE_FIELDS body = Inr ()"
    by (simp add: check_fields_ok ek cd insert_commute)
  have cc: "check_context C body policy p = Inr ()" "validate_sealed True MAX_CREATE_SIZE (fld body ''sealed'') = Inr ()"
    "check_id rid = Inr ()" "check_id (fld g ''grant_id'') = Inr ()" "check_uint 1 (fld g ''generation'') = Inr ()"
    using ctx sok rid g by (simp_all add: check_context_ok [OF wf] validate_sealed_ok check_is(1,2))
  have vb: "verify_create C r policy pin JNull = Inr body"
    unfolding verify_create_def v obj rbind_Inr Let_def ekb fd cc a' sk(2) vo check_still_active_def
    using obj(3) by simp
  have pb: "parse_bytes MAX_CREATE_SIZE data = Inr plain" using fp nplain by (simp add: parse_bytes_iff)
  have "validate_create_payload plain = Inr plain"
    using pl parse_record_normal [OF _ nplain fp(1)] np by (simp add: validate_create_payload_def rbind_ok)
  then show ?thesis
    unfolding open_create_def vb rbind_Inr fd dec op pb pl agreement_public_key_def using k by (simp add: key32_def len_length)
qed

end
