(* ===== verification/Record_Soundness.thy ===== *)
theory Record_Soundness
  imports Record_Roundtrips
begin

text \<open>
  What a record that verifies has established: who signed it, under which policy, and
  which grant it relies on.
\<close>

section \<open>The body that is checked is the body that was signed\<close>

lemma verify_record_signed:
  assumes "verify_record C n r kind pk = Inr p"
  shows "signed_by C kind pk p"
  using verify_record_ok [OF assms] by (auto simp: signed_by_def)

lemma verify_record_payload_of:
  assumes "0 \<le> n" and "parse_record n r = Inr obj" and "verify_record C n obj kind pk = Inr p"
  shows "p = fld obj ''payload''"
  using verify_record_ok [OF assms(3)] parse_record_idem [OF assms(1) order_refl assms(2)] by auto

section \<open>Creates\<close>

text \<open>The create \<open>body\<close> relies on grant \<open>g\<close> of policy \<open>p\<close>.\<close>

definition created_under :: "crypto \<Rightarrow> json \<Rightarrow> json \<Rightarrow> json \<Rightarrow> json \<Rightarrow> bool" where
  "created_under C policy p g body \<longleftrightarrow>
     authorize_grant p (fld body ''device_id'') ''create'' (fld body ''grant_id'') (fld body ''generation'') = Inr g
     \<and> (\<exists>pub. fld g ''signing_public_key'' = JStr (b64 pub) \<and> signed_by C ''create'' pub body)
     \<and> in_context C body policy p \<and> is_id (fld body ''request_id'')
     \<and> is_id (fld body ''grant_id'') \<and> is_uint 1 (fld body ''generation'')
     \<and> fld body ''inbox_public_key'' = fld p ''inbox_public_key''"

lemma check_still_active_D:
  assumes "check_still_active C cur pin p g body = Inr u" and "cur \<noteq> JNull" and "wf_policy p" and "wf_grant p g"
  shows "\<exists>c g'. verify_any_policy C cur pin = Inr c
    \<and> authorize_grant c (fld body ''device_id'') ''create'' (fld body ''grant_id'') (fld body ''generation'') = Inr g'
    \<and> same_grant g' g \<and> fld c ''scope_id'' = fld p ''scope_id'' \<and> fld c ''vault_id'' = fld p ''vault_id''
    \<and> int_of (fld p ''version'') \<le> int_of (fld c ''version'')"
proof -
  from assms(1,2) obtain c g' where c: "verify_policy C cur pin (fld p ''scope_id'') (fld p ''vault_id'') (fld p ''version'')
      (fld p ''epoch'') = Inr c"
    and a: "authorize_grant c (fld body ''device_id'') ''create'' (fld body ''grant_id'') (fld body ''generation'') = Inr g'"
    and e: "py_eq g' g"
    by (auto simp: check_still_active_def rbind_ok ensure_ok)
  have "verify_any_policy C cur pin = Inr c" using c unfolding verify_any_policy_ok by (simp add: verify_policy_ok)
  moreover have "same_grant g' g" by (rule grant_py_eq [OF authorized_grant(2) [OF a] assms(4) e])
  ultimately show ?thesis
    using a c wf_policy_strings [OF assms(3)] by (auto simp: verify_policy_ok)
qed

theorem verify_create_D:
  assumes "verify_create C r policy pin cur = Inr body"
  shows "\<exists>p g. verify_any_policy C policy pin = Inr p \<and> created_under C policy p g body
    \<and> (cur \<noteq> JNull \<longrightarrow> (\<exists>c g'. verify_any_policy C cur pin = Inr c
         \<and> authorize_grant c (fld body ''device_id'') ''create'' (fld body ''grant_id'') (fld body ''generation'') = Inr g'
         \<and> same_grant g' g \<and> fld c ''scope_id'' = fld p ''scope_id'' \<and> fld c ''vault_id'' = fld p ''vault_id''
         \<and> int_of (fld p ''version'') \<le> int_of (fld c ''version'')))"
proof -
  from assms obtain p obj g pub where p: "verify_any_policy C policy pin = Inr p"
    and obj: "parse_record (2 * MAX_CREATE_SIZE) r = Inr obj"
    and a: "authorize_grant p (fld (fld obj ''payload'') ''device_id'') ''create'' (fld (fld obj ''payload'') ''grant_id'')
              (fld (fld obj ''payload'') ''generation'') = Inr g"
    and gid: "is_id (fld (fld obj ''payload'') ''grant_id'')" "is_uint 1 (fld (fld obj ''payload'') ''generation'')"
    and pub: "decode_key (fld g ''signing_public_key'') = Inr pub"
    and v: "verify_record C (2 * MAX_CREATE_SIZE) obj ''create'' pub = Inr body"
    and cc: "check_context C body policy p = Inr ()" and rid: "is_id (fld body ''request_id'')"
    and ib: "fld body ''inbox_public_key'' = fld p ''inbox_public_key''"
    and act: "check_still_active C cur pin p g body = Inr ()"
    by (auto simp: verify_create_def rbind_ok Let_def check_is(1,2) ensure_ok)
  have b: "body = fld obj ''payload''" by (rule verify_record_payload_of [OF _ obj v]) simp
  have wf: "wf_policy p" by (rule authorized_grant(1) [OF a])
  have "in_context C body policy p" using cc by (simp add: check_context_ok [OF wf])
  then have "created_under C policy p g body"
    using a pub v rid gid ib verify_record_signed [OF v] by (auto simp: created_under_def b decode_key_ok)
  then show ?thesis
    using p check_still_active_D [OF act _ wf authorized_grant(2) [OF a]] by blast
qed

text \<open>A create that verifies comes from a contributor of its policy.\<close>

lemma created_by_contributor:
  "created_under C policy p g body \<Longrightarrow> fld g ''role'' = JStr ''contributor'' \<and> g \<in> set (grants_of p)
     \<and> fld g ''device_id'' = fld body ''device_id''"
  unfolding created_under_def
  by (elim conjE) (simp only: authorized_grant(4-6) simp_thms)

section \<open>Wraps, receipts, revocations\<close>

theorem verify_scope_key_wrap_D:
  assumes "verify_scope_key_wrap C r policy pin dev expected = Inr body"
  shows "\<exists>p g. verify_any_policy C policy pin = Inr p \<and> signed_by C ''scope-key-wrap'' pin body
    \<and> authorize_grant p (fld body ''device_id'') ''read'' JNull JNull = Inr g
    \<and> fld body ''recipient_public_key'' = fld g ''agreement_public_key''
    \<and> fld body ''grant_id'' = fld g ''grant_id'' \<and> in_context C body policy p
    \<and> sealed_ok True 32 (fld body ''sealed'')"
proof -
  define d where "d = or_else expected (or_else dev (fld body ''device_id''))"
  from assms obtain p g w where p: "verify_any_policy C policy pin = Inr p"
    and v: "verify_record C MAX_CONTROL_SIZE r ''scope-key-wrap'' pin = Inr body"
    and a: "authorize_grant p d ''read'' JNull JNull = Inr g" and cc: "check_context C body policy p = Inr ()"
    and w: "wrap_context C d g = Inr w" and e: "\<not> (\<exists>(k, v) \<in> set w. \<not> py_eq (fld body k) v)"
    and s: "sealed_ok True 32 (fld body ''sealed'')"
    by (auto simp: verify_scope_key_wrap_def rbind_ok Let_def ensure_ok validate_sealed_ok d_def)
  note g = wf_grantD [OF authorized_grant(2) [OF a]]
  have wd: "w = [(''device_id'', d), (''grant_id'', fld g ''grant_id''), (''generation'', fld g ''generation''),
     (''recipient_public_key'', fld g ''agreement_public_key''), (''grant_hash'', JStr (sha256_hex C (canonical_text g)))]"
    using w by (simp add: wrap_context_ok)
  have "fld body ''device_id'' = d" "fld body ''grant_id'' = fld g ''grant_id''"
    "fld body ''recipient_public_key'' = fld g ''agreement_public_key''"
    using e g(2,7) authorized_grant(3) [OF a] by (auto simp: wd is_id_def is_key_def)
  then show ?thesis
    using p a cc s verify_record_signed [OF v] check_context_ok [OF authorized_grant(1) [OF a]] by auto
qed

text \<open>The outcome a receipt states.\<close>

definition successful :: "json \<Rightarrow> bool" where
  "successful body \<longleftrightarrow> (fld body ''status'' = JStr ''accepted'' \<or> fld body ''status'' = JStr ''published'')
     \<and> is_id (fld body ''canonical_entry_id'') \<and> is_uint 1 (fld body ''revision'')"

definition unsuccessful :: "json \<Rightarrow> bool" where
  "unsuccessful body \<longleftrightarrow> fld body ''status'' \<in> JStr ` {''conflict'', ''rejected'', ''quarantined''}
     \<and> fld body ''canonical_entry_id'' = JNull \<and> fld body ''revision'' = JInt 0"

lemma check_outcome_D: "check_outcome body = Inr u \<Longrightarrow> successful body \<or> unsuccessful body"
proof (cases "fld body ''status'' = JStr ''accepted'' \<or> fld body ''status'' = JStr ''published''")
  case True
  assume "check_outcome body = Inr u"
  with True show ?thesis by (simp add: check_outcome_def successful_def rbind_ok check_is(1,2) ensure_ok)
next
  case False
  assume "check_outcome body = Inr u"
  with False show ?thesis by (auto simp add: check_outcome_def unsuccessful_def rbind_ok ensure_ok)
qed

theorem verify_receipt_D:
  assumes "verify_receipt C r submission policy pin = Inr body"
  shows "\<exists>source h. verify_create C submission policy pin JNull = Inr source \<and> signed_by C ''receipt'' pin body
    \<and> fld body ''request_id'' = fld source ''request_id'' \<and> fld body ''device_id'' = fld source ''device_id''
    \<and> fld body ''grant_id'' = fld source ''grant_id''
    \<and> submission_hash C submission = Inr h \<and> fld body ''submission_hash'' = JStr h
    \<and> (successful body \<or> unsuccessful body)"
proof -
  from assms obtain source h where c: "verify_create C submission policy pin JNull = Inr source"
    and v: "verify_record C MAX_CONTROL_SIZE r ''receipt'' pin = Inr body"
    and e: "receipt_bound body source" and h: "submission_hash C submission = Inr h" "fld body ''submission_hash'' = JStr h"
    and outcome: "check_outcome body = Inr ()"
    by (auto simp: verify_receipt_def rbind_ok ensure_ok)
  from verify_create_D [OF c] obtain p g where cu: "created_under C policy p g source" by blast
  have ids: "is_id (fld source ''request_id'')" "is_id (fld source ''grant_id'')" "is_id (fld source ''device_id'')"
    using cu by (simp_all add: created_under_def authorize_grant_ok)
  have eq: "fld body k = fld source k" if "k \<in> set RECEIPT_SOURCE" "is_id (fld source k)" for k
  proof -
    from e that(1) have "py_eq (fld body k) (fld source k)" unfolding receipt_bound_def by blast
    with that(2) show ?thesis by (auto simp: is_id_def)
  qed
  have "successful body \<or> unsuccessful body" using outcome by (rule check_outcome_D)
  then show ?thesis using c h verify_record_signed [OF v] eq [OF _ ids(1)] eq [OF _ ids(2)] eq [OF _ ids(3)] by simp
qed

theorem verify_revocation_D:
  assumes "verify_revocation C r policy pin = Inr body"
  shows "\<exists>p g. verify_any_policy C policy pin = Inr p \<and> signed_by C ''revocation'' pin body
    \<and> in_context C body policy p \<and> is_id (fld body ''grant_id'')
    \<and> authorize_grant p (fld body ''device_id'') ''read'' (fld body ''grant_id'') (fld body ''generation'') = Inr g"
proof -
  from assms obtain p g where p: "verify_any_policy C policy pin = Inr p"
    and v: "verify_record C MAX_CONTROL_SIZE r ''revocation'' pin = Inr body"
    and cc: "check_context C body policy p = Inr ()" and i: "is_id (fld body ''grant_id'')"
    and a: "authorize_grant p (fld body ''device_id'') ''read'' (fld body ''grant_id'') (fld body ''generation'') = Inr g"
    by (auto simp: verify_revocation_def rbind_ok check_is(1))
  then show ?thesis using verify_record_signed [OF v] check_context_ok [OF authorized_grant(1) [OF a]] by blast
qed

section \<open>One policy\<close>

text \<open>A record is bound to one policy record: two policies it verifies under have the same hash.\<close>

lemma one_policy:
  "in_context C body r p \<Longrightarrow> in_context C body r' p' \<Longrightarrow> policy_hash_of C r = policy_hash_of C r'"
  by (auto simp: in_context_def)

end
