(* ===== verification/Transactions.thy ===== *)
theory Transactions
  imports Prelude
begin

text \<open>
  Requests against a transactional store. An operation returns the new state and its
  result, or raises: then the transaction is rolled back and the state is the old one.
\<close>

section \<open>Running requests\<close>

definition commit :: "('s \<Rightarrow> 'e + 's \<times> 'r) \<Rightarrow> 's \<Rightarrow> 's" where
  "commit f s = (case f s of Inl _ \<Rightarrow> s | Inr (s', _) \<Rightarrow> s')"

primrec run :: "('q \<Rightarrow> 's \<Rightarrow> 'e + 's \<times> 'r) \<Rightarrow> 'q list \<Rightarrow> 's \<Rightarrow> 's" where
  "run f [] s = s"
| "run f (q # qs) s = run f qs (commit (f q) s)"

lemma commit_simps [simp]: "f s = Inl e \<Longrightarrow> commit f s = s" "f s = Inr (s', r) \<Longrightarrow> commit f s = s'"
  by (simp_all add: commit_def)

lemma run_append: "run f (qs @ rs) s = run f rs (run f qs s)"
  by (induction qs arbitrary: s) auto

text \<open>
  The contract of a store: every operation that returns keeps the invariant and only
  moves the state forward in an order. It then holds for any sequence of requests,
  those that raise included.
\<close>

locale transactional =
  fixes f :: "'q \<Rightarrow> 's \<Rightarrow> 'e + 's \<times> 'r" and inv :: "'s \<Rightarrow> bool" and le :: "'s \<Rightarrow> 's \<Rightarrow> bool"
  assumes step: "inv s \<Longrightarrow> f q s = Inr (s', r) \<Longrightarrow> inv s' \<and> le s s'"
    and refl: "le s s"
    and trans: "le s t \<Longrightarrow> le t u \<Longrightarrow> le s u"
begin

lemma commit_step: "inv s \<Longrightarrow> inv (commit (f q) s) \<and> le s (commit (f q) s)"
  using step refl by (auto simp: commit_def split: sum.split)

lemma run_inv: "inv s \<Longrightarrow> inv (run f qs s)"
  by (induction qs arbitrary: s) (auto simp: commit_step)

lemma run_le: "inv s \<Longrightarrow> le s (run f qs s)"
proof (induction qs arbitrary: s)
  case (Cons q qs)
  with commit_step [OF Cons.prems, of q] show ?case by (auto intro: trans)
qed (simp add: refl)

lemma run_later: "inv s \<Longrightarrow> le (run f qs s) (run f (qs @ rs) s)"
  by (simp add: run_append run_le run_inv)

end

end
