(* ===== verification/Relay_Storage.thy ===== *)
theory Relay_Storage
  imports Transactions
begin

text \<open>
  The byte accounting of the relay (\<open>relay_storage.py\<close>): the usage table that SQLite
  triggers keep per scope and in total, and the budget check that reads it.
\<close>

section \<open>Usage\<close>

text \<open>\<open>relay_usage\<close> of one namespace: bytes and records by scope, \<open>''\<close> the total.\<close>

type_synonym usage_table = "string \<Rightarrow> (int \<times> int) option"

text \<open>\<open>_size\<close>: 256 bytes for the row and the bytes of every column, nothing for NULL.\<close>

definition column_bytes :: "string option \<Rightarrow> int" where
  "column_bytes c = (case c of None \<Rightarrow> 0 | Some s \<Rightarrow> len s)"

definition row_size :: "string option list \<Rightarrow> int" where
  "row_size columns = 256 + sum_list (map column_bytes columns)"

text \<open>The rows of the accounted tables: their scope and size.\<close>

type_synonym meter = "(string \<times> int) list"

definition usage_add :: "string \<Rightarrow> int \<Rightarrow> usage_table \<Rightarrow> usage_table" where
  "usage_add scope n u =
     (let u1 = u(scope := Some (case u scope of None \<Rightarrow> (n, 1) | Some (b, r) \<Rightarrow> (b + n, r + 1)))
      in case u1 [] of None \<Rightarrow> u1 | Some (b, r) \<Rightarrow> u1([] := Some (b + n, r + 1)))"

definition usage_sub :: "string \<Rightarrow> int \<Rightarrow> usage_table \<Rightarrow> usage_table" where
  "usage_sub scope n u = (\<lambda>s. if s = [] \<or> s = scope then map_option (\<lambda>(b, r). (b - n, r - 1)) (u s) else u s)"

text \<open>The three triggers of a table.\<close>

datatype row_change =
    Insert string int
  | Delete string int
  | Update string int string int

primrec trigger :: "row_change \<Rightarrow> usage_table \<Rightarrow> usage_table" where
  "trigger (Insert sc n) u = usage_add sc n u"
| "trigger (Delete sc n) u = usage_sub sc n u"
| "trigger (Update sc n sc' n') u = usage_add sc' n' (usage_sub sc n u)"

text \<open>What the change does to the rows themselves.\<close>

primrec apply_change :: "row_change \<Rightarrow> meter \<Rightarrow> meter" where
  "apply_change (Insert sc n) m = (sc, n) # m"
| "apply_change (Delete sc n) m = remove1 (sc, n) m"
| "apply_change (Update sc n sc' n') m = (sc', n') # remove1 (sc, n) m"

text \<open>A change is possible when the row it removes is there.\<close>

primrec applicable :: "row_change \<Rightarrow> meter \<Rightarrow> bool" where
  "applicable (Insert sc n) m \<longleftrightarrow> sc \<noteq> []"
| "applicable (Delete sc n) m \<longleftrightarrow> (sc, n) \<in> set m"
| "applicable (Update sc n sc' n') m \<longleftrightarrow> (sc, n) \<in> set m \<and> sc' \<noteq> []"

text \<open>Counting the rows of a table again: the reference the triggers must agree with.\<close>

definition scope_rows :: "string option \<Rightarrow> meter \<Rightarrow> meter" where
  "scope_rows sc m = (case sc of None \<Rightarrow> m | Some s \<Rightarrow> filter (\<lambda>r. fst r = s) m)"

definition recount :: "string option \<Rightarrow> meter \<Rightarrow> int \<times> int" where
  "recount sc m = (sum_list (map snd (scope_rows sc m)), len (scope_rows sc m))"

text \<open>The constructor counts an existing database once.\<close>

definition initial_usage :: "meter \<Rightarrow> usage_table" where
  "initial_usage m = (\<lambda>s. if s = [] then Some (recount None m)
     else if \<exists>r \<in> set m. fst r = s then Some (recount (Some s) m) else None)"

text \<open>\<open>usage\<close>: a scope without a row uses nothing; a missing total is a \<open>RuntimeError\<close>.\<close>

definition usage :: "string option \<Rightarrow> usage_table \<Rightarrow> (int \<times> int) option" where
  "usage sc u = (case sc of None \<Rightarrow> u [] | Some s \<Rightarrow> (case u s of None \<Rightarrow> Some (0, 0) | Some x \<Rightarrow> Some x))"

record limits =
  scope_bytes :: int
  relay_bytes :: int
  scope_records :: int
  relay_records :: int
  control_scope_bytes :: int
  control_relay_bytes :: int
  control_scope_records :: int
  control_relay_records :: int

definition default_limits :: limits where
  "default_limits = \<lparr>scope_bytes = 536870912, relay_bytes = 2147483648, scope_records = 20000, relay_records = 100000,
     control_scope_bytes = 33554432, control_relay_bytes = 134217728, control_scope_records = 2000,
     control_relay_records = 10000\<rparr>"

definition over :: "int \<times> int \<Rightarrow> int \<Rightarrow> int \<Rightarrow> int \<Rightarrow> int \<Rightarrow> bool \<Rightarrow> bool" where
  "over used byte_limit record_limit extra_bytes extra_records control =
     (fst used > byte_limit + (if control then extra_bytes else 0)
      \<or> snd used > record_limit + (if control then extra_records else 0))"

definition within_budget :: "int \<times> int \<Rightarrow> int \<times> int \<Rightarrow> limits \<Rightarrow> bool \<Rightarrow> bool" where
  "within_budget of_scope of_relay l control =
     (\<not> over of_scope (scope_bytes l) (scope_records l) (control_scope_bytes l) (control_scope_records l) control
      \<and> \<not> over of_relay (relay_bytes l) (relay_records l) (control_relay_bytes l) (control_relay_records l) control)"

section \<open>The triggers agree with a recount\<close>

definition used :: "usage_table \<Rightarrow> string \<Rightarrow> int \<times> int" where
  "used u s = (case u s of None \<Rightarrow> (0, 0) | Some x \<Rightarrow> x)"

definition accounted :: "usage_table \<Rightarrow> meter \<Rightarrow> bool" where
  "accounted u m \<longleftrightarrow> u [] = Some (recount None m)
     \<and> (\<forall>s. s \<noteq> [] \<longrightarrow> used u s = recount (Some s) m) \<and> (\<forall>r \<in> set m. fst r \<noteq> [] \<and> u (fst r) \<noteq> None)"

lemma usage_accounted: "accounted u m \<Longrightarrow> sc \<noteq> Some [] \<Longrightarrow> usage sc u = Some (recount sc m)"
proof (cases sc)
  case (Some s)
  assume "accounted u m" "sc \<noteq> Some []"
  with Some have "used u s = recount (Some s) m" by (simp add: accounted_def)
  with Some show ?thesis by (simp add: usage_def used_def split: option.splits)
qed (simp add: accounted_def usage_def)

lemma usage_add_at:
  "u [] = Some t \<Longrightarrow> sc \<noteq> [] \<Longrightarrow> usage_add sc n u s =
     (if s = [] then Some (fst t + n, snd t + 1)
      else if s = sc then Some (fst (used u sc) + n, snd (used u sc) + 1) else u s)"
  by (cases t) (simp add: usage_add_def used_def Let_def split: option.split prod.split)

lemma used_sub: "used (usage_sub sc n u) s =
    (if (s = [] \<or> s = sc) \<and> u s \<noteq> None then (fst (used u s) - n, snd (used u s) - 1) else used u s)"
  by (auto simp: usage_sub_def used_def split: option.split)

lemma usage_sub_none: "usage_sub sc n u s = None \<longleftrightarrow> u s = None"
  by (simp add: usage_sub_def)

lemma recount_Cons: "recount sc (r # m) =
    (if sc = None \<or> sc = Some (fst r) then (fst (recount sc m) + snd r, snd (recount sc m) + 1) else recount sc m)"
  by (auto simp: recount_def scope_rows_def split: option.splits)

lemma recount_remove1:
  "r \<in> set m \<Longrightarrow> recount sc (remove1 r m) =
    (if sc = None \<or> sc = Some (fst r) then (fst (recount sc m) - snd r, snd (recount sc m) - 1) else recount sc m)"
proof (induction m)
  case (Cons x m)
  then show ?case by (cases "x = r") (auto simp: recount_Cons)
qed simp

lemma accounted_add:
  assumes "accounted u m" and "sc \<noteq> []"
  shows "accounted (usage_add sc n u) ((sc, n) # m)"
proof -
  have t: "u [] = Some (recount None m)" and r: "\<And>s. s \<noteq> [] \<Longrightarrow> used u s = recount (Some s) m"
    and e: "\<And>r. r \<in> set m \<Longrightarrow> fst r \<noteq> [] \<and> u (fst r) \<noteq> None" using assms(1) by (auto simp: accounted_def)
  note at = usage_add_at [of u, OF t assms(2)]
  have "used (usage_add sc n u) s = recount (Some s) ((sc, n) # m)" if "s \<noteq> []" for s
    using that r [OF that] by (cases "s = sc") (simp_all add: used_def at recount_Cons)
  then show ?thesis using e assms(2) by (simp add: accounted_def at recount_Cons)
qed

lemma accounted_sub:
  assumes "accounted u m" and m: "(sc, n) \<in> set m"
  shows "accounted (usage_sub sc n u) (remove1 (sc, n) m)"
proof -
  have t: "u [] = Some (recount None m)" and r: "\<And>s. s \<noteq> [] \<Longrightarrow> used u s = recount (Some s) m"
    and e: "\<And>r. r \<in> set m \<Longrightarrow> fst r \<noteq> [] \<and> u (fst r) \<noteq> None" using assms(1) by (auto simp: accounted_def)
  have sc: "sc \<noteq> []" "u sc \<noteq> None" using e [OF m] by simp_all
  have "usage_sub sc n u [] = Some (recount None (remove1 (sc, n) m))"
    using t by (cases "recount None m") (simp add: usage_sub_def recount_remove1 [OF m])
  moreover have "used (usage_sub sc n u) s = recount (Some s) (remove1 (sc, n) m)" if "s \<noteq> []" for s
    using that r [OF that] sc by (cases "s = sc") (simp_all add: used_sub recount_remove1 [OF m])
  moreover have "fst r \<noteq> [] \<and> usage_sub sc n u (fst r) \<noteq> None" if "r \<in> set (remove1 (sc, n) m)" for r
    using e [of r] set_remove1_subset [of "(sc, n)" m] that unfolding usage_sub_none by blast
  ultimately show ?thesis by (simp add: accounted_def)
qed

theorem trigger_accounted:
  "accounted u m \<Longrightarrow> applicable c m \<Longrightarrow> accounted (trigger c u) (apply_change c m)"
  by (cases c) (auto simp: accounted_add accounted_sub)

lemma initial_accounted:
  assumes "\<forall>r \<in> set m. fst r \<noteq> []"
  shows "accounted (initial_usage m) m"
proof -
  have "recount (Some s) m = (0, 0)" if "\<forall>r \<in> set m. fst r \<noteq> s" for s
  proof -
    have "filter (\<lambda>r. fst r = s) m = []" using that by (auto simp: filter_empty_conv)
    then show ?thesis by (simp add: recount_def scope_rows_def)
  qed
  with assms show ?thesis by (auto simp: accounted_def initial_usage_def used_def)
qed

text \<open>The CHECK constraints of the table never fail: sizes are positive.\<close>

lemma recount_nonneg: "\<forall>r \<in> set m. 0 \<le> snd r \<Longrightarrow> 0 \<le> fst (recount sc m) \<and> 0 \<le> snd (recount sc m)"
  by (auto simp: recount_def scope_rows_def len_length intro!: sum_list_nonneg split: option.splits)

lemma row_size_pos: "256 \<le> row_size cs"
proof -
  have "0 \<le> sum_list (map column_bytes cs)"
    by (intro sum_list_nonneg) (auto simp: column_bytes_def len_length split: option.splits)
  then show ?thesis by (simp add: row_size_def)
qed

end
