(* ===== verification/Relay.thy ===== *)
theory Relay
  imports Record_Soundness Relay_Storage
begin

text \<open>
  The ciphertext-only project relay (\<open>project_server.py\<close>): its SQLite tables as lists of
  rows and one function per request handler. A handler returns the new tables and the
  response, or raises; \<open>Transactions.commit\<close> is the surrounding transaction. \<open>Status\<close> is
  a \<open>SyncServerError\<close>, \<open>Proto\<close> an exception of the protocol (which \<open>handle\<close> turns into a
  status), \<open>Crash\<close> any other exception: a failed UNIQUE constraint or a \<open>TypeError\<close>.
\<close>

section \<open>Tables\<close>

datatype rerr = Status int string | Proto perr | Crash

record scope_row =
  sc_id :: string
  sc_pin :: string
  sc_policy :: string
  sc_head :: "string option"
  sc_seq :: int

record policy_row =
  po_scope :: string
  po_hash :: string
  po_version :: int
  po_record :: string

record snapshot_row =
  sn_scope :: string
  sn_hash :: string
  sn_seq :: int
  sn_record :: string

record wrap_row =
  wr_scope :: string
  wr_device :: string
  wr_record :: string

record grant_row =
  gr_scope :: string
  gr_grant :: string
  gr_device :: string
  gr_generation :: int
  gr_record :: string

record block_row =
  bl_scope :: string
  bl_grant :: string
  bl_record :: string

record operation_row =
  op_scope :: string
  op_id :: string
  op_digest :: string
  op_response :: string

record submission_row =
  su_scope :: string
  su_device :: string
  su_grant :: string
  su_request :: string
  su_digest :: string
  su_policy :: string
  su_record :: string
  su_size :: int
  su_created :: int
  su_receipt :: "string option"

record relay =
  t_scopes :: "scope_row list"
  t_policies :: "policy_row list"
  t_snapshots :: "snapshot_row list"
  t_wraps :: "wrap_row list"
  t_grants :: "grant_row list"
  t_blocks :: "block_row list"
  t_operations :: "operation_row list"
  t_submissions :: "submission_row list"

definition empty_relay :: relay where
  "empty_relay = \<lparr>t_scopes = [], t_policies = [], t_snapshots = [], t_wraps = [], t_grants = [], t_blocks = [],
     t_operations = [], t_submissions = []\<rparr>"

text \<open>INSERT under a PRIMARY KEY and UNIQUE constraints.\<close>

definition insert_row :: "('r \<Rightarrow> 'r \<Rightarrow> bool) \<Rightarrow> 'r \<Rightarrow> 'r list \<Rightarrow> rerr + 'r list" where
  "insert_row clash r rows = (if \<exists>x \<in> set rows. clash r x then Inl Crash else Inr (rows @ [r]))"

definition insert_scope :: "scope_row \<Rightarrow> scope_row list \<Rightarrow> rerr + scope_row list" where
  "insert_scope = insert_row (\<lambda>r x. sc_id x = sc_id r)"

definition insert_policy :: "policy_row \<Rightarrow> policy_row list \<Rightarrow> rerr + policy_row list" where
  "insert_policy = insert_row (\<lambda>r x. po_scope x = po_scope r \<and> (po_hash x = po_hash r \<or> po_version x = po_version r))"

definition insert_snapshot :: "snapshot_row \<Rightarrow> snapshot_row list \<Rightarrow> rerr + snapshot_row list" where
  "insert_snapshot = insert_row (\<lambda>r x. sn_scope x = sn_scope r \<and> (sn_hash x = sn_hash r \<or> sn_seq x = sn_seq r))"

definition insert_wrap :: "wrap_row \<Rightarrow> wrap_row list \<Rightarrow> rerr + wrap_row list" where
  "insert_wrap = insert_row (\<lambda>r x. wr_scope x = wr_scope r \<and> wr_device x = wr_device r)"

definition insert_grant :: "grant_row \<Rightarrow> grant_row list \<Rightarrow> rerr + grant_row list" where
  "insert_grant = insert_row (\<lambda>r x. gr_scope x = gr_scope r \<and>
     (gr_grant x = gr_grant r \<or> (gr_device x = gr_device r \<and> gr_generation x = gr_generation r)))"

definition insert_block :: "block_row \<Rightarrow> block_row list \<Rightarrow> rerr + block_row list" where
  "insert_block = insert_row (\<lambda>r x. bl_scope x = bl_scope r \<and> bl_grant x = bl_grant r)"

definition insert_operation :: "operation_row \<Rightarrow> operation_row list \<Rightarrow> rerr + operation_row list" where
  "insert_operation = insert_row (\<lambda>r x. op_scope x = op_scope r \<and> op_id x = op_id r)"

definition insert_submission :: "submission_row \<Rightarrow> submission_row list \<Rightarrow> rerr + submission_row list" where
  "insert_submission = insert_row (\<lambda>r x. su_scope x = su_scope r \<and> su_device x = su_device r \<and> su_request x = su_request r)"

section \<open>Accounting\<close>

text \<open>\<open>_STORAGE_COLUMNS\<close>: what each row of each table counts for.\<close>

definition relay_meter :: "relay \<Rightarrow> meter" where
  "relay_meter s =
     map (\<lambda>r. (sc_id r, row_size [Some (sc_pin r), Some (sc_policy r), sc_head r])) (t_scopes s)
     @ map (\<lambda>r. (po_scope r, row_size [Some (po_hash r), Some (po_record r)])) (t_policies s)
     @ map (\<lambda>r. (sn_scope r, row_size [Some (sn_hash r), Some (sn_record r)])) (t_snapshots s)
     @ map (\<lambda>r. (wr_scope r, row_size [Some (wr_device r), Some (wr_record r)])) (t_wraps s)
     @ map (\<lambda>r. (gr_scope r, row_size [Some (gr_grant r), Some (gr_device r), Some (gr_record r)])) (t_grants s)
     @ map (\<lambda>r. (bl_scope r, row_size [Some (bl_grant r), Some (bl_record r)])) (t_blocks s)
     @ map (\<lambda>r. (op_scope r, row_size [Some (op_id r), Some (op_digest r), Some (op_response r)])) (t_operations s)
     @ map (\<lambda>r. (su_scope r, row_size [Some (su_device r), Some (su_grant r), Some (su_request r), Some (su_digest r),
                                       Some (su_policy r), Some (su_record r), su_receipt r])) (t_submissions s)"

definition storage_budget :: "limits \<Rightarrow> string \<Rightarrow> bool \<Rightarrow> relay \<Rightarrow> rerr + unit" where
  "storage_budget lim scope control s =
     ensure (within_budget (recount (Some scope) (relay_meter s)) (recount None (relay_meter s)) lim control)
       (Status 429 ''storage_full'')"

section \<open>Records and identifiers\<close>

definition uuid_text :: "json \<Rightarrow> rerr + string" where
  "uuid_text v = (case v of JStr s \<Rightarrow> if is_uuid4 s then Inr s else Inl (Status 422 ''invalid_identifier'')
                  | _ \<Rightarrow> Inl (Status 422 ''invalid_identifier''))"

definition api_fields :: "string list \<Rightarrow> json \<Rightarrow> rerr + unit" where
  "api_fields names v = ensure (exact_keys names v) (Status 422 ''invalid_fields'')"

definition dump_record :: "json \<Rightarrow> rerr + string" where
  "dump_record v = map_err Proto (canonical_bytes MAX_RECORD_SIZE v)"

definition load_record :: "string \<Rightarrow> rerr + json" where
  "load_record t = map_err Proto (parse_record MAX_RECORD_SIZE (JStr t))"

definition unsigned_payload :: "int \<Rightarrow> json \<Rightarrow> rerr + json \<times> json" where
  "unsigned_payload maximum v =
     rbind (map_err Proto (parse_record maximum v)) (\<lambda>obj.
     rbind (api_fields [''profile'', ''kind'', ''payload'', ''signature''] obj) (\<lambda>_.
     rbind (ensure (is_obj (fld obj ''payload'')) (Status 422 ''invalid_project_record'')) (\<lambda>_.
     Inr (obj, fld obj ''payload''))))"

definition digest_text :: "json \<Rightarrow> rerr + string" where
  "digest_text v = (case v of JStr s \<Rightarrow> if is_sha256 s then Inr s else Inl (Status 422 ''invalid_digest'')
                    | _ \<Rightarrow> Inl (Status 422 ''invalid_digest''))"

definition opt_json :: "string option \<Rightarrow> json" where
  "opt_json v = (case v of None \<Rightarrow> JNull | Some s \<Rightarrow> JStr s)"

section \<open>Authentication\<close>

record headers =
  authorization :: "string option"
  device_header :: "string option"

definition lower_char :: "char \<Rightarrow> char" where
  "lower_char c = (if is_upper c then char_of (byte c + 32) else c)"

definition bearer_token :: "string option \<Rightarrow> rerr + string" where
  "bearer_token a = (case a of None \<Rightarrow> Inl (Status 401 ''unauthorized'')
     | Some v \<Rightarrow>
         let scheme = takeWhile (\<lambda>c. c \<noteq> CHR '' '') v; rest = drop (length scheme) v in
         (case rest of [] \<Rightarrow> Inl (Status 401 ''unauthorized'')
          | _ # token \<Rightarrow>
              if map lower_char scheme \<noteq> ''bearer'' \<or> token = [] \<or> CHR '' '' \<in> set token
              then Inl (Status 401 ''unauthorized'') else Inr token))"

definition authenticate_admin :: "crypto \<Rightarrow> string \<Rightarrow> headers \<Rightarrow> rerr + unit" where
  "authenticate_admin C admin_hash h =
     rbind (bearer_token (authorization h)) (\<lambda>t.
     ensure (sha256_hex C t = admin_hash) (Status 401 ''unauthorized''))"

text \<open>\<open>_scope\<close>: the row, its policy record, the pinned key and the verified policy.\<close>

definition relay_scope :: "crypto \<Rightarrow> relay \<Rightarrow> string \<Rightarrow> rerr + scope_row \<times> json \<times> string \<times> json" where
  "relay_scope C s scope =
     (case find (\<lambda>r. sc_id r = scope) (t_scopes s) of
        None \<Rightarrow> Inl (Status 403 ''scope_access_denied'')
      | Some row \<Rightarrow>
          rbind (load_record (sc_policy row)) (\<lambda>policy.
          rbind (map_err Proto (decode_key (JStr (sc_pin row)))) (\<lambda>pin.
          rbind (map_err Proto (verify_policy C policy pin (JStr scope) JNull (JInt 0) (JInt 0))) (\<lambda>body.
          Inr (row, policy, pin, body)))))"

definition is_blocked :: "relay \<Rightarrow> string \<Rightarrow> string \<Rightarrow> bool" where
  "is_blocked s scope grant = (\<exists>b \<in> set (t_blocks s). bl_scope b = scope \<and> bl_grant b = grant)"

definition relay_auth ::
  "crypto \<Rightarrow> relay \<Rightarrow> string \<Rightarrow> headers \<Rightarrow> string \<Rightarrow> rerr + scope_row \<times> json \<times> string \<times> json \<times> string" where
  "relay_auth C s scope h operation =
     rbind (bearer_token (authorization h)) (\<lambda>token.
     (case device_header h of
        None \<Rightarrow> Inl (Status 401 ''unauthorized'')
      | Some device \<Rightarrow>
          rbind (uuid_text (JStr device)) (\<lambda>_.
          rbind (relay_scope C s scope) (\<lambda>(row, policy, pin, body).
          rbind (if JStr device = fld body ''master_device_id'' then
                   ensure (JStr (sha256_hex C token) = fld body ''master_token_hash'') (Status 401 ''unauthorized'')
                 else
                   rbind (ensure (operation = ''read'' \<or> operation = ''create'') (Status 403 ''master_required'')) (\<lambda>_.
                   rbind (map_err Proto (authorize_grant body (JStr device) operation JNull JNull)) (\<lambda>grant.
                   rbind (ensure (JStr (sha256_hex C token) = fld grant ''token_hash'') (Status 401 ''unauthorized'')) (\<lambda>_.
                   ensure (\<not> is_blocked s scope (text_of (fld grant ''grant_id''))) (Status 403 ''grant_revoked''))))) (\<lambda>_.
          Inr (row, policy, pin, body, device))))))"

section \<open>Creating a scope\<close>

definition remember_grant :: "string \<Rightarrow> json list \<Rightarrow> json \<Rightarrow> relay \<Rightarrow> rerr + relay" where
  "remember_grant scope previous_ids grant s =
     rbind (dump_record grant) (\<lambda>encoded.
     let gid = text_of (fld grant ''grant_id''); dev = text_of (fld grant ''device_id'') in
     rbind (case find (\<lambda>r. gr_scope r = scope \<and> gr_grant r = gid) (t_grants s) of
              Some known \<Rightarrow>
                rbind (ensure (\<not> (fld grant ''grant_id'' \<notin> set previous_ids \<or> gr_record known \<noteq> encoded))
                        (Status 409 ''grant_identity_reused'')) (\<lambda>_. Inr s)
            | None \<Rightarrow>
                rbind (ensure (\<not> (\<exists>r \<in> set (t_grants s). gr_scope r = scope \<and> gr_device r = dev
                                   \<and> int_of (fld grant ''generation'') \<le> gr_generation r))
                        (Status 409 ''grant_generation_reused'')) (\<lambda>_.
                rbind (insert_grant \<lparr>gr_scope = scope, gr_grant = gid, gr_device = dev,
                          gr_generation = int_of (fld grant ''generation''), gr_record = encoded\<rparr> (t_grants s)) (\<lambda>gs.
                Inr (s\<lparr>t_grants := gs\<rparr>)))) (\<lambda>s'.
     rbind (ensure (\<not> is_blocked s' scope gid) (Status 409 ''grant_revoked'')) (\<lambda>_.
     Inr s')))"

text \<open>\<open>_remember_grants\<close>; \<open>highest is not None and generation <= highest\<close> is the \<open>\<exists>\<close> above.\<close>

definition remember_grants :: "string \<Rightarrow> json \<Rightarrow> json \<Rightarrow> relay \<Rightarrow> rerr + relay" where
  "remember_grants scope body previous s =
     rfold (remember_grant scope (map (\<lambda>g. fld g ''grant_id'') (grants_of previous))) (grants_of body) s"

type_synonym response = "int \<times> json"

definition create_scope ::
  "crypto \<Rightarrow> string \<Rightarrow> limits \<Rightarrow> headers \<Rightarrow> json \<Rightarrow> relay \<Rightarrow> rerr + relay \<times> response" where
  "create_scope C admin_hash lim h payload s =
     rbind (authenticate_admin C admin_hash h) (\<lambda>_.
     rbind (api_fields [''policy''] payload) (\<lambda>_.
     rbind (unsigned_payload MAX_POLICY_SIZE (fld payload ''policy'')) (\<lambda>(candidate, candidate_body).
     rbind (map_err Proto (decode_key (fld candidate_body ''master_public_key''))) (\<lambda>pin.
     rbind (map_err Proto (verify_any_policy C candidate pin)) (\<lambda>body.
     rbind (ensure (\<not> (fld body ''version'' \<noteq> JInt 1 \<or> fld body ''epoch'' \<noteq> JInt 1
                     \<or> fld body ''checkpoint_sequence'' \<noteq> JInt 0 \<or> grants_of body \<noteq> []))
             (Status 422 ''invalid_initial_policy'')) (\<lambda>_.
     rbind (uuid_text (fld body ''scope_id'')) (\<lambda>scope.
     rbind (dump_record candidate) (\<lambda>encoded.
     (case find (\<lambda>r. po_scope r = scope \<and> po_version r = 1) (t_policies s) of
        Some row \<Rightarrow>
          rbind (ensure (po_record row = encoded) (Status 409 ''scope_exists'')) (\<lambda>_.
          Inr (s, 200, JObj [(''scope_id'', JStr scope)]))
      | None \<Rightarrow>
          rbind (map_err Proto (encode_key pin)) (\<lambda>key.
          rbind (insert_scope \<lparr>sc_id = scope, sc_pin = key, sc_policy = encoded, sc_head = None, sc_seq = 0\<rparr> (t_scopes s)) (\<lambda>scs.
          rbind (map_err Proto (canonical_hash C candidate)) (\<lambda>hash.
          rbind (insert_policy \<lparr>po_scope = scope, po_hash = hash, po_version = 1, po_record = encoded\<rparr> (t_policies s)) (\<lambda>ps.
          let s' = s\<lparr>t_scopes := scs, t_policies := ps\<rparr> in
          rbind (storage_budget lim scope False s') (\<lambda>_.
          Inr (s', 201, JObj [(''scope_id'', JStr scope)])))))))))))))))"

section \<open>Reading\<close>

definition relay_state :: "crypto \<Rightarrow> string \<Rightarrow> headers \<Rightarrow> relay \<Rightarrow> rerr + json" where
  "relay_state C scope h s =
     rbind (relay_auth C s scope h ''read'') (\<lambda>(row, policy, pin, body, device).
     rbind (case find (\<lambda>r. sn_scope r = scope \<and> Some (sn_hash r) = sc_head row) (t_snapshots s) of
              None \<Rightarrow> Inr JNull | Some r \<Rightarrow> load_record (sn_record r)) (\<lambda>snapshot.
     rbind (case find (\<lambda>r. wr_scope r = scope \<and> wr_device r = device) (t_wraps s) of
              None \<Rightarrow> Inr JNull | Some r \<Rightarrow> load_record (wr_record r)) (\<lambda>wrap.
     rbind (rmap load_record (concat (map (\<lambda>g.
              case find (\<lambda>b. bl_scope b = scope \<and> JStr (bl_grant b) = fld g ''grant_id'') (t_blocks s) of
                None \<Rightarrow> [] | Some b \<Rightarrow> [bl_record b]) (grants_of body)))) (\<lambda>revocations.
     Inr (JObj [(''policy'', policy), (''snapshot'', snapshot), (''wrap'', wrap), (''head_hash'', opt_json (sc_head row)),
                (''sequence'', JInt (sc_seq row)), (''revocations'', JList revocations)])))))"

text \<open>\<open>record\<close> for the two kinds of its path, \<open>policies\<close> and \<open>snapshots\<close>.\<close>

definition relay_record :: "crypto \<Rightarrow> string \<Rightarrow> headers \<Rightarrow> string \<Rightarrow> string \<Rightarrow> relay \<Rightarrow> rerr + json" where
  "relay_record C scope h kind digest s =
     rbind (ensure (is_sha256 digest) (Status 422 ''invalid_identifier'')) (\<lambda>_.
     rbind (relay_auth C s scope h ''read'') (\<lambda>_.
     (case (if kind = ''policies''
            then map_option po_record (find (\<lambda>r. po_scope r = scope \<and> po_hash r = digest) (t_policies s))
            else map_option sn_record (find (\<lambda>r. sn_scope r = scope \<and> sn_hash r = digest) (t_snapshots s))) of
        None \<Rightarrow> Inl (Status 404 ''not_found'')
      | Some t \<Rightarrow> rbind (load_record t) (\<lambda>v. Inr (JObj [(''record'', v)])))))"

section \<open>Publishing\<close>

text \<open>The policy part of \<open>publish\<close>: the verified policy and the tables it wrote.\<close>

definition publish_policy ::
  "crypto \<Rightarrow> string \<Rightarrow> scope_row \<Rightarrow> json \<Rightarrow> string \<Rightarrow> json \<Rightarrow> json \<Rightarrow> relay \<Rightarrow> rerr + relay \<times> json" where
  "publish_policy C scope row previous pin old_body policy s =
     rbind (map_err Proto (canonical_hash C policy)) (\<lambda>new_hash.
     rbind (map_err Proto (canonical_hash C previous)) (\<lambda>old_hash.
     if new_hash = old_hash then Inr (s, old_body)
     else
       rbind (map_err Proto (validate_policy_transition C previous policy pin)) (\<lambda>body.
       rbind (ensure (\<not> (fld body ''checkpoint_sequence'' \<noteq> JInt (sc_seq row)
                       \<or> fld body ''checkpoint_hash'' \<noteq> opt_json (sc_head row))) (Status 409 ''checkpoint_conflict'')) (\<lambda>_.
       rbind (remember_grants scope body old_body s) (\<lambda>s1.
       rbind (dump_record policy) (\<lambda>encoded.
       rbind (insert_policy \<lparr>po_scope = scope, po_hash = new_hash, po_version = int_of (fld body ''version''),
                             po_record = encoded\<rparr> (t_policies s1)) (\<lambda>ps.
       Inr (s1\<lparr>t_policies := ps\<rparr>, body))))))))"

text \<open>The loop over the wraps: every one verifies, and no device has two.\<close>

definition check_wrap :: "crypto \<Rightarrow> json \<Rightarrow> string \<Rightarrow> json \<Rightarrow> json list \<Rightarrow> rerr + json list" where
  "check_wrap C policy pin wrapped recipients =
     rbind (map_err Proto (verify_scope_key_wrap C wrapped policy pin JNull JNull)) (\<lambda>v.
     rbind (ensure (fld v ''device_id'' \<notin> set recipients) (Status 422 ''duplicate_wrap'')) (\<lambda>_.
     Inr (fld v ''device_id'' # recipients)))"

definition check_wraps :: "crypto \<Rightarrow> json \<Rightarrow> string \<Rightarrow> json \<Rightarrow> json \<Rightarrow> rerr + unit" where
  "check_wraps C policy pin body wraps =
     rbind (ensure (wraps = JList (items wraps) \<and> len (items wraps) = len (grants_of body))
             (Status 422 ''incomplete_wraps'')) (\<lambda>_.
     rbind (rfold (check_wrap C policy pin) (items wraps) []) (\<lambda>recipients.
     ensure (set recipients = set (map (\<lambda>g. fld g ''device_id'') (grants_of body))) (Status 422 ''incomplete_wraps'')))"

text \<open>\<open>wrapped["payload"]["device_id"]\<close>: a \<open>TypeError\<close> when the wrap came as a string.\<close>

definition store_wrap :: "string \<Rightarrow> json \<Rightarrow> wrap_row list \<Rightarrow> rerr + wrap_row list" where
  "store_wrap scope wrapped rows =
     rbind (ensure (is_obj wrapped) Crash) (\<lambda>_.
     rbind (dump_record wrapped) (\<lambda>encoded.
     insert_wrap \<lparr>wr_scope = scope, wr_device = text_of (fld (fld wrapped ''payload'') ''device_id''),
                  wr_record = encoded\<rparr> rows))"

definition update_scope :: "string \<Rightarrow> string \<Rightarrow> string \<Rightarrow> int \<Rightarrow> scope_row list \<Rightarrow> scope_row list" where
  "update_scope scope policy head_hash sq rows =
     map (\<lambda>r. if sc_id r = scope then r\<lparr>sc_policy := policy, sc_head := Some head_hash, sc_seq := sq\<rparr> else r) rows"

text \<open>Everything \<open>publish\<close> does once the operation is known to be new.\<close>

definition publish_new ::
  "crypto \<Rightarrow> limits \<Rightarrow> string \<Rightarrow> json \<Rightarrow> string \<Rightarrow> scope_row \<Rightarrow> json \<Rightarrow> string \<Rightarrow> json \<Rightarrow> relay
     \<Rightarrow> rerr + relay \<times> response" where
  "publish_new C lim scope payload digest row previous pin old_body s =
     rbind (ensure (fld payload ''expected_head_hash'' = opt_json (sc_head row)) (Status 409 ''cas_conflict'')) (\<lambda>_.
     let policy = fld payload ''policy''; snapshot = fld payload ''snapshot''; wraps = fld payload ''wraps'' in
     rbind (publish_policy C scope row previous pin old_body policy s) (\<lambda>(s1, body).
     rbind (map_err Proto (verify_snapshot C snapshot policy pin (JInt (sc_seq row)) (opt_json (sc_head row)))) (\<lambda>checked.
     rbind (ensure (fld checked ''sequence'' = JInt (sc_seq row + 1)) (Status 409 ''sequence_conflict'')) (\<lambda>_.
     rbind (check_wraps C policy pin body wraps) (\<lambda>_.
     rbind (each (\<lambda>g. ensure (\<not> is_blocked s1 scope (text_of (fld g ''grant_id''))) (Status 409 ''grant_revoked''))
             (grants_of body)) (\<lambda>_.
     rbind (map_err Proto (canonical_hash C snapshot)) (\<lambda>snapshot_hash.
     rbind (dump_record snapshot) (\<lambda>snapshot_text.
     rbind (insert_snapshot \<lparr>sn_scope = scope, sn_hash = snapshot_hash, sn_seq = sc_seq row + 1,
                             sn_record = snapshot_text\<rparr> (t_snapshots s1)) (\<lambda>sns.
     rbind (rfold (store_wrap scope) (items wraps) (filter (\<lambda>r. wr_scope r \<noteq> scope) (t_wraps s1))) (\<lambda>wrs.
     rbind (dump_record policy) (\<lambda>policy_text.
     let response = JObj [(''head_hash'', JStr snapshot_hash), (''sequence'', fld checked ''sequence''),
                          (''policy_version'', fld body ''version'')] in
     rbind (dump_record response) (\<lambda>response_text.
     rbind (insert_operation \<lparr>op_scope = scope, op_id = text_of (fld payload ''operation_id''), op_digest = digest,
                              op_response = response_text\<rparr> (t_operations s1)) (\<lambda>ops.
     let s2 = s1\<lparr>t_snapshots := sns, t_wraps := wrs, t_operations := ops,
                 t_scopes := update_scope scope policy_text snapshot_hash (sc_seq row + 1) (t_scopes s1)\<rparr>;
         old_ids = set (map (\<lambda>g. fld g ''grant_id'') (grants_of old_body));
         new_ids = set (map (\<lambda>g. fld g ''grant_id'') (grants_of body)) in
     rbind (storage_budget lim scope (new_ids \<subset> old_ids) s2) (\<lambda>_.
     Inr (s2, 201, response)))))))))))))))"

definition publish ::
  "crypto \<Rightarrow> limits \<Rightarrow> string \<Rightarrow> headers \<Rightarrow> json \<Rightarrow> relay \<Rightarrow> rerr + relay \<times> response" where
  "publish C lim scope h payload s =
     rbind (api_fields [''operation_id'', ''expected_head_hash'', ''policy'', ''snapshot'', ''wraps''] payload) (\<lambda>_.
     rbind (uuid_text (fld payload ''operation_id'')) (\<lambda>operation_id.
     rbind (map_err Proto (canonical_hash C payload)) (\<lambda>digest.
     rbind (relay_auth C s scope h ''publish'') (\<lambda>(row, previous, pin, old_body, device).
     (case find (\<lambda>r. op_scope r = scope \<and> op_id r = operation_id) (t_operations s) of
        Some retry \<Rightarrow>
          rbind (ensure (op_digest retry = digest) (Status 409 ''operation_conflict'')) (\<lambda>_.
          rbind (load_record (op_response retry)) (\<lambda>v. Inr (s, 200, v)))
      | None \<Rightarrow> publish_new C lim scope payload digest row previous pin old_body s)))))"

section \<open>Submissions\<close>

abbreviation MAX_SUBMISSION :: int where "MAX_SUBMISSION \<equiv> 2097152"
abbreviation MAX_SCOPE_PENDING_BYTES :: int where "MAX_SCOPE_PENDING_BYTES \<equiv> 67108864"
abbreviation MAX_SCOPE_PENDING :: int where "MAX_SCOPE_PENDING \<equiv> 1000"
abbreviation MAX_DEVICE_PENDING :: int where "MAX_DEVICE_PENDING \<equiv> 100"
abbreviation MAX_CREATES_PER_MINUTE :: int where "MAX_CREATES_PER_MINUTE \<equiv> 30"

definition find_policy :: "string \<Rightarrow> string \<Rightarrow> relay \<Rightarrow> policy_row option" where
  "find_policy scope hash s = find (\<lambda>r. po_scope r = scope \<and> po_hash r = hash) (t_policies s)"

definition find_submission :: "string \<Rightarrow> string \<Rightarrow> string \<Rightarrow> relay \<Rightarrow> submission_row option" where
  "find_submission scope device request s =
     find (\<lambda>r. su_scope r = scope \<and> su_device r = device \<and> su_request r = request) (t_submissions s)"

text \<open>\<open>WHERE scope_id=? AND receipt IS NULL\<close>, for one device or for all.\<close>

definition pending :: "string \<Rightarrow> relay \<Rightarrow> submission_row list" where
  "pending scope s = filter (\<lambda>r. su_scope r = scope \<and> su_receipt r = None) (t_submissions s)"

definition uploaded :: "string \<Rightarrow> json" where
  "uploaded request_id = JObj [(''request_id'', JStr request_id), (''status'', JStr ''uploaded'')]"

definition new_submission :: "int \<Rightarrow> string \<Rightarrow> string \<Rightarrow> json \<Rightarrow> string \<Rightarrow> string \<Rightarrow> string \<Rightarrow> submission_row" where
  "new_submission now scope device body request_id digest encoded =
     \<lparr>su_scope = scope, su_device = device, su_grant = text_of (fld body ''grant_id''), su_request = request_id,
      su_digest = digest, su_policy = text_of (fld body ''policy_hash''), su_record = encoded, su_size = len encoded,
      su_created = now, su_receipt = None\<rparr>"

definition enqueue ::
  "limits \<Rightarrow> int \<Rightarrow> string \<Rightarrow> string \<Rightarrow> json \<Rightarrow> string \<Rightarrow> string \<Rightarrow> string \<Rightarrow> relay \<Rightarrow> rerr + relay \<times> response" where
  "enqueue lim now scope device body request_id digest encoded s =
     rbind (ensure (\<not> (len (pending scope s) \<ge> MAX_SCOPE_PENDING
                     \<or> len (filter (\<lambda>r. su_device r = device) (pending scope s)) \<ge> MAX_DEVICE_PENDING
                     \<or> sum_list (map su_size (pending scope s)) + len encoded > MAX_SCOPE_PENDING_BYTES))
             (Status 429 ''queue_full'')) (\<lambda>_.
     rbind (ensure (\<not> len (filter (\<lambda>r. su_scope r = scope \<and> su_device r = device \<and> su_created r > now - 60)
                                (t_submissions s)) \<ge> MAX_CREATES_PER_MINUTE) (Status 429 ''rate_limited'')) (\<lambda>_.
     rbind (insert_submission (new_submission now scope device body request_id digest encoded) (t_submissions s)) (\<lambda>sus.
     let s' = s\<lparr>t_submissions := sus\<rparr> in
     rbind (storage_budget lim scope False s') (\<lambda>_.
     Inr (s', 201, uploaded request_id)))))"

definition submit_once ::
  "limits \<Rightarrow> int \<Rightarrow> string \<Rightarrow> string \<Rightarrow> json \<Rightarrow> string \<Rightarrow> string \<Rightarrow> string \<Rightarrow> relay \<Rightarrow> rerr + relay \<times> response" where
  "submit_once lim now scope device body request_id digest encoded s =
     (case find_submission scope device request_id s of
        Some retry \<Rightarrow>
          rbind (ensure (su_digest retry = digest) (Status 409 ''submission_conflict'')) (\<lambda>_.
          Inr (s, 200, uploaded request_id))
      | None \<Rightarrow> enqueue lim now scope device body request_id digest encoded s)"

text \<open>\<open>SELECT record FROM kk3_policies\<close> by hash, loaded; \<open>missing\<close> is raised when there is none.\<close>

definition historical_policy :: "string \<Rightarrow> string \<Rightarrow> rerr \<Rightarrow> relay \<Rightarrow> rerr + json" where
  "historical_policy scope hash missing s =
     (case find_policy scope hash s of None \<Rightarrow> Inl missing | Some known \<Rightarrow> load_record (po_record known))"

definition submit ::
  "crypto \<Rightarrow> limits \<Rightarrow> int \<Rightarrow> string \<Rightarrow> headers \<Rightarrow> json \<Rightarrow> relay \<Rightarrow> rerr + relay \<times> response" where
  "submit C lim now scope h payload s =
     rbind (api_fields [''submission''] payload) (\<lambda>_.
     let r = fld payload ''submission'' in
     rbind (map_err Proto (canonical_bytes MAX_SUBMISSION r)) (\<lambda>encoded.
     rbind (relay_auth C s scope h ''create'') (\<lambda>(row, current, pin, _, device).
     rbind (unsigned_payload MAX_SUBMISSION r) (\<lambda>(_, raw_body).
     rbind (digest_text (fld raw_body ''policy_hash'')) (\<lambda>policy_hash.
     rbind (historical_policy scope policy_hash (Status 422 ''unknown_policy'') s) (\<lambda>policy.
     rbind (map_err Proto (verify_create C r policy pin current)) (\<lambda>body.
     rbind (ensure (fld body ''device_id'' = JStr device) (Status 403 ''device_mismatch'')) (\<lambda>_.
     rbind (uuid_text (fld body ''request_id'')) (\<lambda>request_id.
     rbind (map_err Proto (canonical_hash C r)) (\<lambda>digest.
     submit_once lim now scope device body request_id digest encoded s))))))))))"

text \<open>The page of the master: at most 25 rows, and at most 8 MiB after the first one.\<close>

fun take_page :: "int \<Rightarrow> bool \<Rightarrow> submission_row list \<Rightarrow> submission_row list" where
  "take_page sent started [] = []"
| "take_page sent started (r # rs) =
     (if started \<and> sent + pylen (su_record r) > 8388608 then []
      else r # take_page (sent + pylen (su_record r)) True rs)"

definition queue_order :: "submission_row list \<Rightarrow> submission_row list" where
  "queue_order rows = sort_key su_created (sort_key su_device (sort_key su_request rows))"

definition queue_page :: "string \<Rightarrow> relay \<Rightarrow> submission_row list" where
  "queue_page scope s = take_page 0 False (take 25 (queue_order (pending scope s)))"

text \<open>\<open>request_id\<close> is \<open>None\<close> when the path has none.\<close>

definition submissions :: "crypto \<Rightarrow> string \<Rightarrow> headers \<Rightarrow> string option \<Rightarrow> relay \<Rightarrow> rerr + json" where
  "submissions C scope h request_id s =
     rbind (relay_auth C s scope h ''read'') (\<lambda>(row, policy, pin, body, device).
     (case request_id of
        Some rid \<Rightarrow>
          rbind (uuid_text (JStr rid)) (\<lambda>_.
          (case find_submission scope device rid s of
             None \<Rightarrow> Inl (Status 404 ''not_found'')
           | Some r \<Rightarrow>
               rbind (case su_receipt r of None \<Rightarrow> Inr JNull | Some t \<Rightarrow> load_record t) (\<lambda>receipt.
               Inr (JObj [(''request_id'', JStr (su_request r)), (''receipt'', receipt),
                          (''submission_hash'', JStr (su_digest r))]))))
      | None \<Rightarrow>
          rbind (ensure (JStr device = fld body ''master_device_id'') (Status 403 ''master_required'')) (\<lambda>_.
          rbind (rmap (\<lambda>r. rbind (load_record (su_record r)) (\<lambda>v.
                   Inr (JObj [(''submission'', v), (''policy_hash'', JStr (su_policy r))]))) (queue_page scope s)) (\<lambda>records.
          Inr (JObj [(''items'', JList records)])))))"

section \<open>Receipts\<close>

definition set_receipt :: "string \<Rightarrow> string \<Rightarrow> string \<Rightarrow> string \<Rightarrow> submission_row list \<Rightarrow> submission_row list" where
  "set_receipt scope device request receipt rows =
     map (\<lambda>r. if su_scope r = scope \<and> su_device r = device \<and> su_request r = request
             then r\<lparr>su_receipt := Some receipt\<rparr> else r) rows"

definition recorded :: "string \<Rightarrow> json" where
  "recorded request_id = JObj [(''request_id'', JStr request_id), (''status'', JStr ''recorded'')]"

text \<open>What a receipt may follow: \<open>Inr True\<close> stores it, \<open>Inr False\<close> is a retry that stores nothing.\<close>

definition receipt_step :: "string \<Rightarrow> string \<Rightarrow> json \<Rightarrow> json \<Rightarrow> rerr + bool" where
  "receipt_step stored encoded before checked =
     (if stored = encoded then Inr False
      else
        let same_entry = py_eq (fld checked ''canonical_entry_id'') (fld before ''canonical_entry_id'') in
        if fld before ''status'' = JStr ''published'' \<and> fld checked ''status'' = JStr ''accepted'' \<and> same_entry
           \<and> int_of (fld checked ''revision'') \<le> int_of (fld before ''revision'') then Inr False
        else if \<not> (fld before ''status'' = JStr ''accepted'' \<and> fld checked ''status'' = JStr ''published'' \<and> same_entry
                   \<and> int_of (fld checked ''revision'') \<ge> int_of (fld before ''revision''))
        then Inl (Status 409 ''receipt_conflict'')
        else Inr True)"

definition receipt_stored ::
  "crypto \<Rightarrow> string \<Rightarrow> submission_row \<Rightarrow> json \<Rightarrow> json \<Rightarrow> string \<Rightarrow> json \<Rightarrow> json \<Rightarrow> string \<Rightarrow> relay \<Rightarrow> rerr + bool" where
  "receipt_stored C scope row submission historical pin current_policy checked encoded s =
     (case su_receipt row of
        Some stored \<Rightarrow>
          rbind (load_record stored) (\<lambda>previous.
          rbind (map_err Proto (verify_receipt C previous submission historical pin)) (\<lambda>before.
          receipt_step stored encoded before checked))
      | None \<Rightarrow>
          if fld checked ''status'' = JStr ''accepted'' \<or> fld checked ''status'' = JStr ''published'' then
            rbind (map_err Proto (verify_create C submission historical pin current_policy)) (\<lambda>_.
            rbind (ensure (\<not> is_blocked s scope (su_grant row)) (Status 403 ''grant_revoked'')) (\<lambda>_.
            Inr True))
          else Inr True)"

definition acknowledge ::
  "crypto \<Rightarrow> limits \<Rightarrow> string \<Rightarrow> headers \<Rightarrow> string \<Rightarrow> json \<Rightarrow> relay \<Rightarrow> rerr + relay \<times> json" where
  "acknowledge C lim scope h request_id payload s =
     rbind (uuid_text (JStr request_id)) (\<lambda>_.
     rbind (api_fields [''receipt''] payload) (\<lambda>_.
     rbind (relay_auth C s scope h ''receipt'') (\<lambda>(_, current_policy, pin, _, _).
     rbind (unsigned_payload MAX_CONTROL_SIZE (fld payload ''receipt'')) (\<lambda>(receipt, candidate).
     rbind (uuid_text (fld candidate ''device_id'')) (\<lambda>device.
     rbind (case find_submission scope device request_id s of
              None \<Rightarrow> Inl (Status 404 ''not_found'') | Some row \<Rightarrow> Inr row) (\<lambda>row.
     rbind (historical_policy scope (su_policy row) (Status 409 ''policy_history_missing'') s) (\<lambda>historical.
     rbind (load_record (su_record row)) (\<lambda>submission.
     rbind (map_err Proto (verify_receipt C receipt submission historical pin)) (\<lambda>checked.
     rbind (dump_record receipt) (\<lambda>encoded.
     rbind (receipt_stored C scope row submission historical pin current_policy checked encoded s) (\<lambda>store.
     if \<not> store then Inr (s, recorded request_id)
     else
       let s' = s\<lparr>t_submissions := set_receipt scope device request_id encoded (t_submissions s)\<rparr> in
       rbind (storage_budget lim scope True s') (\<lambda>_.
       Inr (s', recorded request_id)))))))))))))"

section \<open>Revocations\<close>

definition block_grant :: "string \<Rightarrow> json \<Rightarrow> json \<Rightarrow> string \<Rightarrow> relay \<Rightarrow> rerr + relay" where
  "block_grant scope current_body body encoded s =
     (let gid = text_of (fld body ''grant_id'') in
      case find (\<lambda>b. bl_scope b = scope \<and> bl_grant b = gid) (t_blocks s) of
        Some prior \<Rightarrow> rbind (ensure (bl_record prior = encoded) (Status 409 ''revocation_conflict'')) (\<lambda>_. Inr s)
      | None \<Rightarrow>
          rbind (map_err Proto (authorize_grant current_body (fld body ''device_id'') ''read''
                   (fld body ''grant_id'') (fld body ''generation''))) (\<lambda>_.
          rbind (insert_block \<lparr>bl_scope = scope, bl_grant = gid, bl_record = encoded\<rparr> (t_blocks s)) (\<lambda>bs.
          Inr (s\<lparr>t_blocks := bs\<rparr>))))"

definition block ::
  "crypto \<Rightarrow> limits \<Rightarrow> string \<Rightarrow> headers \<Rightarrow> json \<Rightarrow> relay \<Rightarrow> rerr + relay \<times> json" where
  "block C lim scope h payload s =
     rbind (api_fields [''revocation''] payload) (\<lambda>_.
     rbind (relay_auth C s scope h ''revoke'') (\<lambda>(_, current_policy, pin, current_body, _).
     rbind (unsigned_payload MAX_CONTROL_SIZE (fld payload ''revocation'')) (\<lambda>(r, candidate).
     rbind (digest_text (fld candidate ''policy_hash'')) (\<lambda>policy_hash.
     rbind (historical_policy scope policy_hash (Status 422 ''unknown_policy'') s) (\<lambda>historical.
     rbind (map_err Proto (verify_revocation C r historical pin)) (\<lambda>body.
     rbind (dump_record r) (\<lambda>encoded.
     rbind (block_grant scope current_body body encoded s) (\<lambda>s'.
     rbind (storage_budget lim scope True s') (\<lambda>_.
     Inr (s', JObj [(''status'', JStr ''blocked''),
            (''rekey'', JStr (if fld body ''grant_id'' \<in> set (map (\<lambda>g. fld g ''grant_id'') (grants_of current_body))
                             then ''pending'' else ''complete''))]))))))))))"

end
