(* ===== verification/Relay_Steps.thy ===== *)
theory Relay_Steps
  imports Relay "HOL-Library.Sublist"
begin

text \<open>
  What each handler of the relay does when it returns: the facts about its inputs and the
  tables it leaves. The invariants of \<open>Relay_Invariants\<close> rest on these.
\<close>

section \<open>Small operations\<close>

lemma insert_row_ok [ok_simps]:
  "insert_row clash r rows = Inr rows' \<longleftrightarrow> (\<forall>x \<in> set rows. \<not> clash r x) \<and> rows' = rows @ [r]"
  by (auto simp: insert_row_def)

lemmas insert_ok = insert_scope_def insert_policy_def insert_snapshot_def insert_wrap_def insert_grant_def
  insert_block_def insert_operation_def insert_submission_def insert_row_ok

lemma dump_ok [ok_simps]: "dump_record v = Inr t \<longleftrightarrow> fits MAX_RECORD_SIZE v \<and> t = canonical_text v"
  by (auto simp: dump_record_def map_err_ok canonical_bytes_eq split: if_splits)

lemma pylen_bound: "len s \<le> n \<Longrightarrow> pylen s \<le> n"
  using pylen_le [of s] by simp

lemma load_ok [ok_simps]:
  "load_record t = Inr v \<longleftrightarrow> normal v \<and> fits MAX_RECORD_SIZE v \<and> t = canonical_text v"
proof -
  have "pylen (canonical_text v) \<le> MAX_RECORD_SIZE" if "fits MAX_RECORD_SIZE v" for v
    using that by (intro pylen_bound) (simp add: fits_def)
  then show ?thesis
    by (auto simp: load_record_def map_err_ok parse_record_def parse_bytes_iff not_less [symmetric])
qed

lemma uuid_text_ok [ok_simps]: "uuid_text v = Inr s \<longleftrightarrow> v = JStr s \<and> is_uuid4 s"
  by (cases v) (auto simp: uuid_text_def)

lemma digest_text_ok [ok_simps]: "digest_text v = Inr s \<longleftrightarrow> v = JStr s \<and> is_sha256 s"
  by (cases v) (auto simp: digest_text_def)

lemma api_fields_ok [ok_simps]: "api_fields ks v = Inr u \<longleftrightarrow> exact_keys ks v"
  by (simp add: api_fields_def ensure_ok)

lemma unsigned_payload_ok [ok_simps]:
  "unsigned_payload n v = Inr (obj, p) \<longleftrightarrow> parse_record n v = Inr obj
     \<and> exact_keys [''profile'', ''kind'', ''payload'', ''signature''] obj \<and> p = fld obj ''payload'' \<and> is_obj p"
  by (auto simp: unsigned_payload_def rbind_ok map_err_ok api_fields_ok ensure_ok)

lemma find_ok: "find P xs = Some x \<Longrightarrow> x \<in> set xs" "find P xs = Some x \<Longrightarrow> P x"
  using find_SomeD [of P xs x] by simp_all

section \<open>Text read back from the tables\<close>

text \<open>A text that was stored and loads as an object was stored from an object, and any
  verification of the two agrees: they parse to the same record.\<close>

lemma canonical_text_obj:
  assumes "canonical_text v = canonical_text w" and "is_obj w" and "no_float v"
  shows "is_obj v"
proof -
  obtain m where m: "w = JObj m" using assms(2) by (cases w) auto
  then have w: "hd (canonical_text v) = CHR ''{''" using assms(1) by (simp add: canonical_text_def)
  have digit: "hd (show_nat n) \<noteq> CHR ''{''" for n
  proof -
    have "set (show_nat n) \<subseteq> {c. is_digit c}" using show_nat_digits by auto
    moreover have "show_nat n \<noteq> []" by (subst show_nat.simps) simp
    moreover have "\<not> is_digit CHR ''{''" by (simp add: is_digit_def byte_def)
    ultimately show ?thesis by (metis hd_in_set mem_Collect_eq subsetD)
  qed
  show ?thesis
  proof (cases v)
    case (JInt i)
    then show ?thesis using w digit by (simp add: canonical_text_def show_int_def split: if_splits)
  qed (use assms(3) w in \<open>auto simp: canonical_text_def quote_def split: if_splits\<close>)
qed

lemma reload:
  assumes "dump_record v = Inr t" and "load_record t = Inr obj"
  shows "is_obj v" and "parse_record MAX_RECORD_SIZE v = Inr obj"
proof -
  from assms have v: "fits MAX_RECORD_SIZE v" "t = canonical_text v" and obj: "normal obj" "fits MAX_RECORD_SIZE obj"
    "canonical_text v = canonical_text obj" by (auto simp: dump_ok load_ok)
  show "is_obj v" using canonical_text_obj [OF obj(3) _ fits_no_float [OF v(1)]] obj(1) by (simp add: normal_def)
  then obtain m where m: "v = JObj m" by (cases v) auto
  show "parse_record MAX_RECORD_SIZE v = Inr obj"
    using v obj by (simp add: m parse_record_def rbind_ok canonical_bytes_eq parse_bytes_iff)
qed

text \<open>Anything else that is stored can never be read again.\<close>

lemma load_not_obj: "dump_record v = Inr t \<Longrightarrow> \<not> is_obj v \<Longrightarrow> load_record t = Inl (Proto ValidationError)"
proof -
  assume d: "dump_record v = Inr t" and n: "\<not> is_obj v"
  have "\<exists>e. load_record t = Inl e" using reload(1) [OF d] n by (cases "load_record t") auto
  then show ?thesis
    using parse_bytes_def [of MAX_RECORD_SIZE t]
    by (auto simp: load_record_def parse_record_def map_err_def rbind_def ensure_def canonical_bytes_eq
        split: sum.splits if_splits)
qed

lemma same_record:
  assumes "parse_record MAX_RECORD_SIZE v = Inr obj"
  shows "n \<le> MAX_RECORD_SIZE \<Longrightarrow> 0 \<le> n \<Longrightarrow> verify_record C n v kind pk = Inr p \<Longrightarrow> verify_record C n obj kind pk = Inr p"
    and "policy_hash_of C obj = policy_hash_of C v"
proof -
  note i = parse_record_idem [OF _ order_refl assms]
  then show "policy_hash_of C obj = policy_hash_of C v" using assms by (simp add: policy_hash_of_def)
  assume n: "n \<le> MAX_RECORD_SIZE" "0 \<le> n" and v: "verify_record C n v kind pk = Inr p"
  from verify_record_ok [OF v] obtain obj' where obj': "parse_record n v = Inr obj'" by blast
  have "obj' = obj" using parse_record_mono [OF n(2,1) obj'] assms by simp
  with obj' verify_record_parsed [OF n(2)] v show "verify_record C n obj kind pk = Inr p" by simp
qed

lemma reload_policy:
  assumes "dump_record v = Inr t" and "load_record t = Inr obj" and "verify_any_policy C v pin = Inr p"
  shows "verify_any_policy C obj pin = Inr p"
  using assms(3) same_record(1) [OF reload(2) [OF assms(1,2)], of MAX_POLICY_SIZE] by (simp add: verify_any_policy_ok)

section \<open>The scope of a request\<close>

lemma relay_scope_D:
  assumes "relay_scope C s scope = Inr (row, policy, pin, body)"
  shows "row \<in> set (t_scopes s)" and "sc_id row = scope" and "load_record (sc_policy row) = Inr policy"
    and "sc_pin row = b64 pin" and "length pin = 32" and "verify_any_policy C policy pin = Inr body"
    and "fld body ''scope_id'' = JStr scope"
proof -
  from assms obtain r where f: "find (\<lambda>r. sc_id r = scope) (t_scopes s) = Some r"
    and x: "load_record (sc_policy r) = Inr policy" "decode_key (JStr (sc_pin r)) = Inr pin"
      "verify_policy C policy pin (JStr scope) JNull (JInt 0) (JInt 0) = Inr body" "r = row"
    by (auto simp: relay_scope_def rbind_ok map_err_ok split: option.splits)
  show "row \<in> set (t_scopes s)" "sc_id row = scope" using find_ok [OF f] x(4) by simp_all
  show "load_record (sc_policy row) = Inr policy" using x by simp
  show "sc_pin row = b64 pin" "length pin = 32" using x by (simp_all add: decode_key_ok)
  show "verify_any_policy C policy pin = Inr body" using x(3) unfolding verify_any_policy_ok by (simp add: verify_policy_ok)
  show "fld body ''scope_id'' = JStr scope" using x(3) by (simp add: verify_policy_ok)
qed

lemma relay_auth_D:
  assumes "relay_auth C s scope h op = Inr (row, policy, pin, body, device)"
  shows "relay_scope C s scope = Inr (row, policy, pin, body)" and "device_header h = Some device" and "is_uuid4 device"
    and "op \<noteq> ''read'' \<Longrightarrow> op \<noteq> ''create'' \<Longrightarrow> JStr device = fld body ''master_device_id''"
    and "JStr device \<noteq> fld body ''master_device_id'' \<Longrightarrow>
           \<exists>g. authorize_grant body (JStr device) op JNull JNull = Inr g
             \<and> \<not> is_blocked s scope (text_of (fld g ''grant_id''))"
  using assms
  by (auto simp: relay_auth_def rbind_ok ensure_ok map_err_ok uuid_text_ok split: option.splits if_splits)

section \<open>Grants\<close>

definition grant_row_of :: "string \<Rightarrow> json \<Rightarrow> grant_row" where
  "grant_row_of scope g = \<lparr>gr_scope = scope, gr_grant = text_of (fld g ''grant_id''), gr_device = text_of (fld g ''device_id''),
     gr_generation = int_of (fld g ''generation''), gr_record = canonical_text g\<rparr>"

text \<open>The grant is in the table with this text, under its id.\<close>

definition known_grant :: "string \<Rightarrow> json \<Rightarrow> grant_row list \<Rightarrow> bool" where
  "known_grant scope g rows \<longleftrightarrow> (\<exists>r \<in> set rows. gr_scope r = scope \<and> gr_grant r = text_of (fld g ''grant_id'')
     \<and> gr_record r = canonical_text g)"

definition generation_order :: "grant_row list \<Rightarrow> bool" where
  "generation_order rows \<longleftrightarrow> (\<forall>i < length rows. \<forall>j < i. gr_scope (rows ! j) = gr_scope (rows ! i) \<longrightarrow>
     gr_grant (rows ! j) \<noteq> gr_grant (rows ! i)
     \<and> (gr_device (rows ! j) = gr_device (rows ! i) \<longrightarrow> gr_generation (rows ! j) < gr_generation (rows ! i)))"

lemma generation_order_snoc:
  assumes "generation_order rows" and "\<forall>x \<in> set rows. gr_scope x = gr_scope r \<longrightarrow> gr_grant x \<noteq> gr_grant r
      \<and> (gr_device x = gr_device r \<longrightarrow> gr_generation x < gr_generation r)"
  shows "generation_order (rows @ [r])"
  using assms unfolding generation_order_def
  by (auto simp: nth_append less_Suc_eq dest: nth_mem)

lemma known_grant_mono: "known_grant scope g rows \<Longrightarrow> set rows \<subseteq> set rows' \<Longrightarrow> known_grant scope g rows'"
  by (auto simp: known_grant_def)

lemma remember_grant_D:
  assumes "remember_grant scope earlier g s = Inr s'"
  shows "\<exists>gs. s' = s\<lparr>t_grants := gs\<rparr> \<and> prefix (t_grants s) gs \<and> known_grant scope g gs
     \<and> (generation_order (t_grants s) \<longrightarrow> generation_order gs) \<and> \<not> is_blocked s scope (text_of (fld g ''grant_id''))"
proof (cases "find (\<lambda>r. gr_scope r = scope \<and> gr_grant r = text_of (fld g ''grant_id'')) (t_grants s)")
  case (Some r)
  then have "s' = s" "gr_record r = canonical_text g" "\<not> is_blocked s scope (text_of (fld g ''grant_id''))"
    using assms by (auto simp: remember_grant_def rbind_ok ensure_ok dump_ok Let_def)
  with find_ok [OF Some] show ?thesis by (intro exI [of _ "t_grants s"]) (auto simp: known_grant_def)
next
  case None
  define r where "r = grant_row_of scope g"
  from None assms have s': "s' = s\<lparr>t_grants := t_grants s @ [r]\<rparr>" and b: "\<not> is_blocked s scope (text_of (fld g ''grant_id''))"
    and n: "\<forall>x \<in> set (t_grants s). gr_scope x = gr_scope r \<longrightarrow> gr_grant x \<noteq> gr_grant r
      \<and> (gr_device x = gr_device r \<longrightarrow> gr_generation x < gr_generation r)"
  proof -
    from None assms have x: "s' = s\<lparr>t_grants := t_grants s @ [r]\<rparr>" "\<not> is_blocked s' scope (text_of (fld g ''grant_id''))"
      "\<not> (\<exists>x \<in> set (t_grants s). gr_scope x = scope \<and> gr_device x = gr_device r \<and> gr_generation r \<le> gr_generation x)"
      by (auto simp: remember_grant_def rbind_ok ensure_ok dump_ok Let_def insert_ok grant_row_of_def r_def)
    show "s' = s\<lparr>t_grants := t_grants s @ [r]\<rparr>" by (rule x(1))
    show "\<not> is_blocked s scope (text_of (fld g ''grant_id''))" using x(1,2) by (simp add: is_blocked_def)
    show "\<forall>x \<in> set (t_grants s). gr_scope x = gr_scope r \<longrightarrow> gr_grant x \<noteq> gr_grant r
      \<and> (gr_device x = gr_device r \<longrightarrow> gr_generation x < gr_generation r)"
      using None x(3) unfolding find_None_iff by (auto simp: r_def grant_row_of_def not_le)
  qed
  have "known_grant scope g (t_grants s @ [r])" by (auto simp: known_grant_def r_def grant_row_of_def)
  with s' b n show ?thesis by (intro exI [of _ "t_grants s @ [r]"]) (auto intro: generation_order_snoc)
qed

lemma remember_grants_fold:
  "rfold (remember_grant scope earlier) gl s = Inr s' \<Longrightarrow>
     \<exists>gs. s' = s\<lparr>t_grants := gs\<rparr> \<and> prefix (t_grants s) gs \<and> (\<forall>g \<in> set gl. known_grant scope g gs)
     \<and> (generation_order (t_grants s) \<longrightarrow> generation_order gs)"
proof (induction gl arbitrary: s)
  case Nil
  then show ?case by (intro exI [of _ "t_grants s"]) auto
next
  case (Cons g gl)
  then obtain s1 where 1: "remember_grant scope earlier g s = Inr s1" and 2: "rfold (remember_grant scope earlier) gl s1 = Inr s'"
    by (auto simp: rbind_ok)
  from remember_grant_D [OF 1] obtain g1 where g1: "s1 = s\<lparr>t_grants := g1\<rparr>" "prefix (t_grants s) g1" "known_grant scope g g1"
    "generation_order (t_grants s) \<longrightarrow> generation_order g1" by blast
  from Cons.IH [OF 2] obtain gs where gs: "s' = s1\<lparr>t_grants := gs\<rparr>" "prefix (t_grants s1) gs"
    "\<forall>g \<in> set gl. known_grant scope g gs" "generation_order (t_grants s1) \<longrightarrow> generation_order gs" by blast
  have "known_grant scope g gs"
    using known_grant_mono [OF g1(3)] gs(2) g1(1) by (simp add: set_mono_prefix)
  with g1 gs show ?case by (intro exI [of _ gs]) (auto intro: prefix_order.trans)
qed

lemma remember_grants_D:
  "remember_grants scope body prev s = Inr s' \<Longrightarrow>
     \<exists>gs. s' = s\<lparr>t_grants := gs\<rparr> \<and> prefix (t_grants s) gs \<and> (\<forall>g \<in> set (grants_of body). known_grant scope g gs)
     \<and> (generation_order (t_grants s) \<longrightarrow> generation_order gs)"
  unfolding remember_grants_def by (rule remember_grants_fold)

section \<open>Publishing\<close>

text \<open>The policy part leaves the tables alone or appends one version and new grants.\<close>

lemma publish_policy_D:
  assumes "publish_policy C scope row previous pin old_body policy s = Inr (s1, body)"
  shows "fits MAX_RECORD_SIZE policy"
    and "(s1 = s \<and> body = old_body \<and> sha256_hex C (canonical_text policy) = sha256_hex C (canonical_text previous))
       \<or> (validate_policy_transition C previous policy pin = Inr body
          \<and> fld body ''checkpoint_sequence'' = JInt (sc_seq row) \<and> fld body ''checkpoint_hash'' = opt_json (sc_head row)
          \<and> (\<exists>gs p. s1 = s\<lparr>t_grants := gs, t_policies := t_policies s @ [p]\<rparr> \<and> prefix (t_grants s) gs
                \<and> (\<forall>g \<in> set (grants_of body). known_grant scope g gs)
                \<and> (generation_order (t_grants s) \<longrightarrow> generation_order gs)
                \<and> p = \<lparr>po_scope = scope, po_hash = sha256_hex C (canonical_text policy),
                       po_version = int_of (fld body ''version''), po_record = canonical_text policy\<rparr>))"
proof -
  from assms show f: "fits MAX_RECORD_SIZE policy"
    by (auto simp: publish_policy_def rbind_ok map_err_ok canonical_hash_Inr)
  show "(s1 = s \<and> body = old_body \<and> sha256_hex C (canonical_text policy) = sha256_hex C (canonical_text previous))
       \<or> (validate_policy_transition C previous policy pin = Inr body
          \<and> fld body ''checkpoint_sequence'' = JInt (sc_seq row) \<and> fld body ''checkpoint_hash'' = opt_json (sc_head row)
          \<and> (\<exists>gs p. s1 = s\<lparr>t_grants := gs, t_policies := t_policies s @ [p]\<rparr> \<and> prefix (t_grants s) gs
                \<and> (\<forall>g \<in> set (grants_of body). known_grant scope g gs)
                \<and> (generation_order (t_grants s) \<longrightarrow> generation_order gs)
                \<and> p = \<lparr>po_scope = scope, po_hash = sha256_hex C (canonical_text policy),
                       po_version = int_of (fld body ''version''), po_record = canonical_text policy\<rparr>))"
  proof (cases "sha256_hex C (canonical_text policy) = sha256_hex C (canonical_text previous)")
    case True
    with assms show ?thesis by (auto simp: publish_policy_def rbind_ok map_err_ok canonical_hash_Inr split: if_splits)
  next
    case False
    with assms obtain s0 where t: "validate_policy_transition C previous policy pin = Inr body"
      "fld body ''checkpoint_sequence'' = JInt (sc_seq row)" "fld body ''checkpoint_hash'' = opt_json (sc_head row)"
      and g: "remember_grants scope body old_body s = Inr s0"
      and s1: "s1 = s0\<lparr>t_policies := t_policies s0 @ [\<lparr>po_scope = scope, po_hash = sha256_hex C (canonical_text policy),
                       po_version = int_of (fld body ''version''), po_record = canonical_text policy\<rparr>]\<rparr>"
      by (auto simp: publish_policy_def rbind_ok map_err_ok canonical_hash_Inr ensure_ok dump_ok insert_ok split: if_splits)
    from remember_grants_D [OF g] t s1 show ?thesis by auto
  qed
qed

lemma store_wraps_D:
  "rfold (store_wrap scope) ws rows = Inr rows' \<Longrightarrow>
     rows' = rows @ map (\<lambda>w. \<lparr>wr_scope = scope, wr_device = text_of (fld (fld w ''payload'') ''device_id''),
                               wr_record = canonical_text w\<rparr>) ws"
proof (induction ws arbitrary: rows)
  case (Cons w ws)
  then obtain rows1 where 1: "store_wrap scope w rows = Inr rows1" "rfold (store_wrap scope) ws rows1 = Inr rows'"
    by (auto simp: rbind_ok)
  from 1(1) Cons.IH [OF 1(2)] show ?case by (simp add: store_wrap_def rbind_ok ensure_ok dump_ok insert_ok)
qed simp

lemma publish_new_D:
  assumes "publish_new C lim scope payload digest row previous pin old_body s = Inr (s', status, response)"
  obtains s1 body checked wrs where
    "publish_policy C scope row previous pin old_body (fld payload ''policy'') s = Inr (s1, body)"
    and "fld payload ''expected_head_hash'' = opt_json (sc_head row)"
    and "verify_snapshot C (fld payload ''snapshot'') (fld payload ''policy'') pin (JInt (sc_seq row)) (opt_json (sc_head row)) = Inr checked"
    and "fld checked ''sequence'' = JInt (sc_seq row + 1)"
    and "\<forall>g \<in> set (grants_of body). \<not> is_blocked s1 scope (text_of (fld g ''grant_id''))"
    and "check_wraps C (fld payload ''policy'') pin body (fld payload ''wraps'') = Inr ()"
    and "fits MAX_RECORD_SIZE (fld payload ''snapshot'')"
    and "\<forall>x \<in> set (t_snapshots s1). sn_scope x = scope \<longrightarrow> sn_seq x \<noteq> sc_seq row + 1"
    and "rfold (store_wrap scope) (items (fld payload ''wraps'')) (filter (\<lambda>r. wr_scope r \<noteq> scope) (t_wraps s1)) = Inr wrs"
    and "storage_budget lim scope (set (map (\<lambda>g. fld g ''grant_id'') (grants_of body))
           \<subset> set (map (\<lambda>g. fld g ''grant_id'') (grants_of old_body))) s' = Inr ()"
    and "s' = s1\<lparr>t_snapshots := t_snapshots s1 @ [\<lparr>sn_scope = scope,
                  sn_hash = sha256_hex C (canonical_text (fld payload ''snapshot'')), sn_seq = sc_seq row + 1,
                  sn_record = canonical_text (fld payload ''snapshot'')\<rparr>], t_wraps := wrs,
                t_operations := t_operations s1 @ [\<lparr>op_scope = scope, op_id = text_of (fld payload ''operation_id''),
                  op_digest = digest, op_response = canonical_text response\<rparr>],
                t_scopes := update_scope scope (canonical_text (fld payload ''policy''))
                  (sha256_hex C (canonical_text (fld payload ''snapshot''))) (sc_seq row + 1) (t_scopes s1)\<rparr>"
    and "response = JObj [(''head_hash'', JStr (sha256_hex C (canonical_text (fld payload ''snapshot'')))),
           (''sequence'', JInt (sc_seq row + 1)), (''policy_version'', fld body ''version'')]"
    and "status = 201" and "fits MAX_RECORD_SIZE response"
  using assms
  unfolding publish_new_def Let_def
  by (auto simp: rbind_ok ensure_ok map_err_ok canonical_hash_Inr dump_ok insert_ok each_ok case_prod_unfold
      simp del: prod.collapse split: prod.splits)

section \<open>The other handlers\<close>

lemma create_scope_D:
  assumes "create_scope C admin lim h payload s = Inr (s', r)"
  obtains (retry) "s' = s"
  | (created) candidate pin body scope where "verify_any_policy C candidate pin = Inr body"
      and "normal candidate" and "fits MAX_RECORD_SIZE candidate" and "fld body ''version'' = JInt 1"
      and "grants_of body = []" and "fld body ''scope_id'' = JStr scope" and "is_uuid4 scope"
      and "fld body ''checkpoint_sequence'' = JInt 0"
      and "\<forall>x \<in> set (t_scopes s). sc_id x \<noteq> scope"
      and "\<forall>x \<in> set (t_policies s). po_scope x = scope \<longrightarrow> po_version x \<noteq> 1"
      and "s' = s\<lparr>t_scopes := t_scopes s @ [\<lparr>sc_id = scope, sc_pin = b64 pin, sc_policy = canonical_text candidate,
                                           sc_head = None, sc_seq = 0\<rparr>],
                 t_policies := t_policies s @ [\<lparr>po_scope = scope, po_hash = sha256_hex C (canonical_text candidate),
                                           po_version = 1, po_record = canonical_text candidate\<rparr>]\<rparr>"
      and "storage_budget lim scope False s' = Inr ()"
proof -
  from assms obtain candidate pin body scope where
    c: "parse_record MAX_POLICY_SIZE (fld payload ''policy'') = Inr candidate"
    and v: "verify_any_policy C candidate pin = Inr body" "fits MAX_RECORD_SIZE candidate" "fld body ''version'' = JInt 1"
      "grants_of body = []" "fld body ''checkpoint_sequence'' = JInt 0" "fld body ''scope_id'' = JStr scope" "is_uuid4 scope"
    and q: "(case find (\<lambda>r. po_scope r = scope \<and> po_version r = 1) (t_policies s) of
        Some row \<Rightarrow>
          rbind (ensure (po_record row = canonical_text candidate) (Status 409 ''scope_exists'')) (\<lambda>_.
          Inr (s, 200, JObj [(''scope_id'', JStr scope)]))
      | None \<Rightarrow>
          rbind (map_err Proto (encode_key pin)) (\<lambda>key.
          rbind (insert_scope \<lparr>sc_id = scope, sc_pin = key, sc_policy = canonical_text candidate, sc_head = None, sc_seq = 0\<rparr> (t_scopes s)) (\<lambda>scs.
          rbind (map_err Proto (canonical_hash C candidate)) (\<lambda>hash.
          rbind (insert_policy \<lparr>po_scope = scope, po_hash = hash, po_version = 1, po_record = canonical_text candidate\<rparr> (t_policies s)) (\<lambda>ps.
          let s' = s\<lparr>t_scopes := scs, t_policies := ps\<rparr> in
          rbind (storage_budget lim scope False s') (\<lambda>_.
          Inr (s', 201, JObj [(''scope_id'', JStr scope)]))))))) = Inr (s', r)"
    unfolding create_scope_def
    by (auto simp: rbind_ok [of "map_err _ _"] rbind_ok [of "authenticate_admin _ _ _"] rbind_ok [of "unsigned_payload _ _"]
        rbind_ok [of "ensure _ _" "\<lambda>_. rbind (uuid_text _) _"] rbind_ok [of "uuid_text _"] rbind_ok [of "dump_record _"]
        rbind_ok [of "api_fields _ _"] map_err_ok unsigned_payload_ok ensure_ok uuid_text_ok dump_ok
        split del: option.split)
  have n: "normal candidate" using parse_record_Inr [OF _ c] by simp
  show ?thesis
  proof (cases "find (\<lambda>r. po_scope r = scope \<and> po_version r = 1) (t_policies s)")
    case (Some row)
    with q show ?thesis by (intro retry) (auto simp: rbind_ok ensure_ok)
  next
    case None
    with q show ?thesis
      by (intro created [OF v(1) n v(2-4,6,7,5)])
        (auto simp: rbind_ok map_err_ok encode_decode_key canonical_hash_Inr insert_ok find_None_iff Let_def)
  qed
qed

lemma enqueue_D:
  assumes "enqueue lim now scope device body rid digest encoded s = Inr (s', r)"
  shows "s' = s\<lparr>t_submissions := t_submissions s @ [new_submission now scope device body rid digest encoded]\<rparr>"
    and "\<forall>x \<in> set (t_submissions s). su_scope x = scope \<longrightarrow> su_device x = device \<longrightarrow> su_request x \<noteq> rid"
    and "len (pending scope s) < MAX_SCOPE_PENDING"
    and "len (filter (\<lambda>r. su_device r = device) (pending scope s)) < MAX_DEVICE_PENDING"
    and "sum_list (map su_size (pending scope s)) + len encoded \<le> MAX_SCOPE_PENDING_BYTES"
    and "len (filter (\<lambda>r. su_scope r = scope \<and> su_device r = device \<and> su_created r > now - 60) (t_submissions s))
           < MAX_CREATES_PER_MINUTE"
    and "storage_budget lim scope False s' = Inr ()" and "r = (201, uploaded rid)"
  using assms by (auto simp: enqueue_def rbind_ok ensure_ok insert_ok Let_def not_le not_less new_submission_def)

lemma historical_policy_ok [ok_simps]:
  "historical_policy scope hash e s = Inr p \<longleftrightarrow>
     (\<exists>known. find_policy scope hash s = Some known \<and> load_record (po_record known) = Inr p)"
  by (auto simp: historical_policy_def split: option.splits)

lemma submit_D:
  assumes "submit C lim now scope h payload s = Inr (s', r)"
  obtains row current pin cbody device known policy body rid where
    "relay_auth C s scope h ''create'' = Inr (row, current, pin, cbody, device)"
    and "find_policy scope (po_hash known) s = Some known" and "load_record (po_record known) = Inr policy"
    and "verify_create C (fld payload ''submission'') policy pin current = Inr body"
    and "fld body ''device_id'' = JStr device" and "fld body ''request_id'' = JStr rid" and "is_uuid4 rid"
    and "fits MAX_SUBMISSION (fld payload ''submission'')"
    and "submit_once lim now scope device body rid (sha256_hex C (canonical_text (fld payload ''submission'')))
                (canonical_text (fld payload ''submission'')) s = Inr (s', r)"
proof -
  from assms obtain row current pin cbody device ph known policy body rid encoded where
    a: "relay_auth C s scope h ''create'' = Inr (row, current, pin, cbody, device)"
    and k: "find_policy scope ph s = Some known" and l: "load_record (po_record known) = Inr policy"
    and v: "verify_create C (fld payload ''submission'') policy pin current = Inr body"
    and d: "fld body ''device_id'' = JStr device" "fld body ''request_id'' = JStr rid" "is_uuid4 rid"
    and e: "canonical_bytes MAX_SUBMISSION (fld payload ''submission'') = Inr encoded"
    and q: "submit_once lim now scope device body rid (sha256_hex C (canonical_text (fld payload ''submission''))) encoded s = Inr (s', r)"
    by (auto simp: submit_def Let_def rbind_ok map_err_ok ensure_ok uuid_text_ok canonical_hash_Inr historical_policy_ok)
  have k': "find_policy scope (po_hash known) s = Some known"
    using k by (auto simp: find_policy_def dest: find_ok(2))
  have f: "fits MAX_SUBMISSION (fld payload ''submission'')" "encoded = canonical_text (fld payload ''submission'')"
    using e by (auto simp: canonical_bytes_eq split: if_splits)
  show ?thesis by (rule that [OF a k' l v d f(1) q [unfolded f(2)]])
qed

lemma submit_once_D:
  "submit_once lim now scope device body rid digest encoded s = Inr (s', r) \<Longrightarrow>
     s' = s \<or> enqueue lim now scope device body rid digest encoded s = Inr (s', r)"
  by (auto simp: submit_once_def rbind_ok ensure_ok split: option.splits)

lemma submit_effect:
  assumes "submit C lim now scope h payload s = Inr (s', r)"
  obtains "s' = s"
  | device body rid digest encoded where "enqueue lim now scope device body rid digest encoded s = Inr (s', r)"
  by (rule submit_D [OF assms]) (use submit_once_D in blast)

lemma acknowledge_D:
  assumes "acknowledge C lim scope h rid payload s = Inr (s', r)"
  obtains row0 current pin cbody mdevice receipt device row historical submission checked encoded store where
    "relay_auth C s scope h ''receipt'' = Inr (row0, current, pin, cbody, mdevice)"
    and "find_submission scope device rid s = Some row"
    and "historical_policy scope (su_policy row) (Status 409 ''policy_history_missing'') s = Inr historical"
    and "load_record (su_record row) = Inr submission"
    and "parse_record MAX_CONTROL_SIZE (fld payload ''receipt'') = Inr receipt"
    and "verify_receipt C receipt submission historical pin = Inr checked"
    and "dump_record receipt = Inr encoded"
    and "receipt_stored C scope row submission historical pin current checked encoded s = Inr store"
    and "s' = (if store then s\<lparr>t_submissions := set_receipt scope device rid encoded (t_submissions s)\<rparr> else s)"
    and "store \<longrightarrow> storage_budget lim scope True s' = Inr ()"
  using assms
  by (auto simp: acknowledge_def Let_def rbind_ok map_err_ok uuid_text_ok unsigned_payload_ok split: option.splits if_splits)

lemma block_D:
  assumes "block C lim scope h payload s = Inr (s', r)"
  obtains row current pin cbody device revocation historical body where
    "relay_auth C s scope h ''revoke'' = Inr (row, current, pin, cbody, device)"
    and "verify_revocation C revocation historical pin = Inr body"
    and "block_grant scope cbody body (canonical_text revocation) s = Inr s'"
    and "storage_budget lim scope True s' = Inr ()"
  using assms by (auto simp: block_def Let_def rbind_ok map_err_ok dump_ok)

lemma block_grant_D:
  assumes "block_grant scope cbody body encoded s = Inr s'"
  shows "is_blocked s' scope (text_of (fld body ''grant_id''))"
    and "\<exists>bs. s' = s\<lparr>t_blocks := t_blocks s @ bs\<rparr>"
proof -
  show "is_blocked s' scope (text_of (fld body ''grant_id''))"
    using assms by (auto simp: block_grant_def is_blocked_def Let_def rbind_ok ensure_ok map_err_ok insert_ok
        split: option.splits dest: find_ok)
  show "\<exists>bs. s' = s\<lparr>t_blocks := t_blocks s @ bs\<rparr>"
  proof (cases "find (\<lambda>b. bl_scope b = scope \<and> bl_grant b = text_of (fld body ''grant_id'')) (t_blocks s)")
    case (Some b)
    with assms show ?thesis by (intro exI [of _ "[]"]) (simp add: block_grant_def Let_def rbind_ok ensure_ok)
  next
    case None
    with assms show ?thesis by (auto simp: block_grant_def Let_def rbind_ok map_err_ok insert_ok)
  qed
qed

lemma block_effect:
  assumes "block C lim scope h payload s = Inr (s', r)"
  shows "\<exists>bs. s' = s\<lparr>t_blocks := t_blocks s @ bs\<rparr>"
proof -
  from assms obtain cbody body e where "block_grant scope cbody body e s = Inr s'" by (rule block_D)
  then show ?thesis by (rule block_grant_D(2))
qed

end
