(* ===== verification/Relay_Invariants.thy ===== *)
theory Relay_Invariants
  imports Relay_Steps
begin

text \<open>
  The relay under any sequence of requests, those that raise included: what never changes,
  what only grows, and the chain of snapshots. \<open>relay_step\<close> is one committed request;
  \<open>Transactions.transactional\<close> is interpreted on it.
\<close>

section \<open>Requests\<close>

datatype relay_request =
    CreateScope headers json
  | Publish string headers json
  | Submit int string headers json
  | Acknowledge string headers string json
  | Block string headers json

primrec relay_step ::
  "crypto \<Rightarrow> string \<Rightarrow> limits \<Rightarrow> relay_request \<Rightarrow> relay \<Rightarrow> rerr + relay \<times> response" where
  "relay_step C admin lim (CreateScope h p) s = create_scope C admin lim h p s"
| "relay_step C admin lim (Publish scope h p) s = publish C lim scope h p s"
| "relay_step C admin lim (Submit now scope h p) s = submit C lim now scope h p s"
| "relay_step C admin lim (Acknowledge scope h rid p) s =
     rbind (acknowledge C lim scope h rid p s) (\<lambda>(s', r). Inr (s', 200, r))"
| "relay_step C admin lim (Block scope h p) s =
     rbind (block C lim scope h p s) (\<lambda>(s', r). Inr (s', 200, r))"

section \<open>What only grows\<close>

definition grows :: "('a \<Rightarrow> 'a \<Rightarrow> bool) \<Rightarrow> 'a list \<Rightarrow> 'a list \<Rightarrow> bool" where
  "grows R xs ys \<longleftrightarrow> (\<exists>us vs. ys = us @ vs \<and> list_all2 R xs us)"

lemma grows_refl: "(\<And>x. R x x) \<Longrightarrow> grows R xs xs"
  unfolding grows_def by (intro exI [of _ xs] exI [of _ "[]"]) (simp add: list_all2_refl)

lemma grows_append: "(\<And>x. R x x) \<Longrightarrow> grows R xs (xs @ ys)"
  unfolding grows_def by (intro exI [of _ xs] exI [of _ ys]) (simp add: list_all2_refl)

lemma grows_map: "(\<And>x. x \<in> set xs \<Longrightarrow> R x (f x)) \<Longrightarrow> grows R xs (map f xs)"
  unfolding grows_def by (intro exI [of _ "map f xs"] exI [of _ "[]"]) (auto simp: list_all2_conv_all_nth)

lemma grows_trans:
  assumes R: "\<And>x y z. R x y \<Longrightarrow> R y z \<Longrightarrow> R x z" and "grows R xs ys" and "grows R ys zs"
  shows "grows R xs zs"
proof -
  from assms(2) obtain us vs where y: "ys = us @ vs" "list_all2 R xs us" by (auto simp: grows_def)
  with assms(3) obtain us' vs' ws where z: "zs = (us' @ vs') @ ws" "list_all2 R us us'"
    by (auto simp: grows_def list_all2_append1)
  have "list_all2 R xs us'" by (rule list_all2_trans [OF R y(2) z(2)])
  with z(1) show ?thesis by (auto simp: grows_def)
qed

lemma grows_set: "grows R xs ys \<Longrightarrow> x \<in> set xs \<Longrightarrow> \<exists>y \<in> set ys. R x y"
  by (fastforce simp: grows_def list_all2_conv_all_nth in_set_conv_nth nth_append)

lemma grows_eq: "grows (=) xs ys \<longleftrightarrow> prefix xs ys"
  by (auto simp: grows_def prefix_def list.rel_eq)

text \<open>The outcome that a stored receipt states: status and entry.\<close>

definition outcome :: "string \<Rightarrow> (json \<times> json) option" where
  "outcome t = (case load_record t of Inl _ \<Rightarrow> None
     | Inr v \<Rightarrow> Some (fld (fld v ''payload'') ''status'', fld (fld v ''payload'') ''canonical_entry_id''))"

text \<open>A receipt is final, but for \<open>accepted\<close>, which may become \<open>published\<close> for the same entry.\<close>

definition receipt_le :: "string option \<Rightarrow> string option \<Rightarrow> bool" where
  "receipt_le a b \<longleftrightarrow> a = None \<or> a = b \<or>
     (\<exists>s t e. a = Some s \<and> b = Some t \<and> outcome s = Some (JStr ''accepted'', e) \<and> outcome t = Some (JStr ''published'', e))"

lemma receipt_le_refl: "receipt_le a a"
  by (simp add: receipt_le_def)

lemma receipt_le_trans: "receipt_le a b \<Longrightarrow> receipt_le b c \<Longrightarrow> receipt_le a c"
  by (auto simp: receipt_le_def)

definition submission_le :: "submission_row \<Rightarrow> submission_row \<Rightarrow> bool" where
  "submission_le x y \<longleftrightarrow> receipt_le (su_receipt x) (su_receipt y) \<and> y = x\<lparr>su_receipt := su_receipt y\<rparr>"

definition scope_le :: "scope_row \<Rightarrow> scope_row \<Rightarrow> bool" where
  "scope_le x y \<longleftrightarrow> sc_id y = sc_id x \<and> sc_pin y = sc_pin x \<and> sc_seq x \<le> sc_seq y"

definition relay_le :: "relay \<Rightarrow> relay \<Rightarrow> bool" where
  "relay_le s t \<longleftrightarrow> grows scope_le (t_scopes s) (t_scopes t) \<and> prefix (t_policies s) (t_policies t)
     \<and> prefix (t_snapshots s) (t_snapshots t) \<and> prefix (t_grants s) (t_grants t) \<and> prefix (t_blocks s) (t_blocks t)
     \<and> prefix (t_operations s) (t_operations t) \<and> grows submission_le (t_submissions s) (t_submissions t)"

lemma submission_le_refl: "submission_le x x"
  by (simp add: submission_le_def receipt_le_refl)

lemma submission_le_trans: "submission_le x y \<Longrightarrow> submission_le y z \<Longrightarrow> submission_le x z"
  by (cases x; cases y; cases z) (auto simp: submission_le_def intro: receipt_le_trans)

lemma scope_le_refl: "scope_le x x" and scope_le_trans: "scope_le x y \<Longrightarrow> scope_le y z \<Longrightarrow> scope_le x z"
  by (auto simp: scope_le_def)

lemma relay_le_refl: "relay_le s s"
  by (auto simp: relay_le_def intro!: grows_refl scope_le_refl submission_le_refl)

lemma relay_le_trans: "relay_le s t \<Longrightarrow> relay_le t u \<Longrightarrow> relay_le s u"
  unfolding relay_le_def
  by (intro conjI; (elim conjE)) (blast intro: grows_trans [of scope_le] grows_trans [of submission_le]
      scope_le_trans submission_le_trans prefix_order.trans)+

section \<open>The chain of snapshots\<close>

definition snaps :: "string \<Rightarrow> relay \<Rightarrow> snapshot_row list" where
  "snaps scope s = filter (\<lambda>x. sn_scope x = scope) (t_snapshots s)"

text \<open>The stored record is a snapshot that the master signed, with this parent and the row's sequence.\<close>

definition snapshot_parent :: "crypto \<Rightarrow> snapshot_row \<Rightarrow> json \<Rightarrow> bool" where
  "snapshot_parent C x h \<longleftrightarrow> (\<exists>v pin body. sn_record x = canonical_text v
     \<and> verify_record C MAX_RECORD_SIZE v ''snapshot'' pin = Inr body
     \<and> fld body ''parent_hash'' = h \<and> fld body ''sequence'' = JInt (sn_seq x))"

fun linked :: "('r \<Rightarrow> json \<Rightarrow> bool) \<Rightarrow> ('r \<Rightarrow> string) \<Rightarrow> json \<Rightarrow> 'r list \<Rightarrow> bool" where
  "linked parent hash h [] \<longleftrightarrow> True"
| "linked parent hash h (x # xs) \<longleftrightarrow> parent x h \<and> linked parent hash (JStr (hash x)) xs"

definition head_of :: "snapshot_row list \<Rightarrow> string option" where
  "head_of xs = (if xs = [] then None else Some (sn_hash (last xs)))"

lemma linked_snoc: "linked parent hash h (xs @ [x]) \<longleftrightarrow>
    linked parent hash h xs \<and> parent x (if xs = [] then h else JStr (hash (last xs)))"
  by (induction xs arbitrary: h) auto

definition chain_ok :: "crypto \<Rightarrow> relay \<Rightarrow> scope_row \<Rightarrow> bool" where
  "chain_ok C s r \<longleftrightarrow> 0 \<le> sc_seq r \<and> map sn_seq (snaps (sc_id r) s) = [1..sc_seq r]
     \<and> sc_head r = head_of (snaps (sc_id r) s) \<and> linked (snapshot_parent C) sn_hash JNull (snaps (sc_id r) s)"

definition su_key :: "submission_row \<Rightarrow> string \<times> string \<times> string" where
  "su_key r = (su_scope r, su_device r, su_request r)"

definition relay_inv :: "crypto \<Rightarrow> relay \<Rightarrow> bool" where
  "relay_inv C s \<longleftrightarrow> distinct (map sc_id (t_scopes s)) \<and> (\<forall>r \<in> set (t_scopes s). chain_ok C s r)
     \<and> (\<forall>x \<in> set (t_snapshots s). sn_hash x = sha256_hex C (sn_record x) \<and> sn_scope x \<in> sc_id ` set (t_scopes s))
     \<and> (\<forall>x \<in> set (t_policies s). po_hash x = sha256_hex C (po_record x))
     \<and> generation_order (t_grants s) \<and> distinct (map su_key (t_submissions s))"

lemma relay_inv_empty: "relay_inv C empty_relay"
  by (simp add: relay_inv_def empty_relay_def generation_order_def)

text \<open>The tables the invariant reads.\<close>

lemma relay_inv_cong:
  "t_scopes s' = t_scopes s \<Longrightarrow> t_snapshots s' = t_snapshots s \<Longrightarrow> t_policies s' = t_policies s \<Longrightarrow>
     t_grants s' = t_grants s \<Longrightarrow> map su_key (t_submissions s') = map su_key (t_submissions s) \<Longrightarrow>
     relay_inv C s' = relay_inv C s"
  by (simp add: relay_inv_def chain_ok_def snaps_def)

section \<open>Every handler keeps the invariant\<close>

lemma create_scope_keeps:
  assumes inv: "relay_inv C s" and c: "create_scope C admin lim h payload s = Inr (s', r)"
  shows "relay_inv C s' \<and> relay_le s s'"
  using c
proof (cases rule: create_scope_D)
  case retry
  with inv show ?thesis by (simp add: relay_le_refl)
next
  case (created candidate pin body scope)
  have none: "\<forall>x \<in> set (t_snapshots s). sn_scope x \<noteq> scope"
    using inv created(9) unfolding relay_inv_def by fastforce
  then have "filter (\<lambda>x. sn_scope x = scope) (t_snapshots s) = []" by (auto simp: filter_empty_conv)
  then have new: "chain_ok C s' \<lparr>sc_id = scope, sc_pin = b64 pin, sc_policy = canonical_text candidate, sc_head = None, sc_seq = 0\<rparr>"
    using created(11) by (simp add: chain_ok_def snaps_def head_of_def)
  have old: "chain_ok C s' x = chain_ok C s x" for x using created(11) by (simp add: chain_ok_def snaps_def)
  have "relay_inv C s'"
    using inv created(9,11) new old unfolding relay_inv_def by (auto simp: image_iff)
  moreover have "relay_le s s'"
    using created(11) by (auto simp: relay_le_def intro!: grows_append grows_refl scope_le_refl submission_le_refl)
  ultimately show ?thesis by simp
qed

lemma submit_keeps:
  assumes inv: "relay_inv C s" and c: "submit C lim now scope h payload s = Inr (s', r)"
  shows "relay_inv C s' \<and> relay_le s s'"
  using c
proof (cases rule: submit_effect)
  case 1
  with inv show ?thesis by (simp add: relay_le_refl)
next
  case (2 device body rid digest encoded)
  note s' = enqueue_D(1) [OF 2]
  have "(scope, device, rid) \<notin> su_key ` set (t_submissions s)"
    using enqueue_D(2) [OF 2] by (auto simp: su_key_def)
  then have "distinct (map su_key (t_submissions s'))"
    using inv by (simp add: s' relay_inv_def new_submission_def su_key_def)
  then have "relay_inv C s'" using inv by (simp add: s' relay_inv_def chain_ok_def snaps_def)
  moreover have "relay_le s s'"
    by (auto simp: relay_le_def s' intro!: grows_append grows_refl scope_le_refl submission_le_refl)
  ultimately show ?thesis by simp
qed

lemma block_keeps:
  assumes inv: "relay_inv C s" and c: "block C lim scope h payload s = Inr (s', r)"
  shows "relay_inv C s' \<and> relay_le s s'"
proof -
  from block_effect [OF c] obtain bs where s': "s' = s\<lparr>t_blocks := t_blocks s @ bs\<rparr>" by blast
  have "relay_inv C s'" using inv by (subst relay_inv_cong [of s' s]) (simp_all add: s')
  moreover have "relay_le s s'"
    by (auto simp: relay_le_def s' intro!: grows_refl scope_le_refl submission_le_refl)
  ultimately show ?thesis by simp
qed

lemma publish_D:
  assumes "publish C lim scope h payload s = Inr (s', r)"
  obtains (retry) x row previous pin old_body device where "s' = s" and "x \<in> set (t_operations s)" and "op_scope x = scope"
      and "JStr (op_id x) = fld payload ''operation_id''"
      and "op_digest x = sha256_hex C (canonical_text payload)" and "fst r = 200"
      and "load_record (op_response x) = Inr (snd r)"
      and "relay_auth C s scope h ''publish'' = Inr (row, previous, pin, old_body, device)"
  | (new) row previous pin old_body device status response where
      "relay_auth C s scope h ''publish'' = Inr (row, previous, pin, old_body, device)"
      and "publish_new C lim scope payload (sha256_hex C (canonical_text payload)) row previous pin old_body s
             = Inr (s', status, response)" and "r = (status, response)"
      and "is_uuid4 (text_of (fld payload ''operation_id''))" and "is_str (fld payload ''operation_id'')"
proof -
  from assms obtain oid row previous pin old_body device where o': "fld payload ''operation_id'' = JStr oid" "is_uuid4 oid"
    and a: "relay_auth C s scope h ''publish'' = Inr (row, previous, pin, old_body, device)"
    and q: "(case find (\<lambda>r. op_scope r = scope \<and> op_id r = oid) (t_operations s) of
        Some retry \<Rightarrow>
          rbind (ensure (op_digest retry = sha256_hex C (canonical_text payload)) (Status 409 ''operation_conflict'')) (\<lambda>_.
          rbind (load_record (op_response retry)) (\<lambda>v. Inr (s, 200, v)))
      | None \<Rightarrow> publish_new C lim scope payload (sha256_hex C (canonical_text payload)) row previous pin old_body s) = Inr (s', r)"
    unfolding publish_def
    by (auto simp: rbind_ok [of "api_fields _ _"] rbind_ok [of "uuid_text _"] rbind_ok [of "map_err _ _"]
        rbind_ok [of "relay_auth _ _ _ _ _"] uuid_text_ok map_err_ok canonical_hash_Inr split del: option.split)
  show ?thesis
  proof (cases "find (\<lambda>r. op_scope r = scope \<and> op_id r = oid) (t_operations s)")
    case None
    with q a o' show ?thesis by (intro new [of row previous pin old_body device "fst r" "snd r"]) auto
  next
    case (Some x)
    with find_ok [OF Some] q o' a show ?thesis
      by (intro retry [of x]) (auto simp: rbind_ok ensure_ok)
  qed
qed

lemma update_scope_ids [simp]: "map sc_id (update_scope scope p hash sq rows) = map sc_id rows"
  by (induction rows) (auto simp: update_scope_def)

lemma update_scope_mem:
  assumes "r' \<in> set (update_scope scope p hash sq rows)"
  shows "sc_id r' = scope \<Longrightarrow> sc_seq r' = sq \<and> sc_head r' = Some hash \<and> sc_policy r' = p"
    and "sc_id r' \<noteq> scope \<Longrightarrow> r' \<in> set rows"
    and "\<exists>y \<in> set rows. sc_id y = sc_id r' \<and> sc_pin y = sc_pin r'"
proof -
  obtain y where y: "y \<in> set rows"
    "r' = (if sc_id y = scope then y\<lparr>sc_policy := p, sc_head := Some hash, sc_seq := sq\<rparr> else y)"
    using assms unfolding update_scope_def set_map by blast
  show "sc_id r' = scope \<Longrightarrow> sc_seq r' = sq \<and> sc_head r' = Some hash \<and> sc_policy r' = p"
    using y(2) by (cases "sc_id y = scope") simp_all
  show "sc_id r' \<noteq> scope \<Longrightarrow> r' \<in> set rows" using y by (cases "sc_id y = scope") simp_all
  show "\<exists>y \<in> set rows. sc_id y = sc_id r' \<and> sc_pin y = sc_pin r'"
    using y by (intro bexI [of _ y]) (cases "sc_id y = scope"; simp)+
qed

lemma publish_new_keeps:
  assumes inv: "relay_inv C s" and row: "row \<in> set (t_scopes s)" "sc_id row = scope"
    and p: "publish_new C lim scope payload digest row previous pin old_body s = Inr (s', status, response)"
  shows "relay_inv C s' \<and> relay_le s s'"
proof -
  obtain s1 body checked wrs where
    pp: "publish_policy C scope row previous pin old_body (fld payload ''policy'') s = Inr (s1, body)"
    and vs: "verify_snapshot C (fld payload ''snapshot'') (fld payload ''policy'') pin (JInt (sc_seq row)) (opt_json (sc_head row)) = Inr checked"
    and sq: "fld checked ''sequence'' = JInt (sc_seq row + 1)"
    and s': "s' = s1\<lparr>t_snapshots := t_snapshots s1 @ [\<lparr>sn_scope = scope,
                  sn_hash = sha256_hex C (canonical_text (fld payload ''snapshot'')), sn_seq = sc_seq row + 1,
                  sn_record = canonical_text (fld payload ''snapshot'')\<rparr>], t_wraps := wrs,
                t_operations := t_operations s1 @ [\<lparr>op_scope = scope, op_id = text_of (fld payload ''operation_id''),
                  op_digest = digest, op_response = canonical_text response\<rparr>],
                t_scopes := update_scope scope (canonical_text (fld payload ''policy''))
                  (sha256_hex C (canonical_text (fld payload ''snapshot''))) (sc_seq row + 1) (t_scopes s1)\<rparr>"
    by (rule publish_new_D [OF p])
  define x where "x = \<lparr>sn_scope = scope, sn_hash = sha256_hex C (canonical_text (fld payload ''snapshot'')),
    sn_seq = sc_seq row + 1, sn_record = canonical_text (fld payload ''snapshot'')\<rparr>"
  from publish_policy_D(2) [OF pp] obtain gs ps where s1: "s1 = s\<lparr>t_grants := gs, t_policies := ps\<rparr>"
    and g: "prefix (t_grants s) gs" "generation_order gs" and ps: "prefix (t_policies s) ps"
      "\<forall>y \<in> set ps. po_hash y = sha256_hex C (po_record y)"
  proof (elim disjE conjE exE)
    assume "s1 = s"
    with inv that [of "t_policies s" "t_grants s"] show ?thesis by (simp add: relay_inv_def)
  next
    fix gs q assume "s1 = s\<lparr>t_grants := gs, t_policies := t_policies s @ [q]\<rparr>" "prefix (t_grants s) gs"
      "generation_order (t_grants s) \<longrightarrow> generation_order gs"
      "q = \<lparr>po_scope = scope, po_hash = sha256_hex C (canonical_text (fld payload ''policy'')),
             po_version = int_of (fld body ''version''), po_record = canonical_text (fld payload ''policy'')\<rparr>"
    with inv that [of "t_policies s @ [q]" gs] show ?thesis by (auto simp: relay_inv_def)
  qed
  have tables: "t_scopes s' = update_scope scope (canonical_text (fld payload ''policy'')) (sn_hash x) (sn_seq x) (t_scopes s)"
    "t_snapshots s' = t_snapshots s @ [x]" "t_policies s' = ps" "t_grants s' = gs" "t_submissions s' = t_submissions s"
    "t_blocks s' = t_blocks s" "prefix (t_operations s) (t_operations s')"
    by (simp_all add: s' s1 x_def)
  have chain: "chain_ok C s row" using inv row by (simp add: relay_inv_def)
  have sn: "snaps scope s' = snaps scope s @ [x]" "\<And>z. z \<noteq> scope \<Longrightarrow> snaps z s' = snaps z s"
    by (auto simp: snaps_def tables x_def)
  from chain row have c: "0 \<le> sc_seq row" "map sn_seq (snaps scope s) = [1..sc_seq row]"
    "sc_head row = head_of (snaps scope s)" "linked (snapshot_parent C) sn_hash JNull (snaps scope s)" by (simp_all add: chain_ok_def)
  have parent: "fld checked ''parent_hash'' = (if snaps scope s = [] then JNull else JStr (sn_hash (last (snaps scope s))))"
  proof (cases "snaps scope s = []")
    case True
    with c(1,2) have "sc_seq row = 0" by simp
    with vs sq True show ?thesis by (auto simp: verify_snapshot_ok chained_def)
  next
    case False
    with vs c(3) show ?thesis by (auto simp: verify_snapshot_ok chained_def head_of_def opt_json_def)
  qed
  have link: "snapshot_parent C x (if snaps scope s = [] then JNull else JStr (sn_hash (last (snaps scope s))))"
  proof -
    have "verify_record C MAX_RECORD_SIZE (fld payload ''snapshot'') ''snapshot'' pin = Inr checked"
      using vs by (auto simp: verify_snapshot_ok)
    then show ?thesis
      unfolding snapshot_parent_def using sq parent
      by (intro exI [of _ "fld payload ''snapshot''"] exI [of _ pin] exI [of _ checked]) (simp add: x_def)
  qed
  have new: "chain_ok C s' r'" if "sc_id r' = scope" "sc_seq r' = sc_seq row + 1" "sc_head r' = Some (sn_hash x)" for r'
    using c link that upto_rec2 [of 1 "sc_seq row + 1"]
    by (simp add: chain_ok_def sn linked_snoc head_of_def x_def)
  have "chain_ok C s' r'" if r': "r' \<in> set (t_scopes s')" for r'
  proof (cases "sc_id r' = scope")
    case True
    from update_scope_mem(1) [OF r' [unfolded tables(1)] True]
    have "sc_seq r' = sc_seq row + 1" "sc_head r' = Some (sn_hash x)" by (simp_all add: x_def)
    with True show ?thesis by (intro new)
  next
    case False
    from update_scope_mem(2) [OF r' [unfolded tables(1)] False] inv have "chain_ok C s r'" by (simp add: relay_inv_def)
    with False show ?thesis by (simp add: chain_ok_def sn)
  qed
  moreover have ids: "map sc_id (t_scopes s') = map sc_id (t_scopes s)" by (simp add: tables)
  then have "sc_id ` set (t_scopes s') = sc_id ` set (t_scopes s)" by (metis set_map)
  ultimately have "relay_inv C s'"
    using inv row g(2) ps(2) ids unfolding relay_inv_def by (auto simp: tables(2-5) x_def)
  moreover have "grows scope_le (t_scopes s) (t_scopes s')"
  proof -
    have "scope_le y (if sc_id y = scope then y\<lparr>sc_policy := canonical_text (fld payload ''policy''),
        sc_head := Some (sn_hash x), sc_seq := sn_seq x\<rparr> else y)" if "y \<in> set (t_scopes s)" for y
    proof -
      have "y = row" if "sc_id y = scope"
        using inv row \<open>y \<in> set (t_scopes s)\<close> that distinct_map_unique [of sc_id "t_scopes s" y row]
        by (simp add: relay_inv_def)
      then show ?thesis by (auto simp: scope_le_def x_def)
    qed
    then show ?thesis unfolding tables(1) update_scope_def by (rule grows_map)
  qed
  ultimately show ?thesis
    using g(1) ps(1) tables(7) by (simp add: relay_le_def tables(2-6) grows_refl submission_le_refl)
qed

lemma publish_policy_submissions:
  assumes "publish_policy C scope row previous pin old_body policy s = Inr (s1, body)"
  shows "t_submissions s1 = t_submissions s"
  using publish_policy_D(2) [OF assms] by (elim disjE conjE exE) simp_all

lemma publish_new_submissions:
  assumes "publish_new C lim scope payload digest row previous pin old_body s = Inr (s', status, response)"
  shows "t_submissions s' = t_submissions s"
proof -
  obtain s1 body checked wrs where
    pp: "publish_policy C scope row previous pin old_body (fld payload ''policy'') s = Inr (s1, body)"
    and s': "s' = s1\<lparr>t_snapshots := t_snapshots s1 @ [\<lparr>sn_scope = scope,
                  sn_hash = sha256_hex C (canonical_text (fld payload ''snapshot'')), sn_seq = sc_seq row + 1,
                  sn_record = canonical_text (fld payload ''snapshot'')\<rparr>], t_wraps := wrs,
                t_operations := t_operations s1 @ [\<lparr>op_scope = scope, op_id = text_of (fld payload ''operation_id''),
                  op_digest = digest, op_response = canonical_text response\<rparr>],
                t_scopes := update_scope scope (canonical_text (fld payload ''policy''))
                  (sha256_hex C (canonical_text (fld payload ''snapshot''))) (sc_seq row + 1) (t_scopes s1)\<rparr>"
    by (rule publish_new_D [OF assms])
  show ?thesis by (simp add: s' publish_policy_submissions [OF pp])
qed

lemma publish_keeps:
  assumes inv: "relay_inv C s" and p: "publish C lim scope h payload s = Inr (s', r)"
  shows "relay_inv C s' \<and> relay_le s s'"
  using p
proof (cases rule: publish_D)
  case (retry x)
  with inv show ?thesis by (simp add: relay_le_refl)
next
  case (new row previous pin old_body device status response)
  note sc = relay_scope_D [OF relay_auth_D(1) [OF new(1)]]
  show ?thesis by (rule publish_new_keeps [OF inv sc(1,2) new(2)])
qed

section \<open>Receipts\<close>

lemma verify_receipt_payload:
  assumes "verify_receipt C r submission policy pin = Inr body" and "parse_record MAX_CONTROL_SIZE x = Inr r"
  shows "body = fld r ''payload''"
proof -
  have "verify_record C MAX_CONTROL_SIZE r ''receipt'' pin = Inr body"
    using assms(1) by (auto simp: verify_receipt_def rbind_ok)
  from verify_record_payload_of [OF _ assms(2) this] show ?thesis by simp
qed

lemma outcome_text: "normal v \<Longrightarrow> fits MAX_RECORD_SIZE v \<Longrightarrow>
    outcome (canonical_text v) = Some (fld (fld v ''payload'') ''status'', fld (fld v ''payload'') ''canonical_entry_id'')"
proof -
  assume "normal v" "fits MAX_RECORD_SIZE v"
  then have "load_record (canonical_text v) = Inr v" by (simp add: load_ok)
  then show ?thesis by (simp add: outcome_def)
qed

lemma receipt_step_True:
  assumes "receipt_step stored encoded before checked = Inr True"
  shows "fld before ''status'' = JStr ''accepted''" and "fld checked ''status'' = JStr ''published''"
    and "py_eq (fld checked ''canonical_entry_id'') (fld before ''canonical_entry_id'')"
  using assms by (auto simp: receipt_step_def Let_def split: if_splits)

lemma acknowledge_keeps:
  assumes inv: "relay_inv C s" and a: "acknowledge C lim scope h rid payload s = Inr (s', r)"
  shows "relay_inv C s' \<and> relay_le s s'"
proof -
  from a obtain row0 current pin cbody mdevice receipt device row historical submission checked encoded store where
    row: "find_submission scope device rid s = Some row"
    and rc: "parse_record MAX_CONTROL_SIZE (fld payload ''receipt'') = Inr receipt"
    and v: "verify_receipt C receipt submission historical pin = Inr checked"
    and e: "dump_record receipt = Inr encoded"
    and st: "receipt_stored C scope row submission historical pin current checked encoded s = Inr store"
    and s': "s' = (if store then s\<lparr>t_submissions := set_receipt scope device rid encoded (t_submissions s)\<rparr> else s)"
    by (rule acknowledge_D)
  have keys: "map su_key (set_receipt scope device rid encoded rows) = map su_key rows" for rows
    by (induction rows) (auto simp: set_receipt_def su_key_def)
  have i: "relay_inv C s'" using inv s' by (subst relay_inv_cong [of s' s]) (simp_all add: keys)
  have "relay_le s s'"
  proof (cases store)
    case False
    with s' show ?thesis by (simp add: relay_le_refl)
  next
    case True
    have nr: "normal receipt" "fits MAX_RECORD_SIZE receipt" "encoded = canonical_text receipt"
      using parse_record_Inr(1) [OF _ rc] e by (simp_all add: dump_ok)
    have ch: "checked = fld receipt ''payload''" by (rule verify_receipt_payload [OF v rc])
    have le: "receipt_le (su_receipt row) (Some encoded)"
    proof (cases "su_receipt row")
      case None
      then show ?thesis by (simp add: receipt_le_def)
    next
      case (Some stored)
      with st True obtain previous before where pr: "load_record stored = Inr previous"
        and b: "verify_receipt C previous submission historical pin = Inr before"
        and t: "receipt_step stored encoded before checked = Inr True"
        by (auto simp: receipt_stored_def rbind_ok map_err_ok)
      have np: "normal previous" "fits MAX_RECORD_SIZE previous" "stored = canonical_text previous" using pr by (simp_all add: load_ok)
      have "verify_record C MAX_CONTROL_SIZE previous ''receipt'' pin = Inr before"
        using b by (auto simp: verify_receipt_def rbind_ok)
      from verify_record_ok [OF this] obtain obj where obj: "parse_record MAX_CONTROL_SIZE previous = Inr obj"
        "before = fld obj ''payload''" by blast
      have "parse_record MAX_RECORD_SIZE previous = Inr previous" using np by (simp add: parse_record_normal)
      with parse_record_mono [OF _ _ obj(1), of MAX_RECORD_SIZE] obj(2) have bp: "before = fld previous ''payload''" by simp
      note x = receipt_step_True [OF t]
      from v x(2) have "successful checked" using check_outcome_D [of checked "()"]
        by (auto simp: verify_receipt_def rbind_ok unsuccessful_def)
      moreover from b x(1) have "successful before" using check_outcome_D [of before "()"]
        by (auto simp: verify_receipt_def rbind_ok unsuccessful_def)
      ultimately have "fld checked ''canonical_entry_id'' = fld before ''canonical_entry_id''"
        using x(3) by (auto simp: successful_def is_id_def)
      then show ?thesis
        using x(1,2) Some nr np outcome_text [OF nr(1,2)] outcome_text [OF np(1,2)]
        by (simp add: receipt_le_def ch bp)
    qed
    have "submission_le y (if su_scope y = scope \<and> su_device y = device \<and> su_request y = rid
        then y\<lparr>su_receipt := Some encoded\<rparr> else y)" if "y \<in> set (t_submissions s)" for y
    proof -
      have "row \<in> set (t_submissions s)" "su_key row = (scope, device, rid)"
        using find_ok [OF row [unfolded find_submission_def]] by (simp_all add: su_key_def)
      moreover have "distinct (map su_key (t_submissions s))" using inv by (simp add: relay_inv_def)
      ultimately have "y = row" if "su_key y = (scope, device, rid)"
        using distinct_map_unique [of su_key "t_submissions s" y row] \<open>y \<in> set (t_submissions s)\<close> that by simp
      with le show ?thesis by (auto simp: submission_le_def su_key_def receipt_le_refl)
    qed
    then have "grows submission_le (t_submissions s) (t_submissions s')"
      using True s' unfolding set_receipt_def by (auto intro: grows_map)
    with True s' show ?thesis by (auto simp: relay_le_def intro!: grows_refl scope_le_refl)
  qed
  with i show ?thesis by simp
qed

section \<open>Any sequence of requests\<close>

lemma relay_step_keeps:
  assumes inv: "relay_inv C s" and st: "relay_step C admin lim q s = Inr (s', r)"
  shows "relay_inv C s' \<and> relay_le s s'"
proof (cases q)
  case (CreateScope h p)
  with st show ?thesis by (intro create_scope_keeps [OF inv]) simp
next
  case (Publish scope h p)
  with st show ?thesis by (intro publish_keeps [OF inv]) simp
next
  case (Submit now scope h p)
  with st show ?thesis by (intro submit_keeps [OF inv]) simp
next
  case (Acknowledge scope h rid p)
  with st obtain r' where "acknowledge C lim scope h rid p s = Inr (s', r')" by (auto simp: rbind_ok)
  then show ?thesis by (rule acknowledge_keeps [OF inv])
next
  case (Block scope h p)
  with st obtain r' where "block C lim scope h p s = Inr (s', r')" by (auto simp: rbind_ok)
  then show ?thesis by (rule block_keeps [OF inv])
qed

interpretation relay: transactional "relay_step C admin lim" "relay_inv C" relay_le for C admin lim
  by unfold_locales (auto dest: relay_step_keeps intro: relay_le_refl relay_le_trans)

definition reached :: "crypto \<Rightarrow> string \<Rightarrow> limits \<Rightarrow> relay_request list \<Rightarrow> relay" where
  "reached C admin lim qs = run (relay_step C admin lim) qs empty_relay"

lemma reached_inv: "relay_inv C (reached C admin lim qs)"
  unfolding reached_def by (rule relay.run_inv [OF relay_inv_empty])

lemma reached_le: "relay_le (reached C admin lim qs) (reached C admin lim (qs @ rs))"
  unfolding reached_def by (rule relay.run_later [OF relay_inv_empty])

lemma blocked_le: "relay_le s t \<Longrightarrow> is_blocked s scope gid \<Longrightarrow> is_blocked t scope gid"
  unfolding relay_le_def is_blocked_def by (meson set_mono_prefix subsetD)

text \<open>Once blocked, a grant authenticates nothing, whatever the relay does afterwards.\<close>

lemma blocked_never_authenticates:
  assumes "is_blocked s scope gid" and "relay_auth C s scope h op = Inr (row, policy, pin, body, device)"
    and "JStr device \<noteq> fld body ''master_device_id''"
  shows "\<exists>g. authorize_grant body (JStr device) op JNull JNull = Inr g \<and> fld g ''grant_id'' \<noteq> JStr gid"
proof -
  from relay_auth_D(5) [OF assms(2,3)] obtain g where
    g: "authorize_grant body (JStr device) op JNull JNull = Inr g" "\<not> is_blocked s scope (text_of (fld g ''grant_id''))" by blast
  with assms(1) show ?thesis by (intro exI [of _ g]) (auto simp: is_blocked_def)
qed

section \<open>Bounds\<close>

text \<open>The upload queue of every scope stays within its three limits.\<close>

definition queue_ok :: "relay \<Rightarrow> bool" where
  "queue_ok s \<longleftrightarrow> (\<forall>r \<in> set (t_submissions s). 0 \<le> su_size r) \<and> (\<forall>scope.
     len (pending scope s) \<le> MAX_SCOPE_PENDING
     \<and> (\<forall>device. len (filter (\<lambda>r. su_device r = device) (pending scope s)) \<le> MAX_DEVICE_PENDING)
     \<and> sum_list (map su_size (pending scope s)) \<le> MAX_SCOPE_PENDING_BYTES)"

lemma queue_okD:
  assumes "queue_ok s"
  shows "len (pending z s) \<le> MAX_SCOPE_PENDING"
    and "len (filter (\<lambda>r. su_device r = device) (pending z s)) \<le> MAX_DEVICE_PENDING"
    and "sum_list (map su_size (pending z s)) \<le> MAX_SCOPE_PENDING_BYTES"
  using assms unfolding queue_ok_def by simp_all

lemma len_filter_le: "len (filter P xs) \<le> len xs"
  by (simp add: len_length)

lemma sum_filter_le: "\<forall>x \<in> set xs. (0::int) \<le> f x \<Longrightarrow> sum_list (map f (filter P xs)) \<le> sum_list (map f xs)"
  by (induction xs) auto

lemma pending_snoc: "pending scope (s\<lparr>t_submissions := t_submissions s @ [x]\<rparr>) =
    pending scope s @ (if su_scope x = scope \<and> su_receipt x = None then [x] else [])"
  by (simp add: pending_def)

lemma pending_set_receipt: "pending z (s\<lparr>t_submissions := set_receipt scope device rid e (t_submissions s)\<rparr>) =
    filter (\<lambda>r. \<not> (su_scope r = scope \<and> su_device r = device \<and> su_request r = rid)) (pending z s)"
proof -
  have "filter (\<lambda>r. su_scope r = z \<and> su_receipt r = None) (set_receipt scope device rid e rows) =
      filter (\<lambda>r. \<not> (su_scope r = scope \<and> su_device r = device \<and> su_request r = rid))
        (filter (\<lambda>r. su_scope r = z \<and> su_receipt r = None) rows)" for rows
    by (induction rows) (auto simp: set_receipt_def)
  then show ?thesis by (simp add: pending_def)
qed

lemma queue_ok_cong: "t_submissions s' = t_submissions s \<Longrightarrow> queue_ok s' = queue_ok s"
  by (simp add: queue_ok_def pending_def)

lemma submit_queue:
  assumes q: "queue_ok s" and c: "submit C lim now scope h payload s = Inr (s', r)"
  shows "queue_ok s'"
  using c
proof (cases rule: submit_effect)
  case (2 device body rid digest encoded)
  note e = enqueue_D [OF 2]
  have p: "pending z s' = pending z s @ (if z = scope then [new_submission now scope device body rid digest encoded] else [])" for z
    unfolding e(1) pending_snoc by (auto simp: new_submission_def)
  show ?thesis
    using q e(3-5) unfolding queue_ok_def p
    by (auto simp: e(1) new_submission_def len_length)
qed (use q in simp)

lemma acknowledge_queue:
  assumes q: "queue_ok s" and a: "acknowledge C lim scope h rid payload s = Inr (s', r)"
  shows "queue_ok s'"
proof -
  from a obtain device encoded store where
    s': "s' = (if store then s\<lparr>t_submissions := set_receipt scope device rid encoded (t_submissions s)\<rparr> else s)"
    by (rule acknowledge_D)
  have sizes: "\<forall>x \<in> set (pending z s). 0 \<le> su_size x" for z using q by (auto simp: queue_ok_def pending_def)
  have "queue_ok (s\<lparr>t_submissions := set_receipt scope device rid encoded (t_submissions s)\<rparr>)"
    unfolding queue_ok_def pending_set_receipt
  proof (intro conjI allI)
    show "\<forall>r \<in> set (t_submissions (s\<lparr>t_submissions := set_receipt scope device rid encoded (t_submissions s)\<rparr>)). 0 \<le> su_size r"
      using q by (auto simp: queue_ok_def set_receipt_def)
    fix z dev
    let ?P = "\<lambda>r. \<not> (su_scope r = scope \<and> su_device r = device \<and> su_request r = rid)"
    show "len (filter ?P (pending z s)) \<le> MAX_SCOPE_PENDING"
      by (rule order_trans [OF len_filter_le queue_okD(1) [OF q]])
    have "filter (\<lambda>r. su_device r = dev) (filter ?P (pending z s)) = filter ?P (filter (\<lambda>r. su_device r = dev) (pending z s))"
      by (simp add: conj_commute)
    then show "len (filter (\<lambda>r. su_device r = dev) (filter ?P (pending z s))) \<le> MAX_DEVICE_PENDING"
      by (simp only:) (rule order_trans [OF len_filter_le queue_okD(2) [OF q]])
    show "sum_list (map su_size (filter ?P (pending z s))) \<le> MAX_SCOPE_PENDING_BYTES"
      by (rule order_trans [OF sum_filter_le [OF sizes] queue_okD(3) [OF q]])
  qed
  with q s' show ?thesis by simp
qed

lemma relay_step_queue:
  assumes q: "queue_ok s" and st: "relay_step C admin lim req s = Inr (s', r)"
  shows "queue_ok s'"
proof (cases req)
  case (CreateScope h p)
  with st have "create_scope C admin lim h p s = Inr (s', r)" by simp
  then have "t_submissions s' = t_submissions s"
  proof (cases rule: create_scope_D)
    case (created candidate pin body scope)
    show ?thesis by (simp add: created(11))
  qed simp
  then show ?thesis by (rule iffD2 [OF queue_ok_cong q])
next
  case (Publish scope h p)
  with st have "publish C lim scope h p s = Inr (s', r)" by simp
  then have "t_submissions s' = t_submissions s"
  proof (cases rule: publish_D)
    case (new row previous pin old_body device status response)
    then show ?thesis by (intro publish_new_submissions)
  qed simp
  then show ?thesis by (rule iffD2 [OF queue_ok_cong q])
next
  case (Submit now scope h p)
  with st show ?thesis by (intro submit_queue [OF q]) simp
next
  case (Acknowledge scope h rid p)
  with st obtain r' where "acknowledge C lim scope h rid p s = Inr (s', r')" by (auto simp: rbind_ok)
  then show ?thesis by (rule acknowledge_queue [OF q])
next
  case (Block scope h p)
  with st obtain r' where "block C lim scope h p s = Inr (s', r')" by (auto simp: rbind_ok)
  from block_effect [OF this] obtain bs where "s' = s\<lparr>t_blocks := t_blocks s @ bs\<rparr>" by blast
  then have "t_submissions s' = t_submissions s" by simp
  then show ?thesis by (rule iffD2 [OF queue_ok_cong q])
qed

interpretation relay_queue: transactional "relay_step C admin lim" queue_ok "\<lambda>_ _. True" for C admin lim
  by unfold_locales (auto dest: relay_step_queue)

lemma reached_queue: "queue_ok (reached C admin lim qs)"
  unfolding reached_def
  by (rule relay_queue.run_inv) (simp add: queue_ok_def empty_relay_def pending_def)

end
