(* ===== verification/Relay_History.thy ===== *)
theory Relay_History
  imports Relay_Invariants
begin

text \<open>
  The policies of a scope as the relay keeps them: versions without gaps, each naming its
  predecessor by hash, the current one last; and the grants, which keep their identity for
  ever. The relay recognises an unchanged policy by its hash, so these facts are about runs
  in which no published policy collides with the stored one (\<open>collision_free\<close>).
\<close>

section \<open>Runs without a collision\<close>

definition collision_free_request :: "crypto \<Rightarrow> relay \<Rightarrow> relay_request \<Rightarrow> bool" where
  "collision_free_request C s q = (case q of
     Publish scope h p \<Rightarrow>
       (case relay_scope C s scope of
          Inl _ \<Rightarrow> True
        | Inr (row, previous, pin, body) \<Rightarrow>
            sha256_hex C (canonical_text (fld p ''policy'')) = sha256_hex C (canonical_text previous)
            \<longrightarrow> canonical_text (fld p ''policy'') = canonical_text previous)
   | _ \<Rightarrow> True)"

primrec collision_free :: "crypto \<Rightarrow> string \<Rightarrow> limits \<Rightarrow> relay_request list \<Rightarrow> relay \<Rightarrow> bool" where
  "collision_free C admin lim [] s = True"
| "collision_free C admin lim (q # qs) s =
     (collision_free_request C s q \<and> collision_free C admin lim qs (commit (relay_step C admin lim q) s))"

definition guarded_step ::
  "crypto \<Rightarrow> string \<Rightarrow> limits \<Rightarrow> relay_request \<Rightarrow> relay \<Rightarrow> rerr + relay \<times> response" where
  "guarded_step C admin lim q s = (if collision_free_request C s q then relay_step C admin lim q s else Inl Crash)"

lemma guarded_run: "collision_free C admin lim qs s \<Longrightarrow> run (guarded_step C admin lim) qs s = run (relay_step C admin lim) qs s"
  by (induction qs arbitrary: s) (simp_all add: guarded_step_def commit_def)

section \<open>The history of a scope\<close>

definition pols :: "string \<Rightarrow> relay \<Rightarrow> policy_row list" where
  "pols scope s = filter (\<lambda>x. po_scope x = scope) (t_policies s)"

definition policy_parent :: "crypto \<Rightarrow> policy_row \<Rightarrow> json \<Rightarrow> bool" where
  "policy_parent C x h \<longleftrightarrow> (\<exists>v pin body. po_record x = canonical_text v \<and> verify_any_policy C v pin = Inr body
     \<and> fld body ''parent_policy_hash'' = h \<and> fld body ''version'' = JInt (po_version x))"

text \<open>What the current policy, when it reads back, says.\<close>

definition current_ok :: "crypto \<Rightarrow> relay \<Rightarrow> scope_row \<Rightarrow> bool" where
  "current_ok C s r \<longleftrightarrow> (\<forall>policy pin body. load_record (sc_policy r) = Inr policy \<longrightarrow> sc_pin r = b64 pin \<longrightarrow>
     verify_any_policy C policy pin = Inr body \<longrightarrow>
       int_of (fld body ''version'') = len (pols (sc_id r) s)
       \<and> (\<forall>g \<in> set (grants_of body). known_grant (sc_id r) g (t_grants s)))"

definition history_ok :: "crypto \<Rightarrow> relay \<Rightarrow> scope_row \<Rightarrow> bool" where
  "history_ok C s r \<longleftrightarrow> pols (sc_id r) s \<noteq> [] \<and> map po_version (pols (sc_id r) s) = [1..len (pols (sc_id r) s)]
     \<and> sc_policy r = po_record (last (pols (sc_id r) s))
     \<and> linked (policy_parent C) po_hash JNull (pols (sc_id r) s) \<and> current_ok C s r"

definition history_inv :: "crypto \<Rightarrow> relay \<Rightarrow> bool" where
  "history_inv C s \<longleftrightarrow> relay_inv C s \<and> (\<forall>r \<in> set (t_scopes s). history_ok C s r)
     \<and> (\<forall>x \<in> set (t_policies s). po_scope x \<in> sc_id ` set (t_scopes s))"

lemma history_inv_empty: "history_inv C empty_relay"
  using relay_inv_empty [of C] by (simp add: history_inv_def) (simp add: empty_relay_def)

lemma history_cong:
  assumes "t_scopes s' = t_scopes s" and "t_policies s' = t_policies s" and "t_grants s' = t_grants s"
  shows "(\<forall>r \<in> set (t_scopes s'). history_ok C s' r) \<longleftrightarrow> (\<forall>r \<in> set (t_scopes s). history_ok C s r)"
  using assms by (simp add: history_ok_def current_ok_def pols_def)

lemma create_scope_history:
  assumes inv: "history_inv C s" and c: "create_scope C admin lim h payload s = Inr (s', r)"
  shows "history_inv C s'"
proof -
  have ri: "relay_inv C s'" using create_scope_keeps [OF _ c] inv by (simp add: history_inv_def)
  show ?thesis using c
  proof (cases rule: create_scope_D)
    case retry
    with inv show ?thesis by simp
  next
    case (created candidate pin body scope)
    define row where "row = \<lparr>sc_id = scope, sc_pin = b64 pin, sc_policy = canonical_text candidate, sc_head = None, sc_seq = 0\<rparr>"
    define p where "p = \<lparr>po_scope = scope, po_hash = sha256_hex C (canonical_text candidate), po_version = 1, po_record = canonical_text candidate\<rparr>"
    have t: "t_scopes s' = t_scopes s @ [row]" "t_policies s' = t_policies s @ [p]" "t_grants s' = t_grants s"
      by (simp_all add: created(11) row_def p_def)
    have "\<forall>x \<in> set (t_policies s). po_scope x \<noteq> scope"
      using inv created(9) by (fastforce simp: history_inv_def)
    then have none: "pols scope s = []" by (auto simp: pols_def filter_empty_conv)
    have pn: "pols scope s' = [p]" "\<And>z. z \<noteq> scope \<Longrightarrow> pols z s' = pols z s"
      using none by (auto simp: pols_def t p_def)
    have wf: "wf_policy body" using created(1) by (simp add: verify_policy_ok)
    have parent: "fld body ''parent_policy_hash'' = JNull" using wf_policyD(10) [OF wf] created(4) by simp
    have pp: "policy_parent C p JNull"
      unfolding policy_parent_def using created(1,4) parent
      by (intro exI [of _ candidate] exI [of _ pin] exI [of _ body]) (simp add: p_def)
    have load: "load_record (canonical_text candidate) = Inr candidate" using created(2,3) by (simp add: load_ok)
    have "current_ok C s' row"
      unfolding current_ok_def
    proof (intro allI impI)
      fix policy k b assume "load_record (sc_policy row) = Inr policy" "sc_pin row = b64 k" "verify_any_policy C policy k = Inr b"
      then have "policy = candidate" "k = pin" using load b64.dec_iff b64.enc_inject [of pin k] by (auto simp: row_def)
      with \<open>verify_any_policy C policy k = Inr b\<close> created(1) have "b = body" by simp
      then show "int_of (fld b ''version'') = len (pols (sc_id row) s') \<and>
          (\<forall>g \<in> set (grants_of b). known_grant (sc_id row) g (t_grants s'))"
        using created(4,5) by (simp add: row_def pn)
    qed
    then have new: "history_ok C s' row" using pp by (simp add: history_ok_def row_def pn) (simp add: p_def)
    have old: "history_ok C s' x = history_ok C s x" if "x \<in> set (t_scopes s)" for x
      using created(9) that by (simp add: history_ok_def current_ok_def pn t)
    show ?thesis
      using inv ri new old unfolding history_inv_def by (auto simp: t p_def row_def)
  qed
qed

lemma old_body_ok:
  assumes inv: "history_inv C s" and sc: "relay_scope C s scope = Inr (row, previous, pin, body)"
  shows "history_ok C s row" and "int_of (fld body ''version'') = len (pols scope s)"
    and "\<forall>g \<in> set (grants_of body). known_grant scope g (t_grants s)"
    and "po_hash (last (pols scope s)) = sha256_hex C (canonical_text previous)"
proof -
  note d = relay_scope_D [OF sc]
  show h: "history_ok C s row" using inv d(1) by (simp add: history_inv_def)
  then have "current_ok C s row" by (simp add: history_ok_def)
  with d show "int_of (fld body ''version'') = len (pols scope s)"
    and "\<forall>g \<in> set (grants_of body). known_grant scope g (t_grants s)"
    by (auto simp: current_ok_def)
  have "last (pols scope s) \<in> set (pols scope s)" using h d(2) by (simp add: history_ok_def)
  then have "po_hash (last (pols scope s)) = sha256_hex C (po_record (last (pols scope s)))"
    using inv by (auto simp: history_inv_def relay_inv_def pols_def)
  also have "po_record (last (pols scope s)) = canonical_text previous" using h d(2,3) by (simp add: history_ok_def load_ok)
  finally show "po_hash (last (pols scope s)) = sha256_hex C (canonical_text previous)" .
qed

lemma transition_row:
  assumes inv: "history_inv C s" and sc: "relay_scope C s scope = Inr (row, previous, pin, old_body)"
    and t: "validate_policy_transition C previous policy pin = Inr body"
    and p: "p = \<lparr>po_scope = scope, po_hash = hash, po_version = int_of (fld body ''version''), po_record = canonical_text policy\<rparr>"
  shows "po_version p = len (pols scope s) + 1" and "policy_parent C p (JStr (po_hash (last (pols scope s))))"
    and "verify_any_policy C policy pin = Inr body"
proof -
  note d = relay_scope_D [OF sc]
  from validate_policy_transition_D [OF t] d(6) obtain r where v: "verify_any_policy C policy pin = Inr body"
    and r: "parse_record MAX_RECORD_SIZE previous = Inr r" and x: "extends C r old_body body" by auto
  show "verify_any_policy C policy pin = Inr body" by (rule v)
  have "parse_record MAX_RECORD_SIZE previous = Inr previous" using d(3) by (simp add: load_ok parse_record_normal)
  with r x have x: "extends C previous old_body body" by simp
  then have vs: "int_of (fld body ''version'') = int_of (fld old_body ''version'') + 1"
    and ph: "fld body ''parent_policy_hash'' = JStr (sha256_hex C (canonical_text previous))"
    unfolding extends_def by simp_all
  from vs old_body_ok(2) [OF inv sc] show "po_version p = len (pols scope s) + 1" by (simp add: p)
  have "wf_policy body" using v by (simp add: verify_policy_ok)
  from wf_policy_fields(1) [OF this] have "fld body ''version'' = JInt (po_version p)" by (simp add: p)
  with v ph old_body_ok(4) [OF inv sc] show "policy_parent C p (JStr (po_hash (last (pols scope s))))"
    unfolding policy_parent_def by (intro exI [of _ policy] exI [of _ pin] exI [of _ body]) (simp add: p)
qed

lemma publish_policy_cases:
  assumes "publish_policy C scope row previous pin old_body policy s = Inr (s1, body)"
  obtains (kept) "s1 = s" "sha256_hex C (canonical_text policy) = sha256_hex C (canonical_text previous)"
  | (added) gs q where "validate_policy_transition C previous policy pin = Inr body"
      "s1 = s\<lparr>t_grants := gs, t_policies := t_policies s @ [q]\<rparr>" "set (t_grants s) \<subseteq> set gs"
      "\<forall>g \<in> set (grants_of body). known_grant scope g gs"
      "q = \<lparr>po_scope = scope, po_hash = sha256_hex C (canonical_text policy),
              po_version = int_of (fld body ''version''), po_record = canonical_text policy\<rparr>"
  using publish_policy_D(2) [OF assms] set_mono_prefix by fast

lemma upto_snoc: "[1..len xs + 1] = [1..len xs] @ [len xs + 1]"
proof -
  have "0 \<le> len xs" by (induction xs) simp_all
  then show ?thesis using upto_rec2 [of 1 "len xs + 1"] by simp
qed

lemma history_same:
  assumes "history_ok C s r" and "sc_id r' = sc_id r" and "sc_policy r' = sc_policy r" and "sc_pin r' = sc_pin r"
    and "t_policies s' = t_policies s" and "t_grants s' = t_grants s"
  shows "history_ok C s' r'"
  using assms by (simp add: history_ok_def current_ok_def pols_def)

lemma history_elsewhere:
  assumes "history_ok C s r" and "sc_id r \<noteq> scope" and "\<And>z. z \<noteq> scope \<Longrightarrow> pols z s' = pols z s"
    and "set (t_grants s) \<subseteq> set (t_grants s')"
  shows "history_ok C s' r"
proof -
  have "known_grant (sc_id r) g (t_grants s) \<Longrightarrow> known_grant (sc_id r) g (t_grants s')" for g
    using known_grant_mono assms(4) by blast
  with assms(1-3) show ?thesis by (simp add: history_ok_def current_ok_def)
qed

lemma history_added:
  assumes inv: "history_inv C s" and sc: "relay_scope C s scope = Inr (row, previous, pin, old_body)"
    and t: "validate_policy_transition C previous policy pin = Inr body" and f: "fits MAX_RECORD_SIZE policy"
    and q: "q = \<lparr>po_scope = scope, po_hash = hash, po_version = int_of (fld body ''version''), po_record = canonical_text policy\<rparr>"
    and pn: "pols scope s' = pols scope s @ [q]" and g: "\<forall>g \<in> set (grants_of body). known_grant scope g (t_grants s')"
    and r': "sc_id r' = scope" "sc_policy r' = canonical_text policy" "sc_pin r' = sc_pin row"
  shows "history_ok C s' r'"
proof -
  note row' = transition_row [OF inv sc t q]
  note d = relay_scope_D [OF sc]
  have "current_ok C s' r'"
    unfolding current_ok_def
  proof (intro allI impI)
    fix v k b
    assume l: "load_record (sc_policy r') = Inr v" and k: "sc_pin r' = b64 k" and v: "verify_any_policy C v k = Inr b"
    have "k = pin" using k r'(3) d(4) b64.enc_inject [of pin k] by simp
    moreover have "verify_any_policy C v pin = Inr body"
      using reload_policy [OF _ l row'(3)] f r'(2) by (simp add: dump_ok)
    ultimately have "b = body" using v by simp
    with row'(1) g r'(1) show "int_of (fld b ''version'') = len (pols (sc_id r') s') \<and>
        (\<forall>g \<in> set (grants_of b). known_grant (sc_id r') g (t_grants s'))"
      by (simp add: pn q)
  qed
  moreover have "map po_version (pols scope s @ [q]) = [1..len (pols scope s) + 1]"
    using old_body_ok(1) [OF inv sc] d(2) row'(1) by (simp add: history_ok_def upto_snoc)
  moreover have "linked (policy_parent C) po_hash JNull (pols scope s @ [q])"
    using old_body_ok(1) [OF inv sc] d(2) row'(2) by (simp add: history_ok_def linked_snoc)
  ultimately show ?thesis using r' q by (simp add: history_ok_def pn)
qed

lemma publish_new_history:
  assumes inv: "history_inv C s" and sc: "relay_scope C s scope = Inr (row, previous, pin, old_body)"
    and free: "sha256_hex C (canonical_text (fld payload ''policy'')) = sha256_hex C (canonical_text previous)
      \<longrightarrow> canonical_text (fld payload ''policy'') = canonical_text previous"
    and p: "publish_new C lim scope payload digest row previous pin old_body s = Inr (s', status, response)"
  shows "history_inv C s'"
proof -
  note d = relay_scope_D [OF sc]
  have ri: "relay_inv C s" using inv by (simp add: history_inv_def)
  have ri': "relay_inv C s'" using publish_new_keeps [OF ri d(1,2) p] by simp
  obtain s1 body checked wrs where
    pp: "publish_policy C scope row previous pin old_body (fld payload ''policy'') s = Inr (s1, body)"
    and s': "s' = s1\<lparr>t_snapshots := t_snapshots s1 @ [\<lparr>sn_scope = scope,
                  sn_hash = sha256_hex C (canonical_text (fld payload ''snapshot'')), sn_seq = sc_seq row + 1,
                  sn_record = canonical_text (fld payload ''snapshot'')\<rparr>], t_wraps := wrs,
                t_operations := t_operations s1 @ [\<lparr>op_scope = scope, op_id = text_of (fld payload ''operation_id''),
                  op_digest = digest, op_response = canonical_text response\<rparr>],
                t_scopes := update_scope scope (canonical_text (fld payload ''policy''))
                  (sha256_hex C (canonical_text (fld payload ''snapshot''))) (sc_seq row + 1) (t_scopes s1)\<rparr>"
    by (rule publish_new_D [OF p])
  have u: "t_policies s' = t_policies s1" "t_grants s' = t_grants s1" by (simp_all add: s')
  have only: "y = row" if "y \<in> set (t_scopes s)" "sc_id y = scope" for y
    using ri d(1,2) that distinct_map_unique [of sc_id "t_scopes s" y row] by (simp add: relay_inv_def)
  have pin_row: "sc_pin r' = sc_pin row" if "r' \<in> set (t_scopes s')" "sc_id r' = scope" and st: "t_scopes s1 = t_scopes s" for r'
  proof -
    have "r' \<in> set (update_scope scope (canonical_text (fld payload ''policy''))
        (sha256_hex C (canonical_text (fld payload ''snapshot''))) (sc_seq row + 1) (t_scopes s))"
      using that by (simp add: s')
    from update_scope_mem(3) [OF this] obtain y where "y \<in> set (t_scopes s)" "sc_id y = sc_id r'" "sc_pin y = sc_pin r'" by blast
    with only that(2) show ?thesis by metis
  qed
  have f: "fits MAX_RECORD_SIZE (fld payload ''policy'')" by (rule publish_policy_D(1) [OF pp])
  have "t_scopes s1 = t_scopes s \<and> (\<forall>x \<in> set (t_policies s1). po_scope x = scope \<or> x \<in> set (t_policies s))
      \<and> (\<forall>r' \<in> set (t_scopes s'). history_ok C s' r')"
    using pp
  proof (cases rule: publish_policy_cases)
    case kept
    then have e: "canonical_text (fld payload ''policy'') = sc_policy row" using free d(3) by (simp add: load_ok)
    have "history_ok C s' r'" if r': "r' \<in> set (t_scopes s')" for r'
    proof (cases "sc_id r' = scope")
      case True
      have "sc_policy r' = sc_policy row"
        using update_scope_mem(1) [of r' scope] r' True e kept by (simp add: s')
      moreover have "sc_pin r' = sc_pin row" using pin_row [OF r' True] kept by simp
      ultimately show ?thesis
        using history_same [OF old_body_ok(1) [OF inv sc]] True d(2) kept u by simp
    next
      case False
      with r' kept have "history_ok C s r'"
        using update_scope_mem(2) [of r' scope] inv by (simp add: s' history_inv_def)
      with kept show ?thesis using history_same [of C s r' r' s'] u by simp
    qed
    with kept show ?thesis by simp
  next
    case (added gs q)
    have pn: "pols scope s' = pols scope s @ [q]" "\<And>z. z \<noteq> scope \<Longrightarrow> pols z s' = pols z s"
      using added by (simp_all add: pols_def u)
    have "history_ok C s' r'" if r': "r' \<in> set (t_scopes s')" for r'
    proof (cases "sc_id r' = scope")
      case True
      have "sc_policy r' = canonical_text (fld payload ''policy'')"
        using update_scope_mem(1) [of r' scope] r' True added by (simp add: s')
      moreover have "sc_pin r' = sc_pin row" using pin_row [OF r' True] added by simp
      ultimately show ?thesis
        using history_added [OF inv sc added(1) f added(5) pn(1)] added(2,4) True by (simp add: u)
    next
      case False
      with r' added have "history_ok C s r'"
        using update_scope_mem(2) [of r' scope] inv by (simp add: s' history_inv_def)
      from history_elsewhere [OF this False pn(2)] added(2,3) show ?thesis by (simp add: u)
    qed
    with added show ?thesis by simp
  qed
  then have main: "\<forall>r' \<in> set (t_scopes s'). history_ok C s' r'" "t_scopes s1 = t_scopes s"
    "\<forall>x \<in> set (t_policies s1). po_scope x = scope \<or> x \<in> set (t_policies s)" by simp_all
  have ids: "sc_id ` set (t_scopes s') = sc_id ` set (t_scopes s)"
    by (simp add: s' main(2) flip: set_map)
  have "po_scope x \<in> sc_id ` set (t_scopes s)" if "x \<in> set (t_policies s1)" for x
    using main(3) that inv d(1,2) unfolding history_inv_def by blast
  with ri' main(1) show ?thesis unfolding history_inv_def ids u by blast
qed

section \<open>Any sequence of requests\<close>

lemma guarded_step_history:
  assumes inv: "history_inv C s" and st: "guarded_step C admin lim q s = Inr (s', r)"
  shows "history_inv C s' \<and> relay_le s s'"
proof -
  have free: "collision_free_request C s q" and st: "relay_step C admin lim q s = Inr (s', r)"
    using st by (auto simp: guarded_step_def split: if_splits)
  have ri: "relay_inv C s" using inv by (simp add: history_inv_def)
  note keeps = relay_step_keeps [OF ri st]
  have same: "history_inv C s'"
    if "t_scopes s' = t_scopes s" "t_policies s' = t_policies s" "t_grants s' = t_grants s"
    using history_cong [OF that] that keeps inv by (simp add: history_inv_def)
  have "history_inv C s'"
  proof (cases q)
    case (CreateScope h p)
    with st show ?thesis by (intro create_scope_history [OF inv]) simp
  next
    case (Publish scope h p)
    with st have "publish C lim scope h p s = Inr (s', r)" by simp
    then show ?thesis
    proof (cases rule: publish_D)
      case (retry x)
      with inv show ?thesis by simp
    next
      case (new row previous pin old_body device status response)
      note sc = relay_auth_D(1) [OF new(1)]
      from free Publish sc show ?thesis
        by (intro publish_new_history [OF inv sc _ new(2)]) (simp add: collision_free_request_def)
    qed
  next
    case (Submit now scope h p)
    with st have "submit C lim now scope h p s = Inr (s', r)" by simp
    then show ?thesis
    proof (cases rule: submit_effect)
      case (2 device body rid digest encoded)
      show ?thesis by (rule same) (simp_all add: enqueue_D(1) [OF 2])
    qed (use inv in simp)
  next
    case (Acknowledge scope h rid p)
    with st obtain r' where "acknowledge C lim scope h rid p s = Inr (s', r')" by (auto simp: rbind_ok)
    then obtain device encoded store where
      "s' = (if store then s\<lparr>t_submissions := set_receipt scope device rid encoded (t_submissions s)\<rparr> else s)"
      by (rule acknowledge_D)
    then show ?thesis by (intro same) simp_all
  next
    case (Block scope h p)
    with st obtain r' where "block C lim scope h p s = Inr (s', r')" by (auto simp: rbind_ok)
    from block_effect [OF this] obtain bs where "s' = s\<lparr>t_blocks := t_blocks s @ bs\<rparr>" by blast
    then show ?thesis by (intro same) simp_all
  qed
  with keeps show ?thesis by simp
qed

interpretation relay_history: transactional "guarded_step C admin lim" "history_inv C" relay_le for C admin lim
  by unfold_locales (auto dest: guarded_step_history intro: relay_le_refl relay_le_trans)

lemma reached_history:
  assumes "collision_free C admin lim qs empty_relay"
  shows "history_inv C (reached C admin lim qs)"
  using relay_history.run_inv [OF history_inv_empty] by (simp add: reached_def flip: guarded_run [OF assms])

lemma known_grants:
  assumes "history_inv C s" and "relay_scope C s scope = Inr (row, policy, pin, body)" and "g \<in> set (grants_of body)"
  shows "known_grant scope g (t_grants s)" and "wf_grant body g" and "wf_json g" and "no_float g"
proof -
  note d = relay_scope_D [OF assms(2)]
  show "known_grant scope g (t_grants s)" using old_body_ok(3) [OF assms(1,2)] assms(3) by simp
  have v: "verify_record C MAX_POLICY_SIZE policy ''policy'' pin = Inr body" and wf: "wf_policy body"
    using d(6) by (simp_all add: verify_policy_ok)
  show "wf_grant body g" by (rule wf_policyD(16) [OF wf assms(3)])
  have p: "wf_json body" "no_float body" using verify_record_payload [OF _ v] by simp_all
  from wf_fld [OF p(1), of "''grants''"] no_float_fld [OF p(2), of "''grants''"] assms(3)
  show "wf_json g" and "no_float g" by (cases "fld body ''grants''"; auto simp: wf_items_all no_float_items_all)+
qed

lemma same_text_same_grant:
  assumes "wf_grant p g" "wf_json g" "no_float g" and "wf_grant q h" "wf_json h" "no_float h"
    and "canonical_text g = canonical_text h"
  shows "same_grant g h"
  unfolding same_grant_def
proof
  fix f assume f: "f \<in> set GRANT_FIELDS"
  have scalar: "sort_members (fld x f) = fld x f" if w: "wf_grant y x" for x y
  proof -
    from f consider "is_id (fld x f) \<or> is_hash (fld x f) \<or> is_key (fld x f)" | "f = ''generation''" | "f = ''role''"
      using wf_grantD(2,3,5-7) [OF w] by (simp del: empty_iff) blast
    then show ?thesis
      using wf_grantD(4,8) [OF w] by cases (auto simp: sort_scalar)
  qed
  have "fld (sort_members g) f = fld (sort_members h) f"
    by (rule arg_cong [OF canonical_text_inject [OF assms(3,2,6,5,7)]])
  then have "sort_members (fld g f) = sort_members (fld h f)"
    unfolding fld_sort_members [OF assms(2)] fld_sort_members [OF assms(5)] .
  then show "fld g f = fld h f" unfolding scalar [OF assms(1)] scalar [OF assms(4)] .
qed

text \<open>A grant id means one grant for ever: same device, keys, role and generation.\<close>

lemma grant_identity:
  assumes free: "collision_free C admin lim (qs @ rs) empty_relay"
    and 1: "relay_scope C (reached C admin lim qs) scope = Inr (row, policy, pin, body)" "g \<in> set (grants_of body)"
    and 2: "relay_scope C (reached C admin lim (qs @ rs)) scope = Inr (row', policy', pin', body')" "h \<in> set (grants_of body')"
    and e: "fld g ''grant_id'' = fld h ''grant_id''"
  shows "same_grant g h"
proof -
  have "collision_free C admin lim qs s" if "collision_free C admin lim (qs @ rs) s" for s
    using that by (induction qs arbitrary: s) simp_all
  note i1 = reached_history [OF this [OF free]] and i2 = reached_history [OF free]
  note k1 = known_grants [OF i1 1] and k2 = known_grants [OF i2 2]
  have "set (t_grants (reached C admin lim qs)) \<subseteq> set (t_grants (reached C admin lim (qs @ rs)))"
    using reached_le [of C admin lim qs rs] by (simp add: relay_le_def set_mono_prefix)
  from known_grant_mono [OF k1(1) this] k2(1) e obtain x y where
    x: "x \<in> set (t_grants (reached C admin lim (qs @ rs)))" "gr_record x = canonical_text g"
    and y: "y \<in> set (t_grants (reached C admin lim (qs @ rs)))" "gr_record y = canonical_text h"
    and xy: "gr_scope x = gr_scope y" "gr_grant x = gr_grant y"
    by (auto simp: known_grant_def)
  have "generation_order (t_grants (reached C admin lim (qs @ rs)))" using reached_inv by (simp add: relay_inv_def)
  with x(1) y(1) xy have "x = y"
    unfolding generation_order_def in_set_conv_nth by (metis linorder_neqE_nat)
  with x(2) y(2) have "canonical_text g = canonical_text h" by simp
  from same_text_same_grant [OF k1(2-4) k2(2-4) this] show ?thesis .
qed

end
