(* ===== verification/Relay_Budget.thy ===== *)
theory Relay_Budget
  imports Relay_Invariants
begin

text \<open>
  The storage budget over whole runs: whatever is asked of the relay, the bytes and the
  records that it stores stay within its limits and the reserve of the control requests.
\<close>

definition total_ok :: "limits \<Rightarrow> relay \<Rightarrow> bool" where
  "total_ok lim s \<longleftrightarrow> \<not> over (recount None (relay_meter s)) (relay_bytes lim) (relay_records lim)
     (control_relay_bytes lim) (control_relay_records lim) True"

definition reserves :: "limits \<Rightarrow> bool" where
  "reserves lim \<longleftrightarrow> 0 \<le> relay_bytes lim + control_relay_bytes lim \<and> 0 \<le> relay_records lim + control_relay_records lim
     \<and> 0 \<le> control_relay_bytes lim \<and> 0 \<le> control_relay_records lim"

lemma total_ok_empty: "reserves lim \<Longrightarrow> total_ok lim empty_relay"
  by (simp add: total_ok_def over_def recount_def scope_rows_def relay_meter_def empty_relay_def reserves_def)

lemma storage_budget_total: "reserves lim \<Longrightarrow> storage_budget lim scope control s = Inr u \<Longrightarrow> total_ok lim s"
  by (auto simp: storage_budget_def within_budget_def total_ok_def over_def ensure_ok reserves_def split: if_splits)

lemma relay_step_budget:
  assumes "relay_step C admin lim q s = Inr (s', r)"
  shows "s' = s \<or> (\<exists>scope control. storage_budget lim scope control s' = Inr ())"
proof (cases q)
  case (CreateScope h p)
  with assms have "create_scope C admin lim h p s = Inr (s', r)" by simp
  then show ?thesis by (cases rule: create_scope_D) blast+
next
  case (Publish scope h p)
  with assms have "publish C lim scope h p s = Inr (s', r)" by simp
  then show ?thesis
  proof (cases rule: publish_D)
    case (new row previous pin old_body device status response)
    show ?thesis by (rule publish_new_D [OF new(2)]) blast
  qed simp
next
  case (Submit now scope h p)
  with assms have "submit C lim now scope h p s = Inr (s', r)" by simp
  then show ?thesis
    by (cases rule: submit_effect) (use enqueue_D(7) in blast)+
next
  case (Acknowledge scope h rid p)
  with assms obtain r' where "acknowledge C lim scope h rid p s = Inr (s', r')" by (auto simp: rbind_ok)
  then show ?thesis by (rule acknowledge_D) (metis (full_types))
next
  case (Block scope h p)
  with assms obtain r' where "block C lim scope h p s = Inr (s', r')" by (auto simp: rbind_ok)
  then show ?thesis by (rule block_D) blast
qed

interpretation relay_budget: transactional "relay_step C admin lim" "\<lambda>s. reserves lim \<longrightarrow> total_ok lim s" "\<lambda>_ _. True"
  for C admin lim
  by unfold_locales (auto dest: relay_step_budget storage_budget_total)

lemma reached_budget: "reserves lim \<Longrightarrow> total_ok lim (reached C admin lim qs)"
  unfolding reached_def using relay_budget.run_inv [of lim empty_relay C admin qs] total_ok_empty by blast

lemma default_reserves: "reserves default_limits"
  by (simp add: reserves_def default_limits_def)

end
