(* ===== verification/Text_Checks.thy ===== *)
theory Text_Checks
  imports Encoding
begin

text \<open>
  The lexical checks of the vault's models: the regular expressions of \<open>models.py\<close> and
  \<open>project_models.py\<close> as predicates on strings, control characters, and the calendar check
  that \<open>datetime.strptime\<close> adds to the timestamp pattern. All the patterns are anchored
  and matched with \<open>fullmatch\<close>. \<open>[0-9]\<close> of a pattern is \<open>is_digit\<close>; \<open>\d\<close> also matches the decimal
  digits of other scripts (\<open>decimal_value\<close>).
\<close>

section \<open>Patterns\<close>

definition name_char :: "char \<Rightarrow> bool" where
  "name_char c = (is_lower c \<or> is_digit c \<or> c \<in> {CHR ''.'', CHR ''_'', CHR ''-''})"

definition low_alnum :: "char \<Rightarrow> bool" where
  "low_alnum c = (is_lower c \<or> is_digit c)"

text \<open>\<open>_NAME_RE\<close>: at least two characters, the outer ones alphanumeric.\<close>

definition name_pattern :: "string \<Rightarrow> bool" where
  "name_pattern s = (case s of [] \<Rightarrow> False
     | c # r \<Rightarrow> low_alnum c \<and> r \<noteq> [] \<and> low_alnum (last r) \<and> list_all name_char (butlast r))"

text \<open>A first character of one class, then at most \<open>n\<close> of another.\<close>

definition headed :: "(char \<Rightarrow> bool) \<Rightarrow> (char \<Rightarrow> bool) \<Rightarrow> int \<Rightarrow> string \<Rightarrow> bool" where
  "headed first rest n s = (case s of [] \<Rightarrow> False | c # r \<Rightarrow> first c \<and> list_all rest r \<and> len r \<le> n)"

definition field_key_pattern :: "string \<Rightarrow> bool" where
  "field_key_pattern = headed (\<lambda>c. is_alnum c \<or> c = CHR ''_'')
     (\<lambda>c. is_alnum c \<or> c \<in> {CHR ''_'', CHR ''.'', CHR ''-''}) 63"

definition ref_role_pattern :: "string \<Rightarrow> bool" where
  "ref_role_pattern = headed (\<lambda>c. is_lower c \<or> c = CHR ''_'') (\<lambda>c. is_lower c \<or> is_digit c \<or> c = CHR ''_'') 31"

definition ssh_user_pattern :: "string \<Rightarrow> bool" where
  "ssh_user_pattern = headed (\<lambda>c. is_alnum c \<or> c \<in> {CHR ''_'', CHR ''.''})
     (\<lambda>c. is_alnum c \<or> c \<in> {CHR ''_'', CHR ''.'', CHR ''-''}) 63"

definition ssh_host_pattern :: "string \<Rightarrow> bool" where
  "ssh_host_pattern = headed (\<lambda>c. is_alnum c \<or> c \<in> {CHR '':'', CHR ''[''})
     (\<lambda>c. is_alnum c \<or> c \<in> {CHR ''.'', CHR ''_'', CHR '':'', CHR ''['', CHR '']'', CHR ''%'', CHR ''-''}) 252"

text \<open>\<open>_SLUG_RE\<close>: one alphanumeric, or a name of at most 64 characters.\<close>

definition slug_pattern :: "string \<Rightarrow> bool" where
  "slug_pattern s = ((name_pattern s \<and> len s \<le> 64) \<or> (case s of [c] \<Rightarrow> low_alnum c | _ \<Rightarrow> False))"

text \<open>\<open>(ord(ch) < 32 and ch not in allowed) or ord(ch) == 127\<close>, for no character.\<close>

definition no_controls :: "bool \<Rightarrow> string \<Rightarrow> bool" where
  "no_controls allow_linebreaks s =
     (\<not> (\<exists>c \<in> set s. (byte c < 32 \<and> \<not> (allow_linebreaks \<and> byte c \<in> {9, 10, 13})) \<or> byte c = 127))"

section \<open>Timestamps\<close>

fun digits_pattern :: "string \<Rightarrow> string \<Rightarrow> bool" where
  "digits_pattern [] s = (s = [])"
| "digits_pattern (p # ps) s = (case s of [] \<Rightarrow> False
     | c # r \<Rightarrow> (if p = CHR ''d'' then is_digit c else c = p) \<and> digits_pattern ps r)"

definition timestamp_pattern :: "string \<Rightarrow> bool" where
  "timestamp_pattern s = digits_pattern ''dddd-dd-ddTdd:dd:ddZ'' s"

primrec dec_int :: "string \<Rightarrow> int \<Rightarrow> int" where
  "dec_int [] a = a"
| "dec_int (c # s) a = dec_int s (10 * a + int (byte c - 48))"

definition field_at :: "nat \<Rightarrow> nat \<Rightarrow> string \<Rightarrow> int" where
  "field_at i n s = dec_int (take n (drop i s)) 0"

definition leap :: "int \<Rightarrow> bool" where
  "leap y = (y mod 4 = 0 \<and> (y mod 100 \<noteq> 0 \<or> y mod 400 = 0))"

definition month_days :: "int \<Rightarrow> int \<Rightarrow> int" where
  "month_days y m = (if m = 2 then (if leap y then 29 else 28) else if m \<in> {4, 6, 9, 11} then 30 else 31)"

text \<open>
  What \<open>datetime\<close> accepts: years from 1, real dates, hours up to 23. Seconds 60 and 61, which \<open>%S\<close> of
  \<open>strptime\<close> matches, are refused by \<open>datetime\<close>.
\<close>

definition real_moment :: "int \<Rightarrow> int \<Rightarrow> int \<Rightarrow> int \<Rightarrow> int \<Rightarrow> int \<Rightarrow> bool" where
  "real_moment y m d h mi s =
     (1 \<le> y \<and> 1 \<le> m \<and> m \<le> 12 \<and> 1 \<le> d \<and> d \<le> month_days y m \<and> h \<le> 23 \<and> mi \<le> 59 \<and> s \<le> 59)"

definition calendar_ok :: "string \<Rightarrow> bool" where
  "calendar_ok s = real_moment (field_at 0 4 s) (field_at 5 2 s) (field_at 8 2 s) (field_at 11 2 s) (field_at 14 2 s) (field_at 17 2 s)"

section \<open>White space\<close>

text \<open>The code points of a UTF-8 string, for \<open>str.isspace\<close> and \<open>str.strip\<close>.\<close>

function code_points :: "string \<Rightarrow> nat list" where
  "code_points [] = []"
| "code_points (c # s) =
     (let follow = takeWhile continuation s; rest = dropWhile continuation s;
          lead = (if byte c < 128 then byte c else if byte c < 224 then byte c - 192
                  else if byte c < 240 then byte c - 224 else byte c - 240)
      in fold (\<lambda>d n. 64 * n + (byte d - 128)) follow lead # code_points rest)"
  by pat_completeness auto
termination
  by (relation "measure length") (auto simp: le_imp_less_Suc length_dropWhile_le)

definition white :: "nat \<Rightarrow> bool" where
  "white n = ((9 \<le> n \<and> n \<le> 13) \<or> (28 \<le> n \<and> n \<le> 32) \<or> n \<in> {133, 160, 5760, 8232, 8233, 8239, 8287, 12288}
     \<or> (8192 \<le> n \<and> n \<le> 8202))"

text \<open>\<open>not s.strip()\<close>.\<close>

definition blank :: "string \<Rightarrow> bool" where
  "blank s = list_all white (code_points s)"

section \<open>Timestamps of entries\<close>

text \<open>
  The decimal digits (general category Nd) of Unicode 15, which Python 3.12 and 3.13 use, come in runs of
  ten consecutive code points; these are the digits zero. Python 3.10 and 3.11 lack the two
  runs of Kawi and Nag Mundari, and Python 3.14 adds some of newer scripts.
\<close>

definition decimal_zeros :: "nat list" where
  "decimal_zeros = [48, 1632, 1776, 1984, 2406, 2534, 2662, 2790, 2918, 3046, 3174, 3302, 3430, 3558, 3664, 3792,
     3872, 4160, 4240, 6112, 6160, 6470, 6608, 6784, 6800, 6992, 7088, 7232, 7248, 42528, 43216, 43264, 43472, 43504,
     43600, 44016, 65296, 66720, 68912, 69734, 69872, 69942, 70096, 70384, 70736, 70864, 71248, 71360, 71472, 71904,
     72016, 72784, 73040, 73120, 73552, 92768, 92864, 93008, 120782, 120792, 120802, 120812, 120822, 123200, 123632,
     124144, 125264, 130032]"

definition decimal_value :: "nat \<Rightarrow> nat option" where
  "decimal_value n = map_option (\<lambda>z. n - z) (find (\<lambda>z. z \<le> n \<and> n < z + 10) decimal_zeros)"

text \<open>A pattern in which \<open>d\<close> stands for \<open>\d\<close> and every other character for itself.\<close>

fun decimal_pattern :: "string \<Rightarrow> nat list \<Rightarrow> bool" where
  "decimal_pattern [] ns = (ns = [])"
| "decimal_pattern (p # ps) ns = (case ns of [] \<Rightarrow> False
     | n # r \<Rightarrow> (if p = CHR ''d'' then decimal_value n \<noteq> None else n = byte p) \<and> decimal_pattern ps r)"

text \<open>\<open>_TIMESTAMP_RE\<close> of \<open>models.py\<close>.\<close>

definition entry_timestamp_pattern :: "string \<Rightarrow> bool" where
  "entry_timestamp_pattern s = decimal_pattern ''dddd-dd-ddTdd:dd:ddZ'' (code_points s)"

text \<open>\<open>int\<close> of the \<open>n\<close> digits at \<open>i\<close>.\<close>

definition number_at :: "nat \<Rightarrow> nat \<Rightarrow> nat list \<Rightarrow> int" where
  "number_at i n cs = fold (\<lambda>c a. 10 * a + int (the (decimal_value c))) (take n (drop i cs)) 0"

definition ascii_digit :: "nat \<Rightarrow> bool" where
  "ascii_digit n = (48 \<le> n \<and> n \<le> 57)"

text \<open>
  \<open>strptime\<close> on a text of that pattern. Its own patterns take any digits for the year, ASCII digits for the
  month, and elsewhere an ASCII digit followed, where every second digit is possible, by any digit: \<open>[1-2]\d\<close>
  but \<open>3[0-1]\<close> and \<open>0[1-9]\<close> for the day, \<open>[0-1]\d\<close> but \<open>2[0-3]\<close> for the hour, and \<open>[0-5]\d\<close> for minutes and
  seconds.
\<close>

definition strptime_ok :: "string \<Rightarrow> bool" where
  "strptime_ok s =
     (let cs = code_points s in
      ascii_digit (cs ! 5) \<and> ascii_digit (cs ! 6)
      \<and> ascii_digit (cs ! 8) \<and> (ascii_digit (cs ! 9) \<or> cs ! 8 = 49 \<or> cs ! 8 = 50)
      \<and> ascii_digit (cs ! 11) \<and> (ascii_digit (cs ! 12) \<or> cs ! 11 = 48 \<or> cs ! 11 = 49)
      \<and> ascii_digit (cs ! 14) \<and> ascii_digit (cs ! 17)
      \<and> real_moment (number_at 0 4 cs) (number_at 5 2 cs) (number_at 8 2 cs) (number_at 11 2 cs) (number_at 14 2 cs) (number_at 17 2 cs))"

lemma pylen_le_code_points: "pylen s \<le> len (code_points s)"
proof (induction s rule: code_points.induct)
  case (2 c s)
  have "pylen s = pylen (dropWhile continuation s)" by (induction s) simp_all
  moreover have "pylen (dropWhile continuation s) \<le> len (code_points (dropWhile continuation s))" by (rule "2.IH") simp_all
  ultimately show ?case by (simp add: Let_def)
qed simp

lemma decimal_pattern_length: "decimal_pattern p ns \<Longrightarrow> len ns = len p"
  by (induction p ns rule: decimal_pattern.induct) (auto split: list.splits)

lemma entry_timestamp_pylen: "entry_timestamp_pattern s \<Longrightarrow> pylen s \<le> 20"
  using decimal_pattern_length [of "''dddd-dd-ddTdd:dd:ddZ''" "code_points s"] pylen_le_code_points [of s]
  by (simp add: entry_timestamp_pattern_def)

section \<open>What the patterns guarantee\<close>

lemma name_pattern_chars: "name_pattern s \<Longrightarrow> c \<in> set s \<Longrightarrow> name_char c"
proof -
  assume p: "name_pattern s" and c: "c \<in> set s"
  from p obtain a r where s: "s = a # r" "low_alnum a" "r \<noteq> []" "low_alnum (last r)" "list_all name_char (butlast r)"
    by (auto simp: name_pattern_def split: list.splits)
  have "set r = insert (last r) (set (butlast r))"
    using s(3) by (metis append_butlast_last_id list.set(2) rotate1.simps(2) set_rotate1)
  with s c show ?thesis by (auto simp: name_char_def low_alnum_def list_all_iff)
qed

lemma name_pattern_ends: "name_pattern s \<Longrightarrow> s \<noteq> [] \<and> low_alnum (hd s) \<and> low_alnum (last s)"
  by (auto simp: name_pattern_def split: list.splits)

lemma headed_chars: "headed f r n s \<Longrightarrow> c \<in> set s \<Longrightarrow> f c \<or> r c"
  by (auto simp: headed_def list_all_iff split: list.splits)

lemma headed_first: "headed f r n s \<Longrightarrow> s \<noteq> [] \<and> f (hd s)"
  by (auto simp: headed_def split: list.splits)

lemma headed_len: "headed f r n s \<Longrightarrow> len s \<le> n + 1"
  by (auto simp: headed_def split: list.splits)

lemma name_char_ascii: "name_char c \<Longrightarrow> byte c < 128"
  by (auto simp: name_char_def is_lower_def is_digit_def byte_def)

lemma name_pattern_pylen: "name_pattern s \<Longrightarrow> pylen s = len s"
  using name_pattern_chars name_char_ascii by (intro pylen_ascii) blast

text \<open>An ASCII timestamp, as the sync protocol takes it, is a timestamp of entries.\<close>

lemma code_points_bytes: "list_all (\<lambda>c. byte c < 128) s \<Longrightarrow> code_points s = map byte s"
proof (induction s)
  case (Cons c s)
  then have "takeWhile continuation s = [] \<and> dropWhile continuation s = s" by (cases s) (simp_all add: continuation_def)
  with Cons show ?case by simp
qed simp

lemma decimal_value_ascii: "48 \<le> n \<Longrightarrow> n \<le> 57 \<Longrightarrow> decimal_value n = Some (n - 48)"
  by (simp add: decimal_value_def decimal_zeros_def)

lemma digits_pattern_ascii:
  "digits_pattern p s \<Longrightarrow> list_all (\<lambda>c. byte c < 128) p \<Longrightarrow> list_all (\<lambda>c. byte c < 128) s \<and> decimal_pattern p (map byte s)"
  by (induction p s rule: digits_pattern.induct) (auto simp: is_digit_def decimal_value_ascii split: list.splits if_splits)

lemma digits_pattern_nth: "digits_pattern p s \<Longrightarrow> i < length p \<Longrightarrow> i < length s \<and> (p ! i = CHR ''d'' \<longrightarrow> is_digit (s ! i))"
  by (induction p s arbitrary: i rule: digits_pattern.induct) (auto simp: nth_Cons split: list.splits if_splits nat.splits)

lemma dec_int_fold:
  "list_all is_digit s \<Longrightarrow> fold (\<lambda>c a. 10 * a + int (the (decimal_value c))) (map byte s) a = dec_int s a"
  by (induction s arbitrary: a) (auto simp: is_digit_def decimal_value_ascii)

lemma number_at_bytes:
  assumes "list_all is_digit (take n (drop i s))"
  shows "number_at i n (map byte s) = field_at i n s"
  using dec_int_fold [OF assms] by (simp add: number_at_def field_at_def take_map drop_map)

lemma timestamp_ascii:
  assumes "timestamp_pattern s" and "calendar_ok s"
  shows "entry_timestamp_pattern s" and "strptime_ok s"
proof -
  have p: "digits_pattern ''dddd-dd-ddTdd:dd:ddZ'' s" using assms(1) by (simp add: timestamp_pattern_def)
  have a: "list_all (\<lambda>c. byte c < 128) s" "decimal_pattern ''dddd-dd-ddTdd:dd:ddZ'' (map byte s)"
    using digits_pattern_ascii [OF p] by (simp_all add: byte_def)
  note c = code_points_bytes [OF a(1)]
  show "entry_timestamp_pattern s" using a(2) by (simp add: entry_timestamp_pattern_def c)
  have d: "i < length s \<and> is_digit (s ! i)" if "i \<in> {0, 1, 2, 3, 5, 6, 8, 9, 11, 12, 14, 15, 17, 18}" for i
    using digits_pattern_nth [OF p, of i] that by auto
  have t: "take 2 (drop i s) = [s ! i, s ! Suc i]" if "Suc i < length s" for i
    using that by (simp add: numeral_2_eq_2 take_Suc_conv_app_nth)
  have "18 < length s" using d [of 18] by simp
  then have l: "length (take 4 (drop 0 s)) = 4" by simp
  have "is_digit (take 4 (drop 0 s) ! i)" if "i < 4" for i
  proof -
    have "i \<in> {0, 1, 2, 3}" using that by auto
    with d [of i] show ?thesis by auto
  qed
  then have n: "number_at 0 4 (map byte s) = field_at 0 4 s"
    by (intro number_at_bytes) (simp add: list_all_length l)
  have m: "number_at i 2 (map byte s) = field_at i 2 s" if "i \<in> {5, 8, 11, 14, 17}" for i
    using t [of i] d [of i] d [of "Suc i"] that by (intro number_at_bytes) auto
  have g: "ascii_digit (map byte s ! i)" if "i \<in> {5, 6, 8, 9, 11, 12, 14, 17}" for i
    using d [of i] that by (auto simp: ascii_digit_def is_digit_def)
  show "strptime_ok s"
    using assms(2) unfolding strptime_ok_def c Let_def calendar_ok_def by (simp only: g n m insert_iff empty_iff simp_thms)
qed

text \<open>
  The printable ASCII characters that the words of a POSIX shell give a meaning: quotes, expansions,
  operators, patterns, comments and assignments.
\<close>

definition shell_special :: "char set" where
  "shell_special = set (CHR 0x22 # CHR 0x27 # CHR 0x5C # CHR 0x60 # '' $&|;<>()[]{}*?!~#^='')"

text \<open>
  \<open>s\<close> is no option, consists of printable ASCII characters, and of the special ones it holds at most those of \<open>A\<close>.
\<close>

definition shell_safe :: "char set \<Rightarrow> string \<Rightarrow> bool" where
  "shell_safe A s \<longleftrightarrow> s \<noteq> [] \<and> hd s \<noteq> CHR ''-'' \<and> (\<forall>c \<in> set s. 32 < byte c \<and> byte c < 127)
     \<and> set s \<inter> shell_special \<subseteq> A"

lemma alnum_safe: "is_alnum c \<Longrightarrow> 32 < byte c \<and> byte c < 127 \<and> c \<notin> shell_special \<and> c \<noteq> CHR ''-'' \<and> c \<noteq> CHR ''@''"
  by (auto simp: is_alnum_def is_digit_def is_lower_def is_upper_def shell_special_def byte_def)

lemma safe_punctuation: "c \<in> {CHR ''.'', CHR ''_'', CHR '':'', CHR ''%'', CHR ''-''} \<Longrightarrow>
    32 < byte c \<and> byte c < 127 \<and> c \<notin> shell_special \<and> c \<noteq> CHR ''@''"
  by (auto simp: shell_special_def byte_def)

lemma bracket_bytes: "c \<in> {CHR ''['', CHR '']''} \<Longrightarrow> 32 < byte c \<and> byte c < 127 \<and> c \<noteq> CHR ''-'' \<and> c \<noteq> CHR ''@''"
  by (auto simp: byte_def)

lemma ssh_host_safe:
  assumes "ssh_host_pattern s"
  shows "shell_safe {CHR ''['', CHR '']''} s"
proof -
  have c: "is_alnum c \<or> c \<in> {CHR ''.'', CHR ''_'', CHR '':'', CHR ''%'', CHR ''-''} \<or> c \<in> {CHR ''['', CHR '']''}" if "c \<in> set s" for c
    using headed_chars [OF assms [unfolded ssh_host_pattern_def] that] by auto
  have h: "s \<noteq> []" "is_alnum (hd s) \<or> hd s \<in> {CHR '':'', CHR ''[''}"
    using headed_first [OF assms [unfolded ssh_host_pattern_def]] by simp_all
  have "hd s \<noteq> CHR ''-''" using h(2) alnum_safe by auto
  moreover have "32 < byte c \<and> byte c < 127 \<and> (c \<in> shell_special \<longrightarrow> c \<in> {CHR ''['', CHR '']''})" if "c \<in> set s" for c
    using c [OF that] alnum_safe [of c] safe_punctuation [of c] bracket_bytes [of c] by blast
  ultimately show ?thesis using h(1) unfolding shell_safe_def by blast
qed

lemma ssh_user_safe:
  assumes "ssh_user_pattern s"
  shows "shell_safe {} s" and "CHR ''@'' \<notin> set s"
proof -
  have c: "is_alnum c \<or> c \<in> {CHR ''.'', CHR ''_'', CHR '':'', CHR ''%'', CHR ''-''}" if "c \<in> set s" for c
    using headed_chars [OF assms [unfolded ssh_user_pattern_def] that] by auto
  have h: "s \<noteq> []" "is_alnum (hd s) \<or> hd s \<in> {CHR ''_'', CHR ''.''}"
    using headed_first [OF assms [unfolded ssh_user_pattern_def]] by simp_all
  have "hd s \<noteq> CHR ''-''" using h(2) alnum_safe by auto
  moreover have "32 < byte c \<and> byte c < 127 \<and> c \<notin> shell_special \<and> c \<noteq> CHR ''@''" if "c \<in> set s" for c
    using c [OF that] alnum_safe [of c] safe_punctuation [of c] by blast
  ultimately show "shell_safe {} s" and "CHR ''@'' \<notin> set s" using h(1) unfolding shell_safe_def by blast+
qed

end
