(* ===== verification/Commit_Protocol.thy ===== *)
theory Commit_Protocol
  imports Protocol_Core Text_Checks
begin

text \<open>
  The vault synchronisation protocol KK2 (\<open>sync_protocol_v2.py\<close>): canonical JSON, sealed
  snapshots, signed commits with their chain checks, and the wraps of the vault key for a
  device and for recovery. Cryptography is the parameter \<open>crypto\<close>; salts, nonces, ephemeral
  keys and the clock are arguments where the code draws them.

  \<open>json.loads\<close> refuses integers of more than 4300 digits and nesting beyond the recursion
  limit with exceptions of its own; here such texts are \<open>Malformed\<close> by the checks that
  follow the parser.
\<close>

section \<open>Constants and errors\<close>

definition KK2 :: string where "KK2 = ''KK2''"
definition SNAPSHOT_PROFILE :: string where "SNAPSHOT_PROFILE = ''kk2-snapshot-aes256gcm-hkdf-sha256-v1''"
definition COMMIT_PROFILE :: string where "COMMIT_PROFILE = ''kk2-commit-ed25519-sha256-v1''"
definition DEVICE_WRAP_PROFILE :: string where "DEVICE_WRAP_PROFILE = ''kk2-device-wrap-x25519-aes256gcm-v1''"
definition RECOVERY_WRAP_PROFILE :: string where "RECOVERY_WRAP_PROFILE = ''kk2-recovery-wrap-aes256gcm-hkdf-sha256-v1''"

abbreviation "MAX_SNAPSHOT_PLAINTEXT \<equiv> 16777216 :: int"
abbreviation "MAX_SNAPSHOT_BLOB \<equiv> 25165824 :: int"
abbreviation "MAX_COMMIT \<equiv> 32768 :: int"
abbreviation "MAX_KEY_WRAP \<equiv> 16384 :: int"
abbreviation "MAX_CONTEXT \<equiv> 1024 :: int"

definition domain :: "string \<Rightarrow> string" where
  "domain name = ''keys-keeper/KK2/'' @ name @ ''/v1'' @ [CHR 0x00]"

definition SNAPSHOT_FIELDS :: "string list" where
  "SNAPSHOT_FIELDS = [''protocol'', ''format_profile'', ''vault_id'', ''salt'', ''nonce'', ''ciphertext'']"

definition MANIFEST_FIELDS :: "string list" where
  "MANIFEST_FIELDS = [''protocol'', ''format_profile'', ''vault_id'', ''sequence'', ''parent_commit_id'',
     ''parent_manifest_hash'', ''ciphertext_sha256'', ''author_device_id'', ''timestamp'']"

definition COMMIT_FIELDS :: "string list" where
  "COMMIT_FIELDS = [''commit_id'', ''manifest'', ''signature'']"

definition DEVICE_WRAP_FIELDS :: "string list" where
  "DEVICE_WRAP_FIELDS = [''protocol'', ''format_profile'', ''vault_id'', ''recipient_device_id'',
     ''ephemeral_public_key'', ''context_sha256'', ''salt'', ''nonce'', ''wrapped_vault_key'']"

definition RECOVERY_WRAP_FIELDS :: "string list" where
  "RECOVERY_WRAP_FIELDS = [''protocol'', ''format_profile'', ''vault_id'', ''salt'', ''nonce'', ''wrapped_vault_key'']"

datatype kerr = Malformed | Unauthentic | Bad_signature | Bad_chain | Replayed

section \<open>Canonical JSON\<close>

text \<open>\<open>_validate_json_value\<close>: nesting of at most 64, integers of 64 bits, no floats.\<close>

fun value_ok :: "json \<Rightarrow> int \<Rightarrow> bool" and value_ok_items :: "json list \<Rightarrow> int \<Rightarrow> bool"
  and value_ok_members :: "(string \<times> json) list \<Rightarrow> int \<Rightarrow> bool" where
  "value_ok JNull d = (d \<le> 64)" | "value_ok (JBool b) d = (d \<le> 64)"
| "value_ok (JInt i) d = (d \<le> 64 \<and> - two63 \<le> i \<and> i < two63)"
| "value_ok (JFloat f) d = False"
| "value_ok (JStr s) d = (d \<le> 64)"
| "value_ok (JList l) d = (d \<le> 64 \<and> value_ok_items l (d + 1))"
| "value_ok (JObj m) d = (d \<le> 64 \<and> value_ok_members m (d + 1))"
| "value_ok_items [] d = True" | "value_ok_items (x # xs) d = (value_ok x d \<and> value_ok_items xs d)"
| "value_ok_members [] d = True"
| "value_ok_members ((k, v) # m) d = (value_ok v d \<and> value_ok_members m d)"

definition canonical_json :: "json \<Rightarrow> kerr + string" where
  "canonical_json v = rbind (ensure (value_ok v 0) Malformed) (\<lambda>_. Inr (canonical_text v))"

definition parse_canonical :: "int \<Rightarrow> string \<Rightarrow> kerr + json" where
  "parse_canonical maximum blob =
     rbind (ensure (len blob \<le> maximum) Malformed) (\<lambda>_.
     rbind (ensure (valid_utf8 blob) Malformed) (\<lambda>_.
     rbind (map_err (\<lambda>_. Malformed) (loads strict_cfg blob)) (\<lambda>v.
     rbind (ensure (value_ok v 0) Malformed) (\<lambda>_.
     rbind (canonical_json v) (\<lambda>b.
     rbind (ensure (b = blob) Malformed) (\<lambda>_. Inr v))))))"

definition require_fields :: "string list \<Rightarrow> json \<Rightarrow> kerr + unit" where
  "require_fields ks v = ensure (exact_keys ks v) Malformed"

definition require_length :: "int \<Rightarrow> string \<Rightarrow> kerr + unit" where
  "require_length n v = ensure (len v = n) Malformed"

definition sync_id_pattern :: "string \<Rightarrow> bool" where
  "sync_id_pattern = headed is_alnum (\<lambda>c. is_alnum c \<or> c \<in> {CHR ''.'', CHR ''_'', CHR '':'', CHR ''-''}) 127"

definition validate_id :: "json \<Rightarrow> kerr + string" where
  "validate_id v = (case v of JStr s \<Rightarrow> if sync_id_pattern s then Inr s else Inl Malformed | _ \<Rightarrow> Inl Malformed)"

definition validate_hash :: "json \<Rightarrow> kerr + string" where
  "validate_hash v = (case v of JStr s \<Rightarrow> if is_sha256 s then Inr s else Inl Malformed | _ \<Rightarrow> Inl Malformed)"

text \<open>The pattern of timestamps narrows the years to 1900\<dots>1999 and 2000\<dots>9999; the other
  fields are within the ranges that the calendar check imposes too.\<close>

definition sync_timestamp :: "string \<Rightarrow> bool" where
  "sync_timestamp s = (timestamp_pattern s \<and> 1900 \<le> field_at 0 4 s \<and> calendar_ok s)"

definition validate_sync_timestamp :: "json \<Rightarrow> kerr + string" where
  "validate_sync_timestamp v = (case v of JStr s \<Rightarrow> if sync_timestamp s then Inr s else Inl Malformed | _ \<Rightarrow> Inl Malformed)"

definition url_char :: "char \<Rightarrow> bool" where
  "url_char c = (is_alnum c \<or> c = CHR ''_'' \<or> c = CHR ''-'')"

definition sync_b64decode :: "int option \<Rightarrow> json \<Rightarrow> kerr + string" where
  "sync_b64decode want v =
     (case v of JStr s \<Rightarrow>
        rbind (ensure (s \<noteq> [] \<and> CHR ''='' \<notin> set s) Malformed) (\<lambda>_.
        rbind (ensure (list_all url_char s) Malformed) (\<lambda>_.
        (case b64decode s of None \<Rightarrow> Inl Malformed
         | Some r \<Rightarrow>
             rbind (ensure (b64 r = s) Malformed) (\<lambda>_.
             rbind (ensure (want = None \<or> want = Some (len r)) Malformed) (\<lambda>_. Inr r)))))
      | _ \<Rightarrow> Inl Malformed)"

section \<open>Snapshots\<close>

definition profile_is :: "string \<Rightarrow> json \<Rightarrow> bool" where
  "profile_is p v = (fld v ''protocol'' = JStr KK2 \<and> fld v ''format_profile'' = JStr p)"

definition snapshot_aad :: "string \<Rightarrow> kerr + string" where
  "snapshot_aad vault =
     rbind (canonical_json (JObj [(''format_profile'', JStr SNAPSHOT_PROFILE), (''protocol'', JStr KK2), (''vault_id'', JStr vault)]))
       (\<lambda>b. Inr (domain ''snapshot-aad'' @ b))"

definition snapshot_envelope :: "string \<Rightarrow> string \<Rightarrow> string \<Rightarrow> string \<Rightarrow> json" where
  "snapshot_envelope vault salt nonce ciphertext =
     JObj [(''protocol'', JStr KK2), (''format_profile'', JStr SNAPSHOT_PROFILE), (''vault_id'', JStr vault),
       (''salt'', JStr (b64 salt)), (''nonce'', JStr (b64 nonce)), (''ciphertext'', JStr (b64 ciphertext))]"

definition seal_vault_snapshot :: "crypto \<Rightarrow> string \<Rightarrow> string \<Rightarrow> string \<Rightarrow> string \<Rightarrow> string \<Rightarrow> kerr + string" where
  "seal_vault_snapshot C salt nonce plaintext vault_key vault_id =
     rbind (ensure (len plaintext \<le> MAX_SNAPSHOT_PLAINTEXT) Malformed) (\<lambda>_.
     rbind (require_length 32 vault_key) (\<lambda>_.
     rbind (validate_id (JStr vault_id)) (\<lambda>vault.
     rbind (snapshot_aad vault) (\<lambda>aad.
     let key = hkdf32 C salt (domain ''snapshot-key'' @ aad) vault_key in
     rbind (canonical_json (snapshot_envelope vault salt nonce (aead_encrypt C key nonce plaintext aad))) (\<lambda>blob.
     rbind (ensure (len blob \<le> MAX_SNAPSHOT_BLOB) Malformed) (\<lambda>_. Inr blob))))))"

definition parse_vault_snapshot :: "string \<Rightarrow> kerr + json \<times> string \<times> string \<times> string" where
  "parse_vault_snapshot blob =
     rbind (parse_canonical MAX_SNAPSHOT_BLOB blob) (\<lambda>e.
     rbind (require_fields SNAPSHOT_FIELDS e) (\<lambda>_.
     rbind (ensure (profile_is SNAPSHOT_PROFILE e) Malformed) (\<lambda>_.
     rbind (validate_id (fld e ''vault_id'')) (\<lambda>_.
     rbind (sync_b64decode (Some 16) (fld e ''salt'')) (\<lambda>salt.
     rbind (sync_b64decode (Some 12) (fld e ''nonce'')) (\<lambda>nonce.
     rbind (sync_b64decode None (fld e ''ciphertext'')) (\<lambda>ciphertext.
     rbind (ensure (16 \<le> len ciphertext) Malformed) (\<lambda>_.
     rbind (ensure (len ciphertext \<le> MAX_SNAPSHOT_PLAINTEXT + 16) Malformed) (\<lambda>_.
     Inr (e, salt, nonce, ciphertext))))))))))"

definition open_vault_snapshot :: "crypto \<Rightarrow> string \<Rightarrow> string \<Rightarrow> string \<Rightarrow> kerr + string" where
  "open_vault_snapshot C blob vault_key expected_vault_id =
     rbind (require_length 32 vault_key) (\<lambda>_.
     rbind (validate_id (JStr expected_vault_id)) (\<lambda>expected.
     rbind (parse_vault_snapshot blob) (\<lambda>(e, salt, nonce, ciphertext).
     rbind (ensure (fld e ''vault_id'' = JStr expected) Unauthentic) (\<lambda>_.
     rbind (snapshot_aad expected) (\<lambda>aad.
     let key = hkdf32 C salt (domain ''snapshot-key'' @ aad) vault_key in
     (case aead_decrypt C key nonce ciphertext aad of None \<Rightarrow> Inl Unauthentic | Some p \<Rightarrow> Inr p))))))"

section \<open>Commits\<close>

text \<open>\<open>isinstance(sequence, int)\<close> and not a boolean: integers only.\<close>

definition validate_manifest :: "json \<Rightarrow> kerr + unit" where
  "validate_manifest m =
     rbind (require_fields MANIFEST_FIELDS m) (\<lambda>_.
     rbind (ensure (profile_is COMMIT_PROFILE m) Malformed) (\<lambda>_.
     rbind (validate_id (fld m ''vault_id'')) (\<lambda>_.
     rbind (validate_id (fld m ''author_device_id'')) (\<lambda>_.
     rbind (ensure (case fld m ''sequence'' of JInt i \<Rightarrow> 1 \<le> i \<and> i < two63 | _ \<Rightarrow> False) Malformed) (\<lambda>_.
     rbind (if fld m ''sequence'' = JInt 1
            then ensure (fld m ''parent_commit_id'' = JNull \<and> fld m ''parent_manifest_hash'' = JNull) Malformed
            else rbind (validate_hash (fld m ''parent_commit_id'')) (\<lambda>_.
                 rbind (validate_hash (fld m ''parent_manifest_hash'')) (\<lambda>_. Inr ()))) (\<lambda>_.
     rbind (validate_hash (fld m ''ciphertext_sha256'')) (\<lambda>_.
     rbind (validate_sync_timestamp (fld m ''timestamp'')) (\<lambda>_. Inr ()))))))))"

definition commit_id_of :: "crypto \<Rightarrow> json \<Rightarrow> string \<Rightarrow> kerr + string" where
  "commit_id_of C manifest signature =
     rbind (canonical_json (JObj [(''manifest'', manifest), (''signature'', JStr signature)])) (\<lambda>b.
     Inr (sha256_hex C (domain ''commit-id'' @ b)))"

definition compute_manifest_hash :: "crypto \<Rightarrow> json \<Rightarrow> kerr + string" where
  "compute_manifest_hash C m =
     rbind (validate_manifest m) (\<lambda>_. rbind (canonical_json m) (\<lambda>b. Inr (sha256_hex C b)))"

definition opt_text :: "string option \<Rightarrow> json" where
  "opt_text x = (case x of None \<Rightarrow> JNull | Some s \<Rightarrow> JStr s)"

definition build_manifest :: "crypto \<Rightarrow> string \<Rightarrow> string \<Rightarrow> int \<Rightarrow> string option \<Rightarrow> string option \<Rightarrow> string \<Rightarrow> string \<Rightarrow> json" where
  "build_manifest C snapshot vault sequence parent parent_hash author timestamp =
     JObj [(''protocol'', JStr KK2), (''format_profile'', JStr COMMIT_PROFILE), (''vault_id'', JStr vault),
       (''sequence'', JInt sequence), (''parent_commit_id'', opt_text parent), (''parent_manifest_hash'', opt_text parent_hash),
       (''ciphertext_sha256'', JStr (sha256_hex C snapshot)), (''author_device_id'', JStr author), (''timestamp'', JStr timestamp)]"

definition build_signed_commit ::
  "crypto \<Rightarrow> string \<Rightarrow> string \<Rightarrow> int \<Rightarrow> string option \<Rightarrow> string option \<Rightarrow> string \<Rightarrow> string \<Rightarrow> string \<Rightarrow> kerr + string" where
  "build_signed_commit C snapshot vault_id sequence parent parent_hash author signing_key timestamp =
     rbind (parse_vault_snapshot snapshot) (\<lambda>(e, _, _, _).
     rbind (validate_id (JStr vault_id)) (\<lambda>vault.
     rbind (ensure (fld e ''vault_id'' = JStr vault) Malformed) (\<lambda>_.
     rbind (validate_id (JStr author)) (\<lambda>author.
     let manifest = build_manifest C snapshot vault sequence parent parent_hash author timestamp in
     rbind (validate_manifest manifest) (\<lambda>_.
     rbind (canonical_json manifest) (\<lambda>mb.
     rbind (require_length 32 signing_key) (\<lambda>_.
     let signature = b64 (ed_sign C signing_key (domain ''commit-signature'' @ mb)) in
     rbind (commit_id_of C manifest signature) (\<lambda>cid.
     canonical_json (JObj [(''commit_id'', JStr cid), (''manifest'', manifest), (''signature'', JStr signature)])))))))))"

record verified_commit =
  vc_id :: string
  vc_manifest_hash :: string
  vc_vault :: string
  vc_sequence :: int
  vc_parent :: json
  vc_parent_hash :: json
  vc_ciphertext :: string
  vc_author :: string
  vc_timestamp :: string
  vc_manifest :: json

text \<open>The optional checks of the expected vault, the expected author and the snapshot at hand.\<close>

definition check_expected :: "string \<Rightarrow> json \<Rightarrow> string option \<Rightarrow> kerr + unit" where
  "check_expected field m expected = (case expected of None \<Rightarrow> Inr ()
     | Some x \<Rightarrow> rbind (validate_id (JStr x)) (\<lambda>e. ensure (fld m field = JStr e) Bad_signature))"

definition check_snapshot :: "crypto \<Rightarrow> json \<Rightarrow> string option \<Rightarrow> kerr + unit" where
  "check_snapshot C m snapshot = (case snapshot of None \<Rightarrow> Inr ()
     | Some b \<Rightarrow> rbind (parse_vault_snapshot b) (\<lambda>(e, _, _, _).
         rbind (ensure (fld e ''vault_id'' = fld m ''vault_id'') Bad_signature) (\<lambda>_.
         ensure (fld m ''ciphertext_sha256'' = JStr (sha256_hex C b)) Bad_signature)))"

definition verify_commit_signature ::
  "crypto \<Rightarrow> string \<Rightarrow> string \<Rightarrow> string option \<Rightarrow> string option \<Rightarrow> string option \<Rightarrow> kerr + verified_commit" where
  "verify_commit_signature C blob public_key snapshot vault author =
     rbind (parse_canonical MAX_COMMIT blob) (\<lambda>c.
     rbind (require_fields COMMIT_FIELDS c) (\<lambda>_.
     let m = fld c ''manifest'' in
     rbind (validate_manifest m) (\<lambda>_.
     rbind (validate_hash (fld c ''commit_id'')) (\<lambda>cid.
     rbind (sync_b64decode (Some 64) (fld c ''signature'')) (\<lambda>signature.
     rbind (commit_id_of C m (text_of (fld c ''signature''))) (\<lambda>expected_id.
     rbind (ensure (cid = expected_id) Bad_signature) (\<lambda>_.
     rbind (canonical_json m) (\<lambda>mb.
     rbind (require_length 32 public_key) (\<lambda>_.
     rbind (ensure (ed_verify C public_key signature (domain ''commit-signature'' @ mb)) Bad_signature) (\<lambda>_.
     rbind (check_expected ''vault_id'' m vault) (\<lambda>_.
     rbind (check_expected ''author_device_id'' m author) (\<lambda>_.
     rbind (check_snapshot C m snapshot) (\<lambda>_.
     rbind (compute_manifest_hash C m) (\<lambda>mh.
     Inr \<lparr>vc_id = cid, vc_manifest_hash = mh, vc_vault = text_of (fld m ''vault_id''), vc_sequence = int_of (fld m ''sequence''),
          vc_parent = fld m ''parent_commit_id'', vc_parent_hash = fld m ''parent_manifest_hash'',
          vc_ciphertext = text_of (fld m ''ciphertext_sha256''), vc_author = text_of (fld m ''author_device_id''),
          vc_timestamp = text_of (fld m ''timestamp''), vc_manifest = m\<rparr>))))))))))))))"

text \<open>The chain and replay checks against a trusted predecessor or watermark.\<close>

definition extends_commit :: "verified_commit \<Rightarrow> verified_commit \<Rightarrow> kerr + unit" where
  "extends_commit previous v =
     rbind (ensure (vc_vault v = vc_vault previous) Bad_chain) (\<lambda>_.
     rbind (if vc_sequence v \<noteq> vc_sequence previous + 1
            then if vc_sequence v \<le> vc_sequence previous then Inl Replayed else Inl Bad_chain
            else Inr ()) (\<lambda>_.
     rbind (ensure (vc_parent v = JStr (vc_id previous)) Bad_chain) (\<lambda>_.
     ensure (vc_parent_hash v = JStr (vc_manifest_hash previous)) Bad_chain)))"

definition verify_commit ::
  "crypto \<Rightarrow> string \<Rightarrow> string \<Rightarrow> string option \<Rightarrow> string option \<Rightarrow> string option \<Rightarrow> verified_commit option \<Rightarrow> json \<Rightarrow> bool
    \<Rightarrow> kerr + verified_commit" where
  "verify_commit C blob public_key snapshot vault author previous minimum genesis =
     rbind (verify_commit_signature C blob public_key snapshot vault author) (\<lambda>v.
     rbind (if minimum = JNull then Inr ()
            else rbind (ensure (case minimum of JInt i \<Rightarrow> 0 \<le> i | _ \<Rightarrow> False) Malformed) (\<lambda>_.
                 ensure (int_of minimum < vc_sequence v) Replayed)) (\<lambda>_.
     rbind (ensure (genesis \<longrightarrow> vc_sequence v = 1 \<and> vc_parent v = JNull \<and> vc_parent_hash v = JNull) Bad_chain) (\<lambda>_.
     rbind (case previous of None \<Rightarrow> Inr () | Some p \<Rightarrow> extends_commit p v) (\<lambda>_. Inr v))))"

section \<open>Wraps of the vault key\<close>

definition validate_context :: "string \<Rightarrow> kerr + unit" where
  "validate_context c = ensure (c \<noteq> [] \<and> len c \<le> MAX_CONTEXT) Malformed"

definition device_wrap_metadata :: "string \<Rightarrow> string \<Rightarrow> string \<Rightarrow> string \<Rightarrow> (string \<times> json) list" where
  "device_wrap_metadata vault device ephemeral context_hash =
     [(''protocol'', JStr KK2), (''format_profile'', JStr DEVICE_WRAP_PROFILE), (''vault_id'', JStr vault),
      (''recipient_device_id'', JStr device), (''ephemeral_public_key'', JStr ephemeral), (''context_sha256'', JStr context_hash)]"

definition wrap_envelope :: "(string \<times> json) list \<Rightarrow> string \<Rightarrow> string \<Rightarrow> string \<Rightarrow> json" where
  "wrap_envelope metadata salt nonce wrapped = JObj (metadata @
     [(''salt'', JStr (b64 salt)), (''nonce'', JStr (b64 nonce)), (''wrapped_vault_key'', JStr (b64 wrapped))])"

definition wrap_vault_key_for_recipient ::
  "crypto \<Rightarrow> string \<Rightarrow> string \<Rightarrow> string \<Rightarrow> string \<Rightarrow> string \<Rightarrow> string \<Rightarrow> string \<Rightarrow> string \<Rightarrow> kerr + string" where
  "wrap_vault_key_for_recipient C ephemeral salt nonce vault_key recipient vault_id device_id context =
     rbind (require_length 32 vault_key) (\<lambda>_.
     rbind (require_length 32 recipient) (\<lambda>_.
     rbind (validate_id (JStr vault_id)) (\<lambda>vault.
     rbind (validate_id (JStr device_id)) (\<lambda>device.
     rbind (validate_context context) (\<lambda>_.
     let metadata = device_wrap_metadata vault device (b64 (x_public C ephemeral)) (sha256_hex C context) in
     rbind (canonical_json (JObj metadata)) (\<lambda>b.
     let aad = domain ''device-wrap-aad'' @ b in
     rbind (case x_exchange C ephemeral recipient of None \<Rightarrow> Inl Malformed | Some s \<Rightarrow> Inr s) (\<lambda>shared.
     let key = hkdf32 C salt (domain ''device-wrap-key'' @ aad) shared in
     canonical_json (wrap_envelope metadata salt nonce (aead_encrypt C key nonce vault_key aad)))))))))"

definition unwrap_vault_key_for_recipient ::
  "crypto \<Rightarrow> string \<Rightarrow> string \<Rightarrow> string \<Rightarrow> string \<Rightarrow> string \<Rightarrow> kerr + string" where
  "unwrap_vault_key_for_recipient C blob private_key expected_vault expected_device context =
     rbind (parse_canonical MAX_KEY_WRAP blob) (\<lambda>e.
     rbind (require_fields DEVICE_WRAP_FIELDS e) (\<lambda>_.
     rbind (ensure (profile_is DEVICE_WRAP_PROFILE e) Malformed) (\<lambda>_.
     rbind (validate_id (fld e ''vault_id'')) (\<lambda>vault.
     rbind (validate_id (fld e ''recipient_device_id'')) (\<lambda>device.
     rbind (validate_id (JStr expected_vault)) (\<lambda>_.
     rbind (validate_id (JStr expected_device)) (\<lambda>_.
     rbind (validate_context context) (\<lambda>_.
     rbind (validate_hash (fld e ''context_sha256'')) (\<lambda>context_hash.
     rbind (ensure (vault = expected_vault \<and> device = expected_device) Unauthentic) (\<lambda>_.
     rbind (ensure (context_hash = sha256_hex C context) Unauthentic) (\<lambda>_.
     rbind (sync_b64decode (Some 32) (fld e ''ephemeral_public_key'')) (\<lambda>ephemeral.
     rbind (sync_b64decode (Some 16) (fld e ''salt'')) (\<lambda>salt.
     rbind (sync_b64decode (Some 12) (fld e ''nonce'')) (\<lambda>nonce.
     rbind (sync_b64decode (Some 48) (fld e ''wrapped_vault_key'')) (\<lambda>wrapped.
     rbind (canonical_json (JObj (device_wrap_metadata vault device (text_of (fld e ''ephemeral_public_key'')) context_hash))) (\<lambda>b.
     let aad = domain ''device-wrap-aad'' @ b in
     rbind (require_length 32 private_key) (\<lambda>_.
     (case x_exchange C private_key ephemeral of None \<Rightarrow> Inl Unauthentic
      | Some shared \<Rightarrow>
          (case aead_decrypt C (hkdf32 C salt (domain ''device-wrap-key'' @ aad) shared) nonce wrapped aad of
             None \<Rightarrow> Inl Unauthentic | Some k \<Rightarrow> Inr k)))))))))))))))))))"

definition recovery_metadata :: "string \<Rightarrow> (string \<times> json) list" where
  "recovery_metadata vault =
     [(''protocol'', JStr KK2), (''format_profile'', JStr RECOVERY_WRAP_PROFILE), (''vault_id'', JStr vault)]"

definition wrap_vault_key_for_recovery ::
  "crypto \<Rightarrow> string \<Rightarrow> string \<Rightarrow> string \<Rightarrow> string \<Rightarrow> string \<Rightarrow> kerr + string" where
  "wrap_vault_key_for_recovery C salt nonce vault_key secret vault_id =
     rbind (require_length 32 vault_key) (\<lambda>_.
     rbind (require_length 32 secret) (\<lambda>_.
     rbind (validate_id (JStr vault_id)) (\<lambda>vault.
     rbind (canonical_json (JObj (recovery_metadata vault))) (\<lambda>b.
     let aad = domain ''recovery-wrap-aad'' @ b; key = hkdf32 C salt (domain ''recovery-wrap-key'' @ aad) secret in
     canonical_json (wrap_envelope (recovery_metadata vault) salt nonce (aead_encrypt C key nonce vault_key aad))))))"

definition unwrap_vault_key_for_recovery :: "crypto \<Rightarrow> string \<Rightarrow> string \<Rightarrow> string \<Rightarrow> kerr + string" where
  "unwrap_vault_key_for_recovery C blob secret expected_vault =
     rbind (require_length 32 secret) (\<lambda>_.
     rbind (parse_canonical MAX_KEY_WRAP blob) (\<lambda>e.
     rbind (require_fields RECOVERY_WRAP_FIELDS e) (\<lambda>_.
     rbind (ensure (profile_is RECOVERY_WRAP_PROFILE e) Malformed) (\<lambda>_.
     rbind (validate_id (fld e ''vault_id'')) (\<lambda>vault.
     rbind (validate_id (JStr expected_vault)) (\<lambda>_.
     rbind (ensure (vault = expected_vault) Unauthentic) (\<lambda>_.
     rbind (sync_b64decode (Some 16) (fld e ''salt'')) (\<lambda>salt.
     rbind (sync_b64decode (Some 12) (fld e ''nonce'')) (\<lambda>nonce.
     rbind (sync_b64decode (Some 48) (fld e ''wrapped_vault_key'')) (\<lambda>wrapped.
     rbind (canonical_json (JObj (recovery_metadata vault))) (\<lambda>b.
     let aad = domain ''recovery-wrap-aad'' @ b; key = hkdf32 C salt (domain ''recovery-wrap-key'' @ aad) secret in
     (case aead_decrypt C key nonce wrapped aad of None \<Rightarrow> Inl Unauthentic | Some k \<Rightarrow> Inr k))))))))))))"

end
