(* ===== verification/Commit_Proofs.thy ===== *)
theory Commit_Proofs
  imports Commit_Protocol Record_Sizes
begin

text \<open>
  The KK2 protocol is correct: texts have one canonical form, sealed snapshots and wrapped keys
  open to what was sealed, built commits verify, and an accepted commit is signed, addressed by
  its content and linked to its predecessor.
\<close>

section \<open>Canonical texts\<close>

lemma value_ok_no_float: "value_ok v d \<Longrightarrow> no_float v" "value_ok_items l d \<Longrightarrow> no_float_items l"
  "value_ok_members m d \<Longrightarrow> no_float_members m"
  by (induction v d and l d and m d rule: value_ok_value_ok_items_value_ok_members.induct) auto

lemma value_ok_all: "value_ok_members m d \<longleftrightarrow> (\<forall>kv \<in> set m. value_ok (snd kv) d)"
  by (induction m) auto

lemma value_ok_sort: "value_ok (sort_members v) d = value_ok v d" "value_ok_items (sort_items l) d = value_ok_items l d"
  "value_ok_members (sort_pairs m) d = value_ok_members m d"
proof (induction v d and l d and m d rule: value_ok_value_ok_items_value_ok_members.induct)
  case (7 m d)
  have "value_ok_members (sort_key fst (sort_pairs m)) (d + 1) = value_ok_members (sort_pairs m) (d + 1)"
    unfolding value_ok_all by simp
  with 7 show ?case by simp
qed auto

lemma canonical_json_ok [ok_simps]: "canonical_json v = Inr b \<longleftrightarrow> value_ok v 0 \<and> b = canonical_text v"
  by (auto simp: canonical_json_def rbind_ok ensure_ok)

lemma require_ok [ok_simps]: "require_fields ks v = Inr u \<longleftrightarrow> exact_keys ks v" "require_length n s = Inr u \<longleftrightarrow> len s = n"
  by (simp_all add: require_fields_def require_length_def ensure_ok)

theorem parse_canonical_iff:
  "parse_canonical n b = Inr v \<longleftrightarrow> wf_json v \<and> sort_members v = v \<and> value_ok v 0 \<and> valid_utf8 b \<and> b = canonical_text v \<and> len b \<le> n"
proof
  assume p: "parse_canonical n b = Inr v"
  then have l: "loads strict_cfg b = Inr v" and o: "value_ok v 0" "valid_utf8 b" "len b \<le> n" "b = canonical_text v"
    by (auto simp: parse_canonical_def rbind_ok ensure_ok canonical_json_ok map_err_ok)
  have "wf_json v" by (rule loads_plain(1) [OF l])
  with l o show "wf_json v \<and> sort_members v = v \<and> value_ok v 0 \<and> valid_utf8 b \<and> b = canonical_text v \<and> len b \<le> n"
    using loads_canonical [OF value_ok_no_float(1) [OF o(1)], of strict_cfg] by simp
next
  assume v: "wf_json v \<and> sort_members v = v \<and> value_ok v 0 \<and> valid_utf8 b \<and> b = canonical_text v \<and> len b \<le> n"
  then have "loads strict_cfg b = Inr v" using loads_canonical [of v strict_cfg] value_ok_no_float by auto
  with v show "parse_canonical n b = Inr v" by (auto simp: parse_canonical_def canonical_json_def)
qed

lemma parse_built:
  assumes "canonical_json v = Inr b" and "wf_json v" and "text_json v" and "len b \<le> n"
  shows "parse_canonical n b = Inr (sort_members v)"
  using assms by (simp add: parse_canonical_iff canonical_json_ok wf_sort_members value_ok_sort valid_utf8_canonical sort_members_idem)

section \<open>Checks\<close>

lemma validate_id_ok [ok_simps]: "validate_id v = Inr s \<longleftrightarrow> v = JStr s \<and> sync_id_pattern s"
  by (auto simp: validate_id_def split: json.splits)

lemma validate_hash_ok [ok_simps]: "validate_hash v = Inr s \<longleftrightarrow> v = JStr s \<and> is_sha256 s"
  by (auto simp: validate_hash_def split: json.splits)

lemma validate_sync_timestamp_ok [ok_simps]: "validate_sync_timestamp v = Inr s \<longleftrightarrow> v = JStr s \<and> sync_timestamp s"
  by (auto simp: validate_sync_timestamp_def split: json.splits)

lemma url_char_bytes: "url_char c \<longleftrightarrow> is_alnum c \<or> byte c = 95 \<or> byte c = 45"
proof -
  have "byte (CHR ''_'') = 95" "byte (CHR ''-'') = 45" by (simp_all add: byte_def)
  then show ?thesis unfolding url_char_def by (metis byte_inject)
qed

lemma url_sextet: "n < 64 \<Longrightarrow> url_char (sextet_char n)"
  using sextet_cases [of n]
  by (auto simp: url_char_bytes sextet_char_def is_alnum_def is_upper_def is_lower_def is_digit_def)

lemma url_b64: "c \<in> set (b64 r) \<Longrightarrow> url_char c"
proof -
  assume "c \<in> set (b64 r)"
  then obtain n where n: "n \<in> set (to_sextets (map byte r))" "c = sextet_char n" by (auto simp: b64_def)
  have "n < 64" using to_sextets_range [of "map byte r"] n(1) by (auto simp: byte_less)
  with n(2) show ?thesis by (simp add: url_sextet)
qed

lemma sync_b64decode_ok [ok_simps]:
  "sync_b64decode w v = Inr r \<longleftrightarrow> v = JStr (b64 r) \<and> r \<noteq> [] \<and> (w = None \<or> w = Some (len r))"
proof -
  have "list_all url_char (b64 r)" by (simp add: list_all_iff url_b64)
  moreover have "CHR ''='' \<notin> set (b64 r)"
    using url_b64 [of "CHR ''=''" r] by (auto simp: url_char_def is_alnum_def is_upper_def is_lower_def is_digit_def byte_def)
  moreover have "b64 r = [] \<longleftrightarrow> r = []" using length_b64 [of r] by (cases r) auto
  ultimately show ?thesis
    by (auto simp: sync_b64decode_def rbind_ok ensure_ok b64decode_b64 split: json.splits option.splits)
qed

lemma sync_id_plain: "sync_id_pattern s \<Longrightarrow> plain s \<and> len s \<le> 128"
proof -
  assume s: "sync_id_pattern s"
  have "plain_char c" if "c \<in> set s" for c
    using headed_chars [OF s [unfolded sync_id_pattern_def] that]
    by (auto simp: is_alnum_def is_upper_def is_lower_def is_digit_def byte_def)
  with headed_len [OF s [unfolded sync_id_pattern_def]] show ?thesis by (simp add: plain_def)
qed

lemma sync_id_text: "sync_id_pattern s \<Longrightarrow> valid_utf8 s"
  using sync_id_plain plain_text by blast

lemma sha_plain: "is_sha256 s \<Longrightarrow> plain s \<and> len s = 64"
  by (auto simp: is_sha256_def list_all_iff intro: plain_hex)

lemma b64_plain_text: "valid_utf8 (b64 s)"
  by (rule plain_text) (rule plain_b64)

lemma names_plain:
  "plain ''protocol''" "plain ''format_profile''" "plain ''vault_id''" "plain ''salt''" "plain ''nonce''" "plain ''ciphertext''"
  "plain ''sequence''" "plain ''parent_commit_id''" "plain ''parent_manifest_hash''" "plain ''ciphertext_sha256''"
  "plain ''author_device_id''" "plain ''timestamp''" "plain ''commit_id''" "plain ''manifest''" "plain ''signature''"
  "plain ''recipient_device_id''" "plain ''ephemeral_public_key''" "plain ''context_sha256''" "plain ''wrapped_vault_key''"
  "plain KK2" "plain SNAPSHOT_PROFILE" "plain COMMIT_PROFILE" "plain DEVICE_WRAP_PROFILE" "plain RECOVERY_WRAP_PROFILE"
  by (simp_all add: plain_def byte_def KK2_def SNAPSHOT_PROFILE_def COMMIT_PROFILE_def DEVICE_WRAP_PROFILE_def RECOVERY_WRAP_PROFILE_def)

lemma profile_leaves: "leaf 130 (JStr KK2)" "leaf 130 (JStr COMMIT_PROFILE)" "leaf 130 (JStr DEVICE_WRAP_PROFILE)"
  "leaf 130 (JStr RECOVERY_WRAP_PROFILE)"
  by (intro leaf_str names_plain; simp add: KK2_def COMMIT_PROFILE_def DEVICE_WRAP_PROFILE_def RECOVERY_WRAP_PROFILE_def)+

lemmas names_text = names_plain [THEN plain_text]

lemma profile_sort: "wf_json v \<Longrightarrow> profile_is p (sort_members v) = profile_is p v"
proof -
  assume w: "wf_json v"
  have "sort_members x = JStr s \<longleftrightarrow> x = JStr s" for x s by (cases x) simp_all
  with w show ?thesis by (simp add: profile_is_def fld_sort_members)
qed

section \<open>Snapshots\<close>

lemma parse_vault_snapshot_ok:
  "parse_vault_snapshot b = Inr (e, salt, nonce, c) \<longleftrightarrow> parse_canonical MAX_SNAPSHOT_BLOB b = Inr e \<and> exact_keys SNAPSHOT_FIELDS e
     \<and> profile_is SNAPSHOT_PROFILE e \<and> (\<exists>s. fld e ''vault_id'' = JStr s \<and> sync_id_pattern s)
     \<and> fld e ''salt'' = JStr (b64 salt) \<and> len salt = 16 \<and> fld e ''nonce'' = JStr (b64 nonce) \<and> len nonce = 12
     \<and> fld e ''ciphertext'' = JStr (b64 c) \<and> 16 \<le> len c \<and> len c \<le> MAX_SNAPSHOT_PLAINTEXT + 16"
  by (auto simp: parse_vault_snapshot_def rbind_ok ensure_ok ok_simps)

lemma envelope_fields [simp]:
  "fld (snapshot_envelope v s n c) ''vault_id'' = JStr v" "fld (snapshot_envelope v s n c) ''salt'' = JStr (b64 s)"
  "fld (snapshot_envelope v s n c) ''nonce'' = JStr (b64 n)" "fld (snapshot_envelope v s n c) ''ciphertext'' = JStr (b64 c)"
  "exact_keys SNAPSHOT_FIELDS (snapshot_envelope v s n c)" "profile_is SNAPSHOT_PROFILE (snapshot_envelope v s n c)"
  "wf_json (snapshot_envelope v s n c)"
  by (auto simp: snapshot_envelope_def fld_def exact_keys_def SNAPSHOT_FIELDS_def profile_is_def)

lemma parse_sealed:
  assumes C: "crypto_ok C" and n: "length salt = 16" "length nonce = 12"
    and b: "seal_vault_snapshot C salt nonce p k vault = Inr blob"
  shows "\<exists>aad. snapshot_aad vault = Inr aad \<and> sync_id_pattern vault \<and> len k = 32
    \<and> parse_vault_snapshot blob = Inr (sort_members (snapshot_envelope vault salt nonce
        (aead_encrypt C (hkdf32 C salt (domain ''snapshot-key'' @ aad) k) nonce p aad)), salt, nonce,
        aead_encrypt C (hkdf32 C salt (domain ''snapshot-key'' @ aad) k) nonce p aad)"
proof -
  from b obtain aad where aad: "snapshot_aad vault = Inr aad" and p: "len p \<le> MAX_SNAPSHOT_PLAINTEXT" "len k = 32"
    and v: "sync_id_pattern vault"
    and j: "canonical_json (snapshot_envelope vault salt nonce
        (aead_encrypt C (hkdf32 C salt (domain ''snapshot-key'' @ aad) k) nonce p aad)) = Inr blob"
    and s: "len blob \<le> MAX_SNAPSHOT_BLOB"
    by (auto simp: seal_vault_snapshot_def rbind_ok ensure_ok require_ok validate_id_ok Let_def)
  define c where "c = aead_encrypt C (hkdf32 C salt (domain ''snapshot-key'' @ aad) k) nonce p aad"
  have c: "len c = len p + 16" using C by (simp add: crypto_ok_def c_def len_length)
  have t: "text_json (snapshot_envelope vault salt nonce c)"
    by (simp add: snapshot_envelope_def names_text b64_plain_text sync_id_text [OF v])
  have "parse_canonical MAX_SNAPSHOT_BLOB blob = Inr (sort_members (snapshot_envelope vault salt nonce c))"
    by (rule parse_built [OF j [folded c_def] _ t s]) simp
  then have "parse_vault_snapshot blob = Inr (sort_members (snapshot_envelope vault salt nonce c), salt, nonce, c)"
    unfolding parse_vault_snapshot_ok using p n v c
    by (simp add: exact_keys_sort profile_sort fld_sort_members len_length)
  with aad v p show ?thesis by (auto simp: c_def)
qed

theorem open_seal_snapshot:
  assumes "crypto_ok C" and "length salt = 16" "length nonce = 12"
    and "seal_vault_snapshot C salt nonce p k vault = Inr blob"
  shows "open_vault_snapshot C blob k vault = Inr p"
proof -
  obtain aad where aad: "snapshot_aad vault = Inr aad" "sync_id_pattern vault" "len k = 32"
    "parse_vault_snapshot blob = Inr (sort_members (snapshot_envelope vault salt nonce
        (aead_encrypt C (hkdf32 C salt (domain ''snapshot-key'' @ aad) k) nonce p aad)), salt, nonce,
        aead_encrypt C (hkdf32 C salt (domain ''snapshot-key'' @ aad) k) nonce p aad)"
    using parse_sealed [OF assms] by blast
  then show ?thesis using assms(1)
    by (simp add: open_vault_snapshot_def require_length_def validate_id_def fld_sort_members crypto_ok_def)
qed

section \<open>Commits\<close>

lemma validate_manifest_ok:
  "validate_manifest m = Inr u \<longleftrightarrow> exact_keys MANIFEST_FIELDS m \<and> profile_is COMMIT_PROFILE m
     \<and> (\<exists>v. fld m ''vault_id'' = JStr v \<and> sync_id_pattern v) \<and> (\<exists>a. fld m ''author_device_id'' = JStr a \<and> sync_id_pattern a)
     \<and> (\<exists>i. fld m ''sequence'' = JInt i \<and> 1 \<le> i \<and> i < two63)
     \<and> (if fld m ''sequence'' = JInt 1 then fld m ''parent_commit_id'' = JNull \<and> fld m ''parent_manifest_hash'' = JNull
        else (\<exists>p. fld m ''parent_commit_id'' = JStr p \<and> is_sha256 p) \<and> (\<exists>p. fld m ''parent_manifest_hash'' = JStr p \<and> is_sha256 p))
     \<and> (\<exists>h. fld m ''ciphertext_sha256'' = JStr h \<and> is_sha256 h) \<and> (\<exists>t. fld m ''timestamp'' = JStr t \<and> sync_timestamp t)"
proof -
  have i: "(case x of JInt i \<Rightarrow> 1 \<le> i \<and> i < two63 | _ \<Rightarrow> False) \<longleftrightarrow> (\<exists>i. x = JInt i \<and> 1 \<le> i \<and> i < two63)" for x
    by (cases x) auto
  show ?thesis unfolding validate_manifest_def
    by (cases "fld m ''sequence'' = JInt 1") (simp_all add: rbind_ok ensure_ok ok_simps i, blast+)
qed

lemma check_expected_ok:
  "check_expected k m x = Inr u \<longleftrightarrow> (\<forall>s. x = Some s \<longrightarrow> sync_id_pattern s \<and> fld m k = JStr s)"
  by (auto simp: check_expected_def rbind_ok ensure_ok ok_simps split: option.splits)

lemma check_snapshot_ok:
  "check_snapshot C m x = Inr u \<longleftrightarrow> (\<forall>b. x = Some b \<longrightarrow> fld m ''ciphertext_sha256'' = JStr (sha256_hex C b)
     \<and> (\<exists>e salt nonce c. parse_vault_snapshot b = Inr (e, salt, nonce, c) \<and> fld e ''vault_id'' = fld m ''vault_id''))"
proof (cases x)
  case (Some b)
  then show ?thesis
    by (cases "parse_vault_snapshot b") (auto simp: check_snapshot_def rbind_ok ensure_ok)
qed (simp add: check_snapshot_def)

text \<open>What it means that a commit was verified: its bytes are the one text of a signed manifest,
  its identifier is the hash of the manifest and the signature, and the record repeats the manifest.\<close>

definition commit_text :: "json \<Rightarrow> string \<Rightarrow> string \<Rightarrow> json" where
  "commit_text m cid signature = JObj [(''commit_id'', JStr cid), (''manifest'', m), (''signature'', JStr signature)]"

definition signed_commit :: "crypto \<Rightarrow> string \<Rightarrow> string \<Rightarrow> verified_commit \<Rightarrow> bool" where
  "signed_commit C pk blob v \<longleftrightarrow> (\<exists>sg. length sg = 64
     \<and> ed_verify C pk sg (domain ''commit-signature'' @ canonical_text (vc_manifest v))
     \<and> vc_id v = sha256_hex C (domain ''commit-id'' @ canonical_text (JObj [(''manifest'', vc_manifest v), (''signature'', JStr (b64 sg))]))
     \<and> blob = canonical_text (commit_text (vc_manifest v) (vc_id v) (b64 sg)))"

definition describes :: "crypto \<Rightarrow> verified_commit \<Rightarrow> bool" where
  "describes C v \<longleftrightarrow> (let m = vc_manifest v in validate_manifest m = Inr () \<and> vc_manifest_hash v = sha256_hex C (canonical_text m)
     \<and> fld m ''vault_id'' = JStr (vc_vault v) \<and> fld m ''sequence'' = JInt (vc_sequence v)
     \<and> fld m ''parent_commit_id'' = vc_parent v \<and> fld m ''parent_manifest_hash'' = vc_parent_hash v
     \<and> fld m ''ciphertext_sha256'' = JStr (vc_ciphertext v) \<and> fld m ''author_device_id'' = JStr (vc_author v)
     \<and> fld m ''timestamp'' = JStr (vc_timestamp v))"

lemma members_of_keys:
  assumes "exact_keys [a, b, c] v" and "wf_json v" and "sort_members v = v" and "a < b" "b < c"
  shows "v = JObj [(a, fld v a), (b, fld v b), (c, fld v c)]"
proof -
  obtain m where m: "v = JObj m" "set (map fst m) = {a, b, c}" using assms(1) by (cases v) (auto simp: exact_keys_def)
  have d: "distinct (map fst m)" using assms(2) m(1) by simp
  have "sorted (map fst m)"
  proof -
    have "m = sort_key fst (sort_pairs m)" using assms(3) m(1) by simp
    then have "map fst m = map fst (sort_key fst (sort_pairs m))" by simp
    also have "sorted \<dots>" by simp
    finally show ?thesis .
  qed
  moreover have "sorted [a, b, c]" "distinct [a, b, c]" "set [a, b, c] = set (map fst m)" using assms(4,5) m(2) by auto
  ultimately have k: "map fst m = [a, b, c]" using d by (intro sorted_distinct_set_unique) auto
  then obtain x y z where "m = [(a, x), (b, y), (c, z)]" by (auto simp: map_eq_Cons_conv)
  with m(1) assms(4,5) show ?thesis by (auto simp: fld_def)
qed

theorem verify_commit_signature_D:
  assumes "verify_commit_signature C blob pk snapshot vault author = Inr v"
  shows "signed_commit C pk blob v" and "describes C v" and "len blob \<le> MAX_COMMIT"
    and "\<And>x. vault = Some x \<Longrightarrow> vc_vault v = x" and "\<And>x. author = Some x \<Longrightarrow> vc_author v = x"
    and "\<And>b. snapshot = Some b \<Longrightarrow> vc_ciphertext v = sha256_hex C b
           \<and> (\<exists>e salt nonce c. parse_vault_snapshot b = Inr (e, salt, nonce, c) \<and> fld e ''vault_id'' = JStr (vc_vault v))"
proof -
  from assms obtain c cid sg mh m where c: "parse_canonical MAX_COMMIT blob = Inr c" "exact_keys COMMIT_FIELDS c"
    and m: "m = fld c ''manifest''" "validate_manifest m = Inr ()" "fld c ''commit_id'' = JStr cid" "is_sha256 cid"
    and sg: "fld c ''signature'' = JStr (b64 sg)" "len sg = 64"
    and cid: "commit_id_of C m (b64 sg) = Inr cid"
    and ed: "ed_verify C pk sg (domain ''commit-signature'' @ canonical_text m)"
    and ex: "check_expected ''vault_id'' m vault = Inr ()" "check_expected ''author_device_id'' m author = Inr ()"
      "check_snapshot C m snapshot = Inr ()" and mh: "compute_manifest_hash C m = Inr mh"
    and v: "v = \<lparr>vc_id = cid, vc_manifest_hash = mh, vc_vault = text_of (fld m ''vault_id''), vc_sequence = int_of (fld m ''sequence''),
          vc_parent = fld m ''parent_commit_id'', vc_parent_hash = fld m ''parent_manifest_hash'',
          vc_ciphertext = text_of (fld m ''ciphertext_sha256''), vc_author = text_of (fld m ''author_device_id''),
          vc_timestamp = text_of (fld m ''timestamp''), vc_manifest = m\<rparr>"
    by (auto simp: verify_commit_signature_def rbind_ok ensure_ok ok_simps Let_def)
  note p = c(1) [unfolded parse_canonical_iff]
  have "c = commit_text m cid (b64 sg)"
    using members_of_keys [of "''commit_id''" "''manifest''" "''signature''" c] c(2) p m(1,3) sg(1)
    by (simp add: COMMIT_FIELDS_def commit_text_def less_char_def)
  with p sg(2) cid ed show "signed_commit C pk blob v"
    by (auto simp: signed_commit_def v commit_id_of_def rbind_ok canonical_json_ok len_length)
  show d: "describes C v" using m(2) mh
    by (auto simp: describes_def v Let_def compute_manifest_hash_def rbind_ok canonical_json_ok validate_manifest_ok)
  show "len blob \<le> MAX_COMMIT" using p by (elim conjE)
  show "vc_vault v = x" if "vault = Some x" for x using ex(1) that by (simp add: check_expected_ok v)
  show "vc_author v = x" if "author = Some x" for x using ex(2) that by (simp add: check_expected_ok v)
  show "vc_ciphertext v = sha256_hex C b
     \<and> (\<exists>e salt nonce c. parse_vault_snapshot b = Inr (e, salt, nonce, c) \<and> fld e ''vault_id'' = JStr (vc_vault v))"
    if "snapshot = Some b" for b
  proof -
    have "fld m ''vault_id'' = JStr (vc_vault v)" using d by (simp add: describes_def Let_def v)
    moreover from ex(3) [unfolded check_snapshot_ok, rule_format, OF that]
    have h: "fld m ''ciphertext_sha256'' = JStr (sha256_hex C b)"
      and e: "\<exists>e salt nonce c. parse_vault_snapshot b = Inr (e, salt, nonce, c) \<and> fld e ''vault_id'' = fld m ''vault_id''"
      by (rule conjunct1, rule conjunct2)
    have "vc_ciphertext v = sha256_hex C b" unfolding v using h by simp
    ultimately show ?thesis using e by simp
  qed
qed

section \<open>Built commits\<close>

lemma digits_pattern_plain: "digits_pattern p s \<Longrightarrow> plain p \<Longrightarrow> plain s \<and> len s = len p"
  by (induction p s rule: digits_pattern.induct) (auto simp: plain_def is_digit_def split: list.splits if_splits)

lemma timestamp_plain: "sync_timestamp s \<Longrightarrow> plain s \<and> len s = 20"
proof -
  have p: "plain ''dddd-dd-ddTdd:dd:ddZ''" by (simp add: plain_def byte_def)
  assume "sync_timestamp s"
  then have "digits_pattern ''dddd-dd-ddTdd:dd:ddZ'' s" by (simp add: sync_timestamp_def timestamp_pattern_def)
  from digits_pattern_plain [OF this p] show ?thesis by simp
qed

lemma scalar_sort: "sort_members x = JStr s \<longleftrightarrow> x = JStr s" "sort_members x = JInt i \<longleftrightarrow> x = JInt i"
  "sort_members x = JNull \<longleftrightarrow> x = JNull"
  by (cases x; simp)+

lemma validate_manifest_sort: "wf_json m \<Longrightarrow> validate_manifest (sort_members m) = Inr () \<longleftrightarrow> validate_manifest m = Inr ()"
  by (simp add: validate_manifest_ok exact_keys_sort profile_sort fld_sort_members scalar_sort)

lemma manifest_fields [simp]:
  "fld (build_manifest C b v q p h a t) ''vault_id'' = JStr v" "fld (build_manifest C b v q p h a t) ''sequence'' = JInt q"
  "fld (build_manifest C b v q p h a t) ''parent_commit_id'' = opt_text p"
  "fld (build_manifest C b v q p h a t) ''parent_manifest_hash'' = opt_text h"
  "fld (build_manifest C b v q p h a t) ''ciphertext_sha256'' = JStr (sha256_hex C b)"
  "fld (build_manifest C b v q p h a t) ''author_device_id'' = JStr a" "fld (build_manifest C b v q p h a t) ''timestamp'' = JStr t"
  "wf_json (build_manifest C b v q p h a t)"
  by (simp_all add: build_manifest_def fld_def opt_text_def split: option.split)

lemma opt_text_ok: "opt_text p = JStr s \<longleftrightarrow> p = Some s" "opt_text p = JNull \<longleftrightarrow> p = None"
  by (auto simp: opt_text_def split: option.splits)

text \<open>The members of a valid manifest are short scalars.\<close>

lemma manifest_leaves:
  assumes "validate_manifest (build_manifest C b v q p h a t) = Inr ()"
  shows "leaves 130 (members (build_manifest C b v q p h a t))"
proof -
  note m = assms [unfolded validate_manifest_ok]
  from m have q: "1 \<le> q" "q < two63" by auto
  have lq: "leaf 130 (JInt q)" by (rule leaf_mono [OF leaf_uint [of 1]]) (use q in \<open>simp_all add: is_uint_def\<close>)
  from m have ids: "sync_id_pattern v" "sync_id_pattern a" "is_sha256 (sha256_hex C b)" "sync_timestamp t" by auto
  have lid: "leaf 130 (JStr x)" if "sync_id_pattern x" for x using sync_id_plain [OF that] by (simp add: leaf_str)
  have lsha: "leaf 130 (JStr x)" if "is_sha256 x" for x using sha_plain [OF that] by (simp add: leaf_str)
  have lts: "leaf 130 (JStr t)" using timestamp_plain [OF ids(4)] by (simp add: leaf_str)
  have lo: "leaf 130 (opt_text p)" "leaf 130 (opt_text h)"
    using m lsha by (cases p; cases h; auto simp: opt_text_def split: if_splits)+
  show ?thesis
    using lq lid [OF ids(1)] lid [OF ids(2)] lsha [OF ids(3)] lts lo
    by (simp add: build_manifest_def names_plain profile_leaves)
qed

lemma commit_id_sort: "wf_json m \<Longrightarrow> commit_id_of C (sort_members m) s = commit_id_of C m s"
  by (simp add: commit_id_of_def canonical_json_def value_ok_sort canonical_text_def sort_members_idem)

theorem verify_built_commit:
  assumes C: "crypto_ok C"
    and b: "build_signed_commit C snapshot vault q p h author k t = Inr blob"
  shows "\<exists>v. verify_commit_signature C blob (ed_public C k) (Some snapshot) (Some vault) (Some author) = Inr v
    \<and> vc_sequence v = q \<and> vc_parent v = opt_text p \<and> vc_parent_hash v = opt_text h \<and> vc_timestamp v = t"
proof -
  define m where "m = build_manifest C snapshot vault q p h author t"
  from b obtain e salt nonce c cid where e: "parse_vault_snapshot snapshot = Inr (e, salt, nonce, c)" "fld e ''vault_id'' = JStr vault"
    and ids: "sync_id_pattern vault" "sync_id_pattern author" and m: "validate_manifest m = Inr ()" "value_ok m 0" and k: "len k = 32"
    and cid: "commit_id_of C m (b64 (ed_sign C k (domain ''commit-signature'' @ canonical_text m))) = Inr cid"
    and j: "canonical_json (commit_text m cid (b64 (ed_sign C k (domain ''commit-signature'' @ canonical_text m)))) = Inr blob"
    by (auto simp: build_signed_commit_def m_def rbind_ok ensure_ok ok_simps Let_def commit_text_def)
  define sg where "sg = ed_sign C k (domain ''commit-signature'' @ canonical_text m)"
  have sg: "length sg = 64" "ed_verify C (ed_public C k) sg (domain ''commit-signature'' @ canonical_text m)"
    "length (ed_public C k) = 32"
    using C k by (simp_all add: crypto_ok_def sg_def len_length)
  have cs: "is_sha256 cid" using cid C by (auto simp: commit_id_of_def rbind_ok crypto_ok_def)
  obtain mm where mm: "m = JObj mm" "leaves 130 mm" "len mm = 9"
    using manifest_leaves [OF m(1) [unfolded m_def]] by (simp add: m_def build_manifest_def)
  have t: "text_json (commit_text m cid (b64 sg))" "wf_json (commit_text m cid (b64 sg))"
    using leaves_bounds(3,4) [OF mm(2)] sha_plain [OF cs] manifest_fields(8) [of C snapshot vault q p h author t, folded m_def]
    by (simp_all add: commit_text_def mm(1) names_text plain_text b64_plain_text)
  have "width (commit_text m cid (b64 sg)) \<le> 2000"
  proof -
    have "len (quote (b64 sg)) = 88" "len (quote cid) = 66"
      using sg(1) sha_plain [OF cs] by (simp_all add: len_quote_plain plain_b64) (simp add: len_length length_b64)
    then show ?thesis using leaves_bounds(1) [OF mm(2)] mm(3) by (simp add: commit_text_def mm(1) len_quote_plain names_plain)
  qed
  then have w: "len blob \<le> MAX_COMMIT"
    using j len_canonical [of "commit_text m cid (b64 sg)"] by (simp add: canonical_json_ok sg_def)
  have pc: "parse_canonical MAX_COMMIT blob = Inr (sort_members (commit_text m cid (b64 sg)))"
    by (rule parse_built [OF j [folded sg_def] t(2,1) w])
  have wfm: "wf_json m" by (simp add: m_def)
  have f: "fld (sort_members (commit_text m cid (b64 sg))) ''manifest'' = sort_members m"
    "fld (sort_members (commit_text m cid (b64 sg))) ''commit_id'' = JStr cid"
    "fld (sort_members (commit_text m cid (b64 sg))) ''signature'' = JStr (b64 sg)"
    unfolding fld_sort_members [OF t(2)] by (simp_all add: commit_text_def fld_def)
  have x: "exact_keys COMMIT_FIELDS (sort_members (commit_text m cid (b64 sg)))"
    unfolding exact_keys_sort by (auto simp: commit_text_def exact_keys_def COMMIT_FIELDS_def)
  have sm: "validate_manifest (sort_members m) = Inr ()" using m(1) wfm by (simp add: validate_manifest_sort)
  have d: "sync_b64decode (Some 64) (JStr (b64 sg)) = Inr sg" using sg(1) by (auto simp: sync_b64decode_ok len_length)
  have ff: "fld (sort_members m) key = sort_members (fld m key)" for key by (rule fld_sort_members [OF wfm])
  have ce: "check_expected ''vault_id'' (sort_members m) (Some vault) = Inr ()"
    "check_expected ''author_device_id'' (sort_members m) (Some author) = Inr ()"
    "check_snapshot C (sort_members m) (Some snapshot) = Inr ()"
    unfolding check_expected_ok check_snapshot_ok ff using ids e by (auto simp: m_def)
  have mh: "compute_manifest_hash C (sort_members m) = Inr (sha256_hex C (canonical_text m))"
    using sm m(2) by (simp add: compute_manifest_hash_def canonical_json_def value_ok_sort)
  have o: "sort_members (opt_text y) = opt_text y" for y by (simp add: opt_text_def split: option.split)
  show ?thesis
    unfolding verify_commit_signature_def pc
    using x sm cs d cid [folded sg_def] commit_id_sort [OF wfm] m(2) sg ce mh
    by (simp add: f require_fields_def validate_hash_def canonical_json_def value_ok_sort require_length_def len_length ff o)
      (simp add: m_def o)
qed

section \<open>Chains\<close>

definition follows :: "verified_commit \<Rightarrow> verified_commit \<Rightarrow> bool" where
  "follows p v \<longleftrightarrow> vc_vault v = vc_vault p \<and> vc_sequence v = vc_sequence p + 1 \<and> vc_parent v = JStr (vc_id p)
     \<and> vc_parent_hash v = JStr (vc_manifest_hash p)"

lemma extends_commit_ok: "extends_commit p v = Inr u \<longleftrightarrow> follows p v"
  by (auto simp: extends_commit_def follows_def rbind_ok ensure_ok)

theorem verify_commit_ok:
  "verify_commit C blob pk snapshot vault author previous minimum genesis = Inr v \<longleftrightarrow>
     verify_commit_signature C blob pk snapshot vault author = Inr v
     \<and> (minimum = JNull \<or> (\<exists>i. minimum = JInt i \<and> 0 \<le> i \<and> i < vc_sequence v))
     \<and> (if genesis then vc_sequence v = 1 \<and> vc_parent v = JNull \<and> vc_parent_hash v = JNull else True)
     \<and> (case previous of None \<Rightarrow> True | Some p \<Rightarrow> follows p v)"
proof -
  have m: "(if minimum = JNull then Inr ()
      else rbind (ensure (case minimum of JInt i \<Rightarrow> 0 \<le> i | _ \<Rightarrow> False) Malformed) (\<lambda>_. ensure (int_of minimum < vc_sequence v) Replayed))
      = Inr () \<longleftrightarrow> minimum = JNull \<or> (\<exists>i. minimum = JInt i \<and> 0 \<le> i \<and> i < vc_sequence v)" for v
    by (cases minimum) (auto simp: rbind_ok ensure_ok)
  show ?thesis
    by (cases previous) (auto simp: verify_commit_def rbind_ok ensure_ok m extends_commit_ok)
qed

section \<open>Wrapped keys\<close>

lemma wrapped_fields:
  assumes "fst ` set md \<inter> {''salt'', ''nonce'', ''wrapped_vault_key''} = {}" and "wf_json (JObj md)"
  shows "wf_json (wrap_envelope md s n w)" and "fld (wrap_envelope md s n w) ''salt'' = JStr (b64 s)"
    and "fld (wrap_envelope md s n w) ''nonce'' = JStr (b64 n)" and "fld (wrap_envelope md s n w) ''wrapped_vault_key'' = JStr (b64 w)"
    and "k \<in> fst ` set md \<Longrightarrow> fld (wrap_envelope md s n w) k = fld (JObj md) k"
proof -
  have nn: "map_of md k = None" if "k \<in> {''salt'', ''nonce'', ''wrapped_vault_key''}" for k
  proof -
    have "k \<notin> fst ` set md" using assms(1) that by blast
    then show ?thesis by (simp add: map_of_eq_None_iff)
  qed
  show "fld (wrap_envelope md s n w) ''salt'' = JStr (b64 s)" "fld (wrap_envelope md s n w) ''nonce'' = JStr (b64 n)"
    "fld (wrap_envelope md s n w) ''wrapped_vault_key'' = JStr (b64 w)"
    using nn by (simp_all add: wrap_envelope_def fld_def map_add_def)
  show "wf_json (wrap_envelope md s n w)" using assms by (auto simp: wrap_envelope_def)
  show "fld (wrap_envelope md s n w) k = fld (JObj md) k" if k: "k \<in> fst ` set md"
  proof -
    obtain x where "map_of md k = Some x" using k by (cases "map_of md k") (auto simp: map_of_eq_None_iff)
    then show ?thesis by (simp add: wrap_envelope_def fld_def)
  qed
qed

text \<open>Reading a wrap back: the envelope of short scalar metadata fits and keeps its members.\<close>

lemma parse_wrapped:
  assumes l: "leaves 130 md" and d: "fst ` set md \<inter> {''salt'', ''nonce'', ''wrapped_vault_key''} = {}" "distinct (map fst md)" "len md \<le> 10"
    and b: "canonical_json (wrap_envelope md s n w) = Inr blob" and z: "length s = 16" "length n = 12" "length w = 48"
  shows "parse_canonical MAX_KEY_WRAP blob = Inr (sort_members (wrap_envelope md s n w))"
proof -
  note bounds = leaves_bounds [OF l]
  have wf: "wf_json (wrap_envelope md s n w)" using wrapped_fields(1) [OF d(1)] d(2) bounds(4) by simp
  have t: "text_json (wrap_envelope md s n w)"
    using bounds(3) by (simp add: wrap_envelope_def names_text b64_plain_text)
  have "len (quote (b64 s)) = 24" "len (quote (b64 n)) = 18" "len (quote (b64 w)) = 66"
    using z by (simp_all add: len_quote_plain plain_b64) (simp_all add: len_length length_b64)
  moreover have "width_members md \<le> 1640" using bounds(1) d(3) by simp
  ultimately have "width (wrap_envelope md s n w) \<le> 2000" by (simp add: wrap_envelope_def len_quote_plain names_plain)
  then have "len blob \<le> MAX_KEY_WRAP"
    using b len_canonical [of "wrap_envelope md s n w"] by (simp add: canonical_json_ok)
  with parse_built [OF b wf t] show ?thesis by blast
qed

theorem unwrap_wrap_device:
  assumes C: "crypto_ok C" and z: "length salt = 16" "length nonce = 12" "length eph = 32" "length dk = 32"
    and b: "wrap_vault_key_for_recipient C eph salt nonce key (x_public C dk) vault dev context = Inr blob"
  shows "unwrap_vault_key_for_recipient C blob dk vault dev context = Inr key"
proof -
  define md where "md = device_wrap_metadata vault dev (b64 (x_public C eph)) (sha256_hex C context)"
  from b obtain shared where k: "len key = 32" and ids: "sync_id_pattern vault" "sync_id_pattern dev" and c: "validate_context context = Inr ()"
    and md0: "canonical_json (JObj md) = Inr (canonical_text (JObj md))" and x: "x_exchange C eph (x_public C dk) = Some shared"
    and j: "canonical_json (wrap_envelope md salt nonce (aead_encrypt C (hkdf32 C salt (domain ''device-wrap-key'' @ domain ''device-wrap-aad''
        @ canonical_text (JObj md)) shared) nonce key (domain ''device-wrap-aad'' @ canonical_text (JObj md)))) = Inr blob"
    by (auto simp: wrap_vault_key_for_recipient_def md_def rbind_ok ok_simps Let_def split: option.splits)
  define w where "w = aead_encrypt C (hkdf32 C salt (domain ''device-wrap-key'' @ domain ''device-wrap-aad''
        @ canonical_text (JObj md)) shared) nonce key (domain ''device-wrap-aad'' @ canonical_text (JObj md))"
  have w: "length w = 48" "\<And>aad. aad = domain ''device-wrap-aad'' @ canonical_text (JObj md) \<Longrightarrow>
      aead_decrypt C (hkdf32 C salt (domain ''device-wrap-key'' @ aad) shared) nonce w aad = Some key"
    using C k by (simp_all add: w_def crypto_ok_def len_length)
  have xp: "length (x_public C eph) = 32" and sh: "is_sha256 (sha256_hex C context)" using C z by (simp_all add: crypto_ok_def)
  have xe: "x_exchange C dk (x_public C eph) = Some shared" using C z x by (simp add: crypto_ok_def)
  have lid: "leaf 130 (JStr i)" if "sync_id_pattern i" for i using sync_id_plain [OF that] by (simp add: leaf_str)
  have lv: "leaves 130 md"
    using sha_plain [OF sh] xp
    by (simp add: md_def device_wrap_metadata_def names_plain profile_leaves lid ids leaf_str) (simp add: leaf_b64)
  have d: "fst ` set md \<inter> {''salt'', ''nonce'', ''wrapped_vault_key''} = {}" "distinct (map fst md)" "len md \<le> 10"
    by (simp_all add: md_def device_wrap_metadata_def)
  note p = parse_wrapped [OF lv d j [folded w_def] z(1,2) w(1)]
  have wfm: "wf_json (JObj md)" using d(2) leaves_bounds(4) [OF lv] by simp
  note wf = wrapped_fields(1) [OF d(1) wfm, of salt nonce w] and f = wrapped_fields(2-4) [OF d(1) wfm, of salt nonce w]
  have g: "fld (wrap_envelope md salt nonce w) ''vault_id'' = JStr vault" "fld (wrap_envelope md salt nonce w) ''recipient_device_id'' = JStr dev"
    "fld (wrap_envelope md salt nonce w) ''ephemeral_public_key'' = JStr (b64 (x_public C eph))"
    "fld (wrap_envelope md salt nonce w) ''context_sha256'' = JStr (sha256_hex C context)"
    "fld (wrap_envelope md salt nonce w) ''protocol'' = JStr KK2" "fld (wrap_envelope md salt nonce w) ''format_profile'' = JStr DEVICE_WRAP_PROFILE"
    by (simp_all add: md_def device_wrap_metadata_def wrap_envelope_def fld_def)
  have ek: "exact_keys DEVICE_WRAP_FIELDS (wrap_envelope md salt nonce w)"
    by (auto simp: md_def device_wrap_metadata_def wrap_envelope_def exact_keys_def DEVICE_WRAP_FIELDS_def)
  have sd: "sync_b64decode (Some 32) (JStr (b64 (x_public C eph))) = Inr (x_public C eph)" "sync_b64decode (Some 16) (JStr (b64 salt)) = Inr salt"
    "sync_b64decode (Some 12) (JStr (b64 nonce)) = Inr nonce" "sync_b64decode (Some 48) (JStr (b64 w)) = Inr w"
    using z xp w(1) by (auto simp: sync_b64decode_ok len_length)
  have vi: "validate_id (JStr vault) = Inr vault" "validate_id (JStr dev) = Inr dev" "validate_hash (JStr (sha256_hex C context)) = Inr (sha256_hex C context)"
    using ids sh by (simp_all add: validate_id_ok validate_hash_ok)
  have pr: "profile_is DEVICE_WRAP_PROFILE (wrap_envelope md salt nonce w)" using g by (simp add: profile_is_def)
  show ?thesis
    unfolding unwrap_vault_key_for_recipient_def p
    using w(2) [OF refl] c md0 z xe
    by (simp add: require_fields_def exact_keys_sort ek profile_sort [OF wf] pr fld_sort_members [OF wf] f g vi sd require_length_def
        len_length md_def [symmetric])
qed

theorem unwrap_wrap_recovery:
  assumes C: "crypto_ok C" and z: "length salt = 16" "length nonce = 12"
    and b: "wrap_vault_key_for_recovery C salt nonce key secret vault = Inr blob"
  shows "unwrap_vault_key_for_recovery C blob secret vault = Inr key"
proof -
  define md where "md = recovery_metadata vault"
  from b have k: "len key = 32" "len secret = 32" and ids: "sync_id_pattern vault"
    and md0: "canonical_json (JObj md) = Inr (canonical_text (JObj md))"
    and j: "canonical_json (wrap_envelope md salt nonce (aead_encrypt C (hkdf32 C salt (domain ''recovery-wrap-key'' @ domain ''recovery-wrap-aad''
        @ canonical_text (JObj md)) secret) nonce key (domain ''recovery-wrap-aad'' @ canonical_text (JObj md)))) = Inr blob"
    by (auto simp: wrap_vault_key_for_recovery_def md_def rbind_ok ok_simps Let_def)
  define w where "w = aead_encrypt C (hkdf32 C salt (domain ''recovery-wrap-key'' @ domain ''recovery-wrap-aad''
        @ canonical_text (JObj md)) secret) nonce key (domain ''recovery-wrap-aad'' @ canonical_text (JObj md))"
  have w: "length w = 48" "\<And>aad. aad = domain ''recovery-wrap-aad'' @ canonical_text (JObj md) \<Longrightarrow>
      aead_decrypt C (hkdf32 C salt (domain ''recovery-wrap-key'' @ aad) secret) nonce w aad = Some key"
    using C k by (simp_all add: w_def crypto_ok_def len_length)
  have lv: "leaves 130 md" using sync_id_plain [OF ids] by (simp add: md_def recovery_metadata_def names_plain profile_leaves leaf_str)
  have d: "fst ` set md \<inter> {''salt'', ''nonce'', ''wrapped_vault_key''} = {}" "distinct (map fst md)" "len md \<le> 10"
    by (simp_all add: md_def recovery_metadata_def)
  note p = parse_wrapped [OF lv d j [folded w_def] z w(1)]
  have wfm: "wf_json (JObj md)" using d(2) leaves_bounds(4) [OF lv] by simp
  note wf = wrapped_fields(1) [OF d(1) wfm, of salt nonce w] and f = wrapped_fields(2-4) [OF d(1) wfm, of salt nonce w]
  have g: "fld (wrap_envelope md salt nonce w) ''vault_id'' = JStr vault" "profile_is RECOVERY_WRAP_PROFILE (wrap_envelope md salt nonce w)"
    "exact_keys RECOVERY_WRAP_FIELDS (wrap_envelope md salt nonce w)"
    by (auto simp: md_def recovery_metadata_def wrap_envelope_def fld_def profile_is_def exact_keys_def RECOVERY_WRAP_FIELDS_def)
  have sd: "sync_b64decode (Some 16) (JStr (b64 salt)) = Inr salt"
    "sync_b64decode (Some 12) (JStr (b64 nonce)) = Inr nonce" "sync_b64decode (Some 48) (JStr (b64 w)) = Inr w"
    using z w(1) by (auto simp: sync_b64decode_ok len_length)
  show ?thesis
    unfolding unwrap_vault_key_for_recovery_def p
    using w(2) [OF refl] md0 ids k
    by (simp add: require_fields_def exact_keys_sort profile_sort [OF wf] fld_sort_members [OF wf] f g validate_id_def sd require_length_def
        md_def [symmetric])
qed

end
