(* ===== verification/Sync_Server.thy ===== *)
theory Sync_Server
  imports Commit_Proofs Relay
begin

text \<open>
  The vault relay (\<open>sync_server.py\<close>): vaults, devices, commits and invites as lists of rows,
  and one function per request of its API. A request returns the new tables and its answer, or
  raises and leaves the tables as they were; a request that commits before it raises (an invite
  found expired) returns the tables with an answer that is an error. The identifiers that the
  code draws at random and the clock are arguments.
\<close>

section \<open>Tables\<close>

datatype device_status = Pending | Active | Revoked
datatype invite_state = Open | Claimed | Approved | Expired

primrec device_status_text :: "device_status \<Rightarrow> string" where
  "device_status_text Pending = ''pending''" | "device_status_text Active = ''active''" | "device_status_text Revoked = ''revoked''"

primrec invite_status_text :: "invite_state \<Rightarrow> string" where
  "invite_status_text Open = ''open''" | "invite_status_text Claimed = ''claimed''"
| "invite_status_text Approved = ''approved''" | "invite_status_text Expired = ''expired''"

record vault_row =
  va_id :: string
  va_head :: "string option"
  va_created :: int

record device_row =
  dv_id :: string
  dv_vault :: string
  dv_sign :: string
  dv_wrap :: string
  dv_token :: string
  dv_status :: device_status
  dv_approved_by :: "string option"
  dv_statement :: "string option"
  dv_signature :: "string option"
  dv_wrapped :: "string option"
  dv_created :: int
  dv_approved :: "int option"
  dv_revoked :: "int option"
  dv_revoked_by :: "string option"
  dv_revocation :: "string option"
  dv_revocation_signature :: "string option"

record commit_row =
  cm_vault :: string
  cm_id :: string
  cm_seq :: int
  cm_parent :: "string option"
  cm_hash :: string
  cm_blob :: string
  cm_snapshot :: string
  cm_author :: string
  cm_created :: int

record invite_row =
  iv_id :: string
  iv_vault :: string
  iv_secret :: string
  iv_status :: invite_state
  iv_creator :: string
  iv_claimant :: "string option"
  iv_created :: int
  iv_expires :: int
  iv_claimed :: "int option"
  iv_approved :: "int option"

record sync_db =
  v_vaults :: "vault_row list"
  v_devices :: "device_row list"
  v_commits :: "commit_row list"
  v_invites :: "invite_row list"

definition empty_db :: sync_db where
  "empty_db = \<lparr>v_vaults = [], v_devices = [], v_commits = [], v_invites = []\<rparr>"

text \<open>\<open>_V1_STORAGE_COLUMNS\<close>: what every row counts for.\<close>

definition sync_meter :: "sync_db \<Rightarrow> meter" where
  "sync_meter s =
     map (\<lambda>r. (va_id r, row_size [Some (va_id r), va_head r])) (v_vaults s)
     @ map (\<lambda>r. (dv_vault r, row_size [Some (dv_id r), Some (dv_sign r), Some (dv_wrap r), Some (dv_token r),
         Some (device_status_text (dv_status r)), dv_approved_by r, dv_statement r, dv_signature r, dv_wrapped r,
         dv_revoked_by r, dv_revocation r, dv_revocation_signature r])) (v_devices s)
     @ map (\<lambda>r. (cm_vault r, row_size [Some (cm_id r), cm_parent r, Some (cm_hash r), Some (cm_blob r), Some (cm_snapshot r),
         Some (cm_author r)])) (v_commits s)
     @ map (\<lambda>r. (iv_vault r, row_size [Some (iv_id r), Some (iv_secret r), Some (invite_status_text (iv_status r)),
         Some (iv_creator r), iv_claimant r])) (v_invites s)"

definition sync_budget :: "limits \<Rightarrow> string \<Rightarrow> bool \<Rightarrow> sync_db \<Rightarrow> rerr + unit" where
  "sync_budget lim vault control s =
     ensure (within_budget (recount (Some vault) (sync_meter s)) (recount None (sync_meter s)) lim control)
       (Status 429 ''storage_full'')"

section \<open>Fields of a request\<close>

abbreviation "invalid_request \<equiv> Status 400 ''invalid_request''"

definition request_fields :: "string list \<Rightarrow> string list \<Rightarrow> json \<Rightarrow> rerr + unit" where
  "request_fields required optional v =
     ensure (is_obj v \<and> set required \<subseteq> set (map fst (members v)) \<and> set (map fst (members v)) \<subseteq> set required \<union> set optional) invalid_request"

definition required_string :: "int \<Rightarrow> int \<Rightarrow> string \<Rightarrow> json \<Rightarrow> rerr + string" where
  "required_string min_bytes max_bytes name v =
     (case fld v name of JStr s \<Rightarrow> rbind (ensure (min_bytes \<le> len s \<and> len s \<le> max_bytes) invalid_request) (\<lambda>_. Inr s)
      | _ \<Rightarrow> Inl invalid_request)"

text \<open>\<open>_decode_base64\<close> accepts the texts that decode, also those with stray low bits at the end.\<close>

definition request_base64 :: "int option \<Rightarrow> int option \<Rightarrow> json \<Rightarrow> rerr + string" where
  "request_base64 exact most v =
     (case v of JStr s \<Rightarrow>
        rbind (ensure (s \<noteq> []) invalid_request) (\<lambda>_.
        rbind (ensure (case (if exact \<noteq> None then exact else most) of None \<Rightarrow> True | Some n \<Rightarrow> pylen s \<le> 4 * ((n + 2) div 3)) invalid_request) (\<lambda>_.
        rbind (ensure (CHR ''='' \<notin> set s \<and> list_all url_char s) invalid_request) (\<lambda>_.
        (case b64decode s of None \<Rightarrow> Inl invalid_request
         | Some r \<Rightarrow>
             rbind (ensure (exact = None \<or> exact = Some (len r)) invalid_request) (\<lambda>_.
             rbind (ensure (case most of None \<Rightarrow> True | Some n \<Rightarrow> len r \<le> n) invalid_request) (\<lambda>_. Inr r))))))
      | _ \<Rightarrow> Inl invalid_request)"

definition request_public_key :: "string \<Rightarrow> json \<Rightarrow> rerr + string" where
  "request_public_key name v =
     rbind (required_string 1 256 name v) (\<lambda>encoded.
     rbind (request_base64 (Some 32) None (JStr encoded)) (\<lambda>_. Inr encoded))"

definition opaque_pattern :: "string \<Rightarrow> bool" where
  "opaque_pattern s = (16 \<le> len s \<and> len s \<le> 128 \<and> list_all url_char s)"

definition opaque_id :: "string \<Rightarrow> rerr + unit" where
  "opaque_id s = ensure (opaque_pattern s) (Status 404 ''not_found'')"

text \<open>An optional commit identifier of a request: \<open>null\<close> or a text of the pattern.\<close>

definition optional_commit_id :: "json \<Rightarrow> rerr + unit" where
  "optional_commit_id v = ensure (v = JNull \<or> (case v of JStr s \<Rightarrow> opaque_pattern s | _ \<Rightarrow> False)) invalid_request"

text \<open>\<open>bytes.fromhex\<close> of lower-case digits, and the raw digest from the hexadecimal one.\<close>

fun from_hex :: "string \<Rightarrow> string" where
  "from_hex (a # b # s) = char_of (16 * the (hex_val a) + the (hex_val b)) # from_hex s"
| "from_hex _ = []"

definition raw_digest :: "crypto \<Rightarrow> string \<Rightarrow> string" where
  "raw_digest C m = from_hex (sha256_hex C m)"

section \<open>Authentication\<close>

record auth_device =
  ad_id :: string
  ad_vault :: string
  ad_status :: device_status

definition find_device :: "string \<Rightarrow> sync_db \<Rightarrow> device_row option" where
  "find_device d s = find (\<lambda>r. dv_id r = d) (v_devices s)"

definition find_vault :: "string \<Rightarrow> sync_db \<Rightarrow> vault_row option" where
  "find_vault v s = find (\<lambda>r. va_id r = v) (v_vaults s)"

definition find_invite :: "string \<Rightarrow> sync_db \<Rightarrow> invite_row option" where
  "find_invite i s = find (\<lambda>r. iv_id r = i) (v_invites s)"

definition authenticate_device :: "crypto \<Rightarrow> headers \<Rightarrow> string option \<Rightarrow> bool \<Rightarrow> sync_db \<Rightarrow> rerr + auth_device" where
  "authenticate_device C h vault allow_pending s =
     (case device_header h of None \<Rightarrow> Inl (Status 401 ''unauthorized'')
      | Some d \<Rightarrow>
          rbind (ensure (opaque_pattern d) (Status 401 ''unauthorized'')) (\<lambda>_.
          rbind (bearer_token (authorization h)) (\<lambda>token.
          (case find_device d s of None \<Rightarrow> Inl (Status 401 ''unauthorized'')
           | Some r \<Rightarrow>
               rbind (ensure (dv_token r = raw_digest C token) (Status 401 ''unauthorized'')) (\<lambda>_.
               rbind (ensure (dv_status r = Active \<or> (allow_pending \<and> dv_status r = Pending)) (Status 403 ''device_inactive'')) (\<lambda>_.
               rbind (ensure (case vault of None \<Rightarrow> True | Some v \<Rightarrow> dv_vault r = v) (Status 403 ''wrong_vault'')) (\<lambda>_.
               Inr \<lparr>ad_id = dv_id r, ad_vault = dv_vault r, ad_status = dv_status r\<rparr>)))))))"

definition require_vault :: "auth_device \<Rightarrow> string \<Rightarrow> rerr + unit" where
  "require_vault d v = rbind (opaque_id v) (\<lambda>_. ensure (ad_vault d = v) (Status 403 ''wrong_vault''))"

text \<open>The row of a device in its vault.\<close>

definition device_in :: "string \<Rightarrow> string \<Rightarrow> sync_db \<Rightarrow> device_row option" where
  "device_in d v s = find (\<lambda>r. dv_id r = d \<and> dv_vault r = v) (v_devices s)"

definition require_active :: "auth_device \<Rightarrow> sync_db \<Rightarrow> rerr + device_row" where
  "require_active d s = (case device_in (ad_id d) (ad_vault d) s of
       Some r \<Rightarrow> rbind (ensure (dv_status r = Active) (Status 403 ''device_inactive'')) (\<lambda>_. Inr r)
     | None \<Rightarrow> Inl (Status 403 ''device_inactive''))"

definition require_root :: "auth_device \<Rightarrow> sync_db \<Rightarrow> rerr + unit" where
  "require_root d s = rbind (require_active d s) (\<lambda>r. ensure (dv_approved_by r = None) (Status 403 ''root_required''))"

section \<open>Vaults\<close>

definition insert_device :: "device_row \<Rightarrow> device_row list \<Rightarrow> rerr + device_row list" where
  "insert_device = insert_row (\<lambda>r x. dv_id x = dv_id r)"

definition new_device :: "string \<Rightarrow> string \<Rightarrow> string \<Rightarrow> string \<Rightarrow> string \<Rightarrow> device_status \<Rightarrow> int \<Rightarrow> int option \<Rightarrow> device_row" where
  "new_device d v sign wrap token status created approved =
     \<lparr>dv_id = d, dv_vault = v, dv_sign = sign, dv_wrap = wrap, dv_token = token, dv_status = status, dv_approved_by = None,
      dv_statement = None, dv_signature = None, dv_wrapped = None, dv_created = created, dv_approved = approved, dv_revoked = None,
      dv_revoked_by = None, dv_revocation = None, dv_revocation_signature = None\<rparr>"

definition create_vault ::
  "crypto \<Rightarrow> string \<Rightarrow> limits \<Rightarrow> string \<Rightarrow> string \<Rightarrow> int \<Rightarrow> headers \<Rightarrow> json \<Rightarrow> sync_db \<Rightarrow> rerr + sync_db \<times> json" where
  "create_vault C admin_hash lim vault device now h payload s =
     rbind (authenticate_admin C admin_hash h) (\<lambda>_.
     rbind (request_fields [''device_token'', ''sign_public_key'', ''wrap_public_key''] [] payload) (\<lambda>_.
     rbind (request_public_key ''sign_public_key'' payload) (\<lambda>sign.
     rbind (request_public_key ''wrap_public_key'' payload) (\<lambda>wrap.
     rbind (required_string 32 4096 ''device_token'' payload) (\<lambda>token.
     rbind (insert_row (\<lambda>r x. va_id x = va_id r) \<lparr>va_id = vault, va_head = None, va_created = now\<rparr> (v_vaults s)) (\<lambda>vs.
     rbind (insert_device (new_device device vault sign wrap (raw_digest C token) Active now (Some now)) (v_devices s)) (\<lambda>ds.
     let s' = s\<lparr>v_vaults := vs, v_devices := ds\<rparr> in
     rbind (sync_budget lim vault False s') (\<lambda>_.
     Inr (s', JObj [(''vault_id'', JStr vault), (''device_id'', JStr device), (''head_commit_id'', JNull)])))))))))"

section \<open>Reading commits\<close>

definition commit_metadata_response :: "commit_row \<Rightarrow> json" where
  "commit_metadata_response r = JObj [(''commit_id'', JStr (cm_id r)), (''sequence'', JInt (cm_seq r)),
     (''parent_commit_id'', opt_json (cm_parent r)), (''manifest_hash'', JStr (cm_hash r)),
     (''author_device_id'', JStr (cm_author r)), (''stored_at'', JInt (cm_created r))]"

definition commit_response :: "bool \<Rightarrow> commit_row \<Rightarrow> json" where
  "commit_response include_snapshot r = JObj (members (commit_metadata_response r) @ [(''commit_blob'', JStr (b64 (cm_blob r)))]
     @ (if include_snapshot then [(''snapshot_ciphertext'', JStr (b64 (cm_snapshot r)))] else []))"

definition find_commit :: "string \<Rightarrow> string \<Rightarrow> sync_db \<Rightarrow> commit_row option" where
  "find_commit v c s = find (\<lambda>r. cm_vault r = v \<and> cm_id r = c) (v_commits s)"

definition get_head :: "string \<Rightarrow> auth_device \<Rightarrow> sync_db \<Rightarrow> rerr + json" where
  "get_head vault d s =
     rbind (require_vault d vault) (\<lambda>_.
     (case find_vault vault s of None \<Rightarrow> Inl (Status 404 ''not_found'')
      | Some v \<Rightarrow>
          let c = (case va_head v of None \<Rightarrow> None | Some h \<Rightarrow> find_commit vault h s) in
          Inr (JObj [(''head_commit_id'', opt_json (va_head v)),
            (''sequence'', case c of None \<Rightarrow> JNull | Some r \<Rightarrow> JInt (cm_seq r)),
            (''manifest_hash'', case c of None \<Rightarrow> JNull | Some r \<Rightarrow> JStr (cm_hash r))])))"

definition get_commit :: "string \<Rightarrow> string \<Rightarrow> auth_device \<Rightarrow> bool \<Rightarrow> sync_db \<Rightarrow> rerr + json" where
  "get_commit vault c d include_snapshot s =
     rbind (require_vault d vault) (\<lambda>_.
     rbind (ensure (opaque_pattern c) (Status 404 ''not_found'')) (\<lambda>_.
     (case find_commit vault c s of None \<Rightarrow> Inl (Status 404 ''not_found'')
      | Some r \<Rightarrow> Inr (commit_response include_snapshot r))))"

definition page_of_commits :: "string \<Rightarrow> int \<Rightarrow> int \<Rightarrow> sync_db \<Rightarrow> commit_row list" where
  "page_of_commits vault after limit s =
     take (nat limit) (sort_key cm_seq (filter (\<lambda>r. cm_vault r = vault \<and> after < cm_seq r) (v_commits s)))"

definition list_commits :: "string \<Rightarrow> auth_device \<Rightarrow> int \<Rightarrow> int \<Rightarrow> bool \<Rightarrow> sync_db \<Rightarrow> rerr + json" where
  "list_commits vault d after limit include_commit s =
     rbind (require_vault d vault) (\<lambda>_.
     rbind (ensure (0 \<le> after \<and> after < two63 \<and> 1 \<le> limit \<and> limit \<le> 100) invalid_request) (\<lambda>_.
     (case find_vault vault s of None \<Rightarrow> Inl (Status 404 ''not_found'')
      | Some v \<Rightarrow> Inr (JObj
          [(''commits'', JList (map (if include_commit then commit_response False else commit_metadata_response)
              (page_of_commits vault after limit s))),
           (''head_commit_id'', opt_json (va_head v))]))))"

section \<open>Appending a commit\<close>

text \<open>Before the transaction: the request, the author's stored key, the signature and the ciphertext.\<close>

record checked_commit =
  ck_commit :: verified_commit
  ck_blob :: string
  ck_snapshot :: string

definition check_commit :: "crypto \<Rightarrow> string \<Rightarrow> json \<Rightarrow> auth_device \<Rightarrow> sync_db \<Rightarrow> rerr + checked_commit" where
  "check_commit C vault payload d s =
     rbind (require_vault d vault) (\<lambda>_.
     rbind (request_fields [''expected_parent_commit_id'', ''commit_blob'', ''snapshot_ciphertext''] [] payload) (\<lambda>_.
     rbind (optional_commit_id (fld payload ''expected_parent_commit_id'')) (\<lambda>_.
     rbind (request_base64 None (Some MAX_COMMIT) (fld payload ''commit_blob'')) (\<lambda>blob.
     rbind (request_base64 None (Some MAX_SNAPSHOT_BLOB) (fld payload ''snapshot_ciphertext'')) (\<lambda>snapshot.
     (case device_in (ad_id d) vault s of None \<Rightarrow> Inl (Status 403 ''wrong_vault'')
      | Some r \<Rightarrow>
          rbind (request_base64 (Some 32) None (JStr (dv_sign r))) (\<lambda>key.
          rbind (map_err (\<lambda>_. Status 422 ''invalid_commit'')
                   (verify_commit_signature C blob key (Some snapshot) (Some vault) (Some (ad_id d)))) (\<lambda>v.
          rbind (ensure (opaque_pattern (vc_id v) \<and> 1 \<le> vc_sequence v) (Status 422 ''invalid_commit'')) (\<lambda>_.
          rbind (ensure (vc_parent v = fld payload ''expected_parent_commit_id'') (Status 422 ''invalid_commit'')) (\<lambda>_.
          Inr \<lparr>ck_commit = v, ck_blob = blob, ck_snapshot = snapshot\<rparr>))))))))))"

text \<open>Inside it: compare and swap on the head, and the link to the commit at the head.\<close>

definition check_ancestry :: "string \<Rightarrow> string option \<Rightarrow> verified_commit \<Rightarrow> sync_db \<Rightarrow> rerr + unit" where
  "check_ancestry vault head v s =
     (case head of
        None \<Rightarrow> ensure (vc_sequence v = 1 \<and> vc_parent_hash v = JNull) (Status 422 ''invalid_commit'')
      | Some h \<Rightarrow>
          (case find_commit vault h s of None \<Rightarrow> Inl (Status 500 ''storage_error'')
           | Some p \<Rightarrow>
               rbind (ensure (vc_sequence v = cm_seq p + 1) (Status 422 ''invalid_commit'')) (\<lambda>_.
               ensure (vc_parent_hash v = JStr (cm_hash p)) (Status 422 ''invalid_commit''))))"

definition head_to_text :: "json \<Rightarrow> string option" where
  "head_to_text v = (case v of JStr s \<Rightarrow> Some s | _ \<Rightarrow> None)"

definition commit_row_of :: "string \<Rightarrow> string \<Rightarrow> int \<Rightarrow> checked_commit \<Rightarrow> commit_row" where
  "commit_row_of vault author now k =
     \<lparr>cm_vault = vault, cm_id = vc_id (ck_commit k), cm_seq = vc_sequence (ck_commit k),
      cm_parent = head_to_text (vc_parent (ck_commit k)), cm_hash = vc_manifest_hash (ck_commit k), cm_blob = ck_blob k,
      cm_snapshot = ck_snapshot k, cm_author = author, cm_created = now\<rparr>"

definition set_head :: "string \<Rightarrow> string option \<Rightarrow> string \<Rightarrow> vault_row list \<Rightarrow> vault_row list" where
  "set_head vault expected c vs =
     map (\<lambda>r. if va_id r = vault \<and> va_head r = expected then r\<lparr>va_head := Some c\<rparr> else r) vs"

definition append_checked :: "limits \<Rightarrow> int \<Rightarrow> string \<Rightarrow> auth_device \<Rightarrow> checked_commit \<Rightarrow> sync_db \<Rightarrow> rerr + sync_db \<times> json" where
  "append_checked lim now vault d k s =
     rbind (require_active d s) (\<lambda>_.
     (case find_vault vault s of None \<Rightarrow> Inl (Status 404 ''not_found'')
      | Some row \<Rightarrow>
          let v = ck_commit k; r = commit_row_of vault (ad_id d) now k in
          rbind (ensure (opt_json (va_head row) = vc_parent v) (Status 409 ''cas_conflict'')) (\<lambda>_.
          rbind (check_ancestry vault (va_head row) v s) (\<lambda>_.
          rbind (ensure (\<not> (\<exists>x \<in> set (v_commits s). cm_vault x = vault \<and> (cm_id x = vc_id v \<or> cm_seq x = vc_sequence v)))
                  (Status 409 ''commit_conflict'')) (\<lambda>_.
          let s' = s\<lparr>v_commits := v_commits s @ [r], v_vaults := set_head vault (va_head row) (vc_id v) (v_vaults s)\<rparr> in
          rbind (sync_budget lim vault False s') (\<lambda>_.
          Inr (s', JObj [(''commit_id'', JStr (vc_id v)), (''sequence'', JInt (vc_sequence v)),
                         (''head_commit_id'', JStr (vc_id v))])))))))"

definition append_commit ::
  "crypto \<Rightarrow> limits \<Rightarrow> int \<Rightarrow> string \<Rightarrow> json \<Rightarrow> auth_device \<Rightarrow> sync_db \<Rightarrow> rerr + sync_db \<times> json" where
  "append_commit C lim now vault payload d s =
     rbind (check_commit C vault payload d s) (\<lambda>k. append_checked lim now vault d k s)"

section \<open>Devices\<close>

definition opt_int :: "int option \<Rightarrow> json" where
  "opt_int v = (case v of None \<Rightarrow> JNull | Some i \<Rightarrow> JInt i)"

definition device_response :: "device_row \<Rightarrow> json" where
  "device_response r = JObj [(''device_id'', JStr (dv_id r)), (''sign_public_key'', JStr (dv_sign r)),
     (''wrap_public_key'', JStr (dv_wrap r)), (''status'', JStr (device_status_text (dv_status r))),
     (''approved_by_device_id'', opt_json (dv_approved_by r)), (''membership_statement'', opt_json (dv_statement r)),
     (''membership_signature'', opt_json (dv_signature r)), (''created_at'', JInt (dv_created r)),
     (''approved_at'', opt_int (dv_approved r)), (''revoked_at'', opt_int (dv_revoked r)),
     (''revoked_by_device_id'', opt_json (dv_revoked_by r)), (''revocation_statement'', opt_json (dv_revocation r)),
     (''revocation_signature'', opt_json (dv_revocation_signature r))]"

text \<open>\<open>ORDER BY created_at, device_id\<close>: a stable sort by the second key and then by the first.\<close>

definition list_devices :: "string \<Rightarrow> auth_device \<Rightarrow> sync_db \<Rightarrow> rerr + json" where
  "list_devices vault d s =
     rbind (require_vault d vault) (\<lambda>_.
     Inr (JObj [(''devices'', JList (map device_response
       (sort_key dv_created (sort_key dv_id (filter (\<lambda>r. dv_vault r = vault) (v_devices s))))))]))"

definition revoke_row :: "int \<Rightarrow> string \<Rightarrow> string \<Rightarrow> string \<Rightarrow> device_row \<Rightarrow> device_row" where
  "revoke_row now who statement signature r =
     r\<lparr>dv_status := Revoked, dv_revoked := Some now, dv_revoked_by := Some who, dv_revocation := Some statement,
       dv_revocation_signature := Some signature\<rparr>"

definition update_device :: "string \<Rightarrow> string \<Rightarrow> (device_row \<Rightarrow> device_row) \<Rightarrow> device_row list \<Rightarrow> device_row list" where
  "update_device v d f rs = map (\<lambda>r. if dv_vault r = v \<and> dv_id r = d then f r else r) rs"

definition revoke_device ::
  "limits \<Rightarrow> int \<Rightarrow> string \<Rightarrow> string \<Rightarrow> json \<Rightarrow> auth_device \<Rightarrow> sync_db \<Rightarrow> rerr + sync_db \<times> json" where
  "revoke_device lim now vault target payload d s =
     rbind (require_vault d vault) (\<lambda>_.
     rbind (request_fields [''expected_head_commit_id'', ''revocation_statement'', ''revocation_signature''] [] payload) (\<lambda>_.
     rbind (opaque_id target) (\<lambda>_.
     rbind (optional_commit_id (fld payload ''expected_head_commit_id'')) (\<lambda>_.
     rbind (required_string 1 1048576 ''revocation_statement'' payload) (\<lambda>statement.
     rbind (required_string 1 16384 ''revocation_signature'' payload) (\<lambda>signature.
     rbind (require_root d s) (\<lambda>_.
     (case find_vault vault s of None \<Rightarrow> Inl (Status 404 ''not_found'')
      | Some row \<Rightarrow>
          rbind (ensure (opt_json (va_head row) = fld payload ''expected_head_commit_id'') (Status 409 ''cas_conflict'')) (\<lambda>_.
          (case device_in target vault s of None \<Rightarrow> Inl (Status 404 ''not_found'')
           | Some t \<Rightarrow>
               rbind (ensure (dv_approved_by t \<noteq> None) (Status 409 ''root_revoke_forbidden'')) (\<lambda>_.
               rbind (ensure (dv_status t \<noteq> Revoked) (Status 409 ''already_revoked'')) (\<lambda>_.
               let s' = s\<lparr>v_devices := update_device vault target (revoke_row now (ad_id d) statement signature) (v_devices s)\<rparr> in
               rbind (sync_budget lim vault True s') (\<lambda>_.
               Inr (s', JObj [(''device_id'', JStr target), (''status'', JStr ''revoked'')]))))))))))))))"

section \<open>Invites\<close>

definition create_invite ::
  "limits \<Rightarrow> string \<Rightarrow> int \<Rightarrow> string \<Rightarrow> json \<Rightarrow> auth_device \<Rightarrow> sync_db \<Rightarrow> rerr + sync_db \<times> json" where
  "create_invite lim invite now vault payload d s =
     rbind (require_vault d vault) (\<lambda>_.
     rbind (request_fields [''secret_hash''] [''expires_in_seconds''] payload) (\<lambda>_.
     rbind (required_string 1 64 ''secret_hash'' payload) (\<lambda>secret_hash.
     rbind (ensure (is_sha256 secret_hash) invalid_request) (\<lambda>_.
     rbind (case (if has_key payload ''expires_in_seconds'' then fld payload ''expires_in_seconds'' else JInt 900) of
              JInt i \<Rightarrow> if 1 \<le> i \<and> i \<le> 86400 then Inr i else Inl invalid_request
            | _ \<Rightarrow> Inl invalid_request) (\<lambda>ttl.
     rbind (require_root d s) (\<lambda>_.
     rbind (insert_row (\<lambda>r x. iv_id x = iv_id r)
              \<lparr>iv_id = invite, iv_vault = vault, iv_secret = from_hex secret_hash, iv_status = Open, iv_creator = ad_id d,
               iv_claimant = None, iv_created = now, iv_expires = now + ttl, iv_claimed = None, iv_approved = None\<rparr> (v_invites s)) (\<lambda>ivs.
     let s' = s\<lparr>v_invites := ivs\<rparr> in
     rbind (sync_budget lim vault False s') (\<lambda>_.
     Inr (s', JObj [(''invite_id'', JStr invite), (''status'', JStr ''open''), (''expires_at'', JInt (now + ttl))])))))))))"

definition update_invite :: "string \<Rightarrow> (invite_row \<Rightarrow> invite_row) \<Rightarrow> invite_row list \<Rightarrow> invite_row list" where
  "update_invite i f rs = map (\<lambda>r. if iv_id r = i then f r else r) rs"

definition expire_invite :: "string \<Rightarrow> sync_db \<Rightarrow> sync_db" where
  "expire_invite i s = s\<lparr>v_invites := update_invite i (\<lambda>r. r\<lparr>iv_status := Expired\<rparr>) (v_invites s)\<rparr>"

text \<open>An invite past its time becomes expired, unless it is approved or already expired.\<close>

definition expire_due :: "int \<Rightarrow> invite_row \<Rightarrow> bool" where
  "expire_due now i = (iv_expires i \<le> now \<and> (iv_status i = Open \<or> iv_status i = Claimed))"

type_synonym answer = "rerr + json"

text \<open>\<open>claim_invite\<close> and \<open>approve_invite\<close> commit the expiry and then raise.\<close>

definition refuse_expired :: "int \<Rightarrow> invite_row \<Rightarrow> sync_db \<Rightarrow> sync_db \<times> answer" where
  "refuse_expired now i s = (if expire_due now i then expire_invite (iv_id i) s else s, Inl (Status 410 ''invite_expired''))"

definition claim_response :: "invite_row \<Rightarrow> string \<Rightarrow> device_status \<Rightarrow> json" where
  "claim_response i device status = JObj [(''invite_id'', JStr (iv_id i)), (''vault_id'', JStr (iv_vault i)),
     (''device_id'', JStr device), (''status'', JStr (device_status_text status)), (''expires_at'', JInt (iv_expires i))]"

definition claim_open ::
  "limits \<Rightarrow> int \<Rightarrow> invite_row \<Rightarrow> string \<Rightarrow> string \<Rightarrow> string \<Rightarrow> string \<Rightarrow> sync_db \<Rightarrow> rerr + sync_db \<times> answer" where
  "claim_open lim now i device sign wrap token s =
     rbind (map_err (\<lambda>_. Status 409 ''device_conflict'')
              (insert_device (new_device device (iv_vault i) sign wrap token Pending now None) (v_devices s))) (\<lambda>ds.
     let s' = s\<lparr>v_devices := ds, v_invites := update_invite (iv_id i)
                (\<lambda>r. r\<lparr>iv_status := Claimed, iv_claimant := Some device, iv_claimed := Some now\<rparr>) (v_invites s)\<rparr> in
     rbind (sync_budget lim (iv_vault i) False s') (\<lambda>_.
     Inr (s', Inr (claim_response i device Pending))))"

text \<open>A repeated claim with the same device, keys and token gets the same answer.\<close>

definition claim_again ::
  "invite_row \<Rightarrow> string \<Rightarrow> string \<Rightarrow> string \<Rightarrow> string \<Rightarrow> sync_db \<Rightarrow> rerr + sync_db \<times> answer" where
  "claim_again i device sign wrap token s =
     (case (if iv_claimant i = Some device then find_device device s else None) of
        None \<Rightarrow> Inl (Status 409 ''invite_used'')
      | Some r \<Rightarrow>
          if dv_vault r \<noteq> iv_vault i \<or> dv_sign r \<noteq> sign \<or> dv_wrap r \<noteq> wrap \<or> dv_token r \<noteq> token
          then Inl (Status 409 ''invite_used'') else Inr (s, Inr (claim_response i device (dv_status r))))"

definition claim_invite ::
  "crypto \<Rightarrow> limits \<Rightarrow> int \<Rightarrow> string \<Rightarrow> json \<Rightarrow> sync_db \<Rightarrow> rerr + sync_db \<times> answer" where
  "claim_invite C lim now invite payload s =
     rbind (opaque_id invite) (\<lambda>_.
     rbind (request_fields [''secret'', ''device_id'', ''device_token'', ''sign_public_key'', ''wrap_public_key''] [] payload) (\<lambda>_.
     rbind (required_string 32 4096 ''secret'' payload) (\<lambda>secret.
     rbind (required_string 1 128 ''device_id'' payload) (\<lambda>device.
     rbind (opaque_id device) (\<lambda>_.
     rbind (request_public_key ''sign_public_key'' payload) (\<lambda>sign.
     rbind (request_public_key ''wrap_public_key'' payload) (\<lambda>wrap.
     rbind (required_string 32 4096 ''device_token'' payload) (\<lambda>token.
     (case find_invite invite s of None \<Rightarrow> Inl (Status 404 ''not_found'')
      | Some i \<Rightarrow>
          if iv_expires i \<le> now then Inr (refuse_expired now i s)
          else if iv_secret i \<noteq> raw_digest C secret then Inl (Status 401 ''invalid_invite_secret'')
          else (case iv_status i of
                  Open \<Rightarrow> claim_open lim now i device sign wrap (raw_digest C token) s
                | Expired \<Rightarrow> Inl (Status 409 ''invite_used'')
                | _ \<Rightarrow> claim_again i device sign wrap (raw_digest C token) s))))))))))"

definition invite_response :: "invite_row \<Rightarrow> json option \<Rightarrow> json" where
  "invite_response i claimant = JObj ([(''invite_id'', JStr (iv_id i)), (''vault_id'', JStr (iv_vault i)),
     (''status'', JStr (invite_status_text (iv_status i))), (''created_by_device_id'', JStr (iv_creator i)),
     (''claimant_device_id'', opt_json (iv_claimant i)), (''created_at'', JInt (iv_created i)), (''expires_at'', JInt (iv_expires i)),
     (''claimed_at'', opt_int (iv_claimed i)), (''approved_at'', opt_int (iv_approved i))]
     @ (case claimant of None \<Rightarrow> [] | Some c \<Rightarrow> [(''claimant'', c)]))"

text \<open>Both readers of an invite store its expiry first, and read the row again.\<close>

definition settle_expiry :: "int \<Rightarrow> invite_row \<Rightarrow> sync_db \<Rightarrow> sync_db \<times> invite_row" where
  "settle_expiry now i s = (if expire_due now i then (expire_invite (iv_id i) s, i\<lparr>iv_status := Expired\<rparr>) else (s, i))"

definition claimant_response :: "device_row \<Rightarrow> json" where
  "claimant_response r = JObj [(''device_id'', JStr (dv_id r)), (''sign_public_key'', JStr (dv_sign r)),
     (''wrap_public_key'', JStr (dv_wrap r)), (''status'', JStr (device_status_text (dv_status r))), (''created_at'', JInt (dv_created r))]"

definition claimant_of :: "invite_row \<Rightarrow> sync_db \<Rightarrow> device_row option" where
  "claimant_of i s = (case iv_claimant i of None \<Rightarrow> None | Some c \<Rightarrow> if c = [] then None else find_device c s)"

definition inspect_invite :: "int \<Rightarrow> string \<Rightarrow> string \<Rightarrow> auth_device \<Rightarrow> sync_db \<Rightarrow> rerr + sync_db \<times> json" where
  "inspect_invite now vault invite d s =
     rbind (require_vault d vault) (\<lambda>_.
     rbind (opaque_id invite) (\<lambda>_.
     (case find (\<lambda>r. iv_id r = invite \<and> iv_vault r = vault) (v_invites s) of None \<Rightarrow> Inl (Status 404 ''not_found'')
      | Some i \<Rightarrow>
          let (s', i') = settle_expiry now i s in
          Inr (s', invite_response i' (map_option claimant_response (claimant_of i' s'))))))"

definition invite_status :: "int \<Rightarrow> string \<Rightarrow> auth_device \<Rightarrow> sync_db \<Rightarrow> rerr + sync_db \<times> json" where
  "invite_status now invite d s =
     rbind (opaque_id invite) (\<lambda>_.
     (case find_invite invite s of None \<Rightarrow> Inl (Status 404 ''not_found'')
      | Some i \<Rightarrow>
          rbind (ensure (iv_vault i = ad_vault d) (Status 403 ''wrong_vault'')) (\<lambda>_.
          rbind (ensure (\<not> (ad_status d = Pending \<and> iv_claimant i \<noteq> Some (ad_id d))) (Status 403 ''forbidden'')) (\<lambda>_.
          let (s', i') = settle_expiry now i s;
              r = (if iv_claimant i' = Some (ad_id d) then find_device (ad_id d) s' else None) in
          Inr (s', JObj (members (invite_response i' None) @
            (case r of None \<Rightarrow> []
             | Some x \<Rightarrow> if dv_wrapped x = None then [] else
                 [(''wrapped_vault_key'', opt_json (dv_wrapped x)), (''membership_statement'', opt_json (dv_statement x)),
                  (''membership_signature'', opt_json (dv_signature x))])))))))"

definition approve_row :: "int \<Rightarrow> string \<Rightarrow> string \<Rightarrow> string \<Rightarrow> string \<Rightarrow> device_row \<Rightarrow> device_row" where
  "approve_row now who statement signature wrapped r =
     r\<lparr>dv_status := Active, dv_approved := Some now, dv_approved_by := Some who, dv_statement := Some statement,
       dv_signature := Some signature, dv_wrapped := Some wrapped\<rparr>"

definition approve_claim ::
  "limits \<Rightarrow> int \<Rightarrow> string \<Rightarrow> string \<Rightarrow> string \<Rightarrow> string \<Rightarrow> string \<Rightarrow> invite_row \<Rightarrow> string \<Rightarrow> sync_db \<Rightarrow> rerr + sync_db \<times> answer" where
  "approve_claim lim now vault who wrapped statement signature i c s =
     rbind (ensure (\<exists>r \<in> set (v_devices s). dv_id r = c \<and> dv_vault r = vault \<and> dv_status r = Pending) (Status 409 ''invite_used'')) (\<lambda>_.
     let s' = s\<lparr>v_devices := map (\<lambda>r. if dv_id r = c \<and> dv_vault r = vault \<and> dv_status r = Pending
                                   then approve_row now who statement signature wrapped r else r) (v_devices s),
                v_invites := update_invite (iv_id i) (\<lambda>r. r\<lparr>iv_status := Approved, iv_approved := Some now\<rparr>) (v_invites s)\<rparr> in
     rbind (sync_budget lim vault False s') (\<lambda>_.
     Inr (s', Inr (JObj [(''invite_id'', JStr (iv_id i)), (''device_id'', JStr c), (''status'', JStr ''approved'')]))))"

definition approve_invite ::
  "limits \<Rightarrow> int \<Rightarrow> string \<Rightarrow> string \<Rightarrow> json \<Rightarrow> auth_device \<Rightarrow> sync_db \<Rightarrow> rerr + sync_db \<times> answer" where
  "approve_invite lim now vault invite payload d s =
     rbind (require_vault d vault) (\<lambda>_.
     rbind (opaque_id invite) (\<lambda>_.
     rbind (request_fields [''wrapped_vault_key'', ''membership_statement'', ''membership_signature''] [] payload) (\<lambda>_.
     rbind (required_string 1 1048576 ''wrapped_vault_key'' payload) (\<lambda>wrapped.
     rbind (required_string 1 1048576 ''membership_statement'' payload) (\<lambda>statement.
     rbind (required_string 1 16384 ''membership_signature'' payload) (\<lambda>signature.
     rbind (require_root d s) (\<lambda>_.
     (case find (\<lambda>r. iv_id r = invite \<and> iv_vault r = vault) (v_invites s) of None \<Rightarrow> Inl (Status 404 ''not_found'')
      | Some i \<Rightarrow>
          if iv_expires i \<le> now then Inr (refuse_expired now i s)
          else
            rbind (ensure (iv_status i = Claimed \<and> iv_claimant i \<noteq> None \<and> iv_claimant i \<noteq> Some []) (Status 409 ''invite_not_claimed'')) (\<lambda>_.
            rbind (ensure (iv_creator i = ad_id d) (Status 403 ''wrong_approver'')) (\<lambda>_.
            approve_claim lim now vault (ad_id d) wrapped statement signature i (the (iv_claimant i)) s))))))))))"

section \<open>Requests\<close>

text \<open>The requests that change tables, as \<open>_post\<close> and \<open>_get\<close> dispatch them: authentication, then the handler.\<close>

datatype sync_request =
    CreateVault string string int headers json
  | AppendCommit int string headers json
  | RevokeDevice int string string headers json
  | CreateInvite string int string headers json
  | ClaimInvite int string json
  | InspectInvite int string string headers
  | InviteStatus int string headers
  | ApproveInvite int string string headers json

definition answered :: "rerr + sync_db \<times> json \<Rightarrow> rerr + sync_db \<times> answer" where
  "answered m = rbind m (\<lambda>(s, r). Inr (s, Inr r))"

primrec sync_step :: "crypto \<Rightarrow> string \<Rightarrow> limits \<Rightarrow> sync_request \<Rightarrow> sync_db \<Rightarrow> rerr + sync_db \<times> answer" where
  "sync_step C admin lim (CreateVault v d now h p) s = answered (create_vault C admin lim v d now h p s)"
| "sync_step C admin lim (AppendCommit now v h p) s =
     rbind (authenticate_device C h (Some v) False s) (\<lambda>d. answered (append_commit C lim now v p d s))"
| "sync_step C admin lim (RevokeDevice now v t h p) s =
     rbind (authenticate_device C h (Some v) False s) (\<lambda>d. answered (revoke_device lim now v t p d s))"
| "sync_step C admin lim (CreateInvite i now v h p) s =
     rbind (authenticate_device C h (Some v) False s) (\<lambda>d. answered (create_invite lim i now v p d s))"
| "sync_step C admin lim (ClaimInvite now i p) s = claim_invite C lim now i p s"
| "sync_step C admin lim (InspectInvite now v i h) s =
     rbind (authenticate_device C h (Some v) False s) (\<lambda>d. answered (inspect_invite now v i d s))"
| "sync_step C admin lim (InviteStatus now i h) s =
     rbind (authenticate_device C h None True s) (\<lambda>d. answered (invite_status now i d s))"
| "sync_step C admin lim (ApproveInvite now v i h p) s =
     rbind (authenticate_device C h (Some v) False s) (\<lambda>d. approve_invite lim now v i p d s)"

end
