(* ===== verification/Sync_Steps.thy ===== *)
theory Sync_Steps
  imports Sync_Server Relay_Invariants
begin

text \<open>
  What a request of the vault relay may do to its tables. \<open>db_step\<close> is the abstract step relation,
  without the request and its checks of form; every request that returns refines it
  (\<open>sync_step_db\<close>). \<open>Sync_Invariants\<close> proves the invariant over its rules.
\<close>

section \<open>Chains of commits\<close>

text \<open>A commit that continues a chain: a genesis commit, or the successor of the last one.\<close>

definition continues :: "verified_commit option \<Rightarrow> verified_commit \<Rightarrow> bool" where
  "continues prev v \<longleftrightarrow> (case prev of
       None \<Rightarrow> vc_sequence v = 1 \<and> vc_parent v = JNull \<and> vc_parent_hash v = JNull
     | Some p \<Rightarrow> vc_sequence v = vc_sequence p + 1 \<and> vc_parent v = JStr (vc_id p) \<and> vc_parent_hash v = JStr (vc_manifest_hash p))"

definition last_of :: "'a list \<Rightarrow> 'a option" where
  "last_of xs = (if xs = [] then None else Some (last xs))"

fun chained_from :: "verified_commit option \<Rightarrow> verified_commit list \<Rightarrow> bool" where
  "chained_from prev [] \<longleftrightarrow> True"
| "chained_from prev (v # vs) \<longleftrightarrow> continues prev v \<and> chained_from (Some v) vs"

abbreviation "commit_chain \<equiv> chained_from None"

lemma last_of_simps [simp]: "last_of [] = None" "last_of (xs @ [x]) = Some x" "last_of xs = None \<longleftrightarrow> xs = []"
  by (simp_all add: last_of_def)

lemma chained_snoc: "chained_from prev (vs @ [v]) \<longleftrightarrow>
    chained_from prev vs \<and> continues (case last_of vs of None \<Rightarrow> prev | Some p \<Rightarrow> Some p) v"
  by (induction vs arbitrary: prev) (auto simp: last_of_def)

lemma chain_snoc [simp]: "commit_chain (vs @ [v]) \<longleftrightarrow> commit_chain vs \<and> continues (last_of vs) v"
  by (simp add: chained_snoc option.case_eq_if)

text \<open>The commits of a chain are numbered from 1 without gaps.\<close>

lemma chain_sequences: "commit_chain vs \<Longrightarrow> map vc_sequence vs = [1..int (length vs)]"
proof (induction vs rule: rev_induct)
  case (snoc v vs)
  then have s: "map vc_sequence vs = [1..int (length vs)]" and c: "continues (last_of vs) v" by simp_all
  have "vc_sequence v = int (length vs) + 1"
  proof (cases vs rule: rev_cases)
    case (snoc ws w)
    have "vc_sequence w = last (map vc_sequence vs)" using snoc by simp
    also have "\<dots> = int (length vs)" unfolding s using snoc by (simp add: upto_rec2)
    finally show ?thesis using c snoc by (simp add: continues_def)
  qed (use c in \<open>simp add: continues_def\<close>)
  with s show ?case by (simp add: upto_rec2 add.commute)
qed simp

section \<open>Steps of the tables\<close>

definition is_root :: "device_row \<Rightarrow> bool" where
  "is_root d \<longleftrightarrow> dv_status d = Active \<and> dv_approved_by d = None"

definition root_of :: "string \<Rightarrow> string \<Rightarrow> sync_db \<Rightarrow> bool" where
  "root_of d v s \<longleftrightarrow> (\<exists>r \<in> set (v_devices s). dv_id r = d \<and> dv_vault r = v \<and> is_root r)"

definition signing_key :: "string \<Rightarrow> string \<Rightarrow> sync_db \<Rightarrow> string \<Rightarrow> bool" where
  "signing_key d v s key \<longleftrightarrow> (\<exists>r \<in> set (v_devices s). dv_id r = d \<and> dv_vault r = v \<and> request_base64 (Some 32) None (JStr (dv_sign r)) = Inr key)"

text \<open>The row of a commit that the author's registered key verifies.\<close>

definition stored :: "crypto \<Rightarrow> sync_db \<Rightarrow> commit_row \<Rightarrow> verified_commit \<Rightarrow> bool" where
  "stored C s r v \<longleftrightarrow> (\<exists>key. signing_key (cm_author r) (cm_vault r) s key
     \<and> verify_commit_signature C (cm_blob r) key (Some (cm_snapshot r)) (Some (cm_vault r)) (Some (cm_author r)) = Inr v)
     \<and> cm_id r = vc_id v \<and> cm_seq r = vc_sequence v \<and> cm_hash r = vc_manifest_hash v \<and> opt_json (cm_parent r) = vc_parent v"

inductive db_step :: "crypto \<Rightarrow> sync_db \<Rightarrow> sync_db \<Rightarrow> bool" for C where
  Stay: "db_step C s s"
| Found: "va_id v \<notin> va_id ` set (v_vaults s) \<Longrightarrow> va_head v = None \<Longrightarrow> dv_id d \<notin> dv_id ` set (v_devices s) \<Longrightarrow>
    dv_vault d = va_id v \<Longrightarrow> is_root d \<Longrightarrow>
    db_step C s (s\<lparr>v_vaults := v_vaults s @ [v], v_devices := v_devices s @ [d]\<rparr>)"
| Append: "row \<in> set (v_vaults s) \<Longrightarrow> va_id row = cm_vault r \<Longrightarrow> stored C s r v \<Longrightarrow>
    \<exists>a \<in> set (v_devices s). dv_id a = cm_author r \<and> dv_vault a = cm_vault r \<and> dv_status a = Active \<Longrightarrow>
    vc_parent v = opt_json (va_head row) \<Longrightarrow> check_ancestry (cm_vault r) (va_head row) v s = Inr () \<Longrightarrow>
    \<forall>x \<in> set (v_commits s). cm_vault x = cm_vault r \<longrightarrow> cm_id x \<noteq> cm_id r \<Longrightarrow>
    db_step C s (s\<lparr>v_commits := v_commits s @ [r], v_vaults := set_head (cm_vault r) (va_head row) (cm_id r) (v_vaults s)\<rparr>)"
| Revoke: "root_of who vault s \<Longrightarrow> t \<in> set (v_devices s) \<Longrightarrow> dv_id t = target \<Longrightarrow> dv_vault t = vault \<Longrightarrow>
    dv_approved_by t \<noteq> None \<Longrightarrow> dv_status t \<noteq> Revoked \<Longrightarrow>
    db_step C s (s\<lparr>v_devices := update_device vault target (revoke_row now who statement signature) (v_devices s)\<rparr>)"
| Invite: "root_of (iv_creator i) (iv_vault i) s \<Longrightarrow> iv_id i \<notin> iv_id ` set (v_invites s) \<Longrightarrow> iv_status i = Open \<Longrightarrow> iv_claimant i = None \<Longrightarrow>
    db_step C s (s\<lparr>v_invites := v_invites s @ [i]\<rparr>)"
| Claim: "i \<in> set (v_invites s) \<Longrightarrow> iv_status i = Open \<Longrightarrow> d = new_device device (iv_vault i) sign wrap token Pending now None \<Longrightarrow>
    device \<notin> dv_id ` set (v_devices s) \<Longrightarrow>
    db_step C s (s\<lparr>v_devices := v_devices s @ [d], v_invites := update_invite (iv_id i)
      (\<lambda>r. r\<lparr>iv_status := Claimed, iv_claimant := Some device, iv_claimed := Some now\<rparr>) (v_invites s)\<rparr>)"
| Expire: "i \<in> set (v_invites s) \<Longrightarrow> iv_status i = Open \<or> iv_status i = Claimed \<Longrightarrow> db_step C s (expire_invite (iv_id i) s)"
| Approve: "i \<in> set (v_invites s) \<Longrightarrow> iv_status i = Claimed \<Longrightarrow> iv_claimant i = Some c \<Longrightarrow> iv_vault i = vault \<Longrightarrow>
    root_of (iv_creator i) vault s \<Longrightarrow>
    db_step C s (s\<lparr>v_devices := map (\<lambda>r. if dv_id r = c \<and> dv_vault r = vault \<and> dv_status r = Pending
                       then approve_row now (iv_creator i) statement signature wrapped r else r) (v_devices s),
                   v_invites := update_invite (iv_id i) (\<lambda>r. r\<lparr>iv_status := Approved, iv_approved := Some now\<rparr>) (v_invites s)\<rparr>)"

inductive_cases db_stepE [elim]: "db_step C s s'"

section \<open>Every request is a step\<close>

lemma find_vault_ok: "find_vault v s = Some r \<Longrightarrow> r \<in> set (v_vaults s) \<and> va_id r = v"
  and find_invite_ok: "find_invite i s = Some x \<Longrightarrow> x \<in> set (v_invites s) \<and> iv_id x = i"
  and find_device_ok: "find_device d s = Some y \<Longrightarrow> y \<in> set (v_devices s) \<and> dv_id y = d"
  and device_in_ok: "device_in d v s = Some y \<Longrightarrow> y \<in> set (v_devices s) \<and> dv_id y = d \<and> dv_vault y = v"
  and find_commit_ok: "find_commit v c s = Some k \<Longrightarrow> k \<in> set (v_commits s) \<and> cm_vault k = v \<and> cm_id k = c"
  by (auto simp: find_vault_def find_invite_def find_device_def device_in_def find_commit_def dest: find_ok)

lemma require_active_ok: "require_active d s = Inr r \<longleftrightarrow> device_in (ad_id d) (ad_vault d) s = Some r \<and> dv_status r = Active"
  by (auto simp: require_active_def rbind_ok ensure_ok split: option.splits)

lemma require_root_D: "require_root d s = Inr u \<Longrightarrow> root_of (ad_id d) (ad_vault d) s"
  by (auto simp: require_root_def rbind_ok ensure_ok require_active_ok root_of_def is_root_def dest!: device_in_ok)

lemma require_vault_ok [ok_simps]: "require_vault d v = Inr u \<longleftrightarrow> opaque_pattern v \<and> ad_vault d = v"
  by (auto simp: require_vault_def opaque_id_def rbind_ok ensure_ok)

lemma create_vault_step:
  assumes "create_vault C admin lim vault device now h payload s = Inr (s', a)"
  shows "db_step C s s'"
proof -
  from assms obtain sign wrap token where
    s': "s' = s\<lparr>v_vaults := v_vaults s @ [\<lparr>va_id = vault, va_head = None, va_created = now\<rparr>],
      v_devices := v_devices s @ [new_device device vault sign wrap token Active now (Some now)]\<rparr>"
    and f: "vault \<notin> va_id ` set (v_vaults s)" "device \<notin> dv_id ` set (v_devices s)"
    by (auto simp: create_vault_def rbind_ok Let_def insert_device_def insert_row_ok new_device_def)
  show ?thesis unfolding s' by (rule Found) (use f in \<open>simp_all add: new_device_def is_root_def\<close>)
qed

lemma opt_json_head: "vc_parent v = opt_json p \<Longrightarrow> opt_json (head_to_text (vc_parent v)) = vc_parent v"
  by (cases p) (simp_all add: head_to_text_def opt_json_def)

lemma append_commit_D:
  assumes "append_commit C lim now vault payload d s = Inr (s', a)"
  obtains row k r where "find_vault vault s = Some row" and "opt_json (va_head row) = fld payload ''expected_parent_commit_id''"
    and "opt_json (va_head row) = vc_parent (ck_commit k)" and "r = commit_row_of vault (ad_id d) now k"
    and "stored C s r (ck_commit k)" and "check_ancestry vault (va_head row) (ck_commit k) s = Inr ()"
    and "\<exists>y \<in> set (v_devices s). dv_id y = ad_id d \<and> dv_vault y = vault \<and> dv_status y = Active"
    and "\<forall>x \<in> set (v_commits s). cm_vault x = vault \<longrightarrow> cm_id x \<noteq> cm_id r"
    and "s' = s\<lparr>v_commits := v_commits s @ [r], v_vaults := set_head vault (va_head row) (cm_id r) (v_vaults s)\<rparr>"
proof -
  from assms obtain k where k: "check_commit C vault payload d s = Inr k" "append_checked lim now vault d k s = Inr (s', a)"
    by (auto simp: append_commit_def rbind_ok)
  define r where "r = commit_row_of vault (ad_id d) now k"
  from k(1) obtain y key where y: "device_in (ad_id d) vault s = Some y" "request_base64 (Some 32) None (JStr (dv_sign y)) = Inr key"
    and v: "verify_commit_signature C (ck_blob k) key (Some (ck_snapshot k)) (Some vault) (Some (ad_id d)) = Inr (ck_commit k)"
    and vault: "ad_vault d = vault" and p: "vc_parent (ck_commit k) = fld payload ''expected_parent_commit_id''"
    by (auto simp: check_commit_def rbind_ok ensure_ok map_err_ok require_vault_ok split: option.splits)
  from k(2) obtain row b where act: "require_active d s = Inr b" and row: "find_vault vault s = Some row"
    and cas: "opt_json (va_head row) = vc_parent (ck_commit k)"
    and anc: "check_ancestry vault (va_head row) (ck_commit k) s = Inr ()"
    and new: "\<not> (\<exists>x \<in> set (v_commits s). cm_vault x = vault \<and> (cm_id x = vc_id (ck_commit k) \<or> cm_seq x = vc_sequence (ck_commit k)))"
    and s': "s' = s\<lparr>v_commits := v_commits s @ [r], v_vaults := set_head vault (va_head row) (vc_id (ck_commit k)) (v_vaults s)\<rparr>"
    by (auto simp: append_checked_def rbind_ok ensure_ok Let_def r_def split: option.splits)
  have r: "cm_id r = vc_id (ck_commit k)" by (simp add: r_def commit_row_of_def)
  show ?thesis
  proof (rule that [of row k r])
    show "stored C s r (ck_commit k)"
      using device_in_ok [OF y(1)] y(2) v opt_json_head [OF cas [symmetric]]
      unfolding stored_def signing_key_def by (auto simp: r_def commit_row_of_def)
    show "\<exists>y \<in> set (v_devices s). dv_id y = ad_id d \<and> dv_vault y = vault \<and> dv_status y = Active"
      using act vault by (auto simp: require_active_ok dest: device_in_ok)
  qed (use row cas p anc new s' r in \<open>simp_all add: r_def\<close>)
qed

lemma append_commit_step:
  assumes "append_commit C lim now vault payload d s = Inr (s', a)"
  shows "db_step C s s'"
  using assms
proof (cases rule: append_commit_D)
  case (1 row k r)
  have r: "cm_vault r = vault" "cm_author r = ad_id d" by (simp_all add: 1(4) commit_row_of_def)
  have "db_step C s (s\<lparr>v_commits := v_commits s @ [r], v_vaults := set_head (cm_vault r) (va_head row) (cm_id r) (v_vaults s)\<rparr>)"
    by (rule Append [OF _ _ 1(5)]) (use find_vault_ok [OF 1(1)] r 1(3,6,7,8) in auto)
  then show ?thesis unfolding 1(9) r(1) .
qed

lemma revoke_device_step:
  assumes "revoke_device lim now vault target payload d s = Inr (s', a)"
  shows "db_step C s s'"
proof -
  from assms obtain t statement signature u where root: "require_root d s = Inr u" and v: "ad_vault d = vault"
    and t: "device_in target vault s = Some t" "dv_approved_by t \<noteq> None" "dv_status t \<noteq> Revoked"
    and s': "s' = s\<lparr>v_devices := update_device vault target (revoke_row now (ad_id d) statement signature) (v_devices s)\<rparr>"
    by (auto simp: revoke_device_def rbind_ok ensure_ok require_vault_ok Let_def split: option.splits)
  from require_root_D [OF root] v device_in_ok [OF t(1)] t(2,3) show ?thesis unfolding s' by (intro Revoke) auto
qed

lemma create_invite_step:
  assumes "create_invite lim invite now vault payload d s = Inr (s', a)"
  shows "db_step C s s'"
proof -
  from assms obtain u h e where root: "require_root d s = Inr u" and v: "ad_vault d = vault"
    and fresh: "invite \<notin> iv_id ` set (v_invites s)"
    and s': "s' = s\<lparr>v_invites := v_invites s @ [\<lparr>iv_id = invite, iv_vault = vault, iv_secret = h, iv_status = Open, iv_creator = ad_id d,
        iv_claimant = None, iv_created = now, iv_expires = e, iv_claimed = None, iv_approved = None\<rparr>]\<rparr>"
    by (auto simp: create_invite_def rbind_ok ensure_ok require_vault_ok Let_def insert_row_ok)
  from require_root_D [OF root] v fresh show ?thesis unfolding s' by (intro Invite) auto
qed

lemma refuse_expired_step: "i \<in> set (v_invites s) \<Longrightarrow> refuse_expired now i s = (s', a) \<Longrightarrow> db_step C s s'"
  by (auto simp: refuse_expired_def expire_due_def split: if_splits intro: Stay Expire)

lemma settle_expiry_step: "i \<in> set (v_invites s) \<Longrightarrow> settle_expiry now i s = (s', i') \<Longrightarrow> db_step C s s'"
  by (auto simp: settle_expiry_def expire_due_def split: if_splits intro: Stay Expire)

lemma claim_open_step:
  assumes "i \<in> set (v_invites s)" and "iv_status i = Open" and "claim_open lim now i device sign wrap token s = Inr (s', a)"
  shows "db_step C s s'"
proof -
  let ?d = "new_device device (iv_vault i) sign wrap token Pending now None"
  from assms(3) have fresh: "device \<notin> dv_id ` set (v_devices s)"
    and s': "s' = s\<lparr>v_devices := v_devices s @ [?d], v_invites := update_invite (iv_id i)
                (\<lambda>r. r\<lparr>iv_status := Claimed, iv_claimant := Some device, iv_claimed := Some now\<rparr>) (v_invites s)\<rparr>"
    by (auto simp: claim_open_def rbind_ok Let_def insert_device_def map_err_ok insert_row_ok new_device_def)
  show ?thesis unfolding s' by (rule Claim [OF assms(1,2) refl fresh])
qed

lemma claim_invite_D:
  assumes "claim_invite C lim now invite payload s = Inr (s', a)"
  obtains i device sign wrap token where "find_invite invite s = Some i"
    and "if iv_expires i \<le> now then refuse_expired now i s = (s', a)
         else (case iv_status i of
                  Open \<Rightarrow> claim_open lim now i device sign wrap token s = Inr (s', a)
                | Expired \<Rightarrow> False | _ \<Rightarrow> claim_again i device sign wrap token s = Inr (s', a))"
proof -
  from assms obtain i secret device sign wrap token where i: "find_invite invite s = Some i"
    and r: "(if iv_expires i \<le> now then Inr (refuse_expired now i s)
          else if iv_secret i \<noteq> raw_digest C secret then Inl (Status 401 ''invalid_invite_secret'')
          else (case iv_status i of
                  Open \<Rightarrow> claim_open lim now i device sign wrap (raw_digest C token) s
                | Expired \<Rightarrow> Inl (Status 409 ''invite_used'')
                | _ \<Rightarrow> claim_again i device sign wrap (raw_digest C token) s)) = Inr (s', a)"
    by (auto simp: claim_invite_def rbind_ok split: option.splits)
  from r show ?thesis
    by (intro that [OF i, of device sign wrap "raw_digest C token"]) (cases "iv_status i"; simp split: if_splits)
qed

lemma claim_invite_step:
  assumes "claim_invite C lim now invite payload s = Inr (s', a)"
  shows "db_step C s s'"
  using assms
proof (cases rule: claim_invite_D)
  case (1 i device sign wrap token)
  with find_invite_ok [OF 1(1)] show ?thesis
    by (auto split: if_splits invite_state.splits option.splits simp: claim_again_def
        intro: Stay claim_open_step refuse_expired_step)
qed

lemma inspect_invite_step:
  assumes "inspect_invite now vault invite d s = Inr (s', a)"
  shows "db_step C s s'"
proof -
  from assms obtain i i' where "find (\<lambda>r. iv_id r = invite \<and> iv_vault r = vault) (v_invites s) = Some i" "settle_expiry now i s = (s', i')"
    by (auto simp: inspect_invite_def rbind_ok split: option.splits prod.splits)
  then show ?thesis by (blast intro: settle_expiry_step dest: find_ok(1))
qed

lemma invite_status_step:
  assumes "invite_status now invite d s = Inr (s', a)"
  shows "db_step C s s'"
proof -
  from assms obtain i i' where "find_invite invite s = Some i" "settle_expiry now i s = (s', i')"
    by (auto simp: invite_status_def rbind_ok Let_def split: option.splits prod.splits)
  then show ?thesis by (blast intro: settle_expiry_step dest: find_invite_ok)
qed

lemma approve_invite_step:
  assumes "approve_invite lim now vault invite payload d s = Inr (s', a)"
  shows "db_step C s s'"
proof -
  from assms obtain i u wrapped statement signature where root: "require_root d s = Inr u" and v: "ad_vault d = vault"
    and i: "find (\<lambda>r. iv_id r = invite \<and> iv_vault r = vault) (v_invites s) = Some i"
    and r: "(if iv_expires i \<le> now then Inr (refuse_expired now i s)
          else
            rbind (ensure (iv_status i = Claimed \<and> iv_claimant i \<noteq> None \<and> iv_claimant i \<noteq> Some []) (Status 409 ''invite_not_claimed'')) (\<lambda>_.
            rbind (ensure (iv_creator i = ad_id d) (Status 403 ''wrong_approver'')) (\<lambda>_.
            approve_claim lim now vault (ad_id d) wrapped statement signature i (the (iv_claimant i)) s))) = Inr (s', a)"
    by (auto simp: approve_invite_def rbind_ok require_vault_ok split: option.splits)
  note i' = find_ok [OF i]
  show ?thesis
  proof (cases "iv_expires i \<le> now")
    case True
    with r i'(1) show ?thesis by (auto intro: refuse_expired_step)
  next
    case False
    with r obtain c where c: "iv_status i = Claimed" "iv_claimant i = Some c" "iv_creator i = ad_id d"
      and s': "s' = s\<lparr>v_devices := map (\<lambda>r. if dv_id r = c \<and> dv_vault r = vault \<and> dv_status r = Pending
                                   then approve_row now (iv_creator i) statement signature wrapped r else r) (v_devices s),
                v_invites := update_invite (iv_id i) (\<lambda>r. r\<lparr>iv_status := Approved, iv_approved := Some now\<rparr>) (v_invites s)\<rparr>"
      by (auto simp: rbind_ok ensure_ok approve_claim_def Let_def)
    show ?thesis unfolding s' by (rule Approve [OF i'(1) c(1,2)]) (use i'(2) c(3) require_root_D [OF root] v in auto)
  qed
qed

lemma answered_ok: "answered m = Inr (s', a) \<longleftrightarrow> (\<exists>r. m = Inr (s', r) \<and> a = Inr r)"
  by (cases m) (auto simp: answered_def)

theorem sync_step_db: "sync_step C admin lim q s = Inr (s', a) \<Longrightarrow> db_step C s s'"
  by (cases q) (auto simp: rbind_ok answered_ok intro: create_vault_step append_commit_step revoke_device_step create_invite_step
      claim_invite_step inspect_invite_step invite_status_step approve_invite_step)

end
