(* ===== verification/Sync_Invariants.thy ===== *)
theory Sync_Invariants
  imports Sync_Steps
begin

text \<open>
  The vault relay under any sequence of requests, those that raise included. The invariant is
  proved over the rules of \<open>db_step\<close>: the stored history of a vault is a chain of commits that
  their authors signed, the head is its last commit, every vault has one root device, and every
  other device joined through an invite of that root. What only grows is \<open>sync_le\<close>.
  \<open>Transactions.transactional\<close> is interpreted on the requests.
\<close>

section \<open>The invariant\<close>

definition history :: "string \<Rightarrow> sync_db \<Rightarrow> commit_row list" where
  "history v s = filter (\<lambda>r. cm_vault r = v) (v_commits s)"

definition roots :: "string \<Rightarrow> sync_db \<Rightarrow> device_row list" where
  "roots v s = filter (\<lambda>d. dv_vault d = v \<and> is_root d) (v_devices s)"

definition vault_ok :: "crypto \<Rightarrow> sync_db \<Rightarrow> vault_row \<Rightarrow> bool" where
  "vault_ok C s v \<longleftrightarrow> (\<exists>vs. list_all2 (stored C s) (history (va_id v) s) vs \<and> commit_chain vs)
     \<and> distinct (map cm_id (history (va_id v) s)) \<and> va_head v = map_option cm_id (last_of (history (va_id v) s)) \<and> length (roots (va_id v) s) = 1"

text \<open>A device that is no root was admitted by the root that invited it, or still waits for it.\<close>

definition admitted :: "device_row \<Rightarrow> invite_row \<Rightarrow> bool" where
  "admitted d i \<longleftrightarrow> iv_vault i = dv_vault d \<and> iv_claimant i = Some (dv_id d)
     \<and> (if dv_status d = Pending then dv_approved_by d = None \<and> (iv_status i = Claimed \<or> iv_status i = Expired)
        else dv_approved_by d = Some (iv_creator i) \<and> iv_status i = Approved)"

definition device_ok :: "sync_db \<Rightarrow> device_row \<Rightarrow> bool" where
  "device_ok s d \<longleftrightarrow> dv_vault d \<in> va_id ` set (v_vaults s) \<and> (is_root d \<or> (\<exists>i \<in> set (v_invites s). admitted d i))"

definition invite_ok :: "sync_db \<Rightarrow> invite_row \<Rightarrow> bool" where
  "invite_ok s i \<longleftrightarrow> root_of (iv_creator i) (iv_vault i) s \<and> (iv_status i = Open \<longrightarrow> iv_claimant i = None)"

definition sync_inv :: "crypto \<Rightarrow> sync_db \<Rightarrow> bool" where
  "sync_inv C s \<longleftrightarrow> distinct (map va_id (v_vaults s)) \<and> distinct (map dv_id (v_devices s)) \<and> distinct (map iv_id (v_invites s))
     \<and> (\<forall>v \<in> set (v_vaults s). vault_ok C s v) \<and> (\<forall>d \<in> set (v_devices s). device_ok s d)
     \<and> (\<forall>i \<in> set (v_invites s). invite_ok s i) \<and> (\<forall>r \<in> set (v_commits s). cm_vault r \<in> va_id ` set (v_vaults s))"

lemma sync_inv_empty: "sync_inv C empty_db"
  by (simp add: sync_inv_def empty_db_def)

section \<open>What only grows\<close>

primrec device_rank :: "device_status \<Rightarrow> nat" where
  "device_rank Pending = 0" | "device_rank Active = 1" | "device_rank Revoked = 2"

primrec invite_rank :: "invite_state \<Rightarrow> nat" where
  "invite_rank Open = 0" | "invite_rank Claimed = 1" | "invite_rank Approved = 2" | "invite_rank Expired = 2"

text \<open>A device keeps its keys and token, moves from pending to active to revoked, and a revoked one is final.\<close>

definition device_le :: "device_row \<Rightarrow> device_row \<Rightarrow> bool" where
  "device_le x y \<longleftrightarrow> dv_id y = dv_id x \<and> dv_vault y = dv_vault x \<and> dv_sign y = dv_sign x \<and> dv_wrap y = dv_wrap x
     \<and> dv_token y = dv_token x \<and> device_rank (dv_status x) \<le> device_rank (dv_status y)
     \<and> (dv_status x \<noteq> Pending \<longrightarrow> dv_approved_by y = dv_approved_by x \<and> dv_statement y = dv_statement x
          \<and> dv_signature y = dv_signature x \<and> dv_wrapped y = dv_wrapped x)
     \<and> (dv_status x = Revoked \<longrightarrow> y = x)"

definition invite_le :: "invite_row \<Rightarrow> invite_row \<Rightarrow> bool" where
  "invite_le x y \<longleftrightarrow> iv_id y = iv_id x \<and> iv_vault y = iv_vault x \<and> iv_secret y = iv_secret x \<and> iv_creator y = iv_creator x
     \<and> iv_expires y = iv_expires x \<and> invite_rank (iv_status x) \<le> invite_rank (iv_status y)
     \<and> (iv_claimant x \<noteq> None \<longrightarrow> iv_claimant y = iv_claimant x) \<and> (iv_status x = Approved \<or> iv_status x = Expired \<longrightarrow> y = x)"

definition vault_le :: "vault_row \<Rightarrow> vault_row \<Rightarrow> bool" where
  "vault_le x y \<longleftrightarrow> va_id y = va_id x \<and> va_created y = va_created x"

definition sync_le :: "sync_db \<Rightarrow> sync_db \<Rightarrow> bool" where
  "sync_le s t \<longleftrightarrow> grows vault_le (v_vaults s) (v_vaults t) \<and> grows device_le (v_devices s) (v_devices t)
     \<and> prefix (v_commits s) (v_commits t) \<and> grows invite_le (v_invites s) (v_invites t)"

lemma device_le_refl: "device_le x x" and invite_le_refl: "invite_le i i" and vault_le_refl: "vault_le v v"
  by (simp_all add: device_le_def invite_le_def vault_le_def)

lemma device_le_trans: "device_le x y \<Longrightarrow> device_le y z \<Longrightarrow> device_le x z"
  unfolding device_le_def by (cases "dv_status x"; cases "dv_status y") auto

lemma invite_le_trans: "invite_le x y \<Longrightarrow> invite_le y z \<Longrightarrow> invite_le x z"
  unfolding invite_le_def by auto

lemma vault_le_trans: "vault_le x y \<Longrightarrow> vault_le y z \<Longrightarrow> vault_le x z"
  by (simp add: vault_le_def)

lemmas le_refls = grows_refl [of vault_le] grows_refl [of device_le] grows_refl [of invite_le] vault_le_refl device_le_refl invite_le_refl

lemma sync_le_refl: "sync_le s s"
  by (simp add: sync_le_def le_refls)

lemma sync_le_trans: "sync_le s t \<Longrightarrow> sync_le t u \<Longrightarrow> sync_le s u"
  unfolding sync_le_def
  by (intro conjI; (elim conjE)) (blast intro: grows_trans [of vault_le] grows_trans [of device_le] grows_trans [of invite_le]
      vault_le_trans device_le_trans invite_le_trans prefix_order.trans)+

section \<open>Parts of the invariant under a change\<close>

lemma signing_key_mono: "grows device_le (v_devices s) (v_devices s') \<Longrightarrow> signing_key d v s key \<Longrightarrow> signing_key d v s' key"
  unfolding signing_key_def by (fastforce simp: device_le_def dest: grows_set)

lemma stored_mono: "grows device_le (v_devices s) (v_devices s') \<Longrightarrow> stored C s r v \<Longrightarrow> stored C s' r v"
  unfolding stored_def using signing_key_mono by blast

lemma histories_mono:
  assumes "grows device_le (v_devices s) (v_devices s')" and "list_all2 (stored C s) rs vs"
  shows "list_all2 (stored C s') rs vs"
  using assms(2) by (rule list_all2_mono) (rule stored_mono [OF assms(1)])

lemma root_of_mono:
  assumes "root_of d v s" and "\<And>r. r \<in> set (v_devices s) \<Longrightarrow> is_root r \<Longrightarrow> r \<in> set (v_devices s')"
  shows "root_of d v s'"
  using assms unfolding root_of_def by blast

lemma vault_ok_cong:
  assumes "vault_ok C s v" and "grows device_le (v_devices s) (v_devices s')"
    and "history (va_id v) s' = history (va_id v) s" and "length (roots (va_id v) s') = length (roots (va_id v) s)"
  shows "vault_ok C s' v"
  using assms histories_mono [OF assms(2)] unfolding vault_ok_def by fastforce

lemma roots_map:
  assumes "v_devices s' = map f (v_devices s)"
    and "\<And>d. d \<in> set (v_devices s) \<Longrightarrow> dv_vault (f d) = dv_vault d \<and> is_root (f d) = is_root d"
  shows "length (roots v s') = length (roots v s)"
proof -
  have "filter ((\<lambda>d. dv_vault d = v \<and> is_root d) \<circ> f) (v_devices s) = filter (\<lambda>d. dv_vault d = v \<and> is_root d) (v_devices s)"
    by (rule filter_cong) (use assms(2) in auto)
  then show ?thesis by (simp add: roots_def assms(1) filter_map)
qed

lemma admitted_update:
  assumes "\<And>i. i \<in> set xs \<Longrightarrow> admitted d i \<Longrightarrow> admitted d (f i)" and "\<exists>i \<in> set xs. admitted d i"
  shows "\<exists>i \<in> f ` set xs. admitted d i"
  using assms by blast

text \<open>Changes of the devices that keep their roots, and of the invites that keep their creators.\<close>

lemma sync_inv_map:
  assumes inv: "sync_inv C s"
    and s': "v_vaults s' = v_vaults s" "v_commits s' = v_commits s" "v_devices s' = map f (v_devices s)" "v_invites s' = map g (v_invites s)"
    and f: "\<And>d. d \<in> set (v_devices s) \<Longrightarrow> device_le d (f d) \<and> is_root (f d) = is_root d \<and> (is_root d \<longrightarrow> f d = d)"
    and g: "\<And>i. i \<in> set (v_invites s) \<Longrightarrow> invite_le i (g i) \<and> (iv_status (g i) = Open \<longrightarrow> g i = i)"
    and ok: "\<And>d. d \<in> set (v_devices s) \<Longrightarrow> \<not> is_root d \<Longrightarrow> (\<exists>i \<in> set (v_invites s). admitted d i) \<Longrightarrow> \<exists>i \<in> set (v_invites s). admitted (f d) (g i)"
  shows "sync_inv C s' \<and> sync_le s s'"
proof
  have ds: "grows device_le (v_devices s) (v_devices s')" unfolding s'(3) by (rule grows_map) (use f in blast)
  have m: "map dv_id (v_devices s') = map dv_id (v_devices s)" "map iv_id (v_invites s') = map iv_id (v_invites s)"
    using f g by (auto simp: s' device_le_def invite_le_def)
  have "distinct (map dv_id (v_devices s'))" "distinct (map iv_id (v_invites s'))"
    unfolding m using inv by (simp_all add: sync_inv_def)
  moreover have "vault_ok C s' v" if "v \<in> set (v_vaults s)" for v
  proof (rule vault_ok_cong [OF _ ds])
    show "length (roots (va_id v) s') = length (roots (va_id v) s)"
      by (rule roots_map [OF s'(3)]) (use f in \<open>auto simp: device_le_def\<close>)
  qed (use inv that s'(2) in \<open>simp_all add: sync_inv_def history_def\<close>)
  moreover have "device_ok s' d" if "d \<in> set (v_devices s')" for d
  proof -
    from that obtain e where e: "e \<in> set (v_devices s)" "d = f e" by (auto simp: s')
    with inv have "device_ok s e" by (simp add: sync_inv_def)
    then show ?thesis using ok [OF e(1)] f [OF e(1)] e(2) by (auto simp: device_ok_def s' device_le_def)
  qed
  moreover have "invite_ok s' i" if "i \<in> set (v_invites s')" for i
  proof -
    from that obtain j where j: "j \<in> set (v_invites s)" "i = g j" by (auto simp: s')
    with inv have "invite_ok s j" by (simp add: sync_inv_def)
    moreover have "root_of (iv_creator j) (iv_vault j) s'" if "root_of (iv_creator j) (iv_vault j) s"
      by (rule root_of_mono [OF that]) (use f in \<open>force simp: s'\<close>)
    ultimately show ?thesis using g [OF j(1)] j(2) by (auto simp: invite_ok_def invite_le_def)
  qed
  ultimately show "sync_inv C s'" using inv unfolding sync_inv_def s'(1,2) by blast
  have "grows invite_le (v_invites s) (v_invites s')" unfolding s'(4) by (rule grows_map) (use g in blast)
  with ds show "sync_le s s'" by (simp add: sync_le_def s' le_refls)
qed

section \<open>Every step keeps it\<close>

lemma inv_D:
  assumes "sync_inv C s"
  shows "distinct (map va_id (v_vaults s))" "distinct (map dv_id (v_devices s))" "distinct (map iv_id (v_invites s))"
    and "v \<in> set (v_vaults s) \<Longrightarrow> vault_ok C s v" "d \<in> set (v_devices s) \<Longrightarrow> device_ok s d"
    and "i \<in> set (v_invites s) \<Longrightarrow> invite_ok s i" "r \<in> set (v_commits s) \<Longrightarrow> cm_vault r \<in> va_id ` set (v_vaults s)"
  using assms by (simp_all add: sync_inv_def)

lemma unique_row: "distinct (map f xs) \<Longrightarrow> x \<in> set xs \<Longrightarrow> y \<in> set xs \<Longrightarrow> f x = f y \<Longrightarrow> x = y"
  by (meson distinct_map inj_on_def)

lemma step_Found:
  assumes inv: "sync_inv C s" and v: "va_id v \<notin> va_id ` set (v_vaults s)" "va_head v = None"
    and d: "dv_id d \<notin> dv_id ` set (v_devices s)" "dv_vault d = va_id v" "is_root d"
    and s': "s' = s\<lparr>v_vaults := v_vaults s @ [v], v_devices := v_devices s @ [d]\<rparr>"
  shows "sync_inv C s' \<and> sync_le s s'"
proof
  have ds: "grows device_le (v_devices s) (v_devices s')" by (simp add: s' grows_append device_le_refl)
  have none: "roots (va_id v) s = []"
    unfolding roots_def filter_empty_conv using inv_D(5) [OF inv] v(1) by (metis device_ok_def)
  have empty: "history (va_id v) s = []"
    unfolding history_def filter_empty_conv using inv_D(7) [OF inv] v(1) by metis
  have "vault_ok C s' w" if "w \<in> set (v_vaults s')" for w
  proof (cases "w = v")
    case True
    with none empty v(2) d show ?thesis by (simp add: vault_ok_def s' history_def roots_def)
  next
    case False
    with that have w: "w \<in> set (v_vaults s)" by (simp add: s')
    then have "va_id w \<noteq> va_id v" using v(1) by (metis imageI)
    with vault_ok_cong [OF inv_D(4) [OF inv w] ds] d(2) show ?thesis by (simp add: s' history_def roots_def)
  qed
  moreover have "device_ok s' e" if "e \<in> set (v_devices s')" for e
    using that inv_D(5) [OF inv, of e] d by (auto simp: s' device_ok_def)
  moreover have "invite_ok s' i" if "i \<in> set (v_invites s')" for i
    using that inv_D(6) [OF inv, of i] by (auto simp: s' invite_ok_def root_of_def)
  ultimately show "sync_inv C s'" using inv v(1) d(1) by (simp add: sync_inv_def s')
  show "sync_le s s'" using ds by (simp add: sync_le_def s' le_refls grows_append)
qed

lemma step_Append:
  assumes inv: "sync_inv C s" and row: "row \<in> set (v_vaults s)" "va_id row = cm_vault r" and st: "stored C s r v"
    and new: "\<forall>x \<in> set (v_commits s). cm_vault x = cm_vault r \<longrightarrow> cm_id x \<noteq> cm_id r"
    and head: "vc_parent v = opt_json (va_head row)" "check_ancestry (cm_vault r) (va_head row) v s = Inr ()"
    and s': "s' = s\<lparr>v_commits := v_commits s @ [r], v_vaults := set_head (cm_vault r) (va_head row) (cm_id r) (v_vaults s)\<rparr>"
  shows "sync_inv C s' \<and> sync_le s s'"
proof
  let ?h = "history (cm_vault r) s"
  have same: "v_devices s' = v_devices s" "v_invites s' = v_invites s" by (simp_all add: s')
  have ds: "grows device_le (v_devices s) (v_devices s')" by (simp add: same le_refls)
  have ids: "map va_id (v_vaults s') = map va_id (v_vaults s)" by (simp add: s' set_head_def)
  then have idset: "va_id ` set (v_vaults s') = va_id ` set (v_vaults s)" by (metis set_map)
  have rok: "vault_ok C s row" by (rule inv_D(4) [OF inv row(1)])
  then obtain vs where vs: "list_all2 (stored C s) ?h vs" "commit_chain vs" and hd: "va_head row = map_option cm_id (last_of ?h)"
    by (auto simp: vault_ok_def row(2))
  have cont: "continues (last_of vs) v"
  proof (cases ?h rule: rev_cases)
    case Nil
    then have "va_head row = None" "vs = []" using hd vs(1) by simp_all
    then show ?thesis using head by (simp add: continues_def check_ancestry_def ensure_ok opt_json_def)
  next
    case (snoc ks k)
    with vs(1) obtain ws w where w: "vs = ws @ [w]" "stored C s k w" by (auto simp: list_all2_append1 list_all2_Cons1)
    have h: "va_head row = Some (cm_id k)" using hd snoc by simp
    with head(2) obtain p where p: "find_commit (cm_vault r) (cm_id k) s = Some p"
      and q: "vc_sequence v = cm_seq p + 1" "vc_parent_hash v = JStr (cm_hash p)"
      by (auto simp: check_ancestry_def rbind_ok ensure_ok split: option.splits)
    have "p \<in> set ?h" "cm_id p = cm_id k" using find_commit_ok [OF p] by (simp_all add: history_def)
    moreover have "k \<in> set ?h" using snoc by simp
    ultimately have "p = k" using rok by (intro unique_row [of cm_id ?h]) (auto simp: vault_ok_def row(2))
    with w h head(1) q show ?thesis by (simp add: continues_def stored_def opt_json_def)
  qed
  have "vault_ok C s' x" if "x \<in> set (v_vaults s')" for x
  proof -
    from that obtain y where y: "y \<in> set (v_vaults s)"
      and x: "x = (if va_id y = cm_vault r \<and> va_head y = va_head row then y\<lparr>va_head := Some (cm_id r)\<rparr> else y)"
      by (auto simp: s' set_head_def)
    show ?thesis
    proof (cases "va_id y = cm_vault r")
      case True
      then have "y = row" using unique_row [OF inv_D(1) [OF inv] y row(1)] row(2) by simp
      with x True have x: "va_id x = cm_vault r" "va_head x = Some (cm_id r)" by simp_all
      have h: "history (cm_vault r) s' = ?h @ [r]" by (simp add: history_def s')
      have "list_all2 (stored C s') (?h @ [r]) (vs @ [v])" "commit_chain (vs @ [v])"
        using histories_mono [OF ds vs(1)] stored_mono [OF ds st] vs(2) cont by (simp_all add: list_all2_appendI)
      moreover have "cm_id r \<notin> cm_id ` set ?h" using new by (auto simp: history_def)
      moreover have "length (roots (cm_vault r) s') = 1" using rok row(2) by (simp add: vault_ok_def roots_def same)
      ultimately show ?thesis using rok row(2) unfolding vault_ok_def x h by auto
    next
      case False
      then have "history (va_id y) s' = history (va_id y) s" "x = y" by (simp_all add: history_def s' x)
      with vault_ok_cong [OF inv_D(4) [OF inv y] ds] show ?thesis by (simp add: roots_def same)
    qed
  qed
  moreover have "device_ok s' e" if "e \<in> set (v_devices s')" for e
    using that inv_D(5) [OF inv, of e] by (auto simp: same device_ok_def idset)
  moreover have "invite_ok s' i" if "i \<in> set (v_invites s')" for i
    using that inv_D(6) [OF inv, of i] by (auto simp: same invite_ok_def root_of_def)
  moreover have "distinct (map va_id (v_vaults s'))" unfolding ids by (rule inv_D(1) [OF inv])
  moreover have "\<forall>r \<in> set (v_commits s'). cm_vault r \<in> va_id ` set (v_vaults s')"
    using inv_D(7) [OF inv] row unfolding idset by (auto simp: s' intro: rev_image_eqI)
  ultimately show "sync_inv C s'" using inv unfolding sync_inv_def same by blast
  have "grows vault_le (v_vaults s) (v_vaults s')" unfolding s' set_head_def by (simp add: grows_map vault_le_def)
  then show "sync_le s s'" by (simp add: sync_le_def s' le_refls)
qed

text \<open>The remaining steps change rows of the devices and the invites, or append a row.\<close>

lemma root_is_not: "is_root d \<Longrightarrow> \<not> admitted d i"
  by (auto simp: is_root_def admitted_def)

lemma step_Revoke:
  assumes inv: "sync_inv C s" and t: "t \<in> set (v_devices s)" "dv_id t = target" "dv_approved_by t \<noteq> None" "dv_status t \<noteq> Revoked"
    and s': "s' = s\<lparr>v_devices := update_device vault target (revoke_row now who statement signature) (v_devices s)\<rparr>"
  shows "sync_inv C s' \<and> sync_le s s'"
proof (rule sync_inv_map [OF inv, where f = "\<lambda>r. if dv_vault r = vault \<and> dv_id r = target then revoke_row now who statement signature r else r"
      and g = "\<lambda>i. i"])
  fix d assume d: "d \<in> set (v_devices s)"
  have e: "d = t" if "dv_id d = target" using unique_row [OF inv_D(2) [OF inv] d t(1)] that t(2) by simp
  have "\<not> is_root t" using t(3) by (simp add: is_root_def)
  then have a: "dv_status t = Active" using inv_D(5) [OF inv t(1)] t(3,4) 
    by (cases "dv_status t") (auto simp: device_ok_def admitted_def)
  show "device_le d (if dv_vault d = vault \<and> dv_id d = target then revoke_row now who statement signature d else d)
      \<and> is_root (if dv_vault d = vault \<and> dv_id d = target then revoke_row now who statement signature d else d) = is_root d
      \<and> (is_root d \<longrightarrow> (if dv_vault d = vault \<and> dv_id d = target then revoke_row now who statement signature d else d) = d)"
    using e a t(3) by (auto simp: device_le_refl device_le_def revoke_row_def is_root_def)
  show "\<exists>i \<in> set (v_invites s). admitted (if dv_vault d = vault \<and> dv_id d = target then revoke_row now who statement signature d else d) i"
    if "\<exists>i \<in> set (v_invites s). admitted d i"
    using that e a t(3) by (auto simp: admitted_def revoke_row_def)
qed (simp_all add: s' update_device_def invite_le_refl)

lemma step_Invite:
  assumes inv: "sync_inv C s" and i: "root_of (iv_creator i) (iv_vault i) s" "iv_id i \<notin> iv_id ` set (v_invites s)" "iv_claimant i = None"
    and s': "s' = s\<lparr>v_invites := v_invites s @ [i]\<rparr>"
  shows "sync_inv C s' \<and> sync_le s s'"
proof
  have "vault_ok C s' v \<longleftrightarrow> vault_ok C s v" for v
    by (simp add: vault_ok_def history_def roots_def s' stored_def signing_key_def cong: list.rel_cong)
  moreover have "device_ok s' d" if "d \<in> set (v_devices s)" for d
    using inv_D(5) [OF inv that] by (auto simp: device_ok_def s')
  moreover have "invite_ok s' j" if "j \<in> set (v_invites s')" for j
    using that inv_D(6) [OF inv, of j] i by (auto simp: invite_ok_def root_of_def s')
  ultimately show "sync_inv C s'" using inv i(2) by (simp add: sync_inv_def s')
  show "sync_le s s'" by (simp add: sync_le_def s' le_refls grows_append)
qed

lemma update_invite_D:
  assumes "sync_inv C s" and "i \<in> set (v_invites s)" and "j \<in> set (v_invites s)" and "iv_id j = iv_id i"
  shows "j = i"
  using unique_row [OF inv_D(3) [OF assms(1)] assms(3,2,4)] .

lemma step_Expire:
  assumes inv: "sync_inv C s" and i: "i \<in> set (v_invites s)" "iv_status i = Open \<or> iv_status i = Claimed"
  shows "sync_inv C (expire_invite (iv_id i) s) \<and> sync_le s (expire_invite (iv_id i) s)"
proof (rule sync_inv_map [OF inv, where f = "\<lambda>d. d" and g = "\<lambda>r. if iv_id r = iv_id i then r\<lparr>iv_status := Expired\<rparr> else r"])
  fix j assume j: "j \<in> set (v_invites s)"
  show "invite_le j (if iv_id j = iv_id i then j\<lparr>iv_status := Expired\<rparr> else j)
     \<and> (iv_status (if iv_id j = iv_id i then j\<lparr>iv_status := Expired\<rparr> else j) = Open
          \<longrightarrow> (if iv_id j = iv_id i then j\<lparr>iv_status := Expired\<rparr> else j) = j)"
    using update_invite_D [OF inv i(1) j] i(2) by (auto simp: invite_le_def)
next
  fix d assume d: "d \<in> set (v_devices s)" "\<exists>j \<in> set (v_invites s). admitted d j"
  then obtain j where j: "j \<in> set (v_invites s)" "admitted d j" by blast
  have "admitted d (if iv_id j = iv_id i then j\<lparr>iv_status := Expired\<rparr> else j)"
    using j(2) update_invite_D [OF inv i(1) j(1)] i(2) by (auto simp: admitted_def split: if_splits)
  with j(1) show "\<exists>j \<in> set (v_invites s). admitted d (if iv_id j = iv_id i then j\<lparr>iv_status := Expired\<rparr> else j)" by blast
qed (simp_all add: expire_invite_def update_invite_def device_le_refl)

lemma step_Approve:
  assumes inv: "sync_inv C s" and i: "i \<in> set (v_invites s)" "iv_status i = Claimed" "iv_claimant i = Some c" "iv_vault i = vault"
    and s': "s' = s\<lparr>v_devices := map (\<lambda>r. if dv_id r = c \<and> dv_vault r = vault \<and> dv_status r = Pending
                       then approve_row now (iv_creator i) statement signature wrapped r else r) (v_devices s),
                   v_invites := update_invite (iv_id i) (\<lambda>r. r\<lparr>iv_status := Approved, iv_approved := Some now\<rparr>) (v_invites s)\<rparr>"
  shows "sync_inv C s' \<and> sync_le s s'"
proof -
  let ?f = "\<lambda>r. if dv_id r = c \<and> dv_vault r = vault \<and> dv_status r = Pending
                then approve_row now (iv_creator i) statement signature wrapped r else r"
  let ?g = "\<lambda>r. if iv_id r = iv_id i then r\<lparr>iv_status := Approved, iv_approved := Some now\<rparr> else r"
  show ?thesis
  proof (rule sync_inv_map [OF inv, where f = ?f and g = ?g])
    fix j assume j: "j \<in> set (v_invites s)"
    show "invite_le j (?g j) \<and> (iv_status (?g j) = Open \<longrightarrow> ?g j = j)"
      using update_invite_D [OF inv i(1) j] i(2) by (auto simp: invite_le_def)
  next
    fix d assume d: "d \<in> set (v_devices s)" "\<exists>j \<in> set (v_invites s). admitted d j"
    show "\<exists>j \<in> set (v_invites s). admitted (?f d) (?g j)"
    proof (cases "dv_id d = c \<and> dv_vault d = vault \<and> dv_status d = Pending")
      case True
      then have "admitted (?f d) (?g i)" using i by (simp add: admitted_def approve_row_def)
      with i(1) show ?thesis by blast
    next
      case False
      from d(2) obtain j where j: "j \<in> set (v_invites s)" "admitted d j" by blast
      have "iv_id j \<noteq> iv_id i"
      proof
        assume "iv_id j = iv_id i"
        with j have "admitted d i" using update_invite_D [OF inv i(1) j(1)] by simp
        with i have "dv_id d = c \<and> dv_vault d = vault \<and> dv_status d = Pending" by (cases "dv_status d") (simp_all add: admitted_def)
        with False show False ..
      qed
      then have g: "?g j = j" by (rule if_not_P)
      have f: "?f d = d" using False by (rule if_not_P)
      have "admitted (?f d) (?g j)" unfolding f g by (rule j(2))
      with j(1) show ?thesis by (rule rev_bexI)
    qed
  next
    fix d
    show "device_le d (?f d) \<and> is_root (?f d) = is_root d \<and> (is_root d \<longrightarrow> ?f d = d)"
      by (cases "dv_id d = c \<and> dv_vault d = vault \<and> dv_status d = Pending")
        (simp_all only: if_True if_False device_le_refl, simp_all add: device_le_def approve_row_def is_root_def)
  qed (simp_all add: s' update_invite_def)
qed

lemma step_Claim:
  assumes inv: "sync_inv C s" and i: "i \<in> set (v_invites s)" "iv_status i = Open"
    and d: "d = new_device device (iv_vault i) sign wrap token Pending now None" "device \<notin> dv_id ` set (v_devices s)"
    and s': "s' = s\<lparr>v_devices := v_devices s @ [d], v_invites := update_invite (iv_id i)
      (\<lambda>r. r\<lparr>iv_status := Claimed, iv_claimant := Some device, iv_claimed := Some now\<rparr>) (v_invites s)\<rparr>"
  shows "sync_inv C s' \<and> sync_le s s'"
proof -
  let ?g = "\<lambda>r. if iv_id r = iv_id i then r\<lparr>iv_status := Claimed, iv_claimant := Some device, iv_claimed := Some now\<rparr> else r"
  let ?m = "s\<lparr>v_invites := map ?g (v_invites s)\<rparr>"
  have free: "iv_claimant i = None" using inv_D(6) [OF inv i(1)] i(2) by (simp add: invite_ok_def)
  have m: "sync_inv C ?m \<and> sync_le s ?m"
  proof (rule sync_inv_map [OF inv, where f = "\<lambda>d. d" and g = ?g])
    fix j assume j: "j \<in> set (v_invites s)"
    show "invite_le j (?g j) \<and> (iv_status (?g j) = Open \<longrightarrow> ?g j = j)"
      using update_invite_D [OF inv i(1) j] i(2) free by (auto simp: invite_le_def)
  next
    fix e assume "\<exists>j \<in> set (v_invites s). admitted e j"
    then obtain j where j: "j \<in> set (v_invites s)" "admitted e j" by blast
    have "?g j = j" using j(2) update_invite_D [OF inv i(1) j(1)] free by (auto simp: admitted_def)
    with j show "\<exists>j \<in> set (v_invites s). admitted e (?g j)" by metis
  qed (simp_all add: device_le_refl)
  have s'': "s' = ?m\<lparr>v_devices := v_devices ?m @ [d]\<rparr>" by (simp add: s' update_invite_def)
  have a: "admitted d (?g i)" "\<not> is_root d" by (simp_all add: admitted_def d new_device_def is_root_def)
  have ds: "grows device_le (v_devices ?m) (v_devices s')" by (simp add: s'' grows_append device_le_refl)
  have "vault_ok C s' v" if "v \<in> set (v_vaults ?m)" for v
    by (rule vault_ok_cong [OF _ ds]) (use inv_D(4) [OF conjunct1 [OF m] that] a(2) in \<open>simp_all add: s'' history_def roots_def\<close>)
  moreover have "iv_vault i \<in> va_id ` set (v_vaults s)"
  proof -
    obtain r where "r \<in> set (v_devices s)" "dv_vault r = iv_vault i"
      using inv_D(6) [OF inv i(1)] by (auto simp: invite_ok_def root_of_def)
    with inv_D(5) [OF inv] show ?thesis by (force simp: device_ok_def)
  qed
  then have "device_ok s' d" using a(1) i(1) by (auto simp: device_ok_def s'' d new_device_def)
  moreover have "device_ok s' e" if "e \<in> set (v_devices ?m)" for e
    using inv_D(5) [OF conjunct1 [OF m] that] by (simp add: device_ok_def s'')
  moreover have "invite_ok s' j" if "j \<in> set (v_invites ?m)" for j
    using inv_D(6) [OF conjunct1 [OF m] that] by (auto simp: invite_ok_def root_of_def s'')
  ultimately have "sync_inv C s'" using m d(2) by (auto simp: sync_inv_def s'' d(1) new_device_def)
  moreover have "sync_le ?m s'" using ds by (simp add: sync_le_def s'' le_refls)
  ultimately show ?thesis using m sync_le_trans by blast
qed

theorem db_step_inv: "db_step C s s' \<Longrightarrow> sync_inv C s \<Longrightarrow> sync_inv C s' \<and> sync_le s s'"
proof (induction rule: db_step.induct)
  case (Stay s)
  then show ?case by (simp add: sync_le_refl)
next
  case (Found v s d)
  from step_Found [OF Found(6,1-5) refl] show ?case .
next
  case (Append row s r v)
  from step_Append [OF Append(8,1-3,7,5,6) refl] show ?case .
next
  case (Revoke who vault s t target now statement signature)
  from step_Revoke [OF Revoke(7,2,3,5,6) refl] show ?case .
next
  case (Invite i s)
  from step_Invite [OF Invite(5,1,2,4) refl] show ?case .
next
  case (Claim i s d device sign wrap token now)
  from step_Claim [OF Claim(5,1-4) refl] show ?case .
next
  case (Expire i s)
  from step_Expire [OF Expire(3,1,2)] show ?case .
next
  case (Approve i s c vault now statement signature wrapped)
  from step_Approve [OF Approve(6,1-4) refl] show ?case .
qed

interpretation sync: transactional "sync_step C admin lim" "sync_inv C" sync_le
  for C admin lim
  by unfold_locales (auto dest: sync_step_db db_step_inv intro: sync_le_refl sync_le_trans)

text \<open>The tables after any sequence of requests.\<close>

definition synced :: "crypto \<Rightarrow> string \<Rightarrow> limits \<Rightarrow> sync_request list \<Rightarrow> sync_db" where
  "synced C admin lim qs = run (sync_step C admin lim) qs empty_db"

lemma synced_inv: "sync_inv C (synced C admin lim qs)"
  unfolding synced_def by (rule sync.run_inv [OF sync_inv_empty])

lemma synced_le: "sync_le (synced C admin lim qs) (synced C admin lim (qs @ rs))"
  unfolding synced_def by (rule sync.run_later [OF sync_inv_empty])

lemma authenticate_device_D:
  assumes "authenticate_device C h vault allow s = Inr d"
  obtains r token where "find_device (ad_id d) s = Some r" and "bearer_token (authorization h) = Inr token" and "device_header h = Some (ad_id d)"
    and "dv_token r = raw_digest C token" and "dv_status r = Active \<or> allow \<and> dv_status r = Pending"
    and "dv_vault r = ad_vault d" and "vault = None \<or> vault = Some (ad_vault d)"
proof -
  from assms obtain x where x: "device_header h = Some x" by (cases "device_header h") (auto simp: authenticate_device_def)
  with assms obtain token where t: "bearer_token (authorization h) = Inr token" by (auto simp: authenticate_device_def rbind_ok)
  from assms x obtain r where r: "find_device x s = Some r"
    by (cases "find_device x s") (auto simp: authenticate_device_def rbind_ok)
  have "dv_token r = raw_digest C token" "dv_status r = Active \<or> allow \<and> dv_status r = Pending"
    "case vault of None \<Rightarrow> True | Some v \<Rightarrow> dv_vault r = v" "d = \<lparr>ad_id = dv_id r, ad_vault = dv_vault r, ad_status = dv_status r\<rparr>"
    using assms x t r by (auto simp: authenticate_device_def rbind_ok ensure_ok)
  with find_device_ok [OF r] r x t show ?thesis by (intro that [of r token]) (auto split: option.splits)
qed

text \<open>A revoked device is refused from then on, whatever it presents.\<close>

lemma revoked_refused:
  assumes inv: "sync_inv C t" and le: "sync_le s t" and r: "r \<in> set (v_devices s)" "dv_status r = Revoked"
    and a: "authenticate_device C h vault allow t = Inr d"
  shows "ad_id d \<noteq> dv_id r"
proof
  assume e: "ad_id d = dv_id r"
  from le r have "r \<in> set (v_devices t)" using grows_set [of device_le] by (fastforce simp: sync_le_def device_le_def)
  moreover obtain x where x: "find_device (ad_id d) t = Some x" "dv_status x = Active \<or> allow \<and> dv_status x = Pending"
    using a by (rule authenticate_device_D)
  ultimately have "x = r" using unique_row [OF inv_D(2) [OF inv]] find_device_ok [OF x(1)] e by metis
  with x(2) r(2) show False by simp
qed

text \<open>What appending a commit changes: the head of its vault, from the parent that the client expected.\<close>

lemma append_commit_effect:
  assumes "append_commit C lim now vault payload d s = Inr (s', a)"
  shows "\<exists>row r v. find_vault vault s = Some row \<and> opt_json (va_head row) = fld payload ''expected_parent_commit_id''
    \<and> stored C s r v \<and> cm_author r = ad_id d \<and> v_commits s' = v_commits s @ [r] \<and> v_devices s' = v_devices s \<and> v_invites s' = v_invites s
    \<and> map_option va_head (find_vault vault s') = Some (Some (cm_id r))
    \<and> filter (\<lambda>x. va_id x \<noteq> vault) (v_vaults s') = filter (\<lambda>x. va_id x \<noteq> vault) (v_vaults s)"
  using assms
proof (cases rule: append_commit_D)
  case (1 row k r)
  let ?f = "\<lambda>x. if va_id x = vault \<and> va_head x = va_head row then x\<lparr>va_head := Some (cm_id r)\<rparr> else x"
  have "find (\<lambda>x. va_id x = vault) xs = Some row \<Longrightarrow>
      map_option va_head (find (\<lambda>x. va_id x = vault) (map ?f xs)) = Some (Some (cm_id r))" for xs
    by (induction xs) (auto split: if_splits)
  then have "map_option va_head (find_vault vault s') = Some (Some (cm_id r))"
    using 1(1) by (simp add: find_vault_def 1(9) set_head_def)
  moreover have "filter (\<lambda>x. va_id x \<noteq> vault) (map ?f xs) = filter (\<lambda>x. va_id x \<noteq> vault) xs" for xs
    by (induction xs) auto
  then have "filter (\<lambda>x. va_id x \<noteq> vault) (v_vaults s') = filter (\<lambda>x. va_id x \<noteq> vault) (v_vaults s)"
    by (simp add: 1(9) set_head_def)
  moreover have "cm_author r = ad_id d" by (simp add: 1(4) commit_row_of_def)
  ultimately show ?thesis using 1 by (intro exI [of _ row] exI [of _ r] exI [of _ "ck_commit k"]) simp
qed

end
