(* ===== verification/Sync_Budget.thy ===== *)
theory Sync_Budget
  imports Sync_Invariants Relay_Budget
begin

text \<open>
  The storage of the vault relay over whole runs. Every request that stores something is charged,
  but for the expiry of an invite, which only rewrites its status: so the limits hold up to the
  three bytes by which \<open>expired\<close> is longer than \<open>open\<close>.
\<close>

definition expired_invites :: "sync_db \<Rightarrow> int" where
  "expired_invites s = int (length (filter (\<lambda>i. iv_status i = Expired) (v_invites s)))"

definition sync_total_ok :: "limits \<Rightarrow> sync_db \<Rightarrow> bool" where
  "sync_total_ok lim s \<longleftrightarrow>
     fst (recount None (sync_meter s)) \<le> relay_bytes lim + control_relay_bytes lim + 3 * expired_invites s
     \<and> snd (recount None (sync_meter s)) \<le> relay_records lim + control_relay_records lim"

lemma sync_total_empty: "reserves lim \<Longrightarrow> sync_total_ok lim empty_db"
  by (simp add: sync_total_ok_def recount_def scope_rows_def sync_meter_def empty_db_def expired_invites_def reserves_def)

lemma sync_budget_total: "reserves lim \<Longrightarrow> sync_budget lim v control s = Inr u \<Longrightarrow> sync_total_ok lim s"
  by (auto simp: sync_budget_def within_budget_def sync_total_ok_def over_def ensure_ok reserves_def expired_invites_def split: if_splits)

definition charged :: "limits \<Rightarrow> sync_db \<Rightarrow> sync_db \<Rightarrow> bool" where
  "charged lim s s' \<longleftrightarrow> s' = s \<or> (\<exists>i. s' = expire_invite i s) \<or> (\<exists>v control. sync_budget lim v control s' = Inr ())"

lemma refuse_charged: "refuse_expired now i s = (s', a) \<Longrightarrow> charged lim s s'"
  by (auto simp: refuse_expired_def charged_def split: if_splits)

lemma settle_charged: "settle_expiry now i s = (s', i') \<Longrightarrow> charged lim s s'"
  by (auto simp: settle_expiry_def charged_def split: if_splits)

lemma claim_charged:
  assumes "claim_invite C lim now invite payload s = Inr (s', a)"
  shows "charged lim s s'"
  using assms
proof (cases rule: claim_invite_D)
  case (1 i device sign wrap token)
  then show ?thesis
    by (auto split: if_splits invite_state.splits option.splits simp: claim_again_def claim_open_def rbind_ok Let_def charged_def
        dest: refuse_charged [unfolded charged_def])
qed

lemma approve_charged:
  assumes "approve_invite lim now vault invite payload d s = Inr (s', a)"
  shows "charged lim s s'"
proof -
  from assms obtain i wrapped statement signature where
    "(if iv_expires i \<le> now then Inr (refuse_expired now i s)
      else
        rbind (ensure (iv_status i = Claimed \<and> iv_claimant i \<noteq> None \<and> iv_claimant i \<noteq> Some []) (Status 409 ''invite_not_claimed'')) (\<lambda>_.
        rbind (ensure (iv_creator i = ad_id d) (Status 403 ''wrong_approver'')) (\<lambda>_.
        approve_claim lim now vault (ad_id d) wrapped statement signature i (the (iv_claimant i)) s))) = Inr (s', a)"
    by (auto simp: approve_invite_def rbind_ok split: option.splits)
  then show ?thesis
    by (cases "iv_expires i \<le> now") (auto simp: rbind_ok approve_claim_def Let_def charged_def dest: refuse_charged [unfolded charged_def])
qed

lemma sync_step_charged:
  assumes "sync_step C admin lim q s = Inr (s', a)"
  shows "charged lim s s'"
proof (cases q)
  case (CreateVault v d now h p)
  with assms show ?thesis by (auto simp: answered_ok create_vault_def rbind_ok Let_def charged_def)
next
  case (AppendCommit now v h p)
  with assms show ?thesis
    by (auto simp: answered_ok append_commit_def append_checked_def rbind_ok Let_def charged_def split: option.splits)
next
  case (RevokeDevice now v t h p)
  with assms show ?thesis by (auto simp: answered_ok revoke_device_def rbind_ok Let_def charged_def split: option.splits)
next
  case (CreateInvite i now v h p)
  with assms show ?thesis by (auto simp: answered_ok create_invite_def rbind_ok Let_def charged_def)
next
  case (InspectInvite now v i h)
  with assms show ?thesis
    by (auto simp: answered_ok inspect_invite_def rbind_ok intro: settle_charged split: option.splits prod.splits)
next
  case (InviteStatus now i h)
  with assms obtain d r where "invite_status now i d s = Inr (s', r)" by (auto simp: rbind_ok answered_ok)
  then obtain x x' where "settle_expiry now x s = (s', x')"
    by (auto simp: invite_status_def rbind_ok Let_def split: option.splits prod.splits)
  then show ?thesis by (rule settle_charged)
qed (use assms in \<open>auto simp: rbind_ok intro: claim_charged approve_charged\<close>)

text \<open>An expiry adds no row, and at most three bytes for each invite that it turns expired.\<close>

lemma expire_total:
  assumes "sync_total_ok lim s"
  shows "sync_total_ok lim (expire_invite i s)"
proof -
  let ?size = "\<lambda>r. row_size [Some (iv_id r), Some (iv_secret r), Some (invite_status_text (iv_status r)), Some (iv_creator r), iv_claimant r]"
  let ?g = "\<lambda>r. if iv_id r = i then r\<lparr>iv_status := Expired\<rparr> else r"
  let ?e = "\<lambda>xs. int (length (filter (\<lambda>r. iv_status r = Expired) xs))"
  have row: "?size (?g r) + (if iv_status r = Expired then 3 else 0) \<le> ?size r + (if iv_status (?g r) = Expired then 3 else 0)" for r
    by (cases "iv_status r") (auto simp: row_size_def column_bytes_def len_length)
  have "(\<Sum>r\<leftarrow>map ?g xs. ?size r) + 3 * ?e xs \<le> (\<Sum>r\<leftarrow>xs. ?size r) + 3 * ?e (map ?g xs)" for xs
  proof (induction xs)
    case (Cons r xs)
    with row [of r] show ?case by (auto split: if_splits)
  qed simp
  from this [of "v_invites s"] assms show ?thesis
    by (simp add: sync_total_ok_def recount_def scope_rows_def sync_meter_def expire_invite_def update_invite_def
        expired_invites_def len_length comp_def)
qed

interpretation sync_storage: transactional "sync_step C admin lim" "\<lambda>s. reserves lim \<longrightarrow> sync_total_ok lim s" "\<lambda>_ _. True"
  for C admin lim
  by unfold_locales (auto simp: charged_def dest!: sync_step_charged dest: sync_budget_total intro: expire_total)

lemma synced_budget: "reserves lim \<Longrightarrow> sync_total_ok lim (synced C admin lim qs)"
  unfolding synced_def using sync_storage.run_inv [of lim empty_db C admin qs] sync_total_empty by blast

end
