(* ===== verification/Commit_Total.thy ===== *)
theory Commit_Total
  imports Commit_Proofs
begin

text \<open>
  When the builders of the sync protocol succeed. Sealing, signing and wrapping return, and their
  results are read back, exactly on inputs of the right form: no valid input is refused by a size
  limit of the encoded envelope, and none is written that the reader would refuse.
\<close>

section \<open>Values that the protocol can write\<close>

lemma value_ok_strs: "(\<And>k v. (k, v) \<in> set m \<Longrightarrow> \<exists>s. v = JStr s) \<Longrightarrow> d \<le> 64 \<Longrightarrow> value_ok_members m d"
  unfolding value_ok_all by force

lemma value_ok_flat: "(\<And>k v. (k, v) \<in> set m \<Longrightarrow> \<exists>s. v = JStr s) \<Longrightarrow> value_ok (JObj m) 0"
  using value_ok_strs [of m 1] by simp

lemma value_ok_envelope: "value_ok (snapshot_envelope v s n c) 0"
  unfolding snapshot_envelope_def by (rule value_ok_flat) auto

lemma snapshot_aad_total: "\<exists>b. snapshot_aad vault = Inr b"
  by (simp add: snapshot_aad_def rbind_ok canonical_json_ok)

lemma value_ok_wrap: "(\<And>k v. (k, v) \<in> set md \<Longrightarrow> \<exists>s. v = JStr s) \<Longrightarrow> value_ok (wrap_envelope md s n w) 0"
  unfolding wrap_envelope_def by (rule value_ok_flat) auto

section \<open>Snapshots\<close>

lemma width_envelope:
  assumes "sync_id_pattern vault" and "length salt = 16" and "length nonce = 12" and "len c \<le> MAX_SNAPSHOT_PLAINTEXT + 16"
  shows "width (snapshot_envelope vault salt nonce c) \<le> MAX_SNAPSHOT_BLOB"
proof -
  have "len (quote (b64 salt)) = 24" "len (quote (b64 nonce)) = 18"
    using assms by (simp_all add: len_quote_plain plain_b64) (simp_all add: len_length length_b64)
  moreover have "len (quote (b64 c)) \<le> (4 * len c + 2) div 3 + 2"
    by (simp add: len_quote_plain plain_b64) (simp add: len_length length_b64 zdiv_int)
  moreover have "len (quote vault) \<le> 130" using sync_id_plain [OF assms(1)] by (simp add: len_quote_plain)
  moreover have "len (quote KK2) = 5" "len (quote SNAPSHOT_PROFILE) \<le> 100"
    using names_plain by (simp_all add: len_quote_plain) (simp_all add: KK2_def SNAPSHOT_PROFILE_def)
  ultimately show ?thesis using assms(4) by (simp add: snapshot_envelope_def len_quote_plain names_plain)
qed

theorem seal_open_iff:
  assumes C: "crypto_ok C" and n: "length salt = 16" "length nonce = 12"
  shows "(\<exists>blob. seal_vault_snapshot C salt nonce p k vault = Inr blob \<and> open_vault_snapshot C blob k vault = Inr p)
     \<longleftrightarrow> len p \<le> MAX_SNAPSHOT_PLAINTEXT \<and> len k = 32 \<and> sync_id_pattern vault"
proof
  assume ok: "len p \<le> MAX_SNAPSHOT_PLAINTEXT \<and> len k = 32 \<and> sync_id_pattern vault"
  obtain aad where aad: "snapshot_aad vault = Inr aad" using snapshot_aad_total by blast
  define c where "c = aead_encrypt C (hkdf32 C salt (domain ''snapshot-key'' @ aad) k) nonce p aad"
  have "len c = len p + 16" using C by (simp add: crypto_ok_def c_def len_length)
  with ok width_envelope [of vault salt nonce c] n
  have "len (canonical_text (snapshot_envelope vault salt nonce c)) \<le> MAX_SNAPSHOT_BLOB"
    using len_canonical [of "snapshot_envelope vault salt nonce c"] by simp
  then have "seal_vault_snapshot C salt nonce p k vault = Inr (canonical_text (snapshot_envelope vault salt nonce c))"
    using ok aad value_ok_envelope
    by (simp add: seal_vault_snapshot_def require_length_def validate_id_def Let_def canonical_json_def c_def [symmetric])
  with open_seal_snapshot [OF C n this]
  show "\<exists>blob. seal_vault_snapshot C salt nonce p k vault = Inr blob \<and> open_vault_snapshot C blob k vault = Inr p" by blast
qed (auto simp: seal_vault_snapshot_def rbind_ok ensure_ok require_ok validate_id_ok Let_def)

section \<open>Commits\<close>

lemma value_ok_manifest:
  assumes "validate_manifest (build_manifest C b v q p h a t) = Inr ()"
  shows "value_ok (build_manifest C b v q p h a t) 0" and "value_ok (build_manifest C b v q p h a t) 1"
proof -
  have "1 \<le> q \<and> q < two63" using assms [unfolded validate_manifest_ok] by auto
  moreover have "value_ok (opt_text x) d \<longleftrightarrow> d \<le> 64" for x d by (simp add: opt_text_def split: option.split)
  ultimately show "value_ok (build_manifest C b v q p h a t) 0" "value_ok (build_manifest C b v q p h a t) 1"
    by (simp_all add: build_manifest_def)
qed

theorem build_verify_iff:
  assumes C: "crypto_ok C"
  shows "(\<exists>blob v. build_signed_commit C snapshot vault q p h author k t = Inr blob
      \<and> verify_commit_signature C blob (ed_public C k) (Some snapshot) (Some vault) (Some author) = Inr v
      \<and> vc_sequence v = q \<and> vc_parent v = opt_text p \<and> vc_parent_hash v = opt_text h \<and> vc_timestamp v = t)
    \<longleftrightarrow> (\<exists>e salt nonce c. parse_vault_snapshot snapshot = Inr (e, salt, nonce, c) \<and> fld e ''vault_id'' = JStr vault)
      \<and> validate_manifest (build_manifest C snapshot vault q p h author t) = Inr () \<and> len k = 32"
    (is "?L \<longleftrightarrow> ?R")
proof
  assume ?L
  then obtain blob where "build_signed_commit C snapshot vault q p h author k t = Inr blob" by blast
  then obtain e salt nonce c where "parse_vault_snapshot snapshot = Inr (e, salt, nonce, c)" "fld e ''vault_id'' = JStr vault"
    and "validate_manifest (build_manifest C snapshot vault q p h author t) = Inr ()" "len k = 32"
    by (auto simp: build_signed_commit_def rbind_ok ensure_ok ok_simps Let_def)
  then show ?R by blast
next
  define m where "m = build_manifest C snapshot vault q p h author t"
  assume r: ?R
  then have m: "validate_manifest m = Inr ()" by (simp add: m_def)
  have ids: "sync_id_pattern vault" "sync_id_pattern author" using m by (auto simp: validate_manifest_ok m_def)
  have v: "value_ok m 0" "value_ok m 1" using value_ok_manifest m by (simp_all add: m_def)
  define sg where "sg = b64 (ed_sign C k (domain ''commit-signature'' @ canonical_text m))"
  have o: "value_ok (JObj [(''manifest'', m), (''signature'', JStr sg)]) 0"
    "value_ok (JObj [(''commit_id'', JStr cid), (''manifest'', m), (''signature'', JStr sg)]) 0" for cid using v(2) by simp_all
  from r obtain e salt nonce c where e: "parse_vault_snapshot snapshot = Inr (e, salt, nonce, c)" "fld e ''vault_id'' = JStr vault" by blast
  have "\<exists>blob. build_signed_commit C snapshot vault q p h author k t = Inr blob"
    using e ids m v(1) o r
    by (auto simp: build_signed_commit_def validate_id_def require_length_def commit_id_of_def canonical_json_def Let_def
        m_def [symmetric] sg_def [symmetric])
  with verify_built_commit [OF C] show ?L by blast
qed

section \<open>Wrapped keys\<close>

theorem wrap_unwrap_device_iff:
  assumes C: "crypto_ok C" and z: "length salt = 16" "length nonce = 12" "length eph = 32" "length dk = 32"
  shows "(\<exists>blob. wrap_vault_key_for_recipient C eph salt nonce key (x_public C dk) vault dev context = Inr blob
      \<and> unwrap_vault_key_for_recipient C blob dk vault dev context = Inr key)
    \<longleftrightarrow> len key = 32 \<and> sync_id_pattern vault \<and> sync_id_pattern dev \<and> context \<noteq> [] \<and> len context \<le> MAX_CONTEXT
      \<and> x_exchange C eph (x_public C dk) \<noteq> None" (is "?L \<longleftrightarrow> ?R")
proof
  assume ?R
  moreover have "value_ok (JObj (device_wrap_metadata vault dev x y)) 0" for x y
    unfolding device_wrap_metadata_def by (rule value_ok_flat) auto
  moreover have "value_ok (wrap_envelope (device_wrap_metadata vault dev x y) s n w) 0" for x y s n w
    by (rule value_ok_wrap) (auto simp: device_wrap_metadata_def)
  moreover have "len (x_public C dk) = 32" using C z by (simp add: crypto_ok_def len_length)
  ultimately have "\<exists>blob. wrap_vault_key_for_recipient C eph salt nonce key (x_public C dk) vault dev context = Inr blob"
    by (auto simp: wrap_vault_key_for_recipient_def require_length_def validate_id_def validate_context_def canonical_json_def Let_def)
  with unwrap_wrap_device [OF C z] show ?L by blast
qed (auto simp: wrap_vault_key_for_recipient_def rbind_ok ensure_ok ok_simps validate_context_def Let_def split: option.splits)

theorem wrap_unwrap_recovery_iff:
  assumes C: "crypto_ok C" and z: "length salt = 16" "length nonce = 12"
  shows "(\<exists>blob. wrap_vault_key_for_recovery C salt nonce key secret vault = Inr blob
      \<and> unwrap_vault_key_for_recovery C blob secret vault = Inr key)
    \<longleftrightarrow> len key = 32 \<and> len secret = 32 \<and> sync_id_pattern vault" (is "?L \<longleftrightarrow> ?R")
proof
  assume ?R
  moreover have "value_ok (JObj (recovery_metadata vault)) 0"
    unfolding recovery_metadata_def by (rule value_ok_flat) auto
  moreover have "value_ok (wrap_envelope (recovery_metadata vault) s n w) 0" for s n w
    by (rule value_ok_wrap) (auto simp: recovery_metadata_def)
  ultimately have "\<exists>blob. wrap_vault_key_for_recovery C salt nonce key secret vault = Inr blob"
    by (auto simp: wrap_vault_key_for_recovery_def require_length_def validate_id_def canonical_json_def Let_def)
  with unwrap_wrap_recovery [OF C z] show ?L by blast
qed (auto simp: wrap_vault_key_for_recovery_def rbind_ok ensure_ok ok_simps Let_def)

end
