(* ===== verification/Enrollment.thy ===== *)
theory Enrollment
  imports Record_Soundness Text_Checks
begin

text \<open>
  Enrollment of a recipient (\<open>project_protocol.py\<close>): the master's signed invitation, the device's
  signed request, and the master's signed answer, which binds a fresh grant, a snapshot and a
  wrapped scope key to that request.
\<close>

section \<open>Endpoints\<close>

text \<open>
  What \<open>urlsplit\<close> and \<open>ipaddress\<close> of the Python installation make of a text. \<open>split_url\<close> is \<open>None\<close> when
  the split or the access to the host raises \<open>ValueError\<close>, and the outer option of the port when
  the access to the port does. \<open>ip_loopback\<close> is \<open>None\<close> when the text is no address.
\<close>

record url =
  u_scheme :: string
  u_hostname :: "string option"
  u_port :: "int option option"
  u_username :: "string option"
  u_password :: "string option"
  u_query :: string
  u_fragment :: string

record url_library =
  split_url :: "string \<Rightarrow> url option"
  ip_loopback :: "string \<Rightarrow> bool option"
  lower_text :: "string \<Rightarrow> string"

definition ends_with :: "string \<Rightarrow> string \<Rightarrow> bool" where
  "ends_with e s = (length e \<le> length s \<and> drop (length s - length e) s = e)"

definition rstrip_dots :: "string \<Rightarrow> string" where
  "rstrip_dots s = rev (dropWhile (\<lambda>c. c = CHR ''.'') (rev s))"

definition endpoint_text :: "string \<Rightarrow> bool" where
  "endpoint_text s = (s \<noteq> [] \<and> pylen s \<le> 2048
     \<and> \<not> (\<exists>n \<in> set (code_points s). white n \<or> n < 32 \<or> n = 92))"

definition is_loopback :: "url_library \<Rightarrow> string \<Rightarrow> bool" where
  "is_loopback L hostname =
     (let host = lower_text L (rstrip_dots hostname) in
      case ip_loopback L host of Some b \<Rightarrow> b | None \<Rightarrow> host = ''localhost'' \<or> ends_with ''.localhost'' host)"

definition check_endpoint :: "url_library \<Rightarrow> json \<Rightarrow> perr + unit" where
  "check_endpoint L value =
     (case value of
        JStr s \<Rightarrow>
          rbind (ensure (endpoint_text s) ValidationError) (\<lambda>_.
          (case split_url L s of
             None \<Rightarrow> Inl ValidationError
           | Some u \<Rightarrow>
               (case (u_port u, u_hostname u) of
                  (None, _) \<Rightarrow> Inl ValidationError
                | (_, None) \<Rightarrow> Inl ValidationError
                | (Some port, Some host) \<Rightarrow>
                    rbind (ensure ((u_scheme u = ''http'' \<or> u_scheme u = ''https'') \<and> host \<noteq> [] \<and> u_username u = None
                             \<and> u_password u = None \<and> u_query u = [] \<and> u_fragment u = []) ValidationError) (\<lambda>_.
                    rbind (ensure (case port of None \<Rightarrow> True | Some p \<Rightarrow> 1 \<le> p \<and> p \<le> 65535) ValidationError) (\<lambda>_.
                    ensure (u_scheme u = ''http'' \<longrightarrow> is_loopback L host) ValidationError)))))
      | _ \<Rightarrow> Inl ValidationError)"

section \<open>Invitations\<close>

definition verify_invitation :: "crypto \<Rightarrow> url_library \<Rightarrow> json \<Rightarrow> json \<Rightarrow> string \<Rightarrow> json \<Rightarrow> perr + json" where
  "verify_invitation C L r policy pin now =
     rbind (verify_any_policy C policy pin) (\<lambda>p.
     rbind (verify_record C MAX_CONTROL_SIZE r ''invitation'' pin) (\<lambda>body.
     rbind (check_fields (CONTEXT_FIELDS @ [''invite_id'', ''expires_at'', ''endpoint'']) body) (\<lambda>_.
     rbind (check_context C body policy p) (\<lambda>_.
     rbind (check_id (fld body ''invite_id'')) (\<lambda>_.
     rbind (check_uint 1 (fld body ''expires_at'')) (\<lambda>_.
     rbind (check_uint 0 now) (\<lambda>_.
     rbind (check_endpoint L (fld body ''endpoint'')) (\<lambda>_.
     rbind (ensure (\<not> int_of (fld body ''expires_at'') \<le> int_of now) ReplayError) (\<lambda>_.
     Inr body)))))))))"

definition build_invitation ::
  "crypto \<Rightarrow> url_library \<Rightarrow> json \<Rightarrow> string \<Rightarrow> string \<Rightarrow> json \<Rightarrow> json \<Rightarrow> json \<Rightarrow> perr + json" where
  "build_invitation C L policy pin master_private invite_id expires_at endpoint =
     rbind (verify_any_policy C policy pin) (\<lambda>p.
     rbind (require_master C master_private pin) (\<lambda>_.
     rbind (check_id invite_id) (\<lambda>_.
     rbind (check_uint 1 expires_at) (\<lambda>_.
     rbind (check_endpoint L endpoint) (\<lambda>_.
     rbind (policy_context C policy p) (\<lambda>ctx.
     sign_record C ''invitation''
       (JObj (ctx @ [(''invite_id'', invite_id), (''expires_at'', expires_at), (''endpoint'', endpoint)])) master_private))))))"

section \<open>Requests\<close>

abbreviation ENROLLMENT_REQUEST_FIELDS :: "string list" where
  "ENROLLMENT_REQUEST_FIELDS \<equiv> CONTEXT_FIELDS @ [''invitation_hash'', ''request_id'', ''device_id'', ''signing_public_key'',
     ''agreement_public_key'', ''token_hash'', ''role'', ''challenge'']"

text \<open>
  The hash of a record is that of its parsed copy (\<open>submission_hash\<close>). A parsed record that is no object
  is refused here by the check of its fields; the code's \<open>candidate.get\<close> raises \<open>AttributeError\<close>.
\<close>

definition verify_enrollment_request ::
  "crypto \<Rightarrow> url_library \<Rightarrow> json \<Rightarrow> json \<Rightarrow> json \<Rightarrow> string \<Rightarrow> json \<Rightarrow> perr + json" where
  "verify_enrollment_request C L r invitation source_policy pin now =
     rbind (verify_any_policy C source_policy pin) (\<lambda>source.
     rbind (verify_invitation C L invitation source_policy pin now) (\<lambda>_.
     rbind (parse_record MAX_CONTROL_SIZE r) (\<lambda>candidate.
     rbind (check_fields ENROLLMENT_REQUEST_FIELDS (fld candidate ''payload'')) (\<lambda>_.
     rbind (decode_key (fld (fld candidate ''payload'') ''signing_public_key'')) (\<lambda>pub.
     rbind (verify_record C MAX_CONTROL_SIZE candidate ''enrollment-request'' pub) (\<lambda>body.
     rbind (check_context C body source_policy source) (\<lambda>_.
     rbind (submission_hash C invitation) (\<lambda>h.
     rbind (ensure (fld body ''invitation_hash'' = JStr h) AuthenticationError) (\<lambda>_.
     rbind (check_id (fld body ''device_id'')) (\<lambda>_.
     rbind (check_id (fld body ''request_id'')) (\<lambda>_.
     rbind (decode_key (fld body ''agreement_public_key'')) (\<lambda>_.
     rbind (decode_key (fld body ''challenge'')) (\<lambda>_.
     rbind (check_hash False (fld body ''token_hash'')) (\<lambda>_.
     rbind (ensure (fld body ''role'' = JStr ''reader'' \<or> fld body ''role'' = JStr ''contributor'') ValidationError) (\<lambda>_.
     rbind (ensure (\<not> (fld body ''device_id'' = fld source ''master_device_id''
                     \<or> fld body ''signing_public_key'' = fld source ''master_public_key'')) AuthorizationError) (\<lambda>_.
     rbind (ensure (\<not> (fld body ''agreement_public_key'' = fld source ''inbox_public_key''
                     \<or> fld body ''token_hash'' = fld source ''master_token_hash'')) AuthorizationError) (\<lambda>_.
     Inr body)))))))))))))))))"

definition build_enrollment_request ::
  "crypto \<Rightarrow> url_library \<Rightarrow> json \<Rightarrow> json \<Rightarrow> string \<Rightarrow> string \<Rightarrow> json \<Rightarrow> string \<Rightarrow> json \<Rightarrow> json \<Rightarrow> json \<Rightarrow> string \<Rightarrow> json \<Rightarrow> perr + json" where
  "build_enrollment_request C L invitation source_policy pin device_private device_id agreement_public token_hash role
       request_id challenge now =
     rbind (verify_any_policy C source_policy pin) (\<lambda>source.
     rbind (verify_invitation C L invitation source_policy pin now) (\<lambda>_.
     rbind (policy_context C source_policy source) (\<lambda>ctx.
     rbind (submission_hash C invitation) (\<lambda>h.
     rbind (rbind (signing_public_key C device_private) encode_key) (\<lambda>signing.
     rbind (encode_key agreement_public) (\<lambda>agreement.
     rbind (encode_key challenge) (\<lambda>ch.
     rbind (sign_record C ''enrollment-request''
       (JObj (ctx @ [(''invitation_hash'', JStr h), (''request_id'', request_id), (''device_id'', device_id),
          (''signing_public_key'', JStr signing), (''agreement_public_key'', JStr agreement), (''token_hash'', token_hash),
          (''role'', role), (''challenge'', JStr ch)])) device_private) (\<lambda>r.
     rbind (verify_enrollment_request C L r invitation source_policy pin now) (\<lambda>_. Inr r)))))))))"

section \<open>Answers\<close>

text \<open>The members of \<open>context\<close> in \<open>_enrollment_answer_context\<close>.\<close>

definition enrollment_answer_context ::
  "crypto \<Rightarrow> url_library \<Rightarrow> json \<Rightarrow> json \<Rightarrow> json \<Rightarrow> json \<Rightarrow> string \<Rightarrow> json \<Rightarrow> json \<Rightarrow> json \<Rightarrow> perr + (string \<times> json) list" where
  "enrollment_answer_context C L request invitation source_policy current_policy pin snapshot wrap now =
     rbind (verify_enrollment_request C L request invitation source_policy pin now) (\<lambda>requested.
     rbind (verify_any_policy C source_policy pin) (\<lambda>source.
     rbind (verify_policy C current_policy pin (fld source ''scope_id'') (fld source ''vault_id'')
              (JInt (int_of (fld source ''version'') + 1)) (JInt (int_of (fld source ''epoch'') + 1))) (\<lambda>current.
     rbind (authorize_grant current (fld requested ''device_id'') ''read'' JNull JNull) (\<lambda>grant.
     rbind (ensure (\<not> (\<exists>k \<in> set [''signing_public_key'', ''agreement_public_key'', ''token_hash'', ''role''].
              fld grant k \<noteq> fld requested k)) AuthorizationError) (\<lambda>_.
     rbind (ensure (\<not> (\<exists>g \<in> set (grants_of source). fld g ''grant_id'' = fld grant ''grant_id'')) AuthorizationError) (\<lambda>_.
     rbind (verify_snapshot C snapshot current_policy pin (JInt 0) JNull) (\<lambda>publication.
     rbind (verify_scope_key_wrap C wrap current_policy pin JNull (fld requested ''device_id'')) (\<lambda>_.
     rbind (policy_context C current_policy current) (\<lambda>ctx.
     rbind (submission_hash C request) (\<lambda>rh.
     rbind (submission_hash C invitation) (\<lambda>ih.
     rbind (submission_hash C snapshot) (\<lambda>sh.
     rbind (submission_hash C wrap) (\<lambda>wh.
     Inr (ctx @ [(''request_hash'', JStr rh), (''invitation_hash'', JStr ih), (''challenge'', fld requested ''challenge''),
        (''device_id'', fld requested ''device_id''), (''grant_id'', fld grant ''grant_id''), (''generation'', fld grant ''generation''),
        (''snapshot_hash'', JStr sh), (''sequence'', fld publication ''sequence''), (''wrap_hash'', JStr wh)]))))))))))))))"

definition build_enrollment_answer ::
  "crypto \<Rightarrow> url_library \<Rightarrow> json \<Rightarrow> json \<Rightarrow> json \<Rightarrow> json \<Rightarrow> string \<Rightarrow> string \<Rightarrow> json \<Rightarrow> json \<Rightarrow> json \<Rightarrow> json \<Rightarrow> perr + json" where
  "build_enrollment_answer C L request invitation source_policy current_policy pin master_private snapshot wrap now expires_at =
     rbind (require_master C master_private pin) (\<lambda>_.
     rbind (check_uint 1 expires_at) (\<lambda>_.
     rbind (check_uint 0 now) (\<lambda>_.
     rbind (ensure (\<not> int_of expires_at \<le> int_of now) ReplayError) (\<lambda>_.
     rbind (enrollment_answer_context C L request invitation source_policy current_policy pin snapshot wrap now) (\<lambda>context.
     rbind (verify_invitation C L invitation source_policy pin now) (\<lambda>invited.
     sign_record C ''enrollment-answer''
       (JObj (context @ [(''expires_at'', JInt (min (int_of expires_at) (int_of (fld invited ''expires_at''))))])) master_private))))))"

definition verify_enrollment_answer ::
  "crypto \<Rightarrow> url_library \<Rightarrow> json \<Rightarrow> json \<Rightarrow> json \<Rightarrow> json \<Rightarrow> json \<Rightarrow> string \<Rightarrow> json \<Rightarrow> json \<Rightarrow> json \<Rightarrow> perr + json" where
  "verify_enrollment_answer C L answer request invitation source_policy current_policy pin snapshot wrap now =
     rbind (enrollment_answer_context C L request invitation source_policy current_policy pin snapshot wrap now) (\<lambda>context.
     rbind (verify_record C MAX_CONTROL_SIZE answer ''enrollment-answer'' pin) (\<lambda>body.
     rbind (check_fields (map fst context @ [''expires_at'']) body) (\<lambda>_.
     rbind (ensure (\<not> (\<exists>(k, v) \<in> set context. \<not> py_eq (fld body k) v)) AuthenticationError) (\<lambda>_.
     rbind (check_uint 1 (fld body ''expires_at'')) (\<lambda>_.
     rbind (verify_invitation C L invitation source_policy pin now) (\<lambda>invited.
     rbind (ensure (\<not> (int_of (fld body ''expires_at'') \<le> int_of now
                     \<or> int_of (fld body ''expires_at'') > int_of (fld invited ''expires_at''))) ReplayError) (\<lambda>_.
     Inr body)))))))"

end
