(* ===== verification/Signed_Roundtrips.thy ===== *)
theory Signed_Roundtrips
  imports Record_Soundness
begin

text \<open>
  Records without a sealed box, from their builder to their reader: a signed record of scalars
  verifies with the members that were signed, and a revocation the master builds verifies.
\<close>

lemma verify_plain_record:
  assumes C: "crypto_ok C" and m: "leaves 66 m" "len m \<le> 24" "distinct (map fst m)"
    and kind: "plain kind" "len kind \<le> 30" and n: "3000 \<le> n" "n \<le> MAX_RECORD_SIZE"
    and r: "sign_record C kind (JObj m) k = Inr r"
  shows "verify_record C n r kind (ed_public C k) = Inr (sort_members (JObj m))"
    and "wf_json (JObj m)"
proof -
  note b = leaves_bounds [OF m(1)]
  show wf: "wf_json (JObj m)" using b(4) m(3) by simp
  have p: "plain ''profile''" "plain ''kind''" "plain ''payload''" "plain ''signature''" "plain PROFILE"
    by (simp_all add: plain_def byte_def)
  have t: "text_json (JObj m)" using b(3) by simp
  have "length (ed_sign C k x) = 64" for x using C by (simp add: crypto_ok_def)
  then have sg: "len (quote (b64 (ed_sign C k x))) = 88" for x
    using len_quote_plain [OF plain_b64, of "ed_sign C k x"] by (simp add: len_length length_b64)
  have q: "len (quote kind) \<le> 32" using kind by (simp add: len_quote_plain)
  have W: "width_members m \<le> 2400" using b(1) m(2) by simp
  have f: "fits n r"
    using W b(2) b(5) m(2) q sg n(1) r
    by (intro fitsI) (simp_all add: sign_record_ok signed_def record_body_def len_quote_plain p)
  show "verify_record C n r kind (ed_public C k) = Inr (sort_members (JObj m))"
    by (rule sign_verify [OF C r _ wf t plain_text [OF kind(1)]]) (use n f in simp_all)
qed

lemma plain_exchange:
  assumes C: "crypto_ok C" and wf: "wf_policy p" and h: "policy_hash_of C policy = Some h"
    and w: "leaves 66 w" "len w \<le> 12" "distinct (map fst w)" "fst ` set w \<inter> set CONTEXT_FIELDS = {}"
    and kind: "plain kind" "len kind \<le> 30" and n: "3000 \<le> n" "n \<le> MAX_RECORD_SIZE"
    and r: "sign_record C kind (JObj (context_of p h @ w)) k = Inr r"
  obtains body where "verify_record C n r kind (ed_public C k) = Inr body" and "in_context C body policy p"
    and "\<And>f x. (f, x) \<in> set (context_of p h @ w) \<Longrightarrow> fld body f = x"
    and "\<And>ks. exact_keys ks body \<longleftrightarrow> set CONTEXT_FIELDS \<union> fst ` set w = set ks"
proof -
  define m where "m = context_of p h @ w"
  note cx = wf_context_of [OF wf, of h]
  have m: "leaves 66 m" "len m \<le> 24" "distinct (map fst m)"
    using context_leaves [OF wf policy_hash_sha [OF C h]] w cx(2,3) by (auto simp: m_def context_of_def)
  note vr = verify_plain_record [OF C m kind n r [folded m_def]]
  define body where "body = sort_members (JObj m)"
  have fb: "fld body f = sort_members (fld (JObj m) f)" for f unfolding body_def by (rule fld_sort_members [OF vr(2)])
  have ctx: "in_context C body policy p" by (rule in_context_built [OF wf h]) (simp add: fb m_def)
  have fw: "fld body f = x" if "(f, x) \<in> set m" for f x
  proof -
    have "leaf 66 x" using that m(1) by (auto simp: leaves_def)
    moreover have "fld (JObj m) f = x" using that m(3) by (simp add: fld_def)
    ultimately show ?thesis by (simp add: fb leaf_def)
  qed
  have ek: "exact_keys ks body \<longleftrightarrow> set CONTEXT_FIELDS \<union> fst ` set w = set ks" for ks
    unfolding body_def exact_keys_sort unfolding m_def exact_keys_def using cx(2) by (simp add: image_Un)
  show ?thesis by (rule that [OF vr(1) [folded body_def] ctx fw [unfolded m_def] ek])
qed

section \<open>Revocations\<close>

theorem verify_build_revocation:
  assumes C: "crypto_ok C" and b: "build_revocation C policy pin mk dev = Inr r"
  shows "\<exists>body. verify_revocation C r policy pin = Inr body \<and> fld body ''device_id'' = dev"
proof -
  from b obtain p g h where p: "verify_any_policy C policy pin = Inr p" and k: "ed_public C mk = pin"
    and a: "authorize_grant p dev ''read'' JNull JNull = Inr g" and h: "policy_hash_of C policy = Some h"
    and r: "sign_record C ''revocation'' (JObj (context_of p h @ [(''device_id'', dev), (''grant_id'', fld g ''grant_id''),
              (''generation'', fld g ''generation'')])) mk = Inr r"
    by (auto simp: build_revocation_def rbind_ok policy_context_ok require_master_ok)
  note wf = authorized_grant(1) [OF a] and g = wf_grantD(2,4) [OF authorized_grant(2) [OF a]]
  define w where "w = [(''device_id'', dev), (''grant_id'', fld g ''grant_id''), (''generation'', fld g ''generation'')]"
  have w: "leaves 66 w" "len w \<le> 12" "distinct (map fst w)" "fst ` set w \<inter> set CONTEXT_FIELDS = {}"
    using g authorized_grant(3) [OF a] leaf_uint [of 1] by (simp_all add: w_def literal_names leaf_id)
  obtain body where v: "verify_record C MAX_CONTROL_SIZE r ''revocation'' (ed_public C mk) = Inr body"
    and ctx: "in_context C body policy p" and f: "\<And>f x. (f, x) \<in> set (context_of p h @ w) \<Longrightarrow> fld body f = x"
    and ek: "\<And>ks. exact_keys ks body \<longleftrightarrow> set CONTEXT_FIELDS \<union> fst ` set w = set ks"
    by (rule plain_exchange [OF C wf h w _ _ _ _ r [folded w_def], of MAX_CONTROL_SIZE]) (simp_all add: literal_names)
  have fs: "fld body ''device_id'' = dev" "fld body ''grant_id'' = fld g ''grant_id''" "fld body ''generation'' = fld g ''generation''"
    by (rule f; simp add: w_def)+
  have a': "authorize_grant p dev ''read'' (fld g ''grant_id'') (fld g ''generation'') = Inr g"
    using a g by (simp add: authorize_grant_ok)
  have "exact_keys (CONTEXT_FIELDS @ [''device_id'', ''grant_id'', ''generation'']) body"
    unfolding ek by (auto simp: w_def)
  then show ?thesis
    using p v ctx g by (auto simp: verify_revocation_def rbind_ok k fs a' check_fields_ok check_context_ok [OF wf] check_is)
qed

end
