(* ===== verification/Enrollment_Proofs.thy ===== *)
theory Enrollment_Proofs
  imports Enrollment Signed_Roundtrips
begin

text \<open>
  What an accepted invitation, request and answer establish, and that the answer the master
  builds is the one that the device accepts.
\<close>

section \<open>Invitations\<close>

lemma verify_invitation_D:
  assumes "verify_invitation C L r policy pin now = Inr body"
  shows "\<exists>p. verify_any_policy C policy pin = Inr p \<and> signed_by C ''invitation'' pin body \<and> in_context C body policy p
    \<and> check_endpoint L (fld body ''endpoint'') = Inr () \<and> is_uint 0 now \<and> int_of now < int_of (fld body ''expires_at'')"
proof -
  from assms obtain p where p: "verify_any_policy C policy pin = Inr p"
    and v: "verify_record C MAX_CONTROL_SIZE r ''invitation'' pin = Inr body" and cc: "check_context C body policy p = Inr ()"
    and e: "check_endpoint L (fld body ''endpoint'') = Inr ()" "is_uint 0 now" "int_of now < int_of (fld body ''expires_at'')"
    by (auto simp: verify_invitation_def rbind_ok ensure_ok check_is)
  have "wf_policy p" using p by (simp add: verify_any_policy_ok)
  from check_context_ok [OF this] cc have "in_context C body policy p" by blast
  with p e verify_record_signed [OF v] show ?thesis by blast
qed

section \<open>Requests\<close>

text \<open>The request \<open>body\<close> of a device that holds the key \<open>k\<close>, for the invitation with hash \<open>h\<close>.\<close>

definition requested_by :: "crypto \<Rightarrow> json \<Rightarrow> json \<Rightarrow> string \<Rightarrow> string \<Rightarrow> json \<Rightarrow> bool" where
  "requested_by C policy p k h body \<longleftrightarrow> fld body ''signing_public_key'' = JStr (b64 k) \<and> length k = 32
     \<and> signed_by C ''enrollment-request'' k body \<and> in_context C body policy p \<and> fld body ''invitation_hash'' = JStr h
     \<and> is_id (fld body ''device_id'') \<and> is_id (fld body ''request_id'') \<and> is_key (fld body ''agreement_public_key'')
     \<and> is_key (fld body ''challenge'') \<and> is_hash (fld body ''token_hash'')
     \<and> fld body ''device_id'' \<noteq> fld p ''master_device_id'' \<and> fld body ''signing_public_key'' \<noteq> fld p ''master_public_key''
     \<and> fld body ''agreement_public_key'' \<noteq> fld p ''inbox_public_key'' \<and> fld body ''token_hash'' \<noteq> fld p ''master_token_hash''"

lemma verify_enrollment_request_D:
  assumes "verify_enrollment_request C L r invitation policy pin now = Inr body"
  shows "\<exists>p i k h. verify_any_policy C policy pin = Inr p \<and> verify_invitation C L invitation policy pin now = Inr i
    \<and> submission_hash C invitation = Inr h \<and> requested_by C policy p k h body"
proof -
  from assms obtain p i obj k h a ch u where p: "verify_any_policy C policy pin = Inr p"
    and i: "verify_invitation C L invitation policy pin now = Inr i" and o: "parse_record MAX_CONTROL_SIZE r = Inr obj"
    and k: "decode_key (fld (fld obj ''payload'') ''signing_public_key'') = Inr k"
    and v: "verify_record C MAX_CONTROL_SIZE obj ''enrollment-request'' k = Inr body" and cc: "check_context C body policy p = Inr u"
    and h: "submission_hash C invitation = Inr h" "fld body ''invitation_hash'' = JStr h"
    and d: "is_id (fld body ''device_id'')" "is_id (fld body ''request_id'')" "is_hash (fld body ''token_hash'')"
    and keys: "decode_key (fld body ''agreement_public_key'') = Inr a" "decode_key (fld body ''challenge'') = Inr ch"
    and m: "\<not> (fld body ''device_id'' = fld p ''master_device_id'' \<or> fld body ''signing_public_key'' = fld p ''master_public_key'')"
      "\<not> (fld body ''agreement_public_key'' = fld p ''inbox_public_key'' \<or> fld body ''token_hash'' = fld p ''master_token_hash'')"
    unfolding verify_enrollment_request_def rbind_ok ensure_ok check_is(1,3) sum.inject by (elim exE conjE) (hypsubst, blast)
  have f: "is_key (fld body ''agreement_public_key'')" "is_key (fld body ''challenge'')"
    using keys by (auto simp: decode_key_ok is_key_def)
  have b: "body = fld obj ''payload''" by (rule verify_record_payload_of [OF _ o v]) simp
  have "wf_policy p" using p by (simp add: verify_any_policy_ok)
  from check_context_ok [OF this] cc have "in_context C body policy p" by blast
  then have "requested_by C policy p k h body"
    using k verify_record_signed [OF v] h f d m by (simp add: requested_by_def b decode_key_ok)
  with p i h show ?thesis by blast
qed

section \<open>Answers\<close>

text \<open>A later policy \<open>c\<close> of the same scope and vault, in a later epoch.\<close>

definition successor_policy :: "json \<Rightarrow> json \<Rightarrow> bool" where
  "successor_policy p c \<longleftrightarrow> fld c ''scope_id'' = fld p ''scope_id'' \<and> fld c ''vault_id'' = fld p ''vault_id''
     \<and> int_of (fld p ''version'') < int_of (fld c ''version'') \<and> int_of (fld p ''epoch'') < int_of (fld c ''epoch'')"

text \<open>
  The grant \<open>g\<close> of \<open>c\<close> admits the device of the request \<open>req\<close>: it has the device, the keys, the token
  and the role that the request asked for, and the policy of the invitation had no grant of its name.
\<close>

definition admits :: "json \<Rightarrow> json \<Rightarrow> json \<Rightarrow> json \<Rightarrow> bool" where
  "admits p c req g \<longleftrightarrow> wf_policy c \<and> g \<in> set (grants_of c) \<and> fld g ''device_id'' = fld req ''device_id''
     \<and> (\<forall>k \<in> {''signing_public_key'', ''agreement_public_key'', ''token_hash'', ''role''}. fld g k = fld req k)
     \<and> fld g ''grant_id'' \<notin> (\<lambda>g. fld g ''grant_id'') ` set (grants_of p)"

lemma admitted_grant: "admits p c req g \<Longrightarrow> wf_grant c g"
  using wf_policyD(16) [of c g] by (simp add: admits_def)

text \<open>The members of an answer, by the hashes \<open>hs\<close> of request, invitation, snapshot and wrapped key.\<close>

definition answer_members :: "json \<Rightarrow> string \<Rightarrow> json \<Rightarrow> json \<Rightarrow> json \<Rightarrow> string \<times> string \<times> string \<times> string \<Rightarrow> (string \<times> json) list" where
  "answer_members c ph req g s hs = (case hs of (rh, ih, sh, wh) \<Rightarrow>
     context_of c ph @ [(''request_hash'', JStr rh), (''invitation_hash'', JStr ih), (''challenge'', fld req ''challenge''),
        (''device_id'', fld req ''device_id''), (''grant_id'', fld g ''grant_id''), (''generation'', fld g ''generation''),
        (''snapshot_hash'', JStr sh), (''sequence'', fld s ''sequence''), (''wrap_hash'', JStr wh)])"

lemma answer_context_D:
  assumes "enrollment_answer_context C L request invitation source_policy current_policy pin snapshot wrap now = Inr ctx"
  obtains req p c g s w ph rh ih sh wh where
    "verify_enrollment_request C L request invitation source_policy pin now = Inr req"
    "verify_any_policy C source_policy pin = Inr p" "verify_any_policy C current_policy pin = Inr c"
    "successor_policy p c" "admits p c req g"
    "verify_snapshot C snapshot current_policy pin (JInt 0) JNull = Inr s"
    "verify_scope_key_wrap C wrap current_policy pin JNull (fld req ''device_id'') = Inr w"
    "policy_hash_of C current_policy = Some ph" "submission_hash C request = Inr rh" "submission_hash C invitation = Inr ih"
    "submission_hash C snapshot = Inr sh" "submission_hash C wrap = Inr wh"
    "ctx = answer_members c ph req g s (rh, ih, sh, wh)"
proof -
  from assms obtain req p c g s w pc rh ih sh wh where 1:
    "verify_enrollment_request C L request invitation source_policy pin now = Inr req"
    "verify_any_policy C source_policy pin = Inr p"
    and c: "verify_policy C current_policy pin (fld p ''scope_id'') (fld p ''vault_id'')
              (JInt (int_of (fld p ''version'') + 1)) (JInt (int_of (fld p ''epoch'') + 1)) = Inr c"
    and g: "authorize_grant c (fld req ''device_id'') ''read'' JNull JNull = Inr g"
    "\<not> (\<exists>k \<in> set [''signing_public_key'', ''agreement_public_key'', ''token_hash'', ''role'']. fld g k \<noteq> fld req k)"
    "\<not> (\<exists>h \<in> set (grants_of p). fld h ''grant_id'' = fld g ''grant_id'')"
    and 2: "verify_snapshot C snapshot current_policy pin (JInt 0) JNull = Inr s"
    "verify_scope_key_wrap C wrap current_policy pin JNull (fld req ''device_id'') = Inr w"
    and pc: "policy_context C current_policy c = Inr pc"
    and 3: "submission_hash C request = Inr rh" "submission_hash C invitation = Inr ih"
    "submission_hash C snapshot = Inr sh" "submission_hash C wrap = Inr wh"
    and ctx: "Inr (pc @ [(''request_hash'', JStr rh), (''invitation_hash'', JStr ih), (''challenge'', fld req ''challenge''),
        (''device_id'', fld req ''device_id''), (''grant_id'', fld g ''grant_id''), (''generation'', fld g ''generation''),
        (''snapshot_hash'', JStr sh), (''sequence'', fld s ''sequence''), (''wrap_hash'', JStr wh)]) = Inr ctx"
    unfolding enrollment_answer_context_def rbind_ok ensure_ok by blast
  have wf: "wf_policy p" using 1(2) by (simp add: verify_any_policy_ok)
  have "verify_any_policy C current_policy pin = Inr c" using c unfolding verify_any_policy_ok by (simp add: verify_policy_ok)
  moreover have "successor_policy p c"
    using c wf_policy_strings [OF wf] by (auto simp: verify_policy_ok successor_policy_def)
  moreover have "admits p c req g"
    using authorize_grant_ok [THEN iffD1, OF g(1)] g(2,3) by (auto simp: admits_def)
  moreover obtain ph where "policy_hash_of C current_policy = Some ph" "pc = context_of c ph"
    using pc by (auto simp: policy_context_ok)
  ultimately show ?thesis
    using ctx 1 2 3 by (intro that [of req p c g s w ph rh ih sh wh]) (simp_all add: answer_members_def)
qed

text \<open>
  What an accepted answer \<open>body\<close> binds: the master signed it for the device's own request and the invitation,
  for the grant that admits the device, and for the snapshot and the wrapped key that came with it; and it has
  not expired, nor outlives the invitation.
\<close>

definition answer_binds ::
  "crypto \<Rightarrow> json \<Rightarrow> json \<Rightarrow> json \<Rightarrow> json \<Rightarrow> json \<Rightarrow> string \<Rightarrow> int \<Rightarrow> json \<Rightarrow> json \<Rightarrow> json \<Rightarrow> json \<Rightarrow> bool" where
  "answer_binds C current_policy request invitation snapshot wrap pin now i req g body \<longleftrightarrow>
     signed_by C ''enrollment-answer'' pin body
     \<and> (\<exists>ph. policy_hash_of C current_policy = Some ph \<and> fld body ''policy_hash'' = JStr ph)
     \<and> fld body ''device_id'' = fld req ''device_id'' \<and> fld body ''challenge'' = fld req ''challenge''
     \<and> fld body ''grant_id'' = fld g ''grant_id''
     \<and> (\<forall>(k, r) \<in> {(''request_hash'', request), (''invitation_hash'', invitation), (''snapshot_hash'', snapshot),
          (''wrap_hash'', wrap)}. \<exists>h. submission_hash C r = Inr h \<and> fld body k = JStr h)
     \<and> now < int_of (fld body ''expires_at'') \<and> int_of (fld body ''expires_at'') \<le> int_of (fld i ''expires_at'')"

theorem verify_enrollment_answer_D:
  assumes "verify_enrollment_answer C L answer request invitation source_policy current_policy pin snapshot wrap now = Inr body"
  shows "\<exists>p c i req g k h s w. verify_any_policy C source_policy pin = Inr p \<and> verify_any_policy C current_policy pin = Inr c
    \<and> successor_policy p c \<and> verify_invitation C L invitation source_policy pin now = Inr i
    \<and> submission_hash C invitation = Inr h \<and> requested_by C source_policy p k h req \<and> admits p c req g
    \<and> verify_snapshot C snapshot current_policy pin (JInt 0) JNull = Inr s
    \<and> verify_scope_key_wrap C wrap current_policy pin JNull (fld req ''device_id'') = Inr w
    \<and> answer_binds C current_policy request invitation snapshot wrap pin (int_of now) i req g body"
proof -
  from assms obtain ctx i where ctx:
    "enrollment_answer_context C L request invitation source_policy current_policy pin snapshot wrap now = Inr ctx"
    and v: "verify_record C MAX_CONTROL_SIZE answer ''enrollment-answer'' pin = Inr body"
    and e: "\<not> (\<exists>(k, v) \<in> set ctx. \<not> py_eq (fld body k) v)"
    and i: "verify_invitation C L invitation source_policy pin now = Inr i"
    and x: "\<not> (int_of (fld body ''expires_at'') \<le> int_of now \<or> int_of (fld body ''expires_at'') > int_of (fld i ''expires_at''))"
    unfolding verify_enrollment_answer_def rbind_ok ensure_ok sum.inject by (elim exE conjE) (hypsubst, blast)
  obtain req p c g s w ph rh ih sh wh where a:
    "verify_enrollment_request C L request invitation source_policy pin now = Inr req"
    "verify_any_policy C source_policy pin = Inr p" "verify_any_policy C current_policy pin = Inr c"
    "successor_policy p c" "admits p c req g"
    "verify_snapshot C snapshot current_policy pin (JInt 0) JNull = Inr s"
    "verify_scope_key_wrap C wrap current_policy pin JNull (fld req ''device_id'') = Inr w"
    "policy_hash_of C current_policy = Some ph" "submission_hash C request = Inr rh" "submission_hash C invitation = Inr ih"
    "submission_hash C snapshot = Inr sh" "submission_hash C wrap = Inr wh"
    and m: "ctx = answer_members c ph req g s (rh, ih, sh, wh)"
    by (rule answer_context_D [OF ctx])
  from verify_enrollment_request_D [OF a(1)] a(2,10) obtain k where r: "requested_by C source_policy p k ih req" by auto
  have gid: "is_id (fld g ''grant_id'')"
    by (rule wf_grantD(2) [OF admitted_grant [OF a(5)]])
  have "fld body ''policy_hash'' = JStr ph" "fld body ''request_hash'' = JStr rh" "fld body ''invitation_hash'' = JStr ih"
    "fld body ''snapshot_hash'' = JStr sh" "fld body ''wrap_hash'' = JStr wh"
    "fld body ''device_id'' = fld req ''device_id''" "fld body ''challenge'' = fld req ''challenge''"
    "fld body ''grant_id'' = fld g ''grant_id''"
    using e r gid by (auto simp: m answer_members_def context_of_def requested_by_def is_id_def is_key_def)
  then have "answer_binds C current_policy request invitation snapshot wrap pin (int_of now) i req g body"
    using a(8-12) x verify_record_signed [OF v] by (simp add: answer_binds_def)
  with a(2-7,10) i r show ?thesis by blast
qed

section \<open>An answer the master builds is accepted\<close>

lemma enrollment_names:
  "plain ''enrollment-answer''" "plain ''request_hash''" "plain ''invitation_hash''" "plain ''challenge''" "plain ''snapshot_hash''"
  "plain ''sequence''" "plain ''wrap_hash''" "plain ''expires_at''"
  by (simp_all add: plain_def byte_def)

lemma submission_hash_leaf:
  assumes "crypto_ok C" and "submission_hash C r = Inr h"
  shows "leaf 66 (JStr h)"
proof -
  have "is_hash (JStr h)"
    using assms by (auto simp: submission_hash_def rbind_ok canonical_hash_Inr crypto_ok_def is_hash_def)
  then show ?thesis by (rule leaf_hash)
qed

lemma py_eq_leaf:
  assumes "nodes v = 1"
  shows "py_eq v v"
proof (cases v)
  case (JList l)
  with assms have "l = []" using nodes_pos(1) [of "hd l"] nodes_pos(2) [of "tl l"] by (cases l) simp_all
  with JList show ?thesis by simp
next
  case (JObj m)
  with assms have "m = []" using nodes_pos(1) [of "snd (hd m)"] nodes_pos(3) [of "tl m"] by (cases m) auto
  with JObj show ?thesis by simp
qed simp_all

theorem verify_build_enrollment_answer:
  assumes C: "crypto_ok C"
    and b: "build_enrollment_answer C L request invitation source_policy current_policy pin mk snapshot wrap now expires = Inr r"
  shows "\<exists>body. verify_enrollment_answer C L r request invitation source_policy current_policy pin snapshot wrap now = Inr body
    \<and> int_of (fld body ''expires_at'') \<le> int_of expires"
proof -
  from b obtain ctx i where k: "ed_public C mk = pin" and x: "is_uint 1 expires" "int_of now < int_of expires"
    and ctx: "enrollment_answer_context C L request invitation source_policy current_policy pin snapshot wrap now = Inr ctx"
    and i: "verify_invitation C L invitation source_policy pin now = Inr i"
    and s: "sign_record C ''enrollment-answer''
       (JObj (ctx @ [(''expires_at'', JInt (min (int_of expires) (int_of (fld i ''expires_at''))))])) mk = Inr r"
    by (auto simp: build_enrollment_answer_def rbind_ok ensure_ok require_master_ok check_is)
  obtain req p c g sn w ph rh ih sh wh where a:
    "verify_enrollment_request C L request invitation source_policy pin now = Inr req"
    "verify_any_policy C source_policy pin = Inr p" "verify_any_policy C current_policy pin = Inr c"
    "successor_policy p c" "admits p c req g"
    "verify_snapshot C snapshot current_policy pin (JInt 0) JNull = Inr sn"
    "verify_scope_key_wrap C wrap current_policy pin JNull (fld req ''device_id'') = Inr w"
    "policy_hash_of C current_policy = Some ph" "submission_hash C request = Inr rh" "submission_hash C invitation = Inr ih"
    "submission_hash C snapshot = Inr sh" "submission_hash C wrap = Inr wh"
    and m: "ctx = answer_members c ph req g sn (rh, ih, sh, wh)"
    by (rule answer_context_D [OF ctx])
  have wf: "wf_policy c" using a(5) by (simp add: admits_def)
  from verify_enrollment_request_D [OF a(1)] obtain q key h where rq: "requested_by C source_policy q key h req" by auto
  note g = wf_grantD [OF admitted_grant [OF a(5)]]
  define e where "e = min (int_of expires) (int_of (fld i ''expires_at''))"
  have iu: "is_uint 1 (fld i ''expires_at'')" and ix: "int_of now < int_of (fld i ''expires_at'')"
    using i by (auto simp: verify_invitation_def rbind_ok ensure_ok check_is)
  have e: "is_uint 1 (JInt e)" "int_of now < e" "e \<le> int_of expires" "e \<le> int_of (fld i ''expires_at'')"
    using x iu ix by (auto simp: e_def is_uint_def)
  define u where "u = drop 5 (answer_members c ph req g sn (rh, ih, sh, wh)) @ [(''expires_at'', JInt e)]"
  have split: "ctx @ [(''expires_at'', JInt e)] = context_of c ph @ u"
    by (simp add: m u_def answer_members_def context_of_def)
  note hl = a(9-12) [THEN submission_hash_leaf [OF C]]
  have sq: "is_uint 1 (fld sn ''sequence'')" using a(6) by (auto simp: verify_snapshot_ok chained_def)
  have u: "leaves 66 u" "len u \<le> 12" "distinct (map fst u)" "fst ` set u \<inter> set CONTEXT_FIELDS = {}"
    using hl sq g(2,4) rq leaf_uint [of 1] e(1)
    by (simp_all add: u_def answer_members_def context_of_def requested_by_def literal_names enrollment_names leaf_id leaf_key)
  obtain body where v: "verify_record C MAX_CONTROL_SIZE r ''enrollment-answer'' (ed_public C mk) = Inr body"
    and f: "\<And>f x. (f, x) \<in> set (context_of c ph @ u) \<Longrightarrow> fld body f = x"
    and ek: "\<And>ks. exact_keys ks body \<longleftrightarrow> set CONTEXT_FIELDS \<union> fst ` set u = set ks"
    by (rule plain_exchange [OF C wf a(8) u _ _ _ _ s [folded e_def, unfolded split], of MAX_CONTROL_SIZE])
      (simp_all add: enrollment_names)
  have lf: "leaves 66 (context_of c ph @ u)" using context_leaves [OF wf policy_hash_sha [OF C a(8)]] u(1) by simp
  have eq: "py_eq (fld body f) y" if "(f, y) \<in> set ctx" for f y
  proof -
    have mem: "(f, y) \<in> set (context_of c ph @ u)" using that unfolding split [symmetric] by simp
    with lf have "leaf 66 y" by (auto simp: leaves_def)
    then show ?thesis by (simp add: f [OF mem] py_eq_leaf leaf_def)
  qed
  have fx: "fld body ''expires_at'' = JInt e" by (rule f) (simp add: u_def)
  have "exact_keys (map fst ctx @ [''expires_at'']) body"
    unfolding ek by (auto simp: m u_def answer_members_def context_of_def)
  then show ?thesis
    using ctx v i e eq by (auto simp: verify_enrollment_answer_def rbind_ok ensure_ok k check_fields_ok check_is fx)
qed

end
