(* ===== verification/Example_Data.thy ===== *)
theory Example_Data
  imports Relay_Steps
begin

text \<open>
  A concrete instance of the cryptography that meets \<open>crypto_ok\<close>, and concrete keys, policies
  and records: the inputs at which theorems with hypotheses are instantiated.
\<close>

section \<open>Cryptography\<close>

definition toy_hash :: "string \<Rightarrow> nat" where
  "toy_hash m = fold (\<lambda>c h. (h * 31 + byte c) mod 65521) m 7"

definition toy_hex :: "nat \<Rightarrow> string" where
  "toy_hex n = replicate 60 (CHR ''0'') @ map hex_digit [n div 4096 mod 16, n div 256 mod 16, n div 16 mod 16, n mod 16]"

definition toy :: crypto where
  "toy = \<lparr>sha256_hex = (\<lambda>m. toy_hex (toy_hash m)), ed_public = (\<lambda>k. k), ed_sign = (\<lambda>k m. take 64 (k @ k @ replicate 64 (CHR ''0''))),
     ed_verify = (\<lambda>pk sg m. sg = pk @ pk), x_public = (\<lambda>k. k),
     x_exchange = (\<lambda>a b. Some (if a \<le> b then a @ b else b @ a)),
     hkdf32 = (\<lambda>s i k. take 32 (k @ replicate 32 (CHR ''0''))),
     aead_encrypt = (\<lambda>k n d a. d @ replicate 16 (CHR ''0'')),
     aead_decrypt = (\<lambda>k n c a. Some (take (length c - 16) c))\<rparr>"

lemma hex_digit_hex: "n < 16 \<Longrightarrow> is_hex (hex_digit n)"
  by (auto simp: hex_digit_def is_hex_def is_digit_def byte_def)

lemma toy_hex_sha: "is_sha256 (toy_hex n)"
proof -
  have "is_hex (CHR ''0'')" by (simp add: is_hex_def is_digit_def byte_def)
  then show ?thesis by (simp add: is_sha256_def toy_hex_def hex_digit_hex len_length list_all_iff)
qed

lemma toy_ok: "crypto_ok toy"
  by (auto simp: crypto_ok_def toy_def toy_hex_sha)

section \<open>Keys and identifiers\<close>

definition key_of :: "char \<Rightarrow> string" where
  "key_of c = replicate 32 c"

definition id_of :: "char \<Rightarrow> string" where
  "id_of c = replicate 8 c @ ''-0000-4000-8000-000000000000''"

definition hash_of :: "char \<Rightarrow> string" where
  "hash_of c = replicate 64 c"

definition jkey :: "char \<Rightarrow> json" where
  "jkey c = JStr (b64 (key_of c))"

text \<open>A policy of version 1, with the given grants.\<close>

definition example_grant :: json where
  "example_grant = JObj [(''agreement_public_key'', jkey (CHR ''b'')), (''device_id'', JStr (id_of (CHR ''b''))),
     (''generation'', JInt 1), (''grant_id'', JStr (id_of (CHR ''c''))), (''role'', JStr ''contributor''),
     (''signing_public_key'', jkey (CHR ''c'')), (''token_hash'', JStr (hash_of (CHR ''b'')))]"

definition example_policy :: "int \<Rightarrow> int \<Rightarrow> json \<Rightarrow> json list \<Rightarrow> json" where
  "example_policy version epoch parent gs = JObj [(''checkpoint_hash'', JNull), (''checkpoint_sequence'', JInt 0),
     (''epoch'', JInt epoch), (''grants'', JList gs), (''inbox_public_key'', jkey (CHR ''i'')),
     (''master_device_id'', JStr (id_of (CHR ''a''))), (''master_public_key'', jkey (CHR ''m'')),
     (''master_token_hash'', JStr (hash_of (CHR ''a''))), (''parent_policy_hash'', parent),
     (''scope_id'', JStr (id_of (CHR ''1''))), (''vault_id'', JStr (id_of (CHR ''2''))), (''version'', JInt version)]"

definition value_of :: "'e + json \<Rightarrow> json" where
  "value_of r = (case r of Inl _ \<Rightarrow> JNull | Inr v \<Rightarrow> v)"

definition master_key :: string where
  "master_key = key_of (CHR ''m'')"

definition example_record :: "int \<Rightarrow> int \<Rightarrow> json \<Rightarrow> json list \<Rightarrow> json" where
  "example_record version epoch parent gs = signed toy ''policy'' (example_policy version epoch parent gs) master_key"

lemma is_id_of: "is_hex c \<Longrightarrow> is_id (JStr (id_of c))"
proof -
  assume c: "is_hex c"
  have "is_uuid4 (id_of c)"
    unfolding is_uuid4_def id_of_def using c by (simp add: numeral_eq_Suc is_hex_def is_digit_def byte_def)
  then show ?thesis by (simp add: is_id_def)
qed

lemma is_hash_of: "is_hex c \<Longrightarrow> is_hash (JStr (hash_of c))"
  by (simp add: is_hash_def is_sha256_def hash_of_def len_length list_all_iff)

lemma is_jkey: "is_key (jkey c)"
  by (auto simp: is_key_def jkey_def key_of_def)

lemma hex_chars: "is_hex (CHR ''a'')" "is_hex (CHR ''b'')" "is_hex (CHR ''c'')" "is_hex (CHR ''1'')" "is_hex (CHR ''2'')"
  by (simp_all add: is_hex_def is_digit_def byte_def)

lemma example_fields [simp]:
  "fld (example_policy v e p gs) ''version'' = JInt v" "fld (example_policy v e p gs) ''epoch'' = JInt e"
  "fld (example_policy v e p gs) ''parent_policy_hash'' = p" "fld (example_policy v e p gs) ''grants'' = JList gs"
  "fld (example_policy v e p gs) ''checkpoint_hash'' = JNull" "fld (example_policy v e p gs) ''checkpoint_sequence'' = JInt 0"
  "fld (example_policy v e p gs) ''inbox_public_key'' = jkey (CHR ''i'')"
  "fld (example_policy v e p gs) ''master_device_id'' = JStr (id_of (CHR ''a''))"
  "fld (example_policy v e p gs) ''master_public_key'' = jkey (CHR ''m'')"
  "fld (example_policy v e p gs) ''master_token_hash'' = JStr (hash_of (CHR ''a''))"
  "fld (example_policy v e p gs) ''scope_id'' = JStr (id_of (CHR ''1''))"
  "fld (example_policy v e p gs) ''vault_id'' = JStr (id_of (CHR ''2''))"
  by (simp_all add: example_policy_def fld_def)

lemma jkey_inj: "jkey a = jkey b \<longleftrightarrow> a = b"
proof -
  have "key_of a = key_of b \<longleftrightarrow> a = b" by (simp add: key_of_def numeral_eq_Suc)
  then show ?thesis using b64.enc_inject [of "key_of a" "key_of b"] by (auto simp: jkey_def)
qed

lemma example_ids: "id_of a = id_of b \<longleftrightarrow> a = b" "hash_of a = hash_of b \<longleftrightarrow> a = b"
  by (simp_all add: id_of_def hash_of_def numeral_eq_Suc)

lemma example_grant_fields [simp]:
  "fld example_grant ''grant_id'' = JStr (id_of (CHR ''c''))" "fld example_grant ''device_id'' = JStr (id_of (CHR ''b''))"
  "fld example_grant ''generation'' = JInt 1" "fld example_grant ''role'' = JStr ''contributor''"
  "fld example_grant ''signing_public_key'' = jkey (CHR ''c'')" "fld example_grant ''agreement_public_key'' = jkey (CHR ''b'')"
  "fld example_grant ''token_hash'' = JStr (hash_of (CHR ''b''))"
  by (simp_all add: example_grant_def fld_def)

lemma wf_example_grant: "wf_grant (example_policy v e p gs) example_grant"
  unfolding wf_grant_def
  by (simp add: is_id_of is_hash_of is_jkey hex_chars jkey_inj example_ids is_uint_def)
    (auto simp: exact_keys_def example_grant_def)

lemma wf_example_policy:
  assumes "v = 1 \<longleftrightarrow> p = JNull" and "p = JNull \<or> is_hash p" and "1 \<le> v" "v < two63" "1 \<le> e" "e < two63"
    and "gs = [] \<or> gs = [example_grant]"
  shows "wf_policy (example_policy v e p gs)"
proof -
  have "exact_keys POLICY_FIELDS (example_policy v e p gs)" by (auto simp: exact_keys_def example_policy_def)
  then show ?thesis
    unfolding wf_policy_def using assms wf_example_grant
    by (auto simp: is_id_of is_hash_of is_jkey hex_chars is_uint_def)
qed

section \<open>Signed records\<close>

lemma plain_text_json: "text_json (JStr (b64 k))" "plain s \<Longrightarrow> text_json (JStr s)"
  by (simp_all add: b64_text plain_text)

lemma leaf_jkey: "leaf 66 (jkey c)" and leaf_id_of: "is_hex c \<Longrightarrow> leaf 66 (JStr (id_of c))"
  and leaf_hash_of: "is_hex c \<Longrightarrow> leaf 66 (JStr (hash_of c))" and leaf_small: "0 \<le> i \<Longrightarrow> i < two63 \<Longrightarrow> leaf 66 (JInt i)"
  and leaf_plain: "plain s \<Longrightarrow> len s \<le> 60 \<Longrightarrow> leaf 66 (JStr s)"
  using leaf_uint [of 0 "JInt i"] by (auto intro: leaf_key leaf_id leaf_hash leaf_str is_jkey is_id_of is_hash_of simp: is_uint_def)

lemma leafD: "leaf w v \<Longrightarrow> nodes v = 1" "leaf w v \<Longrightarrow> d \<le> MAX_DEPTH \<Longrightarrow> shape v d" "leaf w v \<Longrightarrow> width v \<le> w"
  "leaf w v \<Longrightarrow> text_json v" "leaf w v \<Longrightarrow> wf_json v" "leaf w v \<Longrightarrow> sort_members v = v"
  by (auto simp: leaf_def)

lemma field_names:
  "plain ''checkpoint_hash''" "plain ''checkpoint_sequence''" "plain ''epoch''" "plain ''grants''" "plain ''inbox_public_key''"
  "plain ''master_device_id''" "plain ''master_public_key''" "plain ''master_token_hash''" "plain ''parent_policy_hash''"
  "plain ''scope_id''" "plain ''vault_id''" "plain ''version''" "plain ''agreement_public_key''" "plain ''device_id''"
  "plain ''generation''" "plain ''grant_id''" "plain ''role''" "plain ''signing_public_key''" "plain ''token_hash''"
  "plain ''contributor''" "plain ''profile''" "plain ''kind''" "plain ''payload''" "plain ''signature''" "plain ''policy''" "plain PROFILE"
  by (simp_all add: plain_def byte_def)

lemma grant_leaves: "leaves 66 (members example_grant)"
  by (simp add: example_grant_def field_names leaf_jkey leaf_id_of leaf_hash_of leaf_small leaf_plain hex_chars)

lemma sort_leaves: "leaves w m \<Longrightarrow> sorted (map fst m) \<Longrightarrow> sort_members (JObj m) = JObj m"
proof -
  assume l: "leaves w m" and s: "sorted (map fst m)"
  have "sort_pairs m = m" using l by (induction m) (auto simp: leafD(6))
  with s show ?thesis by (simp add: sort_key_id_if_sorted)
qed

lemma leaves_obj:
  assumes "leaves w m" and "len m = k"
  shows "nodes (JObj m) = 1 + 2 * k" and "width (JObj m) \<le> 2 + k * (w + 34)" and "text_json (JObj m)"
    and "d < MAX_DEPTH \<Longrightarrow> k \<le> MAX_NODES \<Longrightarrow> shape (JObj m) d"
  using leaves_bounds(1-3) [OF assms(1)] leaves_bounds(5) [OF assms(1), of "d + 1"] assms(2) by auto

lemma grant_limits: "nodes example_grant = 15" "width example_grant \<le> 702" "d < MAX_DEPTH \<Longrightarrow> shape example_grant d"
  "text_json example_grant" "wf_json example_grant" "sort_members example_grant = example_grant"
proof -
  obtain m where m: "example_grant = JObj m" "m = members example_grant" by (simp add: example_grant_def)
  have l: "leaves 66 m" "len m = 7" using grant_leaves m(2) by (simp_all add: example_grant_def)
  have s: "sorted (map fst m)" "distinct (map fst m)"
    unfolding m(2) by (simp_all add: example_grant_def less_char_def)
  note o' = leaves_obj [OF l]
  show "nodes example_grant = 15" "width example_grant \<le> 702" "text_json example_grant"
    "d < MAX_DEPTH \<Longrightarrow> shape example_grant d"
    using o'(1-3) o'(4) [of d] unfolding m(1) by simp_all
  show "wf_json example_grant" using s(2) leaves_bounds(4) [OF l(1)] unfolding m(1) by simp
  show "sort_members example_grant = example_grant" unfolding m(1) by (rule sort_leaves [OF l(1) s(1)])
qed

definition good_gs :: "json list \<Rightarrow> bool" where
  "good_gs gs \<longleftrightarrow> gs = [] \<or> gs = [example_grant]"

lemma example_limits:
  assumes p: "p = JNull \<or> is_hash p" and v: "1 \<le> v" "v < two63" "1 \<le> e" "e < two63" and g: "good_gs gs"
  shows "nodes (example_policy v e p gs) \<le> 1000" and "d < MAX_DEPTH - 2 \<Longrightarrow> shape (example_policy v e p gs) d"
    and "width (example_policy v e p gs) \<le> 3000" and "text_json (example_policy v e p gs)"
    and "wf_json (example_policy v e p gs)" and "sort_members (example_policy v e p gs) = example_policy v e p gs"
proof -
  have lp: "leaf 66 p" using p leaf_hash by auto
  have lv: "leaf 66 (JInt v)" "leaf 66 (JInt e)" "leaf 66 (JInt 0)" "leaf 66 JNull" using v by (auto intro: leaf_small)
  note l = lp lv leaf_jkey leaf_id_of [OF hex_chars(1)] leaf_id_of [OF hex_chars(4)] leaf_id_of [OF hex_chars(5)]
    leaf_hash_of [OF hex_chars(1)]
  have gl: "nodes_items gs \<le> 15" "width_items gs \<le> 703" "text_items gs" "wf_items gs" "sort_items gs = gs"
    "len gs \<le> 1" "d < MAX_DEPTH - 2 \<Longrightarrow> shape_items gs (d + 2)"
    using g grant_limits by (auto simp: good_gs_def)
  have w: "width p \<le> 66" "width (JInt v) \<le> 66" "width (JInt e) \<le> 66" "width (JInt 0) \<le> 66" "width JNull \<le> 66"
    "\<And>c. width (jkey c) \<le> 66"
    "width (JStr (id_of (CHR ''a''))) \<le> 66" "width (JStr (id_of (CHR ''1''))) \<le> 66" "width (JStr (id_of (CHR ''2''))) \<le> 66"
    "width (JStr (hash_of (CHR ''a''))) \<le> 66"
    using l leafD(3) by blast+
  show "width (example_policy v e p gs) \<le> 3000"
    using w(1-5) w(6) [of "CHR ''i''"] w(6) [of "CHR ''m''"] w(7-10) gl(2)
    by (simp add: example_policy_def len_quote_plain field_names del: width.simps(2-5))
  show "nodes (example_policy v e p gs) \<le> 1000"
    using l gl by (simp add: example_policy_def leafD(1) leafD(1) [OF leaf_jkey] del: nodes.simps(3,5))
  show "shape (example_policy v e p gs) d" if "d < MAX_DEPTH - 2"
    using l gl(6) gl(7) [OF that] that by (simp add: add.commute example_policy_def leafD(2) leafD(2) [OF leaf_jkey] del: shape.simps(3,5))
  show "text_json (example_policy v e p gs)"
    using l gl(3) by (simp add: example_policy_def leafD(4) leafD(4) [OF leaf_jkey] plain_text field_names del: text_json.simps(3,5))
  show "wf_json (example_policy v e p gs)"
    using l gl(4) by (simp add: example_policy_def leafD(5) leafD(5) [OF leaf_jkey])
  obtain m where m: "example_policy v e p gs = JObj m" "m = members (example_policy v e p gs)" by (simp add: example_policy_def)
  have "sort_pairs m = m" unfolding m(2) using l gl(5)
    by (simp add: example_policy_def leafD(6) leafD(6) [OF leaf_jkey] del: sort_members.simps(3,5))
  moreover have "sorted (map fst m)" unfolding m(2) by (simp add: example_policy_def less_char_def)
  ultimately show "sort_members (example_policy v e p gs) = example_policy v e p gs"
    unfolding m(1) by (simp add: sort_key_id_if_sorted)
qed

lemma example_normal:
  assumes p: "p = JNull \<or> is_hash p" and v: "1 \<le> v" "v < two63" "1 \<le> e" "e < two63" and g: "good_gs gs"
  shows "normal (example_policy v e p gs)" and "fits 3000 (example_policy v e p gs)"
    and "parse_record MAX_POLICY_SIZE (example_policy v e p gs) = Inr (example_policy v e p gs)"
proof -
  note l = example_limits [OF p v g]
  show f: "fits 3000 (example_policy v e p gs)" by (rule fitsI) (use l(1,3) l(2) [of 0] in simp_all)
  show nn: "normal (example_policy v e p gs)"
    using l(4-6) valid_utf8_canonical by (simp add: normal_def) (simp add: example_policy_def)
  show "parse_record MAX_POLICY_SIZE (example_policy v e p gs) = Inr (example_policy v e p gs)"
    by (rule parse_record_normal [OF _ nn fits_mono [OF f]]) simp_all
qed

lemma signed_fits_of:
  assumes C: "crypto_ok C" and p: "nodes p \<le> 1000" "shape p 1" "width p \<le> B" and kind: "plain kind" "len kind \<le> 30"
    and n: "B + 400 \<le> n"
  shows "fits n (signed C kind p k)" and "fits n (record_body kind p)"
proof -
  have sg: "len (quote (b64 (ed_sign C k x))) = 88" for x
  proof -
    have "length (ed_sign C k x) = 64" using C by (simp add: crypto_ok_def)
    with len_quote_plain [OF plain_b64, of "ed_sign C k x"] show ?thesis by (simp add: len_length length_b64)
  qed
  have q: "len (quote kind) \<le> 32" using kind by (simp add: len_quote_plain)
  have w: "width (signed C kind p k) \<le> n" "width (record_body kind p) \<le> n"
    using p(3) q n sg by (simp_all add: signed_def record_body_def len_quote_plain field_names)
  show "fits n (signed C kind p k)" using p(1,2) w by (intro fitsI) (simp_all add: signed_def record_body_def)
  show "fits n (record_body kind p)" using p(1,2) w by (intro fitsI) (simp_all add: record_body_def)
qed

lemma example_signed:
  assumes p: "p = JNull \<or> is_hash p" and v: "1 \<le> v" "v < two63" "1 \<le> e" "e < two63" and g: "good_gs gs"
    and vp: "v = 1 \<longleftrightarrow> p = JNull"
  shows "sign_policy toy (example_policy v e p gs) master_key = Inr (example_record v e p gs)"
    and "verify_any_policy toy (example_record v e p gs) master_key = Inr (example_policy v e p gs)"
proof -
  note n = example_normal [OF p v g]
  have wf: "wf_policy (example_policy v e p gs)" using wf_example_policy [OF vp p v] g by (simp add: good_gs_def)
  have k: "length master_key = 32" "ed_public toy master_key = master_key" by (simp_all add: master_key_def key_of_def toy_def)
  have m: "decode_key (jkey (CHR ''m'')) = Inr master_key" by (simp add: decode_key_ok jkey_def master_key_def key_of_def)
  have f: "fits MAX_RECORD_SIZE (record_body ''policy'' (example_policy v e p gs))"
    "fits MAX_POLICY_SIZE (example_record v e p gs)"
    using signed_fits_of [OF toy_ok example_limits(1) [OF p v g] example_limits(2) [OF p v g, of 1]
      example_limits(3) [OF p v g], of "''policy''"]
    by (simp_all add: example_record_def field_names)
  have u: "check_policy (example_policy v e p gs) = Inr ()" using wf by (simp add: check_policy_ok)
  have sr: "sign_record toy ''policy'' (example_policy v e p gs) master_key = Inr (example_record v e p gs)"
    using f k by (simp add: sign_record_ok example_record_def)
  show s: "sign_policy toy (example_policy v e p gs) master_key = Inr (example_record v e p gs)"
    using n(3) u m k sr f by (simp add: sign_policy_def signing_public_key_def key32_def len_length canonical_bytes_eq)
  show "verify_any_policy toy (example_record v e p gs) master_key = Inr (example_policy v e p gs)"
    using sign_verify_policy [OF toy_ok s n(3) example_limits(4) [OF p v g]] k by simp
qed

end
