(* ===== verification/Entries.thy ===== *)
theory Entries
  imports Text_Checks
begin

text \<open>
  Vault entries (\<open>models.py\<close>): the \<open>Entry\<close> record, its validation from untrusted data,
  tombstones and the payload of a vault snapshot. \<open>Invalid\<close> is \<open>ValidationError\<close>;
  \<open>Type_err\<close>, \<open>Value_err\<close> and \<open>Key_err\<close> are the \<open>TypeError\<close>, \<open>ValueError\<close> and
  \<open>KeyError\<close> that Python itself raises where the code does not guard.
\<close>

section \<open>Types\<close>

datatype verr = Invalid | Type_err | Value_err | Key_err

datatype entry_type = API_KEY | SSH_KEY | SERVER | DOMAIN | NOTE

primrec type_value :: "entry_type \<Rightarrow> string" where
  "type_value API_KEY = ''api_key''"
| "type_value SSH_KEY = ''ssh_key''"
| "type_value SERVER = ''server''"
| "type_value DOMAIN = ''domain''"
| "type_value NOTE = ''note''"

text \<open>\<open>EntryType(v)\<close>: \<open>None\<close> when it raises.\<close>

definition entry_type_of :: "json \<Rightarrow> entry_type option" where
  "entry_type_of v = (case v of JStr s \<Rightarrow>
       find (\<lambda>t. type_value t = s) [API_KEY, SSH_KEY, SERVER, DOMAIN, NOTE]
     | _ \<Rightarrow> None)"

record entry =
  e_id :: string
  e_name :: string
  e_type :: entry_type
  e_fields :: json
  e_tags :: "json list"
  e_note :: json
  e_refs :: "json list"
  e_created :: json
  e_updated :: json
  e_folder :: json
  e_distribution :: json
  e_provenance :: json
  e_revision :: json

text \<open>\<open>d.get(k, default)\<close>.\<close>

definition get_or :: "json \<Rightarrow> json \<Rightarrow> string \<Rightarrow> json" where
  "get_or dflt d k = (if has_key d k then fld d k else dflt)"

text \<open>\<open>v in {strings}\<close>: a list or a dictionary cannot be hashed.\<close>

definition member_of :: "string list \<Rightarrow> json \<Rightarrow> verr + bool" where
  "member_of xs v = (case v of JStr s \<Rightarrow> Inr (s \<in> set xs) | JList _ \<Rightarrow> Inl Type_err | JObj _ \<Rightarrow> Inl Type_err | _ \<Rightarrow> Inr False)"

section \<open>Checks\<close>

definition validate_name :: "json \<Rightarrow> verr + unit" where
  "validate_name v = (case v of JStr s \<Rightarrow>
       rbind (ensure (2 \<le> pylen s \<and> pylen s \<le> 64) Invalid) (\<lambda>_. ensure (name_pattern s) Invalid)
     | _ \<Rightarrow> Inl Invalid)"

definition validate_entry_id :: "json \<Rightarrow> verr + unit" where
  "validate_entry_id v = (case v of JStr s \<Rightarrow>
       rbind (ensure (\<not> starts_with ''kk:sync-'' s) Invalid) (\<lambda>_.
       rbind (ensure (pylen s = 39 \<and> starts_with ''kk:'' s) Invalid) (\<lambda>_.
       ensure (is_uuid4 (drop 3 s)) Invalid))
     | _ \<Rightarrow> Inl Invalid)"

definition validate_uuid4 :: "json \<Rightarrow> verr + string" where
  "validate_uuid4 v = (case v of JStr s \<Rightarrow> if is_uuid4 s then Inr s else Inl Invalid | _ \<Rightarrow> Inl Invalid)"

abbreviation SUBMISSION_KEYS :: "string list" where
  "SUBMISSION_KEYS \<equiv> [''device_id'', ''grant_id'', ''request_id'', ''scope_id'']"

definition validate_provenance :: "json \<Rightarrow> verr + json" where
  "validate_provenance v =
     (if v = JNull then Inr JNull
      else rbind (ensure (is_obj v) Invalid) (\<lambda>_.
           let source = fld v ''source'' in
           rbind (member_of [''local'', ''legacy_migration'', ''project_submission''] source) (\<lambda>known.
           rbind (ensure known Invalid) (\<lambda>_.
           rbind (if source = JStr ''project_submission''
                  then rbind (ensure (exact_keys (''source'' # SUBMISSION_KEYS) v) Invalid) (\<lambda>_.
                       each (\<lambda>k. rbind (validate_uuid4 (fld v k)) (\<lambda>_. Inr ())) SUBMISSION_KEYS)
                  else ensure (exact_keys [''source''] v) Invalid) (\<lambda>_.
           Inr v)))))"

definition validate_text :: "int \<Rightarrow> bool \<Rightarrow> json \<Rightarrow> verr + string" where
  "validate_text max_length allow_linebreaks v = (case v of JStr s \<Rightarrow>
       rbind (ensure (pylen s \<le> max_length) Invalid) (\<lambda>_.
       rbind (ensure (no_controls allow_linebreaks s) Invalid) (\<lambda>_. Inr s))
     | _ \<Rightarrow> Inl Invalid)"

definition validate_timestamp :: "json \<Rightarrow> verr + string" where
  "validate_timestamp v =
     rbind (validate_text 20 False v) (\<lambda>s.
     rbind (ensure (entry_timestamp_pattern s) Invalid) (\<lambda>_.
     rbind (ensure (strptime_ok s) Invalid) (\<lambda>_. Inr s)))"

text \<open>\<open>int(port)\<close> on ASCII digits: Python refuses more than 4300 of them.\<close>

definition port_number :: "json \<Rightarrow> verr + int" where
  "port_number v = (case v of
       JInt i \<Rightarrow> Inr i
     | JStr s \<Rightarrow> if s \<noteq> [] \<and> list_all is_digit s
                 then (if len s > 4300 then Inl Value_err else Inr (dec_int s 0)) else Inl Invalid
     | _ \<Rightarrow> Inl Invalid)"

definition safe_host :: "string \<Rightarrow> bool" where
  "safe_host s = (ssh_host_pattern s \<and> \<not> starts_with ''-'' s \<and> CHR ''@'' \<notin> set s)"

definition validate_ssh_target :: "json \<Rightarrow> json \<Rightarrow> json \<Rightarrow> verr + string \<times> string \<times> int" where
  "validate_ssh_target host user port =
     rbind (validate_text 253 False host) (\<lambda>h.
     rbind (validate_text 64 False user) (\<lambda>u.
     rbind (ensure (safe_host h) Invalid) (\<lambda>_.
     rbind (ensure (ssh_user_pattern u \<and> \<not> starts_with ''-'' u) Invalid) (\<lambda>_.
     rbind (port_number port) (\<lambda>n.
     rbind (ensure (1 \<le> n \<and> n \<le> 65535) Invalid) (\<lambda>_. Inr (h, u, n)))))))"

primrec required_fields :: "entry_type \<Rightarrow> string list" where
  "required_fields API_KEY = []"
| "required_fields SSH_KEY = [''public_key'']"
| "required_fields SERVER = [''host'', ''user'', ''auth'']"
| "required_fields DOMAIN = [''host'']"
| "required_fields NOTE = [''secret_body'']"

text \<open>\<open>json.dumps(..., allow_nan=False)\<close> refuses the constants that are not numbers.\<close>

fun finite_json :: "json \<Rightarrow> bool"
  and finite_items :: "json list \<Rightarrow> bool"
  and finite_members :: "(string \<times> json) list \<Rightarrow> bool" where
  "finite_json JNull = True"
| "finite_json (JBool b) = True"
| "finite_json (JInt i) = True"
| "finite_json (JFloat f) = (f \<notin> {''nan'', ''inf'', ''-inf''})"
| "finite_json (JStr s) = True"
| "finite_json (JList l) = finite_items l"
| "finite_json (JObj m) = finite_members m"
| "finite_items [] = True"
| "finite_items (x # xs) = (finite_json x \<and> finite_items xs)"
| "finite_members [] = True"
| "finite_members ((k, v) # m) = (finite_json v \<and> finite_members m)"

definition check_server :: "json \<Rightarrow> verr + unit" where
  "check_server v =
     rbind (validate_ssh_target (fld v ''host'') (get_or (JStr ''root'') v ''user'') (get_or (JInt 22) v ''port'')) (\<lambda>_.
     ensure (fld v ''auth'' \<in> {JStr ''ssh_key'', JStr ''password'', JStr ''none''}) Invalid)"

definition check_note :: "json \<Rightarrow> verr + unit" where
  "check_note v =
     rbind (ensure (fld v ''secret_body'' \<in> {JBool True, JBool False}) Invalid) (\<lambda>_.
     rbind (ensure (\<not> (fld v ''secret_body'' = JBool True \<and> has_key v ''body'')) Invalid) (\<lambda>_.
     if has_key v ''body'' then rbind (validate_text 65536 True (fld v ''body'')) (\<lambda>_. Inr ()) else Inr ()))"

primrec check_typed :: "entry_type \<Rightarrow> json \<Rightarrow> verr + unit" where
  "check_typed API_KEY v = Inr ()"
| "check_typed SSH_KEY v = rbind (validate_text 16384 True (fld v ''public_key'')) (\<lambda>_. Inr ())"
| "check_typed SERVER v = check_server v"
| "check_typed DOMAIN v = rbind (validate_text 253 False (fld v ''host'')) (\<lambda>h. ensure (safe_host h) Invalid)"
| "check_typed NOTE v = check_note v"

definition validate_fields :: "entry_type \<Rightarrow> json \<Rightarrow> verr + json" where
  "validate_fields t v =
     rbind (ensure (is_obj v) Invalid) (\<lambda>_.
     rbind (ensure (len (members v) \<le> 64) Invalid) (\<lambda>_.
     rbind (each (\<lambda>kv. ensure (field_key_pattern (fst kv)) Invalid) (members v)) (\<lambda>_.
     rbind (ensure (finite_json v) Invalid) (\<lambda>_.
     rbind (ensure (pylen (default_text v) \<le> 131072) Invalid) (\<lambda>_.
     rbind (ensure (\<forall>k \<in> set (required_fields t). has_key v k) Invalid) (\<lambda>_.
     rbind (check_typed t v) (\<lambda>_. Inr v)))))))"

definition validate_ref :: "json \<Rightarrow> verr + json" where
  "validate_ref v =
     rbind (ensure (exact_keys [''role'', ''name''] v) Invalid) (\<lambda>_.
     rbind (ensure (case fld v ''role'' of JStr s \<Rightarrow> ref_role_pattern s | _ \<Rightarrow> False) Invalid) (\<lambda>_.
     rbind (validate_name (fld v ''name'')) (\<lambda>_.
     Inr (JObj [(''role'', fld v ''role''), (''name'', fld v ''name'')]))))"

definition validate_refs :: "json \<Rightarrow> verr + json list" where
  "validate_refs v = (case v of JList l \<Rightarrow>
       rbind (ensure (len l \<le> 64) Invalid) (\<lambda>_. rmap validate_ref l)
     | _ \<Rightarrow> Inl Invalid)"

definition validate_tag :: "json \<Rightarrow> verr + json" where
  "validate_tag v = rbind (validate_text 64 False v) (\<lambda>s. Inr (JStr s))"

definition validate_tags :: "json \<Rightarrow> verr + json list" where
  "validate_tags v = (case v of JList l \<Rightarrow>
       rbind (ensure (len l \<le> 64) Invalid) (\<lambda>_. rmap validate_tag l)
     | _ \<Rightarrow> Inl Invalid)"

section \<open>Entries\<close>

abbreviation LEGACY_ENTRY_KEYS :: "string list" where
  "LEGACY_ENTRY_KEYS \<equiv> [''id'', ''name'', ''type'', ''fields'', ''tags'', ''note'', ''refs'', ''created_at'', ''updated_at'']"
abbreviation PROJECT_ENTRY_KEYS :: "string list" where
  "PROJECT_ENTRY_KEYS \<equiv> [''folder_id'', ''distribution'', ''provenance'', ''content_revision'']"
abbreviation SECRET_KEYS :: "string list" where
  "SECRET_KEYS \<equiv> [''_secret'', ''_secret_passphrase'']"
abbreviation REQUIRED_ENTRY_KEYS :: "string list" where
  "REQUIRED_ENTRY_KEYS \<equiv> [''id'', ''name'', ''type'', ''created_at'', ''updated_at'']"

definition entry_to_dict :: "entry \<Rightarrow> json" where
  "entry_to_dict e = JObj (
     [(''id'', JStr (e_id e)), (''name'', JStr (e_name e)), (''type'', JStr (type_value (e_type e))),
      (''fields'', e_fields e), (''tags'', JList (e_tags e)), (''note'', e_note e), (''refs'', JList (e_refs e)),
      (''created_at'', e_created e), (''updated_at'', e_updated e)]
     @ (if e_folder e \<noteq> JNull then [(''folder_id'', e_folder e)] else [])
     @ (if e_distribution e \<noteq> JStr ''local_only'' then [(''distribution'', e_distribution e)] else [])
     @ (if e_provenance e \<noteq> JNull then [(''provenance'', e_provenance e)] else [])
     @ (if e_revision e \<noteq> JNull then [(''content_revision'', e_revision e)] else []))"

definition optional_uuid :: "json \<Rightarrow> verr + unit" where
  "optional_uuid v = (if v = JNull then Inr () else rbind (validate_uuid4 v) (\<lambda>_. Inr ()))"

definition check_secret :: "json \<Rightarrow> verr + unit" where
  "check_secret v = (if v = JNull then Inr () else rbind (validate_text 1048576 True v) (\<lambda>_. Inr ()))"

definition from_untrusted_dict :: "bool \<Rightarrow> bool \<Rightarrow> json \<Rightarrow> verr + entry" where
  "from_untrusted_dict allow_secret_fields allow_project_fields d =
     rbind (ensure (is_obj d) Invalid) (\<lambda>_.
     rbind (ensure (\<forall>k \<in> set (map fst (members d)). k \<in> set (LEGACY_ENTRY_KEYS
              @ (if allow_secret_fields then SECRET_KEYS else [])
              @ (if allow_project_fields then PROJECT_ENTRY_KEYS else []))) Invalid) (\<lambda>_.
     rbind (ensure (\<forall>k \<in> set REQUIRED_ENTRY_KEYS. has_key d k) Invalid) (\<lambda>_.
     rbind (validate_entry_id (fld d ''id'')) (\<lambda>_.
     rbind (validate_name (fld d ''name'')) (\<lambda>_.
     rbind (case entry_type_of (fld d ''type'') of None \<Rightarrow> Inl Invalid | Some t \<Rightarrow> Inr t) (\<lambda>t.
     rbind (validate_fields t (get_or (JObj []) d ''fields'')) (\<lambda>fields.
     rbind (validate_tags (get_or (JList []) d ''tags'')) (\<lambda>tags.
     rbind (validate_text 16384 True (get_or (JStr []) d ''note'')) (\<lambda>note.
     rbind (validate_refs (get_or (JList []) d ''refs'')) (\<lambda>refs.
     rbind (validate_timestamp (fld d ''created_at'')) (\<lambda>created.
     rbind (validate_timestamp (fld d ''updated_at'')) (\<lambda>updated.
     rbind (optional_uuid (fld d ''folder_id'')) (\<lambda>_.
     rbind (member_of [''local_only'', ''project_allowed''] (get_or (JStr ''local_only'') d ''distribution'')) (\<lambda>known.
     rbind (ensure known Invalid) (\<lambda>_.
     rbind (validate_provenance (fld d ''provenance'')) (\<lambda>provenance.
     rbind (optional_uuid (fld d ''content_revision'')) (\<lambda>_.
     rbind (if allow_secret_fields then each (\<lambda>k. check_secret (fld d k)) SECRET_KEYS else Inr ()) (\<lambda>_.
     Inr \<lparr>e_id = text_of (fld d ''id''), e_name = text_of (fld d ''name''), e_type = t, e_fields = fields, e_tags = tags,
          e_note = JStr note, e_refs = refs, e_created = JStr created, e_updated = JStr updated,
          e_folder = fld d ''folder_id'', e_distribution = get_or (JStr ''local_only'') d ''distribution'',
          e_provenance = provenance, e_revision = fld d ''content_revision''\<rparr>))))))))))))))))))"

text \<open>
  \<open>Entry.new\<close>: the fresh identifier and the current time are arguments.
\<close>

definition new_entry :: "string \<Rightarrow> string \<Rightarrow> json \<Rightarrow> entry_type \<Rightarrow> json \<Rightarrow> json list \<Rightarrow> json \<Rightarrow> json list \<Rightarrow> verr + entry" where
  "new_entry fresh now name t fs tags note refs =
     rbind (validate_name name) (\<lambda>_.
     rbind (validate_fields t fs) (\<lambda>f.
     rbind (rmap validate_tag tags) (\<lambda>ts.
     rbind (validate_text 16384 True note) (\<lambda>n.
     rbind (validate_refs (JList refs)) (\<lambda>rs.
     Inr \<lparr>e_id = ''kk:'' @ fresh, e_name = text_of name, e_type = t, e_fields = f, e_tags = ts, e_note = JStr n, e_refs = rs,
          e_created = JStr now, e_updated = JStr now, e_folder = JNull, e_distribution = JStr ''local_only'',
          e_provenance = JNull, e_revision = JNull\<rparr>)))))"

definition entry_requires_secret :: "entry \<Rightarrow> bool" where
  "entry_requires_secret e =
     (e_type e \<in> {API_KEY, SSH_KEY} \<or> (e_type e = NOTE \<and> fld (e_fields e) ''secret_body'' = JBool True)
      \<or> (e_type e = SERVER \<and> fld (e_fields e) ''auth'' = JStr ''password''))"

section \<open>Tombstones and snapshots\<close>

record tombstone =
  ts_id :: string
  ts_name :: string
  ts_deleted :: string

definition validate_tombstone :: "json \<Rightarrow> verr + tombstone" where
  "validate_tombstone d =
     rbind (ensure (exact_keys [''id'', ''name'', ''deleted_at''] d) Invalid) (\<lambda>_.
     rbind (validate_entry_id (fld d ''id'')) (\<lambda>_.
     rbind (validate_name (fld d ''name'')) (\<lambda>_.
     rbind (validate_timestamp (fld d ''deleted_at'')) (\<lambda>t.
     Inr \<lparr>ts_id = text_of (fld d ''id''), ts_name = text_of (fld d ''name''), ts_deleted = t\<rparr>))))"

text \<open>\<open>v in {1, 2}\<close>: \<open>True\<close> is 1, and 1.0 and 2.0 are members too.\<close>

definition version_1_or_2 :: "json \<Rightarrow> verr + bool" where
  "version_1_or_2 v = (case v of JInt i \<Rightarrow> Inr (i \<in> {1, 2}) | JBool b \<Rightarrow> Inr b
     | JFloat f \<Rightarrow> Inr (f \<in> {''1.0'', ''2.0''}) | JList _ \<Rightarrow> Inl Type_err | JObj _ \<Rightarrow> Inl Type_err | _ \<Rightarrow> Inr False)"

definition validate_snapshot_payload :: "json \<Rightarrow> verr + entry list \<times> tombstone list" where
  "validate_snapshot_payload p =
     rbind (ensure (is_obj p) Invalid) (\<lambda>_.
     rbind (ensure (\<forall>k \<in> set (map fst (members p)). k \<in> {''schema_version'', ''entries'', ''tombstones''}) Invalid) (\<lambda>_.
     rbind (version_1_or_2 (fld p ''schema_version'')) (\<lambda>known.
     rbind (ensure known Invalid) (\<lambda>_.
     rbind (case fld p ''entries'' of JList l \<Rightarrow> if len l \<le> 10000 then Inr l else Inl Invalid | _ \<Rightarrow> Inl Invalid) (\<lambda>records.
     rbind (case get_or (JList []) p ''tombstones'' of JList l \<Rightarrow> if len l \<le> 20000 then Inr l else Inl Invalid
            | _ \<Rightarrow> Inl Invalid) (\<lambda>dead.
     rbind (rmap (from_untrusted_dict True False) records) (\<lambda>es.
     rbind (ensure (\<not> (\<exists>er \<in> set (zip es records). entry_requires_secret (fst er) \<and> fld (snd er) ''_secret'' = JNull)) Invalid) (\<lambda>_.
     rbind (ensure (distinct (map e_id es)) Invalid) (\<lambda>_.
     rbind (rmap validate_tombstone dead) (\<lambda>ts.
     Inr (es, ts)))))))))))"

end
