(* ===== verification/Entry_Proofs.thy ===== *)
theory Entry_Proofs
  imports Entries
begin

text \<open>
  What validation establishes: an accepted record is a well-formed entry, writing it and
  reading it again gives it back, and no accepted server can inject options into a shell.
\<close>

section \<open>The checks as predicates\<close>

lemma validate_name_ok [ok_simps]:
  "validate_name v = Inr u \<longleftrightarrow> (\<exists>s. v = JStr s \<and> 2 \<le> pylen s \<and> pylen s \<le> 64 \<and> name_pattern s)"
  by (cases v) (auto simp: validate_name_def rbind_ok ensure_ok)

lemma starts_with_split: "starts_with p s \<longleftrightarrow> (\<exists>r. s = p @ r)"
  by (metis append_eq_conv_conj starts_with_def)

lemma shape_chars_ascii: "shape_ok p s \<Longrightarrow> list_all (\<lambda>c. byte c < 128) p \<Longrightarrow> list_all (\<lambda>c. byte c < 128) s"
proof (induction p s rule: shape_ok.induct)
  case (2 p ps c cs)
  then show ?case using is_hex_ascii [of c] by (auto simp: byte_def split: if_splits)
qed simp_all

lemma is_uuid4_ascii: "is_uuid4 s \<Longrightarrow> c \<in> set s \<Longrightarrow> byte c < 128"
proof -
  assume u: "is_uuid4 s" and c: "c \<in> set s"
  have "list_all (\<lambda>c. byte c < 128) ''hhhhhhhh-hhhh-4hhh-vhhh-hhhhhhhhhhhh''" by (simp add: byte_def)
  from shape_chars_ascii [OF u [unfolded is_uuid4_def] this] c show "byte c < 128" by (simp add: list_all_iff)
qed

lemma is_uuid4_chars: "is_uuid4 s \<Longrightarrow> pylen s = 36 \<and> hd s \<noteq> CHR ''s''"
proof -
  assume u: "is_uuid4 s"
  have l: "pylen s = 36"
    using is_uuid4_length [OF u] pylen_ascii [of s] is_uuid4_ascii [OF u] by (simp add: len_length)
  have "\<not> is_hex (CHR ''s'')" by (simp add: is_hex_def is_digit_def byte_def)
  moreover from u obtain c r where "s = c # r" "is_hex c"
    unfolding is_uuid4_def by (cases s) auto
  ultimately show ?thesis using l by auto
qed

text \<open>An identifier is \<open>kk:\<close> and a UUID: the reserved names of the sync credentials never are.\<close>

lemma validate_entry_id_ok [ok_simps]:
  "validate_entry_id v = Inr x \<longleftrightarrow> (\<exists>u. v = JStr (''kk:'' @ u) \<and> is_uuid4 u)"
proof (cases v)
  case (JStr s)
  have "starts_with ''kk:'' s \<and> pylen s = 39 \<and> is_uuid4 (drop 3 s) \<and> \<not> starts_with ''kk:sync-'' s
      \<longleftrightarrow> (\<exists>u. s = ''kk:'' @ u \<and> is_uuid4 u)"
  proof
    assume "\<exists>u. s = ''kk:'' @ u \<and> is_uuid4 u"
    then obtain u where u: "s = ''kk:'' @ u" "is_uuid4 u" by blast
    then show "starts_with ''kk:'' s \<and> pylen s = 39 \<and> is_uuid4 (drop 3 s) \<and> \<not> starts_with ''kk:sync-'' s"
      using is_uuid4_chars [OF u(2)] by (auto simp: starts_with_split continuation_def byte_def)
  qed (auto simp: starts_with_split)
  with JStr show ?thesis by (auto simp: validate_entry_id_def rbind_ok ensure_ok)
qed (simp_all add: validate_entry_id_def)

lemma validate_uuid4_ok [ok_simps]: "validate_uuid4 v = Inr s \<longleftrightarrow> v = JStr s \<and> is_uuid4 s"
  by (cases v) (auto simp: validate_uuid4_def)

lemma validate_text_ok [ok_simps]:
  "validate_text n nl v = Inr s \<longleftrightarrow> v = JStr s \<and> pylen s \<le> n \<and> no_controls nl s"
  by (cases v) (auto simp: validate_text_def rbind_ok ensure_ok)

lemma digits_pattern_chars:
  "digits_pattern p s \<Longrightarrow> list_all (\<lambda>c. 32 < byte c \<and> byte c < 127) p \<Longrightarrow>
     len s = len p \<and> list_all (\<lambda>c. 32 < byte c \<and> byte c < 127) s"
  by (induction p s rule: digits_pattern.induct) (auto simp: is_digit_def split: list.splits if_splits)

text \<open>A timestamp: no control characters, and the digits and separators of a moment that \<open>strptime\<close> accepts.\<close>

definition is_timestamp :: "string \<Rightarrow> bool" where
  "is_timestamp s \<longleftrightarrow> no_controls False s \<and> entry_timestamp_pattern s \<and> strptime_ok s"

lemma validate_timestamp_ok [ok_simps]: "validate_timestamp v = Inr s \<longleftrightarrow> v = JStr s \<and> is_timestamp s"
  using entry_timestamp_pylen [of s]
  by (auto simp: validate_timestamp_def rbind_ok ensure_ok validate_text_ok is_timestamp_def)

lemma ascii_timestamp: "timestamp_pattern s \<Longrightarrow> calendar_ok s \<Longrightarrow> is_timestamp s"
proof -
  assume t: "timestamp_pattern s" and c: "calendar_ok s"
  have p: "digits_pattern ''dddd-dd-ddTdd:dd:ddZ'' s" using t by (simp add: timestamp_pattern_def)
  have "list_all (\<lambda>c. 32 < byte c \<and> byte c < 127) s"
    using digits_pattern_chars [OF p] by (simp add: byte_def)
  then have "no_controls False s" by (auto simp: no_controls_def list_all_iff)
  with timestamp_ascii [OF t c] show "is_timestamp s" by (simp add: is_timestamp_def)
qed

text \<open>The pattern takes the digits of every script, here Arabic ones for the year 2025.\<close>

lemma timestamp_of_other_digits:
  "is_timestamp ([CHR 0xD9, CHR 0xA2, CHR 0xD9, CHR 0xA0, CHR 0xD9, CHR 0xA2, CHR 0xD9, CHR 0xA5] @ ''-01-01T00:00:00Z'')"
proof -
  let ?s = "[CHR 0xD9, CHR 0xA2, CHR 0xD9, CHR 0xA0, CHR 0xD9, CHR 0xA2, CHR 0xD9, CHR 0xA5] @ ''-01-01T00:00:00Z''"
  have c: "code_points ?s = [1634, 1632, 1634, 1637, 45, 48, 49, 45, 48, 49, 84, 48, 48, 58, 48, 48, 58, 48, 48, 90]"
    by (simp add: continuation_def byte_def)
  have d: "decimal_value 1634 = Some 2" "decimal_value 1632 = Some 0" "decimal_value 1637 = Some 5"
    "decimal_value 48 = Some 0" "decimal_value 49 = Some 1"
    by (simp_all add: decimal_value_def decimal_zeros_def)
  have "strptime_ok ?s"
    unfolding strptime_ok_def c by (simp add: ascii_digit_def number_at_def real_moment_def month_days_def d)
  moreover have "entry_timestamp_pattern ?s" unfolding entry_timestamp_pattern_def c by (simp add: d byte_def)
  ultimately show ?thesis by (simp add: is_timestamp_def no_controls_def byte_def)
qed

definition good_host :: "string \<Rightarrow> bool" where
  "good_host h \<longleftrightarrow> pylen h \<le> 253 \<and> no_controls False h \<and> ssh_host_pattern h"

lemma safe_host_iff: "safe_host h \<longleftrightarrow> ssh_host_pattern h"
proof -
  have "\<not> starts_with ''-'' h \<and> CHR ''@'' \<notin> set h" if p: "ssh_host_pattern h"
  proof -
    have s: "shell_safe {CHR ''['', CHR '']''} h" by (rule ssh_host_safe [OF p])
    have "c \<noteq> CHR ''@''" if "c \<in> set h" for c
      using headed_chars [OF p [unfolded ssh_host_pattern_def] that] alnum_safe [of c] by auto
    with s show ?thesis by (auto simp: shell_safe_def starts_with_split)
  qed
  then show ?thesis by (auto simp: safe_host_def)
qed

definition good_user :: "string \<Rightarrow> bool" where
  "good_user u \<longleftrightarrow> pylen u \<le> 64 \<and> no_controls False u \<and> ssh_user_pattern u"

lemma user_start: "ssh_user_pattern u \<Longrightarrow> \<not> starts_with ''-'' u"
  using ssh_user_safe(1) [of u] by (auto simp: shell_safe_def starts_with_split)

text \<open>A port: a number, or at most 4300 ASCII digits.\<close>

definition port_of :: "json \<Rightarrow> int \<Rightarrow> bool" where
  "port_of v n \<longleftrightarrow> v = JInt n \<or> (\<exists>s. v = JStr s \<and> s \<noteq> [] \<and> list_all is_digit s \<and> len s \<le> 4300 \<and> n = dec_int s 0)"

lemma port_number_ok: "port_number v = Inr n \<longleftrightarrow> port_of v n"
  by (cases v) (auto simp: port_number_def port_of_def)

lemma validate_ssh_target_iff:
  "validate_ssh_target host user port = Inr (h, u, n) \<longleftrightarrow>
     host = JStr h \<and> good_host h \<and> user = JStr u \<and> good_user u \<and> port_of port n \<and> 1 \<le> n \<and> n \<le> 65535"
  by (auto simp: validate_ssh_target_def rbind_ok ensure_ok validate_text_ok safe_host_iff port_number_ok user_start
      good_host_def good_user_def)

lemma validate_ssh_target_ok:
  assumes "validate_ssh_target host user port = Inr (h, u, n)"
  shows "host = JStr h \<and> user = JStr u \<and> port_of port n \<and> 1 \<le> n \<and> n \<le> 65535
    \<and> shell_safe {CHR ''['', CHR '']''} h \<and> shell_safe {} u \<and> CHR ''@'' \<notin> set h \<union> set u"
proof -
  have "ssh_host_pattern h" "ssh_user_pattern u" and r: "host = JStr h" "user = JStr u" "port_of port n" "1 \<le> n" "n \<le> 65535"
    using assms by (auto simp: validate_ssh_target_iff good_host_def good_user_def)
  then show ?thesis
    using ssh_host_safe [of h] ssh_user_safe [of u] safe_host_iff [of h] by (auto simp: safe_host_def)
qed

text \<open>Where an entry comes from: nothing, a source, or a submission named by four identifiers.\<close>

definition provenance_ok :: "json \<Rightarrow> bool" where
  "provenance_ok v \<longleftrightarrow> v = JNull
     \<or> (exact_keys [''source''] v \<and> fld v ''source'' \<in> {JStr ''local'', JStr ''legacy_migration''})
     \<or> (exact_keys (''source'' # SUBMISSION_KEYS) v \<and> fld v ''source'' = JStr ''project_submission''
        \<and> (\<forall>k \<in> set SUBMISSION_KEYS. \<exists>u. fld v k = JStr u \<and> is_uuid4 u))"

lemma validate_provenance_cases:
  "validate_provenance v = Inr w \<longleftrightarrow> w = v \<and> (v = JNull
     \<or> (exact_keys [''source''] v \<and> fld v ''source'' \<in> {JStr ''local'', JStr ''legacy_migration''})
     \<or> (exact_keys (''source'' # SUBMISSION_KEYS) v \<and> fld v ''source'' = JStr ''project_submission''
        \<and> (\<forall>k \<in> set SUBMISSION_KEYS. \<exists>u. fld v k = JStr u \<and> is_uuid4 u)))"
proof (cases "v = JNull")
  case False
  show ?thesis
  proof (cases "is_obj v")
    case True
    then show ?thesis
      using False by (cases "fld v ''source''")
        (auto simp: validate_provenance_def Let_def member_of_def rbind_ok ensure_ok each_ok validate_uuid4_ok)
  qed (use False in \<open>auto simp: validate_provenance_def exact_keys_def\<close>)
qed (auto simp: validate_provenance_def exact_keys_def)

lemma validate_provenance_ok [ok_simps]: "validate_provenance v = Inr w \<longleftrightarrow> w = v \<and> provenance_ok v"
  unfolding provenance_ok_def by (rule validate_provenance_cases)

section \<open>The fields of an entry\<close>

text \<open>What the type of the entry asks of its fields.\<close>

definition typed_ok :: "entry_type \<Rightarrow> json \<Rightarrow> bool" where
  "typed_ok t v \<longleftrightarrow> (case t of
       API_KEY \<Rightarrow> True
     | SSH_KEY \<Rightarrow> has_key v ''public_key'' \<and> (\<exists>k. fld v ''public_key'' = JStr k \<and> pylen k \<le> 16384 \<and> no_controls True k)
     | SERVER \<Rightarrow> has_key v ''host'' \<and> has_key v ''user'' \<and> has_key v ''auth''
         \<and> (\<exists>h u n. fld v ''host'' = JStr h \<and> good_host h \<and> fld v ''user'' = JStr u \<and> good_user u
              \<and> port_of (get_or (JInt 22) v ''port'') n \<and> 1 \<le> n \<and> n \<le> 65535)
         \<and> fld v ''auth'' \<in> {JStr ''ssh_key'', JStr ''password'', JStr ''none''}
     | DOMAIN \<Rightarrow> has_key v ''host'' \<and> (\<exists>h. fld v ''host'' = JStr h \<and> good_host h)
     | NOTE \<Rightarrow> has_key v ''secret_body'' \<and> fld v ''secret_body'' \<in> {JBool True, JBool False}
         \<and> (has_key v ''body'' \<longrightarrow> fld v ''secret_body'' = JBool False
              \<and> (\<exists>b. fld v ''body'' = JStr b \<and> pylen b \<le> 65536 \<and> no_controls True b)))"

text \<open>Fields: at most 64 well-named members whose JSON text has at most 131072 characters and no NaN or infinity.\<close>

definition fields_ok :: "entry_type \<Rightarrow> json \<Rightarrow> bool" where
  "fields_ok t v \<longleftrightarrow> is_obj v \<and> len (members v) \<le> 64 \<and> (\<forall>kv \<in> set (members v). field_key_pattern (fst kv))
     \<and> finite_json v \<and> pylen (default_text v) \<le> 131072 \<and> typed_ok t v"

lemma check_server_ok: "check_server v = Inr u \<longleftrightarrow>
    (\<exists>h u n. fld v ''host'' = JStr h \<and> good_host h \<and> get_or (JStr ''root'') v ''user'' = JStr u \<and> good_user u
       \<and> port_of (get_or (JInt 22) v ''port'') n \<and> 1 \<le> n \<and> n \<le> 65535)
    \<and> fld v ''auth'' \<in> {JStr ''ssh_key'', JStr ''password'', JStr ''none''}"
  by (auto simp: check_server_def rbind_ok ensure_ok validate_ssh_target_iff split_paired_Ex)

lemma typed_ok_iff:
  "(\<forall>k \<in> set (required_fields t). has_key v k) \<and> check_typed t v = Inr () \<longleftrightarrow> typed_ok t v"
  by (cases t) (auto simp: typed_ok_def rbind_ok ensure_ok validate_text_ok check_server_ok check_note_def get_or_def
      good_host_def safe_host_iff split: if_splits)

lemma validate_fields_iff: "validate_fields t v = Inr w \<longleftrightarrow> w = v \<and> fields_ok t v"
  using typed_ok_iff [of t v] by (auto simp: validate_fields_def rbind_ok ensure_ok each_ok fields_ok_def)

lemma validate_fields_check: "is_ok (validate_fields t v) \<longleftrightarrow> fields_ok t v"
  by (auto simp: is_ok_iff validate_fields_iff)

lemma validate_fields_ok: "validate_fields t v = Inr w \<Longrightarrow> w = v"
  by (simp add: validate_fields_iff)

section \<open>Tags and references\<close>

lemma validate_tag_ok [ok_simps]: "validate_tag v = Inr w \<longleftrightarrow> w = v \<and> (\<exists>s. v = JStr s \<and> pylen s \<le> 64 \<and> no_controls False s)"
  by (auto simp: validate_tag_def rbind_ok validate_text_ok)

definition wf_ref :: "json \<Rightarrow> bool" where
  "wf_ref r \<longleftrightarrow> (\<exists>role name. r = JObj [(''role'', JStr role), (''name'', JStr name)] \<and> ref_role_pattern role
     \<and> 2 \<le> pylen name \<and> pylen name \<le> 64 \<and> name_pattern name)"

lemma validate_ref_ok: "validate_ref v = Inr w \<Longrightarrow> wf_ref w"
  by (auto simp: validate_ref_def rbind_ok ensure_ok validate_name_ok wf_ref_def split: json.splits)

lemma validate_ref_wf: "wf_ref w \<Longrightarrow> validate_ref w = Inr w"
  by (auto simp: validate_ref_def wf_ref_def exact_keys_def fld_def rbind_ok ensure_ok validate_name_def)

lemma rmap_fix: "(\<And>x. x \<in> set xs \<Longrightarrow> f x = Inr x) \<Longrightarrow> rmap f xs = Inr xs"
  using rmap_Inr_all [of xs f id] by simp

lemma validate_refs_ok: "validate_refs v = Inr rs \<Longrightarrow> len rs \<le> 64 \<and> (\<forall>r \<in> set rs. wf_ref r)"
  by (cases v) (auto simp: validate_refs_def rbind_ok ensure_ok len_length dest: rmap_length rmap_set validate_ref_ok)

lemma validate_refs_wf: "len rs \<le> 64 \<Longrightarrow> \<forall>r \<in> set rs. wf_ref r \<Longrightarrow> validate_refs (JList rs) = Inr rs"
  by (simp add: validate_refs_def rmap_fix validate_ref_wf)

lemma validate_tags_ok:
  "validate_tags v = Inr ts \<longleftrightarrow> v = JList ts \<and> len ts \<le> 64
     \<and> (\<forall>t \<in> set ts. \<exists>s. t = JStr s \<and> pylen s \<le> 64 \<and> no_controls False s)"
proof (cases v)
  case (JList l)
  have "rmap validate_tag l = Inr ts \<longleftrightarrow> ts = l \<and> (\<forall>t \<in> set l. validate_tag t = Inr t)"
  proof
    assume r: "rmap validate_tag l = Inr ts"
    then have "list_all2 (=) l ts" unfolding rmap_ok by (rule list_all2_mono) (auto simp: validate_tag_ok)
    with r show "ts = l \<and> (\<forall>t \<in> set l. validate_tag t = Inr t)"
      by (auto simp: list.rel_eq rmap_ok list_all2_same)
  qed (auto simp: rmap_fix)
  with JList show ?thesis by (auto simp: validate_tags_def rbind_ok ensure_ok validate_tag_ok)
qed (simp_all add: validate_tags_def)

section \<open>Well-formed entries\<close>

definition wf_entry :: "entry \<Rightarrow> bool" where
  "wf_entry e \<longleftrightarrow> (\<exists>u. e_id e = ''kk:'' @ u \<and> is_uuid4 u)
     \<and> 2 \<le> pylen (e_name e) \<and> pylen (e_name e) \<le> 64 \<and> name_pattern (e_name e)
     \<and> fields_ok (e_type e) (e_fields e)
     \<and> len (e_tags e) \<le> 64 \<and> (\<forall>t \<in> set (e_tags e). \<exists>s. t = JStr s \<and> pylen s \<le> 64 \<and> no_controls False s)
     \<and> (\<exists>n. e_note e = JStr n \<and> pylen n \<le> 16384 \<and> no_controls True n)
     \<and> len (e_refs e) \<le> 64 \<and> (\<forall>r \<in> set (e_refs e). wf_ref r)
     \<and> (\<exists>s. e_created e = JStr s \<and> is_timestamp s) \<and> (\<exists>s. e_updated e = JStr s \<and> is_timestamp s)
     \<and> (e_folder e = JNull \<or> (\<exists>u. e_folder e = JStr u \<and> is_uuid4 u))
     \<and> e_distribution e \<in> {JStr ''local_only'', JStr ''project_allowed''}
     \<and> provenance_ok (e_provenance e)
     \<and> (e_revision e = JNull \<or> (\<exists>u. e_revision e = JStr u \<and> is_uuid4 u))"

lemma optional_uuid_ok: "optional_uuid v = Inr x \<longleftrightarrow> v = JNull \<or> (\<exists>u. v = JStr u \<and> is_uuid4 u)"
  by (auto simp: optional_uuid_def rbind_ok validate_uuid4_ok)

lemma member_of_ok: "member_of xs v = Inr True \<longleftrightarrow> (\<exists>s \<in> set xs. v = JStr s)"
  by (cases v) (auto simp: member_of_def)

lemma entry_type_of_ok: "entry_type_of v = Some t \<longleftrightarrow> v = JStr (type_value t)"
  by (cases v; cases t) (auto simp: entry_type_of_def split: if_splits)

lemma type_case_ok: "(case entry_type_of v of None \<Rightarrow> Inl Invalid | Some t \<Rightarrow> Inr t) = Inr t \<longleftrightarrow> v = JStr (type_value t)"
  using entry_type_of_ok [of v t] by (cases "entry_type_of v") auto

text \<open>Everything an accepted record is.\<close>

lemma from_untrusted_dict_D:
  assumes "from_untrusted_dict secrets proj d = Inr e"
  shows "wf_entry e" and "fld d ''id'' = JStr (e_id e)" and "fld d ''name'' = JStr (e_name e)"
    and "fld d ''type'' = JStr (type_value (e_type e))" and "is_obj d"
    and "e_fields e = get_or (JObj []) d ''fields''" and "JList (e_tags e) = get_or (JList []) d ''tags''"
    and "e_note e = get_or (JStr []) d ''note''" and "validate_refs (get_or (JList []) d ''refs'') = Inr (e_refs e)"
    and "e_created e = fld d ''created_at''" and "e_updated e = fld d ''updated_at''"
proof -
  from assms obtain t fs tags nt refs created updated prov u1 u2 u3 u4 where
    1: "is_obj d" "validate_entry_id (fld d ''id'') = Inr u1" "validate_name (fld d ''name'') = Inr u2"
    "(case entry_type_of (fld d ''type'') of None \<Rightarrow> Inl Invalid | Some t \<Rightarrow> Inr t) = Inr t"
    and 2: "validate_fields t (get_or (JObj []) d ''fields'') = Inr fs" "validate_tags (get_or (JList []) d ''tags'') = Inr tags"
    "validate_text 16384 True (get_or (JStr []) d ''note'') = Inr nt" "validate_refs (get_or (JList []) d ''refs'') = Inr refs"
    and 3: "validate_timestamp (fld d ''created_at'') = Inr created" "validate_timestamp (fld d ''updated_at'') = Inr updated"
    "optional_uuid (fld d ''folder_id'') = Inr u3" "optional_uuid (fld d ''content_revision'') = Inr u4"
    "member_of [''local_only'', ''project_allowed''] (get_or (JStr ''local_only'') d ''distribution'') = Inr True"
    and 4: "validate_provenance (fld d ''provenance'') = Inr prov"
    and e: "e = \<lparr>e_id = text_of (fld d ''id''), e_name = text_of (fld d ''name''), e_type = t, e_fields = fs, e_tags = tags,
          e_note = JStr nt, e_refs = refs, e_created = JStr created, e_updated = JStr updated,
          e_folder = fld d ''folder_id'', e_distribution = get_or (JStr ''local_only'') d ''distribution'',
          e_provenance = prov, e_revision = fld d ''content_revision''\<rparr>"
    unfolding from_untrusted_dict_def by (auto simp only: rbind_ok ensure_ok sum.inject)
  have f: "e_type e = t" "e_fields e = fs" "e_tags e = tags" "e_note e = JStr nt" "e_refs e = refs"
    "e_created e = JStr created" "e_updated e = JStr updated" "e_id e = text_of (fld d ''id'')" "e_name e = text_of (fld d ''name'')"
    "e_folder e = fld d ''folder_id''" "e_distribution e = get_or (JStr ''local_only'') d ''distribution''"
    "e_revision e = fld d ''content_revision''" "e_provenance e = prov"
    by (subst e, simp)+
  show "is_obj d" by (rule 1)
  show i: "fld d ''id'' = JStr (e_id e)" "fld d ''name'' = JStr (e_name e)" using 1 f by (auto simp: validate_entry_id_ok validate_name_ok)
  show "fld d ''type'' = JStr (type_value (e_type e))" using 1(4) f by (simp add: type_case_ok)
  show g: "e_fields e = get_or (JObj []) d ''fields''" using 2(1) f by (simp add: validate_fields_iff)
  show "JList (e_tags e) = get_or (JList []) d ''tags''" using 2(2) f by (simp add: validate_tags_ok)
  show "e_note e = get_or (JStr []) d ''note''" using 2(3) f by (simp add: validate_text_ok)
  show "validate_refs (get_or (JList []) d ''refs'') = Inr (e_refs e)" using 2(4) f by simp
  show "e_created e = fld d ''created_at''" "e_updated e = fld d ''updated_at''" using 3 f by (simp_all add: validate_timestamp_ok)
  have "fields_ok (e_type e) (e_fields e)" using 2(1) f g by (simp add: validate_fields_iff)
  moreover have "\<exists>u. e_id e = ''kk:'' @ u \<and> is_uuid4 u" using 1(2) i by (auto simp: validate_entry_id_ok)
  moreover have "2 \<le> pylen (e_name e) \<and> pylen (e_name e) \<le> 64 \<and> name_pattern (e_name e)" using 1(3) i by (auto simp: validate_name_ok)
  moreover have "provenance_ok (e_provenance e)" using 4 f by (simp add: validate_provenance_ok)
  moreover note validate_refs_ok [OF 2(4)]
  ultimately show "wf_entry e"
    using 2(2,3) 3 f by (auto simp: wf_entry_def validate_tags_ok validate_text_ok validate_timestamp_ok optional_uuid_ok member_of_ok)
qed

text \<open>The project fields of an entry are written only when they are set.\<close>

lemma entry_to_dict_fld:
  "fld (entry_to_dict e) ''id'' = JStr (e_id e)" "fld (entry_to_dict e) ''name'' = JStr (e_name e)"
  "fld (entry_to_dict e) ''type'' = JStr (type_value (e_type e))" "get_or d (entry_to_dict e) ''fields'' = e_fields e"
  "get_or d (entry_to_dict e) ''tags'' = JList (e_tags e)" "get_or d (entry_to_dict e) ''note'' = e_note e"
  "get_or d (entry_to_dict e) ''refs'' = JList (e_refs e)" "fld (entry_to_dict e) ''created_at'' = e_created e"
  "fld (entry_to_dict e) ''updated_at'' = e_updated e" "fld (entry_to_dict e) ''folder_id'' = e_folder e"
  "get_or (JStr ''local_only'') (entry_to_dict e) ''distribution'' = e_distribution e"
  "fld (entry_to_dict e) ''provenance'' = e_provenance e" "fld (entry_to_dict e) ''content_revision'' = e_revision e"
  "is_obj (entry_to_dict e)"
  by (auto simp: entry_to_dict_def fld_def get_or_def has_key_def)

lemma entry_to_dict_keys:
  "k \<in> set (map fst (members (entry_to_dict e))) \<Longrightarrow> k \<in> set (LEGACY_ENTRY_KEYS @ PROJECT_ENTRY_KEYS)"
  "k \<in> set REQUIRED_ENTRY_KEYS \<Longrightarrow> has_key (entry_to_dict e) k"
  by (auto simp: entry_to_dict_def has_key_def split: if_splits)

text \<open>Writing an entry and validating what was written gives the entry back.\<close>

lemma from_untrusted_to_dict:
  assumes "wf_entry e"
  shows "from_untrusted_dict False True (entry_to_dict e) = Inr e"
proof -
  from assms obtain u where u: "e_id e = ''kk:'' @ u" "is_uuid4 u" by (auto simp: wf_entry_def)
  have n: "validate_entry_id (JStr (e_id e)) = Inr ()" "validate_name (JStr (e_name e)) = Inr ()"
    using assms u by (auto simp: validate_entry_id_ok validate_name_ok wf_entry_def)
  have t: "(case entry_type_of (JStr (type_value (e_type e))) of None \<Rightarrow> Inl Invalid | Some t \<Rightarrow> Inr t) = Inr (e_type e)"
    by (simp add: type_case_ok)
  have f: "validate_fields (e_type e) (e_fields e) = Inr (e_fields e)" "validate_tags (JList (e_tags e)) = Inr (e_tags e)"
    "validate_refs (JList (e_refs e)) = Inr (e_refs e)"
    using assms by (simp_all add: wf_entry_def validate_tags_ok validate_refs_wf validate_fields_iff)
  from assms obtain nt c w where o': "e_note e = JStr nt" "validate_text 16384 True (JStr nt) = Inr nt"
    "e_created e = JStr c" "validate_timestamp (JStr c) = Inr c" "e_updated e = JStr w" "validate_timestamp (JStr w) = Inr w"
    by (auto simp: wf_entry_def validate_text_ok validate_timestamp_ok)
  have p: "optional_uuid (e_folder e) = Inr ()" "optional_uuid (e_revision e) = Inr ()"
    "member_of [''local_only'', ''project_allowed''] (e_distribution e) = Inr True"
    "validate_provenance (e_provenance e) = Inr (e_provenance e)"
    using assms by (auto simp: wf_entry_def optional_uuid_ok member_of_ok validate_provenance_ok)
  have k: "\<forall>k \<in> set (map fst (members (entry_to_dict e))). k \<in> set (LEGACY_ENTRY_KEYS @ [] @ PROJECT_ENTRY_KEYS)"
    "\<forall>k \<in> set REQUIRED_ENTRY_KEYS. has_key (entry_to_dict e) k"
    using entry_to_dict_keys [of _ e] by (simp_all only: append_Nil) blast+
  show ?thesis
    unfolding from_untrusted_dict_def if_True if_False
    using k by (simp only: entry_to_dict_fld ensure_True rbind_Inr n t f o' p simp_thms text_of.simps)
      (cases e; use o'(1,3,5) in simp)
qed

section \<open>New entries\<close>

lemma new_entry_D:
  assumes "new_entry fresh now name t fs tags nt refs = Inr e" and "is_uuid4 fresh" and "is_timestamp now" and "len tags \<le> 64"
  shows "wf_entry e"
proof -
  have "\<forall>x \<in> set ts. \<exists>s. x = JStr s \<and> pylen s \<le> 64 \<and> no_controls False s" if "rmap validate_tag tags = Inr ts" for ts
    using rmap_set [OF that] by (auto simp: validate_tag_ok)
  then show ?thesis
    using assms unfolding new_entry_def
    by (auto simp: rbind_ok validate_name_ok validate_text_ok wf_entry_def provenance_ok_def len_length
        validate_fields_iff dest: validate_refs_ok rmap_length)
qed

text \<open>\<open>Entry.new\<close> does not count the tags: with more than 64 of them it makes an entry that no reader accepts.\<close>

lemma new_entry_many_tags:
  assumes "new_entry fresh now name t fs tags nt refs = Inr e" and "64 < len tags"
  shows "from_untrusted_dict secrets True (entry_to_dict e) \<noteq> Inr e'"
proof
  assume "from_untrusted_dict secrets True (entry_to_dict e) = Inr e'"
  from from_untrusted_dict_D(7) [OF this] from_untrusted_dict_D(1) [OF this] have "len (e_tags e) \<le> 64"
    by (simp add: entry_to_dict_fld wf_entry_def)
  moreover have "len (e_tags e) = len tags"
    using assms(1) by (auto simp: new_entry_def rbind_ok len_length dest: rmap_length)
  ultimately show False using assms(2) by simp
qed

section \<open>Snapshot payloads\<close>

lemma list_all2_zip_in: "list_all2 R xs ys \<Longrightarrow> y \<in> set ys \<Longrightarrow> \<exists>x. (y, x) \<in> set (zip ys xs) \<and> R x y"
  by (fastforce simp: list_all2_conv_all_nth in_set_conv_nth set_zip)

lemma validate_snapshot_payload_D:
  assumes "validate_snapshot_payload p = Inr (es, ts)"
  shows "distinct (map e_id es)" and "\<forall>e \<in> set es. wf_entry e" and "len es \<le> 10000" and "len ts \<le> 20000"
    and "\<forall>e \<in> set es. entry_requires_secret e \<longrightarrow> (\<exists>d \<in> set (items (fld p ''entries'')).
           from_untrusted_dict True False d = Inr e \<and> fld d ''_secret'' \<noteq> JNull)"
proof -
  from assms obtain records dead where r: "fld p ''entries'' = JList records" "len records \<le> 10000"
    and es: "rmap (from_untrusted_dict True False) records = Inr es" and d: "distinct (map e_id es)"
    and sec: "\<not> (\<exists>er \<in> set (zip es records). entry_requires_secret (fst er) \<and> fld (snd er) ''_secret'' = JNull)"
    and ts: "rmap validate_tombstone dead = Inr ts" "len dead \<le> 20000"
    by (auto simp: validate_snapshot_payload_def rbind_ok ensure_ok split: json.splits if_splits)
  show "distinct (map e_id es)" by (rule d)
  show "\<forall>e \<in> set es. wf_entry e" using rmap_set [OF es] from_untrusted_dict_D(1) by blast
  show "len es \<le> 10000" "len ts \<le> 20000" using rmap_length [OF es] rmap_length [OF ts(1)] r(2) ts(2) by (simp_all add: len_length)
  show "\<forall>e \<in> set es. entry_requires_secret e \<longrightarrow> (\<exists>d \<in> set (items (fld p ''entries'')).
           from_untrusted_dict True False d = Inr e \<and> fld d ''_secret'' \<noteq> JNull)"
  proof (intro ballI impI)
    fix e assume e: "e \<in> set es" "entry_requires_secret e"
    from list_all2_zip_in [OF es [unfolded rmap_ok] e(1)] obtain x where
      x: "(e, x) \<in> set (zip es records)" "from_untrusted_dict True False x = Inr e" by blast
    with sec e(2) have "fld x ''_secret'' \<noteq> JNull" by force
    moreover have "x \<in> set records" using x(1) by (rule set_zip_rightD)
    ultimately show "\<exists>d \<in> set (items (fld p ''entries'')). from_untrusted_dict True False d = Inr e \<and> fld d ''_secret'' \<noteq> JNull"
      using x(2) r(1) by auto
  qed
qed

section \<open>A record that crashes the validation\<close>

lemma fld_put: "fld (JObj (put k x m)) k' = (if k' = k then x else fld (JObj m) k')"
  by (simp add: fld_def map_of_put)

lemma keys_put: "set (map fst (put k x m)) = insert k (set (map fst m))"
  by (force simp: put_def)

lemma get_or_put: "k' \<noteq> k \<Longrightarrow> get_or v (JObj (put k x m)) k' = get_or v (JObj m) k'"
  using fld_put [of k x m k'] keys_put [of k x m] by (simp add: get_or_def has_key_def)

text \<open>A list for \<open>distribution\<close> is not rejected: looking it up in a set raises \<open>TypeError\<close>, which
  no caller that handles \<open>ValidationError\<close> catches.\<close>

lemma unhashable_distribution:
  assumes "from_untrusted_dict secrets True d = Inr e"
  shows "from_untrusted_dict secrets True (JObj (put ''distribution'' (JList l) (members d))) = Inl Type_err"
proof -
  let ?d = "JObj (put ''distribution'' (JList l) (members d))"
  obtain m where d: "d = JObj m" using from_untrusted_dict_D(5) [OF assms] by (cases d) simp_all
  have f: "fld ?d k = fld d k" "get_or v ?d k = get_or v d k" if "k \<noteq> ''distribution''" for k v
    using that by (simp_all add: fld_put get_or_put d)
  have ff: "fld ?d ''id'' = fld d ''id''" "fld ?d ''name'' = fld d ''name''" "fld ?d ''type'' = fld d ''type''"
    "get_or v ?d ''fields'' = get_or v d ''fields''" "get_or v ?d ''tags'' = get_or v d ''tags''"
    "get_or v ?d ''note'' = get_or v d ''note''" "get_or v ?d ''refs'' = get_or v d ''refs''"
    "fld ?d ''created_at'' = fld d ''created_at''" "fld ?d ''updated_at'' = fld d ''updated_at''"
    "fld ?d ''folder_id'' = fld d ''folder_id''" for v
    by (rule f, simp)+
  have g: "get_or v ?d ''distribution'' = JList l" for v
    using keys_put [of "''distribution''" "JList l" m] by (simp add: get_or_def has_key_def fld_put d)
  have h: "has_key ?d k" if "has_key d k" for k
    using that keys_put [of "''distribution''" "JList l" m] by (auto simp: has_key_def d)
  from assms obtain t fs tags nt refs created updated u1 u2 u3 where
    1: "\<forall>k \<in> set (map fst (members d)). k \<in> set (LEGACY_ENTRY_KEYS @ (if secrets then SECRET_KEYS else []) @ (if True then PROJECT_ENTRY_KEYS else []))"
    "\<forall>k \<in> set REQUIRED_ENTRY_KEYS. has_key d k"
    and 2: "validate_entry_id (fld d ''id'') = Inr u1" "validate_name (fld d ''name'') = Inr u2"
    "(case entry_type_of (fld d ''type'') of None \<Rightarrow> Inl Invalid | Some t \<Rightarrow> Inr t) = Inr t"
    "validate_fields t (get_or (JObj []) d ''fields'') = Inr fs" "validate_tags (get_or (JList []) d ''tags'') = Inr tags"
    "validate_text 16384 True (get_or (JStr []) d ''note'') = Inr nt" "validate_refs (get_or (JList []) d ''refs'') = Inr refs"
    "validate_timestamp (fld d ''created_at'') = Inr created" "validate_timestamp (fld d ''updated_at'') = Inr updated"
    "optional_uuid (fld d ''folder_id'') = Inr u3"
    unfolding from_untrusted_dict_def by (auto simp only: rbind_ok ensure_ok sum.inject)
  have k: "\<forall>k \<in> set (map fst (members ?d)). k \<in> set (LEGACY_ENTRY_KEYS @ (if secrets then SECRET_KEYS else []) @ (if True then PROJECT_ENTRY_KEYS else []))"
    "\<forall>k \<in> set REQUIRED_ENTRY_KEYS. has_key ?d k"
    using 1 h unfolding members.simps keys_put d by (simp_all only: ball_simps) auto
  show ?thesis
    unfolding from_untrusted_dict_def using k 2
    by (simp only: is_obj.simps ensure_True rbind_Inr ff g member_of_def json.case rbind_Inl) simp
qed

end
