(* ===== verification/Refs.thy ===== *)
theory Refs
  imports Entry_Proofs
begin

text \<open>
  References between entries (\<open>refs.py\<close>): the iterative depth-first search for cycles, the
  reverse map and the resolution of a role. The search is equivalent to acyclicity of the
  reference graph.
\<close>

section \<open>Definitions\<close>

datatype ref_error = Cycle "string list" | Missing | Ref_type

datatype colour = White | Gray | Black

type_synonym colours = "(string \<times> colour) list"
type_synonym frame = "string \<times> json list"
type_synonym dfs = "colours \<times> string list \<times> frame list"

definition set_colour :: "string \<Rightarrow> colour \<Rightarrow> colours \<Rightarrow> colours" where
  "set_colour n x c = map (\<lambda>(k, v). (k, if k = n then x else v)) c"

text \<open>\<open>by_name[n].refs\<close>: of two entries with one name the later one counts.\<close>

definition refs_named :: "entry list \<Rightarrow> string \<Rightarrow> json list" where
  "refs_named es n = (case map_of (rev (map (\<lambda>e. (e_name e, e_refs e)) es)) n of None \<Rightarrow> [] | Some r \<Rightarrow> r)"

text \<open>\<open>next(refs).get("name")\<close>, as a string when it is one; what cannot be hashed raises.\<close>

definition ref_target :: "json \<Rightarrow> ref_error + string option" where
  "ref_target r = (if \<not> is_obj r then Inl Ref_type
     else (case fld r ''name'' of JStr t \<Rightarrow> Inr (Some t) | JList _ \<Rightarrow> Inl Ref_type | JObj _ \<Rightarrow> Inl Ref_type | _ \<Rightarrow> Inr None))"

text \<open>One turn of the inner loop, on the frame at the top of the stack.\<close>

definition visit :: "(string \<Rightarrow> json list) \<Rightarrow> colours \<Rightarrow> string list \<Rightarrow> string \<Rightarrow> json list \<Rightarrow> frame list \<Rightarrow> string \<Rightarrow> ref_error + dfs" where
  "visit refs c path n rest st t =
     (if t = n then Inl (Cycle [n])
      else if map_of c t = Some Gray then Inl (Cycle (path @ [t]))
      else if map_of c t = Some White then Inr (set_colour t Gray c, path @ [t], (t, refs t) # (n, rest) # st)
      else Inr (c, path, (n, rest) # st))"

definition dfs_step :: "(string \<Rightarrow> json list) \<Rightarrow> colours \<Rightarrow> string list \<Rightarrow> frame \<Rightarrow> frame list \<Rightarrow> ref_error + dfs" where
  "dfs_step refs c path f st =
     (case snd f of
        [] \<Rightarrow> Inr (set_colour (fst f) Black c, butlast path, st)
      | r # rest \<Rightarrow>
          rbind (ref_target r) (\<lambda>target.
          (case target of
             None \<Rightarrow> Inr (c, path, (fst f, rest) # st)
           | Some t \<Rightarrow> visit refs c path (fst f) rest st t)))"

definition dfs_weight :: "(string \<Rightarrow> json list) \<Rightarrow> colours \<Rightarrow> frame list \<Rightarrow> nat" where
  "dfs_weight refs c st = sum_list (map (\<lambda>(n, v). if v = White then 2 + length (refs n) else 0) c)
     + sum_list (map (\<lambda>f. 1 + length (snd f)) st)"

lemma white_weight:
  assumes "map_of c t = Some White" and "x \<noteq> White"
  shows "sum_list (map (\<lambda>(n, v). if v = White then 2 + length (refs n) else (0::nat)) (set_colour t x c)) + 2 + length (refs t)
    \<le> sum_list (map (\<lambda>(n, v). if v = White then 2 + length (refs n) else 0) c)"
proof -
  have le: "sum_list (map (\<lambda>(n, v). if v = White then 2 + length (refs n) else (0::nat)) (set_colour t x d))
    \<le> sum_list (map (\<lambda>(n, v). if v = White then 2 + length (refs n) else 0) d)" for d
    using assms(2) by (induction d) (auto simp: set_colour_def)
  show ?thesis
    using assms
  proof (induction c)
    case (Cons a c)
    show ?case
    proof (cases "fst a = t")
      case True
      with Cons.prems le [of c] show ?thesis by (cases a) (auto simp: set_colour_def)
    next
      case False
      with Cons show ?thesis by (cases a) (auto simp: set_colour_def)
    qed
  qed simp
qed

lemma black_weight:
  "sum_list (map (\<lambda>(n, v). if v = White then 2 + length (refs n) else (0::nat)) (set_colour t Black c))
    \<le> sum_list (map (\<lambda>(n, v). if v = White then 2 + length (refs n) else 0) c)"
  by (induction c) (auto simp: set_colour_def)

lemma dfs_step_decreases:
  assumes "dfs_step refs c path f st = Inr (c', path', st')"
  shows "dfs_weight refs c' st' < dfs_weight refs c (f # st)"
proof (cases "snd f")
  case Nil
  with assms black_weight [of refs "fst f" c] show ?thesis by (auto simp: dfs_step_def dfs_weight_def)
next
  case (Cons r rest)
  with assms show ?thesis using white_weight [of c _ Gray refs]
    by (auto simp: dfs_step_def dfs_weight_def rbind_ok visit_def split: option.splits if_splits) fastforce
qed

function run_dfs :: "(string \<Rightarrow> json list) \<Rightarrow> colours \<Rightarrow> string list \<Rightarrow> frame list \<Rightarrow> ref_error + colours" where
  "run_dfs refs c path [] = Inr c"
| "run_dfs refs c path (f # st) =
     (case dfs_step refs c path f st of Inl e \<Rightarrow> Inl e | Inr s \<Rightarrow> run_dfs refs (fst s) (fst (snd s)) (snd (snd s)))"
  by pat_completeness auto
termination
  by (relation "measure (\<lambda>(refs, c, _, st). dfs_weight refs c st)") (use dfs_step_decreases in auto)

definition dfs_from :: "(string \<Rightarrow> json list) \<Rightarrow> entry \<Rightarrow> colours \<Rightarrow> ref_error + colours" where
  "dfs_from refs e c =
     (if map_of c (e_name e) \<noteq> Some White then Inr c
      else run_dfs refs (set_colour (e_name e) Gray c) [e_name e] [(e_name e, refs (e_name e))])"

definition all_white :: "entry list \<Rightarrow> colours" where
  "all_white es = map (\<lambda>n. (n, White)) (remdups (map e_name es))"

definition detect_cycles :: "entry list \<Rightarrow> ref_error + unit" where
  "detect_cycles es = rbind (rfold (dfs_from (refs_named es)) es (all_white es)) (\<lambda>_. Inr ())"

text \<open>\<open>reverse_refs\<close>: who refers to a name.\<close>

definition ref_names :: "entry \<Rightarrow> string list" where
  "ref_names e = concat (map (\<lambda>r. case fld r ''name'' of JStr t \<Rightarrow> if t = [] then [] else [t] | _ \<Rightarrow> []) (e_refs e))"

definition reverse_refs :: "entry list \<Rightarrow> string \<Rightarrow> string list option" where
  "reverse_refs es t =
     (let ns = concat (map (\<lambda>e. map (\<lambda>_. e_name e) (filter (\<lambda>n. n = t) (ref_names e))) es)
      in if ns = [] then None else Some ns)"

definition entry_named :: "entry list \<Rightarrow> string \<Rightarrow> entry option" where
  "entry_named es n = map_of (rev (map (\<lambda>e. (e_name e, e)) es)) n"

definition resolve_chain :: "entry list \<Rightarrow> string \<Rightarrow> string \<Rightarrow> ref_error + entry" where
  "resolve_chain es from_name role =
     (case entry_named es from_name of None \<Rightarrow> Inl Missing
      | Some src \<Rightarrow>
          (case find (\<lambda>r. fld r ''role'' = JStr role) (e_refs src) of None \<Rightarrow> Inl Missing
           | Some r \<Rightarrow>
               rbind (ref_target r) (\<lambda>target.
               (case target of None \<Rightarrow> Inl Missing
                | Some t \<Rightarrow> (case entry_named es t of None \<Rightarrow> Inl Missing | Some e \<Rightarrow> Inr e)))))"

section \<open>The reference graph\<close>

definition targets :: "json list \<Rightarrow> string set" where
  "targets rs = {t. \<exists>r \<in> set rs. ref_target r = Inr (Some t)}"

definition ref_graph :: "(string \<Rightarrow> json list) \<Rightarrow> string set \<Rightarrow> (string \<times> string) set" where
  "ref_graph refs names = {(n, t). n \<in> names \<and> t \<in> names \<and> t \<in> targets (refs n)}"

lemma targets_simps [simp]: "targets [] = {}"
  "targets (r # rs) = (case ref_target r of Inr (Some t) \<Rightarrow> insert t (targets rs) | _ \<Rightarrow> targets rs)"
  "targets (xs @ ys) = targets xs \<union> targets ys"
  by (auto simp: targets_def split: sum.split option.split)

lemma set_colour_of: "map_of (set_colour n x c) k = (if k = n then map_option (\<lambda>_. x) (map_of c k) else map_of c k)"
  by (induction c) (auto simp: set_colour_def)

lemma set_colour_keys [simp]: "map fst (set_colour n x c) = map fst c"
  by (auto simp: set_colour_def)

section \<open>The invariant of the search\<close>

text \<open>
  The frames below the top: what each has consumed is finished or lies right above it on
  the stack. \<open>ab\<close> is the name of the frame above.
\<close>

fun frames_ok :: "(string \<Rightarrow> json list) \<Rightarrow> colours \<Rightarrow> string option \<Rightarrow> frame list \<Rightarrow> bool" where
  "frames_ok refs c ab [] \<longleftrightarrow> True"
| "frames_ok refs c ab ((n, rest) # st) \<longleftrightarrow>
     (\<exists>used. refs n = used @ rest
        \<and> (\<forall>t \<in> targets used. map_of c t \<in> {None, Some Black} \<or> ab = Some t)
        \<and> (\<forall>a. ab = Some a \<longrightarrow> a \<in> targets used))
     \<and> frames_ok refs c (Some n) st"

definition black :: "colours \<Rightarrow> string set" where
  "black c = {n. map_of c n = Some Black}"

definition black_ok :: "(string \<Rightarrow> json list) \<Rightarrow> colours \<Rightarrow> bool" where
  "black_ok refs c \<longleftrightarrow> (\<forall>n \<in> black c. \<forall>t \<in> targets (refs n). map_of c t \<noteq> None \<longrightarrow> t \<in> black c)
     \<and> acyclic (ref_graph refs (black c))"

definition dfs_inv :: "(string \<Rightarrow> json list) \<Rightarrow> string set \<Rightarrow> colours \<Rightarrow> frame list \<Rightarrow> bool" where
  "dfs_inv refs names c st \<longleftrightarrow> set (map fst c) = names \<and> distinct (map fst st)
     \<and> {n. map_of c n = Some Gray} = fst ` set st \<and> frames_ok refs c None st \<and> black_ok refs c"

lemma frames_ok_cong:
  "frames_ok refs c ab st \<Longrightarrow> (\<And>t. map_of c t \<in> {None, Some Black} \<Longrightarrow> map_of c' t \<in> {None, Some Black}) \<Longrightarrow>
     frames_ok refs c' ab st"
proof (induction refs c ab st rule: frames_ok.induct)
  case (2 refs c ab n rest st)
  from 2(2) obtain used where u: "refs n = used @ rest"
    "\<forall>t \<in> targets used. map_of c t \<in> {None, Some Black} \<or> ab = Some t" "\<forall>a. ab = Some a \<longrightarrow> a \<in> targets used"
    and f: "frames_ok refs c (Some n) st" by auto
  have "\<forall>t \<in> targets used. map_of c' t \<in> {None, Some Black} \<or> ab = Some t" using u(2) 2(3) by blast
  with u(1,3) 2(1) [OF f 2(3)] show ?case by auto
qed simp

text \<open>A gray name reaches the top of the stack.\<close>

lemma frames_path:
  "frames_ok refs c ab st \<Longrightarrow> fst ` set st \<subseteq> names \<Longrightarrow> n \<in> fst ` set st \<Longrightarrow> (\<forall>a. ab = Some a \<longrightarrow> a \<in> names) \<Longrightarrow>
     (\<forall>a. ab = Some a \<longrightarrow> (n, a) \<in> (ref_graph refs names)\<^sup>+)
     \<and> (n = fst (hd st) \<or> (n, fst (hd st)) \<in> (ref_graph refs names)\<^sup>+)"
proof (induction refs c ab st rule: frames_ok.induct)
  case (2 refs c ab m rest st)
  from 2(2) obtain used where u: "refs m = used @ rest" "\<forall>a. ab = Some a \<longrightarrow> a \<in> targets used"
    and f: "frames_ok refs c (Some m) st" by auto
  have e: "\<forall>a. ab = Some a \<longrightarrow> (m, a) \<in> ref_graph refs names"
    using u 2(3,5) by (auto simp: ref_graph_def)
  show ?case
  proof (cases "n = m")
    case True
    with e show ?thesis by auto
  next
    case False
    with 2(3,4) have "fst ` set st \<subseteq> names" "n \<in> fst ` set st" "m \<in> names" by auto
    with 2(1) [OF f] have "(n, m) \<in> (ref_graph refs names)\<^sup>+" by simp
    with e show ?thesis by (auto intro: trancl_into_trancl)
  qed
qed simp

lemma acyclic_insert_sink:
  assumes "acyclic (ref_graph refs B)" and "v \<notin> B" and "v \<notin> targets (refs v)"
    and "\<forall>n \<in> B. v \<notin> targets (refs n)"
  shows "acyclic (ref_graph refs (insert v B))"
proof (rule acyclicI, rule allI, rule notI)
  fix x assume x: "(x, x) \<in> (ref_graph refs (insert v B))\<^sup>+"
  have no: "(y, v) \<notin> ref_graph refs (insert v B)" for y using assms(3,4) by (auto simp: ref_graph_def)
  have "(a, b) \<in> (ref_graph refs B)\<^sup>+" if "(a, b) \<in> (ref_graph refs (insert v B))\<^sup>+" "a \<noteq> v" for a b
    using that
  proof (induction rule: trancl_induct)
    case (base y)
    with no [of a] have "y \<noteq> v" by auto
    with base show ?case by (auto simp: ref_graph_def)
  next
    case (step y z)
    have "y \<noteq> v" using step(1) no by (meson tranclD2)
    moreover have "z \<noteq> v" using step(2) no by auto
    ultimately have "(y, z) \<in> ref_graph refs B" using step(2) by (auto simp: ref_graph_def)
    with step(3) [OF step(4)] show ?case by (rule trancl_into_trancl)
  qed
  moreover have "x \<noteq> v" using x no by (meson tranclD2)
  ultimately show False using x assms(1) by (auto simp: acyclic_def)
qed

lemma dfs_step_inv:
  assumes inv: "dfs_inv refs names c ((n, rest) # st)" and s: "dfs_step refs c path (n, rest) st = Inr (c', path', st')"
  shows "dfs_inv refs names c' st' \<and> (\<forall>k. map_of c k \<noteq> Some White \<longrightarrow> map_of c' k \<noteq> Some White)"
proof -
  have k: "set (map fst c) = names" and d: "distinct (n # map fst st)"
    and g: "{n. map_of c n = Some Gray} = insert n (fst ` set st)"
    and f: "frames_ok refs c None ((n, rest) # st)" and b: "black_ok refs c"
    using inv by (simp_all add: dfs_inv_def)
  from f obtain used where u: "refs n = used @ rest" "\<forall>t \<in> targets used. map_of c t \<in> {None, Some Black}"
    and fs: "frames_ok refs c (Some n) st" by auto
  have ng: "map_of c n = Some Gray" using g by blast
  show ?thesis
  proof (cases rest)
    case Nil
    with s have e: "c' = set_colour n Black c" "st' = st" by (simp_all add: dfs_step_def)
    have blk: "black c' = insert n (black c)" using ng by (auto simp: e black_def set_colour_of)
    have col: "map_of c t \<in> {None, Some Black} \<Longrightarrow> map_of c' t \<in> {None, Some Black}" for t
      by (auto simp: e set_colour_of)
    have "frames_ok refs c' None st"
    proof (cases st)
      case (Cons fr st2)
      obtain m r2 where fr: "fr = (m, r2)" by (cases fr)
      from fs Cons fr obtain u2 where u2: "refs m = u2 @ r2" "\<forall>t \<in> targets u2. map_of c t \<in> {None, Some Black} \<or> t = n"
        and f2: "frames_ok refs c (Some m) st2" by auto
      have "\<forall>t \<in> targets u2. map_of c' t \<in> {None, Some Black}"
        using u2(2) ng col by (auto simp: e set_colour_of)
      with u2(1) frames_ok_cong [OF f2 col] show ?thesis using Cons fr by auto
    qed simp
    moreover have "{k. map_of c' k = Some Gray} = fst ` set st"
      using g d by (auto simp: e set_colour_of)
    moreover have "black_ok refs c'"
    proof -
      have t: "\<forall>t \<in> targets (refs n). map_of c t \<noteq> None \<longrightarrow> t \<in> black c"
        using u Nil by (auto simp: black_def)
      have nt: "n \<notin> targets (refs n)" using t ng by (auto simp: black_def)
      have nb: "n \<notin> black c" using ng by (simp add: black_def)
      with b ng have nb: "n \<notin> black c" "\<forall>m \<in> black c. n \<notin> targets (refs m)"
        unfolding black_ok_def by (simp_all, metis)
      have "acyclic (ref_graph refs (insert n (black c)))"
        using acyclic_insert_sink [OF _ nb(1) nt nb(2)] b by (simp add: black_ok_def)
      moreover have "\<forall>m \<in> insert n (black c). \<forall>t \<in> targets (refs m). map_of c' t \<noteq> None \<longrightarrow> t \<in> insert n (black c)"
        using t b by (auto simp: black_ok_def e set_colour_of split: if_splits)
      ultimately show ?thesis unfolding black_ok_def blk by blast
    qed
    ultimately show ?thesis using k d by (auto simp: dfs_inv_def e set_colour_of)
  next
    case (Cons r rest')
    with s obtain target where t: "ref_target r = Inr target" by (auto simp: dfs_step_def rbind_ok)
    show ?thesis
    proof (cases target)
      case None
      with s t Cons have e: "c' = c" "st' = (n, rest') # st" by (simp_all add: dfs_step_def)
      have "refs n = (used @ [r]) @ rest'" "targets (used @ [r]) = targets used" using u(1) Cons t None by simp_all
      with u(2) fs have "frames_ok refs c None ((n, rest') # st)" by auto
      with k d g b show ?thesis by (simp add: dfs_inv_def e)
    next
      case (Some x)
      have ru: "refs n = (used @ [r]) @ rest'" "targets (used @ [r]) = insert x (targets used)" using u(1) Cons t Some by simp_all
      from s t Cons Some have v: "visit refs c path n rest' st x = Inr (c', path', st')" by (simp add: dfs_step_def)
      show ?thesis
      proof (cases "map_of c x = Some White")
        case True
        with v have e: "c' = set_colour x Gray c" "st' = (x, refs x) # (n, rest') # st" by (auto simp: visit_def split: if_splits)
        have xs: "x \<notin> insert n (fst ` set st)"
        proof
          assume "x \<in> insert n (fst ` set st)"
          then have "x \<in> {k. map_of c k = Some Gray}" unfolding g .
          with True show False by simp
        qed
        have col: "map_of c t \<in> {None, Some Black} \<Longrightarrow> map_of c' t \<in> {None, Some Black}" for t
          using True by (auto simp: e set_colour_of)
        have "\<forall>t \<in> targets (used @ [r]). map_of c' t \<in> {None, Some Black} \<or> Some x = Some t"
          unfolding ru(2) using u(2) col by blast
        then have "frames_ok refs c' (Some x) ((n, rest') # st)"
          unfolding frames_ok.simps using ru frames_ok_cong [OF fs col] by (intro conjI exI [of _ "used @ [r]"]) simp_all
        moreover have "black c' = black c" using True by (auto simp: black_def e set_colour_of)
        moreover have "map_of c' t \<noteq> None \<Longrightarrow> map_of c t \<noteq> None" for t by (auto simp: e set_colour_of split: if_splits)
        moreover have "{k. map_of c' k = Some Gray} = insert x (insert n (fst ` set st))"
          using g True by (auto simp: e set_colour_of)
        ultimately show ?thesis
          using k d b xs True unfolding dfs_inv_def black_ok_def by (auto simp: e set_colour_of)
      next
        case False
        with v have e: "c' = c" "st' = (n, rest') # st" and x: "map_of c x \<noteq> Some Gray"
          by (auto simp: visit_def split: if_splits)
        have "map_of c x \<in> {None, Some Black}" using x False by (cases "map_of c x"; cases "the (map_of c x)") auto
        then have "frames_ok refs c None ((n, rest') # st)" using ru u(2) fs by auto
        with k d g b show ?thesis by (simp add: dfs_inv_def e)
      qed
    qed
  qed
qed

lemma dfs_step_cycle:
  assumes inv: "dfs_inv refs names c ((n, rest) # st)" and s: "dfs_step refs c path (n, rest) st = Inl (Cycle p)"
  shows "\<not> acyclic (ref_graph refs names)"
proof -
  have k: "set (map fst c) = names" and g: "{n. map_of c n = Some Gray} = insert n (fst ` set st)"
    and f: "frames_ok refs c None ((n, rest) # st)" using inv by (simp_all add: dfs_inv_def)
  have names: "fst ` set ((n, rest) # st) \<subseteq> names"
  proof
    fix y assume "y \<in> fst ` set ((n, rest) # st)"
    then have "y \<in> {k. map_of c k = Some Gray}" unfolding g by simp
    then have "map_of c y \<noteq> None" by simp
    with k show "y \<in> names" by (simp add: map_of_eq_None_iff)
  qed
  from s obtain r rest' x where r: "rest = r # rest'" "ref_target r = Inr (Some x)" and v: "visit refs c path n rest' st x = Inl (Cycle p)"
  proof (cases rest)
    case (Cons r rest')
    have "ref_target r \<noteq> Inl (Cycle p)" by (auto simp: ref_target_def split: json.splits)
    with Cons s obtain y where y: "ref_target r = Inr y" by (cases "ref_target r") (auto simp: dfs_step_def)
    with Cons s obtain x where "y = Some x" "visit refs c path n rest' st x = Inl (Cycle p)"
      by (cases y) (auto simp: dfs_step_def)
    with Cons y that show ?thesis by blast
  qed (simp add: dfs_step_def)
  have xt: "x \<in> targets (refs n)" using f r by auto
  from v have "x = n \<or> map_of c x = Some Gray" by (auto simp: visit_def split: if_splits)
  with g have xs: "x \<in> fst ` set ((n, rest) # st)" by auto
  have e: "(n, x) \<in> ref_graph refs names" using xt xs names by (auto simp: ref_graph_def)
  from frames_path [OF f names xs] have "x = n \<or> (x, n) \<in> (ref_graph refs names)\<^sup>+" by simp
  with e have "(n, n) \<in> (ref_graph refs names)\<^sup>+" by (auto intro: trancl_into_trancl2)
  then show ?thesis by (auto simp: acyclic_def)
qed

text \<open>References whose target cannot be read raise; the others never do.\<close>

definition readable :: "json list \<Rightarrow> bool" where
  "readable rs \<longleftrightarrow> (\<forall>r \<in> set rs. is_ok (ref_target r))"

lemma run_dfs_correct:
  assumes "dfs_inv refs names c st" and "\<forall>n. readable (refs n)"
  shows "(case run_dfs refs c path st of
      Inr c' \<Rightarrow> dfs_inv refs names c' [] \<and> (\<forall>k. map_of c k \<noteq> Some White \<longrightarrow> map_of c' k \<noteq> Some White)
    | Inl (Cycle p) \<Rightarrow> \<not> acyclic (ref_graph refs names) | Inl _ \<Rightarrow> False)"
  using assms
proof (induction refs c path st rule: run_dfs.induct)
  case (2 refs c path f st)
  obtain n rest where f: "f = (n, rest)" by (cases f)
  show ?case
  proof (cases "dfs_step refs c path f st")
    case (Inl e)
    have "\<exists>p. e = Cycle p"
    proof -
      from 2(2) f obtain used where "refs n = used @ rest" by (auto simp: dfs_inv_def)
      with 2(3) have "readable rest" by (metis (no_types) readable_def set_append UnCI)
      with Inl f show ?thesis
        by (auto simp: dfs_step_def rbind_err visit_def readable_def is_ok_iff split: list.splits option.splits if_splits)
    qed
    then obtain p where "e = Cycle p" by blast
    with dfs_step_cycle [OF 2(2) [unfolded f]] Inl f show ?thesis by simp
  next
    case (Inr s)
    obtain c' path' st' where s': "s = (c', path', st')" by (cases s)
    from dfs_step_inv [OF 2(2) [unfolded f]] Inr f s' have i: "dfs_inv refs names c' st'"
      "\<forall>k. map_of c k \<noteq> Some White \<longrightarrow> map_of c' k \<noteq> Some White" by simp_all
    from 2(1) [OF Inr] i(1) 2(3) s' i(2) show ?thesis
      using Inr s' by (auto split: sum.splits ref_error.splits)
  qed
qed (simp add: dfs_inv_def)

section \<open>The search decides acyclicity\<close>

lemma dfs_entries:
  assumes "\<forall>n. readable (refs n)" and "dfs_inv refs names c []" and "e_name ` set es \<subseteq> names"
  shows "(case rfold (dfs_from refs) es c of
      Inr c' \<Rightarrow> dfs_inv refs names c' [] \<and> (\<forall>e \<in> set es. map_of c' (e_name e) \<noteq> Some White)
        \<and> (\<forall>k. map_of c k \<noteq> Some White \<longrightarrow> map_of c' k \<noteq> Some White)
    | Inl (Cycle p) \<Rightarrow> \<not> acyclic (ref_graph refs names) | Inl _ \<Rightarrow> False)"
  using assms(2,3)
proof (induction es arbitrary: c)
  case (Cons e es)
  have names: "e_name ` set es \<subseteq> names" using Cons.prems(2) by simp
  show ?case
  proof (cases "map_of c (e_name e) = Some White")
    case False
    then have "dfs_from refs e c = Inr c" by (simp add: dfs_from_def)
    with Cons.IH [OF Cons.prems(1) names] False show ?thesis by (auto split: sum.splits ref_error.splits)
  next
    case True
    let ?c = "set_colour (e_name e) Gray c"
    have inv: "dfs_inv refs names ?c [(e_name e, refs (e_name e))]"
    proof -
      have b: "black ?c = black c" using True by (auto simp: black_def set_colour_of)
      have n: "map_of ?c t \<noteq> None \<Longrightarrow> map_of c t \<noteq> None" for t by (auto simp: set_colour_of split: if_splits)
      have "{k. map_of ?c k = Some Gray} = {e_name e}"
        using Cons.prems(1) True by (auto simp: dfs_inv_def set_colour_of)
      with Cons.prems(1) b n show ?thesis
        unfolding dfs_inv_def black_ok_def by auto
    qed
    from run_dfs_correct [OF inv assms(1), of "[e_name e]"] True
    show ?thesis
    proof (cases "run_dfs refs ?c [e_name e] [(e_name e, refs (e_name e))]")
      case (Inr c1)
      with run_dfs_correct [OF inv assms(1), of "[e_name e]"] have i: "dfs_inv refs names c1 []"
        and k: "\<forall>k. map_of ?c k \<noteq> Some White \<longrightarrow> map_of c1 k \<noteq> Some White" by simp_all
      have k': "map_of c1 (e_name e) \<noteq> Some White" "\<forall>k. map_of c k \<noteq> Some White \<longrightarrow> map_of c1 k \<noteq> Some White"
        using k True by (auto simp: set_colour_of)
      have "dfs_from refs e c = Inr c1" using True Inr by (simp add: dfs_from_def)
      with Cons.IH [OF i names] k' show ?thesis by (auto split: sum.splits ref_error.splits)
    qed (auto simp: dfs_from_def split: ref_error.splits)
  qed
qed simp

lemma all_white_of: "map_of (all_white es) n = (if n \<in> e_name ` set es then Some White else None)"
proof -
  have "map_of (map (\<lambda>n. (n, White)) xs) n = (if n \<in> set xs then Some White else None)" for xs :: "string list"
    by (induction xs) auto
  from this [of "remdups (map e_name es)"] show ?thesis by (simp add: all_white_def)
qed

definition graph_of :: "entry list \<Rightarrow> (string \<times> string) set" where
  "graph_of es = ref_graph (refs_named es) (e_name ` set es)"

lemma detect_cycles_iff:
  assumes r: "\<forall>e \<in> set es. readable (e_refs e)"
  shows "detect_cycles es = Inr () \<longleftrightarrow> acyclic (graph_of es)"
    and "detect_cycles es = Inl x \<Longrightarrow> \<exists>p. x = Cycle p"
proof -
  let ?refs = "refs_named es" and ?names = "e_name ` set es"
  have rd: "\<forall>n. readable (?refs n)"
  proof
    fix n
    show "readable (?refs n)"
    proof (cases "map_of (rev (map (\<lambda>e. (e_name e, e_refs e)) es)) n")
      case (Some rs)
      from map_of_SomeD [OF this] obtain e where "e \<in> set es" "rs = e_refs e" by auto
      with r Some show ?thesis by (simp add: refs_named_def)
    qed (simp add: refs_named_def readable_def)
  qed
  have inv: "dfs_inv ?refs ?names (all_white es) []"
  proof -
    have "black (all_white es) = {}" "{n. map_of (all_white es) n = Some Gray} = {}"
      by (auto simp: black_def all_white_of split: if_splits)
    moreover have "set (map fst (all_white es)) = ?names" by (auto simp: all_white_def)
    ultimately show ?thesis by (simp add: dfs_inv_def black_ok_def ref_graph_def acyclic_def)
  qed
  note c = dfs_entries [OF rd inv, of es, simplified]
  have fin: "acyclic (graph_of es)" if "rfold (dfs_from ?refs) es (all_white es) = Inr c'" for c'
  proof -
    from c that have i: "dfs_inv ?refs ?names c' []" and w: "\<forall>e \<in> set es. map_of c' (e_name e) \<noteq> Some White" by simp_all
    have "?names \<subseteq> black c'"
    proof
      fix n assume n: "n \<in> ?names"
      with i have "n \<in> set (map fst c')" by (simp only: dfs_inv_def)
      then obtain v where v: "map_of c' n = Some v" by (metis map_of_eq_None_iff not_None_eq set_map)
      have "v \<noteq> White" using w n v by auto
      moreover have "v \<noteq> Gray" using i v by (auto simp: dfs_inv_def)
      ultimately have "v = Black" by (cases v) auto
      with v show "n \<in> black c'" by (simp add: black_def)
    qed
    moreover have "acyclic (ref_graph ?refs (black c'))" using i by (simp add: dfs_inv_def black_ok_def)
    ultimately show ?thesis
      unfolding graph_of_def by (rule_tac acyclic_subset) (auto simp: ref_graph_def)
  qed
  show "detect_cycles es = Inr () \<longleftrightarrow> acyclic (graph_of es)"
  proof (cases "rfold (dfs_from ?refs) es (all_white es)")
    case (Inl y)
    with c have "\<not> acyclic (graph_of es)" by (cases y) (simp_all add: graph_of_def)
    with Inl show ?thesis by (simp add: detect_cycles_def)
  next
    case (Inr c')
    with fin show ?thesis by (simp add: detect_cycles_def)
  qed
  show "detect_cycles es = Inl x \<Longrightarrow> \<exists>p. x = Cycle p"
    using c by (cases "rfold (dfs_from ?refs) es (all_white es)"; cases x) (simp_all add: detect_cycles_def)
qed

section \<open>Resolution\<close>

lemma entry_named_in: "entry_named es n = Some e \<Longrightarrow> e \<in> set es \<and> e_name e = n"
  by (auto simp: entry_named_def dest!: map_of_SomeD)

lemma resolve_chain_D:
  assumes "resolve_chain es a role = Inr e"
  shows "e \<in> set es \<and> (\<exists>src \<in> set es. e_name src = a \<and> (\<exists>r \<in> set (e_refs src). fld r ''role'' = JStr role \<and> fld r ''name'' = JStr (e_name e)))"
proof -
  from assms obtain src r t where s: "entry_named es a = Some src" "find (\<lambda>r. fld r ''role'' = JStr role) (e_refs src) = Some r"
    and t: "ref_target r = Inr (Some t)" "entry_named es t = Some e"
    by (auto simp: resolve_chain_def rbind_ok split: option.splits)
  have "fld r ''name'' = JStr t" using t(1) by (auto simp: ref_target_def split: json.splits if_splits)
  with entry_named_in [OF s(1)] entry_named_in [OF t(2)] find_SomeD [OF s(2)] show ?thesis by blast
qed

lemma reverse_refs_iff:
  "(\<exists>ns. reverse_refs es t = Some ns \<and> n \<in> set ns) \<longleftrightarrow> (\<exists>e \<in> set es. e_name e = n \<and> t \<in> set (ref_names e))"
proof -
  have "set (concat (map (\<lambda>e. map (\<lambda>_. e_name e) (filter (\<lambda>n. n = t) (ref_names e))) es)) = {n. \<exists>e \<in> set es. e_name e = n \<and> t \<in> set (ref_names e)}"
    by auto
  moreover have "xs \<noteq> [] \<longleftrightarrow> (\<exists>x. x \<in> set xs)" for xs :: "string list" by (cases xs) auto
  ultimately show ?thesis unfolding reverse_refs_def Let_def by (auto simp del: set_concat concat_eq_Nil_conv)
qed

end
