(* ===== verification/Catalog.thy ===== *)
theory Catalog
  imports Entry_Proofs
begin

text \<open>
  The project catalog (\<open>project_models.py\<close>): folders, projects, scopes and the bindings of
  entries to scopes, with the checks of \<open>CatalogState.from_dict\<close>.
\<close>

section \<open>Checks\<close>

definition catalog_text :: "int \<Rightarrow> json \<Rightarrow> verr + string" where
  "catalog_text max_length v = (case v of JStr s \<Rightarrow>
       rbind (ensure (\<not> blank s \<and> pylen s \<le> max_length) Invalid) (\<lambda>_.
       rbind (ensure (no_controls False s) Invalid) (\<lambda>_. Inr s))
     | _ \<Rightarrow> Inl Invalid)"

definition catalog_slug :: "json \<Rightarrow> verr + string" where
  "catalog_slug v = (case v of JStr s \<Rightarrow> if slug_pattern s then Inr s else Inl Invalid | _ \<Rightarrow> Inl Invalid)"

definition json_object :: "json \<Rightarrow> verr + json" where
  "json_object v =
     rbind (ensure (is_obj v) Invalid) (\<lambda>_.
     rbind (ensure (finite_json v) Invalid) (\<lambda>_.
     rbind (ensure (len (default_text v) \<le> 16384) Invalid) (\<lambda>_. Inr v)))"

definition int_from :: "int \<Rightarrow> json \<Rightarrow> verr + int" where
  "int_from low v = (case v of JInt i \<Rightarrow> if low \<le> i then Inr i else Inl Invalid | _ \<Rightarrow> Inl Invalid)"

section \<open>Items\<close>

record folder =
  fo_id :: string
  fo_name :: string
  fo_parent :: "string option"
  fo_position :: int

definition optional_text :: "string option \<Rightarrow> json" where
  "optional_text v = (case v of None \<Rightarrow> JNull | Some s \<Rightarrow> JStr s)"

definition folder_to_dict :: "folder \<Rightarrow> json" where
  "folder_to_dict f = JObj [(''id'', JStr (fo_id f)), (''name'', JStr (fo_name f)),
     (''parent_id'', optional_text (fo_parent f)), (''position'', JInt (fo_position f))]"

definition optional_id :: "json \<Rightarrow> verr + string option" where
  "optional_id v = (if v = JNull then Inr None else rbind (validate_uuid4 v) (\<lambda>s. Inr (Some s)))"

definition folder_from_dict :: "json \<Rightarrow> verr + folder" where
  "folder_from_dict v =
     rbind (ensure (exact_keys [''id'', ''name'', ''parent_id'', ''position''] v) Invalid) (\<lambda>_.
     rbind (optional_id (fld v ''parent_id'')) (\<lambda>parent.
     rbind (int_from 0 (fld v ''position'')) (\<lambda>position.
     rbind (validate_uuid4 (fld v ''id'')) (\<lambda>i.
     rbind (catalog_text 256 (fld v ''name'')) (\<lambda>n.
     Inr \<lparr>fo_id = i, fo_name = n, fo_parent = parent, fo_position = position\<rparr>)))))"

record project =
  pr_id :: string
  pr_slug :: string
  pr_name :: string
  pr_state :: string

definition project_to_dict :: "project \<Rightarrow> json" where
  "project_to_dict p = JObj [(''id'', JStr (pr_id p)), (''slug'', JStr (pr_slug p)), (''name'', JStr (pr_name p)),
     (''state'', JStr (pr_state p))]"

definition project_from_dict :: "json \<Rightarrow> verr + project" where
  "project_from_dict v =
     rbind (ensure (exact_keys [''id'', ''slug'', ''name'', ''state''] v) Invalid) (\<lambda>_.
     rbind (member_of [''active'', ''archived''] (fld v ''state'')) (\<lambda>known.
     rbind (ensure known Invalid) (\<lambda>_.
     rbind (validate_uuid4 (fld v ''id'')) (\<lambda>i.
     rbind (catalog_slug (fld v ''slug'')) (\<lambda>s.
     rbind (catalog_text 256 (fld v ''name'')) (\<lambda>n.
     Inr \<lparr>pr_id = i, pr_slug = s, pr_name = n, pr_state = text_of (fld v ''state'')\<rparr>))))))"

record scope =
  sco_id :: string
  sco_project :: string
  sco_environment :: string
  sco_vault :: string
  sco_epoch :: int
  sco_version :: int

definition scope_to_dict :: "scope \<Rightarrow> json" where
  "scope_to_dict s = JObj [(''id'', JStr (sco_id s)), (''project_id'', JStr (sco_project s)),
     (''environment'', JStr (sco_environment s)), (''vault_id'', JStr (sco_vault s)),
     (''epoch'', JInt (sco_epoch s)), (''policy_version'', JInt (sco_version s))]"

definition scope_from_dict :: "json \<Rightarrow> verr + scope" where
  "scope_from_dict v =
     rbind (ensure (exact_keys [''id'', ''project_id'', ''environment'', ''vault_id'', ''epoch'', ''policy_version''] v) Invalid) (\<lambda>_.
     rbind (int_from 1 (fld v ''epoch'')) (\<lambda>e.
     rbind (int_from 1 (fld v ''policy_version'')) (\<lambda>w.
     rbind (validate_uuid4 (fld v ''id'')) (\<lambda>i.
     rbind (validate_uuid4 (fld v ''project_id'')) (\<lambda>p.
     rbind (catalog_slug (fld v ''environment'')) (\<lambda>n.
     rbind (validate_uuid4 (fld v ''vault_id'')) (\<lambda>u.
     Inr \<lparr>sco_id = i, sco_project = p, sco_environment = n, sco_vault = u, sco_epoch = e, sco_version = w\<rparr>)))))))"

record export =
  ex_fields :: "string list"
  ex_note :: bool
  ex_refs :: bool
  ex_tags :: bool

definition default_export_config :: export where
  "default_export_config = \<lparr>ex_fields = [], ex_note = False, ex_refs = False, ex_tags = False\<rparr>"

definition export_dict :: "export \<Rightarrow> json" where
  "export_dict e = JObj [(''fields'', JList (map JStr (ex_fields e))), (''note'', JBool (ex_note e)),
     (''refs'', JBool (ex_refs e)), (''tags'', JBool (ex_tags e))]"

definition field_name :: "json \<Rightarrow> verr + string" where
  "field_name v = (case v of JStr s \<Rightarrow> if s = [] then Inl Invalid else Inr s | _ \<Rightarrow> Inl Invalid)"

definition bool_of :: "json \<Rightarrow> verr + bool" where
  "bool_of v = (case v of JBool b \<Rightarrow> Inr b | _ \<Rightarrow> Inl Invalid)"

definition export_config :: "json \<Rightarrow> verr + export" where
  "export_config v =
     rbind (ensure (exact_keys [''fields'', ''note'', ''refs'', ''tags''] v) Invalid) (\<lambda>_.
     rbind (case fld v ''fields'' of JList l \<Rightarrow> if len l \<le> 64 then rmap field_name l else Inl Invalid | _ \<Rightarrow> Inl Invalid) (\<lambda>names.
     rbind (ensure (distinct names) Invalid) (\<lambda>_.
     rbind (bool_of (fld v ''note'')) (\<lambda>n.
     rbind (bool_of (fld v ''refs'')) (\<lambda>r.
     rbind (bool_of (fld v ''tags'')) (\<lambda>t.
     Inr \<lparr>ex_fields = names, ex_note = n, ex_refs = r, ex_tags = t\<rparr>))))))"

record scope_entry =
  bi_scope :: string
  bi_entry :: string
  bi_local :: string
  bi_export :: export
  bi_approval :: string

definition scope_entry_to_dict :: "scope_entry \<Rightarrow> json" where
  "scope_entry_to_dict b = JObj [(''scope_id'', JStr (bi_scope b)), (''entry_id'', JStr (bi_entry b)),
     (''local_name'', JStr (bi_local b)), (''export'', export_dict (bi_export b)), (''approval_revision'', JStr (bi_approval b))]"

definition sha256_text :: "json \<Rightarrow> verr + string" where
  "sha256_text v = (case v of JStr s \<Rightarrow> if pylen s = 64 \<and> list_all is_hex s then Inr s else Inl Invalid | _ \<Rightarrow> Inl Invalid)"

definition scope_entry_from_dict :: "json \<Rightarrow> verr + scope_entry" where
  "scope_entry_from_dict v =
     rbind (ensure (exact_keys [''scope_id'', ''entry_id'', ''local_name'', ''export'', ''approval_revision''] v) Invalid) (\<lambda>_.
     rbind (sha256_text (fld v ''approval_revision'')) (\<lambda>a.
     rbind (validate_uuid4 (fld v ''scope_id'')) (\<lambda>s.
     rbind (catalog_text 64 (fld v ''entry_id'')) (\<lambda>e.
     rbind (catalog_text 64 (fld v ''local_name'')) (\<lambda>n.
     rbind (export_config (fld v ''export'')) (\<lambda>x.
     Inr \<lparr>bi_scope = s, bi_entry = e, bi_local = n, bi_export = x, bi_approval = a\<rparr>))))))"

section \<open>The folder hierarchy\<close>

lemma climb_measure:
  assumes "map_of ps c = Some p" and "c \<notin> set seen"
  shows "length (filter (\<lambda>x. x \<notin> set (c # seen)) (map fst ps)) < length (filter (\<lambda>x. x \<notin> set seen) (map fst ps))"
proof -
  have c: "c \<in> set (filter (\<lambda>x. x \<notin> set seen) (map fst ps))" using assms by (force dest: map_of_SomeD)
  have "filter (\<lambda>x. x \<notin> set (c # seen)) (map fst ps) = filter (\<lambda>x. x \<noteq> c) (filter (\<lambda>x. x \<notin> set seen) (map fst ps))"
    by (simp add: conj_commute)
  with length_filter_less [OF c, of "\<lambda>x. x \<noteq> c"] show ?thesis by simp
qed

text \<open>The walk from a folder to the root; \<open>None\<close> is the parent of a root folder.\<close>

function climb :: "(string \<times> string option) list \<Rightarrow> string list \<Rightarrow> string list \<Rightarrow> string option \<Rightarrow> verr + string list" where
  "climb parents checked seen current =
     (case current of None \<Rightarrow> Inr seen
      | Some c \<Rightarrow>
          if c \<in> set checked then Inr seen
          else if c \<in> set seen then Inl Invalid
          else (case map_of parents c of None \<Rightarrow> Inl Key_err
                | Some p \<Rightarrow> climb parents checked (c # seen) p))"
  by pat_completeness auto

termination
  by (relation "measure (\<lambda>(ps, _, seen, _). length (filter (\<lambda>x. x \<notin> set seen) (map fst ps)))")
    (use climb_measure in auto)

declare climb.simps [simp del]

definition check_folder :: "(string \<times> string option) list \<Rightarrow> string \<Rightarrow> string list \<Rightarrow> verr + string list" where
  "check_folder parents folder_id checked = rbind (climb parents checked [] (Some folder_id)) (\<lambda>seen. Inr (seen @ checked))"

definition validate_folder_cycles :: "folder list \<Rightarrow> verr + unit" where
  "validate_folder_cycles fs =
     (let parents = map (\<lambda>f. (fo_id f, fo_parent f)) fs in
      rbind (rfold (check_folder parents) (map fst parents) []) (\<lambda>_. Inr ()))"

section \<open>The catalog\<close>

record catalog =
  ca_folders :: "folder list"
  ca_projects :: "project list"
  ca_scopes :: "scope list"
  ca_bindings :: "scope_entry list"
  ca_dedup :: "json list"
  ca_intents :: "json list"

definition catalog_to_dict :: "catalog \<Rightarrow> json" where
  "catalog_to_dict c = JObj [(''folders'', JList (map folder_to_dict (ca_folders c))),
     (''projects'', JList (map project_to_dict (ca_projects c))), (''scopes'', JList (map scope_to_dict (ca_scopes c))),
     (''bindings'', JList (map scope_entry_to_dict (ca_bindings c))), (''dedup'', JList (ca_dedup c)),
     (''publication_intents'', JList (ca_intents c))]"

definition validate_unique :: "'a list \<Rightarrow> verr + unit" where
  "validate_unique xs = ensure (distinct xs) Invalid"

definition bounded_list :: "json \<Rightarrow> string \<times> int \<Rightarrow> verr + unit" where
  "bounded_list v kl = (case fld v (fst kl) of JList l \<Rightarrow> ensure (len l \<le> snd kl) Invalid | _ \<Rightarrow> Inl Invalid)"

definition is_list :: "json \<Rightarrow> bool" where
  "is_list v = (case v of JList _ \<Rightarrow> True | _ \<Rightarrow> False)"

definition check_references :: "string set \<Rightarrow> folder list \<Rightarrow> project list \<Rightarrow> scope list \<Rightarrow> scope_entry list \<Rightarrow> verr + unit" where
  "check_references entry_ids fs ps ss bs =
     rbind (validate_unique (map fo_id fs)) (\<lambda>_.
     rbind (validate_unique (map pr_id ps)) (\<lambda>_.
     rbind (validate_unique (map sco_id ss)) (\<lambda>_.
     rbind (validate_unique (map (\<lambda>b. (bi_scope b, bi_entry b)) bs)) (\<lambda>_.
     rbind (each (\<lambda>f. ensure (case fo_parent f of None \<Rightarrow> True | Some p \<Rightarrow> p \<in> fo_id ` set fs) Invalid) fs) (\<lambda>_.
     rbind (validate_folder_cycles fs) (\<lambda>_.
     rbind (each (\<lambda>s. ensure (sco_project s \<in> pr_id ` set ps) Invalid) ss) (\<lambda>_.
     rbind (validate_unique (map (\<lambda>s. (sco_project s, sco_environment s)) ss)) (\<lambda>_.
     each (\<lambda>b. rbind (ensure (bi_scope b \<in> sco_id ` set ss) Invalid) (\<lambda>_.
               ensure (bi_entry b \<in> entry_ids) Invalid)) bs))))))))"

definition catalog_from_dict :: "string set \<Rightarrow> json \<Rightarrow> verr + catalog" where
  "catalog_from_dict entry_ids v =
     rbind (ensure (exact_keys [''folders'', ''projects'', ''scopes'', ''bindings'', ''dedup'', ''publication_intents''] v) Invalid) (\<lambda>_.
     rbind (each (bounded_list v) [(''folders'', 10000), (''projects'', 10000), (''scopes'', 20000), (''bindings'', 100000)]) (\<lambda>_.
     rbind (ensure (is_list (fld v ''dedup'') \<and> is_list (fld v ''publication_intents'')) Invalid) (\<lambda>_.
     rbind (rmap folder_from_dict (items (fld v ''folders''))) (\<lambda>fs.
     rbind (rmap project_from_dict (items (fld v ''projects''))) (\<lambda>ps.
     rbind (rmap scope_from_dict (items (fld v ''scopes''))) (\<lambda>ss.
     rbind (rmap scope_entry_from_dict (items (fld v ''bindings''))) (\<lambda>bs.
     rbind (check_references entry_ids fs ps ss bs) (\<lambda>_.
     rbind (rmap json_object (items (fld v ''dedup''))) (\<lambda>ds.
     rbind (rmap json_object (items (fld v ''publication_intents''))) (\<lambda>ns.
     Inr \<lparr>ca_folders = fs, ca_projects = ps, ca_scopes = ss, ca_bindings = bs, ca_dedup = ds, ca_intents = ns\<rparr>))))))))))"

end
