(* ===== verification/Catalog_Proofs.thy ===== *)
theory Catalog_Proofs
  imports Catalog
begin

text \<open>
  The catalog: folders are accepted exactly when they form a forest, references never
  dangle, and writing a catalog and reading it gives it back.
\<close>

section \<open>The folders form a forest\<close>

text \<open>\<open>height ps c n\<close>: from \<open>c\<close> the root is \<open>n\<close> steps up.\<close>

inductive height :: "(string \<times> string option) list \<Rightarrow> string \<Rightarrow> nat \<Rightarrow> bool" where
  root: "map_of ps c = Some None \<Longrightarrow> height ps c 0"
| step: "map_of ps c = Some (Some p) \<Longrightarrow> height ps p n \<Longrightarrow> height ps c (Suc n)"

inductive_cases heightE: "height ps c n"

lemma height_up: "map_of ps c = Some None \<Longrightarrow> height ps c n \<longleftrightarrow> n = 0"
  "map_of ps c = Some (Some p) \<Longrightarrow> height ps c n \<longleftrightarrow> (\<exists>k. n = Suc k \<and> height ps p k)"
  by (auto intro: height.intros) (erule heightE; simp)+

lemma height_unique: "height ps c n \<Longrightarrow> height ps c m \<Longrightarrow> n = m"
proof (induction arbitrary: m rule: height.induct)
  case (root ps c)
  then show ?case by (simp add: height_up(1))
next
  case (step ps c p n)
  from step.prems obtain k where "m = Suc k" "height ps p k" unfolding height_up(2) [OF step.hyps(1)] by blast
  with step.IH [of k] show ?case by simp
qed

definition rooted :: "(string \<times> string option) list \<Rightarrow> string \<Rightarrow> bool" where
  "rooted ps c \<longleftrightarrow> (\<exists>n. height ps c n)"

lemma rooted_step: "map_of ps c = Some p \<Longrightarrow> rooted ps c \<longleftrightarrow> (case p of None \<Rightarrow> True | Some q \<Rightarrow> rooted ps q)"
proof (cases p)
  case (Some q)
  assume "map_of ps c = Some p"
  with Some have "map_of ps c = Some (Some q)" by simp
  note up = height_up(2) [OF this]
  show ?thesis unfolding rooted_def up Some by auto
qed (simp add: rooted_def height_up(1))

lemma climb_rooted:
  assumes "climb ps checked seen cur = Inr seen'" and "\<forall>x \<in> set checked. rooted ps x"
  shows "(\<forall>c. cur = Some c \<longrightarrow> rooted ps c) \<and> (\<forall>x \<in> set seen'. x \<in> set seen \<or> rooted ps x)
    \<and> set seen \<subseteq> set seen' \<and> (\<forall>c. cur = Some c \<longrightarrow> c \<in> set checked \<or> c \<in> set seen')"
  using assms
proof (induction ps checked seen cur rule: climb.induct)
  case (1 ps checked seen cur)
  show ?case
  proof (cases cur)
    case None
    with 1 show ?thesis by (simp add: climb.simps)
  next
    case (Some c)
    show ?thesis
    proof (cases "c \<in> set checked")
      case True
      with 1 Some show ?thesis by (simp add: climb.simps)
    next
      case new: False
      with 1(2) Some obtain p where p: "c \<notin> set seen" "map_of ps c = Some p" "climb ps checked (c # seen) p = Inr seen'"
        by (auto simp: climb.simps [of ps checked seen "Some c"] split: if_splits option.splits)
      from 1(1) [OF Some new p(1,2,3) 1(3)] rooted_step [OF p(2)] Some
      show ?thesis by (cases p) auto
    qed
  qed
qed

lemma climb_complete:
  assumes "\<forall>x. map_of ps x \<noteq> None \<longrightarrow> rooted ps x" and "\<forall>c. cur = Some c \<longrightarrow> map_of ps c \<noteq> None"
    and "\<forall>c n. cur = Some c \<longrightarrow> height ps c n \<longrightarrow> (\<forall>x \<in> set seen. \<exists>m > n. height ps x m)"
  shows "\<exists>seen'. climb ps checked seen cur = Inr seen'"
  using assms
proof (induction ps checked seen cur rule: climb.induct)
  case (1 ps checked seen cur)
  show ?case
  proof (cases cur)
    case None
    then show ?thesis by (simp add: climb.simps)
  next
    case (Some c)
    show ?thesis
    proof (cases "c \<in> set checked")
      case True
      with Some show ?thesis by (simp add: climb.simps)
    next
      case new: False
      from 1(3) Some obtain p where p: "map_of ps c = Some p" by auto
      from 1(2) p obtain n where n: "height ps c n" by (auto simp: rooted_def)
      have s: "c \<notin> set seen"
      proof
        assume "c \<in> set seen"
        with 1(4) Some n obtain m where "m > n" "height ps c m" by blast
        with height_unique [OF n] show False by auto
      qed
      have "\<exists>seen'. climb ps checked (c # seen) p = Inr seen'"
      proof (rule 1(1) [OF Some new s p 1(2)])
        show "\<forall>q. p = Some q \<longrightarrow> map_of ps q \<noteq> None"
        proof (intro allI impI)
          fix q assume "p = Some q"
          with p have "map_of ps c = Some (Some q)" by simp
          with n obtain k where "height ps q k" unfolding height_up(2) [OF \<open>map_of ps c = Some (Some q)\<close>] by blast
          then show "map_of ps q \<noteq> None" by (auto elim: heightE)
        qed
        show "\<forall>q k. p = Some q \<longrightarrow> height ps q k \<longrightarrow> (\<forall>x \<in> set (c # seen). \<exists>m > k. height ps x m)"
        proof (intro allI impI ballI)
          fix q k x assume q: "p = Some q" "height ps q k" and x: "x \<in> set (c # seen)"
          have k: "height ps c (Suc k)" using height.step p q by simp
          from x show "\<exists>m > k. height ps x m"
          proof (cases "x = c")
            case True
            with k show ?thesis by blast
          next
            case False
            with x 1(4) Some k obtain m where "m > Suc k" "height ps x m" by auto
            then show ?thesis by (intro exI [of _ m]) simp
          qed
        qed
      qed
      with Some new s p show ?thesis by (simp add: climb.simps [of ps checked seen "Some c"])
    qed
  qed
qed

lemma check_folders_rooted:
  assumes "rfold (check_folder ps) xs checked = Inr done'" and "\<forall>x \<in> set checked. rooted ps x"
  shows "(\<forall>x \<in> set xs. rooted ps x) \<and> (\<forall>x \<in> set done'. rooted ps x)"
  using assms
proof (induction xs arbitrary: checked)
  case (Cons x xs)
  from Cons.prems(1) obtain mid where m: "check_folder ps x checked = Inr mid" "rfold (check_folder ps) xs mid = Inr done'"
    by (auto simp: rbind_ok)
  then obtain seen where c: "climb ps checked [] (Some x) = Inr seen" and "mid = seen @ checked"
    by (auto simp: check_folder_def rbind_ok)
  with m(2) have r: "rfold (check_folder ps) xs (seen @ checked) = Inr done'" by simp
  from climb_rooted [OF c Cons.prems(2)] have s: "rooted ps x" "\<forall>y \<in> set (seen @ checked). rooted ps y"
    using Cons.prems(2) by auto
  from Cons.IH [OF r s(2)] s(1) show ?case by simp
qed simp

text \<open>The hierarchy is accepted exactly when every folder reaches the root.\<close>

definition forest :: "folder list \<Rightarrow> bool" where
  "forest fs \<longleftrightarrow> (\<forall>f \<in> set fs. rooted (map (\<lambda>f. (fo_id f, fo_parent f)) fs) (fo_id f))"

lemma folder_cycles_iff: "validate_folder_cycles fs = Inr u \<longleftrightarrow> forest fs"
proof
  let ?ps = "map (\<lambda>f. (fo_id f, fo_parent f)) fs"
  assume "validate_folder_cycles fs = Inr u"
  then obtain d where "rfold (check_folder ?ps) (map fst ?ps) [] = Inr d"
    by (auto simp: validate_folder_cycles_def Let_def rbind_ok)
  from check_folders_rooted [OF this] show "forest fs" by (simp add: forest_def)
next
  let ?ps = "map (\<lambda>f. (fo_id f, fo_parent f)) fs"
  assume f: "forest fs"
  have all: "\<forall>x. map_of ?ps x \<noteq> None \<longrightarrow> rooted ?ps x"
  proof (intro allI impI)
    fix x assume "map_of ?ps x \<noteq> None"
    then obtain y where "map_of ?ps x = Some y" by blast
    from map_of_SomeD [OF this] show "rooted ?ps x" using f by (auto simp: forest_def)
  qed
  have "\<exists>d. rfold (check_folder ?ps) xs checked = Inr d" if "set xs \<subseteq> set (map fst ?ps)" for xs checked
    using that
  proof (induction xs arbitrary: checked)
    case (Cons x xs)
    have "x \<in> set (map fst ?ps)" using Cons.prems by simp
    then have "map_of ?ps x \<noteq> None" by (simp only: map_of_eq_None_iff set_map not_not)
    then obtain seen where "climb ?ps checked [] (Some x) = Inr seen"
      using climb_complete [OF all, of "Some x" "[]" checked] by auto
    then have "check_folder ?ps x checked = Inr (seen @ checked)" by (simp add: check_folder_def)
    moreover from Cons obtain d where "rfold (check_folder ?ps) xs (seen @ checked) = Inr d" by auto
    ultimately show ?case by simp
  qed simp
  from this [of "map fst ?ps" "[]"] show "validate_folder_cycles fs = Inr u"
    by (auto simp: validate_folder_cycles_def Let_def)
qed

text \<open>In a forest no folder is its own ancestor.\<close>

definition parent_of :: "folder list \<Rightarrow> (string \<times> string) set" where
  "parent_of fs = {(c, p). map_of (map (\<lambda>f. (fo_id f, fo_parent f)) fs) c = Some (Some p)}"

lemma forest_acyclic:
  assumes "forest fs"
  shows "(c, c) \<notin> (parent_of fs)\<^sup>+"
proof
  let ?ps = "map (\<lambda>f. (fo_id f, fo_parent f)) fs"
  assume c: "(c, c) \<in> (parent_of fs)\<^sup>+"
  have "height ?ps b n \<Longrightarrow> \<exists>m > n. height ?ps a m" if "(a, b) \<in> (parent_of fs)\<^sup>+" for a b n
    using that
  proof (induction arbitrary: n rule: trancl_induct)
    case (base y)
    then show ?case by (auto simp: parent_of_def intro!: exI [of _ "Suc n"] height.step)
  next
    case (step y z)
    then have "height ?ps y (Suc n)" by (auto simp: parent_of_def intro: height.step)
    from step.IH [OF this] show ?case using Suc_lessD by blast
  qed
  moreover have "\<exists>n. height ?ps c n"
  proof -
    from c obtain p where "map_of ?ps c = Some (Some p)" by (auto simp: parent_of_def elim: tranclE converse_tranclE)
    then obtain f where "f \<in> set fs" "fo_id f = c" by (auto dest!: map_of_SomeD)
    with assms show ?thesis by (auto simp: forest_def rooted_def)
  qed
  ultimately show False using c height_unique by blast
qed

section \<open>Items read back\<close>

lemma catalog_text_ok: "catalog_text n v = Inr s \<longleftrightarrow> v = JStr s \<and> \<not> blank s \<and> pylen s \<le> n \<and> no_controls False s"
  by (cases v) (auto simp: catalog_text_def rbind_ok ensure_ok)

lemma catalog_slug_ok: "catalog_slug v = Inr s \<longleftrightarrow> v = JStr s \<and> slug_pattern s"
  by (cases v) (auto simp: catalog_slug_def)

lemma int_from_ok: "int_from n v = Inr i \<longleftrightarrow> v = JInt i \<and> n \<le> i"
  by (cases v) (auto simp: int_from_def)

lemma optional_id_ok: "optional_id v = Inr x \<longleftrightarrow> v = optional_text x \<and> (case x of None \<Rightarrow> True | Some s \<Rightarrow> is_uuid4 s)"
  by (auto simp: optional_id_def rbind_ok validate_uuid4_ok optional_text_def split: option.splits)

definition folder_ok :: "folder \<Rightarrow> bool" where
  "folder_ok f \<longleftrightarrow> is_uuid4 (fo_id f) \<and> \<not> blank (fo_name f) \<and> pylen (fo_name f) \<le> 256 \<and> no_controls False (fo_name f)
     \<and> (case fo_parent f of None \<Rightarrow> True | Some p \<Rightarrow> is_uuid4 p) \<and> 0 \<le> fo_position f"

definition project_ok :: "project \<Rightarrow> bool" where
  "project_ok p \<longleftrightarrow> is_uuid4 (pr_id p) \<and> slug_pattern (pr_slug p) \<and> \<not> blank (pr_name p) \<and> pylen (pr_name p) \<le> 256
     \<and> no_controls False (pr_name p) \<and> pr_state p \<in> {''active'', ''archived''}"

definition scope_ok :: "scope \<Rightarrow> bool" where
  "scope_ok s \<longleftrightarrow> is_uuid4 (sco_id s) \<and> is_uuid4 (sco_project s) \<and> slug_pattern (sco_environment s) \<and> is_uuid4 (sco_vault s)
     \<and> 1 \<le> sco_epoch s \<and> 1 \<le> sco_version s"

definition export_ok :: "export \<Rightarrow> bool" where
  "export_ok e \<longleftrightarrow> len (ex_fields e) \<le> 64 \<and> distinct (ex_fields e) \<and> [] \<notin> set (ex_fields e)"

definition binding_ok :: "scope_entry \<Rightarrow> bool" where
  "binding_ok b \<longleftrightarrow> is_uuid4 (bi_scope b) \<and> \<not> blank (bi_entry b) \<and> pylen (bi_entry b) \<le> 64 \<and> no_controls False (bi_entry b)
     \<and> \<not> blank (bi_local b) \<and> pylen (bi_local b) \<le> 64 \<and> no_controls False (bi_local b) \<and> export_ok (bi_export b)
     \<and> pylen (bi_approval b) = 64 \<and> list_all is_hex (bi_approval b)"

lemma folder_read: "folder_from_dict v = Inr f \<Longrightarrow> folder_ok f"
  by (auto simp: folder_from_dict_def rbind_ok ensure_ok optional_id_ok int_from_ok validate_uuid4_ok catalog_text_ok folder_ok_def)

lemma folder_roundtrip: "folder_ok f \<Longrightarrow> folder_from_dict (folder_to_dict f) = Inr f"
proof -
  assume ok: "folder_ok f"
  have x: "exact_keys [''id'', ''name'', ''parent_id'', ''position''] (folder_to_dict f)"
    by (auto simp: exact_keys_def folder_to_dict_def)
  have f: "fld (folder_to_dict f) ''id'' = JStr (fo_id f)" "fld (folder_to_dict f) ''name'' = JStr (fo_name f)"
    "fld (folder_to_dict f) ''parent_id'' = optional_text (fo_parent f)" "fld (folder_to_dict f) ''position'' = JInt (fo_position f)"
    by (simp_all add: folder_to_dict_def fld_def)
  have "optional_id (optional_text (fo_parent f)) = Inr (fo_parent f)" "validate_uuid4 (JStr (fo_id f)) = Inr (fo_id f)"
    "catalog_text 256 (JStr (fo_name f)) = Inr (fo_name f)" "int_from 0 (JInt (fo_position f)) = Inr (fo_position f)"
    using ok by (simp_all add: folder_ok_def optional_id_ok validate_uuid4_ok catalog_text_ok int_from_ok)
  with x f show ?thesis by (simp add: folder_from_dict_def)
qed

lemma project_read: "project_from_dict v = Inr p \<Longrightarrow> project_ok p"
  by (auto simp: project_from_dict_def rbind_ok ensure_ok member_of_ok validate_uuid4_ok catalog_slug_ok catalog_text_ok project_ok_def)

lemma project_roundtrip: "project_ok p \<Longrightarrow> project_from_dict (project_to_dict p) = Inr p"
proof -
  assume ok: "project_ok p"
  have x: "exact_keys [''id'', ''slug'', ''name'', ''state''] (project_to_dict p)"
    by (auto simp: exact_keys_def project_to_dict_def)
  have f: "fld (project_to_dict p) ''id'' = JStr (pr_id p)" "fld (project_to_dict p) ''slug'' = JStr (pr_slug p)"
    "fld (project_to_dict p) ''name'' = JStr (pr_name p)" "fld (project_to_dict p) ''state'' = JStr (pr_state p)"
    by (simp_all add: project_to_dict_def fld_def)
  have "member_of [''active'', ''archived''] (JStr (pr_state p)) = Inr True" "validate_uuid4 (JStr (pr_id p)) = Inr (pr_id p)"
    "catalog_slug (JStr (pr_slug p)) = Inr (pr_slug p)" "catalog_text 256 (JStr (pr_name p)) = Inr (pr_name p)"
    using ok by (auto simp: project_ok_def member_of_ok validate_uuid4_ok catalog_slug_ok catalog_text_ok)
  with x f show ?thesis by (simp add: project_from_dict_def)
qed

lemma scope_read: "scope_from_dict v = Inr s \<Longrightarrow> scope_ok s"
  by (auto simp: scope_from_dict_def rbind_ok ensure_ok int_from_ok validate_uuid4_ok catalog_slug_ok scope_ok_def)

lemma scope_roundtrip: "scope_ok s \<Longrightarrow> scope_from_dict (scope_to_dict s) = Inr s"
proof -
  assume ok: "scope_ok s"
  have x: "exact_keys [''id'', ''project_id'', ''environment'', ''vault_id'', ''epoch'', ''policy_version''] (scope_to_dict s)"
    by (auto simp: exact_keys_def scope_to_dict_def)
  have f: "fld (scope_to_dict s) ''id'' = JStr (sco_id s)" "fld (scope_to_dict s) ''project_id'' = JStr (sco_project s)"
    "fld (scope_to_dict s) ''environment'' = JStr (sco_environment s)" "fld (scope_to_dict s) ''vault_id'' = JStr (sco_vault s)"
    "fld (scope_to_dict s) ''epoch'' = JInt (sco_epoch s)" "fld (scope_to_dict s) ''policy_version'' = JInt (sco_version s)"
    by (simp_all add: scope_to_dict_def fld_def)
  have "validate_uuid4 (JStr (sco_id s)) = Inr (sco_id s)" "validate_uuid4 (JStr (sco_project s)) = Inr (sco_project s)"
    "validate_uuid4 (JStr (sco_vault s)) = Inr (sco_vault s)" "catalog_slug (JStr (sco_environment s)) = Inr (sco_environment s)"
    "int_from 1 (JInt (sco_epoch s)) = Inr (sco_epoch s)" "int_from 1 (JInt (sco_version s)) = Inr (sco_version s)"
    using ok by (simp_all add: scope_ok_def validate_uuid4_ok catalog_slug_ok int_from_ok)
  with x f show ?thesis by (simp add: scope_from_dict_def)
qed

lemma bool_of_ok: "bool_of v = Inr b \<longleftrightarrow> v = JBool b"
  by (cases v) (auto simp: bool_of_def)

lemma field_names_ok: "rmap field_name l = Inr ns \<longleftrightarrow> l = map JStr ns \<and> [] \<notin> set ns"
proof (induction l arbitrary: ns)
  case (Cons v l)
  have "field_name v = Inr n \<longleftrightarrow> v = JStr n \<and> n \<noteq> []" for n by (cases v) (auto simp: field_name_def)
  with Cons show ?case by (auto simp: rbind_ok Cons_eq_map_conv)
qed auto

lemma export_read: "export_config v = Inr e \<Longrightarrow> export_ok e"
  by (auto simp: export_config_def rbind_ok ensure_ok field_names_ok export_ok_def len_length split: json.splits if_splits)

lemma export_roundtrip: "export_ok e \<Longrightarrow> export_config (export_dict e) = Inr e"
proof -
  assume ok: "export_ok e"
  have x: "exact_keys [''fields'', ''note'', ''refs'', ''tags''] (export_dict e)"
    by (auto simp: exact_keys_def export_dict_def)
  have f: "fld (export_dict e) ''fields'' = JList (map JStr (ex_fields e))" "fld (export_dict e) ''note'' = JBool (ex_note e)"
    "fld (export_dict e) ''refs'' = JBool (ex_refs e)" "fld (export_dict e) ''tags'' = JBool (ex_tags e)"
    by (simp_all add: export_dict_def fld_def)
  have "rmap field_name (map JStr (ex_fields e)) = Inr (ex_fields e)" "len (map JStr (ex_fields e)) \<le> 64" "distinct (ex_fields e)"
    using ok by (simp_all add: export_ok_def field_names_ok len_length)
  with x f show ?thesis by (simp add: export_config_def bool_of_def)
qed

lemma sha256_text_ok: "sha256_text v = Inr s \<longleftrightarrow> v = JStr s \<and> pylen s = 64 \<and> list_all is_hex s"
  by (cases v) (auto simp: sha256_text_def)

lemma binding_read: "scope_entry_from_dict v = Inr b \<Longrightarrow> binding_ok b"
  by (auto simp: scope_entry_from_dict_def rbind_ok ensure_ok sha256_text_ok validate_uuid4_ok catalog_text_ok binding_ok_def
      dest: export_read)

lemma binding_roundtrip: "binding_ok b \<Longrightarrow> scope_entry_from_dict (scope_entry_to_dict b) = Inr b"
proof -
  assume ok: "binding_ok b"
  have x: "exact_keys [''scope_id'', ''entry_id'', ''local_name'', ''export'', ''approval_revision''] (scope_entry_to_dict b)"
    by (auto simp: exact_keys_def scope_entry_to_dict_def)
  have f: "fld (scope_entry_to_dict b) ''scope_id'' = JStr (bi_scope b)" "fld (scope_entry_to_dict b) ''entry_id'' = JStr (bi_entry b)"
    "fld (scope_entry_to_dict b) ''local_name'' = JStr (bi_local b)" "fld (scope_entry_to_dict b) ''export'' = export_dict (bi_export b)"
    "fld (scope_entry_to_dict b) ''approval_revision'' = JStr (bi_approval b)"
    by (simp_all add: scope_entry_to_dict_def fld_def)
  have "validate_uuid4 (JStr (bi_scope b)) = Inr (bi_scope b)" "catalog_text 64 (JStr (bi_entry b)) = Inr (bi_entry b)"
    "catalog_text 64 (JStr (bi_local b)) = Inr (bi_local b)" "export_config (export_dict (bi_export b)) = Inr (bi_export b)"
    "sha256_text (JStr (bi_approval b)) = Inr (bi_approval b)"
    using ok by (simp_all add: binding_ok_def validate_uuid4_ok catalog_text_ok export_roundtrip sha256_text_ok)
  with x f show ?thesis by (simp add: scope_entry_from_dict_def)
qed

section \<open>The whole catalog\<close>

text \<open>What holds of every accepted catalog: identities are unique and no reference dangles.\<close>

definition wf_catalog :: "string set \<Rightarrow> catalog \<Rightarrow> bool" where
  "wf_catalog entry_ids c \<longleftrightarrow> (\<forall>f \<in> set (ca_folders c). folder_ok f) \<and> (\<forall>p \<in> set (ca_projects c). project_ok p)
     \<and> (\<forall>s \<in> set (ca_scopes c). scope_ok s) \<and> (\<forall>b \<in> set (ca_bindings c). binding_ok b)
     \<and> len (ca_folders c) \<le> 10000 \<and> len (ca_projects c) \<le> 10000 \<and> len (ca_scopes c) \<le> 20000 \<and> len (ca_bindings c) \<le> 100000
     \<and> distinct (map fo_id (ca_folders c)) \<and> distinct (map pr_id (ca_projects c)) \<and> distinct (map sco_id (ca_scopes c))
     \<and> distinct (map (\<lambda>b. (bi_scope b, bi_entry b)) (ca_bindings c))
     \<and> (\<forall>f \<in> set (ca_folders c). case fo_parent f of None \<Rightarrow> True | Some p \<Rightarrow> p \<in> fo_id ` set (ca_folders c))
     \<and> forest (ca_folders c) \<and> (\<forall>s \<in> set (ca_scopes c). sco_project s \<in> pr_id ` set (ca_projects c))
     \<and> distinct (map (\<lambda>s. (sco_project s, sco_environment s)) (ca_scopes c))
     \<and> (\<forall>b \<in> set (ca_bindings c). bi_scope b \<in> sco_id ` set (ca_scopes c) \<and> bi_entry b \<in> entry_ids)
     \<and> (\<forall>v \<in> set (ca_dedup c) \<union> set (ca_intents c). is_obj v \<and> finite_json v \<and> len (default_text v) \<le> 16384)"

lemma check_references_ok: "check_references ids fs ps ss bs = Inr u \<longleftrightarrow>
    distinct (map fo_id fs) \<and> distinct (map pr_id ps) \<and> distinct (map sco_id ss) \<and> distinct (map (\<lambda>b. (bi_scope b, bi_entry b)) bs)
    \<and> (\<forall>f \<in> set fs. case fo_parent f of None \<Rightarrow> True | Some p \<Rightarrow> p \<in> fo_id ` set fs) \<and> forest fs
    \<and> (\<forall>s \<in> set ss. sco_project s \<in> pr_id ` set ps) \<and> distinct (map (\<lambda>s. (sco_project s, sco_environment s)) ss)
    \<and> (\<forall>b \<in> set bs. bi_scope b \<in> sco_id ` set ss \<and> bi_entry b \<in> ids)"
  unfolding check_references_def validate_unique_def
  by (simp only: rbind_ok ensure_ok each_ok folder_cycles_iff) auto

lemma json_object_ok: "json_object v = Inr w \<longleftrightarrow> w = v \<and> is_obj v \<and> finite_json v \<and> len (default_text v) \<le> 16384"
  by (auto simp: json_object_def rbind_ok ensure_ok)

lemma json_objects_ok:
  "rmap json_object l = Inr ds \<longleftrightarrow> ds = l \<and> (\<forall>v \<in> set l. is_obj v \<and> finite_json v \<and> len (default_text v) \<le> 16384)"
proof (induction l arbitrary: ds)
  case (Cons v l)
  then show ?case by (auto simp: rbind_ok json_object_ok [of v])
qed auto

lemma rmap_read: "rmap f l = Inr ys \<Longrightarrow> (\<And>v y. f v = Inr y \<Longrightarrow> P y) \<Longrightarrow> len ys = len l \<and> (\<forall>y \<in> set ys. P y)"
  using rmap_length [of f l ys] rmap_set [of f l ys] by (fastforce simp: len_length)

lemma catalog_read:
  assumes "catalog_from_dict entry_ids v = Inr c"
  shows "wf_catalog entry_ids c"
proof -
  from assms obtain u where
    b: "each (bounded_list v) [(''folders'', 10000), (''projects'', 10000), (''scopes'', 20000), (''bindings'', 100000)] = Inr u"
    and r: "rmap folder_from_dict (items (fld v ''folders'')) = Inr (ca_folders c)"
      "rmap project_from_dict (items (fld v ''projects'')) = Inr (ca_projects c)"
      "rmap scope_from_dict (items (fld v ''scopes'')) = Inr (ca_scopes c)"
      "rmap scope_entry_from_dict (items (fld v ''bindings'')) = Inr (ca_bindings c)"
      "check_references entry_ids (ca_folders c) (ca_projects c) (ca_scopes c) (ca_bindings c) = Inr ()"
      "rmap json_object (items (fld v ''dedup'')) = Inr (ca_dedup c)"
      "rmap json_object (items (fld v ''publication_intents'')) = Inr (ca_intents c)"
    unfolding catalog_from_dict_def by (auto simp: rbind_ok ensure_ok)
  have l: "len (items (fld v ''folders'')) \<le> 10000" "len (items (fld v ''projects'')) \<le> 10000"
    "len (items (fld v ''scopes'')) \<le> 20000" "len (items (fld v ''bindings'')) \<le> 100000"
    using b by (auto simp: bounded_list_def rbind_ok ensure_ok split: json.splits)
  have q: "len (ca_folders c) = len (items (fld v ''folders'')) \<and> (\<forall>f \<in> set (ca_folders c). folder_ok f)"
    "len (ca_projects c) = len (items (fld v ''projects'')) \<and> (\<forall>f \<in> set (ca_projects c). project_ok f)"
    "len (ca_scopes c) = len (items (fld v ''scopes'')) \<and> (\<forall>f \<in> set (ca_scopes c). scope_ok f)"
    "len (ca_bindings c) = len (items (fld v ''bindings'')) \<and> (\<forall>f \<in> set (ca_bindings c). binding_ok f)"
    by (rule rmap_read [OF r(1) folder_read] rmap_read [OF r(2) project_read] rmap_read [OF r(3) scope_read]
        rmap_read [OF r(4) binding_read]; assumption)+
  have j: "\<forall>v \<in> set (ca_dedup c) \<union> set (ca_intents c). is_obj v \<and> finite_json v \<and> len (default_text v) \<le> 16384"
    using r(6,7) by (auto simp: json_objects_ok)
  show ?thesis
    unfolding wf_catalog_def using q l j r(5) [unfolded check_references_ok]
    by (elim conjE, intro conjI) (assumption | simp)+
qed

lemma catalog_roundtrip:
  assumes "wf_catalog entry_ids c"
  shows "catalog_from_dict entry_ids (catalog_to_dict c) = Inr c"
proof -
  have x: "exact_keys [''folders'', ''projects'', ''scopes'', ''bindings'', ''dedup'', ''publication_intents''] (catalog_to_dict c)"
    by (auto simp: exact_keys_def catalog_to_dict_def)
  have f: "fld (catalog_to_dict c) ''folders'' = JList (map folder_to_dict (ca_folders c))"
    "fld (catalog_to_dict c) ''projects'' = JList (map project_to_dict (ca_projects c))"
    "fld (catalog_to_dict c) ''scopes'' = JList (map scope_to_dict (ca_scopes c))"
    "fld (catalog_to_dict c) ''bindings'' = JList (map scope_entry_to_dict (ca_bindings c))"
    "fld (catalog_to_dict c) ''dedup'' = JList (ca_dedup c)" "fld (catalog_to_dict c) ''publication_intents'' = JList (ca_intents c)"
    by (simp_all add: catalog_to_dict_def fld_def)
  have m: "rmap g (map h xs) = Inr xs" if "\<forall>y \<in> set xs. g (h y) = Inr y" for g h xs
    using that by (induction xs) simp_all
  have r: "rmap folder_from_dict (map folder_to_dict (ca_folders c)) = Inr (ca_folders c)"
    "rmap project_from_dict (map project_to_dict (ca_projects c)) = Inr (ca_projects c)"
    "rmap scope_from_dict (map scope_to_dict (ca_scopes c)) = Inr (ca_scopes c)"
    "rmap scope_entry_from_dict (map scope_entry_to_dict (ca_bindings c)) = Inr (ca_bindings c)"
    using assms by (auto simp: wf_catalog_def intro!: m folder_roundtrip project_roundtrip scope_roundtrip binding_roundtrip)
  have k: "check_references entry_ids (ca_folders c) (ca_projects c) (ca_scopes c) (ca_bindings c) = Inr ()"
    using assms unfolding check_references_ok wf_catalog_def by (elim conjE, intro conjI) assumption+
  have d: "rmap json_object (ca_dedup c) = Inr (ca_dedup c)" "rmap json_object (ca_intents c) = Inr (ca_intents c)"
    using assms by (auto simp: wf_catalog_def json_objects_ok)
  have b: "each (bounded_list (catalog_to_dict c)) [(''folders'', 10000), (''projects'', 10000), (''scopes'', 20000), (''bindings'', 100000)] = Inr ()"
    using assms by (simp add: bounded_list_def f wf_catalog_def len_length)
  show ?thesis
    unfolding catalog_from_dict_def using x
    by (simp only: ensure_True rbind_Inr b f items.simps r k d is_list_def json.case simp_thms) simp
qed

end
