(* ===== verification/Store.thy ===== *)
theory Store
  imports Catalog_Proofs Protocol_Core
begin

text \<open>
  The metadata store of the vault (\<open>store.py\<close>): the data of the metadata file, the slot
  index of a transaction, and the operations that run under the write lock. Reading and
  writing the file itself, its backups and the lock are the file system's.
\<close>

section \<open>Data\<close>

datatype serr = Store_error | Name_conflict | Not_found | Escaped verr

text \<open>
  The top-level dictionary: \<open>md_catalog\<close> is present from schema 3 on, and \<open>md_extra\<close> are
  members that the program does not know (schema 3 refuses them).
\<close>

record metadata =
  md_version :: int
  md_entries :: "json list"
  md_tombstones :: "json list"
  md_catalog :: "json option"
  md_extra :: "(string \<times> json) list"

definition rec_id :: "json \<Rightarrow> string" where
  "rec_id r = text_of (fld r ''id'')"

definition rec_name :: "json \<Rightarrow> string" where
  "rec_name r = text_of (fld r ''name'')"

section \<open>Records as entries\<close>

text \<open>\<open>list(v)\<close>: of a string its characters, of a dictionary its keys.\<close>

function characters :: "string \<Rightarrow> string list" where
  "characters [] = []"
| "characters (c # s) = (c # takeWhile continuation s) # characters (dropWhile continuation s)"
  by pat_completeness auto
termination
  by (relation "measure length") (auto simp: le_imp_less_Suc length_dropWhile_le)

definition as_list :: "json \<Rightarrow> verr + json list" where
  "as_list v = (case v of JList l \<Rightarrow> Inr l | JObj m \<Rightarrow> Inr (map (\<lambda>kv. JStr (fst kv)) m)
     | JStr s \<Rightarrow> Inr (map JStr (characters s)) | _ \<Rightarrow> Inl Type_err)"

text \<open>\<open>dict(v)\<close>, but for lists of pairs, which no writer of the program produces.\<close>

definition as_dict :: "json \<Rightarrow> verr + json" where
  "as_dict v = (case v of JObj m \<Rightarrow> Inr v | JList l \<Rightarrow> if l = [] then Inr (JObj []) else Inl Value_err
     | JStr s \<Rightarrow> if s = [] then Inr (JObj []) else Inl Value_err | _ \<Rightarrow> Inl Type_err)"

definition entry_from_dict :: "json \<Rightarrow> verr + entry" where
  "entry_from_dict d =
     rbind (ensure (has_key d ''id'' \<and> has_key d ''name'' \<and> has_key d ''type'') Key_err) (\<lambda>_.
     rbind (case entry_type_of (fld d ''type'') of None \<Rightarrow> Inl Value_err | Some t \<Rightarrow> Inr t) (\<lambda>t.
     rbind (as_dict (get_or (JObj []) d ''fields'')) (\<lambda>fs.
     rbind (as_list (get_or (JList []) d ''tags'')) (\<lambda>tags.
     rbind (as_list (get_or (JList []) d ''refs'')) (\<lambda>rs.
     rbind (ensure (has_key d ''created_at'' \<and> has_key d ''updated_at'') Key_err) (\<lambda>_.
     rbind (if fld d ''provenance'' = JNull then Inr JNull else as_dict (fld d ''provenance'')) (\<lambda>p.
     Inr \<lparr>e_id = rec_id d, e_name = rec_name d, e_type = t, e_fields = fs, e_tags = tags,
          e_note = get_or (JStr []) d ''note'', e_refs = rs, e_created = fld d ''created_at'', e_updated = fld d ''updated_at'',
          e_folder = fld d ''folder_id'', e_distribution = get_or (JStr ''local_only'') d ''distribution'',
          e_provenance = p, e_revision = fld d ''content_revision''\<rparr>)))))))"

section \<open>Validation\<close>

text \<open>The loop of \<open>_validate_record_identities\<close>, with the identifiers and names seen so far.\<close>

primrec identities :: "json list \<Rightarrow> string list \<Rightarrow> string list \<Rightarrow> verr + unit" where
  "identities [] seen_ids seen_names = Inr ()"
| "identities (r # rs) seen_ids seen_names =
     rbind (ensure (is_obj r) Invalid) (\<lambda>_.
     rbind (validate_entry_id (fld r ''id'')) (\<lambda>_.
     rbind (validate_name (fld r ''name'')) (\<lambda>_.
     rbind (ensure (\<not> (rec_id r \<in> set seen_ids \<or> rec_name r \<in> set seen_names)) Invalid) (\<lambda>_.
     identities rs (rec_id r # seen_ids) (rec_name r # seen_names)))))"

definition validate_record_identities :: "json list \<Rightarrow> serr + unit" where
  "validate_record_identities rs = map_err (\<lambda>_. Store_error) (identities rs [] [])"

definition setdefault :: "string \<Rightarrow> json \<Rightarrow> json \<Rightarrow> json" where
  "setdefault k x r = (if has_key r k then r else JObj (members r @ [(k, x)]))"

text \<open>\<open>fresh i\<close> is the UUID drawn for the record at position \<open>i\<close>.\<close>

definition normalize_record :: "string \<Rightarrow> json \<Rightarrow> json" where
  "normalize_record u r =
     setdefault ''content_revision'' (JStr u) (setdefault ''provenance'' (JObj [(''source'', JStr ''local'')])
       (setdefault ''distribution'' (JStr ''local_only'') (setdefault ''folder_id'' JNull r)))"

definition normalize_v3_entries :: "(nat \<Rightarrow> string) \<Rightarrow> json list \<Rightarrow> json list" where
  "normalize_v3_entries fresh rs = map (\<lambda>(i, r). normalize_record (fresh i) r) (enumerate 0 rs)"

text \<open>Only \<open>ValidationError\<close> is turned into \<open>StoreError\<close>.\<close>

definition as_store_error :: "verr \<Rightarrow> serr" where
  "as_store_error e = (if e = Invalid then Store_error else Escaped e)"

definition validate_v3_data :: "metadata \<Rightarrow> serr + unit" where
  "validate_v3_data d =
     rbind (ensure (md_extra d = [] \<and> md_catalog d \<noteq> None) Store_error) (\<lambda>_.
     rbind (ensure (md_version d = 3) Store_error) (\<lambda>_.
     rbind (validate_record_identities (md_entries d)) (\<lambda>_.
     rbind (map_err as_store_error (rmap (from_untrusted_dict False True) (md_entries d))) (\<lambda>es.
     rbind (map_err as_store_error (rmap validate_tombstone (md_tombstones d))) (\<lambda>ts.
     rbind (ensure (distinct (map e_id es)) Store_error) (\<lambda>_.
     rbind (map_err as_store_error (catalog_from_dict (e_id ` set es) (the (md_catalog d)))) (\<lambda>c.
     rbind (ensure (distinct (map ts_id ts)) Store_error) (\<lambda>_.
     each (\<lambda>e. ensure (e_folder e = JNull \<or> (\<exists>f \<in> set (ca_folders c). e_folder e = JStr (fo_id f))) Store_error) es))))))))"

definition metadata_revision :: "crypto \<Rightarrow> metadata \<Rightarrow> string" where
  "metadata_revision C d = sha256_hex C (canonical_text (JObj (
     [(''schema_version'', JInt (md_version d)), (''entries'', JList (md_entries d)), (''tombstones'', JList (md_tombstones d))]
     @ (if 3 \<le> md_version d then [(''catalog'', case md_catalog d of None \<Rightarrow> JObj [] | Some c \<Rightarrow> c)] else []))))"

section \<open>Transactions over slots\<close>

text \<open>The index of a transaction: records by slot, slots by name and by identifier, and the order of the slots.\<close>

record slots =
  sl_records :: "nat \<Rightarrow> json option"
  sl_by_name :: "string \<Rightarrow> nat option"
  sl_by_id :: "string \<Rightarrow> nat option"
  sl_order :: "nat list"
  sl_next :: nat

definition no_slots :: slots where
  "no_slots = \<lparr>sl_records = (\<lambda>_. None), sl_by_name = (\<lambda>_. None), sl_by_id = (\<lambda>_. None), sl_order = [], sl_next = 0\<rparr>"

definition dict_setdefault :: "string \<Rightarrow> nat \<Rightarrow> (string \<Rightarrow> nat option) \<Rightarrow> string \<Rightarrow> nat option" where
  "dict_setdefault k v m = (if m k = None then m(k \<mapsto> v) else m)"

definition append_record :: "json \<Rightarrow> slots \<Rightarrow> slots" where
  "append_record r s =
     \<lparr>sl_records = (sl_records s)(sl_next s \<mapsto> r),
      sl_by_name = dict_setdefault (rec_name r) (sl_next s) (sl_by_name s),
      sl_by_id = dict_setdefault (rec_id r) (sl_next s) (sl_by_id s),
      sl_order = sl_order s @ [sl_next s], sl_next = sl_next s + 1\<rparr>"

definition reset_entries :: "json list \<Rightarrow> slots" where
  "reset_entries rs = fold append_record rs no_slots"

definition materialize :: "slots \<Rightarrow> json list" where
  "materialize s = map (\<lambda>i. the (sl_records s i)) (filter (\<lambda>i. sl_records s i \<noteq> None) (sl_order s))"

definition tx_list :: "slots \<Rightarrow> serr + entry list" where
  "tx_list s = map_err Escaped (rmap entry_from_dict (materialize s))"

definition tx_get :: "nat option \<Rightarrow> slots \<Rightarrow> serr + entry option" where
  "tx_get slot s = (case slot of None \<Rightarrow> Inr None
     | Some i \<Rightarrow> rbind (map_err Escaped (entry_from_dict (the (sl_records s i)))) (\<lambda>e. Inr (Some e)))"

definition tx_get_by_name :: "string \<Rightarrow> slots \<Rightarrow> serr + entry option" where
  "tx_get_by_name n s = tx_get (sl_by_name s n) s"

definition tx_get_by_id :: "string \<Rightarrow> slots \<Rightarrow> serr + entry option" where
  "tx_get_by_id i s = tx_get (sl_by_id s i) s"

definition tx_add :: "entry \<Rightarrow> slots \<Rightarrow> serr + slots" where
  "tx_add e s =
     rbind (ensure (sl_by_name s (e_name e) = None) Name_conflict) (\<lambda>_.
     rbind (ensure (sl_by_id s (e_id e) = None) Name_conflict) (\<lambda>_.
     Inr (append_record (entry_to_dict e) s)))"

text \<open>
  Does any record refer to a name? The scan stops at the first reference found; a record whose
  references are not objects (an unvalidated schema 2 file may hold one) raises before that.
\<close>

primrec refs_hit :: "string \<Rightarrow> json list \<Rightarrow> verr + bool" where
  "refs_hit n [] = Inr False"
| "refs_hit n (x # xs) = (if \<not> is_obj x then Inl Type_err else if fld x ''name'' = JStr n then Inr True else refs_hit n xs)"

primrec referenced :: "string \<Rightarrow> json list \<Rightarrow> verr + bool" where
  "referenced n [] = Inr False"
| "referenced n (r # rs) =
     rbind (as_list (get_or (JList []) r ''refs'')) (\<lambda>xs.
     rbind (refs_hit n xs) (\<lambda>b. if b then Inr True else referenced n rs))"

definition rename_allowed :: "string \<Rightarrow> string \<Rightarrow> json list \<Rightarrow> serr + unit" where
  "rename_allowed old_name new_name rs =
     (if old_name = new_name then Inr ()
      else rbind (map_err Escaped (referenced old_name rs)) (\<lambda>b. ensure (\<not> b) Store_error))"

definition assert_rename_safe :: "entry \<Rightarrow> slots \<Rightarrow> serr + unit" where
  "assert_rename_safe e s =
     (case sl_by_id s (e_id e) of None \<Rightarrow> Inr ()
      | Some i \<Rightarrow> rename_allowed (rec_name (the (sl_records s i))) (e_name e) (materialize s))"

definition tx_update :: "entry \<Rightarrow> slots \<Rightarrow> serr + slots" where
  "tx_update e s =
     (case sl_by_id s (e_id e) of None \<Rightarrow> Inl Not_found
      | Some i \<Rightarrow>
          rbind (ensure (case sl_by_name s (e_name e) of None \<Rightarrow> True | Some j \<Rightarrow> j = i) Name_conflict) (\<lambda>_.
          rbind (assert_rename_safe e s) (\<lambda>_.
          let previous_name = rec_name (the (sl_records s i));
              s' = s\<lparr>sl_records := (sl_records s)(i \<mapsto> entry_to_dict e)\<rparr> in
          Inr (if previous_name = e_name e then s'
               else s'\<lparr>sl_by_name := ((sl_by_name s)(previous_name := None))(e_name e \<mapsto> i)\<rparr>))))"

definition tx_replace :: "entry \<Rightarrow> slots \<Rightarrow> serr + slots" where
  "tx_replace e s =
     (case sl_by_name s (e_name e) of None \<Rightarrow> tx_add e s
      | Some i \<Rightarrow>
          rbind (ensure (case sl_by_id s (e_id e) of None \<Rightarrow> True | Some j \<Rightarrow> j = i) Name_conflict) (\<lambda>_.
          let previous_id = rec_id (the (sl_records s i));
              s' = s\<lparr>sl_records := (sl_records s)(i \<mapsto> entry_to_dict e)\<rparr> in
          Inr (if previous_id = e_id e then s'
               else s'\<lparr>sl_by_id := ((sl_by_id s)(previous_id := None))(e_id e \<mapsto> i)\<rparr>)))"

text \<open>\<open>delete_by_name\<close> removes the record before it reads it as an entry: the removed record is the result here.\<close>

definition tx_delete :: "string \<Rightarrow> slots \<Rightarrow> serr + slots \<times> json" where
  "tx_delete n s =
     (case sl_by_name s n of None \<Rightarrow> Inl Not_found
      | Some i \<Rightarrow>
          let r = the (sl_records s i) in
          Inr (s\<lparr>sl_records := (sl_records s)(i := None), sl_by_name := (sl_by_name s)(rec_name r := None),
                 sl_by_id := (sl_by_id s)(rec_id r := None)\<rparr>, r))"

definition tombstone_for :: "string \<Rightarrow> entry \<Rightarrow> json" where
  "tombstone_for now e = JObj [(''id'', JStr (e_id e)), (''name'', JStr (e_name e)), (''deleted_at'', JStr now)]"

section \<open>The same operations on the list of records\<close>

text \<open>The methods of \<open>MetadataStore\<close> work on the list itself, scanning it.\<close>

definition list_add :: "entry \<Rightarrow> json list \<Rightarrow> serr + json list" where
  "list_add e rs =
     (if \<exists>r \<in> set rs. rec_name r = e_name e \<or> rec_id r = e_id e then Inl Name_conflict
      else Inr (rs @ [entry_to_dict e]))"

definition position :: "('a \<Rightarrow> bool) \<Rightarrow> 'a list \<Rightarrow> nat option" where
  "position P xs = find (\<lambda>i. P (xs ! i)) [0..<length xs]"

definition list_replace :: "entry \<Rightarrow> json list \<Rightarrow> serr + json list" where
  "list_replace e rs =
     (case position (\<lambda>r. rec_name r = e_name e) rs of
        Some i \<Rightarrow>
          if \<exists>r \<in> set rs. rec_id r = e_id e \<and> rec_name r \<noteq> e_name e then Inl Name_conflict
          else Inr (rs[i := entry_to_dict e])
      | None \<Rightarrow>
          if \<exists>r \<in> set rs. rec_id r = e_id e then Inl Name_conflict else Inr (rs @ [entry_to_dict e]))"

definition list_delete :: "string \<Rightarrow> json list \<Rightarrow> serr + json list \<times> json" where
  "list_delete n rs =
     (case position (\<lambda>r. rec_name r = n) rs of
        Some i \<Rightarrow> Inr (take i rs @ drop (Suc i) rs, rs ! i)
      | None \<Rightarrow> Inl Not_found)"

text \<open>What \<open>update\<close> does, on the list.\<close>

definition list_update_entry :: "entry \<Rightarrow> json list \<Rightarrow> serr + json list" where
  "list_update_entry e rs =
     (case position (\<lambda>r. rec_id r = e_id e) rs of
        None \<Rightarrow> Inl Not_found
      | Some i \<Rightarrow>
          if \<exists>r \<in> set rs. rec_name r = e_name e \<and> rec_id r \<noteq> e_id e then Inl Name_conflict
          else rbind (rename_allowed (rec_name (rs ! i)) (e_name e) rs) (\<lambda>_. Inr (rs[i := entry_to_dict e])))"

section \<open>Operations of the store\<close>

text \<open>\<open>_locked_write\<close> after the body: nothing is written unless the data is valid.\<close>

definition finish_write :: "(nat \<Rightarrow> string) \<Rightarrow> metadata \<Rightarrow> serr + metadata" where
  "finish_write fresh d =
     rbind (validate_record_identities (md_entries d)) (\<lambda>_.
     if 3 \<le> md_version d then
       let d' = d\<lparr>md_entries := normalize_v3_entries fresh (md_entries d)\<rparr> in
       rbind (validate_v3_data d') (\<lambda>_. Inr d')
     else Inr d)"

definition store_add :: "(nat \<Rightarrow> string) \<Rightarrow> entry \<Rightarrow> metadata \<Rightarrow> serr + metadata" where
  "store_add fresh e d = rbind (list_add e (md_entries d)) (\<lambda>rs. finish_write fresh (d\<lparr>md_entries := rs\<rparr>))"

definition store_replace :: "(nat \<Rightarrow> string) \<Rightarrow> entry \<Rightarrow> metadata \<Rightarrow> serr + metadata" where
  "store_replace fresh e d = rbind (list_replace e (md_entries d)) (\<lambda>rs. finish_write fresh (d\<lparr>md_entries := rs\<rparr>))"

definition store_delete :: "(nat \<Rightarrow> string) \<Rightarrow> string \<Rightarrow> string \<Rightarrow> metadata \<Rightarrow> serr + metadata \<times> entry" where
  "store_delete fresh now n d =
     rbind (list_delete n (md_entries d)) (\<lambda>(rs, r).
     rbind (map_err Escaped (entry_from_dict r)) (\<lambda>e.
     rbind (finish_write fresh (d\<lparr>md_entries := rs, md_tombstones := md_tombstones d @ [tombstone_for now e]\<rparr>)) (\<lambda>d'.
     Inr (d', e))))"

text \<open>\<open>_commit\<close> and the end of the write, for a transaction that changed the entries.\<close>

definition commit_slots :: "(nat \<Rightarrow> string) \<Rightarrow> slots \<Rightarrow> metadata \<Rightarrow> serr + metadata" where
  "commit_slots fresh s d = finish_write fresh (d\<lparr>md_entries := materialize s\<rparr>)"

definition store_update :: "(nat \<Rightarrow> string) \<Rightarrow> entry \<Rightarrow> metadata \<Rightarrow> serr + metadata" where
  "store_update fresh e d =
     rbind (tx_update e (reset_entries (md_entries d))) (\<lambda>s. commit_slots fresh s d)"

definition apply_merge :: "(nat \<Rightarrow> string) \<Rightarrow> entry list \<Rightarrow> json list \<Rightarrow> metadata \<Rightarrow> serr + metadata" where
  "apply_merge fresh es ts d = finish_write fresh (d\<lparr>md_entries := map entry_to_dict es, md_tombstones := ts\<rparr>)"

text \<open>A tombstone without a readable \<open>deleted_at\<close> raises.\<close>

definition deleted_at :: "json \<Rightarrow> serr + string" where
  "deleted_at t = (if \<not> is_obj t then Inl (Escaped Type_err)
     else if \<not> has_key t ''deleted_at'' then Inl (Escaped Key_err)
     else (case fld t ''deleted_at'' of JStr s \<Rightarrow> Inr s | _ \<Rightarrow> Inl (Escaped Type_err)))"

definition prune_tombstones_before :: "(nat \<Rightarrow> string) \<Rightarrow> string \<Rightarrow> metadata \<Rightarrow> serr + metadata \<times> int" where
  "prune_tombstones_before fresh horizon d =
     rbind (rmap (\<lambda>t. rbind (deleted_at t) (\<lambda>s. Inr (t, s))) (md_tombstones d)) (\<lambda>dated.
     let kept = map fst (filter (\<lambda>ts. horizon \<le> snd ts) dated) in
     rbind (finish_write fresh (d\<lparr>md_tombstones := kept\<rparr>)) (\<lambda>d'.
     Inr (d', len (md_tombstones d) - len kept)))"

definition set_catalog_state :: "json \<Rightarrow> slots \<Rightarrow> metadata \<Rightarrow> serr + metadata" where
  "set_catalog_state state s d =
     rbind (ensure (3 \<le> md_version d) Store_error) (\<lambda>_.
     rbind (map_err Escaped (catalog_from_dict {i. sl_by_id s i \<noteq> None} state)) (\<lambda>_.
     Inr (d\<lparr>md_catalog := Some state\<rparr>)))"

definition replace_all :: "entry list \<Rightarrow> json list \<Rightarrow> metadata \<Rightarrow> slots \<times> metadata" where
  "replace_all es ts d = (reset_entries (map entry_to_dict es), d\<lparr>md_tombstones := ts\<rparr>)"

text \<open>Reading: every record becomes an entry, or the read fails.\<close>

definition store_list :: "metadata \<Rightarrow> serr + entry list" where
  "store_list d = map_err Escaped (rmap entry_from_dict (md_entries d))"

definition store_get_by_name :: "string \<Rightarrow> metadata \<Rightarrow> serr + entry option" where
  "store_get_by_name n d = rbind (store_list d) (\<lambda>es. Inr (find (\<lambda>e. e_name e = n) es))"

definition store_get_by_id :: "string \<Rightarrow> metadata \<Rightarrow> serr + entry option" where
  "store_get_by_id i d = rbind (store_list d) (\<lambda>es. Inr (find (\<lambda>e. e_id e = i) es))"

definition catalog_state :: "metadata \<Rightarrow> serr + json" where
  "catalog_state d = rbind (ensure (3 \<le> md_version d) Store_error) (\<lambda>_. Inr (the (md_catalog d)))"

record snapshot =
  sn_entries :: "entry list"
  sn_tombstones :: "json list"
  sn_revision :: string
  sn_version :: int

definition store_snapshot :: "crypto \<Rightarrow> metadata \<Rightarrow> serr + snapshot" where
  "store_snapshot C d =
     rbind (tx_list (reset_entries (md_entries d))) (\<lambda>es.
     Inr \<lparr>sn_entries = es, sn_tombstones = md_tombstones d,
          sn_revision = metadata_revision C (d\<lparr>md_entries := materialize (reset_entries (md_entries d))\<rparr>),
          sn_version = md_version d\<rparr>)"

text \<open>The migration to schema 3, after the backup of the old file. \<open>unsorted\<close> is the new folder's identifier.\<close>

definition set_member :: "string \<Rightarrow> json \<Rightarrow> json \<Rightarrow> json" where
  "set_member k x r = JObj (put k x (members r))"

definition migrate_record :: "string \<Rightarrow> string \<Rightarrow> json \<Rightarrow> json" where
  "migrate_record unsorted u r =
     set_member ''content_revision'' (JStr u) (set_member ''provenance'' (JObj [(''source'', JStr ''legacy_migration'')])
       (set_member ''distribution'' (JStr ''local_only'') (set_member ''folder_id'' (JStr unsorted) r)))"

definition migrated_catalog :: "string \<Rightarrow> catalog" where
  "migrated_catalog unsorted =
     \<lparr>ca_folders = [\<lparr>fo_id = unsorted, fo_name = ''Unsorted'', fo_parent = None, fo_position = 0\<rparr>], ca_projects = [],
      ca_scopes = [], ca_bindings = [], ca_dedup = [], ca_intents = []\<rparr>"

definition migrate_catalog_v3 ::
  "crypto \<Rightarrow> (nat \<Rightarrow> string) \<Rightarrow> string \<Rightarrow> string option \<Rightarrow> metadata \<Rightarrow> serr + metadata \<times> json" where
  "migrate_catalog_v3 C fresh unsorted expected d =
     rbind (case expected of None \<Rightarrow> Inr ()
            | Some x \<Rightarrow> rbind (ensure (pylen x = 64) Store_error) (\<lambda>_.
                ensure (metadata_revision C d = x) Store_error)) (\<lambda>_.
     if md_version d = 3 then
       rbind (finish_write fresh d) (\<lambda>d'. Inr (d', case md_catalog d of None \<Rightarrow> JNull | Some c \<Rightarrow> c))
     else
       rbind (ensure (md_version d = 2) Store_error) (\<lambda>_.
       let c = catalog_to_dict (migrated_catalog unsorted);
           d1 = d\<lparr>md_entries := map (\<lambda>(i, r). migrate_record unsorted (fresh i) r) (enumerate 0 (md_entries d)),
                   md_catalog := Some c, md_version := 3\<rparr> in
       rbind (validate_v3_data d1) (\<lambda>_.
       rbind (finish_write fresh d1) (\<lambda>d2. Inr (d2, c)))))"

section \<open>Reading the file\<close>

text \<open>
  \<open>_read\<close> on the bytes of the file (\<open>None\<close>: there is none), which are UTF-8 text. Older
  schemas are raised to 2. A file without \<open>entries\<close> is refused here; in the code the first
  operation that subscripts them raises the \<open>KeyError\<close>.
\<close>

definition bytes_white :: "char \<Rightarrow> bool" where
  "bytes_white c = (byte c = 32 \<or> (9 \<le> byte c \<and> byte c \<le> 13))"

definition metadata_of :: "json \<Rightarrow> serr + metadata" where
  "metadata_of v =
     rbind (ensure (is_obj v \<and> (case get_or (JInt 0) v ''schema_version'' of JInt _ \<Rightarrow> True | _ \<Rightarrow> False)
              \<and> is_list (get_or (JList []) v ''entries'') \<and> is_list (get_or (JList []) v ''tombstones'')) Store_error) (\<lambda>_.
     let sv = int_of (get_or (JInt 0) v ''schema_version'') in
     rbind (ensure (sv \<le> 3) Store_error) (\<lambda>_.
     rbind (validate_record_identities (items (get_or (JList []) v ''entries''))) (\<lambda>_.
     rbind (ensure (has_key v ''entries'') (Escaped Key_err)) (\<lambda>_.
     let d = \<lparr>md_version = (if sv < 2 then 2 else sv), md_entries = items (fld v ''entries''),
              md_tombstones = items (get_or (JList []) v ''tombstones''),
              md_catalog = (if has_key v ''catalog'' then Some (fld v ''catalog'') else None),
              md_extra = filter (\<lambda>kv. fst kv \<notin> {''schema_version'', ''entries'', ''tombstones'', ''catalog''}) (members v)\<rparr> in
     rbind (if md_version d = 3 then validate_v3_data d else Inr ()) (\<lambda>_. Inr d)))))"

definition file_cfg :: jcfg where
  "file_cfg = \<lparr>allow_float = True, allow_constant = True\<rparr>"

definition read_metadata :: "string option \<Rightarrow> serr + metadata" where
  "read_metadata raw = (case raw of
       None \<Rightarrow> Inr \<lparr>md_version = 2, md_entries = [], md_tombstones = [], md_catalog = None, md_extra = []\<rparr>
     | Some b \<Rightarrow>
         rbind (ensure (\<not> list_all bytes_white b) Store_error) (\<lambda>_.
         rbind (ensure (valid_utf8 b) Store_error) (\<lambda>_.
         (case loads file_cfg b of Inl _ \<Rightarrow> Inl Store_error | Inr v \<Rightarrow> metadata_of v))))"

end
