(* ===== verification/Store_Proofs.thy ===== *)
theory Store_Proofs
  imports Store
begin

text \<open>
  The slot index of a transaction implements the operations on the list of records; what is
  written is always valid; deletions, renames and the migration keep what they promise.
\<close>

section \<open>Positions\<close>

lemma position_unique:
  assumes "k < length xs" and "P (xs ! k)" and "\<And>j. j < length xs \<Longrightarrow> P (xs ! j) \<Longrightarrow> j = k"
  shows "position P xs = Some k"
proof -
  have "\<exists>i. position P xs = Some i" using assms(1,2) by (auto simp: position_def find_Some_iff_ex)
  then obtain i where i: "position P xs = Some i" ..
  with find_SomeD [of "\<lambda>i. P (xs ! i)" "[0..<length xs]" i] have "i < length xs" "P (xs ! i)" by (auto simp: position_def)
  with assms(3) i show ?thesis by blast
qed

lemma position_None: "position P xs = None \<longleftrightarrow> (\<forall>x \<in> set xs. \<not> P x)"
  unfolding position_def find_None_iff by (simp add: all_set_conv_all_nth)

lemma position_Some: "position P xs = Some k \<Longrightarrow> k < length xs \<and> P (xs ! k)"
  using find_SomeD [of "\<lambda>i. P (xs ! i)" "[0..<length xs]" k] by (auto simp: position_def)

lemma filter_out_nth:
  assumes "distinct xs" and "k < length xs"
  shows "filter (\<lambda>x. x \<noteq> xs ! k) xs = take k xs @ drop (Suc k) xs"
proof -
  have x: "xs = take k xs @ xs ! k # drop (Suc k) xs" by (rule id_take_nth_drop [OF assms(2)])
  then have "distinct (take k xs @ xs ! k # drop (Suc k) xs)" using assms(1) by simp
  then have n: "xs ! k \<notin> set (take k xs)" "xs ! k \<notin> set (drop (Suc k) xs)" by auto
  have "filter (\<lambda>x. x \<noteq> xs ! k) (take k xs @ xs ! k # drop (Suc k) xs) = take k xs @ drop (Suc k) xs"
  proof -
    have "filter (\<lambda>x. x \<noteq> xs ! k) (take k xs) = take k xs" "filter (\<lambda>x. x \<noteq> xs ! k) (drop (Suc k) xs) = drop (Suc k) xs"
      using n by (metis (mono_tags, lifting) filter_True)+
    then show ?thesis by simp
  qed
  then show ?thesis using x by simp
qed

section \<open>The index\<close>

lemma rec_of_dict [simp]: "rec_id (entry_to_dict e) = e_id e" "rec_name (entry_to_dict e) = e_name e"
  by (simp_all add: rec_id_def rec_name_def entry_to_dict_fld)

definition live :: "slots \<Rightarrow> nat list" where
  "live s = filter (\<lambda>i. sl_records s i \<noteq> None) (sl_order s)"

lemma materialize_live: "materialize s = map (\<lambda>i. the (sl_records s i)) (live s)"
  by (simp add: materialize_def live_def)

text \<open>A dictionary from keys to slots that is exactly the index of the records by a key.\<close>

definition indexes :: "('r \<Rightarrow> string) \<Rightarrow> (string \<Rightarrow> nat option) \<Rightarrow> (nat \<Rightarrow> 'r option) \<Rightarrow> bool" where
  "indexes key m f \<longleftrightarrow> (\<forall>x i. m x = Some i \<longleftrightarrow> (\<exists>r. f i = Some r \<and> key r = x))"

lemma indexesD: "indexes key m f \<Longrightarrow> m x = Some i \<longleftrightarrow> (\<exists>r. f i = Some r \<and> key r = x)"
  by (simp add: indexes_def)

lemma indexes_add:
  assumes m: "indexes key m f" and "f i = None" and "m (key r) = None"
  shows "indexes key (m(key r \<mapsto> i)) (f(i \<mapsto> r))"
  unfolding indexes_def
proof (intro allI)
  fix x j
  show "(m(key r \<mapsto> i)) x = Some j \<longleftrightarrow> (\<exists>r'. (f(i \<mapsto> r)) j = Some r' \<and> key r' = x)"
    using indexesD [OF m, of x j] indexesD [OF m, of "key r" j] assms(2,3) by (cases "x = key r"; cases "j = i") auto
qed

lemma indexes_put:
  assumes m: "indexes key m f" and r: "f i = Some r" and n: "\<forall>j. m (key y) = Some j \<longrightarrow> j = i"
  shows "indexes key ((m(key r := None))(key y \<mapsto> i)) (f(i \<mapsto> y))"
  unfolding indexes_def
proof (intro allI)
  fix x j
  have mi: "m (key z) = Some k" if "f k = Some z" for k z using indexesD [OF m] that by blast
  show "((m(key r := None))(key y \<mapsto> i)) x = Some j \<longleftrightarrow> (\<exists>r'. (f(i \<mapsto> y)) j = Some r' \<and> key r' = x)"
  proof (cases "x = key y")
    case True
    have "j = i" if "f j = Some z" "key z = key y" for z using n mi [OF that(1)] that(2) by simp
    with True show ?thesis by auto
  next
    case False
    show ?thesis
    proof (cases "j = i")
      case True
      have "m x = Some i \<Longrightarrow> x = key r" using indexesD [OF m, of x i] r by auto
      with True False show ?thesis by auto
    next
      case other: False
      have "f j = Some z \<Longrightarrow> key z \<noteq> key r" for z using mi [of j z] mi [OF r] other by auto
      with other False show ?thesis using indexesD [OF m, of x j] by auto
    qed
  qed
qed

lemma indexes_drop:
  assumes m: "indexes key m f" and r: "f i = Some r"
  shows "indexes key (m(key r := None)) (f(i := None))"
  unfolding indexes_def
proof (intro allI)
  fix x j
  have "m (key r) = Some i" using indexesD [OF m] r by blast
  then show "(m(key r := None)) x = Some j \<longleftrightarrow> (\<exists>r'. (f(i := None)) j = Some r' \<and> key r' = x)"
    using indexesD [OF m, of x j] r by (cases "j = i"; cases "x = key r") auto
qed

text \<open>The index maps exactly the names and identifiers of the live records to their slots.\<close>

definition slots_ok :: "slots \<Rightarrow> bool" where
  "slots_ok s \<longleftrightarrow> distinct (sl_order s) \<and> (\<forall>i. sl_records s i \<noteq> None \<longrightarrow> i \<in> set (sl_order s))
     \<and> (\<forall>i \<in> set (sl_order s). i < sl_next s)
     \<and> indexes rec_name (sl_by_name s) (sl_records s) \<and> indexes rec_id (sl_by_id s) (sl_records s)"

lemma slots_okD:
  assumes "slots_ok s"
  shows "distinct (live s)" and "i \<in> set (live s) \<longleftrightarrow> sl_records s i \<noteq> None" and "sl_records s i \<noteq> None \<Longrightarrow> i < sl_next s"
    and "sl_by_name s n = Some i \<longleftrightarrow> (\<exists>r. sl_records s i = Some r \<and> rec_name r = n)"
    and "sl_by_id s d = Some i \<longleftrightarrow> (\<exists>r. sl_records s i = Some r \<and> rec_id r = d)"
    and "indexes rec_name (sl_by_name s) (sl_records s)" and "indexes rec_id (sl_by_id s) (sl_records s)"
  using assms by (auto simp: slots_ok_def live_def indexesD)

lemma by_nameI: "slots_ok s \<Longrightarrow> sl_records s i = Some r \<Longrightarrow> sl_by_name s (rec_name r) = Some i"
  and by_idI: "slots_ok s \<Longrightarrow> sl_records s i = Some r \<Longrightarrow> sl_by_id s (rec_id r) = Some i"
  using slots_okD(4,5) by blast+

lemma set_materialize: "slots_ok s \<Longrightarrow> r \<in> set (materialize s) \<longleftrightarrow> (\<exists>i. sl_records s i = Some r)"
  using slots_okD(2) [of s] by (force simp: materialize_live)

lemma by_name_None: "slots_ok s \<Longrightarrow> sl_by_name s n = None \<longleftrightarrow> (\<forall>r \<in> set (materialize s). rec_name r \<noteq> n)"
proof -
  assume ok: "slots_ok s"
  have "(\<exists>i. sl_by_name s n = Some i) \<longleftrightarrow> (\<exists>r \<in> set (materialize s). rec_name r = n)"
    unfolding slots_okD(4) [OF ok] Bex_def set_materialize [OF ok] by blast
  then show ?thesis by (auto simp flip: not_Some_eq)
qed

lemma by_id_None: "slots_ok s \<Longrightarrow> sl_by_id s d = None \<longleftrightarrow> (\<forall>r \<in> set (materialize s). rec_id r \<noteq> d)"
proof -
  assume ok: "slots_ok s"
  have "(\<exists>i. sl_by_id s d = Some i) \<longleftrightarrow> (\<exists>r \<in> set (materialize s). rec_id r = d)"
    unfolding slots_okD(5) [OF ok] Bex_def set_materialize [OF ok] by blast
  then show ?thesis by (auto simp flip: not_Some_eq)
qed

lemma live_nth:
  assumes "slots_ok s" and "sl_records s i = Some r"
  obtains k where "k < length (live s)" "live s ! k = i" "materialize s ! k = r" "k < length (materialize s)"
proof -
  have "i \<in> set (live s)" using assms slots_okD(2) [of s i] by simp
  then obtain k where "k < length (live s)" "live s ! k = i" by (auto simp: in_set_conv_nth)
  with assms(2) show ?thesis by (intro that [of k]) (simp_all add: materialize_live)
qed

lemma nth_record: "slots_ok s \<Longrightarrow> j < length (live s) \<Longrightarrow> sl_records s (live s ! j) = Some (materialize s ! j)"
  using slots_okD(2) [of s "live s ! j"] nth_mem [of j "live s"] by (auto simp: materialize_live)

lemma position_name:
  assumes ok: "slots_ok s" and r: "sl_records s i = Some r" and k: "k < length (live s)" "live s ! k = i"
  shows "position (\<lambda>x. rec_name x = rec_name r) (materialize s) = Some k"
    and "position (\<lambda>x. rec_id x = rec_id r) (materialize s) = Some k"
proof -
  have kr: "materialize s ! k = r" "k < length (materialize s)" using nth_record [OF ok k(1)] k r by (simp_all add: materialize_live)
  have u: "j = k" if "j < length (materialize s)" "live s ! j = i" for j
    using that k nth_eq_iff_index_eq [OF slots_okD(1) [OF ok], of j k] by (simp add: materialize_live)
  show "position (\<lambda>x. rec_name x = rec_name r) (materialize s) = Some k"
  proof (rule position_unique)
    fix j assume j: "j < length (materialize s)" "rec_name (materialize s ! j) = rec_name r"
    then have "sl_by_name s (rec_name r) = Some (live s ! j)"
      using by_nameI [OF ok nth_record [OF ok], of j] by (simp add: materialize_live)
    moreover have "sl_by_name s (rec_name r) = Some i" by (rule by_nameI [OF ok r])
    ultimately show "j = k" using u j(1) by simp
  qed (use kr in simp_all)
  show "position (\<lambda>x. rec_id x = rec_id r) (materialize s) = Some k"
  proof (rule position_unique)
    fix j assume j: "j < length (materialize s)" "rec_id (materialize s ! j) = rec_id r"
    then have "sl_by_id s (rec_id r) = Some (live s ! j)"
      using by_idI [OF ok nth_record [OF ok], of j] by (simp add: materialize_live)
    moreover have "sl_by_id s (rec_id r) = Some i" by (rule by_idI [OF ok r])
    ultimately show "j = k" using u j(1) by simp
  qed (use kr in simp_all)
qed

text \<open>Storing a record in a live slot replaces it in the list; emptying the slot removes it.\<close>

lemma materialize_put:
  assumes ok: "slots_ok s" and k: "k < length (live s)" "live s ! k = i"
    and s': "sl_records s' = (sl_records s)(i \<mapsto> x)" "sl_order s' = sl_order s"
  shows "materialize s' = (materialize s)[k := x]"
proof -
  have "i \<in> set (live s)" using k by (metis nth_mem)
  then have "sl_records s i \<noteq> None" using slots_okD(2) [OF ok] by simp
  then have l: "live s' = live s" unfolding live_def s' by (intro filter_cong) auto
  show ?thesis
    unfolding materialize_live l
  proof (rule nth_equalityI)
    fix j assume "j < length (map (\<lambda>i. the (sl_records s' i)) (live s))"
    then have j: "j < length (live s)" by simp
    have "live s ! j = i \<longleftrightarrow> j = k" using j k slots_okD(1) [OF ok] by (auto simp: nth_eq_iff_index_eq)
    with j show "map (\<lambda>i. the (sl_records s' i)) (live s) ! j = (map (\<lambda>i. the (sl_records s i)) (live s))[k := x] ! j"
      by (auto simp: s' nth_list_update)
  qed simp
qed

lemma materialize_drop:
  assumes ok: "slots_ok s" and k: "k < length (live s)" "live s ! k = i"
    and s': "sl_records s' = (sl_records s)(i := None)" "sl_order s' = sl_order s"
  shows "materialize s' = take k (materialize s) @ drop (Suc k) (materialize s)"
proof -
  have "live s' = filter (\<lambda>j. j \<noteq> live s ! k) (live s)"
    unfolding live_def [of s'] s' k(2) by (auto simp: live_def intro: filter_cong)
  also have "\<dots> = take k (live s) @ drop (Suc k) (live s)" by (rule filter_out_nth [OF slots_okD(1) [OF ok] k(1)])
  finally have l: "live s' = take k (live s) @ drop (Suc k) (live s)" .
  have "j \<noteq> i" if "j \<in> set (live s')" for j using that unfolding live_def s' by auto
  then have "materialize s' = map (\<lambda>j. the (sl_records s j)) (live s')"
    unfolding materialize_live by (intro map_cong) (auto simp: s')
  then show ?thesis unfolding l materialize_live by (simp add: take_map drop_map)
qed

section \<open>The operations of a transaction\<close>

text \<open>\<open>refines\<close>: the same error, or a state that is in order and shows the same list.\<close>

definition refines :: "('s \<Rightarrow> bool) \<Rightarrow> ('s \<Rightarrow> json list) \<Rightarrow> serr + 's \<Rightarrow> serr + json list \<Rightarrow> bool" where
  "refines ok view m l \<longleftrightarrow> (case m of Inl x \<Rightarrow> l = Inl x | Inr s \<Rightarrow> ok s \<and> l = Inr (view s))"

lemma append_record_ok:
  assumes ok: "slots_ok s" and n: "sl_by_name s (rec_name r) = None" and d: "sl_by_id s (rec_id r) = None"
  shows "slots_ok (append_record r s)" and "materialize (append_record r s) = materialize s @ [r]"
proof -
  have fresh: "sl_next s \<notin> set (sl_order s)" "sl_records s (sl_next s) = None"
    using ok by (auto simp: slots_ok_def)
  show "slots_ok (append_record r s)"
    unfolding slots_ok_def
  proof (intro conjI allI)
    show "distinct (sl_order (append_record r s))" using ok fresh by (simp add: append_record_def slots_ok_def)
    show "sl_records (append_record r s) i \<noteq> None \<longrightarrow> i \<in> set (sl_order (append_record r s))" for i
      using ok by (auto simp: append_record_def slots_ok_def)
    show "\<forall>i \<in> set (sl_order (append_record r s)). i < sl_next (append_record r s)"
      using ok by (auto simp: append_record_def slots_ok_def)
    show "indexes rec_name (sl_by_name (append_record r s)) (sl_records (append_record r s))"
      using indexes_add [OF slots_okD(6) [OF ok] fresh(2) n] n by (simp add: append_record_def dict_setdefault_def)
    show "indexes rec_id (sl_by_id (append_record r s)) (sl_records (append_record r s))"
      using indexes_add [OF slots_okD(7) [OF ok] fresh(2) d] d by (simp add: append_record_def dict_setdefault_def)
  qed
  have "live (append_record r s) = live s @ [sl_next s]"
    using fresh by (auto simp: live_def append_record_def intro: filter_cong)
  moreover have "sl_next s \<notin> set (live s)" using fresh by (simp add: live_def)
  ultimately show "materialize (append_record r s) = materialize s @ [r]"
    by (auto simp: materialize_live append_record_def)
qed

lemma tx_add_refines:
  assumes "slots_ok s"
  shows "refines slots_ok materialize (tx_add e s) (list_add e (materialize s))"
  using by_name_None [OF assms, of "e_name e"] by_id_None [OF assms, of "e_id e"]
    append_record_ok [OF assms, of "entry_to_dict e"]
  by (auto simp: refines_def tx_add_def list_add_def ensure_def)

lemma put_record_ok:
  assumes ok: "slots_ok s" and r: "sl_records s i = Some r"
    and n: "\<forall>j. sl_by_name s (e_name e) = Some j \<longrightarrow> j = i" and d: "\<forall>j. sl_by_id s (e_id e) = Some j \<longrightarrow> j = i"
    and s': "s' = s\<lparr>sl_records := (sl_records s)(i \<mapsto> entry_to_dict e),
                   sl_by_name := ((sl_by_name s)(rec_name r := None))(e_name e \<mapsto> i),
                   sl_by_id := ((sl_by_id s)(rec_id r := None))(e_id e \<mapsto> i)\<rparr>"
  shows "slots_ok s'"
  unfolding slots_ok_def s'
proof (intro conjI allI)
  show "indexes rec_name (sl_by_name (s\<lparr>sl_records := (sl_records s)(i \<mapsto> entry_to_dict e),
                   sl_by_name := ((sl_by_name s)(rec_name r := None))(e_name e \<mapsto> i),
                   sl_by_id := ((sl_by_id s)(rec_id r := None))(e_id e \<mapsto> i)\<rparr>))
      (sl_records (s\<lparr>sl_records := (sl_records s)(i \<mapsto> entry_to_dict e),
                   sl_by_name := ((sl_by_name s)(rec_name r := None))(e_name e \<mapsto> i),
                   sl_by_id := ((sl_by_id s)(rec_id r := None))(e_id e \<mapsto> i)\<rparr>))"
    using indexes_put [OF slots_okD(6) [OF ok] r, of "entry_to_dict e"] n by simp
  show "indexes rec_id (sl_by_id (s\<lparr>sl_records := (sl_records s)(i \<mapsto> entry_to_dict e),
                   sl_by_name := ((sl_by_name s)(rec_name r := None))(e_name e \<mapsto> i),
                   sl_by_id := ((sl_by_id s)(rec_id r := None))(e_id e \<mapsto> i)\<rparr>))
      (sl_records (s\<lparr>sl_records := (sl_records s)(i \<mapsto> entry_to_dict e),
                   sl_by_name := ((sl_by_name s)(rec_name r := None))(e_name e \<mapsto> i),
                   sl_by_id := ((sl_by_id s)(rec_id r := None))(e_id e \<mapsto> i)\<rparr>))"
    using indexes_put [OF slots_okD(7) [OF ok] r, of "entry_to_dict e"] d by simp
qed (use ok r in \<open>auto simp: slots_ok_def\<close>)

lemma map_upd_id: "m k = Some v \<Longrightarrow> m(k \<mapsto> v) = m"
  by (auto simp: fun_eq_iff)

lemma tx_update_refines:
  assumes ok: "slots_ok s"
  shows "refines slots_ok materialize (tx_update e s) (list_update_entry e (materialize s))"
proof (cases "sl_by_id s (e_id e)")
  case None
  then have "position (\<lambda>x. rec_id x = e_id e) (materialize s) = None"
    unfolding by_id_None [OF ok] by (simp add: position_None)
  with None show ?thesis by (simp add: refines_def tx_update_def list_update_entry_def)
next
  case (Some i)
  then obtain r where r: "sl_records s i = Some r" "rec_id r = e_id e" using slots_okD(5) [OF ok] by blast
  obtain k where k: "k < length (live s)" "live s ! k = i" "materialize s ! k = r" by (rule live_nth [OF ok r(1)])
  have p: "position (\<lambda>x. rec_id x = e_id e) (materialize s) = Some k" using position_name(2) [OF ok r(1) k(1,2)] r(2) by simp
  have c: "(case sl_by_name s (e_name e) of None \<Rightarrow> True | Some j \<Rightarrow> j = i) \<longleftrightarrow>
      \<not> (\<exists>x \<in> set (materialize s). rec_name x = e_name e \<and> rec_id x \<noteq> e_id e)"
  proof (cases "sl_by_name s (e_name e)")
    case None
    then show ?thesis using by_name_None [OF ok, of "e_name e"] by simp
  next
    case (Some j)
    then obtain x where x: "sl_records s j = Some x" "rec_name x = e_name e" using slots_okD(4) [OF ok] by blast
    have u: "y = x" if "y \<in> set (materialize s)" "rec_name y = e_name e" for y
    proof -
      from that set_materialize [OF ok] obtain l where "sl_records s l = Some y" by blast
      with that Some by_nameI [OF ok, of l y] have "l = j" by simp
      with x \<open>sl_records s l = Some y\<close> show ?thesis by simp
    qed
    moreover have "x \<in> set (materialize s)" using x set_materialize [OF ok] by blast
    moreover have "rec_id x = e_id e \<longleftrightarrow> j = i"
      using x(1) r \<open>sl_by_id s (e_id e) = Some i\<close> by_idI [OF ok x(1)] by auto
    ultimately have "(\<exists>y \<in> set (materialize s). rec_name y = e_name e \<and> rec_id y \<noteq> e_id e) \<longleftrightarrow> j \<noteq> i"
      using u x(2) by blast
    with Some show ?thesis by simp
  qed
  have a: "assert_rename_safe e s = rename_allowed (rec_name r) (e_name e) (materialize s)"
    using Some r by (simp add: assert_rename_safe_def)
  define s' where "s' = s\<lparr>sl_records := (sl_records s)(i \<mapsto> entry_to_dict e),
      sl_by_name := ((sl_by_name s)(rec_name r := None))(e_name e \<mapsto> i),
      sl_by_id := ((sl_by_id s)(rec_id r := None))(e_id e \<mapsto> i)\<rparr>"
  have ids: "((sl_by_id s)(rec_id r := None))(e_id e \<mapsto> i) = sl_by_id s" using Some r(2) by (simp add: map_upd_id)
  have nms: "((sl_by_name s)(rec_name r := None))(e_name e \<mapsto> i) = sl_by_name s" if "rec_name r = e_name e"
    using slots_okD(4) [OF ok, of "e_name e" i] r(1) that by (auto simp: map_upd_id)
  have u: "tx_update e s = (if (case sl_by_name s (e_name e) of None \<Rightarrow> True | Some j \<Rightarrow> j = i)
      then rbind (assert_rename_safe e s) (\<lambda>_. Inr s') else Inl Name_conflict)"
    using Some r nms ids by (auto simp: tx_update_def s'_def Let_def ensure_def intro!: arg_cong [of _ _ "rbind _"] split: option.split)
  have m: "materialize s' = (materialize s)[k := entry_to_dict e]"
    by (rule materialize_put [OF ok k(1,2)]) (simp_all add: s'_def)
  have "slots_ok s'" if "\<forall>j. sl_by_name s (e_name e) = Some j \<longrightarrow> j = i"
    by (rule put_record_ok [OF ok r(1) that _ s'_def]) (use Some in auto)
  then show ?thesis
    unfolding u a refines_def list_update_entry_def p using c m k(3)
    by (cases "rename_allowed (rec_name r) (e_name e) (materialize s)") (auto split: option.splits)
qed

lemma tx_replace_refines:
  assumes ok: "slots_ok s"
  shows "refines slots_ok materialize (tx_replace e s) (list_replace e (materialize s))"
proof (cases "sl_by_name s (e_name e)")
  case None
  then have n: "\<forall>r \<in> set (materialize s). rec_name r \<noteq> e_name e" unfolding by_name_None [OF ok] .
  then have "position (\<lambda>x. rec_name x = e_name e) (materialize s) = None" by (simp add: position_None)
  with n have "list_replace e (materialize s) = list_add e (materialize s)"
    by (auto simp: list_replace_def list_add_def)
  with None tx_add_refines [OF ok] show ?thesis by (simp add: tx_replace_def)
next
  case (Some i)
  then obtain r where r: "sl_records s i = Some r" "rec_name r = e_name e" using slots_okD(4) [OF ok] by blast
  obtain k where k: "k < length (live s)" "live s ! k = i" "materialize s ! k = r" by (rule live_nth [OF ok r(1)])
  have p: "position (\<lambda>x. rec_name x = e_name e) (materialize s) = Some k" using position_name(1) [OF ok r(1) k(1,2)] r(2) by simp
  have c: "(case sl_by_id s (e_id e) of None \<Rightarrow> True | Some j \<Rightarrow> j = i) \<longleftrightarrow>
      \<not> (\<exists>x \<in> set (materialize s). rec_id x = e_id e \<and> rec_name x \<noteq> e_name e)"
  proof (cases "sl_by_id s (e_id e)")
    case None
    then show ?thesis using by_id_None [OF ok, of "e_id e"] by simp
  next
    case (Some j)
    then obtain x where x: "sl_records s j = Some x" "rec_id x = e_id e" using slots_okD(5) [OF ok] by blast
    have u: "y = x" if "y \<in> set (materialize s)" "rec_id y = e_id e" for y
    proof -
      from that set_materialize [OF ok] obtain l where "sl_records s l = Some y" by blast
      with that Some by_idI [OF ok, of l y] have "l = j" by simp
      with x \<open>sl_records s l = Some y\<close> show ?thesis by simp
    qed
    moreover have "x \<in> set (materialize s)" using x set_materialize [OF ok] by blast
    moreover have "rec_name x = e_name e \<longleftrightarrow> j = i"
      using x(1) r \<open>sl_by_name s (e_name e) = Some i\<close> by_nameI [OF ok x(1)] by auto
    ultimately have "(\<exists>y \<in> set (materialize s). rec_id y = e_id e \<and> rec_name y \<noteq> e_name e) \<longleftrightarrow> j \<noteq> i"
      using u x(2) by blast
    with Some show ?thesis by simp
  qed
  define s' where "s' = s\<lparr>sl_records := (sl_records s)(i \<mapsto> entry_to_dict e),
      sl_by_name := ((sl_by_name s)(rec_name r := None))(e_name e \<mapsto> i),
      sl_by_id := ((sl_by_id s)(rec_id r := None))(e_id e \<mapsto> i)\<rparr>"
  have nms: "((sl_by_name s)(rec_name r := None))(e_name e \<mapsto> i) = sl_by_name s" using Some r(2) by (simp add: map_upd_id)
  have ids: "((sl_by_id s)(rec_id r := None))(e_id e \<mapsto> i) = sl_by_id s" if "rec_id r = e_id e"
    using slots_okD(5) [OF ok, of "e_id e" i] r(1) that by (auto simp: map_upd_id)
  have u: "tx_replace e s = (if (case sl_by_id s (e_id e) of None \<Rightarrow> True | Some j \<Rightarrow> j = i) then Inr s' else Inl Name_conflict)"
    using Some r nms ids by (auto simp: tx_replace_def s'_def Let_def ensure_def split: option.split)
  have m: "materialize s' = (materialize s)[k := entry_to_dict e]"
    by (rule materialize_put [OF ok k(1,2)]) (simp_all add: s'_def)
  have "slots_ok s'" if "\<forall>j. sl_by_id s (e_id e) = Some j \<longrightarrow> j = i"
    by (rule put_record_ok [OF ok r(1) _ that s'_def]) (use Some in auto)
  then show ?thesis
    unfolding u refines_def list_replace_def p using c m by (auto split: option.splits)
qed

lemma tx_delete_refines:
  assumes ok: "slots_ok s"
  shows "(case tx_delete n s of Inl x \<Rightarrow> list_delete n (materialize s) = Inl x
     | Inr (s', r) \<Rightarrow> slots_ok s' \<and> list_delete n (materialize s) = Inr (materialize s', r))"
proof (cases "sl_by_name s n")
  case None
  then have "position (\<lambda>x. rec_name x = n) (materialize s) = None"
    unfolding by_name_None [OF ok] by (simp add: position_None)
  with None show ?thesis by (simp add: tx_delete_def list_delete_def)
next
  case (Some i)
  then obtain r where r: "sl_records s i = Some r" "rec_name r = n" using slots_okD(4) [OF ok] by blast
  obtain k where k: "k < length (live s)" "live s ! k = i" "materialize s ! k = r" by (rule live_nth [OF ok r(1)])
  have p: "position (\<lambda>x. rec_name x = n) (materialize s) = Some k" using position_name(1) [OF ok r(1) k(1,2)] r(2) by simp
  define s' where "s' = s\<lparr>sl_records := (sl_records s)(i := None), sl_by_name := (sl_by_name s)(rec_name r := None),
                 sl_by_id := (sl_by_id s)(rec_id r := None)\<rparr>"
  have u: "tx_delete n s = Inr (s', r)" using Some r by (simp add: tx_delete_def s'_def Let_def)
  have m: "materialize s' = take k (materialize s) @ drop (Suc k) (materialize s)"
    by (rule materialize_drop [OF ok k(1,2)]) (simp_all add: s'_def)
  have "slots_ok s'"
    using ok indexes_drop [OF slots_okD(6) [OF ok] r(1)] indexes_drop [OF slots_okD(7) [OF ok] r(1)]
    by (auto simp: slots_ok_def s'_def)
  with u m p k(3) show ?thesis by (simp add: list_delete_def)
qed

text \<open>Opening a transaction on records with distinct names and identifiers.\<close>

definition unique_records :: "json list \<Rightarrow> bool" where
  "unique_records rs \<longleftrightarrow> distinct (map rec_name rs) \<and> distinct (map rec_id rs)"

lemma no_slots_ok: "slots_ok no_slots" "materialize no_slots = []"
  by (simp_all add: slots_ok_def no_slots_def materialize_def indexes_def)

lemma fold_append_ok:
  assumes "slots_ok s" and "unique_records (materialize s @ rs)"
  shows "slots_ok (fold append_record rs s) \<and> materialize (fold append_record rs s) = materialize s @ rs"
  using assms
proof (induction rs arbitrary: s)
  case (Cons r rs)
  have "\<forall>x \<in> set (materialize s). rec_name x \<noteq> rec_name r" "\<forall>x \<in> set (materialize s). rec_id x \<noteq> rec_id r"
    using Cons.prems(2) by (simp_all add: unique_records_def image_iff eq_commute)
  then have "sl_by_name s (rec_name r) = None" "sl_by_id s (rec_id r) = None"
    unfolding by_name_None [OF Cons.prems(1)] by_id_None [OF Cons.prems(1)] by simp_all
  from append_record_ok [OF Cons.prems(1) this] Cons.IH [of "append_record r s"] Cons.prems(2) show ?case by simp
qed simp

lemma reset_entries_ok:
  assumes "unique_records rs"
  shows "slots_ok (reset_entries rs)" and "materialize (reset_entries rs) = rs"
  using fold_append_ok [OF no_slots_ok(1), of rs] assms by (simp_all add: reset_entries_def no_slots_ok(2))

text \<open>Looking up a name or an identifier in the index finds what a scan of the file finds.\<close>

lemma entry_from_dict_names: "entry_from_dict r = Inr e \<Longrightarrow> e_name e = rec_name r \<and> e_id e = rec_id r"
  by (auto simp: entry_from_dict_def rbind_ok)

lemma find_entry:
  assumes "rmap entry_from_dict rs = Inr es" and "\<And>r e. r \<in> set rs \<Longrightarrow> entry_from_dict r = Inr e \<Longrightarrow> key e = rkey r"
  shows "case find (\<lambda>r. rkey r = x) rs of None \<Rightarrow> find (\<lambda>e. key e = x) es = None
     | Some r \<Rightarrow> \<exists>e. entry_from_dict r = Inr e \<and> find (\<lambda>e. key e = x) es = Some e"
  using assms
proof (induction rs arbitrary: es)
  case (Cons r rs)
  then obtain e es' where e: "entry_from_dict r = Inr e" "rmap entry_from_dict rs = Inr es'" "es = e # es'"
    by (auto simp: rbind_ok)
  have "key e = rkey r" using Cons.prems(2) e(1) by simp
  moreover note Cons.IH [OF e(2) Cons.prems(2) [OF list.set_intros(2)]]
  ultimately show ?case using e(1,3) by (cases "rkey r = x") (simp_all split: option.splits)
qed simp

lemma find_only:
  assumes "r \<in> set rs" and "key r = x" and "\<And>r'. r' \<in> set rs \<Longrightarrow> key r' = x \<Longrightarrow> r' = r"
  shows "find (\<lambda>r. key r = x) rs = Some r"
proof -
  obtain r' where r': "find (\<lambda>r. key r = x) rs = Some r'" using assms(1,2) by (cases "find (\<lambda>r. key r = x) rs") (auto simp: find_None_iff)
  have "r' \<in> set rs" "key r' = x" using r' by (auto simp: find_Some_iff)
  with assms(3) r' show ?thesis by simp
qed

lemma tx_get_scan:
  assumes "slots_ok s" and l: "tx_list s = Inr es"
  shows "tx_get_by_name n s = Inr (find (\<lambda>e. e_name e = n) es)"
    and "tx_get_by_id i s = Inr (find (\<lambda>e. e_id e = i) es)"
proof -
  from l have es: "rmap entry_from_dict (materialize s) = Inr es" by (simp add: tx_list_def map_err_ok)
  show "tx_get_by_name n s = Inr (find (\<lambda>e. e_name e = n) es)"
  proof (cases "sl_by_name s n")
    case None
    then have "find (\<lambda>r. rec_name r = n) (materialize s) = None"
      unfolding by_name_None [OF assms(1)] find_None_iff by simp
    with None find_entry [OF es, of e_name rec_name n] show ?thesis
      by (simp add: tx_get_by_name_def tx_get_def entry_from_dict_names)
  next
    case (Some k)
    then obtain r where r: "sl_records s k = Some r" "rec_name r = n" using slots_okD(4) [OF assms(1)] by blast
    have "find (\<lambda>r. rec_name r = n) (materialize s) = Some r"
    proof (rule find_only)
      show "r \<in> set (materialize s)" using r set_materialize [OF assms(1)] by blast
      fix r' assume r': "r' \<in> set (materialize s)" "rec_name r' = n"
      then obtain j where j: "sl_records s j = Some r'" using set_materialize [OF assms(1)] by blast
      with by_nameI [OF assms(1) j] r' Some have "j = k" by simp
      with j r show "r' = r" by simp
    qed (rule r(2))
    with Some r find_entry [OF es, of e_name rec_name n] show ?thesis
      by (auto simp: tx_get_by_name_def tx_get_def entry_from_dict_names)
  qed
  show "tx_get_by_id i s = Inr (find (\<lambda>e. e_id e = i) es)"
  proof (cases "sl_by_id s i")
    case None
    then have "find (\<lambda>r. rec_id r = i) (materialize s) = None"
      unfolding by_id_None [OF assms(1)] find_None_iff by simp
    with None find_entry [OF es, of e_id rec_id i] show ?thesis
      by (simp add: tx_get_by_id_def tx_get_def entry_from_dict_names)
  next
    case (Some k)
    then obtain r where r: "sl_records s k = Some r" "rec_id r = i" using slots_okD(5) [OF assms(1)] by blast
    have "find (\<lambda>r. rec_id r = i) (materialize s) = Some r"
    proof (rule find_only)
      show "r \<in> set (materialize s)" using r set_materialize [OF assms(1)] by blast
      fix r' assume r': "r' \<in> set (materialize s)" "rec_id r' = i"
      then obtain j where j: "sl_records s j = Some r'" using set_materialize [OF assms(1)] by blast
      with by_idI [OF assms(1) j] r' Some have "j = k" by simp
      with j r show "r' = r" by simp
    qed (rule r(2))
    with Some r find_entry [OF es, of e_id rec_id i] show ?thesis
      by (auto simp: tx_get_by_id_def tx_get_def entry_from_dict_names)
  qed
qed

section \<open>The interface of a transaction\<close>

datatype store_op = Add entry | Replace entry | Update entry | Remove string

primrec list_step :: "store_op \<Rightarrow> json list \<Rightarrow> serr + json list" where
  "list_step (Add e) rs = list_add e rs"
| "list_step (Replace e) rs = list_replace e rs"
| "list_step (Update e) rs = list_update_entry e rs"
| "list_step (Remove n) rs = rbind (list_delete n rs) (\<lambda>x. Inr (fst x))"

primrec tx_step :: "store_op \<Rightarrow> slots \<Rightarrow> serr + slots" where
  "tx_step (Add e) s = tx_add e s"
| "tx_step (Replace e) s = tx_replace e s"
| "tx_step (Update e) s = tx_update e s"
| "tx_step (Remove n) s = rbind (tx_delete n s) (\<lambda>x. Inr (fst x))"

text \<open>
  What callers of a transaction rely on: it opens on the records of the file, and every
  operation does to the records what the reference operation does to the list.
\<close>

locale record_transaction =
  fixes start :: "json list \<Rightarrow> 's" and view :: "'s \<Rightarrow> json list" and ok :: "'s \<Rightarrow> bool"
    and step :: "store_op \<Rightarrow> 's \<Rightarrow> serr + 's"
  assumes start: "unique_records rs \<Longrightarrow> ok (start rs) \<and> view (start rs) = rs"
    and step: "ok s \<Longrightarrow> refines ok view (step q s) (list_step q (view s))"
begin

lemma steps: "ok s \<Longrightarrow> refines ok view (rfold step qs s) (rfold list_step qs (view s))"
proof (induction qs arbitrary: s)
  case (Cons q qs)
  from step [OF Cons.prems, of q] Cons.IH show ?case by (cases "step q s") (auto simp: refines_def)
qed (simp add: refines_def)

lemma from_start: "unique_records rs \<Longrightarrow> refines ok view (rfold step qs (start rs)) (rfold list_step qs rs)"
  using steps [of "start rs" qs] start [of rs] by simp

end

interpretation slot_index: record_transaction reset_entries materialize slots_ok tx_step
proof
  show "slots_ok (reset_entries rs) \<and> materialize (reset_entries rs) = rs" if "unique_records rs" for rs
    using reset_entries_ok [OF that] by simp
  show "refines slots_ok materialize (tx_step q s) (list_step q (materialize s))" if "slots_ok s" for q s
  proof (cases q)
    case (Remove n)
    with tx_delete_refines [OF that, of n] show ?thesis by (auto simp: refines_def split: sum.splits)
  qed (simp_all add: tx_add_refines tx_replace_refines tx_update_refines that)
qed

end
