(* ===== verification/Stored_Form.thy ===== *)
theory Stored_Form
  imports Catalog_Proofs
begin

text \<open>
  The stored form of entries, tombstones and catalogs as relations between a JSON value and what it
  stands for. Each reader accepts exactly the values that are the stored form of something well
  formed. The order of the members of an object is free, as it is for the code.
\<close>

section \<open>Objects\<close>

text \<open>\<open>v\<close> is an object with exactly the members \<open>m\<close>.\<close>

definition has_form :: "json \<Rightarrow> (string \<times> json) list \<Rightarrow> bool" where
  "has_form v m \<longleftrightarrow> exact_keys (map fst m) v \<and> (\<forall>(k, x) \<in> set m. fld v k = x)"

lemma rmap_stored:
  assumes "\<And>v y. f v = Inr y \<longleftrightarrow> S v y \<and> P y"
  shows "rmap f vs = Inr ys \<longleftrightarrow> list_all2 S vs ys \<and> (\<forall>y \<in> set ys. P y)"
  unfolding rmap_ok assms
  by (induction vs arbitrary: ys) (auto simp: list_all2_Cons1)

section \<open>Entries and tombstones\<close>

definition stored_ref :: "json \<Rightarrow> json \<Rightarrow> bool" where
  "stored_ref v w \<longleftrightarrow> has_form v (members w)"

lemma validate_ref_iff: "validate_ref v = Inr w \<longleftrightarrow> stored_ref v w \<and> wf_ref w"
proof
  assume a: "validate_ref v = Inr w"
  then have "exact_keys [''role'', ''name''] v" "w = JObj [(''role'', fld v ''role''), (''name'', fld v ''name'')]"
    by (auto simp: validate_ref_def rbind_ok ensure_ok)
  then show "stored_ref v w \<and> wf_ref w" using validate_ref_ok [OF a] by (auto simp: stored_ref_def has_form_def)
next
  assume "stored_ref v w \<and> wf_ref w"
  then show "validate_ref v = Inr w"
    by (auto simp: validate_ref_def stored_ref_def has_form_def wf_ref_def rbind_ok ensure_ok validate_name_ok)
qed

lemma validate_refs_iff:
  "validate_refs v = Inr ws \<longleftrightarrow> (\<exists>l. v = JList l \<and> list_all2 stored_ref l ws) \<and> len ws \<le> 64 \<and> (\<forall>w \<in> set ws. wf_ref w)"
proof (cases v)
  case (JList l)
  have "len ws = len l" if "list_all2 stored_ref l ws" using list_all2_lengthD [OF that] by (simp add: len_length)
  with JList show ?thesis
    by (auto simp: validate_refs_def rbind_ok ensure_ok rmap_stored [OF validate_ref_iff])
qed (simp_all add: validate_refs_def)

text \<open>A stored entry has all the members that every entry has, no unknown one, and defaults for those it lacks.\<close>

definition stored_entry :: "json \<Rightarrow> entry \<Rightarrow> bool" where
  "stored_entry r e \<longleftrightarrow> is_obj r
     \<and> (\<forall>kv \<in> set (members r). fst kv \<in> set (LEGACY_ENTRY_KEYS @ PROJECT_ENTRY_KEYS))
     \<and> (\<forall>k \<in> set REQUIRED_ENTRY_KEYS. has_key r k)
     \<and> fld r ''id'' = JStr (e_id e) \<and> fld r ''name'' = JStr (e_name e) \<and> fld r ''type'' = JStr (type_value (e_type e))
     \<and> get_or (JObj []) r ''fields'' = e_fields e \<and> get_or (JList []) r ''tags'' = JList (e_tags e)
     \<and> get_or (JStr []) r ''note'' = e_note e
     \<and> (\<exists>l. get_or (JList []) r ''refs'' = JList l \<and> list_all2 stored_ref l (e_refs e))
     \<and> fld r ''created_at'' = e_created e \<and> fld r ''updated_at'' = e_updated e
     \<and> fld r ''folder_id'' = e_folder e \<and> get_or (JStr ''local_only'') r ''distribution'' = e_distribution e
     \<and> fld r ''provenance'' = e_provenance e \<and> fld r ''content_revision'' = e_revision e"

lemma from_untrusted_iff: "from_untrusted_dict False True r = Inr e \<longleftrightarrow> stored_entry r e \<and> wf_entry e"
proof
  assume a: "from_untrusted_dict False True r = Inr e"
  note d = from_untrusted_dict_D [OF a]
  have "\<forall>k \<in> set (map fst (members r)). k \<in> set (LEGACY_ENTRY_KEYS @ PROJECT_ENTRY_KEYS)"
    "\<forall>k \<in> set REQUIRED_ENTRY_KEYS. has_key r k"
    using a by (auto simp only: from_untrusted_dict_def rbind_ok ensure_ok if_True if_False append_Nil)
  moreover have "e_folder e = fld r ''folder_id''" "e_distribution e = get_or (JStr ''local_only'') r ''distribution''"
    "e_provenance e = fld r ''provenance''" "e_revision e = fld r ''content_revision''"
    using a by (auto simp: from_untrusted_dict_def rbind_ok ensure_ok validate_provenance_ok)
  ultimately show "stored_entry r e \<and> wf_entry e"
    using d(1-8,10,11) d(9) [unfolded validate_refs_iff] by (simp only: stored_entry_def set_map ball_simps)
next
  assume "stored_entry r e \<and> wf_entry e"
  then have st: "stored_entry r e" and wf: "wf_entry e" by simp_all
  note s = st [unfolded stored_entry_def]
  have k: "\<forall>k \<in> set (map fst (members r)). k \<in> set (LEGACY_ENTRY_KEYS @ [] @ PROJECT_ENTRY_KEYS)"
    "\<forall>k \<in> set REQUIRED_ENTRY_KEYS. has_key r k" "is_obj r"
    using s by (simp_all only: append_Nil set_map ball_simps) blast+
  have f: "fld r ''id'' = JStr (e_id e)" "fld r ''name'' = JStr (e_name e)" "fld r ''type'' = JStr (type_value (e_type e))"
    "get_or (JObj []) r ''fields'' = e_fields e" "get_or (JList []) r ''tags'' = JList (e_tags e)"
    "get_or (JStr []) r ''note'' = e_note e" "fld r ''created_at'' = e_created e" "fld r ''updated_at'' = e_updated e"
    "fld r ''folder_id'' = e_folder e" "get_or (JStr ''local_only'') r ''distribution'' = e_distribution e"
    "fld r ''provenance'' = e_provenance e" "fld r ''content_revision'' = e_revision e"
    using s by simp_all
  obtain l where l: "get_or (JList []) r ''refs'' = JList l" "list_all2 stored_ref l (e_refs e)" using s by blast
  have n: "validate_entry_id (JStr (e_id e)) = Inr ()" "validate_name (JStr (e_name e)) = Inr ()"
    using wf by (auto simp: validate_entry_id_ok validate_name_ok wf_entry_def)
  have t: "(case entry_type_of (JStr (type_value (e_type e))) of None \<Rightarrow> Inl Invalid | Some t \<Rightarrow> Inr t) = Inr (e_type e)"
    by (simp add: type_case_ok)
  have v: "validate_fields (e_type e) (e_fields e) = Inr (e_fields e)" "validate_tags (JList (e_tags e)) = Inr (e_tags e)"
    "validate_refs (JList l) = Inr (e_refs e)"
    using wf l by (simp_all add: wf_entry_def validate_tags_ok validate_refs_iff validate_fields_iff)
  from wf obtain nt c w where o': "e_note e = JStr nt" "validate_text 16384 True (JStr nt) = Inr nt"
    "e_created e = JStr c" "validate_timestamp (JStr c) = Inr c" "e_updated e = JStr w" "validate_timestamp (JStr w) = Inr w"
    by (auto simp: wf_entry_def validate_text_ok validate_timestamp_ok)
  have p: "optional_uuid (e_folder e) = Inr ()" "optional_uuid (e_revision e) = Inr ()"
    "member_of [''local_only'', ''project_allowed''] (e_distribution e) = Inr True"
    "validate_provenance (e_provenance e) = Inr (e_provenance e)"
    using wf by (auto simp: wf_entry_def optional_uuid_ok member_of_ok validate_provenance_ok)
  show "from_untrusted_dict False True r = Inr e"
    unfolding from_untrusted_dict_def if_True if_False
    using k by (simp only: f l(1) ensure_True rbind_Inr n t v o' p simp_thms text_of.simps)
      (cases e; use o'(1,3,5) in simp)
qed

definition stored_tombstone :: "json \<Rightarrow> tombstone \<Rightarrow> bool" where
  "stored_tombstone v t \<longleftrightarrow>
     has_form v [(''id'', JStr (ts_id t)), (''name'', JStr (ts_name t)), (''deleted_at'', JStr (ts_deleted t))]"

definition wf_tombstone :: "tombstone \<Rightarrow> bool" where
  "wf_tombstone t \<longleftrightarrow> (\<exists>u. ts_id t = ''kk:'' @ u \<and> is_uuid4 u)
     \<and> 2 \<le> pylen (ts_name t) \<and> pylen (ts_name t) \<le> 64 \<and> name_pattern (ts_name t) \<and> is_timestamp (ts_deleted t)"

lemma validate_tombstone_iff: "validate_tombstone v = Inr t \<longleftrightarrow> stored_tombstone v t \<and> wf_tombstone t"
  by (cases t) (auto simp: validate_tombstone_def stored_tombstone_def wf_tombstone_def has_form_def rbind_ok ensure_ok
      validate_entry_id_ok validate_name_ok validate_timestamp_ok)

section \<open>The catalog\<close>

definition stored_folder :: "json \<Rightarrow> folder \<Rightarrow> bool" where
  "stored_folder v f \<longleftrightarrow> has_form v [(''id'', JStr (fo_id f)), (''name'', JStr (fo_name f)),
     (''parent_id'', optional_text (fo_parent f)), (''position'', JInt (fo_position f))]"

lemma folder_from_dict_iff: "folder_from_dict v = Inr f \<longleftrightarrow> stored_folder v f \<and> folder_ok f"
  by (cases f) (auto simp: folder_from_dict_def stored_folder_def folder_ok_def has_form_def rbind_ok ensure_ok optional_id_ok
      int_from_ok validate_uuid4_ok catalog_text_ok)

definition stored_project :: "json \<Rightarrow> project \<Rightarrow> bool" where
  "stored_project v p \<longleftrightarrow> has_form v [(''id'', JStr (pr_id p)), (''slug'', JStr (pr_slug p)),
     (''name'', JStr (pr_name p)), (''state'', JStr (pr_state p))]"

lemma member_of_text: "member_of xs (JStr s) = Inr (s \<in> set xs)"
  by (simp add: member_of_def)

lemma project_from_dict_iff: "project_from_dict v = Inr p \<longleftrightarrow> stored_project v p \<and> project_ok p"
  by (cases p) (auto simp: project_from_dict_def stored_project_def project_ok_def has_form_def rbind_ok ensure_ok member_of_ok
      member_of_text validate_uuid4_ok catalog_slug_ok catalog_text_ok)

definition stored_scope :: "json \<Rightarrow> scope \<Rightarrow> bool" where
  "stored_scope v s \<longleftrightarrow> has_form v [(''id'', JStr (sco_id s)), (''project_id'', JStr (sco_project s)),
     (''environment'', JStr (sco_environment s)), (''vault_id'', JStr (sco_vault s)), (''epoch'', JInt (sco_epoch s)),
     (''policy_version'', JInt (sco_version s))]"

lemma scope_from_dict_iff: "scope_from_dict v = Inr s \<longleftrightarrow> stored_scope v s \<and> scope_ok s"
  by (cases s) (auto simp: scope_from_dict_def stored_scope_def scope_ok_def has_form_def rbind_ok ensure_ok int_from_ok
      validate_uuid4_ok catalog_slug_ok)

definition stored_export :: "json \<Rightarrow> export \<Rightarrow> bool" where
  "stored_export v x \<longleftrightarrow> has_form v [(''fields'', JList (map JStr (ex_fields x))), (''note'', JBool (ex_note x)),
     (''refs'', JBool (ex_refs x)), (''tags'', JBool (ex_tags x))]"

lemma export_config_iff: "export_config v = Inr x \<longleftrightarrow> stored_export v x \<and> export_ok x"
  by (cases x) (auto simp: export_config_def stored_export_def export_ok_def has_form_def rbind_ok ensure_ok bool_of_ok
      field_names_ok len_length split: json.splits if_splits)

definition stored_binding :: "json \<Rightarrow> scope_entry \<Rightarrow> bool" where
  "stored_binding v b \<longleftrightarrow> exact_keys [''scope_id'', ''entry_id'', ''local_name'', ''export'', ''approval_revision''] v
     \<and> fld v ''scope_id'' = JStr (bi_scope b) \<and> fld v ''entry_id'' = JStr (bi_entry b)
     \<and> fld v ''local_name'' = JStr (bi_local b) \<and> stored_export (fld v ''export'') (bi_export b)
     \<and> fld v ''approval_revision'' = JStr (bi_approval b)"

lemma scope_entry_from_dict_iff: "scope_entry_from_dict v = Inr b \<longleftrightarrow> stored_binding v b \<and> binding_ok b"
  by (cases b) (auto simp: scope_entry_from_dict_def stored_binding_def binding_ok_def rbind_ok ensure_ok sha256_text_ok
      validate_uuid4_ok catalog_text_ok export_config_iff)

definition stored_catalog :: "json \<Rightarrow> catalog \<Rightarrow> bool" where
  "stored_catalog v c \<longleftrightarrow>
     exact_keys [''folders'', ''projects'', ''scopes'', ''bindings'', ''dedup'', ''publication_intents''] v
     \<and> (\<exists>l. fld v ''folders'' = JList l \<and> list_all2 stored_folder l (ca_folders c))
     \<and> (\<exists>l. fld v ''projects'' = JList l \<and> list_all2 stored_project l (ca_projects c))
     \<and> (\<exists>l. fld v ''scopes'' = JList l \<and> list_all2 stored_scope l (ca_scopes c))
     \<and> (\<exists>l. fld v ''bindings'' = JList l \<and> list_all2 stored_binding l (ca_bindings c))
     \<and> fld v ''dedup'' = JList (ca_dedup c) \<and> fld v ''publication_intents'' = JList (ca_intents c)"

lemma bounded_list_ok: "bounded_list v (k, n) = Inr u \<longleftrightarrow> (\<exists>l. fld v k = JList l \<and> len l \<le> n)"
  by (auto simp: bounded_list_def ensure_ok split: json.splits)

lemma list_all2_len: "list_all2 R xs ys \<Longrightarrow> len xs = len ys"
  by (simp add: len_length list_all2_lengthD)

lemma catalog_from_dict_iff: "catalog_from_dict ids v = Inr c \<longleftrightarrow> stored_catalog v c \<and> wf_catalog ids c"
proof
  assume a: "catalog_from_dict ids v = Inr c"
  have "stored_catalog v c"
    using a unfolding catalog_from_dict_def stored_catalog_def
    by (auto simp: rbind_ok ensure_ok bounded_list_ok is_list_def json_objects_ok split: json.splits
        dest!: rmap_stored [OF folder_from_dict_iff, THEN iffD1] rmap_stored [OF project_from_dict_iff, THEN iffD1]
          rmap_stored [OF scope_from_dict_iff, THEN iffD1] rmap_stored [OF scope_entry_from_dict_iff, THEN iffD1])
  with catalog_read [OF a] show "stored_catalog v c \<and> wf_catalog ids c" by simp
next
  assume "stored_catalog v c \<and> wf_catalog ids c"
  then have st: "stored_catalog v c" and wf: "wf_catalog ids c" by simp_all
  from st obtain fs ps ss bs where x: "exact_keys [''folders'', ''projects'', ''scopes'', ''bindings'', ''dedup'', ''publication_intents''] v"
    and f: "fld v ''folders'' = JList fs" "fld v ''projects'' = JList ps" "fld v ''scopes'' = JList ss" "fld v ''bindings'' = JList bs"
      "fld v ''dedup'' = JList (ca_dedup c)" "fld v ''publication_intents'' = JList (ca_intents c)"
    and l: "list_all2 stored_folder fs (ca_folders c)" "list_all2 stored_project ps (ca_projects c)"
      "list_all2 stored_scope ss (ca_scopes c)" "list_all2 stored_binding bs (ca_bindings c)"
    unfolding stored_catalog_def by blast
  note w = wf [unfolded wf_catalog_def]
  have r: "rmap folder_from_dict fs = Inr (ca_folders c)" "rmap project_from_dict ps = Inr (ca_projects c)"
    "rmap scope_from_dict ss = Inr (ca_scopes c)" "rmap scope_entry_from_dict bs = Inr (ca_bindings c)"
    using l w by (simp_all add: rmap_stored [OF folder_from_dict_iff] rmap_stored [OF project_from_dict_iff]
        rmap_stored [OF scope_from_dict_iff] rmap_stored [OF scope_entry_from_dict_iff])
  have k: "check_references ids (ca_folders c) (ca_projects c) (ca_scopes c) (ca_bindings c) = Inr ()"
    using w unfolding check_references_ok by (elim conjE, intro conjI) assumption+
  have d: "rmap json_object (ca_dedup c) = Inr (ca_dedup c)" "rmap json_object (ca_intents c) = Inr (ca_intents c)"
    using w by (auto simp: json_objects_ok)
  have b: "each (bounded_list v) [(''folders'', 10000), (''projects'', 10000), (''scopes'', 20000), (''bindings'', 100000)] = Inr ()"
    using w l [THEN list_all2_len] by (simp add: bounded_list_def f)
  show "catalog_from_dict ids v = Inr c"
    unfolding catalog_from_dict_def using x
    by (simp only: ensure_True rbind_Inr b f items.simps r k d is_list_def json.case simp_thms) simp
qed

end
