(* ===== verification/Store_Valid.thy ===== *)
theory Store_Valid
  imports Store_Proofs Stored_Form Transactions
begin

text \<open>
  What the store guarantees to its readers: every write leaves valid metadata, whatever the
  operation; a deletion leaves a tombstone; a rename never breaks a reference; the migration
  makes nothing shareable.
\<close>

section \<open>Identities\<close>

definition identified :: "json \<Rightarrow> bool" where
  "identified r \<longleftrightarrow> is_obj r \<and> (\<exists>u. fld r ''id'' = JStr (''kk:'' @ u) \<and> is_uuid4 u)
     \<and> (\<exists>n. fld r ''name'' = JStr n \<and> 2 \<le> pylen n \<and> pylen n \<le> 64 \<and> name_pattern n)"

lemma identities_ok: "identities rs is ns = Inr u \<longleftrightarrow> (\<forall>r \<in> set rs. identified r) \<and> unique_records rs
    \<and> (\<forall>r \<in> set rs. rec_id r \<notin> set is \<and> rec_name r \<notin> set ns)"
proof (induction rs arbitrary: "is" ns)
  case (Cons r rs)
  have step: "identities (r # rs) is ns = Inr u \<longleftrightarrow> identified r \<and> rec_id r \<notin> set is \<and> rec_name r \<notin> set ns
      \<and> identities rs (rec_id r # is) (rec_name r # ns) = Inr u"
    by (auto simp: rbind_ok ensure_ok identified_def validate_entry_id_ok validate_name_ok)
  show ?case
    unfolding step Cons.IH unique_records_def list.set list.map distinct.simps ball_simps by (auto simp: image_iff)
qed (simp add: unique_records_def)

lemma validate_record_identities_ok:
  "validate_record_identities rs = Inr u \<longleftrightarrow> (\<forall>r \<in> set rs. identified r) \<and> unique_records rs"
  by (simp add: validate_record_identities_def map_err_ok identities_ok)

text \<open>
  A valid store: records with an identifier and a name, no two of them the same; and from schema 3 on exactly
  schema 3, no unknown member, every record the stored form of a well-formed entry, every tombstone that of a
  well-formed tombstone, no two of them for one identifier, a catalog that is well formed over the
  identifiers of the entries, and every entry in no folder or in one of the catalog.
\<close>

definition valid_v3 :: "metadata \<Rightarrow> bool" where
  "valid_v3 d \<longleftrightarrow> md_version d = 3 \<and> md_extra d = []
     \<and> (\<exists>v c es ts. md_catalog d = Some v \<and> stored_catalog v c \<and> wf_catalog (e_id ` set es) c
          \<and> list_all2 stored_entry (md_entries d) es \<and> (\<forall>e \<in> set es. wf_entry e)
          \<and> list_all2 stored_tombstone (md_tombstones d) ts \<and> (\<forall>t \<in> set ts. wf_tombstone t) \<and> distinct (map ts_id ts)
          \<and> (\<forall>e \<in> set es. e_folder e = JNull \<or> (\<exists>f \<in> set (ca_folders c). e_folder e = JStr (fo_id f))))"

definition valid_store :: "metadata \<Rightarrow> bool" where
  "valid_store d \<longleftrightarrow> (\<forall>r \<in> set (md_entries d). identified r) \<and> unique_records (md_entries d) \<and> (3 \<le> md_version d \<longrightarrow> valid_v3 d)"

text \<open>The checks of the code accept exactly the valid stores.\<close>

lemma stored_ids:
  assumes "list_all2 stored_entry rs es"
  shows "map rec_id rs = map e_id es" and "map rec_name rs = map e_name es"
  using assms by (induction rs es rule: list_all2_induct) (simp_all add: stored_entry_def rec_id_def rec_name_def)

lemma validate_v3_data_ok:
  "validate_v3_data d = Inr () \<longleftrightarrow> (\<forall>r \<in> set (md_entries d). identified r) \<and> unique_records (md_entries d) \<and> valid_v3 d"
proof
  assume a: "validate_v3_data d = Inr ()"
  then obtain es ts c v where 1: "md_extra d = []" "md_catalog d = Some v" "md_version d = 3"
    and 2: "(\<forall>r \<in> set (md_entries d). identified r) \<and> unique_records (md_entries d)"
    and 3: "list_all2 stored_entry (md_entries d) es" "\<forall>e \<in> set es. wf_entry e"
    and 4: "list_all2 stored_tombstone (md_tombstones d) ts" "\<forall>t \<in> set ts. wf_tombstone t" "distinct (map ts_id ts)"
    and 5: "stored_catalog v c" "wf_catalog (e_id ` set es) c"
    and 6: "\<forall>e \<in> set es. e_folder e = JNull \<or> (\<exists>f \<in> set (ca_folders c). e_folder e = JStr (fo_id f))"
    by (auto simp: validate_v3_data_def rbind_ok ensure_ok map_err_ok each_ok validate_record_identities_ok catalog_from_dict_iff
        rmap_stored [OF from_untrusted_iff] rmap_stored [OF validate_tombstone_iff])
  from 1 3 4 5 6 have "valid_v3 d" unfolding valid_v3_def by blast
  with 2 show "(\<forall>r \<in> set (md_entries d). identified r) \<and> unique_records (md_entries d) \<and> valid_v3 d" by blast
next
  assume a: "(\<forall>r \<in> set (md_entries d). identified r) \<and> unique_records (md_entries d) \<and> valid_v3 d"
  then obtain v c es ts where 1: "md_extra d = []" "md_catalog d = Some v" "md_version d = 3"
    and 3: "list_all2 stored_entry (md_entries d) es" "\<forall>e \<in> set es. wf_entry e"
    and 4: "list_all2 stored_tombstone (md_tombstones d) ts" "\<forall>t \<in> set ts. wf_tombstone t" "distinct (map ts_id ts)"
    and 5: "stored_catalog v c" "wf_catalog (e_id ` set es) c"
    and 6: "\<forall>e \<in> set es. e_folder e = JNull \<or> (\<exists>f \<in> set (ca_folders c). e_folder e = JStr (fo_id f))"
    unfolding valid_v3_def by blast
  have i: "validate_record_identities (md_entries d) = Inr ()" using a by (simp add: validate_record_identities_ok)
  have r: "rmap (from_untrusted_dict False True) (md_entries d) = Inr es" "rmap validate_tombstone (md_tombstones d) = Inr ts"
    using 3 4 by (simp_all add: rmap_stored [OF from_untrusted_iff] rmap_stored [OF validate_tombstone_iff])
  have c: "catalog_from_dict (e_id ` set es) v = Inr c" using 5 by (simp add: catalog_from_dict_iff)
  have u: "distinct (map e_id es)" using a stored_ids(1) [OF 3(1)] by (simp add: unique_records_def)
  show "validate_v3_data d = Inr ()"
    unfolding validate_v3_data_def i r c using 1 4(3) 6 u by (simp add: c each_ok ensure_ok)
qed

lemma valid_store_checked:
  "valid_store d \<longleftrightarrow> validate_record_identities (md_entries d) = Inr () \<and> (3 \<le> md_version d \<longrightarrow> validate_v3_data d = Inr ())"
  by (auto simp: valid_store_def validate_record_identities_ok validate_v3_data_ok)

lemma valid_store_unique: "valid_store d \<Longrightarrow> unique_records (md_entries d)"
  by (simp add: valid_store_def)

lemma finish_write_valid:
  assumes "finish_write fresh d = Inr d'"
  shows "valid_store d'" and "md_tombstones d' = md_tombstones d" and "md_version d' = md_version d"
  using assms by (auto simp: finish_write_def valid_store_checked rbind_ok Let_def validate_v3_data_def split: if_splits)

text \<open>The defaults of schema 3 never touch an identity.\<close>

lemma fld_setdefault: "k' \<noteq> k \<Longrightarrow> fld (setdefault k x r) k' = fld r k'"
  by (auto simp: setdefault_def fld_def map_add_def split: option.split)

lemma normalize_record_fld:
  "k \<notin> {''folder_id'', ''distribution'', ''provenance'', ''content_revision''} \<Longrightarrow> fld (normalize_record u r) k = fld r k"
  by (simp add: normalize_record_def fld_setdefault)

lemma normalize_ids: "map rec_id (normalize_v3_entries fresh rs) = map rec_id rs"
  "map rec_name (normalize_v3_entries fresh rs) = map rec_name rs"
proof -
  have "rec_id (normalize_record u r) = rec_id r" "rec_name (normalize_record u r) = rec_name r" for u r
    by (simp_all add: rec_id_def rec_name_def normalize_record_fld)
  then show "map rec_id (normalize_v3_entries fresh rs) = map rec_id rs"
    "map rec_name (normalize_v3_entries fresh rs) = map rec_name rs"
    by (auto intro!: nth_equalityI simp: normalize_v3_entries_def nth_enumerate_eq)
qed

lemma finish_write_ids:
  "finish_write fresh d = Inr d' \<Longrightarrow> map rec_id (md_entries d') = map rec_id (md_entries d)
     \<and> map rec_name (md_entries d') = map rec_name (md_entries d)"
  by (auto simp: finish_write_def rbind_ok Let_def normalize_ids split: if_splits)

text \<open>What is read from the file is valid.\<close>

lemma metadata_of_valid: "metadata_of v = Inr d \<Longrightarrow> valid_store d"
  by (auto simp: metadata_of_def rbind_ok ensure_ok Let_def valid_store_checked get_or_def validate_record_identities_ok
      split: if_splits)

lemma read_metadata_valid: "read_metadata raw = Inr d \<Longrightarrow> valid_store d"
  by (auto simp: read_metadata_def rbind_ok dest: metadata_of_valid split: option.splits sum.splits)
    (simp add: valid_store_def unique_records_def)

section \<open>Operations\<close>

text \<open>A transaction that updates an entry is the operation on the list.\<close>

lemma store_update_list:
  assumes "valid_store d"
  shows "store_update fresh e d =
    rbind (list_update_entry e (md_entries d)) (\<lambda>rs. finish_write fresh (d\<lparr>md_entries := rs\<rparr>))"
  using slot_index.from_start [OF valid_store_unique [OF assms], of "[Update e]"]
  by (cases "tx_update e (reset_entries (md_entries d))"; cases "list_update_entry e (md_entries d)")
    (auto simp: store_update_def commit_slots_def refines_def)

datatype store_request =
    SAdd entry | SReplace entry | SUpdate entry | SDelete string string | SMerge "entry list" "json list"
  | SPrune string | SMigrate string "string option"

primrec store_step :: "crypto \<Rightarrow> (nat \<Rightarrow> string) \<Rightarrow> store_request \<Rightarrow> metadata \<Rightarrow> serr + metadata \<times> json" where
  "store_step C fresh (SAdd e) d = rbind (store_add fresh e d) (\<lambda>d'. Inr (d', JNull))"
| "store_step C fresh (SReplace e) d = rbind (store_replace fresh e d) (\<lambda>d'. Inr (d', JNull))"
| "store_step C fresh (SUpdate e) d = rbind (store_update fresh e d) (\<lambda>d'. Inr (d', JNull))"
| "store_step C fresh (SDelete now n) d = rbind (store_delete fresh now n d) (\<lambda>(d', e). Inr (d', entry_to_dict e))"
| "store_step C fresh (SMerge es ts) d = rbind (apply_merge fresh es ts d) (\<lambda>d'. Inr (d', JNull))"
| "store_step C fresh (SPrune horizon) d = rbind (prune_tombstones_before fresh horizon d) (\<lambda>(d', n). Inr (d', JInt n))"
| "store_step C fresh (SMigrate unsorted expected) d = migrate_catalog_v3 C fresh unsorted expected d"

lemma store_step_valid:
  assumes "store_step C fresh q d = Inr (d', r)"
  shows "valid_store d'"
  using assms
  by (cases q) (auto simp: rbind_ok store_add_def store_replace_def store_update_def commit_slots_def store_delete_def apply_merge_def
      prune_tombstones_before_def migrate_catalog_v3_def Let_def split: if_splits intro: finish_write_valid)

text \<open>The schema never goes back.\<close>

lemma store_step_version:
  assumes "store_step C fresh q d = Inr (d', r)"
  shows "md_version d \<le> md_version d'"
  using assms
  by (cases q) (auto simp: rbind_ok ensure_ok store_add_def store_replace_def store_update_def commit_slots_def store_delete_def
      apply_merge_def prune_tombstones_before_def migrate_catalog_v3_def Let_def split: if_splits dest!: finish_write_valid(3))

interpretation store: transactional "store_step C fresh" valid_store "\<lambda>d d'. md_version d \<le> md_version d'" for C fresh
  by unfold_locales (auto dest: store_step_valid store_step_version)

text \<open>A successful deletion: the record is gone, the others stay, and a tombstone names it.\<close>

lemma store_delete_D:
  assumes "store_delete fresh now n d = Inr (d', e)" and v: "valid_store d"
  shows "e_name e = n" and "n \<notin> set (map rec_name (md_entries d'))" and "e_id e \<notin> set (map rec_id (md_entries d'))"
    and "md_tombstones d' = md_tombstones d @ [tombstone_for now e]"
    and "set (map rec_name (md_entries d')) = set (map rec_name (md_entries d)) - {n}"
proof -
  from assms(1) obtain rs r where l: "list_delete n (md_entries d) = Inr (rs, r)" and e: "entry_from_dict r = Inr e"
    and f: "finish_write fresh (d\<lparr>md_entries := rs, md_tombstones := md_tombstones d @ [tombstone_for now e]\<rparr>) = Inr d'"
    by (auto simp: store_delete_def rbind_ok map_err_ok)
  from l obtain k where p: "position (\<lambda>r. rec_name r = n) (md_entries d) = Some k"
    and rs: "rs = take k (md_entries d) @ drop (Suc k) (md_entries d)" "r = md_entries d ! k"
    by (auto simp: list_delete_def split: option.splits)
  from position_Some [OF p] have k: "k < length (md_entries d)" "rec_name r = n" using rs by simp_all
  have en: "e_name e = rec_name r" "e_id e = rec_id r" using e by (auto simp: entry_from_dict_def rbind_ok)
  with k show "e_name e = n" by simp
  have split: "md_entries d = take k (md_entries d) @ r # drop (Suc k) (md_entries d)"
    using id_take_nth_drop [OF k(1)] rs(2) by simp
  have names: "map rec_name (md_entries d') = map rec_name rs" "map rec_id (md_entries d') = map rec_id rs"
    using finish_write_ids [OF f] by simp_all
  have u: "distinct (map rec_name (md_entries d))" "distinct (map rec_id (md_entries d))"
    using valid_store_unique [OF v] by (simp_all add: unique_records_def)
  from u(1) have "n \<notin> set (map rec_name rs)" unfolding rs(1) using k(2) by (subst (asm) split) auto
  then show "n \<notin> set (map rec_name (md_entries d'))" by (simp add: names)
  from u(2) have "rec_id r \<notin> set (map rec_id rs)" unfolding rs(1) by (subst (asm) split) auto
  then show "e_id e \<notin> set (map rec_id (md_entries d'))" by (simp add: names en)
  show "md_tombstones d' = md_tombstones d @ [tombstone_for now e]" using finish_write_valid(2) [OF f] by simp
  have "set (map rec_name (md_entries d)) = insert n (set (map rec_name rs))"
    unfolding rs(1) by (subst split) (use k(2) in auto)
  with \<open>n \<notin> set (map rec_name rs)\<close> show "set (map rec_name (md_entries d')) = set (map rec_name (md_entries d)) - {n}"
    by (simp add: names)
qed

definition refers_to :: "string \<Rightarrow> json \<Rightarrow> bool" where
  "refers_to n r = (\<exists>x \<in> set (items (fld r ''refs'')). fld x ''name'' = JStr n)"

lemma refs_hit_False: "refs_hit n xs = Inr False \<longleftrightarrow> (\<forall>x \<in> set xs. is_obj x \<and> fld x ''name'' \<noteq> JStr n)"
  by (induction xs) auto

lemma referenced_False: "referenced n rs = Inr False \<Longrightarrow> \<forall>r \<in> set rs. \<not> refers_to n r"
proof (induction rs)
  case (Cons r rs)
  then obtain xs where xs: "as_list (get_or (JList []) r ''refs'') = Inr xs" "refs_hit n xs = Inr False" "referenced n rs = Inr False"
    by (auto simp: rbind_ok split: if_splits)
  have n: "fld r ''refs'' = JNull" if "\<not> has_key r ''refs''"
    using that by (force simp: has_key_def fld_def dest: map_of_SomeD split: option.split)
  have "items (fld r ''refs'') = [] \<or> items (fld r ''refs'') = xs"
    using xs(1) by (cases "fld r ''refs''") (auto simp: get_or_def as_list_def dest: n split: if_splits)
  with xs(2) have "\<not> refers_to n r" by (auto simp: refers_to_def refs_hit_False)
  with Cons.IH [OF xs(3)] show ?case by simp
qed simp

text \<open>An update that changes the name succeeds only when nothing refers to the old one.\<close>

lemma store_update_rename:
  assumes "store_update fresh e d = Inr d'" and v: "valid_store d" and r: "r \<in> set (md_entries d)" "rec_id r = e_id e"
    and n: "rec_name r \<noteq> e_name e"
  shows "\<forall>x \<in> set (md_entries d). \<not> refers_to (rec_name r) x"
proof -
  from assms(1) obtain rs where u: "list_update_entry e (md_entries d) = Inr rs"
    unfolding store_update_list [OF v] by (auto simp: rbind_ok)
  then obtain i where i: "position (\<lambda>r. rec_id r = e_id e) (md_entries d) = Some i"
    by (auto simp: list_update_entry_def split: option.splits)
  from position_Some [OF i] have "md_entries d ! i \<in> set (md_entries d)" "rec_id (md_entries d ! i) = e_id e" by simp_all
  moreover have "distinct (map rec_id (md_entries d))" using valid_store_unique [OF v] by (simp add: unique_records_def)
  ultimately have "md_entries d ! i = r" using distinct_map_unique [of rec_id "md_entries d"] r by simp
  with u i n have "referenced (rec_name r) (md_entries d) = Inr False"
    by (auto simp: list_update_entry_def rename_allowed_def rbind_ok map_err_ok ensure_ok split: if_splits)
  then show ?thesis by (rule referenced_False)
qed

section \<open>Migration\<close>

lemma fld_set_member: "fld (set_member k x r) k' = (if k' = k then x else fld r k')"
proof -
  have "fld (set_member k x r) k' = (if k' = k then x else fld (JObj (members r)) k')"
    unfolding set_member_def by (rule fld_put)
  then show ?thesis by (simp add: fld_def)
qed

lemma migrate_record_fld:
  "fld (migrate_record unsorted u r) k = (if k = ''content_revision'' then JStr u
     else if k = ''provenance'' then JObj [(''source'', JStr ''legacy_migration'')]
     else if k = ''distribution'' then JStr ''local_only'' else if k = ''folder_id'' then JStr unsorted else fld r k)"
  by (simp add: migrate_record_def fld_set_member)

text \<open>Migrated entries are local, in the new folder, and the new catalog binds none of them.\<close>

lemma migrate_D:
  assumes "migrate_catalog_v3 C fresh unsorted expected d = Inr (d', c)" and "md_version d = 2"
  shows "md_version d' = 3" and "md_catalog d' = Some (catalog_to_dict (migrated_catalog unsorted))"
    and "map rec_id (md_entries d') = map rec_id (md_entries d)" and "map rec_name (md_entries d') = map rec_name (md_entries d)"
    and "\<forall>r \<in> set (md_entries d'). fld r ''distribution'' = JStr ''local_only'' \<and> fld r ''folder_id'' = JStr unsorted"
    and "md_tombstones d' = md_tombstones d"
    and "\<forall>x. expected = Some x \<longrightarrow> metadata_revision C d = x"
proof -
  let ?rs = "map (\<lambda>(i, r). migrate_record unsorted (fresh i) r) (enumerate 0 (md_entries d))"
  let ?d = "d\<lparr>md_entries := ?rs, md_catalog := Some (catalog_to_dict (migrated_catalog unsorted)), md_version := 3\<rparr>"
  from assms have e: "\<forall>x. expected = Some x \<longrightarrow> metadata_revision C d = x" and f: "finish_write fresh ?d = Inr d'"
    by (auto simp: migrate_catalog_v3_def rbind_ok ensure_ok Let_def split: option.splits)
  show "\<forall>x. expected = Some x \<longrightarrow> metadata_revision C d = x" by (rule e)
  show "md_version d' = 3" "md_tombstones d' = md_tombstones d" using finish_write_valid(2,3) [OF f] by simp_all
  from f have d': "d' = ?d\<lparr>md_entries := normalize_v3_entries fresh ?rs\<rparr>"
    by (auto simp: finish_write_def rbind_ok Let_def)
  then show "md_catalog d' = Some (catalog_to_dict (migrated_catalog unsorted))" by simp
  have ids: "rec_id (migrate_record unsorted u r) = rec_id r" "rec_name (migrate_record unsorted u r) = rec_name r" for u r
    by (simp_all add: rec_id_def rec_name_def migrate_record_fld)
  have "map rec_id ?rs = map rec_id (md_entries d)" "map rec_name ?rs = map rec_name (md_entries d)"
    by (auto intro!: nth_equalityI simp: nth_enumerate_eq ids)
  with finish_write_ids [OF f] show "map rec_id (md_entries d') = map rec_id (md_entries d)"
    "map rec_name (md_entries d') = map rec_name (md_entries d)" by simp_all
  show "\<forall>r \<in> set (md_entries d'). fld r ''distribution'' = JStr ''local_only'' \<and> fld r ''folder_id'' = JStr unsorted"
  proof
    fix r assume "r \<in> set (md_entries d')"
    then obtain i y where r: "r = normalize_record (fresh i) (migrate_record unsorted (fresh i) y)"
      by (auto simp: d' normalize_v3_entries_def in_set_conv_nth nth_enumerate_eq)
    define x where y: "x = migrate_record unsorted (fresh i) y"
    have keep: "has_key v k \<Longrightarrow> setdefault k w v = v" for k w v by (simp add: setdefault_def)
    have k: "has_key x ''folder_id''" "has_key x ''distribution''" "has_key x ''provenance''" "has_key x ''content_revision''"
      by (simp_all add: y migrate_record_def set_member_def has_key_def keys_put [unfolded set_map])
    have "r = x" unfolding r y [symmetric] normalize_record_def using k by (simp add: keep)
    then show "fld r ''distribution'' = JStr ''local_only'' \<and> fld r ''folder_id'' = JStr unsorted"
      by (simp add: y migrate_record_fld)
  qed
qed

section \<open>What a valid schema 3 store holds\<close>

lemma valid_v3_D:
  assumes "valid_store d" and "3 \<le> md_version d"
  obtains es c where "rmap (from_untrusted_dict False True) (md_entries d) = Inr es" and "\<forall>e \<in> set es. wf_entry e"
    and "catalog_from_dict (e_id ` set es) (the (md_catalog d)) = Inr c" and "wf_catalog (e_id ` set es) c"
    and "\<forall>e \<in> set es. e_folder e = JNull \<or> (\<exists>f \<in> set (ca_folders c). e_folder e = JStr (fo_id f))"
    and "distinct (map e_id es)" and "distinct (map e_name es)"
proof -
  from assms have u: "unique_records (md_entries d)" and v: "validate_v3_data d = Inr ()"
    by (auto simp: valid_store_checked validate_record_identities_ok)
  from v obtain es c where es: "rmap (from_untrusted_dict False True) (md_entries d) = Inr es"
    and c: "catalog_from_dict (e_id ` set es) (the (md_catalog d)) = Inr c"
    and f: "\<forall>e \<in> set es. e_folder e = JNull \<or> (\<exists>f \<in> set (ca_folders c). e_folder e = JStr (fo_id f))"
    and di: "distinct (map e_id es)"
    by (auto simp: validate_v3_data_def rbind_ok map_err_ok ensure_ok each_ok)
  have wf: "\<forall>e \<in> set es. wf_entry e" using rmap_set [OF es] from_untrusted_dict_D(1) by blast
  have "list_all2 (\<lambda>r e. rec_name r = e_name e) (md_entries d) es"
    using es unfolding rmap_ok by (rule list_all2_mono) (simp add: rec_name_def from_untrusted_dict_D(3))
  then have "map rec_name (md_entries d) = map e_name es" by (simp add: list_all2_conv_all_nth list_eq_iff_nth_eq)
  then have "distinct (map e_name es)" using u by (simp add: unique_records_def)
  with es wf c catalog_read [OF c] f di show ?thesis by (intro that)
qed

end
