(* ===== verification/Trust_Statements.thy ===== *)
theory Trust_Statements
  imports Commit_Proofs
begin

text \<open>
  What a device of a vault trusts (\<open>sync_vps.py\<close>): its configuration, and the statements by which
  the root device admits and revokes devices. The exceptions are told apart as far as callers tell
  them apart: \<open>VpsTrustError\<close>, \<open>VpsProtocolError\<close>, \<open>VpsBadRequestError\<close>, \<open>VpsConflictError\<close>, other \<open>VpsSyncError\<close>s, the
  errors of the commit protocol, and the exceptions of Python itself.
\<close>

section \<open>Errors and decoders\<close>

datatype terr = Untrusted | Bad_reply | Bad_query | Moved | Not_now | Raised kerr | Type_or_value

definition decode_trusted :: "int option \<Rightarrow> json \<Rightarrow> terr + string" where
  "decode_trusted want v = map_err (\<lambda>_. Untrusted) (sync_b64decode want v)"

definition wire_bytes :: "int \<Rightarrow> json \<Rightarrow> terr + string" where
  "wire_bytes maximum v =
     (case v of JStr s \<Rightarrow>
        rbind (ensure (pylen s \<le> (maximum + 2) div 3 * 4 + 4) Bad_reply) (\<lambda>_.
        (case b64decode s of None \<Rightarrow> Inl Bad_reply
         | Some r \<Rightarrow> rbind (ensure (len r \<le> maximum \<and> b64 r = s) Bad_reply) (\<lambda>_. Inr r)))
      | _ \<Rightarrow> Inl Bad_reply)"

text \<open>\<open>dict(value)\<close>: a mapping, or an iterable of pairs. A list of pairs makes a dictionary too, also
  with an object of two members as a pair of their names. A key that is no string is refused by the
  check of the fields that follows.\<close>

definition pair_of :: "json \<Rightarrow> terr + string \<times> json" where
  "pair_of x = (case x of
       JList [JStr k, w] \<Rightarrow> Inr (k, w) | JList [JList _, _] \<Rightarrow> Inl Type_or_value | JList [JObj _, _] \<Rightarrow> Inl Type_or_value
     | JList [_, _] \<Rightarrow> Inl Untrusted | JObj [(k, _), (k', _)] \<Rightarrow> Inr (k, JStr k')
     | JStr s \<Rightarrow> Inl (if pylen s = 2 then Untrusted else Type_or_value) | _ \<Rightarrow> Inl Type_or_value)"

definition as_dict_of :: "json \<Rightarrow> terr + json" where
  "as_dict_of v = (case v of
       JObj m \<Rightarrow> Inr (JObj m)
     | JList l \<Rightarrow> rbind (rmap pair_of l) (\<lambda>ps. Inr (JObj (fold (\<lambda>(k, x). put k x) ps [])))
     | JStr s \<Rightarrow> (if s = [] then Inr (JObj []) else Inl Type_or_value)
     | _ \<Rightarrow> Inl Type_or_value)"

section \<open>The configuration of a device\<close>

record vps_config =
  cf_endpoint :: string
  cf_vault :: string
  cf_device :: string
  cf_root :: string
  cf_root_key :: string
  cf_sign :: string
  cf_wrap :: string
  cf_status :: string
  cf_invite :: string
  cf_inviter :: string
  cf_inviter_key :: string
  cf_proxy :: string
  cf_commit :: string
  cf_hash :: string
  cf_sequence :: int

text \<open>\<open>VpsSyncConfig.validate\<close>. The transport's own check of the endpoint and the proxy is the parameter.\<close>

definition validate_config :: "(string \<Rightarrow> string \<Rightarrow> terr + unit) \<Rightarrow> vps_config \<Rightarrow> terr + unit" where
  "validate_config transport c =
     rbind (transport (cf_endpoint c) (cf_proxy c)) (\<lambda>_.
     rbind (ensure (sync_id_pattern (cf_vault c) \<and> sync_id_pattern (cf_device c) \<and> sync_id_pattern (cf_root c)) Untrusted) (\<lambda>_.
     rbind (ensure (cf_status c = ''active'' \<or> cf_status c = ''pending'') Untrusted) (\<lambda>_.
     rbind (ensure (\<not> (cf_status c = ''pending'' \<and> cf_invite c = [])) Untrusted) (\<lambda>_.
     rbind (decode_trusted (Some 32) (JStr (cf_root_key c))) (\<lambda>_.
     rbind (decode_trusted (Some 32) (JStr (cf_sign c))) (\<lambda>_.
     rbind (decode_trusted (Some 32) (JStr (cf_wrap c))) (\<lambda>_.
     rbind (if cf_inviter_key c = [] then Inr [] else decode_trusted (Some 32) (JStr (cf_inviter_key c))) (\<lambda>_.
     rbind (ensure (0 \<le> cf_sequence c) Untrusted) (\<lambda>_.
     rbind (ensure (if cf_sequence c = 0 then cf_commit c = [] \<and> cf_hash c = [] else is_sha256 (cf_commit c) \<and> is_sha256 (cf_hash c)) Untrusted) (\<lambda>_.
     ensure (cf_proxy c = ''direct'' \<or> cf_proxy c = ''system'' \<or> starts_with ''http://'' (cf_proxy c) \<or> starts_with ''https://'' (cf_proxy c))
       Untrusted))))))))))"

text \<open>The start of \<open>VpsSyncEngine.__init__\<close>: an approved device with its own keys.\<close>

definition check_engine_keys :: "crypto \<Rightarrow> (string \<Rightarrow> string \<Rightarrow> terr + unit) \<Rightarrow> vps_config \<Rightarrow> string \<Rightarrow> string \<Rightarrow> terr + unit" where
  "check_engine_keys C transport c vault_key signing_key =
     rbind (validate_config transport c) (\<lambda>_.
     rbind (ensure (cf_status c = ''active'') Not_now) (\<lambda>_.
     rbind (ensure (len vault_key = 32 \<and> len signing_key = 32) Untrusted) (\<lambda>_.
     rbind (decode_trusted (Some 32) (JStr (cf_sign c))) (\<lambda>public_key.
     ensure (ed_public C signing_key = public_key) Untrusted))))"

section \<open>Statements\<close>

definition MEMBERSHIP_PROFILE :: string where "MEMBERSHIP_PROFILE = ''kk2-device-membership-ed25519-v1''"
definition REVOCATION_PROFILE :: string where "REVOCATION_PROFILE = ''kk2-device-revocation-ed25519-v1''"

definition MEMBERSHIP_FIELDS :: "string list" where
  "MEMBERSHIP_FIELDS = [''protocol'', ''format_profile'', ''vault_id'', ''device_id'', ''sign_public_key'', ''wrap_public_key'',
     ''approved_by_device_id'', ''checkpoint_commit_id'', ''checkpoint_manifest_hash'', ''checkpoint_sequence'', ''issued_at'']"

definition REVOCATION_FIELDS :: "string list" where
  "REVOCATION_FIELDS = [''protocol'', ''format_profile'', ''vault_id'', ''device_id'', ''revoked_by_device_id'',
     ''checkpoint_commit_id'', ''checkpoint_manifest_hash'', ''checkpoint_sequence'', ''issued_at'']"

definition id_json :: "json \<Rightarrow> bool" where
  "id_json v = (case v of JStr s \<Rightarrow> sync_id_pattern s | _ \<Rightarrow> False)"

definition hash_json :: "json \<Rightarrow> bool" where
  "hash_json v = (case v of JStr s \<Rightarrow> is_sha256 s | _ \<Rightarrow> False)"

text \<open>A checkpoint: the sequence, commit and manifest hash of the head when the statement was made.\<close>

definition validate_checkpoint :: "json \<Rightarrow> terr + unit" where
  "validate_checkpoint v =
     rbind (ensure (case fld v ''checkpoint_sequence'' of JInt i \<Rightarrow> 0 \<le> i | _ \<Rightarrow> False) Untrusted) (\<lambda>_.
     if fld v ''checkpoint_sequence'' = JInt 0
     then ensure (fld v ''checkpoint_commit_id'' = JNull \<and> fld v ''checkpoint_manifest_hash'' = JNull) Untrusted
     else ensure (hash_json (fld v ''checkpoint_commit_id'') \<and> hash_json (fld v ''checkpoint_manifest_hash'')) Untrusted)"

definition issued :: "json \<Rightarrow> bool" where
  "issued v = (case v of JStr s \<Rightarrow> s \<noteq> [] \<and> last s = CHR ''Z'' | _ \<Rightarrow> False)"

definition validate_membership :: "json \<Rightarrow> terr + unit" where
  "validate_membership v =
     rbind (ensure (exact_keys MEMBERSHIP_FIELDS v) Untrusted) (\<lambda>_.
     rbind (ensure (profile_is MEMBERSHIP_PROFILE v) Untrusted) (\<lambda>_.
     rbind (ensure (id_json (fld v ''vault_id'') \<and> id_json (fld v ''device_id'') \<and> id_json (fld v ''approved_by_device_id'')) Untrusted) (\<lambda>_.
     rbind (decode_trusted (Some 32) (fld v ''sign_public_key'')) (\<lambda>_.
     rbind (decode_trusted (Some 32) (fld v ''wrap_public_key'')) (\<lambda>_.
     rbind (validate_checkpoint v) (\<lambda>_.
     ensure (issued (fld v ''issued_at'')) Untrusted))))))"

definition validate_revocation :: "json \<Rightarrow> terr + unit" where
  "validate_revocation v =
     rbind (ensure (exact_keys REVOCATION_FIELDS v) Untrusted) (\<lambda>_.
     rbind (ensure (profile_is REVOCATION_PROFILE v) Untrusted) (\<lambda>_.
     rbind (ensure (id_json (fld v ''vault_id'') \<and> id_json (fld v ''device_id'') \<and> id_json (fld v ''revoked_by_device_id'')) Untrusted) (\<lambda>_.
     rbind (validate_checkpoint v) (\<lambda>_.
     ensure (issued (fld v ''issued_at'')) Untrusted))))"

definition make_membership_statement ::
  "string \<Rightarrow> string \<Rightarrow> string \<Rightarrow> string \<Rightarrow> string \<Rightarrow> string option \<Rightarrow> string option \<Rightarrow> int \<Rightarrow> string \<Rightarrow> terr + json" where
  "make_membership_statement vault device sign wrap approver commit hash sequence issued_at =
     (let s = JObj [(''protocol'', JStr ''KK2''), (''format_profile'', JStr MEMBERSHIP_PROFILE), (''vault_id'', JStr vault),
        (''device_id'', JStr device), (''sign_public_key'', JStr sign), (''wrap_public_key'', JStr wrap),
        (''approved_by_device_id'', JStr approver), (''checkpoint_commit_id'', opt_text commit),
        (''checkpoint_manifest_hash'', opt_text hash), (''checkpoint_sequence'', JInt sequence), (''issued_at'', JStr issued_at)]
      in rbind (validate_membership s) (\<lambda>_. Inr s))"

definition make_revocation_statement ::
  "string \<Rightarrow> string \<Rightarrow> string \<Rightarrow> string option \<Rightarrow> string option \<Rightarrow> int \<Rightarrow> string \<Rightarrow> terr + json" where
  "make_revocation_statement vault device revoker commit hash sequence issued_at =
     rbind (ensure (sync_id_pattern vault \<and> sync_id_pattern device \<and> sync_id_pattern revoker) Untrusted) (\<lambda>_.
     let s = JObj [(''protocol'', JStr ''KK2''), (''format_profile'', JStr REVOCATION_PROFILE), (''vault_id'', JStr vault),
        (''device_id'', JStr device), (''revoked_by_device_id'', JStr revoker), (''checkpoint_commit_id'', opt_text commit),
        (''checkpoint_manifest_hash'', opt_text hash), (''checkpoint_sequence'', JInt sequence), (''issued_at'', JStr issued_at)]
     in rbind (validate_revocation s) (\<lambda>_. Inr s))"

text \<open>Signing and verifying differ between the two kinds only in the check and the domain.\<close>

definition sign_statement :: "crypto \<Rightarrow> (json \<Rightarrow> terr + unit) \<Rightarrow> string \<Rightarrow> json \<Rightarrow> string \<Rightarrow> terr + string" where
  "sign_statement C check name v private_key =
     rbind (as_dict_of v) (\<lambda>s.
     rbind (check s) (\<lambda>_.
     rbind (ensure (len private_key = 32) Type_or_value) (\<lambda>_.
     rbind (map_err Raised (canonical_json s)) (\<lambda>b.
     Inr (b64 (ed_sign C private_key (domain name @ b)))))))"

definition verify_statement :: "crypto \<Rightarrow> (json \<Rightarrow> terr + unit) \<Rightarrow> string \<Rightarrow> json \<Rightarrow> json \<Rightarrow> string \<Rightarrow> terr + json" where
  "verify_statement C check name v signature public_key =
     rbind (as_dict_of v) (\<lambda>s.
     rbind (check s) (\<lambda>_.
     rbind (decode_trusted (Some 64) signature) (\<lambda>sg.
     rbind (ensure (len public_key = 32) Untrusted) (\<lambda>_.
     rbind (map_err Raised (canonical_json s)) (\<lambda>b.
     rbind (ensure (ed_verify C public_key sg (domain name @ b)) Untrusted) (\<lambda>_. Inr s))))))"

definition sign_membership :: "crypto \<Rightarrow> json \<Rightarrow> string \<Rightarrow> terr + string" where
  "sign_membership C = sign_statement C validate_membership ''device-membership''"

definition verify_membership :: "crypto \<Rightarrow> json \<Rightarrow> json \<Rightarrow> string \<Rightarrow> terr + json" where
  "verify_membership C = verify_statement C validate_membership ''device-membership''"

definition sign_revocation :: "crypto \<Rightarrow> json \<Rightarrow> string \<Rightarrow> terr + string" where
  "sign_revocation C = sign_statement C validate_revocation ''device-revocation''"

definition verify_device_revocation :: "crypto \<Rightarrow> json \<Rightarrow> json \<Rightarrow> string \<Rightarrow> terr + json" where
  "verify_device_revocation C = verify_statement C validate_revocation ''device-revocation''"

section \<open>What a verified statement is\<close>

lemma decode_trusted_ok [ok_simps]:
  "decode_trusted w v = Inr r \<longleftrightarrow> v = JStr (b64 r) \<and> r \<noteq> [] \<and> (w = None \<or> w = Some (len r))"
  by (simp add: decode_trusted_def map_err_ok sync_b64decode_ok)

lemma wire_bytes_ok: "wire_bytes n v = Inr r \<Longrightarrow> v = JStr (b64 r) \<and> len r \<le> n"
  by (auto simp: wire_bytes_def rbind_ok ensure_ok split: json.splits option.splits)

text \<open>A statement of the given kind that the key signed.\<close>

definition statement_signed :: "crypto \<Rightarrow> (json \<Rightarrow> terr + unit) \<Rightarrow> string \<Rightarrow> string \<Rightarrow> json \<Rightarrow> bool" where
  "statement_signed C check name key s \<longleftrightarrow>
     check s = Inr () \<and> (\<exists>sg. len sg = 64 \<and> ed_verify C key sg (domain name @ canonical_text s))"

lemma verify_statement_D:
  assumes "verify_statement C check name v signature key = Inr s"
  shows "statement_signed C check name key s" and "is_obj v \<Longrightarrow> s = v" and "value_ok s 0"
proof -
  from assms have s: "as_dict_of v = Inr s" and c: "check s = Inr ()" "value_ok s 0"
    by (auto simp: verify_statement_def rbind_ok ensure_ok map_err_ok canonical_json_ok)
  from assms show "statement_signed C check name key s"
    by (fastforce simp: verify_statement_def rbind_ok ensure_ok map_err_ok canonical_json_ok statement_signed_def decode_trusted_ok)
  show "is_obj v \<Longrightarrow> s = v" using s by (cases v) (auto simp: as_dict_of_def)
  show "value_ok s 0" by (rule c)
qed

lemma verify_signed_statement:
  assumes C: "crypto_ok C" and s: "sign_statement C check name (JObj m) k = Inr sig"
  shows "verify_statement C check name (JObj m) (JStr sig) (ed_public C k) = Inr (JObj m)"
proof -
  from s have k: "check (JObj m) = Inr ()" "len k = 32" "canonical_json (JObj m) = Inr (canonical_text (JObj m))"
    and sig: "sig = b64 (ed_sign C k (domain name @ canonical_text (JObj m)))"
    by (auto simp: sign_statement_def as_dict_of_def rbind_ok ensure_ok map_err_ok canonical_json_ok)
  define sg where "sg = ed_sign C k (domain name @ canonical_text (JObj m))"
  have "length sg = 64" "ed_verify C (ed_public C k) sg (domain name @ canonical_text (JObj m))" "length (ed_public C k) = 32"
    using C k(2) by (simp_all add: crypto_ok_def sg_def len_length)
  moreover from this have "decode_trusted (Some 64) (JStr (b64 sg)) = Inr sg" by (auto simp: decode_trusted_ok len_length)
  ultimately show ?thesis using k by (simp add: verify_statement_def as_dict_of_def sig sg_def [symmetric] len_length)
qed

end
