(* ===== verification/Request_Json.thy ===== *)
theory Request_Json
  imports Text_Checks
begin

text \<open>
  The contract of JSON request bodies (\<open>request_json.py\<close>), used for requests of the local API and for
  the sidecar files: one object of known members with exact types, of bounded nesting and size, and
  without repeated members. \<open>json.loads\<close> would also take UTF-16 and UTF-32 bytes; bodies are UTF-8
  here. \<open>InvalidRequest\<close> is the only exception.
\<close>

section \<open>Structure\<close>

abbreviation MAX_JSON_BODY_BYTES :: int where "MAX_JSON_BODY_BYTES \<equiv> 8388608"
abbreviation MAX_JSON_DEPTH :: int where "MAX_JSON_DEPTH \<equiv> 64"
abbreviation MAX_JSON_NODES :: int where "MAX_JSON_NODES \<equiv> 100000"

definition children :: "json \<Rightarrow> json list" where
  "children v = (case v of JObj m \<Rightarrow> map snd m | JList l \<Rightarrow> l | _ \<Rightarrow> [])"

text \<open>\<open>_check_structure\<close>: an explicit stack, with its top first.\<close>

function walk_structure :: "(json \<times> int) list \<Rightarrow> int \<Rightarrow> bool" where
  "walk_structure [] visited = True"
| "walk_structure ((v, depth) # pending) visited =
     (if depth > MAX_JSON_DEPTH \<or> visited + 1 > MAX_JSON_NODES then False
      else if len (children v) + len pending + (visited + 1) > MAX_JSON_NODES then False
      else walk_structure (rev (map (\<lambda>c. (c, depth + 1)) (children v)) @ pending) (visited + 1))"
  by pat_completeness auto
termination by (relation "measure (\<lambda>(_, n). nat (MAX_JSON_NODES - n))") auto

definition check_structure :: "json \<Rightarrow> bool" where
  "check_structure v = walk_structure [(v, 0)] 0"

section \<open>Requests\<close>

datatype json_type = TStr | TInt | TBool | TList | TDict | TNone

primrec type_matches :: "json \<Rightarrow> json_type \<Rightarrow> bool" where
  "type_matches JNull t = (t = TNone)" | "type_matches (JBool b) t = (t = TBool)" | "type_matches (JInt i) t = (t = TInt)"
| "type_matches (JFloat f) t = False" | "type_matches (JStr s) t = (t = TStr)" | "type_matches (JList l) t = (t = TList)"
| "type_matches (JObj m) t = (t = TDict)"

text \<open>The checks of the parsed value: its members, its structure and the exact types.\<close>

definition request_members :: "(string \<times> json_type list) list \<Rightarrow> string list \<Rightarrow> json \<Rightarrow> unit + json" where
  "request_members shape required v =
     rbind (ensure (is_obj v \<and> set (map fst (members v)) \<subseteq> set (map fst shape) \<and> set required \<subseteq> set (map fst (members v))) ()) (\<lambda>_.
     rbind (ensure (check_structure v) ()) (\<lambda>_.
     rbind (ensure (\<forall>(k, x) \<in> set (members v). \<exists>t \<in> set (the (map_of shape k)). type_matches x t) ()) (\<lambda>_. Inr v)))"

definition request_cfg :: jcfg where
  "request_cfg = \<lparr>allow_float = True, allow_constant = False\<rparr>"

definition request_object :: "string option \<Rightarrow> (string \<times> json_type list) list \<Rightarrow> string list \<Rightarrow> unit + json" where
  "request_object body shape required =
     rbind (ensure (case body of None \<Rightarrow> True | Some b \<Rightarrow> len b \<le> MAX_JSON_BODY_BYTES) ()) (\<lambda>_.
     let b = (case body of None \<Rightarrow> ''{}'' | Some b \<Rightarrow> if b = [] then ''{}'' else b) in
     rbind (ensure (valid_utf8 b) ()) (\<lambda>_.
     rbind (map_err (\<lambda>_. ()) (loads request_cfg b)) (\<lambda>v.
     request_members shape required v)))"

section \<open>The stack walk against the recursive definition\<close>

fun depth_of :: "json \<Rightarrow> nat" and depth_items :: "json list \<Rightarrow> nat" and depth_members :: "(string \<times> json) list \<Rightarrow> nat" where
  "depth_of JNull = 0" | "depth_of (JBool b) = 0" | "depth_of (JInt i) = 0" | "depth_of (JFloat f) = 0" | "depth_of (JStr s) = 0"
| "depth_of (JList l) = depth_items l" | "depth_of (JObj m) = depth_members m"
| "depth_items [] = 0" | "depth_items (x # xs) = max (Suc (depth_of x)) (depth_items xs)"
| "depth_members [] = 0" | "depth_members ((k, x) # m) = max (Suc (depth_of x)) (depth_members m)"

fun node_count :: "json \<Rightarrow> nat" and node_items :: "json list \<Rightarrow> nat" and node_members :: "(string \<times> json) list \<Rightarrow> nat" where
  "node_count JNull = 1" | "node_count (JBool b) = 1" | "node_count (JInt i) = 1" | "node_count (JFloat f) = 1" | "node_count (JStr s) = 1"
| "node_count (JList l) = Suc (node_items l)" | "node_count (JObj m) = Suc (node_members m)"
| "node_items [] = 0" | "node_items (x # xs) = node_count x + node_items xs"
| "node_members [] = 0" | "node_members ((k, x) # m) = node_count x + node_members m"

lemma node_items_children: "node_count v = Suc (node_items (children v))"
proof -
  have "node_members m = node_items (map snd m)" for m by (induction m) auto
  then show ?thesis by (cases v) (simp_all add: children_def)
qed

lemma depth_children: "depth_of v = (if children v = [] then 0 else Max (set (map (Suc \<circ> depth_of) (children v))))"
proof -
  have l: "depth_items xs = (if xs = [] then 0 else Max (set (map (Suc \<circ> depth_of) xs)))" for xs by (induction xs) auto
  have "depth_members m = depth_items (map snd m)" for m by (induction m) auto
  with l show ?thesis by (cases v) (simp_all add: children_def)
qed

lemma node_items_sum: "node_items xs = sum_list (map node_count xs)"
  by (induction xs) auto

lemma node_count_pos: "0 < node_count v"
  by (simp add: node_items_children)

lemma pending_le: "length xs \<le> sum_list (map (\<lambda>p. node_count (fst p)) xs)"
proof (induction xs)
  case (Cons x xs)
  with node_count_pos [of "fst x"] show ?case by simp
qed simp

lemma depth_bound: "int (depth_of v) + d \<le> n \<longleftrightarrow> d \<le> n \<and> (\<forall>c \<in> set (children v). int (depth_of c) + (d + 1) \<le> n)"
proof (cases "children v = []")
  case False
  let ?M = "Max (set (map (Suc \<circ> depth_of) (children v)))"
  have "int ?M + d \<le> n \<longleftrightarrow> ?M \<le> nat (n - d) \<and> d \<le> n" by linarith
  also have "?M \<le> nat (n - d) \<longleftrightarrow> (\<forall>c \<in> set (children v). Suc (depth_of c) \<le> nat (n - d))" using False by simp
  also have "\<dots> \<and> d \<le> n \<longleftrightarrow> d \<le> n \<and> (\<forall>c \<in> set (children v). int (depth_of c) + (d + 1) \<le> n)" by auto
  finally show ?thesis using False by (simp add: depth_children [of v])
qed (simp add: depth_children [of v])

text \<open>The walk accepts exactly the values of bounded depth and number of nodes: the running test of the
  pending nodes refuses no value early that the count would accept.\<close>

lemma walk_structure_iff:
  "walk_structure st n \<longleftrightarrow> (\<forall>(v, d) \<in> set st. int (depth_of v) + d \<le> MAX_JSON_DEPTH)
     \<and> (st = [] \<or> n + int (sum_list (map (\<lambda>p. node_count (fst p)) st)) \<le> MAX_JSON_NODES)"
proof (induction st n rule: walk_structure.induct)
  case (2 v d st n)
  let ?N = "\<lambda>xs. int (sum_list (map (\<lambda>p. node_count (fst p)) xs))"
  let ?cs = "rev (map (\<lambda>c. (c, d + 1)) (children v))"
  have total: "?N ((v, d) # st) = 1 + ?N (?cs @ st)"
    by (simp add: node_items_children [of v] node_items_sum comp_def rev_map [symmetric])
  have many: "int (length (?cs @ st)) \<le> ?N (?cs @ st)" using pending_le [of "?cs @ st"] by linarith
  show ?case
  proof (cases "d > MAX_JSON_DEPTH \<or> n + 1 > MAX_JSON_NODES \<or> len (children v) + len st + (n + 1) > MAX_JSON_NODES")
    case True
    then have "\<not> walk_structure ((v, d) # st) n" by auto
    moreover have "\<not> (int (depth_of v) + d \<le> MAX_JSON_DEPTH \<and> n + ?N ((v, d) # st) \<le> MAX_JSON_NODES)"
      using True total many by (auto simp: len_length)
    ultimately show ?thesis by auto
  next
    case False
    then have "walk_structure ((v, d) # st) n \<longleftrightarrow> walk_structure (?cs @ st) (n + 1)" by simp
    also have "\<dots> \<longleftrightarrow> (\<forall>(v, d) \<in> set (?cs @ st). int (depth_of v) + d \<le> MAX_JSON_DEPTH)
        \<and> (?cs @ st = [] \<or> n + 1 + ?N (?cs @ st) \<le> MAX_JSON_NODES)"
      using False by (intro "2.IH") auto
    also have "(\<forall>(v, d) \<in> set (?cs @ st). int (depth_of v) + d \<le> MAX_JSON_DEPTH)
        \<longleftrightarrow> (\<forall>(v, d) \<in> set ((v, d) # st). int (depth_of v) + d \<le> MAX_JSON_DEPTH)"
      using False by (simp add: ball_Un depth_bound [of v])
    also have "(?cs @ st = [] \<or> n + 1 + ?N (?cs @ st) \<le> MAX_JSON_NODES) \<longleftrightarrow> n + ?N ((v, d) # st) \<le> MAX_JSON_NODES"
      unfolding total using False by auto
    finally show ?thesis by simp
  qed
qed simp

theorem check_structure_iff:
  "check_structure v \<longleftrightarrow> depth_of v \<le> 64 \<and> node_count v \<le> 100000"
  by (auto simp: check_structure_def walk_structure_iff)

end
