(* ===== verification/Trust_State.thy ===== *)
theory Trust_State
  imports Trust_Statements Request_Json
begin

text \<open>
  The trust state of a device (\<open>vps-sync-state.json\<close>): the last verified commit (the anchor), the
  evidence of every revocation it has seen, and the revocation it is about to publish. Reading
  checks all of it again; writing only moves it forward.

  The file is written with \<open>json.dumps\<close>; reading that text gives the value that was written, so the
  write is modelled by the value it stores. The mapping of evidence by device is an object.
\<close>

section \<open>Reading\<close>

definition STATE_FIELDS :: "(string \<times> json_type list) list" where
  "STATE_FIELDS = [(''commit_id'', [TStr]), (''manifest_hash'', [TStr]), (''sequence'', [TInt]), (''manifest'', [TDict]),
     (''revocations'', [TDict]), (''last_sync_at'', [TStr]), (''pending_revoke'', [TDict])]"

definition ANCHOR_FIELDS :: "string list" where
  "ANCHOR_FIELDS = [''commit_id'', ''manifest_hash'', ''sequence'', ''manifest'']"

definition EVIDENCE_FIELDS :: "string list" where
  "EVIDENCE_FIELDS = [''statement'', ''signature'']"

text \<open>\<open>json.loads\<close> without hooks, then the comparison with the canonical text. A repeated member is
  refused by the reader here, and by the comparison there.\<close>

definition any_json :: jcfg where
  "any_json = \<lparr>allow_float = True, allow_constant = True\<rparr>"

definition canonical_statement :: "string \<Rightarrow> terr + json" where
  "canonical_statement t =
     rbind (map_err (\<lambda>_. Untrusted) (loads any_json t)) (\<lambda>v.
     rbind (map_err Raised (canonical_json v)) (\<lambda>b.
     rbind (ensure (b = t) Untrusted) (\<lambda>_. Inr v)))"

definition refuse_values :: "terr \<Rightarrow> terr" where
  "refuse_values e = (if e = Type_or_value then Untrusted else e)"

text \<open>\<open>_evidence\<close>: a revocation of the device, signed by the pinned root.\<close>

definition check_evidence :: "crypto \<Rightarrow> vps_config \<Rightarrow> json \<Rightarrow> json \<Rightarrow> terr + json" where
  "check_evidence C c device e =
     rbind (ensure (id_json device \<and> device \<noteq> JStr (cf_root c) \<and> exact_keys EVIDENCE_FIELDS e
        \<and> is_str (fld e ''statement'') \<and> is_str (fld e ''signature'')) Untrusted) (\<lambda>_.
     rbind (canonical_statement (text_of (fld e ''statement''))) (\<lambda>s.
     rbind (decode_trusted (Some 32) (JStr (cf_root_key c))) (\<lambda>key.
     rbind (map_err refuse_values (verify_device_revocation C s (fld e ''signature'') key)) (\<lambda>checked.
     rbind (ensure (fld checked ''vault_id'' = JStr (cf_vault c) \<and> fld checked ''device_id'' = device
        \<and> fld checked ''revoked_by_device_id'' = JStr (cf_root c)) Untrusted) (\<lambda>_. Inr checked)))))"

definition read_anchor :: "crypto \<Rightarrow> vps_config \<Rightarrow> json \<Rightarrow> terr + verified_commit option" where
  "read_anchor C c state =
     (if \<not> (\<exists>k \<in> set ANCHOR_FIELDS. has_key state k) then Inr None
      else
        (let m = fld state ''manifest'' in
         rbind (ensure (is_obj m) Untrusted) (\<lambda>_.
         rbind (ensure (set (map fst (members state)) \<subseteq> set (map fst STATE_FIELDS)) Untrusted) (\<lambda>_.
         rbind (ensure (hash_json (fld state ''commit_id'') \<and> hash_json (fld state ''manifest_hash'')) Untrusted) (\<lambda>_.
         rbind (ensure (case fld state ''sequence'' of JInt i \<Rightarrow> 1 \<le> i | _ \<Rightarrow> False) Untrusted) (\<lambda>_.
         rbind (ensure (py_eq (fld m ''sequence'') (fld state ''sequence'') \<and> fld m ''vault_id'' = JStr (cf_vault c)) Untrusted) (\<lambda>_.
         rbind (map_err (\<lambda>_. Untrusted) (compute_manifest_hash C m)) (\<lambda>h.
         rbind (ensure (JStr h = fld state ''manifest_hash'') Untrusted) (\<lambda>_.
         Inr (Some \<lparr>vc_id = text_of (fld state ''commit_id''), vc_manifest_hash = text_of (fld state ''manifest_hash''),
           vc_vault = text_of (fld m ''vault_id''), vc_sequence = int_of (fld state ''sequence''),
           vc_parent = fld m ''parent_commit_id'', vc_parent_hash = fld m ''parent_manifest_hash'',
           vc_ciphertext = text_of (fld m ''ciphertext_sha256''), vc_author = text_of (fld m ''author_device_id''),
           vc_timestamp = text_of (fld m ''timestamp''), vc_manifest = m\<rparr>))))))))))"

text \<open>The evidence in the file compared with the evidence at hand, as dictionaries of two texts.\<close>

definition evidence_of :: "json \<Rightarrow> json" where
  "evidence_of p = JObj [(''statement'', fld p ''statement''), (''signature'', fld p ''signature'')]"

definition same_evidence :: "json \<Rightarrow> json \<Rightarrow> bool" where
  "same_evidence a e = (exact_keys EVIDENCE_FIELDS a \<and> fld a ''statement'' = fld e ''statement'' \<and> fld a ''signature'' = fld e ''signature'')"

definition PENDING_FIELDS :: "string list" where
  "PENDING_FIELDS = [''device_id'', ''statement'', ''signature'']"

text \<open>The pending revocation is evidence too; the result is all evidence by device.\<close>

definition with_pending :: "crypto \<Rightarrow> vps_config \<Rightarrow> json \<Rightarrow> terr + (string \<times> json) list" where
  "with_pending C c state =
     (let records = members (fld state ''revocations''); p = fld state ''pending_revoke'' in
      if p = JNull then Inr records
      else
        rbind (ensure (exact_keys PENDING_FIELDS p) Untrusted) (\<lambda>_.
        rbind (check_evidence C c (fld p ''device_id'') (evidence_of p)) (\<lambda>_.
        rbind (ensure (case map_of records (text_of (fld p ''device_id'')) of None \<Rightarrow> True | Some r \<Rightarrow> same_evidence r (evidence_of p))
                Untrusted) (\<lambda>_.
        Inr (put (text_of (fld p ''device_id'')) (evidence_of p) records)))))"

definition anchor_sequence :: "verified_commit option \<Rightarrow> int" where
  "anchor_sequence a = (case a of None \<Rightarrow> 0 | Some v \<Rightarrow> vc_sequence v)"

definition check_state :: "crypto \<Rightarrow> vps_config \<Rightarrow> json \<Rightarrow> terr + json" where
  "check_state C c state =
     rbind (ensure ((\<exists>k \<in> set ANCHOR_FIELDS. has_key state k) \<longrightarrow> (\<forall>k \<in> set ANCHOR_FIELDS. has_key state k)) Untrusted) (\<lambda>_.
     rbind (read_anchor C c state) (\<lambda>anchor.
     rbind (with_pending C c state) (\<lambda>records.
     rbind (each (\<lambda>(d, e). rbind (check_evidence C c (JStr d) e) (\<lambda>checked.
              ensure (int_of (fld checked ''checkpoint_sequence'') \<le> anchor_sequence anchor) Untrusted)) records) (\<lambda>_.
     Inr state))))"

definition parse_state :: "crypto \<Rightarrow> vps_config \<Rightarrow> string \<Rightarrow> terr + json" where
  "parse_state C c text =
     rbind (map_err (\<lambda>_. Type_or_value) (request_object (Some text) STATE_FIELDS [])) (check_state C c)"

text \<open>\<open>_read_state\<close>: no file is the empty state; a \<open>ValueError\<close> is a loss of trust.\<close>

definition read_state :: "crypto \<Rightarrow> vps_config \<Rightarrow> string option \<Rightarrow> terr + json" where
  "read_state C c file = (case file of None \<Rightarrow> Inr (JObj [])
     | Some text \<Rightarrow> map_err refuse_values (parse_state C c text))"

section \<open>What the last verification showed\<close>

record session =
  se_checkpoints :: "(int \<times> string \<times> string) list"
  se_authors :: "(string \<times> int) list"
  se_revocations :: "(string \<times> json) list"

definition empty_session :: session where
  "empty_session = \<lparr>se_checkpoints = [], se_authors = [], se_revocations = []\<rparr>"

definition checkpoint_of :: "verified_commit \<Rightarrow> int \<times> string \<times> string" where
  "checkpoint_of v = (vc_sequence v, vc_id v, vc_manifest_hash v)"

definition stated_checkpoint :: "json \<Rightarrow> int \<times> string \<times> string" where
  "stated_checkpoint s = (int_of (fld s ''checkpoint_sequence''), text_of (fld s ''checkpoint_commit_id''), text_of (fld s ''checkpoint_manifest_hash''))"

text \<open>A checkpoint of sequence 0 is the empty chain.\<close>

definition checkpoint_in :: "json \<Rightarrow> (int \<times> string \<times> string) list \<Rightarrow> bool" where
  "checkpoint_in s cps = (fst (stated_checkpoint s) = 0 \<or> stated_checkpoint s \<in> set cps)"

section \<open>Writing\<close>

text \<open>The pending revocation after the write: kept, cleared or replaced.\<close>

datatype pending_change = Keep_pending | Set_pending "json option"

definition write_anchor :: "verified_commit option \<Rightarrow> verified_commit option \<Rightarrow> session \<Rightarrow> terr + unit" where
  "write_anchor anchor verified se = (case anchor of None \<Rightarrow> Inr ()
     | Some a \<Rightarrow>
         (case verified of None \<Rightarrow> Inl Untrusted
          | Some v \<Rightarrow>
              rbind (ensure (\<not> (vc_sequence a > vc_sequence v \<or> vc_sequence a = vc_sequence v \<and> vc_id a \<noteq> vc_id v)) Untrusted) (\<lambda>_.
              ensure (checkpoint_of a \<in> set (se_checkpoints se)) Untrusted)))"

definition add_evidence :: "(string \<times> json) \<Rightarrow> (string \<times> json) list \<Rightarrow> terr + (string \<times> json) list" where
  "add_evidence de records = (case de of (d, e) \<Rightarrow>
     rbind (ensure (case map_of records d of None \<Rightarrow> True | Some r \<Rightarrow> same_evidence r e) Untrusted) (\<lambda>_.
     Inr (put d e records)))"

definition write_evidence :: "crypto \<Rightarrow> vps_config \<Rightarrow> session \<Rightarrow> string \<times> json \<Rightarrow> terr + unit" where
  "write_evidence C c se de = (case de of (d, e) \<Rightarrow>
     rbind (check_evidence C c (JStr d) e) (\<lambda>checked.
     rbind (ensure (checkpoint_in checked (se_checkpoints se)) Untrusted) (\<lambda>_.
     ensure (\<forall>(a, n) \<in> set (se_authors se). a = d \<longrightarrow> n \<le> int_of (fld checked ''checkpoint_sequence'')) Untrusted)))"

text \<open>A pending revocation may only be cleared, and only when the relay showed exactly that evidence.\<close>

definition settle_pending :: "json \<Rightarrow> json \<Rightarrow> session \<Rightarrow> terr + unit" where
  "settle_pending old_pending pending se =
     (if old_pending = JNull \<or> py_eq pending old_pending then Inr ()
      else ensure (pending = JNull \<and> (case map_of (se_revocations se) (text_of (fld old_pending ''device_id'')) of
             None \<Rightarrow> False | Some e \<Rightarrow> same_evidence e (evidence_of old_pending))) Untrusted)"

definition anchor_members :: "verified_commit option \<Rightarrow> (string \<times> json) list" where
  "anchor_members verified = (case verified of None \<Rightarrow> []
     | Some v \<Rightarrow> [(''commit_id'', JStr (vc_id v)), (''manifest_hash'', JStr (vc_manifest_hash v)), (''sequence'', JInt (vc_sequence v)),
                 (''manifest'', vc_manifest v)])"

definition state_object :: "(string \<times> json) list \<Rightarrow> verified_commit option \<Rightarrow> json \<Rightarrow> json" where
  "state_object records verified pending = JObj ([(''revocations'', JObj records)] @ anchor_members verified
     @ (if pending = JNull then [] else [(''pending_revoke'', pending)]))"

text \<open>\<open>comparable\<close>: the old state without the time, with an entry for the revocations.\<close>

definition comparable_state :: "json \<Rightarrow> json" where
  "comparable_state old = (let m = members (without ''last_sync_at'' old) in
     JObj (if ''revocations'' \<in> set (map fst m) then m else m @ [(''revocations'', JObj [])]))"

text \<open>\<open>_write_state\<close>: \<open>None\<close> when nothing changed, otherwise the state to store.\<close>

definition write_state ::
  "crypto \<Rightarrow> vps_config \<Rightarrow> session \<Rightarrow> string \<Rightarrow> string option \<Rightarrow> verified_commit option \<Rightarrow> pending_change \<Rightarrow> terr + json option" where
  "write_state C c se now file verified change =
     rbind (case file of None \<Rightarrow> Inr (JObj []) | Some text \<Rightarrow> parse_state C c text) (\<lambda>old.
     rbind (read_anchor C c old) (\<lambda>anchor.
     rbind (write_anchor anchor verified se) (\<lambda>_.
     rbind (rfold add_evidence (se_revocations se) (members (fld old ''revocations''))) (\<lambda>records.
     rbind (each (write_evidence C c se) records) (\<lambda>_.
     let old_pending = fld old ''pending_revoke'';
         pending = (case change of Keep_pending \<Rightarrow> old_pending | Set_pending None \<Rightarrow> JNull | Set_pending (Some p) \<Rightarrow> p) in
     rbind (settle_pending old_pending pending se) (\<lambda>_.
     let state = state_object records verified pending in
     if py_eq (comparable_state old) state then Inr None
     else
       (let stored = JObj (members state @ [(''last_sync_at'', JStr now)]) in
        rbind (map_err (\<lambda>_. Type_or_value) (request_members STATE_FIELDS [] stored)) (\<lambda>_.
        rbind (check_state C c stored) (\<lambda>_. Inr (Some stored))))))))))"

section \<open>What is read and written\<close>

lemma check_evidence_D:
  assumes "check_evidence C c device e = Inr s"
  shows "\<exists>key. JStr (cf_root_key c) = JStr (b64 key) \<and> statement_signed C validate_revocation ''device-revocation'' key s"
    and "fld s ''device_id'' = device" and "fld s ''vault_id'' = JStr (cf_vault c)" and "exact_keys EVIDENCE_FIELDS e"
    and "device \<noteq> JStr (cf_root c)"
proof -
  from assms obtain st key where s: "decode_trusted (Some 32) (JStr (cf_root_key c)) = Inr key"
      "verify_device_revocation C st (fld e ''signature'') key = Inr s"
    and r: "fld s ''device_id'' = device" "fld s ''vault_id'' = JStr (cf_vault c)" "exact_keys EVIDENCE_FIELDS e" "device \<noteq> JStr (cf_root c)"
    by (auto simp: check_evidence_def rbind_ok ensure_ok map_err_ok)
  have "JStr (cf_root_key c) = JStr (b64 key)" using s(1) by (simp add: decode_trusted_ok)
  with verify_statement_D(1) [OF s(2) [unfolded verify_device_revocation_def]]
  show "\<exists>key. JStr (cf_root_key c) = JStr (b64 key) \<and> statement_signed C validate_revocation ''device-revocation'' key s" by blast
qed (use assms in \<open>auto simp: check_evidence_def rbind_ok ensure_ok\<close>)

lemma read_anchor_D:
  assumes "read_anchor C c state = Inr (Some v)"
  shows "describes C v" and "vc_vault v = cf_vault c" and "1 \<le> vc_sequence v" and "fld state ''commit_id'' = JStr (vc_id v)"
    and "fld state ''manifest_hash'' = JStr (vc_manifest_hash v)" and "fld state ''sequence'' = JInt (vc_sequence v)"
proof -
  let ?m = "fld state ''manifest''"
  from assms have s: "hash_json (fld state ''commit_id'')" "hash_json (fld state ''manifest_hash'')"
      "case fld state ''sequence'' of JInt i \<Rightarrow> 1 \<le> i | _ \<Rightarrow> False" "py_eq (fld ?m ''sequence'') (fld state ''sequence'')"
      "fld ?m ''vault_id'' = JStr (cf_vault c)"
    and h: "compute_manifest_hash C ?m = Inr (vc_manifest_hash v)" "JStr (vc_manifest_hash v) = fld state ''manifest_hash''"
    and v: "v = \<lparr>vc_id = text_of (fld state ''commit_id''), vc_manifest_hash = text_of (fld state ''manifest_hash''),
           vc_vault = text_of (fld ?m ''vault_id''), vc_sequence = int_of (fld state ''sequence''),
           vc_parent = fld ?m ''parent_commit_id'', vc_parent_hash = fld ?m ''parent_manifest_hash'',
           vc_ciphertext = text_of (fld ?m ''ciphertext_sha256''), vc_author = text_of (fld ?m ''author_device_id''),
           vc_timestamp = text_of (fld ?m ''timestamp''), vc_manifest = ?m\<rparr>"
    by (auto simp: read_anchor_def rbind_ok ensure_ok map_err_ok Let_def hash_json_def split: if_splits json.splits)
  obtain i where i: "fld state ''sequence'' = JInt i" "1 \<le> i" using s(3) by (auto split: json.splits)
  from h(1) have m: "validate_manifest ?m = Inr ()" "vc_manifest_hash v = sha256_hex C (canonical_text ?m)"
    by (auto simp: compute_manifest_hash_def rbind_ok canonical_json_ok)
  note mm = m(1) [unfolded validate_manifest_ok]
  have q: "fld ?m ''sequence'' = JInt i" using s(4) mm i(1) by auto
  obtain a b d where "fld ?m ''author_device_id'' = JStr a" "fld ?m ''ciphertext_sha256'' = JStr b" "fld ?m ''timestamp'' = JStr d"
    using mm by auto
  then show "describes C v" using m q i s(5) by (simp add: v describes_def Let_def)
  show "vc_vault v = cf_vault c" "1 \<le> vc_sequence v" "fld state ''sequence'' = JInt (vc_sequence v)" using s(5) i by (simp_all add: v)
  show "fld state ''commit_id'' = JStr (vc_id v)" "fld state ''manifest_hash'' = JStr (vc_manifest_hash v)"
    using s(1) h(2) by (auto simp: v hash_json_def split: json.splits)
qed

text \<open>Writing never goes back: the old anchor is in the verified chain, at or below the new one, every
  revocation that was recorded stays recorded with the same evidence, and what is written reads.\<close>

definition kept_evidence :: "(string \<times> json) list \<Rightarrow> (string \<times> json) list \<Rightarrow> bool" where
  "kept_evidence rs rs' \<longleftrightarrow> (\<forall>d e. map_of rs d = Some e \<longrightarrow> (\<exists>e'. map_of rs' d = Some e' \<and> (e' = e \<or> same_evidence e e')))"

lemma kept_trans: "kept_evidence rs ss \<Longrightarrow> kept_evidence ss ts \<Longrightarrow> kept_evidence rs ts"
proof -
  assume r: "kept_evidence rs ss" and s: "kept_evidence ss ts"
  show "kept_evidence rs ts"
    unfolding kept_evidence_def
  proof (intro allI impI)
    fix d e assume "map_of rs d = Some e"
    then obtain e' where e': "map_of ss d = Some e'" "e' = e \<or> same_evidence e e'" using r by (auto simp: kept_evidence_def)
    then obtain f where f: "map_of ts d = Some f" "f = e' \<or> same_evidence e' f" using s by (auto simp: kept_evidence_def)
    have "f = e \<or> same_evidence e f" using e'(2) f(2) by (elim disjE) (simp_all add: same_evidence_def)
    with f(1) show "\<exists>e'. map_of ts d = Some e' \<and> (e' = e \<or> same_evidence e e')" by blast
  qed
qed

lemma add_evidence_kept: "add_evidence x rs = Inr rs' \<Longrightarrow> kept_evidence rs rs'"
  by (auto simp: add_evidence_def rbind_ok ensure_ok kept_evidence_def map_of_put split: prod.splits option.splits)

lemma add_evidences_kept: "rfold add_evidence xs rs = Inr rs' \<Longrightarrow> kept_evidence rs rs'"
proof (induction xs arbitrary: rs)
  case (Cons x xs)
  then show ?case by (auto simp: rbind_ok intro: kept_trans add_evidence_kept)
qed (auto simp: kept_evidence_def)

theorem write_state_forward:
  assumes "write_state C c se now file verified change = Inr (Some st)"
  shows "\<exists>old anchor. (case file of None \<Rightarrow> Inr (JObj []) | Some text \<Rightarrow> parse_state C c text) = Inr old \<and> read_anchor C c old = Inr anchor
      \<and> (case anchor of None \<Rightarrow> True | Some a \<Rightarrow> (case verified of None \<Rightarrow> False
           | Some v \<Rightarrow> vc_sequence a \<le> vc_sequence v \<and> checkpoint_of a \<in> set (se_checkpoints se)))
      \<and> kept_evidence (members (fld old ''revocations'')) (members (fld st ''revocations''))"
    and "check_state C c st = Inr st" and "has_key st ''commit_id'' \<longleftrightarrow> verified \<noteq> None"
proof -
  from assms obtain old anchor records pending where
    o: "(case file of None \<Rightarrow> Inr (JObj []) | Some text \<Rightarrow> parse_state C c text) = Inr old" "read_anchor C c old = Inr anchor"
    and w: "write_anchor anchor verified se = Inr ()" and r: "rfold add_evidence (se_revocations se) (members (fld old ''revocations'')) = Inr records"
    and st: "st = JObj (members (state_object records verified pending) @ [(''last_sync_at'', JStr now)])"
    and k: "\<exists>y. check_state C c st = Inr y"
    by (auto simp: write_state_def rbind_ok Let_def map_err_ok split: if_splits)
  have "kept_evidence (members (fld old ''revocations'')) (members (fld st ''revocations''))"
    using add_evidences_kept [OF r] by (simp add: st state_object_def fld_def)
  moreover have "case anchor of None \<Rightarrow> True | Some a \<Rightarrow> (case verified of None \<Rightarrow> False
      | Some v \<Rightarrow> vc_sequence a \<le> vc_sequence v \<and> checkpoint_of a \<in> set (se_checkpoints se))"
    using w by (auto simp: write_anchor_def rbind_ok ensure_ok split: option.splits)
  ultimately show "\<exists>old anchor. (case file of None \<Rightarrow> Inr (JObj []) | Some text \<Rightarrow> parse_state C c text) = Inr old \<and> read_anchor C c old = Inr anchor
      \<and> (case anchor of None \<Rightarrow> True | Some a \<Rightarrow> (case verified of None \<Rightarrow> False
           | Some v \<Rightarrow> vc_sequence a \<le> vc_sequence v \<and> checkpoint_of a \<in> set (se_checkpoints se)))
      \<and> kept_evidence (members (fld old ''revocations'')) (members (fld st ''revocations''))"
    using o by blast
  show "check_state C c st = Inr st" using k by (auto simp: check_state_def rbind_ok)
  show "has_key st ''commit_id'' \<longleftrightarrow> verified \<noteq> None"
    by (cases verified) (simp_all add: st state_object_def has_key_def anchor_members_def)
qed

end
