(* ===== verification/Trust_Devices.thy ===== *)
theory Trust_Devices
  imports Trust_State
begin

text \<open>
  Which devices a device trusts (\<open>VpsSyncEngine._trusted_device_keys\<close>): the pinned root, and every
  device of the relay's list that the root admitted, with the revocations the root signed. The list
  is whatever the relay answers. The set of devices still to be admitted is traversed in the order
  of the list; Python leaves the order of a set open.
\<close>

section \<open>The device list\<close>

definition index_devices :: "json \<Rightarrow> terr + (string \<times> json) list" where
  "index_devices response =
     (case (if is_obj response then fld response ''devices'' else JNull) of
        JList l \<Rightarrow> rfold (\<lambda>r ds.
            rbind (ensure (is_obj r \<and> is_str (fld r ''device_id'')) Bad_reply) (\<lambda>_.
            rbind (ensure (text_of (fld r ''device_id'') \<notin> set (map fst ds)) Untrusted) (\<lambda>_.
            Inr (ds @ [(text_of (fld r ''device_id''), r)])))) l []
      | _ \<Rightarrow> Inl Bad_reply)"

definition check_root_record :: "vps_config \<Rightarrow> (string \<times> json) list \<Rightarrow> terr + unit" where
  "check_root_record c ds = (case map_of ds (cf_root c) of None \<Rightarrow> Inl Untrusted
     | Some r \<Rightarrow> ensure (fld r ''status'' = JStr ''active'' \<and> fld r ''sign_public_key'' = JStr (cf_root_key c)) Untrusted)"

section \<open>Admission\<close>

record admission =
  an_keys :: "(string \<times> string) list"
  an_memberships :: "(string \<times> json) list"

text \<open>The statement of a record: a text is parsed and must be canonical; other values stay.\<close>

definition membership_statement_of :: "json \<Rightarrow> terr + json" where
  "membership_statement_of r = (case fld r ''membership_statement'' of JStr t \<Rightarrow> canonical_statement t | v \<Rightarrow> Inr v)"

text \<open>One device: \<open>None\<close> when it is left for a later pass.\<close>

definition admit_one :: "crypto \<Rightarrow> vps_config \<Rightarrow> string \<Rightarrow> json \<Rightarrow> admission \<Rightarrow> terr + admission option" where
  "admit_one C c device r a =
     rbind (membership_statement_of r) (\<lambda>s.
     if \<not> is_obj s then Inr None
     else
       rbind (ensure (fld s ''approved_by_device_id'' = JStr (cf_root c)) Untrusted) (\<lambda>_.
       (case map_of (an_keys a) (cf_root c) of None \<Rightarrow> Inr None
        | Some key \<Rightarrow>
            rbind (verify_membership C s (fld r ''membership_signature'') key) (\<lambda>m.
            rbind (ensure (fld m ''vault_id'' = JStr (cf_vault c) \<and> fld m ''device_id'' = JStr device
               \<and> fld m ''sign_public_key'' = fld r ''sign_public_key'' \<and> fld m ''wrap_public_key'' = fld r ''wrap_public_key'') Untrusted) (\<lambda>_.
            rbind (decode_trusted (Some 32) (fld m ''sign_public_key'')) (\<lambda>k.
            Inr (Some \<lparr>an_keys = an_keys a @ [(device, k)], an_memberships = an_memberships a @ [(device, m)]\<rparr>)))))))"

fun admit_pass :: "crypto \<Rightarrow> vps_config \<Rightarrow> (string \<times> json) list \<Rightarrow> admission \<Rightarrow> terr + (string \<times> json) list \<times> admission" where
  "admit_pass C c [] a = Inr ([], a)"
| "admit_pass C c ((d, r) # ds) a =
     rbind (admit_one C c d r a) (\<lambda>x. case x of
         None \<Rightarrow> rbind (admit_pass C c ds a) (\<lambda>(rest, a'). Inr ((d, r) # rest, a'))
       | Some a' \<Rightarrow> admit_pass C c ds a')"

text \<open>Passes are repeated while they admit a device.\<close>

function admit_devices :: "crypto \<Rightarrow> vps_config \<Rightarrow> (string \<times> json) list \<Rightarrow> admission \<Rightarrow> terr + (string \<times> json) list \<times> admission" where
  "admit_devices C c ds a =
     (if ds = [] then Inr ([], a)
      else (case admit_pass C c ds a of Inl e \<Rightarrow> Inl e
            | Inr (rest, a') \<Rightarrow> if length rest < length ds then admit_devices C c rest a' else Inr (rest, a')))"
  by pat_completeness auto
termination by (relation "measure (\<lambda>(_, _, ds, _). length ds)") auto

definition check_own_record :: "vps_config \<Rightarrow> (string \<times> json) list \<Rightarrow> admission \<Rightarrow> terr + unit" where
  "check_own_record c ds a = (case map_of ds (cf_device c) of None \<Rightarrow> Inl Untrusted
     | Some r \<Rightarrow> ensure ((fld r ''status'' = JStr ''active'' \<or> fld r ''status'' = JStr ''revoked'')
         \<and> fld r ''sign_public_key'' = JStr (cf_sign c) \<and> fld r ''wrap_public_key'' = JStr (cf_wrap c)
         \<and> cf_device c \<in> set (map fst (an_keys a))) Untrusted)"

section \<open>Revocations\<close>

record revoked_list =
  rl_statements :: "(string \<times> json) list"
  rl_records :: "(string \<times> json) list"

definition revocation_of :: "crypto \<Rightarrow> vps_config \<Rightarrow> admission \<Rightarrow> string \<times> json \<Rightarrow> revoked_list \<Rightarrow> terr + revoked_list" where
  "revocation_of C c a dr l = (case dr of (d, r) \<Rightarrow>
     rbind (ensure (fld r ''status'' \<in> {JStr ''pending'', JStr ''active'', JStr ''revoked''}) Untrusted) (\<lambda>_.
     if fld r ''status'' \<noteq> JStr ''revoked'' then Inr l
     else
       rbind (ensure (is_str (fld r ''revocation_statement'') \<and> is_str (fld r ''revocation_signature'')) Untrusted) (\<lambda>_.
       rbind (canonical_statement (text_of (fld r ''revocation_statement''))) (\<lambda>s.
       rbind (ensure (fld r ''revoked_by_device_id'' = JStr (cf_root c)) Untrusted) (\<lambda>_.
       (case map_of (an_keys a) (cf_root c) of None \<Rightarrow> Inl Untrusted
        | Some key \<Rightarrow>
            rbind (verify_device_revocation C s (fld r ''revocation_signature'') key) (\<lambda>v.
            rbind (ensure (fld v ''vault_id'' = JStr (cf_vault c) \<and> fld v ''device_id'' = JStr d
               \<and> fld v ''revoked_by_device_id'' = fld r ''revoked_by_device_id'') Untrusted) (\<lambda>_.
            Inr \<lparr>rl_statements = rl_statements l @ [(d, v)],
                 rl_records = rl_records l @ [(d, JObj [(''statement'', fld r ''revocation_statement''),
                                                     (''signature'', fld r ''revocation_signature'')])]\<rparr>))))))))"

text \<open>The pending revocation of the local state, which the relay may not contradict.\<close>

definition with_pending_revocation :: "crypto \<Rightarrow> vps_config \<Rightarrow> json \<Rightarrow> revoked_list \<Rightarrow> terr + revoked_list" where
  "with_pending_revocation C c p l =
     (if p = JNull then Inr l
      else
        rbind (ensure (case map_of (rl_records l) (text_of (fld p ''device_id'')) of None \<Rightarrow> True
                 | Some e \<Rightarrow> same_evidence e (evidence_of p)) Untrusted) (\<lambda>_.
        rbind (check_evidence C c (fld p ''device_id'') (evidence_of p)) (\<lambda>v.
        Inr (l\<lparr>rl_statements := put (text_of (fld p ''device_id'')) v (rl_statements l)\<rparr>))))"

text \<open>Every revocation that was trusted before must be shown again, with the same evidence.\<close>

definition still_shown :: "json \<Rightarrow> revoked_list \<Rightarrow> string \<times> json \<Rightarrow> terr + unit" where
  "still_shown p l de = (case de of (d, e) \<Rightarrow>
     rbind (ensure (exact_keys EVIDENCE_FIELDS e \<and> is_str (fld e ''statement'') \<and> is_str (fld e ''signature'')) Untrusted) (\<lambda>_.
     if p \<noteq> JNull \<and> JStr d = fld p ''device_id'' \<and> same_evidence e (evidence_of p) \<and> d \<notin> set (map fst (rl_records l)) then Inr ()
     else ensure (case map_of (rl_records l) d of None \<Rightarrow> False | Some f \<Rightarrow> same_evidence e f) Untrusted))"

section \<open>The whole check\<close>

record trust =
  tr_keys :: "(string \<times> string) list"
  tr_memberships :: "(string \<times> json) list"
  tr_revocations :: "(string \<times> json) list"
  tr_records :: "(string \<times> json) list"
  tr_statuses :: "(string \<times> json) list"

definition trusted_device_keys :: "crypto \<Rightarrow> vps_config \<Rightarrow> json \<Rightarrow> json \<Rightarrow> bool \<Rightarrow> terr + trust" where
  "trusted_device_keys C c response state allow_pending =
     rbind (index_devices response) (\<lambda>ds.
     rbind (check_root_record c ds) (\<lambda>_.
     rbind (decode_trusted (Some 32) (JStr (cf_root_key c))) (\<lambda>root_key.
     rbind (admit_devices C c
              (filter (\<lambda>(d, r). d \<noteq> cf_root c \<and> (fld r ''status'' = JStr ''active'' \<or> fld r ''status'' = JStr ''revoked'')) ds)
              \<lparr>an_keys = [(cf_root c, root_key)], an_memberships = []\<rparr>) (\<lambda>(rest, a).
     rbind (ensure (rest = []) Untrusted) (\<lambda>_.
     rbind (check_own_record c ds a) (\<lambda>_.
     rbind (rfold (revocation_of C c a) ds \<lparr>rl_statements = [], rl_records = []\<rparr>) (\<lambda>l.
     let p = (if allow_pending then fld state ''pending_revoke'' else JNull) in
     rbind (with_pending_revocation C c p l) (\<lambda>l'.
     rbind (ensure (has_key state ''revocations'' \<longrightarrow> is_obj (fld state ''revocations'')) Untrusted) (\<lambda>_.
     rbind (each (still_shown p l') (members (fld state ''revocations''))) (\<lambda>_.
     Inr \<lparr>tr_keys = an_keys a, tr_memberships = an_memberships a, tr_revocations = rl_statements l', tr_records = rl_records l',
          tr_statuses = map (\<lambda>(d, r). (d, fld r ''status'')) ds\<rparr>))))))))))"

section \<open>Who is trusted\<close>

text \<open>The root signed this membership: the device, its key and the vault.\<close>

definition admitted_as :: "crypto \<Rightarrow> vps_config \<Rightarrow> string \<Rightarrow> string \<Rightarrow> json \<Rightarrow> bool" where
  "admitted_as C c device key m \<longleftrightarrow> (\<exists>root_key. cf_root_key c = b64 root_key
      \<and> statement_signed C validate_membership ''device-membership'' root_key m)
     \<and> fld m ''vault_id'' = JStr (cf_vault c) \<and> fld m ''device_id'' = JStr device \<and> fld m ''approved_by_device_id'' = JStr (cf_root c)
     \<and> fld m ''sign_public_key'' = JStr (b64 key)"

definition revoked_by_root :: "crypto \<Rightarrow> vps_config \<Rightarrow> string \<Rightarrow> json \<Rightarrow> bool" where
  "revoked_by_root C c device v \<longleftrightarrow> (\<exists>root_key. cf_root_key c = b64 root_key
      \<and> statement_signed C validate_revocation ''device-revocation'' root_key v)
     \<and> fld v ''vault_id'' = JStr (cf_vault c) \<and> fld v ''device_id'' = JStr device"

definition admission_ok :: "crypto \<Rightarrow> vps_config \<Rightarrow> admission \<Rightarrow> bool" where
  "admission_ok C c a \<longleftrightarrow> (\<exists>root_key. cf_root_key c = b64 root_key \<and> map_of (an_keys a) (cf_root c) = Some root_key)
     \<and> (\<forall>(d, k) \<in> set (an_keys a). d = cf_root c \<and> cf_root_key c = b64 k
          \<or> d \<noteq> cf_root c \<and> (\<exists>m. (d, m) \<in> set (an_memberships a) \<and> admitted_as C c d k m))
     \<and> (\<forall>(d, m) \<in> set (an_memberships a). d \<noteq> cf_root c \<and> (\<exists>k. admitted_as C c d k m))"

lemma admit_one_ok:
  assumes "admit_one C c d r a = Inr (Some a')" and a: "admission_ok C c a" and d: "d \<noteq> cf_root c"
  shows "admission_ok C c a'"
proof -
  from assms(1) obtain s key m k where s: "is_obj s" "fld s ''approved_by_device_id'' = JStr (cf_root c)"
    and key: "map_of (an_keys a) (cf_root c) = Some key" and m: "verify_membership C s (fld r ''membership_signature'') key = Inr m"
    and f: "fld m ''vault_id'' = JStr (cf_vault c)" "fld m ''device_id'' = JStr d"
    and k: "decode_trusted (Some 32) (fld m ''sign_public_key'') = Inr k"
    and a': "a' = \<lparr>an_keys = an_keys a @ [(d, k)], an_memberships = an_memberships a @ [(d, m)]\<rparr>"
    by (auto simp: admit_one_def rbind_ok ensure_ok split: if_splits option.splits)
  have "m = s" and sg: "statement_signed C validate_membership ''device-membership'' key m"
    using verify_statement_D(1,2) [OF m [unfolded verify_membership_def]] s(1) by simp_all
  moreover have "cf_root_key c = b64 key" using a key by (auto simp: admission_ok_def)
  moreover have "fld m ''sign_public_key'' = JStr (b64 k)" using k by (simp add: decode_trusted_ok)
  ultimately have "admitted_as C c d k m" using s(2) f unfolding admitted_as_def by blast
  with a d show ?thesis by (fastforce simp: admission_ok_def a' map_add_def split: option.splits)
qed

lemma admit_pass_ok:
  "admit_pass C c ds a = Inr (rest, a') \<Longrightarrow> admission_ok C c a \<Longrightarrow> \<forall>(d, r) \<in> set ds. d \<noteq> cf_root c \<Longrightarrow>
     admission_ok C c a' \<and> set rest \<subseteq> set ds"
proof (induction C c ds a arbitrary: rest rule: admit_pass.induct)
  case (2 C c d r ds a)
  from "2.prems"(1) obtain x where x: "admit_one C c d r a = Inr x" by (auto simp: rbind_ok)
  show ?case
  proof (cases x)
    case None
    with "2.prems" x obtain rest' where "admit_pass C c ds a = Inr (rest', a')" "rest = (d, r) # rest'" by (auto simp: rbind_ok)
    with "2.IH"(1) [OF x None] "2.prems"(2,3) show ?thesis by auto
  next
    case (Some b)
    with "2.prems" x have "admit_pass C c ds b = Inr (rest, a')" "admission_ok C c b"
      using admit_one_ok [of C c d r a b] by auto
    with "2.IH"(2) [OF x Some] "2.prems"(3) show ?thesis by auto
  qed
qed auto

lemma admit_devices_ok:
  "admit_devices C c ds a = Inr (rest, a') \<Longrightarrow> admission_ok C c a \<Longrightarrow> \<forall>(d, r) \<in> set ds. d \<noteq> cf_root c \<Longrightarrow> admission_ok C c a'"
proof (induction C c ds a rule: admit_devices.induct)
  case (1 C c ds a)
  show ?case
  proof (cases "ds = []")
    case False
    with "1.prems"(1) obtain rest1 a1 where p: "admit_pass C c ds a = Inr (rest1, a1)"
      by (auto split: sum.splits)
    note ok = admit_pass_ok [OF p "1.prems"(2,3)]
    show ?thesis
    proof (cases "length rest1 < length ds")
      case True
      with "1.prems"(1) False p have "admit_devices C c rest1 a1 = Inr (rest, a')" by (subst (asm) admit_devices.simps) simp
      with "1.IH" [OF False p refl True] ok "1.prems"(3) show ?thesis by blast
    next
      case False
      with "1.prems"(1) p ok show ?thesis by (subst (asm) admit_devices.simps) (auto split: if_splits)
    qed
  qed (use 1 in \<open>subst (asm) admit_devices.simps, simp\<close>)
qed

lemma revocation_of_ok:
  assumes "revocation_of C c a dr l = Inr l'" and a: "admission_ok C c a"
    and l: "\<forall>(d, v) \<in> set (rl_statements l). revoked_by_root C c d v"
  shows "\<forall>(d, v) \<in> set (rl_statements l'). revoked_by_root C c d v"
proof -
  obtain d r where dr: "dr = (d, r)" by (cases dr)
  show ?thesis
  proof (cases "fld r ''status'' = JStr ''revoked''")
    case True
    with assms(1) dr obtain s key v where key: "map_of (an_keys a) (cf_root c) = Some key"
      and v: "verify_device_revocation C s (fld r ''revocation_signature'') key = Inr v"
      and f: "fld v ''vault_id'' = JStr (cf_vault c)" "fld v ''device_id'' = JStr d" and l': "rl_statements l' = rl_statements l @ [(d, v)]"
      by (auto simp: revocation_of_def rbind_ok ensure_ok split: option.splits)
    have "cf_root_key c = b64 key" using a key by (auto simp: admission_ok_def)
    with verify_statement_D(1) [OF v [unfolded verify_device_revocation_def]] f have "revoked_by_root C c d v"
      unfolding revoked_by_root_def by blast
    with l l' show ?thesis by auto
  next
    case False
    with assms(1) dr l show ?thesis by (auto simp: revocation_of_def rbind_ok ensure_ok)
  qed
qed

lemma set_put: "(d, v) \<in> set (put k x m) \<Longrightarrow> (d, v) = (k, x) \<or> (d, v) \<in> set m"
  by (auto simp: put_def split: if_splits)

definition trust_ok :: "crypto \<Rightarrow> vps_config \<Rightarrow> trust \<Rightarrow> bool" where
  "trust_ok C c t \<longleftrightarrow> admission_ok C c \<lparr>an_keys = tr_keys t, an_memberships = tr_memberships t\<rparr>
     \<and> (\<forall>(d, v) \<in> set (tr_revocations t). revoked_by_root C c d v)"

theorem trusted_device_keys_ok:
  assumes "trusted_device_keys C c response state allow = Inr t"
  shows "trust_ok C c t" and "cf_device c \<in> set (map fst (tr_keys t))"
proof -
  from assms obtain ds root_key a l l' where key: "decode_trusted (Some 32) (JStr (cf_root_key c)) = Inr root_key"
    and a: "admit_devices C c (filter (\<lambda>(d, r). d \<noteq> cf_root c \<and> (fld r ''status'' = JStr ''active'' \<or> fld r ''status'' = JStr ''revoked'')) ds)
              \<lparr>an_keys = [(cf_root c, root_key)], an_memberships = []\<rparr> = Inr ([], a)"
    and own: "check_own_record c ds a = Inr ()"
    and l: "rfold (revocation_of C c a) ds \<lparr>rl_statements = [], rl_records = []\<rparr> = Inr l"
    and l': "with_pending_revocation C c (if allow then fld state ''pending_revoke'' else JNull) l = Inr l'"
    and t: "tr_keys t = an_keys a" "tr_memberships t = an_memberships a" "tr_revocations t = rl_statements l'"
    by (auto simp: trusted_device_keys_def rbind_ok ensure_ok Let_def split: prod.splits)
  have ok: "admission_ok C c a"
    by (rule admit_devices_ok [OF a]) (use key in \<open>auto simp: admission_ok_def decode_trusted_ok\<close>)
  have "\<forall>(d, v) \<in> set (rl_statements l). revoked_by_root C c d v"
    by (rule rfold_invariant [OF l]) (auto dest: revocation_of_ok [OF _ ok])
  moreover have "rl_statements l' = rl_statements l \<or> (\<exists>d v. rl_statements l' = put d v (rl_statements l) \<and> revoked_by_root C c d v)"
  proof (cases "(if allow then fld state ''pending_revoke'' else JNull) = JNull")
    case False
    then obtain p v where v: "check_evidence C c (fld p ''device_id'') (evidence_of p) = Inr v"
      and p: "rl_statements l' = put (text_of (fld p ''device_id'')) v (rl_statements l)"
      using l' by (auto simp: with_pending_revocation_def rbind_ok ensure_ok split: if_splits)
    have "id_json (fld p ''device_id'')" using v by (auto simp: check_evidence_def rbind_ok ensure_ok)
    then have "fld p ''device_id'' = JStr (text_of (fld p ''device_id''))" by (auto simp: id_json_def split: json.splits)
    with check_evidence_D(1,2,3) [OF v] have "revoked_by_root C c (text_of (fld p ''device_id'')) v"
      unfolding revoked_by_root_def by auto
    with p show ?thesis by blast
  qed (use l' in \<open>simp add: with_pending_revocation_def\<close>)
  ultimately have "\<forall>(d, v) \<in> set (rl_statements l'). revoked_by_root C c d v"
    using set_put by fastforce
  with ok show "trust_ok C c t" by (cases a) (simp add: trust_ok_def t)
  show "cf_device c \<in> set (map fst (tr_keys t))" using own by (auto simp: check_own_record_def ensure_ok t split: option.splits)
qed

end
