(* ===== verification/Trust_History.thy ===== *)
theory Trust_History
  imports Trust_Devices Sync_Steps Entries
begin

text \<open>
  Verifying the history that a relay serves (\<open>VpsSyncEngine._verified_head\<close>). The relay is the
  parameter: any answer to any call, and different ones to the same call; so is the clock, which may
  run out at any of its checks. Both are indexed by a counter of calls and checks, which the
  functions thread. The local state file is the third input.
\<close>

section \<open>The relay and the clock\<close>

datatype call = Devices | Head | Commit string bool | Page int bool

datatype reply = Answer json | Bad_request | Failed terr

record relay_env =
  en_answer :: "nat \<Rightarrow> call \<Rightarrow> reply"
  en_late :: "nat \<Rightarrow> bool"

type_synonym 'a act = "nat \<Rightarrow> (terr + 'a) \<times> nat"

definition abind :: "'a act \<Rightarrow> ('a \<Rightarrow> 'b act) \<Rightarrow> 'b act" where
  "abind m f n = (case m n of (Inl e, n') \<Rightarrow> (Inl e, n') | (Inr x, n') \<Rightarrow> f x n')"

definition alift :: "terr + 'a \<Rightarrow> 'a act" where
  "alift r n = (r, n)"

text \<open>\<open>_history_budget\<close>, and one call of the client; \<open>None\<close> is a \<open>VpsBadRequestError\<close>.\<close>

definition tick :: "relay_env \<Rightarrow> unit act" where
  "tick env n = (if en_late env n then Inl Not_now else Inr (), Suc n)"

definition ask_or_none :: "relay_env \<Rightarrow> call \<Rightarrow> json option act" where
  "ask_or_none env c n = (case en_answer env n c of Answer v \<Rightarrow> Inr (Some v) | Bad_request \<Rightarrow> Inr None | Failed e \<Rightarrow> Inl e, Suc n)"

definition ask :: "relay_env \<Rightarrow> call \<Rightarrow> json act" where
  "ask env c = abind (ask_or_none env c) (\<lambda>r. alift (case r of None \<Rightarrow> Inl Bad_query | Some v \<Rightarrow> Inr v))"

lemma abind_ok: "abind m f n = (Inr y, n'') \<longleftrightarrow> (\<exists>x n'. m n = (Inr x, n') \<and> f x n' = (Inr y, n''))"
  by (auto simp: abind_def split: prod.splits sum.splits)

lemma alift_ok: "alift r n = (Inr x, n') \<longleftrightarrow> r = Inr x \<and> n' = n"
  by (auto simp: alift_def)

lemma tick_ok: "tick env n = (Inr u, n') \<longleftrightarrow> \<not> en_late env n \<and> n' = Suc n"
  by (auto simp: tick_def)

lemma list_case_ok: "(case x of JList l \<Rightarrow> f l | _ \<Rightarrow> Inl e) = Inr y \<longleftrightarrow> (\<exists>l. x = JList l \<and> f l = Inr y)"
  by (cases x) simp_all

lemmas act_ok = list_case_ok abind_ok alift_ok tick_ok rbind_ok ensure_ok map_err_ok

section \<open>One record\<close>

definition head_id_of :: "json \<Rightarrow> terr + string option" where
  "head_id_of r =
     rbind (ensure (is_obj r) Bad_reply) (\<lambda>_.
     (case (if has_key r ''head_commit_id'' then fld r ''head_commit_id'' else fld r ''commit_id'') of
        JNull \<Rightarrow> Inr None
      | JStr s \<Rightarrow> rbind (ensure (is_sha256 s) Bad_reply) (\<lambda>_. Inr (Some s))
      | _ \<Rightarrow> Inl Bad_reply))"

definition is_int :: "json \<Rightarrow> bool" where
  "is_int v = (case v of JInt i \<Rightarrow> True | _ \<Rightarrow> False)"

definition record_matches :: "json \<Rightarrow> verified_commit \<Rightarrow> terr + unit" where
  "record_matches r v = ensure (is_obj r \<and> is_int (fld r ''sequence'')
     \<and> (\<forall>(k, x) \<in> set [(''commit_id'', JStr (vc_id v)), (''sequence'', JInt (vc_sequence v)), (''parent_commit_id'', vc_parent v),
          (''manifest_hash'', JStr (vc_manifest_hash v)), (''author_device_id'', JStr (vc_author v))]. has_key r k \<and> fld r k = x)) Untrusted"

definition verify_served_record :: "crypto \<Rightarrow> vps_config \<Rightarrow> trust \<Rightarrow> json \<Rightarrow> string option \<Rightarrow> terr + verified_commit" where
  "verify_served_record C c t r snapshot =
     rbind (wire_bytes MAX_COMMIT (fld r ''commit_blob'')) (\<lambda>blob.
     rbind (map_err (\<lambda>_. Untrusted) (loads any_json blob)) (\<lambda>raw.
     let author = fld (fld raw ''manifest'') ''author_device_id'' in
     rbind (ensure (is_str author) Untrusted) (\<lambda>_.
     (case map_of (tr_keys t) (text_of author) of None \<Rightarrow> Inl Untrusted
      | Some key \<Rightarrow>
          rbind (map_err (\<lambda>_. Untrusted)
                   (verify_commit_signature C blob key snapshot (Some (cf_vault c)) (Some (text_of author)))) (\<lambda>v.
          rbind (record_matches r v) (\<lambda>_. Inr v))))))"

text \<open>\<open>_require_chain_checkpoints\<close>.\<close>

definition require_checkpoints :: "vps_config \<Rightarrow> trust \<Rightarrow> (int \<times> string \<times> string) list \<Rightarrow> terr + unit" where
  "require_checkpoints c t cps =
     rbind (each (\<lambda>(d, m). ensure (checkpoint_in m cps) Untrusted) (tr_memberships t)) (\<lambda>_.
     rbind (each (\<lambda>(d, v). ensure (checkpoint_in v cps) Untrusted) (tr_revocations t)) (\<lambda>_.
     ensure (cf_sequence c = 0 \<or> (cf_sequence c, cf_commit c, cf_hash c) \<in> set cps) Untrusted))"

section \<open>Walking the history\<close>

record walk_state =
  wk_previous :: "verified_commit option"
  wk_checkpoints :: "(int \<times> string \<times> string) list"
  wk_ids :: "string list"
  wk_authors :: "(string \<times> int) list"
  wk_after :: int
  wk_commits :: bool
  wk_snapshots :: bool

definition start_walk :: walk_state where
  "start_walk = \<lparr>wk_previous = None, wk_checkpoints = [], wk_ids = [], wk_authors = [], wk_after = 0, wk_commits = True, wk_snapshots = False\<rparr>"

text \<open>A page of metadata; a relay that refuses the batching hint is asked once more without it.\<close>

definition read_page :: "relay_env \<Rightarrow> string \<Rightarrow> walk_state \<Rightarrow> (json list \<times> walk_state) act" where
  "read_page env head_id w =
     abind (tick env) (\<lambda>_.
     abind (ask_or_none env (Page (wk_after w) (wk_commits w))) (\<lambda>r.
     abind (case r of Some v \<Rightarrow> alift (Inr (v, w))
            | None \<Rightarrow>
                if \<not> wk_commits w then alift (Inl Bad_query)
                else abind (tick env) (\<lambda>_. abind (ask env (Page (wk_after w) False)) (\<lambda>v. alift (Inr (v, w\<lparr>wk_commits := False\<rparr>))))) (\<lambda>(page, w').
     abind (tick env) (\<lambda>_.
     alift (case (if is_obj page then fld page ''commits'' else JNull) of
         JList rs \<Rightarrow>
           rbind (ensure (rs \<noteq> [] \<and> len rs \<le> 100) Untrusted) (\<lambda>_.
           rbind (ensure (fld page ''head_commit_id'' = JStr head_id) Moved) (\<lambda>_. Inr (rs, w')))
       | _ \<Rightarrow> Inl Untrusted)))))"

text \<open>The signed envelope of a record: in the page, or fetched by itself.\<close>

definition fetch_signed :: "relay_env \<Rightarrow> json \<Rightarrow> walk_state \<Rightarrow> (json \<times> walk_state) act" where
  "fetch_signed env r w =
     (if has_key r ''commit_blob'' then alift (Inr (r, w))
      else
        abind (ask_or_none env (Commit (text_of (fld r ''commit_id'')) (wk_snapshots w))) (\<lambda>x.
        abind (case x of Some v \<Rightarrow> alift (Inr (v, w))
               | None \<Rightarrow>
                   if wk_snapshots w then alift (Inl Bad_query)
                   else abind (tick env) (\<lambda>_.
                     abind (ask env (Commit (text_of (fld r ''commit_id'')) True)) (\<lambda>v. alift (Inr (v, w\<lparr>wk_snapshots := True\<rparr>))))) (\<lambda>(v, w').
        abind (tick env) (\<lambda>_. alift (rbind (ensure (is_obj v) Bad_reply) (\<lambda>_. Inr (v, w')))))))"

text \<open>The next record in order, below or at the head, with a new identifier.\<close>

definition next_record :: "verified_commit \<Rightarrow> walk_state \<Rightarrow> json \<Rightarrow> terr + unit" where
  "next_record head w r = ensure (is_obj r \<and> fld r ''sequence'' = JInt (wk_after w + 1) \<and> wk_after w + 1 \<le> vc_sequence head
     \<and> hash_json (fld r ''commit_id'') \<and> text_of (fld r ''commit_id'') \<notin> set (wk_ids w)) Untrusted"

text \<open>The commit continues the chain, its author was admitted before and not revoked before.\<close>

definition checkpoint_sequence :: "json \<Rightarrow> int" where
  "checkpoint_sequence s = int_of (fld s ''checkpoint_sequence'')"

definition check_author :: "vps_config \<Rightarrow> trust \<Rightarrow> verified_commit \<Rightarrow> terr + unit" where
  "check_author c t v =
     rbind (ensure (vc_author v = cf_root c \<and> 0 < vc_sequence v
        \<or> vc_author v \<noteq> cf_root c \<and> (case map_of (tr_memberships t) (vc_author v) of None \<Rightarrow> False
             | Some m \<Rightarrow> checkpoint_sequence m < vc_sequence v)) Untrusted) (\<lambda>_.
     ensure (case map_of (tr_revocations t) (vc_author v) of None \<Rightarrow> True
             | Some s \<Rightarrow> vc_sequence v \<le> checkpoint_sequence s) Untrusted)"

definition take_record :: "vps_config \<Rightarrow> trust \<Rightarrow> verified_commit \<Rightarrow> walk_state \<Rightarrow> terr + walk_state" where
  "take_record c t v w =
     rbind (ensure (continues (wk_previous w) v) Untrusted) (\<lambda>_.
     rbind (check_author c t v) (\<lambda>_.
     Inr (w\<lparr>wk_previous := Some v, wk_checkpoints := wk_checkpoints w @ [checkpoint_of v],
            wk_authors := wk_authors w @ [(vc_author v, vc_sequence v)], wk_after := vc_sequence v\<rparr>)))"

definition walk_record :: "crypto \<Rightarrow> relay_env \<Rightarrow> vps_config \<Rightarrow> trust \<Rightarrow> verified_commit \<Rightarrow> json \<Rightarrow> json \<Rightarrow> walk_state \<Rightarrow> walk_state act" where
  "walk_record C env c t head head_record r w =
     abind (tick env) (\<lambda>_.
     abind (alift (next_record head w r)) (\<lambda>_.
     let w1 = w\<lparr>wk_ids := text_of (fld r ''commit_id'') # wk_ids w\<rparr> in
     if wk_after w + 1 = vc_sequence head then
       alift (rbind (record_matches r head) (\<lambda>_.
         rbind (ensure (has_key r ''commit_blob'' \<longrightarrow> fld r ''commit_blob'' = fld head_record ''commit_blob'') Untrusted) (\<lambda>_.
         take_record c t head w1)))
     else
       abind (fetch_signed env r w1) (\<lambda>(signed, w2).
       alift (rbind (verify_served_record C c t signed None) (\<lambda>v. rbind (record_matches r v) (\<lambda>_. take_record c t v w2))))))"

fun walk_records :: "crypto \<Rightarrow> relay_env \<Rightarrow> vps_config \<Rightarrow> trust \<Rightarrow> verified_commit \<Rightarrow> json \<Rightarrow> json list \<Rightarrow> walk_state \<Rightarrow> walk_state act" where
  "walk_records C env c t head head_record [] w = alift (Inr w)"
| "walk_records C env c t head head_record (r # rs) w =
     abind (walk_record C env c t head head_record r w) (walk_records C env c t head head_record rs)"

lemma take_record_D:
  assumes "take_record c t v w = Inr w'"
  shows "continues (wk_previous w) v" and "check_author c t v = Inr ()" and "wk_previous w' = Some v"
    and "wk_checkpoints w' = wk_checkpoints w @ [checkpoint_of v]" and "wk_authors w' = wk_authors w @ [(vc_author v, vc_sequence v)]"
    and "wk_after w' = vc_sequence v"
  using assms by (auto simp: take_record_def rbind_ok ensure_ok)

lemma record_matches_D: "record_matches r v = Inr u \<Longrightarrow> fld r ''sequence'' = JInt (vc_sequence v) \<and> fld r ''commit_id'' = JStr (vc_id v)"
  by (simp add: record_matches_def ensure_ok)

text \<open>What a record that is taken is: the head itself, or a commit that its trusted author signed.\<close>

definition same_walk :: "walk_state \<Rightarrow> walk_state \<Rightarrow> bool" where
  "same_walk w w' \<longleftrightarrow> wk_previous w' = wk_previous w \<and> wk_checkpoints w' = wk_checkpoints w \<and> wk_ids w' = wk_ids w
     \<and> wk_authors w' = wk_authors w \<and> wk_after w' = wk_after w"

lemma fetch_signed_D: "fetch_signed env r w n = (Inr (x, w'), n') \<Longrightarrow> same_walk w w'"
  by (auto simp: fetch_signed_def act_ok same_walk_def split: if_splits option.splits)

lemma walk_record_D:
  assumes "walk_record C env c t head hr r w n = (Inr w', n')"
  obtains v w2 where "take_record c t v w2 = Inr w'" and "wk_previous w2 = wk_previous w" and "wk_checkpoints w2 = wk_checkpoints w"
    and "wk_authors w2 = wk_authors w" and "vc_sequence v = wk_after w + 1" and "vc_sequence v \<le> vc_sequence head"
    and "v = head \<or> (\<exists>signed. verify_served_record C c t signed None = Inr v)"
    and "vc_sequence v = vc_sequence head \<Longrightarrow> v = head"
proof -
  let ?w1 = "w\<lparr>wk_ids := text_of (fld r ''commit_id'') # wk_ids w\<rparr>"
  from assms have nx: "next_record head w r = Inr ()" by (auto simp: walk_record_def act_ok Let_def)
  then have s: "fld r ''sequence'' = JInt (wk_after w + 1)" "wk_after w + 1 \<le> vc_sequence head"
    by (auto simp: next_record_def ensure_ok)
  show ?thesis
  proof (cases "wk_after w + 1 = vc_sequence head")
    case True
    with assms have "record_matches r head = Inr ()" "take_record c t head ?w1 = Inr w'"
      by (auto simp: walk_record_def act_ok Let_def)
    with True show ?thesis by (intro that [of head ?w1]) simp_all
  next
    case False
    with assms obtain signed w2 v n1 n2 where f: "fetch_signed env r ?w1 n1 = (Inr (signed, w2), n2)"
      and v: "verify_served_record C c t signed None = Inr v" "record_matches r v = Inr ()" "take_record c t v w2 = Inr w'"
      by (auto simp: walk_record_def act_ok Let_def)
    have "vc_sequence v = wk_after w + 1" using record_matches_D [OF v(2)] s(1) by simp
    moreover have "wk_previous w2 = wk_previous w" "wk_checkpoints w2 = wk_checkpoints w" "wk_authors w2 = wk_authors w"
      using fetch_signed_D [OF f] by (simp_all add: same_walk_def)
    ultimately show ?thesis using v s(2) False by (intro that [of v w2]) auto
  qed
qed

lemma walk_records_after: "walk_records C env c t head hr rs w n = (Inr w', n') \<Longrightarrow> wk_after w' = wk_after w + int (length rs)"
proof (induction rs arbitrary: w n)
  case (Cons r rs)
  then obtain w1 n1 where w1: "walk_record C env c t head hr r w n = (Inr w1, n1)" "walk_records C env c t head hr rs w1 n1 = (Inr w', n')"
    by (auto simp: abind_ok)
  from w1(1) obtain v w2 where "take_record c t v w2 = Inr w1" "vc_sequence v = wk_after w + 1" by (rule walk_record_D)
  with take_record_D(6) Cons.IH [OF w1(2)] show ?case by fastforce
qed (simp add: alift_ok)

lemma read_page_D: "read_page env h w n = (Inr (rs, w'), n') \<Longrightarrow> rs \<noteq> [] \<and> same_walk w w'"
  by (auto simp: read_page_def act_ok same_walk_def split: if_splits option.splits)

end
