(* ===== verification/Trust_Head.thy ===== *)
theory Trust_Head
  imports Trust_History
begin

text \<open>
  Verifying the head that a relay advertises, with its whole history and its snapshot, and storing
  it as the new anchor (\<open>VpsSyncEngine\<close>: \<open>_verify_advertised_head\<close>, \<open>_verified_head\<close>,
  \<open>require_checkpoint\<close>, \<open>refresh_trust_anchor\<close>). The theorems hold for every relay and every clock.
\<close>

section \<open>All pages\<close>

text \<open>Every page advances the walk by its records, so the loop ends at the head.\<close>

function walk_pages :: "crypto \<Rightarrow> relay_env \<Rightarrow> vps_config \<Rightarrow> trust \<Rightarrow> verified_commit \<Rightarrow> json \<Rightarrow> string \<Rightarrow> walk_state \<Rightarrow> walk_state act" where
  "walk_pages C env c t head head_record head_id w n =
     (if wk_after w < vc_sequence head then
        (case read_page env head_id w n of
           (Inl e, n1) \<Rightarrow> (Inl e, n1)
         | (Inr (rs, w1), n1) \<Rightarrow>
             (case walk_records C env c t head head_record rs w1 n1 of
                (Inl e, n2) \<Rightarrow> (Inl e, n2)
              | (Inr w2, n2) \<Rightarrow> walk_pages C env c t head head_record head_id w2 n2))
      else (Inr w, n))"
  by pat_completeness auto
termination
  by (relation "measure (\<lambda>(_, _, _, _, head, _, _, w, _). nat (vc_sequence head - wk_after w))")
    (auto simp: same_walk_def dest!: read_page_D [OF sym] walk_records_after [OF sym])

declare walk_pages.simps [simp del]

section \<open>The advertised head\<close>

text \<open>The snapshot of the head is opened and validated last. A \<open>TypeError\<close> of the validation escapes.\<close>

definition open_payload :: "crypto \<Rightarrow> vps_config \<Rightarrow> string \<Rightarrow> string \<Rightarrow> terr + json" where
  "open_payload C c vault_key snapshot =
     rbind (map_err (\<lambda>_. Untrusted) (open_vault_snapshot C snapshot vault_key (cf_vault c))) (\<lambda>b.
     rbind (ensure (valid_utf8 b) Untrusted) (\<lambda>_.
     rbind (map_err (\<lambda>_. Untrusted) (loads request_cfg b)) (\<lambda>p.
     rbind (ensure (exact_keys [''schema_version'', ''entries'', ''tombstones''] p \<and> is_int (fld p ''schema_version'')) Untrusted) (\<lambda>_.
     rbind (map_err (\<lambda>e. if e = Type_err \<or> e = Key_err then Type_or_value else Untrusted) (validate_snapshot_payload p)) (\<lambda>_.
     Inr p)))))"

record verified_state =
  vs_head :: "verified_commit option"
  vs_payload :: json
  vs_session :: session
  vs_trust :: trust

definition session_of :: "trust \<Rightarrow> (int \<times> string \<times> string) list \<Rightarrow> (string \<times> int) list \<Rightarrow> session" where
  "session_of t cps authors = \<lparr>se_checkpoints = cps, se_authors = authors, se_revocations = tr_records t\<rparr>"

definition empty_history :: "vps_config \<Rightarrow> trust \<Rightarrow> verified_commit option \<Rightarrow> json \<Rightarrow> terr + verified_state" where
  "empty_history c t anchor advertised =
     rbind (ensure (fld advertised ''sequence'' = JNull \<and> fld advertised ''manifest_hash'' = JNull) Bad_reply) (\<lambda>_.
     rbind (ensure (anchor = None) Untrusted) (\<lambda>_.
     rbind (require_checkpoints c t []) (\<lambda>_.
     Inr \<lparr>vs_head = None, vs_payload = JNull, vs_session = session_of t [] [], vs_trust = t\<rparr>)))"

definition served_head :: "crypto \<Rightarrow> vps_config \<Rightarrow> trust \<Rightarrow> json \<Rightarrow> string \<Rightarrow> json \<Rightarrow> terr + verified_commit \<times> string" where
  "served_head C c t advertised head_id r =
     rbind (ensure (is_obj r) Bad_reply) (\<lambda>_.
     rbind (wire_bytes MAX_SNAPSHOT_BLOB (fld r ''snapshot_ciphertext'')) (\<lambda>snapshot.
     rbind (verify_served_record C c t r (Some snapshot)) (\<lambda>head.
     rbind (ensure (fld advertised ''sequence'' = JInt (vc_sequence head)
        \<and> fld advertised ''manifest_hash'' = JStr (vc_manifest_hash head)) Untrusted) (\<lambda>_.
     rbind (ensure (vc_id head = head_id \<and> vc_sequence head \<le> 10000) Untrusted) (\<lambda>_.
     Inr (head, snapshot))))))"

definition verified_history ::
  "crypto \<Rightarrow> vps_config \<Rightarrow> trust \<Rightarrow> string \<Rightarrow> verified_commit option \<Rightarrow> verified_commit \<Rightarrow> string \<Rightarrow> walk_state \<Rightarrow> terr + verified_state" where
  "verified_history C c t vault_key anchor head snapshot w =
     rbind (ensure (case wk_previous w of None \<Rightarrow> False | Some p \<Rightarrow> vc_id p = vc_id head) Untrusted) (\<lambda>_.
     rbind (ensure (case anchor of None \<Rightarrow> True | Some a \<Rightarrow> checkpoint_of a \<in> set (wk_checkpoints w)) Untrusted) (\<lambda>_.
     rbind (require_checkpoints c t (wk_checkpoints w)) (\<lambda>_.
     rbind (open_payload C c vault_key snapshot) (\<lambda>payload.
     Inr \<lparr>vs_head = Some head, vs_payload = payload, vs_session = session_of t (wk_checkpoints w) (wk_authors w), vs_trust = t\<rparr>))))"

definition verify_advertised_head ::
  "crypto \<Rightarrow> relay_env \<Rightarrow> vps_config \<Rightarrow> string \<Rightarrow> string option \<Rightarrow> bool \<Rightarrow> verified_state act" where
  "verify_advertised_head C env c vault_key file allow_pending =
     abind (tick env) (\<lambda>_.
     abind (alift (read_state C c file)) (\<lambda>state.
     abind (alift (ensure (fld state ''pending_revoke'' = JNull \<or> allow_pending) Not_now)) (\<lambda>_.
     abind (alift (read_anchor C c state)) (\<lambda>anchor.
     abind (ask env Head) (\<lambda>advertised.
     abind (alift (head_id_of advertised)) (\<lambda>head_id.
     abind (tick env) (\<lambda>_.
     abind (ask env Devices) (\<lambda>devices.
     abind (alift (trusted_device_keys C c devices state allow_pending)) (\<lambda>t.
     abind (tick env) (\<lambda>_.
     (case head_id of
        None \<Rightarrow> alift (empty_history c t anchor advertised)
      | Some h \<Rightarrow>
          abind (ask env (Commit h True)) (\<lambda>head_record.
          abind (alift (served_head C c t advertised h head_record)) (\<lambda>(head, snapshot).
          abind (tick env) (\<lambda>_.
          abind (walk_pages C env c t head head_record h start_walk) (\<lambda>w.
          abind (alift (verified_history C c t vault_key anchor head snapshot w)) (\<lambda>v.
          abind (tick env) (\<lambda>_. alift (Inr v))))))))))))))))))"

text \<open>\<open>_verified_head\<close>: a head that moved meanwhile is verified anew, a bounded number of times.\<close>

fun verified_head ::
  "crypto \<Rightarrow> relay_env \<Rightarrow> vps_config \<Rightarrow> string \<Rightarrow> string option \<Rightarrow> bool \<Rightarrow> nat \<Rightarrow> verified_state act" where
  "verified_head C env c vault_key file allow_pending 0 n = (Inl Not_now, n)"
| "verified_head C env c vault_key file allow_pending (Suc retries) n =
     (case verify_advertised_head C env c vault_key file allow_pending n of
        (Inl Moved, n') \<Rightarrow> abind (tick env) (\<lambda>_. verified_head C env c vault_key file allow_pending retries) n'
      | r \<Rightarrow> r)"

section \<open>Operations on the head\<close>

text \<open>Each returns the head and what is written to the state file, if anything.\<close>

definition refresh_trust_anchor ::
  "crypto \<Rightarrow> relay_env \<Rightarrow> vps_config \<Rightarrow> string \<Rightarrow> string \<Rightarrow> nat \<Rightarrow> string option \<Rightarrow> (verified_commit option \<times> json option) act" where
  "refresh_trust_anchor C env c vault_key now retries file =
     abind (verified_head C env c vault_key file False retries) (\<lambda>v.
     abind (alift (write_state C c (vs_session v) now file (vs_head v) Keep_pending)) (\<lambda>w.
     alift (Inr (vs_head v, w))))"

text \<open>\<open>_remember_observed_revocations\<close>: the state is written when the relay showed other revocations than recorded.\<close>

definition remember_observed_revocations ::
  "crypto \<Rightarrow> vps_config \<Rightarrow> string \<Rightarrow> string option \<Rightarrow> verified_state \<Rightarrow> terr + json option" where
  "remember_observed_revocations C c now file v =
     rbind (read_state C c file) (\<lambda>state.
     if py_eq (JObj (members (fld state ''revocations''))) (JObj (tr_records (vs_trust v))) then Inr None
     else write_state C c (vs_session v) now file (vs_head v) Keep_pending)"

definition inspect_head ::
  "crypto \<Rightarrow> relay_env \<Rightarrow> vps_config \<Rightarrow> string \<Rightarrow> string \<Rightarrow> nat \<Rightarrow> string option \<Rightarrow> (verified_commit option \<times> json option) act" where
  "inspect_head C env c vault_key now retries file =
     abind (verified_head C env c vault_key file False retries) (\<lambda>v.
     abind (alift (remember_observed_revocations C c now file v)) (\<lambda>w.
     alift (Inr (vs_head v, w))))"

definition require_checkpoint ::
  "crypto \<Rightarrow> relay_env \<Rightarrow> vps_config \<Rightarrow> string \<Rightarrow> string \<Rightarrow> nat \<Rightarrow> string option \<Rightarrow> json \<Rightarrow> json \<Rightarrow> json
     \<Rightarrow> (verified_commit option \<times> json option) act" where
  "require_checkpoint C env c vault_key now retries file sequence cid hash =
     abind (alift (ensure (case sequence of JInt i \<Rightarrow> 0 \<le> i | _ \<Rightarrow> False) Untrusted)) (\<lambda>_.
     abind (alift (if sequence = JInt 0 then ensure (cid = JNull \<and> hash = JNull) Untrusted
                   else ensure (hash_json cid \<and> hash_json hash) Untrusted)) (\<lambda>_.
     abind (verified_head C env c vault_key file False retries) (\<lambda>v.
     abind (alift (ensure (sequence = JInt 0
         \<or> (int_of sequence, text_of cid, text_of hash) \<in> set (se_checkpoints (vs_session v))) Untrusted)) (\<lambda>_.
     abind (alift (remember_observed_revocations C c now file v)) (\<lambda>w.
     alift (Inr (vs_head v, w)))))))"

section \<open>What an accepted head is\<close>

text \<open>A commit of the chain: of this vault, signed with the key of a trusted author, who was admitted
  before it and not revoked before it.\<close>

definition trusted_commit :: "crypto \<Rightarrow> vps_config \<Rightarrow> trust \<Rightarrow> verified_commit \<Rightarrow> bool" where
  "trusted_commit C c t v \<longleftrightarrow> vc_vault v = cf_vault c \<and> check_author c t v = Inr ()
     \<and> (\<exists>key blob. map_of (tr_keys t) (vc_author v) = Some key \<and> signed_commit C key blob v) \<and> describes C v"

lemma served_record_trusted:
  assumes "verify_served_record C c t r snapshot = Inr v"
  shows "vc_vault v = cf_vault c \<and> (\<exists>key blob. map_of (tr_keys t) (vc_author v) = Some key \<and> signed_commit C key blob v) \<and> describes C v"
    and "\<And>b. snapshot = Some b \<Longrightarrow> vc_ciphertext v = sha256_hex C b"
proof -
  from assms obtain blob author key where k: "map_of (tr_keys t) author = Some key"
    and v: "verify_commit_signature C blob key snapshot (Some (cf_vault c)) (Some author) = Inr v"
    by (auto simp: verify_served_record_def rbind_ok ensure_ok map_err_ok Let_def split: option.splits)
  note d = verify_commit_signature_D [OF v]
  from d(1,2) d(4) [OF refl] d(5) [OF refl] k
  show "vc_vault v = cf_vault c \<and> (\<exists>key blob. map_of (tr_keys t) (vc_author v) = Some key \<and> signed_commit C key blob v) \<and> describes C v"
    by blast
  show "\<And>b. snapshot = Some b \<Longrightarrow> vc_ciphertext v = sha256_hex C b" using d(6) by blast
qed

definition walk_ok :: "crypto \<Rightarrow> vps_config \<Rightarrow> trust \<Rightarrow> verified_commit \<Rightarrow> walk_state \<Rightarrow> verified_commit list \<Rightarrow> bool" where
  "walk_ok C c t head w vs \<longleftrightarrow> commit_chain vs \<and> wk_previous w = last_of vs \<and> wk_after w = int (length vs)
     \<and> wk_checkpoints w = map checkpoint_of vs \<and> wk_authors w = map (\<lambda>v. (vc_author v, vc_sequence v)) vs
     \<and> (\<forall>v \<in> set vs. trusted_commit C c t v) \<and> (int (length vs) = vc_sequence head \<longrightarrow> last_of vs = Some head)"

lemma walk_ok_start: "1 \<le> vc_sequence head \<Longrightarrow> walk_ok C c t head start_walk []"
  by (simp add: walk_ok_def start_walk_def)

lemma walk_ok_same: "walk_ok C c t head w vs \<Longrightarrow> same_walk w w' \<Longrightarrow> walk_ok C c t head w' vs"
  by (simp add: walk_ok_def same_walk_def)

lemma walk_record_ok:
  assumes r: "walk_record C env c t head hr r w n = (Inr w', n')" and ok: "walk_ok C c t head w vs"
    and head: "vc_vault head = cf_vault c" "\<exists>key blob. map_of (tr_keys t) (vc_author head) = Some key \<and> signed_commit C key blob head"
      "describes C head"
  shows "\<exists>v. walk_ok C c t head w' (vs @ [v]) \<and> wk_after w' \<le> vc_sequence head"
  using r
proof (cases rule: walk_record_D)
  case (1 v w2)
  note d = take_record_D [OF 1(1)]
  have "trusted_commit C c t v"
    using 1(7) d(2) head served_record_trusted(1) unfolding trusted_commit_def by blast
  moreover have "continues (last_of vs) v" using d(1) 1(2) ok by (simp add: walk_ok_def)
  moreover have "vc_sequence v = int (length vs) + 1" using 1(5) ok by (simp add: walk_ok_def)
  ultimately have "walk_ok C c t head w' (vs @ [v])" using ok d 1(2-4,8) by (auto simp: walk_ok_def)
  with 1(6) d(6) show ?thesis by auto
qed

lemma walk_records_ok:
  assumes "walk_records C env c t head hr rs w n = (Inr w', n')" and "walk_ok C c t head w vs" and "wk_after w \<le> vc_sequence head"
    and head: "vc_vault head = cf_vault c" "\<exists>key blob. map_of (tr_keys t) (vc_author head) = Some key \<and> signed_commit C key blob head"
      "describes C head"
  shows "\<exists>vs'. walk_ok C c t head w' vs' \<and> wk_after w' \<le> vc_sequence head"
  using assms(1-3)
proof (induction rs arbitrary: w n vs)
  case (Cons r rs)
  then obtain w1 n1 where w1: "walk_record C env c t head hr r w n = (Inr w1, n1)" "walk_records C env c t head hr rs w1 n1 = (Inr w', n')"
    by (auto simp: abind_ok)
  from walk_record_ok [OF w1(1) Cons.prems(2) head] obtain v where "walk_ok C c t head w1 (vs @ [v])" "wk_after w1 \<le> vc_sequence head" by blast
  with Cons.IH [OF w1(2)] show ?case by blast
qed (auto simp: alift_ok)

definition head_trusted :: "crypto \<Rightarrow> vps_config \<Rightarrow> trust \<Rightarrow> verified_commit \<Rightarrow> bool" where
  "head_trusted C c t head \<longleftrightarrow> vc_vault head = cf_vault c
     \<and> (\<exists>key blob. map_of (tr_keys t) (vc_author head) = Some key \<and> signed_commit C key blob head) \<and> describes C head"

lemma walk_pages_ok:
  "walk_pages C env c t head hr hid w n = (Inr w', n') \<Longrightarrow> walk_ok C c t head w vs \<Longrightarrow> wk_after w \<le> vc_sequence head \<Longrightarrow>
     head_trusted C c t head \<Longrightarrow> \<exists>vs'. walk_ok C c t head w' vs' \<and> wk_after w' = vc_sequence head"
proof (induction C env c t head hr hid w n arbitrary: vs rule: walk_pages.induct)
  case (1 C env c t head hr hid w n)
  show ?case
  proof (cases "wk_after w < vc_sequence head")
    case True
    obtain p n1 where p: "read_page env hid w n = (p, n1)" by (cases "read_page env hid w n")
    with "1.prems"(1) True obtain rs w1 where p': "p = Inr (rs, w1)"
      by (subst (asm) walk_pages.simps) (auto split: sum.splits)
    obtain q n2 where q: "walk_records C env c t head hr rs w1 n1 = (q, n2)" by (cases "walk_records C env c t head hr rs w1 n1")
    with "1.prems"(1) True p p' obtain w2 where q': "q = Inr w2"
      by (subst (asm) walk_pages.simps) (auto split: sum.splits)
    have r: "walk_pages C env c t head hr hid w2 n2 = (Inr w', n')"
      using "1.prems"(1) True p p' q q' by (subst (asm) walk_pages.simps) simp
    have s: "same_walk w w1" using read_page_D p p' by blast
    note ok1 = walk_ok_same [OF "1.prems"(2) s]
    have le: "wk_after w1 \<le> vc_sequence head" using s "1.prems"(3) by (simp add: same_walk_def)
    obtain vs2 where "walk_ok C c t head w2 vs2" "wk_after w2 \<le> vc_sequence head"
      using walk_records_ok [OF q [unfolded q'] ok1 le] "1.prems"(4) unfolding head_trusted_def by blast
    with "1.IH" [OF True p [symmetric, unfolded p'] refl refl q [symmetric, unfolded q'] refl r] "1.prems"(4) show ?thesis by blast
  next
    case False
    with "1.prems" show ?thesis by (subst (asm) walk_pages.simps) (auto intro!: exI [of _ vs])
  qed
qed

text \<open>The head of a verified history: the last commit of a chain from genesis, all of it trusted, that contains
  the old anchor and every checkpoint of the statements, with a snapshot that opens.\<close>

definition history_verified :: "crypto \<Rightarrow> vps_config \<Rightarrow> string \<Rightarrow> verified_commit option \<Rightarrow> verified_state \<Rightarrow> bool" where
  "history_verified C c vault_key anchor v \<longleftrightarrow> trust_ok C c (vs_trust v)
     \<and> (\<exists>vs. commit_chain vs \<and> last_of vs = vs_head v \<and> length vs \<le> 10000 \<and> list_all (trusted_commit C c (vs_trust v)) vs
         \<and> se_checkpoints (vs_session v) = map checkpoint_of vs
         \<and> se_authors (vs_session v) = map (\<lambda>v. (vc_author v, vc_sequence v)) vs
         \<and> (case anchor of None \<Rightarrow> True | Some a \<Rightarrow> checkpoint_of a \<in> set (map checkpoint_of vs))
         \<and> require_checkpoints c (vs_trust v) (map checkpoint_of vs) = Inr ())
     \<and> (case vs_head v of None \<Rightarrow> True | Some h \<Rightarrow> (\<exists>snapshot. vc_ciphertext h = sha256_hex C snapshot
           \<and> open_payload C c vault_key snapshot = Inr (vs_payload v)))"

theorem verify_advertised_head_sound:
  assumes "verify_advertised_head C env c vault_key file allow n = (Inr v, n')"
  shows "\<exists>state anchor. read_state C c file = Inr state \<and> read_anchor C c state = Inr anchor \<and> history_verified C c vault_key anchor v"
proof -
  from assms obtain state anchor advertised head_id devices t n1 where
    st: "read_state C c file = Inr state" "read_anchor C c state = Inr anchor"
    and t: "trusted_device_keys C c devices state allow = Inr t"
    and rest: "(case head_id of None \<Rightarrow> alift (empty_history c t anchor advertised)
      | Some h \<Rightarrow>
          abind (ask env (Commit h True)) (\<lambda>head_record.
          abind (alift (served_head C c t advertised h head_record)) (\<lambda>(head, snapshot).
          abind (tick env) (\<lambda>_.
          abind (walk_pages C env c t head head_record h start_walk) (\<lambda>w.
          abind (alift (verified_history C c t vault_key anchor head snapshot w)) (\<lambda>v.
          abind (tick env) (\<lambda>_. alift (Inr v)))))))) n1 = (Inr v, n')"
    unfolding verify_advertised_head_def by (auto simp only: abind_ok alift_ok)
  note tok = trusted_device_keys_ok(1) [OF t]
  have "history_verified C c vault_key anchor v"
  proof (cases head_id)
    case None
    with rest have "empty_history c t anchor advertised = Inr v" by (simp add: alift_ok)
    with tok show ?thesis
      by (auto simp: empty_history_def rbind_ok ensure_ok history_verified_def session_of_def intro!: exI [of _ "[]"])
  next
    case (Some h)
    with rest obtain r head snapshot w n2 n3 where sh: "served_head C c t advertised h r = Inr (head, snapshot)"
      and w: "walk_pages C env c t head r h start_walk n2 = (Inr w, n3)"
      and vh: "verified_history C c t vault_key anchor head snapshot w = Inr v"
      by (auto simp: act_ok split: prod.splits)
    from sh have rec: "verify_served_record C c t r (Some snapshot) = Inr head" and le: "vc_sequence head \<le> 10000"
      by (auto simp: served_head_def rbind_ok ensure_ok)
    note hd = served_record_trusted [OF rec]
    have one: "1 \<le> vc_sequence head"
      using hd(1) by (auto simp: describes_def Let_def validate_manifest_ok)
    obtain vs where ok: "walk_ok C c t head w vs" "wk_after w = vc_sequence head"
      using walk_pages_ok [OF w walk_ok_start [OF one]] one hd(1) by (auto simp: start_walk_def head_trusted_def)
    then have l: "last_of vs = Some head" "int (length vs) = vc_sequence head" by (simp_all add: walk_ok_def)
    from vh obtain payload where v: "v = \<lparr>vs_head = Some head, vs_payload = payload, vs_session = session_of t (wk_checkpoints w) (wk_authors w), vs_trust = t\<rparr>"
      and p: "open_payload C c vault_key snapshot = Inr payload" and req: "require_checkpoints c t (wk_checkpoints w) = Inr ()"
      and an: "case anchor of None \<Rightarrow> True | Some a \<Rightarrow> checkpoint_of a \<in> set (wk_checkpoints w)"
      by (auto simp: verified_history_def rbind_ok ensure_ok)
    have "length vs \<le> 10000" using l(2) le by simp
    moreover have ck: "wk_checkpoints w = map checkpoint_of vs" using ok(1) by (simp add: walk_ok_def)
    have "case anchor of None \<Rightarrow> True | Some a \<Rightarrow> checkpoint_of a \<in> set (map checkpoint_of vs)" by (rule an [unfolded ck])
    ultimately show ?thesis using ok(1) l(1) tok v p req hd(2) [OF refl]
      by (auto simp: history_verified_def session_of_def walk_ok_def list_all_iff intro!: exI [of _ vs])
  qed
  with st show ?thesis by blast
qed

theorem verified_head_sound:
  "verified_head C env c vault_key file allow retries n = (Inr v, n') \<Longrightarrow>
     \<exists>state anchor. read_state C c file = Inr state \<and> read_anchor C c state = Inr anchor \<and> history_verified C c vault_key anchor v"
proof (induction retries arbitrary: n)
  case (Suc retries)
  obtain x n1 where x: "verify_advertised_head C env c vault_key file allow n = (x, n1)"
    by (cases "verify_advertised_head C env c vault_key file allow n")
  show ?case
  proof (cases x)
    case (Inl e)
    with Suc.prems x have "abind (tick env) (\<lambda>_. verified_head C env c vault_key file allow retries) n1 = (Inr v, n')"
      by (auto split: terr.splits)
    with Suc.IH show ?thesis by (auto simp: abind_ok)
  next
    case (Inr v')
    with Suc.prems x have "v' = v" "n1 = n'" by simp_all
    with x Inr verify_advertised_head_sound show ?thesis by blast
  qed
qed simp

text \<open>Refreshing moves the anchor forward along one chain: the new state's anchor is the verified head, and the
  commits of its chain are numbered without gaps, so the old anchor is one of its ancestors.\<close>

lemma stored_anchor:
  assumes w: "write_state C c se now file (Some h) change = Inr (Some st)"
  shows "\<exists>a. read_anchor C c st = Inr (Some a) \<and> checkpoint_of a = checkpoint_of h"
proof -
  obtain anchor where a: "read_anchor C c st = Inr anchor"
    using write_state_forward(2) [OF w] by (auto simp: check_state_def rbind_ok)
  have k: "has_key st ''commit_id''" using write_state_forward(3) [OF w] by simp
  obtain b where b: "anchor = Some b"
    using a k by (cases anchor) (auto simp: read_anchor_def ANCHOR_FIELDS_def rbind_ok Let_def split: if_splits)
  obtain records pending where st: "st = JObj (members (state_object records (Some h) pending) @ [(''last_sync_at'', JStr now)])"
    using w by (auto simp: write_state_def rbind_ok Let_def map_err_ok split: if_splits)
  have "fld st ''commit_id'' = JStr (vc_id h)" "fld st ''manifest_hash'' = JStr (vc_manifest_hash h)" "fld st ''sequence'' = JInt (vc_sequence h)"
    by (simp_all add: st state_object_def anchor_members_def fld_def)
  with read_anchor_D(4,5,6) [OF a [unfolded b]] have "checkpoint_of b = checkpoint_of h" by (simp add: checkpoint_of_def)
  with a b show ?thesis by blast
qed

theorem refresh_sound:
  assumes "refresh_trust_anchor C env c vault_key now retries file n = (Inr (Some h, Some st), n')"
  shows "\<exists>a. read_anchor C c st = Inr (Some a) \<and> checkpoint_of a = checkpoint_of h"
    and "\<exists>state anchor v. read_state C c file = Inr state \<and> read_anchor C c state = Inr anchor
      \<and> history_verified C c vault_key anchor v \<and> vs_head v = Some h
      \<and> kept_evidence (members (fld state ''revocations'')) (members (fld st ''revocations''))"
proof -
  from assms obtain v n1 where v: "verified_head C env c vault_key file False retries n = (Inr v, n1)"
    and w: "write_state C c (vs_session v) now file (vs_head v) Keep_pending = Inr (Some st)" and h: "vs_head v = Some h"
    by (auto simp: refresh_trust_anchor_def act_ok)
  show "\<exists>a. read_anchor C c st = Inr (Some a) \<and> checkpoint_of a = checkpoint_of h"
    by (rule stored_anchor [OF w [unfolded h]])
  from verified_head_sound [OF v] obtain state anchor where s: "read_state C c file = Inr state" "read_anchor C c state = Inr anchor"
    and hv: "history_verified C c vault_key anchor v" by blast
  from write_state_forward(1) [OF w] obtain old where "(case file of None \<Rightarrow> Inr (JObj []) | Some text \<Rightarrow> parse_state C c text) = Inr old"
    and k: "kept_evidence (members (fld old ''revocations'')) (members (fld st ''revocations''))" by blast
  with s(1) have "old = state" by (auto simp: read_state_def map_err_ok split: option.splits)
  with s hv h k show "\<exists>state anchor v. read_state C c file = Inr state \<and> read_anchor C c state = Inr anchor
      \<and> history_verified C c vault_key anchor v \<and> vs_head v = Some h
      \<and> kept_evidence (members (fld state ''revocations'')) (members (fld st ''revocations''))" by blast
qed

end
