(* ===== verification/Vault_Merge.thy ===== *)
theory Vault_Merge
  imports Entry_Proofs "HOL-Library.Product_Lexorder"
begin

text \<open>
  The merge of two vault snapshots (\<open>vault_snapshot.py\<close>): per identifier the latest edit or the
  latest deletion wins, names that collide are made unique, and no reference may silently change
  its target. The set of all identifiers is traversed in an order that Python leaves open: it is
  an argument here, and the theorems hold for every enumeration.

  Entries and tombstones are those of validated snapshots. Names and identifiers are ASCII, so
  slices of them are slices of bytes.
\<close>

section \<open>The order of edits\<close>

text \<open>\<open>json.dumps(..., sort_keys=True)\<close>: every code point outside the printable ASCII range is
  escaped, beyond 65535 as a surrogate pair.\<close>

definition hex_escape :: "nat \<Rightarrow> string" where
  "hex_escape n = [CHR 0x5C, CHR ''u'', hex_digit (n div 4096 mod 16), hex_digit (n div 256 mod 16), hex_digit (n div 16 mod 16), hex_digit (n mod 16)]"

definition ascii_escape :: "nat \<Rightarrow> string" where
  "ascii_escape n =
     (if n = 34 then [CHR 0x5C, CHR 0x22] else if n = 92 then [CHR 0x5C, CHR 0x5C]
      else if n = 8 then [CHR 0x5C, CHR ''b''] else if n = 12 then [CHR 0x5C, CHR ''f'']
      else if n = 10 then [CHR 0x5C, CHR ''n''] else if n = 13 then [CHR 0x5C, CHR ''r'']
      else if n = 9 then [CHR 0x5C, CHR ''t'']
      else if 32 \<le> n \<and> n < 127 then [char_of n]
      else if n < 65536 then hex_escape n
      else hex_escape (55296 + (n - 65536) div 1024) @ hex_escape (56320 + (n - 65536) mod 1024))"

definition ascii_quote :: "string \<Rightarrow> string" where
  "ascii_quote s = CHR 0x22 # concat (map ascii_escape (code_points s)) @ [CHR 0x22]"

fun ascii_dumps :: "json \<Rightarrow> string"
  and ascii_items :: "json list \<Rightarrow> string"
  and ascii_members :: "(string \<times> json) list \<Rightarrow> string" where
  "ascii_dumps JNull = ''null''"
| "ascii_dumps (JBool b) = (if b then ''true'' else ''false'')"
| "ascii_dumps (JInt i) = show_int i"
| "ascii_dumps (JFloat f) = f"
| "ascii_dumps (JStr s) = ascii_quote s"
| "ascii_dumps (JList l) = ''['' @ ascii_items l @ '']''"
| "ascii_dumps (JObj m) = ''{'' @ ascii_members m @ ''}''"
| "ascii_items [] = []"
| "ascii_items (x # xs) = ascii_dumps x @ (if xs = [] then [] else '', '' @ ascii_items xs)"
| "ascii_members [] = []"
| "ascii_members ((k, v) # m) = ascii_quote k @ '': '' @ ascii_dumps v @ (if m = [] then [] else '', '' @ ascii_members m)"

definition ascii_text :: "json \<Rightarrow> string" where
  "ascii_text v = ascii_dumps (sort_members v)"

definition updated_at :: "entry \<Rightarrow> string" where
  "updated_at e = text_of (e_updated e)"

definition merge_key :: "entry \<Rightarrow> string \<times> string" where
  "merge_key e = (updated_at e, ascii_text (entry_to_dict e))"

section \<open>Unique names\<close>

datatype merge_error = Bad_name verr | Exhausted | Rebound

definition last_part :: "string \<Rightarrow> string" where
  "last_part s = rev (takeWhile (\<lambda>c. c \<noteq> CHR '':'') (rev s))"

definition short_id :: "string \<Rightarrow> string" where
  "short_id i = (let s = take 6 (filter (\<lambda>c. c \<noteq> CHR ''-'') (last_part i)) in if s = [] then ''dup'' else s)"

definition suffix_name :: "string \<Rightarrow> string \<Rightarrow> string" where
  "suffix_name name i = take 56 name @ ''-'' @ short_id i"

definition numbered_name :: "string \<Rightarrow> string \<Rightarrow> nat \<Rightarrow> string" where
  "numbered_name name i n = (let suffix = ''-'' @ short_id i @ ''-'' @ show_nat n in take (64 - length suffix) name @ suffix)"

definition usable_name :: "string \<Rightarrow> merge_error + string" where
  "usable_name s = rbind (map_err Bad_name (validate_name (JStr s))) (\<lambda>_. Inr s)"

definition unique_suffix_name :: "string \<Rightarrow> string \<Rightarrow> string set \<Rightarrow> nat \<Rightarrow> merge_error + string" where
  "unique_suffix_name name i occupied live_count =
     (if suffix_name name i \<notin> occupied then usable_name (suffix_name name i)
      else case find (\<lambda>n. numbered_name name i n \<notin> occupied) [1..<live_count + 1] of
          None \<Rightarrow> Inl Exhausted
        | Some n \<Rightarrow> usable_name (numbered_name name i n))"

section \<open>One identifier\<close>

datatype side = Local | Remote

type_synonym live_set = "(string \<times> entry \<times> side) list"

definition latest_tombstone :: "tombstone option \<Rightarrow> tombstone option \<Rightarrow> tombstone option" where
  "latest_tombstone l r = (case (l, r) of
       (Some a, Some b) \<Rightarrow> Some (if ts_deleted b \<le> ts_deleted a then a else b)
     | (Some a, None) \<Rightarrow> Some a
     | (None, _) \<Rightarrow> r)"

definition live_winner :: "entry option \<Rightarrow> entry option \<Rightarrow> (entry \<times> side) option" where
  "live_winner l r = (case (l, r) of
       (None, None) \<Rightarrow> None
     | (None, Some b) \<Rightarrow> Some (b, Remote)
     | (Some a, None) \<Rightarrow> Some (a, Local)
     | (Some a, Some b) \<Rightarrow> Some (if merge_key a < merge_key b then (b, Remote) else (a, Local)))"

definition tombstone_name :: "tombstone \<Rightarrow> entry option \<Rightarrow> entry option \<Rightarrow> string" where
  "tombstone_name t l r = (if ts_name t \<noteq> [] then ts_name t
     else case l of Some e \<Rightarrow> e_name e | None \<Rightarrow> (case r of Some e \<Rightarrow> e_name e | None \<Rightarrow> []))"

definition resolve_entry_state ::
  "string \<Rightarrow> entry option \<Rightarrow> entry option \<Rightarrow> tombstone option \<Rightarrow> tombstone option \<Rightarrow> (entry \<times> side) option \<times> tombstone option" where
  "resolve_entry_state i l r lt rt =
     (let t = latest_tombstone lt rt; w = live_winner l r in
      if (case w of None \<Rightarrow> False | Some (e, _) \<Rightarrow> (case t of None \<Rightarrow> True | Some d \<Rightarrow> ts_deleted d < updated_at e))
      then (w, None)
      else (case t of None \<Rightarrow> (None, None)
            | Some d \<Rightarrow> (None, Some \<lparr>ts_id = i, ts_name = tombstone_name d l r, ts_deleted = ts_deleted d\<rparr>)))"

section \<open>Colliding names\<close>

definition replace_at :: "string \<Rightarrow> entry \<times> side \<Rightarrow> live_set \<Rightarrow> live_set" where
  "replace_at i x m = map (\<lambda>(k, y). (k, if k = i then x else y)) m"

text \<open>The identifiers that share a name, the latest edit first; equal keys keep their order.\<close>

definition name_group :: "live_set \<Rightarrow> string \<Rightarrow> string list" where
  "name_group m name = map fst (rev (sort_key (\<lambda>x. merge_key (fst (snd x))) (rev (filter (\<lambda>x. e_name (fst (snd x)) = name) m))))"

definition rename_loser :: "string \<Rightarrow> nat \<Rightarrow> string \<Rightarrow> string set \<times> live_set \<Rightarrow> merge_error + string set \<times> live_set" where
  "rename_loser name live_count i st = (case st of (occupied, m) \<Rightarrow>
     (case map_of m i of None \<Rightarrow> Inr st
      | Some (e, s) \<Rightarrow>
          rbind (unique_suffix_name name (e_id e) occupied live_count) (\<lambda>u.
          Inr (insert u occupied, replace_at i (e\<lparr>e_name := u\<rparr>, s) m))))"

definition rename_group :: "live_set \<Rightarrow> string \<Rightarrow> string set \<times> live_set \<Rightarrow> merge_error + string set \<times> live_set" where
  "rename_group m name st = rfold (rename_loser name (length m)) (tl (name_group m name)) st"

definition live_names :: "live_set \<Rightarrow> string list" where
  "live_names m = map (\<lambda>x. e_name (fst (snd x))) m"

definition disambiguate_live_names :: "live_set \<Rightarrow> merge_error + live_set" where
  "disambiguate_live_names m =
     rbind (rfold (rename_group m) (sort (remdups (live_names m))) (set (live_names m), m)) (\<lambda>(_, m'). Inr m')"

section \<open>References\<close>

text \<open>A dictionary comprehension keeps the last value of a repeated key.\<close>

definition by_id :: "entry list \<Rightarrow> string \<Rightarrow> entry option" where
  "by_id es = map_of (map (\<lambda>e. (e_id e, e)) (rev es))"

definition by_name :: "entry list \<Rightarrow> string \<Rightarrow> string option" where
  "by_name es = map_of (map (\<lambda>e. (e_name e, e_id e)) (rev es))"

definition tombs_by_id :: "tombstone list \<Rightarrow> string \<Rightarrow> tombstone option" where
  "tombs_by_id ts = map_of (map (\<lambda>t. (ts_id t, t)) (rev ts))"

definition target :: "(string \<Rightarrow> string option) \<Rightarrow> json \<Rightarrow> string option" where
  "target names r = (case fld r ''name'' of JStr n \<Rightarrow> names n | _ \<Rightarrow> None)"

text \<open>The peer has the entry with the same reference: its target there must be the merged one.\<close>

definition keeps_binding :: "(string \<Rightarrow> string option) \<Rightarrow> entry \<Rightarrow> json \<Rightarrow> entry list \<Rightarrow> bool" where
  "keeps_binding merged e r es = (case by_id es (e_id e) of None \<Rightarrow> True
     | Some old \<Rightarrow> (fld r ''role'', fld r ''name'') \<in> set (map (\<lambda>q. (fld q ''role'', fld q ''name'')) (e_refs old))
         \<longrightarrow> target (by_name es) r = target merged r)"

definition require_reference_bindings :: "live_set \<Rightarrow> entry list \<Rightarrow> entry list \<Rightarrow> merge_error + unit" where
  "require_reference_bindings m ls rs =
     (let merged = by_name (map (fst \<circ> snd) m) in
      each (\<lambda>x. each (\<lambda>r. ensure (list_all (keeps_binding merged (fst (snd x)) r) [ls, rs]) Rebound) (e_refs (fst (snd x)))) m)"

section \<open>The merge\<close>

record merge_result =
  mr_entries :: "entry list"
  mr_tombstones :: "tombstone list"
  mr_remote_wins :: "string list"
  mr_secret_deletes :: "string list"
  mr_changed :: bool

definition tombstone_to_dict :: "tombstone \<Rightarrow> json" where
  "tombstone_to_dict t = JObj [(''id'', JStr (ts_id t)), (''name'', JStr (ts_name t)), (''deleted_at'', JStr (ts_deleted t))]"

definition metadata_changed :: "entry list \<Rightarrow> tombstone list \<Rightarrow> entry list \<Rightarrow> tombstone list \<Rightarrow> bool" where
  "metadata_changed ls lts ms mts =
     (\<not> py_eq_items (map entry_to_dict ms) (map entry_to_dict (sort_key e_id ls)) \<or> mts \<noteq> sort_key ts_id lts)"

definition all_ids :: "entry list \<Rightarrow> tombstone list \<Rightarrow> entry list \<Rightarrow> tombstone list \<Rightarrow> string set" where
  "all_ids ls lts rs rts = set (map e_id ls) \<union> set (map e_id rs) \<union> set (map ts_id lts) \<union> set (map ts_id rts)"

definition resolved :: "entry list \<Rightarrow> tombstone list \<Rightarrow> entry list \<Rightarrow> tombstone list \<Rightarrow> string \<Rightarrow> (entry \<times> side) option \<times> tombstone option" where
  "resolved ls lts rs rts i = resolve_entry_state i (by_id ls i) (by_id rs i) (tombs_by_id lts i) (tombs_by_id rts i)"

definition live_entries :: "string list \<Rightarrow> entry list \<Rightarrow> tombstone list \<Rightarrow> entry list \<Rightarrow> tombstone list \<Rightarrow> live_set" where
  "live_entries ids ls lts rs rts = List.map_filter (\<lambda>i. map_option (Pair i) (fst (resolved ls lts rs rts i))) ids"

definition dead_entries :: "string list \<Rightarrow> entry list \<Rightarrow> tombstone list \<Rightarrow> entry list \<Rightarrow> tombstone list \<Rightarrow> tombstone list" where
  "dead_entries ids ls lts rs rts = List.map_filter (\<lambda>i. snd (resolved ls lts rs rts i)) ids"

definition merge_vaults ::
  "string list \<Rightarrow> entry list \<Rightarrow> tombstone list \<Rightarrow> entry list \<Rightarrow> tombstone list \<Rightarrow> merge_error + merge_result" where
  "merge_vaults ids ls lts rs rts =
     (let lv = live_entries ids ls lts rs rts; dead = dead_entries ids ls lts rs rts in
      rbind (disambiguate_live_names lv) (\<lambda>m.
      rbind (require_reference_bindings m ls rs) (\<lambda>_.
      let es = sort_key e_id (map (fst \<circ> snd) m); ts = sort_key ts_id dead in
      Inr \<lparr>mr_entries = es, mr_tombstones = ts,
           mr_remote_wins = map fst (filter (\<lambda>x. snd (snd x) = Remote) lv),
           mr_secret_deletes = filter (\<lambda>i. i \<in> set (map e_id ls)) (map ts_id dead),
           mr_changed = metadata_changed ls lts es ts\<rparr>)))"

end
