(* ===== verification/Merge_Names.thy ===== *)
theory Merge_Names
  imports Vault_Merge
begin

text \<open>
  The disambiguation of names always succeeds and makes the names of the live entries distinct:
  a free name is found by counting, because there are fewer occupied names than live entries
  while a loser remains.
\<close>

section \<open>A free name\<close>

lemma numbered_name_end:
  "takeWhile (\<lambda>c. c \<noteq> CHR ''-'') (rev (numbered_name name i n)) = rev (show_nat n)"
proof -
  have "\<forall>c \<in> set (show_nat n). c \<noteq> CHR ''-''" using show_nat_digits [of n] digit_not_minus by auto
  then have "takeWhile (\<lambda>c. c \<noteq> CHR ''-'') (rev (show_nat n) @ CHR ''-'' # r) = rev (show_nat n)" for r
    by (subst takeWhile_append2) auto
  then show ?thesis by (simp add: numbered_name_def Let_def)
qed

lemma numbered_name_inject: "numbered_name name i m = numbered_name name i n \<Longrightarrow> m = n"
  using numbered_name_end [of name i m] numbered_name_end [of name i n] by (metis dec_nat_show_nat rev_rev_ident)

lemma free_number:
  assumes "finite occ" and "card occ < n"
  shows "\<exists>k. find (\<lambda>k. numbered_name name i k \<notin> occ) [1..<n + 1] = Some k"
proof (rule ccontr)
  assume "\<not> ?thesis"
  then have "find (\<lambda>k. numbered_name name i k \<notin> occ) [1..<n + 1] = None" by simp
  then have "numbered_name name i ` set [1..<n + 1] \<subseteq> occ" by (auto simp: find_None_iff)
  then have "card (numbered_name name i ` set [1..<n + 1]) \<le> card occ" by (rule card_mono [OF assms(1)])
  moreover have "inj_on (numbered_name name i) (set [1..<n + 1])" by (rule inj_onI) (rule numbered_name_inject)
  ultimately have "card (set [1..<n + 1]) \<le> card occ" by (simp only: card_image)
  then have "n \<le> card occ" by (simp only: distinct_card [OF distinct_upt] length_upt)
  with assms(2) show False by simp
qed

definition good_name :: "string \<Rightarrow> bool" where
  "good_name s \<longleftrightarrow> 2 \<le> pylen s \<and> pylen s \<le> 64 \<and> name_pattern s"

lemma low_alnum_ascii: "low_alnum c \<Longrightarrow> byte c < 128" "low_alnum c \<Longrightarrow> name_char c"
  by (auto simp: low_alnum_def is_lower_def is_digit_def name_char_def)

lemma name_all_chars: "name_pattern s \<Longrightarrow> list_all name_char s"
  using name_pattern_chars by (simp add: list_all_iff)

text \<open>A cut name with a suffix that ends in an alphanumeric character is a name.\<close>

lemma suffixed_name:
  assumes n: "name_pattern name" and k: "1 \<le> k" and q: "list_all name_char q" and l: "low_alnum c" and len: "k + length q \<le> 63"
  shows "good_name (take k name @ q @ [c])"
proof -
  obtain a r where s: "name = a # r" "low_alnum a" using n by (auto simp: name_pattern_def split: list.splits)
  obtain j where j: "k = Suc j" using k by (cases k) auto
  have t: "take k name = a # take j r" by (simp add: s j)
  have ch: "list_all name_char (take j r)" using name_all_chars [OF n] by (auto simp: s list_all_iff dest: in_set_takeD)
  have p: "name_pattern (take k name @ q @ [c])"
    using s(2) l ch q by (auto simp: name_pattern_def t butlast_append)
  have "pylen (take k name @ q @ [c]) = len (take k name @ q @ [c])"
    by (rule pylen_ascii) (use ch q l s(2) in \<open>auto simp: t list_all_iff dest: name_char_ascii low_alnum_ascii(1)\<close>)
  then have "pylen (take k name @ q @ [c]) = int (length (take k name)) + int (length q) + 1" by (simp add: len_length)
  moreover have "1 \<le> length (take k name)" "length (take k name) \<le> k" by (simp_all add: t) (simp add: j)
  ultimately have "2 \<le> pylen (take k name @ q @ [c])" "pylen (take k name @ q @ [c]) \<le> 64"
    using len by linarith+
  with p show ?thesis by (simp add: good_name_def)
qed

text \<open>The suffix of an identifier.\<close>

definition entry_id_ok :: "string \<Rightarrow> bool" where
  "entry_id_ok i \<longleftrightarrow> (\<exists>u. i = ''kk:'' @ u \<and> is_uuid4 u)"

lemma shape_chars:
  "shape_ok p s \<Longrightarrow> list_all (\<lambda>c. c = CHR ''-'' \<or> c = CHR ''4'' \<or> c = CHR ''h'' \<or> c = CHR ''v'') p \<Longrightarrow>
     list_all (\<lambda>c. c = CHR ''-'' \<or> is_hex c) s"
proof (induction p s rule: shape_ok.induct)
  case (2 p ps c cs)
  then show ?case by (auto simp: is_hex_def is_digit_def byte_def split: if_splits)
qed simp_all

lemma uuid_chars:
  assumes "is_uuid4 u"
  shows "list_all (\<lambda>c. c = CHR ''-'' \<or> is_hex c) u" and "\<exists>a r. u = a # r \<and> is_hex a"
proof -
  show "list_all (\<lambda>c. c = CHR ''-'' \<or> is_hex c) u"
    by (rule shape_chars [OF assms [unfolded is_uuid4_def]]) simp
  show "\<exists>a r. u = a # r \<and> is_hex a" using assms unfolding is_uuid4_def by (cases u) auto
qed

lemma is_hex_facts: "is_hex c \<Longrightarrow> low_alnum c" "is_hex c \<Longrightarrow> c \<noteq> CHR '':''" "is_hex c \<Longrightarrow> c \<noteq> CHR ''-''"
  by (auto simp: is_hex_def is_digit_def low_alnum_def is_lower_def byte_def)

lemma short_id_ok:
  assumes "entry_id_ok i"
  shows "\<exists>q c. short_id i = q @ [c] \<and> list_all name_char q \<and> low_alnum c \<and> length q \<le> 5"
proof -
  obtain u where u: "i = ''kk:'' @ u" "is_uuid4 u" using assms by (auto simp: entry_id_ok_def)
  note ch = uuid_chars [OF u(2)]
  obtain a r where ar: "u = a # r" "is_hex a" using ch(2) by blast
  have "\<forall>c \<in> set u. c \<noteq> CHR '':''" using ch(1) is_hex_facts(2) by (auto simp: list_all_iff)
  then have "takeWhile (\<lambda>c. c \<noteq> CHR '':'') (rev u @ CHR '':'' # t) = rev u" for t
    by (subst takeWhile_append2) auto
  then have "last_part i = u" by (simp add: last_part_def u(1))
  moreover have "filter (\<lambda>c. c \<noteq> CHR ''-'') u = a # filter (\<lambda>c. c \<noteq> CHR ''-'') r" using ar is_hex_facts(3) by simp
  ultimately have s: "short_id i = a # take 5 (filter (\<lambda>c. c \<noteq> CHR ''-'') r)" by (simp add: short_id_def)
  have al: "list_all low_alnum (short_id i)"
  proof -
    have "\<forall>c \<in> set u. c \<noteq> CHR ''-'' \<longrightarrow> low_alnum c" using ch(1) is_hex_facts(1) by (auto simp: list_all_iff)
    then have "low_alnum a" "\<forall>c \<in> set (filter (\<lambda>c. c \<noteq> CHR ''-'') r). low_alnum c" using ar is_hex_facts(1) by auto
    then show ?thesis unfolding s using in_set_takeD by (fastforce simp: list_all_iff simp del: set_filter)
  qed
  have ne: "short_id i = butlast (short_id i) @ [last (short_id i)]" by (simp add: s)
  have "low_alnum (last (short_id i))" using al s by (simp add: list_all_iff)
  moreover have "list_all name_char (butlast (short_id i))" using al low_alnum_ascii(2) by (auto simp: list_all_iff dest: in_set_butlastD)
  moreover have "length (butlast (short_id i)) \<le> 5" by (simp add: s)
  ultimately show ?thesis using ne by blast
qed

lemma suffix_name_good:
  assumes "name_pattern name" and "entry_id_ok i"
  shows "good_name (suffix_name name i)"
proof -
  obtain q c where q: "short_id i = q @ [c]" "list_all name_char q" "low_alnum c" "length q \<le> 5" using short_id_ok [OF assms(2)] by blast
  have "good_name (take 56 name @ (CHR ''-'' # q) @ [c])"
    by (rule suffixed_name [OF assms(1)]) (use q in \<open>simp_all add: name_char_def\<close>)
  then show ?thesis by (simp add: suffix_name_def q(1))
qed

lemma digits_length: "n < 10 ^ k \<Longrightarrow> 0 < k \<Longrightarrow> length (show_nat n) \<le> k"
proof (induction k arbitrary: n)
  case (Suc k)
  show ?case
  proof (cases "n < 10")
    case False
    then have "k \<noteq> 0" using Suc.prems(1) by (intro notI) simp
    moreover have "n div 10 < 10 ^ k" using Suc.prems(1) by (simp add: div_less_iff_less_mult)
    ultimately have "length (show_nat (n div 10)) \<le> k" using Suc.IH by simp
    with False show ?thesis by (subst show_nat.simps) simp
  qed (subst show_nat.simps, simp)
qed simp

lemma show_nat_last: "\<exists>q c. show_nat n = q @ [c] \<and> list_all name_char q \<and> low_alnum c"
proof -
  have d: "is_digit x \<Longrightarrow> low_alnum x" "is_digit x \<Longrightarrow> name_char x" for x by (simp_all add: low_alnum_def name_char_def)
  have "show_nat n = butlast (show_nat n) @ [last (show_nat n)]" using show_nat_ne by simp
  moreover have "low_alnum (last (show_nat n))" using show_nat_digits show_nat_ne d(1) by (metis last_in_set)
  moreover have "list_all name_char (butlast (show_nat n))" using show_nat_digits d(2) by (auto simp: list_all_iff dest: in_set_butlastD)
  ultimately show ?thesis by blast
qed

lemma numbered_name_good:
  assumes "name_pattern name" and "entry_id_ok i" and "n < 10 ^ 50"
  shows "good_name (numbered_name name i n)"
proof -
  obtain q c where q: "short_id i = q @ [c]" "list_all name_char q" "low_alnum c" "length q \<le> 5" using short_id_ok [OF assms(2)] by blast
  obtain d x where d: "show_nat n = d @ [x]" "list_all name_char d" "low_alnum x" using show_nat_last by blast
  have l: "length (show_nat n) \<le> 50" by (rule digits_length [OF assms(3)]) simp
  let ?k = "64 - length (''-'' @ short_id i @ ''-'' @ show_nat n)"
  have "good_name (take ?k name @ (CHR ''-'' # short_id i @ CHR ''-'' # d) @ [x])"
  proof (rule suffixed_name [OF assms(1)])
    show "1 \<le> ?k" "?k + length (CHR ''-'' # short_id i @ CHR ''-'' # d) \<le> 63" using l q(4) by (simp_all add: q(1) d(1))
    show "list_all name_char (CHR ''-'' # short_id i @ CHR ''-'' # d)"
      using q(2) d(2) low_alnum_ascii(2) [OF q(3)] by (simp add: q(1) name_char_def)
  qed (rule d(3))
  then show ?thesis by (simp add: numbered_name_def Let_def d(1))
qed

lemma usable_good: "good_name s \<Longrightarrow> usable_name s = Inr s"
  by (simp add: usable_name_def good_name_def validate_name_def)

text \<open>The search for a free name never gives up, and what it finds is a name that is not occupied.\<close>

lemma unique_suffix_name_total:
  assumes "name_pattern name" and "entry_id_ok i" and "finite occ" and "card occ < n" and "n < 10 ^ 50"
  shows "\<exists>u. unique_suffix_name name i occ n = Inr u \<and> u \<notin> occ \<and> good_name u"
proof (cases "suffix_name name i \<in> occ")
  case True
  obtain k where k: "find (\<lambda>k. numbered_name name i k \<notin> occ) [1..<n + 1] = Some k"
    using free_number [OF assms(3,4)] by blast
  then have "k \<in> set [1..<n + 1]" "numbered_name name i k \<notin> occ" using find_SomeD [OF k] by simp_all
  moreover have "k < 10 ^ 50" using calculation(1) assms(5) by (simp only: set_upt atLeastLessThan_iff) linarith
  moreover have "good_name (numbered_name name i k)" by (rule numbered_name_good [OF assms(1,2) calculation(3)])
  ultimately show ?thesis using True k by (simp add: unique_suffix_name_def usable_good)
next
  case False
  with suffix_name_good [OF assms(1,2)] show ?thesis by (simp add: unique_suffix_name_def usable_good)
qed

section \<open>Renaming the losers\<close>

definition assign :: "(string \<times> string) list \<Rightarrow> live_set \<Rightarrow> live_set" where
  "assign kv m = map (\<lambda>(k, e, s). (k, (case map_of kv k of None \<Rightarrow> e | Some u \<Rightarrow> e\<lparr>e_name := u\<rparr>), s)) m"

definition losers :: "live_set \<Rightarrow> (string \<times> string) list" where
  "losers m = concat (map (\<lambda>n. map (Pair n) (tl (name_group m n))) (sort (remdups (live_names m))))"

lemma rfold_map: "rfold f (map g xs) s = rfold (f \<circ> g) xs s"
  by (induction xs arbitrary: s) (simp_all add: rbind_def split: sum.split)

lemma rfold_groups:
  "rfold (\<lambda>n. rfold (f n) (g n)) ns s = rfold (\<lambda>(n, i). f n i) (concat (map (\<lambda>n. map (Pair n) (g n)) ns)) s"
proof (induction ns arbitrary: s)
  case (Cons n ns)
  have "rfold (\<lambda>(n, i). f n i) (map (Pair n) (g n)) s = rfold (f n) (g n) s" by (simp add: rfold_map comp_def)
  moreover have "rfold (\<lambda>n. rfold (f n) (g n)) ns = rfold (\<lambda>(n, i). f n i) (concat (map (\<lambda>n. map (Pair n) (g n)) ns))"
    using Cons.IH by (rule ext)
  ultimately show ?case by (simp add: rfold_append)
qed simp

lemma disambiguate_losers:
  "disambiguate_live_names m =
     rbind (rfold (\<lambda>(n, i). rename_loser n (length m) i) (losers m) (set (live_names m), m)) (\<lambda>(_, m'). Inr m')"
  by (simp add: disambiguate_live_names_def losers_def rfold_groups [symmetric] rename_group_def [abs_def])

lemma assign_Nil [simp]: "assign [] m = m"
  by (simp add: assign_def case_prod_beta)

lemma assign_keys [simp]: "map fst (assign kv m) = map fst m"
  by (simp add: assign_def case_prod_beta comp_def)

lemma assign_replace:
  assumes "distinct (map fst m)" and "map_of m i = Some (e, s)" and "i \<notin> set (map fst kv)"
  shows "assign kv (replace_at i (e\<lparr>e_name := u\<rparr>, s) m) = assign ((i, u) # kv) m"
proof -
  have "map_of kv i = None" using assms(3) by (simp add: map_of_eq_None_iff)
  moreover have "y = (e, s)" if "(i, y) \<in> set m" for y using that assms(1,2) by (simp add: map_of_eq_Some_iff)
  ultimately show ?thesis by (auto simp: assign_def replace_at_def)
qed

lemma map_of_replace_at:
  "map_of (replace_at i x m) k = (if k = i then map_option (\<lambda>_. x) (map_of m i) else map_of m k)"
  by (induction m) (auto simp: replace_at_def)

lemma replace_at_keys [simp]: "map fst (replace_at i x m) = map fst m"
  by (simp add: replace_at_def case_prod_beta comp_def)

text \<open>The new names depend on the losers and the occupied names only.\<close>

fun fresh_names :: "nat \<Rightarrow> (string \<times> string) list \<Rightarrow> string set \<Rightarrow> string list \<Rightarrow> bool" where
  "fresh_names n [] occ us = (us = [])"
| "fresh_names n ((nm, i) # ls) occ us =
     (case us of [] \<Rightarrow> False | u # us' \<Rightarrow> unique_suffix_name nm i occ n = Inr u \<and> fresh_names n ls (insert u occ) us')"

lemma fresh_names_unique: "fresh_names n ls occ us \<Longrightarrow> fresh_names n ls occ us' \<Longrightarrow> us = us'"
  by (induction n ls occ us arbitrary: us' rule: fresh_names.induct) (auto split: list.splits)

lemma rename_fold:
  "distinct (map snd ls) \<Longrightarrow> finite occ \<Longrightarrow> card occ + length ls \<le> n \<Longrightarrow> n < 10 ^ 50 \<Longrightarrow> distinct (map fst m) \<Longrightarrow>
   \<forall>(nm, i) \<in> set ls. name_pattern nm \<and> (\<exists>e s. map_of m i = Some (e, s) \<and> e_id e = i \<and> entry_id_ok i) \<Longrightarrow>
     \<exists>us. rfold (\<lambda>(nm, i). rename_loser nm n i) ls (occ, m) = Inr (occ \<union> set us, assign (zip (map snd ls) us) m)
       \<and> fresh_names n ls occ us \<and> length us = length ls \<and> distinct us \<and> set us \<inter> occ = {} \<and> list_all good_name us"
proof (induction ls arbitrary: occ m)
  case (Cons l ls)
  obtain nm i where l: "l = (nm, i)" by (cases l)
  obtain e s where e: "map_of m i = Some (e, s)" "entry_id_ok i" "name_pattern nm" "e_id e = i" using Cons.prems(6) l by auto
  have "card occ < n" using Cons.prems(3) by simp
  from unique_suffix_name_total [OF e(3,2) Cons.prems(2) this Cons.prems(4)] obtain u where
    u: "unique_suffix_name nm i occ n = Inr u" "u \<notin> occ" "good_name u" by blast
  let ?m = "replace_at i (e\<lparr>e_name := u\<rparr>, s) m"
  have step: "rename_loser nm n i (occ, m) = Inr (insert u occ, ?m)" using e(1,4) u(1) by (simp add: rename_loser_def)
  have i: "i \<notin> set (map snd ls)" using Cons.prems(1) l by simp
  have "\<exists>us. rfold (\<lambda>(nm, i). rename_loser nm n i) ls (insert u occ, ?m) = Inr (insert u occ \<union> set us, assign (zip (map snd ls) us) ?m)
       \<and> fresh_names n ls (insert u occ) us \<and> length us = length ls \<and> distinct us \<and> set us \<inter> insert u occ = {} \<and> list_all good_name us"
  proof (rule Cons.IH)
    show "distinct (map snd ls)" "finite (insert u occ)" "n < 10 ^ 50" "distinct (map fst ?m)" using Cons.prems by simp_all
    show "card (insert u occ) + length ls \<le> n" using Cons.prems(2,3) u(2) by simp
    show "\<forall>(nm, j) \<in> set ls. name_pattern nm \<and> (\<exists>e s. map_of ?m j = Some (e, s) \<and> e_id e = j \<and> entry_id_ok j)"
    proof (clarify)
      fix nm' j assume j: "(nm', j) \<in> set ls"
      then have "j \<noteq> i" using i by force
      with Cons.prems(6) j show "name_pattern nm' \<and> (\<exists>e s. map_of ?m j = Some (e, s) \<and> e_id e = j \<and> entry_id_ok j)"
        by (fastforce simp: map_of_replace_at)
    qed
  qed
  then obtain us where us: "rfold (\<lambda>(nm, i). rename_loser nm n i) ls (insert u occ, ?m) = Inr (insert u occ \<union> set us, assign (zip (map snd ls) us) ?m)"
    "length us = length ls" "distinct us" "set us \<inter> insert u occ = {}" "list_all good_name us" "fresh_names n ls (insert u occ) us" by blast
  have "i \<notin> set (map fst (zip (map snd ls) us))" using i us(2) by simp
  from assign_replace [OF Cons.prems(5) e(1) this] step us u l show ?case
    by (intro exI [of _ "u # us"]) auto
qed simp

section \<open>Who loses a name\<close>

lemma name_group_set: "set (name_group m n) = fst ` {x \<in> set m. e_name (fst (snd x)) = n}"
  by (auto simp: name_group_def)

lemma name_group_distinct: "distinct (map fst m) \<Longrightarrow> distinct (name_group m n)"
proof -
  assume d: "distinct (map fst m)"
  let ?g = "rev (sort_key (\<lambda>x. merge_key (fst (snd x))) (rev (filter (\<lambda>x. e_name (fst (snd x)) = n) m)))"
  have "mset (map fst ?g) = mset (map fst (filter (\<lambda>x. e_name (fst (snd x)) = n) m))" by (simp add: mset_map)
  then have "distinct (map fst ?g) = distinct (map fst (filter (\<lambda>x. e_name (fst (snd x)) = n) m))" by (rule mset_eq_imp_distinct_iff)
  with d show "distinct (name_group m n)" by (simp add: name_group_def distinct_map_filter)
qed

lemma name_group_length: "length (name_group m n) = length (filter (\<lambda>x. e_name (fst (snd x)) = n) m)"
  by (simp add: name_group_def)

lemma in_set_tl: "x \<in> set (tl xs) \<Longrightarrow> x \<in> set xs"
  by (cases xs) auto

lemma losers_in: "(n, i) \<in> set (losers m) \<longleftrightarrow> n \<in> set (live_names m) \<and> i \<in> set (tl (name_group m n))"
  by (auto simp: losers_def)

lemma in_group: "i \<in> set (name_group m n) \<longleftrightarrow> (\<exists>e s. (i, e, s) \<in> set m \<and> e_name e = n)"
  by (force simp: name_group_set)

lemma losers_map_of:
  assumes "distinct (map fst m)" and "(n, i) \<in> set (losers m)"
  shows "\<exists>e s. map_of m i = Some (e, s) \<and> e_name e = n"
proof -
  have "i \<in> set (name_group m n)" using assms(2) by (cases "name_group m n") (auto simp: losers_in)
  with assms(1) show ?thesis by (auto simp: in_group map_of_eq_Some_iff)
qed

lemma distinct_groups:
  "distinct ns \<Longrightarrow> (\<And>n. n \<in> set ns \<Longrightarrow> distinct (g n)) \<Longrightarrow> (\<And>n n' i. i \<in> set (g n) \<Longrightarrow> i \<in> set (g n') \<Longrightarrow> n = n') \<Longrightarrow>
     distinct (map snd (concat (map (\<lambda>n. map (Pair n) (g n)) ns)))"
proof (induction ns)
  case (Cons n ns)
  have "distinct (map snd (concat (map (\<lambda>n. map (Pair n) (g n)) ns)))" by (rule Cons.IH) (use Cons.prems in auto)
  moreover have "map snd (map (Pair n) (g n)) = g n" by (simp add: comp_def)
  moreover have "set (g n) \<inter> set (map snd (concat (map (\<lambda>n. map (Pair n) (g n)) ns))) = {}"
    using Cons.prems(1) Cons.prems(3) by fastforce
  ultimately show ?case using Cons.prems(2) [of n] by (simp del: map_map)
qed simp

lemma losers_distinct:
  assumes "distinct (map fst m)"
  shows "distinct (map snd (losers m))"
  unfolding losers_def
proof (rule distinct_groups)
  show "distinct (tl (name_group m n))" for n using name_group_distinct [OF assms] by (rule distinct_tl)
  show "n = n'" if "i \<in> set (tl (name_group m n))" "i \<in> set (tl (name_group m n'))" for n n' i
  proof -
    have "i \<in> set (name_group m n)" "i \<in> set (name_group m n')"
      using that by (auto dest: in_set_tl)
    then obtain e s e' s' where "(i, e, s) \<in> set m" "e_name e = n" "(i, e', s') \<in> set m" "e_name e' = n'" by (auto simp: in_group)
    moreover from this(1,3) assms have "(e, s) = (e', s')" by (blast dest: eq_key_imp_eq_value)
    ultimately show ?thesis by simp
  qed
qed simp

lemma groups_length:
  "sum_list (map (\<lambda>n. length (filter (\<lambda>x. f x = n) m)) (sort (remdups (map f m)))) = length m"
proof -
  have c: "length (filter (\<lambda>x. f x = n) m) = count (mset (map f m)) n" for n
    by (induction m) auto
  have "sum_list (map (count (mset (map f m))) (sort (remdups (map f m)))) = sum (count (mset (map f m))) (set (sort (remdups (map f m))))"
    by (rule sum_list_distinct_conv_sum_set) simp
  also have "\<dots> = size (mset (map f m))" by (simp add: size_multiset_overloaded_eq)
  finally show ?thesis by (simp add: c)
qed

lemma losers_count: "card (set (live_names m)) + length (losers m) = length m"
proof -
  let ?ns = "sort (remdups (live_names m))"
  have g: "name_group m n \<noteq> []" if n: "n \<in> set ?ns" for n
  proof -
    obtain x where "x \<in> set m" "e_name (fst (snd x)) = n" using n by (auto simp: live_names_def)
    then have "(fst x, fst (snd x), snd (snd x)) \<in> set m \<and> e_name (fst (snd x)) = n" by simp
    then obtain i e s where "(i, e, s) \<in> set m" "e_name e = n" by blast
    then have "i \<in> set (name_group m n)" by (auto simp: in_group)
    then show ?thesis by auto
  qed
  have "length (losers m) + length ?ns = sum_list (map (\<lambda>n. length (tl (name_group m n)) + 1) ?ns)"
    unfolding sum_list_addf by (simp add: losers_def length_concat comp_def sum_list_triv)
  also have "\<dots> = sum_list (map (\<lambda>n. length (name_group m n)) ?ns)"
    by (rule arg_cong [of _ _ sum_list], rule map_cong [OF refl]) (drule g, simp)
  also have "\<dots> = length m"
    using groups_length [of "\<lambda>x. e_name (fst (snd x))" m] by (simp add: name_group_length live_names_def)
  finally show ?thesis by (simp add: length_remdups_card_conv)
qed

lemma distinct_zip_values:
  "distinct us \<Longrightarrow> length ks = length us \<Longrightarrow> map_of (zip ks us) i = Some u \<Longrightarrow> map_of (zip ks us) j = Some u \<Longrightarrow> i = j"
proof (induction ks us rule: list_induct2')
  case (4 k ks u' us)
  then show ?case by (auto split: if_splits dest!: map_of_SomeD set_zip_rightD)
qed simp_all

text \<open>The renamed entries: distinct names, the winner of a name keeps it.\<close>

lemma assigned_names_distinct:
  assumes d: "distinct (map fst m)" and us: "length us = length (losers m)" "distinct us" "set us \<inter> set (live_names m) = {}"
  shows "distinct (live_names (assign (zip (map snd (losers m)) us) m))"
proof -
  let ?kv = "zip (map snd (losers m)) us"
  define nm where "nm = (\<lambda>(k, e :: entry, s :: side). case map_of ?kv k of None \<Rightarrow> e_name e | Some u \<Rightarrow> u)"
  have names: "live_names (assign ?kv m) = map nm m"
    by (auto simp: live_names_def assign_def nm_def split: option.split)
  have inus: "map_of ?kv k = Some u \<Longrightarrow> u \<in> set us" for k u by (auto dest!: map_of_SomeD set_zip_rightD)
  have nl: "k \<notin> set (map snd (losers m))" if "map_of ?kv k = None" for k
    using that us(1) map_fst_zip [of "map snd (losers m)" us] by (simp add: map_of_eq_None_iff) (metis image_set map_fst_zip length_map)
  have "inj_on nm (set m)"
  proof (rule inj_onI)
    fix x y assume xy: "x \<in> set m" "y \<in> set m" "nm x = nm y"
    obtain i e s where x: "x = (i, e, s)" by (cases x)
    obtain j e' s' where y: "y = (j, e', s')" by (cases y)
    have live: "e_name e \<in> set (live_names m)" "e_name e' \<in> set (live_names m)" using xy x y by (force simp: live_names_def)+
    have "i = j"
    proof (cases "map_of ?kv i")
      case None
      show ?thesis
      proof (cases "map_of ?kv j")
        case None': None
        from None None' xy(3) x y have eq: "e_name e = e_name e'" by (simp add: nm_def)
        have g: "i \<in> set (name_group m (e_name e))" "j \<in> set (name_group m (e_name e))"
          using xy(1,2) x y eq by (auto simp: in_group)
        have "(e_name e, i) \<notin> set (losers m)" "(e_name e, j) \<notin> set (losers m)"
          using nl [OF None] nl [OF None'] by (auto simp: image_iff)
        with live have "i \<notin> set (tl (name_group m (e_name e)))" "j \<notin> set (tl (name_group m (e_name e)))"
          by (simp_all add: losers_in)
        with g show ?thesis by (cases "name_group m (e_name e)") auto
      next
        case (Some u)
        with None xy(3) x y have "u = e_name e" by (simp add: nm_def)
        with inus [OF Some] live us(3) show ?thesis by blast
      qed
    next
      case (Some u)
      show ?thesis
      proof (cases "map_of ?kv j")
        case None
        with Some xy(3) x y have "u = e_name e'" by (simp add: nm_def)
        with inus [OF Some] live us(3) show ?thesis by blast
      next
        case (Some u')
        with \<open>map_of ?kv i = Some u\<close> xy(3) x y have "u' = u" by (simp add: nm_def)
        with Some \<open>map_of ?kv i = Some u\<close> us show ?thesis by (intro distinct_zip_values [of us "map snd (losers m)"]) simp_all
      qed
    qed
    with xy x y d show "x = y" by (auto dest: eq_key_imp_eq_value)
  qed
  with d show ?thesis unfolding names by (simp add: distinct_map)
qed

definition names_ok :: "live_set \<Rightarrow> bool" where
  "names_ok m \<longleftrightarrow> distinct (map fst m) \<and> length m < 10 ^ 50
     \<and> (\<forall>x \<in> set m. name_pattern (e_name (fst (snd x))) \<and> e_id (fst (snd x)) = fst x \<and> entry_id_ok (fst x))"

theorem disambiguate_total:
  assumes "names_ok m"
  shows "\<exists>us. disambiguate_live_names m = Inr (assign (zip (map snd (losers m)) us) m) \<and> length us = length (losers m)
    \<and> fresh_names (length m) (losers m) (set (live_names m)) us
    \<and> distinct us \<and> set us \<inter> set (live_names m) = {} \<and> list_all good_name us
    \<and> distinct (live_names (assign (zip (map snd (losers m)) us) m))"
proof -
  have d: "distinct (map fst m)" and n: "length m < 10 ^ 50" using assms by (simp_all add: names_ok_def)
  have "\<exists>us. rfold (\<lambda>(nm, i). rename_loser nm (length m) i) (losers m) (set (live_names m), m)
      = Inr (set (live_names m) \<union> set us, assign (zip (map snd (losers m)) us) m)
       \<and> fresh_names (length m) (losers m) (set (live_names m)) us \<and> length us = length (losers m) \<and> distinct us \<and> set us \<inter> set (live_names m) = {} \<and> list_all good_name us"
  proof (rule rename_fold [OF losers_distinct [OF d] _ _ n d])
    show "\<forall>(nm, i) \<in> set (losers m). name_pattern nm \<and> (\<exists>e s. map_of m i = Some (e, s) \<and> e_id e = i \<and> entry_id_ok i)"
    proof (clarify)
      fix nm i assume "(nm, i) \<in> set (losers m)"
      from losers_map_of [OF d this] obtain e s where e: "map_of m i = Some (e, s)" "e_name e = nm" by blast
      from map_of_SomeD [OF e(1)] e(2) assms show "name_pattern nm \<and> (\<exists>e s. map_of m i = Some (e, s) \<and> e_id e = i \<and> entry_id_ok i)"
        using e(1) by (fastforce simp: names_ok_def)
    qed
  qed (simp_all add: losers_count)
  then show ?thesis using assigned_names_distinct [OF d] by (fastforce simp: disambiguate_losers)
qed

end
