(* ===== verification/Merge_Proofs.thy ===== *)
theory Merge_Proofs
  imports Merge_Names
begin

text \<open>
  What a merge does: on valid snapshots it fails only when a reference would change its target, no
  identifier is lost, the latest edit or deletion of each wins, names are distinct, and surviving
  references keep their targets.
\<close>

section \<open>Lookups\<close>

lemma entry_by_id_Some: "by_id es i = Some e \<Longrightarrow> e \<in> set es \<and> e_id e = i"
  by (auto simp: by_id_def dest!: map_of_SomeD)

lemma entry_by_id_None: "by_id es i = None \<longleftrightarrow> i \<notin> set (map e_id es)"
  by (auto simp: by_id_def map_of_eq_None_iff image_iff)

lemma by_id_iff: "distinct (map e_id es) \<Longrightarrow> by_id es i = Some e \<longleftrightarrow> e \<in> set es \<and> e_id e = i"
proof -
  assume "distinct (map e_id es)"
  then have "distinct (map fst (map (\<lambda>e. (e_id e, e)) (rev es)))" by (simp add: comp_def rev_map [symmetric])
  then show ?thesis unfolding by_id_def by (subst map_of_eq_Some_iff) auto
qed

lemma tombs_by_id_Some: "tombs_by_id ts i = Some t \<Longrightarrow> t \<in> set ts \<and> ts_id t = i"
  by (auto simp: tombs_by_id_def dest!: map_of_SomeD)

lemma tombs_by_id_None: "tombs_by_id ts i = None \<longleftrightarrow> i \<notin> set (map ts_id ts)"
  by (auto simp: tombs_by_id_def map_of_eq_None_iff image_iff)

section \<open>One identifier\<close>

text \<open>The versions of an identifier, and its deletions.\<close>

definition versions :: "entry list \<Rightarrow> entry list \<Rightarrow> string \<Rightarrow> entry set" where
  "versions ls rs i = {e. by_id ls i = Some e \<or> by_id rs i = Some e}"

definition deletions :: "tombstone list \<Rightarrow> tombstone list \<Rightarrow> string \<Rightarrow> string set" where
  "deletions lts rts i = ts_deleted ` {t. tombs_by_id lts i = Some t \<or> tombs_by_id rts i = Some t}"

lemma live_winner_None: "live_winner l r = None \<longleftrightarrow> l = None \<and> r = None"
  by (auto simp: live_winner_def split: option.splits)

lemma live_winner_none [simp]: "live_winner None None = None"
  by (simp add: live_winner_def)

lemma live_winner_Some:
  assumes "live_winner l r = Some (e, s)"
  shows "case s of Local \<Rightarrow> l = Some e | Remote \<Rightarrow> r = Some e"
    and "\<And>x. l = Some x \<or> r = Some x \<Longrightarrow> merge_key x \<le> merge_key e"
  using assms by (auto simp: live_winner_def split: option.splits if_splits)

lemma latest_tombstone_None: "latest_tombstone l r = None \<longleftrightarrow> l = None \<and> r = None"
  by (auto simp: latest_tombstone_def split: option.splits)

lemma latest_tombstone_Some:
  assumes "latest_tombstone l r = Some t"
  shows "l = Some t \<or> r = Some t" and "\<And>x. l = Some x \<or> r = Some x \<Longrightarrow> ts_deleted x \<le> ts_deleted t"
  using assms by (auto simp: latest_tombstone_def split: option.splits if_splits)

lemma merge_key_updated: "merge_key e \<le> merge_key f \<Longrightarrow> updated_at e \<le> updated_at f"
  by (auto simp: merge_key_def less_eq_prod_def)

text \<open>Live exactly when some version is later than every deletion; then the greatest version wins.\<close>

lemma resolved_live:
  "fst (resolved ls lts rs rts i) \<noteq> None \<longleftrightarrow> (\<exists>e \<in> versions ls rs i. \<forall>d \<in> deletions lts rts i. d < updated_at e)"
proof (cases "live_winner (by_id ls i) (by_id rs i)")
  case None
  then show ?thesis by (auto simp: resolved_def resolve_entry_state_def Let_def live_winner_None versions_def split: option.split)
next
  case (Some w)
  obtain e s where w: "w = (e, s)" by (cases w)
  note d = live_winner_Some [OF Some [unfolded w]]
  have v: "e \<in> versions ls rs i" using d(1) by (cases s) (auto simp: versions_def)
  have mx: "updated_at x \<le> updated_at e" if "x \<in> versions ls rs i" for x
    using that d(2) merge_key_updated by (auto simp: versions_def)
  show ?thesis
  proof (cases "latest_tombstone (tombs_by_id lts i) (tombs_by_id rts i)")
    case None
    then have "deletions lts rts i = {}" by (simp add: latest_tombstone_None deletions_def)
    with None Some v w show ?thesis by (auto simp: resolved_def resolve_entry_state_def)
  next
    case t: (Some t)
    note td = latest_tombstone_Some [OF t]
    have "(\<forall>d \<in> deletions lts rts i. d < updated_at x) \<longleftrightarrow> ts_deleted t < updated_at x" for x
      using td by (auto simp: deletions_def intro: le_less_trans)
    then have "(\<exists>x \<in> versions ls rs i. \<forall>d \<in> deletions lts rts i. d < updated_at x) \<longleftrightarrow> ts_deleted t < updated_at e"
      using v mx by (auto intro: less_le_trans)
    with t Some w show ?thesis by (simp add: resolved_def resolve_entry_state_def Let_def)
  qed
qed

lemma resolved_live_D:
  assumes "fst (resolved ls lts rs rts i) = Some (e, s)"
  shows "e \<in> versions ls rs i" and "\<forall>x \<in> versions ls rs i. merge_key x \<le> merge_key e" and "snd (resolved ls lts rs rts i) = None"
    and "e_id e = i"
proof -
  from assms have w: "live_winner (by_id ls i) (by_id rs i) = Some (e, s)" and n: "snd (resolved ls lts rs rts i) = None"
    by (auto simp: resolved_def resolve_entry_state_def Let_def split: if_splits option.splits)
  note d = live_winner_Some [OF w]
  show v: "e \<in> versions ls rs i" using d(1) by (cases s) (auto simp: versions_def)
  show "\<forall>x \<in> versions ls rs i. merge_key x \<le> merge_key e" using d(2) by (auto simp: versions_def)
  show "snd (resolved ls lts rs rts i) = None" by (rule n)
  show "e_id e = i" using v by (auto simp: versions_def dest: entry_by_id_Some)
qed

lemma resolved_dead_D:
  assumes "snd (resolved ls lts rs rts i) = Some t"
  shows "ts_id t = i" and "ts_deleted t \<in> deletions lts rts i" and "\<forall>d \<in> deletions lts rts i. d \<le> ts_deleted t"
    and "fst (resolved ls lts rs rts i) = None"
proof -
  from assms obtain d where d: "latest_tombstone (tombs_by_id lts i) (tombs_by_id rts i) = Some d" "ts_deleted t = ts_deleted d" "ts_id t = i"
    and n: "fst (resolved ls lts rs rts i) = None"
    by (auto simp: resolved_def resolve_entry_state_def Let_def split: if_splits option.splits)
  note td = latest_tombstone_Some [OF d(1)]
  show "ts_id t = i" "fst (resolved ls lts rs rts i) = None" using d n by simp_all
  show "ts_deleted t \<in> deletions lts rts i" "\<forall>e \<in> deletions lts rts i. e \<le> ts_deleted t"
    using td d(2) by (auto simp: deletions_def)
qed

lemma resolved_some:
  assumes "i \<in> all_ids ls lts rs rts"
  shows "fst (resolved ls lts rs rts i) \<noteq> None \<or> snd (resolved ls lts rs rts i) \<noteq> None"
proof (cases "latest_tombstone (tombs_by_id lts i) (tombs_by_id rts i)")
  case None
  then have "i \<in> set (map e_id ls) \<or> i \<in> set (map e_id rs)"
    using assms tombs_by_id_None by (simp add: latest_tombstone_None all_ids_def)
  then have "live_winner (by_id ls i) (by_id rs i) \<noteq> None" using entry_by_id_None by (simp add: live_winner_None)
  with None show ?thesis by (auto simp: resolved_def resolve_entry_state_def Let_def)
qed (auto simp: resolved_def resolve_entry_state_def Let_def split: option.splits)

lemma versions_in_all: "e \<in> versions ls rs i \<Longrightarrow> i \<in> all_ids ls lts rs rts \<and> e \<in> set ls \<union> set rs"
  by (auto simp: versions_def all_ids_def dest!: entry_by_id_Some)

section \<open>The live and the dead\<close>

lemma map_filter_in: "y \<in> set (List.map_filter f xs) \<longleftrightarrow> (\<exists>x \<in> set xs. f x = Some y)"
  by (force simp: List.map_filter_def)

lemma live_in: "(i, e, s) \<in> set (live_entries ids ls lts rs rts) \<longleftrightarrow> i \<in> set ids \<and> fst (resolved ls lts rs rts i) = Some (e, s)"
  by (auto simp: live_entries_def map_filter_in)

lemma dead_in: "t \<in> set (dead_entries ids ls lts rs rts) \<longleftrightarrow> (\<exists>i \<in> set ids. snd (resolved ls lts rs rts i) = Some t)"
  by (simp add: dead_entries_def map_filter_in)

lemma map_filter_map: "(\<And>x y. f x = Some y \<Longrightarrow> g y = x) \<Longrightarrow> map g (List.map_filter f xs) = filter (\<lambda>x. f x \<noteq> None) xs"
  by (induction xs) (auto simp: List.map_filter_simps split: option.split)

lemma live_keys: "map fst (live_entries ids ls lts rs rts) = filter (\<lambda>i. fst (resolved ls lts rs rts i) \<noteq> None) ids"
proof -
  have "map fst (live_entries ids ls lts rs rts) = filter (\<lambda>i. map_option (Pair i) (fst (resolved ls lts rs rts i)) \<noteq> None) ids"
    unfolding live_entries_def by (rule map_filter_map) auto
  then show ?thesis by simp
qed

lemma dead_keys: "map ts_id (dead_entries ids ls lts rs rts) = filter (\<lambda>i. snd (resolved ls lts rs rts i) \<noteq> None) ids"
  unfolding dead_entries_def by (rule map_filter_map) (rule resolved_dead_D(1))

text \<open>The inputs of a merge: valid snapshots, and an enumeration of their identifiers.\<close>

definition vault_ok :: "entry list \<Rightarrow> tombstone list \<Rightarrow> bool" where
  "vault_ok es ts \<longleftrightarrow> distinct (map e_id es) \<and> list_all wf_entry es \<and> len es \<le> 10000 \<and> len ts \<le> 20000"

definition merge_inputs :: "string list \<Rightarrow> entry list \<Rightarrow> tombstone list \<Rightarrow> entry list \<Rightarrow> tombstone list \<Rightarrow> bool" where
  "merge_inputs ids ls lts rs rts \<longleftrightarrow> vault_ok ls lts \<and> vault_ok rs rts \<and> distinct ids \<and> set ids = all_ids ls lts rs rts"

lemma wf_entry_parts: "wf_entry e \<Longrightarrow> name_pattern (e_name e) \<and> entry_id_ok (e_id e)"
  by (auto simp: wf_entry_def entry_id_ok_def)

lemma live_names_ok:
  assumes "merge_inputs ids ls lts rs rts"
  shows "names_ok (live_entries ids ls lts rs rts)"
proof -
  let ?m = "live_entries ids ls lts rs rts"
  have d: "distinct (map fst ?m)" using assms by (simp add: live_keys merge_inputs_def)
  have len: "length ls \<le> 10000" "length rs \<le> 10000"
    using assms by (auto simp: merge_inputs_def vault_ok_def len_length)
  have sub: "set (map fst ?m) \<subseteq> set (map e_id ls @ map e_id rs)"
  proof
    fix i assume "i \<in> set (map fst ?m)"
    then obtain e s where "(i, e, s) \<in> set ?m" by auto
    then have "e \<in> versions ls rs i" using resolved_live_D(1) by (auto simp: live_in)
    then show "i \<in> set (map e_id ls @ map e_id rs)" by (auto simp: versions_def dest!: entry_by_id_Some)
  qed
  have "length ?m = card (set (map fst ?m))" using distinct_card [OF d] by simp
  also have "\<dots> \<le> card (set (map e_id ls @ map e_id rs))" by (rule card_mono [OF _ sub]) simp
  also have "\<dots> \<le> length (map e_id ls @ map e_id rs)" by (rule card_length)
  finally have l: "length ?m \<le> 20000" using len by simp
  have wf: "name_pattern (e_name e) \<and> e_id e = i \<and> entry_id_ok i" if "(i, e, s) \<in> set ?m" for i e s
  proof -
    have "e_id e = i" using that unfolding live_in by (blast dest: resolved_live_D(4))
    have "e \<in> set ls \<union> set rs" using that resolved_live_D(1) versions_in_all by (fastforce simp: live_in)
    then have "wf_entry e" using assms by (auto simp: merge_inputs_def vault_ok_def list_all_iff)
    with \<open>e_id e = i\<close> wf_entry_parts show ?thesis by blast
  qed
  show ?thesis using d l wf by (auto simp: names_ok_def)
qed

lemma assign_in:
  assumes "(i, e, s) \<in> set (assign kv m)"
  shows "\<exists>e0. (i, e0, s) \<in> set m \<and> e = e0\<lparr>e_name := e_name e\<rparr> \<and> (map_of kv i = None \<longrightarrow> e = e0)"
  using assms by (auto simp: assign_def split: option.splits)

text \<open>A merge succeeds unless a reference would change its target.\<close>

theorem merge_only_rebinds:
  assumes "merge_inputs ids ls lts rs rts"
  shows "(case merge_vaults ids ls lts rs rts of Inl e \<Rightarrow> e = Rebound | Inr r \<Rightarrow> True)"
proof -
  obtain us where "disambiguate_live_names (live_entries ids ls lts rs rts)
      = Inr (assign (zip (map snd (losers (live_entries ids ls lts rs rts))) us) (live_entries ids ls lts rs rts))"
    using disambiguate_total [OF live_names_ok [OF assms]] by blast
  moreover have e: "each f xs = Inl x \<Longrightarrow> (\<And>y e. f y = Inl e \<Longrightarrow> e = Rebound) \<Longrightarrow> x = Rebound" for f :: "'a \<Rightarrow> merge_error + unit" and xs x
    by (induction xs) (auto simp: rbind_err)
  have "x = Rebound" if "require_reference_bindings m ls rs = Inl x" for m x
    using that unfolding require_reference_bindings_def Let_def
    by (rule e) (rule e, assumption, simp add: ensure_err)
  ultimately show ?thesis by (auto simp: merge_vaults_def Let_def rbind_def split: sum.splits)
qed

text \<open>What it returns.\<close>

lemma merge_D:
  assumes i: "merge_inputs ids ls lts rs rts" and r: "merge_vaults ids ls lts rs rts = Inr r"
  obtains m where "mr_entries r = sort_key e_id (map (fst \<circ> snd) m)" and "mr_tombstones r = sort_key ts_id (dead_entries ids ls lts rs rts)"
    and "distinct (live_names m)" and "map fst m = map fst (live_entries ids ls lts rs rts)"
    and "\<And>i e s. (i, e, s) \<in> set m \<Longrightarrow> \<exists>e0. (i, e0, s) \<in> set (live_entries ids ls lts rs rts) \<and> e = e0\<lparr>e_name := e_name e\<rparr>"
    and "\<And>i e s. (i, e, s) \<in> set m \<Longrightarrow> good_name (e_name e)"
    and "require_reference_bindings m ls rs = Inr ()"
    and "\<exists>us. m = assign (zip (map snd (losers (live_entries ids ls lts rs rts))) us) (live_entries ids ls lts rs rts)
      \<and> fresh_names (length (live_entries ids ls lts rs rts)) (losers (live_entries ids ls lts rs rts))
          (set (live_names (live_entries ids ls lts rs rts))) us"
proof -
  let ?lv = "live_entries ids ls lts rs rts"
  obtain us where us: "disambiguate_live_names ?lv = Inr (assign (zip (map snd (losers ?lv)) us) ?lv)"
      "distinct (live_names (assign (zip (map snd (losers ?lv)) us) ?lv))" "list_all good_name us"
      "fresh_names (length ?lv) (losers ?lv) (set (live_names ?lv)) us"
    using disambiguate_total [OF live_names_ok [OF i]] by blast
  let ?m = "assign (zip (map snd (losers ?lv)) us) ?lv"
  have good: "good_name (e_name e)" if x: "(i, e, s) \<in> set ?m" for i e s
  proof -
    from x obtain e0 where e0: "(i, e0, s) \<in> set ?lv"
      and e: "e = (case map_of (zip (map snd (losers ?lv)) us) i of None \<Rightarrow> e0 | Some u \<Rightarrow> e0\<lparr>e_name := u\<rparr>)"
      by (auto simp: assign_def)
    show ?thesis
    proof (cases "map_of (zip (map snd (losers ?lv)) us) i")
      case None
      have "e0 \<in> set ls \<union> set rs" using e0 resolved_live_D(1) versions_in_all by (fastforce simp: live_in)
      then have "wf_entry e0" using i by (auto simp: merge_inputs_def vault_ok_def list_all_iff)
      with e None show ?thesis by (simp add: wf_entry_def good_name_def)
    next
      case (Some u)
      then have "u \<in> set us" by (auto dest!: map_of_SomeD set_zip_rightD)
      with e Some us(3) show ?thesis by (simp add: list_all_iff)
    qed
  qed
  have same: "\<exists>e0. (i, e0, s) \<in> set ?lv \<and> e = e0\<lparr>e_name := e_name e\<rparr>" if "(i, e, s) \<in> set ?m" for i e s
    using assign_in [OF that] by blast
  have res: "mr_entries r = sort_key e_id (map (fst \<circ> snd) ?m)" "mr_tombstones r = sort_key ts_id (dead_entries ids ls lts rs rts)"
      "require_reference_bindings ?m ls rs = Inr ()"
    using r us(1) by (auto simp: merge_vaults_def rbind_ok Let_def)
  show ?thesis
    by (rule that [OF res(1,2) us(2) assign_keys same good res(3)]) (assumption | assumption | (intro exI conjI, rule refl, rule us(4)))+
qed

lemma strict_sort:
  assumes "distinct (map f xs)"
  shows "sorted_wrt (<) (map f (sort_key f xs))"
proof -
  have "mset (map f (sort_key f xs)) = mset (map f xs)" by (simp add: mset_map)
  then have "distinct (map f (sort_key f xs))" using assms mset_eq_imp_distinct_iff by blast
  then show ?thesis by (simp add: strict_sorted_iff)
qed

lemma by_name_mset:
  assumes "distinct (map e_name es)" and "set es = set fs" and "distinct (map e_name fs)"
  shows "by_name es = by_name fs"
proof -
  let ?p = "\<lambda>es. map (\<lambda>e. (e_name e, e_id e)) (rev es)"
  have "map_of (?p es) = map_of (?p fs)"
    by (rule map_of_inject_set [THEN iffD2])
      (use assms in \<open>simp_all add: comp_def rev_map [symmetric]\<close>)
  then show ?thesis by (simp add: by_name_def)
qed

text \<open>Where a surviving reference of a merged entry pointed in the snapshot of a peer, it points now.\<close>

definition binding_kept :: "entry list \<Rightarrow> entry list \<Rightarrow> bool" where
  "binding_kept merged old \<longleftrightarrow> (\<forall>e \<in> set merged. \<forall>r \<in> set (e_refs e). keeps_binding (by_name merged) e r old)"

theorem merge_resolves:
  assumes i: "merge_inputs ids ls lts rs rts" and r: "merge_vaults ids ls lts rs rts = Inr r"
  shows "distinct (map e_name (mr_entries r))" and "sorted_wrt (<) (map e_id (mr_entries r))"
    and "sorted_wrt (<) (map ts_id (mr_tombstones r))"
    and "k \<in> set (map e_id (mr_entries r)) \<longleftrightarrow> (\<exists>e \<in> versions ls rs k. \<forall>d \<in> deletions lts rts k. d < updated_at e)"
    and "k \<in> set (map ts_id (mr_tombstones r)) \<longleftrightarrow> k \<in> all_ids ls lts rs rts - set (map e_id (mr_entries r))"
    and "\<forall>e \<in> set (mr_entries r). good_name (e_name e) \<and> (\<exists>e0 \<in> versions ls rs (e_id e). e = e0\<lparr>e_name := e_name e\<rparr>
           \<and> (\<forall>x \<in> versions ls rs (e_id e). merge_key x \<le> merge_key e0))"
    and "\<forall>t \<in> set (mr_tombstones r). ts_deleted t \<in> deletions lts rts (ts_id t)
           \<and> (\<forall>d \<in> deletions lts rts (ts_id t). d \<le> ts_deleted t)"
    and "binding_kept (mr_entries r) ls" and "binding_kept (mr_entries r) rs"
proof -
  let ?lv = "live_entries ids ls lts rs rts"
  let ?live = "\<lambda>k. fst (resolved ls lts rs rts k) \<noteq> None"
  from merge_D [OF i r] obtain m where es: "mr_entries r = sort_key e_id (map (fst \<circ> snd) m)"
    and ts: "mr_tombstones r = sort_key ts_id (dead_entries ids ls lts rs rts)" and nm: "distinct (live_names m)"
    and ks: "map fst m = map fst ?lv"
    and old: "\<And>i e s. (i, e, s) \<in> set m \<Longrightarrow> \<exists>e0. (i, e0, s) \<in> set ?lv \<and> e = e0\<lparr>e_name := e_name e\<rparr>"
    and good: "\<And>i e s. (i, e, s) \<in> set m \<Longrightarrow> good_name (e_name e)" and ref: "require_reference_bindings m ls rs = Inr ()"
    by metis
  have ids: "set ids = all_ids ls lts rs rts" "distinct ids" using i by (simp_all add: merge_inputs_def)
  have eid: "e_id e = j" if je: "(j, e, s) \<in> set m" for j e s
  proof -
    obtain e0 where e0: "(j, e0, s) \<in> set ?lv" "e = e0\<lparr>e_name := e_name e\<rparr>" using old [OF je] by blast
    have "e_id e0 = j" using e0(1) unfolding live_in by (blast dest: resolved_live_D(4))
    moreover have "e_id e = e_id e0" by (subst e0(2)) simp
    ultimately show ?thesis by simp
  qed
  have keys: "map e_id (map (fst \<circ> snd) m) = map fst m" using eid by (auto simp: comp_def)
  have ent: "set (mr_entries r) = (fst \<circ> snd) ` set m" by (simp add: es)
  have "mset (map e_name (mr_entries r)) = mset (map e_name (map (fst \<circ> snd) m))" unfolding es mset_map mset_sort ..
  then have "mset (map e_name (mr_entries r)) = mset (live_names m)" by (simp add: live_names_def comp_def)
  then show dn: "distinct (map e_name (mr_entries r))" using nm mset_eq_imp_distinct_iff by blast
  have "distinct (map fst m)" unfolding ks live_keys using ids(2) by simp
  then have "distinct (map e_id (map (fst \<circ> snd) m))" by (simp only: keys)
  then show "sorted_wrt (<) (map e_id (mr_entries r))" unfolding es by (rule strict_sort)
  have "distinct (map ts_id (dead_entries ids ls lts rs rts))" using ids(2) by (simp add: dead_keys)
  then show "sorted_wrt (<) (map ts_id (mr_tombstones r))" unfolding ts by (rule strict_sort)
  have el: "set (map e_id (mr_entries r)) = {k \<in> set ids. ?live k}"
  proof -
    have "set (map e_id (mr_entries r)) = set (map e_id (map (fst \<circ> snd) m))" by (simp add: es image_image)
    then show ?thesis unfolding keys ks live_keys by simp
  qed
  have inall: "?live k \<Longrightarrow> k \<in> set ids" for k
    using resolved_live_D(1) versions_in_all ids(1) by (metis option.exhaust surj_pair)
  show "k \<in> set (map e_id (mr_entries r)) \<longleftrightarrow> (\<exists>e \<in> versions ls rs k. \<forall>d \<in> deletions lts rts k. d < updated_at e)"
    unfolding el using inall resolved_live by blast
  have "set (map ts_id (mr_tombstones r)) = set (map ts_id (dead_entries ids ls lts rs rts))" by (simp add: ts)
  then have tl: "set (map ts_id (mr_tombstones r)) = {k \<in> set ids. snd (resolved ls lts rs rts k) \<noteq> None}" unfolding dead_keys by simp
  have "k \<in> set ids \<Longrightarrow> snd (resolved ls lts rs rts k) \<noteq> None \<longleftrightarrow> \<not> ?live k" for k
    using resolved_some [of k ls lts rs rts] ids(1) resolved_dead_D(4) by (metis not_Some_eq)
  then show "k \<in> set (map ts_id (mr_tombstones r)) \<longleftrightarrow> k \<in> all_ids ls lts rs rts - set (map e_id (mr_entries r))"
    unfolding tl el ids(1) [symmetric] by blast
  show "\<forall>e \<in> set (mr_entries r). good_name (e_name e) \<and> (\<exists>e0 \<in> versions ls rs (e_id e). e = e0\<lparr>e_name := e_name e\<rparr>
           \<and> (\<forall>x \<in> versions ls rs (e_id e). merge_key x \<le> merge_key e0))"
  proof
    fix e assume "e \<in> set (mr_entries r)"
    then obtain j s where m: "(j, e, s) \<in> set m" by (auto simp: ent)
    obtain e0 where e0: "(j, e0, s) \<in> set ?lv" "e = e0\<lparr>e_name := e_name e\<rparr>" using old [OF m] by blast
    have "fst (resolved ls lts rs rts j) = Some (e0, s)" using e0(1) by (simp add: live_in)
    note d = resolved_live_D [OF this]
    show "good_name (e_name e) \<and> (\<exists>e0 \<in> versions ls rs (e_id e). e = e0\<lparr>e_name := e_name e\<rparr>
           \<and> (\<forall>x \<in> versions ls rs (e_id e). merge_key x \<le> merge_key e0))"
      using good [OF m] d(1,2) e0(2) unfolding eid [OF m] by blast
  qed
  show "\<forall>t \<in> set (mr_tombstones r). ts_deleted t \<in> deletions lts rts (ts_id t)
           \<and> (\<forall>d \<in> deletions lts rts (ts_id t). d \<le> ts_deleted t)"
    using resolved_dead_D(1-3) by (fastforce simp: ts dead_in)
  have "by_name (map (fst \<circ> snd) m) = by_name (mr_entries r)"
    by (rule by_name_mset) (use nm dn in \<open>simp_all add: ent live_names_def comp_def\<close>)
  then show "binding_kept (mr_entries r) ls" "binding_kept (mr_entries r) rs"
    using ref by (auto simp: binding_kept_def ent require_reference_bindings_def Let_def each_ok ensure_ok)
qed

end
