(* ===== verification/Merge_Convergence.thy ===== *)
theory Merge_Convergence
  imports Merge_Proofs
begin

text \<open>
  Two devices that merge each other's snapshots get the same vault, in whatever order each of them
  traverses its identifiers. The order of edits compares the sorted JSON text of entries; that text
  determines identifier and name, so edits of different entries never tie.
\<close>

section \<open>Reading past a value\<close>

fun after_quote :: "string \<Rightarrow> string" where
  "after_quote [] = []"
| "after_quote [c] = []"
| "after_quote (c # d # s) = (if c = CHR 0x22 then d # s else if c = CHR 0x5C then after_quote s else after_quote (d # s))"

lemma after_quote_plain: "c \<noteq> CHR 0x22 \<Longrightarrow> c \<noteq> CHR 0x5C \<Longrightarrow> s \<noteq> [] \<Longrightarrow> after_quote (c # s) = after_quote s"
  by (cases s) auto

lemma after_quote_escaped: "s \<noteq> [] \<Longrightarrow> after_quote (CHR 0x5C # c # s) = after_quote s"
  by simp

lemma hex_digit_plain: "n < 16 \<Longrightarrow> hex_digit n \<noteq> CHR 0x22 \<and> hex_digit n \<noteq> CHR 0x5C"
proof -
  assume "n < 16"
  then have "byte (hex_digit n) \<noteq> 34 \<and> byte (hex_digit n) \<noteq> 92" by (auto simp: hex_digit_def)
  moreover have "byte (CHR 0x22) = 34" "byte (CHR 0x5C) = 92" by (simp_all add: byte_def)
  ultimately show ?thesis by metis
qed

lemma after_hex: "s \<noteq> [] \<Longrightarrow> after_quote (hex_escape n @ s) = after_quote s"
  using hex_digit_plain by (simp add: hex_escape_def after_quote_plain)

lemma after_escape: "s \<noteq> [] \<Longrightarrow> after_quote (ascii_escape n @ s) = after_quote s"
proof -
  assume s: "s \<noteq> []"
  have p: "32 \<le> n \<Longrightarrow> n < 127 \<Longrightarrow> n \<noteq> 34 \<Longrightarrow> n \<noteq> 92 \<Longrightarrow> char_of n \<noteq> CHR 0x22 \<and> char_of n \<noteq> CHR 0x5C"
  proof -
    assume "32 \<le> n" "n < 127" "n \<noteq> 34" "n \<noteq> 92"
    then have "byte (char_of n) \<noteq> 34 \<and> byte (char_of n) \<noteq> 92" by simp
    moreover have "byte (CHR 0x22) = 34" "byte (CHR 0x5C) = 92" by (simp_all add: byte_def)
    ultimately show ?thesis by metis
  qed
  have h: "hex_escape k @ s \<noteq> []" for k by (simp add: hex_escape_def)
  show ?thesis
    using s p by (simp add: ascii_escape_def after_hex [OF s] after_hex [OF h] after_quote_plain)
qed

lemma after_quoted: "after_quote (concat (map ascii_escape ns) @ CHR 0x22 # s) = s"
proof (induction ns)
  case Nil
  then show ?case by (cases s) auto
qed (simp add: after_escape)

lemma ascii_quote_split:
  assumes "ascii_quote a @ s = ascii_quote b @ t"
  shows "ascii_quote a = ascii_quote b \<and> s = t"
proof -
  from assms have "concat (map ascii_escape (code_points a)) @ CHR 0x22 # s = concat (map ascii_escape (code_points b)) @ CHR 0x22 # t"
    by (simp add: ascii_quote_def)
  then have "s = t" using after_quoted by metis
  with assms show ?thesis by simp
qed

lemma after_quote_shorter: "length (after_quote s) \<le> length s"
  by (induction s rule: after_quote.induct) auto

text \<open>A scan that counts brackets and skips strings: it stops at the comma or bracket after a value.\<close>

function skip_value :: "nat \<Rightarrow> string \<Rightarrow> string" where
  "skip_value d [] = []"
| "skip_value d (c # s) =
     (if c = CHR 0x22 then skip_value d (after_quote s)
      else if c = CHR ''{'' \<or> c = CHR ''['' then skip_value (Suc d) s
      else if c = CHR ''}'' \<or> c = CHR '']'' then (if d = 0 then c # s else skip_value (d - 1) s)
      else if c = CHR '','' \<and> d = 0 then c # s
      else skip_value d s)"
  by pat_completeness auto
termination by (relation "measure (\<lambda>(d, s). length s)") (auto simp: le_imp_less_Suc after_quote_shorter)

definition plain_text :: "string \<Rightarrow> bool" where
  "plain_text s = list_all (\<lambda>c. c \<notin> set ''{}[],'' \<and> c \<noteq> CHR 0x22) s"

fun plain_floats :: "json \<Rightarrow> bool" and plain_items :: "json list \<Rightarrow> bool" and plain_members :: "(string \<times> json) list \<Rightarrow> bool" where
  "plain_floats JNull = True" | "plain_floats (JBool b) = True" | "plain_floats (JInt i) = True"
| "plain_floats (JFloat f) = plain_text f" | "plain_floats (JStr s) = True"
| "plain_floats (JList l) = plain_items l" | "plain_floats (JObj m) = plain_members m"
| "plain_items [] = True" | "plain_items (x # xs) = (plain_floats x \<and> plain_items xs)"
| "plain_members [] = True" | "plain_members ((k, x) # m) = (plain_floats x \<and> plain_members m)"

lemma skip_plain: "plain_text s \<Longrightarrow> skip_value d (s @ r) = skip_value d r"
  by (induction s) (auto simp: plain_text_def)

lemma skip_quote: "skip_value d (ascii_quote s @ r) = skip_value d r"
  by (simp add: ascii_quote_def after_quoted)

lemma show_int_plain: "plain_text (show_int i)"
proof -
  have "is_digit c \<Longrightarrow> c \<notin> set ''{}[],'' \<and> c \<noteq> CHR 0x22" for c by (auto simp: is_digit_def byte_def)
  then have "plain_text (show_nat n)" for n using show_nat_digits [of n] by (auto simp: plain_text_def list_all_iff)
  then show ?thesis by (simp add: show_int_def plain_text_def)
qed

lemma skip_char: "c \<notin> set ''{}[],'' \<Longrightarrow> c \<noteq> CHR 0x22 \<Longrightarrow> skip_value d (c # s) = skip_value d s"
  by auto

lemma skip_dumps:
  "plain_floats v \<Longrightarrow> skip_value d (ascii_dumps v @ r) = skip_value d r"
  "plain_items xs \<Longrightarrow> skip_value (Suc d) (ascii_items xs @ r) = skip_value (Suc d) r"
  "plain_members m \<Longrightarrow> skip_value (Suc d) (ascii_members m @ r) = skip_value (Suc d) r"
proof (induction v and xs and m arbitrary: d r and d r and d r rule: ascii_dumps_ascii_items_ascii_members.induct)
  case (3 i)
  then show ?case by (simp add: skip_plain [OF show_int_plain])
qed (simp_all add: skip_plain skip_quote)

text \<open>A value before a comma can be told apart from what follows.\<close>

lemma dumps_split:
  assumes "plain_floats v" and "plain_floats w" and "ascii_dumps v @ CHR '','' # s = ascii_dumps w @ CHR '','' # t"
  shows "ascii_dumps v = ascii_dumps w \<and> s = t"
proof -
  have "CHR '','' # s = CHR '','' # t"
    using skip_dumps(1) [OF assms(1), of 0 "CHR '','' # s"] skip_dumps(1) [OF assms(2), of 0 "CHR '','' # t"] assms(3) by simp
  with assms(3) show ?thesis by simp
qed

section \<open>Names and identifiers are printed as they are\<close>

definition ascii_plain :: "string \<Rightarrow> bool" where
  "ascii_plain s = list_all (\<lambda>c. 32 \<le> byte c \<and> byte c < 127 \<and> byte c \<noteq> 34 \<and> byte c \<noteq> 92) s"

lemma code_points_ascii: "ascii_plain s \<Longrightarrow> code_points s = map byte s"
  by (rule code_points_bytes) (auto simp: ascii_plain_def list_all_iff)

lemma escapes_ascii: "ascii_plain s \<Longrightarrow> concat (map ascii_escape (map byte s)) = s"
  by (induction s) (auto simp: ascii_plain_def ascii_escape_def)

lemma ascii_quote_plain: "ascii_plain s \<Longrightarrow> ascii_quote s = CHR 0x22 # s @ [CHR 0x22]"
  unfolding ascii_quote_def by (simp only: code_points_ascii escapes_ascii)

lemma ascii_quote_inject: "ascii_plain s \<Longrightarrow> ascii_plain t \<Longrightarrow> ascii_quote s = ascii_quote t \<Longrightarrow> s = t"
  by (simp add: ascii_quote_plain)

lemma name_plain: "name_pattern s \<Longrightarrow> ascii_plain s"
proof -
  assume "name_pattern s"
  then have "list_all name_char s" by (rule name_all_chars)
  moreover have "name_char c \<Longrightarrow> 32 \<le> byte c \<and> byte c < 127 \<and> byte c \<noteq> 34 \<and> byte c \<noteq> 92" for c
    by (auto simp: name_char_def is_lower_def is_digit_def byte_def)
  ultimately show ?thesis by (auto simp: ascii_plain_def list_all_iff)
qed

lemma id_plain: "entry_id_ok i \<Longrightarrow> ascii_plain i"
proof -
  assume "entry_id_ok i"
  then obtain u where u: "i = ''kk:'' @ u" "is_uuid4 u" by (auto simp: entry_id_ok_def)
  have "c = CHR ''-'' \<or> is_hex c \<Longrightarrow> 32 \<le> byte c \<and> byte c < 127 \<and> byte c \<noteq> 34 \<and> byte c \<noteq> 92" for c
    by (auto simp: is_hex_def is_digit_def byte_def)
  then have "ascii_plain u" using uuid_chars(1) [OF u(2)] by (auto simp: ascii_plain_def list_all_iff)
  then show ?thesis by (simp add: u(1) ascii_plain_def byte_def)
qed

section \<open>The text of an entry\<close>

text \<open>The entries of full snapshots have no project fields.\<close>

definition legacy_entry :: "entry \<Rightarrow> bool" where
  "legacy_entry e \<longleftrightarrow> e_folder e = JNull \<and> e_distribution e = JStr ''local_only'' \<and> e_provenance e = JNull \<and> e_revision e = JNull
     \<and> (\<exists>s. e_created e = JStr s) \<and> plain_floats (e_fields e)"

lemma plain_sorted:
  "plain_floats v \<Longrightarrow> plain_floats (sort_members v)" "plain_items xs \<Longrightarrow> plain_items (sort_items xs)"
  "plain_members m \<Longrightarrow> plain_members (sort_pairs m)"
proof (induction v and xs and m rule: plain_floats_plain_items_plain_members.induct)
  case (7 m)
  have all: "plain_members m \<longleftrightarrow> (\<forall>kv \<in> set m. plain_floats (snd kv))" for m by (induction m) auto
  from 7 show ?case by (simp add: all)
qed auto

definition text_rest :: "entry \<Rightarrow> string" where
  "text_rest e = ascii_members (sort_key fst (sort_pairs [(''tags'', JList (e_tags e)), (''note'', e_note e), (''refs'', JList (e_refs e)),
     (''type'', JStr (type_value (e_type e))), (''updated_at'', e_updated e)]))"

lemma sort_nine:
  "sort_key fst [(''id'', a), (''name'', b), (''type'', c), (''fields'', d), (''tags'', e), (''note'', f), (''refs'', g),
      (''created_at'', h), (''updated_at'', i)]
   = [(''created_at'', h), (''fields'', d), (''id'', a), (''name'', b)]
     @ sort_key fst [(''tags'', e), (''note'', f), (''refs'', g), (''type'', c), (''updated_at'', i)]"
  by simp

lemma entry_text:
  assumes "legacy_entry e"
  shows "ascii_text (entry_to_dict e) = ''{'' @ ascii_quote ''created_at'' @ '': '' @ ascii_quote (text_of (e_created e)) @ '', '' @
    ascii_quote ''fields'' @ '': '' @ ascii_dumps (sort_members (e_fields e)) @ '', '' @ ascii_quote ''id'' @ '': '' @ ascii_quote (e_id e) @ '', '' @
    ascii_quote ''name'' @ '': '' @ ascii_quote (e_name e) @ '', '' @ text_rest e @ ''}''"
proof -
  obtain s where "e_created e = JStr s" using assms by (auto simp: legacy_entry_def)
  moreover have "ascii_members (m @ n) = ascii_members m @ (if m = [] \<or> n = [] then [] else '', '') @ ascii_members n" for m n
    by (induction m) auto
  moreover have "sort_key f xs = [] \<longleftrightarrow> xs = []" for f :: "string \<times> json \<Rightarrow> string" and xs
    by (metis length_sort length_0_conv)
  ultimately show ?thesis
    using assms by (simp add: legacy_entry_def entry_to_dict_def ascii_text_def sort_nine text_rest_def del: sort_key_simps)
qed

lemma key_determines:
  assumes e: "legacy_entry e" "name_pattern (e_name e)" "entry_id_ok (e_id e)"
    and f: "legacy_entry f" "name_pattern (e_name f)" "entry_id_ok (e_id f)" and eq: "merge_key e = merge_key f"
  shows "e_id e = e_id f" and "e_name e = e_name f" and "merge_key (e\<lparr>e_name := u\<rparr>) = merge_key (f\<lparr>e_name := u\<rparr>)"
proof -
  have t: "ascii_text (entry_to_dict e) = ascii_text (entry_to_dict f)" and up: "updated_at e = updated_at f"
    using eq by (simp_all add: merge_key_def)
  have "ascii_quote (text_of (e_created e)) @ '', '' @
      ascii_quote ''fields'' @ '': '' @ ascii_dumps (sort_members (e_fields e)) @ '', '' @ ascii_quote ''id'' @ '': '' @ ascii_quote (e_id e) @ '', '' @
      ascii_quote ''name'' @ '': '' @ ascii_quote (e_name e) @ '', '' @ text_rest e @ ''}''
    = ascii_quote (text_of (e_created f)) @ '', '' @
      ascii_quote ''fields'' @ '': '' @ ascii_dumps (sort_members (e_fields f)) @ '', '' @ ascii_quote ''id'' @ '': '' @ ascii_quote (e_id f) @ '', '' @
      ascii_quote ''name'' @ '': '' @ ascii_quote (e_name f) @ '', '' @ text_rest f @ ''}''"
    using t by (simp only: entry_text [OF e(1)] entry_text [OF f(1)] append_same_eq same_append_eq)
  from ascii_quote_split [OF this] have c: "ascii_quote (text_of (e_created e)) = ascii_quote (text_of (e_created f))"
    and "ascii_dumps (sort_members (e_fields e)) @ CHR '','' # '' '' @ ascii_quote ''id'' @ '': '' @ ascii_quote (e_id e) @ '', '' @
      ascii_quote ''name'' @ '': '' @ ascii_quote (e_name e) @ '', '' @ text_rest e @ ''}''
    = ascii_dumps (sort_members (e_fields f)) @ CHR '','' # '' '' @ ascii_quote ''id'' @ '': '' @ ascii_quote (e_id f) @ '', '' @
      ascii_quote ''name'' @ '': '' @ ascii_quote (e_name f) @ '', '' @ text_rest f @ ''}''"
    by simp_all
  from dumps_split [OF plain_sorted(1) plain_sorted(1) this(2)] e(1) f(1)
  have d: "ascii_dumps (sort_members (e_fields e)) = ascii_dumps (sort_members (e_fields f))"
    and "ascii_quote (e_id e) @ '', '' @ ascii_quote ''name'' @ '': '' @ ascii_quote (e_name e) @ '', '' @ text_rest e @ ''}''
    = ascii_quote (e_id f) @ '', '' @ ascii_quote ''name'' @ '': '' @ ascii_quote (e_name f) @ '', '' @ text_rest f @ ''}''"
    by (simp_all add: legacy_entry_def)
  from ascii_quote_split [OF this(2)] have i: "ascii_quote (e_id e) = ascii_quote (e_id f)"
    and "ascii_quote (e_name e) @ '', '' @ text_rest e @ ''}'' = ascii_quote (e_name f) @ '', '' @ text_rest f @ ''}''"
    by simp_all
  from ascii_quote_split [OF this(2)] have n: "ascii_quote (e_name e) = ascii_quote (e_name f)" and r: "text_rest e = text_rest f"
    by simp_all
  show "e_id e = e_id f" by (rule ascii_quote_inject [OF id_plain id_plain i]) (rule e f)+
  show "e_name e = e_name f" by (rule ascii_quote_inject [OF name_plain name_plain n]) (rule e f)+
  have "text_rest (e\<lparr>e_name := u\<rparr>) = text_rest (f\<lparr>e_name := u\<rparr>)" using r by (simp add: text_rest_def)
  moreover have "legacy_entry (e\<lparr>e_name := u\<rparr>)" "legacy_entry (f\<lparr>e_name := u\<rparr>)" using e(1) f(1) by (simp_all add: legacy_entry_def)
  ultimately have "ascii_text (entry_to_dict (e\<lparr>e_name := u\<rparr>)) = ascii_text (entry_to_dict (f\<lparr>e_name := u\<rparr>))"
    using c d i by (simp add: entry_text)
  then show "merge_key (e\<lparr>e_name := u\<rparr>) = merge_key (f\<lparr>e_name := u\<rparr>)"
    using up by (simp add: merge_key_def updated_at_def)
qed

section \<open>Two merges\<close>

lemma versions_swap: "versions rs ls i = versions ls rs i"
  by (auto simp: versions_def)

lemma deletions_swap: "deletions rts lts i = deletions lts rts i"
  by (auto simp: deletions_def)

lemma all_ids_swap: "all_ids rs rts ls lts = all_ids ls lts rs rts"
  by (auto simp: all_ids_def)

lemma resolved_swap_live:
  assumes "fst (resolved ls lts rs rts i) = Some (e, s)"
  shows "\<exists>f s'. fst (resolved rs rts ls lts i) = Some (f, s')"
    and "fst (resolved rs rts ls lts i) = Some (f, s') \<Longrightarrow> merge_key f = merge_key e"
proof -
  have "fst (resolved ls lts rs rts i) \<noteq> None" using assms by simp
  then have "fst (resolved rs rts ls lts i) \<noteq> None"
    unfolding resolved_live by (simp only: versions_swap deletions_swap)
  then show "\<exists>f s'. fst (resolved rs rts ls lts i) = Some (f, s')" by auto
  show "merge_key f = merge_key e" if f: "fst (resolved rs rts ls lts i) = Some (f, s')"
    using resolved_live_D(1,2) [OF assms] resolved_live_D(1,2) [OF f] versions_swap by (metis order_antisym)
qed

lemma resolved_swap_dead:
  assumes "snd (resolved ls lts rs rts i) = Some t"
  shows "\<exists>t'. snd (resolved rs rts ls lts i) = Some t' \<and> ts_id t' = ts_id t \<and> ts_deleted t' = ts_deleted t"
proof -
  note d = resolved_dead_D [OF assms]
  have "i \<in> all_ids rs rts ls lts"
    using d(2) by (auto simp: deletions_def all_ids_def dest!: tombs_by_id_Some)
  moreover have "fst (resolved rs rts ls lts i) = None"
    using d(4) resolved_swap_live(1) [of rs rts ls lts i] by (cases "fst (resolved rs rts ls lts i)") fastforce+
  ultimately obtain t' where t': "snd (resolved rs rts ls lts i) = Some t'" using resolved_some by fastforce
  note d' = resolved_dead_D [OF t']
  have "ts_deleted t' = ts_deleted t"
    using d(2,3) d'(2,3) by (auto simp: deletions_swap [of rts lts] intro: order_antisym)
  with t' d(1) d'(1) show ?thesis by auto
qed

text \<open>The live entries of the two merges agree in identifiers, names and keys.\<close>

definition same_live :: "live_set \<Rightarrow> live_set \<Rightarrow> bool" where
  "same_live m n \<longleftrightarrow> distinct (map fst m) \<and> distinct (map fst n) \<and> set (map fst m) = set (map fst n)
     \<and> (\<forall>i e s f s'. (i, e, s) \<in> set m \<longrightarrow> (i, f, s') \<in> set n \<longrightarrow> e_name e = e_name f \<and> merge_key e = merge_key f)
     \<and> (\<forall>i e s j f s'. (i, e, s) \<in> set m \<longrightarrow> (j, f, s') \<in> set m \<longrightarrow> merge_key e = merge_key f \<longrightarrow> i = j)"

lemma same_live_D:
  assumes "same_live m n"
  shows "distinct (map fst m)" and "distinct (map fst n)" and "set (map fst m) = set (map fst n)"
    and "\<And>i e s f s'. (i, e, s) \<in> set m \<Longrightarrow> (i, f, s') \<in> set n \<Longrightarrow> e_name e = e_name f \<and> merge_key e = merge_key f"
    and "\<And>i e s j f s'. (i, e, s) \<in> set m \<Longrightarrow> (j, f, s') \<in> set m \<Longrightarrow> merge_key e = merge_key f \<Longrightarrow> i = j"
  using assms unfolding same_live_def by blast+

lemma same_live_partner:
  assumes "same_live m n" and "(i, e, s) \<in> set m"
  shows "\<exists>f s'. (i, f, s') \<in> set n \<and> e_name f = e_name e \<and> merge_key f = merge_key e"
proof -
  have "i \<in> set (map fst n)" using assms by (force simp: same_live_def)
  then obtain f s' where "(i, f, s') \<in> set n" by auto
  with assms show ?thesis unfolding same_live_def by metis
qed

lemma same_live_swap:
  assumes "same_live m n"
  shows "same_live n m"
proof -
  note d = same_live_D [OF assms]
  have p: "\<exists>f s'. (i, f, s') \<in> set m \<and> merge_key f = merge_key e" if x: "(i, e, u) \<in> set n" for i e u
  proof -
    have "i \<in> set (map fst m)" using d(3) x by force
    then obtain f s' where f: "(i, f, s') \<in> set m" by auto
    with d(4) [OF f x] show ?thesis by blast
  qed
  have inj: "i = j" if a: "(i, e, u) \<in> set n" "(j, f, u') \<in> set n" "merge_key e = merge_key f" for i e u j f u'
  proof -
    obtain e' s where e': "(i, e', s) \<in> set m" "merge_key e' = merge_key e" using p [OF a(1)] by blast
    obtain f' s' where f': "(j, f', s') \<in> set m" "merge_key f' = merge_key f" using p [OF a(2)] by blast
    show ?thesis using d(5) [OF e'(1) f'(1)] e'(2) f'(2) a(3) by simp
  qed
  have eq: "e_name e = e_name f \<and> merge_key e = merge_key f" if a: "(i, e, u) \<in> set n" "(i, f, u') \<in> set m" for i e u f u'
    using d(4) [OF a(2,1)] by simp
  show ?thesis unfolding same_live_def using d(1-3) eq inj by blast
qed

lemma group_same:
  assumes "same_live m n"
  shows "name_group m nm = name_group n nm"
proof -
  define K where "K = (\<lambda>i. merge_key (fst (the (map_of m i))))"
  have K: "K i = merge_key e" if "(i, e, s) \<in> set m" for i e s
    using that same_live_D(1) [OF assms] by (simp add: K_def)
  have K': "K i = merge_key e" if "(i, e, s) \<in> set n" for i e s
    using same_live_partner [OF same_live_swap [OF assms] that] K by metis
  have sorted: "sorted (map K (rev (name_group q nm)))" if q: "\<And>i e s. (i, e, s) \<in> set q \<Longrightarrow> K i = merge_key e" for q
  proof -
    let ?g = "sort_key (\<lambda>x. merge_key (fst (snd x))) (rev (filter (\<lambda>x. e_name (fst (snd x)) = nm) q))"
    have "map K (map fst ?g) = map (\<lambda>x. merge_key (fst (snd x))) ?g" using q by auto
    then show ?thesis by (simp add: name_group_def rev_map sorted_sort_key flip: map_map)
  qed
  have sets: "set (name_group m nm) = set (name_group n nm)"
    using same_live_partner [OF assms] same_live_partner [OF same_live_swap [OF assms]] by (fastforce simp: in_group)
  have inj: "inj_on K (set (name_group m nm))"
  proof (rule inj_onI)
    fix i j assume "i \<in> set (name_group m nm)" "j \<in> set (name_group m nm)" "K i = K j"
    then obtain e s f s' where "(i, e, s) \<in> set m" "(j, f, s') \<in> set m" by (auto simp: in_group)
    with K \<open>K i = K j\<close> show "i = j" by (metis same_live_D(5) [OF assms])
  qed
  have d: "distinct (name_group m nm)" "distinct (name_group n nm)" using assms by (simp_all add: same_live_def name_group_distinct)
  have "map K (rev (name_group m nm)) = map K (rev (name_group n nm))"
    by (rule sorted_distinct_set_unique [OF sorted [OF K] _ sorted [OF K']])
      (use inj d sets in \<open>simp_all add: distinct_map\<close>)
  then have "rev (name_group m nm) = rev (name_group n nm)"
    by (rule map_inj_on) (use inj sets in simp)
  then show ?thesis by simp
qed

lemma same_live_names_le: "same_live m n \<Longrightarrow> set (live_names m) \<subseteq> set (live_names n)"
proof
  fix x assume s: "same_live m n" and "x \<in> set (live_names m)"
  then obtain i e u where "(i, e, u) \<in> set m" "x = e_name e" by (auto simp: live_names_def)
  with same_live_partner [OF s] obtain f u' where "(i, f, u') \<in> set n" "x = e_name f" by metis
  then show "x \<in> set (live_names n)" by (force simp: live_names_def)
qed

lemma same_live_names: "same_live m n \<Longrightarrow> set (live_names m) = set (live_names n)"
  using same_live_names_le same_live_swap by blast

lemma losers_same:
  assumes "same_live m n"
  shows "losers m = losers n" and "length m = length n"
proof -
  have "sort (remdups (live_names m)) = sort (remdups (live_names n))"
    using same_live_names [OF assms] by (intro sorted_distinct_set_unique) simp_all
  then show "losers m = losers n" by (simp add: losers_def group_same [OF assms])
  have "length m = card (set (map fst m))" "length n = card (set (map fst n))"
    using assms distinct_card [of "map fst m"] distinct_card [of "map fst n"] by (simp_all add: same_live_def)
  with assms show "length m = length n" by (simp add: same_live_def)
qed

section \<open>Convergence\<close>

lemma merge_inputs_parts:
  assumes "merge_inputs ids ls lts rs rts" and "e \<in> set ls \<union> set rs"
  shows "name_pattern (e_name e)" and "entry_id_ok (e_id e)"
proof -
  have "wf_entry e" using assms by (auto simp: merge_inputs_def vault_ok_def list_all_iff)
  then show "name_pattern (e_name e)" "entry_id_ok (e_id e)" by (simp_all add: wf_entry_parts)
qed

lemma live_same:
  assumes i: "merge_inputs ids ls lts rs rts" and i': "merge_inputs ids' rs rts ls lts"
    and leg: "list_all legacy_entry (ls @ rs)"
  shows "same_live (live_entries ids ls lts rs rts) (live_entries ids' rs rts ls lts)"
proof -
  have ids: "set ids' = set ids" "distinct ids" "distinct ids'" using i i' by (simp_all add: merge_inputs_def all_ids_swap)
  have ok: "legacy_entry e \<and> name_pattern (e_name e) \<and> entry_id_ok (e_id e)" if v: "e \<in> versions ls rs j" for e j
  proof -
    have "e \<in> set ls \<union> set rs" using versions_in_all [OF v] by blast
    with merge_inputs_parts [OF i this] leg show ?thesis by (auto simp: list_all_iff)
  qed
  have ver: "e \<in> versions ls rs j \<and> e_id e = j" if "(j, e, s) \<in> set (live_entries ids ls lts rs rts)" for j e s
    using that resolved_live_D(1,4) unfolding live_in by blast
  have ver': "e \<in> versions ls rs j" if "(j, e, s) \<in> set (live_entries ids' rs rts ls lts)" for j e s
    using that resolved_live_D(1) unfolding live_in by (metis versions_swap)
  have "(fst (resolved rs rts ls lts j) \<noteq> None) = (fst (resolved ls lts rs rts j) \<noteq> None)" for j
    unfolding resolved_live by (simp only: versions_swap deletions_swap)
  then have keys: "set (map fst (live_entries ids' rs rts ls lts)) = set (map fst (live_entries ids ls lts rs rts))"
    unfolding live_keys using ids(1) by simp
  have eq: "e_name e = e_name f \<and> merge_key e = merge_key f"
    if e: "(j, e, s) \<in> set (live_entries ids ls lts rs rts)" and f: "(j, f, s') \<in> set (live_entries ids' rs rts ls lts)" for j e s f s'
  proof -
    have k: "merge_key f = merge_key e" using e f resolved_swap_live(2) unfolding live_in by blast
    with key_determines(2) [of e f] ok [OF conjunct1 [OF ver [OF e]]] ok [OF ver' [OF f]] show ?thesis by simp
  qed
  have inj: "j = k"
    if e: "(j, e, s) \<in> set (live_entries ids ls lts rs rts)" and f: "(k, f, s') \<in> set (live_entries ids ls lts rs rts)"
      and eq: "merge_key e = merge_key f" for j e s k f s'
    using key_determines(1) [of e f] eq ver [OF e] ver [OF f] ok by metis
  show ?thesis
    unfolding same_live_def
  proof (intro conjI)
    show "distinct (map fst (live_entries ids ls lts rs rts))" "distinct (map fst (live_entries ids' rs rts ls lts))"
      unfolding live_keys using ids by simp_all
  qed (use keys eq inj in blast)+
qed

lemma strict_lists_equal:
  fixes xs ys :: "('a::linorder \<times> 'b::linorder) list"
  assumes "sorted_wrt (<) (map fst xs)" and "sorted_wrt (<) (map fst ys)" and "set xs = set ys"
  shows "xs = ys"
proof -
  have s: "sorted_wrt (<) zs" if "sorted_wrt (<) (map fst zs)" for zs :: "('a \<times> 'b) list"
    using that unfolding sorted_wrt_map by (rule sorted_wrt_mono_rel [rotated]) (auto simp: less_prod_def)
  show ?thesis by (rule strict_sorted_equal [OF s s]) (use assms in simp_all)
qed

definition entry_mark :: "entry \<Rightarrow> string \<times> string \<times> string \<times> string" where
  "entry_mark e = (e_id e, e_name e, merge_key e)"

lemma assigned_mark:
  assumes sl: "same_live m n" and x: "(i, e, s) \<in> set (assign kv m)"
    and ok: "\<And>i e s. (i, e, s) \<in> set m \<or> (i, e, s) \<in> set n \<Longrightarrow> legacy_entry e \<and> name_pattern (e_name e) \<and> entry_id_ok (e_id e)"
  shows "\<exists>f s'. (i, f, s') \<in> set (assign kv n) \<and> entry_mark f = entry_mark e"
proof -
  from x obtain e0 where e0: "(i, e0, s) \<in> set m" and e: "e = (case map_of kv i of None \<Rightarrow> e0 | Some u \<Rightarrow> e0\<lparr>e_name := u\<rparr>)"
    by (auto simp: assign_def)
  obtain f0 s' where f0: "(i, f0, s') \<in> set n" "merge_key f0 = merge_key e0" using same_live_partner [OF sl e0] by blast
  let ?f = "case map_of kv i of None \<Rightarrow> f0 | Some u \<Rightarrow> f0\<lparr>e_name := u\<rparr>"
  have "(i, ?f, s') \<in> set (assign kv n)" using f0(1) by (force simp: assign_def)
  moreover have "legacy_entry f0 \<and> name_pattern (e_name f0) \<and> entry_id_ok (e_id f0)" using ok f0(1) by blast
  moreover have "legacy_entry e0 \<and> name_pattern (e_name e0) \<and> entry_id_ok (e_id e0)" using ok e0 by blast
  ultimately have "entry_mark ?f = entry_mark e"
    using key_determines [of f0 e0] f0(2) by (auto simp: entry_mark_def e split: option.split)
  with \<open>(i, ?f, s') \<in> set (assign kv n)\<close> show ?thesis by blast
qed

lemma dead_swap:
  assumes "set ks = set ks'"
  shows "(\<lambda>t. (ts_id t, ts_deleted t)) ` set (dead_entries ks ls lts rs rts) \<subseteq> (\<lambda>t. (ts_id t, ts_deleted t)) ` set (dead_entries ks' rs rts ls lts)"
proof clarify
  fix t assume "t \<in> set (dead_entries ks ls lts rs rts)"
  then obtain i where i: "i \<in> set ks" "snd (resolved ls lts rs rts i) = Some t" unfolding dead_in by blast
  then obtain t' where t': "snd (resolved rs rts ls lts i) = Some t'" "ts_id t' = ts_id t" "ts_deleted t' = ts_deleted t"
    using resolved_swap_dead by blast
  then have "t' \<in> set (dead_entries ks' rs rts ls lts)" using i(1) assms unfolding dead_in by blast
  with t'(2,3) show "(ts_id t, ts_deleted t) \<in> (\<lambda>t. (ts_id t, ts_deleted t)) ` set (dead_entries ks' rs rts ls lts)"
    by (intro image_eqI [of _ _ t']) simp_all
qed

theorem merges_converge:
  assumes i: "merge_inputs ids ls lts rs rts" and i': "merge_inputs ids' rs rts ls lts"
    and leg: "list_all legacy_entry (ls @ rs)"
    and a: "merge_vaults ids ls lts rs rts = Inr a" and b: "merge_vaults ids' rs rts ls lts = Inr b"
  shows "map entry_mark (mr_entries a) = map entry_mark (mr_entries b)"
    and "map (\<lambda>t. (ts_id t, ts_deleted t)) (mr_tombstones a) = map (\<lambda>t. (ts_id t, ts_deleted t)) (mr_tombstones b)"
proof -
  let ?m = "live_entries ids ls lts rs rts" and ?n = "live_entries ids' rs rts ls lts"
  note sl = live_same [OF i i' leg]
  from merge_D [OF i a] obtain us where
    ea: "mr_entries a = sort_key e_id (map (fst \<circ> snd) (assign (zip (map snd (losers ?m)) us) ?m))"
    and ua: "fresh_names (length ?m) (losers ?m) (set (live_names ?m)) us"
    and ta: "mr_tombstones a = sort_key ts_id (dead_entries ids ls lts rs rts)" by metis
  from merge_D [OF i' b] obtain us' where
    eb: "mr_entries b = sort_key e_id (map (fst \<circ> snd) (assign (zip (map snd (losers ?n)) us') ?n))"
    and ub: "fresh_names (length ?n) (losers ?n) (set (live_names ?n)) us'"
    and tb: "mr_tombstones b = sort_key ts_id (dead_entries ids' rs rts ls lts)" by metis
  have u: "us' = us"
    using fresh_names_unique ua ub losers_same [OF sl] same_live_names [OF sl] by metis
  have ok: "legacy_entry e \<and> name_pattern (e_name e) \<and> entry_id_ok (e_id e)"
    if "(j, e, s) \<in> set ?m \<or> (j, e, s) \<in> set ?n" for j e s
  proof -
    have "e \<in> set ls \<union> set rs"
      using that resolved_live_D(1) versions_in_all unfolding live_in by (metis versions_swap)
    with merge_inputs_parts [OF i this] leg show ?thesis by (auto simp: list_all_iff)
  qed
  define kv where "kv = zip (map snd (losers ?m)) us"
  have entries: "mr_entries a = sort_key e_id (map (fst \<circ> snd) (assign kv ?m))" "mr_entries b = sort_key e_id (map (fst \<circ> snd) (assign kv ?n))"
    using ea eb u losers_same(1) [OF sl] by (simp_all add: kv_def)
  have sub: "entry_mark ` set (sort_key e_id (map (fst \<circ> snd) (assign kv m))) \<subseteq> entry_mark ` set (sort_key e_id (map (fst \<circ> snd) (assign kv n)))"
    if mn: "same_live m n" "\<And>i e s. (i, e, s) \<in> set m \<or> (i, e, s) \<in> set n \<Longrightarrow> legacy_entry e \<and> name_pattern (e_name e) \<and> entry_id_ok (e_id e)"
    for m n
  proof
    fix x assume "x \<in> entry_mark ` set (sort_key e_id (map (fst \<circ> snd) (assign kv m)))"
    then obtain j e s where e: "(j, e, s) \<in> set (assign kv m)" "x = entry_mark e" by auto
    have "\<exists>f s'. (j, f, s') \<in> set (assign kv n) \<and> entry_mark f = entry_mark e"
      by (rule assigned_mark [OF mn(1) e(1)]) (rule mn(2))
    then obtain f s' where "(j, f, s') \<in> set (assign kv n)" "entry_mark f = x" using e(2) by blast
    then show "x \<in> entry_mark ` set (sort_key e_id (map (fst \<circ> snd) (assign kv n)))" by force
  qed
  have sets: "set (map entry_mark (mr_entries a)) = set (map entry_mark (mr_entries b))"
    unfolding entries set_map by (rule subset_antisym) (rule sub [OF sl ok] sub [OF same_live_swap [OF sl] ok], blast)+
  show "map entry_mark (mr_entries a) = map entry_mark (mr_entries b)"
    by (rule strict_lists_equal [OF _ _ sets])
      (use merge_resolves(2) [OF i a] merge_resolves(2) [OF i' b] in \<open>simp_all add: entry_mark_def comp_def\<close>)
  have "set ids' = set ids" using i i' by (simp add: merge_inputs_def all_ids_swap)
  then have sets: "set (map (\<lambda>t. (ts_id t, ts_deleted t)) (mr_tombstones a)) = set (map (\<lambda>t. (ts_id t, ts_deleted t)) (mr_tombstones b))"
    unfolding ta tb set_map set_sort using dead_swap [of ids ids'] dead_swap [of ids' ids] by (simp add: subset_antisym)
  show "map (\<lambda>t. (ts_id t, ts_deleted t)) (mr_tombstones a) = map (\<lambda>t. (ts_id t, ts_deleted t)) (mr_tombstones b)"
    by (rule strict_lists_equal [OF _ _ sets])
      (use merge_resolves(3) [OF i a] merge_resolves(3) [OF i' b] in \<open>simp_all add: comp_def\<close>)
qed

text \<open>The names of tombstones do not converge: of two deletions in the same second each device keeps its own,
  so the snapshots of two devices can differ for ever.\<close>

theorem tombstone_names_differ:
  assumes "by_id ls i = None" and "by_id rs i = None" and "tombs_by_id lts i = Some t" and "tombs_by_id rts i = Some u"
    and "ts_deleted t = ts_deleted u" and "ts_name t \<noteq> []" and "ts_name u \<noteq> []"
  shows "map_option ts_name (snd (resolved ls lts rs rts i)) = Some (ts_name t)"
    and "map_option ts_name (snd (resolved rs rts ls lts i)) = Some (ts_name u)"
  using assms by (simp_all add: resolved_def resolve_entry_state_def latest_tombstone_def tombstone_name_def)

section \<open>An example\<close>

definition example_entry :: "char \<Rightarrow> string \<Rightarrow> entry" where
  "example_entry c t = \<lparr>e_id = ''kk:0000000'' @ [c] @ ''-0000-4000-8000-000000000000'', e_name = ''web'', e_type = NOTE,
     e_fields = JObj [(''secret_body'', JBool False)], e_tags = [], e_note = JStr [], e_refs = [],
     e_created = JStr t, e_updated = JStr t, e_folder = JNull, e_distribution = JStr ''local_only'', e_provenance = JNull, e_revision = JNull\<rparr>"

definition example_one :: entry where "example_one = example_entry (CHR ''1'') ''2026-01-01T00:00:00Z''"
definition example_two :: entry where "example_two = example_entry (CHR ''2'') ''2026-01-02T00:00:00Z''"

lemma example_wf: "wf_entry example_one" "wf_entry example_two"
proof -
  have t: "is_timestamp ''2026-01-01T00:00:00Z''" "is_timestamp ''2026-01-02T00:00:00Z''"
    by (rule ascii_timestamp; code_simp)+
  have u: "is_uuid4 ''00000001-0000-4000-8000-000000000000''" "is_uuid4 ''00000002-0000-4000-8000-000000000000''" by code_simp+
  have n: "2 \<le> pylen ''web''" "pylen ''web'' \<le> 64" "name_pattern ''web''" by code_simp+
  have f: "fields_ok NOTE (JObj [(''secret_body'', JBool False)])" unfolding validate_fields_check [symmetric] by code_simp
  have e: "no_controls True []" by code_simp
  show "wf_entry example_one" "wf_entry example_two"
    using t u n f e by (simp_all add: wf_entry_def example_one_def example_two_def example_entry_def provenance_ok_def del: pylen.simps(2))
qed

lemma example_merge_inputs:
  "merge_inputs [e_id example_two, e_id example_one] [example_one] [] [example_two] []"
  "merge_inputs [e_id example_one, e_id example_two] [example_two] [] [example_one] []"
  "list_all legacy_entry [example_one, example_two]"
  using example_wf
  by (auto simp: merge_inputs_def vault_ok_def all_ids_def legacy_entry_def) (auto simp: example_one_def example_two_def example_entry_def)

lemma example_names_ok: "names_ok [(e_id example_one, example_one, Local), (e_id example_two, example_two, Remote)]"
proof -
  have "e_id example_one \<noteq> e_id example_two" by (simp add: example_one_def example_two_def example_entry_def)
  then show ?thesis
    using example_wf by (auto simp: names_ok_def wf_entry_def entry_id_ok_def)
qed

end
