(* ===== verification/Durable.thy ===== *)
theory Durable
  imports Prelude
begin

text \<open>
  Programs that change durable state step by step and may be interrupted anywhere. Every durable
  step asks the environment for its fate: it works, it raises before or after its effect, or the
  process dies before or after it. Python's exceptions can be caught, the death of the process can
  not. The triples below say what holds of the state that is left in each case; they hold for every
  environment.
\<close>

section \<open>Programs\<close>

datatype fault = Works | Fails | Fails_late | Dies | Dies_late

datatype ('e, 'a) outcome = Done 'a | Raises 'e | Died

type_synonym ('d, 'e, 'a) program = "(nat \<Rightarrow> fault) \<Rightarrow> 'd \<times> nat \<Rightarrow> ('e, 'a) outcome \<times> 'd \<times> nat"

definition give :: "'a \<Rightarrow> ('d, 'e, 'a) program" where
  "give x env s = (Done x, s)"

definition throw :: "'e \<Rightarrow> ('d, 'e, 'a) program" where
  "throw e env s = (Raises e, s)"

definition andthen :: "('d, 'e, 'a) program \<Rightarrow> ('a \<Rightarrow> ('d, 'e, 'b) program) \<Rightarrow> ('d, 'e, 'b) program" where
  "andthen m f env s = (case m env s of (Done x, s') \<Rightarrow> f x env s' | (Raises e, s') \<Rightarrow> (Raises e, s') | (Died, s') \<Rightarrow> (Died, s'))"

text \<open>\<open>try: m except e: h e\<close>.\<close>

definition rescue :: "('d, 'e, 'a) program \<Rightarrow> ('e \<Rightarrow> ('d, 'e, 'a) program) \<Rightarrow> ('d, 'e, 'a) program" where
  "rescue m h env s = (case m env s of (Raises e, s') \<Rightarrow> h e env s' | r \<Rightarrow> r)"

definition pure_step :: "'e + 'a \<Rightarrow> ('d, 'e, 'a) program" where
  "pure_step r = (case r of Inl e \<Rightarrow> throw e | Inr x \<Rightarrow> give x)"

definition look :: "('d \<Rightarrow> 'a) \<Rightarrow> ('d, 'e, 'a) program" where
  "look f env s = (Done (f (fst s)), s)"

definition durable :: "'e \<Rightarrow> ('d \<Rightarrow> 'd) \<Rightarrow> ('d, 'e, unit) program" where
  "durable e f env s = (case s of (d, n) \<Rightarrow> (case env n of
      Works \<Rightarrow> (Done (), f d, Suc n) | Fails \<Rightarrow> (Raises e, d, Suc n) | Fails_late \<Rightarrow> (Raises e, f d, Suc n)
    | Dies \<Rightarrow> (Died, d, Suc n) | Dies_late \<Rightarrow> (Died, f d, Suc n)))"

text \<open>A read may fail as well.\<close>

definition probe :: "'e \<Rightarrow> ('d, 'e, unit) program" where
  "probe e = durable e id"

primrec foreach :: "('a \<Rightarrow> ('d, 'e, unit) program) \<Rightarrow> 'a list \<Rightarrow> ('d, 'e, unit) program" where
  "foreach f [] = give ()"
| "foreach f (x # xs) = andthen (f x) (\<lambda>_. foreach f xs)"

primrec mapm :: "('a \<Rightarrow> ('d, 'e, 'b) program) \<Rightarrow> 'a list \<Rightarrow> ('d, 'e, 'b list) program" where
  "mapm f [] = give []"
| "mapm f (x # xs) = andthen (f x) (\<lambda>y. andthen (mapm f xs) (\<lambda>ys. give (y # ys)))"

section \<open>Triples\<close>

definition triple ::
  "('d \<Rightarrow> bool) \<Rightarrow> ('d, 'e, 'a) program \<Rightarrow> ('a \<Rightarrow> 'd \<Rightarrow> bool) \<Rightarrow> ('e \<Rightarrow> 'd \<Rightarrow> bool) \<Rightarrow> ('d \<Rightarrow> bool) \<Rightarrow> bool" where
  "triple P m Q R X \<longleftrightarrow> (\<forall>env d n. P d \<longrightarrow>
     (case m env (d, n) of (Done x, d', n') \<Rightarrow> Q x d' | (Raises e, d', n') \<Rightarrow> R e d' | (Died, d', n') \<Rightarrow> X d'))"

named_theorems triple_rules \<open>rules that compute with triples\<close>

lemma triple_D:
  assumes "triple P m Q R X" and "P d" and "m env (d, n) = (r, d', n')"
  shows "case r of Done x \<Rightarrow> Q x d' | Raises e \<Rightarrow> R e d' | Died \<Rightarrow> X d'"
  using assms(1) [unfolded triple_def, rule_format, OF assms(2), of env n] assms(3) by (cases r) simp_all

lemma triple_conseq:
  "triple P' m Q' R' X' \<Longrightarrow> (\<And>d. P d \<Longrightarrow> P' d) \<Longrightarrow> (\<And>x d. Q' x d \<Longrightarrow> Q x d) \<Longrightarrow> (\<And>e d. R' e d \<Longrightarrow> R e d) \<Longrightarrow>
     (\<And>d. X' d \<Longrightarrow> X d) \<Longrightarrow> triple P m Q R X"
  unfolding triple_def by (fastforce split: prod.splits outcome.splits)

lemma triple_pre: "triple P' m Q R X \<Longrightarrow> (\<And>d. P d \<Longrightarrow> P' d) \<Longrightarrow> triple P m Q R X"
  by (rule triple_conseq)

lemma triple_give: "(\<And>d. P d \<Longrightarrow> Q x d) \<Longrightarrow> triple P (give x) Q R X"
  by (simp add: triple_def give_def)

lemma triple_throw: "(\<And>d. P d \<Longrightarrow> R e d) \<Longrightarrow> triple P (throw e) Q R X"
  by (simp add: triple_def throw_def)

lemma triple_andthen:
  assumes m: "triple P m Q R X" and f: "\<And>x. triple (Q x) (f x) Q' R X"
  shows "triple P (andthen m f) Q' R X"
  unfolding triple_def
proof (intro allI impI)
  fix env d n assume p: "P d"
  obtain r d' n' where r: "m env (d, n) = (r, d', n')" by (cases "m env (d, n)")
  have q: "case r of Done x \<Rightarrow> Q x d' | Raises e \<Rightarrow> R e d' | Died \<Rightarrow> X d'" by (rule triple_D [OF m p r])
  show "case andthen m f env (d, n) of (Done x, d', n') \<Rightarrow> Q' x d' | (Raises e, d', n') \<Rightarrow> R e d' | (Died, d', n') \<Rightarrow> X d'"
  proof (cases r)
    case (Done x)
    with q have "Q x d'" by simp
    with f [of x] show ?thesis unfolding triple_def by (simp add: andthen_def r Done)
  qed (use q r in \<open>simp_all add: andthen_def\<close>)
qed

lemma triple_rescue:
  assumes m: "triple P m Q R X" and h: "\<And>e. triple (R e) (h e) Q R' X"
  shows "triple P (rescue m h) Q R' X"
  unfolding triple_def
proof (intro allI impI)
  fix env d n assume p: "P d"
  obtain r d' n' where r: "m env (d, n) = (r, d', n')" by (cases "m env (d, n)")
  have q: "case r of Done x \<Rightarrow> Q x d' | Raises e \<Rightarrow> R e d' | Died \<Rightarrow> X d'" by (rule triple_D [OF m p r])
  show "case rescue m h env (d, n) of (Done x, d', n') \<Rightarrow> Q x d' | (Raises e, d', n') \<Rightarrow> R' e d' | (Died, d', n') \<Rightarrow> X d'"
  proof (cases r)
    case (Raises e)
    with q have "R e d'" by simp
    with h [of e] show ?thesis unfolding triple_def by (simp add: rescue_def r Raises)
  qed (use q r in \<open>simp_all add: rescue_def\<close>)
qed

lemma triple_pure: "(\<And>x d. r = Inr x \<Longrightarrow> P d \<Longrightarrow> Q x d) \<Longrightarrow> (\<And>e d. r = Inl e \<Longrightarrow> P d \<Longrightarrow> R e d) \<Longrightarrow> triple P (pure_step r) Q R X"
  by (cases r) (simp_all add: pure_step_def triple_give triple_throw)

lemma triple_look: "(\<And>d. P d \<Longrightarrow> Q (f d) d) \<Longrightarrow> triple P (look f) Q R X"
  by (simp add: triple_def look_def)

lemma triple_durable:
  "(\<And>d. P d \<Longrightarrow> Q () (f d) \<and> R e d \<and> R e (f d) \<and> X d \<and> X (f d)) \<Longrightarrow> triple P (durable e f) Q R X"
  by (auto simp: triple_def durable_def split: fault.splits)

lemma triple_probe: "(\<And>d. P d \<Longrightarrow> Q () d \<and> R e d \<and> X d) \<Longrightarrow> triple P (probe e) Q R X"
  unfolding probe_def by (rule triple_durable) simp

lemma triple_if: "(b \<Longrightarrow> triple P m Q R X) \<Longrightarrow> (\<not> b \<Longrightarrow> triple P m' Q R X) \<Longrightarrow> triple P (if b then m else m') Q R X"
  by simp

text \<open>A precondition that does not depend on the state.\<close>

lemma triple_fact: "(\<And>d. P d \<Longrightarrow> F) \<Longrightarrow> (F \<Longrightarrow> triple P m Q R X) \<Longrightarrow> triple P m Q R X"
  unfolding triple_def by (fastforce split: prod.splits outcome.splits)

lemma triple_foreach:
  assumes "\<And>x. x \<in> set xs \<Longrightarrow> triple I (f x) (\<lambda>_. I) R X"
  shows "triple I (foreach f xs) (\<lambda>_. I) R X"
  using assms
proof (induction xs)
  case (Cons x xs)
  have "triple I (foreach f xs) (\<lambda>_. I) R X" by (rule Cons.IH) (rule Cons.prems, simp)
  moreover have "triple I (f x) (\<lambda>_. I) R X" by (rule Cons.prems) simp
  ultimately show ?case by (auto intro: triple_andthen)
qed (simp add: triple_give)

lemma triple_mapm:
  assumes "\<And>x. x \<in> set xs \<Longrightarrow> triple I (f x) (\<lambda>_. I) R X"
  shows "triple I (mapm f xs) (\<lambda>_. I) R X"
  using assms
proof (induction xs)
  case (Cons x xs)
  have "triple I (mapm f xs) (\<lambda>_. I) R X" by (rule Cons.IH) (rule Cons.prems, simp)
  moreover have "triple I (f x) (\<lambda>_. I) R X" by (rule Cons.prems) simp
  ultimately show ?case by (auto intro!: triple_andthen [where Q = "\<lambda>_. I"] triple_give)
qed (simp add: triple_give)

text \<open>A precondition may be fixed to one state.\<close>

lemma triple_each: "(\<And>D. P D \<Longrightarrow> triple (\<lambda>d. d = D) m Q R X) \<Longrightarrow> triple P m Q R X"
  unfolding triple_def by (intro allI impI) simp

lemma triple_weaken:
  "triple P m Q' R' X' \<Longrightarrow> (\<And>x d. Q' x d \<Longrightarrow> Q x d) \<Longrightarrow> (\<And>e d. R' e d \<Longrightarrow> R e d) \<Longrightarrow> (\<And>d. X' d \<Longrightarrow> X d) \<Longrightarrow> triple P m Q R X"
  unfolding triple_def by (fastforce split: prod.splits outcome.splits)

section \<open>Programs that only read\<close>

text \<open>\<open>reads m \<phi>\<close>: the program leaves the state as it is, and its result fits the state.\<close>

definition reads :: "('d, 'e, 'a) program \<Rightarrow> ('a \<Rightarrow> 'd \<Rightarrow> bool) \<Rightarrow> bool" where
  "reads m \<phi> \<longleftrightarrow> (\<forall>D. triple (\<lambda>d. d = D) m (\<lambda>x d. d = D \<and> \<phi> x D) (\<lambda>_ d. d = D) (\<lambda>d. d = D))"

lemma triple_reads:
  assumes "reads m \<phi>" and "\<And>x d. P d \<Longrightarrow> \<phi> x d \<Longrightarrow> Q x d" and "\<And>e d. P d \<Longrightarrow> R e d" and "\<And>d. P d \<Longrightarrow> X d"
  shows "triple P m Q R X"
  by (rule triple_each, rule triple_weaken [OF assms(1) [unfolded reads_def, rule_format]]) (use assms in auto)

lemma reads_conseq: "reads m \<phi> \<Longrightarrow> (\<And>x d. \<phi> x d \<Longrightarrow> \<psi> x d) \<Longrightarrow> reads m \<psi>"
  unfolding reads_def by (fast intro: triple_weaken)

lemma reads_give: "(\<And>d. \<phi> x d) \<Longrightarrow> reads (give x) \<phi>"
  unfolding reads_def by (auto intro!: triple_give)

lemma reads_throw: "reads (throw e) \<phi>"
  unfolding reads_def by (auto intro!: triple_throw)

lemma reads_look: "(\<And>d. \<phi> (f d) d) \<Longrightarrow> reads (look f) \<phi>"
  unfolding reads_def by (auto intro!: triple_look)

lemma reads_probe: "(\<And>d. \<phi> () d) \<Longrightarrow> reads (probe e) \<phi>"
  unfolding reads_def by (auto intro!: triple_probe)

lemma reads_pure: "(\<And>x d. r = Inr x \<Longrightarrow> \<phi> x d) \<Longrightarrow> reads (pure_step r) \<phi>"
  unfolding reads_def by (auto intro: triple_pure)

lemma reads_andthen: "reads m \<phi> \<Longrightarrow> (\<And>x. reads (f x) (\<lambda>y d. \<phi> x d \<longrightarrow> \<psi> y d)) \<Longrightarrow> reads (andthen m f) \<psi>"
  unfolding reads_def
proof (intro allI)
  fix D assume m: "\<forall>D. triple (\<lambda>d. d = D) m (\<lambda>x d. d = D \<and> \<phi> x D) (\<lambda>_ d. d = D) (\<lambda>d. d = D)"
    and f: "\<And>x. \<forall>D. triple (\<lambda>d. d = D) (f x) (\<lambda>y d. d = D \<and> (\<phi> x D \<longrightarrow> \<psi> y D)) (\<lambda>_ d. d = D) (\<lambda>d. d = D)"
  show "triple (\<lambda>d. d = D) (andthen m f) (\<lambda>x d. d = D \<and> \<psi> x D) (\<lambda>_ d. d = D) (\<lambda>d. d = D)"
  proof (rule triple_andthen [OF m [rule_format]])
    fix x
    show "triple (\<lambda>d. d = D \<and> \<phi> x D) (f x) (\<lambda>y d. d = D \<and> \<psi> y D) (\<lambda>_ d. d = D) (\<lambda>d. d = D)"
      by (rule triple_fact [where F = "\<phi> x D"], simp, rule triple_conseq [OF f [rule_format]]) auto
  qed
qed

lemma reads_if: "(b \<Longrightarrow> reads m \<phi>) \<Longrightarrow> (\<not> b \<Longrightarrow> reads m' \<phi>) \<Longrightarrow> reads (if b then m else m') \<phi>"
  by simp

lemma reads_rescue:
  assumes "reads m \<phi>" and "\<And>e. reads (h e) \<phi>"
  shows "reads (rescue m h) \<phi>"
  unfolding reads_def
  by (intro allI triple_rescue) (rule assms [unfolded reads_def, rule_format])+

lemma reads_mapm:
  assumes "\<And>x. x \<in> set xs \<Longrightarrow> reads (f x) (\<phi> x)"
  shows "reads (mapm f xs) (\<lambda>ys d. list_all2 (\<lambda>x y. \<phi> x y d) xs ys)"
  using assms
proof (induction xs)
  case (Cons x xs)
  have "reads (mapm f xs) (\<lambda>ys d. list_all2 (\<lambda>x y. \<phi> x y d) xs ys)" by (rule Cons.IH) (rule Cons.prems, simp)
  moreover have "reads (f x) (\<phi> x)" by (rule Cons.prems) simp
  ultimately show ?case
    by (auto intro!: reads_andthen [where \<phi> = "\<phi> x"] reads_andthen [where \<phi> = "\<lambda>ys d. list_all2 (\<lambda>x y. \<phi> x y d) xs ys"]
        reads_give elim: reads_conseq)
qed (simp add: reads_give)

lemma reads_run:
  assumes "reads m \<phi>"
  shows "reads m (\<lambda>x d. \<phi> x d \<and> (\<exists>env n n'. m env (d, n) = (Done x, d, n')))"
  unfolding reads_def triple_def
proof (intro allI impI)
  fix D env d n assume d: "(d :: 'a) = D"
  obtain r d' n' where r: "m env (d, n) = (r, d', n')" by (cases "m env (d, n)")
  have t: "case r of Done x \<Rightarrow> d' = D \<and> \<phi> x D | Raises e \<Rightarrow> d' = D | Died \<Rightarrow> d' = D"
    by (rule triple_D [OF assms [unfolded reads_def, rule_format] d r])
  show "case m env (d, n) of (Done x, d', n') \<Rightarrow> d' = D \<and> \<phi> x D \<and> (\<exists>env n n'. m env (D, n) = (Done x, D, n'))
      | (Raises e, d', n') \<Rightarrow> d' = D | (Died, d', n') \<Rightarrow> d' = D"
  proof (cases r)
    case (Done x)
    with t r d have "m env (D, n) = (Done x, D, n')" by simp
    then show ?thesis using t r d Done by auto
  qed (use t r in simp_all)
qed

lemma reads_run_D: "reads m \<phi> \<Longrightarrow> m env (d, n) = (Done x, d', n') \<Longrightarrow> d' = d \<and> \<phi> x d"
  using triple_D [of "\<lambda>d'. d' = d" m "\<lambda>x d'. d' = d \<and> \<phi> x d"] by (fastforce simp: reads_def)

named_theorems reads_rules \<open>programs that only read\<close>

lemmas [reads_rules] = reads_give reads_throw reads_look reads_probe reads_pure reads_if

end
