(* ===== verification/Journal.thy ===== *)
theory Journal
  imports Durable Store
begin

text \<open>
  The journal of local operations (\<open>operation_journal.py\<close>): encrypted records, the index of pending
  operations and the receipts of finished ones, next to the metadata file and the credential
  accounts. Every file is replaced atomically, which is one durable step.

  A record file holds the record or is unreadable (\<open>None\<close>: truncated, forged or of another key);
  the encryption and the key derivation are not modelled. The checks of owner, mode and type of the
  files are the file system's: they may fail, like every read. Other writers are kept out by the
  profile lock. The reserved accounts of the program, the journal key among them, are not part of
  \<open>dk_accounts\<close>.
\<close>

section \<open>Disk\<close>

datatype fail_kind = Fault | Journal_error | Journal_missing | Recovery_required | Incomplete_rollback | Has_dependents
  | Concurrent | Mutation_required | Bad_value | From_store serr | From_model verr

record op_record =
  or_id :: string
  or_kind :: string
  or_stage :: string
  or_status :: string
  or_created :: string
  or_updated :: string
  or_state :: json
  or_result :: json
  or_error :: json

record disk =
  dk_meta :: metadata
  dk_accounts :: "(string \<times> string) list"
  dk_index :: "(string \<times> string) list option"
  dk_records :: "(string \<times> op_record option) list"
  dk_receipts :: "op_record list option"

type_synonym 'a job = "(disk, fail_kind, 'a) program"

abbreviation require :: "bool \<Rightarrow> fail_kind \<Rightarrow> unit job" where
  "require b e \<equiv> pure_step (ensure b e)"

definition upsert :: "'k \<Rightarrow> 'v \<Rightarrow> ('k \<times> 'v) list \<Rightarrow> ('k \<times> 'v) list" where
  "upsert k v m = (k, v) # filter (\<lambda>kv. fst kv \<noteq> k) m"

definition remove_key :: "'k \<Rightarrow> ('k \<times> 'v) list \<Rightarrow> ('k \<times> 'v) list" where
  "remove_key k m = filter (\<lambda>kv. fst kv \<noteq> k) m"

section \<open>Records\<close>

definition op_finished :: "op_record \<Rightarrow> bool" where
  "op_finished r = (or_status r = ''completed'' \<or> or_status r = ''failed'')"

definition record_data :: "op_record \<Rightarrow> json" where
  "record_data r = JObj [(''schema'', JInt 1), (''operation_id'', JStr (or_id r)), (''kind'', JStr (or_kind r)),
     (''stage'', JStr (or_stage r)), (''status'', JStr (or_status r)), (''created_at'', JStr (or_created r)),
     (''updated_at'', JStr (or_updated r)), (''state'', or_state r), (''result'', or_result r), (''error_code'', or_error r)]"

abbreviation MAX_JOURNAL_BYTES :: int where "MAX_JOURNAL_BYTES \<equiv> 167772160"
abbreviation MAX_INDEX_BYTES :: int where "MAX_INDEX_BYTES \<equiv> 1048576"
abbreviation MAX_RECOVERY_RECORDS :: int where "MAX_RECOVERY_RECORDS \<equiv> 10000"
abbreviation MAX_RECEIPTS :: int where "MAX_RECEIPTS \<equiv> 64"
abbreviation MAX_RECEIPTS_BYTES :: int where "MAX_RECEIPTS_BYTES \<equiv> 1048576"

text \<open>The limits on what is written: strict JSON, and a size that can be read back.\<close>

definition record_fits :: "op_record \<Rightarrow> bool" where
  "record_fits r = (finite_json (record_data r) \<and> len (canonical_text (record_data r)) + 48 \<le> MAX_JOURNAL_BYTES)"

definition receipts_data :: "op_record list \<Rightarrow> json" where
  "receipts_data rs = JObj [(''schema'', JInt 1), (''kind'', JStr ''terminal_receipts''),
     (''records'', JList (map (\<lambda>r. record_data (r\<lparr>or_state := JObj []\<rparr>)) rs))]"

definition receipts_fit :: "op_record list \<Rightarrow> bool" where
  "receipts_fit rs = (finite_json (receipts_data rs) \<and> len (canonical_text (receipts_data rs)) + 48 \<le> MAX_RECEIPTS_BYTES)"

definition index_data :: "(string \<times> string) list \<Rightarrow> json" where
  "index_data es = JObj [(''schema'', JInt 1),
     (''operations'', JList (map (\<lambda>(i, k). JObj [(''operation_id'', JStr i), (''kind'', JStr k)]) es))]"

definition valid_token :: "string \<Rightarrow> bool" where
  "valid_token = headed is_lower (\<lambda>c. is_lower c \<or> is_digit c \<or> c \<in> {CHR ''_'', CHR ''.'', CHR ''-''}) 63"

section \<open>Files\<close>

definition read_index :: "(string \<times> string) list job" where
  "read_index = andthen (probe Journal_error) (\<lambda>_. andthen (look dk_index) (\<lambda>x. case x of
       None \<Rightarrow> throw Journal_error | Some es \<Rightarrow> give es))"

definition write_index :: "(string \<times> string) list \<Rightarrow> unit job" where
  "write_index es = andthen (require (len (canonical_text (index_data es)) \<le> MAX_INDEX_BYTES) Journal_error) (\<lambda>_.
     durable Fault (\<lambda>d. d\<lparr>dk_index := Some es\<rparr>))"

definition add_pending :: "string \<Rightarrow> string \<Rightarrow> unit job" where
  "add_pending i k = andthen read_index (\<lambda>es.
     andthen (require (len es < MAX_RECOVERY_RECORDS) Journal_error) (\<lambda>_.
     andthen (require (i \<notin> set (map fst es)) Journal_error) (\<lambda>_.
     write_index (es @ [(i, k)]))))"

definition remove_pending :: "string \<Rightarrow> unit job" where
  "remove_pending i = andthen read_index (\<lambda>es.
     if i \<in> set (map fst es) then write_index (remove_key i es) else give ())"

definition read_receipts :: "op_record list job" where
  "read_receipts = andthen (probe Journal_error) (\<lambda>_. andthen (look dk_receipts) (\<lambda>x. case x of
       None \<Rightarrow> throw Journal_error
     | Some rs \<Rightarrow>
         andthen (require (len rs \<le> MAX_RECEIPTS \<and> distinct (map or_id rs)
           \<and> list_all (\<lambda>r. op_finished r \<and> or_state r = JObj [] \<and> receipts_fit [r]) rs) Journal_error) (\<lambda>_. give rs)))"

text \<open>At most 64 receipts, and fewer when they do not fit.\<close>

fun trim_receipts :: "op_record list \<Rightarrow> fail_kind + op_record list" where
  "trim_receipts [] = (if receipts_fit [] then Inr [] else Inl Journal_error)"
| "trim_receipts (r # rs) = (if receipts_fit (r # rs) then Inr (r # rs)
     else if rs = [] then Inl Journal_error else trim_receipts rs)"

definition last_n :: "int \<Rightarrow> 'a list \<Rightarrow> 'a list" where
  "last_n n xs = drop (nat (len xs - n)) xs"

definition write_receipts :: "op_record list \<Rightarrow> unit job" where
  "write_receipts rs = andthen (pure_step (trim_receipts (last_n MAX_RECEIPTS rs))) (\<lambda>rs'.
     durable Fault (\<lambda>d. d\<lparr>dk_receipts := Some (map (\<lambda>r. r\<lparr>or_state := JObj []\<rparr>) rs')\<rparr>))"

definition write_record :: "op_record \<Rightarrow> unit job" where
  "write_record r = andthen (require (record_fits r) Journal_error) (\<lambda>_.
     durable Fault (\<lambda>d. d\<lparr>dk_records := upsert (or_id r) (Some r) (dk_records d)\<rparr>))"

definition unlink_record :: "string \<Rightarrow> unit job" where
  "unlink_record i = durable Fault (\<lambda>d. d\<lparr>dk_records := remove_key i (dk_records d)\<rparr>)"

definition read_operation :: "string \<Rightarrow> op_record job" where
  "read_operation i = andthen (probe Journal_error) (\<lambda>_. andthen (look (\<lambda>d. map_of (dk_records d) i)) (\<lambda>x. case x of
       Some (Some r) \<Rightarrow> andthen (require (or_id r = i) Journal_error) (\<lambda>_. give r)
     | Some None \<Rightarrow> throw Journal_error
     | None \<Rightarrow> andthen read_receipts (\<lambda>rs. case find (\<lambda>r. or_id r = i) rs of None \<Rightarrow> throw Journal_missing | Some r \<Rightarrow> give r)))"

section \<open>Operations\<close>

text \<open>\<open>begin\<close>: the marker first. When the record can not be written, the marker is removed only if there
  certainly is no record. The probe is the key of the journal.\<close>

definition begin_operation :: "string \<Rightarrow> string \<Rightarrow> string \<Rightarrow> json \<Rightarrow> op_record job" where
  "begin_operation now i kind state =
     andthen (require (valid_token kind) Bad_value) (\<lambda>_.
     let r = \<lparr>or_id = i, or_kind = kind, or_stage = ''prepared'', or_status = ''pending'', or_created = now, or_updated = now,
              or_state = state, or_result = JNull, or_error = JNull\<rparr> in
     andthen (look (\<lambda>d. map_of (dk_records d) i \<noteq> None)) (\<lambda>present.
     andthen (if present then give [] else read_receipts) (\<lambda>rs.
     andthen (require (\<not> present \<and> i \<notin> set (map or_id rs)) Journal_error) (\<lambda>_.
     andthen (probe Journal_error) (\<lambda>_.
     andthen (add_pending i kind) (\<lambda>_.
     andthen (rescue (write_record r) (\<lambda>e.
        andthen (look (\<lambda>d. map_of (dk_records d) i = None)) (\<lambda>absent.
        andthen (if absent then remove_pending i else give ()) (\<lambda>_. throw e)))) (\<lambda>_.
     give r)))))))"

definition stage_operation :: "string \<Rightarrow> string \<Rightarrow> string \<Rightarrow> json option \<Rightarrow> op_record job" where
  "stage_operation now i stage state =
     andthen (require (valid_token stage) Bad_value) (\<lambda>_.
     andthen (read_operation i) (\<lambda>r.
     andthen (require (\<not> op_finished r) Journal_error) (\<lambda>_.
     let r' = r\<lparr>or_stage := stage, or_updated := now, or_state := (case state of None \<Rightarrow> or_state r | Some s \<Rightarrow> s)\<rparr> in
     andthen (write_record r') (\<lambda>_. give r'))))"

text \<open>The receipt is durable before the marker goes, and the marker goes before the record.\<close>

definition archive_finished :: "op_record \<Rightarrow> unit job" where
  "archive_finished r =
     andthen (require (op_finished r) Journal_error) (\<lambda>_.
     andthen read_receipts (\<lambda>rs.
     andthen (write_receipts (filter (\<lambda>x. or_id x \<noteq> or_id r) rs @ [r])) (\<lambda>_.
     andthen (remove_pending (or_id r)) (\<lambda>_.
     andthen (unlink_record (or_id r)) (\<lambda>_.
     probe Fault)))))"

definition close_operation :: "string \<Rightarrow> string \<Rightarrow> string \<Rightarrow> json \<Rightarrow> json \<Rightarrow> op_record job" where
  "close_operation now i status result code =
     andthen (read_operation i) (\<lambda>r.
     if op_finished r then
       (if or_status r = status then
          andthen (look (\<lambda>d. map_of (dk_records d) i \<noteq> None)) (\<lambda>present.
          andthen (if present then archive_finished r else remove_pending i) (\<lambda>_. give r))
        else throw Journal_error)
     else
       let r' = r\<lparr>or_stage := (if status = ''completed'' then ''finished'' else ''failed''), or_status := status, or_updated := now,
                  or_result := result, or_error := code\<rparr> in
       andthen (require (receipts_fit [r']) Journal_error) (\<lambda>_.
       andthen read_receipts (\<lambda>_.
       andthen (write_record r') (\<lambda>_.
       andthen (archive_finished r') (\<lambda>_. give r')))))"

definition finish_operation :: "string \<Rightarrow> string \<Rightarrow> json \<Rightarrow> op_record job" where
  "finish_operation now i result = close_operation now i ''completed'' result JNull"

definition fail_operation :: "string \<Rightarrow> string \<Rightarrow> string \<Rightarrow> op_record job" where
  "fail_operation now i code =
     andthen (require (valid_token code) Bad_value) (\<lambda>_. close_operation now i ''failed'' JNull (JStr code))"

definition pending_refs :: "string \<Rightarrow> (string \<times> string) list job" where
  "pending_refs kind = andthen read_index (\<lambda>es. give (filter (\<lambda>e. snd e = kind) es))"

text \<open>\<open>list_unfinished\<close>: everything is read before anything is written. The directory can not change under
  the lock; its preflight is a probe. Records are read in the order of their names.\<close>

definition ordered_receipts :: "op_record list \<Rightarrow> op_record list" where
  "ordered_receipts rs = sort_key or_updated (sort_key or_id rs)"

definition list_unfinished :: "op_record list job" where
  "list_unfinished =
     andthen (probe Journal_error) (\<lambda>_.
     andthen read_index (\<lambda>pending.
     andthen (require (len pending \<le> MAX_RECOVERY_RECORDS) Journal_error) (\<lambda>_.
     andthen read_receipts (\<lambda>receipts.
     andthen (look (\<lambda>d. sort (map fst (dk_records d)))) (\<lambda>names.
     andthen (mapm read_operation names) (\<lambda>rs.
     let terminal = filter op_finished rs; unfinished = filter (\<lambda>r. \<not> op_finished r) rs;
         by_op = (\<lambda>i. map_of (map (\<lambda>r. (or_id r, r)) (rs @ receipts)) i);
         done_ids = map or_id (filter op_finished (rs @ receipts));
         kept = filter (\<lambda>e. fst e \<notin> set done_ids \<or> (case by_op (fst e) of None \<Rightarrow> False | Some r \<Rightarrow> \<not> op_finished r)) pending in
     andthen (require (list_all (\<lambda>r. receipts_fit [r]) terminal \<and> len unfinished \<le> MAX_RECOVERY_RECORDS) Journal_error) (\<lambda>_.
     andthen (require (list_all (\<lambda>e. case by_op (fst e) of None \<Rightarrow> False | Some r \<Rightarrow> or_kind r = snd e) pending) Journal_error) (\<lambda>_.
     andthen (if terminal = [] then give ()
        else write_receipts (ordered_receipts (filter (\<lambda>r. or_id r \<notin> set (map or_id terminal)) receipts @ terminal))) (\<lambda>_.
     andthen (if kept = pending then give () else write_index kept) (\<lambda>_.
     andthen (foreach (\<lambda>r. unlink_record (or_id r)) terminal) (\<lambda>_.
     andthen (probe Journal_error) (\<lambda>_. give unfinished))))))))))))"

end
