(* ===== verification/Master_State.thy ===== *)
theory Master_State
  imports Journal
begin

text \<open>
  The state of a master mutation (\<open>master_journal.py\<close>): the images of entries, metadata and accounts
  that its journal record holds, their validation, and the changes they describe, on a transaction of
  the metadata store.
\<close>

abbreviation MASTER :: string where "MASTER \<equiv> ''master_mutation''"

section \<open>Transactions\<close>

text \<open>
  \<open>tx_data\<close> holds the rest of the metadata. \<open>commit_tx\<close> is \<open>_commit\<close>: the records are normalised in
  place, so the slots hold them afterwards.
\<close>

record transaction =
  tx_slots :: slots
  tx_data :: metadata

definition open_tx :: "metadata \<Rightarrow> transaction" where
  "open_tx m = \<lparr>tx_slots = reset_entries (md_entries m), tx_data = m\<rparr>"

definition tx_metadata :: "transaction \<Rightarrow> metadata" where
  "tx_metadata t = (tx_data t)\<lparr>md_entries := materialize (tx_slots t)\<rparr>"

definition tx_revision :: "crypto \<Rightarrow> transaction \<Rightarrow> string" where
  "tx_revision C t = metadata_revision C (tx_metadata t)"

definition commit_tx :: "(nat \<Rightarrow> string) \<Rightarrow> transaction \<Rightarrow> fail_kind + transaction" where
  "commit_tx fresh t =
     (let m = tx_metadata t in
      if 3 \<le> md_version m then
        let m' = m\<lparr>md_entries := normalize_v3_entries fresh (md_entries m)\<rparr> in
        rbind (map_err From_store (validate_v3_data m')) (\<lambda>_. Inr (open_tx m'))
      else Inr (open_tx m))"

definition in_slots :: "(slots \<Rightarrow> serr + slots) \<Rightarrow> transaction \<Rightarrow> fail_kind + transaction" where
  "in_slots f t = rbind (map_err From_store (f (tx_slots t))) (\<lambda>s. Inr (t\<lparr>tx_slots := s\<rparr>))"

definition tx_delete_by_name :: "string \<Rightarrow> string \<Rightarrow> transaction \<Rightarrow> fail_kind + transaction" where
  "tx_delete_by_name now n t =
     rbind (map_err From_store (tx_delete n (tx_slots t))) (\<lambda>(s, r).
     rbind (map_err From_model (entry_from_dict r)) (\<lambda>e.
     Inr \<lparr>tx_slots = s, tx_data = (tx_data t)\<lparr>md_tombstones := md_tombstones (tx_data t) @ [tombstone_for now e]\<rparr>\<rparr>))"

definition tx_set_catalog :: "json \<Rightarrow> transaction \<Rightarrow> fail_kind + transaction" where
  "tx_set_catalog c t =
     rbind (map_err From_store (set_catalog_state c (tx_slots t) (tx_data t))) (\<lambda>m. Inr (t\<lparr>tx_data := m\<rparr>))"

definition tx_replace_all :: "entry list \<Rightarrow> json list \<Rightarrow> transaction \<Rightarrow> transaction" where
  "tx_replace_all es ts t = (case replace_all es ts (tx_data t) of (s, m) \<Rightarrow> \<lparr>tx_slots = s, tx_data = m\<rparr>)"

definition entry_by_id :: "string \<Rightarrow> transaction \<Rightarrow> fail_kind + entry option" where
  "entry_by_id i t = map_err From_store (tx_get_by_id i (tx_slots t))"

definition entry_by_name :: "string \<Rightarrow> transaction \<Rightarrow> fail_kind + entry option" where
  "entry_by_name n t = map_err From_store (tx_get_by_name n (tx_slots t))"

definition tx_entries :: "transaction \<Rightarrow> fail_kind + entry list" where
  "tx_entries t = map_err From_store (tx_list (tx_slots t))"

section \<open>Images\<close>

text \<open>Dictionaries are equal whatever the order of their members.\<close>

definition same_json :: "json \<Rightarrow> json \<Rightarrow> bool" where
  "same_json a b = (canonical_text a = canonical_text b)"

definition same_entry :: "entry \<Rightarrow> entry \<Rightarrow> bool" where
  "same_entry a b = same_json (entry_to_dict a) (entry_to_dict b)"

definition entry_dict :: "entry option \<Rightarrow> json" where
  "entry_dict e = (case e of None \<Rightarrow> JNull | Some x \<Rightarrow> entry_to_dict x)"

definition legacy_containers :: "json \<Rightarrow> bool" where
  "legacy_containers v = (is_obj (get_or (JObj []) v ''fields'') \<and> is_list (get_or (JList []) v ''tags'')
     \<and> is_list (get_or (JList []) v ''refs'') \<and> list_all is_obj (items (get_or (JList []) v ''refs''))
     \<and> (\<exists>s. fld v ''created_at'' = JStr s) \<and> (\<exists>s. fld v ''updated_at'' = JStr s))"

definition entry_image :: "bool \<Rightarrow> bool \<Rightarrow> json \<Rightarrow> fail_kind + entry option" where
  "entry_image optional legacy v =
     (if v = JNull \<and> optional then Inr None
      else rbind (ensure (is_obj v) Recovery_required) (\<lambda>_.
        map_err (\<lambda>_. Recovery_required)
          (rbind (if legacy then
             rbind (validate_entry_id (fld v ''id'')) (\<lambda>_.
             rbind (validate_name (fld v ''name'')) (\<lambda>_.
             rbind (ensure (legacy_containers v) Value_err) (\<lambda>_. entry_from_dict v)))
           else from_untrusted_dict False True v) (\<lambda>e. Inr (Some e)))))"

definition entry_images :: "bool \<Rightarrow> json list \<Rightarrow> fail_kind + entry list" where
  "entry_images legacy vs = rmap (\<lambda>v. rbind (entry_image False legacy v) (\<lambda>e. Inr (the e))) vs"

text \<open>An account is absent, or present with a value. A dictionary has no key twice.\<close>

definition account_image_ok :: "json \<Rightarrow> bool" where
  "account_image_ok m = ((exact_keys [''present''] m \<or> exact_keys [''present'', ''value''] m)
     \<and> (case fld m ''present'' of
          JBool True \<Rightarrow> (\<exists>s. fld m ''value'' = JStr s)
        | JBool False \<Rightarrow> \<not> has_key m ''value''
        | _ \<Rightarrow> False))"

definition validate_account_images :: "json \<Rightarrow> fail_kind + unit" where
  "validate_account_images v =
     rbind (ensure (is_obj v \<and> distinct (map fst (members v))) Recovery_required) (\<lambda>_.
     each (\<lambda>kv. ensure (account_image_ok (snd kv)) Recovery_required) (members v))"

definition present_image :: "string \<Rightarrow> json" where
  "present_image s = JObj [(''present'', JBool True), (''value'', JStr s)]"

definition absent_image :: json where
  "absent_image = JObj [(''present'', JBool False)]"

definition account_names :: "json \<Rightarrow> string set" where
  "account_names v = set (map fst (members v))"

section \<open>Validation of the state\<close>

text \<open>\<open>v == 1\<close> and \<open>v == 2\<close>: \<open>True\<close> is 1, and 1.0 and 2.0 are equal too.\<close>

definition equals_version :: "int \<Rightarrow> json \<Rightarrow> bool" where
  "equals_version n v = (case v of JInt i \<Rightarrow> i = n | JBool b \<Rightarrow> n = (if b then 1 else 0)
     | JFloat f \<Rightarrow> f = (if n = 1 then ''1.0'' else ''2.0'') | _ \<Rightarrow> False)"

definition revision_text :: "json \<Rightarrow> bool" where
  "revision_text v = (case v of JStr s \<Rightarrow> len s = 64 \<and> list_all is_hex s | _ \<Rightarrow> False)"

definition validate_metadata_image :: "bool \<Rightarrow> json \<Rightarrow> fail_kind + unit" where
  "validate_metadata_image legacy v =
     rbind (ensure (is_obj v \<and> fld v ''schema_version'' \<in> {JInt 2, JInt 3}) Recovery_required) (\<lambda>_.
     rbind (ensure (exact_keys ([''schema_version'', ''entries'', ''tombstones'']
              @ (if fld v ''schema_version'' = JInt 3 then [''catalog''] else [])) v
            \<and> is_list (fld v ''entries'') \<and> len (items (fld v ''entries'')) \<le> 10000
            \<and> is_list (fld v ''tombstones'') \<and> len (items (fld v ''tombstones'')) \<le> 20000) Recovery_required) (\<lambda>_.
     rbind (entry_images legacy (items (fld v ''entries''))) (\<lambda>es.
     rbind (ensure (distinct (map e_id es) \<and> distinct (map e_name es)) Recovery_required) (\<lambda>_.
     map_err (\<lambda>e. if e \<in> {Invalid, Value_err} then Recovery_required else From_model e)
       (rbind (each (\<lambda>t. rbind (validate_tombstone t) (\<lambda>_. Inr ())) (items (fld v ''tombstones''))) (\<lambda>_.
        if fld v ''schema_version'' = JInt 3
        then rbind (catalog_from_dict (set (map e_id es)) (fld v ''catalog'')) (\<lambda>_. Inr ()) else Inr ()))))))"

definition image_ids :: "json \<Rightarrow> string set" where
  "image_ids v = set (map rec_id (items (fld v ''entries'') @ items (fld v ''tombstones'')))"

definition with_passphrases :: "string set \<Rightarrow> string set" where
  "with_passphrases X = X \<union> (\<lambda>x. x @ '':passphrase'') ` X"

definition validate_replacement_state :: "json \<Rightarrow> fail_kind + unit" where
  "validate_replacement_state v =
     rbind (ensure (exact_keys [''schema_version'', ''action'', ''before_revision'', ''after_revision'', ''metadata_before'',
              ''metadata_after'', ''accounts_before'', ''accounts_after''] v \<and> fld v ''action'' = JStr ''replace_all'') Recovery_required) (\<lambda>_.
     rbind (ensure (revision_text (fld v ''before_revision'')) Recovery_required) (\<lambda>_.
     rbind (ensure (fld v ''after_revision'' = JNull \<or> revision_text (fld v ''after_revision'')) Recovery_required) (\<lambda>_.
     rbind (validate_metadata_image True (fld v ''metadata_before'')) (\<lambda>_.
     rbind (validate_metadata_image False (fld v ''metadata_after'')) (\<lambda>_.
     rbind (ensure (fld (fld v ''metadata_before'') ''schema_version'' = fld (fld v ''metadata_after'') ''schema_version'') Recovery_required) (\<lambda>_.
     rbind (validate_account_images (fld v ''accounts_before'')) (\<lambda>_.
     rbind (validate_account_images (fld v ''accounts_after'')) (\<lambda>_.
     rbind (ensure (account_names (fld v ''accounts_before'') = account_names (fld v ''accounts_after'')) Recovery_required) (\<lambda>_.
     ensure (account_names (fld v ''accounts_after'')
               \<subseteq> with_passphrases (image_ids (fld v ''metadata_before'') \<union> image_ids (fld v ''metadata_after''))) Recovery_required)))))))))"

definition MUTATION_FIELDS :: "string list" where
  "MUTATION_FIELDS = [''schema_version'', ''action'', ''before_revision'', ''after_revision'', ''entry_before'', ''entry_after'',
     ''dependents_before'', ''dependents_after'', ''catalog_before'', ''catalog_after'', ''accounts_before'', ''accounts_after'']"

text \<open>What the actions ask of the entries.\<close>

definition check_action :: "json \<Rightarrow> entry option \<Rightarrow> entry option \<Rightarrow> fail_kind + unit" where
  "check_action v before after =
     (let none = (fld v ''dependents_before'' = JList [] \<and> fld v ''dependents_after'' = JList []) in
      if fld v ''action'' = JStr ''create'' then
        rbind (ensure (case after of None \<Rightarrow> False | Some a \<Rightarrow> (case before of None \<Rightarrow> True
                 | Some b \<Rightarrow> e_id b = e_id a \<and> e_name b = e_name a)) Recovery_required) (\<lambda>_. ensure none Recovery_required)
      else if fld v ''action'' = JStr ''update'' then
        rbind (ensure (case (before, after) of (Some b, Some a) \<Rightarrow> e_id b = e_id a | _ \<Rightarrow> False) Recovery_required) (\<lambda>_.
        ensure none Recovery_required)
      else
        rbind (ensure (before \<noteq> None \<and> after = None) Recovery_required) (\<lambda>_.
        rbind (entry_images True (items (fld v ''dependents_before''))) (\<lambda>bs.
        rbind (entry_images False (items (fld v ''dependents_after''))) (\<lambda>as.
        ensure (map e_id bs = map e_id as) Recovery_required))))"

definition validate_state :: "json \<Rightarrow> fail_kind + unit" where
  "validate_state v =
     (if is_obj v \<and> equals_version 2 (fld v ''schema_version'') then validate_replacement_state v
      else
        rbind (ensure (exact_keys MUTATION_FIELDS v) Recovery_required) (\<lambda>_.
        rbind (ensure (equals_version 1 (fld v ''schema_version'')) Recovery_required) (\<lambda>_.
        rbind (map_err From_model (member_of [''create'', ''update'', ''delete''] (fld v ''action''))) (\<lambda>known.
        rbind (ensure known Recovery_required) (\<lambda>_.
        rbind (ensure (revision_text (fld v ''before_revision'')) Recovery_required) (\<lambda>_.
        rbind (ensure (fld v ''after_revision'' = JNull \<or> revision_text (fld v ''after_revision'')) Recovery_required) (\<lambda>_.
        rbind (entry_image True True (fld v ''entry_before'')) (\<lambda>before.
        rbind (entry_image True False (fld v ''entry_after'')) (\<lambda>after.
        rbind (ensure (is_list (fld v ''dependents_before'')) Recovery_required) (\<lambda>_.
        rbind (entry_images True (items (fld v ''dependents_before''))) (\<lambda>_.
        rbind (ensure (is_list (fld v ''dependents_after'')) Recovery_required) (\<lambda>_.
        rbind (entry_images False (items (fld v ''dependents_after''))) (\<lambda>_.
        rbind (ensure ((fld v ''catalog_before'' = JNull \<and> fld v ''catalog_after'' = JNull)
                 \<or> (is_obj (fld v ''catalog_before'') \<and> is_obj (fld v ''catalog_after''))) Recovery_required) (\<lambda>_.
        rbind (validate_account_images (fld v ''accounts_before'')) (\<lambda>_.
        rbind (validate_account_images (fld v ''accounts_after'')) (\<lambda>_.
        rbind (ensure (account_names (fld v ''accounts_before'') = account_names (fld v ''accounts_after'')) Recovery_required) (\<lambda>_.
        rbind (check_action v before after) (\<lambda>_.
        let allowed = with_passphrases {e_id (case after of Some a \<Rightarrow> a | None \<Rightarrow> the before)} in
        rbind (ensure (account_names (fld v ''accounts_after'') \<subseteq> allowed) Recovery_required) (\<lambda>_.
        ensure (fld v ''action'' = JStr ''delete'' \<longrightarrow> account_names (fld v ''accounts_after'') = allowed) Recovery_required)))))))))))))))))))"

section \<open>Applying the state\<close>

definition require_catalog :: "transaction \<Rightarrow> fail_kind + json" where
  "require_catalog t = (if 3 \<le> md_version (tx_data t) then map_err From_store (catalog_state (tx_data t)) else Inr JNull)"

definition metadata_image :: "transaction \<Rightarrow> fail_kind + json" where
  "metadata_image t =
     rbind (tx_entries t) (\<lambda>es.
     rbind (require_catalog t) (\<lambda>c.
     Inr (JObj ([(''schema_version'', JInt (md_version (tx_data t))), (''entries'', JList (map entry_to_dict es)),
                 (''tombstones'', JList (md_tombstones (tx_data t)))]
                @ (if 3 \<le> md_version (tx_data t) then [(''catalog'', c)] else [])))))"

definition require_source :: "entry option \<Rightarrow> transaction \<Rightarrow> fail_kind + unit" where
  "require_source before t =
     rbind (entry_by_id (e_id (the before)) t) (\<lambda>x.
     ensure (case x of None \<Rightarrow> False | Some c \<Rightarrow> same_entry c (the before)) Recovery_required)"

definition apply_dependent :: "entry \<times> entry \<Rightarrow> transaction \<Rightarrow> fail_kind + transaction" where
  "apply_dependent ba t = (case ba of (b, a) \<Rightarrow>
     rbind (require_source (Some b) t) (\<lambda>_. in_slots (tx_update a) t))"

definition apply_entries :: "string \<Rightarrow> json \<Rightarrow> entry option \<Rightarrow> entry option \<Rightarrow> transaction \<Rightarrow> fail_kind + transaction" where
  "apply_entries now st before after t =
     (if fld st ''action'' = JStr ''create'' then
        (case before of
           None \<Rightarrow>
             rbind (entry_by_id (e_id (the after)) t) (\<lambda>x.
             rbind (if x = None then entry_by_name (e_name (the after)) t else Inr None) (\<lambda>y.
             rbind (ensure (x = None \<and> y = None) Recovery_required) (\<lambda>_. in_slots (tx_add (the after)) t)))
         | Some b \<Rightarrow> rbind (require_source before t) (\<lambda>_. in_slots (tx_update (the after)) t))
      else if fld st ''action'' = JStr ''update'' then
        rbind (require_source before t) (\<lambda>_. in_slots (tx_update (the after)) t)
      else
        rbind (require_source before t) (\<lambda>_.
        rbind (entry_images True (items (fld st ''dependents_before''))) (\<lambda>bs.
        rbind (entry_images False (items (fld st ''dependents_after''))) (\<lambda>as.
        rbind (rfold apply_dependent (zip bs as) t) (\<lambda>t'.
        tx_delete_by_name now (e_name (the before)) t')))))"

definition apply_metadata :: "string \<Rightarrow> json \<Rightarrow> transaction \<Rightarrow> fail_kind + transaction" where
  "apply_metadata now st t =
     (if fld st ''action'' = JStr ''replace_all'' then
        rbind (metadata_image t) (\<lambda>m.
        rbind (ensure (same_json m (fld st ''metadata_before'')) Recovery_required) (\<lambda>_.
        let after = fld st ''metadata_after'' in
        rbind (entry_images False (items (fld after ''entries''))) (\<lambda>es.
        let t' = tx_replace_all es (items (fld after ''tombstones'')) t in
        if 3 \<le> int_of (fld after ''schema_version'') then tx_set_catalog (fld after ''catalog'') t' else Inr t')))
      else
        rbind (entry_image True True (fld st ''entry_before'')) (\<lambda>before.
        rbind (entry_image True False (fld st ''entry_after'')) (\<lambda>after.
        rbind (apply_entries now st before after t) (\<lambda>t'.
        if fld st ''catalog_after'' \<noteq> JNull then tx_set_catalog (fld st ''catalog_after'') t' else Inr t'))))"

text \<open>A loop that ends with the first \<open>False\<close>.\<close>

primrec rall :: "('a \<Rightarrow> 'e + bool) \<Rightarrow> 'a list \<Rightarrow> 'e + bool" where
  "rall f [] = Inr True"
| "rall f (x # xs) = rbind (f x) (\<lambda>b. if b then rall f xs else Inr False)"

definition matches_after :: "json \<Rightarrow> transaction \<Rightarrow> fail_kind + bool" where
  "matches_after st t =
     (let agrees = (\<lambda>e. rbind (entry_by_id (e_id e) t) (\<lambda>x. Inr (case x of None \<Rightarrow> False | Some c \<Rightarrow> same_entry c e)));
          catalog = rbind (require_catalog t) (\<lambda>c. Inr (same_json c (fld st ''catalog_after''))) in
      if fld st ''action'' = JStr ''replace_all'' then
        rbind (metadata_image t) (\<lambda>m. Inr (same_json m (fld st ''metadata_after'')))
      else
        rbind (entry_image True False (fld st ''entry_after'')) (\<lambda>after.
        rbind (entry_image True True (fld st ''entry_before'')) (\<lambda>before.
        rbind (if fld st ''action'' = JStr ''delete'' then
                 rbind (entry_by_id (e_id (the before)) t) (\<lambda>x. if x \<noteq> None then Inr False
                   else rbind (entry_images False (items (fld st ''dependents_after''))) (\<lambda>ds. rall agrees ds))
               else agrees (the after)) (\<lambda>ok.
        if \<not> ok then Inr False else catalog))))"

definition set_after :: "json \<Rightarrow> json \<Rightarrow> json" where
  "set_after x st = JObj (put ''after_revision'' x (members st))"

end
