(* ===== verification/Master_Pipeline.thy ===== *)
theory Master_Pipeline
  imports Master_State
begin

text \<open>
  The pipeline of master mutations (\<open>MasterMutationManager\<close>): journal, credential accounts and
  metadata, in the order in which the code changes them, and the recovery of a pending mutation.

  \<open>now\<close> is the time of the operation and \<open>fresh\<close> the identifiers that it draws; reads of the accounts and
  of the files are probes, which may fail. A write of the metadata first checks its size and writes the
  backup, which is a probe too.
\<close>

section \<open>Metadata transactions\<close>

definition read_meta :: "metadata job" where
  "read_meta =
     andthen (probe (From_store Store_error)) (\<lambda>_.
     andthen (look dk_meta) (\<lambda>m.
     andthen (pure_step (map_err From_store (validate_record_identities (md_entries m)))) (\<lambda>_.
     andthen (pure_step (if md_version m = 3 then map_err From_store (validate_v3_data m) else Inr ())) (\<lambda>_.
     give m))))"

definition write_meta :: "metadata \<Rightarrow> unit job" where
  "write_meta m = andthen (probe (From_store Store_error)) (\<lambda>_. durable (From_store Store_error) (\<lambda>d. d\<lparr>dk_meta := m\<rparr>))"

text \<open>The end of \<open>with store.transaction()\<close>.\<close>

definition closed_metadata :: "(nat \<Rightarrow> string) \<Rightarrow> transaction \<Rightarrow> fail_kind + metadata" where
  "closed_metadata fresh t = rbind (commit_tx fresh t) (\<lambda>t'. map_err From_store (finish_write fresh (tx_metadata t')))"

definition close_tx :: "(nat \<Rightarrow> string) \<Rightarrow> transaction \<Rightarrow> unit job" where
  "close_tx fresh t = andthen (pure_step (closed_metadata fresh t)) write_meta"

section \<open>Accounts\<close>

definition list_accounts :: "string list job" where
  "list_accounts = andthen (probe Fault) (\<lambda>_. look (\<lambda>d. map fst (dk_accounts d)))"

definition get_account :: "string \<Rightarrow> string job" where
  "get_account a = andthen (probe Fault) (\<lambda>_. andthen (look (\<lambda>d. map_of (dk_accounts d) a)) (\<lambda>x. case x of
       None \<Rightarrow> throw Fault | Some s \<Rightarrow> give s))"

definition set_account :: "string \<Rightarrow> string \<Rightarrow> unit job" where
  "set_account a s = durable Fault (\<lambda>d. d\<lparr>dk_accounts := upsert a s (dk_accounts d)\<rparr>)"

definition delete_account :: "string \<Rightarrow> unit job" where
  "delete_account a = durable Fault (\<lambda>d. d\<lparr>dk_accounts := remove_key a (dk_accounts d)\<rparr>)"

definition snapshot_account :: "string list \<Rightarrow> string \<Rightarrow> (string \<times> json) job" where
  "snapshot_account present a =
     (if a \<in> set present then andthen (get_account a) (\<lambda>s. give (a, present_image s)) else give (a, absent_image))"

definition snapshot_accounts :: "string list \<Rightarrow> json job" where
  "snapshot_accounts targets =
     andthen list_accounts (\<lambda>present. andthen (mapm (snapshot_account present) targets) (\<lambda>kvs. give (JObj kvs)))"

primrec apply_images :: "string list \<Rightarrow> (string \<times> json) list \<Rightarrow> unit job" where
  "apply_images present [] = give ()"
| "apply_images present (kv # kvs) = (case kv of (a, img) \<Rightarrow>
     if fld img ''present'' = JBool True then
       (let s = text_of (fld img ''value'') in
        andthen (if a \<in> set present then andthen (get_account a) (\<lambda>x. give (x = s)) else give False) (\<lambda>same.
        if same then apply_images present kvs
        else andthen (set_account a s) (\<lambda>_. apply_images (a # present) kvs)))
     else if a \<in> set present then
       andthen (delete_account a) (\<lambda>_. apply_images (filter (\<lambda>x. x \<noteq> a) present) kvs)
     else apply_images present kvs)"

definition apply_accounts :: "(string \<times> json) list \<Rightarrow> unit job" where
  "apply_accounts kvs = andthen list_accounts (\<lambda>present. apply_images present kvs)"

text \<open>Every account is tried; the failures are counted.\<close>

primrec restore_each :: "(string \<times> json) list \<Rightarrow> nat job" where
  "restore_each [] = give 0"
| "restore_each (kv # kvs) =
     andthen (rescue (andthen (apply_accounts [kv]) (\<lambda>_. give 0)) (\<lambda>_. give 1)) (\<lambda>k.
     andthen (restore_each kvs) (\<lambda>n. give (k + n)))"

definition restore_accounts :: "json \<Rightarrow> nat job" where
  "restore_accounts images = restore_each (rev (members images))"

definition required_secrets :: "json \<Rightarrow> fail_kind + string list" where
  "required_secrets st =
     (let raws = (if fld st ''action'' = JStr ''replace_all'' then items (fld (fld st ''metadata_after'') ''entries'')
                  else if fld st ''entry_after'' = JNull then [] else [fld st ''entry_after'']) in
      rbind (entry_images False raws) (\<lambda>es. Inr (map e_id (filter entry_requires_secret es))))"

text \<open>The accounts are listed once, when the first entry needs them.\<close>

primrec check_secrets :: "json \<Rightarrow> string list option \<Rightarrow> string list \<Rightarrow> unit job" where
  "check_secrets images existing [] = give ()"
| "check_secrets images existing (a # as) =
     (if has_key images a then
        andthen (require (fld (fld images a) ''present'' = JBool True) (From_model Invalid)) (\<lambda>_. check_secrets images existing as)
      else
        andthen (case existing of None \<Rightarrow> list_accounts | Some xs \<Rightarrow> give xs) (\<lambda>xs.
        andthen (require (a \<in> set xs) (From_model Invalid)) (\<lambda>_. check_secrets images (Some xs) as)))"

definition validate_required_secrets :: "json \<Rightarrow> unit job" where
  "validate_required_secrets st =
     andthen (pure_step (required_secrets st)) (\<lambda>as. check_secrets (fld st ''accounts_after'') None as)"

section \<open>A mutation\<close>

definition execute_inside :: "string \<Rightarrow> op_record \<Rightarrow> unit job" where
  "execute_inside now r =
     (let st = or_state r in
      andthen (pure_step (validate_state st)) (\<lambda>_.
      rescue
        (andthen (apply_accounts (members (fld st ''accounts_after''))) (\<lambda>_.
         andthen (stage_operation now (or_id r) ''backend_applied'' None) (\<lambda>_.
         andthen (stage_operation now (or_id r) ''metadata_prepared'' (Some st)) (\<lambda>_. give ()))))
        (\<lambda>e.
         andthen (restore_accounts (fld st ''accounts_before'')) (\<lambda>failures.
         if failures \<noteq> 0 then
           andthen (rescue (andthen (stage_operation now (or_id r) ''rollback_required'' (Some st)) (\<lambda>_. give ())) (\<lambda>_. give ()))
             (\<lambda>_. throw Incomplete_rollback)
         else andthen (fail_operation now (or_id r) ''operation_failed'') (\<lambda>_. throw e)))))"

definition commit_record :: "crypto \<Rightarrow> string \<Rightarrow> string \<Rightarrow> op_record job" where
  "commit_record C now i =
     andthen (read_operation i) (\<lambda>r.
     let st = or_state r in
     andthen (pure_step (validate_state st)) (\<lambda>_.
     andthen read_meta (\<lambda>m.
     andthen (pure_step (matches_after st (open_tx m))) (\<lambda>ok.
     andthen (require (ok \<and> (fld st ''after_revision'' = JNull
                \<or> fld st ''after_revision'' = JStr (tx_revision C (open_tx m)))) Recovery_required) (\<lambda>_.
     andthen (stage_operation now i ''metadata_committed'' (Some (set_after (JStr (tx_revision C (open_tx m))) st))) (\<lambda>_.
     finish_operation now i (JObj [(''status'', JStr ''applied'')])))))))"

text \<open>A failure after the record exists: nothing is restored unless the old revision is still there.\<close>

definition revert :: "crypto \<Rightarrow> string \<Rightarrow> string \<Rightarrow> unit job" where
  "revert C now i =
     andthen (read_operation i) (\<lambda>latest.
     if op_finished latest then give ()
     else
       let st = or_state latest in
       andthen (pure_step (validate_state st)) (\<lambda>_.
       andthen read_meta (\<lambda>m.
       andthen (pure_step (tx_entries (open_tx m))) (\<lambda>_.
       if JStr (tx_revision C (open_tx m)) = fld st ''before_revision'' then
         andthen (restore_accounts (fld st ''accounts_before'')) (\<lambda>failures.
         andthen (require (failures = 0) Incomplete_rollback) (\<lambda>_.
         andthen (fail_operation now i ''operation_failed'') (\<lambda>_. give ())))
       else give ()))))"

definition transact ::
  "crypto \<Rightarrow> string \<Rightarrow> (nat \<Rightarrow> string) \<Rightarrow> string \<Rightarrow> (transaction \<Rightarrow> (json \<times> 'r) job) \<Rightarrow> 'r job" where
  "transact C now fresh i prepare =
     andthen read_meta (\<lambda>m.
     andthen (prepare (open_tx m)) (\<lambda>(st, result).
     andthen (pure_step (validate_state st)) (\<lambda>_.
     andthen (validate_required_secrets st) (\<lambda>_.
     andthen (pure_step (rbind (apply_metadata now st (open_tx m)) (commit_tx fresh))) (\<lambda>t.
     let st' = set_after (JStr (tx_revision C t)) st in
     andthen (begin_operation now i MASTER st') (\<lambda>r.
     andthen (rescue (andthen (execute_inside now r) (\<lambda>_. close_tx fresh t))
                (\<lambda>e. andthen (revert C now i) (\<lambda>_. throw e))) (\<lambda>_.
     andthen (commit_record C now i) (\<lambda>_. give result))))))))"

section \<open>Recovery\<close>

definition recover_record :: "crypto \<Rightarrow> string \<Rightarrow> (nat \<Rightarrow> string) \<Rightarrow> op_record \<Rightarrow> op_record job" where
  "recover_record C now fresh r =
     (let st = or_state r; i = or_id r in
      andthen (pure_step (validate_state st)) (\<lambda>_.
      andthen (validate_required_secrets st) (\<lambda>_.
      andthen read_meta (\<lambda>m.
      let current = JStr (tx_revision C (open_tx m)) in
      andthen (pure_step (if fld st ''after_revision'' \<noteq> JNull \<and> current = fld st ''after_revision'' then Inr True
                          else matches_after st (open_tx m))) (\<lambda>done.
      andthen
        (if done then andthen (apply_accounts (members (fld st ''accounts_after''))) (\<lambda>_. give (open_tx m))
         else if current = fld st ''before_revision'' then
           andthen (pure_step (rbind (apply_metadata now st (open_tx m)) (commit_tx fresh))) (\<lambda>t.
           andthen (apply_accounts (members (fld st ''accounts_after''))) (\<lambda>_.
           andthen (stage_operation now i ''backend_applied'' None) (\<lambda>_.
           andthen (stage_operation now i ''metadata_prepared'' (Some (set_after (JStr (tx_revision C t)) st))) (\<lambda>_.
           give t))))
         else throw Recovery_required) (\<lambda>t.
      andthen (close_tx fresh t) (\<lambda>_.
      commit_record C now i)))))))"

definition recover_ref :: "crypto \<Rightarrow> string \<Rightarrow> (nat \<Rightarrow> string) \<Rightarrow> string \<times> string \<Rightarrow> unit job" where
  "recover_ref C now fresh ref =
     andthen (rescue (read_operation (fst ref)) (\<lambda>e. throw (if e = Journal_missing then Recovery_required else e))) (\<lambda>r.
     andthen (require (or_kind r = MASTER) Recovery_required) (\<lambda>_.
     if op_finished r then
       (if or_status r = ''completed'' then andthen (finish_operation now (or_id r) JNull) (\<lambda>_. give ())
        else andthen (fail_operation now (or_id r) (case or_error r of JStr c \<Rightarrow> if c = [] then ''operation_failed'' else c
                                                     | _ \<Rightarrow> ''operation_failed'')) (\<lambda>_. give ()))
     else andthen (recover_record C now fresh r) (\<lambda>_. give ())))"

definition assert_projection_ready :: "unit job" where
  "assert_projection_ready = andthen (pending_refs MASTER) (\<lambda>refs. require (refs = []) Recovery_required)"

definition recover :: "crypto \<Rightarrow> string \<Rightarrow> (nat \<Rightarrow> string) \<Rightarrow> unit job" where
  "recover C now fresh =
     andthen (probe Journal_error) (\<lambda>_.
     andthen (pending_refs MASTER) (\<lambda>refs.
     andthen (foreach (recover_ref C now fresh) refs) (\<lambda>_.
     andthen list_unfinished (\<lambda>unfinished.
     andthen (require (list_all (\<lambda>r. \<not> (or_kind r = MASTER \<and> or_id r \<notin> set (map fst refs))) unfinished) Recovery_required) (\<lambda>_.
     assert_projection_ready)))))"

end
