(* ===== verification/Master_Operations.thy ===== *)
theory Master_Operations
  imports Master_Pipeline
begin

text \<open>
  The ordinary mutations of a vault (\<open>create_entry\<close>, \<open>update_entry\<close>, \<open>delete_entry\<close>,
  \<open>bulk_create\<close>, \<open>apply_snapshot\<close>): each prepares the state of one journaled mutation from the
  transaction and the accounts, and leaves the rest to the pipeline.
\<close>

section \<open>Prepared changes\<close>

record secret_input =
  si_value :: "string option"
  si_passphrase :: "string option"
  si_replace :: bool

definition write_for :: "bool \<Rightarrow> string \<times> string option \<Rightarrow> (string \<times> json) list" where
  "write_for replace kv = (case kv of (a, v) \<Rightarrow> (case v of Some s \<Rightarrow> [(a, present_image s)]
     | None \<Rightarrow> if replace then [(a, absent_image)] else []))"

definition writes_for :: "string \<Rightarrow> secret_input option \<Rightarrow> (string \<times> json) list" where
  "writes_for i secrets = (case secrets of None \<Rightarrow> []
     | Some s \<Rightarrow> write_for (si_replace s) (i, si_value s) @ write_for (si_replace s) (i @ '':passphrase'', si_passphrase s))"

definition preserve_attributes :: "entry \<Rightarrow> entry \<Rightarrow> entry" where
  "preserve_attributes e existing = e\<lparr>e_folder := e_folder existing, e_distribution := e_distribution existing,
     e_provenance := e_provenance existing, e_revision := e_revision existing\<rparr>"

definition bound_scopes :: "json \<Rightarrow> entry \<Rightarrow> string list" where
  "bound_scopes catalog e = sort (remdups (map (\<lambda>b. text_of (fld b ''scope_id''))
     (filter (\<lambda>b. fld b ''entry_id'' = JStr (e_id e)) (items (fld catalog ''bindings'')))))"

definition add_intents :: "string list \<Rightarrow> entry \<Rightarrow> string \<Rightarrow> json \<Rightarrow> json" where
  "add_intents scopes e reason catalog =
     JObj (put ''publication_intents'' (JList (items (fld catalog ''publication_intents'')
       @ map (\<lambda>s. JObj [(''scope_id'', JStr s), (''entry_id'', JStr (e_id e)), (''reason'', JStr reason),
           (''desired_content_revision'', e_revision e)]) scopes)) (members catalog))"

definition catalog_with_intents :: "json \<Rightarrow> entry \<Rightarrow> string option \<Rightarrow> json" where
  "catalog_with_intents catalog e reason =
     (if catalog = JNull then JNull
      else case reason of None \<Rightarrow> catalog | Some r \<Rightarrow> add_intents (bound_scopes catalog e) e r catalog)"

definition catalog_after_delete :: "json \<Rightarrow> entry \<Rightarrow> json" where
  "catalog_after_delete catalog e =
     (if catalog = JNull then JNull
      else
        let scopes = bound_scopes catalog e;
            c1 = JObj (put ''bindings'' (JList (filter (\<lambda>b. fld b ''entry_id'' \<noteq> JStr (e_id e)) (items (fld catalog ''bindings''))))
                   (members catalog));
            c2 = add_intents scopes e ''entry_deleted'' c1 in
        if \<exists>x \<in> set (items (fld c2 ''dedup'')). fld x ''entry_id'' = JStr (e_id e) \<and> fld x ''reason'' = JStr ''entry_deleted'' then c2
        else JObj (put ''dedup'' (JList (items (fld c2 ''dedup'')
               @ [JObj [(''entry_id'', JStr (e_id e)), (''reason'', JStr ''entry_deleted'')]])) (members c2)))"

definition mutation_state ::
  "string \<Rightarrow> string \<Rightarrow> entry option \<Rightarrow> entry option \<Rightarrow> entry list \<Rightarrow> entry list \<Rightarrow> json \<Rightarrow> json \<Rightarrow> (string \<times> json) list \<Rightarrow> json job" where
  "mutation_state action revision before after dependents dependents' catalog catalog' accounts =
     andthen (snapshot_accounts (map fst accounts)) (\<lambda>accounts_before.
     give (JObj [(''schema_version'', JInt 1), (''action'', JStr action), (''before_revision'', JStr revision),
       (''after_revision'', JNull), (''entry_before'', entry_dict before), (''entry_after'', entry_dict after),
       (''dependents_before'', JList (map entry_to_dict dependents)), (''dependents_after'', JList (map entry_to_dict dependents')),
       (''catalog_before'', catalog), (''catalog_after'', catalog'), (''accounts_before'', accounts_before),
       (''accounts_after'', JObj accounts)]))"

definition replacement_state :: "string \<Rightarrow> json \<Rightarrow> json \<Rightarrow> (string \<times> json) list \<Rightarrow> json job" where
  "replacement_state revision before after accounts =
     andthen (snapshot_accounts (map fst accounts)) (\<lambda>accounts_before.
     let st = JObj [(''schema_version'', JInt 2), (''action'', JStr ''replace_all''), (''before_revision'', JStr revision),
                (''after_revision'', JNull), (''metadata_before'', before), (''metadata_after'', after),
                (''accounts_before'', accounts_before), (''accounts_after'', JObj accounts)] in
     andthen (pure_step (validate_state st)) (\<lambda>_. give st))"

section \<open>Create and update\<close>

definition local_provenance :: json where
  "local_provenance = JObj [(''source'', JStr ''local'')]"

definition prepare_create ::
  "crypto \<Rightarrow> string \<Rightarrow> entry \<Rightarrow> secret_input option \<Rightarrow> bool \<Rightarrow> transaction \<Rightarrow> (json \<times> entry) job" where
  "prepare_create C u e secrets replace t =
     andthen (pure_step (require_catalog t)) (\<lambda>catalog.
     andthen (pure_step (entry_by_name (e_name e) t)) (\<lambda>existing.
     andthen (require (existing = None \<or> replace) (From_store Name_conflict)) (\<lambda>_.
     andthen (pure_step (if existing = None then entry_by_id (e_id e) t else Inr None)) (\<lambda>taken.
     andthen (require (taken = None) (From_store Name_conflict)) (\<lambda>_.
     let e1 = (case existing of None \<Rightarrow> e | Some x \<Rightarrow> preserve_attributes (e\<lparr>e_id := e_id x\<rparr>) x);
         e2 = (if catalog = JNull then e1
               else e1\<lparr>e_provenance := (if e_provenance e1 = JNull then local_provenance else e_provenance e1), e_revision := JStr u\<rparr>);
         catalog' = catalog_with_intents catalog e2 (if existing = None then None else Some ''entry_replaced'') in
     andthen (mutation_state ''create'' (tx_revision C t) existing (Some e2) [] [] catalog catalog' (writes_for (e_id e2) secrets)) (\<lambda>st.
     give (st, e2)))))))"

definition prepare_update ::
  "crypto \<Rightarrow> string \<Rightarrow> entry \<Rightarrow> secret_input option \<Rightarrow> transaction \<Rightarrow> (json \<times> entry) job" where
  "prepare_update C u e secrets t =
     andthen (pure_step (require_catalog t)) (\<lambda>catalog.
     andthen (pure_step (entry_by_id (e_id e) t)) (\<lambda>found.
     (case found of None \<Rightarrow> throw (From_store Not_found) | Some existing \<Rightarrow>
     andthen (pure_step (map_err From_store (assert_rename_safe e (tx_slots t)))) (\<lambda>_.
     let e1 = preserve_attributes e existing;
         e2 = (if catalog = JNull then e1 else e1\<lparr>e_revision := JStr u\<rparr>) in
     andthen (mutation_state ''update'' (tx_revision C t) (Some existing) (Some e2) [] [] catalog
                (catalog_with_intents catalog e2 (Some ''entry_updated'')) (writes_for (e_id e2) secrets)) (\<lambda>st.
     give (st, e2))))))"

section \<open>Delete\<close>

text \<open>The dependents lose their references to the entry; \<open>us\<close> gives their new revisions.\<close>

definition without_refs :: "string \<Rightarrow> json \<Rightarrow> string \<times> entry \<Rightarrow> entry" where
  "without_refs n catalog ue = (case ue of (u, e) \<Rightarrow>
     let e1 = e\<lparr>e_refs := filter (\<lambda>r. fld r ''name'' \<noteq> JStr n) (e_refs e)\<rparr> in
     if catalog = JNull then e1 else e1\<lparr>e_revision := JStr u\<rparr>)"

definition prepare_delete :: "crypto \<Rightarrow> (nat \<Rightarrow> string) \<Rightarrow> string \<Rightarrow> bool \<Rightarrow> transaction \<Rightarrow> (json \<times> entry \<times> string list) job" where
  "prepare_delete C us name_or_id cascade t =
     andthen (pure_step (require_catalog t)) (\<lambda>catalog.
     andthen (pure_step (entry_by_id name_or_id t)) (\<lambda>x.
     andthen (pure_step (if x = None then entry_by_name name_or_id t else Inr x)) (\<lambda>found.
     (case found of None \<Rightarrow> throw (From_store Not_found) | Some e \<Rightarrow>
     andthen (pure_step (tx_entries t)) (\<lambda>es.
     andthen (pure_step (map_err From_model (rmap (\<lambda>d. rbind (refs_hit (e_name e) (e_refs d)) (\<lambda>b. Inr (b, d))) es))) (\<lambda>marked.
     let before = map snd (filter fst marked) in
     andthen (require (before = [] \<or> cascade) Has_dependents) (\<lambda>_.
     let after = map (\<lambda>(k, d). without_refs (e_name e) catalog (us k, d)) (enumerate 0 before);
         catalog' = fold (\<lambda>d c. catalog_with_intents c d (Some ''entry_updated'')) after (catalog_after_delete catalog e) in
     andthen (mutation_state ''delete'' (tx_revision C t) (Some e) None before after catalog catalog'
                [(e_id e, absent_image), (e_id e @ '':passphrase'', absent_image)]) (\<lambda>st.
     give (st, e, map e_name before)))))))))"

section \<open>Many entries\<close>

definition image_metadata :: "json \<Rightarrow> metadata" where
  "image_metadata v = \<lparr>md_version = int_of (fld v ''schema_version''), md_entries = items (fld v ''entries''),
     md_tombstones = items (fld v ''tombstones''),
     md_catalog = (if has_key v ''catalog'' then Some (fld v ''catalog'') else None), md_extra = []\<rparr>"

definition imported_entry :: "bool \<Rightarrow> string \<Rightarrow> entry \<Rightarrow> entry" where
  "imported_entry v3 u e =
     (if v3 then e\<lparr>e_provenance := (if e_provenance e \<in> {JNull, JObj []} then local_provenance else e_provenance e), e_revision := JStr u\<rparr>
      else e)"

definition stage_entry ::
  "entry \<times> secret_input option \<Rightarrow> transaction \<times> (string \<times> json) list \<Rightarrow> fail_kind + transaction \<times> (string \<times> json) list" where
  "stage_entry es tw = (case es of (e, secrets) \<Rightarrow> (case tw of (t, writes) \<Rightarrow>
     rbind (in_slots (tx_add e) t) (\<lambda>t'.
     Inr (t', fold (\<lambda>(a, x). put a x) (writes_for (e_id e) secrets) writes))))"

definition prepare_bulk ::
  "crypto \<Rightarrow> (nat \<Rightarrow> string) \<Rightarrow> (entry \<times> secret_input option) list \<Rightarrow> transaction \<Rightarrow> (json \<times> entry list) job" where
  "prepare_bulk C us prepared t =
     andthen (pure_step (metadata_image t)) (\<lambda>before.
     let items' = map (\<lambda>(k, e, s). (imported_entry (3 \<le> md_version (tx_data t)) (us k) e, s)) (enumerate 0 prepared) in
     andthen (pure_step (rfold stage_entry items' (open_tx (image_metadata before), []))) (\<lambda>(staged, writes).
     andthen (pure_step (metadata_image staged)) (\<lambda>after.
     andthen (replacement_state (tx_revision C t) before after writes) (\<lambda>st.
     give (st, map fst items')))))"

text \<open>\<open>deletes\<close> lists the set of deleted accounts in the order of its traversal.\<close>

definition prepare_snapshot ::
  "crypto \<Rightarrow> entry list \<Rightarrow> json list \<Rightarrow> (string \<times> string) list \<Rightarrow> string list \<Rightarrow> string \<Rightarrow> json \<Rightarrow> transaction \<Rightarrow> (json \<times> unit) job" where
  "prepare_snapshot C es ts secret_writes deletes expected_revision expected_accounts t =
     andthen (require (\<not> 3 \<le> md_version (tx_data t)) Mutation_required) (\<lambda>_.
     andthen (require (tx_revision C t = expected_revision) Concurrent) (\<lambda>_.
     andthen (pure_step (metadata_image t)) (\<lambda>before.
     let staged = tx_replace_all es ts (open_tx (image_metadata before)) in
     andthen (require (set deletes \<inter> set (map fst secret_writes) = {}) Bad_value) (\<lambda>_.
     let writes = map (\<lambda>(a, s). (a, present_image s)) secret_writes @ map (\<lambda>a. (a, absent_image)) deletes in
     andthen (require (account_names expected_accounts = set (map fst writes)) Bad_value) (\<lambda>_.
     andthen (pure_step (metadata_image staged)) (\<lambda>after.
     andthen (replacement_state (tx_revision C t) before after writes) (\<lambda>st.
     andthen (require (same_json (fld st ''accounts_before'') expected_accounts) Concurrent) (\<lambda>_.
     give (st, ())))))))))"

section \<open>The operations\<close>

text \<open>Every call of the service recovers first (\<open>VaultService._manager\<close>).\<close>

definition create_entry ::
  "crypto \<Rightarrow> string \<Rightarrow> (nat \<Rightarrow> string) \<Rightarrow> string \<Rightarrow> string \<Rightarrow> entry \<Rightarrow> secret_input option \<Rightarrow> bool \<Rightarrow> entry job" where
  "create_entry C now fresh i u e secrets replace = transact C now fresh i (prepare_create C u e secrets replace)"

definition update_entry ::
  "crypto \<Rightarrow> string \<Rightarrow> (nat \<Rightarrow> string) \<Rightarrow> string \<Rightarrow> string \<Rightarrow> entry \<Rightarrow> secret_input option \<Rightarrow> entry job" where
  "update_entry C now fresh i u e secrets = transact C now fresh i (prepare_update C u e secrets)"

definition delete_entry ::
  "crypto \<Rightarrow> string \<Rightarrow> (nat \<Rightarrow> string) \<Rightarrow> string \<Rightarrow> (nat \<Rightarrow> string) \<Rightarrow> string \<Rightarrow> bool \<Rightarrow> (entry \<times> string list) job" where
  "delete_entry C now fresh i us name_or_id cascade = transact C now fresh i (prepare_delete C us name_or_id cascade)"

definition bulk_create ::
  "crypto \<Rightarrow> string \<Rightarrow> (nat \<Rightarrow> string) \<Rightarrow> string \<Rightarrow> (nat \<Rightarrow> string) \<Rightarrow> (entry \<times> secret_input option) list \<Rightarrow> entry list job" where
  "bulk_create C now fresh i us prepared = transact C now fresh i (prepare_bulk C us prepared)"

definition apply_snapshot ::
  "crypto \<Rightarrow> string \<Rightarrow> (nat \<Rightarrow> string) \<Rightarrow> string \<Rightarrow> entry list \<Rightarrow> json list \<Rightarrow> (string \<times> string) list \<Rightarrow> string list \<Rightarrow> string \<Rightarrow> json \<Rightarrow> unit job" where
  "apply_snapshot C now fresh i es ts secret_writes deletes expected_revision expected_accounts =
     andthen (pure_step (map_err (\<lambda>_. Bad_value) (validate_account_images expected_accounts))) (\<lambda>_.
     transact C now fresh i (prepare_snapshot C es ts secret_writes deletes expected_revision expected_accounts))"

datatype vault_request =
    Create string entry "secret_input option" bool
  | Update_entry string entry "secret_input option"
  | Delete_entry "nat \<Rightarrow> string" string bool
  | Bulk "nat \<Rightarrow> string" "(entry \<times> secret_input option) list"
  | Apply_snapshot "entry list" "json list" "(string \<times> string) list" "string list" string json

definition mutate :: "crypto \<Rightarrow> string \<Rightarrow> (nat \<Rightarrow> string) \<Rightarrow> string \<Rightarrow> vault_request \<Rightarrow> unit job" where
  "mutate C now fresh i q =
     (case q of
        Create u e s r \<Rightarrow> andthen (create_entry C now fresh i u e s r) (\<lambda>_. give ())
      | Update_entry u e s \<Rightarrow> andthen (update_entry C now fresh i u e s) (\<lambda>_. give ())
      | Delete_entry us n c \<Rightarrow> andthen (delete_entry C now fresh i us n c) (\<lambda>_. give ())
      | Bulk us ps \<Rightarrow> andthen (bulk_create C now fresh i us ps) (\<lambda>_. give ())
      | Apply_snapshot es ts ws ds r a \<Rightarrow> apply_snapshot C now fresh i es ts ws ds r a)"

definition serve :: "crypto \<Rightarrow> string \<Rightarrow> (nat \<Rightarrow> string) \<Rightarrow> string \<Rightarrow> vault_request \<Rightarrow> unit job" where
  "serve C now fresh i q = andthen (recover C now fresh) (\<lambda>_. mutate C now fresh i q)"

text \<open>What the requests prepare.\<close>

definition prepare_request :: "crypto \<Rightarrow> vault_request \<Rightarrow> transaction \<Rightarrow> json job" where
  "prepare_request C q t =
     (case q of
        Create u e s r \<Rightarrow> andthen (prepare_create C u e s r t) (\<lambda>(st, _). give st)
      | Update_entry u e s \<Rightarrow> andthen (prepare_update C u e s t) (\<lambda>(st, _). give st)
      | Delete_entry us n c \<Rightarrow> andthen (prepare_delete C us n c t) (\<lambda>(st, _). give st)
      | Bulk us ps \<Rightarrow> andthen (prepare_bulk C us ps t) (\<lambda>(st, _). give st)
      | Apply_snapshot es ts ws ds r a \<Rightarrow> andthen (prepare_snapshot C es ts ws ds r a t) (\<lambda>(st, _). give st))"

end
