(* ===== verification/Journal_Proofs.thy ===== *)
theory Journal_Proofs
  imports Journal
begin

text \<open>
  What the operations of the journal leave on disk, whatever fails: each lemma lists the states in which an
  operation can stop.
\<close>

section \<open>Triples with one assertion for every failure\<close>

abbreviation safe :: "('d \<Rightarrow> bool) \<Rightarrow> ('d, 'e, 'a) program \<Rightarrow> ('a \<Rightarrow> 'd \<Rightarrow> bool) \<Rightarrow> ('d \<Rightarrow> bool) \<Rightarrow> bool" where
  "safe P m Q E \<equiv> triple P m Q (\<lambda>_. E) E"

lemma safe_durable: "(\<And>d. P d \<Longrightarrow> E d \<and> E (f d) \<and> Q () (f d)) \<Longrightarrow> safe P (durable e f) Q E"
  by (rule triple_durable) blast

lemma safe_reads: "reads m \<phi> \<Longrightarrow> (\<And>x d. P d \<Longrightarrow> \<phi> x d \<Longrightarrow> Q x d) \<Longrightarrow> (\<And>d. P d \<Longrightarrow> E d) \<Longrightarrow> safe P m Q E"
  by (rule triple_reads)

lemma safe_then: "safe P m Q E \<Longrightarrow> (\<And>x. safe (Q x) (f x) Q' E) \<Longrightarrow> safe P (andthen m f) Q' E"
  by (rule triple_andthen)

text \<open>A read first: what follows starts in the same state.\<close>

lemma safe_read_then:
  assumes "reads m \<phi>" and "\<And>d. P d \<Longrightarrow> E d" and "\<And>x. safe (\<lambda>d. P d \<and> \<phi> x d) (f x) Q E"
  shows "safe P (andthen m f) Q E"
  by (rule safe_then [where Q = "\<lambda>x d. P d \<and> \<phi> x d"], rule safe_reads [OF assms(1)]) (use assms in auto)

lemma reads_require: "(\<And>d. b \<Longrightarrow> \<phi> () d) \<Longrightarrow> reads (require b e) \<phi>"
  by (rule reads_pure) (simp add: ensure_ok)

lemma reads_require_then: "(b \<Longrightarrow> reads (f ()) \<phi>) \<Longrightarrow> reads (andthen (require b e) f) \<phi>"
  by (cases b) (simp_all add: reads_def triple_def andthen_def pure_step_def throw_def give_def)

lemma safe_require: "(\<And>d. P d \<Longrightarrow> E d) \<Longrightarrow> (b \<Longrightarrow> safe P (f ()) Q E) \<Longrightarrow> safe P (andthen (require b e) f) Q E"
  by (rule safe_read_then [OF reads_require [where \<phi> = "\<lambda>_ _. b"]]) (auto intro: triple_fact [where F = b] triple_pre)

lemma safe_probe: "(\<And>d. P d \<Longrightarrow> E d) \<Longrightarrow> safe P (f ()) Q E \<Longrightarrow> safe P (andthen (probe e) f) Q E"
  by (rule safe_read_then [OF reads_probe [where \<phi> = "\<lambda>_ _. True"]]) auto

lemma safe_look: "(\<And>d. P d \<Longrightarrow> E d) \<Longrightarrow> (\<And>D. P D \<Longrightarrow> safe (\<lambda>d. d = D) (f (g D)) Q E) \<Longrightarrow> safe P (andthen (look g) f) Q E"
  by (rule triple_each, rule safe_read_then [OF reads_look [where \<phi> = "\<lambda>x d. x = g d"]])
    (auto intro: triple_fact [where F = "_ = _"] triple_pre)

lemma safe_pure: "(\<And>d. P d \<Longrightarrow> E d) \<Longrightarrow> (\<And>x. r = Inr x \<Longrightarrow> safe P (f x) Q E) \<Longrightarrow> safe P (andthen (pure_step r) f) Q E"
  by (rule safe_read_then [OF reads_pure [where \<phi> = "\<lambda>x _. r = Inr x"]]) (auto intro: triple_fact [where F = "r = Inr _"] triple_pre)

section \<open>Views of the disk\<close>

definition image_of :: "string \<Rightarrow> disk \<Rightarrow> op_record option option" where
  "image_of i d = map_of (dk_records d) i"

definition receipt_ids :: "disk \<Rightarrow> string set" where
  "receipt_ids d = (case dk_receipts d of None \<Rightarrow> {} | Some rs \<Rightarrow> or_id ` set rs)"

lemma map_of_upsert: "map_of (upsert k v m) = (map_of m)(k \<mapsto> v)"
  by (auto simp: upsert_def map_of_filter_ne)

lemma map_of_remove: "map_of (remove_key k m) = (map_of m)(k := None)"
  by (auto simp: remove_key_def map_of_filter_ne)

lemma image_of_simps [simp]:
  "image_of i (d\<lparr>dk_index := x\<rparr>) = image_of i d" "image_of i (d\<lparr>dk_receipts := y\<rparr>) = image_of i d"
  "image_of i (d\<lparr>dk_meta := m\<rparr>) = image_of i d" "image_of i (d\<lparr>dk_accounts := a\<rparr>) = image_of i d"
  "image_of i (d\<lparr>dk_records := upsert j v rs\<rparr>) = (if i = j then Some v else map_of rs i)"
  "image_of i (d\<lparr>dk_records := remove_key j rs\<rparr>) = (if i = j then None else map_of rs i)"
  "map_of (dk_records d) i = image_of i d"
  by (auto simp: image_of_def map_of_upsert map_of_remove)

section \<open>Reading\<close>

lemma reads_index: "reads read_index (\<lambda>es d. dk_index d = Some es)"
  unfolding read_index_def
  by (rule reads_andthen [OF reads_probe [where \<phi> = "\<lambda>_ _. True"]], simp,
      rule reads_andthen [OF reads_look [where \<phi> = "\<lambda>x d. x = dk_index d"]])
    (auto intro: reads_throw reads_give split: option.split)

lemma reads_receipts: "reads read_receipts (\<lambda>rs d. dk_receipts d = Some rs \<and> list_all op_finished rs)"
  unfolding read_receipts_def
  by (rule reads_andthen [OF reads_probe [where \<phi> = "\<lambda>_ _. True"]], simp,
      rule reads_andthen [OF reads_look [where \<phi> = "\<lambda>x d. x = dk_receipts d"]])
    (auto intro!: reads_throw reads_give reads_require_then simp: list_all_iff split: option.split)

lemma reads_operation: "reads (read_operation i) (\<lambda>r d. or_id r = i \<and>
    (image_of i d = Some (Some r) \<or> image_of i d = None \<and> op_finished r \<and> i \<in> receipt_ids d))"
  unfolding read_operation_def
proof (rule reads_andthen [OF reads_probe [where \<phi> = "\<lambda>_ _. True"]], simp,
    rule reads_andthen [OF reads_look [where \<phi> = "\<lambda>x d. x = image_of i d"]], simp, goal_cases)
  case (1 u x)
  show ?case
  proof (cases x)
    case None
    show ?thesis unfolding None option.case
      by (rule reads_andthen [OF reads_receipts])
        (auto intro!: reads_throw reads_give simp: find_Some_iff receipt_ids_def list_all_iff split: option.split)
  next
    case (Some y)
    then show ?thesis
      by (cases y) (auto intro!: reads_throw reads_give reads_require_then)
  qed
qed

section \<open>Writing\<close>

lemma safe_write_index:
  "(\<And>d. P d \<Longrightarrow> E d \<and> E (d\<lparr>dk_index := Some es\<rparr>) \<and> Q () (d\<lparr>dk_index := Some es\<rparr>)) \<Longrightarrow> safe P (write_index es) Q E"
  unfolding write_index_def by (rule safe_require) (auto intro: safe_durable)

lemma safe_write_record:
  "(\<And>d. P d \<Longrightarrow> E d \<and> E (d\<lparr>dk_records := upsert (or_id r) (Some r) (dk_records d)\<rparr>) \<and> Q () (d\<lparr>dk_records := upsert (or_id r) (Some r) (dk_records d)\<rparr>))
     \<Longrightarrow> safe P (write_record r) Q E"
  unfolding write_record_def by (rule safe_require) (auto intro: safe_durable)

lemma safe_write_receipts:
  "(\<And>d x. P d \<Longrightarrow> E d \<and> E (d\<lparr>dk_receipts := x\<rparr>) \<and> Q () (d\<lparr>dk_receipts := x\<rparr>)) \<Longrightarrow> safe P (write_receipts rs) Q E"
  unfolding write_receipts_def by (rule safe_pure) (auto intro: safe_durable)

lemma safe_remove_pending:
  assumes "dk_index D = Some es" and "E D" and "E (D\<lparr>dk_index := Some (remove_key i es)\<rparr>)"
    and "Q () (D\<lparr>dk_index := Some (remove_key i es)\<rparr>)"
  shows "safe (\<lambda>d. d = D) (remove_pending i) Q E"
  unfolding remove_pending_def
proof (rule safe_read_then [OF reads_index])
  fix xs
  show "safe (\<lambda>d. d = D \<and> dk_index d = Some xs) (if i \<in> set (map fst xs) then write_index (remove_key i xs) else give ()) Q E"
  proof (rule triple_fact [where F = "xs = es"])
    assume xs: "xs = es"
    show ?thesis
    proof (rule triple_if)
      assume "i \<notin> set (map fst xs)"
      then have "remove_key i es = es" unfolding xs remove_key_def by (auto simp: filter_id_conv)
      then have "D\<lparr>dk_index := Some (remove_key i es)\<rparr> = D" using assms(1) by simp
      with assms(4) show "safe (\<lambda>d. d = D \<and> dk_index d = Some xs) (give ()) Q E" by (auto intro: triple_give)
    qed (use assms xs in \<open>auto intro: safe_write_index\<close>)
  qed (use assms in auto)
qed (use assms in auto)

section \<open>Operations\<close>

definition new_record :: "string \<Rightarrow> string \<Rightarrow> string \<Rightarrow> json \<Rightarrow> op_record" where
  "new_record now i kind st = \<lparr>or_id = i, or_kind = kind, or_stage = ''prepared'', or_status = ''pending'', or_created = now,
     or_updated = now, or_state = st, or_result = JNull, or_error = JNull\<rparr>"

text \<open>\<open>begin\<close> can stop before anything, with the marker alone, or with marker and record.\<close>

lemma begin_safe:
  assumes es: "dk_index D = Some es" and E0: "E D"
    and E1: "image_of i D = None \<Longrightarrow> i \<notin> receipt_ids D \<Longrightarrow> E (D\<lparr>dk_index := Some (es @ [(i, kind)])\<rparr>)"
    and E2: "E (D\<lparr>dk_index := Some (es @ [(i, kind)]), dk_records := upsert i (Some (new_record now i kind st)) (dk_records D)\<rparr>)"
    and Q: "Q (new_record now i kind st)
      (D\<lparr>dk_index := Some (es @ [(i, kind)]), dk_records := upsert i (Some (new_record now i kind st)) (dk_records D)\<rparr>)"
  shows "safe (\<lambda>d. d = D) (begin_operation now i kind st) Q E"
proof -
  define D1 where "D1 = D\<lparr>dk_index := Some (es @ [(i, kind)])\<rparr>"
  define r where "r = new_record now i kind st"
  define D2 where "D2 = D1\<lparr>dk_records := upsert i (Some r) (dk_records D1)\<rparr>"
  have D2: "E D2" "Q r D2" "or_id r = i" "image_of i D2 = Some (Some r)"
    using E2 Q by (simp_all add: D2_def D1_def r_def new_record_def)
  have writing: "safe (\<lambda>d. d = D1) (rescue (write_record r) (\<lambda>e.
        andthen (look (\<lambda>d. map_of (dk_records d) i = None)) (\<lambda>absent.
        andthen (if absent then remove_pending i else give ()) (\<lambda>_. throw e)))) (\<lambda>_ d. d = D2) E"
    if absent: "image_of i D = None" "i \<notin> receipt_ids D" and new: "i \<notin> set (map fst es)"
  proof (rule triple_rescue [where R = "\<lambda>_ d. d = D1 \<or> d = D2"])
    have D1: "E D1" using E1 [OF absent] by (simp add: D1_def)
    have written: "safe (\<lambda>d. d = D1) (write_record r) (\<lambda>_ d. d = D2) (\<lambda>d. d = D1 \<or> d = D2)"
      by (rule safe_write_record) (auto simp: D2_def D2(3))
    show "triple (\<lambda>d. d = D1) (write_record r) (\<lambda>_ d. d = D2) (\<lambda>_ d. d = D1 \<or> d = D2) E"
      by (rule triple_weaken [OF written]) (use D1 D2 in auto)
    have gone: "D1\<lparr>dk_index := Some (remove_key i (es @ [(i, kind)]))\<rparr> = D"
    proof -
      have "remove_key i (es @ [(i, kind)]) = es" using new by (auto simp: remove_key_def filter_id_conv)
      then show ?thesis using es by (simp add: D1_def)
    qed
    have handler: "safe (\<lambda>d. d = D') (andthen (if map_of (dk_records D') i = None then remove_pending i else give ()) (\<lambda>_. throw e)) (\<lambda>_ d. d = D2) E"
      if "D' = D1 \<or> D' = D2" for D' and e :: fail_kind
    proof (rule safe_then [where Q = "\<lambda>_. E"])
      from that consider "D' = D2" | "D' = D1" "image_of i D' = None" using absent(1) by (auto simp: D1_def)
      then show "safe (\<lambda>d. d = D') (if map_of (dk_records D') i = None then remove_pending i else give ()) (\<lambda>_. E) E"
      proof cases
        case 1
        then show ?thesis using D2 by (auto intro: triple_give)
      next
        case 2
        have "dk_index D1 = Some (es @ [(i, kind)])" by (simp add: D1_def)
        from safe_remove_pending [OF this, of E i "\<lambda>_. E"] 2 D1 E0 gone show ?thesis by simp
      qed
    qed (auto intro: triple_throw)
    show "triple (\<lambda>d. d = D1 \<or> d = D2)
        (andthen (look (\<lambda>d. map_of (dk_records d) i = None)) (\<lambda>absent.
           andthen (if absent then remove_pending i else give ()) (\<lambda>_. throw e))) (\<lambda>_ d. d = D2) (\<lambda>_. E) E" for e
      by (rule safe_look, use D1 D2 in blast, rule handler)
  qed
  show ?thesis
    unfolding begin_operation_def Let_def r_def [unfolded new_record_def, symmetric]
  proof (rule safe_require, use E0 in simp, rule safe_look, use E0 in simp, goal_cases)
    case (1 D')
    note D' = 1(2)
    let ?present = "map_of (dk_records D) i \<noteq> None"
    have "reads (if ?present then give [] else read_receipts) (\<lambda>rs d. ?present \<or> dk_receipts d = Some rs)"
      by (rule reads_if) (auto intro: reads_give reads_conseq [OF reads_receipts])
    then show ?case unfolding D'
    proof (rule safe_read_then, use E0 in simp, goal_cases)
      case (1 rs)
      show ?case
      proof (rule safe_require, use E0 in simp, rule safe_probe, use E0 in simp, goal_cases)
        case 1
        show ?case
        proof (rule triple_fact [where F = "image_of i D = None \<and> i \<notin> receipt_ids D"], use 1 in \<open>(auto simp: receipt_ids_def)[1]\<close>, goal_cases)
          case 1
          then have absent: "image_of i D = None" "i \<notin> receipt_ids D" by simp_all
          have adding: "safe (\<lambda>d. d = D) (add_pending i kind) (\<lambda>_ d. d = D1 \<and> i \<notin> set (map fst es)) E"
            unfolding add_pending_def
          proof (rule safe_read_then [OF reads_index], use E0 in simp, goal_cases)
            case (1 xs)
            show ?case
              by (rule safe_require, use E0 in simp, rule safe_require, use E0 in simp, rule safe_write_index)
                (use es E0 E1 [OF absent] in \<open>auto simp: D1_def\<close>)
          qed
          have rest: "safe (\<lambda>d. d = D1 \<and> i \<notin> set (map fst es)) (andthen (rescue (write_record r) (\<lambda>e.
              andthen (look (\<lambda>d. map_of (dk_records d) i = None)) (\<lambda>absent.
              andthen (if absent then remove_pending i else give ()) (\<lambda>_. throw e)))) (\<lambda>_. give r)) Q E"
            by (rule triple_fact [where F = "i \<notin> set (map fst es)"], simp,
                rule safe_then [where Q = "\<lambda>_ d. d = D2"], rule triple_pre [OF writing [OF absent]])
              (use D2 in \<open>auto intro: triple_give\<close>)
          have pre: "safe (\<lambda>d. d = D \<and> (?present \<or> dk_receipts d = Some rs)) (add_pending i kind) (\<lambda>_ d. d = D1 \<and> i \<notin> set (map fst es)) E"
            by (rule triple_pre [OF adding]) simp
          show ?case
            by (rule safe_then [OF pre]) (rule rest)
        qed
      qed
    qed
  qed
qed

lemma stage_safe:
  assumes img: "image_of i D = Some (Some r)" and E0: "E D"
    and r': "r' = r\<lparr>or_stage := stage, or_updated := now, or_state := (case st of None \<Rightarrow> or_state r | Some s \<Rightarrow> s)\<rparr>"
    and E1: "or_id r = i \<Longrightarrow> E (D\<lparr>dk_records := upsert i (Some r') (dk_records D)\<rparr>)"
    and Q: "or_id r = i \<Longrightarrow> Q r' (D\<lparr>dk_records := upsert i (Some r') (dk_records D)\<rparr>)"
  shows "safe (\<lambda>d. d = D) (stage_operation now i stage st) Q E"
  unfolding stage_operation_def
proof (rule safe_require, use E0 in simp, rule safe_read_then [OF reads_operation], use E0 in simp, goal_cases)
  case (1 x)
  show ?case
  proof (rule triple_fact [where F = "x = r \<and> or_id r = i"], use img in \<open>(auto)[1]\<close>, goal_cases)
    case 1
    then have x: "x = r" "or_id r = i" by simp_all
    have pre: "safe (\<lambda>d. d = D \<and> F d) m Q E" if "safe (\<lambda>d. d = D) m Q E" for m :: "op_record job" and F
      by (rule triple_pre [OF that]) simp
    show ?case unfolding x(1) Let_def r' [symmetric]
      by (rule pre, rule safe_require, use E0 in simp, rule safe_then [where Q = "\<lambda>_ d. d = D\<lparr>dk_records := upsert i (Some r') (dk_records D)\<rparr>"],
          rule safe_write_record) (use E0 E1 Q x r' in \<open>auto intro: triple_give\<close>)
  qed
qed

text \<open>The steps of \<open>_archive_finished_unlocked\<close>: receipts, marker, record.\<close>

definition archived :: "string \<Rightarrow> disk \<Rightarrow> disk \<Rightarrow> bool" where
  "archived i D d \<longleftrightarrow> (\<exists>x. d = D\<lparr>dk_receipts := x, dk_index := Some (remove_key i (the (dk_index D))), dk_records := remove_key i (dk_records D)\<rparr>)"

definition archiving :: "string \<Rightarrow> disk \<Rightarrow> disk \<Rightarrow> bool" where
  "archiving i D d \<longleftrightarrow> (\<exists>x. d = D\<lparr>dk_receipts := x\<rparr> \<or> d = D\<lparr>dk_receipts := x, dk_index := Some (remove_key i (the (dk_index D)))\<rparr>)
     \<or> archived i D d"

lemma archive_safe:
  assumes es: "dk_index D = Some es" and i: "or_id r = i"
    and E: "\<And>d. op_finished r \<Longrightarrow> archiving i D d \<Longrightarrow> E d" and E0: "E D" and Q: "\<And>d. op_finished r \<Longrightarrow> archived i D d \<Longrightarrow> Q () d"
  shows "safe (\<lambda>d. d = D) (archive_finished r) Q E"
  unfolding archive_finished_def i
proof (rule safe_require, rule E0 [THEN back_subst [of E]], simp, rule safe_read_then [OF reads_receipts], use E0 in simp, goal_cases)
  case (1 rs)
  note E = E [OF 1] and Q = Q [OF 1]
  have 1: "safe (\<lambda>d. d = D \<and> F d) (write_receipts rs') (\<lambda>_ d. \<exists>x. d = D\<lparr>dk_receipts := x\<rparr>) E" for rs' F
    by (rule safe_write_receipts) (auto simp: E0 intro!: E simp: archiving_def)
  have 2: "safe (\<lambda>d. \<exists>x. d = D\<lparr>dk_receipts := x\<rparr>) (remove_pending i)
      (\<lambda>_ d. \<exists>x. d = D\<lparr>dk_receipts := x, dk_index := Some (remove_key i es)\<rparr>) E"
    by (rule triple_each, elim exE, hypsubst, rule safe_remove_pending [of _ es]) (auto simp: es intro!: E simp: archiving_def)
  have 3: "safe (\<lambda>d. \<exists>x. d = D\<lparr>dk_receipts := x, dk_index := Some (remove_key i es)\<rparr>) (unlink_record i) (\<lambda>_. archived i D) E"
    unfolding unlink_record_def by (rule safe_durable) (auto simp: es archived_def intro!: E simp: archiving_def)
  show ?case
    by (rule safe_then [OF 1], rule safe_then [OF 2], rule safe_then [OF 3], rule safe_reads [OF reads_probe [where \<phi> = "\<lambda>_ _. True"]])
      (auto intro: Q E simp: archiving_def)
qed

text \<open>Closing: the finished record first, then its archive. A record that is finished already is only archived.\<close>

definition closed_as :: "string \<Rightarrow> string \<Rightarrow> json \<Rightarrow> json \<Rightarrow> op_record \<Rightarrow> op_record" where
  "closed_as now status result code r = r\<lparr>or_stage := (if status = ''completed'' then ''finished'' else ''failed''), or_status := status,
     or_updated := now, or_result := result, or_error := code\<rparr>"

lemma close_safe:
  assumes img: "image_of i D = Some (Some r)" and es: "dk_index D = Some es" and E0: "E D"
    and D': "D' = D\<lparr>dk_records := upsert i (Some (closed_as now status result code r)) (dk_records D)\<rparr>"
    and E1: "or_id r = i \<Longrightarrow> \<not> op_finished r \<Longrightarrow> E D'"
    and E2: "\<And>d. or_id r = i \<Longrightarrow> \<not> op_finished r \<Longrightarrow> archiving i D' d \<Longrightarrow> E d"
    and Q2: "\<And>x d. or_id r = i \<Longrightarrow> \<not> op_finished r \<Longrightarrow> archived i D' d \<Longrightarrow> Q x d"
    and E3: "\<And>d. or_id r = i \<Longrightarrow> op_finished r \<Longrightarrow> or_status r = status \<Longrightarrow> archiving i D d \<Longrightarrow> E d"
    and Q3: "\<And>x d. or_id r = i \<Longrightarrow> op_finished r \<Longrightarrow> or_status r = status \<Longrightarrow> archived i D d \<Longrightarrow> Q x d"
  shows "safe (\<lambda>d. d = D) (close_operation now i status result code) Q E"
  unfolding close_operation_def
proof (rule safe_read_then [OF reads_operation], use E0 in simp, goal_cases)
  case (1 x)
  show ?case
  proof (rule triple_fact [where F = "x = r \<and> or_id r = i"], use img in \<open>(auto)[1]\<close>, goal_cases)
    case 1
    then have x: "x = r" and i: "or_id r = i" by simp_all
    let ?r = "closed_as now status result code r"
    have pre: "safe (\<lambda>d. d = D \<and> F d) m Q E" if "safe (\<lambda>d. d = D) m Q E" for m :: "op_record job" and F
      by (rule triple_pre [OF that]) simp
    have again: "safe (\<lambda>d. d = D) (andthen (if map_of (dk_records D) i \<noteq> None then archive_finished r else remove_pending i) (\<lambda>_. give r)) Q E"
      if "op_finished r" "or_status r = status"
      by (rule safe_then [where Q = "\<lambda>_. archived i D"])
        (use img es E0 E3 [OF i that] Q3 [OF i that] i in \<open>auto intro!: archive_safe [where i = i] intro: triple_give\<close>)
    have first: "safe (\<lambda>d. d = D) (andthen (require (receipts_fit [?r]) Journal_error) (\<lambda>_.
       andthen read_receipts (\<lambda>_. andthen (write_record ?r) (\<lambda>_. andthen (archive_finished ?r) (\<lambda>_. give ?r))))) Q E"
      if "\<not> op_finished r"
    proof (rule safe_require, use E0 in simp, rule safe_read_then [OF reads_receipts], use E0 in simp, goal_cases)
      case (1 rs)
      have 1: "safe (\<lambda>d. d = D \<and> F d) (write_record ?r) (\<lambda>_ d. d = D') E" for F
        by (rule safe_write_record) (use E0 E1 [OF i that] D' i in \<open>auto simp: closed_as_def\<close>)
      have 2: "safe (\<lambda>d. d = D') (archive_finished ?r) (\<lambda>_. archived i D') E"
        by (rule archive_safe [where es = es]) (use es E1 E2 i that in \<open>auto simp: D' closed_as_def\<close>)
      show ?case by (rule safe_then [OF 1], rule safe_then [OF 2]) (auto intro!: triple_give Q2 i that)
    qed
    show ?case unfolding x
      by (rule pre, rule triple_if, rule triple_if, rule safe_look, use E0 in simp, simp only:, rule again, assumption+)
        (use first E0 in \<open>auto simp: Let_def closed_as_def intro: triple_throw\<close>)
  qed
qed

section \<open>The recovery scan\<close>

lemma same_images: "dk_records d = dk_records D \<Longrightarrow> image_of j d = image_of j D"
  by (simp only: image_of_def)

definition finished_image :: "op_record option option \<Rightarrow> bool" where
  "finished_image x = (case x of Some (Some r) \<Rightarrow> op_finished r | _ \<Rightarrow> False)"

definition open_image :: "op_record option option \<Rightarrow> bool" where
  "open_image x = (case x of Some (Some r) \<Rightarrow> \<not> op_finished r | _ \<Rightarrow> False)"

text \<open>
  What the scan may leave: the disk as it was, or, when every pending marker names an operation that is
  there, new receipts, the markers of open operations only, and finished records removed.
\<close>

definition compacted :: "disk \<Rightarrow> disk \<Rightarrow> bool" where
  "compacted D d \<longleftrightarrow> d = D \<or>
     (\<exists>es. dk_index D = Some es \<and> (\<forall>e \<in> set es. image_of (fst e) D \<noteq> None \<or> fst e \<in> receipt_ids D)
       \<and> dk_meta d = dk_meta D \<and> dk_accounts d = dk_accounts D
       \<and> ((dk_index d = Some es \<and> dk_records d = dk_records D)
          \<or> (dk_index d = Some (filter (\<lambda>e. open_image (image_of (fst e) D)) es)
             \<and> (\<forall>j. image_of j d = image_of j D \<or> image_of j d = None \<and> finished_image (image_of j D)))))"

definition scanned :: "disk \<Rightarrow> op_record list \<Rightarrow> bool" where
  "scanned D rs \<longleftrightarrow> (\<forall>r \<in> set rs. image_of (or_id r) D = Some (Some r)) \<and> (\<forall>j. image_of j D \<noteq> None \<longrightarrow> j \<in> or_id ` set rs)"

lemma reads_scan: "reads (andthen (look (\<lambda>d. sort (map fst (dk_records d)))) (mapm read_operation)) (\<lambda>rs d. scanned d rs)"
proof (rule reads_andthen [OF reads_look [where \<phi> = "\<lambda>ns d. set ns = set (map fst (dk_records d))"]], simp, goal_cases)
  case (1 ns)
  show ?case
  proof (rule reads_conseq [OF reads_mapm [OF reads_operation]], intro impI)
    fix rs d
    assume all: "list_all2 (\<lambda>i r. or_id r = i \<and> (image_of i d = Some (Some r) \<or> image_of i d = None \<and> op_finished r \<and> i \<in> receipt_ids d)) ns rs"
      and ns: "set ns = set (map fst (dk_records d))"
    have keys: "image_of j d \<noteq> None \<longleftrightarrow> j \<in> set ns" for j
      unfolding ns image_of_def map_of_eq_None_iff by simp
    from all have ids: "map or_id rs = ns" by (induction rule: list_all2_induct) auto
    have "image_of (or_id r) d = Some (Some r)" if "r \<in> set rs" for r
    proof -
      from that obtain k where k: "k < length rs" "r = rs ! k" by (auto simp: in_set_conv_nth)
      then have "ns ! k \<in> set ns" using all by (simp add: list_all2_lengthD)
      with all k keys [of "ns ! k"] show ?thesis by (auto simp: list_all2_conv_all_nth)
    qed
    with keys ids show "scanned d rs" by (auto simp: scanned_def)
  qed
qed

lemma scanned_lookup:
  assumes "scanned D rs"
  shows "map_of (map (\<lambda>r. (or_id r, r)) (rs @ receipts)) j = (case image_of j D of Some (Some r) \<Rightarrow> Some r
     | _ \<Rightarrow> map_of (map (\<lambda>r. (or_id r, r)) receipts) j)"
proof (cases "map_of (map (\<lambda>r. (or_id r, r)) rs) j")
  case None
  then have "j \<notin> or_id ` set rs" by (auto simp: map_of_eq_None_iff image_comp)
  with assms have "image_of j D = None" by (auto simp: scanned_def)
  with None show ?thesis by (simp add: map_add_def)
next
  case (Some r)
  then have "r \<in> set rs" "or_id r = j" by (auto dest: map_of_SomeD)
  with assms have "image_of j D = Some (Some r)" by (auto simp: scanned_def)
  with Some show ?thesis by (simp add: map_add_def)
qed

lemma safe_unlink_all:
  assumes "\<And>r. r \<in> set rs \<Longrightarrow> finished_image (image_of (or_id r) D)"
    and "\<And>d. compacted D d \<Longrightarrow> E d" and "dk_index D = Some es" and "\<forall>e \<in> set es. image_of (fst e) D \<noteq> None \<or> fst e \<in> receipt_ids D"
  defines "I d \<equiv> dk_meta d = dk_meta D \<and> dk_accounts d = dk_accounts D
       \<and> dk_index d = Some (filter (\<lambda>e. open_image (image_of (fst e) D)) es)
       \<and> (\<forall>j. image_of j d = image_of j D \<or> image_of j d = None \<and> finished_image (image_of j D))"
  shows "safe I (foreach (\<lambda>r. unlink_record (or_id r)) rs) (\<lambda>_. I) E"
proof (rule triple_foreach)
  have I: "E d" if "I d" for d using that assms(2) [of d] assms(3,4) by (auto simp: compacted_def I_def)
  fix r assume "r \<in> set rs"
  show "safe I (unlink_record (or_id r)) (\<lambda>_. I) E"
    unfolding unlink_record_def
    by (rule safe_durable) (use assms(1) [OF \<open>r \<in> set rs\<close>] in \<open>auto intro!: I simp: I_def\<close>)
qed

definition kept_markers :: "op_record list \<Rightarrow> op_record list \<Rightarrow> (string \<times> string) list \<Rightarrow> (string \<times> string) list" where
  "kept_markers rs receipts pending =
     (let by_op = (\<lambda>i. map_of (map (\<lambda>r. (or_id r, r)) (rs @ receipts)) i);
          done_ids = map or_id (filter op_finished (rs @ receipts)) in
      filter (\<lambda>e. fst e \<notin> set done_ids \<or> (case by_op (fst e) of None \<Rightarrow> False | Some r \<Rightarrow> \<not> op_finished r)) pending)"

lemma lookup_of: "map_of (map (\<lambda>r. (f r, r)) rs) j = Some r \<Longrightarrow> r \<in> set rs \<and> f r = j"
  by (auto dest: map_of_SomeD)

lemma kept_markers_open:
  assumes sc: "scanned D rs" and fin: "list_all op_finished receipts" and rec: "dk_receipts D = Some receipts"
    and known: "list_all (\<lambda>e. case map_of (map (\<lambda>r. (or_id r, r)) (rs @ receipts)) (fst e) of None \<Rightarrow> False | Some r \<Rightarrow> or_kind r = snd e) es"
  shows "kept_markers rs receipts es = filter (\<lambda>e. open_image (image_of (fst e) D)) es"
    and "\<forall>e \<in> set es. image_of (fst e) D \<noteq> None \<or> fst e \<in> receipt_ids D"
proof -
  have some: "\<exists>r. map_of (map (\<lambda>r. (or_id r, r)) (rs @ receipts)) (fst e) = Some r" if "e \<in> set es" for e
    using known [unfolded list_all_iff, rule_format, OF that]
    by (cases "map_of (map (\<lambda>r. (or_id r, r)) (rs @ receipts)) (fst e)") (auto simp only: option.case)
  have none: "image_of j D \<noteq> Some None" for j
    using sc by (auto simp: scanned_def)
  have dec: "image_of j D \<noteq> None \<or> j \<in> receipt_ids D"
    "(j \<notin> or_id ` {r \<in> set (rs @ receipts). op_finished r} \<or> \<not> op_finished r) \<longleftrightarrow> open_image (image_of j D)"
    if m: "map_of (map (\<lambda>r. (or_id r, r)) (rs @ receipts)) j = Some r" for j r
  proof -
    have m': "(case image_of j D of Some (Some r) \<Rightarrow> Some r | _ \<Rightarrow> map_of (map (\<lambda>r. (or_id r, r)) receipts) j) = Some r"
      using m unfolding scanned_lookup [OF sc] .
    show "image_of j D \<noteq> None \<or> j \<in> receipt_ids D"
      using m' rec by (auto simp: receipt_ids_def dest: lookup_of split: option.splits)
    show "(j \<notin> or_id ` {r \<in> set (rs @ receipts). op_finished r} \<or> \<not> op_finished r) \<longleftrightarrow> open_image (image_of j D)"
    proof (cases "image_of j D")
      case None
      with m' have "r \<in> set receipts" "or_id r = j" by (auto dest: lookup_of)
      with fin None show ?thesis by (auto simp: open_image_def list_all_iff)
    next
      case (Some x)
      with none [of j] m' have "x = Some r" by (cases x) auto
      moreover from this Some sc have "r \<in> set rs" "or_id r = j" by (auto simp: scanned_def)
      ultimately show ?thesis using Some by (auto simp: open_image_def)
    qed
  qed
  show "\<forall>e \<in> set es. image_of (fst e) D \<noteq> None \<or> fst e \<in> receipt_ids D" using some dec(1) by blast
  show "kept_markers rs receipts es = filter (\<lambda>e. open_image (image_of (fst e) D)) es"
    unfolding kept_markers_def Let_def
  proof (rule filter_cong [OF refl])
    fix e assume "e \<in> set es"
    from some [OF this] obtain r where r: "map_of (map (\<lambda>r. (or_id r, r)) (rs @ receipts)) (fst e) = Some r" by blast
    from dec(2) [OF this] show "(fst e \<notin> set (map or_id (filter op_finished (rs @ receipts)))
        \<or> (case map_of (map (\<lambda>r. (or_id r, r)) (rs @ receipts)) (fst e) of None \<Rightarrow> False | Some r \<Rightarrow> \<not> op_finished r)) = open_image (image_of (fst e) D)"
      unfolding r option.case set_map set_filter .
  qed
qed

lemma list_unfinished_safe:
  assumes E: "\<And>d. compacted D d \<Longrightarrow> E d" and Q: "\<And>x d. compacted D d \<Longrightarrow> Q x d"
  shows "safe (\<lambda>d. d = D) list_unfinished Q E"
proof -
  have E0: "E D" by (rule E) (simp add: compacted_def)
  have scan: "andthen (look (\<lambda>d. sort (map fst (dk_records d)))) (\<lambda>ns. andthen (mapm read_operation ns) f)
      = andthen (andthen (look (\<lambda>d. sort (map fst (dk_records d)))) (mapm read_operation)) f" for f :: "op_record list \<Rightarrow> op_record list job"
    by (intro ext) (simp add: andthen_def look_def)
  show ?thesis
    unfolding list_unfinished_def scan
  proof (rule safe_probe, use E0 in simp, rule safe_read_then [OF reads_index], use E0 in simp, rule safe_require, use E0 in simp,
      rule safe_read_then [OF reads_receipts], use E0 in simp, rule safe_read_then [OF reads_scan], use E0 in simp, goal_cases)
    case (1 es receipts rs)
    show ?case
    proof (rule triple_fact [where F = "dk_index D = Some es \<and> dk_receipts D = Some receipts \<and> list_all op_finished receipts \<and> scanned D rs"], use 1 in \<open>(auto)[1]\<close>,
        unfold Let_def kept_markers_def [unfolded Let_def, symmetric], rule safe_require, use E0 in simp, rule safe_require, use E0 in simp, goal_cases)
      case 1
      then have F: "dk_index D = Some es" "dk_receipts D = Some receipts" "list_all op_finished receipts" "scanned D rs" by simp_all
      note kept = kept_markers_open [OF F(4) F(3) F(2) 1(3)]
      let ?kept = "filter (\<lambda>e. open_image (image_of (fst e) D)) es"
      let ?same = "\<lambda>d. dk_meta d = dk_meta D \<and> dk_accounts d = dk_accounts D \<and> dk_records d = dk_records D"
      let ?I = "\<lambda>d. dk_meta d = dk_meta D \<and> dk_accounts d = dk_accounts D \<and> dk_index d = Some ?kept
        \<and> (\<forall>j. image_of j d = image_of j D \<or> image_of j d = None \<and> finished_image (image_of j D))"
      have E1: "compacted D d" if "?same d" "dk_index d = Some es" for d using that F(1) kept(2) by (auto simp: compacted_def)
      have E2: "compacted D d" if "?I d" for d using that F(1) kept(2) by (auto simp: compacted_def)
      have 1: "safe (\<lambda>d. d = D) (if b then give () else write_receipts xs) (\<lambda>_ d. ?same d \<and> dk_index d = Some es) E" for b xs
        by (rule triple_if) (use F(1) in \<open>auto intro!: triple_give safe_write_receipts E E1\<close>)
      have 2: "safe (\<lambda>d. ?same d \<and> dk_index d = Some es) (if ?kept = es then give () else write_index ?kept) (\<lambda>_. ?I) E"
      proof (rule triple_if)
        show "safe (\<lambda>d. ?same d \<and> dk_index d = Some es) (write_index ?kept) (\<lambda>_. ?I) E"
        proof (rule safe_write_index)
          fix d :: disk assume d: "?same d \<and> dk_index d = Some es"
          then have I: "?I (d\<lparr>dk_index := Some ?kept\<rparr>)" using same_images [of d D] by simp
          show "E d \<and> E (d\<lparr>dk_index := Some ?kept\<rparr>) \<and> ?I (d\<lparr>dk_index := Some ?kept\<rparr>)"
            using d E [OF E1] E [OF E2 [OF I]] I by blast
        qed
      qed (auto intro!: triple_give dest: same_images)
      have 3: "safe ?I (foreach (\<lambda>r. unlink_record (or_id r)) (filter op_finished rs)) (\<lambda>_. ?I) E"
        by (rule safe_unlink_all [OF _ E F(1) kept(2)]) (use F(4) in \<open>auto simp: scanned_def finished_image_def\<close>)
      show ?case
        unfolding kept(1)
        by (rule safe_then [OF triple_pre [OF 1]], simp, rule safe_then [OF 2], rule safe_then [OF 3], rule safe_probe, rule E, rule E2, simp,
            rule triple_give, rule Q, rule E2, simp)
    qed
  qed
qed

end
