(* ===== verification/Master_Accounts.thy ===== *)
theory Master_Accounts
  imports Master_Operations Journal_Proofs
begin

text \<open>
  Applying and restoring images of accounts: completely, or to some accounts when a step fails; nothing
  else on disk changes.
\<close>

abbreviation accounts :: "disk \<Rightarrow> string \<Rightarrow> string option" where
  "accounts d \<equiv> map_of (dk_accounts d)"

definition value_of :: "json \<Rightarrow> string option" where
  "value_of img = (if fld img ''present'' = JBool True then Some (text_of (fld img ''value'')) else None)"

definition targeted :: "(string \<times> json) list \<Rightarrow> (string \<Rightarrow> string option) \<Rightarrow> string \<Rightarrow> string option" where
  "targeted kvs f a = (case map_of kvs a of None \<Rightarrow> f a | Some img \<Rightarrow> value_of img)"

definition partly :: "(string \<times> json) list \<Rightarrow> (string \<Rightarrow> string option) \<Rightarrow> (string \<Rightarrow> string option) \<Rightarrow> bool" where
  "partly kvs f g \<longleftrightarrow> (\<forall>a. g a = f a \<or> g a = targeted kvs f a)"

definition same_files :: "disk \<Rightarrow> disk \<Rightarrow> bool" where
  "same_files D d \<longleftrightarrow> d\<lparr>dk_accounts := dk_accounts D\<rparr> = D"

lemma same_files_D:
  assumes "same_files D d"
  shows "dk_meta d = dk_meta D" "dk_index d = dk_index D" "dk_records d = dk_records D" "dk_receipts d = dk_receipts D"
  using arg_cong [OF assms [unfolded same_files_def], of dk_meta] arg_cong [OF assms [unfolded same_files_def], of dk_index]
    arg_cong [OF assms [unfolded same_files_def], of dk_records] arg_cong [OF assms [unfolded same_files_def], of dk_receipts] by simp_all

lemma same_files_refl [simp]: "same_files D D" "same_files D (D\<lparr>dk_accounts := x\<rparr>)"
  by (simp_all add: same_files_def)

lemma same_files_trans: "same_files D (d :: disk) \<Longrightarrow> same_files d d' \<Longrightarrow> same_files D d'"
  unfolding same_files_def by (cases D; cases d; cases d') simp

lemma partly_refl [simp]: "partly kvs f f" "partly kvs f (targeted kvs f)"
  by (simp_all add: partly_def)

section \<open>Reading\<close>

lemma reads_accounts: "reads list_accounts (\<lambda>as d. set as = dom (accounts d))"
  unfolding list_accounts_def
  by (rule reads_andthen [OF reads_probe [where \<phi> = "\<lambda>_ _. True"]], simp, rule reads_look) (simp add: dom_map_of_conv_image_fst)

lemma reads_account: "reads (get_account a) (\<lambda>s d. accounts d a = Some s)"
  unfolding get_account_def
  by (rule reads_andthen [OF reads_probe [where \<phi> = "\<lambda>_ _. True"]], simp,
      rule reads_andthen [OF reads_look [where \<phi> = "\<lambda>x d. x = accounts d a"]])
    (auto intro: reads_throw reads_give split: option.split)

lemma value_of_images [simp]: "value_of (present_image s) = Some s" "value_of absent_image = None"
  by (simp_all add: value_of_def present_image_def absent_image_def fld_def text_of_def)

text \<open>A snapshot pictures the accounts that it names.\<close>

definition pictures :: "json \<Rightarrow> (string \<Rightarrow> string option) \<Rightarrow> bool" where
  "pictures images f \<longleftrightarrow> (\<forall>kv \<in> set (members images). value_of (snd kv) = f (fst kv))"

lemma reads_snapshot: "reads (snapshot_accounts as) (\<lambda>images d. map fst (members images) = as \<and> pictures images (accounts d))"
  unfolding snapshot_accounts_def
proof (rule reads_andthen [OF reads_accounts], goal_cases)
  case (1 present)
  have one: "reads (snapshot_account present a) (\<lambda>kv d. set present = dom (accounts d) \<longrightarrow> fst kv = a \<and> value_of (snd kv) = accounts d a)" for a
    unfolding snapshot_account_def
    by (rule reads_if) (auto intro!: reads_andthen [OF reads_account] reads_give, auto simp: dom_def)
  show ?case
  proof (rule reads_andthen [OF reads_mapm [OF one]], rule reads_give, intro impI)
    fix kvs d assume all: "list_all2 (\<lambda>a kv. set present = dom (accounts d) \<longrightarrow> fst kv = a \<and> value_of (snd kv) = accounts d a) as kvs"
      and p: "set present = dom (accounts d)"
    from all p have "map fst kvs = as" "\<forall>kv \<in> set kvs. value_of (snd kv) = accounts d (fst kv)"
      by (induction rule: list_all2_induct) auto
    then show "map fst (members (JObj kvs)) = as \<and> pictures (JObj kvs) (accounts d)" by (simp add: pictures_def)
  qed
qed

section \<open>Applying\<close>

lemma targeted_Cons: "a \<notin> fst ` set kvs \<Longrightarrow> targeted kvs (f(a := value_of img)) = targeted ((a, img) # kvs) f"
proof -
  assume "a \<notin> fst ` set kvs"
  then have "map_of kvs a = None" by (simp add: map_of_eq_None_iff)
  then show ?thesis by (intro ext) (simp add: targeted_def split: option.split)
qed

lemma partly_Cons:
  assumes "partly kvs (f(a := value_of img)) g" and "a \<notin> fst ` set kvs"
  shows "partly ((a, img) # kvs) f g"
  using assms(1) unfolding partly_def targeted_Cons [OF assms(2)] by (auto simp: targeted_def split: if_splits)

lemma partly_step:
  assumes "g1 = f \<or> g1 = f(a := value_of img)" and "partly kvs g1 g" and "a \<notin> fst ` set kvs"
  shows "partly ((a, img) # kvs) f g"
  using assms(1)
proof
  assume "g1 = f"
  moreover have "map_of kvs a = None" using assms(3) by (simp add: map_of_eq_None_iff)
  ultimately show ?thesis using assms(2) by (auto simp: partly_def targeted_def)
qed (use partly_Cons [OF _ assms(3)] assms(2) in simp)

lemma apply_images_safe:
  assumes "distinct (map fst kvs)" and "set present = dom (accounts D)"
  shows "safe (\<lambda>d. d = D) (apply_images present kvs) (\<lambda>_ d. same_files D d \<and> accounts d = targeted kvs (accounts D))
      (\<lambda>d. same_files D d \<and> partly kvs (accounts D) (accounts d))"
  using assms
proof (induction kvs arbitrary: present D)
  case Nil
  then show ?case by (auto intro!: triple_give simp: targeted_def)
next
  case (Cons kv kvs)
  obtain a img where kv: "kv = (a, img)" by (cases kv)
  from Cons.prems have a: "a \<notin> fst ` set kvs" "distinct (map fst kvs)" by (auto simp: kv)
  let ?E = "\<lambda>d. same_files D d \<and> partly ((a, img) # kvs) (accounts D) (accounts d)"
  have rest: "safe (\<lambda>d. d = D') (apply_images present' kvs)
      (\<lambda>_ d. same_files D d \<and> accounts d = targeted ((a, img) # kvs) (accounts D)) ?E"
    if D': "same_files D D'" "accounts D' = (accounts D)(a := value_of img)" and p: "set present' = dom (accounts D')" for D' present'
    by (rule triple_weaken [OF Cons.IH [OF a(2) p, unfolded D'(2) targeted_Cons [OF a(1)]]])
      (use D'(1) partly_Cons [OF _ a(1)] same_files_trans in blast)+
  have E: "?E D" "?E D'" if "same_files D D'" "accounts D' = (accounts D)(a := value_of img)" for D'
    using that by (auto simp: partly_def targeted_def)
  let ?s = "text_of (fld img ''value'')"
  let ?D1 = "D\<lparr>dk_accounts := upsert a ?s (dk_accounts D)\<rparr>" and ?D2 = "D\<lparr>dk_accounts := remove_key a (dk_accounts D)\<rparr>"
  have set: "safe (\<lambda>d. d = D) (andthen (set_account a ?s) (\<lambda>_. apply_images (a # present) kvs))
      (\<lambda>_ d. same_files D d \<and> accounts d = targeted ((a, img) # kvs) (accounts D)) ?E" if "fld img ''present'' = JBool True"
  proof (rule safe_then [where Q = "\<lambda>_ d. d = ?D1"])
    have acc: "accounts ?D1 = (accounts D)(a := value_of img)" using that by (simp add: map_of_upsert value_of_def)
    show "safe (\<lambda>d. d = D) (set_account a ?s) (\<lambda>_ d. d = ?D1) ?E"
      unfolding set_account_def by (rule safe_durable) (use E [OF _ acc] in auto)
    show "safe (\<lambda>d. d = ?D1) (apply_images (a # present) kvs)
      (\<lambda>_ d. same_files D d \<and> accounts d = targeted ((a, img) # kvs) (accounts D)) ?E"
      by (rule rest [OF _ acc]) (use Cons.prems(2) in \<open>auto simp: map_of_upsert\<close>)
  qed
  have delete: "safe (\<lambda>d. d = D) (andthen (delete_account a) (\<lambda>_. apply_images (filter (\<lambda>x. x \<noteq> a) present) kvs))
      (\<lambda>_ d. same_files D d \<and> accounts d = targeted ((a, img) # kvs) (accounts D)) ?E" if "fld img ''present'' \<noteq> JBool True"
  proof (rule safe_then [where Q = "\<lambda>_ d. d = ?D2"])
    have acc: "accounts ?D2 = (accounts D)(a := value_of img)" using that by (simp add: map_of_remove value_of_def)
    show "safe (\<lambda>d. d = D) (delete_account a) (\<lambda>_ d. d = ?D2) ?E"
      unfolding delete_account_def by (rule safe_durable) (use E [OF _ acc] in auto)
    show "safe (\<lambda>d. d = ?D2) (apply_images (filter (\<lambda>x. x \<noteq> a) present) kvs)
      (\<lambda>_ d. same_files D d \<and> accounts d = targeted ((a, img) # kvs) (accounts D)) ?E"
      by (rule rest [OF _ acc]) (use Cons.prems(2) in \<open>auto simp: map_of_remove\<close>)
  qed
  have skip: "safe (\<lambda>d. d = D) (apply_images present kvs)
      (\<lambda>_ d. same_files D d \<and> accounts d = targeted ((a, img) # kvs) (accounts D)) ?E" if "accounts D a = value_of img"
    by (rule rest) (use that Cons.prems(2) in auto)
  have same: "reads (if a \<in> set present then andthen (get_account a) (\<lambda>x. give (x = ?s)) else give False) (\<lambda>b d. b \<longrightarrow> accounts d a = Some ?s)"
    by (rule reads_if) (auto intro!: reads_andthen [OF reads_account] reads_give)
  have E0: "?E D" by simp
  have present: "safe (\<lambda>d. d = D) (andthen (if a \<in> set present then andthen (get_account a) (\<lambda>x. give (x = ?s)) else give False) (\<lambda>same.
        if same then apply_images present kvs else andthen (set_account a ?s) (\<lambda>_. apply_images (a # present) kvs)))
      (\<lambda>_ d. same_files D d \<and> accounts d = targeted ((a, img) # kvs) (accounts D)) ?E" if t: "fld img ''present'' = JBool True"
  proof (rule safe_read_then [OF same], use E0 in simp, rule triple_if, goal_cases)
    case (1 b)
    show ?case
      by (rule triple_fact [where F = "accounts D a = value_of img"], use 1 t in \<open>(auto simp: value_of_def)[1]\<close>, rule triple_pre [OF skip]) auto
  next
    case (2 b)
    show ?case by (rule triple_pre [OF set [OF t]]) simp
  qed
  have absent: "accounts D a = value_of img" if "fld img ''present'' \<noteq> JBool True" "a \<notin> set present"
    using that Cons.prems(2) by (auto simp: value_of_def)
  show ?case
    unfolding kv apply_images.simps prod.case Let_def
    by (intro triple_if present delete skip absent) assumption+
qed

lemma apply_accounts_safe:
  assumes "distinct (map fst kvs)"
  shows "safe (\<lambda>d. d = D) (apply_accounts kvs) (\<lambda>_ d. same_files D d \<and> accounts d = targeted kvs (accounts D))
      (\<lambda>d. same_files D d \<and> partly kvs (accounts D) (accounts d))"
  unfolding apply_accounts_def
proof (rule safe_read_then [OF reads_accounts], simp, goal_cases)
  case (1 present)
  show ?case
    by (rule triple_fact [where F = "set present = dom (accounts D)"], simp, rule triple_pre [OF apply_images_safe [OF assms]]) auto
qed

section \<open>Restoring\<close>

lemma restore_each_safe:
  assumes "distinct (map fst kvs)"
  shows "triple (\<lambda>d. d = D) (restore_each kvs)
      (\<lambda>n d. same_files D d \<and> partly kvs (accounts D) (accounts d) \<and> (n = 0 \<longrightarrow> accounts d = targeted kvs (accounts D)))
      (\<lambda>_ _. False) (\<lambda>d. same_files D d \<and> partly kvs (accounts D) (accounts d))"
  using assms
proof (induction kvs arbitrary: D)
  case Nil
  then show ?case by (auto intro!: triple_give simp: targeted_def)
next
  case (Cons kv kvs)
  obtain a img where kv: "kv = (a, img)" by (cases kv)
  from Cons.prems have a: "a \<notin> fst ` set kvs" "distinct (map fst kvs)" by (auto simp: kv)
  have one: "partly [kv] f g \<longleftrightarrow> g = f \<or> g = f(a := value_of img)" "targeted [kv] f = f(a := value_of img)" for f g
    by (auto simp: partly_def targeted_def kv fun_eq_iff)
  let ?X = "\<lambda>d. same_files D d \<and> partly (kv # kvs) (accounts D) (accounts d)"
  have step: "triple (\<lambda>d. d = D) (rescue (andthen (apply_accounts [kv]) (\<lambda>_. give 0)) (\<lambda>_. give 1))
      (\<lambda>k d. same_files D d \<and> partly [kv] (accounts D) (accounts d) \<and> (k = (0::nat) \<longrightarrow> accounts d = targeted [kv] (accounts D)))
      (\<lambda>_ _. False) (\<lambda>d. same_files D d \<and> partly [kv] (accounts D) (accounts d))"
  proof (rule triple_rescue)
    show "safe (\<lambda>d. d = D) (andthen (apply_accounts [kv]) (\<lambda>_. give 0))
      (\<lambda>k d. same_files D d \<and> partly [kv] (accounts D) (accounts d) \<and> (k = (0::nat) \<longrightarrow> accounts d = targeted [kv] (accounts D)))
      (\<lambda>d. same_files D d \<and> partly [kv] (accounts D) (accounts d))"
      by (rule safe_then [OF apply_accounts_safe]) (auto intro!: triple_give simp: one)
  qed (auto intro!: triple_give)
  show ?case
    unfolding restore_each.simps
  proof (rule triple_andthen [where Q = "\<lambda>k d. same_files D d \<and> partly [kv] (accounts D) (accounts d) \<and> (k = (0::nat) \<longrightarrow> accounts d = targeted [kv] (accounts D))"])
    have "partly (kv # kvs) f g" if "partly [kv] f g" for f g
      using that unfolding one by (auto simp: partly_def targeted_def kv)
    then show "triple (\<lambda>d. d = D) (rescue (andthen (apply_accounts [kv]) (\<lambda>_. give 0)) (\<lambda>_. give 1))
      (\<lambda>k d. same_files D d \<and> partly [kv] (accounts D) (accounts d) \<and> (k = (0::nat) \<longrightarrow> accounts d = targeted [kv] (accounts D)))
      (\<lambda>_ _. False) ?X"
      by (intro triple_weaken [OF step]) auto
  next
    fix k :: nat
    show "triple (\<lambda>d. same_files D d \<and> partly [kv] (accounts D) (accounts d) \<and> (k = 0 \<longrightarrow> accounts d = targeted [kv] (accounts D)))
       (andthen (restore_each kvs) (\<lambda>n. give (k + n)))
       (\<lambda>n d. same_files D d \<and> partly (kv # kvs) (accounts D) (accounts d) \<and> (n = 0 \<longrightarrow> accounts d = targeted (kv # kvs) (accounts D)))
       (\<lambda>_ _. False) ?X"
    proof (rule triple_each)
      fix D' assume D': "same_files D D' \<and> partly [kv] (accounts D) (accounts D') \<and> (k = 0 \<longrightarrow> accounts D' = targeted [kv] (accounts D))"
      have part: "partly (kv # kvs) (accounts D) g" if "partly kvs (accounts D') g" for g
      proof -
        have "partly [kv] (accounts D) (accounts D')" using D' by simp
        then have "accounts D' = accounts D \<or> accounts D' = (accounts D)(a := value_of img)" by (rule one(1) [THEN iffD1])
        then show ?thesis unfolding kv by (rule partly_step [OF _ that a(1)])
      qed
      have all: "targeted kvs (accounts D') = targeted (kv # kvs) (accounts D)" if "k = 0"
        using D' that targeted_Cons [OF a(1)] unfolding one by (simp add: kv)
      show "triple (\<lambda>d. d = D') (andthen (restore_each kvs) (\<lambda>n. give (k + n)))
         (\<lambda>n d. same_files D d \<and> partly (kv # kvs) (accounts D) (accounts d) \<and> (n = 0 \<longrightarrow> accounts d = targeted (kv # kvs) (accounts D)))
         (\<lambda>_ _. False) ?X"
      proof (rule triple_andthen)
        show "triple (\<lambda>d. d = D') (restore_each kvs)
          (\<lambda>n d. same_files D d \<and> partly (kv # kvs) (accounts D) (accounts d) \<and> (n = 0 \<longrightarrow> accounts d = targeted kvs (accounts D')))
          (\<lambda>_ _. False) ?X"
          by (rule triple_weaken [OF Cons.IH [OF a(2)]]) (auto intro: same_files_trans [OF conjunct1 [OF D']] part)
      qed (use all in \<open>auto intro!: triple_give\<close>)
    qed
  qed
qed

lemma restore_accounts_safe:
  assumes "distinct (map fst (members images))"
  shows "triple (\<lambda>d. d = D) (restore_accounts images)
      (\<lambda>n d. same_files D d \<and> partly (members images) (accounts D) (accounts d)
         \<and> (n = 0 \<longrightarrow> accounts d = targeted (members images) (accounts D)))
      (\<lambda>_ _. False) (\<lambda>d. same_files D d \<and> partly (members images) (accounts D) (accounts d))"
proof -
  have "map_of (rev (members images)) = map_of (members images)" using assms by (intro map_of_inject_set [THEN iffD2]) (simp_all add: rev_map [symmetric])
  then have "targeted (rev (members images)) = targeted (members images)" by (intro ext) (simp add: targeted_def)
  then show ?thesis
    unfolding restore_accounts_def using restore_each_safe [of "rev (members images)" D] assms
    by (simp add: partly_def rev_map [symmetric])
qed

end
