(* ===== verification/Master_Recovery.thy ===== *)
theory Master_Recovery
  imports Master_Accounts
begin

text \<open>
  A master mutation is all or nothing. The invariant says, for one mutation with its planned state, what may
  be on disk at every moment, whatever failed and wherever the process died; recovery keeps it and, when it
  returns, has completed the mutation or found it closed.
\<close>

section \<open>The states of one mutation\<close>

definition marks :: "disk \<Rightarrow> (string \<times> string) list" where
  "marks d = filter (\<lambda>e. snd e = MASTER) (case dk_index d of None \<Rightarrow> [] | Some es \<Rightarrow> es)"

definition revision_of :: "crypto \<Rightarrow> metadata \<Rightarrow> json" where
  "revision_of C m = JStr (tx_revision C (open_tx m))"

definition planned :: "json \<Rightarrow> (string \<Rightarrow> string option) \<Rightarrow> string \<Rightarrow> string option" where
  "planned st A = targeted (members (fld st ''accounts_after'')) A"

abbreviation between :: "json \<Rightarrow> (string \<Rightarrow> string option) \<Rightarrow> (string \<Rightarrow> string option) \<Rightarrow> bool" where
  "between st \<equiv> partly (members (fld st ''accounts_after''))"

definition sound_plan :: "json \<Rightarrow> (string \<Rightarrow> string option) \<Rightarrow> bool" where
  "sound_plan st A \<longleftrightarrow> distinct (map fst (members (fld st ''accounts_after''))) \<and> distinct (map fst (members (fld st ''accounts_before'')))
     \<and> account_names (fld st ''accounts_before'') = account_names (fld st ''accounts_after'') \<and> pictures (fld st ''accounts_before'') A"

text \<open>The metadata that a mutation can leave: that of its revision, changed as planned, or written again as it was.\<close>

inductive touched_meta :: "crypto \<Rightarrow> json \<Rightarrow> metadata \<Rightarrow> bool" for C st where
  touched_before: "revision_of C m = fld st ''before_revision'' \<Longrightarrow> touched_meta C st m"
| touched_after: "revision_of C m = fld st ''before_revision'' \<Longrightarrow>
    rbind (apply_metadata now st (open_tx m)) (commit_tx fresh) = Inr t \<Longrightarrow> closed_metadata fresh t = Inr m' \<Longrightarrow> touched_meta C st m'"
| touched_again: "touched_meta C st m \<Longrightarrow> closed_metadata fresh (open_tx m) = Inr m' \<Longrightarrow> touched_meta C st m'"

definition old_vault :: "crypto \<Rightarrow> json \<Rightarrow> (string \<Rightarrow> string option) \<Rightarrow> metadata \<Rightarrow> (string \<Rightarrow> string option) \<Rightarrow> bool" where
  "old_vault C st A m f \<longleftrightarrow> revision_of C m = fld st ''before_revision'' \<and> f = A"

definition new_vault :: "json \<Rightarrow> (string \<Rightarrow> string option) \<Rightarrow> metadata \<Rightarrow> (string \<Rightarrow> string option) \<Rightarrow> bool" where
  "new_vault st A m f \<longleftrightarrow> matches_after st (open_tx m) = Inr True \<and> f = planned st A"

definition mixed_vault :: "crypto \<Rightarrow> json \<Rightarrow> (string \<Rightarrow> string option) \<Rightarrow> metadata \<Rightarrow> (string \<Rightarrow> string option) \<Rightarrow> bool" where
  "mixed_vault C st A m f \<longleftrightarrow> touched_meta C st m \<and> between st A f"

definition plan_record :: "string \<Rightarrow> json \<Rightarrow> op_record \<Rightarrow> bool" where
  "plan_record i st r \<longleftrightarrow> or_id r = i \<and> or_kind r = MASTER \<and> \<not> op_finished r \<and> (\<exists>x. or_state r = set_after x st)"

definition mutation_inv :: "crypto \<Rightarrow> string \<Rightarrow> json \<Rightarrow> (string \<Rightarrow> string option) \<Rightarrow> disk \<Rightarrow> bool" where
  "mutation_inv C i st A d \<longleftrightarrow> dk_index d \<noteq> None \<and>
     (marks d = [] \<and> (old_vault C st A (dk_meta d) (accounts d) \<or> new_vault st A (dk_meta d) (accounts d)) \<and> \<not> open_image (image_of i d)
      \<or> marks d = [(i, MASTER)] \<and> (case image_of i d of
           None \<Rightarrow> i \<notin> receipt_ids d \<and> old_vault C st A (dk_meta d) (accounts d)
         | Some None \<Rightarrow> False
         | Some (Some r) \<Rightarrow> or_id r = i \<and> or_kind r = MASTER \<and>
             (if op_finished r then
                (if or_status r = ''completed'' then new_vault st A (dk_meta d) (accounts d) else old_vault C st A (dk_meta d) (accounts d))
              else (\<exists>x. or_state r = set_after x st) \<and> mixed_vault C st A (dk_meta d) (accounts d))))"

text \<open>The record is open, and the vault is in a state of \<open>\<phi>\<close>.\<close>

definition working :: "string \<Rightarrow> json \<Rightarrow> (metadata \<Rightarrow> (string \<Rightarrow> string option) \<Rightarrow> bool) \<Rightarrow> disk \<Rightarrow> bool" where
  "working i st \<phi> d \<longleftrightarrow> dk_index d \<noteq> None \<and> marks d = [(i, MASTER)]
     \<and> (\<exists>r. image_of i d = Some (Some r) \<and> plan_record i st r) \<and> \<phi> (dk_meta d) (accounts d)"

lemma working_inv: "working i st \<phi> d \<Longrightarrow> (\<And>m f. \<phi> m f \<Longrightarrow> mixed_vault C st A m f) \<Longrightarrow> mutation_inv C i st A d"
  by (auto simp: working_def mutation_inv_def plan_record_def)

lemma working_mono: "working i st \<phi> d \<Longrightarrow> (\<And>m f. \<phi> m f \<Longrightarrow> \<psi> m f) \<Longrightarrow> working i st \<psi> d"
  by (auto simp: working_def)

lemma inv_working:
  "mutation_inv C i st A d \<Longrightarrow> image_of i d = Some (Some r) \<Longrightarrow> \<not> op_finished r \<Longrightarrow> working i st (mixed_vault C st A) d \<and> plan_record i st r"
  by (auto simp: working_def mutation_inv_def plan_record_def open_image_def)

section \<open>Plans\<close>

lemma fld_set_after [simp]: "k \<noteq> ''after_revision'' \<Longrightarrow> fld (set_after x st) k = fld st k"
  by (simp add: set_after_def fld_def map_of_put)

lemma put_twice: "put k x (put k y m) = put k x m"
proof (cases "k \<in> set (map fst m)")
  case True
  have "map fst (map (\<lambda>(k', v). (k', if k' = k then y else v)) m) = map fst m" by auto
  with True show ?thesis unfolding put_def by (auto simp: comp_def case_prod_beta)
next
  case False
  then have "map (\<lambda>(k', v). (k', if k' = k then x else v)) m = m" by (intro map_idI) (force simp: image_iff)
  with False show ?thesis by (simp add: put_def)
qed

lemma set_after_again [simp]: "set_after x (set_after y st) = set_after x st"
  by (simp add: set_after_def put_twice)

lemma plan_views [simp]:
  "apply_metadata now (set_after x st) t = apply_metadata now st t" "matches_after (set_after x st) t = matches_after st t"
  by (simp_all add: apply_metadata_def apply_entries_def matches_after_def cong: if_cong option.case_cong)

lemma targeted_partly: "partly kvs f g \<Longrightarrow> targeted kvs g = targeted kvs f"
proof (rule ext)
  fix a assume "partly kvs f g"
  then have "g a = f a \<or> g a = targeted kvs f a" by (simp add: partly_def)
  then show "targeted kvs g a = targeted kvs f a" by (cases "map_of kvs a") (auto simp: targeted_def)
qed

lemma partly_trans: "partly kvs f g \<Longrightarrow> partly kvs g h \<Longrightarrow> partly kvs f h"
  unfolding partly_def by (metis targeted_partly partly_def)

lemma restored:
  assumes "sound_plan st A" and "between st A f"
  shows "targeted (members (fld st ''accounts_before'')) f = A"
    and "partly (members (fld st ''accounts_before'')) f g \<Longrightarrow> between st A g"
proof -
  let ?B = "members (fld st ''accounts_before'')" and ?N = "members (fld st ''accounts_after'')"
  have B: "value_of img = A a" if "map_of ?B a = Some img" for a img
    using assms(1) map_of_SomeD [OF that] by (auto simp: sound_plan_def pictures_def)
  have "a \<in> fst ` set ?B \<longleftrightarrow> a \<in> fst ` set ?N" for a using assms(1) by (auto simp: sound_plan_def account_names_def)
  then have keys: "map_of ?B a = None \<longleftrightarrow> map_of ?N a = None" for a by (simp add: map_of_eq_None_iff)
  have same: "f a = A a" if "map_of ?B a = None" for a
    using assms(2) [unfolded partly_def, rule_format, of a] that keys [of a] by (simp add: targeted_def)
  show A: "targeted ?B f = A" using B same by (intro ext) (simp add: targeted_def split: option.split)
  show "between st A g" if "partly ?B f g"
  proof -
    have "g a = A a \<or> g a = f a" for a using that unfolding partly_def A by blast
    with assms(2) show ?thesis unfolding partly_def by metis
  qed
qed

section \<open>Steps of the pipeline\<close>

lemma reads_meta: "reads read_meta (\<lambda>m d. dk_meta d = m)"
  unfolding read_meta_def
  by (rule reads_andthen [OF reads_probe [where \<phi> = "\<lambda>_ _. True"]], simp,
      rule reads_andthen [OF reads_look [where \<phi> = "\<lambda>m d. dk_meta d = m"]])
    (auto intro!: reads_andthen [OF reads_pure [where \<phi> = "\<lambda>_ _. True"]] reads_give)

lemma reads_required: "reads (validate_required_secrets st) (\<lambda>_ _. True)"
proof -
  have "reads (check_secrets images existing as) (\<lambda>_ _. True)" for images existing as
  proof (induction as arbitrary: existing)
    case (Cons a as)
    have "reads (case existing of None \<Rightarrow> list_accounts | Some xs \<Rightarrow> give xs) (\<lambda>_ _. True)"
      by (auto intro: reads_give reads_conseq [OF reads_accounts] split: option.split)
    with Cons show ?case by (auto intro!: reads_require_then intro: reads_andthen)
  qed (simp add: reads_give)
  then show ?thesis
    unfolding validate_required_secrets_def by (auto intro!: reads_andthen [OF reads_pure [where \<phi> = "\<lambda>_ _. True"]])
qed

lemma marks_simps [simp]:
  "marks (d\<lparr>dk_records := rs\<rparr>) = marks d" "marks (d\<lparr>dk_receipts := x\<rparr>) = marks d"
  "marks (d\<lparr>dk_meta := m\<rparr>) = marks d" "marks (d\<lparr>dk_accounts := as\<rparr>) = marks d"
  by (simp_all add: marks_def)

lemma stage_working:
  assumes "case s of None \<Rightarrow> True | Some x \<Rightarrow> \<exists>y. x = set_after y st"
  shows "safe (working i st \<phi>) (stage_operation now i stage s) (\<lambda>_. working i st \<phi>) (working i st \<phi>)"
proof (rule triple_each)
  fix D assume D: "working i st \<phi> D"
  then obtain r where r: "image_of i D = Some (Some r)" "plan_record i st r" by (auto simp: working_def)
  let ?r = "r\<lparr>or_stage := stage, or_updated := now, or_state := (case s of None \<Rightarrow> or_state r | Some s \<Rightarrow> s)\<rparr>"
  have "plan_record i st ?r" using r(2) assms by (auto simp: plan_record_def op_finished_def split: option.splits)
  then have "working i st \<phi> (D\<lparr>dk_records := upsert i (Some ?r) (dk_records D)\<rparr>)" using D by (simp add: working_def)
  then show "safe (\<lambda>d. d = D) (stage_operation now i stage s) (\<lambda>_. working i st \<phi>) (working i st \<phi>)"
    using D by (intro stage_safe [where r' = ?r and E = "working i st \<phi>", OF r(1)]) simp_all
qed

lemma accounts_working:
  assumes "sound_plan st A"
  shows "safe (working i st (\<lambda>m f. \<psi> m \<and> between st A f)) (apply_accounts (members (fld st ''accounts_after'')))
     (\<lambda>_. working i st (\<lambda>m f. \<psi> m \<and> f = planned st A)) (working i st (\<lambda>m f. \<psi> m \<and> between st A f))"
proof (rule triple_each)
  fix D assume D: "working i st (\<lambda>m f. \<psi> m \<and> between st A f) D"
  let ?N = "members (fld st ''accounts_after'')"
  have part: "between st A (accounts D)" and psi: "\<psi> (dk_meta D)" using D by (simp_all add: working_def)
  have distinct: "distinct (map fst ?N)" using assms by (simp add: sound_plan_def)
  have keep: "working i st \<phi> d" if "same_files D d" "\<phi> (dk_meta D) (accounts d)" for \<phi> d
    using D that(2) same_files_D [OF that(1)] by (auto simp: working_def marks_def image_of_def simp del: image_of_simps)
  show "safe (\<lambda>d. d = D) (apply_accounts ?N) (\<lambda>_. working i st (\<lambda>m f. \<psi> m \<and> f = planned st A)) (working i st (\<lambda>m f. \<psi> m \<and> between st A f))"
    by (rule triple_weaken [OF apply_accounts_safe [OF distinct]])
      (use psi targeted_partly [OF part] partly_trans [OF part] in \<open>auto simp: planned_def intro!: keep\<close>)
qed

lemma restore_working:
  assumes "sound_plan st A"
  shows "triple (working i st (\<lambda>m f. \<psi> m \<and> between st A f)) (restore_accounts (fld st ''accounts_before''))
     (\<lambda>n. working i st (\<lambda>m f. \<psi> m \<and> between st A f \<and> (n = 0 \<longrightarrow> f = A))) (\<lambda>_ _. False)
     (working i st (\<lambda>m f. \<psi> m \<and> between st A f))"
proof (rule triple_each)
  fix D assume D: "working i st (\<lambda>m f. \<psi> m \<and> between st A f) D"
  have part: "between st A (accounts D)" and psi: "\<psi> (dk_meta D)" using D by (simp_all add: working_def)
  have keep: "working i st \<phi> d" if "same_files D d" "\<phi> (dk_meta D) (accounts d)" for \<phi> d
    using D that(2) same_files_D [OF that(1)] by (auto simp: working_def marks_def image_of_def simp del: image_of_simps)
  have distinct: "distinct (map fst (members (fld st ''accounts_before'')))" using assms by (simp add: sound_plan_def)
  show "triple (\<lambda>d. d = D) (restore_accounts (fld st ''accounts_before''))
     (\<lambda>n. working i st (\<lambda>m f. \<psi> m \<and> between st A f \<and> (n = 0 \<longrightarrow> f = A))) (\<lambda>_ _. False)
     (working i st (\<lambda>m f. \<psi> m \<and> between st A f))"
    by (rule triple_weaken [OF restore_accounts_safe [OF distinct]])
      (use restored [OF assms part] psi in \<open>auto intro!: keep\<close>)
qed

text \<open>Closing: the vault is in the state that the status stands for.\<close>

lemma close_working:
  assumes status: "status = ''completed'' \<or> status = ''failed''"
    and \<phi>: "\<And>m f. \<phi> m f \<Longrightarrow> mixed_vault C st A m f \<and> (if status = ''completed'' then new_vault st A m f else old_vault C st A m f)"
  shows "safe (working i st \<phi>) (close_operation now i status result code)
     (\<lambda>_ d. marks d = [] \<and> mutation_inv C i st A d \<and> \<phi> (dk_meta d) (accounts d)) (mutation_inv C i st A)"
proof (rule triple_each)
  fix D assume D: "working i st \<phi> D"
  then obtain r es where r: "image_of i D = Some (Some r)" "plan_record i st r" and es: "dk_index D = Some es"
    and m: "marks D = [(i, MASTER)]" and v: "\<phi> (dk_meta D) (accounts D)" by (auto simp: working_def)
  let ?r = "closed_as now status result code r"
  let ?D = "D\<lparr>dk_records := upsert i (Some ?r) (dk_records D)\<rparr>"
  have inv0: "mutation_inv C i st A D" using D \<phi> by (blast intro: working_inv)
  have r': "op_finished ?r" "or_id ?r = i" "or_kind ?r = MASTER" "or_status ?r = status"
    using status r(2) by (auto simp: closed_as_def op_finished_def plan_record_def)
  have inv1: "mutation_inv C i st A (?D\<lparr>dk_receipts := x\<rparr>)" for x
    using m es r' \<phi> [OF v] status by (auto simp: mutation_inv_def)
  have none: "filter (\<lambda>e. snd e = MASTER) (remove_key i es) = []"
  proof -
    have "filter (\<lambda>e. snd e = MASTER) (remove_key i es) = filter (\<lambda>e. fst e \<noteq> i) (marks D)"
      unfolding remove_key_def marks_def es by (simp add: conj_commute)
    then show ?thesis by (simp add: m)
  qed
  have inv2: "marks d = [] \<and> mutation_inv C i st A d \<and> \<phi> (dk_meta d) (accounts d)"
    if "d = ?D\<lparr>dk_receipts := x, dk_index := Some (remove_key i es)\<rparr>
      \<or> d = ?D\<lparr>dk_receipts := x, dk_index := Some (remove_key i es), dk_records := remove_key i (dk_records ?D)\<rparr>" for d x
    using that none r' \<phi> [OF v] v by (auto simp: mutation_inv_def marks_def open_image_def split: if_splits)
  show "safe (\<lambda>d. d = D) (close_operation now i status result code)
     (\<lambda>_ d. marks d = [] \<and> mutation_inv C i st A d \<and> \<phi> (dk_meta d) (accounts d)) (mutation_inv C i st A)"
  proof (rule close_safe [where D' = ?D and E = "mutation_inv C i st A", OF r(1) es inv0 refl], goal_cases)
    case 1
    then show ?case using inv1 [of "dk_receipts D"] by simp
  next
    case (2 d)
    then show ?case using inv1 inv2 es unfolding archiving_def archived_def by auto
  next
    case (3 x d)
    then show ?case using inv2 es unfolding archived_def by auto
  qed (use r(2) in \<open>auto simp: plan_record_def\<close>)
qed

section \<open>The mutation\<close>

lemma execute_safe:
  assumes plan: "sound_plan st A" and r: "or_id r = i" "or_state r = set_after x st"
  shows "safe (working i st (\<lambda>m f. revision_of C m = fld st ''before_revision'' \<and> between st A f)) (execute_inside now r)
     (\<lambda>_. working i st (\<lambda>m f. revision_of C m = fld st ''before_revision'' \<and> f = planned st A)) (mutation_inv C i st A)"
proof -
  let ?\<psi> = "\<lambda>m. revision_of C m = fld st ''before_revision''"
  let ?W = "working i st (\<lambda>m f. ?\<psi> m \<and> between st A f)" and ?T = "working i st (\<lambda>m f. ?\<psi> m \<and> f = planned st A)"
  have inv: "mutation_inv C i st A d" if "?W d" for d
    using that by (rule working_inv) (simp add: mixed_vault_def touched_before)
  have T: "?W d" if "?T d" for d using that by (rule working_mono) (simp add: planned_def)
  have body: "safe ?W (andthen (apply_accounts (members (fld st ''accounts_after''))) (\<lambda>_.
      andthen (stage_operation now i ''backend_applied'' None) (\<lambda>_.
      andthen (stage_operation now i ''metadata_prepared'' (Some (set_after x st))) (\<lambda>_. give ())))) (\<lambda>_. ?T) ?W"
  proof (rule safe_then [OF accounts_working [OF plan]])
    have stage: "safe ?T (stage_operation now i stage s) (\<lambda>_. ?T) ?W"
      if "case s of None \<Rightarrow> True | Some x \<Rightarrow> \<exists>y. x = set_after y st" for stage s
      by (rule triple_weaken [OF stage_working [OF that]]) (use T in auto)
    show "safe ?T (andthen (stage_operation now i ''backend_applied'' None) (\<lambda>_.
      andthen (stage_operation now i ''metadata_prepared'' (Some (set_after x st))) (\<lambda>_. give ()))) (\<lambda>_. ?T) ?W"
      by (rule safe_then [OF stage], simp, rule safe_then [OF stage], auto intro: triple_give)
  qed
  have ending: "safe (working i st (\<lambda>m f. ?\<psi> m \<and> between st A f \<and> (n = 0 \<longrightarrow> f = A)))
      (if n \<noteq> 0 then
         andthen (rescue (andthen (stage_operation now i ''rollback_required'' (Some (set_after x st))) (\<lambda>_. give ())) (\<lambda>_. give ()))
           (\<lambda>_. throw Incomplete_rollback)
       else andthen (fail_operation now i ''operation_failed'') (\<lambda>_. throw e)) (\<lambda>_. ?T) (mutation_inv C i st A)" for n :: nat and e
  proof (rule triple_if)
    assume n: "n \<noteq> 0"
    have stage: "safe ?W (stage_operation now i ''rollback_required'' (Some (set_after x st))) (\<lambda>_. ?W) ?W"
      by (rule stage_working) auto
    have staged: "safe ?W (rescue (andthen (stage_operation now i ''rollback_required'' (Some (set_after x st))) (\<lambda>_. give ())) (\<lambda>_. give ()))
        (\<lambda>_. ?W) (mutation_inv C i st A)"
      by (rule triple_weaken [OF triple_rescue [OF safe_then [OF stage]]]) (auto intro!: triple_give inv)
    show "safe (working i st (\<lambda>m f. ?\<psi> m \<and> between st A f \<and> (n = 0 \<longrightarrow> f = A)))
      (andthen (rescue (andthen (stage_operation now i ''rollback_required'' (Some (set_after x st))) (\<lambda>_. give ())) (\<lambda>_. give ()))
           (\<lambda>_. throw Incomplete_rollback)) (\<lambda>_. ?T) (mutation_inv C i st A)"
      by (rule safe_then [OF triple_pre [OF staged]]) (auto intro!: triple_throw inv elim: working_mono)
  next
    assume n: "\<not> n \<noteq> 0"
    have close: "safe (working i st (\<lambda>m f. ?\<psi> m \<and> between st A f \<and> (n = 0 \<longrightarrow> f = A))) (fail_operation now i ''operation_failed'')
      (\<lambda>_. mutation_inv C i st A) (mutation_inv C i st A)"
      unfolding fail_operation_def
      by (rule safe_require, (auto intro!: inv elim: working_mono)[1], rule triple_weaken [OF close_working [where C = C and A = A]])
        (use n in \<open>auto simp: mixed_vault_def old_vault_def touched_before\<close>)
    show "safe (working i st (\<lambda>m f. ?\<psi> m \<and> between st A f \<and> (n = 0 \<longrightarrow> f = A)))
      (andthen (fail_operation now i ''operation_failed'') (\<lambda>_. throw e)) (\<lambda>_. ?T) (mutation_inv C i st A)"
      by (rule safe_then [OF close]) (auto intro: triple_throw)
  qed
  have handler: "safe ?W (andthen (restore_accounts (fld st ''accounts_before'')) (\<lambda>failures.
         if failures \<noteq> 0 then
           andthen (rescue (andthen (stage_operation now i ''rollback_required'' (Some (set_after x st))) (\<lambda>_. give ())) (\<lambda>_. give ()))
             (\<lambda>_. throw Incomplete_rollback)
         else andthen (fail_operation now i ''operation_failed'') (\<lambda>_. throw e))) (\<lambda>_. ?T) (mutation_inv C i st A)" for e
    by (rule safe_then [OF triple_weaken [OF restore_working [OF plan]] ending]) (auto intro: inv)
  have views: "fld (set_after x st) ''accounts_after'' = fld st ''accounts_after''"
    "fld (set_after x st) ''accounts_before'' = fld st ''accounts_before''" by simp_all
  show ?thesis
    unfolding execute_inside_def r Let_def views
    by (rule safe_pure, erule inv, rule triple_rescue [where R = "\<lambda>_. ?W"], rule triple_weaken [OF body])
      (use handler inv in auto)
qed

lemma close_tx_safe:
  assumes "\<And>m'. closed_metadata fresh t = Inr m' \<Longrightarrow> touched_meta C st m'"
  shows "safe (working i st (\<lambda>m f. touched_meta C st m \<and> f = T)) (close_tx fresh t) (\<lambda>_. working i st (\<lambda>m f. touched_meta C st m \<and> f = T))
     (working i st (\<lambda>m f. touched_meta C st m \<and> f = T))"
  unfolding close_tx_def
proof (rule safe_pure, assumption, goal_cases)
  case (1 m')
  show ?case
    unfolding write_meta_def
    by (rule safe_probe, assumption, rule safe_durable) (use assms [OF 1] in \<open>auto simp: working_def\<close>)
qed

text \<open>The end of a mutation: verified, staged, finished.\<close>

lemma commit_safe:
  fixes C :: crypto and i :: string
  assumes plan: "sound_plan st A"
  defines "W \<equiv> working i st (\<lambda>m f. touched_meta C st m \<and> f = planned st A)"
  shows "safe W (commit_record C now i)
     (\<lambda>_ d. marks d = [] \<and> mutation_inv C i st A d \<and> new_vault st A (dk_meta d) (accounts d)) (mutation_inv C i st A)"
proof -
  have inv: "mutation_inv C i st A d" if "W d" for d
    using that unfolding W_def by (rule working_inv) (simp add: mixed_vault_def planned_def)
  let ?N = "working i st (\<lambda>m f. touched_meta C st m \<and> f = planned st A \<and> matches_after st (open_tx m) = Inr True)"
  have N: "W d" if "?N d" for d using that unfolding W_def by (rule working_mono) simp
  have ending: "safe ?N (andthen (stage_operation now i stage (Some (set_after y st))) (\<lambda>_. finish_operation now i res))
      (\<lambda>_ d. marks d = [] \<and> mutation_inv C i st A d \<and> new_vault st A (dk_meta d) (accounts d)) (mutation_inv C i st A)" for stage y res
  proof (rule safe_then [where Q = "\<lambda>_. ?N"])
    show "safe ?N (stage_operation now i stage (Some (set_after y st))) (\<lambda>_. ?N) (mutation_inv C i st A)"
      by (rule triple_weaken [OF stage_working]) (use N inv in auto)
    show "safe ?N (finish_operation now i res)
      (\<lambda>_ d. marks d = [] \<and> mutation_inv C i st A d \<and> new_vault st A (dk_meta d) (accounts d)) (mutation_inv C i st A)"
      unfolding finish_operation_def
      by (rule triple_weaken [OF close_working [where C = C and A = A]]) (auto simp: mixed_vault_def new_vault_def planned_def)
  qed
  have checked: "safe (\<lambda>d. W d \<and> dk_meta d = m \<and> matches_after st (open_tx m) = Inr ok)
     (andthen (require (ok \<and> (fld st' ''after_revision'' = JNull \<or> fld st' ''after_revision'' = JStr (tx_revision C (open_tx m)))) Recovery_required) (\<lambda>_.
     andthen (stage_operation now i stage (Some (set_after y st))) (\<lambda>_. finish_operation now i res)))
     (\<lambda>_ d. marks d = [] \<and> mutation_inv C i st A d \<and> new_vault st A (dk_meta d) (accounts d)) (mutation_inv C i st A)" for m ok st' stage y res
    by (rule safe_require, simp add: inv, rule triple_pre [OF ending]) (auto simp: W_def working_def)
  show ?thesis
    unfolding commit_record_def
  proof (rule safe_read_then [OF reads_operation], erule inv, goal_cases)
    case (1 r)
    show ?case
    proof (rule triple_fact [where F = "\<exists>x. or_state r = set_after x st"], (auto simp: W_def working_def plan_record_def)[1], goal_cases)
      case 1
      then obtain x where x: "or_state r = set_after x st" by blast
      show ?case unfolding Let_def x set_after_again plan_views
        by (rule safe_pure, simp add: inv, rule safe_read_then [OF reads_meta], simp add: inv, rule safe_read_then [OF reads_pure],
            assumption, simp add: inv, rule triple_pre [OF checked]) auto
    qed
  qed
qed

lemma revert_safe:
  assumes plan: "sound_plan st A"
  shows "safe (mutation_inv C i st A) (revert C now i) (\<lambda>_. mutation_inv C i st A) (mutation_inv C i st A)"
proof -
  let ?I = "mutation_inv C i st A"
  let ?M = "working i st (mixed_vault C st A)"
  let ?\<psi> = "\<lambda>m. revision_of C m = fld st ''before_revision''"
  let ?W = "working i st (\<lambda>m f. ?\<psi> m \<and> between st A f)"
  have inv: "?I d" if "?M d" for d using that by (rule working_inv) simp
  have inv': "?I d" if "?W d" for d using that by (rule working_inv) (simp add: mixed_vault_def touched_before)
  have ending: "safe ?W (andthen (restore_accounts (fld st ''accounts_before'')) (\<lambda>failures.
         andthen (require (failures = 0) Incomplete_rollback) (\<lambda>_.
         andthen (fail_operation now i ''operation_failed'') (\<lambda>_. give ())))) (\<lambda>_. ?I) ?I"
  proof (rule safe_then [OF triple_weaken [OF restore_working [OF plan]]], assumption, simp, erule inv', goal_cases)
    case (1 n)
    have weaken: "?I d" if "working i st (\<lambda>m f. ?\<psi> m \<and> between st A f \<and> (n = 0 \<longrightarrow> f = A)) d" for d
      by (rule inv', rule working_mono [OF that]) simp
    show ?case
    proof (rule safe_require, erule weaken, goal_cases)
      case 1
      have close: "safe (working i st (\<lambda>m f. ?\<psi> m \<and> between st A f \<and> (n = 0 \<longrightarrow> f = A))) (fail_operation now i ''operation_failed'')
        (\<lambda>_. ?I) ?I"
        unfolding fail_operation_def
        by (rule safe_require, erule weaken, rule triple_weaken [OF close_working [where C = C and A = A]])
          (use 1 in \<open>auto simp: mixed_vault_def old_vault_def touched_before\<close>)
      show ?case by (rule safe_then [OF close]) (auto intro: triple_give)
    qed
  qed
  show ?thesis
    unfolding revert_def
  proof (rule safe_read_then [OF reads_operation], assumption, goal_cases)
    case (1 r)
    show ?case
    proof (rule triple_if, (auto intro!: triple_give)[1], goal_cases)
      case 1
      have M: "?M d \<and> plan_record i st r" if "?I d \<and> or_id r = i \<and> (image_of i d = Some (Some r) \<or> image_of i d = None \<and> op_finished r \<and> i \<in> receipt_ids d)" for d
        using inv_working 1 that by blast
      show ?case
      proof (rule triple_fact [where F = "\<exists>x. or_state r = set_after x st"], use M in \<open>(auto simp: plan_record_def)[1]\<close>, rule triple_pre [where P' = ?M], goal_cases)
        case 1
        then obtain x where x: "or_state r = set_after x st" by blast
        have view: "fld (set_after x st) ''before_revision'' = fld st ''before_revision''" "fld (set_after x st) ''accounts_before'' = fld st ''accounts_before''"
          by simp_all
        show ?case unfolding Let_def x view
        proof (rule safe_pure, erule inv, rule safe_read_then [OF reads_meta], erule inv, rule safe_pure, simp add: inv, rule triple_if, goal_cases)
          case (1 m)
          show ?case
            by (rule triple_pre [OF ending]) (use 1 in \<open>auto simp: working_def mixed_vault_def revision_of_def\<close>)
        qed (auto intro!: triple_give inv)
      qed (use M in blast)
    qed
  qed
qed

lemma recover_record_safe:
  assumes plan: "sound_plan st A" and r: "plan_record i st r"
  shows "safe (working i st (mixed_vault C st A)) (recover_record C now fresh r)
     (\<lambda>_ d. marks d = [] \<and> mutation_inv C i st A d) (mutation_inv C i st A)"
proof -
  let ?I = "mutation_inv C i st A" and ?M = "working i st (mixed_vault C st A)"
  let ?S = "\<lambda>\<psi>. working i st (\<lambda>m f. (touched_meta C st m \<and> \<psi> m) \<and> between st A f)"
  let ?T = "\<lambda>\<psi>. working i st (\<lambda>m f. (touched_meta C st m \<and> \<psi> m) \<and> f = planned st A)"
  let ?Q = "working i st (\<lambda>m f. touched_meta C st m \<and> f = planned st A)"
  have inv: "?I d" if "?M d" for d using that by (rule working_inv) simp
  have S: "?I d" if "?S \<psi> d" for \<psi> d using that by (rule working_inv) (simp add: mixed_vault_def)
  have T: "?I d" if "?T \<psi> d" for \<psi> d using that by (rule working_inv) (simp add: mixed_vault_def planned_def)
  have Q: "?I d" if "?Q d" for d using that by (rule working_inv) (simp add: mixed_vault_def planned_def)
  obtain x where x: "or_state r = set_after x st" and i: "or_id r = i" using r by (auto simp: plan_record_def)
  have view: "fld (set_after x st) ''before_revision'' = fld st ''before_revision''" "fld (set_after x st) ''accounts_after'' = fld st ''accounts_after''"
    by simp_all
  have ending: "safe ?Q (andthen (close_tx fresh t) (\<lambda>_. commit_record C now i)) (\<lambda>_ d. marks d = [] \<and> ?I d) ?I"
    if "\<And>m'. closed_metadata fresh t = Inr m' \<Longrightarrow> touched_meta C st m'" for t
    by (rule safe_then [OF triple_weaken [OF close_tx_safe [OF that]]], assumption, assumption, erule Q, erule Q,
        rule triple_weaken [OF commit_safe [OF plan]]) auto
  have accts: "safe (?S \<psi>) (apply_accounts (members (fld st ''accounts_after''))) (\<lambda>_. ?T \<psi>) ?I" for \<psi>
    by (rule triple_weaken [OF accounts_working [OF plan]]) (auto intro: S)
  have stage: "safe (?T \<psi>) (stage_operation now i stage s) (\<lambda>_. ?T \<psi>) ?I"
    if "case s of None \<Rightarrow> True | Some x \<Rightarrow> \<exists>y. x = set_after y st" for \<psi> stage s
    by (rule triple_weaken [OF stage_working [OF that]]) (auto intro: T)
  text \<open>The metadata is there already: the accounts follow, and the metadata is written again.\<close>
  have complete: "safe (?S (\<lambda>m'. m' = m)) (andthen (andthen (apply_accounts (members (fld st ''accounts_after''))) (\<lambda>_. give (open_tx m)))
      (\<lambda>t. andthen (close_tx fresh t) (\<lambda>_. commit_record C now i))) (\<lambda>_ d. marks d = [] \<and> ?I d) ?I" for m
  proof (rule safe_then [where Q = "\<lambda>t d. ?T (\<lambda>m'. m' = m) d \<and> t = open_tx m"])
    show "safe (?S (\<lambda>m'. m' = m)) (andthen (apply_accounts (members (fld st ''accounts_after''))) (\<lambda>_. give (open_tx m)))
      (\<lambda>t d. ?T (\<lambda>m'. m' = m) d \<and> t = open_tx m) ?I"
      by (rule safe_then [OF accts]) (auto intro: triple_give)
    show "safe (\<lambda>d. ?T (\<lambda>m'. m' = m) d \<and> t = open_tx m) (andthen (close_tx fresh t) (\<lambda>_. commit_record C now i))
      (\<lambda>_ d. marks d = [] \<and> ?I d) ?I" for t
      by (rule triple_fact [where F = "touched_meta C st m \<and> t = open_tx m"], (auto simp: working_def)[1], rule triple_pre [OF ending])
        (auto intro: touched_again elim: working_mono)
  qed
  text \<open>The old revision: the change is prepared again.\<close>
  have again: "safe (?S (\<lambda>m'. m' = m)) (andthen (andthen (pure_step (rbind (apply_metadata now st (open_tx m)) (commit_tx fresh))) (\<lambda>t.
           andthen (apply_accounts (members (fld st ''accounts_after''))) (\<lambda>_.
           andthen (stage_operation now i ''backend_applied'' None) (\<lambda>_.
           andthen (stage_operation now i ''metadata_prepared'' (Some (set_after (y t) st))) (\<lambda>_. give t)))))
      (\<lambda>t. andthen (close_tx fresh t) (\<lambda>_. commit_record C now i))) (\<lambda>_ d. marks d = [] \<and> ?I d) ?I"
    if before: "revision_of C m = fld st ''before_revision''" for m y
  proof (rule safe_then [where Q = "\<lambda>t d. ?T (\<lambda>m'. m' = m) d \<and> rbind (apply_metadata now st (open_tx m)) (commit_tx fresh) = Inr t"])
    show "safe (?S (\<lambda>m'. m' = m)) (andthen (pure_step (rbind (apply_metadata now st (open_tx m)) (commit_tx fresh))) (\<lambda>t.
           andthen (apply_accounts (members (fld st ''accounts_after''))) (\<lambda>_.
           andthen (stage_operation now i ''backend_applied'' None) (\<lambda>_.
           andthen (stage_operation now i ''metadata_prepared'' (Some (set_after (y t) st))) (\<lambda>_. give t)))))
      (\<lambda>t d. ?T (\<lambda>m'. m' = m) d \<and> rbind (apply_metadata now st (open_tx m)) (commit_tx fresh) = Inr t) ?I"
      by (rule safe_pure, erule S, rule safe_then [OF accts], rule safe_then [OF stage], simp, rule safe_then [OF stage], simp, blast)
        (auto intro: triple_give)
    show "safe (\<lambda>d. ?T (\<lambda>m'. m' = m) d \<and> rbind (apply_metadata now st (open_tx m)) (commit_tx fresh) = Inr t)
      (andthen (close_tx fresh t) (\<lambda>_. commit_record C now i)) (\<lambda>_ d. marks d = [] \<and> ?I d) ?I" for t
      by (rule triple_fact [where F = "rbind (apply_metadata now st (open_tx m)) (commit_tx fresh) = Inr t"], simp, rule triple_pre [OF ending])
        (auto intro: touched_after [OF before] elim: working_mono)
  qed
  show ?thesis
    unfolding recover_record_def Let_def x i view plan_views set_after_again
  proof (rule safe_pure, erule inv, rule safe_read_then [OF reads_required], erule inv, rule safe_read_then [OF reads_meta], simp add: inv,
      rule safe_pure, simp add: inv, goal_cases)
    case (1 u u' m ok)
    have pre: "?S (\<lambda>m'. m' = m) d" if "(?M d \<and> True) \<and> dk_meta d = m" for d
      using that by (auto simp: working_def mixed_vault_def)
    show ?case
    proof (cases ok)
      case True
      then show ?thesis by (simp only: if_True) (rule triple_pre [OF complete], erule pre)
    next
      case False
      show ?thesis
      proof (cases "JStr (tx_revision C (open_tx m)) = fld st ''before_revision''")
        case True
        show ?thesis using False True
          by (simp only: if_False if_True simp_thms) (rule triple_pre [OF again], simp add: revision_of_def, rule pre, simp)
      next
        case neq: False
        show ?thesis
          using False neq by (simp only: if_False) (rule safe_then [where Q = "\<lambda>_ _. False"], rule triple_throw, simp add: inv, simp add: triple_def)
      qed
    qed
  qed
qed

section \<open>Recovery\<close>

lemma recover_ref_safe:
  assumes plan: "sound_plan st A"
  shows "safe (\<lambda>d. mutation_inv C i st A d \<and> marks d = [(i, MASTER)]) (recover_ref C now fresh (i, MASTER)) (\<lambda>_. mutation_inv C i st A)
     (mutation_inv C i st A)"
proof -
  let ?I = "mutation_inv C i st A" and ?P = "\<lambda>d. mutation_inv C i st A d \<and> marks d = [(i, MASTER)]"
  have look: "reads (rescue (read_operation i) (\<lambda>e. throw (if e = Journal_missing then Recovery_required else e)))
     (\<lambda>r d. or_id r = i \<and> (image_of i d = Some (Some r) \<or> image_of i d = None \<and> op_finished r \<and> i \<in> receipt_ids d))"
    by (rule reads_rescue [OF reads_operation]) (rule reads_throw)
  have img: "or_id r = i \<and> image_of i d = Some (Some r)"
    if "?P d" "or_id r = i \<and> (image_of i d = Some (Some r) \<or> image_of i d = None \<and> op_finished r \<and> i \<in> receipt_ids d)" for r d
    using that by (auto simp: mutation_inv_def)
  have closing: "safe (\<lambda>d. ?P d \<and> image_of i d = Some (Some r)) (close_operation now i status res code) (\<lambda>_. ?I) ?I"
    if r: "op_finished r" and s: "status = or_status r" for r status res code
  proof (rule triple_each)
    fix D assume D: "?P D \<and> image_of i D = Some (Some r)"
    then obtain es where es: "dk_index D = Some es" and m: "marks D = [(i, MASTER)]" by (auto simp: mutation_inv_def)
    have ri: "or_id r = i" "or_kind r = MASTER" and v: "if or_status r = ''completed'' then new_vault st A (dk_meta D) (accounts D) else old_vault C st A (dk_meta D) (accounts D)"
      using D r by (auto simp: mutation_inv_def split: if_splits)
    have "filter (\<lambda>e. snd e = MASTER) (remove_key i es) = filter (\<lambda>e. fst e \<noteq> i) (marks D)"
      unfolding remove_key_def marks_def es by (simp add: conj_commute)
    then have none: "filter (\<lambda>e. snd e = MASTER) (remove_key i es) = []" by (simp add: m)
    have inv: "?I d" if "archiving i D d" for d
      using that D r ri v none es m unfolding archiving_def archived_def mutation_inv_def
      by (auto simp: marks_def open_image_def split: if_splits)
    have arch: "archived i D d \<Longrightarrow> archiving i D d" for d by (simp add: archiving_def)
    show "safe (\<lambda>d. d = D) (close_operation now i status res code) (\<lambda>_. ?I) ?I"
      by (rule close_safe [where D' = "D\<lparr>dk_records := upsert i (Some (closed_as now status res code r)) (dk_records D)\<rparr>" and E = ?I, OF _ es])
        (use D r s inv arch in auto)
  qed
  show ?thesis
    unfolding recover_ref_def prod.sel
  proof (rule safe_read_then [OF look], simp, goal_cases)
    case (1 r)
    show ?case
    proof (rule triple_fact [where F = "or_id r = i"], simp, rule triple_pre [where P' = "\<lambda>d. ?P d \<and> image_of i d = Some (Some r)"], goal_cases)
      case 1
      note i = 1
      show ?case
      proof (rule safe_require, simp, rule triple_if, goal_cases)
        case 1
        have fin: "safe (\<lambda>d. ?P d \<and> image_of i d = Some (Some r)) (finish_operation now i JNull) (\<lambda>_. ?I) ?I" if "or_status r = ''completed''"
          unfolding finish_operation_def by (rule closing) (use 1 that in auto)
        have fail: "safe (\<lambda>d. ?P d \<and> image_of i d = Some (Some r)) (fail_operation now i code) (\<lambda>_. ?I) ?I" if "or_status r \<noteq> ''completed''" for code
          unfolding fail_operation_def by (rule safe_require, simp, rule closing) (use 1 that in \<open>auto simp: op_finished_def\<close>)
        show ?case unfolding i
          by (rule triple_if, rule safe_then [OF fin], assumption, simp add: triple_give, rule safe_then [OF fail], assumption, simp add: triple_give)
      next
        case 2
        show ?case
        proof (rule triple_fact [where F = "plan_record i st r"], use 2 inv_working in blast, goal_cases)
          case 1
          have "safe (\<lambda>d. ?P d \<and> image_of i d = Some (Some r)) (recover_record C now fresh r) (\<lambda>_. ?I) ?I"
            by (rule triple_conseq [OF recover_record_safe [OF plan 1]]) (use 2 inv_working in blast)+
          then show ?case by (rule safe_then) (auto intro: triple_give)
        qed
      qed
    next
      case (2 d)
      then show ?case using img by blast
    qed
  qed
qed

lemma compacted_inv:
  assumes "mutation_inv C i st A D" and "compacted D d"
  shows "mutation_inv C i st A d"
proof (cases "d = D")
  case False
  with assms(2) obtain es where es: "dk_index D = Some es" "\<forall>e \<in> set es. image_of (fst e) D \<noteq> None \<or> fst e \<in> receipt_ids D"
    and v: "dk_meta d = dk_meta D" "dk_accounts d = dk_accounts D"
    and w: "(dk_index d = Some es \<and> dk_records d = dk_records D)
          \<or> (dk_index d = Some (filter (\<lambda>e. open_image (image_of (fst e) D)) es)
             \<and> (\<forall>j. image_of j d = image_of j D \<or> image_of j d = None \<and> finished_image (image_of j D)))"
    by (auto simp: compacted_def)
  have known: "image_of i D \<noteq> None \<or> i \<in> receipt_ids D" if "marks D = [(i, MASTER)]"
  proof -
    have "(i, MASTER) \<in> set (marks D)" by (simp add: that)
    then show ?thesis using es by (auto simp: marks_def)
  qed
  from w show ?thesis
  proof
    assume "dk_index d = Some es \<and> dk_records d = dk_records D"
    then have "marks d = marks D" "image_of i d = image_of i D" "dk_index d \<noteq> None"
      using es(1) by (simp_all add: marks_def image_of_def del: image_of_simps)
    then show ?thesis using assms(1) v known unfolding mutation_inv_def by (auto split: option.splits)
  next
    assume w': "dk_index d = Some (filter (\<lambda>e. open_image (image_of (fst e) D)) es)
             \<and> (\<forall>j. image_of j d = image_of j D \<or> image_of j d = None \<and> finished_image (image_of j D))"
    have m: "marks d = filter (\<lambda>e. open_image (image_of (fst e) D)) (marks D)"
      using w' es(1) by (simp add: marks_def conj_commute)
    have img: "image_of i d = image_of i D \<or> image_of i d = None \<and> finished_image (image_of i D)" using w' by blast
    show ?thesis
    proof (cases "marks D = []")
      case True
      moreover have "open_image (image_of i d) \<Longrightarrow> open_image (image_of i D)" using img by (auto simp: open_image_def)
      ultimately show ?thesis using assms(1) m v w' by (auto simp: mutation_inv_def)
    next
      case False
      with assms(1) have i: "marks D = [(i, MASTER)]" by (auto simp: mutation_inv_def)
      with assms(1) known obtain r where r: "image_of i D = Some (Some r)" by (auto simp: mutation_inv_def split: option.splits)
      show ?thesis
      proof (cases "op_finished r")
        case True
        then have "marks d = []" using m i r by (simp add: open_image_def)
        then show ?thesis using assms(1) v w' img r True i by (auto simp: mutation_inv_def open_image_def split: if_splits)
      next
        case opened: False
        then have "marks d = marks D" using m i r by (simp add: open_image_def)
        moreover have "image_of i d = image_of i D" using img r opened by (auto simp: finished_image_def)
        ultimately show ?thesis using assms(1) v w' r i by (auto simp: mutation_inv_def)
      qed
    qed
  qed
qed (use assms in simp)

lemma reads_pending: "reads (pending_refs MASTER) (\<lambda>refs d. refs = marks d)"
  unfolding pending_refs_def
  by (rule reads_andthen [OF reads_index], rule reads_give) (simp add: marks_def)

theorem recover_safe:
  assumes plan: "sound_plan st A"
  shows "safe (mutation_inv C i st A) (recover C now fresh) (\<lambda>_ d. mutation_inv C i st A d \<and> marks d = []) (mutation_inv C i st A)"
proof -
  let ?I = "mutation_inv C i st A"
  have scan: "safe ?I list_unfinished (\<lambda>_. ?I) ?I"
    by (rule triple_each, rule list_unfinished_safe) (blast intro: compacted_inv)+
  have ready: "safe ?I assert_projection_ready (\<lambda>_ d. ?I d \<and> marks d = []) ?I"
    unfolding assert_projection_ready_def
    by (rule safe_read_then [OF reads_pending], assumption, rule safe_reads [OF reads_require [where \<phi> = "\<lambda>_ _. _ = []"]]) auto
  have each: "safe (\<lambda>d. ?I d \<and> refs = marks d) (foreach (recover_ref C now fresh) refs) (\<lambda>_. ?I) ?I" for refs
  proof (rule triple_fact [where F = "refs = [] \<or> refs = [(i, MASTER)]"], (auto simp: mutation_inv_def)[1], elim disjE, goal_cases)
    case 2
    show ?case unfolding 2 foreach.simps
      by (rule safe_then [OF triple_pre [OF recover_ref_safe [OF plan]]]) (auto intro: triple_give)
  qed (auto intro: triple_give)
  show ?thesis
    unfolding recover_def
    by (rule safe_probe, assumption, rule safe_read_then [OF reads_pending], assumption, rule safe_then [OF each],
        rule safe_then [OF scan], rule safe_require, assumption, rule ready)
qed

end
