(* ===== verification/Master_Atomic.thy ===== *)
theory Master_Atomic
  imports Master_Recovery Entry_Proofs
begin

text \<open>
  The contract of a kind of mutation, met by all five, and what follows from it for every kind: a mutation
  that fails or dies anywhere, followed by any number of recoveries that may fail or die as well, leaves the
  old vault, the new vault, or a pending marker.
\<close>

section \<open>The contract\<close>

text \<open>\<open>prepare\<close> only reads, and its state pictures what it read.\<close>

locale mutation_kind =
  fixes C :: crypto and prepare :: "transaction \<Rightarrow> (json \<times> 'r) job"
  assumes prepares: "reads (prepare t) (\<lambda>sr d. pictures (fld (fst sr) ''accounts_before'') (accounts d)
    \<and> fld (fst sr) ''before_revision'' = JStr (tx_revision C t))"

definition results_in :: "(transaction \<Rightarrow> (json \<times> 'r) job) \<Rightarrow> disk \<Rightarrow> json \<Rightarrow> bool" where
  "results_in prepare D st \<longleftrightarrow> (\<exists>env n n' res. prepare (open_tx (dk_meta D)) env (D, n) = (Done (st, res), D, n'))"

lemma validate_state_plan: "validate_state st = Inr () \<Longrightarrow>
    distinct (map fst (members (fld st ''accounts_after''))) \<and> distinct (map fst (members (fld st ''accounts_before'')))
    \<and> account_names (fld st ''accounts_before'') = account_names (fld st ''accounts_after'')"
  by (auto simp: validate_state_def validate_replacement_state_def validate_account_images_def rbind_ok ensure_ok split: if_splits)

text \<open>A state that stands for no mutation: nothing was prepared yet.\<close>

definition nothing_prepared :: "crypto \<Rightarrow> disk \<Rightarrow> json" where
  "nothing_prepared C D = JObj [(''before_revision'', revision_of C (dk_meta D)), (''entry_after'', JInt 0)]"

lemma nothing_prepared_plan: "sound_plan (nothing_prepared C D) A" "matches_after (nothing_prepared C D) t \<noteq> Inr True"
  "fld (nothing_prepared C D) ''before_revision'' = revision_of C (dk_meta D)"
  by (simp_all add: nothing_prepared_def sound_plan_def fld_def account_names_def pictures_def matches_after_def entry_image_def is_obj_def)

section \<open>Every mutation of the contract\<close>

definition mutation_state_of :: "crypto \<Rightarrow> string \<Rightarrow> (transaction \<Rightarrow> (json \<times> 'r) job) \<Rightarrow> disk \<Rightarrow> disk \<Rightarrow> bool" where
  "mutation_state_of C i prepare D d \<longleftrightarrow> (\<exists>st. (results_in prepare D st \<or> st = nothing_prepared C D)
     \<and> sound_plan st (accounts D) \<and> mutation_inv C i st (accounts D) d)"

definition fresh_operation :: "string \<Rightarrow> disk \<Rightarrow> bool" where
  "fresh_operation i D \<longleftrightarrow> dk_index D \<noteq> None \<and> marks D = [] \<and> image_of i D = None"

lemma fresh_state: "fresh_operation i D \<Longrightarrow> mutation_state_of C i prepare D D"
  unfolding mutation_state_of_def
  by (rule exI [of _ "nothing_prepared C D"])
    (auto simp: fresh_operation_def mutation_inv_def old_vault_def nothing_prepared_plan open_image_def)

lemma begun_inv:
  assumes D: "fresh_operation i D" and st: "fld st ''before_revision'' = revision_of C (dk_meta D)"
  shows "safe (\<lambda>d. d = D) (begin_operation now i MASTER (set_after x st))
     (\<lambda>r d. or_id r = i \<and> or_state r = set_after x st
        \<and> working i st (\<lambda>m f. revision_of C m = fld st ''before_revision'' \<and> between st (accounts D) f) d)
     (mutation_inv C i st (accounts D))"
proof -
  obtain es where es: "dk_index D = Some es" and m: "marks D = []" and img: "image_of i D = None"
    using D by (auto simp: fresh_operation_def)
  let ?r = "new_record now i MASTER (set_after x st)"
  let ?D1 = "D\<lparr>dk_index := Some (es @ [(i, MASTER)])\<rparr>"
  let ?D2 = "D\<lparr>dk_index := Some (es @ [(i, MASTER)]), dk_records := upsert i (Some ?r) (dk_records D)\<rparr>"
  have old: "old_vault C st (accounts D) (dk_meta D) (accounts D)" by (simp add: old_vault_def st)
  have m1: "marks ?D1 = [(i, MASTER)]" using m es by (simp add: marks_def)
  have r: "plan_record i st ?r" "\<not> op_finished ?r" "or_id ?r = i" "or_state ?r = set_after x st"
    by (auto simp: plan_record_def new_record_def op_finished_def)
  have w: "working i st (\<lambda>m f. revision_of C m = fld st ''before_revision'' \<and> between st (accounts D) f) ?D2"
    using m1 r by (auto simp: working_def st marks_def)
  have i2: "mutation_inv C i st (accounts D) ?D2"
    by (rule working_inv [OF w]) (simp add: mixed_vault_def touched_before)
  show ?thesis
  proof (rule begin_safe [OF es], goal_cases)
    case 1
    show ?case using m es img old by (auto simp: mutation_inv_def open_image_def)
  next
    case 2
    then show ?case using m1 old img by (auto simp: mutation_inv_def receipt_ids_def)
  qed (use i2 w r in simp_all)
qed

context mutation_kind
begin

theorem transact_safe:
  assumes D: "fresh_operation i D"
  shows "safe (\<lambda>d. d = D) (transact C now fresh i prepare) (\<lambda>_ d. mutation_state_of C i prepare D d \<and> marks d = [])
     (mutation_state_of C i prepare D)"
proof -
  let ?J = "mutation_state_of C i prepare D"
  have J0: "?J D" by (rule fresh_state [OF D])
  have main: "safe (\<lambda>d. d = D) (andthen (begin_operation now i MASTER (set_after x st)) (\<lambda>r.
       andthen (rescue (andthen (execute_inside now r) (\<lambda>_. close_tx fresh t)) (\<lambda>e. andthen (revert C now i) (\<lambda>_. throw e))) (\<lambda>_.
       andthen (commit_record C now i) (\<lambda>_. give result)))) (\<lambda>_ d. ?J d \<and> marks d = []) ?J"
    if res: "results_in prepare D st" and desc: "pictures (fld st ''accounts_before'') (accounts D)"
      and rev: "fld st ''before_revision'' = JStr (tx_revision C (open_tx (dk_meta D)))" and valid: "validate_state st = Inr ()"
      and t: "rbind (apply_metadata now st (open_tx (dk_meta D))) (commit_tx fresh) = Inr t" for x st t and result :: 'b
  proof -
    have plan: "sound_plan st (accounts D)" using validate_state_plan [OF valid] desc by (simp add: sound_plan_def)
    have before: "revision_of C (dk_meta D) = fld st ''before_revision''" by (simp add: revision_of_def rev)
    let ?I = "mutation_inv C i st (accounts D)"
    let ?W = "working i st (\<lambda>m f. touched_meta C st m \<and> f = planned st (accounts D))"
    have J: "?J d" if "?I d" for d using that res plan by (auto simp: mutation_state_of_def)
    have reach: "touched_meta C st m'" if "closed_metadata fresh t = Inr m'" for m' by (rule touched_after [OF before t that])
    have inv: "?I d" if "?W d" for d using that by (rule working_inv) (simp add: mixed_vault_def planned_def)
    have body: "safe (working i st (\<lambda>m f. revision_of C m = fld st ''before_revision'' \<and> between st (accounts D) f))
       (andthen (execute_inside now r) (\<lambda>_. close_tx fresh t)) (\<lambda>_. ?W) ?I" if r: "or_id r = i" "or_state r = set_after x st" for r
      by (rule safe_then [OF execute_safe [OF plan r]], rule triple_conseq [OF close_tx_safe [OF reach]])
        (auto intro: inv elim!: working_mono simp: touched_before)
    have guarded: "safe (working i st (\<lambda>m f. revision_of C m = fld st ''before_revision'' \<and> between st (accounts D) f))
       (rescue (andthen (execute_inside now r) (\<lambda>_. close_tx fresh t)) (\<lambda>e. andthen (revert C now i) (\<lambda>_. throw e))) (\<lambda>_. ?W) ?I"
      if r: "or_id r = i" "or_state r = set_after x st" for r
      by (rule triple_rescue [OF body [OF r]], rule safe_then [OF revert_safe [OF plan]]) (rule triple_throw)
    have "safe (\<lambda>d. d = D) (andthen (begin_operation now i MASTER (set_after x st)) (\<lambda>r.
       andthen (rescue (andthen (execute_inside now r) (\<lambda>_. close_tx fresh t)) (\<lambda>e. andthen (revert C now i) (\<lambda>_. throw e))) (\<lambda>_.
       andthen (commit_record C now i) (\<lambda>_. give result)))) (\<lambda>_ d. ?I d \<and> marks d = []) ?I"
    proof (rule safe_then [OF begun_inv [OF D before [symmetric]]], goal_cases)
      case (1 r)
      show ?case
      proof (rule triple_fact [where F = "or_id r = i \<and> or_state r = set_after x st"], simp, goal_cases)
        case 1
        then have r: "or_id r = i" "or_state r = set_after x st" by simp_all
        show ?case
          by (rule safe_then [OF triple_pre [OF guarded [OF r]]], simp, rule safe_then [OF commit_safe [OF plan]]) (auto intro: triple_give)
      qed
    qed
    then show ?thesis by (rule triple_weaken) (auto intro: J)
  qed
  have pre: "safe P m (\<lambda>_ d. ?J d \<and> marks d = []) ?J" if "\<And>d. P d \<Longrightarrow> d = D" "safe (\<lambda>d. d = D) m (\<lambda>_ d. ?J d \<and> marks d = []) ?J" for P and m :: "'a job"
    by (rule triple_pre [OF that(2)]) (rule that(1))
  have states: "safe (\<lambda>d. d = D \<and> dk_meta d = m) (andthen (prepare (open_tx m)) f) (\<lambda>_ d. ?J d \<and> marks d = []) ?J"
    if f: "\<And>sr. m = dk_meta D \<Longrightarrow> results_in prepare D (fst sr) \<Longrightarrow> pictures (fld (fst sr) ''accounts_before'') (accounts D)
        \<Longrightarrow> fld (fst sr) ''before_revision'' = JStr (tx_revision C (open_tx (dk_meta D)))
        \<Longrightarrow> safe (\<lambda>d. d = D) (f sr) (\<lambda>_ d. ?J d \<and> marks d = []) ?J" for m f
  proof (rule safe_read_then [OF reads_run [OF prepares]], use J0 in simp, goal_cases)
    case (1 sr)
    show ?case
      by (rule triple_fact [where F = "m = dk_meta D \<and> results_in prepare D (fst sr) \<and> pictures (fld (fst sr) ''accounts_before'') (accounts D)
          \<and> fld (fst sr) ''before_revision'' = JStr (tx_revision C (open_tx (dk_meta D)))"],
        (cases sr, auto simp: results_in_def)[1], rule pre, simp, rule f) simp_all
  qed
  show ?thesis
    unfolding transact_def
  proof (rule safe_read_then [OF reads_meta], use J0 in simp, rule states, goal_cases)
    case (1 m sr)
    obtain st result where sr: "sr = (st, result)" by (cases sr)
    note f = 1 [unfolded sr fst_conv]
    show ?case
      unfolding sr prod.case f(1)
    proof (rule safe_pure, use J0 in simp, rule safe_read_then [OF reads_required], use J0 in simp, rule pre, simp, rule safe_pure, use J0 in simp, goal_cases)
      case (1 u u' t)
      show ?case unfolding Let_def by (rule main [OF f(2,3,4) _ 1(2)]) (use 1(1) in simp)
    qed
  qed
qed

end

section \<open>The five kinds of mutation\<close>

lemma reads_pure_then: "(\<And>x. r = Inr x \<Longrightarrow> reads (f x) \<phi>) \<Longrightarrow> reads (andthen (pure_step r) f) \<phi>"
  by (cases r) (simp_all add: reads_def triple_def andthen_def pure_step_def throw_def give_def)

abbreviation kept_plan :: "string \<Rightarrow> json \<Rightarrow> disk \<Rightarrow> bool" where
  "kept_plan rv st d \<equiv> pictures (fld st ''accounts_before'') (accounts d) \<and> fld st ''before_revision'' = JStr rv"

lemma reads_mutation_state:
  "reads (mutation_state action rv before after ds ds' catalog catalog' accts) (\<lambda>st d. kept_plan rv st d)"
  unfolding mutation_state_def
  by (rule reads_andthen [OF reads_snapshot], rule reads_give) (simp add: fld_def)

lemma reads_replacement_state:
  "reads (replacement_state rv before after accts) (\<lambda>st d. kept_plan rv st d)"
  unfolding replacement_state_def Let_def
  by (rule reads_andthen [OF reads_snapshot], rule reads_pure_then, rule reads_give) (simp add: fld_def)

text \<open>The checks of a preparation come first, then the state is built from the accounts.\<close>

lemmas prepare_rules = reads_pure_then reads_require_then reads_throw
  reads_andthen [OF reads_mutation_state] reads_andthen [OF reads_replacement_state]

interpretation creates: mutation_kind C "prepare_create C u e s r" for C u e s r
  by unfold_locales (auto simp: prepare_create_def Let_def intro!: prepare_rules reads_give)

interpretation updates: mutation_kind C "prepare_update C u e s" for C u e s
  by unfold_locales (auto simp: prepare_update_def Let_def intro!: prepare_rules reads_give split: option.split)

interpretation deletes: mutation_kind C "prepare_delete C us n c" for C us n c
  by unfold_locales (auto simp: prepare_delete_def Let_def intro!: prepare_rules reads_give split: option.split)

interpretation bulks: mutation_kind C "prepare_bulk C us ps" for C us ps
  by unfold_locales (auto simp: prepare_bulk_def Let_def intro!: prepare_rules reads_give split: prod.split)

interpretation snapshots: mutation_kind C "prepare_snapshot C es ts ws ds r a" for C es ts ws ds r a
  by unfold_locales (auto simp: prepare_snapshot_def Let_def intro!: prepare_rules reads_give)

section \<open>Requests, crashes and restarts\<close>

definition prepared_state :: "crypto \<Rightarrow> vault_request \<Rightarrow> disk \<Rightarrow> json \<Rightarrow> bool" where
  "prepared_state C q D st \<longleftrightarrow> (\<exists>env n n'. prepare_request C q (open_tx (dk_meta D)) env (D, n) = (Done st, D, n'))"

lemma first_result: "andthen m (\<lambda>(st, _). give st) env s = (Done st, s') \<longleftrightarrow> (\<exists>res. m env s = (Done (st, res), s'))"
  by (cases "m env s") (auto simp: andthen_def give_def split: outcome.splits)

lemma prepared_results:
  "results_in (prepare_create C u e s r) D st \<Longrightarrow> prepared_state C (Create u e s r) D st"
  "results_in (prepare_update C u e s) D st \<Longrightarrow> prepared_state C (Update_entry u e s) D st"
  "results_in (prepare_delete C us nm c) D st \<Longrightarrow> prepared_state C (Delete_entry us nm c) D st"
  "results_in (prepare_bulk C us ps) D st \<Longrightarrow> prepared_state C (Bulk us ps) D st"
  "results_in (prepare_snapshot C es ts ws ds rv a) D st \<Longrightarrow> prepared_state C (Apply_snapshot es ts ws ds rv a) D st"
  unfolding results_in_def prepared_state_def prepare_request_def vault_request.case first_result by blast+

definition request_state :: "crypto \<Rightarrow> string \<Rightarrow> vault_request \<Rightarrow> disk \<Rightarrow> disk \<Rightarrow> bool" where
  "request_state C i q D d \<longleftrightarrow> (\<exists>st. (prepared_state C q D st \<or> st = nothing_prepared C D)
     \<and> sound_plan st (accounts D) \<and> mutation_inv C i st (accounts D) d)"

lemma request_stateI: "mutation_state_of C i prepare D d \<Longrightarrow> (\<And>st. results_in prepare D st \<Longrightarrow> prepared_state C q D st) \<Longrightarrow> request_state C i q D d"
  by (auto simp: mutation_state_of_def request_state_def)

lemma mutate_safe:
  assumes D: "fresh_operation i D"
  shows "safe (\<lambda>d. d = D) (mutate C now fresh i q) (\<lambda>_ d. request_state C i q D d \<and> marks d = []) (request_state C i q D)"
proof -
  have run: "safe (\<lambda>d. d = D) (andthen m (\<lambda>_. give ())) (\<lambda>_ d. request_state C i q D d \<and> marks d = []) (request_state C i q D)"
    if "safe (\<lambda>d. d = D) m (\<lambda>_ d. mutation_state_of C i prepare D d \<and> marks d = []) (mutation_state_of C i prepare D)"
      and "\<And>st. results_in prepare D st \<Longrightarrow> prepared_state C q D st" for m :: "'a job" and prepare :: "transaction \<Rightarrow> (json \<times> 'b) job"
    by (rule safe_then [where Q = "\<lambda>_ d. request_state C i q D d \<and> marks d = []"], rule triple_weaken [OF that(1)])
      (auto intro: triple_give request_stateI [OF _ that(2)])
  show ?thesis
  proof (cases q)
    case (Create u e s r)
    show ?thesis unfolding Create mutate_def vault_request.case create_entry_def
      by (rule run [unfolded Create, OF creates.transact_safe [OF D] prepared_results(1)])
  next
    case (Update_entry u e s)
    show ?thesis unfolding Update_entry mutate_def vault_request.case update_entry_def
      by (rule run [unfolded Update_entry, OF updates.transact_safe [OF D] prepared_results(2)])
  next
    case (Delete_entry us nm c)
    show ?thesis unfolding Delete_entry mutate_def vault_request.case delete_entry_def
      by (rule run [unfolded Delete_entry, OF deletes.transact_safe [OF D] prepared_results(3)])
  next
    case (Bulk us ps)
    show ?thesis unfolding Bulk mutate_def vault_request.case bulk_create_def
      by (rule run [unfolded Bulk, OF bulks.transact_safe [OF D] prepared_results(4)])
  next
    case (Apply_snapshot es ts ws ds rv a)
    have J0: "mutation_state_of C i (prepare_snapshot C es ts ws ds rv a) D D" by (rule fresh_state [OF D])
    have "safe (\<lambda>d. d = D) (apply_snapshot C now fresh i es ts ws ds rv a)
      (\<lambda>_ d. mutation_state_of C i (prepare_snapshot C es ts ws ds rv a) D d \<and> marks d = [])
      (mutation_state_of C i (prepare_snapshot C es ts ws ds rv a) D)"
      unfolding apply_snapshot_def by (rule safe_pure, simp add: J0, rule snapshots.transact_safe [OF D])
    then show ?thesis unfolding Apply_snapshot mutate_def vault_request.case
      by (rule triple_weaken) (auto intro: request_stateI prepared_results(5))
  qed
qed

lemma recover_request:
  "safe (request_state C i q D) (recover C now fresh) (\<lambda>_ d. request_state C i q D d \<and> marks d = []) (request_state C i q D)"
proof (rule triple_each)
  fix d assume "request_state C i q D d"
  then obtain st where st: "prepared_state C q D st \<or> st = nothing_prepared C D" "sound_plan st (accounts D)" "mutation_inv C i st (accounts D) d"
    by (auto simp: request_state_def)
  show "safe (\<lambda>d'. d' = d) (recover C now fresh) (\<lambda>_ d. request_state C i q D d \<and> marks d = []) (request_state C i q D)"
    by (rule triple_conseq [OF recover_safe [OF st(2)]]) (use st in \<open>auto simp: request_state_def\<close>)
qed

text \<open>After a return, an error or the death of the process, the program is started again and recovers.\<close>

definition afterwards :: "('d, 'e, 'a) program \<Rightarrow> ('d, 'e, 'b) program \<Rightarrow> ('d, 'e, 'b) program" where
  "afterwards m k env s = k env (snd (m env s))"

primrec restarted :: "crypto \<Rightarrow> (string \<times> (nat \<Rightarrow> string)) list \<Rightarrow> unit job \<Rightarrow> unit job" where
  "restarted C [] m = m"
| "restarted C (p # ps) m = restarted C ps (afterwards m (recover C (fst p) (snd p)))"

lemma triple_afterwards: "safe P m (\<lambda>_. E) E \<Longrightarrow> triple E k Q R X \<Longrightarrow> triple P (afterwards m k) Q R X"
  unfolding triple_def [of E k] triple_def [of P "afterwards m k"]
proof (intro allI impI)
  fix env d n
  assume m: "safe P m (\<lambda>_. E) E" and k: "\<forall>env d n. E d \<longrightarrow>
      (case k env (d, n) of (Done x, d', n') \<Rightarrow> Q x d' | (Raises e, d', n') \<Rightarrow> R e d' | (Died, d', n') \<Rightarrow> X d')" and "P d"
  obtain r d' n' where r: "m env (d, n) = (r, d', n')" by (cases "m env (d, n)")
  from triple_D [OF m \<open>P d\<close> r] have "E d'" by (cases r) simp_all
  with k r show "case afterwards m k env (d, n) of (Done x, d', n') \<Rightarrow> Q x d' | (Raises e, d', n') \<Rightarrow> R e d' | (Died, d', n') \<Rightarrow> X d'"
    by (simp add: afterwards_def)
qed

lemma restarted_safe:
  "safe P m (\<lambda>_ d. request_state C i q D d \<and> marks d = []) (request_state C i q D) \<Longrightarrow>
     safe P (restarted C ps m) (\<lambda>_ d. request_state C i q D d \<and> marks d = []) (request_state C i q D)"
proof (induction ps arbitrary: m)
  case (Cons p ps)
  have "safe P m (\<lambda>_. request_state C i q D) (request_state C i q D)" by (rule triple_weaken [OF Cons.prems]) auto
  from triple_afterwards [OF this recover_request] show ?case by (simp add: Cons.IH)
qed simp

lemma request_state_D:
  assumes "request_state C i q D d"
  shows "marks d = [] \<Longrightarrow> (revision_of C (dk_meta d) = revision_of C (dk_meta D) \<and> accounts d = accounts D)
      \<or> (\<exists>st. prepared_state C q D st \<and> new_vault st (accounts D) (dk_meta d) (accounts d))"
    and "marks d \<noteq> [] \<Longrightarrow> marks d = [(i, MASTER)] \<and> (accounts d = accounts D
      \<or> (\<exists>st. prepared_state C q D st \<and> between st (accounts D) (accounts d)))"
proof -
  from assms obtain st where st: "prepared_state C q D st \<or> st = nothing_prepared C D" and inv: "mutation_inv C i st (accounts D) d"
    by (auto simp: request_state_def)
  have none: "accounts d = accounts D" if "st = nothing_prepared C D" "between st (accounts D) (accounts d)"
    using that by (auto simp: nothing_prepared_def fld_def partly_def targeted_def)
  have before: "fld st ''before_revision'' = revision_of C (dk_meta D)"
    using st
  proof
    assume "prepared_state C q D st"
    then show ?thesis
      unfolding prepared_state_def prepare_request_def
      by (cases q; simp only: vault_request.case first_result; elim exE)
        (auto simp: revision_of_def dest!: reads_run_D [OF creates.prepares] reads_run_D [OF updates.prepares]
          reads_run_D [OF deletes.prepares] reads_run_D [OF bulks.prepares] reads_run_D [OF snapshots.prepares])
  qed (simp add: nothing_prepared_plan)
  have new: "\<not> new_vault (nothing_prepared C D) A m f" for A m f by (simp add: new_vault_def nothing_prepared_plan)
  show "(revision_of C (dk_meta d) = revision_of C (dk_meta D) \<and> accounts d = accounts D)
      \<or> (\<exists>st. prepared_state C q D st \<and> new_vault st (accounts D) (dk_meta d) (accounts d))" if "marks d = []"
    using inv that st new before by (auto simp: mutation_inv_def old_vault_def)
  show "marks d = [(i, MASTER)] \<and> (accounts d = accounts D
      \<or> (\<exists>st. prepared_state C q D st \<and> between st (accounts D) (accounts d)))" if "marks d \<noteq> []"
    using inv that st none new before
    by (auto simp: mutation_inv_def old_vault_def new_vault_def mixed_vault_def planned_def split: option.splits if_splits)
qed

section \<open>Creating an entry with its secret\<close>

lemma created_state:
  assumes "prepared_state C (Create u e s r) D st"
  obtains e' where "e_name e' = e_name e" "fld st ''action'' = JStr ''create''" "fld st ''entry_after'' = entry_to_dict e'"
    "members (fld st ''accounts_after'') = writes_for (e_id e') s"
proof -
  have state: "reads (mutation_state action rv before after ds ds' catalog catalog' accts)
      (\<lambda>st d. fld st ''action'' = JStr action \<and> fld st ''entry_after'' = entry_dict after \<and> members (fld st ''accounts_after'') = accts)"
    for action rv before after ds ds' catalog catalog' accts
    unfolding mutation_state_def by (rule reads_andthen [OF reads_snapshot], rule reads_give) (simp add: fld_def)
  have "reads (prepare_create C u e s r t) (\<lambda>sr d. e_name (snd sr) = e_name e \<and> fld (fst sr) ''action'' = JStr ''create''
      \<and> fld (fst sr) ''entry_after'' = entry_to_dict (snd sr) \<and> members (fld (fst sr) ''accounts_after'') = writes_for (e_id (snd sr)) s)" for t
    unfolding prepare_create_def Let_def
    by (intro reads_pure_then reads_require_then reads_andthen [OF state] reads_give)
      (auto simp: entry_dict_def preserve_attributes_def split: option.split)
  from reads_run_D [OF this] assms that show thesis
    unfolding prepared_state_def prepare_request_def vault_request.case first_result by fastforce
qed

lemma created_entry:
  assumes "new_vault st A m f" and act: "fld st ''action'' = JStr ''create''" and e': "fld st ''entry_after'' = entry_to_dict e'"
    and w: "members (fld st ''accounts_after'') = writes_for (e_id e') s"
  obtains x c where "wf_entry x" "e_name x = e_name e'" "entry_by_id (e_id x) (open_tx m) = Inr (Some c)" "same_entry c x"
    "f = targeted (writes_for (e_id x) s) A"
proof -
  have "entry_to_dict e' \<noteq> JNull" using entry_to_dict_fld(14) [of e'] by auto
  moreover have "matches_after st (open_tx m) = Inr True" and f: "f = planned st A" using assms(1) by (simp_all add: new_vault_def)
  ultimately obtain x c where x: "from_untrusted_dict False True (entry_to_dict e') = Inr x"
    and c: "entry_by_id (e_id x) (open_tx m) = Inr (Some c)" "same_entry c x"
    by (auto simp: matches_after_def Let_def act e' rbind_ok entry_image_def ensure_ok map_err_ok split: if_splits option.splits)
  note d = from_untrusted_dict_D [OF x]
  have i: "e_id x = e_id e'" "e_name x = e_name e'" using d(2,3) by (simp_all add: entry_to_dict_fld)
  then show thesis by (intro that [OF d(1) i(2) c]) (simp add: f planned_def w)
qed

lemma writes_for_value:
  assumes "si_value s = Some v"
  shows "targeted (writes_for i (Some s)) A i = Some v"
    and "a \<noteq> i \<Longrightarrow> a \<noteq> i @ '':passphrase'' \<Longrightarrow> targeted (writes_for i (Some s)) A a = A a"
  using assms by (auto simp: targeted_def writes_for_def write_for_def split: option.splits)

end
