(* ===== verification/Catalog_Service.thy ===== *)
theory Catalog_Service
  imports Store_Valid Master_Operations "HOL-Library.Product_Lexorder"
begin

text \<open>
  The catalog service (\<open>project_service.py\<close>): folders, projects, scopes and the assignment of
  entries to scopes, each operation one transaction of the metadata store, and the accounting
  of publications, which records for every scope and entry the revision that should be
  published and the one that has been.
\<close>

section \<open>Transactions of the catalog\<close>

text \<open>
  \<open>In_store\<close> carries what the store and the readers of the catalog raise. \<open>Diverges\<close> stands for a
  loop that does not end.
\<close>

datatype cerr = Catalog_error | Ambiguous | Local_only | Binding_conflict | Archived | No_such | In_store serr | Diverges

type_synonym tx = "slots \<times> metadata"

definition tx_state :: "tx \<Rightarrow> cerr + catalog" where
  "tx_state t =
     rbind (map_err In_store (catalog_state (snd t))) (\<lambda>v.
     rbind (map_err In_store (tx_list (fst t))) (\<lambda>es.
     map_err (\<lambda>x. In_store (Escaped x)) (catalog_from_dict (e_id ` set es) v)))"

definition tx_save :: "catalog \<Rightarrow> tx \<Rightarrow> cerr + tx" where
  "tx_save c t = rbind (map_err In_store (set_catalog_state (catalog_to_dict c) (fst t) (snd t))) (\<lambda>d. Inr (fst t, d))"

definition tx_entry :: "string \<Rightarrow> tx \<Rightarrow> cerr + entry" where
  "tx_entry entry_id t =
     rbind (map_err In_store (tx_get_by_id entry_id (fst t))) (\<lambda>found.
     case found of None \<Rightarrow> Inl No_such | Some e \<Rightarrow> Inr e)"

definition tx_put :: "entry \<Rightarrow> tx \<Rightarrow> cerr + tx" where
  "tx_put e t = rbind (map_err In_store (tx_update e (fst t))) (\<lambda>s. Inr (s, snd t))"

text \<open>\<open>with store.transaction()\<close>: what the body changed is written when it returns.\<close>

definition in_transaction :: "(nat \<Rightarrow> string) \<Rightarrow> (tx \<Rightarrow> cerr + tx \<times> 'r) \<Rightarrow> metadata \<Rightarrow> cerr + metadata \<times> 'r" where
  "in_transaction fresh body d =
     rbind (body (reset_entries (md_entries d), d)) (\<lambda>(t, r).
     rbind (map_err In_store (commit_slots fresh (fst t) (snd t))) (\<lambda>d'. Inr (d', r)))"

definition read_catalog_state :: "metadata \<Rightarrow> cerr + catalog" where
  "read_catalog_state d =
     rbind (map_err In_store (catalog_state d)) (\<lambda>v.
     rbind (map_err In_store (store_list d)) (\<lambda>es.
     map_err (\<lambda>x. In_store (Escaped x)) (catalog_from_dict (e_id ` set es) v)))"

definition the_item :: "('a \<Rightarrow> string) \<Rightarrow> 'a list \<Rightarrow> string \<Rightarrow> cerr + 'a" where
  "the_item key xs i = (case find (\<lambda>x. key x = i) xs of None \<Rightarrow> Inl No_such | Some x \<Rightarrow> Inr x)"

definition the_folder :: "catalog \<Rightarrow> string \<Rightarrow> cerr + folder" where
  "the_folder c = the_item fo_id (ca_folders c)"

definition the_project :: "catalog \<Rightarrow> string \<Rightarrow> cerr + project" where
  "the_project c = the_item pr_id (ca_projects c)"

definition the_scope :: "catalog \<Rightarrow> string \<Rightarrow> cerr + scope" where
  "the_scope c = the_item sco_id (ca_scopes c)"

text \<open>\<open>[new if item.id == i else item for item in ...]\<close>\<close>

definition exchange :: "('a \<Rightarrow> 'k) \<Rightarrow> 'k \<Rightarrow> 'a \<Rightarrow> 'a list \<Rightarrow> 'a list" where
  "exchange key i x = map (\<lambda>y. if key y = i then x else y)"

section \<open>Folders\<close>

definition place :: "int option \<Rightarrow> folder list \<Rightarrow> int" where
  "place pos siblings = (case pos of None \<Rightarrow> len siblings | Some p \<Rightarrow> p)"

definition create_folder :: "string \<Rightarrow> string \<Rightarrow> string option \<Rightarrow> int option \<Rightarrow> tx \<Rightarrow> cerr + tx \<times> folder" where
  "create_folder new name parent pos t =
     rbind (tx_state t) (\<lambda>c.
     let siblings = filter (\<lambda>f. fo_parent f = parent) (ca_folders c);
         f = \<lparr>fo_id = new, fo_name = name, fo_parent = parent, fo_position = place pos siblings\<rparr> in
     rbind (tx_save (c\<lparr>ca_folders := ca_folders c @ [f]\<rparr>) t) (\<lambda>t'. Inr (t', f)))"

definition move_folder :: "string \<Rightarrow> string option \<Rightarrow> int option \<Rightarrow> tx \<Rightarrow> cerr + tx \<times> folder" where
  "move_folder folder_id parent pos t =
     rbind (tx_state t) (\<lambda>c.
     rbind (the_folder c folder_id) (\<lambda>f.
     let siblings = filter (\<lambda>x. fo_parent x = parent \<and> fo_id x \<noteq> folder_id) (ca_folders c);
         moved = f\<lparr>fo_parent := parent, fo_position := place pos siblings\<rparr> in
     rbind (tx_save (c\<lparr>ca_folders := exchange fo_id folder_id moved (ca_folders c)\<rparr>) t) (\<lambda>t'. Inr (t', moved))))"

definition rename_folder :: "string \<Rightarrow> string \<Rightarrow> tx \<Rightarrow> cerr + tx \<times> folder" where
  "rename_folder folder_id name t =
     rbind (tx_state t) (\<lambda>c.
     rbind (the_folder c folder_id) (\<lambda>f.
     let renamed = f\<lparr>fo_name := name\<rparr> in
     rbind (tx_save (c\<lparr>ca_folders := exchange fo_id folder_id renamed (ca_folders c)\<rparr>) t) (\<lambda>t'. Inr (t', renamed))))"

definition set_entry_folder :: "string \<Rightarrow> string option \<Rightarrow> tx \<Rightarrow> cerr + tx \<times> entry" where
  "set_entry_folder entry_id folder_id t =
     rbind (tx_state t) (\<lambda>c.
     rbind (tx_entry entry_id t) (\<lambda>e.
     rbind (case folder_id of None \<Rightarrow> Inr () | Some i \<Rightarrow> rbind (the_folder c i) (\<lambda>_. Inr ())) (\<lambda>_.
     let e' = e\<lparr>e_folder := optional_text folder_id\<rparr> in
     rbind (tx_put e' t) (\<lambda>t'. Inr (t', e')))))"

text \<open>The walk of \<open>_is_descendant\<close>; \<open>None\<close> when it never ends.\<close>

partial_function (option) has_ancestor :: "(string \<times> string option) list \<Rightarrow> string option \<Rightarrow> string \<Rightarrow> bool option" where
  "has_ancestor parents current ancestor =
     (case current of None \<Rightarrow> Some False
      | Some c \<Rightarrow> if c = ancestor then Some True
                 else has_ancestor parents (case map_of parents c of None \<Rightarrow> None | Some p \<Rightarrow> p) ancestor)"

definition is_descendant :: "catalog \<Rightarrow> string \<Rightarrow> string \<Rightarrow> bool option" where
  "is_descendant c candidate ancestor =
     (let parents = map (\<lambda>f. (fo_id f, fo_parent f)) (ca_folders c) in
      has_ancestor parents (case map_of parents candidate of None \<Rightarrow> None | Some p \<Rightarrow> p) ancestor)"

definition relocate :: "string \<Rightarrow> entry \<Rightarrow> tx \<Rightarrow> cerr + tx" where
  "relocate destination e t = tx_put (e\<lparr>e_folder := JStr destination\<rparr>) t"

definition delete_folder :: "string \<Rightarrow> string option \<Rightarrow> tx \<Rightarrow> cerr + tx \<times> folder" where
  "delete_folder folder_id destination t =
     rbind (tx_state t) (\<lambda>c.
     rbind (the_folder c folder_id) (\<lambda>f.
     rbind (map_err In_store (tx_list (fst t))) (\<lambda>es.
     let children = filter (\<lambda>x. fo_parent x = Some folder_id) (ca_folders c);
         inside = filter (\<lambda>e. e_folder e = JStr folder_id) es in
     rbind (ensure (\<not> ((children \<noteq> [] \<or> inside \<noteq> []) \<and> destination = None)) Catalog_error) (\<lambda>_.
     rbind (ensure (destination \<noteq> Some folder_id) Catalog_error) (\<lambda>_.
     rbind (case destination of None \<Rightarrow> Inr t
            | Some i \<Rightarrow>
                rbind (the_folder c i) (\<lambda>_.
                rbind (case is_descendant c i folder_id of None \<Rightarrow> Inl Diverges | Some b \<Rightarrow> ensure (\<not> b) Catalog_error) (\<lambda>_.
                rfold (relocate i) inside t))) (\<lambda>t1.
     let moved = map (\<lambda>x. if fo_parent x = Some folder_id then x\<lparr>fo_parent := destination\<rparr> else x) (ca_folders c) in
     rbind (tx_save (c\<lparr>ca_folders := filter (\<lambda>x. fo_id x \<noteq> folder_id) moved\<rparr>) t1) (\<lambda>t'. Inr (t', f))))))))"

section \<open>Projects and scopes\<close>

definition create_project :: "string \<Rightarrow> string \<Rightarrow> string \<Rightarrow> string \<Rightarrow> tx \<Rightarrow> cerr + tx \<times> project" where
  "create_project new slug name state t =
     rbind (tx_state t) (\<lambda>c.
     let p = \<lparr>pr_id = new, pr_slug = slug, pr_name = name, pr_state = state\<rparr> in
     rbind (tx_save (c\<lparr>ca_projects := ca_projects c @ [p]\<rparr>) t) (\<lambda>t'. Inr (t', p)))"

text \<open>\<open>vault_id or new_catalog_id()\<close>\<close>

definition vault_or :: "string \<Rightarrow> string option \<Rightarrow> string" where
  "vault_or new v = (case v of None \<Rightarrow> new | Some s \<Rightarrow> if s = [] then new else s)"

definition service_create_scope ::
  "string \<Rightarrow> string \<Rightarrow> string \<Rightarrow> string \<Rightarrow> string option \<Rightarrow> int \<Rightarrow> int \<Rightarrow> tx \<Rightarrow> cerr + tx \<times> scope" where
  "service_create_scope new new_vault project_id environment vault_id epoch policy_version t =
     rbind (tx_state t) (\<lambda>c.
     rbind (the_project c project_id) (\<lambda>p.
     rbind (ensure (pr_state p = ''active'') Archived) (\<lambda>_.
     let s = \<lparr>sco_id = new, sco_project = project_id, sco_environment = environment,
              sco_vault = vault_or new_vault vault_id, sco_epoch = epoch, sco_version = policy_version\<rparr> in
     rbind (tx_save (c\<lparr>ca_scopes := ca_scopes c @ [s]\<rparr>) t) (\<lambda>t'. Inr (t', s)))))"

definition rename_project :: "string \<Rightarrow> string \<Rightarrow> string option \<Rightarrow> tx \<Rightarrow> cerr + tx \<times> project" where
  "rename_project project_id name slug t =
     rbind (tx_state t) (\<lambda>c.
     rbind (the_project c project_id) (\<lambda>p.
     let renamed = p\<lparr>pr_name := name, pr_slug := (case slug of None \<Rightarrow> pr_slug p | Some s \<Rightarrow> s)\<rparr> in
     rbind (tx_save (c\<lparr>ca_projects := exchange pr_id project_id renamed (ca_projects c)\<rparr>) t) (\<lambda>t'. Inr (t', renamed))))"

definition archive_project :: "string \<Rightarrow> tx \<Rightarrow> cerr + tx \<times> project" where
  "archive_project project_id t =
     rbind (tx_state t) (\<lambda>c.
     rbind (the_project c project_id) (\<lambda>p.
     let archived = p\<lparr>pr_state := ''archived''\<rparr> in
     rbind (tx_save (c\<lparr>ca_projects := exchange pr_id project_id archived (ca_projects c)\<rparr>) t) (\<lambda>t'. Inr (t', archived))))"

definition get_scope :: "string option \<Rightarrow> string option \<Rightarrow> string option \<Rightarrow> metadata \<Rightarrow> cerr + scope" where
  "get_scope scope_id project_slug environment d =
     rbind (read_catalog_state d) (\<lambda>c.
     case scope_id of Some i \<Rightarrow> the_scope c i
     | None \<Rightarrow>
         (case (project_slug, environment) of
            (Some slug, Some env) \<Rightarrow>
              let projects = filter (\<lambda>p. pr_slug p = slug) (ca_projects c);
                  matches = filter (\<lambda>s. sco_environment s = env \<and> sco_project s \<in> pr_id ` set projects) (ca_scopes c) in
              rbind (ensure (projects \<noteq> []) No_such) (\<lambda>_.
              rbind (ensure (matches \<noteq> []) No_such) (\<lambda>_.
              rbind (ensure (len matches = 1) Ambiguous) (\<lambda>_. Inr (hd matches))))
          | _ \<Rightarrow> Inl Catalog_error))"

section \<open>Publication intents\<close>

text \<open>
  An intent in the form that compaction writes. In the catalog it is a JSON object, beside
  drafts of other writers that carry no revision.
\<close>

record intent =
  in_scope :: string
  in_entry :: string
  in_reason :: string
  in_desired :: int
  in_applied :: int
  in_content :: "string option"

definition intent_dict :: "intent \<Rightarrow> json" where
  "intent_dict i = JObj ([(''scope_id'', JStr (in_scope i)), (''entry_id'', JStr (in_entry i)), (''reason'', JStr (in_reason i)),
     (''desired_revision'', JInt (in_desired i)), (''applied_revision'', JInt (in_applied i))]
     @ (case in_content i of None \<Rightarrow> [] | Some s \<Rightarrow> [(''desired_content_revision'', JStr s)]))"

definition in_key :: "intent \<Rightarrow> string \<times> string" where
  "in_key i = (in_scope i, in_entry i)"

text \<open>\<open>type(revision) is int and revision >= 0\<close>\<close>

definition revision_in :: "json \<Rightarrow> int option" where
  "revision_in v = (case v of JInt i \<Rightarrow> if 0 \<le> i then Some i else None | _ \<Rightarrow> None)"

definition assigned_revision :: "json \<Rightarrow> int option" where
  "assigned_revision r = revision_in (get_or (fld r ''revision'') r ''desired_revision'')"

definition raise_to :: "json \<Rightarrow> int \<Rightarrow> int" where
  "raise_to r h = (case assigned_revision r of None \<Rightarrow> h | Some i \<Rightarrow> max h i)"

definition highwater :: "catalog \<Rightarrow> int" where
  "highwater c = fold raise_to (ca_dedup c @ ca_intents c) 0"

text \<open>One round of the loop: a draft without a revision takes the next one.\<close>

definition desired_of :: "json \<Rightarrow> int \<Rightarrow> int \<times> int" where
  "desired_of raw h = (case revision_in (fld raw ''desired_revision'') of None \<Rightarrow> (h + 1, h + 1) | Some i \<Rightarrow> (i, h))"

definition intent_of :: "json \<Rightarrow> int \<Rightarrow> intent" where
  "intent_of raw desired =
     (let applied = (case revision_in (get_or (JInt 0) raw ''applied_revision'') of None \<Rightarrow> 0 | Some i \<Rightarrow> i) in
      \<lparr>in_scope = text_of (fld raw ''scope_id''), in_entry = text_of (fld raw ''entry_id''),
       in_reason = (case fld raw ''reason'' of JStr s \<Rightarrow> s | _ \<Rightarrow> ''catalog_changed''),
       in_desired = desired, in_applied = min applied desired,
       in_content = (case fld raw ''desired_content_revision'' of JStr s \<Rightarrow> Some s | _ \<Rightarrow> None)\<rparr>)"

definition combine :: "intent \<Rightarrow> intent \<Rightarrow> intent" where
  "combine existing r =
     (if in_desired existing \<le> in_desired r
      then r\<lparr>in_applied := max (in_applied r) (min (in_applied existing) (in_desired r))\<rparr>
      else existing\<lparr>in_applied := max (in_applied existing) (min (in_applied r) (in_desired existing)),
             in_reason := in_reason r,
             in_content := (case in_content r of None \<Rightarrow> in_content existing | Some s \<Rightarrow> Some s)\<rparr>)"

text \<open>The dictionary of groups, in insertion order.\<close>

definition regroup :: "intent \<Rightarrow> ((string \<times> string) \<times> intent) list \<Rightarrow> ((string \<times> string) \<times> intent) list" where
  "regroup r gs = (case map_of gs (in_key r) of None \<Rightarrow> gs @ [(in_key r, r)]
     | Some existing \<Rightarrow> map (\<lambda>(k, i). (k, if k = in_key r then combine existing r else i)) gs)"

definition compact_one ::
  "json \<Rightarrow> int \<times> ((string \<times> string) \<times> intent) list \<Rightarrow> cerr + int \<times> ((string \<times> string) \<times> intent) list" where
  "compact_one raw = (\<lambda>(h, gs).
     rbind (ensure (is_str (fld raw ''scope_id'') \<and> is_str (fld raw ''entry_id'')) Catalog_error) (\<lambda>_.
     let (desired, h') = desired_of raw h in Inr (h', regroup (intent_of raw desired) gs)))"

definition compact_publication_intents :: "catalog \<Rightarrow> cerr + intent list \<times> bool" where
  "compact_publication_intents c =
     rbind (rfold compact_one (ca_intents c) (highwater c, [])) (\<lambda>(h, gs).
     let compacted = map snd (sort_key fst gs) in
     Inr (compacted, \<not> py_eq (JList (map intent_dict compacted)) (JList (ca_intents c))))"

text \<open>\<open>_next_desired_revision\<close> with the compact_form intents.\<close>

definition next_desired_revision :: "catalog \<Rightarrow> intent list \<Rightarrow> int" where
  "next_desired_revision c is = fold raise_to (ca_dedup c @ map intent_dict is) 0 + 1"

definition append_publication_intent :: "string \<Rightarrow> string \<Rightarrow> string \<Rightarrow> catalog \<Rightarrow> cerr + catalog" where
  "append_publication_intent scope_id entry_id reason c =
     rbind (compact_publication_intents c) (\<lambda>(is, _).
     let new = \<lparr>in_scope = scope_id, in_entry = entry_id, in_reason = reason,
                in_desired = next_desired_revision c is, in_applied = 0, in_content = None\<rparr> in
     Inr (c\<lparr>ca_intents := map intent_dict
       (case find (\<lambda>i. in_scope i = scope_id \<and> in_entry i = entry_id) is of
          Some i \<Rightarrow> exchange in_key (scope_id, entry_id) (new\<lparr>in_applied := in_applied i\<rparr>) is
        | None \<Rightarrow> is @ [new])\<rparr>))"

section \<open>Assignment of entries\<close>

text \<open>\<open>config.update(export)\<close>\<close>

definition binding_dict :: "string \<Rightarrow> string \<Rightarrow> string \<Rightarrow> json option \<Rightarrow> string \<Rightarrow> json" where
  "binding_dict scope_id entry_id local_name export revision =
     JObj [(''scope_id'', JStr scope_id), (''entry_id'', JStr entry_id), (''local_name'', JStr local_name),
       (''export'', JObj (case export of None \<Rightarrow> members (export_dict default_export_config)
          | Some x \<Rightarrow> fold (\<lambda>(k, v). put k v) (members x) (members (export_dict default_export_config)))),
       (''approval_revision'', JStr revision)]"

definition service_revision :: "crypto \<Rightarrow> tx \<Rightarrow> string" where
  "service_revision C t = metadata_revision C ((snd t)\<lparr>md_entries := materialize (fst t)\<rparr>)"

text \<open>\<open>local_name or entry.name\<close>\<close>

definition name_or :: "string \<Rightarrow> string option \<Rightarrow> string" where
  "name_or n l = (case l of None \<Rightarrow> n | Some s \<Rightarrow> if s = [] then n else s)"

definition assign_entry :: "crypto \<Rightarrow> string \<Rightarrow> string \<Rightarrow> string option \<Rightarrow> json option \<Rightarrow> tx \<Rightarrow> cerr + tx \<times> scope_entry" where
  "assign_entry C scope_id entry_id local_name export t =
     rbind (tx_state t) (\<lambda>c.
     rbind (the_scope c scope_id) (\<lambda>s.
     rbind (the_project c (sco_project s)) (\<lambda>p.
     rbind (ensure (pr_state p = ''active'') Archived) (\<lambda>_.
     rbind (tx_entry entry_id t) (\<lambda>e.
     rbind (ensure (e_distribution e = JStr ''project_allowed'') Local_only) (\<lambda>_.
     rbind (ensure (\<not> (\<exists>b \<in> set (ca_bindings c). bi_scope b = scope_id \<and> bi_entry b = entry_id)) Binding_conflict) (\<lambda>_.
     rbind (map_err (\<lambda>x. In_store (Escaped x))
       (scope_entry_from_dict (binding_dict scope_id entry_id (name_or (e_name e) local_name) export (service_revision C t)))) (\<lambda>b.
     rbind (append_publication_intent scope_id entry_id ''entry_assigned'' (c\<lparr>ca_bindings := ca_bindings c @ [b]\<rparr>)) (\<lambda>c'.
     rbind (tx_save c' t) (\<lambda>t'. Inr (t', b)))))))))))"

definition set_entry_distribution :: "string \<Rightarrow> string \<Rightarrow> tx \<Rightarrow> cerr + tx \<times> entry" where
  "set_entry_distribution entry_id distribution t =
     rbind (tx_state t) (\<lambda>c.
     rbind (tx_entry entry_id t) (\<lambda>e.
     if e_distribution e = JStr distribution then Inr (t, e)
     else
       let e' = e\<lparr>e_distribution := JStr distribution\<rparr> in
       rbind (tx_put e' t) (\<lambda>t1.
       rbind (rfold (\<lambda>b c. if bi_entry b = entry_id
                then append_publication_intent (bi_scope b) entry_id ''distribution_changed'' c else Inr c) (ca_bindings c) c) (\<lambda>c'.
       rbind (tx_save c' t1) (\<lambda>t'. Inr (t', e'))))))"

text \<open>The check of the argument comes before the transaction.\<close>

definition distribution_known :: "string \<Rightarrow> cerr + unit" where
  "distribution_known distribution = ensure (distribution = ''local_only'' \<or> distribution = ''project_allowed'') Catalog_error"

text \<open>\<open>item is not binding\<close> removes the one object that was found, the first match.\<close>

definition unassign :: "string \<Rightarrow> string \<Rightarrow> tx \<Rightarrow> cerr + tx \<times> scope_entry" where
  "unassign scope_id entry_id t =
     rbind (tx_state t) (\<lambda>c.
     rbind (the_scope c scope_id) (\<lambda>_.
     (case filter (\<lambda>b. bi_scope b = scope_id \<and> bi_entry b = entry_id) (ca_bindings c) of
        [] \<Rightarrow> Inl No_such
      | b # _ \<Rightarrow>
          rbind (append_publication_intent scope_id entry_id ''entry_unassigned'' (c\<lparr>ca_bindings := remove1 b (ca_bindings c)\<rparr>)) (\<lambda>c'.
          rbind (tx_save c' t) (\<lambda>t'. Inr (t', b))))))"

section \<open>Publications\<close>

definition publication_intents :: "string option \<Rightarrow> metadata \<Rightarrow> cerr + intent list" where
  "publication_intents scope_id d =
     rbind (read_catalog_state d) (\<lambda>c.
     rbind (compact_publication_intents c) (\<lambda>(is, _).
     Inr (filter (\<lambda>i. scope_id = None \<or> scope_id = Some (in_scope i)) is)))"

definition captured_from :: "string \<Rightarrow> intent list \<Rightarrow> (string \<times> int) list" where
  "captured_from scope_id is =
     map (\<lambda>i. (in_entry i, in_desired i)) (filter (\<lambda>i. in_scope i = scope_id \<and> in_applied i < in_desired i) is)"

definition capture_publications :: "string \<Rightarrow> tx \<Rightarrow> cerr + tx \<times> (string \<times> int) list" where
  "capture_publications scope_id t =
     rbind (tx_state t) (\<lambda>c.
     rbind (the_scope c scope_id) (\<lambda>_.
     rbind (compact_publication_intents c) (\<lambda>(is, changed).
     rbind (if changed then tx_save (c\<lparr>ca_intents := map intent_dict is\<rparr>) t else Inr t) (\<lambda>t'.
     Inr (t', captured_from scope_id is)))))"

text \<open>The argument is a dictionary of revisions; anything else is refused before the transaction.\<close>

definition revisions_valid :: "json \<Rightarrow> bool" where
  "revisions_valid captured = (is_obj captured \<and> list_all (\<lambda>kv. revision_in (snd kv) \<noteq> None) (members captured))"

definition acknowledge_revision :: "string \<Rightarrow> json \<Rightarrow> intent \<Rightarrow> intent" where
  "acknowledge_revision scope_id captured i =
     (case fld captured (in_entry i) of
        JInt revision \<Rightarrow> if in_scope i = scope_id then i\<lparr>in_applied := max (in_applied i) (min revision (in_desired i))\<rparr> else i
      | _ \<Rightarrow> i)"

definition mark_publications_applied :: "string \<Rightarrow> json \<Rightarrow> tx \<Rightarrow> cerr + tx \<times> unit" where
  "mark_publications_applied scope_id captured t =
     rbind (tx_state t) (\<lambda>c.
     rbind (the_scope c scope_id) (\<lambda>_.
     rbind (compact_publication_intents c) (\<lambda>(is, _).
     rbind (tx_save (c\<lparr>ca_intents := map intent_dict (map (acknowledge_revision scope_id captured) is)\<rparr>) t) (\<lambda>t'.
     Inr (t', ())))))"

section \<open>Reads\<close>

definition list_scopes :: "string option \<Rightarrow> metadata \<Rightarrow> cerr + scope list" where
  "list_scopes project_id d = rbind (read_catalog_state d) (\<lambda>c.
     Inr (filter (\<lambda>s. project_id = None \<or> project_id = Some (sco_project s)) (ca_scopes c)))"

definition list_bindings :: "string option \<Rightarrow> string option \<Rightarrow> metadata \<Rightarrow> cerr + scope_entry list" where
  "list_bindings scope_id entry_id d = rbind (read_catalog_state d) (\<lambda>c.
     Inr (filter (\<lambda>b. (scope_id = None \<or> scope_id = Some (bi_scope b)) \<and> (entry_id = None \<or> entry_id = Some (bi_entry b)))
       (ca_bindings c)))"

record shared_usage =
  us_scope :: string
  us_project :: string
  us_slug :: string
  us_name :: string
  us_state :: string
  us_environment :: string
  us_local :: string

definition usage_of :: "catalog \<Rightarrow> scope_entry \<Rightarrow> cerr + string \<times> shared_usage" where
  "usage_of c b =
     (case find (\<lambda>s. sco_id s = bi_scope b) (ca_scopes c) of None \<Rightarrow> Inl (In_store (Escaped Key_err))
      | Some s \<Rightarrow>
          (case find (\<lambda>p. pr_id p = sco_project s) (ca_projects c) of None \<Rightarrow> Inl (In_store (Escaped Key_err))
           | Some p \<Rightarrow> Inr (bi_entry b, \<lparr>us_scope = sco_id s, us_project = pr_id p, us_slug = pr_slug p, us_name = pr_name p,
               us_state = pr_state p, us_environment = sco_environment s, us_local = bi_local b\<rparr>)))"

text \<open>The keys of a dictionary are in insertion order before \<open>sorted\<close>.\<close>

definition effective_shared_usages :: "metadata \<Rightarrow> cerr + (string \<times> shared_usage list) list" where
  "effective_shared_usages d =
     rbind (read_catalog_state d) (\<lambda>c.
     rbind (rmap (usage_of c) (ca_bindings c)) (\<lambda>us.
     Inr (map (\<lambda>e. (e, sort_key (\<lambda>u. (us_slug u, us_project u, us_environment u, us_scope u))
         (map snd (filter (\<lambda>x. fst x = e) us))))
       (sort (remdups (map fst us))))))"

section \<open>Requests\<close>

text \<open>
  The operations of the service as one function, new identifiers among the arguments. \<open>CaChanged\<close> is
  the catalog's part of a journaled mutation of an entry (\<open>master_journal.py\<close>), which adds drafts
  without a revision. Only a capture has a result that a later request uses.
\<close>

datatype catalog_request =
    CaCreateFolder string string "string option" "int option"
  | CaMoveFolder string "string option" "int option"
  | CaRenameFolder string string
  | CaSetFolder string "string option"
  | CaDeleteFolder string "string option"
  | CaCreateProject string string string string
  | CaCreateScope string string string string "string option" int int
  | CaRenameProject string string "string option"
  | CaArchive string
  | CaAssign string string "string option" "json option"
  | CaDistribution string string
  | CaUnassign string string
  | CaChanged entry string
  | CaCapture string
  | CaMark string json

definition without_result :: "(tx \<Rightarrow> cerr + tx \<times> 'r) \<Rightarrow> tx \<Rightarrow> cerr + tx \<times> (string \<times> int) list" where
  "without_result f t = rbind (f t) (\<lambda>(t', _). Inr (t', []))"

definition draft_publication :: "entry \<Rightarrow> string \<Rightarrow> tx \<Rightarrow> cerr + tx \<times> unit" where
  "draft_publication e reason t =
     rbind (map_err In_store (catalog_state (snd t))) (\<lambda>v.
     Inr ((fst t, (snd t)\<lparr>md_catalog := Some (catalog_with_intents v e (Some reason))\<rparr>), ()))"

primrec catalog_body :: "crypto \<Rightarrow> catalog_request \<Rightarrow> tx \<Rightarrow> cerr + tx \<times> (string \<times> int) list" where
  "catalog_body C (CaCreateFolder new name parent pos) = without_result (create_folder new name parent pos)"
| "catalog_body C (CaMoveFolder i parent pos) = without_result (move_folder i parent pos)"
| "catalog_body C (CaRenameFolder i name) = without_result (rename_folder i name)"
| "catalog_body C (CaSetFolder e i) = without_result (set_entry_folder e i)"
| "catalog_body C (CaDeleteFolder i destination) = without_result (delete_folder i destination)"
| "catalog_body C (CaCreateProject new slug name state) = without_result (create_project new slug name state)"
| "catalog_body C (CaCreateScope new vault' p env v epoch version) = without_result (service_create_scope new vault' p env v epoch version)"
| "catalog_body C (CaRenameProject i name slug) = without_result (rename_project i name slug)"
| "catalog_body C (CaArchive i) = without_result (archive_project i)"
| "catalog_body C (CaAssign s e local_name export) = without_result (assign_entry C s e local_name export)"
| "catalog_body C (CaDistribution e distribution) = without_result (set_entry_distribution e distribution)"
| "catalog_body C (CaUnassign s e) = without_result (unassign s e)"
| "catalog_body C (CaChanged e reason) = without_result (draft_publication e reason)"
| "catalog_body C (CaCapture s) = capture_publications s"
| "catalog_body C (CaMark s captured) = without_result (mark_publications_applied s captured)"

text \<open>What is checked before the transaction opens.\<close>

definition precheck :: "catalog_request \<Rightarrow> cerr + unit" where
  "precheck q = (case q of CaDistribution _ distribution \<Rightarrow> distribution_known distribution
     | CaMark _ captured \<Rightarrow> ensure (revisions_valid captured) Catalog_error
     | _ \<Rightarrow> Inr ())"

definition catalog_step :: "crypto \<Rightarrow> (nat \<Rightarrow> string) \<Rightarrow> catalog_request \<Rightarrow> metadata \<Rightarrow> cerr + metadata \<times> (string \<times> int) list" where
  "catalog_step C fresh q d = rbind (precheck q) (\<lambda>_. in_transaction fresh (catalog_body C q) d)"

end
