(* ===== verification/Publications.thy ===== *)
theory Publications
  imports Catalog_Service
begin

text \<open>
  The accounting of publications, on catalogs: what compaction makes of the stored intents, and
  what each kind of change does to the desired and the applied revision of a scope and an entry.
\<close>

section \<open>The intent of a scope and an entry\<close>

definition keyed :: "intent list \<Rightarrow> string \<times> string \<Rightarrow> intent option" where
  "keyed is k = find (\<lambda>i. in_key i = k) is"

definition well_numbered :: "intent \<Rightarrow> bool" where
  "well_numbered i \<longleftrightarrow> 0 \<le> in_applied i \<and> in_applied i \<le> in_desired i"

text \<open>The state of the loop: one well numbered intent for every key, none above the high-water mark.\<close>

definition groups_ok :: "int \<times> ((string \<times> string) \<times> intent) list \<Rightarrow> bool" where
  "groups_ok hg \<longleftrightarrow> distinct (map fst (snd hg))
     \<and> (\<forall>(k, i) \<in> set (snd hg). in_key i = k \<and> well_numbered i \<and> in_desired i \<le> fst hg)"

lemma revision_in_iff: "revision_in v = Some i \<longleftrightarrow> v = JInt i \<and> 0 \<le> i"
  by (auto simp: revision_in_def split: json.splits if_splits)

lemma intent_of_key [simp]: "in_key (intent_of raw desired) = (text_of (fld raw ''scope_id''), text_of (fld raw ''entry_id''))"
  and intent_of_desired [simp]: "in_desired (intent_of raw desired) = desired"
  by (simp_all add: intent_of_def in_key_def Let_def)

lemma intent_of_accounted: "0 \<le> desired \<Longrightarrow> well_numbered (intent_of raw desired)"
  by (auto simp: intent_of_def well_numbered_def Let_def revision_in_iff split: option.split)

lemma combine_key: "in_key existing = in_key r \<Longrightarrow> in_key (combine existing r) = in_key r"
  by (auto simp: combine_def in_key_def)

lemma combine_accounted: "well_numbered existing \<Longrightarrow> well_numbered r \<Longrightarrow> well_numbered (combine existing r)"
  by (auto simp: combine_def well_numbered_def)

lemma combine_desired: "in_desired (combine existing r) = max (in_desired existing) (in_desired r)"
  by (simp add: combine_def)

lemma map_of_group: "map_of (regroup r gs) k = (if k = in_key r then Some (case map_of gs k of None \<Rightarrow> r | Some i \<Rightarrow> combine i r) else map_of gs k)"
proof (cases "map_of gs (in_key r)")
  case None
  then show ?thesis by (auto simp: regroup_def map_add_def split: option.split)
next
  case (Some i)
  have "map_of (map (\<lambda>(k', j). (k', if k' = in_key r then combine i r else j)) gs) k
      = (if k = in_key r then map_option (\<lambda>_. combine i r) (map_of gs k) else map_of gs k)"
    by (induction gs) auto
  with Some show ?thesis by (simp add: regroup_def)
qed

lemma group_keys: "map fst (regroup r gs) = (if in_key r \<in> set (map fst gs) then map fst gs else map fst gs @ [in_key r])"
proof (cases "map_of gs (in_key r)")
  case None
  then have "in_key r \<notin> set (map fst gs)" by (simp add: map_of_eq_None_iff)
  with None show ?thesis by (simp add: regroup_def)
next
  case (Some i)
  then have "in_key r \<in> set (map fst gs)" by (force dest: map_of_SomeD)
  moreover have "map fst (map (\<lambda>(k', j). (k', if k' = in_key r then combine i r else j)) gs) = map fst gs"
    by (induction gs) auto
  ultimately show ?thesis using Some by (simp add: regroup_def)
qed

lemma groups_ok_map: "distinct (map fst gs) \<Longrightarrow> groups_ok (h, gs) \<longleftrightarrow>
    (\<forall>k i. map_of gs k = Some i \<longrightarrow> in_key i = k \<and> well_numbered i \<and> in_desired i \<le> h)"
  unfolding groups_ok_def by (auto simp: map_of_eq_Some_iff)

lemma group_ok:
  assumes "groups_ok (h, gs)" and "well_numbered r" and "h \<le> h'" and "in_desired r \<le> h'"
  shows "groups_ok (h', regroup r gs)"
proof -
  have d: "distinct (map fst gs)" using assms(1) by (simp add: groups_ok_def)
  then have d': "distinct (map fst (regroup r gs))" by (simp add: group_keys)
  have "in_key i = k \<and> well_numbered i \<and> in_desired i \<le> h'" if "map_of (regroup r gs) k = Some i" for k i
  proof (cases "k = in_key r")
    case True
    show ?thesis
    proof (cases "map_of gs k")
      case None
      with that True assms show ?thesis by (simp add: map_of_group)
    next
      case (Some j)
      then have "in_key j = k \<and> well_numbered j \<and> in_desired j \<le> h"
        using assms(1) unfolding groups_ok_map [OF d] by blast
      with that True Some assms show ?thesis by (auto simp: map_of_group combine_key combine_accounted combine_desired)
    qed
  next
    case False
    with that have "map_of gs k = Some i" by (simp add: map_of_group)
    then have "in_key i = k \<and> well_numbered i \<and> in_desired i \<le> h" using assms(1) unfolding groups_ok_map [OF d] by blast
    with assms(3) show ?thesis by simp
  qed
  then show ?thesis by (simp add: groups_ok_map d')
qed

section \<open>Compaction\<close>

lemma raise_to_le: "h \<le> raise_to r h"
  by (simp add: raise_to_def split: option.split)

lemma fold_raise_le: "h \<le> fold raise_to rs h"
  by (induction rs arbitrary: h) (auto intro: order_trans raise_to_le)

lemma fold_raise_mono: "h \<le> h' \<Longrightarrow> fold raise_to rs h \<le> fold raise_to rs h'"
proof (induction rs arbitrary: h h')
  case (Cons r rs)
  have "raise_to r h \<le> raise_to r h'" using Cons.prems by (auto simp: raise_to_def split: option.split)
  then show ?case by (simp add: Cons.IH)
qed simp

lemma fold_raise_bound: "r \<in> set rs \<Longrightarrow> assigned_revision r = Some i \<Longrightarrow> i \<le> fold raise_to rs h"
proof (induction rs arbitrary: h)
  case (Cons x rs)
  show ?case
  proof (cases "r = x")
    case True
    have "i \<le> raise_to x h" using Cons.prems(2) True by (simp add: raise_to_def)
    also have "\<dots> \<le> fold raise_to rs (raise_to x h)" by (rule fold_raise_le)
    finally show ?thesis by simp
  qed (use Cons in simp)
qed simp

lemma fold_raise_same: "(\<And>r i. r \<in> set rs \<Longrightarrow> assigned_revision r = Some i \<Longrightarrow> i \<le> h) \<Longrightarrow> fold raise_to rs h = h"
proof (induction rs)
  case (Cons r rs)
  have "raise_to r h = h" using Cons.prems [of r] by (auto simp: raise_to_def split: option.split)
  moreover have "fold raise_to rs h = h" by (rule Cons.IH) (use Cons.prems in auto)
  ultimately show ?case by simp
qed simp

lemma fld_absent: "\<not> has_key v k \<Longrightarrow> fld v k = JNull"
  by (simp add: fld_def has_key_def map_of_eq_None_iff [THEN iffD2])

text \<open>A record that names a revision counts with it, so compaction never goes above the mark with it.\<close>

lemma desired_assigned: "revision_in (fld raw ''desired_revision'') = Some i \<Longrightarrow> assigned_revision raw = Some i"
  by (cases "has_key raw ''desired_revision''")
    (auto simp: assigned_revision_def get_or_def revision_in_iff fld_absent)

lemma compact_one_ok:
  assumes "compact_one raw (h, gs) = Inr (h', gs')" and "groups_ok (h, gs)" and "0 \<le> h"
    and "\<And>i. revision_in (fld raw ''desired_revision'') = Some i \<Longrightarrow> i \<le> h"
  shows "groups_ok (h', gs') \<and> h \<le> h'"
proof -
  obtain desired where d: "desired_of raw h = (desired, h')" and g: "gs' = regroup (intent_of raw desired) gs"
    using assms(1) by (auto simp: compact_one_def rbind_ok Let_def split: prod.splits)
  from d have b: "0 \<le> desired \<and> h \<le> h' \<and> desired \<le> h'"
    using assms(3,4) by (auto simp: desired_of_def revision_in_iff split: option.splits)
  then have "groups_ok (h', regroup (intent_of raw desired) gs)"
    by (intro group_ok [OF assms(2)] intent_of_accounted) simp_all
  with g b show ?thesis by simp
qed

lemma compact_loop_ok:
  assumes "rfold compact_one rs (h, gs) = Inr (h', gs')" and "groups_ok (h, gs)" and "0 \<le> h"
    and "\<And>r i. r \<in> set rs \<Longrightarrow> revision_in (fld r ''desired_revision'') = Some i \<Longrightarrow> i \<le> h"
  shows "groups_ok (h', gs') \<and> h \<le> h'"
  using assms
proof (induction rs arbitrary: h gs)
  case (Cons r rs)
  from Cons.prems(1) obtain h1 gs1 where 1: "compact_one r (h, gs) = Inr (h1, gs1)" "rfold compact_one rs (h1, gs1) = Inr (h', gs')"
    by (auto simp: rbind_ok)
  from compact_one_ok [OF 1(1) Cons.prems(2,3)] Cons.prems(4) have "groups_ok (h1, gs1)" "h \<le> h1" by auto
  with Cons.IH [OF 1(2)] Cons.prems show ?case by (meson list.set_intros(2) order_trans)
qed simp

lemma highwater_nonneg: "0 \<le> highwater c"
  unfolding highwater_def by (rule fold_raise_le)

lemma highwater_bound: "r \<in> set (ca_intents c) \<Longrightarrow> revision_in (fld r ''desired_revision'') = Some i \<Longrightarrow> i \<le> highwater c"
  unfolding highwater_def by (rule fold_raise_bound) (auto dest: desired_assigned)

text \<open>The loop of compaction, and the compact_form list.\<close>

definition compacted_groups :: "catalog \<Rightarrow> cerr + int \<times> ((string \<times> string) \<times> intent) list" where
  "compacted_groups c = rfold compact_one (ca_intents c) (highwater c, [])"

lemma compacted_groups_ok:
  assumes "compacted_groups c = Inr (h, gs)"
  shows "groups_ok (h, gs) \<and> highwater c \<le> h"
  by (rule compact_loop_ok [OF assms [unfolded compacted_groups_def]])
    (auto simp: groups_ok_def highwater_nonneg intro: highwater_bound)

lemma compact_iff: "compact_publication_intents c = Inr (is, changed) \<longleftrightarrow>
    (\<exists>h gs. compacted_groups c = Inr (h, gs) \<and> is = map snd (sort_key fst gs)
       \<and> changed = (\<not> py_eq (JList (map intent_dict is)) (JList (ca_intents c))))"
  by (auto simp: compact_publication_intents_def compacted_groups_def rbind_ok Let_def)

lemma find_map_snd:
  assumes "distinct (map fst gs)" and "\<And>k i. (k, i) \<in> set gs \<Longrightarrow> in_key i = k"
  shows "keyed (map snd gs) k = map_of gs k"
  using assms
proof (induction gs)
  case (Cons g gs)
  then show ?case by (cases g) (auto simp: keyed_def)
qed (simp add: keyed_def)

lemma keyed_compacted:
  assumes "groups_ok (h, gs)"
  shows "keyed (map snd (sort_key fst gs)) k = map_of gs k"
proof -
  have d: "distinct (map fst gs)" using assms by (simp add: groups_ok_def)
  have "keyed (map snd (sort_key fst gs)) k = map_of (sort_key fst gs) k"
    using assms by (intro find_map_snd) (auto simp: groups_ok_def d)
  with d show ?thesis by (simp add: map_of_sort_key)
qed

section \<open>Lists in compacted form\<close>

text \<open>What compaction writes is read back unchanged, only sorted.\<close>

lemma intent_dict_fld:
  "fld (intent_dict i) ''scope_id'' = JStr (in_scope i)" "fld (intent_dict i) ''entry_id'' = JStr (in_entry i)"
  "fld (intent_dict i) ''reason'' = JStr (in_reason i)" "fld (intent_dict i) ''desired_revision'' = JInt (in_desired i)"
  "get_or (JInt 0) (intent_dict i) ''applied_revision'' = JInt (in_applied i)"
  "fld (intent_dict i) ''desired_content_revision'' = (case in_content i of None \<Rightarrow> JNull | Some s \<Rightarrow> JStr s)"
  "has_key (intent_dict i) ''desired_revision''"
  by (simp_all add: intent_dict_def fld_def get_or_def has_key_def map_add_def split: option.split)

lemma intent_of_dict: "well_numbered i \<Longrightarrow> intent_of (intent_dict i) (in_desired i) = i"
  by (auto simp: intent_of_def intent_dict_fld well_numbered_def Let_def revision_in_def split: option.split)

lemma assigned_intent: "well_numbered i \<Longrightarrow> assigned_revision (intent_dict i) = Some (in_desired i)"
  by (simp add: assigned_revision_def get_or_def intent_dict_fld well_numbered_def revision_in_def)

lemma compact_dict:
  assumes "well_numbered i"
  shows "compact_one (intent_dict i) (h, gs) = Inr (h, regroup i gs)"
  using assms intent_of_dict [OF assms]
  by (simp add: compact_one_def desired_of_def intent_dict_fld well_numbered_def revision_in_def)

definition compact_form :: "intent list \<Rightarrow> bool" where
  "compact_form is \<longleftrightarrow> distinct (map in_key is) \<and> list_all well_numbered is"

lemma compact_loop_dicts:
  assumes "compact_form is" and "set (map in_key is) \<inter> set (map fst gs) = {}"
  shows "rfold compact_one (map intent_dict is) (h, gs) = Inr (h, gs @ map (\<lambda>i. (in_key i, i)) is)"
  using assms
proof (induction "is" arbitrary: gs)
  case (Cons i "is")
  have "map_of gs (in_key i) = None" using Cons.prems(2) by (simp add: map_of_eq_None_iff)
  then have g: "regroup i gs = gs @ [(in_key i, i)]" by (simp add: regroup_def)
  have "rfold compact_one (map intent_dict is) (h, gs @ [(in_key i, i)])
      = Inr (h, (gs @ [(in_key i, i)]) @ map (\<lambda>i. (in_key i, i)) is)"
    using Cons.prems by (intro Cons.IH) (auto simp: compact_form_def)
  moreover have "well_numbered i" using Cons.prems(1) by (simp add: compact_form_def)
  ultimately show ?case by (simp add: compact_dict g)
qed simp

lemma compacted_groups_dicts:
  "ca_intents c = map intent_dict is \<Longrightarrow> compact_form is \<Longrightarrow> compacted_groups c = Inr (highwater c, map (\<lambda>i. (in_key i, i)) is)"
  unfolding compacted_groups_def by (simp add: compact_loop_dicts)

lemma compact_result:
  assumes "compact_publication_intents c = Inr (is, changed)"
  shows "compact_form is" and "sorted (map in_key is)"
proof -
  from assms obtain h gs where g: "compacted_groups c = Inr (h, gs)" and i: "is = map snd (sort_key fst gs)"
    by (auto simp: compact_iff)
  have ok: "groups_ok (h, gs)" using compacted_groups_ok [OF g] ..
  have "map in_key (map snd (sort_key fst gs)) = map fst (sort_key fst gs)"
    unfolding map_map by (rule map_cong) (use ok in \<open>auto simp: groups_ok_def\<close>)
  then have k: "map in_key is = map fst (sort_key fst gs)" by (simp add: i)
  show "sorted (map in_key is)" by (simp add: k)
  have "distinct (map in_key is)" unfolding k using ok by (simp add: groups_ok_def)
  moreover have "list_all well_numbered is" using ok by (auto simp: list_all_iff i groups_ok_def)
  ultimately show "compact_form is" by (simp add: compact_form_def)
qed

section \<open>What a catalog accounts for\<close>

text \<open>The intent of a key as the code reads it from a catalog.\<close>

definition account :: "catalog \<Rightarrow> string \<times> string \<Rightarrow> intent option" where
  "account c k = (case compact_publication_intents c of Inl _ \<Rightarrow> None | Inr (is, _) \<Rightarrow> keyed is k)"

definition intents_readable :: "catalog \<Rightarrow> bool" where
  "intents_readable c \<longleftrightarrow> is_ok (compact_publication_intents c)"

lemma readable_groups: "intents_readable c \<longleftrightarrow> (\<exists>h gs. compacted_groups c = Inr (h, gs))"
  unfolding intents_readable_def is_ok_iff by (auto simp: compact_publication_intents_def compacted_groups_def rbind_ok Let_def)

lemma account_groups: "compacted_groups c = Inr (h, gs) \<Longrightarrow> account c k = map_of gs k"
proof -
  assume g: "compacted_groups c = Inr (h, gs)"
  then have "compact_publication_intents c = Inr (map snd (sort_key fst gs),
      \<not> py_eq (JList (map intent_dict (map snd (sort_key fst gs)))) (JList (ca_intents c)))"
    unfolding compact_iff by blast
  with keyed_compacted [OF compacted_groups_ok [OF g, THEN conjunct1]] show ?thesis by (simp add: account_def)
qed

lemma account_compact: "compact_publication_intents c = Inr (is, changed) \<Longrightarrow> account c k = keyed is k"
  by (simp add: account_def)

lemma keyed_Some: "keyed is k = Some i \<Longrightarrow> i \<in> set is \<and> in_key i = k"
  unfolding keyed_def by (drule find_SomeD) simp

lemma account_accounted:
  assumes "account c k = Some i"
  shows "well_numbered i \<and> in_key i = k"
proof -
  from assms obtain "is" b where "compact_publication_intents c = Inr (is, b)" "keyed is k = Some i"
    by (auto simp: account_def split: sum.splits prod.splits)
  then have "compact_form is" "i \<in> set is" "in_key i = k" using compact_result(1) keyed_Some by blast+
  then show ?thesis by (simp add: compact_form_def list_all_iff)
qed

lemma keyed_map: "(\<And>i. in_key (f i) = in_key i) \<Longrightarrow> keyed (map f is) k = map_option f (keyed is k)"
  by (induction "is") (auto simp: keyed_def)

lemma map_of_keyed: "map_of (map (\<lambda>i. (in_key i, i)) is) k = keyed is k"
  by (induction "is") (auto simp: keyed_def)

lemma account_dicts:
  assumes "ca_intents c = map intent_dict is" and "compact_form is"
  shows "account c k = keyed is k" and "intents_readable c"
  using account_groups [OF compacted_groups_dicts [OF assms]] compacted_groups_dicts [OF assms]
  by (auto simp: map_of_keyed readable_groups)

text \<open>Only the intents and the deduplication records matter.\<close>

lemma account_same:
  assumes "ca_intents c' = ca_intents c" and "ca_dedup c' = ca_dedup c"
  shows "account c' = account c" and "intents_readable c' = intents_readable c"
  using assms by (simp_all add: fun_eq_iff account_def intents_readable_def compact_publication_intents_def highwater_def)

section \<open>Changes\<close>

text \<open>
  A change that has to be published raises the desired revision above the old one and leaves the
  applied one alone; nothing else may touch either.
\<close>

definition desired_in :: "intent option \<Rightarrow> int" where
  "desired_in a = (case a of None \<Rightarrow> 0 | Some i \<Rightarrow> in_desired i)"

definition applied_in :: "intent option \<Rightarrow> int" where
  "applied_in a = (case a of None \<Rightarrow> 0 | Some i \<Rightarrow> in_applied i)"

definition bumped :: "intent option \<Rightarrow> intent option \<Rightarrow> bool" where
  "bumped a b \<longleftrightarrow> desired_in a < desired_in b \<and> applied_in b = applied_in a"

definition awaits :: "intent option \<Rightarrow> bool" where
  "awaits a \<longleftrightarrow> applied_in a < desired_in a"

lemma desired_in_simps [simp]: "desired_in None = 0" "desired_in (Some i) = in_desired i"
  and applied_in_simps [simp]: "applied_in None = 0" "applied_in (Some i) = in_applied i"
  by (simp_all add: desired_in_def applied_in_def)

lemma bumped_trans: "bumped a b \<Longrightarrow> bumped b c \<Longrightarrow> bumped a c"
  by (auto simp: bumped_def)

lemma keyed_mem: "compact_form is \<Longrightarrow> i \<in> set is \<Longrightarrow> keyed is (in_key i) = Some i"
  using map_of_keyed [of "is" "in_key i", symmetric] by (auto simp: compact_form_def map_of_eq_Some_iff o_def)

lemma keyed_None: "keyed is k = None \<longleftrightarrow> k \<notin> set (map in_key is)"
  by (auto simp: keyed_def find_None_iff)

lemma next_desired_above:
  assumes "compact_form is"
  shows "0 < next_desired_revision c is" and "keyed is k = Some i \<Longrightarrow> in_desired i < next_desired_revision c is"
proof -
  show "0 < next_desired_revision c is"
    using fold_raise_le [of 0 "ca_dedup c @ map intent_dict is"] by (simp only: next_desired_revision_def)
  assume "keyed is k = Some i"
  then have i: "i \<in> set is" by (rule keyed_Some [THEN conjunct1])
  then have "assigned_revision (intent_dict i) = Some (in_desired i)"
    using assms by (auto simp: compact_form_def list_all_iff intro: assigned_intent)
  then have "in_desired i \<le> fold raise_to (ca_dedup c @ map intent_dict is) 0"
    by (rule fold_raise_bound [rotated]) (use i in simp)
  then show "in_desired i < next_desired_revision c is" by (simp only: next_desired_revision_def)
qed

lemma keyed_exchange:
  assumes "in_key x = k" and "keyed is k = Some i"
  shows "keyed (exchange in_key k x is) k' = (if k' = k then Some x else keyed is k')"
    and "map in_key (exchange in_key k x is) = map in_key is"
proof -
  show "map in_key (exchange in_key k x is) = map in_key is" using assms(1) by (auto simp: exchange_def)
  show "keyed (exchange in_key k x is) k' = (if k' = k then Some x else keyed is k')"
  proof -
    have "keyed (exchange in_key k x is) k' = map_option (\<lambda>i. if k' = k then x else i) (keyed is k')"
      using assms(1) by (induction "is") (auto simp: keyed_def exchange_def)
    with assms(2) show ?thesis by (cases "keyed is k'") auto
  qed
qed

lemma append_intent:
  assumes "append_publication_intent scope_id entry_id reason c = Inr c'"
  shows "intents_readable c \<and> intents_readable c'" and "bumped (account c (scope_id, entry_id)) (account c' (scope_id, entry_id))"
    and "k \<noteq> (scope_id, entry_id) \<Longrightarrow> account c' k = account c k"
    and "c' = c\<lparr>ca_intents := ca_intents c'\<rparr>"
proof -
  let ?k = "(scope_id, entry_id)"
  from assms obtain "is" b where i: "compact_publication_intents c = Inr (is, b)" by (auto simp: append_publication_intent_def rbind_ok)
  note comp = compact_result(1) [OF i]
  define new where "new = \<lparr>in_scope = scope_id, in_entry = entry_id, in_reason = reason,
      in_desired = next_desired_revision c is, in_applied = 0, in_content = None\<rparr>"
  have f: "find (\<lambda>i. in_scope i = scope_id \<and> in_entry i = entry_id) is = keyed is ?k" by (simp add: keyed_def in_key_def)
  define js where "js = (case keyed is ?k of Some i \<Rightarrow> exchange in_key ?k (new\<lparr>in_applied := in_applied i\<rparr>) is | None \<Rightarrow> is @ [new])"
  have c': "c' = c\<lparr>ca_intents := map intent_dict js\<rparr>"
    unfolding js_def new_def using assms by (simp add: append_publication_intent_def i f Let_def)
  have k: "in_key new = ?k" "in_key (new\<lparr>in_applied := a\<rparr>) = ?k" for a by (simp_all add: new_def in_key_def)
  have new: "0 < in_desired new" "in_applied new = 0" using next_desired_above(1) [OF comp] by (simp_all add: new_def)
  have a: "account c x = keyed is x" for x by (rule account_compact [OF i])
  have res: "compact_form js \<and> bumped (keyed is ?k) (keyed js ?k) \<and> (k \<noteq> ?k \<longrightarrow> keyed js k = keyed is k)" for k
  proof (cases "keyed is ?k")
    case None
    then have j: "js = is @ [new]" by (simp add: js_def)
    have "keyed js k' = (if k' = ?k then Some new else keyed is k')" for k'
      unfolding j map_of_keyed [symmetric] using None by (auto simp: k map_add_def map_of_keyed split: option.split)
    moreover have "compact_form js" using comp None new by (auto simp: compact_form_def j keyed_None k well_numbered_def)
    ultimately show ?thesis using new None by (simp add: bumped_def)
  next
    case (Some i)
    then have i': "i \<in> set is" "in_desired i < next_desired_revision c is"
      using keyed_Some next_desired_above(2) [OF comp Some] by blast+
    then have ok: "well_numbered i" using comp by (simp add: compact_form_def list_all_iff)
    let ?x = "new\<lparr>in_applied := in_applied i\<rparr>"
    have j: "js = exchange in_key ?k ?x is" using Some by (simp add: js_def)
    have x: "well_numbered ?x" "in_desired ?x = next_desired_revision c is" "in_applied ?x = in_applied i"
      using ok i'(2) by (simp_all add: well_numbered_def new_def)
    have "list_all well_numbered js" using comp x(1) by (auto simp: j exchange_def compact_form_def list_all_iff)
    with comp have "compact_form js" by (simp add: compact_form_def j keyed_exchange(2) [OF k(2) Some])
    with x i'(2) Some show ?thesis by (simp add: bumped_def j keyed_exchange(1) [OF k(2) Some])
  qed
  have j: "ca_intents c' = map intent_dict js" by (simp add: c')
  have r: "compact_form js" using res by blast
  show "intents_readable c \<and> intents_readable c'" using i account_dicts(2) [OF j r] by (simp add: intents_readable_def)
  show "bumped (account c ?k) (account c' ?k)" using res by (simp add: a account_dicts(1) [OF j r])
  show "account c' k = account c k" if "k \<noteq> ?k" using res [of k] that by (simp add: a account_dicts(1) [OF j r])
  show "c' = c\<lparr>ca_intents := ca_intents c'\<rparr>" by (simp add: c')
qed

text \<open>Compaction that is written back changes nothing.\<close>

lemma compact_written:
  assumes "compact_publication_intents c = Inr (is, changed)" and "ca_intents c' = map intent_dict is"
  shows "account c' = account c" and "intents_readable c'"
  using account_dicts [OF assms(2) compact_result(1) [OF assms(1)]] account_compact [OF assms(1)] by (auto simp: fun_eq_iff)

text \<open>Drafts of journaled mutations.\<close>

definition draft :: "entry \<Rightarrow> string \<Rightarrow> string \<Rightarrow> json" where
  "draft e reason s = JObj [(''scope_id'', JStr s), (''entry_id'', JStr (e_id e)), (''reason'', JStr reason),
     (''desired_content_revision'', e_revision e)]"

lemma draft_fld: "fld (draft e reason s) ''scope_id'' = JStr s" "fld (draft e reason s) ''entry_id'' = JStr (e_id e)"
    "fld (draft e reason s) ''desired_revision'' = JNull" "fld (draft e reason s) ''revision'' = JNull"
    "get_or v (draft e reason s) ''applied_revision'' = v" "get_or v (draft e reason s) ''desired_revision'' = v"
  by (simp_all add: draft_def fld_def get_or_def has_key_def)

lemma compact_draft: "compact_one (draft e reason s) (h, gs) = Inr (h + 1, regroup (intent_of (draft e reason s) (h + 1)) gs)"
  by (simp add: compact_one_def desired_of_def draft_fld revision_in_def)

lemma draft_applied: "in_applied (intent_of (draft e reason s) d) = min 0 d"
  by (simp add: intent_of_def draft_fld revision_in_def Let_def)

lemma compact_drafts:
  assumes "groups_ok (h, gs)" and "0 \<le> h" and "distinct scopes"
  shows "\<exists>h' gs'. rfold compact_one (map (draft e reason) scopes) (h, gs) = Inr (h', gs') \<and> groups_ok (h', gs')
    \<and> (\<forall>s x. if x = e_id e \<and> s \<in> set scopes then bumped (map_of gs (s, x)) (map_of gs' (s, x)) else map_of gs' (s, x) = map_of gs (s, x))"
  using assms
proof (induction scopes arbitrary: h gs)
  case (Cons t scopes)
  let ?r = "intent_of (draft e reason t) (h + 1)"
  let ?g = "regroup ?r gs"
  have ok: "groups_ok (h + 1, ?g)"
    by (rule group_ok [OF Cons.prems(1)]) (use Cons.prems(2) in \<open>auto intro: intent_of_accounted\<close>)
  from Cons.IH [OF ok] Cons.prems obtain h' gs' where r: "rfold compact_one (map (draft e reason) scopes) (h + 1, ?g) = Inr (h', gs')"
    "groups_ok (h', gs')" and m: "\<forall>s x. if x = e_id e \<and> s \<in> set scopes then bumped (map_of ?g (s, x)) (map_of gs' (s, x))
      else map_of gs' (s, x) = map_of ?g (s, x)" by auto
  have old: "well_numbered j \<and> in_desired j \<le> h" if "map_of gs (t, e_id e) = Some j" for j
    using Cons.prems(1) that by (force simp: groups_ok_def dest: map_of_SomeD)
  have b: "bumped (map_of gs (t, e_id e)) (map_of ?g (t, e_id e))"
  proof (cases "map_of gs (t, e_id e)")
    case None
    with Cons.prems(2) show ?thesis by (simp add: map_of_group draft_fld bumped_def draft_applied)
  next
    case (Some j)
    with old [OF Some] show ?thesis by (auto simp: map_of_group draft_fld bumped_def combine_def draft_applied well_numbered_def)
  qed
  have o: "map_of ?g (s, x) = map_of gs (s, x)" if "(s, x) \<noteq> (t, e_id e)" for s x using that by (auto simp: map_of_group draft_fld)
  have "if x = e_id e \<and> s \<in> set (t # scopes) then bumped (map_of gs (s, x)) (map_of gs' (s, x)) else map_of gs' (s, x) = map_of gs (s, x)" for s x
    using m [rule_format, where s = s and x = x] b o [of s x] Cons.prems(3) by (cases "s = t") (auto split: if_splits)
  with r show ?case by (simp add: compact_draft)
qed auto

lemma append_drafts:
  assumes "intents_readable c" and "ca_intents c' = ca_intents c @ map (draft e reason) scopes" and "ca_dedup c' = ca_dedup c" and "distinct scopes"
  shows "intents_readable c'" and "s \<in> set scopes \<Longrightarrow> bumped (account c (s, e_id e)) (account c' (s, e_id e))"
    and "x \<noteq> e_id e \<or> s \<notin> set scopes \<Longrightarrow> account c' (s, x) = account c (s, x)"
proof -
  from assms(1) obtain h gs where g: "compacted_groups c = Inr (h, gs)" by (auto simp: readable_groups)
  have none: "assigned_revision (draft e reason s) = None" for s by (simp add: assigned_revision_def draft_fld revision_in_def)
  have "fold raise_to (map (draft e reason) scopes) w = w" for w by (rule fold_raise_same) (auto simp: none)
  then have hw: "highwater c' = highwater c" by (simp add: highwater_def assms(2,3))
  from g have ok: "groups_ok (h, gs)" "0 \<le> h" using compacted_groups_ok [OF g] highwater_nonneg [of c] by auto
  from compact_drafts [OF ok assms(4), of e reason] obtain h' gs' where
    d: "rfold compact_one (map (draft e reason) scopes) (h, gs) = Inr (h', gs')"
    and m: "\<And>s x. if x = e_id e \<and> s \<in> set scopes then bumped (map_of gs (s, x)) (map_of gs' (s, x)) else map_of gs' (s, x) = map_of gs (s, x)"
    by blast
  have g': "compacted_groups c' = Inr (h', gs')" using g d by (simp add: compacted_groups_def assms(2) hw rfold_append)
  show "intents_readable c'" using g' by (auto simp: readable_groups)
  show "bumped (account c (s, e_id e)) (account c' (s, e_id e))" if "s \<in> set scopes"
    using m [of "e_id e" s] that by (simp add: account_groups [OF g] account_groups [OF g'])
  show "account c' (s, x) = account c (s, x)" if "x \<noteq> e_id e \<or> s \<notin> set scopes"
    using m [of x s] that by (auto simp: account_groups [OF g] account_groups [OF g'] split: if_splits)
qed

section \<open>Acknowledgements\<close>

lemma acknowledge_key: "in_key (acknowledge_revision s captured i) = in_key i"
  by (auto simp: acknowledge_revision_def in_key_def split: json.split)

lemma acknowledge_accounted: "well_numbered i \<Longrightarrow> well_numbered (acknowledge_revision s captured i)"
  by (auto simp: acknowledge_revision_def well_numbered_def split: json.split)

lemma acknowledge_written:
  assumes "compact_publication_intents c = Inr (is, changed)"
    and "ca_intents c' = map intent_dict (map (acknowledge_revision s captured) is)"
  shows "account c' k = map_option (acknowledge_revision s captured) (account c k)" and "intents_readable c'"
proof -
  have "compact_form (map (acknowledge_revision s captured) is)"
    using compact_result(1) [OF assms(1)] by (auto simp: compact_form_def list_all_iff o_def acknowledge_key acknowledge_accounted)
  from account_dicts [OF assms(2) this] show "account c' k = map_option (acknowledge_revision s captured) (account c k)" "intents_readable c'"
    by (simp_all add: keyed_map acknowledge_key account_compact [OF assms(1)])
qed

end
