(* ===== verification/Catalog_Changes.thy ===== *)
theory Catalog_Changes
  imports Publications
begin

text \<open>
  What one operation of the catalog service changes: it reads the catalog of a valid store,
  writes another one, and the next reader finds exactly that.
\<close>

section \<open>Reading a valid store\<close>

lemma as_dict_fields: "validate_fields t v = Inr fs \<Longrightarrow> is_ok (as_dict v)"
  by (cases v) (auto simp: validate_fields_def rbind_ok ensure_ok as_dict_def split: entry_type.splits)

lemma as_list_tags: "validate_tags v = Inr ts \<Longrightarrow> is_ok (as_list v)"
  by (cases v) (auto simp: validate_tags_def as_list_def)

lemma as_list_refs: "validate_refs v = Inr rs \<Longrightarrow> is_ok (as_list v)"
  by (cases v) (auto simp: validate_refs_def as_list_def)

lemma as_dict_provenance: "validate_provenance v = Inr p \<Longrightarrow> v = JNull \<or> is_ok (as_dict v)"
  by (cases v) (auto simp: validate_provenance_def rbind_ok ensure_ok as_dict_def)

lemma entry_reads:
  assumes "from_untrusted_dict secrets proj r = Inr e"
  shows "\<exists>q. entry_from_dict r = Inr q \<and> e_id q = e_id e \<and> e_name q = e_name e
    \<and> e_folder q = e_folder e \<and> e_distribution q = e_distribution e"
proof -
  note 1 = assms [unfolded from_untrusted_dict_def rbind_ok ensure_ok]
  then obtain t fs ts rs p where t: "entry_type_of (fld r ''type'') = Some t"
    and v: "validate_fields t (get_or (JObj []) r ''fields'') = Inr fs" "validate_tags (get_or (JList []) r ''tags'') = Inr ts"
      "validate_refs (get_or (JList []) r ''refs'') = Inr rs" "validate_provenance (fld r ''provenance'') = Inr p"
    and k: "\<forall>k \<in> set REQUIRED_ENTRY_KEYS. has_key r k"
    and e: "e_id e = text_of (fld r ''id'')" "e_name e = text_of (fld r ''name'')" "e_folder e = fld r ''folder_id''"
      "e_distribution e = get_or (JStr ''local_only'') r ''distribution''"
    by (auto split: option.splits)
  from as_dict_fields [OF v(1)] as_list_tags [OF v(2)] as_list_refs [OF v(3)] as_dict_provenance [OF v(4)]
  obtain a b c q where x: "as_dict (get_or (JObj []) r ''fields'') = Inr a" "as_list (get_or (JList []) r ''tags'') = Inr b"
    "as_list (get_or (JList []) r ''refs'') = Inr c"
    "(if fld r ''provenance'' = JNull then Inr JNull else as_dict (fld r ''provenance'')) = Inr q"
    by (cases "fld r ''provenance'' = JNull") (auto simp: is_ok_iff)
  have "has_key r ''id''" "has_key r ''name''" "has_key r ''type''" "has_key r ''created_at''" "has_key r ''updated_at''"
    using k by simp_all
  then show ?thesis by (simp add: entry_from_dict_def t x e rec_id_def rec_name_def)
qed

lemma rmap_reads:
  assumes "rmap f rs = Inr es" and "\<And>r e. r \<in> set rs \<Longrightarrow> f r = Inr e \<Longrightarrow> \<exists>q. g r = Inr q \<and> P e q"
  shows "\<exists>qs. rmap g rs = Inr qs \<and> list_all2 P es qs"
  using assms
proof (induction rs arbitrary: es)
  case (Cons r rs)
  from Cons.prems(1) obtain e es' where e: "f r = Inr e" "rmap f rs = Inr es'" "es = e # es'" by (auto simp: rbind_ok)
  from Cons.IH [OF e(2)] Cons.prems(2) obtain qs where "rmap g rs = Inr qs" "list_all2 P es' qs" by auto
  moreover from Cons.prems(2) e(1) obtain q where "g r = Inr q" "P e q" by auto
  ultimately show ?case by (auto simp: e)
qed simp

text \<open>The catalog in a JSON value does not depend on the entries it is checked against.\<close>

definition holds_catalog :: "json \<Rightarrow> catalog \<Rightarrow> bool" where
  "holds_catalog v c \<longleftrightarrow> (\<exists>ids. catalog_from_dict ids v = Inr c)"

lemma catalog_parts:
  assumes "catalog_from_dict ids v = Inr c"
  shows "rmap folder_from_dict (items (fld v ''folders'')) = Inr (ca_folders c)"
    and "rmap project_from_dict (items (fld v ''projects'')) = Inr (ca_projects c)"
    and "rmap scope_from_dict (items (fld v ''scopes'')) = Inr (ca_scopes c)"
    and "rmap scope_entry_from_dict (items (fld v ''bindings'')) = Inr (ca_bindings c)"
    and "items (fld v ''dedup'') = ca_dedup c" and "items (fld v ''publication_intents'') = ca_intents c"
    and "is_obj v"
proof -
  from assms have r: "rmap folder_from_dict (items (fld v ''folders'')) = Inr (ca_folders c)
    \<and> rmap project_from_dict (items (fld v ''projects'')) = Inr (ca_projects c)
    \<and> rmap scope_from_dict (items (fld v ''scopes'')) = Inr (ca_scopes c)
    \<and> rmap scope_entry_from_dict (items (fld v ''bindings'')) = Inr (ca_bindings c)
    \<and> rmap json_object (items (fld v ''dedup'')) = Inr (ca_dedup c)
    \<and> rmap json_object (items (fld v ''publication_intents'')) = Inr (ca_intents c)"
    unfolding catalog_from_dict_def by (auto simp: rbind_ok ensure_ok)
  then show "rmap folder_from_dict (items (fld v ''folders'')) = Inr (ca_folders c)"
    "rmap project_from_dict (items (fld v ''projects'')) = Inr (ca_projects c)"
    "rmap scope_from_dict (items (fld v ''scopes'')) = Inr (ca_scopes c)"
    "rmap scope_entry_from_dict (items (fld v ''bindings'')) = Inr (ca_bindings c)"
    by blast+
  from r show "items (fld v ''dedup'') = ca_dedup c" "items (fld v ''publication_intents'') = ca_intents c"
    unfolding json_objects_ok by simp_all
  show "is_obj v"
    using assms unfolding catalog_from_dict_def exact_keys_def by (auto simp only: rbind_ok ensure_ok)
qed

lemma holds_unique: "holds_catalog v c \<Longrightarrow> holds_catalog v c' \<Longrightarrow> c = c'"
  unfolding holds_catalog_def
proof (elim exE)
  fix i j assume "catalog_from_dict i v = Inr c" "catalog_from_dict j v = Inr c'"
  from catalog_parts [OF this(1)] catalog_parts [OF this(2)] show "c = c'" by simp
qed

lemma reads_back:
  assumes "rmap g (map h xs) = Inr ys" and "\<And>x y. g (h x) = Inr y \<Longrightarrow> y = x"
  shows "ys = xs"
  using assms(1)
proof (induction xs arbitrary: ys)
  case (Cons x xs)
  then show ?case using assms(2) by (auto simp: rbind_ok)
qed simp

lemma item_reads_back:
  "folder_from_dict (folder_to_dict f) = Inr f' \<Longrightarrow> f' = f"
  "project_from_dict (project_to_dict p) = Inr p' \<Longrightarrow> p' = p"
  "scope_from_dict (scope_to_dict s) = Inr s' \<Longrightarrow> s' = s"
  by (auto simp: folder_from_dict_def folder_to_dict_def project_from_dict_def project_to_dict_def scope_from_dict_def scope_to_dict_def
      fld_def rbind_ok ensure_ok optional_id_ok int_from_ok catalog_text_ok catalog_slug_ok validate_uuid4_ok optional_text_def
      split: option.splits)

lemma export_reads_back: "export_config (export_dict e) = Inr e' \<Longrightarrow> e' = e"
proof -
  assume a: "export_config (export_dict e) = Inr e'"
  have f: "fld (export_dict e) ''fields'' = JList (map JStr (ex_fields e))" "fld (export_dict e) ''note'' = JBool (ex_note e)"
    "fld (export_dict e) ''refs'' = JBool (ex_refs e)" "fld (export_dict e) ''tags'' = JBool (ex_tags e)"
    by (simp_all add: export_dict_def fld_def)
  have inj: "map JStr xs = map JStr ys \<Longrightarrow> xs = ys" for xs ys by (simp add: inj_map_eq_map inj_def)
  from a show "e' = e"
    by (auto simp: export_config_def f rbind_ok ensure_ok bool_of_ok field_names_ok dest!: inj split: if_splits)
qed

lemma binding_reads_back: "scope_entry_from_dict (scope_entry_to_dict b) = Inr b' \<Longrightarrow> b' = b"
proof -
  assume a: "scope_entry_from_dict (scope_entry_to_dict b) = Inr b'"
  have f: "fld (scope_entry_to_dict b) ''scope_id'' = JStr (bi_scope b)" "fld (scope_entry_to_dict b) ''entry_id'' = JStr (bi_entry b)"
    "fld (scope_entry_to_dict b) ''local_name'' = JStr (bi_local b)" "fld (scope_entry_to_dict b) ''export'' = export_dict (bi_export b)"
    "fld (scope_entry_to_dict b) ''approval_revision'' = JStr (bi_approval b)"
    by (simp_all add: scope_entry_to_dict_def fld_def)
  from a show "b' = b"
    by (auto simp: scope_entry_from_dict_def f rbind_ok ensure_ok sha256_text_ok validate_uuid4_ok catalog_text_ok dest: export_reads_back)
qed

lemma holds_written: "holds_catalog (catalog_to_dict c) c' \<Longrightarrow> c' = c"
  unfolding holds_catalog_def
proof (elim exE)
  fix i assume a: "catalog_from_dict i (catalog_to_dict c) = Inr c'"
  have f: "items (fld (catalog_to_dict c) ''folders'') = map folder_to_dict (ca_folders c)"
    "items (fld (catalog_to_dict c) ''projects'') = map project_to_dict (ca_projects c)"
    "items (fld (catalog_to_dict c) ''scopes'') = map scope_to_dict (ca_scopes c)"
    "items (fld (catalog_to_dict c) ''bindings'') = map scope_entry_to_dict (ca_bindings c)"
    "items (fld (catalog_to_dict c) ''dedup'') = ca_dedup c" "items (fld (catalog_to_dict c) ''publication_intents'') = ca_intents c"
    by (simp_all add: catalog_to_dict_def fld_def)
  note p = catalog_parts [OF a, unfolded f]
  from reads_back [OF p(1) item_reads_back(1)] reads_back [OF p(2) item_reads_back(2)] reads_back [OF p(3) item_reads_back(3)]
    reads_back [OF p(4) binding_reads_back] p(5,6) show "c' = c" by simp
qed

text \<open>A valid store of schema 3 reads as entries and a catalog.\<close>

lemma valid_reads:
  assumes "valid_store d" and "3 \<le> md_version d"
  obtains es c where "store_list d = Inr es" and "read_catalog_state d = Inr c" and "holds_catalog (the (md_catalog d)) c"
    and "wf_catalog (e_id ` set es) c" and "map e_id es = map rec_id (md_entries d)"
    and "\<forall>e \<in> set es. e_distribution e = JStr ''local_only'' \<or> e_distribution e = JStr ''project_allowed''"
proof -
  from valid_v3_D [OF assms] obtain us c where u: "rmap (from_untrusted_dict False True) (md_entries d) = Inr us"
    and w: "\<forall>e \<in> set us. wf_entry e" and c: "catalog_from_dict (e_id ` set us) (the (md_catalog d)) = Inr c"
    and wc: "wf_catalog (e_id ` set us) c" by metis
  obtain es where e: "rmap entry_from_dict (md_entries d) = Inr es"
    and l: "list_all2 (\<lambda>x y. e_id y = e_id x \<and> e_name y = e_name x \<and> e_folder y = e_folder x \<and> e_distribution y = e_distribution x) us es"
    using rmap_reads [OF u, of entry_from_dict "\<lambda>x y. e_id y = e_id x \<and> e_name y = e_name x \<and> e_folder y = e_folder x \<and> e_distribution y = e_distribution x"]
      entry_reads by blast
  have i: "map e_id es = map e_id us" using l by (simp add: list_all2_conv_all_nth list_eq_iff_nth_eq)
  then have s: "e_id ` set es = e_id ` set us" by (metis image_set)
  have "list_all2 (\<lambda>r y. rec_id r = e_id y) (md_entries d) es"
    using e unfolding rmap_ok by (rule list_all2_mono) (simp add: entry_from_dict_names)
  then have n: "map e_id es = map rec_id (md_entries d)" by (simp add: list_all2_conv_all_nth list_eq_iff_nth_eq)
  have dist: "\<forall>e \<in> set es. e_distribution e = JStr ''local_only'' \<or> e_distribution e = JStr ''project_allowed''"
  proof
    fix y assume "y \<in> set es"
    then obtain i where "i < length es" "y = es ! i" by (auto simp: in_set_conv_nth)
    then have "us ! i \<in> set us" "e_distribution y = e_distribution (us ! i)" using l by (simp_all add: list_all2_conv_all_nth)
    with w show "e_distribution y = JStr ''local_only'' \<or> e_distribution y = JStr ''project_allowed''" by (auto simp: wf_entry_def)
  qed
  have "store_list d = Inr es" by (simp add: store_list_def e)
  moreover have "read_catalog_state d = Inr c" using assms(2) by (simp add: read_catalog_state_def catalog_state_def store_list_def e s c)
  ultimately show ?thesis using c wc s n dist by (intro that [of es c]) (auto simp: holds_catalog_def)
qed

text \<open>A transaction opens on the catalog that a reader of the store finds.\<close>

definition opened :: "metadata \<Rightarrow> tx" where
  "opened d = (reset_entries (md_entries d), d)"

lemma opened_reads:
  assumes "valid_store d"
  shows "slots_ok (fst (opened d))" and "tx_list (fst (opened d)) = store_list d" and "tx_state (opened d) = read_catalog_state d"
    and "snd (opened d) = d"
proof -
  note r = reset_entries_ok [OF valid_store_unique [OF assms]]
  show "slots_ok (fst (opened d))" "snd (opened d) = d" using r by (simp_all add: opened_def)
  show "tx_list (fst (opened d)) = store_list d" using r by (simp add: opened_def tx_list_def store_list_def)
  then show "tx_state (opened d) = read_catalog_state d" by (simp add: tx_state_def read_catalog_state_def opened_def)
qed

lemma tx_state_version: "tx_state t = Inr c \<Longrightarrow> 3 \<le> md_version (snd t)"
  by (auto simp: tx_state_def catalog_state_def rbind_ok map_err_ok ensure_ok)

lemma tx_state_holds: "tx_state t = Inr c \<Longrightarrow> holds_catalog (the (md_catalog (snd t))) c"
  by (auto simp: tx_state_def catalog_state_def rbind_ok map_err_ok ensure_ok holds_catalog_def)

lemma tx_save_ok: "tx_save c t = Inr t' \<Longrightarrow> t' = (fst t, (snd t)\<lparr>md_catalog := Some (catalog_to_dict c)\<rparr>)"
  by (auto simp: tx_save_def set_catalog_state_def rbind_ok map_err_ok ensure_ok)

lemma tx_put_ok: "tx_put e t = Inr t' \<Longrightarrow> snd t' = snd t"
  by (auto simp: tx_put_def rbind_ok map_err_ok)

lemma tx_entry_found:
  assumes "valid_store d" and "tx_state (opened d) = Inr c" and "tx_entry i (opened d) = Inr e"
  shows "store_get_by_id i d = Inr (Some e)"
proof -
  from assms(3) have g: "tx_get_by_id i (fst (opened d)) = Inr (Some e)"
    by (auto simp: tx_entry_def rbind_ok map_err_ok split: option.splits)
  from assms(2) obtain es where es: "tx_list (fst (opened d)) = Inr es" by (auto simp: tx_state_def rbind_ok map_err_ok)
  with tx_get_scan(2) [OF opened_reads(1) [OF assms(1)] es, of i] g show ?thesis
    by (simp add: opened_reads(2) [OF assms(1)] store_get_by_id_def)
qed

section \<open>Writing\<close>

text \<open>What the store holds after a transaction whose body left this catalog.\<close>

lemma committed:
  assumes "commit_slots fresh s d' = Inr d2"
  shows "valid_store d2" and "md_catalog d2 = md_catalog d'" and "md_version d2 = md_version d'"
  using assms finish_write_valid [of fresh "d'\<lparr>md_entries := materialize s\<rparr>" d2]
  by (auto simp: commit_slots_def finish_write_def rbind_ok Let_def split: if_splits)

definition writes :: "tx \<Rightarrow> catalog \<Rightarrow> catalog \<Rightarrow> tx \<Rightarrow> bool" where
  "writes t c c' t' \<longleftrightarrow> snd t' = (snd t)\<lparr>md_catalog := Some (catalog_to_dict c')\<rparr> \<or> snd t' = snd t \<and> c' = c"

lemma writes_saved: "tx_save c' t1 = Inr t' \<Longrightarrow> snd t1 = snd t \<Longrightarrow> writes t c c' t'"
  by (drule tx_save_ok) (simp add: writes_def)

lemma read_state_holds:
  assumes "valid_store d" and "3 \<le> md_version d" and "holds_catalog (the (md_catalog d)) c \<Longrightarrow> False" and "read_catalog_state d = Inr c"
  shows False
  using assms(3) valid_reads [OF assms(1,2)] assms(4) by (metis sum.inject(2))

lemma written_read:
  assumes "writes (opened d) c c' t'" and "read_catalog_state d = Inr c" and "valid_store d"
    and "commit_slots fresh (fst t') (snd t') = Inr d2"
  shows "valid_store d2 \<and> read_catalog_state d2 = Inr c'"
proof -
  have t: "tx_state (opened d) = Inr c" using opened_reads(3) [OF assms(3)] assms(2) by simp
  from tx_state_version [OF t] have v: "3 \<le> md_version d" by (simp add: opened_reads(4) [OF assms(3)])
  note d2 = committed [OF assms(4)]
  have "md_version (snd t') = md_version d" using assms(1) opened_reads(4) [OF assms(3)] by (auto simp: writes_def)
  with d2 v have "3 \<le> md_version d2" by simp
  from valid_reads [OF d2(1) this] obtain c2 where c2: "read_catalog_state d2 = Inr c2" "holds_catalog (the (md_catalog d2)) c2" by metis
  have "c2 = c'"
    using assms(1) unfolding writes_def
  proof
    assume "snd t' = (snd (opened d))\<lparr>md_catalog := Some (catalog_to_dict c')\<rparr>"
    with c2(2) d2(2) show ?thesis by (auto dest: holds_written)
  next
    assume "snd t' = snd (opened d) \<and> c' = c"
    with c2(2) d2(2) tx_state_holds [OF t] show ?thesis by (auto dest: holds_unique)
  qed
  with c2 d2 show ?thesis by simp
qed

section \<open>Organisation\<close>

text \<open>Folders, projects and scopes: assignments and publications stay as they are.\<close>

definition reorganised :: "catalog \<Rightarrow> catalog \<Rightarrow> bool" where
  "reorganised c c' \<longleftrightarrow> ca_bindings c' = ca_bindings c \<and> ca_dedup c' = ca_dedup c \<and> ca_intents c' = ca_intents c"

definition organises :: "catalog_request \<Rightarrow> bool" where
  "organises q = (case q of CaAssign _ _ _ _ \<Rightarrow> False | CaDistribution _ _ \<Rightarrow> False | CaUnassign _ _ \<Rightarrow> False | CaChanged _ _ \<Rightarrow> False
     | CaCapture _ \<Rightarrow> False | CaMark _ _ \<Rightarrow> False | _ \<Rightarrow> True)"

lemma relocated: "rfold (relocate i) es t = Inr t' \<Longrightarrow> snd t' = snd t"
  by (erule rfold_invariant [where P = "\<lambda>t'. snd t' = snd t"]) (auto simp: relocate_def dest: tx_put_ok)

lemma delete_folder_D:
  assumes "delete_folder i destination t = Inr (t', f)"
  obtains c es t1 fs where "tx_state t = Inr c" and "tx_list (fst t) = Inr es" and "tx_save (c\<lparr>ca_folders := fs\<rparr>) t1 = Inr t'"
    and "t1 = t \<or> (\<exists>j. rfold (relocate j) (filter (\<lambda>e. e_folder e = JStr i) es) t = Inr t1)"
proof -
  from assms obtain c es t1 fs where 1: "tx_state t = Inr c" "tx_list (fst t) = Inr es" "tx_save (c\<lparr>ca_folders := fs\<rparr>) t1 = Inr t'"
    and m: "(case destination of None \<Rightarrow> Inr t | Some j \<Rightarrow>
       rbind (the_folder c j) (\<lambda>_. rbind (case is_descendant c j i of None \<Rightarrow> Inl Diverges | Some b \<Rightarrow> ensure (\<not> b) Catalog_error) (\<lambda>_.
         rfold (relocate j) (filter (\<lambda>e. e_folder e = JStr i) es) t))) = Inr t1"
    unfolding delete_folder_def by (auto simp: rbind_ok Let_def map_err_ok)
  from m have "t1 = t \<or> (\<exists>j. rfold (relocate j) (filter (\<lambda>e. e_folder e = JStr i) es) t = Inr t1)"
    by (auto simp: rbind_ok split: option.splits)
  with 1 show ?thesis by (rule that)
qed

lemma delete_folder_writes:
  assumes "delete_folder i destination t = Inr (t', f)" and "tx_state t = Inr c"
  shows "\<exists>c'. writes t c c' t' \<and> reorganised c c'"
  using assms(1)
proof (rule delete_folder_D)
  fix c1 es t1 fs
  assume 1: "tx_state t = Inr c1" "tx_save (c1\<lparr>ca_folders := fs\<rparr>) t1 = Inr t'"
    "t1 = t \<or> (\<exists>j. rfold (relocate j) (filter (\<lambda>e. e_folder e = JStr i) es) t = Inr t1)"
  then have "snd t1 = snd t" "c1 = c" using assms(2) by (auto dest: relocated)
  with writes_saved [of "c\<lparr>ca_folders := fs\<rparr>" t1 t' t c] 1(2) show ?thesis
    by (intro exI [of _ "c\<lparr>ca_folders := fs\<rparr>"]) (simp add: reorganised_def)
qed

lemma set_entry_folder_writes:
  assumes "set_entry_folder e i t = Inr (t', r)" and "tx_state t = Inr c"
  shows "\<exists>c'. writes t c c' t' \<and> reorganised c c'"
proof -
  from assms have "snd t' = snd t" by (auto simp: set_entry_folder_def rbind_ok Let_def dest: tx_put_ok)
  then show ?thesis by (auto simp: writes_def reorganised_def)
qed

lemma save_reorganised:
  assumes "tx_save x t = Inr t'" and "reorganised c x"
  shows "\<exists>c'. writes t c c' t' \<and> reorganised c c'"
  using writes_saved [OF assms(1) refl] assms(2) by blast

lemma reorganised_simps [simp]: "reorganised c (c\<lparr>ca_folders := fs\<rparr>)" "reorganised c (c\<lparr>ca_projects := ps\<rparr>)"
    "reorganised c (c\<lparr>ca_scopes := ss\<rparr>)"
  by (simp_all add: reorganised_def)

lemmas save_organised = save_reorganised [OF _ reorganised_simps(1)] save_reorganised [OF _ reorganised_simps(2)]
  save_reorganised [OF _ reorganised_simps(3)]

lemma organising_writes:
  assumes "catalog_body C q t = Inr (t', r)" and "tx_state t = Inr c" and "organises q"
  shows "\<exists>c'. writes t c c' t' \<and> reorganised c c'"
  using assms
  by (cases q) (auto simp: without_result_def rbind_ok organises_def Let_def create_folder_def move_folder_def rename_folder_def
      create_project_def service_create_scope_def rename_project_def archive_project_def
      dest: set_entry_folder_writes delete_folder_writes save_organised)

section \<open>Assignments\<close>

definition bound_keys :: "catalog \<Rightarrow> (string \<times> string) set" where
  "bound_keys c = (\<lambda>b. (bi_scope b, bi_entry b)) ` set (ca_bindings c)"

text \<open>A change of the accounting: the keys that have to be published again, and no others.\<close>

definition accounts_for :: "(string \<times> string) set \<Rightarrow> catalog \<Rightarrow> catalog \<Rightarrow> bool" where
  "accounts_for K c c' \<longleftrightarrow> (intents_readable c \<longrightarrow> intents_readable c' \<and> (\<forall>k. if k \<in> K then bumped (account c k) (account c' k)
     else desired_in (account c' k) = desired_in (account c k) \<and> applied_in (account c' k) = applied_in (account c k)))"

lemma accounts_for_none: "account c' = account c \<Longrightarrow> intents_readable c' = intents_readable c \<Longrightarrow> accounts_for {} c c'"
  by (simp add: accounts_for_def)

lemma reorganised_accounts: "reorganised c c' \<Longrightarrow> accounts_for {} c c'"
  by (intro accounts_for_none account_same) (simp_all add: reorganised_def)

lemma append_accounts:
  assumes "append_publication_intent s e reason c1 = Inr c'" and "ca_intents c1 = ca_intents c" and "ca_dedup c1 = ca_dedup c"
  shows "accounts_for {(s, e)} c c'" and "ca_bindings c' = ca_bindings c1" and "ca_dedup c' = ca_dedup c"
proof -
  note a = append_intent [OF assms(1)] and m = account_same [OF assms(2,3)]
  show "accounts_for {(s, e)} c c'" using a(1,2,3) m by (simp add: accounts_for_def)
  have "ca_bindings c' = ca_bindings (c1\<lparr>ca_intents := ca_intents c'\<rparr>)" "ca_dedup c' = ca_dedup (c1\<lparr>ca_intents := ca_intents c'\<rparr>)"
    using a(4) by metis+
  then show "ca_bindings c' = ca_bindings c1" "ca_dedup c' = ca_dedup c" using assms(3) by simp_all
qed

lemma binding_made:
  assumes "scope_entry_from_dict (binding_dict s e n x w) = Inr b"
  shows "bi_scope b = s \<and> bi_entry b = e \<and> bi_local b = n \<and> bi_approval b = w"
proof -
  have "fld (binding_dict s e n x w) ''scope_id'' = JStr s" "fld (binding_dict s e n x w) ''entry_id'' = JStr e"
    "fld (binding_dict s e n x w) ''local_name'' = JStr n" "fld (binding_dict s e n x w) ''approval_revision'' = JStr w"
    by (simp_all add: binding_dict_def fld_def)
  with assms show ?thesis
    by (auto simp: scope_entry_from_dict_def rbind_ok ensure_ok sha256_text_ok validate_uuid4_ok catalog_text_ok)
qed

lemma assign_writes:
  assumes "assign_entry C s e l x t = Inr (t', b)" and "tx_state t = Inr c"
  obtains c' sc p en where "writes t c c' t'" and "accounts_for {(s, e)} c c'" and "ca_bindings c' = ca_bindings c @ [b]"
    and "bi_scope b = s" and "bi_entry b = e" and "the_scope c s = Inr sc" and "the_project c (sco_project sc) = Inr p"
    and "pr_state p = ''active''" and "tx_entry e t = Inr en" and "e_distribution en = JStr ''project_allowed''"
proof -
  from assms obtain sc p en c' where 1: "the_scope c s = Inr sc" "the_project c (sco_project sc) = Inr p" "pr_state p = ''active''"
    "tx_entry e t = Inr en" "e_distribution en = JStr ''project_allowed''"
    and b: "scope_entry_from_dict (binding_dict s e (name_or (e_name en) l) x (service_revision C t)) = Inr b"
    and a: "append_publication_intent s e ''entry_assigned'' (c\<lparr>ca_bindings := ca_bindings c @ [b]\<rparr>) = Inr c'"
    and sv: "tx_save c' t = Inr t'"
    unfolding assign_entry_def by (auto simp: rbind_ok ensure_ok map_err_ok)
  from append_accounts [OF a, of c] have "accounts_for {(s, e)} c c'" "ca_bindings c' = ca_bindings c @ [b]" by simp_all
  with 1 binding_made [OF b] writes_saved [OF sv refl] show ?thesis by (intro that [of c' sc p en]) simp_all
qed

lemma remove_binding:
  assumes "distinct (map (\<lambda>b. (bi_scope b, bi_entry b)) bs)" and "filter (\<lambda>b. bi_scope b = s \<and> bi_entry b = e) bs = b # bs'"
  shows "remove1 b bs = filter (\<lambda>b. \<not> (bi_scope b = s \<and> bi_entry b = e)) bs"
proof -
  have b: "b \<in> set bs" "bi_scope b = s" "bi_entry b = e" 
    using assms(2) [THEN arg_cong, of set] by auto
  have d: "distinct bs" using assms(1) by (simp add: distinct_map)
  then have "remove1 b bs = filter (\<lambda>x. x \<noteq> b) bs" by (simp add: distinct_remove1_removeAll removeAll_filter_not_eq eq_commute)
  also have "\<dots> = filter (\<lambda>b. \<not> (bi_scope b = s \<and> bi_entry b = e)) bs"
  proof (rule filter_cong [OF refl])
    fix x assume "x \<in> set bs"
    with b distinct_map_unique [OF assms(1), of x b] show "x \<noteq> b \<longleftrightarrow> \<not> (bi_scope x = s \<and> bi_entry x = e)" by auto
  qed
  finally show ?thesis .
qed

lemma tx_state_wf: "tx_state t = Inr c \<Longrightarrow> \<exists>ids. wf_catalog ids c"
  by (auto simp: tx_state_def rbind_ok map_err_ok dest: catalog_read)

lemma unassign_writes:
  assumes "unassign s e t = Inr (t', b)" and "tx_state t = Inr c"
  obtains c' where "writes t c c' t'" and "accounts_for {(s, e)} c c'"
    and "ca_bindings c' = filter (\<lambda>b. \<not> (bi_scope b = s \<and> bi_entry b = e)) (ca_bindings c)" and "tx_save c' t = Inr t'"
proof -
  from assms obtain bs c' where f: "filter (\<lambda>b. bi_scope b = s \<and> bi_entry b = e) (ca_bindings c) = b # bs"
    and a: "append_publication_intent s e ''entry_unassigned'' (c\<lparr>ca_bindings := remove1 b (ca_bindings c)\<rparr>) = Inr c'"
    and sv: "tx_save c' t = Inr t'"
    unfolding unassign_def by (auto simp: rbind_ok split: list.splits)
  from tx_state_wf [OF assms(2)] have d: "distinct (map (\<lambda>b. (bi_scope b, bi_entry b)) (ca_bindings c))" by (auto simp: wf_catalog_def)
  from append_accounts [OF a, of c] remove_binding [OF d f] writes_saved [OF sv refl] sv show ?thesis by (intro that [of c']) simp_all
qed

text \<open>The loop over the bindings of an entry.\<close>

lemma accounts_step:
  assumes "accounts_for K c c'" and "accounts_for L c' c''"
  shows "accounts_for (K \<union> L) c c''"
  unfolding accounts_for_def
proof (intro impI conjI allI)
  assume c: "intents_readable c"
  with assms have r: "intents_readable c'" "intents_readable c''" by (auto simp: accounts_for_def)
  then show "intents_readable c''" by simp
  fix k
  have "if k \<in> K then bumped (account c k) (account c' k)
     else desired_in (account c' k) = desired_in (account c k) \<and> applied_in (account c' k) = applied_in (account c k)"
    using assms(1) c unfolding accounts_for_def by blast
  moreover have "if k \<in> L then bumped (account c' k) (account c'' k)
     else desired_in (account c'' k) = desired_in (account c' k) \<and> applied_in (account c'' k) = applied_in (account c' k)"
    using assms(2) r(1) unfolding accounts_for_def by blast
  ultimately show "if k \<in> K \<union> L then bumped (account c k) (account c'' k)
     else desired_in (account c'' k) = desired_in (account c k) \<and> applied_in (account c'' k) = applied_in (account c k)"
    by (cases "k \<in> K"; cases "k \<in> L") (simp_all add: bumped_def)
qed

lemma distribution_loop:
  assumes "rfold (\<lambda>b c. if bi_entry b = e then append_publication_intent (bi_scope b) e reason c else Inr c) bs c = Inr c'"
  shows "accounts_for ((\<lambda>b. (bi_scope b, bi_entry b)) ` {b \<in> set bs. bi_entry b = e}) c c' \<and> ca_bindings c' = ca_bindings c"
  using assms
proof (induction bs arbitrary: c)
  case (Cons b bs)
  let ?f = "\<lambda>b c. if bi_entry b = e then append_publication_intent (bi_scope b) e reason c else Inr c"
  from Cons.prems obtain c1 where 1: "?f b c = Inr c1" "rfold ?f bs c1 = Inr c'" by (auto simp: rbind_ok)
  have s: "accounts_for ((\<lambda>b. (bi_scope b, bi_entry b)) ` {x. x = b \<and> bi_entry x = e}) c c1 \<and> ca_bindings c1 = ca_bindings c"
  proof (cases "bi_entry b = e")
    case True
    with 1(1) append_accounts [of "bi_scope b" e reason c c1 c] show ?thesis by (auto simp: conj_commute cong: conj_cong)
  next
    case False
    with 1(1) show ?thesis by (auto simp: accounts_for_def)
  qed
  have "((\<lambda>b. (bi_scope b, bi_entry b)) ` {x. x = b \<and> bi_entry x = e}) \<union> ((\<lambda>b. (bi_scope b, bi_entry b)) ` {b \<in> set bs. bi_entry b = e})
      = (\<lambda>b. (bi_scope b, bi_entry b)) ` {x \<in> set (b # bs). bi_entry x = e}" by auto
  with accounts_step [OF s [THEN conjunct1] Cons.IH [OF 1(2), THEN conjunct1]] s Cons.IH [OF 1(2)] show ?case by simp
qed (simp add: accounts_for_def)

lemma distribution_writes:
  assumes "set_entry_distribution e distribution t = Inr (t', r)" and "tx_state t = Inr c"
  obtains c' en where "writes t c c' t'" and "ca_bindings c' = ca_bindings c" and "tx_entry e t = Inr en"
    and "accounts_for (if e_distribution en = JStr distribution then {} else {k \<in> bound_keys c. snd k = e}) c c'"
proof -
  from assms obtain en where en: "tx_entry e t = Inr en" by (auto simp: set_entry_distribution_def rbind_ok)
  show ?thesis
  proof (cases "e_distribution en = JStr distribution")
    case True
    with assms en have "t' = t" by (auto simp: set_entry_distribution_def rbind_ok)
    with True en show ?thesis by (intro that [of c en]) (auto simp: writes_def accounts_for_def)
  next
    case False
    with assms en obtain t1 c' where 1: "tx_put (en\<lparr>e_distribution := JStr distribution\<rparr>) t = Inr t1"
      "rfold (\<lambda>b c. if bi_entry b = e then append_publication_intent (bi_scope b) e ''distribution_changed'' c else Inr c) (ca_bindings c) c = Inr c'"
      "tx_save c' t1 = Inr t'"
      by (auto simp: set_entry_distribution_def rbind_ok Let_def)
    have "(\<lambda>b. (bi_scope b, bi_entry b)) ` {b \<in> set (ca_bindings c). bi_entry b = e} = {k \<in> bound_keys c. snd k = e}"
      by (auto simp: bound_keys_def)
    with distribution_loop [OF 1(2)] writes_saved [OF 1(3) tx_put_ok [OF 1(1)]] en False show ?thesis
      by (intro that [of c' en]) simp_all
  qed
qed

section \<open>Drafts of journaled mutations\<close>

lemma binding_fields: "scope_entry_from_dict x = Inr b \<Longrightarrow> fld x ''scope_id'' = JStr (bi_scope b) \<and> fld x ''entry_id'' = JStr (bi_entry b)"
  by (auto simp: scope_entry_from_dict_def rbind_ok ensure_ok sha256_text_ok validate_uuid4_ok catalog_text_ok)

lemma bound_scopes_set:
  assumes "holds_catalog v c"
  shows "set (bound_scopes v e) = {s. (s, e_id e) \<in> bound_keys c}" and "distinct (bound_scopes v e)"
proof -
  from assms obtain ids where "catalog_from_dict ids v = Inr c" by (auto simp: holds_catalog_def)
  then have l: "list_all2 (\<lambda>x b. fld x ''scope_id'' = JStr (bi_scope b) \<and> fld x ''entry_id'' = JStr (bi_entry b))
      (items (fld v ''bindings'')) (ca_bindings c)"
    by (auto dest!: catalog_parts(4) simp: rmap_ok elim!: list_all2_mono dest: binding_fields)
  have "(\<exists>x \<in> set xs. fld x ''entry_id'' = JStr i \<and> s = text_of (fld x ''scope_id'')) \<longleftrightarrow> (\<exists>b \<in> set bs. bi_entry b = i \<and> s = bi_scope b)"
    if "list_all2 (\<lambda>x b. fld x ''scope_id'' = JStr (bi_scope b) \<and> fld x ''entry_id'' = JStr (bi_entry b)) xs bs" for xs bs i s
    using that by induction auto
  note m = this [OF l]
  show "set (bound_scopes v e) = {s. (s, e_id e) \<in> bound_keys c}"
  proof (rule set_eqI)
    fix s
    have "s \<in> set (bound_scopes v e) \<longleftrightarrow> (\<exists>x \<in> set (items (fld v ''bindings'')). fld x ''entry_id'' = JStr (e_id e) \<and> s = text_of (fld x ''scope_id''))"
      by (auto simp: bound_scopes_def)
    also have "\<dots> \<longleftrightarrow> s \<in> {s. (s, e_id e) \<in> bound_keys c}" unfolding m by (auto simp: bound_keys_def)
    finally show "s \<in> set (bound_scopes v e) \<longleftrightarrow> s \<in> {s. (s, e_id e) \<in> bound_keys c}" .
  qed
  show "distinct (bound_scopes v e)" by (simp add: bound_scopes_def)
qed

lemma drafted_accounts:
  assumes "holds_catalog v c" and "holds_catalog (catalog_with_intents v e (Some reason)) c'"
  shows "accounts_for {k \<in> bound_keys c. snd k = e_id e} c c'" and "ca_bindings c' = ca_bindings c"
proof -
  from assms(1) obtain i where c: "catalog_from_dict i v = Inr c" by (auto simp: holds_catalog_def)
  from assms(2) obtain j where c': "catalog_from_dict j (catalog_with_intents v e (Some reason)) = Inr c'" by (auto simp: holds_catalog_def)
  have v: "catalog_with_intents v e (Some reason) = add_intents (bound_scopes v e) e reason v"
    using catalog_parts(7) [OF c] by (auto simp: catalog_with_intents_def)
  have f: "fld (add_intents ss e reason v) k = (if k = ''publication_intents'' then
      JList (items (fld v ''publication_intents'') @ map (draft e reason) ss) else fld v k)" for ss k
    by (simp add: add_intents_def fld_def map_of_put draft_def [abs_def])
  note p = catalog_parts [OF c] and p' = catalog_parts [OF c', unfolded v]
  show b: "ca_bindings c' = ca_bindings c" using p(4) p'(4) by (simp add: f)
  have n: "ca_intents c' = ca_intents c @ map (draft e reason) (bound_scopes v e)" "ca_dedup c' = ca_dedup c"
    using p(5,6) p'(5,6) by (simp_all add: f)
  show "accounts_for {k \<in> bound_keys c. snd k = e_id e} c c'"
    unfolding accounts_for_def
  proof (intro impI conjI allI)
    assume r: "intents_readable c"
    note a = append_drafts [OF r n bound_scopes_set(2) [OF assms(1)], unfolded bound_scopes_set(1) [OF assms(1)]]
    show "intents_readable c'" by (rule a(1))
    fix k
    show "if k \<in> {k \<in> bound_keys c. snd k = e_id e} then bumped (account c k) (account c' k)
       else desired_in (account c' k) = desired_in (account c k) \<and> applied_in (account c' k) = applied_in (account c k)"
    proof (cases "k \<in> bound_keys c \<and> snd k = e_id e")
      case True
      with a(2) [of "fst k"] show ?thesis by (cases k) auto
    next
      case False
      then have "account c' (fst k, snd k) = account c (fst k, snd k)" by (intro a(3)) (cases k; auto)
      with False show ?thesis by auto
    qed
  qed
qed

section \<open>Captures and acknowledgements\<close>

lemma capture_writes:
  assumes "capture_publications s t = Inr (t', captured)" and "tx_state t = Inr c"
  obtains c' "is" changed where "writes t c c' t'" and "account c' = account c" and "intents_readable c" and "intents_readable c'"
    and "ca_bindings c' = ca_bindings c" and "compact_publication_intents c = Inr (is, changed)" and "captured = captured_from s is"
proof -
  from assms obtain "is" ch where i: "compact_publication_intents c = Inr (is, ch)" and cap: "captured = captured_from s is"
    and sv: "(if ch then tx_save (c\<lparr>ca_intents := map intent_dict is\<rparr>) t else Inr t) = Inr t'"
    unfolding capture_publications_def by (auto simp: rbind_ok split: prod.splits if_splits)
  have r: "intents_readable c" by (simp add: intents_readable_def i)
  show ?thesis
  proof (cases ch)
    case True
    let ?c = "c\<lparr>ca_intents := map intent_dict is\<rparr>"
    have "account ?c = account c" "intents_readable ?c" by (rule compact_written [OF i]; simp)+
    with True sv r i cap show ?thesis by (intro that [of ?c "is" ch]) (auto dest: writes_saved)
  next
    case False
    with sv r i cap show ?thesis by (intro that [of c "is" ch]) (auto simp: writes_def)
  qed
qed

lemma captured_lookup:
  assumes "compact_publication_intents c = Inr (is, changed)"
  shows "map_of (captured_from s is) e = (if awaits (account c (s, e)) then Some (desired_in (account c (s, e))) else None)"
proof -
  have "map_of (captured_from s js) e = (case keyed js (s, e) of None \<Rightarrow> None
      | Some i \<Rightarrow> if in_applied i < in_desired i then Some (in_desired i) else None)" if "distinct (map in_key js)" for js
    using that
  proof (induction js)
    case (Cons j js)
    have n: "keyed js (s, e) = None" if "in_key j = (s, e)" using Cons.prems that by (simp add: keyed_None)
    show ?case
    proof (cases "in_key j = (s, e)")
      case True
      with Cons n show ?thesis by (auto simp: captured_from_def keyed_def in_key_def)
    next
      case False
      with Cons show ?thesis by (auto simp: captured_from_def keyed_def in_key_def)
    qed
  qed (simp add: captured_from_def keyed_def)
  from this [of "is"] compact_result(1) [OF assms] show ?thesis
    by (auto simp: compact_form_def account_compact [OF assms] awaits_def split: option.split)
qed

lemma mark_writes:
  assumes "mark_publications_applied s captured t = Inr (t', r)" and "tx_state t = Inr c"
  obtains c' where "writes t c c' t'" and "\<And>k. account c' k = map_option (acknowledge_revision s captured) (account c k)"
    and "intents_readable c'" and "ca_bindings c' = ca_bindings c"
proof -
  from assms obtain "is" ch where i: "compact_publication_intents c = Inr (is, ch)"
    and sv: "tx_save (c\<lparr>ca_intents := map intent_dict (map (acknowledge_revision s captured) is)\<rparr>) t = Inr t'"
    unfolding mark_publications_applied_def by (auto simp: rbind_ok)
  let ?c = "c\<lparr>ca_intents := map intent_dict (map (acknowledge_revision s captured) is)\<rparr>"
  have "account ?c k = map_option (acknowledge_revision s captured) (account c k)" "intents_readable ?c" for k
    using acknowledge_written [OF i, of ?c s captured] by simp_all
  with writes_saved [OF sv refl] show ?thesis by (intro that [of ?c]) simp_all
qed

end
