(* ===== verification/Catalog_Trace.thy ===== *)
theory Catalog_Trace
  imports Catalog_Changes
begin

text \<open>
  Sequences of requests to the catalog service: the store stays valid, only an assignment shares
  an entry, and after an acknowledged publication exactly the later changes await the next one.
\<close>

section \<open>What a request publishes\<close>

definition publishes :: "catalog_request \<Rightarrow> metadata \<Rightarrow> (string \<times> string) set" where
  "publishes q d = (case read_catalog_state d of Inl _ \<Rightarrow> {} | Inr c \<Rightarrow>
     (case q of CaAssign s e _ _ \<Rightarrow> {(s, e)} | CaUnassign s e \<Rightarrow> {(s, e)}
      | CaDistribution e distribution \<Rightarrow>
          (case store_get_by_id e d of
             Inr (Some en) \<Rightarrow> if e_distribution en = JStr distribution then {} else {k \<in> bound_keys c. snd k = e}
           | _ \<Rightarrow> {})
      | CaChanged e _ \<Rightarrow> {k \<in> bound_keys c. snd k = e_id e}
      | _ \<Rightarrow> {}))"

definition is_mark :: "catalog_request \<Rightarrow> bool" where
  "is_mark q = (case q of CaMark _ _ \<Rightarrow> True | _ \<Rightarrow> False)"

text \<open>The entry may be shared with the scope.\<close>

definition shareable :: "metadata \<Rightarrow> string \<Rightarrow> string \<Rightarrow> bool" where
  "shareable d s e \<longleftrightarrow> (\<exists>en c sc p. store_get_by_id e d = Inr (Some en) \<and> e_distribution en = JStr ''project_allowed''
     \<and> read_catalog_state d = Inr c \<and> the_scope c s = Inr sc \<and> the_project c (sco_project sc) = Inr p \<and> pr_state p = ''active'')"

definition bindings_after :: "catalog_request \<Rightarrow> metadata \<Rightarrow> scope_entry list \<Rightarrow> scope_entry list \<Rightarrow> bool" where
  "bindings_after q d bs bs' = (case q of
       CaAssign s e _ _ \<Rightarrow> \<exists>b. bs' = bs @ [b] \<and> bi_scope b = s \<and> bi_entry b = e \<and> shareable d s e
     | CaUnassign s e \<Rightarrow> bs' = filter (\<lambda>b. \<not> (bi_scope b = s \<and> bi_entry b = e)) bs
     | _ \<Rightarrow> bs' = bs)"

section \<open>One request\<close>

lemma step_opens:
  assumes "catalog_step C fresh q d = Inr (d', r)" and "valid_store d"
  obtains c t' where "catalog_body C q (opened d) = Inr (t', r)" and "commit_slots fresh (fst t') (snd t') = Inr d'"
    and "tx_state (opened d) = Inr c" and "read_catalog_state d = Inr c" and "precheck q = Inr ()"
proof -
  from assms obtain t' where b: "catalog_body C q (opened d) = Inr (t', r)" and m: "commit_slots fresh (fst t') (snd t') = Inr d'"
    and p: "precheck q = Inr ()"
    by (auto simp: catalog_step_def in_transaction_def rbind_ok map_err_ok opened_def)
  have "3 \<le> md_version (snd (opened d))"
  proof (cases "\<exists>e reason. q = CaChanged e reason")
    case True
    with b show ?thesis by (auto simp: without_result_def draft_publication_def catalog_state_def rbind_ok map_err_ok ensure_ok)
  next
    case False
    with b obtain c where "tx_state (opened d) = Inr c"
      by (cases q) (auto simp: without_result_def rbind_ok create_folder_def move_folder_def rename_folder_def set_entry_folder_def
          delete_folder_def create_project_def service_create_scope_def rename_project_def archive_project_def assign_entry_def
          set_entry_distribution_def unassign_def capture_publications_def mark_publications_applied_def)
    then show ?thesis by (rule tx_state_version)
  qed
  with valid_reads [OF assms(2)] opened_reads [OF assms(2)] obtain c where "read_catalog_state d = Inr c" by metis
  with b m p opened_reads(3) [OF assms(2)] show ?thesis by (intro that [of t' c]) simp_all
qed

lemma organising_step:
  assumes "organises q"
  shows "publishes q d = {}" and "bindings_after q d bs bs' \<longleftrightarrow> bs' = bs"
  using assms by (auto simp: organises_def publishes_def bindings_after_def split: catalog_request.splits sum.splits)

lemma changed_step:
  assumes "catalog_body C (CaChanged e reason) (opened d) = Inr (t', r)" and "valid_store d" and "tx_state (opened d) = Inr c"
    and "commit_slots fresh (fst t') (snd t') = Inr d'"
  obtains c' where "valid_store d'" and "read_catalog_state d' = Inr c'" and "ca_bindings c' = ca_bindings c"
    and "accounts_for {k \<in> bound_keys c. snd k = e_id e} c c'"
proof -
  note o = opened_reads [OF assms(2)] and d' = committed [OF assms(4)]
  from assms(1) have t': "snd t' = d\<lparr>md_catalog := Some (catalog_with_intents (the (md_catalog d)) e (Some reason))\<rparr>" "3 \<le> md_version d"
    by (auto simp: without_result_def draft_publication_def catalog_state_def rbind_ok map_err_ok ensure_ok o(4))
  with d' have "3 \<le> md_version d'" by simp
  from valid_reads [OF d'(1) this] obtain c' where c': "read_catalog_state d' = Inr c'" "holds_catalog (the (md_catalog d')) c'" by metis
  have "holds_catalog (the (md_catalog d)) c" using tx_state_holds [OF assms(3)] by (simp add: o(4))
  from drafted_accounts [OF this] c' d'(1,2) t'(1) show ?thesis by (intro that [of c']) auto
qed

lemma step_catalog:
  assumes "catalog_step C fresh q d = Inr (d', r)" and "valid_store d"
  obtains c c' where "valid_store d'" and "read_catalog_state d = Inr c" and "read_catalog_state d' = Inr c'"
    and "bindings_after q d (ca_bindings c) (ca_bindings c')" and "\<not> is_mark q \<Longrightarrow> accounts_for (publishes q d) c c'"
proof -
  from assms obtain c t' where b: "catalog_body C q (opened d) = Inr (t', r)" and m: "commit_slots fresh (fst t') (snd t') = Inr d'"
    and t: "tx_state (opened d) = Inr c" and c: "read_catalog_state d = Inr c" by (rule step_opens)
  note goal = that
  have finish: thesis if "writes (opened d) c c' t'" "bindings_after q d (ca_bindings c) (ca_bindings c')"
      "\<not> is_mark q \<Longrightarrow> accounts_for (publishes q d) c c'" for c'
    using written_read [OF that(1) c assms(2) m] c that(2,3) by (intro goal [of c c']) auto
  show thesis
  proof (cases "organises q")
    case True
    from organising_writes [OF b t True] obtain c' where w: "writes (opened d) c c' t'" "reorganised c c'" by blast
    show thesis
      by (rule finish [OF w(1)])
        (use w(2) reorganised_accounts [OF w(2)] in \<open>auto simp: organising_step [OF True] reorganised_def\<close>)
  next
    case False
    then consider (assign) s e l x where "q = CaAssign s e l x" | (distribution) e x where "q = CaDistribution e x"
      | (unassign) s e where "q = CaUnassign s e" | (changed) e reason where "q = CaChanged e reason"
      | (capture) s where "q = CaCapture s" | (mark) s x where "q = CaMark s x"
      by (cases q) (auto simp: organises_def)
    then show thesis
    proof cases
      case assign
      with b obtain bd where "assign_entry C s e l x (opened d) = Inr (t', bd)" by (auto simp: without_result_def rbind_ok)
      from this t obtain c' sc p en where w: "writes (opened d) c c' t'" "accounts_for {(s, e)} c c'" "ca_bindings c' = ca_bindings c @ [bd]"
        "bi_scope bd = s" "bi_entry bd = e" "the_scope c s = Inr sc" "the_project c (sco_project sc) = Inr p" "pr_state p = ''active''"
        "tx_entry e (opened d) = Inr en" "e_distribution en = JStr ''project_allowed''" by (rule assign_writes)
      have "shareable d s e"
        unfolding shareable_def using tx_entry_found [OF assms(2) t w(9)] w(6-8,10) c by blast
      with w assign c show thesis by (intro finish [OF w(1)]) (auto simp: bindings_after_def publishes_def)
    next
      case distribution
      with b obtain en where "set_entry_distribution e x (opened d) = Inr (t', en)" by (auto simp: without_result_def rbind_ok)
      from this t obtain c' en' where w: "writes (opened d) c c' t'" "ca_bindings c' = ca_bindings c" "tx_entry e (opened d) = Inr en'"
        "accounts_for (if e_distribution en' = JStr x then {} else {k \<in> bound_keys c. snd k = e}) c c'" by (rule distribution_writes)
      have "publishes q d = (if e_distribution en' = JStr x then {} else {k \<in> bound_keys c. snd k = e})"
        using tx_entry_found [OF assms(2) t w(3)] c by (simp add: publishes_def distribution)
      with w distribution show thesis by (intro finish [OF w(1)]) (auto simp: bindings_after_def)
    next
      case unassign
      with b obtain bd where "unassign s e (opened d) = Inr (t', bd)" by (auto simp: without_result_def rbind_ok)
      from this t obtain c' where w: "writes (opened d) c c' t'" "accounts_for {(s, e)} c c'"
        "ca_bindings c' = filter (\<lambda>b. \<not> (bi_scope b = s \<and> bi_entry b = e)) (ca_bindings c)" by (rule unassign_writes)
      with unassign c show thesis by (intro finish [OF w(1)]) (auto simp: bindings_after_def publishes_def)
    next
      case changed
      from b [unfolded changed] assms(2) t m obtain c' where w: "valid_store d'" "read_catalog_state d' = Inr c'" "ca_bindings c' = ca_bindings c"
        "accounts_for {k \<in> bound_keys c. snd k = e_id e} c c'" by (rule changed_step)
      with c changed show thesis by (intro goal [of c c']) (auto simp: bindings_after_def publishes_def)
    next
      case capture
      with b have "capture_publications s (opened d) = Inr (t', r)" by simp
      from this t obtain c' "is" ch where w: "writes (opened d) c c' t'" "account c' = account c" "intents_readable c" "intents_readable c'"
        "ca_bindings c' = ca_bindings c" by (rule capture_writes)
      with capture c show thesis
        by (intro finish [OF w(1)]) (auto simp: bindings_after_def publishes_def intro: accounts_for_none)
    next
      case mark
      with b obtain u where "mark_publications_applied s x (opened d) = Inr (t', u)" by (auto simp: without_result_def rbind_ok)
      from this t obtain c' where w: "writes (opened d) c c' t'" "ca_bindings c' = ca_bindings c" by (rule mark_writes)
      with mark show thesis by (intro finish [OF w(1)]) (auto simp: bindings_after_def is_mark_def)
    qed
  qed
qed

section \<open>Entries\<close>

text \<open>The service moves entries and changes who may see them; it never adds, renames or deletes one.\<close>

definition same_records :: "json list \<Rightarrow> json list \<Rightarrow> bool" where
  "same_records rs rs' \<longleftrightarrow> map rec_id rs' = map rec_id rs \<and> map rec_name rs' = map rec_name rs"

lemma put_same_records:
  assumes "tx_put e t = Inr t'" and "slots_ok (fst t)" and "same_records rs (materialize (fst t))" and "unique_records rs"
    and "\<exists>r \<in> set rs. rec_id r = e_id e \<and> rec_name r = e_name e"
  shows "slots_ok (fst t') \<and> same_records rs (materialize (fst t'))"
proof -
  let ?ms = "materialize (fst t)"
  from assms(1) have "tx_update e (fst t) = Inr (fst t')" by (auto simp: tx_put_def rbind_ok map_err_ok)
  with tx_update_refines [OF assms(2), of e] have ok: "slots_ok (fst t')" and l: "list_update_entry e ?ms = Inr (materialize (fst t'))"
    by (simp_all add: refines_def)
  from l obtain i where i: "i < length ?ms" "rec_id (?ms ! i) = e_id e" and m: "materialize (fst t') = ?ms[i := entry_to_dict e]"
    by (auto simp: list_update_entry_def rbind_ok dest: position_Some split: option.splits if_splits)
  have n: "length ?ms = length rs" "rec_id (?ms ! j) = rec_id (rs ! j)" "rec_name (?ms ! j) = rec_name (rs ! j)" if "j < length rs" for j
    using assms(3) that unfolding same_records_def list_eq_iff_nth_eq by auto
  have len: "length ?ms = length rs" using assms(3) by (metis same_records_def length_map)
  from assms(5) obtain k where k: "k < length rs" "rec_id (rs ! k) = e_id e" "rec_name (rs ! k) = e_name e"
    by (auto simp: in_set_conv_nth)
  have "map rec_id rs ! i = map rec_id rs ! k" using i k n [of i] len by simp
  with assms(4) i(1) k(1) len nth_eq_iff_index_eq [of "map rec_id rs" i k] have "i = k" by (simp add: unique_records_def)
  with k m i len assms(3) have "same_records rs (materialize (fst t'))"
    by (auto simp: same_records_def map_update list_update_same_conv intro!: list_update_same_conv [THEN iffD2])
  with ok show ?thesis by simp
qed

definition keeps_records :: "metadata \<Rightarrow> tx \<Rightarrow> bool" where
  "keeps_records d t \<longleftrightarrow> slots_ok (fst t) \<and> same_records (md_entries d) (materialize (fst t)) \<and> md_tombstones (snd t) = md_tombstones d"

lemma put_kept:
  assumes "tx_put e t = Inr t'" and "keeps_records d t" and "unique_records (md_entries d)"
    and "\<exists>r \<in> set (md_entries d). rec_id r = e_id e \<and> rec_name r = e_name e"
  shows "keeps_records d t'"
  using put_same_records [OF assms(1) _ _ assms(3,4)] tx_put_ok [OF assms(1)] assms(2) by (simp add: keeps_records_def)

lemma save_kept: "tx_save c t = Inr t' \<Longrightarrow> keeps_records d t \<Longrightarrow> keeps_records d t'"
  by (drule tx_save_ok) (simp add: keeps_records_def)

lemma tx_entry_record:
  assumes "tx_entry i t = Inr e" and "slots_ok (fst t)"
  shows "\<exists>r \<in> set (materialize (fst t)). rec_id r = e_id e \<and> rec_name r = e_name e"
proof -
  from assms(1) obtain k where k: "sl_by_id (fst t) i = Some k" "entry_from_dict (the (sl_records (fst t) k)) = Inr e"
    by (auto simp: tx_entry_def tx_get_by_id_def tx_get_def rbind_ok map_err_ok split: option.splits)
  from slots_okD(5) [OF assms(2)] k(1) obtain r where "sl_records (fst t) k = Some r" by blast
  with k(2) set_materialize [OF assms(2)] show ?thesis by (force dest: entry_from_dict_names)
qed

lemma tx_list_records:
  assumes "tx_list s = Inr es" and "e \<in> set es"
  shows "\<exists>r \<in> set (materialize s). rec_id r = e_id e \<and> rec_name r = e_name e"
  using assms rmap_set [of entry_from_dict "materialize s" es e] by (force simp: tx_list_def map_err_ok dest: entry_from_dict_names)

lemma opened_kept:
  assumes "valid_store d"
  shows "keeps_records d (opened d)" and "materialize (fst (opened d)) = md_entries d"
  using reset_entries_ok [OF valid_store_unique [OF assms]] by (simp_all add: keeps_records_def opened_def same_records_def)

lemma delete_folder_kept:
  assumes "delete_folder i destination (opened d) = Inr (t', f)" and "valid_store d"
  shows "keeps_records d t'"
  using assms(1)
proof (rule delete_folder_D)
  fix c es t1 fs
  assume l: "tx_list (fst (opened d)) = Inr es" and sv: "tx_save (c\<lparr>ca_folders := fs\<rparr>) t1 = Inr t'"
    and m: "t1 = opened d \<or> (\<exists>j. rfold (relocate j) (filter (\<lambda>e. e_folder e = JStr i) es) (opened d) = Inr t1)"
  note o = opened_kept [OF assms(2)] valid_store_unique [OF assms(2)]
  have "keeps_records d t1"
    using m
  proof
    assume "\<exists>j. rfold (relocate j) (filter (\<lambda>e. e_folder e = JStr i) es) (opened d) = Inr t1"
    then obtain j where "rfold (relocate j) (filter (\<lambda>e. e_folder e = JStr i) es) (opened d) = Inr t1" ..
    then show ?thesis
    proof (rule rfold_invariant [where P = "keeps_records d"])
      show "keeps_records d (opened d)" by (rule o(1))
      fix e t t2 assume "e \<in> set (filter (\<lambda>e. e_folder e = JStr i) es)" "keeps_records d t" "relocate j e t = Inr t2"
      with tx_list_records [OF l, of e] put_kept [of "e\<lparr>e_folder := JStr j\<rparr>" t t2 d] o(2,3) show "keeps_records d t2"
        by (simp add: relocate_def)
    qed
  qed (use o in simp)
  with sv show ?thesis by (rule save_kept)
qed

lemma body_kept:
  assumes "catalog_body C q (opened d) = Inr (t', r)" and "valid_store d"
  shows "keeps_records d t'"
proof -
  note o = opened_kept [OF assms(2)] valid_store_unique [OF assms(2)] opened_reads(1) [OF assms(2)]
  have put: "keeps_records d t1" if "tx_entry i (opened d) = Inr e" "tx_put e' (opened d) = Inr t1" "e_id e' = e_id e" "e_name e' = e_name e" for i e e' t1
    using put_kept [OF that(2) o(1,3)] tx_entry_record [OF that(1) o(4)] that(3,4) o(2) by simp
  have save: "keeps_records d t1" if "tx_save c (opened d) = Inr t1" for c t1 using save_kept [OF that] o(1) by simp
  show ?thesis
  proof (cases q)
    case (CaSetFolder e i)
    with assms(1) show ?thesis by (auto simp: without_result_def set_entry_folder_def rbind_ok Let_def intro: put)
  next
    case (CaDeleteFolder i destination)
    with assms show ?thesis by (auto simp: without_result_def rbind_ok dest: delete_folder_kept)
  next
    case (CaDistribution e x)
    with assms(1) o(1) show ?thesis
      by (auto simp: without_result_def set_entry_distribution_def rbind_ok Let_def split: if_splits intro: put elim!: save_kept)
  next
    case (CaChanged e reason)
    with assms(1) o(1) show ?thesis by (auto simp: without_result_def draft_publication_def rbind_ok keeps_records_def)
  next
    case (CaCapture s)
    with assms(1) o(1) show ?thesis by (auto simp: capture_publications_def rbind_ok split: if_splits intro: save)
  next
    case (CaMark s x)
    with assms(1) show ?thesis by (auto simp: without_result_def mark_publications_applied_def rbind_ok intro: save)
  next
    case (CaAssign s e l x)
    with assms(1) show ?thesis by (auto simp: without_result_def assign_entry_def rbind_ok intro: save)
  next
    case (CaUnassign s e)
    with assms(1) obtain b where "unassign s e (opened d) = Inr (t', b)" by (auto simp: without_result_def rbind_ok)
    moreover from this obtain c where "tx_state (opened d) = Inr c" by (auto simp: unassign_def rbind_ok)
    ultimately show ?thesis by (rule unassign_writes) (rule save)
  qed (use assms(1) in \<open>auto simp: without_result_def rbind_ok Let_def create_folder_def move_folder_def rename_folder_def
      create_project_def service_create_scope_def rename_project_def archive_project_def intro: save\<close>)
qed

lemma step_keeps_entries:
  assumes "catalog_step C fresh q d = Inr (d', r)" and "valid_store d"
  shows "same_records (md_entries d) (md_entries d') \<and> md_tombstones d' = md_tombstones d"
proof -
  from assms obtain c t' where b: "catalog_body C q (opened d) = Inr (t', r)" and m: "commit_slots fresh (fst t') (snd t') = Inr d'"
    and t: "tx_state (opened d) = Inr c" and c: "read_catalog_state d = Inr c" by (rule step_opens)
  from finish_write_ids [OF m [unfolded commit_slots_def]] finish_write_valid(2) [OF m [unfolded commit_slots_def]] body_kept [OF b assms(2)]
  show ?thesis by (simp add: keeps_records_def same_records_def)
qed

definition same_entries :: "metadata \<Rightarrow> metadata \<Rightarrow> bool" where
  "same_entries d d' \<longleftrightarrow> same_records (md_entries d) (md_entries d') \<and> md_tombstones d' = md_tombstones d"

interpretation catalog_service: transactional "catalog_step C fresh" valid_store same_entries for C fresh
proof
  show "valid_store d' \<and> same_entries d d'" if "valid_store d" "catalog_step C fresh q d = Inr (d', r)" for d q d' r
    using step_keeps_entries [OF that(2,1)] that by (auto simp: same_entries_def elim: step_catalog)
qed (auto simp: same_entries_def same_records_def)

section \<open>Folders\<close>

definition parents_in :: "catalog \<Rightarrow> (string \<times> string option) list" where
  "parents_in c = map (\<lambda>f. (fo_id f, fo_parent f)) (ca_folders c)"

lemma ancestor_walk:
  assumes "height ps x n"
  shows "has_ancestor ps (Some x) y = Some (x = y \<or> (x, y) \<in> {(a, b). map_of ps a = Some (Some b)}\<^sup>+)"
  using assms
proof (induction rule: height.induct)
  case (root ps x)
  then have "(x, y) \<notin> {(a, b). map_of ps a = Some (Some b)}\<^sup>+" by (auto elim: converse_tranclE)
  with root show ?case by (simp add: has_ancestor.simps)
next
  case (step ps x p n)
  have "(x, y) \<in> {(a, b). map_of ps a = Some (Some b)}\<^sup>+ \<longleftrightarrow> p = y \<or> (p, y) \<in> {(a, b). map_of ps a = Some (Some b)}\<^sup>+"
    using step.hyps(1) by (auto elim: converse_tranclE intro: trancl_into_trancl2)
  with step show ?case by (simp add: has_ancestor.simps [of ps "Some x"])
qed

lemma descendant_walk:
  assumes "wf_catalog ids c"
  shows "is_descendant c x y = Some ((x, y) \<in> (parent_of (ca_folders c))\<^sup>+)"
proof (cases "map_of (parents_in c) x")
  case None
  then have "(x, y) \<notin> (parent_of (ca_folders c))\<^sup>+" by (auto simp: parent_of_def parents_in_def elim: converse_tranclE)
  with None show ?thesis by (simp add: is_descendant_def parents_in_def has_ancestor.simps [of _ None])
next
  case (Some p)
  then obtain f where f: "f \<in> set (ca_folders c)" "fo_id f = x" by (auto simp: parents_in_def dest!: map_of_SomeD)
  with assms obtain n where n: "height (parents_in c) x n" by (auto simp: wf_catalog_def forest_def rooted_def parents_in_def)
  have r: "parent_of (ca_folders c) = {(a, b). map_of (parents_in c) a = Some (Some b)}" by (simp add: parent_of_def parents_in_def)
  show ?thesis
  proof (cases p)
    case None
    with Some have "(x, y) \<notin> (parent_of (ca_folders c))\<^sup>+" by (auto simp: r elim: converse_tranclE)
    with Some None show ?thesis by (simp add: is_descendant_def parents_in_def has_ancestor.simps [of _ None])
  next
    case (Some q)
    with \<open>map_of (parents_in c) x = Some p\<close> have q: "map_of (parents_in c) x = Some (Some q)" by simp
    with n obtain m where "height (parents_in c) q m" by (auto simp: height_up(2))
    note w = ancestor_walk [OF this, of y]
    have "(x, y) \<in> (parent_of (ca_folders c))\<^sup>+ \<longleftrightarrow> q = y \<or> (q, y) \<in> (parent_of (ca_folders c))\<^sup>+"
      unfolding r using q by (auto elim: converse_tranclE intro: trancl_into_trancl2)
    with w q show ?thesis by (simp add: is_descendant_def parents_in_def [symmetric] r)
  qed
qed

section \<open>Sharing\<close>

definition all_bindings :: "metadata \<Rightarrow> scope_entry list" where
  "all_bindings d = (case list_bindings None None d of Inl _ \<Rightarrow> [] | Inr bs \<Rightarrow> bs)"

lemma all_bindings_catalog: "read_catalog_state d = Inr c \<Longrightarrow> all_bindings d = ca_bindings c"
  by (simp add: all_bindings_def list_bindings_def)

lemma step_bindings:
  assumes "catalog_step C fresh q d = Inr (d', r)" and "valid_store d"
  shows "bindings_after q d (all_bindings d) (all_bindings d')"
  using assms by (rule step_catalog) (simp add: all_bindings_catalog)

section \<open>Sequences of requests\<close>

primrec republished :: "crypto \<Rightarrow> (nat \<Rightarrow> string) \<Rightarrow> catalog_request list \<Rightarrow> metadata \<Rightarrow> (string \<times> string) set" where
  "republished C fresh [] d = {}"
| "republished C fresh (q # qs) d =
     (case catalog_step C fresh q d of Inl _ \<Rightarrow> republished C fresh qs d
      | Inr (d', _) \<Rightarrow> publishes q d \<union> republished C fresh qs d')"

lemma run_accounts:
  assumes "valid_store d" and "read_catalog_state d = Inr c" and "list_all (\<lambda>q. \<not> is_mark q) qs"
  shows "valid_store (run (catalog_step C fresh) qs d) \<and> (\<exists>c'. read_catalog_state (run (catalog_step C fresh) qs d) = Inr c'
    \<and> accounts_for (republished C fresh qs d) c c')"
  using assms
proof (induction qs arbitrary: d c)
  case (Cons q qs)
  show ?case
  proof (cases "catalog_step C fresh q d")
    case (Inl x)
    with Cons show ?thesis by (simp add: commit_def)
  next
    case (Inr p)
    obtain d' r where p: "p = (d', r)" by force
    from step_catalog [OF Inr [unfolded p] Cons.prems(1)] obtain c0 c' where 1: "valid_store d'" "read_catalog_state d = Inr c0" "read_catalog_state d' = Inr c'"
      "\<not> is_mark q \<Longrightarrow> accounts_for (publishes q d) c0 c'" by metis
    with Cons.prems have "accounts_for (publishes q d) c c'" by simp
    moreover from Cons.IH [OF 1(1,3)] Cons.prems(3) obtain c'' where
      "valid_store (run (catalog_step C fresh) qs d')" "read_catalog_state (run (catalog_step C fresh) qs d') = Inr c''"
      "accounts_for (republished C fresh qs d') c' c''" by auto
    ultimately show ?thesis using accounts_step [of "publishes q d" c c' "republished C fresh qs d'" c''] by (simp add: Inr p commit_def)
  qed
qed (simp add: accounts_for_def)

section \<open>Publications\<close>

definition awaits_publication :: "metadata \<Rightarrow> string \<Rightarrow> string \<Rightarrow> bool" where
  "awaits_publication d s e = (case publication_intents (Some s) d of Inl _ \<Rightarrow> False
     | Inr is \<Rightarrow> \<exists>i \<in> set is. in_entry i = e \<and> in_applied i < in_desired i)"

lemma awaits_account:
  assumes "read_catalog_state d = Inr c" and "intents_readable c"
  shows "awaits_publication d s e \<longleftrightarrow> awaits (account c (s, e))"
proof -
  from assms(2) obtain "is" ch where i: "compact_publication_intents c = Inr (is, ch)"
    by (auto simp: intents_readable_def is_ok_iff)
  note cf = compact_result(1) [OF i]
  have p: "publication_intents (Some s) d = Inr (filter (\<lambda>i. s = in_scope i) is)"
    by (simp add: publication_intents_def assms(1) i)
  have "(\<exists>i \<in> set is. in_key i = (s, e) \<and> in_applied i < in_desired i) \<longleftrightarrow> awaits (keyed is (s, e))"
    using keyed_mem [OF cf] keyed_Some [of "is" "(s, e)"] by (cases "keyed is (s, e)") (fastforce simp: awaits_def)+
  then show ?thesis by (auto simp: awaits_publication_def p account_compact [OF i] in_key_def)
qed

definition as_captured :: "(string \<times> int) list \<Rightarrow> json" where
  "as_captured captured = JObj (map (\<lambda>(e, i). (e, JInt i)) captured)"

lemma fld_captured: "fld (as_captured captured) e = (case map_of captured e of None \<Rightarrow> JNull | Some i \<Rightarrow> JInt i)"
  by (simp add: as_captured_def fld_def map_of_map_snd split: option.split)

lemma awaits_acknowledged:
  assumes "fld captured e = (if awaits a then JInt (desired_in a) else JNull)"
    and "if K then bumped a b else desired_in b = desired_in a \<and> applied_in b = applied_in a"
    and "\<And>i. a = Some i \<Longrightarrow> well_numbered i" and "\<And>i. b = Some i \<Longrightarrow> in_key i = (s, e)"
  shows "awaits (map_option (acknowledge_revision s captured) b) \<longleftrightarrow> K"
proof (cases b)
  case None
  with assms(2,3) show ?thesis by (cases a) (auto simp: awaits_def bumped_def well_numbered_def split: if_splits)
next
  case (Some i)
  then have k: "in_scope i = s" "in_entry i = e" using assms(4) by (simp_all add: in_key_def)
  show ?thesis
    using assms(1-3) Some k
    by (cases a; cases K) (auto simp: awaits_def bumped_def well_numbered_def acknowledge_revision_def split: if_splits)
qed

lemma publication_round:
  assumes "valid_store d" and "catalog_step C fresh (CaCapture s) d = Inr (d1, captured)" and "list_all (\<lambda>q. \<not> is_mark q) qs"
    and "catalog_step C fresh (CaMark s (as_captured captured)) (run (catalog_step C fresh) qs d1) = Inr (d2, r)"
  shows "awaits_publication d2 s e \<longleftrightarrow> (s, e) \<in> republished C fresh qs d1"
proof -
  let ?d = "run (catalog_step C fresh) qs d1"
  from assms(2,1) obtain c t' where b: "catalog_body C (CaCapture s) (opened d) = Inr (t', captured)"
    and m: "commit_slots fresh (fst t') (snd t') = Inr d1" and t: "tx_state (opened d) = Inr c" and c: "read_catalog_state d = Inr c"
    by (rule step_opens)
  from b have "capture_publications s (opened d) = Inr (t', captured)" by simp
  from this t obtain c1 "is" ch where w: "writes (opened d) c c1 t'" "account c1 = account c" "intents_readable c1"
    and i: "compact_publication_intents c = Inr (is, ch)" and cap: "captured = captured_from s is" by (rule capture_writes)
  from written_read [OF w(1) c assms(1) m] have d1: "valid_store d1" "read_catalog_state d1 = Inr c1" by simp_all
  from run_accounts [OF d1 assms(3)] obtain c2 where d: "valid_store ?d" "read_catalog_state ?d = Inr c2"
    and a: "accounts_for (republished C fresh qs d1) c1 c2" by blast
  from assms(4) d(1) obtain c3 t'' where b': "catalog_body C (CaMark s (as_captured captured)) (opened ?d) = Inr (t'', r)"
    and m': "commit_slots fresh (fst t'') (snd t'') = Inr d2" and t3: "tx_state (opened ?d) = Inr c3" and c3: "read_catalog_state ?d = Inr c3"
    by (rule step_opens)
  from c3 d(2) have [simp]: "c3 = c2" by simp
  from b' obtain u where "mark_publications_applied s (as_captured captured) (opened ?d) = Inr (t'', u)"
    by (auto simp: without_result_def rbind_ok)
  from this t3 obtain c4 where w4: "writes (opened ?d) c3 c4 t''" "intents_readable c4"
    and a4: "\<And>k. account c4 k = map_option (acknowledge_revision s (as_captured captured)) (account c3 k)" by (rule mark_writes) blast
  from written_read [OF w4(1) c3 d(1) m'] have d2: "read_catalog_state d2 = Inr c4" by simp
  have "fld (as_captured captured) e = (if awaits (account c1 (s, e)) then JInt (desired_in (account c1 (s, e))) else JNull)"
    unfolding fld_captured cap captured_lookup [OF i] w(2) by simp
  moreover have "if (s, e) \<in> republished C fresh qs d1 then bumped (account c1 (s, e)) (account c2 (s, e))
      else desired_in (account c2 (s, e)) = desired_in (account c1 (s, e)) \<and> applied_in (account c2 (s, e)) = applied_in (account c1 (s, e))"
    using a w(3) unfolding accounts_for_def by blast
  ultimately have "awaits (account c4 (s, e)) \<longleftrightarrow> (s, e) \<in> republished C fresh qs d1"
    unfolding a4 by (simp, intro awaits_acknowledged) (auto dest: account_accounted)
  then show ?thesis by (simp add: awaits_account [OF d2 w4(2)])
qed

end
