(* ===== verification/Projection.thy ===== *)
theory Projection
  imports Refs Store_Valid Master_State
begin

text \<open>
  The projection of a vault onto one project scope (\<open>project_projection.py\<close>): which entries, fields,
  notes, tags and references leave the vault, under which names, and which secrets are read for them.
  The credential store is an argument: \<open>None\<close> is its \<open>KeychainError\<close>.
\<close>

section \<open>Definitions\<close>

datatype proj_error = Projection_error | Recovery_needed | Index_error | Keychain_error | Proj_model verr | Proj_store serr
  | Proj_wire perr | Proj_refs ref_error

record keychain =
  kc_ids :: "string list option"
  kc_get :: "string \<Rightarrow> string option"

primrec essential_fields :: "entry_type \<Rightarrow> string list" where
  "essential_fields API_KEY = []"
| "essential_fields SSH_KEY = [''public_key'']"
| "essential_fields SERVER = [''host'', ''user'', ''auth'', ''port'']"
| "essential_fields DOMAIN = [''host'']"
| "essential_fields NOTE = [''secret_body'']"

text \<open>\<open>ref[k]\<close>, and \<open>by_name.get(v)\<close>: what cannot be subscripted or hashed raises.\<close>

definition ref_get :: "string \<Rightarrow> json \<Rightarrow> proj_error + json" where
  "ref_get k r = (if \<not> is_obj r then Inl (Proj_model Type_err)
     else if \<not> has_key r k then Inl (Proj_model Key_err) else Inr (fld r k))"

definition find_named :: "entry list \<Rightarrow> json \<Rightarrow> proj_error + entry option" where
  "find_named es v = (case v of JStr s \<Rightarrow> Inr (entry_named es s)
     | JList _ \<Rightarrow> Inl (Proj_model Type_err) | JObj _ \<Rightarrow> Inl (Proj_model Type_err) | _ \<Rightarrow> Inr None)"

definition bound_entry :: "entry list \<Rightarrow> string \<Rightarrow> proj_error + entry" where
  "bound_entry es i = (case map_of (rev (map (\<lambda>e. (e_id e, e)) es)) i of
       None \<Rightarrow> Inl (Proj_model Key_err) | Some e \<Rightarrow> Inr e)"

text \<open>The bindings of a scope. A personal replica gets every entry in full.\<close>

definition personal_binding :: "crypto \<Rightarrow> string \<Rightarrow> entry \<Rightarrow> proj_error + scope_entry" where
  "personal_binding C scope_id e =
     rbind (map_err Proj_wire (canonical_hash C (JObj [(''personal_entry'', JStr (e_id e))]))) (\<lambda>h.
     Inr \<lparr>bi_scope = scope_id, bi_entry = e_id e, bi_local = e_name e,
          bi_export = \<lparr>ex_fields = map fst (members (e_fields e)), ex_note = True, ex_refs = True, ex_tags = True\<rparr>,
          bi_approval = h\<rparr>)"

definition scope_bindings :: "crypto \<Rightarrow> bool \<Rightarrow> string \<Rightarrow> entry list \<Rightarrow> catalog \<Rightarrow> proj_error + scope_entry list" where
  "scope_bindings C personal scope_id es c =
     (if personal then rmap (personal_binding C scope_id) (sort_key e_id es)
      else Inr (sort_key bi_entry (filter (\<lambda>b. bi_scope b = scope_id) (ca_bindings c))))"

definition alias_of :: "scope_entry list \<Rightarrow> string \<Rightarrow> string option" where
  "alias_of bs = map_of (rev (map (\<lambda>b. (bi_entry b, bi_local b)) bs))"

definition requires_key :: "entry \<Rightarrow> bool" where
  "requires_key e = (e_type e = SERVER \<and> fld (e_fields e) ''auth'' = JStr ''ssh_key'')"

text \<open>One reference: kept under the local name of its target, dropped (\<open>None\<close>), or refused.\<close>

definition project_ref :: "entry list \<Rightarrow> scope_entry list \<Rightarrow> bool \<Rightarrow> bool \<Rightarrow> json \<Rightarrow> proj_error + json option" where
  "project_ref es bs required_ref exported r =
     rbind (if required_ref then rbind (ref_get ''role'' r) (\<lambda>v. Inr (v = JStr ''ssh_key'')) else Inr False) (\<lambda>required.
     if \<not> required \<and> \<not> exported then Inr None
     else rbind (ref_get ''name'' r) (\<lambda>n. rbind (find_named es n) (\<lambda>target.
       (case target of
          None \<Rightarrow> if required then Inl Projection_error else Inr None
        | Some t \<Rightarrow> (case alias_of bs (e_id t) of
            None \<Rightarrow> if required then Inl Projection_error else Inr None
          | Some a \<Rightarrow>
              rbind (ensure (\<not> (required \<and> e_type t \<noteq> SSH_KEY)) Projection_error) (\<lambda>_.
              rbind (ref_get ''role'' r) (\<lambda>role.
              Inr (Some (JObj [(''role'', role), (''name'', JStr a)])))))))))"

definition kept :: "'a option list \<Rightarrow> 'a list" where
  "kept xs = map the (filter (\<lambda>x. x \<noteq> None) xs)"

definition projected_record :: "entry \<Rightarrow> scope_entry \<Rightarrow> json list \<Rightarrow> json" where
  "projected_record e b refs =
     JObj [(''id'', JStr (e_id e)), (''name'', JStr (bi_local b)), (''type'', JStr (type_value (e_type e))),
       (''fields'', JObj (filter (\<lambda>kv. fst kv \<in> set (ex_fields (bi_export b)) \<union> set (essential_fields (e_type e)))
                            (members (e_fields e)))),
       (''tags'', JList (if ex_tags (bi_export b) then e_tags e else [])),
       (''note'', if ex_note (bi_export b) then e_note e else JStr []),
       (''refs'', JList refs), (''created_at'', e_created e), (''updated_at'', e_updated e)]"

definition as_projection_error :: "verr \<Rightarrow> proj_error" where
  "as_projection_error e = (if e = Invalid then Projection_error else Proj_model e)"

definition project_binding :: "bool \<Rightarrow> entry list \<Rightarrow> scope_entry list \<Rightarrow> scope_entry \<Rightarrow> proj_error + entry \<times> json" where
  "project_binding personal es bs b =
     rbind (bound_entry es (bi_entry b)) (\<lambda>e.
     rbind (ensure (personal \<or> e_distribution e = JStr ''project_allowed'') Projection_error) (\<lambda>_.
     rbind (rmap (project_ref es bs (requires_key e) (ex_refs (bi_export b))) (e_refs e)) (\<lambda>rs.
     let refs = kept rs; r = projected_record e b refs in
     rbind (ensure (\<not> (requires_key e \<and> len (filter (\<lambda>x. fld x ''role'' = JStr ''ssh_key'') refs) \<noteq> 1)) Projection_error) (\<lambda>_.
     rbind (map_err as_projection_error (from_untrusted_dict False False r)) (\<lambda>_.
     Inr (e, r))))))"

definition source_item :: "(entry \<times> json) \<times> scope_entry \<Rightarrow> json" where
  "source_item x = (case x of ((e, r), b) \<Rightarrow>
     JObj [(''id'', JStr (e_id e)), (''content_revision'', e_revision e), (''record'', r), (''binding'', scope_entry_to_dict b)])"

definition as_cycle_error :: "ref_error \<Rightarrow> proj_error" where
  "as_cycle_error e = (case e of Cycle _ \<Rightarrow> Projection_error | _ \<Rightarrow> Proj_refs e)"

definition prepare_projection :: "crypto \<Rightarrow> bool \<Rightarrow> string \<Rightarrow> metadata \<Rightarrow> proj_error + (entry \<times> json) list \<times> string" where
  "prepare_projection C personal scope_id d =
     rbind (map_err Proj_store (tx_list (reset_entries (md_entries d)))) (\<lambda>es.
     rbind (map_err Proj_store (catalog_state d)) (\<lambda>state.
     rbind (map_err Proj_model (catalog_from_dict (e_id ` set es) state)) (\<lambda>c.
     rbind (ensure (scope_id \<in> sco_id ` set (ca_scopes c)) Projection_error) (\<lambda>_.
     rbind (scope_bindings C personal scope_id es c) (\<lambda>bs.
     rbind (ensure (distinct (map (\<lambda>i. the (alias_of bs i)) (remdups (map bi_entry bs)))) Projection_error) (\<lambda>_.
     rbind (rmap (project_binding personal es bs) bs) (\<lambda>records.
     rbind (if personal then Inr ()
            else rbind (map_err Proj_model (rmap (\<lambda>er. entry_from_dict (snd er)) records)) (\<lambda>ps.
                 map_err as_cycle_error (detect_cycles ps))) (\<lambda>_.
     rbind (map_err Proj_wire (canonical_hash C (JList (map source_item (zip records bs))))) (\<lambda>revision.
     Inr (records, revision))))))))))"

section \<open>Preview and payload\<close>

text \<open>Both run in a write transaction of the store, whose commit rewrites the metadata.\<close>

definition preview_scope :: "crypto \<Rightarrow> (nat \<Rightarrow> string) \<Rightarrow> bool \<Rightarrow> string \<Rightarrow> metadata \<Rightarrow> proj_error + metadata \<times> json" where
  "preview_scope C fresh personal scope_id d =
     rbind (prepare_projection C personal scope_id d) (\<lambda>(records, revision).
     rbind (map_err Proj_store (commit_slots fresh (reset_entries (md_entries d)) d)) (\<lambda>d'.
     Inr (d', JObj [(''scope_id'', JStr scope_id), (''source_revision'', JStr revision),
       (''catalog_revision'', JStr (metadata_revision C (d\<lparr>md_entries := materialize (reset_entries (md_entries d))\<rparr>))),
       (''count'', JInt (len records)), (''entries'', JList (map snd records))])))"

definition passphrase_id :: "string \<Rightarrow> string" where
  "passphrase_id i = i @ '':passphrase''"

definition read_secret :: "keychain \<Rightarrow> string \<Rightarrow> proj_error + json" where
  "read_secret k i = (case kc_get k i of None \<Rightarrow> Inl Projection_error | Some s \<Rightarrow> Inr (JStr s))"

definition payload_record :: "keychain \<Rightarrow> string list \<Rightarrow> entry \<times> json \<Rightarrow> proj_error + json" where
  "payload_record k accounts er = (case er of (e, r) \<Rightarrow>
     rbind (if e_id e \<in> set accounts then read_secret k (e_id e) else Inr JNull) (\<lambda>s.
     rbind (if e_type e = SSH_KEY \<and> passphrase_id (e_id e) \<in> set accounts
            then read_secret k (passphrase_id (e_id e)) else Inr JNull) (\<lambda>p.
     Inr (JObj (members r @ [(''secret'', s), (''passphrase'', p)])))))"

definition project_payload ::
  "crypto \<Rightarrow> (nat \<Rightarrow> string) \<Rightarrow> keychain \<Rightarrow> bool \<Rightarrow> string \<Rightarrow> string option \<Rightarrow> metadata \<Rightarrow> proj_error + metadata \<times> json" where
  "project_payload C fresh k personal scope_id expected d =
     rbind (prepare_projection C personal scope_id d) (\<lambda>(records, revision).
     rbind (ensure (expected = None \<or> expected = Some revision) Projection_error) (\<lambda>_.
     rbind (if records = [] then Inr []
            else case kc_ids k of None \<Rightarrow> Inl Keychain_error | Some l \<Rightarrow> Inr l) (\<lambda>accounts.
     rbind (each (\<lambda>er. ensure (\<not> (entry_requires_secret (fst er) \<and> e_id (fst er) \<notin> set accounts)) Projection_error) records) (\<lambda>_.
     rbind (rmap (payload_record k accounts) records) (\<lambda>ps.
     rbind (map_err Proj_store (commit_slots fresh (reset_entries (md_entries d)) d)) (\<lambda>d'.
     Inr (d', JObj [(''schema_version'', JInt (if personal then 2 else 1)), (''scope_id'', JStr scope_id),
       (''source_revision'', JStr revision), (''entries'', JList ps)])))))))"

text \<open>No projection while a mutation is pending: \<open>None\<close> is an index that can not be read.\<close>

definition projection_guard :: "(string \<times> string) list option \<Rightarrow> proj_error + unit" where
  "projection_guard pending = (case pending of None \<Rightarrow> Inl Index_error
     | Some es \<Rightarrow> ensure (filter (\<lambda>e. snd e = MASTER) es = []) Recovery_needed)"

definition build_project_payload ::
  "crypto \<Rightarrow> (nat \<Rightarrow> string) \<Rightarrow> keychain \<Rightarrow> (string \<times> string) list option \<Rightarrow> bool \<Rightarrow> string \<Rightarrow> string option \<Rightarrow> metadata
    \<Rightarrow> proj_error + metadata \<times> json" where
  "build_project_payload C fresh k pending personal scope_id expected d =
     rbind (projection_guard pending) (\<lambda>_. project_payload C fresh k personal scope_id expected d)"

end
