(* ===== verification/Projection_Proofs.thy ===== *)
theory Projection_Proofs
  imports Projection
begin

text \<open>
  The projection gives away what was bound and nothing else: the specification of a projected record,
  and the independence of the payload from everything that is not bound to the scope.
\<close>

section \<open>The steps of a projection\<close>

lemma set_kept: "x \<in> set (kept xs) \<longleftrightarrow> Some x \<in> set xs"
  by (force simp: kept_def)

lemma alias_of_in: "alias_of bs i = Some a \<Longrightarrow> \<exists>b \<in> set bs. bi_entry b = i \<and> bi_local b = a"
  unfolding alias_of_def by (drule map_of_SomeD) auto

lemma alias_of_bound: "alias_of bs i \<noteq> None \<longleftrightarrow> i \<in> bi_entry ` set bs"
  by (simp add: alias_of_def map_of_eq_None_iff image_image)

lemma bound_entry_ok: "bound_entry es i = Inr e \<Longrightarrow> e \<in> set es \<and> e_id e = i"
  by (auto simp: bound_entry_def split: option.splits dest: map_of_SomeD)

lemma named_entry_in: "entry_named es n = Some e \<Longrightarrow> e \<in> set es \<and> e_name e = n"
  by (auto simp: entry_named_def dest: map_of_SomeD)

lemma ref_get_ok: "ref_get k r = Inr v \<longleftrightarrow> is_obj r \<and> has_key r k \<and> v = fld r k"
  by (auto simp: ref_get_def)

lemma find_named_ok: "find_named es v = Inr (Some t) \<longleftrightarrow> (\<exists>s. v = JStr s \<and> entry_named es s = Some t)"
  by (cases v) (auto simp: find_named_def)

lemma project_ref_D:
  assumes "project_ref es bs required_ref exported r = Inr (Some x)"
  obtains t s a where "fld r ''name'' = JStr s" and "entry_named es s = Some t" and "alias_of bs (e_id t) = Some a"
    and "x = JObj [(''role'', fld r ''role''), (''name'', JStr a)]"
    and "exported \<or> (required_ref \<and> fld r ''role'' = JStr ''ssh_key'' \<and> e_type t = SSH_KEY)"
proof -
  from assms obtain required n target where
    q: "(if required_ref then rbind (ref_get ''role'' r) (\<lambda>v. Inr (v = JStr ''ssh_key'')) else Inr False) = (Inr required :: proj_error + bool)"
    and n: "ref_get ''name'' r = Inr n" and f: "find_named es n = Inr target" and x: "required \<or> exported"
    and c: "(case target of None \<Rightarrow> if required then Inl Projection_error else Inr None
        | Some t \<Rightarrow> (case alias_of bs (e_id t) of
            None \<Rightarrow> if required then Inl Projection_error else Inr None
          | Some a \<Rightarrow>
              rbind (ensure (\<not> (required \<and> e_type t \<noteq> SSH_KEY)) Projection_error) (\<lambda>_.
              rbind (ref_get ''role'' r) (\<lambda>role. Inr (Some (JObj [(''role'', role), (''name'', JStr a)])))))) = Inr (Some x)"
    unfolding project_ref_def rbind_ok by (auto simp: rbind_ok split: if_splits)
  from c obtain t where t: "target = Some t" by (cases target) (auto split: if_splits)
  with c obtain a where a: "alias_of bs (e_id t) = Some a" by (cases "alias_of bs (e_id t)") (auto split: if_splits)
  have "required \<Longrightarrow> required_ref \<and> fld r ''role'' = JStr ''ssh_key''" using q by (auto simp: rbind_ok ref_get_ok split: if_splits)
  then show ?thesis using that [of "text_of n" t a] c t a f x n
    by (auto simp: rbind_ok ensure_ok ref_get_ok find_named_ok)
qed

lemma project_binding_D:
  assumes "project_binding personal es bs b = Inr (e, r)"
  obtains rs where "bound_entry es (bi_entry b) = Inr e" and "personal \<or> e_distribution e = JStr ''project_allowed''"
    and "rmap (project_ref es bs (requires_key e) (ex_refs (bi_export b))) (e_refs e) = Inr rs"
    and "r = projected_record e b (kept rs)" and "is_ok (from_untrusted_dict False False r)"
    and "requires_key e \<longrightarrow> len (filter (\<lambda>x. fld x ''role'' = JStr ''ssh_key'') (kept rs)) = 1"
  using assms by (auto simp: project_binding_def rbind_ok ensure_ok map_err_ok Let_def is_ok_iff)

lemma tx_list_reset: "unique_records (md_entries d) \<Longrightarrow> tx_list (reset_entries (md_entries d)) = store_list d"
  by (simp add: tx_list_def store_list_def reset_entries_ok(2))

lemma prepare_projection_D:
  assumes "prepare_projection C personal sid d = Inr (records, rv)" and "unique_records (md_entries d)"
  obtains es c bs where "store_list d = Inr es" and "3 \<le> md_version d"
    and "catalog_from_dict (e_id ` set es) (the (md_catalog d)) = Inr c"
    and "sid \<in> sco_id ` set (ca_scopes c)" and "scope_bindings C personal sid es c = Inr bs"
    and "distinct (map (\<lambda>i. the (alias_of bs i)) (remdups (map bi_entry bs)))"
    and "rmap (project_binding personal es bs) bs = Inr records"
    and "\<not> personal \<longrightarrow> (\<exists>ps. rmap (\<lambda>er. entry_from_dict (snd er)) records = Inr ps \<and> is_ok (detect_cycles ps))"
    and "canonical_hash C (JList (map source_item (zip records bs))) = Inr rv"
  using assms(1) unfolding prepare_projection_def tx_list_reset [OF assms(2)] catalog_state_def
  by (auto simp: rbind_ok ensure_ok map_err_ok is_ok_iff split: if_splits)

lemma project_payload_D:
  assumes "project_payload C fresh k personal sid expected d = Inr (d', p)"
  obtains records rv accounts ps where "prepare_projection C personal sid d = Inr (records, rv)"
    and "expected = None \<or> expected = Some rv" and "records \<noteq> [] \<longrightarrow> kc_ids k = Some accounts"
    and "\<forall>er \<in> set records. entry_requires_secret (fst er) \<longrightarrow> e_id (fst er) \<in> set accounts"
    and "rmap (payload_record k accounts) records = Inr ps"
    and "p = JObj [(''schema_version'', JInt (if personal then 2 else 1)), (''scope_id'', JStr sid),
       (''source_revision'', JStr rv), (''entries'', JList ps)]"
    and "commit_slots fresh (reset_entries (md_entries d)) d = Inr d'"
  using assms
  by (auto simp: project_payload_def rbind_ok ensure_ok each_ok map_err_ok split: if_splits option.splits prod.splits)

section \<open>What a record gives away\<close>

text \<open>The specification of a projected record of an entry under a binding of the scope.\<close>

definition least_privilege :: "scope_entry list \<Rightarrow> entry \<Rightarrow> scope_entry \<Rightarrow> json \<Rightarrow> bool" where
  "least_privilege bs e b r \<longleftrightarrow>
     fld r ''id'' = JStr (e_id e) \<and> fld r ''name'' = JStr (bi_local b)
     \<and> set (members (fld r ''fields'')) \<subseteq> set (members (e_fields e))
     \<and> fst ` set (members (fld r ''fields'')) \<subseteq> set (ex_fields (bi_export b)) \<union> set (essential_fields (e_type e))
     \<and> fld r ''tags'' = (if ex_tags (bi_export b) then JList (e_tags e) else JList [])
     \<and> fld r ''note'' = (if ex_note (bi_export b) then e_note e else JStr [])
     \<and> (\<forall>x \<in> set (items (fld r ''refs'')). fld x ''name'' \<in> (\<lambda>b. JStr (bi_local b)) ` set bs
          \<and> (ex_refs (bi_export b) \<or> (requires_key e \<and> fld x ''role'' = JStr ''ssh_key'')))"

lemma projected_fld:
  "fld (projected_record e b refs) ''id'' = JStr (e_id e)" "fld (projected_record e b refs) ''name'' = JStr (bi_local b)"
  "fld (projected_record e b refs) ''type'' = JStr (type_value (e_type e))"
  "fld (projected_record e b refs) ''fields'' = JObj (filter (\<lambda>kv. fst kv \<in> set (ex_fields (bi_export b)) \<union> set (essential_fields (e_type e))) (members (e_fields e)))"
  "fld (projected_record e b refs) ''tags'' = JList (if ex_tags (bi_export b) then e_tags e else [])"
  "fld (projected_record e b refs) ''note'' = (if ex_note (bi_export b) then e_note e else JStr [])"
  "fld (projected_record e b refs) ''refs'' = JList refs"
  "fld (projected_record e b refs) ''created_at'' = e_created e" "fld (projected_record e b refs) ''updated_at'' = e_updated e"
  by (simp_all add: projected_record_def fld_def)

lemma project_binding_private:
  assumes "project_binding personal es bs b = Inr (e, r)"
  shows "least_privilege bs e b r" and "e \<in> set es" and "e_id e = bi_entry b"
    and "personal \<or> e_distribution e = JStr ''project_allowed''"
proof -
  from project_binding_D [OF assms] obtain rs where
    e: "bound_entry es (bi_entry b) = Inr e" and p: "personal \<or> e_distribution e = JStr ''project_allowed''"
    and rs: "rmap (project_ref es bs (requires_key e) (ex_refs (bi_export b))) (e_refs e) = Inr rs"
    and r: "r = projected_record e b (kept rs)" by metis
  have "fld x ''name'' \<in> (\<lambda>b. JStr (bi_local b)) ` set bs
      \<and> (ex_refs (bi_export b) \<or> (requires_key e \<and> fld x ''role'' = JStr ''ssh_key''))" if "x \<in> set (kept rs)" for x
  proof -
    from that have "Some x \<in> set rs" by (simp add: set_kept)
    from rmap_set [OF rs this] obtain r where "project_ref es bs (requires_key e) (ex_refs (bi_export b)) r = Inr (Some x)" by blast
    then show ?thesis by (rule project_ref_D) (auto simp: fld_def dest!: alias_of_in)
  qed
  then show "least_privilege bs e b r" by (auto simp: least_privilege_def r projected_fld)
  show "e \<in> set es" "e_id e = bi_entry b" using bound_entry_ok [OF e] by simp_all
  show "personal \<or> e_distribution e = JStr ''project_allowed''" by (rule p)
qed

text \<open>Secrets come from the accounts of the entry itself.\<close>

definition own_secrets :: "keychain \<Rightarrow> entry \<Rightarrow> json \<Rightarrow> bool" where
  "own_secrets k e r \<longleftrightarrow> (fld r ''secret'' = JNull \<or> (\<exists>s. kc_get k (e_id e) = Some s \<and> fld r ''secret'' = JStr s))
     \<and> (fld r ''passphrase'' = JNull \<or> (\<exists>s. kc_get k (passphrase_id (e_id e)) = Some s \<and> fld r ''passphrase'' = JStr s))
     \<and> (entry_requires_secret e \<longrightarrow> fld r ''secret'' \<noteq> JNull)"

lemma read_secret_ok: "read_secret k i = Inr v \<longleftrightarrow> (\<exists>s. kc_get k i = Some s \<and> v = JStr s)"
  by (auto simp: read_secret_def split: option.splits)

lemma fld_append: "fld (JObj (m @ n)) k = (if k \<in> set (map fst m) then fld (JObj m) k else fld (JObj n) k)"
proof (cases "map_of m k")
  case None
  then have "k \<notin> set (map fst m)" by (simp add: map_of_eq_None_iff)
  with None show ?thesis by (simp add: fld_def map_add_def split: option.split)
next
  case (Some x)
  then have "k \<in> set (map fst m)" by (force dest: map_of_SomeD)
  with Some show ?thesis by (simp add: fld_def map_add_def)
qed

lemma payload_record_D:
  assumes "payload_record k accounts (e, projected_record e b refs) = Inr r"
    and "entry_requires_secret e \<longrightarrow> e_id e \<in> set accounts"
  shows "own_secrets k e r" and "fld r x = (if x = ''secret'' then fld r x else if x = ''passphrase'' then fld r x else fld (projected_record e b refs) x)"
    and "exact_keys (LEGACY_ENTRY_KEYS @ [''secret'', ''passphrase'']) r"
proof -
  from assms(1) obtain s p where r: "r = JObj (members (projected_record e b refs) @ [(''secret'', s), (''passphrase'', p)])"
    and s: "(if e_id e \<in> set accounts then read_secret k (e_id e) else Inr JNull) = Inr s"
    and p: "(if e_type e = SSH_KEY \<and> passphrase_id (e_id e) \<in> set accounts then read_secret k (passphrase_id (e_id e)) else Inr JNull) = Inr p"
    unfolding payload_record_def by (auto simp only: rbind_ok prod.case sum.inject)
  have f: "fld r ''secret'' = s" "fld r ''passphrase'' = p"
    by (simp_all add: r fld_append projected_record_def) (simp_all add: fld_def)
  show "own_secrets k e r" using s p assms(2) by (auto simp: own_secrets_def f read_secret_ok split: if_splits)
  show "fld r x = (if x = ''secret'' then fld r x else if x = ''passphrase'' then fld r x else fld (projected_record e b refs) x)"
    unfolding r fld_append projected_record_def by (auto simp: fld_def)
  show "exact_keys (LEGACY_ENTRY_KEYS @ [''secret'', ''passphrase'']) r" by (auto simp: r exact_keys_def projected_record_def)
qed

section \<open>Nothing else matters\<close>

text \<open>Two vaults with the same entries behind the bindings of a scope.\<close>

definition same_bound :: "scope_entry list \<Rightarrow> entry list \<Rightarrow> entry list \<Rightarrow> bool" where
  "same_bound bs es es' \<longleftrightarrow> (\<forall>b \<in> set bs. \<forall>e. e_id e = bi_entry b \<longrightarrow> (e \<in> set es \<longleftrightarrow> e \<in> set es'))"

lemma entry_named_unique: "distinct (map e_name es) \<Longrightarrow> e \<in> set es \<Longrightarrow> entry_named es (e_name e) = Some e"
  by (auto simp: entry_named_def intro!: map_of_is_SomeI simp: comp_def rev_map [symmetric])

lemma bound_entry_unique: "distinct (map e_id es) \<Longrightarrow> bound_entry es i = Inr e \<longleftrightarrow> e \<in> set es \<and> e_id e = i"
proof
  assume d: "distinct (map e_id es)" and e: "e \<in> set es \<and> e_id e = i"
  then have "map_of (rev (map (\<lambda>e. (e_id e, e)) es)) i = Some e"
    by (auto intro!: map_of_is_SomeI simp: comp_def rev_map [symmetric])
  then show "bound_entry es i = Inr e" by (simp add: bound_entry_def)
qed (rule bound_entry_ok)

definition aliased :: "entry list \<Rightarrow> scope_entry list \<Rightarrow> entry option \<Rightarrow> (entry \<times> string) option" where
  "aliased es bs target = (case target of None \<Rightarrow> None | Some t \<Rightarrow> map_option (\<lambda>a. (t, a)) (alias_of bs (e_id t)))"

lemma project_ref_aliased:
  "project_ref es bs required_ref exported r =
     rbind (if required_ref then rbind (ref_get ''role'' r) (\<lambda>v. Inr (v = JStr ''ssh_key'')) else Inr False) (\<lambda>required.
     if \<not> required \<and> \<not> exported then Inr None
     else rbind (ref_get ''name'' r) (\<lambda>n. rbind (rbind (find_named es n) (\<lambda>t. Inr (aliased es bs t))) (\<lambda>x.
       (case x of None \<Rightarrow> if required then Inl Projection_error else Inr None
        | Some (t, a) \<Rightarrow>
              rbind (ensure (\<not> (required \<and> e_type t \<noteq> SSH_KEY)) Projection_error) (\<lambda>_.
              rbind (ref_get ''role'' r) (\<lambda>role.
              Inr (Some (JObj [(''role'', role), (''name'', JStr a)]))))))))"
  unfolding project_ref_def
  by (intro arg_cong2 [where f = rbind] refl ext if_cong)
    (auto simp: aliased_def rbind_assoc split: option.split intro!: arg_cong2 [where f = rbind])

lemma aliased_same:
  assumes "same_bound bs es es'" and "distinct (map e_name es)" and "distinct (map e_name es')"
  shows "rbind (find_named es n) (\<lambda>t. Inr (aliased es bs t)) = rbind (find_named es' n) (\<lambda>t. Inr (aliased es' bs t))"
proof (cases n)
  case (JStr s)
  have one: "aliased fs bs (entry_named fs s) = Some (t, a) \<Longrightarrow> aliased fs' bs (entry_named fs' s) = Some (t, a)"
    if "same_bound bs fs fs'" "distinct (map e_name fs')" for fs fs' t a
  proof -
    assume "aliased fs bs (entry_named fs s) = Some (t, a)"
    then have t: "entry_named fs s = Some t" and a: "alias_of bs (e_id t) = Some a"
      by (auto simp: aliased_def split: option.splits)
    from named_entry_in [OF t] have "t \<in> set fs" "e_name t = s" by simp_all
    moreover from alias_of_in [OF a] obtain b where "b \<in> set bs" "bi_entry b = e_id t" by blast
    ultimately have "t \<in> set fs'" using that(1) by (auto simp: same_bound_def)
    with entry_named_unique [OF that(2)] \<open>e_name t = s\<close> have "entry_named fs' s = Some t" by blast
    then show ?thesis by (simp add: aliased_def a)
  qed
  have sym: "same_bound bs es' es" using assms(1) by (auto simp: same_bound_def)
  have "aliased es bs (entry_named es s) = aliased es' bs (entry_named es' s)"
    using one [OF assms(1,3)] one [OF sym assms(2)] by (metis not_None_eq surj_pair)
  then show ?thesis by (simp add: JStr find_named_def)
qed (simp_all add: find_named_def aliased_def)

lemma project_binding_same:
  assumes "same_bound bs es es'" and "distinct (map e_name es)" and "distinct (map e_name es')"
    and "distinct (map e_id es)" and "distinct (map e_id es')" and "b \<in> set bs"
  shows "project_binding personal es bs b = project_binding personal es' bs b"
proof -
  have r: "project_ref es bs q x = project_ref es' bs q x" for q x
    by (rule ext) (simp only: project_ref_aliased aliased_same [OF assms(1,2,3)])
  have "bound_entry es (bi_entry b) = Inr e \<longleftrightarrow> bound_entry es' (bi_entry b) = Inr e" for e
    using assms(1,4,5,6) by (auto simp: bound_entry_unique same_bound_def)
  moreover have "bound_entry fs i = Inl (Proj_model Key_err) \<or> (\<exists>e. bound_entry fs i = Inr e)" for fs i
    by (auto simp: bound_entry_def split: option.split)
  ultimately have "bound_entry es (bi_entry b) = bound_entry es' (bi_entry b)" by (metis Inl_Inr_False)
  then show ?thesis by (simp add: project_binding_def r)
qed

lemma catalog_from_dict_unique: "catalog_from_dict ids v = Inr c \<Longrightarrow> catalog_from_dict ids' v = Inr c' \<Longrightarrow> c' = c"
  by (auto simp: catalog_from_dict_def rbind_ok)

lemma rmap_same: "(\<And>x. x \<in> set xs \<Longrightarrow> f x = g x) \<Longrightarrow> rmap f xs = rmap g xs"
  by (induction xs) auto

text \<open>A vault of schema 3 with its entries and catalog.\<close>

definition vault_data :: "metadata \<Rightarrow> entry list \<Rightarrow> catalog \<Rightarrow> bool" where
  "vault_data d es c \<longleftrightarrow> valid_store d \<and> 3 \<le> md_version d \<and> store_list d = Inr es
     \<and> catalog_from_dict (e_id ` set es) (the (md_catalog d)) = Inr c"

definition bindings_of :: "string \<Rightarrow> catalog \<Rightarrow> scope_entry list" where
  "bindings_of sid c = filter (\<lambda>b. bi_scope b = sid) (ca_bindings c)"

lemma store_list_names:
  assumes "store_list d = Inr es"
  shows "map e_name es = map rec_name (md_entries d)" and "map e_id es = map rec_id (md_entries d)"
proof -
  have "list_all2 (\<lambda>r e. entry_from_dict r = Inr e) (md_entries d) es"
    using assms by (simp add: store_list_def map_err_ok rmap_ok)
  then have "list_all2 (\<lambda>r e. e_name e = rec_name r \<and> e_id e = rec_id r) (md_entries d) es"
    by (rule list_all2_mono) (rule entry_from_dict_names)
  then show "map e_name es = map rec_name (md_entries d)" "map e_id es = map rec_id (md_entries d)"
    by (simp_all add: list_all2_conv_all_nth list_eq_iff_nth_eq)
qed

lemma vault_unique:
  assumes "vault_data d es c"
  shows "unique_records (md_entries d)" and "distinct (map e_name es)" and "distinct (map e_id es)"
  using assms valid_store_unique [of d] store_list_names [of d es] by (auto simp: vault_data_def unique_records_def)

lemma prepare_vault:
  assumes "vault_data d es c"
  shows "prepare_projection C personal sid d =
     rbind (ensure (sid \<in> sco_id ` set (ca_scopes c)) Projection_error) (\<lambda>_.
     rbind (scope_bindings C personal sid es c) (\<lambda>bs.
     rbind (ensure (distinct (map (\<lambda>i. the (alias_of bs i)) (remdups (map bi_entry bs)))) Projection_error) (\<lambda>_.
     rbind (rmap (project_binding personal es bs) bs) (\<lambda>records.
     rbind (if personal then Inr ()
            else rbind (map_err Proj_model (rmap (\<lambda>er. entry_from_dict (snd er)) records)) (\<lambda>ps.
                 map_err as_cycle_error (detect_cycles ps))) (\<lambda>_.
     rbind (map_err Proj_wire (canonical_hash C (JList (map source_item (zip records bs))))) (\<lambda>revision.
     Inr (records, revision)))))))"
  using assms tx_list_reset [OF vault_unique(1) [OF assms]]
  by (simp add: prepare_projection_def vault_data_def catalog_state_def)

lemma prepare_same:
  assumes v: "vault_data d es c" and v': "vault_data d' es' c'" and cat: "md_catalog d' = md_catalog d"
    and same: "same_bound (bindings_of sid c) es es'"
  shows "prepare_projection C False sid d' = prepare_projection C False sid d"
proof -
  have c: "c' = c" using v v' cat by (auto simp: vault_data_def intro: catalog_from_dict_unique)
  let ?bs = "sort_key bi_entry (bindings_of sid c)"
  have s: "same_bound ?bs es es'" using same by (simp add: same_bound_def)
  have "rmap (project_binding False es ?bs) ?bs = rmap (project_binding False es' ?bs) ?bs"
    by (rule rmap_same) (rule project_binding_same [OF s vault_unique(2) [OF v] vault_unique(2) [OF v'] vault_unique(3) [OF v] vault_unique(3) [OF v']])
  then show ?thesis unfolding prepare_vault [OF v] prepare_vault [OF v'] c scope_bindings_def bindings_of_def by simp
qed

text \<open>Credential stores that agree on the accounts of the bound entries.\<close>

definition same_accounts :: "scope_entry list \<Rightarrow> keychain \<Rightarrow> keychain \<Rightarrow> bool" where
  "same_accounts bs k k' \<longleftrightarrow> (\<forall>b \<in> set bs. \<forall>a \<in> {bi_entry b, passphrase_id (bi_entry b)}.
     kc_get k a = kc_get k' a \<and> (\<forall>l l'. kc_ids k = Some l \<longrightarrow> kc_ids k' = Some l' \<longrightarrow> (a \<in> set l \<longleftrightarrow> a \<in> set l')))"

lemma prepared_entries:
  assumes "vault_data d es c" and "prepare_projection C False sid d = Inr (records, rv)" and "er \<in> set records"
  shows "\<exists>b \<in> set (bindings_of sid c). e_id (fst er) = bi_entry b \<and> fst er \<in> set es
    \<and> project_binding False es (sort_key bi_entry (bindings_of sid c)) b = Inr er"
proof -
  let ?bs = "sort_key bi_entry (bindings_of sid c)"
  have "rmap (project_binding False es ?bs) ?bs = Inr records"
    using assms(2) unfolding prepare_vault [OF assms(1)] by (auto simp: rbind_ok scope_bindings_def bindings_of_def)
  from rmap_set [OF this assms(3)] obtain b where "b \<in> set ?bs" "project_binding False es ?bs b = Inr er" by blast
  moreover from this have "fst er \<in> set es" "e_id (fst er) = bi_entry b"
    using project_binding_private(2,3) [of False es ?bs b "fst er" "snd er"] by simp_all
  ultimately show ?thesis by auto
qed

lemma payload_same:
  assumes v: "vault_data d es c" and v': "vault_data d' es' c'" and cat: "md_catalog d' = md_catalog d"
    and same: "same_bound (bindings_of sid c) es es'" and acc: "same_accounts (bindings_of sid c) k k'"
    and p: "project_payload C fresh k False sid x d = Inr (dx, p)" and p': "project_payload C fresh' k' False sid x' d' = Inr (dx', p')"
  shows "p' = p"
proof -
  from p obtain records rv accounts ps where 1: "prepare_projection C False sid d = Inr (records, rv)"
    "records \<noteq> [] \<longrightarrow> kc_ids k = Some accounts" "rmap (payload_record k accounts) records = Inr ps"
    and q: "p = JObj [(''schema_version'', JInt (if False then 2 else 1)), (''scope_id'', JStr sid),
       (''source_revision'', JStr rv), (''entries'', JList ps)]" by (rule project_payload_D)
  from p' obtain records' rv' accounts' ps' where 2: "prepare_projection C False sid d' = Inr (records', rv')"
    "records' \<noteq> [] \<longrightarrow> kc_ids k' = Some accounts'" "rmap (payload_record k' accounts') records' = Inr ps'"
    and q': "p' = JObj [(''schema_version'', JInt (if False then 2 else 1)), (''scope_id'', JStr sid),
       (''source_revision'', JStr rv'), (''entries'', JList ps')]" by (rule project_payload_D)
  have r: "records' = records" "rv' = rv" using prepare_same [OF v v' cat same, of C] 1(1) 2(1) by simp_all
  have "rmap (payload_record k accounts) records = rmap (payload_record k' accounts') records"
  proof (rule rmap_same)
    fix er assume er: "er \<in> set records"
    then have l: "kc_ids k = Some accounts" "kc_ids k' = Some accounts'" using 1(2) 2(2) r by auto
    obtain b where b: "b \<in> set (bindings_of sid c)" "e_id (fst er) = bi_entry b" using prepared_entries [OF v 1(1) er] by blast
    with acc l have "kc_get k a = kc_get k' a \<and> (a \<in> set accounts \<longleftrightarrow> a \<in> set accounts')"
      if "a \<in> {e_id (fst er), passphrase_id (e_id (fst er))}" for a
      using that by (auto simp: same_accounts_def)
    then show "payload_record k accounts er = payload_record k' accounts' er"
      by (simp add: payload_record_def read_secret_def split: prod.split)
  qed
  then have "ps' = ps" using 1(3) 2(3) r by simp
  then show ?thesis by (simp add: q q' r)
qed

section \<open>Only what was bound\<close>

lemma payload_private:
  assumes v: "vault_data d es c" and p: "project_payload C fresh k False sid x d = Inr (dx, p)" and r: "r \<in> set (items (fld p ''entries''))"
  shows "\<exists>e \<in> set es. \<exists>b \<in> set (bindings_of sid c). bi_entry b = e_id e \<and> e_distribution e = JStr ''project_allowed''
    \<and> least_privilege (bindings_of sid c) e b r \<and> own_secrets k e r"
proof -
  let ?bs = "sort_key bi_entry (bindings_of sid c)"
  from p obtain records rv accounts ps where 1: "prepare_projection C False sid d = Inr (records, rv)"
    and need: "\<forall>er \<in> set records. entry_requires_secret (fst er) \<longrightarrow> e_id (fst er) \<in> set accounts"
    and ps: "rmap (payload_record k accounts) records = Inr ps"
    and q: "p = JObj [(''schema_version'', JInt (if False then 2 else 1)), (''scope_id'', JStr sid),
       (''source_revision'', JStr rv), (''entries'', JList ps)]" by (rule project_payload_D)
  from r have "r \<in> set ps" by (simp add: q fld_def)
  from rmap_set [OF ps this] obtain e r0 where er: "(e, r0) \<in> set records" and pr: "payload_record k accounts (e, r0) = Inr r" by auto
  from prepared_entries [OF v 1 er] obtain b where b: "b \<in> set (bindings_of sid c)" "e_id e = bi_entry b" "e \<in> set es"
    and pb: "project_binding False es ?bs b = Inr (e, r0)" by auto
  have lp: "least_privilege ?bs e b r0" and d: "e_distribution e = JStr ''project_allowed''"
    using project_binding_private [OF pb] by simp_all
  from project_binding_D [OF pb] obtain rs where r0: "r0 = projected_record e b (kept rs)" by metis
  have need': "entry_requires_secret e \<longrightarrow> e_id e \<in> set accounts" using need er by auto
  have f: "fld r k = fld r0 k" if "k \<notin> {''secret'', ''passphrase''}" for k
    using payload_record_D(2) [OF pr [unfolded r0] need', of k] that by (auto simp: r0)
  have "least_privilege (bindings_of sid c) e b r" using lp by (simp add: least_privilege_def f)
  moreover have "own_secrets k e r" by (rule payload_record_D(1) [OF pr [unfolded r0] need'])
  ultimately show ?thesis using b d by metis
qed

end
