(* ===== verification/Replica.thy ===== *)
theory Replica
  imports Durable Refs Store
begin

text \<open>
  The replica of a project scope on another computer (\<open>project_replica.py\<close>): validation of payloads and
  checkpoints, the installation of complete generations, and the read-only views.

  A generation is one encrypted file, named by the hash of its snapshot; the pointer file names the active
  one. The model keeps what a generation file decrypts to (\<open>None\<close>: it does not decrypt, is not JSON or is too
  large); the order of members, which writing sorts, is not observed. Replacing a file is one durable step.
  The caches of passwords and keys only save work.
\<close>

section \<open>Validation\<close>

datatype rep_error = Replica_error | No_generation | Read_only | Secret_missing | Rep_fault | Rep_model verr | Rep_refs ref_error

abbreviation PAYLOAD_FIELDS :: "string list" where
  "PAYLOAD_FIELDS \<equiv> [''schema_version'', ''scope_id'', ''source_revision'', ''entries'']"
abbreviation CHECKPOINT_FIELDS :: "string list" where
  "CHECKPOINT_FIELDS \<equiv> [''scope_id'', ''vault_id'', ''epoch'', ''policy_version'', ''policy_hash'', ''sequence'', ''parent_hash'', ''snapshot_hash'']"
abbreviation MAX_GENERATION_BYTES :: int where "MAX_GENERATION_BYTES \<equiv> 25165824"

definition replica_uuid :: "json \<Rightarrow> rep_error + unit" where
  "replica_uuid v = ensure (case v of JStr s \<Rightarrow> is_uuid4 s | _ \<Rightarrow> False) Replica_error"

definition replica_hash :: "json \<Rightarrow> rep_error + unit" where
  "replica_hash v = ensure (case v of JStr s \<Rightarrow> is_sha256 s | _ \<Rightarrow> False) Replica_error"

definition entry_metadata :: "json \<Rightarrow> json" where
  "entry_metadata r = JObj (map (\<lambda>k. (k, fld r k)) LEGACY_ENTRY_KEYS)"

definition as_replica_error :: "verr \<Rightarrow> rep_error" where
  "as_replica_error e = (if e = Invalid then Replica_error else Rep_model e)"

definition replica_secret :: "json \<Rightarrow> rep_error + unit" where
  "replica_secret v = ensure (case v of JNull \<Rightarrow> True | JStr s \<Rightarrow> pylen s \<le> 1048576 | _ \<Rightarrow> False) Replica_error"

definition replica_entry :: "json \<Rightarrow> rep_error + entry" where
  "replica_entry r =
     rbind (ensure (exact_keys (LEGACY_ENTRY_KEYS @ [''secret'', ''passphrase'']) r) Replica_error) (\<lambda>_.
     rbind (map_err as_replica_error (from_untrusted_dict False False (entry_metadata r))) (\<lambda>e.
     rbind (replica_secret (fld r ''secret'')) (\<lambda>_.
     rbind (replica_secret (fld r ''passphrase'')) (\<lambda>_. Inr e))))"

definition as_replica_cycle :: "ref_error \<Rightarrow> rep_error" where
  "as_replica_cycle e = (if e = Ref_type then Rep_refs e else Replica_error)"

definition validate_replica_payload :: "json \<Rightarrow> rep_error + json" where
  "validate_replica_payload v =
     rbind (ensure (exact_keys PAYLOAD_FIELDS v) Replica_error) (\<lambda>_.
     rbind (ensure (finite_json v) Replica_error) (\<lambda>_.
     rbind (ensure (len (default_text v) \<le> 16777216) Replica_error) (\<lambda>_.
     rbind (ensure (fld v ''schema_version'' \<in> {JInt 1, JInt 2}) Replica_error) (\<lambda>_.
     rbind (replica_uuid (fld v ''scope_id'')) (\<lambda>_.
     rbind (replica_hash (fld v ''source_revision'')) (\<lambda>_.
     rbind (ensure (case fld v ''entries'' of JList l \<Rightarrow> len l \<le> 10000 | _ \<Rightarrow> False) Replica_error) (\<lambda>_.
     rbind (rmap replica_entry (items (fld v ''entries''))) (\<lambda>es.
     rbind (ensure (distinct (map e_id es)) Replica_error) (\<lambda>_.
     rbind (ensure (distinct (map e_name es)) Replica_error) (\<lambda>_.
     rbind (ensure (\<forall>e \<in> set es. \<forall>r \<in> set (e_refs e). fld r ''name'' \<in> (\<lambda>e. JStr (e_name e)) ` set es) Replica_error) (\<lambda>_.
     rbind (if fld v ''schema_version'' = JInt 1 then map_err as_replica_cycle (detect_cycles es) else Inr ()) (\<lambda>_.
     Inr (JObj [(''schema_version'', fld v ''schema_version''), (''scope_id'', fld v ''scope_id''),
       (''source_revision'', fld v ''source_revision''), (''entries'', fld v ''entries'')])))))))))))))"

definition positive :: "json \<Rightarrow> bool" where
  "positive v = (case v of JInt i \<Rightarrow> 1 \<le> i | _ \<Rightarrow> False)"

definition replica_checkpoint :: "json \<Rightarrow> rep_error + json" where
  "replica_checkpoint v =
     rbind (ensure (exact_keys CHECKPOINT_FIELDS v) Replica_error) (\<lambda>_.
     rbind (each (\<lambda>k. replica_uuid (fld v k)) [''scope_id'', ''vault_id'']) (\<lambda>_.
     rbind (each (\<lambda>k. ensure (positive (fld v k)) Replica_error) [''epoch'', ''policy_version'', ''sequence'']) (\<lambda>_.
     rbind (each (\<lambda>k. replica_hash (fld v k)) [''policy_hash'', ''snapshot_hash'']) (\<lambda>_.
     rbind (if fld v ''parent_hash'' = JNull then Inr () else replica_hash (fld v ''parent_hash'')) (\<lambda>_.
     Inr v)))))"

definition num :: "json \<Rightarrow> string \<Rightarrow> int" where
  "num c k = int_of (fld c k)"

definition same_replica :: "json \<Rightarrow> json \<Rightarrow> bool" where
  "same_replica old new = (fld old ''scope_id'' = fld new ''scope_id'' \<and> fld old ''vault_id'' = fld new ''vault_id'')"

definition validate_transition :: "json \<Rightarrow> json \<Rightarrow> rep_error + unit" where
  "validate_transition old new =
     rbind (ensure (same_replica old new) Replica_error) (\<lambda>_.
     rbind (ensure (num old ''sequence'' \<le> num new ''sequence'') Replica_error) (\<lambda>_.
     if num new ''sequence'' = num old ''sequence''
     then ensure (fld new ''snapshot_hash'' = fld old ''snapshot_hash'') Replica_error
     else rbind (ensure (fld new ''parent_hash'' = fld old ''snapshot_hash'') Replica_error) (\<lambda>_.
          ensure (num old ''epoch'' \<le> num new ''epoch'' \<and> num old ''policy_version'' \<le> num new ''policy_version'') Replica_error)))"

definition validate_verified_descendant :: "json \<Rightarrow> json \<Rightarrow> rep_error + unit" where
  "validate_verified_descendant old new =
     rbind (ensure (same_replica old new) Replica_error) (\<lambda>_.
     if num new ''sequence'' \<le> num old ''sequence'' then validate_transition old new
     else ensure (num old ''epoch'' \<le> num new ''epoch'' \<and> num old ''policy_version'' \<le> num new ''policy_version'') Replica_error)"

section \<open>Disk\<close>

record replica_disk =
  rd_pointer :: "string option"
  rd_files :: "(string \<times> json option) list"

type_synonym 'a replica_job = "(replica_disk, rep_error, 'a) program"

abbreviation demand :: "bool \<Rightarrow> unit replica_job" where
  "demand b \<equiv> pure_step (ensure b Replica_error)"

definition validate_identity :: "(string \<times> json) list \<Rightarrow> json \<Rightarrow> rep_error + unit" where
  "validate_identity identity c = ensure (list_all (\<lambda>kv. py_eq (fld c (fst kv)) (snd kv)) identity) Replica_error"

definition parse_pointer :: "string \<Rightarrow> rep_error + string" where
  "parse_pointer raw =
     (let g = rev (dropWhile (\<lambda>c. byte c = 10) (rev raw)) in
      rbind (ensure (len raw \<le> 256 \<and> list_all (\<lambda>c. byte c < 128) raw) Replica_error) (\<lambda>_.
      rbind (ensure (is_sha256 g) Replica_error) (\<lambda>_. Inr g)))"

definition generation_of :: "(string \<times> json) list \<Rightarrow> string \<Rightarrow> json \<Rightarrow> rep_error + json \<times> json" where
  "generation_of identity g raw =
     rbind (ensure (exact_keys [''schema_version'', ''payload'', ''checkpoint''] raw
       \<and> (py_eq (fld raw ''schema_version'') (JInt 1) \<or> fld raw ''schema_version'' = JFloat ''1.0'')) Replica_error) (\<lambda>_.
     rbind (validate_replica_payload (fld raw ''payload'')) (\<lambda>p.
     rbind (replica_checkpoint (fld raw ''checkpoint'')) (\<lambda>c.
     rbind (validate_identity identity c) (\<lambda>_.
     rbind (ensure (fld c ''snapshot_hash'' = JStr g \<and> fld p ''scope_id'' = fld c ''scope_id'') Replica_error) (\<lambda>_.
     Inr (p, c))))))"

definition read_pointer :: "string replica_job" where
  "read_pointer = andthen (probe Replica_error) (\<lambda>_. andthen (look rd_pointer) (\<lambda>x. case x of
     None \<Rightarrow> throw No_generation | Some raw \<Rightarrow> pure_step (parse_pointer raw)))"

definition load_unlocked :: "(string \<times> json) list \<Rightarrow> (json \<times> json) replica_job" where
  "load_unlocked identity =
     andthen read_pointer (\<lambda>g.
     andthen (probe Replica_error) (\<lambda>_.
     andthen (look (\<lambda>d. map_of (rd_files d) g)) (\<lambda>x. case x of
       Some (Some raw) \<Rightarrow> pure_step (generation_of identity g raw) | _ \<Rightarrow> throw Replica_error)))"

definition current_generation :: "string replica_job" where
  "current_generation = andthen (probe Rep_fault) (\<lambda>_. read_pointer)"

definition load :: "(string \<times> json) list \<Rightarrow> (json \<times> json) replica_job" where
  "load identity = andthen (probe Rep_fault) (\<lambda>_. load_unlocked identity)"

section \<open>Installation\<close>

definition check_transition :: "json \<Rightarrow> json \<Rightarrow> json option \<Rightarrow> rep_error + unit" where
  "check_transition current c ancestor =
     (case ancestor of None \<Rightarrow> validate_transition current c
      | Some a \<Rightarrow> rbind (ensure (py_eq a current) Replica_error) (\<lambda>_. validate_verified_descendant current c))"

definition optional_checkpoint :: "json option \<Rightarrow> rep_error + json option" where
  "optional_checkpoint a = (case a of None \<Rightarrow> Inr None | Some v \<Rightarrow> rbind (replica_checkpoint v) (\<lambda>c. Inr (Some c)))"

definition load_current :: "(string \<times> json) list \<Rightarrow> (json \<times> json) option replica_job" where
  "load_current identity = rescue (andthen (load_unlocked identity) (\<lambda>x. give (Some x)))
     (\<lambda>e. if e = No_generation then give None else throw e)"

definition write_generation :: "json \<Rightarrow> json \<Rightarrow> unit replica_job" where
  "write_generation p c =
     (let g = JObj [(''schema_version'', JInt 1), (''payload'', p), (''checkpoint'', c)]; h = text_of (fld c ''snapshot_hash'') in
      andthen (demand (len (canonical_text g) + 48 \<le> MAX_GENERATION_BYTES)) (\<lambda>_.
      andthen (probe Replica_error) (\<lambda>_.
      andthen (durable Rep_fault (\<lambda>d. d\<lparr>rd_files := (h, Some g) # filter (\<lambda>kv. fst kv \<noteq> h) (rd_files d)\<rparr>)) (\<lambda>_.
      durable Rep_fault (\<lambda>d. d\<lparr>rd_pointer := Some (h @ [CHR 0x0A])\<rparr>)))))"

definition install :: "(string \<times> json) list \<Rightarrow> json \<Rightarrow> json \<Rightarrow> json option \<Rightarrow> unit replica_job" where
  "install identity payload checkpoint ancestor =
     andthen (pure_step (validate_replica_payload payload)) (\<lambda>p.
     andthen (pure_step (replica_checkpoint checkpoint)) (\<lambda>c.
     andthen (pure_step (validate_identity identity c)) (\<lambda>_.
     andthen (pure_step (optional_checkpoint ancestor)) (\<lambda>anc.
     andthen (demand (fld p ''scope_id'' = fld c ''scope_id'')) (\<lambda>_.
     andthen (probe Rep_fault) (\<lambda>_.
     andthen (load_current identity) (\<lambda>current.
     (case current of
        None \<Rightarrow> andthen (demand (anc = None)) (\<lambda>_. write_generation p c)
      | Some (cp, cc) \<Rightarrow>
          andthen (pure_step (check_transition cc c anc)) (\<lambda>_.
          if num cc ''sequence'' = num c ''sequence'' \<and> fld cc ''snapshot_hash'' = fld c ''snapshot_hash''
          then demand (py_eq cp p)
          else write_generation p c)))))))))"

section \<open>Views\<close>

text \<open>Every view reads the active generation anew; every write is refused.\<close>

definition entry_secrets :: "json \<Rightarrow> (string \<times> string) list" where
  "entry_secrets r =
     (case fld r ''secret'' of JStr s \<Rightarrow> [(text_of (fld r ''id''), s)] | _ \<Rightarrow> [])
     @ (case fld r ''passphrase'' of JStr s \<Rightarrow> [(text_of (fld r ''id'') @ '':passphrase'', s)] | _ \<Rightarrow> [])"

definition entries_and_secrets :: "json \<Rightarrow> rep_error + entry list \<times> (string \<times> string) list" where
  "entries_and_secrets p =
     rbind (map_err Rep_model (rmap (\<lambda>r. from_untrusted_dict False False (entry_metadata r)) (items (fld p ''entries'')))) (\<lambda>es.
     Inr (es, concat (map entry_secrets (items (fld p ''entries'')))))"

definition view_contents :: "(string \<times> json) list \<Rightarrow> (entry list \<times> (string \<times> string) list) replica_job" where
  "view_contents identity = andthen (load identity) (\<lambda>(p, c). pure_step (entries_and_secrets p))"

definition view_list :: "(string \<times> json) list \<Rightarrow> entry list replica_job" where
  "view_list identity = andthen (view_contents identity) (\<lambda>x. give (fst x))"

definition view_by_name :: "(string \<times> json) list \<Rightarrow> string \<Rightarrow> entry option replica_job" where
  "view_by_name identity n = andthen (view_list identity) (\<lambda>es. give (find (\<lambda>e. e_name e = n) es))"

definition view_by_id :: "(string \<times> json) list \<Rightarrow> string \<Rightarrow> entry option replica_job" where
  "view_by_id identity i = andthen (view_list identity) (\<lambda>es. give (find (\<lambda>e. e_id e = i) es))"

text \<open>A dictionary of secrets: of two values of an account the later one counts.\<close>

definition view_secret :: "(string \<times> json) list \<Rightarrow> string \<Rightarrow> string replica_job" where
  "view_secret identity account = andthen (view_contents identity) (\<lambda>x.
     case map_of (rev (snd x)) account of None \<Rightarrow> throw Secret_missing | Some s \<Rightarrow> give s)"

definition view_accounts :: "(string \<times> json) list \<Rightarrow> string list replica_job" where
  "view_accounts identity = andthen (view_contents identity) (\<lambda>x. give (rev (remdups (rev (map fst (snd x))))))"

definition view_write :: "unit replica_job" where
  "view_write = throw Read_only"

end
