(* ===== verification/Replica_Proofs.thy ===== *)
theory Replica_Proofs
  imports Replica Entry_Proofs
begin

text \<open>
  Installing a generation is atomic whatever fails, and no run of installations takes a replica back to an
  earlier checkpoint.
\<close>

section \<open>Sizes of texts\<close>

lemma dumps_members_len:
  "len (dumps_members sep col m) = (\<Sum>(k, v) \<leftarrow> m. len (quote k) + len col + len (dumps sep col v)) + len sep * int (length m - 1)"
proof (induction m)
  case (Cons kv m)
  then show ?case by (cases kv; cases m) (simp_all add: len_length algebra_simps)
qed (simp add: len_length)

lemma sum_list_remove:
  assumes "x \<in> set xs" shows "sum_list (map f xs) = f x + sum_list (map f (remove1 x xs) :: int list)"
  using assms by (rule sum_list_map_remove1)

lemma dumps_members_part:
  assumes "distinct ks" and "\<forall>k \<in> set ks. k \<in> set m" and "ks \<noteq> []"
  shows "len (dumps_members sep col ks) \<le> len (dumps_members sep col m)"
proof -
  let ?f = "\<lambda>(k, v). len (quote k) + len col + len (dumps sep col v)"
  have f: "0 \<le> ?f kv" for kv by (auto simp: len_length split: prod.split)
  have s: "sum_list (map ?f ks) \<le> sum_list (map ?f m) \<and> length ks \<le> length m" if "distinct ks" "set ks \<subseteq> set m" for ks m
    using that
  proof (induction ks arbitrary: m)
    case Nil
    have "0 \<le> sum_list (map ?f m)" by (rule sum_list_nonneg) (use f in \<open>auto simp del: split_paired_All\<close>)
    then show ?case by simp
  next
    case (Cons k ks)
    then have "x \<in> set (remove1 k m)" if "x \<in> set ks" for x
      using that by (metis in_set_remove1 distinct.simps(2) list.set_intros(2) subsetD)
    then have "set ks \<subseteq> set (remove1 k m)" by blast
    with Cons have ih: "sum_list (map ?f ks) \<le> sum_list (map ?f (remove1 k m)) \<and> length ks \<le> length (remove1 k m)" by simp
    have k: "k \<in> set m" using Cons.prems by simp
    have "sum_list (map ?f m) = ?f k + sum_list (map ?f (remove1 k m))" by (rule sum_list_remove [OF k])
    moreover have "length m = Suc (length (remove1 k m))" using k by (metis One_nat_def Suc_pred length_pos_if_in_set length_remove1)
    ultimately show ?case using ih by simp
  qed
  have "set ks \<subseteq> set m" using assms(2) by auto
  from s [OF assms(1) this] show ?thesis
    unfolding dumps_members_len by (auto intro!: add_mono mult_left_mono simp: len_length)
qed

section \<open>Validation keeps what it accepts\<close>

lemma finite_members_in: "finite_members m \<longleftrightarrow> (\<forall>kv \<in> set m. finite_json (snd kv))"
  by (induction m) auto

lemma exact_keys_in: "exact_keys ks v \<Longrightarrow> k \<in> set ks \<Longrightarrow> (k, fld v k) \<in> set (members v)"
  by (drule exact_keys_has, assumption) (rule map_of_SomeD)

definition payload_dict :: "json \<Rightarrow> json" where
  "payload_dict v = JObj [(''schema_version'', fld v ''schema_version''), (''scope_id'', fld v ''scope_id''),
     (''source_revision'', fld v ''source_revision''), (''entries'', fld v ''entries'')]"

lemma payload_dict_fld: "k \<in> set PAYLOAD_FIELDS \<Longrightarrow> fld (payload_dict v) k = fld v k"
  by (auto simp: payload_dict_def fld_def)

lemma validate_payload_ok: "validate_replica_payload v = Inr p \<Longrightarrow> p = payload_dict v"
  by (auto simp: validate_replica_payload_def rbind_ok ensure_ok payload_dict_def)

lemma validate_payload_again:
  assumes v: "validate_replica_payload v = Inr p"
  shows "validate_replica_payload p = Inr p"
proof -
  have p: "p = payload_dict v" by (rule validate_payload_ok [OF v])
  have x: "exact_keys PAYLOAD_FIELDS v" and f: "finite_json v" and l: "len (default_text v) \<le> 16777216"
    using v by (auto simp: validate_replica_payload_def rbind_ok ensure_ok)
  obtain m where m: "v = JObj m" using x by (cases v) (auto simp: exact_keys_def)
  have i: "k \<in> set PAYLOAD_FIELDS \<Longrightarrow> (k, fld v k) \<in> set m" for k using exact_keys_in [OF x] by (simp add: m)
  have "k \<in> set PAYLOAD_FIELDS \<Longrightarrow> finite_json (fld v k)" for k using f i [of k] by (auto simp: m finite_members_in)
  then have "finite_json (payload_dict v)" by (simp add: payload_dict_def)
  moreover have "len (default_text (payload_dict v)) \<le> 16777216"
  proof -
    have "len (dumps_members '', '' '': '' (members (payload_dict v))) \<le> len (dumps_members '', '' '': '' m)"
      by (rule dumps_members_part) (use i in \<open>auto simp: payload_dict_def\<close>)
    with l show ?thesis by (simp add: default_text_def m payload_dict_def)
  qed
  moreover have "exact_keys PAYLOAD_FIELDS (payload_dict v)" by (auto simp: exact_keys_def payload_dict_def)
  moreover have "payload_dict (payload_dict v) = payload_dict v"
    by (subst payload_dict_def) (simp add: payload_dict_fld, simp add: payload_dict_def)
  ultimately have "validate_replica_payload (payload_dict v) = validate_replica_payload v"
    using x f l unfolding validate_replica_payload_def payload_dict_def [symmetric] by (simp add: payload_dict_fld)
  with v p show ?thesis by simp
qed

lemma replica_checkpoint_ok: "replica_checkpoint v = Inr c \<Longrightarrow> c = v"
  by (auto simp: replica_checkpoint_def rbind_ok)

section \<open>The active generation\<close>

text \<open>What a reader finds when no read fails.\<close>

definition read_active :: "(string \<times> json) list \<Rightarrow> replica_disk \<Rightarrow> rep_error + json \<times> json" where
  "read_active identity d = (case rd_pointer d of None \<Rightarrow> Inl No_generation
     | Some raw \<Rightarrow> rbind (parse_pointer raw) (\<lambda>g. case map_of (rd_files d) g of
         Some (Some v) \<Rightarrow> generation_of identity g v | _ \<Rightarrow> Inl Replica_error))"

lemma reads_parse: "reads read_pointer (\<lambda>g d. case rd_pointer d of None \<Rightarrow> False | Some raw \<Rightarrow> parse_pointer raw = Inr g)"
  unfolding read_pointer_def
proof (rule reads_andthen [OF reads_probe [where \<phi> = "\<lambda>_ _. True"]], simp, rule reads_andthen [OF reads_look [where \<phi> = "\<lambda>x d. rd_pointer d = x"]], rule refl)
  fix u x
  show "reads (case x of None \<Rightarrow> throw No_generation | Some raw \<Rightarrow> pure_step (parse_pointer raw))
     (\<lambda>y d. rd_pointer d = x \<longrightarrow> True \<longrightarrow> (case rd_pointer d of None \<Rightarrow> False | Some raw \<Rightarrow> parse_pointer raw = Inr y))"
    by (cases x) (auto intro: reads_throw reads_pure)
qed

lemma reads_load: "reads (load_unlocked identity) (\<lambda>x d. read_active identity d = Inr x)"
  unfolding load_unlocked_def
proof (rule reads_andthen [OF reads_parse], rule reads_andthen [OF reads_probe [where \<phi> = "\<lambda>_ _. True"]], simp, rule reads_andthen)
  fix g u
  show "reads (look (\<lambda>d. map_of (rd_files d) g)) (\<lambda>x d. map_of (rd_files d) g = x)" by (rule reads_look) (rule refl)
  fix x
  show "reads (case x of Some (Some raw) \<Rightarrow> pure_step (generation_of identity g raw) | _ \<Rightarrow> throw Replica_error)
     (\<lambda>y d. map_of (rd_files d) g = x \<longrightarrow> True \<longrightarrow> (case rd_pointer d of None \<Rightarrow> False | Some raw \<Rightarrow> parse_pointer raw = Inr g)
        \<longrightarrow> read_active identity d = Inr y)"
    by (auto intro!: reads_throw reads_pure split: option.split simp: read_active_def)
qed

text \<open>What the error of a failed read says.\<close>

lemma load_unlocked_error:
  "triple (\<lambda>d. d = D) (load_unlocked identity) (\<lambda>x d. d = D \<and> read_active identity D = Inr x)
     (\<lambda>e d. d = D \<and> (e = No_generation \<longrightarrow> rd_pointer D = None)) (\<lambda>d. d = D)"
proof -
  have p: "triple (\<lambda>d. d = D) read_pointer (\<lambda>g d. d = D \<and> (\<exists>raw. rd_pointer D = Some raw \<and> parse_pointer raw = Inr g))
     (\<lambda>e d. d = D \<and> (e = No_generation \<longrightarrow> rd_pointer D = None)) (\<lambda>d. d = D)"
    unfolding read_pointer_def
  proof (rule triple_andthen [OF triple_probe [where Q = "\<lambda>_ d. d = D"]], simp, rule triple_andthen)
    show "triple (\<lambda>d. d = D) (look rd_pointer) (\<lambda>x d. d = D \<and> x = rd_pointer D) (\<lambda>e d. d = D \<and> (e = No_generation \<longrightarrow> rd_pointer D = None)) (\<lambda>d. d = D)"
      by (rule triple_look) simp
    fix x
    show "triple (\<lambda>d. d = D \<and> x = rd_pointer D) (case x of None \<Rightarrow> throw No_generation | Some raw \<Rightarrow> pure_step (parse_pointer raw))
       (\<lambda>g d. d = D \<and> (\<exists>raw. rd_pointer D = Some raw \<and> parse_pointer raw = Inr g)) (\<lambda>e d. d = D \<and> (e = No_generation \<longrightarrow> rd_pointer D = None)) (\<lambda>d. d = D)"
    proof (cases x)
      case (Some raw)
      have "parse_pointer raw \<noteq> Inl No_generation" by (auto simp: parse_pointer_def rbind_err ensure_err Let_def)
      with Some show ?thesis by (auto intro!: triple_pure intro: sym exI [of _ raw])
    qed (auto intro!: triple_throw)
  qed
  have g: "generation_of identity g v \<noteq> Inl No_generation" for g v
  proof -
    have "map_err as_replica_error m \<noteq> Inl No_generation" for m :: "verr + 'a" by (cases m) (auto simp: as_replica_error_def)
    then have e: "replica_entry r \<noteq> Inl No_generation" for r
      by (auto simp: replica_entry_def rbind_err ensure_err replica_secret_def)
    have m: "rmap replica_entry rs \<noteq> Inl No_generation" for rs by (induction rs) (auto simp: rbind_err e)
    have c: "map_err as_replica_cycle (detect_cycles es) \<noteq> Inl No_generation" for es
      by (cases "detect_cycles es") (auto simp: as_replica_cycle_def)
    have p: "validate_replica_payload w \<noteq> Inl No_generation" for w
      using m c by (auto simp: validate_replica_payload_def rbind_err ensure_err replica_uuid_def replica_hash_def)
    have "replica_checkpoint w \<noteq> Inl No_generation" for w
      by (auto simp: replica_checkpoint_def rbind_err ensure_err replica_uuid_def replica_hash_def)
    with p show ?thesis by (auto simp: generation_of_def rbind_err ensure_err validate_identity_def)
  qed
  show ?thesis unfolding load_unlocked_def
  proof (rule triple_andthen [OF p])
    fix h
    show "triple (\<lambda>d. d = D \<and> (\<exists>raw. rd_pointer D = Some raw \<and> parse_pointer raw = Inr h))
       (andthen (probe Replica_error) (\<lambda>_. andthen (look (\<lambda>d. map_of (rd_files d) h)) (\<lambda>x. case x of
          Some (Some raw) \<Rightarrow> pure_step (generation_of identity h raw) | _ \<Rightarrow> throw Replica_error)))
       (\<lambda>x d. d = D \<and> read_active identity D = Inr x) (\<lambda>e d. d = D \<and> (e = No_generation \<longrightarrow> rd_pointer D = None)) (\<lambda>d. d = D)"
    proof (rule triple_fact [where F = "\<exists>raw. rd_pointer D = Some raw \<and> parse_pointer raw = Inr h"], blast, elim exE conjE)
      fix raw assume r: "rd_pointer D = Some raw" "parse_pointer raw = Inr h"
      show ?thesis
        by (rule triple_andthen [OF triple_probe [where Q = "\<lambda>_ d. d = D"]], simp,
            rule triple_andthen [OF triple_look [where Q = "\<lambda>x d. d = D \<and> x = map_of (rd_files D) h"]], simp,
            rule triple_each)
          (auto intro!: triple_pure triple_throw simp: read_active_def r g split: option.split)
    qed
  qed
qed

text \<open>Checks and reads before anything is written.\<close>

lemma triple_check:
  assumes "\<And>e d. r = Inl e \<Longrightarrow> P d \<Longrightarrow> R e d" and "\<And>x. r = Inr x \<Longrightarrow> triple P (f x) Q R X"
  shows "triple P (andthen (pure_step r) f) Q R X"
proof (cases r)
  case (Inl e)
  with assms(1) show ?thesis by (auto simp: triple_def andthen_def pure_step_def throw_def)
next
  case (Inr x)
  from assms(2) [OF this] show ?thesis by (simp add: triple_def andthen_def pure_step_def give_def Inr)
qed

lemma triple_probed:
  assumes "\<And>d. P d \<Longrightarrow> R e d \<and> X d" and "triple P m Q R X"
  shows "triple P (andthen (probe e) (\<lambda>_. m)) Q R X"
  by (rule triple_andthen [OF triple_probe [where Q = "\<lambda>_. P"] assms(2)]) (use assms(1) in auto)

section \<open>Writing a generation\<close>

lemma generation_written:
  assumes "validate_replica_payload v = Inr p" and "replica_checkpoint w = Inr c" and "validate_identity identity c = Inr ()"
    and "fld p ''scope_id'' = fld c ''scope_id''"
  shows "generation_of identity (text_of (fld c ''snapshot_hash'')) (JObj [(''schema_version'', JInt 1), (''payload'', p), (''checkpoint'', c)]) = Inr (p, c)"
    and "is_sha256 (text_of (fld c ''snapshot_hash''))"
proof -
  have c: "c = w" by (rule replica_checkpoint_ok [OF assms(2)])
  have h: "replica_hash (fld c ''snapshot_hash'') = Inr ()" using assms(2) by (auto simp: replica_checkpoint_def rbind_ok each_ok c)
  then have s: "fld c ''snapshot_hash'' = JStr (text_of (fld c ''snapshot_hash''))" and i: "is_sha256 (text_of (fld c ''snapshot_hash''))"
    by (auto simp: replica_hash_def ensure_ok split: json.splits)
  show "is_sha256 (text_of (fld c ''snapshot_hash''))" by (rule i)
  have vc: "replica_checkpoint c = Inr c" using assms(2) by (simp add: c)
  have f: "fld (JObj [(''schema_version'', JInt 1), (''payload'', p), (''checkpoint'', c)]) ''schema_version'' = JInt 1"
    "fld (JObj [(''schema_version'', JInt 1), (''payload'', p), (''checkpoint'', c)]) ''payload'' = p"
    "fld (JObj [(''schema_version'', JInt 1), (''payload'', p), (''checkpoint'', c)]) ''checkpoint'' = c"
    "exact_keys [''schema_version'', ''payload'', ''checkpoint''] (JObj [(''schema_version'', JInt 1), (''payload'', p), (''checkpoint'', c)])"
    by (auto simp: fld_def exact_keys_def)
  show "generation_of identity (text_of (fld c ''snapshot_hash'')) (JObj [(''schema_version'', JInt 1), (''payload'', p), (''checkpoint'', c)]) = Inr (p, c)"
    using s assms(3,4) validate_payload_again [OF assms(1)] vc by (simp add: generation_of_def f)
qed

lemma pointer_written: "is_sha256 h \<Longrightarrow> parse_pointer (h @ [CHR 0x0A]) = Inr h"
proof -
  assume h: "is_sha256 h"
  have x: "list_all is_hex h" "len h = 64" using h by (simp_all add: is_sha256_def)
  have n: "byte (CHR 0x0A) = 10" by (simp add: byte_def)
  from x have a: "list_all (\<lambda>c. byte c < 128) (h @ [CHR 0x0A])" by (simp add: list_all_iff is_hex_ascii n)
  have "byte c \<noteq> 10" if "c \<in> set (rev h)" for c
  proof -
    from that x have "is_hex c" by (simp add: list_all_iff)
    then show ?thesis by (auto simp: is_hex_def is_digit_def)
  qed
  then have "dropWhile (\<lambda>c. byte c = 10) (rev h) = rev h"
    by (cases "rev h") auto
  with a x h show ?thesis by (simp add: parse_pointer_def n)
qed

lemma write_safe:
  assumes "validate_replica_payload v = Inr p" and "replica_checkpoint w = Inr c" and "validate_identity identity c = Inr ()"
    and "fld p ''scope_id'' = fld c ''scope_id''"
  shows "triple (\<lambda>d. d = D) (write_generation p c) (\<lambda>_ d. read_active identity d = Inr (p, c))
     (\<lambda>_ d. read_active identity d \<in> {read_active identity D, Inr (p, c)}) (\<lambda>d. read_active identity d \<in> {read_active identity D, Inr (p, c)})"
proof -
  let ?h = "text_of (fld c ''snapshot_hash'')"
  let ?g = "JObj [(''schema_version'', JInt 1), (''payload'', p), (''checkpoint'', c)]"
  let ?D1 = "D\<lparr>rd_files := (?h, Some ?g) # filter (\<lambda>kv. fst kv \<noteq> ?h) (rd_files D)\<rparr>"
  note g = generation_written [OF assms]
  have one: "read_active identity ?D1 \<in> {read_active identity D, Inr (p, c)}"
  proof (cases "rd_pointer D")
    case (Some raw)
    show ?thesis
    proof (cases "parse_pointer raw")
      case (Inr h)
      with Some g show ?thesis by (auto simp: read_active_def map_of_filter_ne)
    qed (simp add: read_active_def Some)
  qed (simp add: read_active_def)
  have two: "read_active identity (?D1\<lparr>rd_pointer := Some (?h @ [CHR 0x0A])\<rparr>) = Inr (p, c)"
    using g by (simp add: read_active_def pointer_written)
  show ?thesis unfolding write_generation_def Let_def
    by (rule triple_check, simp, rule triple_probed, simp,
        rule triple_andthen [OF triple_durable [where Q = "\<lambda>_ d. d = ?D1"]], use one in simp,
        rule triple_durable) (use one two in auto)
qed

section \<open>Installations\<close>

text \<open>The checkpoint of a new generation against the one it replaces.\<close>

definition later_checkpoint :: "json \<Rightarrow> json \<Rightarrow> bool" where
  "later_checkpoint old new \<longleftrightarrow> same_replica old new \<and> num old ''sequence'' < num new ''sequence''
     \<and> num old ''epoch'' \<le> num new ''epoch'' \<and> num old ''policy_version'' \<le> num new ''policy_version''"

definition replaces :: "rep_error + json \<times> json \<Rightarrow> rep_error + json \<times> json \<Rightarrow> bool" where
  "replaces x y \<longleftrightarrow> y = x \<or> (\<exists>p c. y = Inr (p, c) \<and> (case x of Inr (p0, c0) \<Rightarrow> later_checkpoint c0 c | Inl e \<Rightarrow> e = No_generation))"

lemma check_transition_later:
  assumes "check_transition old c anc = Inr ()" and "\<not> (num old ''sequence'' = num c ''sequence'' \<and> fld old ''snapshot_hash'' = fld c ''snapshot_hash'')"
  shows "later_checkpoint old c"
  using assms
  by (auto simp: check_transition_def validate_transition_def validate_verified_descendant_def rbind_ok ensure_ok later_checkpoint_def
      split: option.splits if_splits)

text \<open>What an installation that returns has established: the new generation is active, or it was already.\<close>

definition installed :: "(string \<times> json) list \<Rightarrow> json \<Rightarrow> json \<Rightarrow> replica_disk \<Rightarrow> bool" where
  "installed identity p c d \<longleftrightarrow> (\<exists>p' c'. read_active identity d = Inr (p', c') \<and> (p' = p \<or> py_eq p' p)
     \<and> num c' ''sequence'' = num c ''sequence'' \<and> fld c' ''snapshot_hash'' = fld c ''snapshot_hash'')"

lemma install_safe:
  "triple (\<lambda>d. d = D) (install identity v w a)
     (\<lambda>_ d. replaces (read_active identity D) (read_active identity d) \<and> (\<exists>p. validate_replica_payload v = Inr p \<and> installed identity p w d))
     (\<lambda>_ d. replaces (read_active identity D) (read_active identity d)) (\<lambda>d. replaces (read_active identity D) (read_active identity d))"
proof -
  let ?R = "\<lambda>d. replaces (read_active identity D) (read_active identity d)"
  let ?Q = "\<lambda>d. ?R d \<and> (\<exists>p. validate_replica_payload v = Inr p \<and> installed identity p w d)"
  have r0: "?R D" by (simp add: replaces_def)
  have cur: "triple (\<lambda>d. d = D) (load_current identity) (\<lambda>x d. d = D \<and> (case x of None \<Rightarrow> read_active identity D = Inl No_generation
       | Some y \<Rightarrow> read_active identity D = Inr y)) (\<lambda>_ d. d = D) (\<lambda>d. d = D)"
    unfolding load_current_def
    by (rule triple_rescue [OF triple_andthen [OF load_unlocked_error triple_give]])
      (auto intro!: triple_if triple_give triple_throw simp: read_active_def)
  have writing: "triple (\<lambda>d. d = D) (write_generation p c) (\<lambda>_. ?Q) (\<lambda>_. ?R) ?R"
    if p: "validate_replica_payload v = Inr p" and c: "replica_checkpoint w = Inr c" and i: "validate_identity identity c = Inr ()"
      and s: "fld p ''scope_id'' = fld c ''scope_id''"
      and f: "case read_active identity D of Inr (p0, c0) \<Rightarrow> later_checkpoint c0 c | Inl e \<Rightarrow> e = No_generation" for p c
  proof (rule triple_weaken [OF write_safe [OF p c i s]])
    have w: "c = w" by (rule replica_checkpoint_ok [OF c])
    have r: "?R d" if "read_active identity d = Inr (p, c)" for d using f that by (simp add: replaces_def)
    show "?Q d" if "read_active identity d = Inr (p, c)" for d using r [OF that] that p by (auto simp: installed_def w)
    show "?R d" if "read_active identity d \<in> {read_active identity D, Inr (p, c)}" for d
      using that r by (auto simp: replaces_def)
    then show "?R d" if "read_active identity d \<in> {read_active identity D, Inr (p, c)}" for d using that by blast
  qed
  have body: "triple (\<lambda>d. d = D \<and> (case x of None \<Rightarrow> read_active identity D = Inl No_generation | Some y \<Rightarrow> read_active identity D = Inr y))
      (case x of None \<Rightarrow> andthen (demand (anc = None)) (\<lambda>_. write_generation p c)
        | Some (cp, cc) \<Rightarrow> andthen (pure_step (check_transition cc c anc)) (\<lambda>_.
            if num cc ''sequence'' = num c ''sequence'' \<and> fld cc ''snapshot_hash'' = fld c ''snapshot_hash''
            then demand (py_eq cp p) else write_generation p c)) (\<lambda>_. ?Q) (\<lambda>_. ?R) ?R"
    if p: "validate_replica_payload v = Inr p" and c: "replica_checkpoint w = Inr c" and i: "validate_identity identity c = Inr ()"
      and s: "fld p ''scope_id'' = fld c ''scope_id''" for p c anc x
  proof -
    have w: "c = w" by (rule replica_checkpoint_ok [OF c])
    have none: "triple (\<lambda>d. d = D) (andthen (demand (anc = None)) (\<lambda>_. write_generation p c)) (\<lambda>_. ?Q) (\<lambda>_. ?R) ?R"
      if "read_active identity D = Inl No_generation"
      by (rule triple_check, use r0 in simp, rule writing [OF p c i s]) (simp add: that)
    have some: "triple (\<lambda>d. d = D) (andthen (pure_step (check_transition cc c anc)) (\<lambda>_.
            if num cc ''sequence'' = num c ''sequence'' \<and> fld cc ''snapshot_hash'' = fld c ''snapshot_hash''
            then demand (py_eq cp p) else write_generation p c)) (\<lambda>_. ?Q) (\<lambda>_. ?R) ?R"
      if act: "read_active identity D = Inr (cp, cc)" for cp cc
    proof (rule triple_check, use r0 in simp, rule triple_if)
      assume e: "num cc ''sequence'' = num c ''sequence'' \<and> fld cc ''snapshot_hash'' = fld c ''snapshot_hash''"
      show "triple (\<lambda>d. d = D) (demand (py_eq cp p)) (\<lambda>_. ?Q) (\<lambda>_. ?R) ?R"
        by (rule triple_pure) (use r0 act e p in \<open>auto simp: ensure_ok installed_def w\<close>)
    next
      fix u assume t: "check_transition cc c anc = Inr u"
        and n: "\<not> (num cc ''sequence'' = num c ''sequence'' \<and> fld cc ''snapshot_hash'' = fld c ''snapshot_hash'')"
      have "later_checkpoint cc c" by (rule check_transition_later) (use t n in simp_all)
      then show "triple (\<lambda>d. d = D) (write_generation p c) (\<lambda>_. ?Q) (\<lambda>_. ?R) ?R" by (intro writing [OF p c i s]) (simp add: act)
    qed
    show ?thesis
    proof (cases x)
      case None
      show ?thesis unfolding None option.case
        by (rule triple_fact [where F = "read_active identity D = Inl No_generation"], simp) (rule triple_pre [OF none], simp_all)
    next
      case (Some y)
      obtain cp cc where y: "y = (cp, cc)" by (cases y)
      show ?thesis unfolding Some y option.case prod.case
        by (rule triple_fact [where F = "read_active identity D = Inr (cp, cc)"], simp) (rule triple_pre [OF some], simp_all)
    qed
  qed
  have check: "\<And>r f. (\<And>x. r = Inr x \<Longrightarrow> triple (\<lambda>d. d = D) (f x) (\<lambda>_. ?Q) (\<lambda>_. ?R) ?R)
      \<Longrightarrow> triple (\<lambda>d. d = D) (andthen (pure_step r) f) (\<lambda>_. ?Q) (\<lambda>_. ?R) ?R"
    by (rule triple_check) (use r0 in simp_all)
  show ?thesis unfolding install_def
    by (rule check, rule check, rule check, rule check, rule check, rule triple_probed, use r0 in simp,
        rule triple_andthen [OF triple_weaken [OF cur]], assumption, use r0 in simp, use r0 in simp, rule body)
      (simp_all add: ensure_ok)
qed

section \<open>Runs\<close>

text \<open>Installations one after another, each with its own faults; the process may die in any of them.\<close>

fun run_installs :: "(string \<times> json) list \<Rightarrow> ((nat \<Rightarrow> fault) \<times> json \<times> json \<times> json option) list \<Rightarrow> replica_disk \<Rightarrow> replica_disk" where
  "run_installs identity [] d = d"
| "run_installs identity ((env, v, w, a) # qs) d = run_installs identity qs (fst (snd (install identity v w a env (d, 0))))"

definition never_back :: "rep_error + json \<times> json \<Rightarrow> rep_error + json \<times> json \<Rightarrow> bool" where
  "never_back x y \<longleftrightarrow> (case x of
       Inr (p, c) \<Rightarrow> (case y of Inr (p', c') \<Rightarrow> (p', c') = (p, c) \<or> later_checkpoint c c' | Inl e \<Rightarrow> False)
     | Inl e \<Rightarrow> e = No_generation \<or> y = x)"

lemma later_checkpoint_trans: "later_checkpoint a b \<Longrightarrow> later_checkpoint b c \<Longrightarrow> later_checkpoint a c"
  by (auto simp: later_checkpoint_def same_replica_def)

lemma never_back_refl: "never_back x x"
  by (auto simp: never_back_def split: sum.split)

lemma never_back_replaces: "replaces x y \<Longrightarrow> never_back y z \<Longrightarrow> never_back x z"
  by (auto simp: replaces_def never_back_def split: sum.splits intro: later_checkpoint_trans)

lemma install_replaces: "replaces (read_active identity d) (read_active identity (fst (snd (install identity v w a env (d, n)))))"
proof -
  obtain r d' n' where r: "install identity v w a env (d, n) = (r, d', n')" by (cases "install identity v w a env (d, n)")
  from triple_D [OF install_safe refl r] show ?thesis by (cases r) (simp_all add: r)
qed

lemma installs_never_back: "never_back (read_active identity d) (read_active identity (run_installs identity qs d))"
proof (induction qs arbitrary: d)
  case (Cons q qs)
  obtain env v w a where q: "q = (env, v, w, a)" by (cases q)
  show ?case unfolding q run_installs.simps by (rule never_back_replaces [OF install_replaces Cons.IH])
qed (simp add: never_back_refl)

section \<open>Reading\<close>

lemma reads_active: "reads (load identity) (\<lambda>x d. read_active identity d = Inr x)"
  unfolding load_def
  by (rule reads_andthen [OF reads_probe [where \<phi> = "\<lambda>_ _. True"] reads_conseq [OF reads_load]]) simp_all

lemma reads_contents: "reads (view_contents identity) (\<lambda>x d. \<exists>p c. read_active identity d = Inr (p, c) \<and> entries_and_secrets p = Inr x)"
  unfolding view_contents_def
  by (rule reads_andthen [OF reads_active]) (auto intro!: reads_pure split: prod.split)

lemma reads_secret: "reads (view_secret identity account)
   (\<lambda>s d. \<exists>p c es ss. read_active identity d = Inr (p, c) \<and> entries_and_secrets p = Inr (es, ss) \<and> map_of (rev ss) account = Some s)"
  unfolding view_secret_def
  by (rule reads_andthen [OF reads_contents]) (auto intro!: reads_give reads_throw split: option.split)

end
