(* ===== verification/Published.thy ===== *)
theory Published
  imports Projection_Proofs Replica_Proofs
begin

text \<open>
  From the vault of the master to the replica: a payload that \<open>project_projection.py\<close> builds is one that
  \<open>project_replica.py\<close> accepts, and the views of the replica show the projected entries with the secrets of
  the master's credential store.
\<close>

section \<open>References of records\<close>

lemma detect_cycles_cong:
  assumes "map (\<lambda>e. (e_name e, e_refs e)) es = map (\<lambda>e. (e_name e, e_refs e)) es'"
  shows "detect_cycles es = detect_cycles es'"
proof -
  have r: "refs_named es = refs_named es'" by (rule ext) (simp add: refs_named_def assms)
  have n: "map e_name es = map e_name es'" using arg_cong [OF assms, of "map fst"] by (simp add: comp_def)
  have f: "rfold (dfs_from g) es c = rfold (dfs_from g) es' c" for g c
    using n
  proof (induction es arbitrary: es' c)
    case (Cons e es)
    then obtain e' fs where es': "es' = e' # fs" and e: "e_name e = e_name e'" and fs: "map e_name es = map e_name fs"
      by (cases es') auto
    have d: "dfs_from g e = dfs_from g e'" by (rule ext) (simp add: dfs_from_def e)
    show ?case unfolding es' rfold.simps d by (rule arg_cong2 [where f = rbind], rule refl, rule ext, rule Cons.IH [OF fs])
  qed simp
  show ?thesis unfolding detect_cycles_def all_white_def r n f ..
qed

text \<open>The references that a projection writes are read back as they are.\<close>

lemma validated_refs_same:
  assumes "validate_refs (JList l) = Inr rs" and "\<forall>x \<in> set l. \<exists>r n. x = JObj [(''role'', r), (''name'', n)]"
  shows "rs = l"
proof -
  have "rmap validate_ref l = Inr rs" using assms(1) by (auto simp: validate_refs_def rbind_ok)
  then have "list_all2 (\<lambda>x y. validate_ref x = Inr y) l rs" by (simp add: rmap_ok)
  moreover have "y = x" if "x \<in> set l" "validate_ref x = Inr y" for x y
    using assms(2) that by (fastforce simp: validate_ref_def rbind_ok fld_def)
  ultimately have "list_all2 (=) l rs" by (auto simp: list_all2_conv_all_nth) (metis nth_mem)
  then show ?thesis by (simp add: list.rel_eq)
qed

lemma kept_refs_form:
  assumes "rmap (project_ref es bs q x) l = Inr rs" and "y \<in> set (kept rs)"
  shows "\<exists>r n. y = JObj [(''role'', r), (''name'', n)]"
proof -
  from assms(2) have "Some y \<in> set rs" by (simp add: set_kept)
  from rmap_set [OF assms(1) this] obtain r where "project_ref es bs q x r = Inr (Some y)" by blast
  then show ?thesis by (rule project_ref_D) auto
qed

section \<open>Records on both sides\<close>

lemma metadata_of_record:
  assumes "payload_record k accounts (e, projected_record e b refs) = Inr r" and "entry_requires_secret e \<longrightarrow> e_id e \<in> set accounts"
  shows "entry_metadata r = projected_record e b refs"
  using payload_record_D(2) [OF assms] by (simp add: entry_metadata_def) (simp add: projected_record_def fld_def)

text \<open>A record of a payload against the binding that it comes from.\<close>

lemma payload_entry:
  assumes b: "project_binding personal es bs b = Inr er" and r: "payload_record k accounts er = Inr r"
    and need: "entry_requires_secret (fst er) \<longrightarrow> e_id (fst er) \<in> set accounts"
    and small: "replica_secret (fld r ''secret'') = Inr ()" "replica_secret (fld r ''passphrase'') = Inr ()"
  obtains e where "replica_entry r = Inr e" and "from_untrusted_dict False False (entry_metadata r) = Inr e"
    and "e_id e = bi_entry b" and "e_name e = bi_local b" and "entry_metadata r = snd er"
    and "\<forall>x \<in> set (e_refs e). \<exists>b' \<in> set bs. fld x ''name'' = JStr (bi_local b')"
    and "\<forall>p. entry_from_dict (snd er) = Inr p \<longrightarrow> e_name p = e_name e \<and> e_refs p = e_refs e"
proof -
  obtain e0 r0 where er: "er = (e0, r0)" by (cases er)
  from project_binding_D [OF b [unfolded er]] obtain rs where e0: "bound_entry es (bi_entry b) = Inr e0"
    and rs: "rmap (project_ref es bs (requires_key e0) (ex_refs (bi_export b))) (e_refs e0) = Inr rs"
    and r0: "r0 = projected_record e0 b (kept rs)" and ok: "is_ok (from_untrusted_dict False False r0)" by metis
  note pr = r [unfolded er r0] and nd = need [unfolded er fst_conv]
  have m: "entry_metadata r = r0" unfolding r0 by (rule metadata_of_record [OF pr nd])
  from ok obtain e where e: "from_untrusted_dict False False r0 = Inr e" by (auto simp: is_ok_iff)
  note D = from_untrusted_dict_D [OF e]
  have "fld r0 ''refs'' = JList (kept rs)" by (simp add: r0 projected_fld)
  then have go: "get_or (JList []) r0 ''refs'' = JList (kept rs)" by (simp add: get_or_def r0 projected_record_def has_key_def)
  have refs: "e_refs e = kept rs"
    using D(9) [unfolded go] kept_refs_form [OF rs] by (intro validated_refs_same) auto
  have re: "replica_entry r = Inr e"
    using payload_record_D(3) [OF pr nd] small by (simp add: replica_entry_def m e)
  have lp: "least_privilege bs e0 b r0" using project_binding_private(1) [OF b [unfolded er]] .
  have names: "\<forall>x \<in> set (e_refs e). \<exists>b' \<in> set bs. fld x ''name'' = JStr (bi_local b')"
    using lp by (auto simp: least_privilege_def refs r0 projected_fld)
  have same: "e_name p = e_name e \<and> e_refs p = e_refs e" if "entry_from_dict (snd er) = Inr p" for p
  proof -
    from that have "as_list (get_or (JList []) r0 ''refs'') = Inr (e_refs p)" "e_name p = rec_name r0"
      by (auto simp: er entry_from_dict_def rbind_ok)
    with go refs D(3) show ?thesis by (simp add: as_list_def rec_name_def)
  qed
  have i: "e_id e = bi_entry b" "e_name e = bi_local b"
    using D(2,3) bound_entry_ok [OF e0] by (simp_all add: r0 projected_fld)
  show ?thesis by (rule that [OF re _ i _ names]) (simp_all add: m e er same [unfolded er snd_conv])
qed

section \<open>Finite texts\<close>

lemma finite_items_in: "finite_items xs \<longleftrightarrow> (\<forall>x \<in> set xs. finite_json x)"
  by (induction xs) auto

lemma accepted_finite:
  assumes "from_untrusted_dict False False (projected_record e b refs) = Inr x" and "\<forall>y \<in> set refs. \<exists>r n. y = JObj [(''role'', r), (''name'', n)]"
  shows "finite_json (projected_record e b refs)"
proof -
  let ?r = "projected_record e b refs"
  note D = from_untrusted_dict_D [OF assms(1)]
  have g: "get_or d ?r ''fields'' = fld ?r ''fields''" "get_or d ?r ''tags'' = fld ?r ''tags''" "get_or d ?r ''note'' = fld ?r ''note''"
    "get_or d ?r ''refs'' = fld ?r ''refs''" for d
    by (simp_all add: get_or_def projected_record_def has_key_def)
  have w: "wf_entry x" by (rule D(1))
  have 1: "finite_json (fld ?r ''fields'')" using w D(6) by (simp add: g wf_entry_def fields_ok_def)
  have "finite_json (JList (e_tags x))" using w by (auto simp: finite_items_in wf_entry_def)
  then have 2: "finite_json (fld ?r ''tags'')" by (simp only: D(7) g)
  have 3: "finite_json (fld ?r ''note'')" using w D(8) by (auto simp: g wf_entry_def)
  have rs: "e_refs x = refs" using D(9) by (intro validated_refs_same) (simp_all add: g projected_fld assms(2))
  then have 4: "finite_json (fld ?r ''refs'')"
    using w by (auto simp: projected_fld wf_entry_def finite_items_in wf_ref_def)
  have 5: "finite_json (fld ?r ''created_at'')" "finite_json (fld ?r ''updated_at'')" using w D(10,11) by (auto simp: wf_entry_def)
  show ?thesis using 1 2 3 4 5 unfolding projected_fld by (simp add: projected_record_def)
qed

lemma payload_record_finite:
  assumes "payload_record k accounts (e, projected_record e b refs) = Inr r" and "finite_json (projected_record e b refs)"
  shows "finite_json r"
proof -
  from assms(1) obtain s t where r: "r = JObj (members (projected_record e b refs) @ [(''secret'', s), (''passphrase'', t)])"
    and s: "(if e_id e \<in> set accounts then read_secret k (e_id e) else Inr JNull) = Inr s"
    and t: "(if e_type e = SSH_KEY \<and> passphrase_id (e_id e) \<in> set accounts then read_secret k (passphrase_id (e_id e)) else Inr JNull) = Inr t"
    unfolding payload_record_def by (auto simp only: rbind_ok prod.case sum.inject)
  have "finite_json s" "finite_json t" using s t by (auto simp: read_secret_ok split: if_splits)
  moreover have "finite_members (members (projected_record e b refs))" using assms(2) by (simp add: projected_record_def)
  ultimately show ?thesis by (auto simp: r finite_members_in)
qed

section \<open>The payload is accepted\<close>

definition small_payload :: "json \<Rightarrow> bool" where
  "small_payload p \<longleftrightarrow> len (default_text p) \<le> 16777216 \<and> len (items (fld p ''entries'')) \<le> 10000
     \<and> (\<forall>r \<in> set (items (fld p ''entries'')). replica_secret (fld r ''secret'') = Inr () \<and> replica_secret (fld r ''passphrase'') = Inr ())"

lemma bindings_distinct:
  assumes v: "vault_data d es c" and bs: "scope_bindings C personal sid es c = Inr bs"
    and al: "distinct (map (\<lambda>i. the (alias_of bs i)) (remdups (map bi_entry bs)))"
  shows "distinct (map bi_entry bs)" and "distinct (map bi_local bs)"
proof -
  have w: "wf_catalog (e_id ` set es) c" using v by (auto simp: vault_data_def intro: catalog_read)
  show e: "distinct (map bi_entry bs)"
  proof (cases personal)
    case True
    then have "list_all2 (\<lambda>e b. personal_binding C sid e = Inr b) (sort_key e_id es) bs"
      using bs by (simp add: scope_bindings_def rmap_ok)
    then have "list_all2 (\<lambda>e b. bi_entry b = e_id e) (sort_key e_id es) bs"
      by (rule list_all2_mono) (auto simp: personal_binding_def rbind_ok)
    then have "map bi_entry bs = map e_id (sort_key e_id es)" by (simp add: list_all2_conv_all_nth list_eq_iff_nth_eq)
    moreover have "mset (map e_id (sort_key e_id es)) = mset (map e_id es)" by (simp only: mset_map mset_sort)
    ultimately show ?thesis using vault_unique(3) [OF v] by (metis mset_eq_imp_distinct_iff)
  next
    case False
    then have b: "bs = sort_key bi_entry (bindings_of sid c)" using bs by (simp add: scope_bindings_def bindings_of_def)
    have "distinct (map (\<lambda>b. (bi_scope b, bi_entry b)) (ca_bindings c))" using w by (simp add: wf_catalog_def)
    then have "distinct (map (\<lambda>b. (bi_scope b, bi_entry b)) (bindings_of sid c))"
      unfolding bindings_of_def by (rule distinct_map_filter)
    then have "distinct (map bi_entry (bindings_of sid c))"
      by (auto simp: distinct_map bindings_of_def inj_on_def)
    moreover have "mset (map bi_entry bs) = mset (map bi_entry (bindings_of sid c))" by (simp only: b mset_map mset_sort)
    ultimately show ?thesis by (metis mset_eq_imp_distinct_iff)
  qed
  have "the (alias_of bs (bi_entry b)) = bi_local b" if "b \<in> set bs" for b
  proof -
    have "distinct (map fst (rev (map (\<lambda>b. (bi_entry b, bi_local b)) bs)))" using e by (simp add: rev_map [symmetric] comp_def)
    moreover have "(bi_entry b, bi_local b) \<in> set (rev (map (\<lambda>b. (bi_entry b, bi_local b)) bs))" using that by auto
    ultimately show ?thesis by (simp add: alias_of_def)
  qed
  then have m: "map (\<lambda>i. the (alias_of bs i)) (map bi_entry bs) = map bi_local bs" by simp
  show "distinct (map bi_local bs)" using al unfolding distinct_remdups_id [OF e] m .
qed

text \<open>The records of a payload, binding by binding, as the replica reads them.\<close>

lemma payload_entries:
  assumes v: "vault_data d es c" and p: "project_payload C fresh k personal sid x d = Inr (dx, p)"
    and small: "\<forall>r \<in> set (items (fld p ''entries'')). replica_secret (fld r ''secret'') = Inr () \<and> replica_secret (fld r ''passphrase'') = Inr ()"
  obtains bs qs rv rs where "scope_bindings C personal sid es c = Inr bs" and "sid \<in> sco_id ` set (ca_scopes c)"
    and "p = JObj [(''schema_version'', JInt (if personal then 2 else 1)), (''scope_id'', JStr sid),
       (''source_revision'', JStr rv), (''entries'', JList rs)]"
    and "rmap replica_entry rs = Inr qs" and "rmap (\<lambda>r. from_untrusted_dict False False (entry_metadata r)) rs = Inr qs"
    and "map e_id qs = map bi_entry bs" and "map e_name qs = map bi_local bs" and "distinct (map bi_entry bs)" and "distinct (map bi_local bs)"
    and "\<forall>q \<in> set qs. \<forall>x \<in> set (e_refs q). \<exists>b \<in> set bs. fld x ''name'' = JStr (bi_local b)"
    and "personal \<or> is_ok (detect_cycles qs)" and "\<exists>t. rv = sha256_hex C t"
    and "list_all2 (\<lambda>r b. \<exists>e \<in> set es. e_id e = bi_entry b \<and> own_secrets k e r \<and> fld r ''id'' = JStr (e_id e) \<and> finite_json r) rs bs"
proof -
  from p obtain records rv accounts ps where prep: "prepare_projection C personal sid d = Inr (records, rv)"
    and need: "\<forall>er \<in> set records. entry_requires_secret (fst er) \<longrightarrow> e_id (fst er) \<in> set accounts"
    and ps: "rmap (payload_record k accounts) records = Inr ps"
    and q: "p = JObj [(''schema_version'', JInt (if personal then 2 else 1)), (''scope_id'', JStr sid),
       (''source_revision'', JStr rv), (''entries'', JList ps)]" by (rule project_payload_D)
  from prep obtain bs where sid: "sid \<in> sco_id ` set (ca_scopes c)" and bs: "scope_bindings C personal sid es c = Inr bs"
    and al: "distinct (map (\<lambda>i. the (alias_of bs i)) (remdups (map bi_entry bs)))"
    and recs: "rmap (project_binding personal es bs) bs = Inr records"
    and cyc: "personal \<or> (\<exists>qs. rmap (\<lambda>er. entry_from_dict (snd er)) records = Inr qs \<and> is_ok (detect_cycles qs))"
    and rv: "canonical_hash C (JList (map source_item (zip records bs))) = Inr rv"
    unfolding prepare_vault [OF v] by (auto simp: rbind_ok ensure_ok map_err_ok is_ok_iff split: if_splits)
  have l: "length records = length bs" "length ps = length bs"
    using rmap_length [OF recs] rmap_length [OF ps] by simp_all
  have at: "project_binding personal es bs (bs ! i) = Inr (records ! i)" "payload_record k accounts (records ! i) = Inr (ps ! i)"
    "entry_requires_secret (fst (records ! i)) \<longrightarrow> e_id (fst (records ! i)) \<in> set accounts"
    "replica_secret (fld (ps ! i) ''secret'') = Inr ()" "replica_secret (fld (ps ! i) ''passphrase'') = Inr ()" if "i < length bs" for i
    using recs ps need small that l by (auto simp: rmap_ok list_all2_conv_all_nth q fld_def)
  define good where "good = (\<lambda>i q. replica_entry (ps ! i) = Inr q \<and> from_untrusted_dict False False (entry_metadata (ps ! i)) = Inr q
     \<and> e_id q = bi_entry (bs ! i) \<and> e_name q = bi_local (bs ! i) \<and> (\<forall>x \<in> set (e_refs q). \<exists>b \<in> set bs. fld x ''name'' = JStr (bi_local b))
     \<and> (\<forall>p. entry_from_dict (snd (records ! i)) = Inr p \<longrightarrow> e_name p = e_name q \<and> e_refs p = e_refs q))"
  have "\<exists>q. good i q" if i: "i < length bs" for i
  proof -
    obtain q where q: "replica_entry (ps ! i) = Inr q" "from_untrusted_dict False False (entry_metadata (ps ! i)) = Inr q"
      "e_id q = bi_entry (bs ! i)" "e_name q = bi_local (bs ! i)" "entry_metadata (ps ! i) = snd (records ! i)"
      "\<forall>x \<in> set (e_refs q). \<exists>b' \<in> set bs. fld x ''name'' = JStr (bi_local b')"
      "\<forall>p. entry_from_dict (snd (records ! i)) = Inr p \<longrightarrow> e_name p = e_name q \<and> e_refs p = e_refs q"
      by (rule payload_entry [OF at [OF i]])
    then have "good i q" unfolding good_def by blast
    then show ?thesis by blast
  qed
  then obtain f where f: "\<And>i. i < length bs \<Longrightarrow> good i (f i)" by metis
  define qs where "qs = map f [0..<length bs]"
  have lq: "length qs = length bs" and qn: "i < length bs \<Longrightarrow> good i (qs ! i)" for i by (simp_all add: qs_def f)
  have 1: "rmap replica_entry ps = Inr qs" "rmap (\<lambda>r. from_untrusted_dict False False (entry_metadata r)) ps = Inr qs"
    using qn l by (auto simp: rmap_ok list_all2_conv_all_nth lq good_def)
  have 2: "map e_id qs = map bi_entry bs" "map e_name qs = map bi_local bs"
    using qn by (auto simp: list_eq_iff_nth_eq lq good_def)
  have 3: "\<forall>q \<in> set qs. \<forall>x \<in> set (e_refs q). \<exists>b \<in> set bs. fld x ''name'' = JStr (bi_local b)"
    using qn unfolding good_def by (metis in_set_conv_nth lq)
  have 4: "personal \<or> is_ok (detect_cycles qs)"
  proof (cases personal)
    case False
    with cyc obtain ts where ts: "rmap (\<lambda>er. entry_from_dict (snd er)) records = Inr ts" "is_ok (detect_cycles ts)" by auto
    have "map (\<lambda>e. (e_name e, e_refs e)) ts = map (\<lambda>e. (e_name e, e_refs e)) qs"
      using ts(1) qn l by (auto simp: rmap_ok list_all2_conv_all_nth list_eq_iff_nth_eq lq good_def)
    with ts(2) show ?thesis using detect_cycles_cong by metis
  qed simp
  have 5: "list_all2 (\<lambda>r b. \<exists>e \<in> set es. e_id e = bi_entry b \<and> own_secrets k e r \<and> fld r ''id'' = JStr (e_id e) \<and> finite_json r) ps bs"
    unfolding list_all2_conv_all_nth
  proof (intro conjI allI impI)
    fix i assume "i < length ps"
    then have i: "i < length bs" by (simp add: l)
    obtain e r0 where er: "records ! i = (e, r0)" by (cases "records ! i")
    note pb = at(1) [OF i, unfolded er] and pr = at(2) [OF i, unfolded er] and nd = at(3) [OF i, unfolded er fst_conv]
    from project_binding_D [OF pb] obtain rs where r0: "r0 = projected_record e (bs ! i) (kept rs)"
      and rs: "rmap (project_ref es bs (requires_key e) (ex_refs (bi_export (bs ! i)))) (e_refs e) = Inr rs"
      and ok: "is_ok (from_untrusted_dict False False r0)" by metis
    note pr' = pr [unfolded r0]
    have fin: "finite_json r0" using ok accepted_finite kept_refs_form [OF rs] unfolding r0 is_ok_iff by blast
    have own: "own_secrets k e (ps ! i)" by (rule payload_record_D(1) [OF pr' nd])
    have fid: "fld (ps ! i) ''id'' = JStr (e_id e)" using payload_record_D(2) [OF pr' nd, of "''id''"] by (simp add: projected_fld)
    have "finite_json (ps ! i)" by (rule payload_record_finite [OF pr' fin [unfolded r0]])
    then show "\<exists>e \<in> set es. e_id e = bi_entry (bs ! i) \<and> own_secrets k e (ps ! i) \<and> fld (ps ! i) ''id'' = JStr (e_id e) \<and> finite_json (ps ! i)"
      using project_binding_private(2,3) [OF pb] own fid by auto
  qed (rule l(2))
  have 6: "\<exists>t. rv = sha256_hex C t" using rv by (auto simp: canonical_hash_def rbind_ok)
  show ?thesis by (rule that [OF bs sid q 1 2 bindings_distinct [OF v bs al] 3 4 6 5])
qed

lemma payload_accepted:
  assumes v: "vault_data d es c" and p: "project_payload C fresh k personal sid x d = Inr (dx, p)" and small: "small_payload p"
    and C: "\<And>m. is_sha256 (sha256_hex C m)"
  shows "validate_replica_payload p = Inr p"
proof -
  from small have s: "\<forall>r \<in> set (items (fld p ''entries'')). replica_secret (fld r ''secret'') = Inr () \<and> replica_secret (fld r ''passphrase'') = Inr ()"
    by (simp add: small_payload_def)
  obtain bs qs rv rs where "scope_bindings C personal sid es c = Inr bs" and sid: "sid \<in> sco_id ` set (ca_scopes c)"
    and q: "p = JObj [(''schema_version'', JInt (if personal then 2 else 1)), (''scope_id'', JStr sid),
       (''source_revision'', JStr rv), (''entries'', JList rs)]"
    and qs: "rmap replica_entry rs = Inr qs" and "rmap (\<lambda>r. from_untrusted_dict False False (entry_metadata r)) rs = Inr qs"
    and ids: "map e_id qs = map bi_entry bs" and names: "map e_name qs = map bi_local bs"
    and d: "distinct (map bi_entry bs)" "distinct (map bi_local bs)"
    and refs: "\<forall>q \<in> set qs. \<forall>x \<in> set (e_refs q). \<exists>b \<in> set bs. fld x ''name'' = JStr (bi_local b)"
    and cyc: "personal \<or> is_ok (detect_cycles qs)" and rv: "\<exists>t. rv = sha256_hex C t"
    and fin: "list_all2 (\<lambda>r b. \<exists>e \<in> set es. e_id e = bi_entry b \<and> own_secrets k e r \<and> fld r ''id'' = JStr (e_id e) \<and> finite_json r) rs bs"
    by (rule payload_entries [OF v p s])
  have f: "fld p ''schema_version'' = JInt (if personal then 2 else 1)" "fld p ''scope_id'' = JStr sid"
    "fld p ''source_revision'' = JStr rv" "fld p ''entries'' = JList rs"
    by (simp_all add: q fld_def)
  have "wf_catalog (e_id ` set es) c" using v by (auto simp: vault_data_def intro: catalog_read)
  then have u: "is_uuid4 sid" using sid by (auto simp: wf_catalog_def scope_ok_def)
  have x: "exact_keys PAYLOAD_FIELDS p" by (auto simp: q exact_keys_def)
  have "finite_items rs" unfolding finite_items_in
  proof
    fix r assume "r \<in> set rs"
    then obtain i where "i < length rs" "r = rs ! i" by (auto simp: in_set_conv_nth)
    with fin show "finite_json r" by (auto simp: list_all2_conv_all_nth)
  qed
  then have fi: "finite_json p" by (simp add: q)
  have sz: "len (default_text p) \<le> 16777216" "len rs \<le> 10000" using small by (simp_all add: small_payload_def f)
  have nm: "\<forall>e \<in> set qs. \<forall>r \<in> set (e_refs e). fld r ''name'' \<in> (\<lambda>e. JStr (e_name e)) ` set qs"
  proof (intro ballI)
    fix e r assume "e \<in> set qs" "r \<in> set (e_refs e)"
    with refs obtain b where b: "b \<in> set bs" "fld r ''name'' = JStr (bi_local b)" by blast
    then have "bi_local b \<in> set (map e_name qs)" unfolding names by simp
    with b(2) show "fld r ''name'' \<in> (\<lambda>e. JStr (e_name e)) ` set qs" by (auto simp: image_iff)
  qed
  have cy: "(if fld p ''schema_version'' = JInt 1 then map_err as_replica_cycle (detect_cycles qs) else Inr ()) = Inr ()"
    using cyc by (auto simp: f is_ok_iff)
  have h: "replica_hash (JStr rv) = Inr ()" "replica_uuid (JStr sid) = Inr ()"
    using rv C u by (auto simp: replica_hash_def replica_uuid_def)
  have "validate_replica_payload p = Inr (payload_dict p)"
    unfolding validate_replica_payload_def payload_dict_def
    using x fi sz qs d nm cy h by (simp add: f ids names)
  moreover have "payload_dict p = p" by (simp add: payload_dict_def f) (simp add: q)
  ultimately show ?thesis by simp
qed

section \<open>What the replica shows\<close>

text \<open>The accounts of the bound entries, with the secrets of the master's credential store.\<close>

definition master_secrets :: "keychain \<Rightarrow> string list \<Rightarrow> (string \<times> string) list \<Rightarrow> bool" where
  "master_secrets k ids ss \<longleftrightarrow> (\<forall>a s. map_of (rev ss) a = Some s \<longrightarrow>
     kc_get k a = Some s \<and> (\<exists>i \<in> set ids. a = i \<or> a = passphrase_id i))"

lemma entry_secrets_own:
  assumes "own_secrets k e r" and "fld r ''id'' = JStr (e_id e)" and "(a, s) \<in> set (entry_secrets r)"
  shows "kc_get k a = Some s \<and> (a = e_id e \<or> a = passphrase_id (e_id e))"
  using assms by (auto simp: entry_secrets_def own_secrets_def passphrase_id_def split: json.splits)

lemma entry_secrets_required:
  assumes "own_secrets k e r" and "fld r ''id'' = JStr (e_id e)" and "entry_requires_secret e"
  shows "e_id e \<in> fst ` set (entry_secrets r)"
  using assms by (auto simp: entry_secrets_def own_secrets_def)

lemma published_contents:
  assumes v: "vault_data d es c" and p: "project_payload C fresh k personal sid x d = Inr (dx, p)" and small: "small_payload p"
  shows "\<exists>bs qs ss. scope_bindings C personal sid es c = Inr bs \<and> entries_and_secrets p = Inr (qs, ss)
     \<and> map e_id qs = map bi_entry bs \<and> map e_name qs = map bi_local bs \<and> master_secrets k (map bi_entry bs) ss
     \<and> (\<forall>e \<in> set es. e_id e \<in> set (map bi_entry bs) \<and> entry_requires_secret e \<longrightarrow> map_of (rev ss) (e_id e) \<noteq> None)"
proof -
  from small have s: "\<forall>r \<in> set (items (fld p ''entries'')). replica_secret (fld r ''secret'') = Inr () \<and> replica_secret (fld r ''passphrase'') = Inr ()"
    by (simp add: small_payload_def)
  obtain bs qs rv rs where bs: "scope_bindings C personal sid es c = Inr bs" and "sid \<in> sco_id ` set (ca_scopes c)"
    and q: "p = JObj [(''schema_version'', JInt (if personal then 2 else 1)), (''scope_id'', JStr sid),
       (''source_revision'', JStr rv), (''entries'', JList rs)]"
    and "rmap replica_entry rs = Inr qs" and qs: "rmap (\<lambda>r. from_untrusted_dict False False (entry_metadata r)) rs = Inr qs"
    and ids: "map e_id qs = map bi_entry bs" and names: "map e_name qs = map bi_local bs"
    and d: "distinct (map bi_entry bs)" "distinct (map bi_local bs)"
    and refs: "\<forall>q \<in> set qs. \<forall>x \<in> set (e_refs q). \<exists>b \<in> set bs. fld x ''name'' = JStr (bi_local b)"
    and cyc: "personal \<or> is_ok (detect_cycles qs)" and rv: "\<exists>t. rv = sha256_hex C t"
    and own: "list_all2 (\<lambda>r b. \<exists>e \<in> set es. e_id e = bi_entry b \<and> own_secrets k e r \<and> fld r ''id'' = JStr (e_id e) \<and> finite_json r) rs bs"
    by (rule payload_entries [OF v p s])
  let ?ss = "concat (map entry_secrets rs)"
  have cont: "entries_and_secrets p = Inr (qs, ?ss)" by (simp add: entries_and_secrets_def q fld_def qs)
  have "master_secrets k (map bi_entry bs) ?ss" unfolding master_secrets_def
  proof (intro allI impI)
    fix a t assume "map_of (rev ?ss) a = Some t"
    then obtain r where r: "r \<in> set rs" "(a, t) \<in> set (entry_secrets r)" by (auto dest!: map_of_SomeD)
    then obtain i where "i < length rs" "r = rs ! i" by (auto simp: in_set_conv_nth)
    with own obtain e where e: "e_id e = bi_entry (bs ! i)" "own_secrets k e r" "fld r ''id'' = JStr (e_id e)" "i < length bs"
      by (auto simp: list_all2_conv_all_nth)
    have "e_id e \<in> set (map bi_entry bs)" using e(1,4) by simp
    with entry_secrets_own [OF e(2,3) r(2)] show "kc_get k a = Some t \<and> (\<exists>i \<in> set (map bi_entry bs). a = i \<or> a = passphrase_id i)"
      by blast
  qed
  moreover have "map_of (rev ?ss) (e_id e) \<noteq> None" if e: "e \<in> set es" "e_id e \<in> set (map bi_entry bs)" "entry_requires_secret e" for e
  proof -
    from e(2) obtain i where i: "i < length bs" "bi_entry (bs ! i) = e_id e" by (auto simp: in_set_conv_nth)
    with own obtain e' where e': "e' \<in> set es" "e_id e' = e_id e" "own_secrets k e' (rs ! i)" "fld (rs ! i) ''id'' = JStr (e_id e')" "i < length rs"
      by (auto simp: list_all2_conv_all_nth)
    have "e' = e" by (rule distinct_map_unique [OF vault_unique(3) [OF v] e'(1) e(1) e'(2)])
    with entry_secrets_required [OF e'(3,4)] e(3) have "e_id e \<in> fst ` set (entry_secrets (rs ! i))" by simp
    then have "e_id e \<in> fst ` set ?ss" using e'(5) by (auto simp: image_iff)
    then show ?thesis by (simp add: map_of_eq_None_iff)
  qed
  ultimately show ?thesis using bs cont ids names by blast
qed

end
