(* ===== verification/Example_Vault.thy ===== *)
theory Example_Vault
  imports Published Example_Data
begin

text \<open>
  A vault with two entries, one of them bound to a project scope: the input at which theorems about the
  projection are instantiated.
\<close>

definition plain_crypto :: crypto where
  "plain_crypto = toy\<lparr>sha256_hex := (\<lambda>m. hash_of (CHR ''0''))\<rparr>"

definition shared_entry :: entry where
  "shared_entry = \<lparr>e_id = ''kk:'' @ id_of (CHR ''a''), e_name = ''alpha'', e_type = API_KEY,
     e_fields = JObj [(''region'', JStr ''eu''), (''owner'', JStr ''me'')], e_tags = [], e_note = JStr ''private'', e_refs = [],
     e_created = JStr ''2024-01-01T00:00:00Z'', e_updated = JStr ''2024-01-01T00:00:00Z'', e_folder = JStr (id_of (CHR ''4'')),
     e_distribution = JStr ''project_allowed'', e_provenance = JObj [(''source'', JStr ''local'')], e_revision = JStr (id_of (CHR ''5''))\<rparr>"

definition other_entry :: entry where
  "other_entry = shared_entry\<lparr>e_id := ''kk:'' @ id_of (CHR ''b''), e_name := ''beta''\<rparr>"

definition shared_binding :: scope_entry where
  "shared_binding = \<lparr>bi_scope = id_of (CHR ''1''), bi_entry = e_id shared_entry, bi_local = ''token'',
     bi_export = \<lparr>ex_fields = [''region''], ex_note = False, ex_refs = False, ex_tags = False\<rparr>, bi_approval = hash_of (CHR ''0'')\<rparr>"

definition example_catalog :: catalog where
  "example_catalog = \<lparr>ca_folders = [\<lparr>fo_id = id_of (CHR ''4''), fo_name = ''Unsorted'', fo_parent = None, fo_position = 0\<rparr>],
     ca_projects = [\<lparr>pr_id = id_of (CHR ''2''), pr_slug = ''demo'', pr_name = ''Demo'', pr_state = ''active''\<rparr>],
     ca_scopes = [\<lparr>sco_id = id_of (CHR ''1''), sco_project = id_of (CHR ''2''), sco_environment = ''prod'', sco_vault = id_of (CHR ''3''),
       sco_epoch = 1, sco_version = 1\<rparr>], ca_bindings = [shared_binding], ca_dedup = [], ca_intents = []\<rparr>"

definition vault_with :: "entry list \<Rightarrow> metadata" where
  "vault_with es = \<lparr>md_version = 3, md_entries = map entry_to_dict es, md_tombstones = [],
     md_catalog = Some (catalog_to_dict example_catalog), md_extra = []\<rparr>"

definition example_keychain :: "string \<Rightarrow> keychain" where
  "example_keychain other = \<lparr>kc_ids = Some [e_id shared_entry, e_id other_entry],
     kc_get = (\<lambda>i. if i = e_id shared_entry then Some ''s3cret'' else if i = e_id other_entry then Some other else None)\<rparr>"

definition example_fresh :: "nat \<Rightarrow> string" where
  "example_fresh i = id_of (CHR ''f'')"

section \<open>The vaults are valid\<close>

lemma id_uuid: "is_hex c \<Longrightarrow> is_uuid4 (id_of c)"
  using is_id_of [of c] by (simp add: is_id_def)

lemma hex_digits: "is_hex (CHR ''0'')" "is_hex (CHR ''3'')" "is_hex (CHR ''4'')" "is_hex (CHR ''5'')" "is_hex (CHR ''f'')"
  by (simp_all add: is_hex_def is_digit_def byte_def)

lemma uuid_examples: "is_uuid4 (id_of (CHR ''1''))" "is_uuid4 (id_of (CHR ''2''))" "is_uuid4 (id_of (CHR ''3''))" "is_uuid4 (id_of (CHR ''4''))"
  "is_uuid4 (id_of (CHR ''5''))" "is_uuid4 (id_of (CHR ''a''))" "is_uuid4 (id_of (CHR ''b''))" "is_uuid4 (id_of (CHR ''f''))"
  by (simp_all add: id_uuid hex_chars hex_digits)

lemma example_timestamp: "is_timestamp ''2024-01-01T00:00:00Z''"
  by (rule ascii_timestamp; code_simp)

lemma text_lengths: "pylen ''alpha'' = 5" "pylen ''beta'' = 4" "pylen ''private'' = 7" "pylen ''Demo'' = 4" "pylen ''Unsorted'' = 8" "pylen ''token'' = 5"
  by (simp_all add: continuation_def byte_def)

lemma wf_examples: "wf_entry shared_entry" "wf_entry other_entry"
proof -
  have f: "fields_ok API_KEY (JObj [(''region'', JStr ''eu''), (''owner'', JStr ''me'')])"
    unfolding validate_fields_check [symmetric] by code_simp
  have p: "provenance_ok (JObj [(''source'', JStr ''local'')])" by (simp add: provenance_ok_def exact_keys_def fld_def)
  have n: "name_pattern ''alpha''" "name_pattern ''beta''" "no_controls True ''private''"
    by code_simp+
  note n = n text_lengths
  show "wf_entry shared_entry" "wf_entry other_entry"
    by (simp_all add: wf_entry_def shared_entry_def other_entry_def f p n uuid_examples example_timestamp del: pylen.simps)
qed

lemma example_catalog_wf: "e_id shared_entry \<in> known \<Longrightarrow> wf_catalog known example_catalog"
proof -
  assume i: "e_id shared_entry \<in> known"
  have "is_sha256 (hash_of (CHR ''0''))" using is_hash_of [OF hex_digits(1)] by (simp add: is_hash_def)
  then have h: "pylen (hash_of (CHR ''0'')) = 64" "list_all is_hex (hash_of (CHR ''0''))"
    using pylen_ascii [of "hash_of (CHR ''0'')"] by (auto simp: is_sha256_def list_all_iff is_hex_ascii)
  have b: "\<not> blank (c # d # s)" if "c \<in> {CHR ''D'', CHR ''U'', CHR ''t'', CHR ''k''}" "d \<in> {CHR ''e'', CHR ''n'', CHR ''o'', CHR ''k''}" for c d s
  proof -
    have "byte c < 128" "\<not> white (byte c)" "\<not> continuation d" using that by (elim insertE emptyE; simp add: byte_def white_def continuation_def)+
    then show ?thesis by (simp add: blank_def Let_def)
  qed
  have t: "no_controls False ''Demo''" "no_controls False ''Unsorted''" "no_controls False ''token''" "slug_pattern ''demo''" "slug_pattern ''prod''"
    by code_simp+
  have u: "c \<in> set (id_of (CHR ''a'')) \<Longrightarrow> byte c < 128" for c by (rule is_uuid4_ascii [OF uuid_examples(6)])
  have e: "pylen (e_id shared_entry) = 39" "no_controls False (e_id shared_entry)"
    using is_uuid4_chars [OF uuid_examples(6)] by (simp add: shared_entry_def continuation_def byte_def) (simp add: shared_entry_def id_of_def no_controls_def byte_def)
  have k: "e_id shared_entry = CHR ''k'' # CHR ''k'' # CHR '':'' # id_of (CHR ''a'')" by (simp add: shared_entry_def)
  have r: "forest (ca_folders example_catalog)"
    unfolding folder_cycles_iff [of _ "()", symmetric] by code_simp
  show ?thesis using i r t h e
    by (simp add: wf_catalog_def example_catalog_def folder_ok_def project_ok_def scope_ok_def binding_ok_def export_ok_def
        shared_binding_def uuid_examples b text_lengths k del: pylen.simps)
qed

lemma distinct_ids: "id_of (CHR ''a'') \<noteq> id_of (CHR ''b'')"
  by (simp add: example_ids)

lemma example_records:
  "unique_records (map entry_to_dict [shared_entry, other_entry])" "unique_records (map entry_to_dict [shared_entry])"
  by (simp_all add: unique_records_def shared_entry_def other_entry_def distinct_ids)

lemma shared_reads: "entry_from_dict (entry_to_dict shared_entry) = Inr shared_entry" "entry_from_dict (entry_to_dict other_entry) = Inr other_entry"
  by (simp_all add: entry_from_dict_def entry_to_dict_def shared_entry_def other_entry_def fld_def has_key_def as_list_def as_dict_def
      get_or_def entry_type_of_def rec_id_def rec_name_def)

lemma vault_examples:
  assumes "es = [shared_entry, other_entry] \<or> es = [shared_entry]"
  shows "vault_data (vault_with es) es example_catalog" and "validate_v3_data (vault_with es) = Inr ()"
proof -
  have in_es: "e_id shared_entry \<in> e_id ` set es" and wf: "\<forall>e \<in> set es. wf_entry e" using assms wf_examples by auto
  have w: "rmap (from_untrusted_dict False True) (map entry_to_dict es) = Inr es"
    using wf by (simp add: rmap_ok list_all2_conv_all_nth from_untrusted_to_dict)
  have c: "catalog_from_dict (e_id ` set es) (catalog_to_dict example_catalog) = Inr example_catalog"
    by (rule catalog_roundtrip [OF example_catalog_wf [OF in_es]])
  have u: "unique_records (map entry_to_dict es)" using assms example_records by auto
  have o: "is_obj (entry_to_dict e) \<and> validate_entry_id (fld (entry_to_dict e) ''id'') = Inr () \<and> validate_name (fld (entry_to_dict e) ''name'') = Inr ()"
    if "e \<in> set es" for e
    using wf that by (auto simp: entry_to_dict_fld validate_entry_id_ok validate_name_ok wf_entry_def)
  have i: "validate_record_identities (map entry_to_dict es) = Inr ()"
    unfolding validate_record_identities_ok using u o by (auto simp: identified_def validate_entry_id_ok validate_name_ok)
  have d: "distinct (map e_id es)" using assms by (auto simp: shared_entry_def other_entry_def distinct_ids)
  have f: "\<forall>e \<in> set es. e_folder e = JStr (id_of (CHR ''4''))" using assms by (auto simp: shared_entry_def other_entry_def)
  show v: "validate_v3_data (vault_with es) = Inr ()"
    using i w c d f by (simp add: validate_v3_data_def vault_with_def each_ok ensure_ok) (simp add: example_catalog_def)
  have "store_list (vault_with es) = Inr es"
    using assms by (auto simp: store_list_def vault_with_def shared_reads)
  then show "vault_data (vault_with es) es example_catalog"
    using v i c by (simp add: vault_data_def valid_store_checked) (simp add: vault_with_def)
qed

section \<open>Its projection\<close>

definition shared_record :: json where
  "shared_record = projected_record shared_entry shared_binding []"

definition shared_payload :: json where
  "shared_payload = JObj [(''schema_version'', JInt 1), (''scope_id'', JStr (id_of (CHR ''1''))), (''source_revision'', JStr (hash_of (CHR ''0''))),
     (''entries'', JList [JObj (members shared_record @ [(''secret'', JStr ''s3cret''), (''passphrase'', JNull)])])]"

definition shared_view :: entry where
  "shared_view = shared_entry\<lparr>e_name := ''token'', e_fields := JObj [(''region'', JStr ''eu'')], e_note := JStr [], e_folder := JNull,
     e_distribution := JStr ''local_only'', e_provenance := JNull, e_revision := JNull\<rparr>"

lemma shared_record_eq: "shared_record = entry_to_dict shared_view"
  by (simp add: shared_record_def projected_record_def entry_to_dict_def shared_view_def shared_entry_def shared_binding_def)

lemma shared_view_wf: "wf_entry shared_view"
proof -
  have f: "fields_ok API_KEY (JObj [(''region'', JStr ''eu'')])" unfolding validate_fields_check [symmetric] by code_simp
  have p: "name_pattern ''token''" "no_controls True []" by code_simp+
  have q: "provenance_ok JNull" by (simp add: provenance_ok_def)
  show ?thesis
    by (simp add: wf_entry_def shared_view_def shared_entry_def f p q text_lengths uuid_examples example_timestamp del: pylen.simps(2))
qed

lemma shared_accepted: "from_untrusted_dict False False shared_record = Inr shared_view"
proof -
  have k: "\<forall>k \<in> set (map fst (members shared_record)). k \<in> set LEGACY_ENTRY_KEYS" by (simp add: shared_record_def projected_record_def)
  have "from_untrusted_dict False True shared_record = Inr shared_view"
    unfolding shared_record_eq by (rule from_untrusted_to_dict [OF shared_view_wf])
  moreover have "ensure (\<forall>k \<in> set (map fst (members shared_record)). k \<in> set (LEGACY_ENTRY_KEYS
      @ (if False then SECRET_KEYS else []) @ (if b then PROJECT_ENTRY_KEYS else []))) Invalid = Inr ()" for b
    using k by (intro ensure_ok [THEN iffD2]) auto
  then have "from_untrusted_dict False False shared_record = from_untrusted_dict False True shared_record"
    by (simp only: from_untrusted_dict_def)
  ultimately show ?thesis by simp
qed

lemma shared_projected:
  assumes "shared_entry \<in> set es" and "distinct (map e_id es)"
  shows "project_binding False es [shared_binding] shared_binding = Inr (shared_entry, shared_record)"
proof -
  have "bound_entry es (bi_entry shared_binding) = Inr shared_entry"
    using assms by (simp add: bound_entry_unique shared_binding_def)
  then show ?thesis using shared_accepted unfolding project_binding_def
    by (simp add: shared_record_def requires_key_def Let_def kept_def) (simp add: shared_entry_def kept_def shared_record_def [symmetric])
qed

lemma escaped_id: "is_hex c \<Longrightarrow> len (concat (map escape_char (id_of c))) = 36" "is_hex c \<Longrightarrow> len (concat (map escape_char (hash_of c))) = 64"
proof -
  assume c: "is_hex c"
  then have "byte c < 128" "32 \<le> byte c" "byte c \<noteq> 34" "byte c \<noteq> 92" by (auto simp: is_hex_def is_digit_def)
  then have p: "plain (id_of c)" "plain (hash_of c)" by (auto simp: plain_def id_of_def hash_of_def) (simp_all add: byte_def)
  have "len (concat (map escape_char s)) = len s" if "plain s" for s
    using len_quote_plain [OF that] by (simp add: quote_def)
  from this [OF p(1)] this [OF p(2)]
  show "len (concat (map escape_char (id_of c))) = 36" "len (concat (map escape_char (hash_of c))) = 64"
    by (simp_all add: id_of_def hash_of_def)
qed

lemma shared_source_fits: "fits MAX_RECORD_SIZE (JList [source_item ((shared_entry, shared_record), shared_binding)])"
  by (rule fitsI) (simp_all add: source_item_def shared_record_eq entry_to_dict_def shared_view_def shared_entry_def shared_binding_def
      scope_entry_to_dict_def export_dict_def hex_chars hex_digits escaped_id quote_def escape_char_def byte_def)

lemma shared_prepared:
  assumes "es = [shared_entry, other_entry] \<or> es = [shared_entry]"
  shows "prepare_projection plain_crypto False (id_of (CHR ''1'')) (vault_with es) = Inr ([(shared_entry, shared_record)], hash_of (CHR ''0''))"
proof -
  have v: "vault_data (vault_with es) es example_catalog" by (rule vault_examples(1) [OF assms])
  have b: "scope_bindings plain_crypto False (id_of (CHR ''1'')) es example_catalog = Inr [shared_binding]"
    by (simp add: scope_bindings_def example_catalog_def shared_binding_def)
  have s: "id_of (CHR ''1'') \<in> sco_id ` set (ca_scopes example_catalog)" by (simp add: example_catalog_def)
  have p: "project_binding False es [shared_binding] shared_binding = Inr (shared_entry, shared_record)"
    by (rule shared_projected) (use assms vault_unique(3) [OF v] in auto)
  have r: "entry_from_dict shared_record = Inr shared_view"
    unfolding shared_record_eq
    by (simp add: entry_from_dict_def entry_to_dict_def shared_view_def shared_entry_def fld_def has_key_def as_list_def as_dict_def
        get_or_def entry_type_of_def rec_id_def rec_name_def)
  have d: "detect_cycles [shared_view] = Inr ()"
    by (simp add: detect_cycles_def all_white_def dfs_from_def refs_named_def shared_view_def shared_entry_def set_colour_def dfs_step_def)
  have h: "canonical_hash plain_crypto (JList [source_item ((shared_entry, shared_record), shared_binding)]) = Inr (hash_of (CHR ''0''))"
    using shared_source_fits by (simp add: canonical_hash_def canonical_bytes_eq plain_crypto_def)
  show ?thesis unfolding prepare_vault [OF v] by (simp add: s b p r d h alias_of_def)
qed

lemma shared_payload:
  assumes "es = [shared_entry, other_entry] \<or> es = [shared_entry]"
  shows "project_payload plain_crypto example_fresh (example_keychain other) False (id_of (CHR ''1'')) None (vault_with es)
    = Inr (vault_with es, shared_payload)"
proof -
  have v: "vault_data (vault_with es) es example_catalog" "validate_v3_data (vault_with es) = Inr ()" by (rule vault_examples [OF assms])+
  have m: "materialize (reset_entries (md_entries (vault_with es))) = md_entries (vault_with es)"
    by (rule reset_entries_ok(2) [OF vault_unique(1) [OF v(1)]])
  have k: "list_all (has_key (entry_to_dict e)) PROJECT_ENTRY_KEYS" if "e \<in> set es" for e
    using that assms by (auto simp: has_key_def entry_to_dict_def shared_entry_def other_entry_def)
  have n: "normalize_record u (entry_to_dict e) = entry_to_dict e" if "e \<in> set es" for u e
    using k [OF that] by (simp add: normalize_record_def setdefault_def)
  have "normalize_v3_entries example_fresh (map entry_to_dict es) = map entry_to_dict es"
    using n by (auto intro!: nth_equalityI simp: normalize_v3_entries_def nth_enumerate_eq)
  then have f: "commit_slots example_fresh (reset_entries (md_entries (vault_with es))) (vault_with es) = Inr (vault_with es)"
    using v(2) unfolding commit_slots_def finish_write_def m
    by (simp add: vault_with_def validate_v3_data_def rbind_ok)
  have i: "e_id other_entry \<noteq> e_id shared_entry" using distinct_ids by (simp add: shared_entry_def other_entry_def)
  have x: "e_id shared_entry \<noteq> passphrase_id (e_id shared_entry)" "e_type shared_entry = API_KEY"
    by (simp_all add: passphrase_id_def shared_entry_def)
  show ?thesis
    unfolding project_payload_def shared_prepared [OF assms]
    by (simp add: f example_keychain_def payload_record_def read_secret_def x shared_payload_def)
qed

end
