(* ===== verification/Example_Catalog.thy ===== *)
theory Example_Catalog
  imports Catalog_Trace Example_Vault
begin

text \<open>
  A publication round on the example vault: capture, an unassignment, acknowledgement.
\<close>

definition catalog_vault :: "catalog \<Rightarrow> metadata" where
  "catalog_vault c = (vault_with [shared_entry, other_entry])\<lparr>md_catalog := Some (catalog_to_dict c)\<rparr>"

text \<open>Catalogs that fit the entries of the example vault.\<close>

definition fitting :: "catalog \<Rightarrow> bool" where
  "fitting c \<longleftrightarrow> wf_catalog {e_id shared_entry, e_id other_entry} c \<and> (\<exists>f \<in> set (ca_folders c). fo_id f = id_of (CHR ''4''))"

lemma fitting_valid:
  assumes "fitting c"
  shows "validate_v3_data (catalog_vault c) = Inr ()" and "valid_store (catalog_vault c)" and "read_catalog_state (catalog_vault c) = Inr c"
proof -
  let ?es = "[shared_entry, other_entry]"
  note base = vault_examples [of ?es, OF disjI1 [OF refl]]
  have s: "store_list (vault_with ?es) = Inr ?es" and vs: "valid_store (vault_with ?es)" using base(1) by (simp_all add: vault_data_def)
  have c: "catalog_from_dict (e_id ` set ?es) (catalog_to_dict c) = Inr c"
    using catalog_roundtrip [of "e_id ` set ?es" c] assms by (simp add: fitting_def)
  from base(2) have w: "rmap (from_untrusted_dict False True) (md_entries (vault_with ?es)) = Inr ?es"
    using wf_examples by (simp add: vault_with_def from_untrusted_to_dict)
  have f: "\<forall>e \<in> set ?es. e_folder e = JStr (id_of (CHR ''4''))" by (simp add: shared_entry_def other_entry_def)
  have i: "validate_record_identities (md_entries (vault_with ?es)) = Inr ()" using vs by (simp add: valid_store_checked)
  have d: "distinct (map e_id ?es)" by (simp add: shared_entry_def other_entry_def distinct_ids)
  show v: "validate_v3_data (catalog_vault c) = Inr ()"
  proof -
    have g: "each (\<lambda>e. ensure (e_folder e = JNull \<or> (\<exists>f \<in> set (ca_folders c). e_folder e = JStr (fo_id f))) Store_error) ?es = Inr ()"
    proof -
      have "\<exists>f \<in> set (ca_folders c). id_of (CHR ''4'') = fo_id f" using assms by (metis fitting_def)
      with f show ?thesis by simp
    qed
    have t: "md_extra (catalog_vault c) = []" "md_catalog (catalog_vault c) = Some (catalog_to_dict c)" "md_version (catalog_vault c) = 3"
      "md_tombstones (catalog_vault c) = []" "md_entries (catalog_vault c) = md_entries (vault_with ?es)"
      by (simp_all add: catalog_vault_def vault_with_def)
    show ?thesis
      unfolding validate_v3_data_def t i w rbind_Inr map_err_simps option.sel c using d g by simp
  qed
  then show "valid_store (catalog_vault c)" using i by (simp add: valid_store_checked catalog_vault_def)
  have "store_list (catalog_vault c) = Inr ?es" using s by (simp add: store_list_def catalog_vault_def)
  with c show "read_catalog_state (catalog_vault c) = Inr c"
    by (simp add: read_catalog_state_def catalog_state_def) (simp add: catalog_vault_def vault_with_def)
qed

lemma fitting_opened:
  assumes "fitting c"
  shows "tx_state (opened (catalog_vault c)) = Inr c"
    and "fitting c' \<Longrightarrow> tx_save c' (opened (catalog_vault c)) = Inr (fst (opened (catalog_vault c)), catalog_vault c')"
    and "fitting c' \<Longrightarrow> commit_slots example_fresh (fst (opened (catalog_vault c))) (catalog_vault c') = Inr (catalog_vault c')"
proof -
  let ?es = "[shared_entry, other_entry]"
  note v = fitting_valid [OF assms]
  note o = opened_reads [OF v(2)]
  show "tx_state (opened (catalog_vault c)) = Inr c" using o(3) v(3) by simp
  have m: "materialize (fst (opened (catalog_vault c))) = map entry_to_dict ?es"
    using reset_entries_ok(2) [OF valid_store_unique [OF v(2)]] by (simp add: opened_def) (simp add: catalog_vault_def vault_with_def)
  have ids: "{i. sl_by_id (fst (opened (catalog_vault c))) i \<noteq> None} = {e_id shared_entry, e_id other_entry}"
    using by_id_None [OF o(1)] unfolding m by auto
  show "tx_save c' (opened (catalog_vault c)) = Inr (fst (opened (catalog_vault c)), catalog_vault c')" if "fitting c'"
    using catalog_roundtrip [of "{e_id shared_entry, e_id other_entry}" c'] that
    unfolding tx_save_def set_catalog_state_def ids
    by (simp add: fitting_def opened_def) (simp add: catalog_vault_def vault_with_def)
  show "commit_slots example_fresh (fst (opened (catalog_vault c))) (catalog_vault c') = Inr (catalog_vault c')" if "fitting c'"
  proof -
    have k: "list_all (has_key (entry_to_dict e)) PROJECT_ENTRY_KEYS" if "e \<in> set ?es" for e
      using that by (auto simp: has_key_def entry_to_dict_def shared_entry_def other_entry_def)
    have "normalize_record u (entry_to_dict e) = entry_to_dict e" if "e \<in> set ?es" for u e
      using k [OF that] by (simp add: normalize_record_def setdefault_def)
    then have n: "normalize_v3_entries example_fresh (map entry_to_dict ?es) = map entry_to_dict ?es"
      by (auto intro!: nth_equalityI simp: normalize_v3_entries_def nth_enumerate_eq)
    have e: "(catalog_vault c')\<lparr>md_entries := map entry_to_dict ?es\<rparr> = catalog_vault c'"
      "md_entries (catalog_vault c') = map entry_to_dict ?es" "md_version (catalog_vault c') = 3"
      by (simp_all add: catalog_vault_def vault_with_def)
    have i: "validate_record_identities (map entry_to_dict ?es) = Inr ()"
      using fitting_valid(2) [OF that] by (simp only: valid_store_checked e(2))
    show ?thesis
      unfolding commit_slots_def m e(1) finish_write_def e(2,3) i rbind_Inr n Let_def e(1) fitting_valid(1) [OF that] by simp
  qed
qed

lemma fitting_step:
  assumes "fitting c" and "fitting c'" and "precheck q = Inr ()"
    and "catalog_body C q (opened (catalog_vault c)) = Inr ((fst (opened (catalog_vault c)), catalog_vault c'), r)"
  shows "catalog_step C example_fresh q (catalog_vault c) = Inr (catalog_vault c', r)"
  using assms(3,4) fitting_opened(3) [OF assms(1,2)] by (simp add: catalog_step_def in_transaction_def opened_def)

text \<open>The catalogs of the round: the example, and what the unassignment leaves.\<close>

definition unassigned_intent :: intent where
  "unassigned_intent = \<lparr>in_scope = id_of (CHR ''1''), in_entry = e_id shared_entry, in_reason = ''entry_unassigned'',
     in_desired = 1, in_applied = 0, in_content = None\<rparr>"

definition unassigned_catalog :: catalog where
  "unassigned_catalog = example_catalog\<lparr>ca_bindings := [], ca_intents := [intent_dict unassigned_intent]\<rparr>"

lemma fitting_example: "fitting example_catalog"
  using example_catalog_wf by (simp add: fitting_def) (simp add: example_catalog_def json_object_ok)

lemma intent_json: "json_object (intent_dict unassigned_intent) = Inr (intent_dict unassigned_intent)"
proof -
  have "show_int 1 = ''1''" "show_int 0 = ''0''" by code_simp+
  then show ?thesis
    by (simp add: json_object_def intent_dict_def unassigned_intent_def shared_entry_def default_text_def hex_chars hex_digits escaped_id
      quote_def escape_char_def byte_def)
qed

lemma fitting_unassigned: "fitting unassigned_catalog"
  using fitting_example intent_json
  by (simp add: fitting_def wf_catalog_def unassigned_catalog_def) (simp add: example_catalog_def json_object_ok)

lemma example_capture:
  "catalog_step C example_fresh (CaCapture (id_of (CHR ''1''))) (catalog_vault example_catalog) = Inr (catalog_vault example_catalog, [])"
proof (rule fitting_step [OF fitting_example fitting_example])
  have "compact_publication_intents example_catalog = Inr ([], False)"
    by (simp add: compact_publication_intents_def highwater_def example_catalog_def)
  moreover have "the_scope example_catalog (id_of (CHR ''1'')) = Inr (hd (ca_scopes example_catalog))"
    by (simp add: the_scope_def the_item_def example_catalog_def)
  ultimately show "catalog_body C (CaCapture (id_of (CHR ''1''))) (opened (catalog_vault example_catalog))
      = Inr ((fst (opened (catalog_vault example_catalog)), catalog_vault example_catalog), [])"
    by (simp add: capture_publications_def fitting_opened(1) [OF fitting_example] captured_from_def) (simp add: opened_def)
qed (simp add: precheck_def)

lemma example_unassign:
  "catalog_step C example_fresh (CaUnassign (id_of (CHR ''1'')) (e_id shared_entry)) (catalog_vault example_catalog)
     = Inr (catalog_vault unassigned_catalog, [])"
proof (rule fitting_step [OF fitting_example fitting_unassigned])
  have "the_scope example_catalog (id_of (CHR ''1'')) = Inr (hd (ca_scopes example_catalog))"
    by (simp add: the_scope_def the_item_def example_catalog_def)
  moreover have "filter (\<lambda>b. bi_scope b = id_of (CHR ''1'') \<and> bi_entry b = e_id shared_entry) (ca_bindings example_catalog) = [shared_binding]"
    by (simp add: example_catalog_def shared_binding_def)
  moreover have "append_publication_intent (id_of (CHR ''1'')) (e_id shared_entry) ''entry_unassigned''
      (example_catalog\<lparr>ca_bindings := remove1 shared_binding (ca_bindings example_catalog)\<rparr>) = Inr unassigned_catalog"
    by (simp add: append_publication_intent_def compact_publication_intents_def highwater_def next_desired_revision_def
        unassigned_catalog_def unassigned_intent_def Let_def) (simp add: example_catalog_def)
  ultimately show "catalog_body C (CaUnassign (id_of (CHR ''1'')) (e_id shared_entry)) (opened (catalog_vault example_catalog))
      = Inr ((fst (opened (catalog_vault example_catalog)), catalog_vault unassigned_catalog), [])"
    by (simp add: without_result_def unassign_def fitting_opened(1) [OF fitting_example]
        fitting_opened(2) [OF fitting_example fitting_unassigned])
qed (simp add: precheck_def)

lemma example_mark:
  "catalog_step C example_fresh (CaMark (id_of (CHR ''1'')) (as_captured [])) (catalog_vault unassigned_catalog)
     = Inr (catalog_vault unassigned_catalog, [])"
proof (rule fitting_step [OF fitting_unassigned fitting_unassigned])
  have i: "ca_intents unassigned_catalog = map intent_dict [unassigned_intent]" by (simp add: unassigned_catalog_def)
  have "compact_form [unassigned_intent]" by (simp add: compact_form_def well_numbered_def unassigned_intent_def)
  from compacted_groups_dicts [OF i this] have c: "\<exists>b. compact_publication_intents unassigned_catalog = Inr ([unassigned_intent], b)"
    by (simp add: compact_iff)
  have a: "acknowledge_revision (id_of (CHR ''1'')) (as_captured []) unassigned_intent = unassigned_intent"
    by (simp add: acknowledge_revision_def as_captured_def fld_def)
  have s: "the_scope unassigned_catalog (id_of (CHR ''1'')) = Inr (hd (ca_scopes unassigned_catalog))"
    by (simp add: the_scope_def the_item_def unassigned_catalog_def example_catalog_def)
  have "unassigned_catalog\<lparr>ca_intents := [intent_dict unassigned_intent]\<rparr> = unassigned_catalog" by (simp add: unassigned_catalog_def)
  with c a s show "catalog_body C (CaMark (id_of (CHR ''1'')) (as_captured [])) (opened (catalog_vault unassigned_catalog))
      = Inr ((fst (opened (catalog_vault unassigned_catalog)), catalog_vault unassigned_catalog), [])"
    by (auto simp: without_result_def mark_publications_applied_def fitting_opened(1) [OF fitting_unassigned]
        fitting_opened(2) [OF fitting_unassigned fitting_unassigned])
qed (simp add: precheck_def revisions_valid_def as_captured_def)

lemma example_published: "publishes (CaUnassign s e) (catalog_vault example_catalog) = {(s, e)}"
  by (simp add: publishes_def fitting_valid(3) [OF fitting_example])

end
