(* ===== verification/Spec2Isabelle.thy ===== *)
theory Spec2Isabelle
  imports Relay_History Relay_Budget Sync_Budget Commit_Total Enrollment_Proofs Example_Data Refs Store_Valid Trust_Head Merge_Convergence Master_Atomic Example_Catalog
begin

text \<open>
  Keys Keeper, a secrets manager with two encrypted relays (the Python package
  \<open>src/src/keys_keeper\<close>).

  \<^bold>\<open>The program.\<close> A vault is a metadata file of entries (\<open>store.py\<close>, \<open>models.py\<close>,
  \<open>project_models.py\<close>, \<open>refs.py\<close>) whose secrets lie in the credential store of the operating
  system. Every change of the vault goes through \<open>service.py\<close> and the mutation manager
  (\<open>master_journal.py\<close>), which stages an encrypted record in \<open>operation_journal.py\<close>, changes
  the credential accounts and the metadata, and closes the record; recovery runs before every
  change. The devices of one owner exchange the whole vault as sealed snapshots under a chain of
  signed commits (\<open>sync_protocol_v2.py\<close>, client \<open>sync_vps.py\<close>, server \<open>sync_server.py\<close>) and merge
  divergent snapshots (\<open>vault_snapshot.py\<close>). Parts of the vault are shared with contributors
  through policies, snapshots, create requests and receipts (\<open>project_protocol.py\<close>) kept by a
  ciphertext-only relay (\<open>project_server.py\<close> on the accounting of \<open>relay_storage.py\<close>): the master
  publishes the projection of one scope (\<open>project_projection.py\<close>) and a contributor installs it as a
  read-only replica (\<open>project_replica.py\<close>). Request
  bodies pass the structure check of \<open>request_json.py\<close>.

  \<^bold>\<open>Theories and code.\<close> Definitions keep the names of the source; a private function loses
  its leading underscore.
  \<^item> \<open>Prelude\<close>: results \<open>error + 'a\<close> with the classes of exceptions that the program
    distinguishes, and facts on lists, options and folds. \<open>Transactions\<close>: requests against a store
    that rolls back what raises. \<open>Durable\<close>: programs of durable steps, each of which may succeed,
    raise before or after its effect, or be the last one of the process.
  \<^item> \<open>Json\<close>, \<open>Json_Reader\<close>, \<open>Json_Roundtrip\<close>, \<open>Encoding\<close>, \<open>Text_Checks\<close>, \<open>Request_Json\<close>: what the
    program uses of \<open>json\<close>, \<open>base64\<close>, UTF-8 and \<open>re\<close>, written out and proved to invert each other, and
    \<open>request_json.py\<close>.
  \<^item> \<open>Protocol_Core\<close>, \<open>Policy\<close>, \<open>Policy_Chain\<close>, \<open>Project_Records\<close> with \<open>Records_Proofs\<close>,
    \<open>Record_Sizes\<close>, \<open>Record_Roundtrips\<close>, \<open>Record_Soundness\<close>, \<open>Signed_Roundtrips\<close>, and \<open>Enrollment\<close> with
    \<open>Enrollment_Proofs\<close>: \<open>project_protocol.py\<close>. What \<open>urlsplit\<close> and \<open>ipaddress\<close> make of a text is an argument.
  \<^item> \<open>Relay_Storage\<close>: \<open>relay_storage.py\<close>. \<open>Relay\<close> with \<open>Relay_Steps\<close>, \<open>Relay_Invariants\<close>,
    \<open>Relay_History\<close>, \<open>Relay_Budget\<close>: \<open>project_server.py\<close>, tables as lists of rows in insertion order.
  \<^item> \<open>Commit_Protocol\<close> with \<open>Commit_Proofs\<close>, \<open>Commit_Total\<close>: \<open>sync_protocol_v2.py\<close>. \<open>Sync_Server\<close>
    with \<open>Sync_Steps\<close>, \<open>Sync_Invariants\<close>, \<open>Sync_Budget\<close>: \<open>sync_server.py\<close>.
  \<^item> \<open>Trust_Statements\<close>, \<open>Trust_State\<close>, \<open>Trust_Devices\<close>, \<open>Trust_History\<close>, \<open>Trust_Head\<close>: what a device
    believes of its relay, \<open>sync_vps.py\<close>.
  \<^item> \<open>Entries\<close> with \<open>Entry_Proofs\<close>: \<open>models.py\<close>. \<open>Catalog\<close> with \<open>Catalog_Proofs\<close>:
    \<open>project_models.py\<close>. \<open>Stored_Form\<close>: which JSON values stand for which entries and catalogs. \<open>Refs\<close>: \<open>refs.py\<close>. \<open>Store\<close> with \<open>Store_Proofs\<close>, \<open>Store_Valid\<close>: \<open>store.py\<close>.
    \<open>Vault_Merge\<close> with \<open>Merge_Names\<close>, \<open>Merge_Proofs\<close>, \<open>Merge_Convergence\<close>: \<open>vault_snapshot.py\<close>.
  \<^item> \<open>Journal\<close> with \<open>Journal_Proofs\<close>: \<open>operation_journal.py\<close>. \<open>Master_State\<close>, \<open>Master_Pipeline\<close>,
    \<open>Master_Operations\<close> with \<open>Master_Accounts\<close>, \<open>Master_Recovery\<close>, \<open>Master_Atomic\<close>: \<open>master_journal.py\<close>
    and \<open>service.py\<close>.
  \<^item> \<open>Catalog_Service\<close> with \<open>Publications\<close>, \<open>Catalog_Changes\<close>, \<open>Catalog_Trace\<close>: \<open>project_service.py\<close>.
  \<^item> \<open>Projection\<close> with \<open>Projection_Proofs\<close>: \<open>project_projection.py\<close>, what a scope publishes.
    \<open>Replica\<close> with \<open>Replica_Proofs\<close>: \<open>project_replica.py\<close>, what a contributor installs and reads.
    \<open>Published\<close>: every projected payload passes the replica's validation.
  \<^item> \<open>Example_Data\<close>, \<open>Example_Vault\<close>, \<open>Example_Catalog\<close>: a toy cryptography that meets the hypotheses and a concrete
    vault with a shared scope, for the witnesses.

  \<^bold>\<open>Conventions.\<close> Untrusted data are values of \<open>json\<close>, objects as lists of members in their
  order. A raise is \<open>Inl\<close> of its exception, and exceptions the code does not catch stay visible.
  Integers of Python are \<open>int\<close>; the bounds are those the code checks. Cryptography (Ed25519,
  X25519, AES-256-GCM, HKDF, SHA-256) is one record of functions \<open>C\<close>, an argument of every
  definition that uses it; \<open>crypto_ok\<close> states its documented behaviour (sizes, decryption inverts
  encryption, a signature of a key verifies) and is assumed only where a theorem says so. Clocks, random
  values and generated identifiers are arguments.

  \<^bold>\<open>Lemmas.\<close> Each reader has an equivalence that states exactly what it accepts, in terms of the data and
  not of the checks (\<open>wf_policy\<close>, \<open>wf_entry\<close>, \<open>wf_catalog\<close>, \<open>valid_store\<close>, \<open>sealed_ok\<close>, \<open>signed_record\<close>); each writer a
  round trip with its reader. The relays have an invariant, kept by every handler that returns and by
  the roll back of every handler that raises, and an order in which the database only grows
  (\<open>relay_le\<close>, \<open>sync_le\<close>); the vault relay refines the inductive relation \<open>db_step\<close>. The slot index
  of a store transaction refines the scan of its list. The journal has triples of \<open>Durable\<close> that name every
  state in which an operation can stop, from which \<open>Master_Recovery\<close> proves the invariant of one
  mutation through crashes, failing steps and repeated recoveries; the locale \<open>mutation_kind\<close>
  states what the pipeline needs of a kind of mutation and is interpreted on all five.

  \<^bold>\<open>Bounds and fuel.\<close> The JSON reader recurses on a number that its callers compute from the
  length of the text, and the search for a free name on one more than the number of occupied
  names. The round trips and \<open>names_always_resolved\<close> show that they always suffice. The walks over graphs
  and trees (the search for cycles of references, the ancestors of a folder, the structure of a
  request, the pages of the relay) are functions with a measure that decreases. The walk to the
  ancestors of a folder has no bound in the code and is a partial function; \<open>folder_walk_ends\<close> shows
  that it ends on every accepted catalog. All other recursion is structural.

  \<^bold>\<open>Faults.\<close> A durable step of the model is one atomic replacement of a file, one write or deletion of
  a credential or one unlink. A run is determined by a list of fates, one per step, and the theorems
  quantify over all lists. Reads may fail as well. That a replacement is atomic, that the lock
  excludes other processes, and that a record is decrypted by the key that encrypted it are
  properties of the file system and of the cryptography. The journal compares states as their
  canonical texts, as the code does.

  \<^bold>\<open>Not modelled.\<close> Command lines, the HTTP servers around the handlers, the local web
  application, desktop integration, the credential stores of the three operating systems,
  subprocesses, file permissions, the files and prompts of an enrollment, backups, and the clients that
  orchestrate files, network and prompts around the records, projections and replicas modelled
  here. The manifest lists every such file with its reason.
\<close>

section \<open>The relay over any sequence of requests\<close>

text \<open>C1. Whatever requests the relay is sent, in any order, with any cryptography and any
  limits: scope ids are unique; the snapshots of every scope are numbered 1, 2, 3, ... without
  gaps up to the sequence of the scope row, every one a record the master signed that names
  its predecessor by hash, the last one the head; every stored hash is the hash of the stored
  record; grant generations of a device only grow; and submissions are unique.\<close>

theorem relay_integrity: "relay_inv C (reached C admin lim qs)"
  by (rule reached_inv)

text \<open>C2. History is append-only: after any further requests every policy, snapshot, grant,
  block and operation is still stored, in the same order, scopes only advance, and a stored
  submission keeps its record and, once it has one, its receipt, but for an accepted receipt
  that becomes published for the same entry.\<close>

theorem relay_append_only: "relay_le (reached C admin lim qs) (reached C admin lim (qs @ rs))"
  by (rule reached_le)

text \<open>C3. The queue limits hold in every reachable state: at most 1000 pending submissions of
  a scope, 100 of a device, and 64 MiB of a scope.\<close>

theorem relay_queue_bounded: "queue_ok (reached C admin lim qs)"
  by (rule reached_queue)

text \<open>C4. The bytes and records stored in all scopes together never exceed the relay's limits
  and the reserve of control requests.\<close>

theorem relay_storage_bounded: "reserves lim \<Longrightarrow> total_ok lim (reached C admin lim qs)"
  by (rule reached_budget)

theorem relay_storage_bounded_witness: "total_ok default_limits (reached toy [] default_limits [CreateScope \<lparr>authorization = None, device_header = None\<rparr> JNull])"
  by (rule relay_storage_bounded [OF default_reserves])

section \<open>Records\<close>

text \<open>C16. A snapshot is accepted exactly when the master signed it, for this policy (scope,
  vault, epoch, version and hash, itself well formed and signed by the master), with a sequence
  number above the trusted one and above the checkpoint of the policy, within the publication limit of
  the epoch, with the parent the reader trusts, and with a sealed box of a nonce of 12 bytes and a
  ciphertext that is no shorter than its tag and no longer than the largest plaintext with its tag.\<close>

theorem snapshot_accepted_iff:
  "verify_snapshot C r policy pin ms parent = Inr body \<longleftrightarrow> (\<exists>p. signed_policy C policy pin p
     \<and> signed_record C MAX_RECORD_SIZE r ''snapshot'' pin body
     \<and> exact_keys (CONTEXT_FIELDS @ [''sequence'', ''parent_hash'', ''sealed'']) body
     \<and> in_context C body policy p \<and> is_uint 0 ms \<and> (parent = JNull \<or> is_hash parent)
     \<and> chained p body (int_of ms) parent \<and> sealed_ok False MAX_PLAINTEXT_SIZE (fld body ''sealed''))"
  unfolding verify_snapshot_ok verify_any_policy_iff verify_record_iff by (rule refl)

section \<open>Policies and grants\<close>

text \<open>C17. A policy is accepted exactly when it is well formed: the exact fields, canonical identifiers,
  keys and hashes, version 1 exactly without a parent, at most 512 grants, each well formed, with
  distinct devices, grants, tokens and keys, and none of them the master's.\<close>

theorem policy_accepted_iff: "check_policy p = Inr () \<longleftrightarrow> wf_policy p"
  by (rule check_policy_ok)

text \<open>A device is authorized exactly by a grant of a well-formed policy: its own grant, with the
  named identifier and generation when they are named, and the role of a contributor to create.\<close>

theorem grant_authorized_iff:
  "authorize_grant p dev op gid gen = Inr g \<longleftrightarrow>
     wf_policy p \<and> is_id dev \<and> (gid = JNull \<or> is_id gid) \<and> (gen = JNull \<or> is_uint 1 gen)
     \<and> (op = ''read'' \<or> op = ''create'') \<and> g \<in> set (grants_of p) \<and> fld g ''device_id'' = dev
     \<and> (gid = JNull \<or> fld g ''grant_id'' = gid) \<and> (gen = JNull \<or> fld g ''generation'' = gen)
     \<and> (op = ''create'' \<longrightarrow> fld g ''role'' = JStr ''contributor'')"
  by (rule authorize_grant_ok)

theorem grant_authorized_iff_witness:
  "authorize_grant (example_policy 1 1 JNull [example_grant]) (JStr (id_of (CHR ''b''))) ''create'' JNull JNull = Inr example_grant"
  using grant_authorized_iff [of "example_policy 1 1 JNull [example_grant]" "JStr (id_of (CHR ''b''))" "''create''" JNull JNull example_grant]
    wf_example_policy [of 1 JNull 1 "[example_grant]"] is_id_of [OF hex_chars(2)]
  by simp

text \<open>Bytes are read as a record exactly when they are the one canonical text of a value within
  the limits, so a record has no second encoding that a signature or a hash would miss.\<close>

theorem record_bytes_iff:
  "parse_bytes MAX_RECORD_SIZE b = Inr v \<longleftrightarrow> normal v \<and> fits MAX_RECORD_SIZE v \<and> b = canonical_text v"
  by (rule parse_bytes_iff) simp

section \<open>Vault entries\<close>

text \<open>C18. The stored form of an entry is read back as the same entry exactly when the entry is valid: an
  identifier and a name, fields as its type asks for, at most 64 tags and references, a note, timestamps
  of real moments (in the decimal digits of any script where \<open>\d\<close> and \<open>strptime\<close> take them), a folder and
  a revision that are identifiers or absent, a known distribution and a known provenance.\<close>

theorem entry_roundtrip_iff: "from_untrusted_dict False True (entry_to_dict e) = Inr e \<longleftrightarrow> wf_entry e"
  using from_untrusted_to_dict from_untrusted_dict_D(1) by blast

text \<open>Whatever an untrusted record holds, an entry read from it is valid: identifier, name, fields
  of its type, tags, note, references, timestamps and catalog fields all within their rules.\<close>

theorem entry_accepted_valid:
  "case from_untrusted_dict secrets proj d of Inl _ \<Rightarrow> True | Inr e \<Rightarrow> wf_entry e \<and> fld d ''id'' = JStr (e_id e) \<and> fld d ''name'' = JStr (e_name e)"
  using from_untrusted_dict_D(1-3) [of secrets proj d] by (cases "from_untrusted_dict secrets proj d") auto

text \<open>C19. A target that \<open>validate_ssh_target\<close> accepts is the one it was given, it is no option of ssh, and
  it consists of printable ASCII characters. Of the characters that a shell gives a meaning
  (\<open>shell_special\<close>: white space, quotes, expansions, operators, patterns, comments, assignments) the
  user has none and the host at most the square brackets of a literal IPv6 address. Neither holds
  an \<open>@\<close>, and the port is in range.\<close>

theorem ssh_target_safe:
  "case validate_ssh_target host user port of Inl _ \<Rightarrow> True
   | Inr (h, u, n) \<Rightarrow> host = JStr h \<and> user = JStr u \<and> port_of port n \<and> 1 \<le> n \<and> n \<le> 65535
      \<and> shell_safe {CHR ''['', CHR '']''} h \<and> shell_safe {} u \<and> CHR ''@'' \<notin> set h \<union> set u"
  using validate_ssh_target_ok [of host user port] by (auto split: sum.split)

text \<open>An imported snapshot has at most 10000 entries with distinct identifiers, all valid, and at
  most 20000 tombstones.\<close>

theorem snapshot_payload_valid:
  "case validate_snapshot_payload p of Inl _ \<Rightarrow> True
   | Inr (es, ts) \<Rightarrow> distinct (map e_id es) \<and> list_all wf_entry es \<and> len es \<le> 10000 \<and> len ts \<le> 20000"
  using validate_snapshot_payload_D(1-4) [of p] by (auto simp: list_all_iff split: sum.split)

section \<open>The project catalog\<close>

text \<open>C20. Stored catalogs are read back unchanged, and only well-formed catalogs are ever read.\<close>

theorem catalog_roundtrip_iff: "catalog_from_dict entry_ids (catalog_to_dict c) = Inr c \<longleftrightarrow> wf_catalog entry_ids c"
  using catalog_roundtrip catalog_read by blast

text \<open>The search along parents with its shared set of checked folders accepts exactly the
  hierarchies in which every folder reaches a root.\<close>

theorem folder_check_iff: "validate_folder_cycles fs = Inr () \<longleftrightarrow> forest fs"
  by (rule folder_cycles_iff)

section \<open>References\<close>

text \<open>C21. The iterative depth-first search over references ends, and accepts exactly the entries
  whose reference graph has no cycle.\<close>

theorem reference_check_iff:
  "\<forall>e \<in> set es. readable (e_refs e) \<Longrightarrow> detect_cycles es = Inr () \<longleftrightarrow> acyclic (graph_of es)"
  by (rule detect_cycles_iff(1))

definition two_entries :: "entry list" where
  "two_entries = (let e = \<lparr>e_id = [], e_name = ''aa'', e_type = NOTE, e_fields = JObj [], e_tags = [], e_note = JStr [],
     e_refs = [JObj [(''role'', JStr ''uses''), (''name'', JStr ''bb'')]], e_created = JNull, e_updated = JNull, e_folder = JNull,
     e_distribution = JNull, e_provenance = JNull, e_revision = JNull\<rparr> in [e, e\<lparr>e_name := ''bb'', e_refs := []\<rparr>])"

theorem reference_check_iff_witness: "acyclic (graph_of two_entries)"
proof -
  have "detect_cycles two_entries = Inr ()" by code_simp
  moreover have "\<forall>e \<in> set two_entries. readable (e_refs e)" by code_simp
  ultimately show ?thesis using reference_check_iff [of two_entries] by simp
qed

section \<open>The metadata store\<close>

text \<open>C22. Reading the file and then running any requests, those that fail included, leaves a valid store:
  records with an identifier and a name of their own; and in schema 3 no unknown member, every record
  the stored form of a well-formed entry, every tombstone that of a well-formed tombstone, no two of
  them for one identifier, a well-formed catalog that binds only existing entries, and every entry in no
  folder or in a folder of the catalog.\<close>

theorem store_stays_valid:
  "case read_metadata raw of Inl _ \<Rightarrow> True | Inr d \<Rightarrow> valid_store (run (store_step C fresh) qs d)"
proof -
  have "valid_store d" if "read_metadata raw = Inr d" for d using that by (rule read_metadata_valid)
  then show ?thesis using store.run_inv by (auto split: sum.split)
qed

text \<open>C23. A transaction over the slot index does to the records exactly what the operations on the
  plain list do, with the same errors.\<close>

theorem transaction_refines_list:
  "unique_records rs \<Longrightarrow> refines slots_ok materialize (rfold tx_step ops (reset_entries rs)) (rfold list_step ops rs)"
  by (rule slot_index.from_start)

definition two_records :: "json list" where
  "two_records = [JObj [(''id'', JStr ''a''), (''name'', JStr ''aa'')], JObj [(''id'', JStr ''b''), (''name'', JStr ''bb'')]]"

theorem transaction_refines_list_witness:
  "refines slots_ok materialize (rfold tx_step [Remove ''aa''] (reset_entries two_records)) (Inr (tl two_records))"
proof -
  have "unique_records two_records" by code_simp
  moreover have "rfold list_step [Remove ''aa''] two_records = Inr (tl two_records)" by code_simp
  ultimately show ?thesis using transaction_refines_list [of two_records "[Remove ''aa'']"] by simp
qed

section \<open>The vault relay over any sequence of requests\<close>

text \<open>C24. Whatever requests the vault relay is sent, in any order and with any clock, the failing ones
  included: identifiers are unique; the commits of every vault form a chain from a genesis commit,
  each signed with the registered key of its author, over the snapshot stored with it, and naming
  its predecessor by identifier and manifest hash; the head is the last of them; every vault has
  exactly one root device; and every other device was admitted by an invite of that root, which is
  approved as soon as the device is active.\<close>

theorem vault_relay_integrity: "sync_inv C (synced C admin lim qs)"
  by (rule synced_inv)

text \<open>C25. The vault relay forgets nothing: after any further requests the stored commits are still there
  in the same order, a device keeps its keys and token and moves only from pending to active to
  revoked, a revoked device and a settled invite never change again.\<close>

theorem vault_relay_append_only: "sync_le (synced C admin lim qs) (synced C admin lim (qs @ rs))"
  by (rule synced_le)

text \<open>C26. Whatever credentials are presented after any further requests, no device that was revoked
  is authenticated.\<close>

theorem revoked_device_refused:
  "case authenticate_device C h vault allow (synced C admin lim (qs @ rs)) of Inl _ \<Rightarrow> True
   | Inr d \<Rightarrow> ad_id d \<notin> dv_id ` set (filter (\<lambda>r. dv_status r = Revoked) (v_devices (synced C admin lim qs)))"
  using revoked_refused [OF synced_inv synced_le, of _ C admin lim qs] by (fastforce split: sum.split)

text \<open>C27. Appending a commit is a compare and swap: it moves the head of its own vault from the parent that
  the client expected to the new commit, which the author's registered key signed, and changes no
  other vault, no device and no invite.\<close>

theorem append_commit_swaps_head:
  "case append_commit C lim now vault payload d s of Inl _ \<Rightarrow> True
   | Inr (s', a) \<Rightarrow> \<exists>row r v. find_vault vault s = Some row \<and> opt_json (va_head row) = fld payload ''expected_parent_commit_id''
       \<and> stored C s r v \<and> cm_author r = ad_id d \<and> v_commits s' = v_commits s @ [r] \<and> v_devices s' = v_devices s
       \<and> v_invites s' = v_invites s \<and> map_option va_head (find_vault vault s') = Some (Some (cm_id r))
       \<and> filter (\<lambda>x. va_id x \<noteq> vault) (v_vaults s') = filter (\<lambda>x. va_id x \<noteq> vault) (v_vaults s)"
  using append_commit_effect [of C lim now vault payload d s] by (auto split: sum.split)

text \<open>C28. Every request of the vault relay that returns is one step of the abstract relation \<open>db_step\<close>:
  founding a vault, appending, revoking, inviting, claiming, approving, expiring, or nothing.\<close>

theorem vault_requests_refine_steps:
  "case sync_step C admin lim q s of Inl _ \<Rightarrow> True | Inr (s', a) \<Rightarrow> db_step C s s'"
  using sync_step_db [of C admin lim q s] by (auto split: sum.split)

text \<open>The rows that the vault relay stores stay within the record limit, and their bytes within the byte
  limit, up to three bytes for each invite that expired.\<close>

theorem vault_storage_bounded: "reserves lim \<Longrightarrow> sync_total_ok lim (synced C admin lim qs)"
  by (rule synced_budget)

theorem vault_storage_bounded_witness:
  "sync_total_ok default_limits (synced toy [] default_limits [ClaimInvite 0 [] JNull])"
  by (rule vault_storage_bounded [OF default_reserves])

section \<open>The commit protocol\<close>

text \<open>A signed commit that is accepted is the one text of a well-formed manifest, its identifier the hash
  of manifest and signature, the signature one of the given key, within the size limit, of the
  expected vault and author, over the hash of the snapshot at hand.\<close>

theorem commit_signature_sound:
  "case verify_commit_signature C blob pk (Some snapshot) (Some vault) (Some author) of Inl _ \<Rightarrow> True
   | Inr v \<Rightarrow> signed_commit C pk blob v \<and> describes C v \<and> len blob \<le> MAX_COMMIT \<and> vc_vault v = vault \<and> vc_author v = author
       \<and> vc_ciphertext v = sha256_hex C snapshot"
  using verify_commit_signature_D [of C blob pk "Some snapshot" "Some vault" "Some author"] by (auto split: sum.split)

text \<open>C29. A commit extends the trusted history exactly when its signature verifies, its sequence is above the
  watermark, it is a genesis commit where one is required, and it names its trusted predecessor as
  the very next commit of the same vault.\<close>

theorem commit_accepted_iff:
  "verify_commit C blob pk snapshot vault author previous minimum genesis = Inr v \<longleftrightarrow>
     verify_commit_signature C blob pk snapshot vault author = Inr v
     \<and> (minimum = JNull \<or> (\<exists>i. minimum = JInt i \<and> 0 \<le> i \<and> i < vc_sequence v))
     \<and> (if genesis then vc_sequence v = 1 \<and> vc_parent v = JNull \<and> vc_parent_hash v = JNull else True)
     \<and> (case previous of None \<Rightarrow> True | Some p \<Rightarrow> follows p v)"
  by (rule verify_commit_ok)

text \<open>C30. A device's commit is built and then verifies with its public key, with the sequence, parent and
  time that went into it, exactly when the snapshot is one of that vault and the manifest is well
  formed.\<close>

theorem built_commit_verifies_iff:
  "crypto_ok C \<Longrightarrow> (\<exists>blob v. build_signed_commit C snapshot vault q p h author k t = Inr blob
      \<and> verify_commit_signature C blob (ed_public C k) (Some snapshot) (Some vault) (Some author) = Inr v
      \<and> vc_sequence v = q \<and> vc_parent v = opt_text p \<and> vc_parent_hash v = opt_text h \<and> vc_timestamp v = t)
    \<longleftrightarrow> (\<exists>e salt nonce c. parse_vault_snapshot snapshot = Inr (e, salt, nonce, c) \<and> fld e ''vault_id'' = JStr vault)
      \<and> validate_manifest (build_manifest C snapshot vault q p h author t) = Inr () \<and> len k = 32"
  by (rule build_verify_iff)

theorem built_commit_verifies_iff_witness:
  "\<exists>snapshot blob v. build_signed_commit toy snapshot ''vault-1'' 1 None None ''device-1'' (key_of (CHR ''k'')) ''2026-01-01T00:00:00Z'' = Inr blob
     \<and> verify_commit_signature toy blob (ed_public toy (key_of (CHR ''k''))) (Some snapshot) (Some ''vault-1'') (Some ''device-1'') = Inr v
     \<and> vc_sequence v = 1"
proof -
  have v: "sync_id_pattern ''vault-1''" "sync_id_pattern ''device-1''" by code_simp+
  have k: "len (key_of (CHR ''k'')) = 32" by (simp add: key_of_def len_length)
  obtain snapshot where "seal_vault_snapshot toy (replicate 16 (CHR ''s'')) (replicate 12 (CHR ''n'')) ''{}'' (key_of (CHR ''k'')) ''vault-1'' = Inr snapshot"
    using seal_open_iff [OF toy_ok, of "replicate 16 (CHR ''s'')" "replicate 12 (CHR ''n'')" "''{}''" "key_of (CHR ''k'')" "''vault-1''"] v k
    by auto
  from parse_sealed [OF toy_ok _ _ this] obtain e c
    where e: "parse_vault_snapshot snapshot = Inr (e, replicate 16 (CHR ''s''), replicate 12 (CHR ''n''), c)" "fld e ''vault_id'' = JStr ''vault-1''"
    by (auto simp: fld_sort_members)
  have "sync_timestamp ''2026-01-01T00:00:00Z''" by code_simp
  moreover have "is_sha256 (sha256_hex toy x)" for x using toy_ok by (simp add: crypto_ok_def)
  moreover have "exact_keys MANIFEST_FIELDS (build_manifest toy snapshot ''vault-1'' 1 None None ''device-1'' ''2026-01-01T00:00:00Z'')"
    "profile_is COMMIT_PROFILE (build_manifest toy snapshot ''vault-1'' 1 None None ''device-1'' ''2026-01-01T00:00:00Z'')"
    by (auto simp: exact_keys_def MANIFEST_FIELDS_def build_manifest_def profile_is_def fld_def)
  ultimately have "validate_manifest (build_manifest toy snapshot ''vault-1'' 1 None None ''device-1'' ''2026-01-01T00:00:00Z'') = Inr ()"
    using v by (simp add: validate_manifest_ok opt_text_def)
  with built_commit_verifies_iff [OF toy_ok, of snapshot "''vault-1''" 1 None None "''device-1''" "key_of (CHR ''k'')" "''2026-01-01T00:00:00Z''"] e k
  show ?thesis by blast
qed

text \<open>C31. A snapshot is sealed and opened again with the same key exactly when it is within the size limit,
  the key has 32 bytes and the vault identifier is well formed.\<close>

theorem vault_snapshot_roundtrip_iff:
  "crypto_ok C \<Longrightarrow> length salt = 16 \<Longrightarrow> length nonce = 12 \<Longrightarrow>
     (\<exists>blob. seal_vault_snapshot C salt nonce p k vault = Inr blob \<and> open_vault_snapshot C blob k vault = Inr p)
     \<longleftrightarrow> len p \<le> MAX_SNAPSHOT_PLAINTEXT \<and> len k = 32 \<and> sync_id_pattern vault"
  by (rule seal_open_iff)

theorem vault_snapshot_roundtrip_iff_witness:
  "\<exists>blob. seal_vault_snapshot toy (replicate 16 (CHR ''s'')) (replicate 12 (CHR ''n'')) ''{}'' (key_of (CHR ''k'')) ''vault-1'' = Inr blob
     \<and> open_vault_snapshot toy blob (key_of (CHR ''k'')) ''vault-1'' = Inr ''{}''"
proof -
  have "sync_id_pattern ''vault-1''" by code_simp
  then show ?thesis
    using vault_snapshot_roundtrip_iff [OF toy_ok, of "replicate 16 (CHR ''s'')" "replicate 12 (CHR ''n'')" "''{}''" "key_of (CHR ''k'')" "''vault-1''"]
    by (simp add: key_of_def len_length)
qed

text \<open>A vault key is wrapped for a device and unwrapped by it, for the same vault, device and context,
  exactly when the key and the identifiers are well formed, the context has 1 to 1024 bytes and the
  key exchange succeeds.\<close>

theorem device_wrap_roundtrip_iff:
  "crypto_ok C \<Longrightarrow> length salt = 16 \<Longrightarrow> length nonce = 12 \<Longrightarrow> length eph = 32 \<Longrightarrow> length dk = 32 \<Longrightarrow>
     (\<exists>blob. wrap_vault_key_for_recipient C eph salt nonce key (x_public C dk) vault dev context = Inr blob
       \<and> unwrap_vault_key_for_recipient C blob dk vault dev context = Inr key)
     \<longleftrightarrow> len key = 32 \<and> sync_id_pattern vault \<and> sync_id_pattern dev \<and> context \<noteq> [] \<and> len context \<le> MAX_CONTEXT
       \<and> x_exchange C eph (x_public C dk) \<noteq> None"
  by (rule wrap_unwrap_device_iff)

theorem device_wrap_roundtrip_iff_witness:
  "\<exists>blob. wrap_vault_key_for_recipient toy (key_of (CHR ''e'')) (replicate 16 (CHR ''s'')) (replicate 12 (CHR ''n'')) (key_of (CHR ''k''))
       (x_public toy (key_of (CHR ''d''))) ''vault-1'' ''device-1'' ''join'' = Inr blob
     \<and> unwrap_vault_key_for_recipient toy blob (key_of (CHR ''d'')) ''vault-1'' ''device-1'' ''join'' = Inr (key_of (CHR ''k''))"
proof -
  have "sync_id_pattern ''vault-1''" "sync_id_pattern ''device-1''" by code_simp+
  then show ?thesis
    using device_wrap_roundtrip_iff [OF toy_ok, of "replicate 16 (CHR ''s'')" "replicate 12 (CHR ''n'')" "key_of (CHR ''e'')" "key_of (CHR ''d'')"
        "key_of (CHR ''k'')" "''vault-1''" "''device-1''" "''join''"]
    by (simp add: key_of_def len_length toy_def)
qed

text \<open>A vault key is wrapped with a recovery secret and unwrapped with it exactly when key and secret have
  32 bytes and the vault identifier is well formed.\<close>

theorem recovery_wrap_roundtrip_iff:
  "crypto_ok C \<Longrightarrow> length salt = 16 \<Longrightarrow> length nonce = 12 \<Longrightarrow>
     (\<exists>blob. wrap_vault_key_for_recovery C salt nonce key secret vault = Inr blob
       \<and> unwrap_vault_key_for_recovery C blob secret vault = Inr key)
     \<longleftrightarrow> len key = 32 \<and> len secret = 32 \<and> sync_id_pattern vault"
  by (rule wrap_unwrap_recovery_iff)

theorem recovery_wrap_roundtrip_iff_witness:
  "\<exists>blob. wrap_vault_key_for_recovery toy (replicate 16 (CHR ''s'')) (replicate 12 (CHR ''n'')) (key_of (CHR ''k'')) (key_of (CHR ''r'')) ''vault-1'' = Inr blob
     \<and> unwrap_vault_key_for_recovery toy blob (key_of (CHR ''r'')) ''vault-1'' = Inr (key_of (CHR ''k''))"
proof -
  have "sync_id_pattern ''vault-1''" by code_simp
  then show ?thesis
    using recovery_wrap_roundtrip_iff [OF toy_ok, of "replicate 16 (CHR ''s'')" "replicate 12 (CHR ''n'')" "key_of (CHR ''k'')" "key_of (CHR ''r'')" "''vault-1''"]
    by (simp add: key_of_def len_length)
qed

section \<open>Sealed records of a project\<close>

text \<open>A project snapshot that the master builds is opened with the scope key to the same payload.\<close>

theorem project_snapshot_roundtrip:
  "crypto_ok C \<Longrightarrow> length nonce = 12 \<Longrightarrow>
     case build_snapshot C nonce payload policy pin mk key seq parent of Inl _ \<Rightarrow> True
     | Inr r \<Rightarrow> (case parse_record MAX_PLAINTEXT_SIZE payload of Inl _ \<Rightarrow> True
         | Inr v \<Rightarrow> open_snapshot C r policy pin key (JInt 0) JNull = Inr v)"
  using open_build_snapshot [of C nonce payload policy pin mk key seq parent] by (auto split: sum.split)

theorem project_snapshot_roundtrip_witness:
  "case build_snapshot toy (replicate 12 (CHR ''n'')) (JObj []) (example_record 1 1 JNull []) master_key master_key (key_of (CHR ''s''))
      (JInt 1) JNull of Inl _ \<Rightarrow> True
     | Inr r \<Rightarrow> (case parse_record MAX_PLAINTEXT_SIZE (JObj []) of Inl _ \<Rightarrow> True
         | Inr v \<Rightarrow> open_snapshot toy r (example_record 1 1 JNull []) master_key (key_of (CHR ''s'')) (JInt 0) JNull = Inr v)"
  by (rule project_snapshot_roundtrip [OF toy_ok]) simp

text \<open>C32. A create request that is accepted was signed by the device of a grant of the policy it names, by a
  contributor, in that policy's context; and the same grant still authorizes it under the current
  policy, which is no older.\<close>

theorem create_request_sound:
  "case verify_create C r policy pin cur of Inl _ \<Rightarrow> True
   | Inr body \<Rightarrow> \<exists>p g. verify_any_policy C policy pin = Inr p \<and> created_under C policy p g body
      \<and> (cur = JNull \<or> (\<exists>c g'. verify_any_policy C cur pin = Inr c
           \<and> authorize_grant c (fld body ''device_id'') ''create'' (fld body ''grant_id'') (fld body ''generation'') = Inr g'
           \<and> same_grant g' g \<and> fld c ''scope_id'' = fld p ''scope_id'' \<and> fld c ''vault_id'' = fld p ''vault_id''
           \<and> int_of (fld p ''version'') \<le> int_of (fld c ''version'')))"
  using verify_create_D [of C r policy pin cur] by (fastforce split: sum.split)

text \<open>C33. An enrollment answer that a device accepts was signed by the master, for this very request and
  invitation and for the snapshot and wrapped key that came with it; the device signed the request
  with the key it names; the policy it enrolls under is a later one, in a later epoch, of the
  scope and vault of the invitation, and holds a grant for the device with the keys, token and role of
  its request, under a name that no grant of the policy of the invitation had; and the answer has
  neither expired nor outlives the invitation.\<close>

theorem enrollment_sound:
  "case verify_enrollment_answer C L answer request invitation source_policy current_policy pin snapshot wrap now of Inl _ \<Rightarrow> True
   | Inr body \<Rightarrow> \<exists>p c i req g k h s w. verify_any_policy C source_policy pin = Inr p \<and> verify_any_policy C current_policy pin = Inr c
      \<and> successor_policy p c \<and> verify_invitation C L invitation source_policy pin now = Inr i
      \<and> submission_hash C invitation = Inr h \<and> requested_by C source_policy p k h req \<and> admits p c req g
      \<and> verify_snapshot C snapshot current_policy pin (JInt 0) JNull = Inr s
      \<and> verify_scope_key_wrap C wrap current_policy pin JNull (fld req ''device_id'') = Inr w
      \<and> answer_binds C current_policy request invitation snapshot wrap pin (int_of now) i req g body"
  using verify_enrollment_answer_D [of C L answer request invitation source_policy current_policy pin snapshot wrap now]
  by (auto split: sum.split)

text \<open>C34. Policies that follow a trusted one, step by step, keep the scope, the vault and the master; the
  last one is as many versions higher as there are steps, and keeps its recipients and checkpoint while
  the epoch does not change; and each of them has the next version and names its predecessor by the hash
  of that record.\<close>

theorem followed_policies_descend:
  "case verify_any_policy C r pin of Inl _ \<Rightarrow> True
   | Inr p \<Rightarrow> (case follow C pin r ss of Inl _ \<Rightarrow> True
       | Inr s \<Rightarrow> (\<exists>q. verify_any_policy C s pin = Inr q \<and> descends p q (length ss))
           \<and> s = last (r # ss) \<and> successively (names_predecessor C pin) (r # ss))"
  using follow_descends [of C r pin _ ss] follow_chain [of C pin r ss] by (fastforce split: sum.split)

section \<open>Changes of the store\<close>

text \<open>Deleting removes the named record and no other: from any reachable metadata, name and identifier are
  gone, a tombstone of the entry is appended, and every other name is still there.\<close>

theorem store_delete_removes:
  "case read_metadata raw of Inl _ \<Rightarrow> True
   | Inr d0 \<Rightarrow> (let d = run (store_step C fresh) qs d0 in
      case store_delete fresh now n d of Inl _ \<Rightarrow> True
      | Inr (d', e) \<Rightarrow> e_name e = n \<and> n \<notin> set (map rec_name (md_entries d')) \<and> e_id e \<notin> set (map rec_id (md_entries d'))
         \<and> md_tombstones d' = md_tombstones d @ [tombstone_for now e]
         \<and> set (map rec_name (md_entries d')) = set (map rec_name (md_entries d)) - {n})"
proof -
  have "valid_store (run (store_step C fresh) qs d)" if "read_metadata raw = Inr d" for d
    using store.run_inv [OF read_metadata_valid [OF that]] .
  then show ?thesis using store_delete_D [of fresh now n] by (auto simp: Let_def split: sum.split)
qed

section \<open>What a device trusts of a relay\<close>


text \<open>C36. Refreshing never rolls back: the state that is written has the verified head as its anchor, the old anchor
  is a commit of the head's chain at or below it, and every revocation that the old state recorded is recorded
  with the same evidence.\<close>

theorem refresh_never_rolls_back:
  "case fst (refresh_trust_anchor C env c vault_key now retries file n) of
     Inr (Some h, Some st) \<Rightarrow> (\<exists>a. read_anchor C c st = Inr (Some a) \<and> checkpoint_of a = checkpoint_of h)
       \<and> (\<exists>state anchor v. read_state C c file = Inr state \<and> read_anchor C c state = Inr anchor
            \<and> history_verified C c vault_key anchor v \<and> vs_head v = Some h
            \<and> kept_evidence (members (fld state ''revocations'')) (members (fld st ''revocations'')))
   | _ \<Rightarrow> True"
proof (cases "refresh_trust_anchor C env c vault_key now retries file n")
  case (Pair x n')
  then show ?thesis using refresh_sound [of C env c vault_key now retries "file" n _ _ n'] by (auto split: sum.split option.split)
qed

text \<open>C37. The devices that are trusted: the pinned root with the pinned key, and devices whose membership of this vault,
  with that very signing key, the root signed; every revocation that counts was signed by the root for that
  device of this vault; and the device itself is among them.\<close>

theorem trusted_devices_admitted:
  "case trusted_device_keys C c response state allow_pending of Inl _ \<Rightarrow> True
   | Inr t \<Rightarrow> list_all (\<lambda>(d, k). d = cf_root c \<and> cf_root_key c = b64 k
         \<or> (\<exists>m. (d, m) \<in> set (tr_memberships t) \<and> admitted_as C c d k m)) (tr_keys t)
       \<and> list_all (\<lambda>(d, v). revoked_by_root C c d v) (tr_revocations t) \<and> cf_device c \<in> set (map fst (tr_keys t))"
  using trusted_device_keys_ok [of C c response state allow_pending]
  by (fastforce simp: trust_ok_def admission_ok_def list_all_iff split: sum.split)

section \<open>Requests\<close>

text \<open>The walk over an explicit stack, with its running test of the nodes still pending, accepts exactly the
  values of at most 64 levels and 100000 nodes.\<close>

theorem request_structure_iff:
  "check_structure v \<longleftrightarrow> depth_of v \<le> 64 \<and> node_count v \<le> 100000"
  by (rule check_structure_iff)

section \<open>Merging two vaults\<close>

text \<open>C38. The merge of two valid snapshots fails only when a reference would change its target: a free name is
  always found. Otherwise no identifier is lost: it is live exactly when one of its versions is later
  than every deletion of it, and then it is, but for the name, the greatest of its versions; all others
  are tombstones with the latest deletion. Entries and tombstones are strictly sorted, names are
  distinct and well-formed, and a reference that a peer had already keeps its target.\<close>

theorem vault_merge_resolves:
  "merge_inputs order1 ls lts rs rts \<Longrightarrow>
     case merge_vaults order1 ls lts rs rts of Inl e \<Rightarrow> e = Rebound
     | Inr r \<Rightarrow> set (map e_id (mr_entries r)) = {k. \<exists>e \<in> versions ls rs k. \<forall>d \<in> deletions lts rts k. d < updated_at e}
         \<and> set (map ts_id (mr_tombstones r)) = all_ids ls lts rs rts - set (map e_id (mr_entries r))
         \<and> list_all (\<lambda>e. good_name (e_name e) \<and> (\<exists>e0 \<in> versions ls rs (e_id e). e = e0\<lparr>e_name := e_name e\<rparr>
             \<and> (\<forall>x \<in> versions ls rs (e_id e). merge_key x \<le> merge_key e0))) (mr_entries r)
         \<and> list_all (\<lambda>t. ts_deleted t \<in> deletions lts rts (ts_id t) \<and> (\<forall>d \<in> deletions lts rts (ts_id t). d \<le> ts_deleted t)) (mr_tombstones r)
         \<and> sorted_wrt (<) (map e_id (mr_entries r)) \<and> sorted_wrt (<) (map ts_id (mr_tombstones r))
         \<and> distinct (map e_name (mr_entries r)) \<and> binding_kept (mr_entries r) ls \<and> binding_kept (mr_entries r) rs"
proof -
  assume i: "merge_inputs order1 ls lts rs rts"
  show ?thesis
  proof (cases "merge_vaults order1 ls lts rs rts")
    case (Inl e)
    with merge_only_rebinds [OF i] show ?thesis by simp
  next
    case (Inr r)
    have "set (map ts_id (mr_tombstones r)) = all_ids ls lts rs rts - set (map e_id (mr_entries r))"
      using merge_resolves(5) [OF i Inr] by blast
    moreover have "set (map e_id (mr_entries r)) = {k. \<exists>e \<in> versions ls rs k. \<forall>d \<in> deletions lts rts k. d < updated_at e}"
      using merge_resolves(4) [OF i Inr] by blast
    ultimately show ?thesis
      using merge_resolves(1-3,6-9) [OF i Inr] unfolding Inr sum.case list_all_iff by blast
  qed
qed

theorem vault_merge_resolves_witness:
  "case merge_vaults [e_id example_two, e_id example_one] [example_one] [] [example_two] [] of Inl e \<Rightarrow> e = Rebound
   | Inr r \<Rightarrow> set (map ts_id (mr_tombstones r)) = {e_id example_one, e_id example_two} - set (map e_id (mr_entries r))
       \<and> distinct (map e_name (mr_entries r))"
  using vault_merge_resolves [OF example_merge_inputs(1)] by (auto simp: all_ids_def split: sum.split_asm)

text \<open>C39. Two devices that merge each other's snapshots converge, in whatever order each traverses the identifiers:
  the same identifiers with the same names and the same text are live on both, and the same are
  deleted, at the same times.\<close>

theorem vault_merges_converge:
  "merge_inputs order1 ls lts rs rts \<Longrightarrow> merge_inputs order2 rs rts ls lts \<Longrightarrow> list_all legacy_entry (ls @ rs) \<Longrightarrow>
     case (merge_vaults order1 ls lts rs rts, merge_vaults order2 rs rts ls lts) of
       (Inr a, Inr b) \<Rightarrow> map entry_mark (mr_entries a) = map entry_mark (mr_entries b)
          \<and> map (\<lambda>t. (ts_id t, ts_deleted t)) (mr_tombstones a) = map (\<lambda>t. (ts_id t, ts_deleted t)) (mr_tombstones b)
     | _ \<Rightarrow> True"
  using merges_converge [of order1 ls lts rs rts order2] by (auto split: sum.split)

theorem vault_merges_converge_witness:
  "case (merge_vaults [e_id example_two, e_id example_one] [example_one] [] [example_two] [],
         merge_vaults [e_id example_one, e_id example_two] [example_two] [] [example_one] []) of
     (Inr a, Inr b) \<Rightarrow> map entry_mark (mr_entries a) = map entry_mark (mr_entries b) | _ \<Rightarrow> True"
  using vault_merges_converge [OF example_merge_inputs(1,2)] example_merge_inputs(3) by (auto split: sum.split)

section \<open>Mutations of the vault are all or nothing\<close>

text \<open>C5. A mutation of the vault (create, update, delete, many entries, a snapshot) touches the metadata
  file, the credential accounts and three journal files. Whichever of these steps fails, before or
  after its effect, and wherever the process dies, and however often recovery is started again and
  fails or dies in turn: when no marker is pending, the vault is as it was before, or it is what the
  request prepared, with exactly the planned accounts changed. While the marker is pending, every
  account has its old or its planned value. When the last run returns normally, no marker is pending.\<close>

theorem mutation_all_or_nothing:
  "fresh_operation i D \<Longrightarrow>
     (case restarted C ps (mutate C now fresh i q) env (D, n) of (r, d, n') \<Rightarrow>
        (if marks d = []
         then (revision_of C (dk_meta d) = revision_of C (dk_meta D) \<and> accounts d = accounts D)
           \<or> (\<exists>st. prepared_state C q D st \<and> new_vault st (accounts D) (dk_meta d) (accounts d))
         else r \<noteq> Done () \<and> marks d = [(i, MASTER)]
           \<and> (accounts d = accounts D \<or> (\<exists>st. prepared_state C q D st \<and> between st (accounts D) (accounts d)))))"
proof -
  assume D: "fresh_operation i D"
  obtain r d n' where r: "restarted C ps (mutate C now fresh i q) env (D, n) = (r, d, n')"
    by (cases "restarted C ps (mutate C now fresh i q) env (D, n)")
  have "case r of Done x \<Rightarrow> request_state C i q D d \<and> marks d = [] | Raises e \<Rightarrow> request_state C i q D d | Died \<Rightarrow> request_state C i q D d"
    by (rule triple_D [OF restarted_safe [OF mutate_safe [OF D]] _ r]) simp
  then have "request_state C i q D d" and "r = Done () \<Longrightarrow> marks d = []" by (cases r; simp)+
  with request_state_D [of C i q D d] show ?thesis unfolding r prod.case by auto
qed

theorem mutation_all_or_nothing_witness:
  "let D = \<lparr>dk_meta = \<lparr>md_version = 2, md_entries = [], md_tombstones = [], md_catalog = None, md_extra = []\<rparr>,
        dk_accounts = [(''kk:a'', ''old'')], dk_index = Some [], dk_records = [], dk_receipts = Some []\<rparr> in
   case restarted toy [(''later'', \<lambda>_. [])] (mutate toy ''now'' (\<lambda>_. []) ''op'' (Delete_entry (\<lambda>_. []) ''x'' False)) (\<lambda>k. if k = 0 then Dies else Works) (D, 0)
     of (r, d, n') \<Rightarrow> (if marks d = [] then accounts d = accounts D \<or> (\<exists>st. new_vault st (accounts D) (dk_meta d) (accounts d)) else True)"
  unfolding Let_def
  by (insert mutation_all_or_nothing [where i = "''op''" and D = "\<lparr>dk_meta = \<lparr>md_version = 2, md_entries = [], md_tombstones = [], md_catalog = None, md_extra = []\<rparr>,
        dk_accounts = [(''kk:a'', ''old'')], dk_index = Some [], dk_records = [], dk_receipts = Some []\<rparr>"
        and C = toy and ps = "[(''later'', \<lambda>_. [])]" and now = "''now''" and fresh = "\<lambda>_. []" and q = "Delete_entry (\<lambda>_. []) ''x'' False"
        and env = "\<lambda>k. if k = 0 then Dies else Works" and n = 0])
    (auto simp: fresh_operation_def marks_def image_of_def simp del: image_of_simps restarted.simps split: prod.splits if_splits)

text \<open>C6. Creating an entry with a secret, under the same faults: when no marker is pending, nothing has
  changed, or the metadata holds the entry under its name and the account of its identifier holds the
  secret, and no account but those two of the entry has changed. There is never an entry without its
  secret nor a secret without its entry.\<close>

theorem create_all_or_nothing:
  "fresh_operation i D \<Longrightarrow> si_value s = Some v \<Longrightarrow>
     (case restarted C ps (mutate C now fresh i (Create u e (Some s) replace)) env (D, n) of (r, d, n') \<Rightarrow>
        (if marks d = []
         then (revision_of C (dk_meta d) = revision_of C (dk_meta D) \<and> accounts d = accounts D)
           \<or> (\<exists>x c. wf_entry x \<and> e_name x = e_name e \<and> entry_by_id (e_id x) (open_tx (dk_meta d)) = Inr (Some c) \<and> same_entry c x
               \<and> accounts d (e_id x) = Some v
               \<and> (\<forall>a. a = e_id x \<or> a = e_id x @ '':passphrase'' \<or> accounts d a = accounts D a))
         else r \<noteq> Done ()))"
proof -
  assume D: "fresh_operation i D" and v: "si_value s = Some v"
  let ?q = "Create u e (Some s) replace"
  obtain r d n' where r: "restarted C ps (mutate C now fresh i ?q) env (D, n) = (r, d, n')"
    by (cases "restarted C ps (mutate C now fresh i ?q) env (D, n)")
  have "case r of Done x \<Rightarrow> request_state C i ?q D d \<and> marks d = [] | Raises e \<Rightarrow> request_state C i ?q D d | Died \<Rightarrow> request_state C i ?q D d"
    by (rule triple_D [OF restarted_safe [OF mutate_safe [OF D]] _ r]) simp
  then have st: "request_state C i ?q D d" and returned: "r = Done () \<Longrightarrow> marks d = []" by (cases r; simp)+
  have new: "\<exists>x c. wf_entry x \<and> e_name x = e_name e \<and> entry_by_id (e_id x) (open_tx (dk_meta d)) = Inr (Some c) \<and> same_entry c x
      \<and> accounts d (e_id x) = Some v \<and> (\<forall>a. a = e_id x \<or> a = e_id x @ '':passphrase'' \<or> accounts d a = accounts D a)"
    if st: "prepared_state C ?q D st" "new_vault st (accounts D) (dk_meta d) (accounts d)" for st
  proof -
    from created_state [OF st(1)] obtain e' where e': "e_name e' = e_name e" "fld st ''action'' = JStr ''create''"
      "fld st ''entry_after'' = entry_to_dict e'" "members (fld st ''accounts_after'') = writes_for (e_id e') (Some s)" by blast
    from created_entry [OF st(2) e'(2-4)] e'(1) writes_for_value [OF v] show ?thesis by metis
  qed
  show ?thesis unfolding r prod.case using request_state_D(1) [OF st] new returned by auto
qed

theorem create_all_or_nothing_witness:
  "let D = \<lparr>dk_meta = \<lparr>md_version = 2, md_entries = [], md_tombstones = [], md_catalog = None, md_extra = []\<rparr>,
        dk_accounts = [(''kk:a'', ''old'')], dk_index = Some [], dk_records = [], dk_receipts = Some []\<rparr>;
      s = \<lparr>si_value = Some ''key'', si_passphrase = None, si_replace = False\<rparr> in
   case restarted toy [(''later'', \<lambda>_. [])] (mutate toy ''now'' (\<lambda>_. []) ''op'' (Create ''u'' example_one (Some s) False)) (\<lambda>k. if k = 9 then Dies_late else Works) (D, 0)
     of (r, d, n') \<Rightarrow> (if marks d = [] then accounts d = accounts D \<or> (\<exists>i. accounts d i = Some ''key'') else True)"
  unfolding Let_def
  by (insert create_all_or_nothing [where i = "''op''" and D = "\<lparr>dk_meta = \<lparr>md_version = 2, md_entries = [], md_tombstones = [], md_catalog = None, md_extra = []\<rparr>,
        dk_accounts = [(''kk:a'', ''old'')], dk_index = Some [], dk_records = [], dk_receipts = Some []\<rparr>"
        and s = "\<lparr>si_value = Some ''key'', si_passphrase = None, si_replace = False\<rparr>" and v = "''key''"
        and C = toy and ps = "[(''later'', \<lambda>_. [])]" and now = "''now''" and fresh = "\<lambda>_. []" and u = "''u''" and e = example_one
        and replace = False and env = "\<lambda>k. if k = 9 then Dies_late else Works" and n = 0])
    (auto simp: fresh_operation_def marks_def image_of_def simp del: image_of_simps restarted.simps split: prod.splits if_splits)

section \<open>The search for free names ends\<close>

text \<open>C40. When two snapshots are merged, entries with equal names are renamed until all names differ. The
  search tries numbered suffixes; it always ends with a free name, because it tries one number more
  than there are live entries. Every entry keeps its identifier, only the losers of a name change it, to
  distinct names that no entry had.\<close>

theorem names_always_resolved:
  "names_ok m \<Longrightarrow> \<exists>us. disambiguate_live_names m = Inr (assign (zip (map snd (losers m)) us) m)
     \<and> length us = length (losers m) \<and> distinct us \<and> set us \<inter> set (live_names m) = {} \<and> list_all good_name us
     \<and> distinct (live_names (assign (zip (map snd (losers m)) us) m))"
  using disambiguate_total [of m] by blast

theorem names_always_resolved_witness:
  "\<exists>us. disambiguate_live_names [(e_id example_one, example_one, Local), (e_id example_two, example_two, Remote)]
     = Inr (assign (zip (map snd (losers [(e_id example_one, example_one, Local), (e_id example_two, example_two, Remote)])) us)
         [(e_id example_one, example_one, Local), (e_id example_two, example_two, Remote)]) \<and> distinct us"
  using names_always_resolved [of "[(e_id example_one, example_one, Local), (e_id example_two, example_two, Remote)]"] example_names_ok by blast

section \<open>Projections and replicas\<close>

text \<open>C7. Least privilege. Every record of a published project payload comes from an entry that the scope
  binds and whose owner allowed projects to use it; it carries the local name, the exported and the essential
  fields only, tags and note only if the binding exports them, references only to entries of the same scope
  by their local names, and the secrets of its own accounts.\<close>

theorem projection_least_privilege:
  assumes "vault_data d es c" and "project_payload C fresh k False sid x d = Inr (dx, p)" and "r \<in> set (items (fld p ''entries''))"
  shows "\<exists>e \<in> set es. \<exists>b \<in> set (bindings_of sid c). bi_entry b = e_id e \<and> e_distribution e = JStr ''project_allowed''
    \<and> least_privilege (bindings_of sid c) e b r \<and> own_secrets k e r"
  by (rule payload_private [OF assms])

theorem projection_least_privilege_witness:
  "\<exists>e \<in> set [shared_entry, other_entry]. e_distribution e = JStr ''project_allowed''
     \<and> least_privilege (bindings_of (id_of (CHR ''1'')) example_catalog) e shared_binding (hd (items (fld shared_payload ''entries'')))"
proof -
  have "hd (items (fld shared_payload ''entries'')) \<in> set (items (fld shared_payload ''entries''))" by (simp add: shared_payload_def fld_def)
  from projection_least_privilege [OF vault_examples(1) shared_payload [where other = "''x''"] this, of "[shared_entry, other_entry]"]
  obtain e b where e: "e \<in> set [shared_entry, other_entry]" "b \<in> set (bindings_of (id_of (CHR ''1'')) example_catalog)"
    "e_distribution e = JStr ''project_allowed''"
    "least_privilege (bindings_of (id_of (CHR ''1'')) example_catalog) e b (hd (items (fld shared_payload ''entries'')))"
    by blast
  moreover have "b = shared_binding" using e(2) by (simp add: bindings_of_def example_catalog_def split: if_splits)
  ultimately show ?thesis by blast
qed

text \<open>C8. What is published depends on nothing else: two vaults with one catalog that agree on the entries bound
  to a scope, and two credential stores that agree on the accounts of these entries, give the same payload,
  whatever the other entries and the other secrets are.\<close>

theorem projection_noninterference:
  assumes "vault_data d es c" and "vault_data d' es' c'" and "md_catalog d' = md_catalog d"
    and "same_bound (bindings_of sid c) es es'" and "same_accounts (bindings_of sid c) k k'"
    and "project_payload C fresh k False sid x d = Inr (dx, p)" and "project_payload C fresh' k' False sid x' d' = Inr (dx', p')"
  shows "p' = p"
  by (rule payload_same [OF assms])

theorem projection_noninterference_witness:
  "map_sum id snd (project_payload plain_crypto example_fresh (example_keychain ''two'') False (id_of (CHR ''1'')) None (vault_with [shared_entry]))
   = map_sum id snd (project_payload plain_crypto example_fresh (example_keychain ''one'') False (id_of (CHR ''1'')) None (vault_with [shared_entry, other_entry]))"
proof -
  let ?d = "vault_with [shared_entry, other_entry]" and ?d' = "vault_with [shared_entry]"
  have v: "vault_data ?d [shared_entry, other_entry] example_catalog" "vault_data ?d' [shared_entry] example_catalog"
    by (rule vault_examples, simp)+
  have ne: "e_id other_entry \<noteq> e_id shared_entry" using distinct_ids by (simp add: shared_entry_def other_entry_def)
  have b: "bindings_of (id_of (CHR ''1'')) example_catalog = [shared_binding]" "bi_entry shared_binding = e_id shared_entry"
    by (simp_all add: bindings_of_def example_catalog_def shared_binding_def)
  have pa: "passphrase_id (e_id shared_entry) \<noteq> e_id shared_entry" by (simp add: passphrase_id_def)
  have px: "passphrase_id (e_id shared_entry) \<noteq> e_id other_entry" by (simp add: passphrase_id_def shared_entry_def other_entry_def id_of_def numeral_eq_Suc)
  have s: "same_bound [shared_binding] [shared_entry, other_entry] [shared_entry]"
    using ne by (auto simp: same_bound_def b)
  have acc: "same_accounts [shared_binding] (example_keychain ''one'') (example_keychain ''two'')"
    using ne pa px by (auto simp: same_accounts_def b example_keychain_def)
  obtain p p' where p: "project_payload plain_crypto example_fresh (example_keychain ''one'') False (id_of (CHR ''1'')) None ?d = Inr (?d, p)"
    "project_payload plain_crypto example_fresh (example_keychain ''two'') False (id_of (CHR ''1'')) None ?d' = Inr (?d', p')"
    using shared_payload by blast
  have "p' = p"
    by (rule projection_noninterference [OF v(1) v(2) _ _ _ p(1) p(2)]) (simp_all add: b s acc, simp add: vault_with_def)
  then show ?thesis using p by simp
qed

text \<open>C9. A payload that the master publishes, within the limits on sizes, is one that a replica installs unchanged;
  the replica then lists the entries of the scope under their local names, gives every required secret,
  and no secret but those of the bound entries, each as the master's credential store has it.\<close>

theorem published_payload_readable:
  assumes "vault_data d es c" and "project_payload C fresh k personal sid x d = Inr (dx, p)" and "small_payload p"
    and "\<And>m. is_sha256 (sha256_hex C m)"
  shows "validate_replica_payload p = Inr p \<and> (\<exists>bs qs ss. scope_bindings C personal sid es c = Inr bs
     \<and> entries_and_secrets p = Inr (qs, ss) \<and> map e_id qs = map bi_entry bs \<and> map e_name qs = map bi_local bs
     \<and> master_secrets k (map bi_entry bs) ss
     \<and> (\<forall>e \<in> set es. e_id e \<in> set (map bi_entry bs) \<and> entry_requires_secret e \<longrightarrow> map_of (rev ss) (e_id e) \<noteq> None))"
  using payload_accepted [OF assms] published_contents [OF assms(1,2,3)] by blast

theorem published_payload_readable_witness: "validate_replica_payload shared_payload = Inr shared_payload"
proof -
  have sha: "is_sha256 (sha256_hex plain_crypto m)" for m
    using is_hash_of [OF hex_digits(1)] by (simp add: plain_crypto_def is_hash_def)
  have "len (default_text shared_payload) \<le> 16777216"
    by (simp add: shared_payload_def shared_record_eq entry_to_dict_def shared_view_def shared_entry_def default_text_def
        hex_chars hex_digits escaped_id quote_def escape_char_def byte_def show_int_def show_nat.simps)
  then have "small_payload shared_payload"
    by (simp add: small_payload_def) (simp add: shared_payload_def fld_def shared_record_eq entry_to_dict_def replica_secret_def
        shared_view_def shared_entry_def)
  from published_payload_readable [OF vault_examples(1) shared_payload this sha] show ?thesis by blast
qed

text \<open>C10. Installing a generation is all or nothing: whatever step fails and wherever the process dies, the replica
  shows the old generation or the new one, which is later in the history of the same vault; when the
  installation returns it shows the one it was given.\<close>

theorem install_all_or_nothing:
  "case install identity v w a env (D, n) of (r, d, n') \<Rightarrow>
     replaces (read_active identity D) (read_active identity d)
     \<and> (case r of Done _ \<Rightarrow> (case validate_replica_payload v of Inl _ \<Rightarrow> False | Inr p \<Rightarrow> installed identity p w d) | _ \<Rightarrow> True)"
proof -
  obtain r d n' where r: "install identity v w a env (D, n) = (r, d, n')" by (cases "install identity v w a env (D, n)")
  from triple_D [OF install_safe refl r] show ?thesis by (cases r) (auto simp: r)
qed

text \<open>C11. No sequence of installations, faulty ones included, takes a replica back: what was active stays active or
  is followed by a checkpoint of the same scope and vault with a greater sequence and no smaller epoch and
  policy version.\<close>

theorem replica_never_rolls_back: "never_back (read_active identity d) (read_active identity (run_installs identity qs d))"
  by (rule installs_never_back)

section \<open>The catalog service\<close>

text \<open>C12. A publication of a scope captures the desired revisions and later acknowledges them. Whatever
  requests come in between, an entry then awaits the next publication exactly when one of them changed
  what the scope publishes of it: an assignment, an unassignment, a change of its distribution while it
  is bound, or a journaled change of the entry. No change is lost and nothing is published twice.\<close>

theorem publication_accounting:
  assumes "valid_store d" and "catalog_step C fresh (CaCapture s) d = Inr (d1, captured)" and "list_all (\<lambda>q. \<not> is_mark q) qs"
    and "catalog_step C fresh (CaMark s (as_captured captured)) (run (catalog_step C fresh) qs d1) = Inr (d2, r)"
  shows "awaits_publication d2 s e \<longleftrightarrow> (s, e) \<in> republished C fresh qs d1"
  using assms by (rule publication_round)

theorem publication_accounting_witness: "awaits_publication (catalog_vault unassigned_catalog) (id_of (CHR ''1'')) (e_id shared_entry)"
proof -
  let ?q = "CaUnassign (id_of (CHR ''1'')) (e_id shared_entry)"
  have r: "run (catalog_step toy example_fresh) [?q] (catalog_vault example_catalog) = catalog_vault unassigned_catalog"
    by (simp add: commit_def example_unassign)
  have "(id_of (CHR ''1''), e_id shared_entry) \<in> republished toy example_fresh [?q] (catalog_vault example_catalog)"
    by (simp add: example_unassign example_published)
  then show ?thesis
    using publication_accounting [of "catalog_vault example_catalog" toy example_fresh "id_of (CHR ''1'')" "catalog_vault example_catalog" "[]" "[?q]"
        "catalog_vault unassigned_catalog" "[]" "e_id shared_entry"]
      fitting_valid(2) [OF fitting_example] example_capture example_mark [of toy] r
    by (simp add: is_mark_def del: republished.simps)
qed

text \<open>C13. Only an assignment shares an entry: it adds exactly one binding, of an entry that is marked as
  shareable, to a scope of an active project. An unassignment removes exactly that binding, and no
  other request, whatever it moves, renames or archives, changes the bindings.\<close>

theorem only_assignment_shares:
  assumes "catalog_step C fresh q d = Inr (d', r)" and "valid_store d"
  shows "case q of
      CaAssign s e _ _ \<Rightarrow> \<exists>b. all_bindings d' = all_bindings d @ [b] \<and> bi_scope b = s \<and> bi_entry b = e \<and> shareable d s e
    | CaUnassign s e \<Rightarrow> all_bindings d' = filter (\<lambda>b. \<not> (bi_scope b = s \<and> bi_entry b = e)) (all_bindings d)
    | _ \<Rightarrow> all_bindings d' = all_bindings d"
  using step_bindings [OF assms] by (simp only: bindings_after_def)

theorem only_assignment_shares_witness: "all_bindings (catalog_vault unassigned_catalog)
    = filter (\<lambda>b. \<not> (bi_scope b = id_of (CHR ''1'') \<and> bi_entry b = e_id shared_entry)) (all_bindings (catalog_vault example_catalog))"
  using only_assignment_shares [OF example_unassign [of toy] fitting_valid(2) [OF fitting_example]] by simp

text \<open>C14. The catalog service never adds, renames or deletes an entry: whatever requests the store of any
  readable file is sent, it stays valid, with the same entries in the same order and the same
  tombstones.\<close>

theorem catalog_requests_keep_entries:
  "case read_metadata raw of Inl _ \<Rightarrow> True
   | Inr d \<Rightarrow> valid_store (run (catalog_step C fresh) qs d) \<and> same_entries d (run (catalog_step C fresh) qs d)"
proof -
  have "valid_store d" if "read_metadata raw = Inr d" for d using that by (rule read_metadata_valid)
  then show ?thesis using catalog_service.run_inv catalog_service.run_le by (auto split: sum.split)
qed

text \<open>C15. In every catalog that is accepted, the walk from a folder to its ancestors, which has no guard
  against cycles, ends, and it finds exactly the folders above.\<close>

theorem folder_walk_ends:
  "case catalog_from_dict known v of Inl _ \<Rightarrow> True
   | Inr c \<Rightarrow> is_descendant c x y = Some ((x, y) \<in> (parent_of (ca_folders c))\<^sup>+)"
  by (auto split: sum.split dest: catalog_read intro: descendant_walk)

end
